(* ===== verification/Sync_Prelude.thy ===== *)
theory Sync_Prelude
  imports Main "HOL-Library.AList"
begin

text \<open>
  Shared vocabulary of the development: octet buffers, the JavaScript string
  operations the sources use, results of operations that may throw, and the
  generic list lemmas the component theories build on.

  A \<^emph>\<open>buffer\<close> is a list of octets and an octet is a HOL \<^typ>\<open>char\<close> (eight
  bits).  A JavaScript string is represented by its UTF-8 octets, so
  \<^verbatim>\<open>Buffer.from(s, 'utf8')\<close> is the identity of the representation and the
  ASCII patterns of the sources read the same octets.
\<close>

section \<open>Collections of facts\<close>

named_theorems res_simps \<open>evaluation of the throwing computations\<close>
named_theorems codec_simps \<open>encoders undone by their decoders\<close>
named_theorems wf_intros \<open>preservation of well-formedness predicates\<close>

section \<open>Octets and throwing computations\<close>

type_synonym octet = char
type_synonym octets = "char list"

text \<open>\<^verbatim>\<open>throw new Error(m)\<close> is \<^term>\<open>Inl m\<close>, a normal return \<^term>\<open>Inr v\<close>.\<close>

type_synonym 'a res = "string + 'a"

definition rbind :: "'a res \<Rightarrow> ('a \<Rightarrow> 'b res) \<Rightarrow> 'b res" where
  "rbind m f = (case m of Inl e \<Rightarrow> Inl e | Inr v \<Rightarrow> f v)"

fun rtraverse :: "('a \<Rightarrow> 'b res) \<Rightarrow> 'a list \<Rightarrow> 'b list res" where
  "rtraverse f [] = Inr []"
| "rtraverse f (x # xs) = rbind (f x) (\<lambda>y. rbind (rtraverse f xs) (\<lambda>ys. Inr (y # ys)))"

definition is_ok :: "'a res \<Rightarrow> bool" where
  "is_ok m = (case m of Inl _ \<Rightarrow> False | Inr _ \<Rightarrow> True)"

lemma rbind_simps [simp, res_simps]:
  "rbind (Inl e) f = Inl e" "rbind (Inr v) f = f v"
  by (simp_all add: rbind_def)

lemma is_ok_simps [simp, res_simps]: "\<not> is_ok (Inl e)" "is_ok (Inr v)"
  by (simp_all add: is_ok_def)

lemma rbind_Inr_iff: "rbind m f = Inr b \<longleftrightarrow> (\<exists>a. m = Inr a \<and> f a = Inr b)"
  by (cases m) auto

lemma rbind_InrE:
  assumes "rbind m f = Inr b"
  obtains a where "m = Inr a" "f a = Inr b"
  using assms by (auto simp: rbind_Inr_iff)

lemma is_ok_rbind: "is_ok (rbind m f) \<longleftrightarrow> (\<exists>a. m = Inr a \<and> is_ok (f a))"
  by (cases m) auto

lemma rtraverse_Inr_iff:
  "rtraverse f xs = Inr ys \<longleftrightarrow> list_all2 (\<lambda>x y. f x = Inr y) xs ys"
  by (induction xs arbitrary: ys) (auto simp: rbind_Inr_iff list_all2_Cons1)

lemma rtraverse_length: "rtraverse f xs = Inr ys \<Longrightarrow> length ys = length xs"
  by (simp add: rtraverse_Inr_iff list_all2_lengthD)

lemma rtraverse_Inr_map: "(\<And>x. x \<in> set xs \<Longrightarrow> f x = Inr (g x)) \<Longrightarrow> rtraverse f xs = Inr (map g xs)"
  by (induction xs) auto

section \<open>Hexadecimal\<close>

definition hex_digits :: string where
  "hex_digits = ''0123456789abcdef''"

definition hexval :: "char \<Rightarrow> nat option" where
  "hexval c =
     (let n = of_char c in
      if 48 \<le> n \<and> n \<le> 57 then Some (n - 48)
      else if 97 \<le> n \<and> n \<le> 102 then Some (n - 87)
      else if 65 \<le> n \<and> n \<le> 70 then Some (n - 55)
      else None)"

definition hex_octet :: "octet \<Rightarrow> string" where
  "hex_octet c = [hex_digits ! (of_char c div 16), hex_digits ! (of_char c mod 16)]"

text \<open>\<^verbatim>\<open>buf.toString('hex')\<close>.\<close>

definition hexenc :: "octets \<Rightarrow> string" where
  "hexenc bs = concat (map hex_octet bs)"

text \<open>\<^verbatim>\<open>Buffer.from(s, 'hex')\<close>: decoding stops at the first pair that is not two
  hexadecimal digits, and an odd last digit is dropped.\<close>

fun hexdec :: "string \<Rightarrow> octets" where
  "hexdec (a # b # s) =
     (case (hexval a, hexval b) of
        (Some x, Some y) \<Rightarrow> char_of (16 * x + y) # hexdec s
      | _ \<Rightarrow> [])"
| "hexdec _ = []"

lemma hexval_digit: "n < 16 \<Longrightarrow> hexval (hex_digits ! n) = Some n"
proof -
  assume "n < 16"
  then have "n \<in> set [0..<16]" by simp
  moreover have "\<forall>n \<in> set [0..<16]. hexval (hex_digits ! n) = Some n"
    by (simp add: hexval_def hex_digits_def upt_rec)
  ultimately show ?thesis by blast
qed

lemma hexdec_hexenc [simp, codec_simps]: "hexdec (hexenc bs) = bs"
proof (induction bs)
  case Nil
  then show ?case by (simp add: hexenc_def)
next
  case (Cons c bs)
  have "of_char c div 16 < (16::nat)"
    using nat_of_char_less_256 [of c] by linarith
  then have "hexdec (hexenc (c # bs)) = char_of (16 * (of_char c div 16) + of_char c mod 16 :: nat) # hexdec (hexenc bs)"
    by (simp add: hexenc_def hex_octet_def hexval_digit)
  then show ?case using Cons by simp
qed

lemma hexenc_inject [simp]: "hexenc a = hexenc b \<longleftrightarrow> a = b"
  by (metis hexdec_hexenc)

lemma length_hexenc [simp]: "length (hexenc bs) = 2 * length bs"
  by (induction bs) (simp_all add: hexenc_def hex_octet_def)

section \<open>Decimal text\<close>

definition is_digit :: "char \<Rightarrow> bool" where
  "is_digit c = (48 \<le> (of_char c :: nat) \<and> of_char c \<le> (57 :: nat))"

definition digit_char :: "nat \<Rightarrow> char" where
  "digit_char n = char_of (48 + n)"

definition digit_val :: "char \<Rightarrow> nat" where
  "digit_val c = of_char c - 48"

text \<open>The value of a digit string, most significant digit first.\<close>

definition dec_val :: "string \<Rightarrow> nat" where
  "dec_val s = foldl (\<lambda>a c. 10 * a + digit_val c) 0 s"

text \<open>\<^verbatim>\<open>String(n)\<close> and \<^verbatim>\<open>n.toString()\<close> on a non-negative integer.\<close>

fun nat_str :: "nat \<Rightarrow> string" where
  "nat_str n = (if n < 10 then [digit_char n] else nat_str (n div 10) @ [digit_char (n mod 10)])"

declare nat_str.simps [simp del]

lemma is_digit_char: "n < 10 \<Longrightarrow> is_digit (digit_char n)"
  by (simp add: is_digit_def digit_char_def)

lemma digit_val_char [codec_simps]: "n < 10 \<Longrightarrow> digit_val (digit_char n) = n"
  by (simp add: digit_val_def digit_char_def)

lemma digit_char_val: "is_digit c \<Longrightarrow> digit_char (digit_val c) = c"
  by (simp add: is_digit_def digit_char_def digit_val_def)

lemma digit_val_less: "is_digit c \<Longrightarrow> digit_val c < 10"
  by (simp add: is_digit_def digit_val_def) linarith

lemma dec_val_Nil [simp]: "dec_val [] = 0"
  by (simp add: dec_val_def)

lemma dec_val_snoc: "dec_val (s @ [c]) = 10 * dec_val s + digit_val c"
  by (simp add: dec_val_def)

lemma dec_val_append: "dec_val (s @ t) = dec_val s * 10 ^ length t + dec_val t"
  by (induction t rule: rev_induct)
     (simp_all add: dec_val_snoc append_assoc [symmetric] algebra_simps del: append_assoc)

lemma dec_val_zeros: "set s \<subseteq> {CHR ''0''} \<Longrightarrow> dec_val s = 0"
  by (induction s rule: rev_induct) (auto simp: dec_val_snoc digit_val_def)

lemma dec_val_less: "\<forall>c \<in> set s. is_digit c \<Longrightarrow> dec_val s < 10 ^ length s"
proof (induction s rule: rev_induct)
  case (snoc c s)
  then have "dec_val s < 10 ^ length s" "digit_val c < 10"
    by (auto intro: digit_val_less)
  then show ?case by (simp add: dec_val_snoc)
qed simp

lemma dec_val_inj:
  assumes "\<forall>c \<in> set s. is_digit c" "\<forall>c \<in> set t. is_digit c" "length s = length t" "dec_val s = dec_val t"
  shows "s = t"
  using assms
proof (induction s arbitrary: t rule: rev_induct)
  case (snoc c s)
  then obtain d t' where t: "t = t' @ [d]"
    by (cases t rule: rev_cases) auto
  with snoc.prems have lt: "digit_val c < 10" "digit_val d < 10"
    by (auto intro: digit_val_less)
  from snoc.prems t have "10 * dec_val s + digit_val c = 10 * dec_val t' + digit_val d"
    by (simp add: dec_val_snoc)
  with lt have eq: "dec_val s = dec_val t'" "digit_val c = digit_val d"
    by presburger+
  with snoc t have "s = t'" by simp
  moreover from eq(2) snoc.prems t have "c = d"
    by (metis digit_char_val in_set_conv_decomp)
  ultimately show ?case using t by simp
qed simp

lemma nat_str_digits: "\<forall>c \<in> set (nat_str n). is_digit c"
  by (induction n rule: nat_str.induct)
     (subst nat_str.simps, auto simp: is_digit_char)

lemma nat_str_nonempty [simp]: "nat_str n \<noteq> []"
  by (subst nat_str.simps) simp

lemma dec_val_nat_str [simp, codec_simps]: "dec_val (nat_str n) = n"
proof (induction n rule: nat_str.induct)
  case (1 n)
  show ?case
  proof (cases "n < 10")
    case True
    then show ?thesis
      by (subst nat_str.simps) (simp add: dec_val_def digit_val_char)
  next
    case False
    with 1 show ?thesis
      by (subst nat_str.simps) (simp add: dec_val_snoc digit_val_char)
  qed
qed

lemma nat_str_inject [simp]: "nat_str m = nat_str n \<longleftrightarrow> m = n"
  by (metis dec_val_nat_str)

section \<open>Trimming and ASCII case\<close>

text \<open>The UTF-8 octets of the code points \<^verbatim>\<open>String.prototype.trim\<close> removes.\<close>

definition js_ws :: "string list" where
  "js_ws =
     [[CHR 0x09], [CHR 0x0A], [CHR 0x0B], [CHR 0x0C], [CHR 0x0D], [CHR 0x20], [CHR 0xC2, CHR 0xA0],
      [CHR 0xE1, CHR 0x9A, CHR 0x80], [CHR 0xE2, CHR 0x80, CHR 0x80], [CHR 0xE2, CHR 0x80, CHR 0x81],
      [CHR 0xE2, CHR 0x80, CHR 0x82], [CHR 0xE2, CHR 0x80, CHR 0x83], [CHR 0xE2, CHR 0x80, CHR 0x84],
      [CHR 0xE2, CHR 0x80, CHR 0x85], [CHR 0xE2, CHR 0x80, CHR 0x86], [CHR 0xE2, CHR 0x80, CHR 0x87],
      [CHR 0xE2, CHR 0x80, CHR 0x88], [CHR 0xE2, CHR 0x80, CHR 0x89], [CHR 0xE2, CHR 0x80, CHR 0x8A],
      [CHR 0xE2, CHR 0x80, CHR 0xA8], [CHR 0xE2, CHR 0x80, CHR 0xA9], [CHR 0xE2, CHR 0x80, CHR 0xAF],
      [CHR 0xE2, CHR 0x81, CHR 0x9F], [CHR 0xE3, CHR 0x80, CHR 0x80], [CHR 0xEF, CHR 0xBB, CHR 0xBF]]"

definition ws_prefix :: "string list \<Rightarrow> string \<Rightarrow> string option" where
  "ws_prefix ws s = find (\<lambda>w. w \<noteq> [] \<and> take (length w) s = w) ws"

lemma ws_prefix_SomeD: "ws_prefix ws s = Some w \<Longrightarrow> w \<noteq> [] \<and> take (length w) s = w"
  by (auto simp: ws_prefix_def find_Some_iff)

lemma ws_prefix_shorter: "ws_prefix ws s = Some w \<Longrightarrow> length (drop (length w) s) < length s"
  by (cases s) (auto dest!: ws_prefix_SomeD)

function trim_start :: "string list \<Rightarrow> string \<Rightarrow> string" where
  "trim_start ws s =
     (case ws_prefix ws s of None \<Rightarrow> s | Some w \<Rightarrow> trim_start ws (drop (length w) s))"
  by pat_completeness auto
termination
  by (relation "measure (\<lambda>(ws, s). length s)")
     (auto dest: ws_prefix_shorter)

declare trim_start.simps [simp del]

definition js_trim :: "string \<Rightarrow> string" where
  "js_trim s = rev (trim_start (map rev js_ws) (rev (trim_start js_ws s)))"

lemma ws_prefix_None:
  assumes "\<And>w. w \<in> set ws \<Longrightarrow> take 1 w \<noteq> take 1 s"
  shows "ws_prefix ws s = None"
proof (cases "ws_prefix ws s")
  case (Some w)
  then have w: "w \<in> set ws" "w \<noteq> []" "take (length w) s = w"
    by (auto simp: ws_prefix_def find_Some_iff)
  then have "take 1 w = take 1 s"
    by (metis One_nat_def length_greater_0_conv less_eq_Suc_le min.absorb1 take_take)
  with assms w show ?thesis by blast
qed

lemma trim_start_id: "(\<And>w. w \<in> set ws \<Longrightarrow> take 1 w \<noteq> take 1 s) \<Longrightarrow> trim_start ws s = s"
  by (subst trim_start.simps) (simp add: ws_prefix_None)

lemma js_trim_id:
  assumes "take 1 s \<notin> take 1 ` set js_ws" "take 1 (rev s) \<notin> (take 1 \<circ> rev) ` set js_ws"
  shows "js_trim s = s"
proof -
  have "trim_start js_ws s = s"
    by (rule trim_start_id) (metis assms(1) imageI)
  moreover have "trim_start (map rev js_ws) (rev s) = rev s"
    by (rule trim_start_id) (metis (no_types, lifting) assms(2) comp_apply image_eqI image_iff list.set_map)
  ultimately show ?thesis by (simp add: js_trim_def)
qed

text \<open>Text that starts and ends with a digit has nothing to trim.\<close>

lemma js_trim_digits:
  assumes "s \<noteq> []" "is_digit (hd s)" "is_digit (last s)"
  shows "js_trim s = s"
proof (rule js_trim_id)
  have no: "\<not> is_digit c" if "[c] \<in> take 1 ` set js_ws \<union> (take 1 \<circ> rev) ` set js_ws" for c
    using that by (auto simp: js_ws_def is_digit_def)
  from assms(1) have hd: "take 1 s = [hd s]" "take 1 (rev s) = [last s]"
    by (simp_all add: take_Suc hd_rev)
  show "take 1 s \<notin> take 1 ` set js_ws" using no [of "hd s"] assms(2) hd by auto
  show "take 1 (rev s) \<notin> (take 1 \<circ> rev) ` set js_ws" using no [of "last s"] assms(3) hd by auto
qed

text \<open>\<^verbatim>\<open>String(n)\<close> of an integer.\<close>

definition int_str :: "int \<Rightarrow> string" where
  "int_str n = (if n < 0 then CHR ''-'' # nat_str (nat (- n)) else nat_str (nat n))"

section \<open>Aggregates\<close>

text \<open>SQL \<^verbatim>\<open>MAX\<close> and \<^verbatim>\<open>MIN\<close> of a column: \<^verbatim>\<open>NULL\<close> on no row.\<close>

definition sql_max :: "int list \<Rightarrow> int option" where
  "sql_max xs = (case xs of [] \<Rightarrow> None | x # ys \<Rightarrow> Some (foldl max x ys))"

definition sql_min :: "int list \<Rightarrow> int option" where
  "sql_min xs = (case xs of [] \<Rightarrow> None | x # ys \<Rightarrow> Some (foldl min x ys))"

lemma foldl_max: "foldl max (x::int) xs = Max (set (x # xs))"
proof (induction xs arbitrary: x)
  case (Cons y xs)
  show ?case
    unfolding foldl_Cons Cons
    by (cases xs) (simp_all add: max.assoc)
qed simp

lemma sql_max_Max: "xs \<noteq> [] \<Longrightarrow> sql_max xs = Some (Max (set xs))"
  by (cases xs) (simp_all add: sql_max_def foldl_max)

lemma sql_max_SomeD: "sql_max xs = Some m \<Longrightarrow> m \<in> set xs \<and> (\<forall>x \<in> set xs. x \<le> m)"
proof -
  assume a: "sql_max xs = Some m"
  then have "xs \<noteq> []" by (auto simp: sql_max_def)
  with a show ?thesis by (auto simp: sql_max_Max intro: Max_in Max_ge)
qed

lemma foldl_min: "foldl min (x::int) xs = Min (set (x # xs))"
proof (induction xs arbitrary: x)
  case (Cons y xs)
  show ?case
    unfolding foldl_Cons Cons
    by (cases xs) (simp_all add: min.assoc)
qed simp

lemma sql_min_Min: "xs \<noteq> [] \<Longrightarrow> sql_min xs = Some (Min (set xs))"
  by (cases xs) (simp_all add: sql_min_def foldl_min)

section \<open>Interrupted sequences of writes\<close>

text \<open>An operation without a transaction is the list of its statements, computed from the state it
  starts in.  When running it again after a fault at any statement ends as an undisturbed run, so
  does running it after any number of faulted attempts.\<close>

definition run_writes :: "('s \<Rightarrow> 's) list \<Rightarrow> 's \<Rightarrow> 's" where
  "run_writes ws db = foldl (\<lambda>d w. w d) db ws"

lemma run_writes_simps [simp]:
  "run_writes [] db = db"
  "run_writes (w # ws) db = run_writes ws (w db)"
  "run_writes (ws @ vs) db = run_writes vs (run_writes ws db)"
  by (simp_all add: run_writes_def)

locale resumable =
  fixes writes :: "'s \<Rightarrow> ('s \<Rightarrow> 's) list"
  assumes resume: "run_writes (writes (run_writes (take k (writes s)) s)) (run_writes (take k (writes s)) s) =
    run_writes (writes s) s"
begin

definition attempt :: "nat \<Rightarrow> 's \<Rightarrow> 's" where
  "attempt k s = run_writes (take k (writes s)) s"

definition complete :: "'s \<Rightarrow> 's" where
  "complete s = run_writes (writes s) s"

lemma complete_attempt: "complete (attempt k s) = complete s"
  by (simp add: complete_def attempt_def resume)

lemma complete_attempts: "complete (foldl (\<lambda>d k. attempt k d) s ks) = complete s"
  by (induction ks arbitrary: s) (simp_all add: complete_attempt)

lemma complete_idem: "complete (complete s) = complete s"
  using complete_attempt [of "length (writes s)" s] by (simp add: attempt_def complete_def)

end

end
