(* ===== verification/Merkle_Primitives.thy ===== *)
theory Merkle_Primitives
  imports Sync_Prelude
begin

text \<open>
  The byte layer of the light-client commitment, \<^verbatim>\<open>src/src/merkle/primitives.js\<close>:
  domain-separated hashes, the table of empty-subtree constants, the canonical
  amount and field encodings and the key derivations.

  SHA-256 is the parameter \<open>H\<close> of every definition that hashes.  The results
  below hold for every \<open>H\<close>; where one depends on \<open>H\<close> having no collision it says
  so about the explicit finite set of messages that the computation hashed.
\<close>

section \<open>Constants and domain separation\<close>

type_synonym hash_fn = "octets \<Rightarrow> octets"

definition MERKLE_VERSION :: nat where "MERKLE_VERSION = 1"
definition STATE_ROOT_VERSION :: nat where "STATE_ROOT_VERSION = 1"
definition BLOCK_MERKLE_VERSION :: nat where "BLOCK_MERKLE_VERSION = 1"

definition SMT_DEPTH :: nat where "SMT_DEPTH = 256"

definition LEAF_PREFIX :: octet where "LEAF_PREFIX = CHR 0x00"
definition NODE_PREFIX :: octet where "NODE_PREFIX = CHR 0x01"
definition EMPTY_PREFIX :: octet where "EMPTY_PREFIX = CHR 0x02"
definition NUL :: octet where "NUL = CHR 0x00"

definition leafHash :: "hash_fn \<Rightarrow> octets \<Rightarrow> octets" where
  "leafHash H bytes = H (LEAF_PREFIX # bytes)"

definition nodeHash :: "hash_fn \<Rightarrow> octets \<Rightarrow> octets \<Rightarrow> octets" where
  "nodeHash H left right = H (NODE_PREFIX # left @ right)"

text \<open>\<^verbatim>\<open>EMPTY[h]\<close>, the root of an all-empty subtree of height \<open>h\<close>.\<close>

primrec EMPTY :: "hash_fn \<Rightarrow> nat \<Rightarrow> octets" where
  "EMPTY H 0 = H (EMPTY_PREFIX # ''XCHAIN_EMPTY_LEAF'')"
| "EMPTY H (Suc h) = nodeHash H (EMPTY H h) (EMPTY H h)"

definition EMPTY_SMT_ROOT :: "hash_fn \<Rightarrow> octets" where
  "EMPTY_SMT_ROOT H = EMPTY H SMT_DEPTH"

section \<open>Canonical amounts\<close>

text \<open>The test \<^verbatim>\<open>/^\d+(\.\d{1,18})?$/\<close>.\<close>

definition amount_ok :: "string \<Rightarrow> bool" where
  "amount_ok s =
     (let i = takeWhile is_digit s; r = dropWhile is_digit s in
      i \<noteq> [] \<and>
      (case r of
         [] \<Rightarrow> True
       | c # f \<Rightarrow> c = CHR ''.'' \<and> list_all is_digit f \<and> 1 \<le> length f \<and> length f \<le> 18))"

definition int_part :: "string \<Rightarrow> string" where
  "int_part s = takeWhile is_digit s"

definition frac_part :: "string \<Rightarrow> string" where
  "frac_part s = drop 1 (dropWhile is_digit s)"

text \<open>\<^verbatim>\<open>replace(/^0+(?=\d)/, '')\<close>: leading zeros go as long as a digit follows.\<close>

fun strip_zeros :: "string \<Rightarrow> string" where
  "strip_zeros (c # d # s) = (if c = CHR ''0'' \<and> is_digit d then strip_zeros (d # s) else c # d # s)"
| "strip_zeros s = s"

definition canonicalAmount :: "string \<Rightarrow> string res" where
  "canonicalAmount input =
     (let s = js_trim input in
      if \<not> amount_ok s then Inl (''merkle: non-canonical amount '' @ input)
      else
        let intPart = strip_zeros (int_part s);
            fracPart = take 18 (frac_part s @ replicate 18 (CHR ''0''))
        in Inr (intPart @ [CHR ''.''] @ fracPart))"

section \<open>Field encoding and keys\<close>

fun join_nul :: "octets list \<Rightarrow> octets" where
  "join_nul [] = []"
| "join_nul [b] = b"
| "join_nul (b # bs) = b @ [NUL] @ join_nul bs"

definition field_octets :: "string \<Rightarrow> octets res" where
  "field_octets p =
     (if NUL \<in> set p
      then Inl (''merkle: field contains 0x00, breaks injective join: '' @ p)
      else Inr p)"

definition joinFields :: "string list \<Rightarrow> octets res" where
  "joinFields parts = rbind (rtraverse field_octets parts) (\<lambda>bs. Inr (join_nul bs))"

definition smtKey :: "hash_fn \<Rightarrow> string \<Rightarrow> string list \<Rightarrow> octets res" where
  "smtKey H domainTag fields = rbind (joinFields (domainTag # fields)) (\<lambda>b. Inr (H b))"

definition balanceKey :: "hash_fn \<Rightarrow> string \<Rightarrow> string \<Rightarrow> string \<Rightarrow> string \<Rightarrow> octets res" where
  "balanceKey H chain network address tick = smtKey H ''XCHAIN_BAL'' [chain, network, address, tick]"

definition escrowKey :: "hash_fn \<Rightarrow> string \<Rightarrow> string \<Rightarrow> string \<Rightarrow> string \<Rightarrow> octets res" where
  "escrowKey H chain network address tick = smtKey H ''XCHAIN_ESC'' [chain, network, address, tick]"

definition stakeKey :: "hash_fn \<Rightarrow> string \<Rightarrow> string \<Rightarrow> octets res" where
  "stakeKey H pubkey capability = smtKey H ''XCHAIN_STK'' [pubkey, capability]"

definition contractStateKey :: "hash_fn \<Rightarrow> string \<Rightarrow> string \<Rightarrow> nat \<Rightarrow> string \<Rightarrow> octets res" where
  "contractStateKey H chain network contractIndex stateKey =
     smtKey H ''XCHAIN_CST'' [chain, network, nat_str contractIndex, stateKey]"

definition amountLeaf :: "hash_fn \<Rightarrow> string \<Rightarrow> octets res" where
  "amountLeaf H amount = rbind (canonicalAmount amount) (\<lambda>c. Inr (leafHash H c))"

section \<open>The value of an amount\<close>

text \<open>The amount a decimal text denotes, in units of $10^{-18}$.\<close>

definition amount_value :: "string \<Rightarrow> nat" where
  "amount_value s =
     dec_val (int_part s) * 10 ^ 18 + dec_val (frac_part s) * 10 ^ (18 - length (frac_part s))"

lemma strip_zeros_digits: "\<forall>c \<in> set s. is_digit c \<Longrightarrow> \<forall>c \<in> set (strip_zeros s). is_digit c"
  by (induction s rule: strip_zeros.induct) auto

lemma strip_zeros_Nil [simp]: "strip_zeros s = [] \<longleftrightarrow> s = []"
  by (induction s rule: strip_zeros.induct) auto

lemma dec_val_strip_zeros: "dec_val (strip_zeros s) = dec_val s"
proof (induction s rule: strip_zeros.induct)
  case (1 c d s)
  have "dec_val (CHR ''0'' # d # s) = dec_val (d # s)"
    using dec_val_append [of "[CHR ''0'']" "d # s"] by (simp add: dec_val_zeros)
  with 1 show ?case by auto
qed auto

lemma dec_val_single: "dec_val [c] = digit_val c"
  by (simp add: dec_val_def)

lemma dec_val_Cons: "dec_val (c # s) = digit_val c * 10 ^ length s + dec_val s"
  using dec_val_append [of "[c]" s] by (simp add: dec_val_single)

lemma digit_val_0_iff: "is_digit c \<Longrightarrow> digit_val c = 0 \<longleftrightarrow> c = CHR ''0''"
proof -
  assume "is_digit c"
  then have "digit_val c = 0 \<longleftrightarrow> c = digit_char 0"
    by (metis digit_char_val digit_val_char zero_less_numeral)
  also have "digit_char 0 = CHR ''0''" by code_simp
  finally show ?thesis .
qed

lemma strip_zeros_snoc:
  assumes "\<forall>c \<in> set s. is_digit c" "s \<noteq> []" "is_digit d"
  shows "strip_zeros (s @ [d]) = (if dec_val s = 0 then [d] else strip_zeros s @ [d])"
  using assms
proof (induction s rule: strip_zeros.induct)
  case (1 c e s)
  show ?case
  proof (cases "c = CHR ''0''")
    case True
    then have "dec_val (c # e # s) = dec_val (e # s)"
      by (simp add: dec_val_Cons [of "CHR ''0''"] digit_val_def)
    with 1 True show ?thesis by simp
  next
    case False
    with 1 have "dec_val (c # e # s) \<noteq> 0"
      by (simp add: dec_val_Cons [of c] digit_val_0_iff)
    with False show ?thesis by simp
  qed
qed (auto simp: dec_val_single digit_val_0_iff)

lemma strip_zeros_nat_str:
  "\<forall>c \<in> set s. is_digit c \<Longrightarrow> s \<noteq> [] \<Longrightarrow> strip_zeros s = nat_str (dec_val s)"
proof (induction s rule: rev_induct)
  case (snoc d s)
  then have d: "digit_val d < 10" "digit_char (digit_val d) = d"
    by (simp_all add: digit_val_less digit_char_val)
  show ?case
  proof (cases "s = []")
    case True
    with d show ?thesis by (simp add: dec_val_single nat_str.simps)
  next
    case False
    with snoc have IH: "strip_zeros s = nat_str (dec_val s)" by simp
    have "strip_zeros (s @ [d]) = (if dec_val s = 0 then [d] else strip_zeros s @ [d])"
      using snoc.prems False by (intro strip_zeros_snoc) auto
    moreover have "nat_str (dec_val (s @ [d])) = (if dec_val s = 0 then [d] else nat_str (dec_val s) @ [d])"
      using d by (subst nat_str.simps) (auto simp: dec_val_snoc)
    ultimately show ?thesis using IH by simp
  qed
qed simp

text \<open>The canonical text of an amount: the units, a point and eighteen fraction digits.\<close>

definition frac18 :: "nat \<Rightarrow> string" where
  "frac18 n = replicate (18 - length (nat_str n)) (CHR ''0'') @ nat_str n"

definition canon_text :: "nat \<Rightarrow> string" where
  "canon_text v = nat_str (v div 10 ^ 18) @ [CHR ''.''] @ frac18 (v mod 10 ^ 18)"

lemma nat_str_length: "0 < k \<Longrightarrow> n < 10 ^ k \<Longrightarrow> length (nat_str n) \<le> k"
proof (induction k arbitrary: n)
  case (Suc k)
  show ?case
  proof (cases "n < 10")
    case False
    with Suc.prems have "n div 10 < 10 ^ k" "0 < k"
      by (auto simp: div_less_iff_less_mult intro: gr0I)
    with Suc.IH have "length (nat_str (n div 10)) \<le> k" by blast
    with False show ?thesis by (subst nat_str.simps) simp
  qed (simp add: nat_str.simps)
qed simp

lemma digit_zero: "is_digit (CHR ''0'')"
  by (simp add: is_digit_def)

lemma frac18_digits: "\<forall>c \<in> set (frac18 n). is_digit c"
  using nat_str_digits by (auto simp: frac18_def digit_zero)

lemma frac18_length: "n < 10 ^ 18 \<Longrightarrow> length (frac18 n) = 18"
  using nat_str_length [of 18 n] by (simp add: frac18_def)

lemma dec_val_frac18: "dec_val (frac18 n) = n"
  by (simp add: frac18_def dec_val_append dec_val_zeros set_replicate_conv_if)

lemma frac18_unique:
  assumes "\<forall>c \<in> set f. is_digit c" "length f = 18"
  shows "frac18 (dec_val f) = f"
  by (rule dec_val_inj)
     (use assms dec_val_less [of f] in \<open>simp_all add: frac18_digits frac18_length dec_val_frac18\<close>)


lemma int_part_append: "\<forall>c \<in> set i. is_digit c \<Longrightarrow> \<not> is_digit d \<Longrightarrow> int_part (i @ d # r) = i"
  by (induction i) (auto simp: int_part_def)

lemma frac_part_append: "\<forall>c \<in> set i. is_digit c \<Longrightarrow> \<not> is_digit d \<Longrightarrow> frac_part (i @ d # r) = r"
  by (induction i) (auto simp: frac_part_def)

lemma point_not_digit: "\<not> is_digit (CHR ''.'')"
  by (simp add: is_digit_def)

lemma int_part_digits: "\<forall>c \<in> set (int_part s). is_digit c"
  by (auto simp: int_part_def dest: set_takeWhileD)

lemma amount_ok_parts:
  assumes "amount_ok s"
  shows "int_part s \<noteq> []" "\<forall>c \<in> set (frac_part s). is_digit c" "length (frac_part s) \<le> 18"
  using assms
  by (auto simp: amount_ok_def int_part_def frac_part_def Let_def list_all_iff
      simp del: dropWhile_eq_Nil_conv split: list.splits)

lemma pad18_value:
  assumes "\<forall>c \<in> set f. is_digit c" "length f \<le> 18"
  shows "take 18 (f @ replicate 18 (CHR ''0'')) = frac18 (dec_val f * 10 ^ (18 - length f))"
proof -
  let ?p = "f @ replicate (18 - length f) (CHR ''0'')"
  have "take 18 (f @ replicate 18 (CHR ''0'')) = ?p"
    using assms(2) by (simp add: min_def)
  moreover have "dec_val ?p = dec_val f * 10 ^ (18 - length f)"
    by (simp add: dec_val_append dec_val_zeros set_replicate_conv_if)
  moreover have "frac18 (dec_val ?p) = ?p"
    by (rule frac18_unique) (use assms digit_zero in \<open>auto\<close>)
  ultimately show ?thesis by simp
qed

lemma frac_value_less:
  assumes "\<forall>c \<in> set f. is_digit c" "length f \<le> 18"
  shows "dec_val f * 10 ^ (18 - length f) < 10 ^ 18"
proof -
  have "dec_val f * 10 ^ (18 - length f) < 10 ^ length f * 10 ^ (18 - length f)"
    using dec_val_less [OF assms(1)] by simp
  also have "\<dots> = 10 ^ 18" using assms(2) by (simp flip: power_add)
  finally show ?thesis .
qed

lemma canonicalAmount_text:
  "canonicalAmount s =
     (if amount_ok (js_trim s) then Inr (canon_text (amount_value (js_trim s)))
      else Inl (''merkle: non-canonical amount '' @ s))"
proof (cases "amount_ok (js_trim s)")
  case True
  let ?t = "js_trim s"
  note parts = amount_ok_parts [OF True]
  have "amount_value ?t div 10 ^ 18 = dec_val (int_part ?t)"
    "amount_value ?t mod 10 ^ 18 = dec_val (frac_part ?t) * 10 ^ (18 - length (frac_part ?t))"
    using frac_value_less [OF parts(2,3)] by (simp_all add: amount_value_def)
  then show ?thesis
    using True parts strip_zeros_nat_str [OF int_part_digits parts(1)] pad18_value [OF parts(2,3)]
    by (simp add: canonicalAmount_def canon_text_def Let_def)
qed (simp add: canonicalAmount_def)

lemma amount_value_canon_text: "amount_value (canon_text v) = v"
proof -
  have "int_part (canon_text v) = nat_str (v div 10 ^ 18)" "frac_part (canon_text v) = frac18 (v mod 10 ^ 18)"
    unfolding canon_text_def append_Cons append_Nil
    by (rule int_part_append frac_part_append, rule nat_str_digits, rule point_not_digit)+
  then show ?thesis
    by (simp add: amount_value_def dec_val_frac18 frac18_length)
qed

lemma amount_ok_canon_text: "amount_ok (canon_text v)"
proof -
  have d: "takeWhile is_digit (i @ CHR ''.'' # r) = i" "dropWhile is_digit (i @ CHR ''.'' # r) = CHR ''.'' # r"
    if "\<forall>c \<in> set i. is_digit c" for i r
    using that point_not_digit by (induction i) auto
  show ?thesis
    using frac18_digits [of "v mod 10 ^ 18"] frac18_length [of "v mod 10 ^ 18"] d [OF nat_str_digits]
    by (simp add: amount_ok_def canon_text_def Let_def list_all_iff)
qed

lemma js_trim_canon_text: "js_trim (canon_text v) = canon_text v"
proof (rule js_trim_digits)
  show "is_digit (hd (canon_text v))"
    using nat_str_digits [of "v div 10 ^ 18"] hd_in_set [OF nat_str_nonempty, of "v div 10 ^ 18"]
    by (simp add: canon_text_def)
  have "frac18 (v mod 10 ^ 18) \<noteq> []" by (simp add: frac18_def)
  then show "is_digit (last (canon_text v))"
    using frac18_digits [of "v mod 10 ^ 18"] by (simp add: canon_text_def)
qed (simp add: canon_text_def)

lemma canonicalAmount_canon_text: "canonicalAmount (canon_text v) = Inr (canon_text v)"
  by (simp add: canonicalAmount_text js_trim_canon_text amount_ok_canon_text amount_value_canon_text)

lemma canon_text_inject: "canon_text v = canon_text w \<longleftrightarrow> v = w"
  by (metis amount_value_canon_text)


section \<open>Injectivity of the field encoding\<close>

lemma joinFields_Inr_iff:
  "joinFields ps = Inr b \<longleftrightarrow> (\<forall>p \<in> set ps. NUL \<notin> set p) \<and> b = join_nul ps"
proof -
  have "list_all2 (\<lambda>x y. field_octets x = Inr y) ps bs \<longleftrightarrow> (\<forall>p \<in> set ps. NUL \<notin> set p) \<and> bs = ps" for bs
    by (induction ps arbitrary: bs) (auto simp: list_all2_Cons1 field_octets_def)
  then show ?thesis
    by (auto simp: joinFields_def rbind_Inr_iff rtraverse_Inr_iff)
qed

lemma join_nul_Cons: "ps \<noteq> [] \<Longrightarrow> join_nul (p # ps) = p @ NUL # join_nul ps"
  by (cases ps) auto

lemma nul_split:
  "NUL \<notin> set a \<Longrightarrow> NUL \<notin> set b \<Longrightarrow> a @ NUL # x = b @ NUL # y \<longleftrightarrow> a = b \<and> x = y"
  by (auto simp: append_eq_append_conv2 append_eq_Cons_conv Cons_eq_append_conv)

lemma join_nul_inject:
  assumes "ps \<noteq> []" "qs \<noteq> []" "\<forall>p \<in> set ps. NUL \<notin> set p" "\<forall>q \<in> set qs. NUL \<notin> set q"
    "join_nul ps = join_nul qs"
  shows "ps = qs"
  using assms
proof (induction ps arbitrary: qs)
  case (Cons p ps)
  then obtain q qs' where q: "qs = q # qs'" by (cases qs) auto
  show ?case
  proof (cases "ps = []"; cases "qs' = []")
    assume ne: "ps \<noteq> []" "qs' \<noteq> []"
    from Cons.prems q ne have "p = q \<and> join_nul ps = join_nul qs'"
      by (simp add: join_nul_Cons nul_split)
    moreover have "ps = qs'" if "join_nul ps = join_nul qs'"
      by (rule Cons.IH) (use that ne Cons.prems q in auto)
    ultimately show ?thesis using q by simp
  next
    assume "ps = []" "qs' \<noteq> []"
    with Cons.prems q have "NUL \<in> set p" by (simp add: join_nul_Cons)
    with Cons.prems show ?thesis by simp
  next
    assume *: "ps \<noteq> []" "qs' = []"
    with Cons.prems q have "q = p @ NUL # join_nul ps" by (simp add: join_nul_Cons)
    with Cons.prems q show ?thesis by simp
  qed (use Cons.prems q in auto)
qed simp

section \<open>Properties\<close>

text \<open>(C31) The canonical amount is a normal form: it is accepted again unchanged, it denotes the
  amount the input denoted, and two accepted inputs get the same text exactly when they
  denote the same amount.\<close>

theorem canonicalAmount_normal_form:
  assumes "canonicalAmount s = Inr c" "canonicalAmount t = Inr d"
  shows "canonicalAmount c = Inr c \<and> amount_value c = amount_value (js_trim s)
    \<and> (c = d \<longleftrightarrow> amount_value (js_trim s) = amount_value (js_trim t))"
  using assms
  by (auto simp: canonicalAmount_text js_trim_canon_text amount_ok_canon_text amount_value_canon_text
      canon_text_inject split: if_splits)

lemma canonicalAmount_normal_form_witness:
  "canonicalAmount ''1.500000000000000000'' = Inr ''1.500000000000000000''"
proof -
  have "canonicalAmount '' 001.5'' = Inr ''1.500000000000000000''" by code_simp
  from canonicalAmount_normal_form [OF this this] show ?thesis by blast
qed

text \<open>Key derivation is injective up to the hash: two different (domain tag, fields) pairs that
  derive one key give two different messages with the same hash, so a balance, an escrow, a
  stake and a contract-state key never share a message.\<close>

theorem smtKey_binding:
  assumes "smtKey H tag1 fs1 = Inr k" "smtKey H tag2 fs2 = Inr k" "(tag1, fs1) \<noteq> (tag2, fs2)"
  shows "join_nul (tag1 # fs1) \<noteq> join_nul (tag2 # fs2)
    \<and> H (join_nul (tag1 # fs1)) = k \<and> H (join_nul (tag2 # fs2)) = k"
proof -
  have "\<forall>p \<in> set (tag1 # fs1). NUL \<notin> set p" "\<forall>p \<in> set (tag2 # fs2). NUL \<notin> set p"
    "H (join_nul (tag1 # fs1)) = k" "H (join_nul (tag2 # fs2)) = k"
    using assms(1,2) by (auto simp: smtKey_def rbind_Inr_iff joinFields_Inr_iff)
  with join_nul_inject [of "tag1 # fs1" "tag2 # fs2"] assms(3) show ?thesis by blast
qed

lemma smtKey_binding_witness:
  "join_nul [''XCHAIN_BAL'', ''BTC''] \<noteq> join_nul [''XCHAIN_ESC'', ''BTC'']"
proof -
  have k: "smtKey (\<lambda>_. []) tag [''BTC''] = Inr []" if "NUL \<notin> set tag" for tag
    using that by (simp add: smtKey_def rbind_Inr_iff joinFields_Inr_iff NUL_def)
  have "NUL \<notin> set ''XCHAIN_BAL''" "NUL \<notin> set ''XCHAIN_ESC''" by (simp_all add: NUL_def)
  from smtKey_binding [OF k [OF this(1)] k [OF this(2)]] show ?thesis by simp
qed

end
