(* ===== verification/Sparse_Merkle.thy ===== *)
theory Sparse_Merkle
  imports Merkle_Primitives
begin

text \<open>
  The sparse Merkle tree of \<^verbatim>\<open>src/src/merkle.js\<close> (lines 86 to 202): bits of a key,
  the reference recursion, the in-memory tree with its membership and
  non-membership proofs, their verification and the compressed wire form.  The
  lemmas show that proofs verify, that two accepted proofs of different leaves
  exhibit a hash collision, that compression loses nothing and that a root is
  a function of the leaf map alone.
\<close>

section \<open>Bits of a key\<close>

text \<open>\<^verbatim>\<open>(keyBuf[i >> 3] >> (7 - (i & 7))) & 1\<close>; a read past the buffer is
  \<^verbatim>\<open>undefined >> n\<close>, which is zero.\<close>

definition bitAt :: "octets \<Rightarrow> nat \<Rightarrow> nat" where
  "bitAt keyBuf i =
     (if i div 8 < length keyBuf
      then (of_char (keyBuf ! (i div 8)) div 2 ^ (7 - i mod 8)) mod 2
      else 0)"

section \<open>The sparse Merkle tree\<close>

type_synonym smt_entry = "octets \<times> octets"   \<comment> \<open>key, leaf\<close>

definition goLeft :: "nat \<Rightarrow> smt_entry list \<Rightarrow> smt_entry list" where
  "goLeft depth es = filter (\<lambda>e. bitAt (fst e) depth = 0) es"

definition goRight :: "nat \<Rightarrow> smt_entry list \<Rightarrow> smt_entry list" where
  "goRight depth es = filter (\<lambda>e. bitAt (fst e) depth \<noteq> 0) es"

text \<open>The recursion starts at depth 0 and stops at \<^const>\<open>SMT_DEPTH\<close>, so the
  guard \<open>depth \<ge> SMT_DEPTH\<close> is the source's \<^verbatim>\<open>depth === SMT_DEPTH\<close>.\<close>

function smtNode :: "hash_fn \<Rightarrow> smt_entry list \<Rightarrow> nat \<Rightarrow> octets" where
  "smtNode H es depth =
     (if es = [] then EMPTY H (SMT_DEPTH - depth)
      else if depth \<ge> SMT_DEPTH then snd (hd es)
      else nodeHash H (smtNode H (goLeft depth es) (Suc depth)) (smtNode H (goRight depth es) (Suc depth)))"
  by pat_completeness auto
termination
  by (relation "measure (\<lambda>(H, es, depth). SMT_DEPTH - depth)") auto

declare smtNode.simps [simp del]

text \<open>\<^verbatim>\<open>SparseMerkleTree._leaves\<close>: a \<^verbatim>\<open>Map\<close> from key hex to leaf hex in insertion order.\<close>

type_synonym smt = "(string \<times> string) list"

definition smt_new :: smt where "smt_new = []"

definition smt_set :: "smt \<Rightarrow> octets \<Rightarrow> octets option \<Rightarrow> smt" where
  "smt_set t keyBuf leafBufOrNull =
     (case leafBufOrNull of
        None \<Rightarrow> AList.delete (hexenc keyBuf) t
      | Some leaf \<Rightarrow> AList.update (hexenc keyBuf) (hexenc leaf) t)"

definition smt_delete :: "smt \<Rightarrow> octets \<Rightarrow> smt" where
  "smt_delete t keyBuf = AList.delete (hexenc keyBuf) t"

definition smt_has :: "smt \<Rightarrow> octets \<Rightarrow> bool" where
  "smt_has t keyBuf = (map_of t (hexenc keyBuf) \<noteq> None)"

definition smt_size :: "smt \<Rightarrow> nat" where
  "smt_size t = length t"

definition smt_entries :: "smt \<Rightarrow> smt_entry list" where
  "smt_entries t = map (\<lambda>(k, v). (hexdec k, hexdec v)) t"

definition smt_root :: "hash_fn \<Rightarrow> smt \<Rightarrow> octets" where
  "smt_root H t = smtNode H (smt_entries t) 0"

definition smt_rootHex :: "hash_fn \<Rightarrow> smt \<Rightarrow> string" where
  "smt_rootHex H t = hexenc (smt_root H t)"

section \<open>Compressed proofs\<close>

record compressed_proof =
  cp_bitmap :: string
  cp_siblings :: "string list"

definition octet_or :: "octet \<Rightarrow> nat \<Rightarrow> octet" where
  "octet_or c n = char_of (Bit_Operations.or (of_char c) n :: nat)"

text \<open>\<^verbatim>\<open>bitmap[d >> 3] |= (1 << (7 - (d & 7)))\<close>.\<close>

definition set_bitmap_bit :: "octets \<Rightarrow> nat \<Rightarrow> octets" where
  "set_bitmap_bit bm d = bm[d div 8 := octet_or (bm ! (d div 8)) (2 ^ (7 - d mod 8))]"

fun compress_loop :: "hash_fn \<Rightarrow> string list \<Rightarrow> nat \<Rightarrow> octets \<times> string list \<Rightarrow> octets \<times> string list" where
  "compress_loop H [] d st = st"
| "compress_loop H (s # ss) d (bitmap, real) =
     (let sib = hexdec s in
      compress_loop H ss (Suc d)
        (if sib \<noteq> EMPTY H (SMT_DEPTH - 1 - d)
         then (set_bitmap_bit bitmap d, real @ [hexenc sib])
         else (bitmap, real)))"

definition compressSmtProof :: "hash_fn \<Rightarrow> string list \<Rightarrow> compressed_proof" where
  "compressSmtProof H siblings =
     (let (bitmap, real) = compress_loop H (take SMT_DEPTH siblings) 0 (replicate 32 (CHR 0x00), []) in
      \<lparr>cp_bitmap = hexenc bitmap, cp_siblings = real\<rparr>)"

text \<open>The loop of \<^verbatim>\<open>decompressSmtProof\<close>: \<open>n\<close> levels from depth \<open>d\<close> with \<open>ri\<close> siblings
  taken.  \<^term>\<open>None\<close> is the \<^verbatim>\<open>undefined\<close> of a read past the sibling list.\<close>

fun decompress_loop ::
  "hash_fn \<Rightarrow> octets \<Rightarrow> string list \<Rightarrow> nat \<Rightarrow> nat \<Rightarrow> nat \<Rightarrow> string option list \<times> nat" where
  "decompress_loop H bitmap real d 0 ri = ([], ri)"
| "decompress_loop H bitmap real d (Suc n) ri =
     (if bitAt bitmap d = 1
      then let (out, r) = decompress_loop H bitmap real (Suc d) n (Suc ri)
           in ((if ri < length real then Some (real ! ri) else None) # out, r)
      else let (out, r) = decompress_loop H bitmap real (Suc d) n ri
           in (Some (hexenc (EMPTY H (SMT_DEPTH - 1 - d))) # out, r))"

definition decompressSmtProof :: "hash_fn \<Rightarrow> compressed_proof \<Rightarrow> string list res" where
  "decompressSmtProof H compressed =
     (let bitmap = hexdec (cp_bitmap compressed);
          real = cp_siblings compressed;
          (out, ri) = decompress_loop H bitmap real 0 SMT_DEPTH 0
      in if ri \<noteq> length real then Inl ''merkle: surplus siblings in compressed proof''
         else Inr (map the out))"

section \<open>Proofs of the sparse tree\<close>

record smt_proof =
  sp_key :: string
  sp_leaf_value :: "string option"
  sp_siblings :: "string list"
  sp_compressed :: compressed_proof

text \<open>The loop of \<^verbatim>\<open>prove\<close>: \<open>n\<close> levels from \<open>depth\<close> on, over the entries that share the path.\<close>

fun prove_loop :: "hash_fn \<Rightarrow> octets \<Rightarrow> smt_entry list \<Rightarrow> nat \<Rightarrow> nat \<Rightarrow> string list" where
  "prove_loop H key level depth 0 = []"
| "prove_loop H key level depth (Suc n) =
     (let left = goLeft depth level; right = goRight depth level; toRight = (bitAt key depth = 1);
          sibEntries = (if toRight then left else right)
      in hexenc (smtNode H sibEntries (Suc depth))
         # prove_loop H key (if toRight then right else left) (Suc depth) n)"

definition smt_prove :: "hash_fn \<Rightarrow> smt \<Rightarrow> octets \<Rightarrow> smt_proof" where
  "smt_prove H t key =
     (let siblings = prove_loop H key (smt_entries t) 0 SMT_DEPTH; k = hexenc key in
      \<lparr>sp_key = k, sp_leaf_value = map_of t k, sp_siblings = siblings,
       sp_compressed = compressSmtProof H siblings\<rparr>)"

text \<open>The climb of \<^verbatim>\<open>verifySmtProof\<close> over depths \<open>d - 1\<close> down to 0.\<close>

primrec climb :: "hash_fn \<Rightarrow> octets \<Rightarrow> string list \<Rightarrow> octets \<Rightarrow> nat \<Rightarrow> octets" where
  "climb H key siblings node 0 = node"
| "climb H key siblings node (Suc d) =
     (let sib = hexdec (siblings ! d) in
      climb H key siblings
        (if bitAt key d = 0 then nodeHash H node sib else nodeHash H sib node) d)"

definition leaf_or_empty :: "hash_fn \<Rightarrow> string option \<Rightarrow> octets" where
  "leaf_or_empty H lv = (case lv of None \<Rightarrow> EMPTY H 0 | Some v \<Rightarrow> hexdec v)"

definition verifySmtProof :: "hash_fn \<Rightarrow> string \<Rightarrow> octets \<Rightarrow> string option \<Rightarrow> string list \<Rightarrow> bool" where
  "verifySmtProof H rootHex keyBuf leafValueOrNull siblings =
     (if length siblings \<noteq> SMT_DEPTH then False
      else hexenc (climb H keyBuf siblings (leaf_or_empty H leafValueOrNull) SMT_DEPTH) = rootHex)"

definition verifyCompressedSmtProof ::
  "hash_fn \<Rightarrow> string \<Rightarrow> octets \<Rightarrow> string option \<Rightarrow> compressed_proof \<Rightarrow> bool res" where
  "verifyCompressedSmtProof H rootHex keyBuf leafValueOrNull compressed =
     rbind (decompressSmtProof H compressed)
       (\<lambda>siblings. Inr (verifySmtProof H rootHex keyBuf leafValueOrNull siblings))"

section \<open>Bits and paths\<close>

lemma bitAt_01: "bitAt k i = 0 \<or> bitAt k i = 1"
  by (auto simp: bitAt_def)

lemma bitAt_ne_0: "bitAt k i \<noteq> 0 \<longleftrightarrow> bitAt k i = 1"
  using bitAt_01 [of k i] by auto

lemma bitAt_eq_iff: "bitAt a i = bitAt b j \<longleftrightarrow> (bitAt a i = 1 \<longleftrightarrow> bitAt b j = 1)"
  using bitAt_01 [of a i] bitAt_01 [of b j] by auto

lemma goRight_alt: "goRight d es = filter (\<lambda>e. bitAt (fst e) d = 1) es"
  by (simp only: goRight_def bitAt_ne_0)

lemma goLeft_alt: "goLeft d es = filter (\<lambda>e. bitAt (fst e) d \<noteq> 1) es"
  unfolding goLeft_def using bitAt_01 by (intro filter_cong) (simp, metis zero_neq_one)

lemma octet_eqI:
  assumes "\<And>j. j < 8 \<Longrightarrow> ((of_char c :: nat) div 2 ^ j) mod 2 = (of_char d div 2 ^ j) mod 2"
  shows "c = d"
proof -
  have "(of_char c :: nat) = of_char d"
  proof (rule bit_eqI)
    fix j
    show "bit (of_char c :: nat) j \<longleftrightarrow> bit (of_char d :: nat) j"
    proof (cases "j < 8")
      case True
      with assms [of j] show ?thesis by (simp add: bit_iff_odd odd_iff_mod_2_eq_one)
    next
      case False
      have "\<not> bit (of_char e :: nat) j" for e
      proof -
        have "(of_char e :: nat) < 2 ^ 8" by simp
        also have "\<dots> \<le> 2 ^ j" using False by (intro power_increasing) auto
        finally show ?thesis by (simp add: bit_iff_odd)
      qed
      then show ?thesis by blast
    qed
  qed
  then show ?thesis by (metis char_of_char)
qed

lemma key_eqI:
  assumes "length k = 32" "length k' = 32" "\<And>i. i < SMT_DEPTH \<Longrightarrow> bitAt k i = bitAt k' i"
  shows "k = k'"
proof (rule nth_equalityI)
  fix i assume i: "i < length k"
  show "k ! i = k' ! i"
  proof (rule octet_eqI)
    fix j :: nat assume j: "j < 8"
    let ?d = "8 * i + (7 - j)"
    have "?d div 8 = i" "?d < SMT_DEPTH"
      using i j assms(1) by (simp_all add: SMT_DEPTH_def)
    moreover have m: "(8 * i + x) mod 8 = x" if "x < 8" for x :: nat using that by simp
    have "?d mod 8 = 7 - j" by (rule m) simp
    ultimately show "((of_char (k ! i) :: nat) div 2 ^ j) mod 2 = (of_char (k' ! i) div 2 ^ j) mod 2"
      using assms(3) [of ?d] i j assms(1,2) by (simp add: bitAt_def)
  qed
qed (use assms in simp)

text \<open>The entries that share the first \<open>d\<close> bits of a key.\<close>

definition pathOf :: "octets \<Rightarrow> nat \<Rightarrow> smt_entry list \<Rightarrow> smt_entry list" where
  "pathOf key d es = filter (\<lambda>e. \<forall>i < d. bitAt (fst e) i = bitAt key i) es"

definition awayOf :: "octets \<Rightarrow> nat \<Rightarrow> smt_entry list \<Rightarrow> smt_entry list" where
  "awayOf key d es = filter (\<lambda>e. bitAt (fst e) d \<noteq> bitAt key d) (pathOf key d es)"

lemma pathOf_0 [simp]: "pathOf key 0 es = es"
  by (simp add: pathOf_def)

lemma pathOf_Suc:
  "pathOf key (Suc d) es = (if bitAt key d = 1 then goRight d (pathOf key d es) else goLeft d (pathOf key d es))"
proof -
  have "(\<forall>i < Suc d. bitAt k i = bitAt key i) \<longleftrightarrow> bitAt k d = bitAt key d \<and> (\<forall>i < d. bitAt k i = bitAt key i)" for k
    by (auto simp: less_Suc_eq)
  then show ?thesis
    using bitAt_01 [of key d] by (auto simp: pathOf_def goRight_alt goLeft_def conj_commute)
qed

lemma awayOf_eq:
  "awayOf key d es = (if bitAt key d = 1 then goLeft d (pathOf key d es) else goRight d (pathOf key d es))"
  using bitAt_01 [of key d] by (auto simp: awayOf_def goRight_def goLeft_alt)

lemma smtNode_empty [simp]: "smtNode H [] d = EMPTY H (SMT_DEPTH - d)"
  by (simp add: smtNode.simps)

lemma smtNode_leaf: "es \<noteq> [] \<Longrightarrow> smtNode H es SMT_DEPTH = snd (hd es)"
  by (simp add: smtNode.simps)

lemma smtNode_step:
  assumes "d < SMT_DEPTH"
  shows "smtNode H es d = nodeHash H (smtNode H (goLeft d es) (Suc d)) (smtNode H (goRight d es) (Suc d))"
proof (cases "es = []")
  case True
  have "SMT_DEPTH - d = Suc (SMT_DEPTH - Suc d)" using assms by simp
  with True show ?thesis by (simp add: goLeft_def goRight_def)
next
  case False
  with assms show ?thesis by (subst smtNode.simps) simp
qed

lemma smtNode_path_step:
  assumes "d < SMT_DEPTH"
  shows "smtNode H (pathOf key d es) d =
    (if bitAt key d = 0
     then nodeHash H (smtNode H (pathOf key (Suc d) es) (Suc d)) (smtNode H (awayOf key d es) (Suc d))
     else nodeHash H (smtNode H (awayOf key d es) (Suc d)) (smtNode H (pathOf key (Suc d) es) (Suc d)))"
  using smtNode_step [OF assms, of H "pathOf key d es"] bitAt_01 [of key d]
  by (auto simp: pathOf_Suc awayOf_eq)

section \<open>Proofs of the reference tree\<close>

lemma prove_loop_length [simp]: "length (prove_loop H key lv d n) = n"
  by (induction n arbitrary: lv d) (simp_all add: Let_def)

lemma prove_loop_nth:
  "i < n \<Longrightarrow> prove_loop H key (pathOf key d es) d n ! i =
     hexenc (smtNode H (awayOf key (d + i) es) (Suc (d + i)))"
proof (induction n arbitrary: d i)
  case (Suc n)
  have eq: "prove_loop H key (pathOf key d es) d (Suc n) =
      hexenc (smtNode H (awayOf key d es) (Suc d)) # prove_loop H key (pathOf key (Suc d) es) (Suc d) n"
    by (simp add: Let_def awayOf_eq pathOf_Suc)
  show ?case
  proof (cases i)
    case 0
    with eq show ?thesis by simp
  next
    case (Suc j)
    with Suc.prems Suc.IH [of j "Suc d"] eq show ?thesis by simp
  qed
qed simp

text \<open>The siblings of a key's path, and the climb over them: from the node of the key's
  subtree at depth \<open>d\<close> the climb reaches the root.\<close>

definition siblingsOf :: "hash_fn \<Rightarrow> octets \<Rightarrow> smt_entry list \<Rightarrow> string list" where
  "siblingsOf H key es = prove_loop H key es 0 SMT_DEPTH"

lemma siblingsOf_length [simp]: "length (siblingsOf H key es) = SMT_DEPTH"
  by (simp add: siblingsOf_def)

lemma siblingsOf_nth:
  "d < SMT_DEPTH \<Longrightarrow> siblingsOf H key es ! d = hexenc (smtNode H (awayOf key d es) (Suc d))"
  using prove_loop_nth [of d SMT_DEPTH H key 0 es] by (simp add: siblingsOf_def)

lemma climb_path:
  assumes "d \<le> SMT_DEPTH" "\<And>i. i < d \<Longrightarrow> sibs ! i = hexenc (smtNode H (awayOf key i es) (Suc i))"
  shows "climb H key sibs (smtNode H (pathOf key d es) d) d = smtNode H es 0"
  using assms
proof (induction d)
  case (Suc d)
  then have "climb H key sibs (smtNode H (pathOf key (Suc d) es) (Suc d)) (Suc d)
      = climb H key sibs (smtNode H (pathOf key d es) d) d"
    using smtNode_path_step [of d H key es] by (simp add: Let_def)
  with Suc show ?case by simp
qed simp

text \<open>Keys of a well-formed entry list are 32 octets and pairwise different.\<close>

definition wf_entries :: "smt_entry list \<Rightarrow> bool" where
  "wf_entries es = (distinct (map fst es) \<and> (\<forall>e \<in> set es. length (fst e) = 32))"

lemma pathOf_full:
  assumes "\<forall>e \<in> set es. length (fst e) = 32" "length key = 32"
  shows "pathOf key SMT_DEPTH es = filter (\<lambda>e. fst e = key) es"
  unfolding pathOf_def
proof (rule filter_cong)
  fix e assume "e \<in> set es"
  with assms(1) have "length (fst e) = 32" by simp
  then show "(\<forall>i<SMT_DEPTH. bitAt (fst e) i = bitAt key i) \<longleftrightarrow> fst e = key"
    using key_eqI [OF _ assms(2)] by blast
qed simp

lemma filter_fst_map_of:
  "distinct (map fst es) \<Longrightarrow>
     filter (\<lambda>e. fst e = k) es = (case map_of es k of None \<Rightarrow> [] | Some v \<Rightarrow> [(k, v)])"
proof (induction es)
  case (Cons e es)
  show ?case
  proof (cases "fst e = k")
    case True
    then have "k \<notin> fst ` set es" using Cons.prems by auto
    then have "filter (\<lambda>e. fst e = k) es = []" by (auto simp: filter_empty_conv)
    with True show ?thesis by (cases e) auto
  qed (use Cons in \<open>auto split: option.split\<close>)
qed simp

definition leafOf :: "hash_fn \<Rightarrow> smt_entry list \<Rightarrow> octets \<Rightarrow> octets" where
  "leafOf H es key = (case map_of es key of None \<Rightarrow> EMPTY H 0 | Some v \<Rightarrow> v)"

lemma smtNode_path_full:
  assumes "wf_entries es" "length key = 32"
  shows "smtNode H (pathOf key SMT_DEPTH es) SMT_DEPTH = leafOf H es key"
  using assms filter_fst_map_of [of es key]
  by (simp add: wf_entries_def pathOf_full leafOf_def smtNode_leaf split: option.split)

lemma climb_siblingsOf:
  assumes "wf_entries es" "length key = 32"
  shows "climb H key (siblingsOf H key es) (leafOf H es key) SMT_DEPTH = smtNode H es 0"
  using climb_path [of SMT_DEPTH "siblingsOf H key es" H key es] smtNode_path_full [OF assms, of H]
  by (simp add: siblingsOf_nth)

section \<open>The root depends on the entries as a set\<close>

definition same_path :: "nat \<Rightarrow> smt_entry list \<Rightarrow> bool" where
  "same_path d es = (\<forall>e \<in> set es. \<forall>e' \<in> set es. \<forall>i < d. bitAt (fst e) i = bitAt (fst e') i)"

lemma wf_entries_filter [wf_intros]: "wf_entries es \<Longrightarrow> wf_entries (filter P es)"
  by (auto simp: wf_entries_def distinct_map_filter)

lemma same_path_left: "same_path d es \<Longrightarrow> same_path (Suc d) (goLeft d es)"
  by (auto simp: same_path_def goLeft_def less_Suc_eq)

lemma same_path_right: "same_path d es \<Longrightarrow> same_path (Suc d) (goRight d es)"
  by (auto simp: same_path_def goRight_alt less_Suc_eq)

lemma same_path_full:
  assumes "same_path SMT_DEPTH es" "wf_entries es" "e \<in> set es" "e' \<in> set es"
  shows "e = e'"
proof -
  have "length (fst e) = 32" "length (fst e') = 32" "\<And>i. i < SMT_DEPTH \<Longrightarrow> bitAt (fst e) i = bitAt (fst e') i"
    using assms unfolding wf_entries_def same_path_def by blast+
  then have "fst e = fst e'" by (rule key_eqI)
  with assms show ?thesis
    by (metis eq_key_imp_eq_value prod.collapse wf_entries_def)
qed

lemma smtNode_cong_set:
  assumes "wf_entries es" "wf_entries es'" "set es = set es'" "same_path d es" "d \<le> SMT_DEPTH"
  shows "smtNode H es d = smtNode H es' d"
  using assms
proof (induction "SMT_DEPTH - d" arbitrary: d es es')
  case 0
  then have d: "d = SMT_DEPTH" by simp
  show ?case
  proof (cases "es = []")
    case True
    with 0 show ?thesis by simp
  next
    case False
    with 0 have ne: "es' \<noteq> []" by auto
    have "hd es \<in> set es" "hd es' \<in> set es"
      using hd_in_set [OF False] hd_in_set [OF ne] "0.prems"(3) by auto
    then have "hd es = hd es'"
      using same_path_full 0 d by blast
    with False ne d show ?thesis by (simp add: smtNode_leaf)
  qed
next
  case (Suc n)
  then have lt: "d < SMT_DEPTH" and n: "n = SMT_DEPTH - Suc d" by auto
  have l: "smtNode H (goLeft d es) (Suc d) = smtNode H (goLeft d es') (Suc d)"
    by (rule Suc.hyps(1) [OF n])
       (use Suc.prems lt same_path_left in \<open>auto simp: goLeft_def wf_entries_filter\<close>)
  have r: "smtNode H (goRight d es) (Suc d) = smtNode H (goRight d es') (Suc d)"
    by (rule Suc.hyps(1) [OF n])
       (use Suc.prems lt same_path_right in \<open>auto simp: goRight_def wf_entries_filter\<close>)
  show ?case using lt l r by (simp add: smtNode_step)
qed

corollary smtNode_root_cong:
  assumes "wf_entries es" "wf_entries es'" "set es = set es'"
  shows "smtNode H es 0 = smtNode H es' 0"
  using assms by (intro smtNode_cong_set) (auto simp: same_path_def)

section \<open>Replacing one leaf\<close>

text \<open>The entries with the leaf of \<open>key\<close> replaced (or removed).\<close>

definition put_entry :: "octets \<Rightarrow> octets option \<Rightarrow> smt_entry list \<Rightarrow> smt_entry list" where
  "put_entry key lo es =
     filter (\<lambda>e. fst e \<noteq> key) es @ (case lo of None \<Rightarrow> [] | Some l \<Rightarrow> [(key, l)])"

definition leaf_of_opt :: "hash_fn \<Rightarrow> octets option \<Rightarrow> octets" where
  "leaf_of_opt H lo = (case lo of None \<Rightarrow> EMPTY H 0 | Some l \<Rightarrow> l)"

lemma wf_put_entry [wf_intros]: "wf_entries es \<Longrightarrow> length key = 32 \<Longrightarrow> wf_entries (put_entry key lo es)"
  by (auto simp: wf_entries_def put_entry_def distinct_map_filter split: option.split)

lemma map_of_put_entry: "map_of (put_entry key lo es) = (map_of es)(key := lo)"
proof -
  have "map_of (filter (\<lambda>e. fst e \<noteq> key) es) = (map_of es)(key := None)"
    by (induction es) (auto simp: fun_eq_iff)
  then show ?thesis by (auto simp: put_entry_def map_add_def fun_eq_iff split: option.split)
qed

lemma awayOf_put_entry: "awayOf key d (put_entry key lo es) = awayOf key d es"
  by (auto simp: awayOf_def pathOf_def put_entry_def intro!: filter_cong split: option.split)

lemma siblingsOf_put_entry: "siblingsOf H key (put_entry key lo es) = siblingsOf H key es"
  by (rule nth_equalityI) (simp_all add: siblingsOf_nth awayOf_put_entry)

lemma leafOf_put_entry: "leafOf H (put_entry key lo es) key = leaf_of_opt H lo"
  by (simp add: leafOf_def map_of_put_entry leaf_of_opt_def)

text \<open>Climbing the old siblings with a new leaf gives the root of the updated tree.\<close>

lemma climb_put_entry:
  assumes "wf_entries es" "length key = 32"
  shows "climb H key (siblingsOf H key es) (leaf_of_opt H lo) SMT_DEPTH = smtNode H (put_entry key lo es) 0"
  using climb_siblingsOf [OF wf_put_entry [OF assms] assms(2), of H lo]
  by (simp add: siblingsOf_put_entry leafOf_put_entry)

section \<open>The in-memory tree\<close>

definition wf_smt :: "smt \<Rightarrow> bool" where
  "wf_smt t =
     (distinct (map fst t) \<and> (\<forall>k \<in> fst ` set t. hexenc (hexdec k) = k \<and> length (hexdec k) = 32))"

lemma wf_smt_new [wf_intros]: "wf_smt smt_new"
  by (simp add: wf_smt_def smt_new_def)

lemma wf_smt_set [wf_intros]:
  assumes "wf_smt t" "length key = 32"
  shows "wf_smt (smt_set t key lo)"
proof (cases lo)
  case None
  have "set (AList.delete (hexenc key) t) \<subseteq> set t"
    by (auto simp: AList.delete_eq)
  moreover have "distinct (map fst (AList.delete (hexenc key) t))"
    using assms by (simp add: wf_smt_def AList.delete_keys distinct_removeAll)
  ultimately show ?thesis
    using None assms by (auto simp: wf_smt_def smt_set_def)
next
  case (Some l)
  with assms show ?thesis
    by (auto simp: wf_smt_def smt_set_def AList.distinct_update dom_update)
qed

lemma wf_smt_entries: "wf_smt t \<Longrightarrow> wf_entries (smt_entries t)"
proof -
  assume t: "wf_smt t"
  have "inj_on hexdec (fst ` set t)"
    using t unfolding wf_smt_def inj_on_def by metis
  then have "distinct (map hexdec (map fst t))"
    using t by (simp only: distinct_map [of hexdec] wf_smt_def list.set_map)
  moreover have "map fst (smt_entries t) = map hexdec (map fst t)"
    by (simp add: smt_entries_def case_prod_beta comp_def)
  moreover have "\<forall>e \<in> set (smt_entries t). length (fst e) = 32"
    using t by (force simp: smt_entries_def wf_smt_def)
  ultimately show ?thesis by (simp add: wf_entries_def)
qed

lemma map_of_smt_entries:
  "wf_smt t \<Longrightarrow> map_of (smt_entries t) key = map_option hexdec (map_of t (hexenc key))"
proof (induction t)
  case (Cons e t)
  then have "hexdec (fst e) = key \<longleftrightarrow> fst e = hexenc key"
    by (auto simp: wf_smt_def)
  with Cons show ?case by (cases e) (auto simp: smt_entries_def wf_smt_def)
qed (simp add: smt_entries_def)

lemma entries_eqI: 
  assumes "wf_entries es" "wf_entries es'" "map_of es = map_of es'"
  shows "set es = set es'"
  using assms by (metis wf_entries_def map_of_eqI map_of_inject_set)

lemma smt_entries_set:
  assumes "wf_smt t" "length key = 32"
  shows "set (smt_entries (smt_set t key lo)) = set (put_entry key lo (smt_entries t))"
proof (rule entries_eqI)
  show "map_of (smt_entries (smt_set t key lo)) = map_of (put_entry key lo (smt_entries t))"
  proof
    fix k
    show "map_of (smt_entries (smt_set t key lo)) k = map_of (put_entry key lo (smt_entries t)) k"
      using map_of_smt_entries [OF wf_smt_set [OF assms], of lo k] map_of_smt_entries [OF assms(1), of k]
      by (simp add: map_of_put_entry smt_set_def update_conv' delete_conv' split: option.splits)
  qed
qed (use assms in \<open>auto intro: wf_intros wf_smt_entries\<close>)

lemma smt_root_set:
  assumes "wf_smt t" "length key = 32"
  shows "smt_root H (smt_set t key lo) = smtNode H (put_entry key lo (smt_entries t)) 0"
  unfolding smt_root_def
  by (rule smtNode_root_cong)
     (use assms in \<open>simp_all add: wf_smt_entries wf_smt_set wf_put_entry smt_entries_set\<close>)

section \<open>Compression of proofs\<close>

lemma bitAt_nat_bit:
  "i div 8 < length bm \<Longrightarrow> bitAt bm i = 1 \<longleftrightarrow> bit (of_char (bm ! (i div 8)) :: nat) (7 - i mod 8)"
  by (simp add: bitAt_def bit_iff_odd odd_iff_mod_2_eq_one)

lemma of_char_octet_or:
  assumes "k < 8"
  shows "(of_char (octet_or c (2 ^ k)) :: nat) = Bit_Operations.or (of_char c) (2 ^ k)"
proof -
  have "take_bit 8 (Bit_Operations.or (of_char c) (2 ^ k) :: nat) = Bit_Operations.or (of_char c) (2 ^ k)"
  proof -
    have "take_bit 8 (of_char c :: nat) = of_char c" "take_bit 8 (2 ^ k :: nat) = 2 ^ k"
      using assms power_strict_increasing [of k 8 "2 :: nat"] by (simp_all add: take_bit_nat_eq_self_iff)
    then show ?thesis by (simp add: take_bit_or)
  qed
  then show ?thesis by (simp add: octet_or_def take_bit_eq_mod)
qed

lemma length_set_bitmap_bit [simp]: "length (set_bitmap_bit bm d) = length bm"
  by (simp add: set_bitmap_bit_def)

lemma bitAt_set_bitmap_bit:
  assumes "i div 8 < length bm" "d div 8 < length bm"
  shows "bitAt (set_bitmap_bit bm d) i = 1 \<longleftrightarrow> i = d \<or> bitAt bm i = 1"
proof (cases "i div 8 = d div 8")
  case True
  have "7 - i mod 8 = 7 - d mod 8 \<longleftrightarrow> i mod 8 = d mod 8"
    using mod_less_divisor [of 8 i] mod_less_divisor [of 8 d] by linarith
  moreover have "i = d \<longleftrightarrow> i mod 8 = d mod 8"
    using True by (metis div_mult_mod_eq)
  ultimately have "7 - d mod 8 = 7 - i mod 8 \<longleftrightarrow> i = d" by auto
  moreover have "bitAt (set_bitmap_bit bm d) i = 1 \<longleftrightarrow>
      bit (Bit_Operations.or (of_char (bm ! (d div 8))) (2 ^ (7 - d mod 8)) :: nat) (7 - i mod 8)"
    using True assms bitAt_nat_bit [of i "set_bitmap_bit bm d"] by (simp add: set_bitmap_bit_def of_char_octet_or)
  moreover have "bitAt bm i = 1 \<longleftrightarrow> bit (of_char (bm ! (d div 8)) :: nat) (7 - i mod 8)"
    using True assms bitAt_nat_bit [of i bm] by simp
  ultimately show ?thesis by (auto simp: bit_or_iff bit_exp_iff)
next
  case False
  with assms show ?thesis
    by (auto simp: bitAt_def set_bitmap_bit_def)
qed

text \<open>The siblings that a compressed proof carries, from depth \<open>d\<close> on.\<close>

fun realSibs :: "hash_fn \<Rightarrow> nat \<Rightarrow> string list \<Rightarrow> string list" where
  "realSibs H d [] = []"
| "realSibs H d (s # ss) =
     (if hexdec s \<noteq> EMPTY H (SMT_DEPTH - 1 - d) then [hexenc (hexdec s)] else []) @ realSibs H (Suc d) ss"

lemma compress_loop_real:
  "snd (compress_loop H ss d (bm, real)) = real @ realSibs H d ss"
  by (induction ss arbitrary: d bm real) (auto simp: Let_def)

lemma compress_loop_bits:
  assumes "length bm = 32" "d + length ss \<le> SMT_DEPTH" "i < SMT_DEPTH"
  shows "bitAt (fst (compress_loop H ss d (bm, real))) i = 1 \<longleftrightarrow>
    bitAt bm i = 1 \<or> (d \<le> i \<and> i < d + length ss \<and> hexdec (ss ! (i - d)) \<noteq> EMPTY H (SMT_DEPTH - 1 - i))"
  using assms
proof (induction ss arbitrary: d bm real)
  case (Cons s ss)
  let ?p = "hexdec s \<noteq> EMPTY H (SMT_DEPTH - 1 - d)"
  let ?bm = "if ?p then set_bitmap_bit bm d else bm"
  have bit: "bitAt ?bm i = 1 \<longleftrightarrow> (?p \<and> i = d) \<or> bitAt bm i = 1"
    using Cons.prems bitAt_set_bitmap_bit [of i bm d] by (auto simp: SMT_DEPTH_def)
  have "bitAt (fst (compress_loop H (s # ss) d (bm, real))) i = 1 \<longleftrightarrow>
      bitAt ?bm i = 1 \<or> (Suc d \<le> i \<and> i < Suc d + length ss \<and> hexdec (ss ! (i - Suc d)) \<noteq> EMPTY H (SMT_DEPTH - 1 - i))"
    using Cons.prems Cons.IH [of ?bm "Suc d" "if ?p then real @ [hexenc (hexdec s)] else real"]
    by (cases ?p) (simp_all add: Let_def)
  then show ?case
    using bit by (cases "i = d") (auto simp: nth_Cons' Suc_le_eq)
qed auto

lemma decompress_loop_real:
  assumes "\<And>i. i < length ss \<Longrightarrow>
      bitAt bm (d + i) = 1 \<longleftrightarrow> hexdec (ss ! i) \<noteq> EMPTY H (SMT_DEPTH - 1 - (d + i))"
    "real = rs @ realSibs H d ss"
  shows "decompress_loop H bm real d (length ss) (length rs) =
    (map (\<lambda>s. Some (hexenc (hexdec s))) ss, length real)"
  using assms
proof (induction ss arbitrary: d rs)
  case (Cons s ss)
  let ?r = "if hexdec s \<noteq> EMPTY H (SMT_DEPTH - 1 - d) then [hexenc (hexdec s)] else []"
  have bits: "bitAt bm (Suc d + i) = 1 \<longleftrightarrow> hexdec (ss ! i) \<noteq> EMPTY H (SMT_DEPTH - 1 - (Suc d + i))"
    if "i < length ss" for i
    using Cons.prems(1) [of "Suc i"] that by simp
  have bit: "bitAt bm d = 1 \<longleftrightarrow> hexdec s \<noteq> EMPTY H (SMT_DEPTH - 1 - d)"
    using Cons.prems(1) [of 0] by simp
  have "decompress_loop H bm real (Suc d) (length ss) (length (rs @ ?r)) =
      (map (\<lambda>s. Some (hexenc (hexdec s))) ss, length real)"
    by (rule Cons.IH [OF bits]) (use Cons.prems(2) in auto)
  then show ?case
    using bit Cons.prems(2) by (auto simp: nth_append)
qed simp

lemma decompress_compress:
  assumes "length ss = SMT_DEPTH"
  shows "decompressSmtProof H (compressSmtProof H ss) = Inr (map (\<lambda>s. hexenc (hexdec s)) ss)"
proof -
  define bm where "bm = fst (compress_loop H ss 0 (replicate 32 (CHR 0x00), []))"
  have zero: "bitAt (replicate 32 (CHR 0x00)) i \<noteq> 1" for i
    by (simp add: bitAt_def)
  have c: "compressSmtProof H ss = \<lparr>cp_bitmap = hexenc bm, cp_siblings = realSibs H 0 ss\<rparr>"
    using assms compress_loop_real [of H ss 0 "replicate 32 (CHR 0x00)" "[]"]
    by (simp add: compressSmtProof_def bm_def case_prod_beta)
  have "decompress_loop H bm (realSibs H 0 ss) 0 (length ss) (length ([] :: string list)) =
      (map (\<lambda>s. Some (hexenc (hexdec s))) ss, length (realSibs H 0 ss))"
  proof (rule decompress_loop_real)
    fix i assume "i < length ss"
    then show "bitAt bm (0 + i) = 1 \<longleftrightarrow> hexdec (ss ! i) \<noteq> EMPTY H (SMT_DEPTH - 1 - (0 + i))"
      using compress_loop_bits [of "replicate 32 (CHR 0x00)" 0 ss i H "[]"] assms zero
      by (simp add: bm_def)
  qed simp
  then show ?thesis
    using assms by (simp add: decompressSmtProof_def c comp_def)
qed

lemma climb_norm:
  "d \<le> length ss \<Longrightarrow> climb H key (map (\<lambda>s. hexenc (hexdec s)) ss) n d = climb H key ss n d"
  by (induction d arbitrary: n) (simp_all add: Let_def)

lemma verify_compressed_iff:
  assumes "length ss = SMT_DEPTH"
  shows "verifyCompressedSmtProof H root key lv (compressSmtProof H ss) = Inr (verifySmtProof H root key lv ss)"
  using assms climb_norm [of SMT_DEPTH ss H key]
  by (simp add: verifyCompressedSmtProof_def decompress_compress verifySmtProof_def)

section \<open>Binding\<close>

text \<open>The message hashed at depth \<open>d\<close> of a climb.\<close>

definition climb_msg :: "octets \<Rightarrow> string list \<Rightarrow> octets \<Rightarrow> nat \<Rightarrow> octets" where
  "climb_msg key sibs node d =
     NODE_PREFIX # (if bitAt key d = 0 then node @ hexdec (sibs ! d) else hexdec (sibs ! d) @ node)"

lemma climb_Suc: "climb H key sibs node (Suc d) = climb H key sibs (H (climb_msg key sibs node d)) d"
  by (simp add: Let_def climb_msg_def nodeHash_def)

text \<open>Walks two climbs of one key side by side and returns the first two messages with one hash.\<close>

primrec smt_collision ::
  "hash_fn \<Rightarrow> octets \<Rightarrow> string list \<Rightarrow> octets \<Rightarrow> string list \<Rightarrow> octets \<Rightarrow> nat \<Rightarrow> (octets \<times> octets) option" where
  "smt_collision H key s1 n1 s2 n2 0 = None"
| "smt_collision H key s1 n1 s2 n2 (Suc d) =
     (let m1 = climb_msg key s1 n1 d; m2 = climb_msg key s2 n2 d in
      if H m1 = H m2 then Some (m1, m2) else smt_collision H key s1 (H m1) s2 (H m2) d)"

definition is_collision :: "hash_fn \<Rightarrow> (octets \<times> octets) option \<Rightarrow> bool" where
  "is_collision H c = (\<exists>x y. c = Some (x, y) \<and> x \<noteq> y \<and> H x = H y)"

lemma climb_msg_inject:
  "length n1 = length n2 \<Longrightarrow> climb_msg key s1 n1 d = climb_msg key s2 n2 d \<Longrightarrow> n1 = n2"
  by (auto simp: climb_msg_def split: if_splits)

lemma climb_binding:
  assumes "\<And>x. length (H x) = 32" "length n1 = length n2" "n1 \<noteq> n2"
    "climb H key s1 n1 d = climb H key s2 n2 d"
  shows "is_collision H (smt_collision H key s1 n1 s2 n2 d)"
  using assms(2-)
proof (induction d arbitrary: n1 n2)
  case (Suc d)
  have ne: "climb_msg key s1 n1 d \<noteq> climb_msg key s2 n2 d"
    using climb_msg_inject Suc.prems by blast
  show ?case
  proof (cases "H (climb_msg key s1 n1 d) = H (climb_msg key s2 n2 d)")
    case True
    with ne show ?thesis by (simp add: is_collision_def Let_def)
  next
    case False
    with Suc.prems have "is_collision H (smt_collision H key s1 (H (climb_msg key s1 n1 d)) s2 (H (climb_msg key s2 n2 d)) d)"
      by (intro Suc.IH) (simp_all add: assms(1) climb_Suc del: climb.simps)
    with False show ?thesis by (simp add: Let_def)
  qed
qed simp

section \<open>Properties\<close>

lemma leaf_or_empty_entries:
  "wf_smt t \<Longrightarrow> leaf_or_empty H (map_of t (hexenc key)) = leafOf H (smt_entries t) key"
  by (simp add: leaf_or_empty_def leafOf_def map_of_smt_entries split: option.split)

text \<open>(C19) Proofs of the sparse tree are complete: for every well-formed tree and every 32-octet
  key, present or absent, the proof that \<open>prove\<close> returns carries the stored leaf (or none),
  verifies against the tree's root, and so does its compressed form.\<close>

theorem smt_prove_verifies:
  assumes "wf_smt t" "length key = 32"
  shows "sp_leaf_value (smt_prove H t key) = map_of t (hexenc key)
    \<and> verifySmtProof H (smt_rootHex H t) key (sp_leaf_value (smt_prove H t key)) (sp_siblings (smt_prove H t key))
    \<and> verifyCompressedSmtProof H (smt_rootHex H t) key (sp_leaf_value (smt_prove H t key))
        (sp_compressed (smt_prove H t key)) = Inr True"
proof -
  let ?es = "smt_entries t"
  have p: "smt_prove H t key = \<lparr>sp_key = hexenc key, sp_leaf_value = map_of t (hexenc key),
      sp_siblings = siblingsOf H key ?es, sp_compressed = compressSmtProof H (siblingsOf H key ?es)\<rparr>"
    by (simp add: smt_prove_def siblingsOf_def Let_def)
  have "verifySmtProof H (smt_rootHex H t) key (map_of t (hexenc key)) (siblingsOf H key ?es)"
    using climb_siblingsOf [OF wf_smt_entries [OF assms(1)] assms(2), of H] assms(1)
    by (simp add: verifySmtProof_def smt_rootHex_def smt_root_def leaf_or_empty_entries)
  then show ?thesis by (simp add: p verify_compressed_iff)
qed

definition key0 :: octets where "key0 = replicate 32 (CHR 0x00)"
definition key1 :: octets where "key1 = replicate 31 (CHR 0x00) @ [CHR 0x01]"

lemma length_keys [simp]: "length key0 = 32" "length key1 = 32"
  by (simp_all add: key0_def key1_def)

lemma keys_differ: "key0 \<noteq> key1"
  by code_simp

lemma smt_prove_verifies_witness:
  "verifyCompressedSmtProof rev (smt_rootHex rev (smt_set smt_new key0 (Some ''leaf''))) key1
     (sp_leaf_value (smt_prove rev (smt_set smt_new key0 (Some ''leaf'')) key1))
     (sp_compressed (smt_prove rev (smt_set smt_new key0 (Some ''leaf'')) key1)) = Inr True"
  using smt_prove_verifies [OF wf_smt_set [OF wf_smt_new length_keys(1)] length_keys(2), of rev] by blast

text \<open>(C20) The proofs are binding: if one root accepts, for one key, two different leaf values of the
  same length (an absent key counting as the empty-leaf constant), then walking the two
  proofs finds two different messages with the same hash.  The siblings themselves may
  have any length.\<close>

theorem smt_proof_binding:
  assumes "\<And>x. length (H x) = 32"
    and "verifySmtProof H root key lv1 sibs1" "verifySmtProof H root key lv2 sibs2"
    and "leaf_or_empty H lv1 \<noteq> leaf_or_empty H lv2"
    and "length (leaf_or_empty H lv1) = length (leaf_or_empty H lv2)"
  shows "is_collision H (smt_collision H key sibs1 (leaf_or_empty H lv1) sibs2 (leaf_or_empty H lv2) SMT_DEPTH)"
proof (rule climb_binding)
  show "climb H key sibs1 (leaf_or_empty H lv1) SMT_DEPTH = climb H key sibs2 (leaf_or_empty H lv2) SMT_DEPTH"
    using assms(2,3) by (auto simp: verifySmtProof_def split: if_splits)
qed (use assms in auto)

lemma climb_const: "0 < d \<Longrightarrow> climb (\<lambda>_. c) key sibs n d = c"
proof (induction d arbitrary: n)
  case (Suc d)
  then show ?case by (cases d) (simp_all add: Let_def nodeHash_def)
qed simp

lemma smt_proof_binding_witness:
  "is_collision (\<lambda>_. key0)
     (smt_collision (\<lambda>_. key0) key0 (replicate 256 []) key1 (replicate 256 []) key0 SMT_DEPTH)"
proof -
  have v: "verifySmtProof (\<lambda>_. key0) (hexenc key0) key0 lv (replicate 256 [])" for lv
    by (simp add: verifySmtProof_def SMT_DEPTH_def climb_const)
  have "is_collision (\<lambda>_. key0)
     (smt_collision (\<lambda>_. key0) key0 (replicate 256 []) (leaf_or_empty (\<lambda>_. key0) (Some (hexenc key1)))
        (replicate 256 []) (leaf_or_empty (\<lambda>_. key0) None) SMT_DEPTH)"
    by (rule smt_proof_binding [OF _ v v]) (use keys_differ in \<open>simp_all add: leaf_or_empty_def\<close>)
  then show ?thesis by (simp add: leaf_or_empty_def)
qed

text \<open>(C29) The root of a tree is a function of its key-to-leaf map: any two well-formed trees
  with the same map, however they were built, have the same root.\<close>

theorem smt_root_canonical:
  assumes "wf_smt t" "wf_smt t'" "map_of t = map_of t'"
  shows "smt_root H t = smt_root H t'"
  unfolding smt_root_def
proof (rule smtNode_root_cong)
  show "set (smt_entries t) = set (smt_entries t')"
    by (rule entries_eqI)
       (use assms in \<open>simp_all add: wf_smt_entries map_of_smt_entries fun_eq_iff\<close>)
qed (use assms in \<open>simp_all add: wf_smt_entries\<close>)

lemma smt_root_canonical_witness:
  "smt_root rev (smt_set (smt_set smt_new key0 (Some ''a'')) key1 (Some ''b'')) =
   smt_root rev (smt_set (smt_set smt_new key1 (Some ''b'')) key0 (Some ''a''))"
proof (rule smt_root_canonical)
  show "map_of (smt_set (smt_set smt_new key0 (Some ''a'')) key1 (Some ''b'')) =
      map_of (smt_set (smt_set smt_new key1 (Some ''b'')) key0 (Some ''a''))"
    using keys_differ by (auto simp: smt_set_def smt_new_def)
qed (simp_all add: wf_smt_set wf_smt_new)

text \<open>(C30) Compressing a full-length sibling list and decompressing it gives the siblings back, in
  normalised hexadecimal; a wire proof that names a different number of siblings than its
  bitmap is refused.\<close>

theorem smt_compress_roundtrip:
  "(length sibs = SMT_DEPTH \<longrightarrow>
      decompressSmtProof H (compressSmtProof H sibs) = Inr (map (\<lambda>s. hexenc (hexdec s)) sibs))
   \<and> (snd (decompress_loop H (hexdec (cp_bitmap c)) (cp_siblings c) 0 SMT_DEPTH 0) \<noteq> length (cp_siblings c) \<longrightarrow>
      decompressSmtProof H c = Inl ''merkle: surplus siblings in compressed proof'')"
  using decompress_compress [of sibs H]
  by (simp add: decompressSmtProof_def [of H c] Let_def case_prod_beta)

lemma smt_compress_roundtrip_witness:
  "decompressSmtProof rev (compressSmtProof rev (replicate 256 ''00ff'')) = Inr (replicate 256 ''00ff'')"
proof -
  have "hexenc (hexdec ''00ff'') = ''00ff''" by code_simp
  with smt_compress_roundtrip [of "replicate 256 ''00ff''" rev] show ?thesis
    by (simp add: SMT_DEPTH_def)
qed

end
