(* ===== verification/Persistent_SMT.thy ===== *)
theory Persistent_SMT
  imports Sparse_Merkle
begin

text \<open>
  The persistent sparse Merkle tree of \<^verbatim>\<open>src/src/state_commitment/index.js\<close>
  (\<^verbatim>\<open>MemoryNodeStore\<close>, \<^verbatim>\<open>DbNodeStore\<close>, \<^verbatim>\<open>PersistentSMT\<close>) over the rows of
  \<^verbatim>\<open>src/src/db/subtree/node_store_rows.js\<close>.  A tree is a root hash and a
  content-addressed store of internal nodes; a missing row reads as an empty
  subtree.  The engine calls its store through the interface \<open>node_store\<close>,
  interpreted for both stores, and is proved to refine the reference tree.
\<close>

section \<open>Node stores\<close>

record tree_node =
  tn_hash :: string
  tn_left :: string
  tn_right :: string

text \<open>The interface of a store; \<^verbatim>\<open>putMany\<close> is optional.\<close>

record 's node_ops =
  no_get :: "'s \<Rightarrow> string \<Rightarrow> (string \<times> string) option"
  no_put :: "'s \<Rightarrow> string \<Rightarrow> string \<Rightarrow> string \<Rightarrow> 's"
  no_putMany :: "('s \<Rightarrow> tree_node list \<Rightarrow> 's) option"

subsection \<open>In memory\<close>

type_synonym memory_store = "(string \<times> (string \<times> string)) list"

definition memory_get :: "memory_store \<Rightarrow> string \<Rightarrow> (string \<times> string) option" where
  "memory_get m h = map_of m h"

definition memory_put :: "memory_store \<Rightarrow> string \<Rightarrow> string \<Rightarrow> string \<Rightarrow> memory_store" where
  "memory_put m h left right = (if map_of m h = None then m @ [(h, (left, right))] else m)"

definition memory_putMany :: "memory_store \<Rightarrow> tree_node list \<Rightarrow> memory_store" where
  "memory_putMany m nodes = fold (\<lambda>n m. memory_put m (tn_hash n) (tn_left n) (tn_right n)) nodes m"

definition memory_ops :: "memory_store node_ops" where
  "memory_ops = \<lparr>no_get = memory_get, no_put = memory_put, no_putMany = Some memory_putMany\<rparr>"

subsection \<open>The table \<^verbatim>\<open>state_tree_nodes\<close>\<close>

text \<open>The table is its rows in insertion order, with a unique key on the node hash.\<close>

type_synonym node_table = "tree_node list"

definition NODE_PUT_CHUNK :: nat where "NODE_PUT_CHUNK = 128"

definition selectNodeRow :: "node_table \<Rightarrow> string \<Rightarrow> (string \<times> string) list" where
  "selectNodeRow db h = take 1 (map (\<lambda>n. (tn_left n, tn_right n)) (filter (\<lambda>n. tn_hash n = h) db))"

definition insert_ignore :: "node_table \<Rightarrow> tree_node \<Rightarrow> node_table" where
  "insert_ignore db n = (if \<exists>m \<in> set db. tn_hash m = tn_hash n then db else db @ [n])"

definition insertNodeRow :: "node_table \<Rightarrow> string \<Rightarrow> string \<Rightarrow> string \<Rightarrow> node_table" where
  "insertNodeRow db h left right = insert_ignore db \<lparr>tn_hash = h, tn_left = left, tn_right = right\<rparr>"

definition insertNodeRows :: "node_table \<Rightarrow> tree_node list \<Rightarrow> node_table" where
  "insertNodeRows db chunk = fold (\<lambda>n db. insert_ignore db n) chunk db"

definition db_get :: "node_table \<Rightarrow> string \<Rightarrow> (string \<times> string) option" where
  "db_get db h = (case selectNodeRow db h of [] \<Rightarrow> None | r # _ \<Rightarrow> Some r)"

function db_putMany :: "node_table \<Rightarrow> tree_node list \<Rightarrow> node_table" where
  "db_putMany db nodes =
     (if nodes = [] then db
      else db_putMany (insertNodeRows db (take NODE_PUT_CHUNK nodes)) (drop NODE_PUT_CHUNK nodes))"
  by pat_completeness auto
termination
  by (relation "measure (\<lambda>(db, nodes). length nodes)") (auto simp: NODE_PUT_CHUNK_def)

declare db_putMany.simps [simp del]

definition db_ops :: "node_table node_ops" where
  "db_ops = \<lparr>no_get = db_get, no_put = insertNodeRow, no_putMany = Some db_putMany\<rparr>"

section \<open>The engine\<close>

definition EMPTY_ROOT_HEX :: "hash_fn \<Rightarrow> string" where
  "EMPTY_ROOT_HEX H = hexenc (EMPTY_SMT_ROOT H)"

definition EMPTY0_HEX :: "hash_fn \<Rightarrow> string" where
  "EMPTY0_HEX H = hexenc (EMPTY H 0)"

text \<open>The loop of \<^verbatim>\<open>descend\<close>, \<open>n\<close> levels from depth \<open>d\<close> on: siblings, the last hash, and
  whether the walk left the stored nodes.\<close>

fun descend_loop ::
  "hash_fn \<Rightarrow> (string \<Rightarrow> (string \<times> string) option) \<Rightarrow> octets \<Rightarrow> nat \<Rightarrow> nat \<Rightarrow> string \<Rightarrow> bool
   \<Rightarrow> string list \<times> string \<times> bool" where
  "descend_loop H get key d 0 cur isEmpty = ([], cur, isEmpty)"
| "descend_loop H get key d (Suc n) cur isEmpty =
     (let sibEmptyHex = hexenc (EMPTY H (SMT_DEPTH - 1 - d)) in
      if isEmpty then
        (let (s, r) = descend_loop H get key (Suc d) n cur True in (sibEmptyHex # s, r))
      else (case get cur of
          None \<Rightarrow> (let (s, r) = descend_loop H get key (Suc d) n cur True in (sibEmptyHex # s, r))
        | Some (left_hash, right_hash) \<Rightarrow>
            (let sib = (if bitAt key d = 0 then right_hash else left_hash);
                 nxt = (if bitAt key d = 0 then left_hash else right_hash);
                 (s, r) = descend_loop H get key (Suc d) n nxt False
             in (sib # s, r))))"

definition descend ::
  "hash_fn \<Rightarrow> 's node_ops \<Rightarrow> 's \<Rightarrow> string \<Rightarrow> octets \<Rightarrow> string list \<times> string" where
  "descend H ops st rootHex keyBuf =
     (let (siblings, cur, isEmpty) = descend_loop H (no_get ops st) keyBuf 0 SMT_DEPTH rootHex False
      in (siblings, if isEmpty then EMPTY0_HEX H else cur))"

definition putBatch :: "'s node_ops \<Rightarrow> 's \<Rightarrow> tree_node list \<Rightarrow> 's" where
  "putBatch ops st nodes =
     (case no_putMany ops of
        Some putMany \<Rightarrow> putMany st nodes
      | None \<Rightarrow> fold (\<lambda>n st. no_put ops st (tn_hash n) (tn_left n) (tn_right n)) nodes st)"

text \<open>The climb of \<^verbatim>\<open>update\<close> over depths \<open>d - 1\<close> down to 0, collecting the rows to store.\<close>

primrec climb_pending ::
  "hash_fn \<Rightarrow> octets \<Rightarrow> string list \<Rightarrow> string \<Rightarrow> nat \<Rightarrow> tree_node list \<Rightarrow> string \<times> tree_node list" where
  "climb_pending H key siblings cur 0 pending = (cur, pending)"
| "climb_pending H key siblings cur (Suc d) pending =
     (let sib = siblings ! d;
          left = (if bitAt key d = 0 then cur else sib);
          right = (if bitAt key d = 0 then sib else cur);
          parent = hexenc (nodeHash H (hexdec left) (hexdec right));
          pending' = (if parent \<noteq> hexenc (EMPTY H (SMT_DEPTH - d))
                      then pending @ [\<lparr>tn_hash = parent, tn_left = left, tn_right = right\<rparr>]
                      else pending)
      in climb_pending H key siblings parent d pending')"

definition psmt_update ::
  "hash_fn \<Rightarrow> 's node_ops \<Rightarrow> 's \<Rightarrow> string \<Rightarrow> octets \<Rightarrow> string option \<Rightarrow> 's \<times> string" where
  "psmt_update H ops st rootHex keyBuf newLeafHexOrNull =
     (let (siblings, _) = descend H ops st rootHex keyBuf;
          cur = (case newLeafHexOrNull of None \<Rightarrow> EMPTY0_HEX H | Some l \<Rightarrow> l);
          (root, pending) = climb_pending H keyBuf siblings cur SMT_DEPTH []
      in ((if pending = [] then st else putBatch ops st pending), root))"

text \<open>Sequential updates, as every caller threads them.\<close>

fun psmt_run ::
  "hash_fn \<Rightarrow> 's node_ops \<Rightarrow> 's \<Rightarrow> string \<Rightarrow> (octets \<times> string option) list \<Rightarrow> 's \<times> string" where
  "psmt_run H ops st root [] = (st, root)"
| "psmt_run H ops st root ((key, leaf) # us) =
     (let (st', root') = psmt_update H ops st root key leaf in psmt_run H ops st' root' us)"

definition buildFull :: "hash_fn \<Rightarrow> 's node_ops \<Rightarrow> 's \<Rightarrow> (string \<times> string) list \<Rightarrow> 's \<times> string" where
  "buildFull H ops st entries =
     psmt_run H ops st (EMPTY_ROOT_HEX H) (map (\<lambda>(keyHex, leafHex). (hexdec keyHex, Some leafHex)) entries)"

definition psmt_prove :: "hash_fn \<Rightarrow> 's node_ops \<Rightarrow> 's \<Rightarrow> string \<Rightarrow> octets \<Rightarrow> smt_proof" where
  "psmt_prove H ops st rootHex keyBuf =
     (let (siblings, oldLeaf) = descend H ops st rootHex keyBuf in
      \<lparr>sp_key = hexenc keyBuf,
       sp_leaf_value = (if oldLeaf \<noteq> EMPTY0_HEX H then Some oldLeaf else None),
       sp_siblings = siblings, sp_compressed = compressSmtProof H siblings\<rparr>)"

section \<open>The store interface\<close>

text \<open>What a batch of idempotent writes does to the lookup function of a store.\<close>

definition install :: "tree_node list \<Rightarrow> (string \<rightharpoonup> string \<times> string) \<Rightarrow> (string \<rightharpoonup> string \<times> string)" where
  "install ns g =
     fold (\<lambda>n g. if g (tn_hash n) = None then g(tn_hash n \<mapsto> (tn_left n, tn_right n)) else g) ns g"

locale node_store =
  fixes ops :: "'s node_ops"
  assumes get_put: "no_get ops (no_put ops st h l r) =
      (if no_get ops st h = None then (no_get ops st)(h \<mapsto> (l, r)) else no_get ops st)"
    and get_putMany: "no_putMany ops = Some pm \<Longrightarrow> no_get ops (pm st ns) = install ns (no_get ops st)"
begin

lemma get_fold_put:
  "no_get ops (fold (\<lambda>n st. no_put ops st (tn_hash n) (tn_left n) (tn_right n)) ns st) = install ns (no_get ops st)"
  by (induction ns arbitrary: st) (simp_all add: install_def get_put)

lemma get_putBatch: "no_get ops (putBatch ops st ns) = install ns (no_get ops st)"
  by (simp add: putBatch_def get_putMany get_fold_put split: option.split)

lemma get_update:
  assumes "descend H ops st root key = (sibs, old)"
    and "climb_pending H key sibs (case leaf of None \<Rightarrow> EMPTY0_HEX H | Some l \<Rightarrow> l) SMT_DEPTH [] = (root', ns)"
  shows "snd (psmt_update H ops st root key leaf) = root'
    \<and> no_get ops (fst (psmt_update H ops st root key leaf)) = install ns (no_get ops st)"
  using assms by (cases "ns = []") (simp_all add: psmt_update_def get_putBatch, simp add: install_def)

end

interpretation memory: node_store memory_ops
proof
  fix st h l r
  show "no_get memory_ops (no_put memory_ops st h l r) =
      (if no_get memory_ops st h = None then (no_get memory_ops st)(h \<mapsto> (l, r)) else no_get memory_ops st)"
    by (auto simp: memory_ops_def memory_get_def memory_put_def fun_eq_iff map_add_def split: option.split)
next
  fix pm st ns
  have put: "memory_get (memory_put m h l r) = (if memory_get m h = None then (memory_get m)(h \<mapsto> (l, r)) else memory_get m)" for m h l r
    by (auto simp: memory_get_def memory_put_def fun_eq_iff map_add_def split: option.split)
  have "memory_get (memory_putMany st ns) = install ns (memory_get st)" for st
    by (induction ns arbitrary: st) (simp_all add: memory_putMany_def install_def put)
  then show "no_putMany memory_ops = Some pm \<Longrightarrow> no_get memory_ops (pm st ns) = install ns (no_get memory_ops st)"
    by (auto simp: memory_ops_def)
qed

lemma db_get_map_of: "db_get db h = map_of (map (\<lambda>n. (tn_hash n, (tn_left n, tn_right n))) db) h"
  by (induction db) (auto simp: db_get_def selectNodeRow_def split: list.splits)

lemma db_get_insert_ignore:
  "db_get (insert_ignore db n) =
     (if db_get db (tn_hash n) = None then (db_get db)(tn_hash n \<mapsto> (tn_left n, tn_right n)) else db_get db)"
proof -
  have "db_get db (tn_hash n) = None \<longleftrightarrow> \<not> (\<exists>m \<in> set db. tn_hash m = tn_hash n)"
    by (auto simp: db_get_map_of map_of_eq_None_iff image_iff)
  then show ?thesis
    by (auto simp: insert_ignore_def db_get_map_of fun_eq_iff map_add_def split: option.split)
qed

lemma insertNodeRows_append: "insertNodeRows db (xs @ ys) = insertNodeRows (insertNodeRows db xs) ys"
  by (simp add: insertNodeRows_def)

lemma db_putMany_rows: "db_putMany db ns = insertNodeRows db ns"
proof (induction db ns rule: db_putMany.induct)
  case (1 db ns)
  show ?case
  proof (cases "ns = []")
    case False
    with 1 show ?thesis
      by (subst db_putMany.simps) (simp flip: insertNodeRows_append)
  qed (simp add: db_putMany.simps insertNodeRows_def)
qed

interpretation table: node_store db_ops
proof
  fix st h l r
  show "no_get db_ops (no_put db_ops st h l r) =
      (if no_get db_ops st h = None then (no_get db_ops st)(h \<mapsto> (l, r)) else no_get db_ops st)"
    by (simp add: db_ops_def insertNodeRow_def db_get_insert_ignore)
next
  fix pm st ns
  have "db_get (insertNodeRows st ns) = install ns (db_get st)" for st
    by (induction ns arbitrary: st) (simp_all add: insertNodeRows_def install_def db_get_insert_ignore)
  then show "no_putMany db_ops = Some pm \<Longrightarrow> no_get db_ops (pm st ns) = install ns (no_get db_ops st)"
    by (auto simp: db_ops_def db_putMany_rows)
qed

section \<open>Reading a stored tree\<close>

text \<open>The two children hashed into the node of a key's subtree at depth \<open>d\<close>.\<close>

definition node_pair :: "hash_fn \<Rightarrow> octets \<Rightarrow> nat \<Rightarrow> smt_entry list \<Rightarrow> octets \<times> octets" where
  "node_pair H key d es =
     (smtNode H (goLeft d (pathOf key d es)) (Suc d), smtNode H (goRight d (pathOf key d es)) (Suc d))"

text \<open>A store serves a tree when it has a row for every node above a leaf and for no empty subtree.\<close>

definition covers :: "hash_fn \<Rightarrow> (string \<rightharpoonup> string \<times> string) \<Rightarrow> smt_entry list \<Rightarrow> bool" where
  "covers H g es \<longleftrightarrow>
     (\<forall>key d. d < SMT_DEPTH \<longrightarrow>
        g (hexenc (smtNode H (pathOf key d es) d)) =
          (if pathOf key d es = [] then None
           else Some (map_prod hexenc hexenc (node_pair H key d es))))"

lemma coversD:
  "covers H g es \<Longrightarrow> d < SMT_DEPTH \<Longrightarrow>
     g (hexenc (smtNode H (pathOf key d es) d)) =
       (if pathOf key d es = [] then None else Some (map_prod hexenc hexenc (node_pair H key d es)))"
  unfolding covers_def by blast

lemma node_pair_bits:
  "node_pair H key d es =
     (if bitAt key d = 0
      then (smtNode H (pathOf key (Suc d) es) (Suc d), smtNode H (awayOf key d es) (Suc d))
      else (smtNode H (awayOf key d es) (Suc d), smtNode H (pathOf key (Suc d) es) (Suc d)))"
  using bitAt_01 [of key d] by (auto simp: node_pair_def pathOf_Suc awayOf_eq)

lemma smtNode_node_pair:
  "d < SMT_DEPTH \<Longrightarrow> smtNode H (pathOf key d es) d = case_prod (nodeHash H) (node_pair H key d es)"
  by (simp add: node_pair_def smtNode_step)

lemma pathOf_empty_mono: "pathOf key d es = [] \<Longrightarrow> d \<le> d' \<Longrightarrow> pathOf key d' es = []"
  by (auto simp: pathOf_def filter_empty_conv) (metis fst_conv order_less_le_trans)

lemma awayOf_empty: "pathOf key d es = [] \<Longrightarrow> awayOf key d es = []"
  by (simp add: awayOf_def)

lemma descend_loop_empty:
  "pathOf key d es = [] \<Longrightarrow> d + n = SMT_DEPTH \<Longrightarrow>
     descend_loop H g key d n cur True =
       (map (\<lambda>i. hexenc (smtNode H (awayOf key i es) (Suc i))) [d..<SMT_DEPTH], cur, True)"
proof (induction n arbitrary: d)
  case (Suc n)
  have "pathOf key (Suc d) es = []" using pathOf_empty_mono [OF Suc.prems(1)] by simp
  with Suc.IH [of "Suc d"] Suc.prems
  have "descend_loop H g key (Suc d) n cur True =
      (map (\<lambda>i. hexenc (smtNode H (awayOf key i es) (Suc i))) [Suc d..<SMT_DEPTH], cur, True)" by simp
  moreover have "[d..<SMT_DEPTH] = d # [Suc d..<SMT_DEPTH]" using Suc.prems(2) by (simp add: upt_conv_Cons)
  ultimately show ?case using Suc.prems
    by (simp add: awayOf_empty)
qed simp

lemma descend_loop_covers:
  assumes "covers H g es" "d + n = SMT_DEPTH"
  shows "\<exists>cur e. descend_loop H g key d n (hexenc (smtNode H (pathOf key d es) d)) False =
      (map (\<lambda>i. hexenc (smtNode H (awayOf key i es) (Suc i))) [d..<SMT_DEPTH], cur, e)
    \<and> (if e then EMPTY0_HEX H else cur) = hexenc (smtNode H (pathOf key SMT_DEPTH es) SMT_DEPTH)"
  using assms(2)
proof (induction n arbitrary: d)
  case 0
  then show ?case by (intro exI [of _ False] exI) simp
next
  case (Suc n)
  then have d: "d < SMT_DEPTH" by simp
  have upt: "[d..<SMT_DEPTH] = d # [Suc d..<SMT_DEPTH]" using d by (simp add: upt_conv_Cons)
  show ?case
  proof (cases "pathOf key d es = []")
    case True
    then have "pathOf key (Suc d) es = []" "pathOf key SMT_DEPTH es = []"
      using pathOf_empty_mono [OF True] d by simp_all
    with True d Suc.prems coversD [OF assms(1) d, of key] show ?thesis
      by (intro exI [of _ True] exI [of _ "hexenc (EMPTY H (SMT_DEPTH - d))"])
        (simp add: descend_loop_empty awayOf_empty upt EMPTY0_HEX_def)
  next
    case False
    from Suc.IH [of "Suc d"] Suc.prems obtain cur e where IH:
      "descend_loop H g key (Suc d) n (hexenc (smtNode H (pathOf key (Suc d) es) (Suc d))) False =
         (map (\<lambda>i. hexenc (smtNode H (awayOf key i es) (Suc i))) [Suc d..<SMT_DEPTH], cur, e)"
      "(if e then EMPTY0_HEX H else cur) = hexenc (smtNode H (pathOf key SMT_DEPTH es) SMT_DEPTH)"
      by auto
    have "g (hexenc (smtNode H (pathOf key d es) d)) = Some (map_prod hexenc hexenc (node_pair H key d es))"
      using coversD [OF assms(1) d, of key] False by simp
    with IH d show ?thesis
      by (cases "bitAt key d = 0") (simp_all add: node_pair_bits upt)
  qed
qed

lemma descend_covers:
  assumes "covers H (no_get ops st) es" "wf_entries es" "length key = 32"
  shows "descend H ops st (hexenc (smtNode H es 0)) key = (siblingsOf H key es, hexenc (leafOf H es key))"
proof -
  obtain cur e where *:
    "descend_loop H (no_get ops st) key 0 SMT_DEPTH (hexenc (smtNode H es 0)) False =
       (map (\<lambda>i. hexenc (smtNode H (awayOf key i es) (Suc i))) [0..<SMT_DEPTH], cur, e)"
    "(if e then EMPTY0_HEX H else cur) = hexenc (smtNode H (pathOf key SMT_DEPTH es) SMT_DEPTH)"
    using descend_loop_covers [OF assms(1), of 0 SMT_DEPTH key] by auto
  have "map (\<lambda>i. hexenc (smtNode H (awayOf key i es) (Suc i))) [0..<SMT_DEPTH] = siblingsOf H key es"
    by (rule nth_equalityI) (simp_all add: siblingsOf_nth)
  with * smtNode_path_full [OF assms(2,3), of H] show ?thesis
    by (simp add: descend_def)
qed


section \<open>Refinement of the reference tree\<close>

text \<open>The node pairs of a tree above its leaves, and the pairs of the empty subtrees.\<close>

definition tree_pairs :: "hash_fn \<Rightarrow> smt_entry list \<Rightarrow> (octets \<times> octets) set" where
  "tree_pairs H es = {node_pair H key d es | key d. d < SMT_DEPTH \<and> pathOf key d es \<noteq> []}"

definition empty_pairs :: "hash_fn \<Rightarrow> (octets \<times> octets) set" where
  "empty_pairs H = {(EMPTY H k, EMPTY H k) | k. k < SMT_DEPTH}"

text \<open>No two of the given node pairs collide, and none hashes to the empty leaf.\<close>

definition collision_free :: "hash_fn \<Rightarrow> (octets \<times> octets) set \<Rightarrow> bool" where
  "collision_free H A \<longleftrightarrow>
     inj_on (case_prod (nodeHash H)) A \<and> EMPTY H 0 \<notin> case_prod (nodeHash H) ` A"

definition proper_leaves :: "hash_fn \<Rightarrow> smt_entry list \<Rightarrow> bool" where
  "proper_leaves H es \<longleftrightarrow> (\<forall>e \<in> set es. \<forall>k \<le> SMT_DEPTH. snd e \<noteq> EMPTY H k)"

definition tree_ok :: "hash_fn \<Rightarrow> (octets \<times> octets) set \<Rightarrow> smt_entry list \<Rightarrow> bool" where
  "tree_ok H A es \<longleftrightarrow> wf_entries es \<and> tree_pairs H es \<subseteq> A \<and> proper_leaves H es"

text \<open>The store invariant: a row is the preimage of its hash and never an empty node.\<close>

definition store_ok :: "hash_fn \<Rightarrow> (octets \<times> octets) set \<Rightarrow> (string \<rightharpoonup> string \<times> string) \<Rightarrow> bool" where
  "store_ok H A g \<longleftrightarrow>
     (\<forall>h l r. g h = Some (l, r) \<longrightarrow>
        (\<exists>a b. (a, b) \<in> A - empty_pairs H \<and> l = hexenc a \<and> r = hexenc b \<and> h = hexenc (nodeHash H a b)))"

lemma collision_freeD:
  "collision_free H A \<Longrightarrow> (a, b) \<in> A \<Longrightarrow> (c, d) \<in> A \<Longrightarrow> nodeHash H a b = nodeHash H c d \<Longrightarrow> a = c \<and> b = d"
  by (auto simp: collision_free_def inj_on_def)

lemma collision_free_EMPTY0: "collision_free H A \<Longrightarrow> (a, b) \<in> A \<Longrightarrow> nodeHash H a b \<noteq> EMPTY H 0"
  by (force simp: collision_free_def)

lemma empty_pairI: "k < SMT_DEPTH \<Longrightarrow> (EMPTY H k, EMPTY H k) \<in> empty_pairs H"
  by (auto simp: empty_pairs_def)

lemma EMPTY_Suc_pair: "EMPTY H (Suc k) = nodeHash H (EMPTY H k) (EMPTY H k)"
  by simp

lemma tree_pair_in: "tree_ok H A es \<Longrightarrow> d < SMT_DEPTH \<Longrightarrow> pathOf key d es \<noteq> [] \<Longrightarrow> node_pair H key d es \<in> A"
  by (auto simp: tree_ok_def tree_pairs_def)

lemma path_child:
  assumes "pathOf key d es \<noteq> []"
  obtains key' where "pathOf key' d es = pathOf key d es" "pathOf key' (Suc d) es \<noteq> []"
proof -
  obtain e where e: "e \<in> set (pathOf key d es)" using assms by (cases "pathOf key d es") auto
  have same: "\<forall>i<d. bitAt (fst e) i = bitAt key i" and mem: "e \<in> set es" using e by (auto simp: pathOf_def)
  have "pathOf (fst e) d es = pathOf key d es" using same by (auto simp: pathOf_def intro!: filter_cong)
  moreover have "e \<in> set (pathOf (fst e) (Suc d) es)" using mem by (simp add: pathOf_def)
  ultimately show thesis using that by (metis empty_iff list.set(1))
qed

text \<open>A subtree with an entry is never one of the empty-subtree constants.\<close>

lemma node_not_EMPTY:
  assumes A: "collision_free H A" "empty_pairs H \<subseteq> A" and t: "tree_ok H A es"
  shows "d \<le> SMT_DEPTH \<Longrightarrow> pathOf key d es \<noteq> [] \<Longrightarrow> k \<le> SMT_DEPTH \<Longrightarrow>
    smtNode H (pathOf key d es) d \<noteq> EMPTY H k"
proof (induction "SMT_DEPTH - d" arbitrary: d key k)
  case 0
  then have d: "d = SMT_DEPTH" by simp
  have "hd (pathOf key d es) \<in> set es" using hd_in_set [OF 0(3)] by (auto simp: pathOf_def)
  then show ?case using t 0 d by (auto simp: smtNode_leaf tree_ok_def proper_leaves_def)
next
  case (Suc n)
  then have d: "d < SMT_DEPTH" by simp
  from path_child [OF Suc.prems(2)] obtain key' where
    k': "pathOf key' d es = pathOf key d es" "pathOf key' (Suc d) es \<noteq> []" by blast
  have mem: "node_pair H key d es \<in> A" using tree_pair_in [OF t d Suc.prems(2)] .
  show ?case
  proof (cases k)
    case 0
    then show ?thesis
      using collision_free_EMPTY0 [OF A(1)] mem smtNode_node_pair [OF d, of H key es]
      by (cases "node_pair H key d es") auto
  next
    case (Suc j)
    have ep: "(EMPTY H j, EMPTY H j) \<in> A" using A(2) empty_pairI [of j H] Suc Suc.prems(3) by auto
    have ne: "smtNode H (pathOf key' (Suc d) es) (Suc d) \<noteq> EMPTY H j"
      using Suc.hyps(1) [of "Suc d" key' j] Suc.hyps(2) d k'(2) Suc Suc.prems(3) by simp
    have "node_pair H key d es = node_pair H key' d es" by (simp add: node_pair_def k'(1))
    then have "node_pair H key d es \<noteq> (EMPTY H j, EMPTY H j)"
      using ne by (auto simp: node_pair_bits [of H key'] split: if_splits)
    then show ?thesis
      using collision_freeD [OF A(1) _ ep] mem smtNode_node_pair [OF d, of H key es] Suc
      by (cases "node_pair H key d es") auto
  qed
qed

lemma node_pair_not_empty:
  assumes "collision_free H A" "empty_pairs H \<subseteq> A" "tree_ok H A es" "d < SMT_DEPTH" "pathOf key d es \<noteq> []"
  shows "node_pair H key d es \<in> A - empty_pairs H"
proof -
  have "smtNode H (pathOf key d es) d \<noteq> EMPTY H (Suc k)" if "k < SMT_DEPTH" for k
    using node_not_EMPTY [OF assms(1-3), of d key "Suc k"] assms(4,5) that by simp
  then have "node_pair H key d es \<notin> empty_pairs H"
    using smtNode_node_pair [OF assms(4), of H key es]
    by (auto simp: empty_pairs_def) blast
  then show ?thesis using tree_pair_in [OF assms(3-5)] by simp
qed

text \<open>Under the store invariant a row's presence decides its content.\<close>

lemma covers_iff_present:
  assumes A: "collision_free H A" "empty_pairs H \<subseteq> A" and t: "tree_ok H A es" and g: "store_ok H A g"
  shows "covers H g es \<longleftrightarrow>
    (\<forall>key d. d < SMT_DEPTH \<longrightarrow> pathOf key d es \<noteq> [] \<longrightarrow> g (hexenc (smtNode H (pathOf key d es) d)) \<noteq> None)"
    (is "_ \<longleftrightarrow> ?R")
proof
  assume "covers H g es"
  then show ?R by (simp add: covers_def)
next
  assume R: ?R
  show "covers H g es"
    unfolding covers_def
  proof (intro allI impI)
    fix key d assume d: "d < SMT_DEPTH"
    let ?h = "hexenc (smtNode H (pathOf key d es) d)"
    have row: "\<exists>a b. (a, b) \<in> A - empty_pairs H \<and> v = (hexenc a, hexenc b) \<and> smtNode H (pathOf key d es) d = nodeHash H a b"
      if "g ?h = Some v" for v
      using g that unfolding store_ok_def by (cases v) (fastforce dest: hexenc_inject [THEN iffD1])
    show "g ?h = (if pathOf key d es = [] then None else Some (map_prod hexenc hexenc (node_pair H key d es)))"
    proof (cases "pathOf key d es = []")
      case True
      define k where "k = SMT_DEPTH - Suc d"
      have k: "k < SMT_DEPTH" "SMT_DEPTH - d = Suc k" using d by (auto simp: k_def)
      have ep: "(EMPTY H k, EMPTY H k) \<in> A" "(EMPTY H k, EMPTY H k) \<in> empty_pairs H"
        using A(2) empty_pairI [OF k(1), of H] by auto
      have "g ?h = None"
      proof (rule ccontr)
        assume "g ?h \<noteq> None"
        then obtain a b where ab: "(a, b) \<in> A - empty_pairs H" "EMPTY H (Suc k) = nodeHash H a b"
          using row True k(2) by fastforce
        then show False using collision_freeD [OF A(1) _ ep(1), of a b] ep(2) by auto
      qed
      then show ?thesis using True by simp
    next
      case False
      then obtain v where v: "g ?h = Some v" using R d by blast
      from row [OF v] obtain a b where ab: "(a, b) \<in> A" "v = (hexenc a, hexenc b)"
        "smtNode H (pathOf key d es) d = nodeHash H a b" by blast
      obtain p q where pq: "node_pair H key d es = (p, q)" by fastforce
      have "(p, q) \<in> A" "smtNode H (pathOf key d es) d = nodeHash H p q"
        using tree_pair_in [OF t d False] smtNode_node_pair [OF d, of H key es] pq by auto
      then have "a = p \<and> b = q" using collision_freeD [OF A(1) ab(1)] ab(3) by auto
      then show ?thesis using False v ab(2) pq by simp
    qed
  qed
qed


section \<open>Updates\<close>

text \<open>The rows an update stores: one per non-empty node on the path of the key.\<close>

definition path_row :: "hash_fn \<Rightarrow> octets \<Rightarrow> smt_entry list \<Rightarrow> nat \<Rightarrow> tree_node" where
  "path_row H key es i = \<lparr>tn_hash = hexenc (smtNode H (pathOf key i es) i),
     tn_left = hexenc (fst (node_pair H key i es)), tn_right = hexenc (snd (node_pair H key i es))\<rparr>"

lemma climb_pending_rows:
  assumes len: "length key = 32" and sibs: "\<And>i. i < SMT_DEPTH \<Longrightarrow> sibs ! i = hexenc (smtNode H (awayOf key i es) (Suc i))"
  shows "d \<le> SMT_DEPTH \<Longrightarrow> \<exists>ns.
    climb_pending H key sibs (hexenc (smtNode H (pathOf key d es) d)) d pend = (hexenc (smtNode H es 0), pend @ ns)
    \<and> set ns = path_row H key es ` {i. i < d \<and> smtNode H (pathOf key i es) i \<noteq> EMPTY H (SMT_DEPTH - i)}"
proof (induction d arbitrary: pend)
  case 0
  then show ?case by (simp add: pathOf_def)
next
  case (Suc d)
  then have d: "d < SMT_DEPTH" "d \<le> SMT_DEPTH" by simp_all
  let ?row = "path_row H key es d"
  define new where "new = (if smtNode H (pathOf key d es) d \<noteq> EMPTY H (SMT_DEPTH - d) then [?row] else [])"
  have step: "climb_pending H key sibs (hexenc (smtNode H (pathOf key (Suc d) es) (Suc d))) (Suc d) pend =
      climb_pending H key sibs (hexenc (smtNode H (pathOf key d es) d)) d (pend @ new)"
    using smtNode_node_pair [OF d(1), of H key es]
    by (simp add: sibs [OF d(1)] node_pair_bits new_def path_row_def Let_def)
  from Suc.IH [OF d(2), of "pend @ new"] obtain ns where ns:
    "climb_pending H key sibs (hexenc (smtNode H (pathOf key d es) d)) d (pend @ new) = (hexenc (smtNode H es 0), (pend @ new) @ ns)"
    "set ns = path_row H key es ` {i. i < d \<and> smtNode H (pathOf key i es) i \<noteq> EMPTY H (SMT_DEPTH - i)}"
    by blast
  show ?case
    using ns step
    by (intro exI [of _ "new @ ns"]) (auto simp: new_def less_Suc_eq)
qed

lemma install_cases:
  assumes "install ns g h = Some v"
  shows "g h = Some v \<or> (\<exists>n \<in> set ns. tn_hash n = h \<and> v = (tn_left n, tn_right n))"
  using assms
proof (induction ns arbitrary: g)
  case (Cons n ns)
  then show ?case by (fastforce simp: install_def split: if_splits)
qed (simp add: install_def)

lemma install_mono: "g h \<noteq> None \<Longrightarrow> install ns g h = g h"
  by (induction ns arbitrary: g) (auto simp: install_def)

lemma install_present: "n \<in> set ns \<Longrightarrow> install ns g (tn_hash n) \<noteq> None"
proof (induction ns arbitrary: g)
  case (Cons m ns)
  have eq: "install (m # ns) g = install ns (install [m] g)" by (simp add: install_def)
  have "install [m] g (tn_hash m) \<noteq> None" by (simp add: install_def)
  with Cons show ?case by (auto simp: eq install_mono)
qed simp

lemma pathOf_put_entry_other:
  assumes "pathOf k' d (put_entry key lo es) \<noteq> pathOf key d (put_entry key lo es)"
  shows "pathOf k' d (put_entry key lo es) = pathOf k' d es"
proof -
  have "\<exists>i<d. bitAt key i \<noteq> bitAt k' i"
    using assms by (auto simp: pathOf_def intro!: filter_cong)
  then show ?thesis
    by (auto simp: pathOf_def put_entry_def split: option.split intro!: filter_cong)
qed

context node_store
begin

lemma update_refines:
  assumes A: "collision_free H A" "empty_pairs H \<subseteq> A" and key: "length key = 32"
    and t: "tree_ok H A es" "tree_ok H A (put_entry key lo es)"
    and st: "store_ok H A (no_get ops st)" "covers H (no_get ops st) es"
    and upd: "psmt_update H ops st (hexenc (smtNode H es 0)) key (map_option hexenc lo) = (st', root')"
  shows "root' = hexenc (smtNode H (put_entry key lo es) 0)"
    and "store_ok H A (no_get ops st')"
    and "covers H (no_get ops st') (put_entry key lo es)"
    and "\<And>h. no_get ops st h \<noteq> None \<Longrightarrow> no_get ops st' h = no_get ops st h"
proof -
  let ?g = "no_get ops st" and ?es = "put_entry key lo es"
  have wf: "wf_entries es" "wf_entries ?es" using t by (auto simp: tree_ok_def)
  have sib: "siblingsOf H key es ! i = hexenc (smtNode H (awayOf key i ?es) (Suc i))" if "i < SMT_DEPTH" for i
    using that by (simp add: siblingsOf_nth awayOf_put_entry)
  have leaf: "(case map_option hexenc lo of None \<Rightarrow> EMPTY0_HEX H | Some l \<Rightarrow> l) = hexenc (smtNode H (pathOf key SMT_DEPTH ?es) SMT_DEPTH)"
    by (simp add: smtNode_path_full [OF wf(2) key] leafOf_put_entry leaf_of_opt_def EMPTY0_HEX_def split: option.split)
  from climb_pending_rows [OF key sib order_refl, of "[]"] obtain ns where ns:
    "climb_pending H key (siblingsOf H key es) (hexenc (smtNode H (pathOf key SMT_DEPTH ?es) SMT_DEPTH)) SMT_DEPTH [] =
       (hexenc (smtNode H ?es 0), ns)"
    "set ns = path_row H key ?es ` {i. i < SMT_DEPTH \<and> smtNode H (pathOf key i ?es) i \<noteq> EMPTY H (SMT_DEPTH - i)}"
    by auto
  have get: "root' = hexenc (smtNode H ?es 0)" "no_get ops st' = install ns ?g"
    using get_update [OF descend_covers [OF st(2) wf(1) key], of "map_option hexenc lo"] ns(1) leaf upd by auto
  show "root' = hexenc (smtNode H ?es 0)" by (rule get(1))
  have nonempty: "pathOf key i ?es \<noteq> []" if "smtNode H (pathOf key i ?es) i \<noteq> EMPTY H (SMT_DEPTH - i)" for i
    using that by auto
  show ok: "store_ok H A (no_get ops st')"
    unfolding store_ok_def get(2)
  proof (intro allI impI)
    fix h l r assume "install ns ?g h = Some (l, r)"
    from install_cases [OF this]
    show "\<exists>a b. (a, b) \<in> A - empty_pairs H \<and> l = hexenc a \<and> r = hexenc b \<and> h = hexenc (nodeHash H a b)"
    proof
      assume "?g h = Some (l, r)"
      then show ?thesis using st(1) unfolding store_ok_def by blast
    next
      assume "\<exists>n \<in> set ns. tn_hash n = h \<and> (l, r) = (tn_left n, tn_right n)"
      then obtain i where i: "i < SMT_DEPTH" "pathOf key i ?es \<noteq> []" "h = hexenc (smtNode H (pathOf key i ?es) i)"
        "l = hexenc (fst (node_pair H key i ?es))" "r = hexenc (snd (node_pair H key i ?es))"
        using ns(2) nonempty by (auto simp: path_row_def)
      then show ?thesis
        using node_pair_not_empty [OF A t(2) i(1,2)] smtNode_node_pair [OF i(1), of H key ?es]
        by (cases "node_pair H key i ?es") auto
    qed
  qed
  show mono: "\<And>h. ?g h \<noteq> None \<Longrightarrow> no_get ops st' h = ?g h" by (simp add: get(2) install_mono)
  show "covers H (no_get ops st') ?es"
    unfolding covers_iff_present [OF A t(2) ok]
  proof (intro allI impI)
    fix k' d assume d: "d < SMT_DEPTH" and ne: "pathOf k' d ?es \<noteq> []"
    show "no_get ops st' (hexenc (smtNode H (pathOf k' d ?es) d)) \<noteq> None"
    proof (cases "pathOf k' d ?es = pathOf key d ?es")
      case True
      then have "smtNode H (pathOf key d ?es) d \<noteq> EMPTY H (SMT_DEPTH - d)"
        using node_not_EMPTY [OF A t(2), of d key] ne d by simp
      then have "\<exists>n \<in> set ns. tn_hash n = hexenc (smtNode H (pathOf key d ?es) d)"
        using ns(2) d by (force simp: path_row_def)
      then show ?thesis using install_present get(2) True by metis
    next
      case False
      then have "pathOf k' d ?es = pathOf k' d es" by (rule pathOf_put_entry_other)
      then show ?thesis using st(2) d ne mono unfolding covers_iff_present [OF A t(1) st(1)] by metis
    qed
  qed
qed

end


section \<open>Runs of updates\<close>

type_synonym leaf_update = "octets \<times> octets option"

definition wire_updates :: "leaf_update list \<Rightarrow> (octets \<times> string option) list" where
  "wire_updates us = map (map_prod id (map_option hexenc)) us"

definition smt_run :: "leaf_update list \<Rightarrow> smt" where
  "smt_run us = fold (\<lambda>(key, lo) t. smt_set t key lo) us smt_new"

definition run_entries :: "leaf_update list \<Rightarrow> smt_entry list" where
  "run_entries us = fold (\<lambda>(key, lo) es. put_entry key lo es) us []"

definition run_pairs :: "hash_fn \<Rightarrow> leaf_update list \<Rightarrow> (octets \<times> octets) set" where
  "run_pairs H us = empty_pairs H \<union> (\<Union>i \<le> length us. tree_pairs H (run_entries (take i us)))"

definition updates_ok :: "hash_fn \<Rightarrow> leaf_update list \<Rightarrow> bool" where
  "updates_ok H us \<longleftrightarrow>
     (\<forall>u \<in> set us. length (fst u) = 32 \<and> (\<forall>l. snd u = Some l \<longrightarrow> (\<forall>k \<le> SMT_DEPTH. l \<noteq> EMPTY H k)))"

lemma run_entries_snoc: "run_entries (us @ [(key, lo)]) = put_entry key lo (run_entries us)"
  by (simp add: run_entries_def)

lemma smt_run_snoc: "smt_run (us @ [(key, lo)]) = smt_set (smt_run us) key lo"
  by (simp add: smt_run_def)

lemma updates_ok_snoc: "updates_ok H (us @ [u]) \<longleftrightarrow> updates_ok H us \<and> updates_ok H [u]"
  by (auto simp: updates_ok_def)

lemma run_wf: "updates_ok H us \<Longrightarrow> wf_entries (run_entries us) \<and> wf_smt (smt_run us)"
proof (induction us rule: rev_induct)
  case Nil
  then show ?case by (simp add: run_entries_def smt_run_def wf_entries_def wf_smt_new)
next
  case (snoc u us)
  then show ?case
    by (cases u) (auto simp: updates_ok_snoc run_entries_snoc smt_run_snoc updates_ok_def intro: wf_intros)
qed

lemma run_proper: "updates_ok H us \<Longrightarrow> proper_leaves H (run_entries us)"
proof (induction us rule: rev_induct)
  case Nil
  then show ?case by (simp add: run_entries_def proper_leaves_def)
next
  case (snoc u us)
  then show ?case
    by (cases u) (auto simp: updates_ok_snoc run_entries_snoc updates_ok_def proper_leaves_def put_entry_def
        split: option.splits)
qed

lemma map_of_run: "updates_ok H us \<Longrightarrow> map_of (smt_run us) (hexenc key) = map_option hexenc (map_of (run_entries us) key)"
proof (induction us rule: rev_induct)
  case Nil
  then show ?case by (simp add: run_entries_def smt_run_def smt_new_def)
next
  case (snoc u us)
  then show ?case
    by (cases u) (auto simp: updates_ok_snoc run_entries_snoc smt_run_snoc map_of_put_entry smt_set_def
        update_conv' delete_conv' split: option.split)
qed

lemma run_entries_set:
  assumes "updates_ok H us"
  shows "set (smt_entries (smt_run us)) = set (run_entries us)"
proof (rule entries_eqI)
  show "map_of (smt_entries (smt_run us)) = map_of (run_entries us)"
    using run_wf [OF assms] map_of_run [OF assms]
    by (auto simp: fun_eq_iff map_of_smt_entries option.map_comp comp_def option.map_ident)
qed (use run_wf [OF assms] in \<open>auto intro: wf_smt_entries\<close>)

lemma run_root: "updates_ok H us \<Longrightarrow> smt_rootHex H (smt_run us) = hexenc (smtNode H (run_entries us) 0)"
  unfolding smt_rootHex_def smt_root_def
  using smtNode_root_cong run_entries_set run_wf wf_smt_entries by metis

lemma same_path_awayOf: "same_path (Suc d) (awayOf key d es)"
  using bitAt_01 by (auto simp: same_path_def awayOf_def pathOf_def less_Suc_eq) metis

lemma run_siblings:
  assumes "updates_ok H us"
  shows "siblingsOf H key (smt_entries (smt_run us)) = siblingsOf H key (run_entries us)"
proof (rule nth_equalityI)
  fix d assume "d < length (siblingsOf H key (smt_entries (smt_run us)))"
  then have d: "d < SMT_DEPTH" by simp
  have "smtNode H (awayOf key d (smt_entries (smt_run us))) (Suc d) = smtNode H (awayOf key d (run_entries us)) (Suc d)"
    using run_wf [OF assms] run_entries_set [OF assms] d
    by (intro smtNode_cong_set same_path_awayOf)
       (auto simp: awayOf_def pathOf_def wf_entries_filter wf_smt_entries)
  with d show "siblingsOf H key (smt_entries (smt_run us)) ! d = siblingsOf H key (run_entries us) ! d"
    by (simp add: siblingsOf_nth)
qed simp

lemma tree_ok_run:
  assumes "updates_ok H us" "i \<le> length us"
  shows "tree_ok H (run_pairs H us) (run_entries (take i us))"
proof -
  have "updates_ok H (take i us)" using assms(1) by (auto simp: updates_ok_def dest: in_set_takeD)
  then show ?thesis using assms(2) by (auto simp: tree_ok_def run_wf run_proper run_pairs_def)
qed

lemma psmt_run_snoc:
  "psmt_run H ops st root (us @ [(key, leaf)]) =
     (let (st', root') = psmt_run H ops st root us in psmt_update H ops st' root' key leaf)"
  by (induction us arbitrary: st root) (auto simp: case_prod_beta Let_def)

context node_store
begin

lemma run_refines:
  assumes cf: "collision_free H (run_pairs H us)" and ok: "updates_ok H us" and g0: "no_get ops st = Map.empty"
  shows "i \<le> length us \<Longrightarrow>
    (case psmt_run H ops st (EMPTY_ROOT_HEX H) (wire_updates (take i us)) of (st', root') \<Rightarrow>
       root' = hexenc (smtNode H (run_entries (take i us)) 0)
     \<and> store_ok H (run_pairs H us) (no_get ops st')
     \<and> (\<forall>j \<le> i. covers H (no_get ops st') (run_entries (take j us))))"
proof (induction i)
  case 0
  have "covers H Map.empty []" by (simp add: covers_def pathOf_def)
  then show ?case
    using g0 by (simp add: wire_updates_def run_entries_def EMPTY_ROOT_HEX_def EMPTY_SMT_ROOT_def store_ok_def)
next
  case (Suc i)
  let ?A = "run_pairs H us"
  have A: "empty_pairs H \<subseteq> ?A" by (auto simp: run_pairs_def)
  obtain key lo where u: "us ! i = (key, lo)" by fastforce
  have tk: "take (Suc i) us = take i us @ [(key, lo)]" using Suc.prems u by (simp add: take_Suc_conv_app_nth)
  have key: "length key = 32" using ok Suc.prems u nth_mem [of i us] by (fastforce simp: updates_ok_def)
  obtain st1 root1 where r1: "psmt_run H ops st (EMPTY_ROOT_HEX H) (wire_updates (take i us)) = (st1, root1)" by fastforce
  obtain st2 root2 where r2: "psmt_update H ops st1 root1 key (map_option hexenc lo) = (st2, root2)" by fastforce
  have IH: "root1 = hexenc (smtNode H (run_entries (take i us)) 0)" "store_ok H ?A (no_get ops st1)"
    "\<And>j. j \<le> i \<Longrightarrow> covers H (no_get ops st1) (run_entries (take j us))"
    using Suc r1 by auto
  have t: "tree_ok H ?A (run_entries (take i us))" "tree_ok H ?A (put_entry key lo (run_entries (take i us)))"
    using tree_ok_run [OF ok, of i] tree_ok_run [OF ok, of "Suc i"] Suc.prems by (simp_all add: tk run_entries_snoc)
  note up = update_refines [OF cf A key t IH(2) IH(3) [OF order_refl] r2 [unfolded IH(1)]]
  have old: "covers H (no_get ops st2) (run_entries (take j us))" if "j \<le> i" for j
  proof -
    have tj: "tree_ok H ?A (run_entries (take j us))" using tree_ok_run [OF ok, of j] that Suc.prems by simp
    show ?thesis
      using IH(3) [OF that] up(4) unfolding covers_iff_present [OF cf A tj IH(2)] covers_iff_present [OF cf A tj up(2)]
      by metis
  qed
  have "psmt_run H ops st (EMPTY_ROOT_HEX H) (wire_updates (take (Suc i) us)) = (st2, root2)"
    using r1 r2 by (simp add: tk wire_updates_def psmt_run_snoc)
  then show ?case using up old by (auto simp: tk run_entries_snoc le_Suc_eq)
qed

lemma prove_refines:
  assumes "updates_ok H us" "covers H (no_get ops st) (run_entries us)" "length key = 32"
  shows "psmt_prove H ops st (smt_rootHex H (smt_run us)) key = smt_prove H (smt_run us) key"
proof -
  have wf: "wf_entries (run_entries us)" using run_wf [OF assms(1)] by simp
  have "leafOf H (run_entries us) key = EMPTY H 0 \<longleftrightarrow> map_of (run_entries us) key = None"
    using run_proper [OF assms(1)] map_of_SomeD [of "run_entries us" key]
    by (cases "map_of (run_entries us) key") (force simp: leafOf_def proper_leaves_def)+
  then show ?thesis
    using descend_covers [OF assms(2) wf assms(3)] map_of_run [OF assms(1), of key] run_siblings [OF assms(1), of key]
    by (auto simp: psmt_prove_def smt_prove_def run_root [OF assms(1)] EMPTY0_HEX_def leafOf_def Let_def
        siblingsOf_def [symmetric] split: option.splits)
qed

lemma psmt_refines:
  assumes "collision_free H (run_pairs H us)" "updates_ok H us" "no_get ops st = Map.empty"
    and run: "psmt_run H ops st (EMPTY_ROOT_HEX H) (wire_updates us) = (st', root')"
  shows "root' = smt_rootHex H (smt_run us)"
    and "i \<le> length us \<Longrightarrow> length key = 32 \<Longrightarrow>
      psmt_prove H ops st' (smt_rootHex H (smt_run (take i us))) key = smt_prove H (smt_run (take i us)) key"
proof -
  from run_refines [OF assms(1-3) order_refl] run
  have r: "root' = hexenc (smtNode H (run_entries us) 0)"
    "\<And>j. j \<le> length us \<Longrightarrow> covers H (no_get ops st') (run_entries (take j us))" by auto
  show "root' = smt_rootHex H (smt_run us)" using r(1) run_root [OF assms(2)] by simp
  assume "i \<le> length us" "length key = 32"
  moreover have "updates_ok H (take i us)" using assms(2) by (auto simp: updates_ok_def dest: in_set_takeD)
  ultimately show "psmt_prove H ops st' (smt_rootHex H (smt_run (take i us))) key = smt_prove H (smt_run (take i us)) key"
    using prove_refines r(2) by blast
qed

end


text \<open>(C1) The persistent tree refines the reference tree: after any sequence of updates on an
  empty node table or an empty memory store, the root is the reference root, and from the
  final store the engine still produces, for the root after every prefix of the sequence, exactly
  the reference proof of every key.  Updates never overwrite what an earlier root needs.\<close>

theorem persistent_smt_refines:
  assumes "collision_free H (run_pairs H us)" "updates_ok H us"
  shows "(case psmt_run H db_ops [] (EMPTY_ROOT_HEX H) (wire_updates us) of (st, root) \<Rightarrow>
      root = smt_rootHex H (smt_run us)
      \<and> (\<forall>i \<le> length us. \<forall>key. length key = 32 \<longrightarrow>
           psmt_prove H db_ops st (smt_rootHex H (smt_run (take i us))) key = smt_prove H (smt_run (take i us)) key))
    \<and> (case psmt_run H memory_ops [] (EMPTY_ROOT_HEX H) (wire_updates us) of (st, root) \<Rightarrow>
      root = smt_rootHex H (smt_run us)
      \<and> (\<forall>i \<le> length us. \<forall>key. length key = 32 \<longrightarrow>
           psmt_prove H memory_ops st (smt_rootHex H (smt_run (take i us))) key = smt_prove H (smt_run (take i us)) key))"
proof -
  have "no_get db_ops [] = Map.empty" "no_get memory_ops [] = Map.empty"
    by (simp_all add: db_ops_def memory_ops_def fun_eq_iff db_get_map_of memory_get_def)
  then show ?thesis
    using table.psmt_refines [OF assms] memory.psmt_refines [OF assms] by (auto split: prod.split)
qed

text \<open>With the identity in place of the hash and leaves as long as the empty leaf, every node of a depth has
  the same length and nothing collides.\<close>

lemma EMPTY_id_length: "Suc (length (EMPTY id k)) = 19 * 2 ^ k"
  by (induction k) (simp_all add: nodeHash_def)

lemma smtNode_id_length:
  assumes "\<forall>e \<in> set es. length (snd e) = 18" "d \<le> SMT_DEPTH"
  shows "Suc (length (smtNode id es d)) = 19 * 2 ^ (SMT_DEPTH - d)"
  using assms
proof (induction "SMT_DEPTH - d" arbitrary: d es)
  case 0
  then have "d = SMT_DEPTH" by simp
  then show ?case using 0 EMPTY_id_length [of 0] by (cases "es = []") (auto simp: smtNode_leaf)
next
  case (Suc n)
  then have d: "d < SMT_DEPTH" "SMT_DEPTH - d = Suc n" "n = SMT_DEPTH - Suc d" by simp_all
  have "\<forall>e \<in> set (goLeft d es). length (snd e) = 18" "\<forall>e \<in> set (goRight d es). length (snd e) = 18"
    using Suc.prems by (auto simp: goLeft_def goRight_def)
  then have "Suc (length (smtNode id (goLeft d es) (Suc d))) = 19 * 2 ^ n"
    "Suc (length (smtNode id (goRight d es) (Suc d))) = 19 * 2 ^ n"
    using Suc.hyps(1) [of "Suc d"] d by simp_all
  then show ?case
    using smtNode_step [OF d(1), of id es] d(2) by (simp add: nodeHash_def)
qed

lemma collision_free_id:
  assumes "\<forall>p \<in> A. length (fst p) = length (snd p)"
  shows "collision_free id A"
  unfolding collision_free_def
proof
  show "inj_on (case_prod (nodeHash id)) A"
  proof (rule inj_onI, clarify)
    fix a b c d assume *: "(a, b) \<in> A" "(c, d) \<in> A" "nodeHash id a b = nodeHash id c d"
    then have "length a = length b" "length c = length d" "a @ b = c @ d"
      using assms by (auto simp: nodeHash_def)
    moreover from this have "length a + length b = length c + length d" by (metis length_append)
    ultimately show "a = c \<and> b = d" by simp
  qed
  show "EMPTY id 0 \<notin> case_prod (nodeHash id) ` A"
    by (auto simp: nodeHash_def NODE_PREFIX_def EMPTY_PREFIX_def)
qed

lemma tree_pairs_id:
  assumes "p \<in> tree_pairs id es" "\<forall>e \<in> set es. length (snd e) = 18"
  shows "length (fst p) = length (snd p)"
proof -
  from assms(1) obtain key d where p: "p = node_pair id key d es" "d < SMT_DEPTH" by (auto simp: tree_pairs_def)
  have "\<forall>e \<in> set (goLeft d (pathOf key d es)). length (snd e) = 18"
    "\<forall>e \<in> set (goRight d (pathOf key d es)). length (snd e) = 18"
    using assms(2) by (auto simp: goLeft_def goRight_def pathOf_def)
  then show ?thesis
    using p smtNode_id_length [of _ "Suc d"] by (simp add: node_pair_def) (metis Suc_inject Suc_leI)
qed

lemma run_entries_leaves:
  "\<forall>u \<in> set us. \<forall>l. snd u = Some l \<longrightarrow> length l = 18 \<Longrightarrow> \<forall>e \<in> set (run_entries us). length (snd e) = 18"
  by (induction us rule: rev_induct) (auto simp: run_entries_def put_entry_def split: option.splits)

lemma collision_free_run_id:
  assumes "\<forall>u \<in> set us. \<forall>l. snd u = Some l \<longrightarrow> length l = 18"
  shows "collision_free id (run_pairs id us)"
proof (rule collision_free_id, rule ballI)
  fix p assume "p \<in> run_pairs id us"
  then consider "p \<in> empty_pairs id" | i where "p \<in> tree_pairs id (run_entries (take i us))"
    by (auto simp: run_pairs_def)
  then show "length (fst p) = length (snd p)"
  proof cases
    case (2 i)
    moreover have "\<forall>u \<in> set (take i us). \<forall>l. snd u = Some l \<longrightarrow> length l = 18" using assms by (auto dest: in_set_takeD)
    ultimately show ?thesis using tree_pairs_id run_entries_leaves by blast
  qed (auto simp: empty_pairs_def)
qed

lemma persistent_smt_refines_witness:
  "snd (psmt_run id db_ops [] (EMPTY_ROOT_HEX id)
      (wire_updates [(key0, Some ''leaf 000000000001.''), (key1, Some ''leaf 000000000002.''), (key0, None)])) =
   smt_rootHex id (smt_run [(key0, Some ''leaf 000000000001.''), (key1, Some ''leaf 000000000002.''), (key0, None)])"
proof -
  let ?us = "[(key0, Some ''leaf 000000000001.''), (key1, Some ''leaf 000000000002.''), (key0, None)] :: leaf_update list"
  have "collision_free id (run_pairs id ?us)" by (rule collision_free_run_id) auto
  moreover have "CHR ''l'' # cs \<noteq> EMPTY id k" for cs k
    by (cases k) (auto simp: nodeHash_def EMPTY_PREFIX_def NODE_PREFIX_def)
  then have "updates_ok id ?us"
    by (simp add: updates_ok_def)
  ultimately show ?thesis
    using persistent_smt_refines [of id ?us] by (auto split: prod.splits)
qed

end
