(* ===== verification/Journaled_Leaves.thy ===== *)
theory Journaled_Leaves
  imports Persistent_SMT
begin

text \<open>
  The contract between the journals of the replica and the trees the state commitment
  threads over them.  A leaf source answers three questions about a database: the leaf of a key, the
  keys a block touched, and all live leaves.  Under its laws, updating the touched keys of the tree of
  the previous block and rebuilding the tree from nothing give the same leaf table, and
  the persistent engine started on any store that serves a tree keeps doing so.
\<close>

section \<open>Runs from a given tree\<close>

definition run_from :: "smt_entry list \<Rightarrow> leaf_update list \<Rightarrow> smt_entry list" where
  "run_from es us = fold (\<lambda>(key, lo) es. put_entry key lo es) us es"

text \<open>Every tree met on the way only hashes pairs of \<open>A\<close>.\<close>

definition pairs_within :: "hash_fn \<Rightarrow> (octets \<times> octets) set \<Rightarrow> smt_entry list \<Rightarrow> leaf_update list \<Rightarrow> bool" where
  "pairs_within H A es us \<longleftrightarrow> (\<forall>i \<le> length us. tree_pairs H (run_from es (take i us)) \<subseteq> A)"

text \<open>The hash does not collide on \<open>A\<close>, which holds the pairs of the empty subtrees.\<close>

definition hash_ok :: "hash_fn \<Rightarrow> (octets \<times> octets) set \<Rightarrow> bool" where
  "hash_ok H A \<longleftrightarrow> collision_free H A \<and> empty_pairs H \<subseteq> A"

definition serves :: "hash_fn \<Rightarrow> (octets \<times> octets) set \<Rightarrow> (string \<rightharpoonup> string \<times> string) \<Rightarrow> smt_entry list \<Rightarrow> bool" where
  "serves H A g es \<longleftrightarrow> store_ok H A g \<and> covers H g es \<and> tree_ok H A es"

lemma run_from_simps [simp]:
  "run_from es [] = es" "run_from es ((key, lo) # us) = run_from (put_entry key lo es) us"
  by (simp_all add: run_from_def)

lemma run_from_append: "run_from es (us @ vs) = run_from (run_from es us) vs"
  by (simp add: run_from_def)

lemma pairs_within_Cons:
  "pairs_within H A es ((key, lo) # us) \<longleftrightarrow> tree_pairs H es \<subseteq> A \<and> pairs_within H A (put_entry key lo es) us"
proof
  assume *: "pairs_within H A es ((key, lo) # us)"
  have "tree_pairs H (run_from (put_entry key lo es) (take i us)) \<subseteq> A" if "i \<le> length us" for i
    using * [unfolded pairs_within_def, rule_format, of "Suc i"] that by simp
  then show "tree_pairs H es \<subseteq> A \<and> pairs_within H A (put_entry key lo es) us"
    using * [unfolded pairs_within_def, rule_format, of 0] by (simp add: pairs_within_def)
next
  assume *: "tree_pairs H es \<subseteq> A \<and> pairs_within H A (put_entry key lo es) us"
  have "tree_pairs H (run_from es (take i ((key, lo) # us))) \<subseteq> A" if "i \<le> length ((key, lo) # us)" for i
    using * that by (cases i) (auto simp: pairs_within_def)
  then show "pairs_within H A es ((key, lo) # us)" by (simp add: pairs_within_def)
qed

lemma pairs_within_append: "pairs_within H A es us \<Longrightarrow> pairs_within H A (run_from es us) vs \<Longrightarrow> pairs_within H A es (us @ vs)"
  unfolding pairs_within_def
proof (intro allI impI)
  fix i
  assume *: "\<forall>i \<le> length us. tree_pairs H (run_from es (take i us)) \<subseteq> A"
    "\<forall>i \<le> length vs. tree_pairs H (run_from (run_from es us) (take i vs)) \<subseteq> A" "i \<le> length (us @ vs)"
  show "tree_pairs H (run_from es (take i (us @ vs))) \<subseteq> A"
    using *(1) *(2) [rule_format, of "i - length us"] *(3)
    by (cases "i \<le> length us") (auto simp: run_from_append)
qed

lemma updates_ok_append: "updates_ok H (us @ vs) \<longleftrightarrow> updates_ok H us \<and> updates_ok H vs"
  by (auto simp: updates_ok_def)

lemma updates_ok_Cons: "updates_ok H (u # us) \<longleftrightarrow> updates_ok H [u] \<and> updates_ok H us"
  by (auto simp: updates_ok_def)

lemma tree_ok_put:
  assumes "tree_ok H A es" "updates_ok H [(key, lo)]" "tree_pairs H (put_entry key lo es) \<subseteq> A"
  shows "tree_ok H A (put_entry key lo es)"
proof -
  have "proper_leaves H (put_entry key lo es)"
    using assms(1,2) by (auto simp: tree_ok_def proper_leaves_def updates_ok_def put_entry_def split: option.splits)
  then show ?thesis using assms by (auto simp: tree_ok_def updates_ok_def intro: wf_intros)
qed

lemma pairs_within_start: "pairs_within H A es us \<Longrightarrow> tree_pairs H es \<subseteq> A"
  unfolding pairs_within_def by (metis bot_nat_0.extremum run_from_simps(1) take_0)

lemma serves_empty_tree: "store_ok H A g \<Longrightarrow> hash_ok H A \<Longrightarrow> serves H A g []"
proof -
  assume g: "store_ok H A g" and A: "hash_ok H A"
  have t: "tree_ok H A []" by (simp add: tree_ok_def wf_entries_def tree_pairs_def pathOf_def proper_leaves_def)
  have "covers H g []"
    using covers_iff_present [of H A "[]" g] A t g by (simp add: hash_ok_def pathOf_def)
  with g t show ?thesis by (simp add: serves_def)
qed

context node_store
begin

lemma run_from_refines:
  assumes A: "hash_ok H A" and ok: "updates_ok H us" and w: "pairs_within H A es us"
    and s: "serves H A (no_get ops st) es"
    and run: "psmt_run H ops st (hexenc (smtNode H es 0)) (wire_updates us) = (st', root')"
  shows "root' = hexenc (smtNode H (run_from es us) 0)
    \<and> serves H A (no_get ops st') (run_from es us)
    \<and> (\<forall>es'. serves H A (no_get ops st) es' \<longrightarrow> serves H A (no_get ops st') es')"
  using ok w s run
proof (induction us arbitrary: es st)
  case Nil
  then show ?case by (simp add: wire_updates_def)
next
  case (Cons u us)
  obtain key lo where u: "u = (key, lo)" by fastforce
  have cf: "collision_free H A" "empty_pairs H \<subseteq> A" using A by (auto simp: hash_ok_def)
  have key: "length key = 32" and ok1: "updates_ok H [(key, lo)]" and ok2: "updates_ok H us"
    using Cons.prems(1) by (auto simp: u updates_ok_def)
  have w2: "pairs_within H A (put_entry key lo es) us" using Cons.prems(2) by (simp add: u pairs_within_Cons)
  have t: "tree_ok H A es" "store_ok H A (no_get ops st)" "covers H (no_get ops st) es"
    using Cons.prems(3) by (auto simp: serves_def)
  have t': "tree_ok H A (put_entry key lo es)" by (rule tree_ok_put [OF t(1) ok1 pairs_within_start [OF w2]])
  obtain st1 root1 where r1: "psmt_update H ops st (hexenc (smtNode H es 0)) key (map_option hexenc lo) = (st1, root1)"
    by fastforce
  note up = update_refines [OF cf key t(1) t' t(2,3) r1]
  have keep: "serves H A (no_get ops st1) es'" if "serves H A (no_get ops st) es'" for es'
    using that up(2,4) covers_iff_present [OF cf, of es' "no_get ops st"] covers_iff_present [OF cf, of es' "no_get ops st1"]
    unfolding serves_def by metis
  have run1: "psmt_run H ops st1 (hexenc (smtNode H (put_entry key lo es) 0)) (wire_updates us) = (st', root')"
    using Cons.prems(4) r1 up(1) by (simp add: u wire_updates_def)
  have "serves H A (no_get ops st1) (put_entry key lo es)" using up(2,3) t' by (simp add: serves_def)
  from Cons.IH [OF ok2 w2 this run1] keep show ?case by (simp add: u)
qed

end

section \<open>Leaf tables\<close>

text \<open>The table of the leaves \<open>m\<close> of the objects \<open>K\<close>, filed under their tree keys \<open>kf\<close>.\<close>

definition leaf_table :: "('k \<Rightarrow> octets) \<Rightarrow> 'k set \<Rightarrow> ('k \<Rightarrow> octets option) \<Rightarrow> octets \<Rightarrow> octets option" where
  "leaf_table kf K m key = (if key \<in> kf ` K then m (inv_into K kf key) else None)"

lemma leaf_table_key: "inj_on kf K \<Longrightarrow> k \<in> K \<Longrightarrow> leaf_table kf K m (kf k) = m k"
  by (simp add: leaf_table_def)

lemma leaf_table_cong: "(\<And>k. k \<in> K \<Longrightarrow> m k = m' k) \<Longrightarrow> leaf_table kf K m = leaf_table kf K m'"
  by (auto simp: leaf_table_def fun_eq_iff inv_into_into)

lemma leaf_table_None: "leaf_table kf K (\<lambda>_. None) = Map.empty"
  by (simp add: leaf_table_def fun_eq_iff)

lemma leaf_table_upd:
  assumes "inj_on kf K" "k \<in> K"
  shows "(leaf_table kf K m)(kf k := v) = leaf_table kf K (m(k := v))"
  using assms by (auto simp: leaf_table_def fun_eq_iff inv_into_f_eq dest: inj_onD)

definition updates_of :: "('k \<Rightarrow> octets) \<Rightarrow> ('k \<Rightarrow> octets option) \<Rightarrow> 'k list \<Rightarrow> leaf_update list" where
  "updates_of kf m ks = map (\<lambda>k. (kf k, m k)) ks"

lemma updates_of_table:
  assumes "inj_on kf K" "set ks \<subseteq> K" "map_of es = leaf_table kf K m0"
    and "\<And>k. k \<in> K \<Longrightarrow> k \<notin> set ks \<Longrightarrow> m k = m0 k"
  shows "map_of (run_from es (updates_of kf m ks)) = leaf_table kf K m"
  using assms(2-4)
proof (induction ks arbitrary: es m0)
  case Nil
  then show ?case using leaf_table_cong [of K m m0 kf] by (simp add: updates_of_def)
next
  case (Cons k ks)
  have "map_of (put_entry (kf k) (m k) es) = leaf_table kf K (m0(k := m k))"
    using Cons.prems leaf_table_upd [OF assms(1), of k m0 "m k"] by (simp add: map_of_put_entry)
  from Cons.IH [OF _ this] Cons.prems show ?case by (auto simp: updates_of_def)
qed

lemma run_from_wf: "wf_entries es \<Longrightarrow> updates_ok H us \<Longrightarrow> wf_entries (run_from es us)"
proof (induction us arbitrary: es)
  case (Cons u us)
  then show ?case by (cases u) (auto simp: updates_ok_def intro: wf_intros)
qed simp

lemma root_of_table:
  "wf_entries es \<Longrightarrow> wf_smt t \<Longrightarrow> map_of es = map_of (smt_entries t) \<Longrightarrow> hexenc (smtNode H es 0) = smt_rootHex H t"
  unfolding smt_rootHex_def smt_root_def
  using smtNode_root_cong wf_smt_entries entries_eqI by metis

section \<open>The interface\<close>

locale leaf_source =
  fixes valid :: "'db \<Rightarrow> bool"
    and leaf_at :: "'db \<Rightarrow> 'k \<Rightarrow> octets option"
    and touched :: "'db \<Rightarrow> 'b \<Rightarrow> 'k list"
    and live :: "'db \<Rightarrow> 'k list"
    and grown :: "'b \<Rightarrow> 'db \<Rightarrow> 'db \<Rightarrow> bool"
  assumes unchanged: "grown b db db' \<Longrightarrow> valid db' \<Longrightarrow> k \<notin> set (touched db' b) \<Longrightarrow> leaf_at db' k = leaf_at db k"
    and live_all: "valid db \<Longrightarrow> leaf_at db k \<noteq> None \<Longrightarrow> k \<in> set (live db)"
begin

lemma thread_table:
  assumes "inj_on kf K" "set (touched db' b) \<subseteq> K" "grown b db db'" "valid db'"
    and "map_of es = leaf_table kf K (leaf_at db)"
  shows "map_of (run_from es (updates_of kf (leaf_at db') (touched db' b))) = leaf_table kf K (leaf_at db')"
  using unchanged [OF assms(3,4)] by (intro updates_of_table [OF assms(1,2,5)]) auto

lemma full_table:
  assumes "inj_on kf K" "set (live db) \<subseteq> K" "valid db"
  shows "map_of (run_from [] (updates_of kf (leaf_at db) (live db))) = leaf_table kf K (leaf_at db)"
proof (rule updates_of_table [OF assms(1,2)])
  show "map_of [] = leaf_table kf K (\<lambda>_. None)" by (simp add: leaf_table_None)
qed (use live_all [OF assms(3)] in blast)

text \<open>Threading and rebuilding reach the same root.\<close>

lemma thread_is_full:
  assumes "inj_on kf K" "set (touched db' b) \<subseteq> K" "set (live db') \<subseteq> K" "grown b db db'" "valid db'"
    and "wf_entries es" "map_of es = leaf_table kf K (leaf_at db)"
    and "updates_ok H (updates_of kf (leaf_at db') (touched db' b))" "updates_ok H (updates_of kf (leaf_at db') (live db'))"
  shows "smtNode H (run_from es (updates_of kf (leaf_at db') (touched db' b))) 0 =
    smtNode H (run_from [] (updates_of kf (leaf_at db') (live db'))) 0"
proof (rule smtNode_root_cong)
  show wf: "wf_entries (run_from es (updates_of kf (leaf_at db') (touched db' b)))"
    "wf_entries (run_from [] (updates_of kf (leaf_at db') (live db')))"
    using run_from_wf [OF assms(6,8)] run_from_wf [OF _ assms(9), of "[]"] by (simp_all add: wf_entries_def)
  show "set (run_from es (updates_of kf (leaf_at db') (touched db' b))) = set (run_from [] (updates_of kf (leaf_at db') (live db')))"
    using thread_table [OF assms(1,2,4,5,7)] full_table [OF assms(1,3,5)] by (intro entries_eqI wf) simp
qed

end

text \<open>Two sources of one tree, filed under the disjoint sum of their keys.\<close>

locale leaf_pair =
  a: leaf_source valid_a leaf_a touched_a live_a grown_a + b: leaf_source valid_b leaf_b touched_b live_b grown_b
  for valid_a :: "'db \<Rightarrow> bool" and leaf_a :: "'db \<Rightarrow> 'j \<Rightarrow> octets option"
    and touched_a :: "'db \<Rightarrow> 'p \<Rightarrow> 'j list" and live_a :: "'db \<Rightarrow> 'j list" and grown_a :: "'p \<Rightarrow> 'db \<Rightarrow> 'db \<Rightarrow> bool"
    and valid_b :: "'db \<Rightarrow> bool" and leaf_b :: "'db \<Rightarrow> 'k \<Rightarrow> octets option"
    and touched_b :: "'db \<Rightarrow> 'q \<Rightarrow> 'k list" and live_b :: "'db \<Rightarrow> 'k list" and grown_b :: "'q \<Rightarrow> 'db \<Rightarrow> 'db \<Rightarrow> bool"

sublocale leaf_pair \<subseteq> both: leaf_source
  "\<lambda>db. valid_a db \<and> valid_b db"
  "\<lambda>db. case_sum (leaf_a db) (leaf_b db)"
  "\<lambda>db (p, q). map Inl (touched_a db p) @ map Inr (touched_b db q)"
  "\<lambda>db. map Inl (live_a db) @ map Inr (live_b db)"
  "\<lambda>(p, q) db db'. grown_a p db db' \<and> grown_b q db db'"
  by unfold_locales
     (auto split: sum.splits simp: image_iff intro!: a.unchanged b.unchanged dest: a.live_all b.live_all)

end
