(* ===== verification/Fixed_Merkle.thy ===== *)
theory Fixed_Merkle
  imports Merkle_Primitives
begin

text \<open>
  The rest of \<^verbatim>\<open>src/src/merkle.js\<close>: the stake leaves and the exact sum of
  canonical amounts, the fixed binary Merkle tree with inclusion proofs, the
  top-level state root over the named sub-trees and the ordered leaf vector
  of a block.
\<close>

section \<open>Stake leaves\<close>

definition STAKE_TOTAL_PUBKEY :: string where
  "STAKE_TOTAL_PUBKEY = ''__total__''"

definition stakeMemberLeaf :: "hash_fn \<Rightarrow> string \<Rightarrow> string \<Rightarrow> octets res" where
  "stakeMemberLeaf H source weight =
     rbind (canonicalAmount weight) (\<lambda>w.
     rbind (joinFields [''STK'', source, w]) (\<lambda>b. Inr (leafHash H b)))"

definition stakeTotalLeaf :: "hash_fn \<Rightarrow> string \<Rightarrow> octets res" where
  "stakeTotalLeaf H tot =
     rbind (canonicalAmount tot) (\<lambda>t.
     rbind (joinFields [''STKTOTAL'', t]) (\<lambda>b. Inr (leafHash H b)))"

text \<open>\<^verbatim>\<open>BigInt(i) * 10n ** 18n + BigInt(f)\<close> of one canonical amount.\<close>

definition scaled_amount :: "string \<Rightarrow> nat res" where
  "scaled_amount a =
     rbind (canonicalAmount a) (\<lambda>c. Inr (dec_val (int_part c) * 10 ^ 18 + dec_val (frac_part c)))"

text \<open>The text \<open>intp + '.' + frac\<close> of a scaled sum, by slicing its decimal digits.\<close>

definition scaled_text :: "nat \<Rightarrow> string" where
  "scaled_text acc =
     (let s = nat_str acc;
          frac = (if length s > 18 then drop (length s - 18) s
                  else replicate (18 - length s) (CHR ''0'') @ s);
          intp = (if length s > 18 then take (length s - 18) s else ''0'')
      in strip_zeros intp @ [CHR ''.''] @ frac)"

definition sumCanonicalAmounts :: "string list \<Rightarrow> string res" where
  "sumCanonicalAmounts amounts =
     rbind (rtraverse scaled_amount amounts) (\<lambda>vs. Inr (scaled_text (sum_list vs)))"

section \<open>Fixed binary Merkle trees\<close>

text \<open>\<^verbatim>\<open>p <<= 1\<close> is exact on the vectors a block can hold (fewer than $2^{30}$ entries).\<close>

function nextPow2_from :: "nat \<Rightarrow> nat \<Rightarrow> nat" where
  "nextPow2_from p n = (if 0 < p \<and> p < n then nextPow2_from (2 * p) n else p)"
  by pat_completeness auto
termination
  by (relation "measure (\<lambda>(p, n). n - p)") auto

declare nextPow2_from.simps [simp del]

definition nextPow2 :: "nat \<Rightarrow> nat" where
  "nextPow2 n = nextPow2_from 1 n"

definition padded :: "hash_fn \<Rightarrow> octets list \<Rightarrow> octets list" where
  "padded H leaves = leaves @ replicate (nextPow2 (length leaves) - length leaves) (EMPTY H 0)"

text \<open>One pass of the pairing loop; the layers are powers of two long, so the
  last equation is reached on the empty layer only.\<close>

fun pair_layer :: "hash_fn \<Rightarrow> octets list \<Rightarrow> octets list" where
  "pair_layer H (a # b # layer) = nodeHash H a b # pair_layer H layer"
| "pair_layer H layer = []"

lemma length_pair_layer [simp]: "length (pair_layer H layer) = length layer div 2"
  by (induction H layer rule: pair_layer.induct) auto

function collapse :: "hash_fn \<Rightarrow> octets list \<Rightarrow> octets list" where
  "collapse H layer = (if length layer > 1 then collapse H (pair_layer H layer) else layer)"
  by pat_completeness auto
termination
  by (relation "measure (\<lambda>(H, layer). length layer)") auto

declare collapse.simps [simp del]

definition fixedMerkleRoot :: "hash_fn \<Rightarrow> octets list \<Rightarrow> octets" where
  "fixedMerkleRoot H leaves = (if leaves = [] then EMPTY H 0 else hd (collapse H (padded H leaves)))"

function proof_siblings :: "hash_fn \<Rightarrow> octets list \<Rightarrow> nat \<Rightarrow> string list" where
  "proof_siblings H layer idx =
     (if length layer > 1
      then hexenc (layer ! (Bit_Operations.xor idx 1)) # proof_siblings H (pair_layer H layer) (idx div 2)
      else [])"
  by pat_completeness auto
termination
  by (relation "measure (\<lambda>(H, layer, idx). length layer)") auto

declare proof_siblings.simps [simp del]

record fixed_proof =
  fp_index :: int
  fp_siblings :: "string list"

definition fixedMerkleProof :: "hash_fn \<Rightarrow> octets list \<Rightarrow> int \<Rightarrow> fixed_proof res" where
  "fixedMerkleProof H leaves index =
     (if index < 0 \<or> index \<ge> int (length leaves) then Inl ''merkle: index out of range''
      else Inr \<lparr>fp_index = index, fp_siblings = proof_siblings H (padded H leaves) (nat index)\<rparr>)"

fun fold_siblings :: "hash_fn \<Rightarrow> octets \<Rightarrow> nat \<Rightarrow> string list \<Rightarrow> octets" where
  "fold_siblings H node idx [] = node"
| "fold_siblings H node idx (sib # sibs) =
     fold_siblings H
       (if idx mod 2 = 0 then nodeHash H node (hexdec sib) else nodeHash H (hexdec sib) node)
       (idx div 2) sibs"

definition verifyFixedMerkleProof :: "hash_fn \<Rightarrow> string \<Rightarrow> octets \<Rightarrow> nat \<Rightarrow> string list \<Rightarrow> bool" where
  "verifyFixedMerkleProof H rootHex leafBuf index siblings =
     (hexenc (fold_siblings H leafBuf index siblings) = rootHex)"

section \<open>The top-level state root\<close>

definition STATE_SUBTREES :: "string list" where
  "STATE_SUBTREES = [''balances_root'', ''stakes_root'', ''ownership_root'', ''tokens_root'', ''contract_state_root'']"

text \<open>The sub-root object: a name is present when its value is a non-empty string.\<close>

type_synonym sub_roots = "string \<rightharpoonup> string"

definition sub_root_leaf :: "hash_fn \<Rightarrow> sub_roots \<Rightarrow> string \<Rightarrow> octets" where
  "sub_root_leaf H subRoots name =
     (case subRoots name of
        None \<Rightarrow> EMPTY_SMT_ROOT H
      | Some h \<Rightarrow> if h = [] then EMPTY_SMT_ROOT H else hexdec h)"

definition stateRoot :: "hash_fn \<Rightarrow> sub_roots \<Rightarrow> octets" where
  "stateRoot H subRoots = fixedMerkleRoot H (map (sub_root_leaf H subRoots) STATE_SUBTREES)"

fun index_of :: "'a \<Rightarrow> 'a list \<Rightarrow> nat option" where
  "index_of x [] = None"
| "index_of x (y # ys) = (if x = y then Some 0 else map_option Suc (index_of x ys))"

definition stateRootProof :: "hash_fn \<Rightarrow> sub_roots \<Rightarrow> string \<Rightarrow> fixed_proof res" where
  "stateRootProof H subRoots name =
     (case index_of name STATE_SUBTREES of
        None \<Rightarrow> Inl (''merkle: unknown state sub-tree '' @ name)
      | Some idx \<Rightarrow> fixedMerkleProof H (map (sub_root_leaf H subRoots) STATE_SUBTREES) (int idx))"

section \<open>The leaves of a block\<close>

text \<open>Rows as \<^verbatim>\<open>getBlockLeafRows\<close> returns them.  Numeric columns are their decimal text
  (\<^verbatim>\<open>String(x)\<close>), nullable columns are options.\<close>

record ledger_row =
  lr_action_index :: string
  lr_address :: "string option"
  lr_tick :: "string option"
  lr_amount :: string

record action_row =
  ar_action_index :: string
  ar_tx_index :: "string option"
  ar_action :: "string option"

record contract_row =
  cr_action_index :: string
  cr_source_address :: "string option"
  cr_code_hash :: "string option"
  cr_status :: "string option"

record state_row =
  sr_contract_index :: string
  sr_state_key :: "string option"
  sr_state_value :: "string option"

record execution_row =
  er_action_index :: string
  er_contract_index :: string
  er_caller_address :: "string option"
  er_gas_used :: "string option"
  er_status :: "string option"
  er_emitted_count :: "string option"

record emission_row =
  mr_execution_index :: string
  mr_emitted_action :: "string option"
  mr_action_index :: string
  mr_position :: string

record transfer_row =
  tr_action_index :: string
  tr_contract_index :: string
  tr_source_address :: "string option"
  tr_tick :: "string option"
  tr_amount :: string
  tr_status :: "string option"

record block_rows =
  br_credits :: "ledger_row list"
  br_debits :: "ledger_row list"
  br_escrows :: "ledger_row list"
  br_actions :: "action_row list"
  br_contracts :: "contract_row list"
  br_state :: "state_row list"
  br_executions :: "execution_row list"
  br_emissions :: "emission_row list"
  br_deposits :: "transfer_row list"
  br_withdrawals :: "transfer_row list"

definition or_blank :: "string option \<Rightarrow> string" where
  "or_blank x = (case x of None \<Rightarrow> [] | Some s \<Rightarrow> s)"

definition fields_leaf :: "hash_fn \<Rightarrow> string list \<Rightarrow> octets res" where
  "fields_leaf H fs = rbind (joinFields fs) (\<lambda>b. Inr (leafHash H b))"

definition ledgerLeaf :: "hash_fn \<Rightarrow> string \<Rightarrow> ledger_row \<Rightarrow> octets res" where
  "ledgerLeaf H kind r =
     fields_leaf H [''L'', kind, lr_action_index r, or_blank (lr_address r), or_blank (lr_tick r), lr_amount r]"

definition actionsLeaf :: "hash_fn \<Rightarrow> action_row \<Rightarrow> octets res" where
  "actionsLeaf H r = fields_leaf H [''A'', ar_action_index r, or_blank (ar_tx_index r), or_blank (ar_action r)]"

definition contractLeaf :: "hash_fn \<Rightarrow> string \<Rightarrow> string list \<Rightarrow> octets res" where
  "contractLeaf H subTable fs = fields_leaf H (''C'' # subTable # fs)"

definition transfer_fields :: "transfer_row \<Rightarrow> string list" where
  "transfer_fields r =
     [tr_action_index r, tr_contract_index r, or_blank (tr_source_address r), or_blank (tr_tick r),
      tr_amount r, or_blank (tr_status r)]"

definition blockMerkleLeaves :: "hash_fn \<Rightarrow> block_rows \<Rightarrow> octets list res" where
  "blockMerkleLeaves H rows =
     rtraverse id
       (map (ledgerLeaf H ''credit'') (br_credits rows) @
        map (ledgerLeaf H ''debit'') (br_debits rows) @
        map (ledgerLeaf H ''escrow'') (br_escrows rows) @
        map (actionsLeaf H) (br_actions rows) @
        map (\<lambda>r. contractLeaf H ''contracts''
               [cr_action_index r, or_blank (cr_source_address r), or_blank (cr_code_hash r), or_blank (cr_status r)])
            (br_contracts rows) @
        map (\<lambda>r. contractLeaf H ''state''
               [sr_contract_index r, or_blank (sr_state_key r), or_blank (sr_state_value r)])
            (br_state rows) @
        map (\<lambda>r. contractLeaf H ''executions''
               [er_action_index r, er_contract_index r, or_blank (er_caller_address r), or_blank (er_gas_used r),
                or_blank (er_status r), or_blank (er_emitted_count r)])
            (br_executions rows) @
        map (\<lambda>r. contractLeaf H ''emissions''
               [mr_execution_index r, or_blank (mr_emitted_action r), mr_action_index r, mr_position r])
            (br_emissions rows) @
        map (\<lambda>r. contractLeaf H ''deposits'' (transfer_fields r)) (br_deposits rows) @
        map (\<lambda>r. contractLeaf H ''withdrawals'' (transfer_fields r)) (br_withdrawals rows))"

definition blockMerkleRoot :: "hash_fn \<Rightarrow> octets list \<Rightarrow> octets" where
  "blockMerkleRoot H orderedLeaves = fixedMerkleRoot H orderedLeaves"

section \<open>Sums of canonical amounts\<close>

lemma scaled_amount_value: "canonicalAmount a = Inr c \<Longrightarrow> scaled_amount a = Inr (amount_value c)"
proof -
  assume a: "canonicalAmount a = Inr c"
  then obtain v where "c = canon_text v"
    by (auto simp: canonicalAmount_text split: if_splits)
  moreover have "length (frac_part (canon_text v)) = 18" for v
    unfolding canon_text_def append_Cons append_Nil
    by (simp add: frac_part_append [OF nat_str_digits point_not_digit] frac18_length)
  ultimately show ?thesis using a by (simp add: scaled_amount_def amount_value_def)
qed

lemma strip_zeros_nat: "strip_zeros (nat_str n) = nat_str n"
  using strip_zeros_nat_str [OF nat_str_digits nat_str_nonempty, of n] by simp

lemma scaled_text_canon: "scaled_text v = canon_text v"
proof -
  let ?s = "nat_str v"
  show ?thesis
  proof (cases "length ?s > 18")
    case True
    let ?i = "take (length ?s - 18) ?s" and ?f = "drop (length ?s - 18) ?s"
    have dig: "\<forall>c \<in> set ?i. is_digit c" "\<forall>c \<in> set ?f. is_digit c"
      using nat_str_digits [of v] by (auto dest: in_set_takeD in_set_dropD)
    have len: "length ?f = 18" using True by simp
    have v: "dec_val ?i * 10 ^ 18 + dec_val ?f = v"
      using dec_val_append [of ?i ?f] len by simp
    moreover have lt: "dec_val ?f < 10 ^ 18" using dec_val_less [OF dig(2)] len by simp
    have split: "(a * 10 ^ 18 + b) div 10 ^ 18 = a \<and> (a * 10 ^ 18 + b) mod 10 ^ 18 = b"
      if "b < 10 ^ 18" for a b :: nat using that by simp
    from split [OF lt, of "dec_val ?i"] have "v div 10 ^ 18 = dec_val ?i" "v mod 10 ^ 18 = dec_val ?f"
      unfolding v by blast+
    moreover have "strip_zeros ?i = nat_str (dec_val ?i)"
      using True by (intro strip_zeros_nat_str dig(1)) auto
    moreover have "frac18 (dec_val ?f) = ?f" using dig(2) len by (rule frac18_unique)
    ultimately show ?thesis using True by (simp add: scaled_text_def canon_text_def Let_def)
  next
    case False
    have "v < 10 ^ length ?s" using dec_val_less [OF nat_str_digits, of v] by simp
    also have "\<dots> \<le> 10 ^ 18" using False by (intro power_increasing) auto
    finally have v: "v < 10 ^ 18" .
    have z: "nat_str 0 = ''0''" by (simp add: nat_str.simps digit_char_def) code_simp
    from v False show ?thesis by (simp add: scaled_text_def canon_text_def frac18_def z Let_def)
  qed
qed

lemma sumCanonicalAmounts_eq:
  assumes "list_all2 (\<lambda>a c. canonicalAmount a = Inr c) as cs"
  shows "sumCanonicalAmounts as = Inr (canon_text (sum_list (map amount_value cs)))"
proof -
  have "rtraverse scaled_amount as = Inr (map amount_value cs)"
    using assms by (induction rule: list_all2_induct) (auto simp: scaled_amount_value)
  then show ?thesis by (simp add: sumCanonicalAmounts_def scaled_text_canon)
qed

section \<open>Fixed trees\<close>

lemma nextPow2_from_pow: "0 < p \<Longrightarrow> \<exists>k. nextPow2_from p n = p * 2 ^ k \<and> n \<le> p * 2 ^ k"
proof (induction p n rule: nextPow2_from.induct)
  case (1 p n)
  show ?case
  proof (cases "p < n")
    case True
    with 1 obtain k where "nextPow2_from (2 * p) n = 2 * p * 2 ^ k \<and> n \<le> 2 * p * 2 ^ k" by auto
    with True 1 show ?thesis
      by (subst nextPow2_from.simps) (auto intro!: exI [of _ "Suc k"] simp: algebra_simps)
  next
    case False
    then show ?thesis by (subst nextPow2_from.simps) (auto intro!: exI [of _ 0])
  qed
qed

lemma padded_length: "\<exists>k. length (padded H leaves) = 2 ^ k"
  using nextPow2_from_pow [of 1 "length leaves"] by (auto simp: padded_def nextPow2_def)

lemma padded_nth: "i < length leaves \<Longrightarrow> padded H leaves ! i = leaves ! i"
  by (simp add: padded_def nth_append)

lemma pair_layer_nth:
  "i < length layer div 2 \<Longrightarrow> pair_layer H layer ! i = nodeHash H (layer ! (2 * i)) (layer ! (2 * i + 1))"
proof (induction H layer arbitrary: i rule: pair_layer.induct)
  case (1 H a b layer)
  then show ?case by (cases i) auto
qed auto

lemma pow_Suc_gt_1: "Suc 0 < 2 ^ Suc k"
  by (induction k) auto

lemma collapse_Suc: "length layer = 2 ^ Suc k \<Longrightarrow> collapse H layer = collapse H (pair_layer H layer)"
  using pow_Suc_gt_1 [of k] by (subst collapse.simps) simp

lemma collapse_0: "length layer = 1 \<Longrightarrow> collapse H layer = layer"
  by (subst collapse.simps) simp

lemma proof_siblings_Suc:
  "length layer = 2 ^ Suc k \<Longrightarrow> proof_siblings H layer idx =
     hexenc (layer ! (Bit_Operations.xor idx 1)) # proof_siblings H (pair_layer H layer) (idx div 2)"
  using pow_Suc_gt_1 [of k] by (subst proof_siblings.simps) simp

lemma proof_siblings_length: "length layer = 2 ^ k \<Longrightarrow> length (proof_siblings H layer idx) = k"
proof (induction k arbitrary: layer idx)
  case 0
  then show ?case by (subst proof_siblings.simps) simp
next
  case (Suc k)
  then show ?case by (simp add: proof_siblings_Suc)
qed

lemma xor_one_double [simp]:
  "Bit_Operations.xor (2 * b) (Suc 0) = Suc (2 * b)" "Bit_Operations.xor (Suc (2 * b)) (Suc 0) = 2 * b"
  using xor_one_eq [of "2 * b"] xor_one_eq [of "Suc (2 * b)"] by simp_all

lemma fold_proof_siblings:
  "length layer = 2 ^ k \<Longrightarrow> idx < 2 ^ k \<Longrightarrow>
     fold_siblings H (layer ! idx) idx (proof_siblings H layer idx) = hd (collapse H layer)"
proof (induction k arbitrary: layer idx)
  case 0
  then show ?case
    by (subst proof_siblings.simps) (simp add: collapse_0 hd_conv_nth flip: length_0_conv)
next
  case (Suc k)
  let ?i = "idx div 2"
  have i: "?i < length layer div 2" using Suc.prems by auto
  have "pair_layer H layer ! ?i =
      (if idx mod 2 = 0 then nodeHash H (layer ! idx) (layer ! (Bit_Operations.xor idx 1))
       else nodeHash H (layer ! (Bit_Operations.xor idx 1)) (layer ! idx))"
  proof (cases "even idx")
    case True
    then obtain b where "idx = 2 * b" by (elim evenE)
    with pair_layer_nth [OF i, of H] show ?thesis by simp
  next
    case False
    then obtain b where "idx = 2 * b + 1" by (elim oddE)
    with pair_layer_nth [OF i, of H] show ?thesis by simp
  qed
  then have "fold_siblings H (layer ! idx) idx (proof_siblings H layer idx) =
      fold_siblings H (pair_layer H layer ! ?i) ?i (proof_siblings H (pair_layer H layer) ?i)"
    using Suc.prems by (simp add: proof_siblings_Suc)
  also have "\<dots> = hd (collapse H (pair_layer H layer))"
    by (rule Suc.IH) (use Suc.prems in auto)
  finally show ?case using Suc.prems by (simp add: collapse_Suc)
qed

lemma fixedMerkleProof_complete:
  assumes "i < length leaves"
  shows "\<exists>p. fixedMerkleProof H leaves (int i) = Inr p \<and> fp_index p = int i \<and>
    fold_siblings H (leaves ! i) i (fp_siblings p) = fixedMerkleRoot H leaves"
proof -
  obtain k where k: "length (padded H leaves) = 2 ^ k" using padded_length by blast
  have "i < 2 ^ k" using assms k by (simp add: padded_def flip: k)
  then have "fold_siblings H (padded H leaves ! i) i (proof_siblings H (padded H leaves) i) = fixedMerkleRoot H leaves"
    using fold_proof_siblings [OF k] assms by (auto simp: fixedMerkleRoot_def)
  with assms show ?thesis by (auto simp: fixedMerkleProof_def padded_nth)
qed

text \<open>The message hashed at one level, and the first level at which two folds collide.\<close>

definition fold_msg :: "octets \<Rightarrow> nat \<Rightarrow> string \<Rightarrow> octets" where
  "fold_msg node idx sib = NODE_PREFIX # (if idx mod 2 = 0 then node @ hexdec sib else hexdec sib @ node)"

fun fixed_collision ::
  "hash_fn \<Rightarrow> nat \<Rightarrow> octets \<Rightarrow> string list \<Rightarrow> octets \<Rightarrow> string list \<Rightarrow> (octets \<times> octets) option" where
  "fixed_collision H idx n1 (s1 # ss1) n2 (s2 # ss2) =
     (let m1 = fold_msg n1 idx s1; m2 = fold_msg n2 idx s2 in
      if H m1 = H m2 then Some (m1, m2) else fixed_collision H (idx div 2) (H m1) ss1 (H m2) ss2)"
| "fixed_collision H idx n1 _ n2 _ = None"


lemma fold_msg_inject:
  "length n1 = length n2 \<Longrightarrow> fold_msg n1 idx s1 = fold_msg n2 idx s2 \<Longrightarrow> n1 = n2"
  by (auto simp: fold_msg_def split: if_splits)

lemma fold_siblings_Cons: "fold_siblings H node idx (s # ss) = fold_siblings H (H (fold_msg node idx s)) (idx div 2) ss"
  by (simp add: fold_msg_def nodeHash_def)

lemma fold_binding:
  assumes "\<And>x. length (H x) = 32" "length ss1 = length ss2" "length n1 = length n2" "n1 \<noteq> n2"
    "fold_siblings H n1 idx ss1 = fold_siblings H n2 idx ss2"
  shows "\<exists>x y. fixed_collision H idx n1 ss1 n2 ss2 = Some (x, y) \<and> x \<noteq> y \<and> H x = H y"
  using assms(2-)
proof (induction ss1 ss2 arbitrary: idx n1 n2 rule: list_induct2)
  case (Cons s1 ss1 s2 ss2)
  have ne: "fold_msg n1 idx s1 \<noteq> fold_msg n2 idx s2"
    using fold_msg_inject Cons.prems by blast
  show ?case
  proof (cases "H (fold_msg n1 idx s1) = H (fold_msg n2 idx s2)")
    case False
    with Cons.prems show ?thesis
      using Cons.IH [of "H (fold_msg n1 idx s1)" "H (fold_msg n2 idx s2)" "idx div 2"] assms(1)
      by (simp add: fold_siblings_Cons Let_def del: fold_siblings.simps)
  qed (use ne in simp)
qed simp

text \<open>Only the low bits of the index are read, one per sibling.\<close>

lemma fold_siblings_index: "fold_siblings H n (i mod 2 ^ length ss) ss = fold_siblings H n i ss"
proof (induction ss arbitrary: i n)
  case (Cons s ss)
  have "(i mod 2 ^ Suc (length ss)) mod 2 = i mod 2"
    by (simp add: mod_mod_cancel)
  moreover have "(i mod 2 ^ Suc (length ss)) div 2 = i div 2 mod 2 ^ length ss"
    by (metis div_exp_mod_exp_eq power_one_right plus_1_eq_Suc)
  ultimately show ?case using Cons.IH [where i = "i div 2"] by simp
qed simp

section \<open>State root\<close>

lemma index_of_Some: "index_of x xs = Some i \<Longrightarrow> i < length xs \<and> xs ! i = x"
  by (induction xs arbitrary: i) (auto split: if_splits)

lemma index_of_None_iff: "index_of x xs = None \<longleftrightarrow> x \<notin> set xs"
  by (induction xs) auto

lemma stateRootProof_complete:
  assumes "stateRootProof H sub name = Inr p"
  shows "verifyFixedMerkleProof H (hexenc (stateRoot H sub)) (sub_root_leaf H sub name) (nat (fp_index p)) (fp_siblings p)"
proof -
  let ?ls = "map (sub_root_leaf H sub) STATE_SUBTREES"
  from assms obtain i where i: "index_of name STATE_SUBTREES = Some i" "fixedMerkleProof H ?ls (int i) = Inr p"
    by (auto simp: stateRootProof_def split: option.splits)
  note ix = index_of_Some [OF i(1)]
  then show ?thesis
    using fixedMerkleProof_complete [of i ?ls H] i(2)
    by (auto simp: verifyFixedMerkleProof_def stateRoot_def)
qed

lemma block_leaf_inclusion:
  assumes "blockMerkleLeaves H rows = Inr ls" "i < length ls"
  shows "\<exists>p. fixedMerkleProof H ls (int i) = Inr p \<and>
    verifyFixedMerkleProof H (hexenc (blockMerkleRoot H ls)) (ls ! i) i (fp_siblings p)"
  using fixedMerkleProof_complete [OF assms(2), of H]
  by (auto simp: verifyFixedMerkleProof_def blockMerkleRoot_def)


lemma block_leaves_length:
  assumes "blockMerkleLeaves H rows = Inr ls"
  shows "length ls = length (br_credits rows) + length (br_debits rows) + length (br_escrows rows)
      + length (br_actions rows) + length (br_contracts rows) + length (br_state rows)
      + length (br_executions rows) + length (br_emissions rows) + length (br_deposits rows)
      + length (br_withdrawals rows)"
  using assms rtraverse_length by (fastforce simp: blockMerkleLeaves_def)

lemma rtraverse_id_nth: "rtraverse id ms = Inr ys \<Longrightarrow> i < length ms \<Longrightarrow> ms ! i = Inr (ys ! i)"
  by (auto simp: rtraverse_Inr_iff list_all2_conv_all_nth)

lemma block_leaves_actions:
  assumes "blockMerkleLeaves H rows = Inr ls" "i < length (br_actions rows)"
  shows "actionsLeaf H (br_actions rows ! i) =
    Inr (ls ! (length (br_credits rows) + length (br_debits rows) + length (br_escrows rows) + i))"
  using rtraverse_id_nth [OF assms(1) [unfolded blockMerkleLeaves_def],
      of "length (br_credits rows) + length (br_debits rows) + length (br_escrows rows) + i"] assms(2)
  by (simp add: nth_append)

section \<open>Properties\<close>

text \<open>Inclusion proofs of the fixed tree are complete: for every leaf vector and every index in
  range a proof is produced and verifies against the root; an index out of range throws.\<close>

theorem fixedMerkleProof_verifies:
  "(i < length leaves \<longrightarrow>
      (\<exists>p. fixedMerkleProof H leaves (int i) = Inr p \<and>
         verifyFixedMerkleProof H (hexenc (fixedMerkleRoot H leaves)) (leaves ! i) i (fp_siblings p)))
   \<and> (j < 0 \<or> int (length leaves) \<le> j \<longrightarrow> fixedMerkleProof H leaves j = Inl ''merkle: index out of range'')"
  using fixedMerkleProof_complete [of i leaves H]
  by (auto simp: verifyFixedMerkleProof_def fixedMerkleProof_def)

lemma fixedMerkleProof_verifies_witness:
  "\<exists>p. fixedMerkleProof rev [''a'', ''b'', ''c''] 2 = Inr p \<and>
     verifyFixedMerkleProof rev (hexenc (fixedMerkleRoot rev [''a'', ''b'', ''c''])) ''c'' 2 (fp_siblings p)"
  using fixedMerkleProof_verifies [of 2 "[''a'', ''b'', ''c'']" rev 0] by simp



text \<open>The sum of canonical amounts is exact: on accepted amounts it returns the canonical text of
  the sum of the amounts they denote, whatever the number of digits.\<close>

theorem sumCanonicalAmounts_exact:
  assumes "list_all2 (\<lambda>a c. canonicalAmount a = Inr c) as cs"
  shows "\<exists>r. sumCanonicalAmounts as = Inr r \<and> canonicalAmount r = Inr r
    \<and> amount_value r = sum_list (map amount_value cs)"
  using sumCanonicalAmounts_eq [OF assms]
  by (auto simp: canonicalAmount_canon_text amount_value_canon_text)

lemma sumCanonicalAmounts_exact_witness:
  "\<exists>r. sumCanonicalAmounts [''0.1'', ''2''] = Inr r \<and> amount_value r = 2100000000000000000"
proof -
  have "list_all2 (\<lambda>a c. canonicalAmount a = Inr c) [''0.1'', ''2'']
      [''0.100000000000000000'', ''2.000000000000000000'']"
    by (simp, code_simp)
  note sumCanonicalAmounts_exact [OF this]
  moreover have "sum_list (map amount_value [''0.100000000000000000'', ''2.000000000000000000'']) = 2100000000000000000"
    by (simp add: amount_value_def int_part_def frac_part_def is_digit_def dec_val_def digit_val_def)
  ultimately show ?thesis by (metis (no_types, lifting))
qed

text \<open>Every committed sub-root is provable: for each of the five named sub-trees a proof is
  produced that verifies the committed sub-root (the empty-tree root when absent) against the
  state root, and any other name throws.\<close>

theorem stateRootProof_verifies:
  "(name \<in> set STATE_SUBTREES \<longrightarrow>
      (\<exists>p. stateRootProof H sub name = Inr p \<and>
         verifyFixedMerkleProof H (hexenc (stateRoot H sub)) (sub_root_leaf H sub name) (nat (fp_index p)) (fp_siblings p)))
   \<and> (name \<notin> set STATE_SUBTREES \<longrightarrow> stateRootProof H sub name = Inl (''merkle: unknown state sub-tree '' @ name))"
proof (cases "index_of name STATE_SUBTREES")
  case None
  with index_of_None_iff [of name STATE_SUBTREES] show ?thesis by (simp add: stateRootProof_def)
next
  case (Some i)
  then have "\<exists>p. stateRootProof H sub name = Inr p"
    using index_of_Some [OF Some] by (simp add: stateRootProof_def fixedMerkleProof_def)
  with stateRootProof_complete index_of_Some [OF Some] show ?thesis by (metis nth_mem)
qed

lemma stateRootProof_verifies_witness:
  "\<exists>p. stateRootProof rev [''stakes_root'' \<mapsto> ''00ff''] ''stakes_root'' = Inr p"
proof -
  have "''stakes_root'' \<in> set STATE_SUBTREES" by (simp add: STATE_SUBTREES_def)
  with stateRootProof_verifies [of "''stakes_root''" rev "[''stakes_root'' \<mapsto> ''00ff'']"] show ?thesis by blast
qed

text \<open>The block content root commits every row at its position: when the leaf vector of a block is
  built it has one leaf per row, credits first and withdrawals last, and each of its
  positions has an inclusion proof that verifies against the block root.\<close>

theorem blockMerkleLeaves_provable:
  assumes "blockMerkleLeaves H rows = Inr ls"
  shows "length ls = length (br_credits rows) + length (br_debits rows) + length (br_escrows rows)
      + length (br_actions rows) + length (br_contracts rows) + length (br_state rows)
      + length (br_executions rows) + length (br_emissions rows) + length (br_deposits rows)
      + length (br_withdrawals rows)
    \<and> (\<forall>i < length (br_actions rows).
         actionsLeaf H (br_actions rows ! i) =
           Inr (ls ! (length (br_credits rows) + length (br_debits rows) + length (br_escrows rows) + i)))
    \<and> (\<forall>i < length ls. \<exists>p. fixedMerkleProof H ls (int i) = Inr p
         \<and> verifyFixedMerkleProof H (hexenc (blockMerkleRoot H ls)) (ls ! i) i (fp_siblings p))"
  using block_leaves_length [OF assms] block_leaves_actions [OF assms] block_leaf_inclusion [OF assms]
  by simp

definition sample_rows :: block_rows where
  "sample_rows = \<lparr>br_credits = [\<lparr>lr_action_index = ''7'', lr_address = Some ''addr'', lr_tick = Some ''XCHAIN'', lr_amount = ''5''\<rparr>],
     br_debits = [], br_escrows = [],
     br_actions = [\<lparr>ar_action_index = ''7'', ar_tx_index = None, ar_action = Some ''SEND''\<rparr>],
     br_contracts = [], br_state = [], br_executions = [], br_emissions = [], br_deposits = [], br_withdrawals = []\<rparr>"

lemma blockMerkleLeaves_provable_witness:
  "\<exists>ls. blockMerkleLeaves rev sample_rows = Inr ls \<and> length ls = 2"
proof -
  have "\<exists>ls. blockMerkleLeaves rev sample_rows = Inr ls"
    by (simp add: blockMerkleLeaves_def sample_rows_def ledgerLeaf_def actionsLeaf_def fields_leaf_def
        joinFields_def field_octets_def or_blank_def NUL_def)
  then obtain ls where ls: "blockMerkleLeaves rev sample_rows = Inr ls" by blast
  with blockMerkleLeaves_provable [OF ls] show ?thesis by (simp add: sample_rows_def)
qed

end
