(* ===== verification/JS_Values.thy ===== *)
theory JS_Values
  imports Complex_Main Sync_Prelude
begin

text \<open>
  The JavaScript values that reach the activation gates and the verifiers: plain data
  (\<^verbatim>\<open>undefined\<close>, \<^verbatim>\<open>null\<close>, booleans, numbers, strings, arrays, objects with their own
  properties in insertion order, regular expressions by their source text) and the
  conversions \<^verbatim>\<open>Number\<close> and \<^verbatim>\<open>parseInt\<close> the sources apply to them.  A finite number is
  an exact rational: the rounding of doubles is not modelled, so the conversions are the
  machine's for integers below \<open>2 ^ 53\<close>, which bounds every block height and time.
\<close>

section \<open>Values\<close>

datatype jsnum = Fin rat | NaN | Inf

datatype jsv =
    JUndef
  | JNull
  | JBool bool
  | JNum jsnum
  | JStr string
  | JArr "jsv list"
  | JObj "(string \<times> jsv) list"
  | JRegExp string
  | JFun

definition JInt :: "int \<Rightarrow> jsv" where
  "JInt n = JNum (Fin (of_int n))"

text \<open>An own property of an object; a missing one reads as \<^verbatim>\<open>undefined\<close>.\<close>

definition own :: "(string \<times> jsv) list \<Rightarrow> string \<Rightarrow> jsv" where
  "own fs k = (case map_of fs k of None \<Rightarrow> JUndef | Some v \<Rightarrow> v)"

text \<open>\<^verbatim>\<open>v == null\<close>\<close>

definition nullish :: "jsv \<Rightarrow> bool" where
  "nullish v = (v = JUndef \<or> v = JNull)"

definition is_plain_object :: "jsv \<Rightarrow> bool" where
  "is_plain_object v = (case v of JObj _ \<Rightarrow> True | _ \<Rightarrow> False)"

section \<open>Numbers from text\<close>

definition take_sign :: "string \<Rightarrow> rat \<times> string" where
  "take_sign s = (case s of
      [] \<Rightarrow> (1, [])
    | c # t \<Rightarrow> if c = CHR ''-'' then (- 1, t) else if c = CHR ''+'' then (1, t) else (1, s))"

text \<open>\<^verbatim>\<open>/^[+-]?(\d+\.?\d*|\.\d+)$/\<close> and the value it denotes.\<close>

definition decimal_text :: "string \<Rightarrow> rat option" where
  "decimal_text s =
     (let (sg, t) = take_sign s; ip = takeWhile is_digit t; rest = dropWhile is_digit t in
      case rest of
        [] \<Rightarrow> if ip = [] then None else Some (sg * of_nat (dec_val ip))
      | c # fp \<Rightarrow>
          if c = CHR ''.'' \<and> list_all is_digit fp \<and> \<not> (ip = [] \<and> fp = [])
          then Some (sg * of_nat (dec_val (ip @ fp)) / 10 ^ length fp) else None)"

definition int_text :: "string \<Rightarrow> int option" where
  "int_text s =
     (case s of
        [] \<Rightarrow> None
      | c # t \<Rightarrow>
          if c = CHR ''-'' \<or> c = CHR ''+''
          then (if t \<noteq> [] \<and> list_all is_digit t
                then Some (if c = CHR ''-'' then - int (dec_val t) else int (dec_val t)) else None)
          else if list_all is_digit s then Some (int (dec_val s)) else None)"

definition base_text :: "nat \<Rightarrow> string \<Rightarrow> nat option" where
  "base_text b s =
     (if s = [] then None
      else foldl (\<lambda>acc c. case (acc, hexval c) of
                    (Some n, Some d) \<Rightarrow> if d < b then Some (b * n + d) else None
                  | _ \<Rightarrow> None) (Some 0) s)"

text \<open>\<^verbatim>\<open>Number(s)\<close> of a string: white space trimmed, the empty text is 0, a signed decimal with
  an optional exponent, \<^verbatim>\<open>Infinity\<close>, or an unsigned \<^verbatim>\<open>0x\<close>, \<^verbatim>\<open>0o\<close>, \<^verbatim>\<open>0b\<close> integer.\<close>

definition number_text :: "string \<Rightarrow> jsnum" where
  "number_text s =
     (let t = js_trim s in
      if t = [] then Fin 0
      else if t \<in> {''Infinity'', ''+Infinity'', ''-Infinity''} then Inf
      else if take 2 t \<in> {''0x'', ''0X''} then
        (case base_text 16 (drop 2 t) of None \<Rightarrow> NaN | Some n \<Rightarrow> Fin (of_nat n))
      else if take 2 t \<in> {''0o'', ''0O''} then
        (case base_text 8 (drop 2 t) of None \<Rightarrow> NaN | Some n \<Rightarrow> Fin (of_nat n))
      else if take 2 t \<in> {''0b'', ''0B''} then
        (case base_text 2 (drop 2 t) of None \<Rightarrow> NaN | Some n \<Rightarrow> Fin (of_nat n))
      else
        (let isE = (\<lambda>c. c = CHR ''e'' \<or> c = CHR ''E'');
             man = takeWhile (\<lambda>c. \<not> isE c) t; ex = dropWhile (\<lambda>c. \<not> isE c) t
         in case (decimal_text man, ex) of
              (None, _) \<Rightarrow> NaN
            | (Some q, []) \<Rightarrow> Fin q
            | (Some q, _ # e) \<Rightarrow>
                (case int_text e of
                   None \<Rightarrow> NaN
                 | Some i \<Rightarrow> Fin (if 0 \<le> i then q * 10 ^ nat i else q / 10 ^ nat (- i)))))"

text \<open>\<^verbatim>\<open>Number(v)\<close>\<close>

fun js_Number :: "jsv \<Rightarrow> jsnum" where
  "js_Number JUndef = NaN"
| "js_Number JNull = Fin 0"
| "js_Number (JBool b) = Fin (if b then 1 else 0)"
| "js_Number (JNum n) = n"
| "js_Number (JStr s) = number_text s"
| "js_Number (JArr []) = Fin 0"
| "js_Number (JArr [v]) = (case v of JUndef \<Rightarrow> Fin 0 | JNull \<Rightarrow> Fin 0 | JBool _ \<Rightarrow> NaN | _ \<Rightarrow> js_Number v)"
| "js_Number (JArr (_ # _ # _)) = NaN"
| "js_Number (JObj _) = NaN"
| "js_Number (JRegExp _) = NaN"
| "js_Number JFun = NaN"

text \<open>\<^verbatim>\<open>parseInt(s)\<close>: leading white space and a sign, then the longest run of digits (of
  hexadecimal digits after \<^verbatim>\<open>0x\<close>); no digit is \<^verbatim>\<open>NaN\<close>.\<close>

definition parseInt_text :: "string \<Rightarrow> jsnum" where
  "parseInt_text s =
     (let (sg, t) = take_sign (trim_start js_ws s) in
      if take 2 t \<in> {''0x'', ''0X''} then
        (case base_text 16 (takeWhile (\<lambda>c. hexval c \<noteq> None) (drop 2 t)) of
           None \<Rightarrow> NaN | Some n \<Rightarrow> Fin (sg * of_nat n))
      else
        (let ds = takeWhile is_digit t in
         if ds = [] then NaN else Fin (sg * of_nat (dec_val ds))))"

text \<open>A number is read through its decimal text, which truncates it; an array through its
  elements joined by commas, so the first element decides.\<close>

fun js_parseInt :: "jsv \<Rightarrow> jsnum" where
  "js_parseInt (JNum (Fin q)) = Fin (if 0 \<le> q then of_int \<lfloor>q\<rfloor> else of_int \<lceil>q\<rceil>)"
| "js_parseInt (JStr s) = parseInt_text s"
| "js_parseInt (JArr (v # vs)) = (case v of JUndef \<Rightarrow> NaN | JNull \<Rightarrow> NaN | _ \<Rightarrow> js_parseInt v)"
| "js_parseInt _ = NaN"

section \<open>Round trip of integers\<close>

text \<open>\<^verbatim>\<open>Number(String(n)) === n\<close>.\<close>

lemma digits_no_prefix:
  assumes "\<forall>c \<in> set s. is_digit c"
  shows "take 2 s \<notin> {''0x'', ''0X'', ''0o'', ''0O'', ''0b'', ''0B''}"
    and "s \<noteq> ''Infinity''" and "take 2 (CHR ''-'' # s) \<notin> {''0x'', ''0X'', ''0o'', ''0O'', ''0b'', ''0B''}"
    and "s \<noteq> ''+Infinity''" and "s \<noteq> ''-Infinity''" and "s \<noteq> ''Infinity''"
proof -
  have nd: "\<not> is_digit (CHR ''x'')" "\<not> is_digit (CHR ''X'')" "\<not> is_digit (CHR ''o'')" "\<not> is_digit (CHR ''O'')"
    "\<not> is_digit (CHR ''b'')" "\<not> is_digit (CHR ''B'')" "\<not> is_digit (CHR ''I'')" "\<not> is_digit (CHR ''+'')" "\<not> is_digit (CHR ''-'')"
    by (simp_all add: is_digit_def)
  have "\<forall>c \<in> set (take 2 s). is_digit c" using assms by (auto dest: in_set_takeD)
  then show "take 2 s \<notin> {''0x'', ''0X'', ''0o'', ''0O'', ''0b'', ''0B''}" using nd by auto
  show "take 2 (CHR ''-'' # s) \<notin> {''0x'', ''0X'', ''0o'', ''0O'', ''0b'', ''0B''}" by simp
  show "s \<noteq> ''Infinity''" "s \<noteq> ''+Infinity''" "s \<noteq> ''-Infinity''" "s \<noteq> ''Infinity''" using assms nd by auto
qed

lemma span_no_e:
  assumes "\<forall>c \<in> set s. is_digit c"
  shows "takeWhile (\<lambda>c. c \<noteq> CHR ''e'' \<and> c \<noteq> CHR ''E'') s = s"
    and "dropWhile (\<lambda>c. c \<noteq> CHR ''e'' \<and> c \<noteq> CHR ''E'') s = []"
  using assms by (auto simp: takeWhile_eq_all_conv dropWhile_eq_Nil_conv is_digit_def)

lemma decimal_text_digits:
  assumes "\<forall>c \<in> set s. is_digit c" "s \<noteq> []"
  shows "decimal_text s = Some (of_nat (dec_val s))" and "decimal_text (CHR ''-'' # s) = Some (- of_nat (dec_val s))"
proof -
  have tw: "takeWhile is_digit s = s" "dropWhile is_digit s = []" using assms(1) by (auto simp: dropWhile_eq_Nil_conv)
  have "take_sign s = (1, s)" using assms by (cases s) (auto simp: take_sign_def is_digit_def)
  with assms(2) show "decimal_text s = Some (of_nat (dec_val s))" by (simp add: decimal_text_def tw)
  show "decimal_text (CHR ''-'' # s) = Some (- of_nat (dec_val s))"
    using assms(2) by (simp add: decimal_text_def take_sign_def tw)
qed

lemma js_trim_minus_digits:
  assumes "\<forall>c \<in> set s. is_digit c" "s \<noteq> []"
  shows "js_trim (CHR ''-'' # s) = CHR ''-'' # s"
proof (rule js_trim_id)
  have no: "\<not> is_digit c \<and> c \<noteq> CHR ''-''" if "[c] \<in> take 1 ` set js_ws \<union> (take 1 \<circ> rev) ` set js_ws" for c
    using that by (auto simp: js_ws_def is_digit_def)
  show "take 1 (CHR ''-'' # s) \<notin> take 1 ` set js_ws" using no [of "CHR ''-''"] by auto
  have "take 1 (rev (CHR ''-'' # s)) = [last s]" using assms(2) by (cases s rule: rev_cases) simp_all
  then show "take 1 (rev (CHR ''-'' # s)) \<notin> (take 1 \<circ> rev) ` set js_ws"
    using no [of "last s"] assms by auto
qed

lemma number_text_int_str: "number_text (int_str n) = Fin (of_int n)"
proof (cases "n < 0")
  case True
  let ?s = "nat_str (nat (- n))"
  have d: "\<forall>c \<in> set ?s. is_digit c" by (rule nat_str_digits)
  have "number_text (CHR ''-'' # ?s) = Fin (- of_nat (dec_val ?s))"
    unfolding number_text_def js_trim_minus_digits [OF d nat_str_nonempty]
    using digits_no_prefix [OF d] decimal_text_digits [OF d nat_str_nonempty] d
    by (simp add: Let_def span_no_e [OF d] de_Morgan_disj)
  then show ?thesis using True by (simp add: int_str_def)
next
  case False
  let ?s = "nat_str (nat n)"
  have d: "\<forall>c \<in> set ?s. is_digit c" by (rule nat_str_digits)
  have "js_trim ?s = ?s" using d by (intro js_trim_digits) auto
  then have "number_text ?s = Fin (of_nat (dec_val ?s))"
    unfolding number_text_def
    using digits_no_prefix [OF d] decimal_text_digits [OF d nat_str_nonempty] d
    by (simp add: Let_def span_no_e [OF d] de_Morgan_disj)
  then show ?thesis using False by (simp add: int_str_def)
qed

end
