(* ===== verification/Gate_Registry.thy ===== *)
theory Gate_Registry
  imports JS_Values
begin

text \<open>
  The activation registry: \<^verbatim>\<open>src/src/consensus/gate_registry/core.js\<close> (rows, validation,
  the generic predicate \<^verbatim>\<open>activeAt\<close>), \<^verbatim>\<open>regtest_env.js\<close> and \<^verbatim>\<open>shared_rows.js\<close> (the read
  overlay that arms the regtest entries from the environment, with its cache), and
  \<^verbatim>\<open>src/src/consensus/gate_registry.js\<close> (the rows of this repository).  The overlay reads
  the environment at every read, so reads take the environment and thread the cache.
  The warnings of \<^verbatim>\<open>regtestHeight\<close> are not modelled.
\<close>

section \<open>Rows and sentinels\<close>

type_synonym gate_row = "string \<times> string \<times> jsv"   \<comment> \<open>key, unit, table\<close>

definition UNARMED :: jsv where "UNARMED = JInt 9999999999"
definition UNPINNED :: jsv where "UNPINNED = JNull"

definition UNITS :: "string list" where
  "UNITS = [''height'', ''time'', ''epoch'', ''ruleset'', ''constant'']"

datatype reg_error =
    RegistryMiss string
  | BadKey string
  | DuplicateKey string
  | BadUnit string string
  | BadTable string
  | BadRulesetTable string
  | BadEntry string string
  | RefusedValue string
  | UnsupportedUnit string string
  | MissingReader string

type_synonym 'a reg = "reg_error + 'a"

subsection \<open>Plain data\<close>

fun frozenCopy :: "jsv \<Rightarrow> jsv" where
  "frozenCopy (JArr vs) = JArr (map frozenCopy vs)"
| "frozenCopy (JObj fs) = JObj (map (\<lambda>(k, v). (k, frozenCopy v)) fs)"
| "frozenCopy v = v"

fun mutableCopy :: "jsv \<Rightarrow> jsv" where
  "mutableCopy (JArr vs) = JArr (map mutableCopy vs)"
| "mutableCopy (JObj fs) = JObj (map (\<lambda>(k, v). (k, mutableCopy v)) fs)"
| "mutableCopy v = v"

subsection \<open>The predicate\<close>

definition resolveThreshold :: "(string \<times> jsv) list \<Rightarrow> string \<Rightarrow> string option \<Rightarrow> jsv" where
  "resolveThreshold table network coin =
     (case coin of
        Some c \<Rightarrow> (if map_of table (c @ '':'' @ network) \<noteq> None then own table (c @ '':'' @ network)
                   else own table network)
      | None \<Rightarrow> own table network)"

definition reached :: "jsv \<Rightarrow> jsv \<Rightarrow> bool" where
  "reached threshold clock =
     (case js_parseInt clock of
        Fin c \<Rightarrow> (case threshold of JNum (Fin t) \<Rightarrow> c \<ge> t | _ \<Rightarrow> False)
      | _ \<Rightarrow> False)"

subsection \<open>Validation at registration\<close>

definition key_char :: "char \<Rightarrow> bool" where
  "key_char c =
     (let n = of_char c :: nat in is_digit c \<or> 65 \<le> n \<and> n \<le> 90 \<or> 97 \<le> n \<and> n \<le> 122 \<or> c = CHR ''_'')"

fun split_on :: "char \<Rightarrow> string \<Rightarrow> string list" where
  "split_on d [] = [[]]"
| "split_on d (c # s) =
     (if c = d then [] # split_on d s
      else (case split_on d s of [] \<Rightarrow> [[c]] | w # ws \<Rightarrow> (c # w) # ws))"

text \<open>\<^verbatim>\<open>/^[A-Za-z0-9_/-]+(\.[A-Za-z0-9_]+)+$/\<close>\<close>

definition KEY_RE :: "string \<Rightarrow> bool" where
  "KEY_RE key =
     (case split_on CHR ''.'' key of
        stem # rest \<Rightarrow>
          stem \<noteq> [] \<and> list_all (\<lambda>c. key_char c \<or> c = CHR ''/'' \<or> c = CHR ''-'') stem \<and>
          rest \<noteq> [] \<and> list_all (\<lambda>w. w \<noteq> [] \<and> list_all key_char w) rest
      | [] \<Rightarrow> False)"

definition checkKey :: "string \<Rightarrow> unit reg" where
  "checkKey key = (if KEY_RE key then Inr () else Inl (BadKey key))"

definition is_threshold :: "jsv \<Rightarrow> bool" where
  "is_threshold v = (case v of JNull \<Rightarrow> True | JNum n \<Rightarrow> (case n of Fin _ \<Rightarrow> True | _ \<Rightarrow> False) | _ \<Rightarrow> False)"

definition checkLeaf :: "string \<Rightarrow> jsv \<Rightarrow> unit reg" where
  "checkLeaf key leaf =
     (case leaf of
        JObj fs \<Rightarrow>
          (case find (\<lambda>(_, v). \<not> is_threshold v) fs of
             None \<Rightarrow> Inr ()
           | Some (network, _) \<Rightarrow> Inl (BadEntry key network))
      | _ \<Rightarrow> Inl (BadRulesetTable key))"

fun checkLeaves :: "string \<Rightarrow> jsv list \<Rightarrow> unit reg" where
  "checkLeaves key [] = Inr ()"
| "checkLeaves key (l # ls) = (case checkLeaf key l of Inl e \<Rightarrow> Inl e | Inr _ \<Rightarrow> checkLeaves key ls)"

definition checkTable :: "string \<Rightarrow> string \<Rightarrow> jsv \<Rightarrow> unit reg" where
  "checkTable key utag table =
     (case table of
        JObj fs \<Rightarrow> checkLeaves key (if utag = ''ruleset'' then map snd fs else [table])
      | _ \<Rightarrow> Inl (BadTable key))"

fun value_ok :: "jsv \<Rightarrow> bool" where
  "value_ok JNull = True"
| "value_ok (JBool _) = True"
| "value_ok (JStr _) = True"
| "value_ok (JNum n) = (case n of Fin _ \<Rightarrow> True | _ \<Rightarrow> False)"
| "value_ok (JRegExp _) = True"
| "value_ok (JArr vs) = list_all value_ok vs"
| "value_ok (JObj fs) = list_all (\<lambda>(_, v). v = JUndef \<or> value_ok v) fs"
| "value_ok JUndef = False"
| "value_ok JFun = False"

definition checkValue :: "string \<Rightarrow> jsv \<Rightarrow> unit reg" where
  "checkValue key v = (if value_ok v then Inr () else Inl (RefusedValue key))"

section \<open>Regtest arming\<close>

definition lower_char :: "char \<Rightarrow> char" where
  "lower_char c = (let n = of_char c :: nat in if 65 \<le> n \<and> n \<le> 90 then char_of (n + 32) else c)"

definition toLowerCase :: "string \<Rightarrow> string" where
  "toLowerCase s = map lower_char s"

definition regtestHeight :: "string option \<Rightarrow> nat \<Rightarrow> nat option" where
  "regtestHeight raw armedHeight =
     (case raw of
        None \<Rightarrow> None
      | Some r \<Rightarrow>
          (let s = toLowerCase (js_trim r) in
           if s \<in> {[], ''off'', ''inert'', ''false'', ''no'', ''none''} then None
           else if s \<in> {''armed'', ''genesis'', ''on'', ''true'', ''yes''} then Some armedHeight
           else if list_all is_digit s then Some (dec_val s)
           else None))"

definition REGTEST_ARMING :: "(string \<times> string \<times> nat \<times> string list) list" where
  "REGTEST_ARMING =
     [(''anchor_fold_activation.ANCHOR_FOLD_ACTIVATION'', ''XC_ANCHOR_FOLD_REGTEST_ACTIVATION'', 0, [''regtest'']),
      (''archive_section_verdict_activation.ARCHIVE_SECTION_VERDICT_STATE_HASH_ACTIVATION'', ''XC_ANCHOR_FOLD_REGTEST_ACTIVATION'', 0, [''regtest'']),
      (''anchor_bundle_order_activation.ANCHOR_BUNDLE_ORDER_ACTIVATION'', ''XC_ANCHOR_STAKE_REGTEST_ACTIVATION'', 0, [''regtest'']),
      (''archive_match_count_activation.ARCHIVE_MATCH_COUNT_ACTIVATION'', ''XC_ANCHOR_STAKE_REGTEST_ACTIVATION'', 0, [''regtest'']),
      (''stake_weight_collation_activation.STAKE_WEIGHT_COLLATION_ACTIVATION'', ''XC_ANCHOR_STAKE_REGTEST_ACTIVATION'', 0, [''regtest'']),
      (''slash_grid_activation.SLASH_GRID_ACTIVATION'', ''XC_ANCHOR_SLASH_REGTEST_ACTIVATION'', 0, [''regtest'']),
      (''slash_ledger_consolidation_activation.SLASH_LEDGER_CONSOLIDATION_ACTIVATION'', ''XC_ANCHOR_SLASH_REGTEST_ACTIVATION'', 0, [''regtest'']),
      (''rollcall_activation.ROLLCALL_ACTIVATION'', ''XC_ROLLCALL_REGTEST_ACTIVATION'', 0, [''regtest'']),
      (''rollcall_gates_activation.ROLLCALL_GATES_ACTIVATION'', ''XC_ROLLCALL_GATES_REGTEST_ACTIVATION'', 0, [''regtest'']),
      (''mirror_admission_activation.MIRROR_ADMISSION_ACTIVATION'', ''XC_MIRROR_ADMISSION_ACTIVATION'', 0, [''BTC:regtest'', ''LTC:regtest'', ''DOGE:regtest'']),
      (''mirror_admission_activation.MIRROR_ADMISSION_CONSUMER_ACTIVATION'', ''XC_MIRROR_ADMISSION_ACTIVATION'', 0, [''BTC:regtest'', ''LTC:regtest'', ''DOGE:regtest'']),
      (''anchor_reward_activation.ANCHOR_ATTEST_BARRIER_ACTIVATION'', ''XC_MIRROR_ADMISSION_ACTIVATION'', 0, [''regtest'']),
      (''dispenser_send_amount_compare_activation.DISPENSER_SEND_AMOUNT_COMPARE_ACTIVATION'', ''XC_AMOUNTS_PRICE_REGTEST_ACTIVATION'', 0, [''regtest'']),
      (''price_fee_batch_landed_activation.PRICE_FEE_BATCH_LANDED_ACTIVATION'', ''XC_AMOUNTS_PRICE_REGTEST_ACTIVATION'', 0, [''regtest'']),
      (''amount_representability_activation.AMOUNT_REPRESENTABILITY_ACTIVATION'', ''XC_AMOUNTS_PRICE_REGTEST_TIME'', 0, [''regtest'']),
      (''vote_callback_binding_activation.VOTE_CALLBACK_BINDING_REQUIRES_USABLE_METHOD'', ''XC_CONTRACTS_REGTEST_ACTIVATION'', 0, [''regtest'']),
      (''list_owner_activation.LIST_OWNER_ACTIVATION'', ''XC_LISTS_MARKET_REGTEST_ACTIVATION'', 0, [''regtest'']),
      (''empty_allow_list_denies_activation.EMPTY_ALLOW_LIST_DENIES'', ''XC_LISTS_MARKET_REGTEST_ACTIVATION'', 0, [''regtest'']),
      (''swap_edit_rematch_activation.SWAP_EDIT_REMATCH_ACTIVATION'', ''XC_LISTS_MARKET_REGTEST_ACTIVATION'', 0, [''regtest'']),
      (''token_gate_list_at_block.TOKEN_GATE_LIST_AT_BLOCK'', ''XC_LISTS_MARKET_REGTEST_ACTIVATION'', 0, [''regtest'']),
      (''list_reference_validity_activation.LIST_REFERENCE_REQUIRES_VALID_LIST'', ''XC_LISTS_MARKET_REGTEST_ACTIVATION'', 0, [''regtest'']),
      (''list_head_follows_edit_chain.LIST_HEAD_FOLLOWS_EDIT_CHAIN'', ''XC_LISTS_MARKET_REGTEST_ACTIVATION'', 0, [''regtest'']),
      (''order_swap_maker_policy_admission.ORDER_SWAP_MAKER_POLICY_ADMISSION'', ''XC_LISTS_MARKET_REGTEST_ACTIVATION'', 0, [''regtest'']),
      (''order_swap_payout_policy_activation.ORDER_SWAP_PAYOUT_POLICY_PER_TOKEN'', ''XC_LISTS_MARKET_REGTEST_ACTIVATION'', 0, [''regtest'']),
      (''issue_policy_list_detach.ISSUE_POLICY_LIST_DETACH'', ''XC_LISTS_MARKET_REGTEST_ACTIVATION'', 0, [''regtest'']),
      (''bridge_policy_detach_activation.BRIDGE_POLICY_DETACH'', ''XC_LISTS_MARKET_REGTEST_ACTIVATION'', 0, [''regtest'']),
      (''callback_compensation_activation.CALLBACK_COMPENSATES_EVERY_DEBITED_HOLDER'', ''XC_LISTS_MARKET_REGTEST_ACTIVATION'', 0, [''regtest'']),
      (''dispenser_settlement_price_activation.DISPENSER_SETTLEMENT_PRICE_ACTIVATION'', ''XC_LISTS_MARKET_REGTEST_TIME'', 0, [''regtest'']),
      (''dispenser_freshness_proven_use_activation.DISPENSER_FRESHNESS_PROVEN_USE_ACTIVATION'', ''XC_LISTS_MARKET_REGTEST_TIME'', 0, [''regtest'']),
      (''list_edit_remove_activation.LIST_EDIT_REMOVE_ACTIVATION'', ''XC_LISTS_MARKET_REGTEST_TIME'', 0, [''regtest'']),
      (''remote_token_admission_activation.REMOTE_TOKEN_ADMISSION_ACTIVATION'', ''XC_REMOTE_TOKEN_ADMISSION_REGTEST_ACTIVATION'', 0, [''regtest'']),
      (''pass_progress_retirement_activation.PASS_PROGRESS_RETIREMENT_ACTIVATION'', ''XC_PASS_PROGRESS_RETIREMENT_REGTEST_ACTIVATION'', 0, [''regtest'']),
      (''slash_historical_set_activation.SLASH_HISTORICAL_SET_ACTIVATION'', ''XC_SLASH_HISTORICAL_SET_REGTEST_ACTIVATION'', 0, [''regtest'']),
      (''anchor_reward_copy_selection_activation.ANCHOR_REWARD_COPY_SELECTION_ACTIVATION'', ''XC_ANCHOR_REWARD_COPY_SELECTION_REGTEST_ACTIVATION'', 0, [''regtest'']),
      (''token_supply_representation_activation.TOKEN_SUPPLY_REPRESENTATION_ACTIVATION'', ''XC_TOKEN_SUPPLY_REPRESENTATION_REGTEST_ACTIVATION'', 0, [''regtest'']),
      (''dispenser_fiat_pricing_activation.DISPENSER_FIAT_PRICING_ACTIVATION'', ''XC_DISPENSER_FIAT_PRICING_REGTEST_ACTIVATION'', 0, [''regtest'']),
      (''bridge_policy_apply_order_activation.BRIDGE_POLICY_APPLY_ORDER_ACTIVATION'', ''XC_BRIDGE_POLICY_APPLY_ORDER_REGTEST_ACTIVATION'', 0, [''regtest'']),
      (''vm_emission_amount_format_activation.VM_EMISSION_AMOUNT_FORMAT_ACTIVATION'', ''XC_VM_EMISSION_AMOUNT_FORMAT_REGTEST_ACTIVATION'', 0, [''regtest'']),
      (''execute_fee_cap_activation.EXECUTE_FEE_CAP_ACTIVATION'', ''XC_EXECUTE_FEE_CAP_REGTEST_ACTIVATION'', 0, [''regtest'']),
      (''vote_v3_tick_existence_activation.VOTE_V3_TICK_EXISTENCE_ACTIVATION'', ''XC_VOTE_V3_TICK_EXISTENCE_REGTEST_ACTIVATION'', 0, [''regtest'']),
      (''match_origin_open_activation.MATCH_ORIGIN_OPEN_ACTIVATION'', ''XC_MATCH_ORIGIN_OPEN_REGTEST_ACTIVATION'', 0, [''regtest'']),
      (''match_equal_price_oldest_first_activation.MATCH_EQUAL_PRICE_OLDEST_FIRST'', ''XC_MATCH_EQUAL_PRICE_OLDEST_FIRST_REGTEST_ACTIVATION'', 0, [''regtest'']),
      (''reassemble_chunk_parent_status_activation.REASSEMBLE_CHUNK_PARENT_STATUS_ACTIVATION'', ''XC_REASSEMBLE_CHUNK_PARENT_STATUS_REGTEST_ACTIVATION'', 0, [''regtest'']),
      (''unstake_delegated_row_journal_activation.UNSTAKE_DELEGATED_ROW_JOURNAL_ACTIVATION'', ''XC_UNSTAKE_DELEGATED_ROW_JOURNAL_REGTEST_ACTIVATION'', 0, [''regtest'']),
      (''anchor_checkpoint_seq_bind_activation.ANCHOR_CHECKPOINT_SEQ_BIND_ACTIVATION'', ''XC_ANCHOR_CHECKPOINT_SEQ_BIND_REGTEST_ACTIVATION'', 0, [''regtest'']),
      (''dividend_empty_allow_list_denies_activation.DIVIDEND_EMPTY_ALLOW_LIST_DENIES_ACTIVATION'', ''XC_DIVIDEND_EMPTY_ALLOW_LIST_DENIES_REGTEST_ACTIVATION'', 0, [''regtest'']),
      (''airdrop_zero_legs_omitted_activation.AIRDROP_ZERO_LEGS_OMITTED_ACTIVATION'', ''XC_AIRDROP_ZERO_LEGS_OMITTED_REGTEST_ACTIVATION'', 0, [''regtest'']),
      (''tick_normalize_activation.TICK_NORMALIZE_ACTIVATION'', ''XC_TICK_NORMALIZE_REGTEST_ACTIVATION'', 0, [''regtest''])]"

definition ENV_READERS :: "string list" where
  "ENV_READERS =
     [''XC_ANCHOR_FOLD_REGTEST_ACTIVATION'',
      ''XC_ANCHOR_STAKE_REGTEST_ACTIVATION'',
      ''XC_ANCHOR_SLASH_REGTEST_ACTIVATION'',
      ''XC_ROLLCALL_REGTEST_ACTIVATION'',
      ''XC_ROLLCALL_GATES_REGTEST_ACTIVATION'',
      ''XC_MIRROR_ADMISSION_ACTIVATION'',
      ''XC_AMOUNTS_PRICE_REGTEST_ACTIVATION'',
      ''XC_AMOUNTS_PRICE_REGTEST_TIME'',
      ''XC_CONTRACTS_REGTEST_ACTIVATION'',
      ''XC_LISTS_MARKET_REGTEST_ACTIVATION'',
      ''XC_LISTS_MARKET_REGTEST_TIME'',
      ''XC_REMOTE_TOKEN_ADMISSION_REGTEST_ACTIVATION'',
      ''XC_PASS_PROGRESS_RETIREMENT_REGTEST_ACTIVATION'',
      ''XC_SLASH_HISTORICAL_SET_REGTEST_ACTIVATION'',
      ''XC_ANCHOR_REWARD_COPY_SELECTION_REGTEST_ACTIVATION'',
      ''XC_TOKEN_SUPPLY_REPRESENTATION_REGTEST_ACTIVATION'',
      ''XC_DISPENSER_FIAT_PRICING_REGTEST_ACTIVATION'',
      ''XC_BRIDGE_POLICY_APPLY_ORDER_REGTEST_ACTIVATION'',
      ''XC_VM_EMISSION_AMOUNT_FORMAT_REGTEST_ACTIVATION'',
      ''XC_EXECUTE_FEE_CAP_REGTEST_ACTIVATION'',
      ''XC_VOTE_V3_TICK_EXISTENCE_REGTEST_ACTIVATION'',
      ''XC_MATCH_ORIGIN_OPEN_REGTEST_ACTIVATION'',
      ''XC_MATCH_EQUAL_PRICE_OLDEST_FIRST_REGTEST_ACTIVATION'',
      ''XC_REASSEMBLE_CHUNK_PARENT_STATUS_REGTEST_ACTIVATION'',
      ''XC_UNSTAKE_DELEGATED_ROW_JOURNAL_REGTEST_ACTIVATION'',
      ''XC_ANCHOR_CHECKPOINT_SEQ_BIND_REGTEST_ACTIVATION'',
      ''XC_DIVIDEND_EMPTY_ALLOW_LIST_DENIES_REGTEST_ACTIVATION'',
      ''XC_AIRDROP_ZERO_LEGS_OMITTED_REGTEST_ACTIVATION'',
      ''XC_TICK_NORMALIZE_REGTEST_ACTIVATION'']"

type_synonym env = "string \<rightharpoonup> string"

definition arming_rule :: "string \<Rightarrow> (string \<times> nat \<times> string list) option" where
  "arming_rule key = map_of REGTEST_ARMING key"

definition readRuleEnv :: "string \<Rightarrow> env \<Rightarrow> string option reg" where
  "readRuleEnv name env = (if name \<in> set ENV_READERS then Inr (env name) else Inl (MissingReader name))"

definition assign_keys :: "(string \<times> jsv) list \<Rightarrow> string list \<Rightarrow> jsv \<Rightarrow> (string \<times> jsv) list" where
  "assign_keys table ks v = fold (\<lambda>k t. AList.update k v t) ks table"

definition armed :: "nat \<times> string list \<Rightarrow> jsv \<Rightarrow> string option \<Rightarrow> jsv" where
  "armed rule table raw =
     (case regtestHeight raw (fst rule) of
        None \<Rightarrow> table
      | Some height \<Rightarrow>
          (case table of
             JObj fs \<Rightarrow> JObj (assign_keys fs (snd rule) (JInt (int height)))
           | _ \<Rightarrow> table))"

text \<open>The cache of \<^verbatim>\<open>regtestArming\<close>: per key, the environment value last seen and the
  armed table built from it.\<close>

type_synonym arm_cache = "string \<rightharpoonup> (string option \<times> jsv)"

definition armAtRead :: "env \<Rightarrow> arm_cache \<Rightarrow> string \<Rightarrow> jsv \<Rightarrow> (jsv \<times> arm_cache) reg" where
  "armAtRead env cache key table =
     (case arming_rule key of
        None \<Rightarrow> Inr (table, cache)
      | Some (name, rule) \<Rightarrow>
          (case readRuleEnv name env of
             Inl e \<Rightarrow> Inl e
           | Inr raw \<Rightarrow>
               (case cache key of
                  Some (raw', value) \<Rightarrow>
                    (if raw' = raw then Inr (value, cache)
                     else let value = armed rule table raw in Inr (value, cache(key \<mapsto> (raw, value))))
                | None \<Rightarrow> let value = armed rule table raw in Inr (value, cache(key \<mapsto> (raw, value))))))"

section \<open>The registry\<close>

text \<open>Rows in insertion order, whether the overlay is installed, and the overlay's cache.\<close>

record registry =
  reg_entries :: "(string \<times> string \<times> jsv) list"
  reg_overlay :: bool
  reg_cache :: arm_cache

definition createRegistry :: registry where
  "createRegistry = \<lparr>reg_entries = [], reg_overlay = False, reg_cache = Map.empty\<rparr>"

definition setReadOverlay :: "registry \<Rightarrow> registry" where
  "setReadOverlay r = r\<lparr>reg_overlay := True\<rparr>"

definition reg_read :: "env \<Rightarrow> registry \<Rightarrow> string \<Rightarrow> (jsv \<times> registry) reg" where
  "reg_read env r key =
     (case map_of (reg_entries r) key of
        None \<Rightarrow> Inl (RegistryMiss key)
      | Some (utag, value) \<Rightarrow>
          (if reg_overlay r then
             (case armAtRead env (reg_cache r) key value of
                Inl e \<Rightarrow> Inl e
              | Inr (v, c) \<Rightarrow> Inr (v, r\<lparr>reg_cache := c\<rparr>))
           else Inr (value, r)))"

definition addGate :: "registry \<Rightarrow> gate_row \<Rightarrow> registry reg" where
  "addGate r row =
     (case row of (key, utag, table) \<Rightarrow>
        (case checkKey key of
           Inl e \<Rightarrow> Inl e
         | Inr _ \<Rightarrow>
             if map_of (reg_entries r) key \<noteq> None then Inl (DuplicateKey key)
             else if utag \<notin> set UNITS then Inl (BadUnit key utag)
             else (case (if utag \<noteq> ''constant'' then checkTable key utag table else Inr ()) of
                     Inl e \<Rightarrow> Inl e
                   | Inr _ \<Rightarrow>
                       (case checkValue key table of
                          Inl e \<Rightarrow> Inl e
                        | Inr _ \<Rightarrow> Inr (r\<lparr>reg_entries := reg_entries r @ [(key, utag, frozenCopy table)]\<rparr>)))))"

definition reg_has :: "registry \<Rightarrow> string \<Rightarrow> bool" where
  "reg_has r key = (map_of (reg_entries r) key \<noteq> None)"

definition reg_get :: "env \<Rightarrow> registry \<Rightarrow> string \<Rightarrow> (jsv \<times> registry) reg" where
  "reg_get env r key = reg_read env r key"

definition reg_copy :: "env \<Rightarrow> registry \<Rightarrow> string \<Rightarrow> (jsv \<times> registry) reg" where
  "reg_copy env r key = map_sum id (map_prod mutableCopy id) (reg_get env r key)"

definition unitOf :: "registry \<Rightarrow> string \<Rightarrow> string reg" where
  "unitOf r key = (case map_of (reg_entries r) key of None \<Rightarrow> Inl (RegistryMiss key) | Some (u, _) \<Rightarrow> Inr u)"

definition reg_keys :: "registry \<Rightarrow> string list" where
  "reg_keys r = map fst (reg_entries r)"

definition activeAt ::
  "env \<Rightarrow> registry \<Rightarrow> string \<Rightarrow> string option \<Rightarrow> string option \<Rightarrow> jsv \<Rightarrow> jsv \<Rightarrow> (bool \<times> registry) reg" where
  "activeAt env r key network coin height time =
     (case map_of (reg_entries r) key of
        None \<Rightarrow> Inl (RegistryMiss key)
      | Some (utag, _) \<Rightarrow>
          if utag \<noteq> ''height'' \<and> utag \<noteq> ''epoch'' \<and> utag \<noteq> ''time'' then Inl (UnsupportedUnit utag key)
          else (case network of
                  None \<Rightarrow> Inr (False, r)
                | Some nw \<Rightarrow>
                    (case reg_read env r key of
                       Inl e \<Rightarrow> Inl e
                     | Inr (v, r') \<Rightarrow>
                         (case v of
                            JObj table \<Rightarrow>
                              Inr (reached (resolveThreshold table nw coin) (if utag = ''time'' then time else height), r')
                          | _ \<Rightarrow> Inr (False, r')))))"

fun addGates :: "registry \<Rightarrow> gate_row list \<Rightarrow> registry reg" where
  "addGates r [] = Inr r"
| "addGates r (row # rows) = (case addGate r row of Inl e \<Rightarrow> Inl e | Inr r' \<Rightarrow> addGates r' rows)"

definition registerRows :: "registry \<Rightarrow> gate_row list \<Rightarrow> registry reg" where
  "registerRows r rows = map_sum id setReadOverlay (addGates r rows)"

section \<open>The committed rows\<close>

definition shared_rows_1a :: "gate_row list" where
  "shared_rows_1a =
     [(''anchor_bundle_order_activation.ANCHOR_BUNDLE_ORDER_ACTIVATION'', ''height'', JObj [(''mainnet'', UNARMED), (''BTC:testnet'', JInt 155001), (''LTC:testnet'', JInt 4906040), (''DOGE:testnet'', JInt 67962387), (''testnet'', UNARMED), (''regtest'', JInt 0)]),
      (''anchor_reward_activation.ANCHOR_REWARD_ACTIVATION'', ''height'', JObj [(''mainnet'', JInt 961000), (''testnet'', JInt 0), (''regtest'', JInt 0)]),
      (''anchor_reward_activation.ANCHOR_REWARD_AMOUNT'', ''constant'', JStr ''10.00000000''),
      (''anchor_reward_activation.ARCHIVE_REWARD_ACTIVATION'', ''height'', JObj [(''mainnet'', JInt 963000), (''testnet'', JInt 0), (''regtest'', JInt 0)]),
      (''anchor_reward_activation.ARCHIVE_REWARD_AMOUNT'', ''constant'', JStr ''10.00000000'')]"

definition shared_rows_1b :: "gate_row list" where
  "shared_rows_1b =
     [(''anchor_reward_activation.ANCHOR_REWARD_DERIVE_ACTIVATION'', ''height'', JObj [(''mainnet'', JInt 0), (''testnet'', JInt 0), (''regtest'', JInt 0)])]"

definition shared_rows_1c :: "gate_row list" where
  "shared_rows_1c =
     [(''anchor_reward_activation.ANCHOR_REWARD_MIRROR_MATURITY'', ''constant'', JInt 144)]"

definition shared_rows_1d :: "gate_row list" where
  "shared_rows_1d =
     [(''anchor_reward_activation.ANCHOR_REWARD_DOGE_MIN_CONFIRMATIONS'', ''constant'', JInt 60),
      (''anchor_reward_activation.ANCHOR_ATTEST_ARRIVAL_MARGIN_S'', ''constant'', JInt 64800),
      (''anchor_reward_activation.ANCHOR_ATTEST_BARRIER_ACTIVATION'', ''height'', JObj [(''mainnet'', JNull), (''testnet'', JInt 154291), (''regtest'', UNPINNED)]),
      (''archive_rollback_author_scope_activation.ARCHIVE_ROLLBACK_AUTHOR_SCOPE_ACTIVATION'', ''height'', JObj [(''mainnet'', JInt 0), (''testnet'', JInt 67915000), (''regtest'', UNARMED)]),
      (''archive_rollback_author_scope_activation.ARCHIVE_AUTHOR_SCOPE_JOIN_SQL'', ''constant'', JStr ''JOIN actions         pact ON pact.action_index = p.action_index JOIN index_addresses padr ON padr.id = pact.source_id JOIN actions         cact ON cact.action_index = c.action_index JOIN index_addresses cadr ON cadr.id = cact.source_id AND cadr.address = padr.address ''),
      (''attest_relay_activation.ATTEST_RELAY_ACTIVATION'', ''height'', JObj [(''mainnet'', JInt 963000), (''testnet'', JInt 0), (''regtest'', JInt 0)]),
      (''attest_response_mirror_activation.ATTEST_RESPONSE_MIRROR_ACTIVATION'', ''height'', JObj [(''mainnet'', JNull), (''testnet'', JInt 151324), (''regtest'', JInt 0)]),
      (''attest_responsible_widening_activation.ATTEST_RESPONSIBLE_WIDENING_ACTIVATION'', ''height'', JObj [(''mainnet'', JInt 0), (''testnet'', JInt 150780), (''regtest'', JInt 0)])]"

definition shared_rows_1e :: "gate_row list" where
  "shared_rows_1e =
     [(''attest_responsible_widening_activation.ATTEST_RESPONSIBLE_WIDENING'', ''constant'', JObj [(''confirmations'', JInt 3), (''maxSlots'', JInt 2)])]"

definition shared_rows_2a :: "gate_row list" where
  "shared_rows_2a =
     [(''attest_responsible_widening_activation.ATTEST_RESPONSIBLE_WIDENING_V2'', ''constant'', JObj [(''startOffset'', JInt 0), (''headroom'', JInt 1), (''maxSlots'', JInt 2)]),
      (''attest_zero_conf_activation.ATTEST_ZERO_CONF_ACTIVATION'', ''height'', JObj [(''mainnet'', JNull), (''testnet'', JInt 151800), (''regtest'', JInt 0)]),
      (''checkpoint_commitment_activation.CHECKPOINT_COMMITMENT_ACTIVATION'', ''height'', JObj [(''mainnet'', JInt 961000), (''testnet'', JInt 146000), (''regtest'', JInt 0)]),
      (''cross_chain_royalty_activation.CROSS_CHAIN_ROYALTY_ACTIVATION'', ''height'', JObj [(''mainnet'', JInt 961000), (''testnet'', JInt 0), (''regtest'', JInt 0)]),
      (''equivocation_header.EQUIV_HEADER_ACTIVATION'', ''height'', JObj [(''mainnet'', JInt 961000), (''testnet'', JInt 0), (''regtest'', JInt 0)]),
      (''equivocation_header.ENGINE_TAGS'', ''constant'', JObj [(''DEX'', JStr ''XDEX''), (''XCALL'', JStr ''XCALL''), (''ATTEST'', JStr ''XATTEST''), (''ORACLE'', JStr ''XORACLE''), (''ORACLE_BATCH'', JStr ''XORACLEB''), (''CHECKPOINT'', JStr ''XCHECKPOINT''), (''CONFIG'', JStr ''XCONFIG''), (''NODEPROOF'', JStr ''XNODEPROOF''), (''ROLLCALL'', JStr ''XROLLCALL''), (''BRIDGE'', JStr ''XBRIDGE''), (''POLICY'', JStr ''XPOLICY''), (''LIST_SHARE'', JStr ''XLISTSHARE'')]),
      (''list_edit_resolution_activation.LIST_EDIT_RESOLUTION_ACTIVATION'', ''height'', JObj [(''BTC:mainnet'', JInt 963000), (''LTC:mainnet'', JInt 3162000), (''DOGE:mainnet'', JInt 6338000), (''BTC:testnet'', JInt 0), (''LTC:testnet'', JInt 0), (''DOGE:testnet'', JInt 0), (''regtest'', JInt 0)]),
      (''mirror_admission_activation.ADMIT_MARGIN_BLOCKS'', ''constant'', JObj [(''default'', JInt 4), (''attestation_responses'', JInt 1), (''oracle_prices'', JInt 1), (''anchor_reward_attestations'', JInt 144)]),
      (''mirror_admission_activation.ADMIT_MIN_FUTURE_BLOCKS'', ''constant'', JInt 1),
      (''mirror_admission_activation.ADMIT_MAX_FUTURE_BLOCKS'', ''constant'', JObj [(''BTC'', JInt 6), (''LTC'', JInt 24), (''DOGE'', JInt 60), (''default'', JInt 6)])]"

definition shared_rows_2b :: "gate_row list" where
  "shared_rows_2b =
     [(''mirror_admission_activation.MIRROR_ADMISSION_ACTIVATION'', ''height'', JObj [(''BTC:mainnet'', JNull), (''LTC:mainnet'', JNull), (''DOGE:mainnet'', JNull), (''BTC:testnet'', JInt 154234), (''LTC:testnet'', JInt 4903068), (''DOGE:testnet'', JInt 67936053), (''BTC:regtest'', UNPINNED), (''LTC:regtest'', UNPINNED), (''DOGE:regtest'', UNPINNED)]),
      (''mirror_admission_activation.MIRROR_ADMISSION_CONSUMER_ACTIVATION'', ''height'', JObj [(''BTC:mainnet'', JNull), (''LTC:mainnet'', JNull), (''DOGE:mainnet'', JNull), (''BTC:testnet'', JInt 154291), (''LTC:testnet'', JInt 4903291), (''DOGE:testnet'', JInt 67936888), (''BTC:regtest'', UNPINNED), (''LTC:regtest'', UNPINNED), (''DOGE:regtest'', UNPINNED)]),
      (''mirror_admission_activation.MIRROR_ADMISSION_REGTEST_ENV'', ''constant'', JStr ''XC_MIRROR_ADMISSION_ACTIVATION''),
      (''mirror_admission_activation.MIRROR_ADMISSION_REGTEST_ARMED_HEIGHT'', ''constant'', JInt 0),
      (''mirror_admission_activation.CHAIN_CODE_RE'', ''constant'', JRegExp ''/^[A-Z0-9]{1,10}$/''),
      (''mirror_admission_activation.CANONICAL_HEIGHT_RE'', ''constant'', JRegExp ''/^(?:0|[1-9][0-9]*)$/''),
      (''mirror_admission_activation.ADMIT_COLUMN_CHAINS'', ''constant'', JArr [JStr ''BTC'', JStr ''LTC'', JStr ''DOGE'']),
      (''price_pair_activation.PRICE_PAIR_TICKER_MAX_LEGACY'', ''constant'', JInt 5),
      (''price_pair_activation.PRICE_PAIR_TICKER_MAX_WIDE'', ''constant'', JInt 6),
      (''price_pair_activation.PRICE_PAIR_WIDEN_ACTIVATION'', ''time'', JObj [(''mainnet'', JInt 0), (''testnet'', JInt 0), (''regtest'', JInt 0)]),
      (''price_pair_activation.PRICE_PAIR_RE_LEGACY'', ''constant'', JRegExp [CHR ''/'', CHR ''^'', CHR ''['', CHR ''A'', CHR ''-'', CHR ''Z'', CHR '']'', CHR ''{'', CHR ''3'', CHR '','', CHR ''5'', CHR ''}'', CHR 0x5C, CHR ''/'', CHR ''['', CHR ''A'', CHR ''-'', CHR ''Z'', CHR '']'', CHR ''{'', CHR ''3'', CHR '','', CHR ''5'', CHR ''}'', CHR ''$'', CHR ''/'']),
      (''price_pair_activation.PRICE_PAIR_RE_WIDE'', ''constant'', JRegExp [CHR ''/'', CHR ''^'', CHR ''['', CHR ''A'', CHR ''-'', CHR ''Z'', CHR '']'', CHR ''{'', CHR ''3'', CHR '','', CHR ''6'', CHR ''}'', CHR 0x5C, CHR ''/'', CHR ''['', CHR ''A'', CHR ''-'', CHR ''Z'', CHR '']'', CHR ''{'', CHR ''3'', CHR '','', CHR ''5'', CHR ''}'', CHR ''$'', CHR ''/'']),
      (''price_scale_activation.PRICE_SCALE_MAX_DECIMALS'', ''constant'', JInt 8),
      (''price_scale_activation.PRICE_VALUE_RE_LEGACY'', ''constant'', JRegExp [CHR ''/'', CHR ''^'', CHR ''['', CHR ''0'', CHR ''-'', CHR ''9'', CHR '']'', CHR ''+'', CHR ''('', CHR 0x5C, CHR ''.'', CHR ''['', CHR ''0'', CHR ''-'', CHR ''9'', CHR '']'', CHR ''+'', CHR '')'', CHR ''?'', CHR ''$'', CHR ''/'']),
      (''price_scale_activation.PRICE_VALUE_RE_CANONICAL'', ''constant'', JRegExp [CHR ''/'', CHR ''^'', CHR ''('', CHR ''0'', CHR ''|'', CHR ''['', CHR ''1'', CHR ''-'', CHR ''9'', CHR '']'', CHR ''['', CHR ''0'', CHR ''-'', CHR ''9'', CHR '']'', CHR ''*'', CHR '')'', CHR ''('', CHR 0x5C, CHR ''.'', CHR ''['', CHR ''0'', CHR ''-'', CHR ''9'', CHR '']'', CHR ''{'', CHR ''1'', CHR '','', CHR ''8'', CHR ''}'', CHR '')'', CHR ''?'', CHR ''$'', CHR ''/'']),
      (''price_scale_activation.PRICE_V1_CANONICAL_ACTIVATION'', ''time'', JObj [(''mainnet'', UNARMED), (''BTC:testnet'', JInt 1791061097), (''LTC:testnet'', JInt 1791061097), (''DOGE:testnet'', JInt 1791061097), (''testnet'', UNARMED), (''regtest'', JInt 0)]),
      (''price_scale_activation.PRICE_V1_FEE_RE_CANONICAL'', ''constant'', JRegExp [CHR ''/'', CHR ''^'', CHR ''('', CHR ''0'', CHR ''|'', CHR ''['', CHR ''1'', CHR ''-'', CHR ''9'', CHR '']'', CHR ''['', CHR ''0'', CHR ''-'', CHR ''9'', CHR '']'', CHR ''*'', CHR '')'', CHR ''('', CHR 0x5C, CHR ''.'', CHR ''['', CHR ''0'', CHR ''-'', CHR ''9'', CHR '']'', CHR ''{'', CHR ''1'', CHR '','', CHR ''1'', CHR ''8'', CHR ''}'', CHR '')'', CHR ''?'', CHR ''$'', CHR ''/'']),
      (''price_scale_activation.PRICE_V1_VALUE_MAX_LENGTH'', ''constant'', JInt 19),
      (''price_scale_activation.PRICE_V1_FEE_MAX_LENGTH'', ''constant'', JInt 20)]"

definition shared_rows_2c :: "gate_row list" where
  "shared_rows_2c =
     [(''price_sig_tally_activation.PRICE_SIG_TALLY_ACTIVATION'', ''height'', JObj [(''mainnet'', JInt 963000), (''testnet'', JInt 0), (''regtest'', JInt 0)]),
      (''retraction_signing_activation.RETRACTION_SIGNING_ACTIVATION'', ''height'', JObj [(''mainnet'', JInt 963000), (''testnet'', JInt 0), (''regtest'', JInt 0)]),
      (''price_fee_batch_landed_activation.PRICE_LANDING_CHAINS'', ''constant'', JObj [(''mainnet'', JArr [JStr ''DOGE'']), (''testnet'', JArr [JStr ''DOGE'']), (''regtest'', JArr [JStr ''DOGE''])])]"

definition shared_rows_3a :: "gate_row list" where
  "shared_rows_3a =
     [(''rollcall_activation.ROLLCALL_ACTIVATION'', ''epoch'', JObj [(''mainnet'', JInt 0), (''testnet'', JInt 151200), (''regtest'', UNPINNED)]),
      (''rollcall_activation.ROLLCALL_REGTEST_ARMED_HEIGHT'', ''constant'', JInt 0),
      (''rollcall_activation.ROLLCALL_REGTEST_ENV'', ''constant'', JStr ''XC_ROLLCALL_REGTEST_ACTIVATION''),
      (''rollcall_activation.ROLLCALL_INTERVAL_BLOCKS'', ''constant'', JObj [(''mainnet'', JInt 1008), (''testnet'', JInt 1008), (''regtest'', JInt 30)]),
      (''rollcall_activation.ROLLCALL_ACCEPT_WINDOW_BLOCKS'', ''constant'', JObj [(''mainnet'', JInt 144), (''testnet'', JInt 144), (''regtest'', JInt 12)]),
      (''rollcall_activation.ROLLCALL_PROOF_DELAY_BLOCKS'', ''constant'', JObj [(''mainnet'', JInt 36), (''testnet'', JInt 36), (''regtest'', JInt 2)]),
      (''rollcall_activation.ROLLCALL_DOGE_MATURITY'', ''constant'', JObj [(''mainnet'', JInt 60), (''testnet'', JInt 60), (''regtest'', JInt 2)]),
      (''rollcall_activation.ROLLCALL_EVICT_MISSES'', ''constant'', JInt 2),
      (''rollcall_activation.ROLLCALL_STREAK_LOOKBACK'', ''constant'', JInt 4),
      (''rollcall_activation.ROLLCALL_REWARD_AMOUNT'', ''constant'', JStr ''10.00000000''),
      (''rollcall_gates_activation.ROLLCALL_GATES_ACTIVATION'', ''epoch'', JObj [(''mainnet'', JNull), (''testnet'', JInt 152208), (''regtest'', UNPINNED)]),
      (''rollcall_gates_activation.ROLLCALL_GATES_REGTEST_ARMED_HEIGHT'', ''constant'', JInt 0),
      (''rollcall_gates_activation.ROLLCALL_GATES_REGTEST_ENV'', ''constant'', JStr ''XC_ROLLCALL_GATES_REGTEST_ACTIVATION''),
      (''snapshot_reorg_buffer.CANONICAL_REORG_BUFFER'', ''constant'', JInt 6),
      (''snapshot_reorg_buffer.SNAPSHOT_BURIAL_ACTIVATION'', ''height'', JObj [(''mainnet'', JInt 0), (''testnet'', JInt 0), (''regtest'', JInt 0)]),
      (''stake_weight_collation_activation.STAKE_WEIGHT_COLLATION'', ''constant'', JStr ''utf8_bin''),
      (''stake_weight_collation_activation.STAKE_WEIGHT_COLLATION_ACTIVATION'', ''height'', JObj [(''BTC:mainnet'', JInt 0), (''LTC:mainnet'', JInt 0), (''DOGE:mainnet'', JInt 0), (''BTC:testnet'', JInt 155001), (''LTC:testnet'', JInt 4906040), (''DOGE:testnet'', JInt 67962387), (''regtest'', JInt 0)]),
      (''stake_weight_collation_activation.STAKE_WEIGHT_ORDERING_COLUMNS'', ''constant'', JArr [JObj [(''table'', JStr ''index_addresses''), (''column'', JStr ''address''), (''charset'', JStr ''utf8''), (''collation'', JStr ''utf8_general_ci'')], JObj [(''table'', JStr ''index_pubkeys''), (''column'', JStr ''pubkey''), (''charset'', JStr ''utf8''), (''collation'', JStr ''utf8_general_ci'')]]),
      (''stake_weighted_quorum.STAKE_WEIGHTED_QUORUM_ACTIVATION'', ''height'', JObj [(''mainnet'', JInt 961000), (''testnet'', JInt 0), (''regtest'', JInt 0)])]"

definition shared_rows_3b :: "gate_row list" where
  "shared_rows_3b =
     [(''stateHash.STATE_HASH_VERSION'', ''constant'', JInt 1),
      (''stateHash.DEACTIVATION_TABLES'', ''constant'', JArr [JStr ''stakes'', JStr ''delegations'', JStr ''contract_stakes'', JStr ''contract_delegations'']),
      (''stateHash.SLASH_SPECS'', ''constant'', JArr [JObj [(''table'', JStr ''stakes''), (''debits'', JStr ''capability_slash_debits''), (''target'', JStr ''stakes'')], JObj [(''table'', JStr ''unstakes''), (''debits'', JStr ''capability_slash_debits''), (''target'', JStr ''unstakes'')], JObj [(''table'', JStr ''contract_stakes''), (''debits'', JStr ''contract_slash_debits''), (''target'', JStr ''contract_stakes'')], JObj [(''table'', JStr ''contract_unstakes''), (''debits'', JStr ''contract_slash_debits''), (''target'', JStr ''contract_unstakes'')]]),
      (''stateHash.REQUEST_STATUS_TABLES'', ''constant'', JArr [JStr ''attests'', JStr ''xcalls'']),
      (''stateHash.COOLDOWN_TABLES'', ''constant'', JArr [JStr ''unstakes'', JStr ''contract_unstakes''])]"

definition shared_rows_3c :: "gate_row list" where
  "shared_rows_3c =
     [(''stateHash.POLL_FINALIZE_STATE_HASH_ACTIVATION'', ''height'', JObj [(''BTC:mainnet'', JInt 958500), (''LTC:mainnet'', JInt 3143000), (''DOGE:mainnet'', JInt 6291000), (''BTC:testnet'', JInt 145000), (''LTC:testnet'', JInt 4805000), (''DOGE:testnet'', JInt 67000000), (''regtest'', JInt 0)]),
      (''stateHash.TOKEN_SUPPLY_STATE_HASH_ACTIVATION'', ''height'', JObj [(''BTC:mainnet'', JInt 958500), (''LTC:mainnet'', JInt 3143000), (''DOGE:mainnet'', JInt 6291000), (''BTC:testnet'', JInt 145000), (''LTC:testnet'', JInt 4805000), (''DOGE:testnet'', JInt 67000000), (''regtest'', JInt 0)]),
      (''stateHash.BET_STATUS_STATE_HASH_ACTIVATION'', ''height'', JObj [(''BTC:mainnet'', JInt 963000), (''LTC:mainnet'', JInt 3162000), (''DOGE:mainnet'', JInt 6338000), (''BTC:testnet'', JInt 0), (''LTC:testnet'', JInt 0), (''DOGE:testnet'', JInt 0), (''regtest'', JInt 0)]),
      (''stateHash.ARCHIVE_HEAD_VERSIONS'', ''constant'', JArr [JInt 1]),
      (''stateHash.ARCHIVE_HEAD_VERSIONS_SQL'', ''constant'', JStr ''IN (1)'')]"

definition shared_rows_4a :: "gate_row list" where
  "shared_rows_4a =
     [(''stateHash.ARCHIVE_INVALID_HEIGHT_KEY_ACTIVATION'', ''height'', JObj [(''BTC:mainnet'', JInt 0), (''LTC:mainnet'', JInt 0), (''DOGE:mainnet'', JInt 0), (''BTC:testnet'', JInt 155000), (''LTC:testnet'', JInt 4896000), (''DOGE:testnet'', JInt 67915000), (''regtest'', JInt 0)]),
      (''stateHash.ARCHIVE_CHUNK_HEIGHT_COL'', ''constant'', JStr ''c.block_index_doge''),
      (''stateHash.ARCHIVE_CHUNK_HEIGHT_COL_LEGACY'', ''constant'', JStr ''c.block_index''),
      (''state_commitment_activation.STATE_COMMITMENT_ACTIVATION'', ''height'', JObj [(''BTC:mainnet'', JInt 958500), (''LTC:mainnet'', JInt 3143000), (''DOGE:mainnet'', JInt 6291000), (''BTC:testnet'', JInt 145000), (''LTC:testnet'', JInt 4805000), (''DOGE:testnet'', JInt 67000000), (''regtest'', JInt 0)]),
      (''state_key_collation_activation.STATE_KEY_COLLATION_ACTIVATION'', ''height'', JObj [(''BTC:mainnet'', JInt 962500), (''LTC:mainnet'', JInt 3160000), (''DOGE:mainnet'', JInt 6335000), (''BTC:testnet'', JInt 0), (''LTC:testnet'', JInt 0), (''DOGE:testnet'', JInt 0), (''regtest'', JInt 0)]),
      (''state_subtree_activation.RESERVED_SUBTREES'', ''constant'', JArr [JStr ''ownership_root'', JStr ''tokens_root'', JStr ''contract_state_root''])]"

definition shared_rows_4b :: "gate_row list" where
  "shared_rows_4b =
     [(''state_subtree_activation.STATE_SUBTREE_ACTIVATION'', ''constant'', JObj [(''ownership_root'', JObj []), (''tokens_root'', JObj []), (''contract_state_root'', JObj [(''BTC:regtest'', JInt 10000), (''BTC:testnet'', JInt 0), (''LTC:testnet'', JInt 0), (''DOGE:testnet'', JInt 0)])])]"

definition shared_rows_4c :: "gate_row list" where
  "shared_rows_4c =
     [(''state_subtree_activation.STATE_SUBTREE_SHADOW'', ''constant'', JObj [(''ownership_root'', JObj []), (''tokens_root'', JObj []), (''contract_state_root'', JObj [])])]"

definition shared_rows_4d :: "gate_row list" where
  "shared_rows_4d =
     [(''state_subtree_activation.ESCROW_LOCKED_LEAF_ACTIVATION'', ''height'', JObj [(''BTC:regtest'', JInt 11200), (''BTC:testnet'', JInt 0), (''LTC:testnet'', JInt 0), (''DOGE:testnet'', JInt 0)])]"

definition shared_rows_4e :: "gate_row list" where
  "shared_rows_4e =
     [(''state_subtree_activation.ESCROW_LOCKED_LEAF_SHADOW'', ''height'', JObj []),
      (''swq_source_cap_activation.STAKE_WEIGHT_MAX_SOURCES'', ''constant'', JInt 1000),
      (''swq_source_cap_activation.STAKE_WEIGHT_MAX_KEYS_PER_SOURCE'', ''constant'', JInt 64),
      (''swq_source_cap_activation.SWQ_SOURCE_CAP_ACTIVATION'', ''height'', JObj [(''BTC:mainnet'', JInt 960000), (''LTC:mainnet'', JInt 3143000), (''DOGE:mainnet'', JInt 6291000), (''BTC:testnet'', JInt 0), (''LTC:testnet'', JInt 0), (''DOGE:testnet'', JInt 0), (''regtest'', JInt 0)]),
      (''token_bridge_activation.TOKEN_BRIDGE_ACTIVATION'', ''height'', JObj [(''mainnet'', UNARMED), (''BTC:testnet'', JInt 154567), (''LTC:testnet'', JInt 4903068), (''DOGE:testnet'', JInt 67951140), (''testnet'', UNARMED), (''regtest'', JInt 0)])]"

definition shared_rows_5a :: "gate_row list" where
  "shared_rows_5a =
     [(''token_policy_activation.TOKEN_POLICY_INHERITANCE_ACTIVATION'', ''height'', JObj [(''mainnet'', UNARMED), (''BTC:testnet'', JInt 154567), (''LTC:testnet'', JInt 4903068), (''DOGE:testnet'', JInt 67951140), (''testnet'', UNARMED), (''regtest'', JInt 0)]),
      (''train_activation.TRAIN_ACTIVATION'', ''ruleset'', JObj [(''1.0.0'', JObj [(''mainnet'', JInt 0), (''testnet'', JInt 0), (''regtest'', JInt 0)]), (''0.19.0'', JObj [(''mainnet'', UNARMED), (''testnet'', JInt 152787), (''regtest'', JInt 0)]), (''0.20.0'', JObj [(''mainnet'', UNARMED), (''testnet'', JInt 154074), (''regtest'', JInt 0)]), (''0.21.0'', JObj [(''mainnet'', UNARMED), (''testnet'', JInt 154566), (''regtest'', JInt 0)])])]"

definition shared_rows_5b :: "gate_row list" where
  "shared_rows_5b =
     [(''xchain_bridge_activation.XCHAIN_BRIDGE_ACTIVATION'', ''height'', JObj [(''BTC:mainnet'', UNARMED), (''LTC:mainnet'', UNARMED), (''DOGE:mainnet'', UNARMED), (''mainnet'', UNARMED), (''BTC:testnet'', JInt 152929), (''LTC:testnet'', JInt 4887898), (''DOGE:testnet'', JInt 67902062), (''testnet'', UNARMED), (''regtest'', JInt 0)]),
      (''anchor_empty_fold_reject_activation.ANCHOR_EMPTY_FOLD_REJECT_ACTIVATION'', ''height'', JObj [(''mainnet'', UNARMED), (''BTC:testnet'', JInt 156230), (''LTC:testnet'', JInt 4912984), (''DOGE:testnet'', JInt 67989993), (''testnet'', UNARMED), (''regtest'', JInt 0)]),
      (''cooldown_maturity_escrow_reversal_activation.COOLDOWN_MATURITY_ESCROW_REVERSAL_ACTIVATION'', ''height'', JObj [(''mainnet'', UNARMED), (''BTC:testnet'', JInt 156230), (''LTC:testnet'', JInt 4912984), (''DOGE:testnet'', JInt 67989993), (''testnet'', UNARMED), (''regtest'', JInt 0)]),
      (''dispenser_refill_policy_activation.DISPENSER_REFILL_POLICY_ACTIVATION'', ''height'', JObj [(''mainnet'', UNARMED), (''BTC:testnet'', JInt 156230), (''LTC:testnet'', JInt 4912984), (''DOGE:testnet'', JInt 67989993), (''testnet'', UNARMED), (''regtest'', JInt 0)]),
      (''anchor_fold_activation.ANCHOR_FOLD_ACTIVATION'', ''height'', JObj [(''mainnet'', UNARMED), (''BTC:testnet'', JInt 155001), (''LTC:testnet'', JInt 4906040), (''DOGE:testnet'', JInt 67962387), (''testnet'', UNARMED), (''regtest'', UNPINNED)]),
      (''archive_rollcall_presence_activation.ARCHIVE_ROLLCALL_PRESENCE_ACTIVATION'', ''height'', JObj [(''mainnet'', UNPINNED), (''BTC:testnet'', JInt 158557), (''LTC:testnet'', JInt 4949697), (''DOGE:testnet'', JInt 68035864), (''testnet'', UNARMED), (''regtest'', JInt 0)]),
      (''archive_section_verdict_activation.ARCHIVE_SECTION_VERDICT_STATE_HASH_ACTIVATION'', ''height'', JObj [(''mainnet'', UNARMED), (''BTC:testnet'', JInt 155001), (''LTC:testnet'', JInt 4906040), (''DOGE:testnet'', JInt 67962387), (''testnet'', UNARMED), (''regtest'', UNPINNED)]),
      (''attest_relay_response_deadline_activation.ATTEST_RELAY_RESPONSE_DEADLINE_ACTIVATION'', ''time'', JObj [(''mainnet'', UNARMED), (''BTC:testnet'', JInt 1791804379), (''LTC:testnet'', JInt 1791804379), (''DOGE:testnet'', JInt 1791804379), (''testnet'', JInt 1791804379), (''regtest'', JInt 0)]),
      (''bridge_row_fields_terminal_activation.BRIDGE_ROW_FIELDS_TERMINAL_ACTIVATION'', ''height'', JObj [(''mainnet'', UNARMED), (''BTC:testnet'', JInt 156230), (''LTC:testnet'', JInt 4912984), (''DOGE:testnet'', JInt 67989993), (''testnet'', UNARMED), (''regtest'', JInt 0)]),
      (''checkpoint_supersede_activation.CHECKPOINT_SUPERSEDE_ACTIVATION'', ''height'', JObj [(''mainnet'', UNPINNED), (''BTC:testnet'', JInt 158557), (''LTC:testnet'', JInt 4949697), (''DOGE:testnet'', JInt 68035864), (''testnet'', UNARMED), (''regtest'', JInt 0)]),
      (''list_share_producer_activation.LIST_SHARE_PRODUCER_ACTIVATION'', ''height'', JObj [(''mainnet'', UNARMED), (''testnet'', JInt 154777), (''regtest'', JInt 0)]),
      (''list_share_consumer_activation.LIST_SHARE_CONSUMER_ACTIVATION'', ''height'', JObj [(''mainnet'', UNARMED), (''testnet'', UNARMED), (''BTC:testnet'', JInt 154777), (''LTC:testnet'', JInt 4905004), (''DOGE:testnet'', JInt 67956922), (''regtest'', JInt 0)]),
      (''list_meta_activation.LIST_META_ACTIVATION'', ''height'', JObj [(''mainnet'', UNARMED), (''testnet'', UNARMED), (''BTC:testnet'', JInt 155001), (''LTC:testnet'', JInt 4906040), (''DOGE:testnet'', JInt 67962387), (''regtest'', JInt 0)]),
      (''mirror_admission_margin_activation.ADMIT_CHAIN_MARGIN_BLOCKS'', ''constant'', JObj [(''DOGE'', JObj [(''bridge_transfers'', JInt 14), (''cross_chain_calls'', JInt 14), (''cross_chain_matches'', JInt 14), (''list_snapshots'', JInt 14), (''policy_snapshots'', JInt 14), (''price_snapshots'', JInt 16), (''remote_token_snapshots'', JInt 14)]), (''LTC'', JObj [(''bridge_transfers'', JInt 14), (''cross_chain_calls'', JInt 14), (''cross_chain_matches'', JInt 14), (''list_snapshots'', JInt 14), (''policy_snapshots'', JInt 14), (''price_snapshots'', JInt 17), (''remote_token_snapshots'', JInt 14)])]),
      (''mirror_admission_margin_activation.ADMIT_CHAIN_MARGIN_ACTIVATION'', ''height'', JObj [(''mainnet'', UNPINNED), (''DOGE:mainnet'', UNPINNED), (''DOGE:testnet'', JInt 67989993), (''LTC:mainnet'', UNPINNED), (''LTC:testnet'', JInt 4949697), (''regtest'', JInt 0)])]"

definition shared_rows_5c :: "gate_row list" where
  "shared_rows_5c =
     [(''oracle_price_age_hourly_activation.ORACLE_PRICE_AGE_HOURLY_ACTIVATION'', ''height'', JObj [(''mainnet'', UNARMED), (''testnet'', UNARMED), (''BTC:testnet'', JInt 154778), (''LTC:testnet'', JInt 4905005), (''DOGE:testnet'', JInt 67956923), (''regtest'', JInt 0)]),
      (''oracle_hourly_window_activation.ORACLE_HOURLY_WINDOW_FIRST_ROUND'', ''constant'', JObj [(''mainnet'', UNARMED), (''testnet'', JInt 5082), (''regtest'', JInt 0)]),
      (''oracle_round_time_activation.ORACLE_ROUND_TIME_ACTIVATION'', ''height'', JObj [(''mainnet'', UNARMED), (''testnet'', UNARMED), (''BTC:testnet'', JInt 155158), (''LTC:testnet'', JInt 4907593), (''DOGE:testnet'', JInt 67966647), (''regtest'', JInt 0)]),
      (''order_match_price_cross_activation.ORDER_MATCH_PRICE_CROSS_ACTIVATION'', ''height'', JObj [(''mainnet'', UNARMED), (''BTC:testnet'', JInt 156908), (''LTC:testnet'', JInt 4927400), (''DOGE:testnet'', JInt 68005165), (''testnet'', JInt 156908), (''regtest'', JInt 0)]),
      (''remote_token_admission_activation.REMOTE_TOKEN_ADMISSION_ACTIVATION'', ''height'', JObj [(''mainnet'', UNARMED), (''BTC:testnet'', JInt 156908), (''LTC:testnet'', JInt 4927400), (''DOGE:testnet'', JInt 68005165), (''testnet'', JInt 156908), (''regtest'', UNPINNED)]),
      (''stateHash.ATTEST_BATCH_HEAD_STATE_HASH_ACTIVATION'', ''height'', JObj [(''mainnet'', UNARMED), (''BTC:testnet'', JInt 156230), (''LTC:testnet'', JInt 4912984), (''DOGE:testnet'', JInt 67989993), (''testnet'', UNARMED), (''regtest'', JInt 0)])]"

definition queued :: "gate_row list" where
  "queued =
     shared_rows_1a @
     shared_rows_1b @
     shared_rows_1c @
     shared_rows_1d @
     shared_rows_1e @
     shared_rows_2a @
     shared_rows_2b @
     shared_rows_2c @
     shared_rows_3a @
     shared_rows_3b @
     shared_rows_3c @
     shared_rows_4a @
     shared_rows_4b @
     shared_rows_4c @
     shared_rows_4d @
     shared_rows_4e @
     shared_rows_5a @
     shared_rows_5b @
     shared_rows_5c"


text \<open>The rows \<^verbatim>\<open>gate_registry.js\<close> adds from the coin files.\<close>

definition activationDelays :: jsv where
  "activationDelays = JObj [(''BTC'', JInt 6), (''LTC'', JInt 24), (''DOGE'', JInt 60)]"

definition stakeCapabilities :: jsv where
  "stakeCapabilities =
     JObj [(''price'', JStr ''1000.00000000''), (''cross_chain'', JStr ''5000.00000000''),
           (''oracle_publish'', JStr ''500.00000000''), (''attestation'', JStr ''1000.00000000''),
           (''full_node'', JStr ''2000.00000000'')]"

definition sync_rows :: "gate_row list" where
  "sync_rows =
     [(''consensus-constants.ACTIVATION_DELAY_BLOCKS_BY_COIN'', ''constant'', activationDelays),
      (''consensus-constants.BTC_STAKE_CAPABILITIES'', ''constant'', stakeCapabilities),
      (''consensus-constants.GAS_TICK'', ''constant'', JStr ''XCHAIN''),
      (''consensus-constants.VALIDATOR_QUERY_LIMIT'', ''constant'', JInt 1000)]"

definition gate_registry :: "registry reg" where
  "gate_registry =
     (case registerRows createRegistry queued of
        Inl e \<Rightarrow> Inl e
      | Inr r \<Rightarrow> addGates r sync_rows)"

section \<open>Registration\<close>

definition row_ok :: "gate_row \<Rightarrow> bool" where
  "row_ok row =
     (case row of (key, utag, table) \<Rightarrow>
        KEY_RE key \<and> utag \<in> set UNITS \<and> value_ok table \<and>
        (utag = ''constant'' \<or> checkTable key utag table = Inr ()))"

lemma key_char_bits [code]:
  "key_char c = (case c of Char b0 b1 b2 b3 b4 b5 b6 b7 \<Rightarrow>
     \<not> b7 \<and> (if b6 then (b0 \<or> b1 \<or> b2 \<or> b3 \<or> b4) \<and> (\<not> (b4 \<and> b3 \<and> (b2 \<or> b1 \<and> b0)) \<or> \<not> b5 \<and> b4 \<and> b3 \<and> b2 \<and> b1 \<and> b0)
             else b5 \<and> b4 \<and> (\<not> b3 \<or> \<not> b2 \<and> \<not> b1)))"
  by (cases c) (auto simp: key_char_def is_digit_def of_char_def Let_def split: if_splits)

lemma map_pair_id: "(\<And>k v. (k, v) \<in> set fs \<Longrightarrow> f v = v) \<Longrightarrow> map (\<lambda>(k, v). (k, f v)) fs = fs"
  by (induction fs) auto

lemma frozenCopy_id [simp]: "frozenCopy v = v"
  by (induction v rule: frozenCopy.induct) (auto simp: map_idI intro: map_pair_id)

lemma mutableCopy_id [simp]: "mutableCopy v = v"
  by (induction v rule: mutableCopy.induct) (auto simp: map_idI intro: map_pair_id)

lemma addGate_ok:
  "row_ok row \<Longrightarrow> fst row \<notin> fst ` set (reg_entries r) \<Longrightarrow>
     addGate r row = Inr (r\<lparr>reg_entries := reg_entries r @ [row]\<rparr>)"
  by (cases row) (auto simp: addGate_def row_ok_def checkKey_def checkValue_def map_of_eq_None_iff)

lemma addGates_ok:
  "list_all row_ok rows \<Longrightarrow> distinct (map fst (reg_entries r @ rows)) \<Longrightarrow>
     addGates r rows = Inr (r\<lparr>reg_entries := reg_entries r @ rows\<rparr>)"
proof (induction rows arbitrary: r)
  case (Cons row rows)
  have "addGate r row = Inr (r\<lparr>reg_entries := reg_entries r @ [row]\<rparr>)"
    by (rule addGate_ok) (use Cons.prems in auto)
  with Cons show ?case by simp
qed simp

text \<open>Registration keeps every row readable under its own key, refuses a second row of the same
  key, and never reorders or drops one.\<close>

lemma addGate_entries:
  "addGate r row = Inr r' \<Longrightarrow>
     row_ok row \<and> fst row \<notin> fst ` set (reg_entries r) \<and> r' = r\<lparr>reg_entries := reg_entries r @ [row]\<rparr>"
  by (cases row)
     (auto simp: addGate_def row_ok_def checkKey_def checkValue_def map_of_eq_None_iff split: if_splits sum.splits)

section \<open>Reads through the overlay\<close>

text \<open>A read without the cache.\<close>

definition fresh_read :: "env \<Rightarrow> registry \<Rightarrow> string \<Rightarrow> jsv reg" where
  "fresh_read env r key =
     (case map_of (reg_entries r) key of
        None \<Rightarrow> Inl (RegistryMiss key)
      | Some (utag, table) \<Rightarrow>
          (if reg_overlay r then
             (case arming_rule key of
                None \<Rightarrow> Inr table
              | Some (name, rule) \<Rightarrow> map_sum id (armed rule table) (readRuleEnv name env))
           else Inr table))"

definition cache_ok :: "registry \<Rightarrow> bool" where
  "cache_ok r \<longleftrightarrow>
     (\<forall>key raw value. reg_cache r key = Some (raw, value) \<longrightarrow>
        (\<exists>name rule utag table. arming_rule key = Some (name, rule) \<and>
           map_of (reg_entries r) key = Some (utag, table) \<and> value = armed rule table raw))"

lemma reg_read_fresh:
  assumes "cache_ok r"
  shows "map_sum id fst (reg_read env r key) = fresh_read env r key"
    and "reg_read env r key = Inr (v, r') \<Longrightarrow>
      cache_ok r' \<and> reg_entries r' = reg_entries r \<and> reg_overlay r' = reg_overlay r"
proof -
  show "map_sum id fst (reg_read env r key) = fresh_read env r key"
  proof (cases "reg_cache r key")
    case None
    then show ?thesis
      by (auto simp: reg_read_def fresh_read_def armAtRead_def Let_def split: option.splits sum.splits)
  next
    case (Some hit)
    then obtain name rule utag table where
      h: "arming_rule key = Some (name, rule)" "map_of (reg_entries r) key = Some (utag, table)"
      "snd hit = armed rule table (fst hit)"
      using assms unfolding cache_ok_def by (metis prod.collapse)
    with Some show ?thesis
      by (cases hit) (auto simp: reg_read_def fresh_read_def armAtRead_def Let_def split: sum.splits if_splits)
  qed
  assume "reg_read env r key = Inr (v, r')"
  then show "cache_ok r' \<and> reg_entries r' = reg_entries r \<and> reg_overlay r' = reg_overlay r"
    using assms
    by (auto simp: reg_read_def armAtRead_def cache_ok_def Let_def
        split: option.splits sum.splits if_splits prod.splits)
qed

text \<open>A sequence of reads, the environment changing between them.\<close>

fun reg_reads :: "registry \<Rightarrow> (env \<times> string) list \<Rightarrow> jsv reg list" where
  "reg_reads r [] = []"
| "reg_reads r ((env, key) # qs) =
     (case reg_get env r key of
        Inl e \<Rightarrow> Inl e # reg_reads r qs
      | Inr (v, r') \<Rightarrow> Inr v # reg_reads r' qs)"

lemma fresh_read_cong:
  "reg_entries r' = reg_entries r \<Longrightarrow> reg_overlay r' = reg_overlay r \<Longrightarrow> fresh_read env r' key = fresh_read env r key"
  unfolding fresh_read_def by presburger

lemma reg_reads_fresh: "cache_ok r \<Longrightarrow> reg_reads r qs = map (\<lambda>(env, key). fresh_read env r key) qs"
proof (induction qs arbitrary: r)
  case (Cons q qs)
  obtain env key where q: "q = (env, key)" by fastforce
  show ?case
  proof (cases "reg_read env r key")
    case (Inl e)
    then show ?thesis using Cons reg_read_fresh(1) [OF Cons.prems, of env key] by (simp add: q reg_get_def)
  next
    case (Inr p)
    obtain v r' where p: "p = (v, r')" by fastforce
    have r': "cache_ok r'" "reg_entries r' = reg_entries r" "reg_overlay r' = reg_overlay r"
      using reg_read_fresh(2) [OF Cons.prems, of env key v r'] Inr p by auto
    with Cons.IH [of r'] show ?thesis
      using reg_read_fresh(1) [OF Cons.prems, of env key] Inr p
      by (simp add: q reg_get_def fresh_read_cong [OF r'(2,3)])
  qed
qed simp

section \<open>The activation predicate\<close>

lemma reached_int: "reached threshold (JInt h) = (\<exists>t. threshold = JNum (Fin t) \<and> t \<le> of_int h)"
  by (auto simp: reached_def JInt_def split: jsv.splits jsnum.splits)

text \<open>The threshold a row names for a network and coin.\<close>

definition threshold_of :: "jsv \<Rightarrow> string \<Rightarrow> string option \<Rightarrow> jsv" where
  "threshold_of table network coin = (case table of JObj fs \<Rightarrow> resolveThreshold fs network coin | _ \<Rightarrow> JUndef)"

lemma activeAt_fresh:
  assumes "cache_ok r" "activeAt env r key (Some nw) coin height time = Inr (b, r')"
  obtains utag table v where "map_of (reg_entries r) key = Some (utag, table)" "utag \<in> {''height'', ''epoch'', ''time''}"
    "fresh_read env r key = Inr v"
    "b = reached (threshold_of v nw coin) (if utag = ''time'' then time else height)"
proof -
  obtain utag table where row: "map_of (reg_entries r) key = Some (utag, table)"
    using assms(2) by (cases "map_of (reg_entries r) key") (auto simp: activeAt_def)
  with assms(2) have ut: "utag \<in> {''height'', ''epoch'', ''time''}" by (auto simp: activeAt_def split: if_splits)
  have nn: "reached JUndef c = False" for c by (simp add: reached_def split: jsnum.split)
  obtain v r2 where rd: "reg_read env r key = Inr (v, r2)"
    using assms(2) row ut by (cases "reg_read env r key") (auto simp: activeAt_def)
  have "fresh_read env r key = Inr v" using reg_read_fresh(1) [OF assms(1), of env key] rd by simp
  moreover have "b = reached (threshold_of v nw coin) (if utag = ''time'' then time else height)"
    using assms(2) row ut rd nn by (cases v) (auto simp: activeAt_def threshold_of_def)
  ultimately show thesis using that row ut by blast
qed

end
