(* ===== verification/Activation_Gates.thy ===== *)
theory Activation_Gates
  imports Gate_Registry
begin

text \<open>
  The gates of \<^verbatim>\<open>src/src/consensus/gates\<close>: the reserved sub-trees and the escrow leaf
  (\<^verbatim>\<open>state_subtree_gate.js\<close>), the state commitment (\<^verbatim>\<open>state_commitment_gate.js\<close>), the platform
  train (\<^verbatim>\<open>train_gate.js\<close>); and beside them the equivocation header
  (\<^verbatim>\<open>equivocation_header.js\<close>) and the burial of snapshot heights
  (\<^verbatim>\<open>snapshot_reorg_buffer.js\<close>).  Each module loads its tables from the registry when it is
  required; the tables are arguments here, and \<open>row_table\<close> reads the committed ones.
\<close>

definition row_table :: "gate_row list \<Rightarrow> string \<Rightarrow> jsv" where
  "row_table rows key = (case map_of rows key of None \<Rightarrow> JUndef | Some (_, t) \<Rightarrow> t)"

text \<open>\<^verbatim>\<open>map[key]\<close> on a table that may be absent.\<close>

definition prop_of :: "jsv \<Rightarrow> string \<Rightarrow> jsv" where
  "prop_of v k = (case v of JObj fs \<Rightarrow> own fs k | _ \<Rightarrow> JUndef)"

text \<open>\<^verbatim>\<open>b >= v\<close> for a finite number \<open>b\<close>.\<close>

definition num_ge :: "rat \<Rightarrow> jsv \<Rightarrow> bool" where
  "num_ge b v = (case js_Number v of Fin t \<Rightarrow> t \<le> b | _ \<Rightarrow> False)"

definition is_boolean :: "jsv \<Rightarrow> bool" where
  "is_boolean v = (case v of JBool _ \<Rightarrow> True | _ \<Rightarrow> False)"

section \<open>Reserved sub-trees and the escrow leaf\<close>

record subtree_tables =
  STATE_SUBTREE_ACTIVATION :: jsv
  STATE_SUBTREE_SHADOW :: jsv
  ESCROW_LOCKED_LEAF_ACTIVATION :: jsv
  ESCROW_LOCKED_LEAF_SHADOW :: jsv

definition committed_subtrees :: subtree_tables where
  "committed_subtrees =
     \<lparr>STATE_SUBTREE_ACTIVATION = row_table shared_rows_4b ''state_subtree_activation.STATE_SUBTREE_ACTIVATION'',
      STATE_SUBTREE_SHADOW = row_table shared_rows_4c ''state_subtree_activation.STATE_SUBTREE_SHADOW'',
      ESCROW_LOCKED_LEAF_ACTIVATION = row_table shared_rows_4d ''state_subtree_activation.ESCROW_LOCKED_LEAF_ACTIVATION'',
      ESCROW_LOCKED_LEAF_SHADOW = row_table shared_rows_4e ''state_subtree_activation.ESCROW_LOCKED_LEAF_SHADOW''\<rparr>"

definition RESERVED_SUBTREES :: "string list" where
  "RESERVED_SUBTREES = [''ownership_root'', ''tokens_root'', ''contract_state_root'']"

definition subtree_threshold :: "jsv \<Rightarrow> string \<Rightarrow> string option \<Rightarrow> jsv" where
  "subtree_threshold table network coin =
     (case coin of None \<Rightarrow> JUndef | Some c \<Rightarrow> prop_of table (c @ '':'' @ network))"

definition strictHeight :: "jsv \<Rightarrow> int option" where
  "strictHeight v =
     (let n = (case v of
                 JNum x \<Rightarrow> x
               | JStr s \<Rightarrow> (if s \<noteq> [] \<and> list_all is_digit s then number_text s else NaN)
               | _ \<Rightarrow> NaN)
      in case n of
           Fin q \<Rightarrow> (if q = of_int \<lfloor>q\<rfloor> \<and> 0 \<le> q then Some \<lfloor>q\<rfloor> else None)
         | _ \<Rightarrow> None)"

definition atOrAfter :: "jsv \<Rightarrow> jsv \<Rightarrow> string \<Rightarrow> string option \<Rightarrow> bool" where
  "atOrAfter table blockIndex network coin =
     (case strictHeight blockIndex of
        None \<Rightarrow> False
      | Some b \<Rightarrow>
          (case strictHeight (subtree_threshold table network coin) of
             None \<Rightarrow> False
           | Some t \<Rightarrow> b \<ge> t))"

definition isSubtreeActive :: "subtree_tables \<Rightarrow> string \<Rightarrow> jsv \<Rightarrow> string \<Rightarrow> string option \<Rightarrow> bool res" where
  "isSubtreeActive T name blockIndex network coin =
     (if name \<notin> set RESERVED_SUBTREES
      then Inl (''state_subtree_activation: unknown reserved sub-tree '' @ name)
      else Inr (atOrAfter (prop_of (STATE_SUBTREE_ACTIVATION T) name) blockIndex network coin))"

definition isSubtreeShadowActive :: "subtree_tables \<Rightarrow> string \<Rightarrow> jsv \<Rightarrow> string \<Rightarrow> string option \<Rightarrow> bool res" where
  "isSubtreeShadowActive T name blockIndex network coin =
     rbind (isSubtreeActive T name blockIndex network coin)
       (\<lambda>a. if a then Inr False
            else Inr (atOrAfter (prop_of (STATE_SUBTREE_SHADOW T) name) blockIndex network coin))"

definition isEscrowLockedLeafActive :: "subtree_tables \<Rightarrow> jsv \<Rightarrow> string \<Rightarrow> string option \<Rightarrow> bool" where
  "isEscrowLockedLeafActive T blockIndex network coin =
     atOrAfter (ESCROW_LOCKED_LEAF_ACTIVATION T) blockIndex network coin"

definition isEscrowLockedLeafShadowActive :: "subtree_tables \<Rightarrow> jsv \<Rightarrow> string \<Rightarrow> string option \<Rightarrow> bool" where
  "isEscrowLockedLeafShadowActive T blockIndex network coin =
     (if isEscrowLockedLeafActive T blockIndex network coin then False
      else atOrAfter (ESCROW_LOCKED_LEAF_SHADOW T) blockIndex network coin)"

text \<open>Candidate sub-roots are an object in property order; a null candidate is skipped before
  its name is checked.\<close>

type_synonym candidates = "(string \<times> string option) list"

fun gate_loop :: "subtree_tables \<Rightarrow> candidates \<Rightarrow> jsv \<Rightarrow> string \<Rightarrow> string option \<Rightarrow> (string \<times> string) list res" where
  "gate_loop T [] blockIndex network coin = Inr []"
| "gate_loop T ((name, v) # cs) blockIndex network coin =
     (case v of
        None \<Rightarrow> gate_loop T cs blockIndex network coin
      | Some sub \<Rightarrow>
          rbind (isSubtreeActive T name blockIndex network coin)
            (\<lambda>a. rbind (gate_loop T cs blockIndex network coin)
              (\<lambda>out. Inr (if a then (name, sub) # out else out))))"

definition gateSubRoots ::
  "subtree_tables \<Rightarrow> candidates option \<Rightarrow> jsv \<Rightarrow> string \<Rightarrow> string option \<Rightarrow> (string \<times> string) list option res" where
  "gateSubRoots T candidates blockIndex network coin =
     (case candidates of
        None \<Rightarrow> Inr None
      | Some cs \<Rightarrow>
          rbind (gate_loop T cs blockIndex network coin) (\<lambda>out. Inr (if out = [] then None else Some out)))"

definition subtree_active_at :: "subtree_tables \<Rightarrow> string \<Rightarrow> jsv \<Rightarrow> string \<Rightarrow> string option \<Rightarrow> bool" where
  "subtree_active_at T name blockIndex network coin =
     (isSubtreeActive T name blockIndex network coin = Inr True)"

definition stateRootVersion :: "subtree_tables \<Rightarrow> jsv \<Rightarrow> string \<Rightarrow> string option \<Rightarrow> nat" where
  "stateRootVersion T blockIndex network coin =
     (if list_ex (\<lambda>name. subtree_active_at T name blockIndex network coin) RESERVED_SUBTREES then 2
      else if isEscrowLockedLeafActive T blockIndex network coin then 2
      else 1)"

section \<open>The state commitment\<close>

definition STATE_COMMITMENT_ACTIVATION :: jsv where
  "STATE_COMMITMENT_ACTIVATION = row_table shared_rows_4a ''state_commitment_activation.STATE_COMMITMENT_ACTIVATION''"

definition activationThreshold :: "jsv \<Rightarrow> string \<Rightarrow> string option \<Rightarrow> jsv" where
  "activationThreshold table network coin =
     (case coin of
        None \<Rightarrow> prop_of table network
      | Some c \<Rightarrow>
          (if prop_of table (c @ '':'' @ network) \<noteq> JUndef then prop_of table (c @ '':'' @ network)
           else prop_of table network))"

definition isStateCommitmentActive :: "jsv \<Rightarrow> jsv \<Rightarrow> string \<Rightarrow> string option \<Rightarrow> bool" where
  "isStateCommitmentActive table blockIndex network coin =
     (case js_parseInt blockIndex of
        Fin b \<Rightarrow>
          (if activationThreshold table network coin = JUndef then False
           else num_ge b (activationThreshold table network coin))
      | _ \<Rightarrow> False)"

definition isStateCommitmentActivationBlock :: "jsv \<Rightarrow> jsv \<Rightarrow> string \<Rightarrow> string option \<Rightarrow> bool" where
  "isStateCommitmentActivationBlock table blockIndex network coin =
     (case js_parseInt blockIndex of
        Fin b \<Rightarrow>
          isStateCommitmentActive table (JNum (Fin b)) network coin \<and>
          \<not> isStateCommitmentActive table (JNum (Fin (b - 1))) network coin
      | _ \<Rightarrow> False)"

section \<open>The equivocation header\<close>

definition EQUIV_HEADER_ACTIVATION :: jsv where
  "EQUIV_HEADER_ACTIVATION = row_table shared_rows_2a ''equivocation_header.EQUIV_HEADER_ACTIVATION''"

definition ENGINE_TAG_CHECKPOINT :: string where
  "ENGINE_TAG_CHECKPOINT = ''XCHECKPOINT''"

text \<open>The height gates on a bare network key share one shape.\<close>

definition network_gate :: "jsv \<Rightarrow> jsv \<Rightarrow> string \<Rightarrow> bool" where
  "network_gate table snapshotBlock network =
     (case js_parseInt snapshotBlock of
        Fin sb \<Rightarrow> (if prop_of table network = JUndef then False else num_ge sb (prop_of table network))
      | _ \<Rightarrow> False)"

definition isEquivHeaderActive :: "jsv \<Rightarrow> string \<Rightarrow> bool" where
  "isEquivHeaderActive snapshotBlock network = network_gate EQUIV_HEADER_ACTIVATION snapshotBlock network"

definition equivKey :: "string \<Rightarrow> string \<Rightarrow> string \<Rightarrow> string" where
  "equivKey engineTag roundId view = engineTag @ ''|'' @ roundId @ ''|'' @ view"

definition equivPrefix :: "string \<Rightarrow> string" where
  "equivPrefix key = ''EQUIV|'' @ key @ ''||''"

definition buildEquivCanonical :: "string \<Rightarrow> string \<Rightarrow> string \<Rightarrow> string \<Rightarrow> string" where
  "buildEquivCanonical engineTag roundId view content = equivPrefix (equivKey engineTag roundId view) @ content"

section \<open>Burial of snapshot heights\<close>

definition CANONICAL_REORG_BUFFER :: int where "CANONICAL_REORG_BUFFER = 6"

definition SNAPSHOT_BURIAL_ACTIVATION :: jsv where
  "SNAPSHOT_BURIAL_ACTIVATION = row_table shared_rows_3a ''snapshot_reorg_buffer.SNAPSHOT_BURIAL_ACTIVATION''"

definition isSnapshotBurialActive :: "jsv \<Rightarrow> jsv \<Rightarrow> string \<Rightarrow> bool" where
  "isSnapshotBurialActive table snapshotBlock network =
     (if nullish snapshotBlock \<or> snapshotBlock = JStr [] \<or> is_boolean snapshotBlock then False
      else (case js_Number snapshotBlock of
              Fin sb \<Rightarrow> (if nullish (prop_of table network) then False else num_ge sb (prop_of table network))
            | _ \<Rightarrow> False))"

definition buriedSnapshotBlock :: "jsv \<Rightarrow> jsv \<Rightarrow> string \<Rightarrow> jsv" where
  "buriedSnapshotBlock table snapshotBlock network =
     (if \<not> isSnapshotBurialActive table snapshotBlock network then snapshotBlock
      else (case js_Number snapshotBlock of
              Fin sb \<Rightarrow> JInt (max 0 (\<lfloor>sb\<rfloor> - CANONICAL_REORG_BUFFER))
            | _ \<Rightarrow> snapshotBlock))"

section \<open>The platform train\<close>

text \<open>\<^verbatim>\<open>String(v)\<close> as far as a three-part version can match it: the text of a string, and of
  an array of one element that of its element; the text of anything else has no two dots.\<close>

fun version_text :: "jsv \<Rightarrow> string" where
  "version_text (JStr s) = s"
| "version_text (JArr [v]) = version_text v"
| "version_text _ = []"

definition parse_version :: "string \<Rightarrow> (nat \<times> nat \<times> nat) option" where
  "parse_version s =
     (case split_on CHR ''.'' (js_trim s) of
        [a, b, c] \<Rightarrow>
          (if a \<noteq> [] \<and> b \<noteq> [] \<and> c \<noteq> [] \<and> list_all is_digit (a @ b @ c)
           then Some (dec_val a, dec_val b, dec_val c) else None)
      | _ \<Rightarrow> None)"

definition parseRuleSetVersion :: "jsv \<Rightarrow> (nat \<times> nat \<times> nat) option" where
  "parseRuleSetVersion v = parse_version (version_text v)"

definition triple_less :: "nat \<times> nat \<times> nat \<Rightarrow> nat \<times> nat \<times> nat \<Rightarrow> bool" where
  "triple_less p q =
     (case (p, q) of ((a, b, c), (a', b', c')) \<Rightarrow>
        if a \<noteq> a' then a < a' else if b \<noteq> b' then b < b' else c < c')"

definition compareRuleSetVersions :: "string \<Rightarrow> string \<Rightarrow> int res" where
  "compareRuleSetVersions a b =
     (case parse_version a of
        None \<Rightarrow> Inl ''TRAIN_ACTIVATION: unparseable rule-set version''
      | Some pa \<Rightarrow>
          (case parse_version b of
             None \<Rightarrow> Inl ''TRAIN_ACTIVATION: unparseable rule-set version''
           | Some pb \<Rightarrow> Inr (if triple_less pa pb then - 1 else if triple_less pb pa then 1 else 0)))"

text \<open>\<^verbatim>\<open>keys.sort(compareRuleSetVersions)\<close>: a stable sort that compares every key as soon as
  there are two, so one unparseable key throws.\<close>

fun insert_version :: "string \<Rightarrow> string list \<Rightarrow> string list res" where
  "insert_version v [] = Inr [v]"
| "insert_version v (w # ws) =
     rbind (compareRuleSetVersions v w)
       (\<lambda>c. if c \<le> 0 then Inr (v # w # ws)
            else rbind (insert_version v ws) (\<lambda>r. Inr (w # r)))"

fun sort_versions :: "string list \<Rightarrow> string list res" where
  "sort_versions [] = Inr []"
| "sort_versions (v # vs) = rbind (sort_versions vs) (insert_version v)"

definition TRAIN_ACTIVATION :: jsv where
  "TRAIN_ACTIVATION = row_table shared_rows_5a ''train_activation.TRAIN_ACTIVATION''"

definition object_keys :: "jsv \<Rightarrow> string list" where
  "object_keys v = (case v of JObj fs \<Rightarrow> map fst fs | _ \<Rightarrow> [])"

definition implementedRuleSets :: "jsv \<Rightarrow> string list res" where
  "implementedRuleSets activation = sort_versions (object_keys activation)"

definition asHeight :: "jsv \<Rightarrow> rat option" where
  "asHeight v =
     (if nullish v \<or> v = JStr [] \<or> is_boolean v then None
      else (case js_Number v of Fin h \<Rightarrow> Some h | _ \<Rightarrow> None))"

definition netkey :: "string option \<Rightarrow> string" where
  "netkey network = (case network of None \<Rightarrow> ''null'' | Some n \<Rightarrow> n)"

definition activationHeightFor :: "string \<Rightarrow> string option \<Rightarrow> jsv \<Rightarrow> rat option" where
  "activationHeightFor version network activation = asHeight (prop_of (prop_of activation version) (netkey network))"

fun resolve_loop ::
  "rat \<Rightarrow> string option \<Rightarrow> jsv \<Rightarrow> string list \<Rightarrow> (string \<times> rat) option \<Rightarrow> (string \<times> rat) option res" where
  "resolve_loop h network activation [] best = Inr best"
| "resolve_loop h network activation (version # vs) best =
     (case activationHeightFor version network activation of
        None \<Rightarrow> resolve_loop h network activation vs best
      | Some ah \<Rightarrow>
          if h < ah then resolve_loop h network activation vs best
          else (case best of
                  None \<Rightarrow> resolve_loop h network activation vs (Some (version, ah))
                | Some (b, bestAt) \<Rightarrow>
                    if bestAt < ah then resolve_loop h network activation vs (Some (version, ah))
                    else if ah = bestAt then
                      rbind (compareRuleSetVersions version b)
                        (\<lambda>c. resolve_loop h network activation vs (if 0 < c then Some (version, ah) else best))
                    else resolve_loop h network activation vs best))"

definition resolveRuleSet :: "rat option \<Rightarrow> string option \<Rightarrow> jsv \<Rightarrow> string option res" where
  "resolveRuleSet height network activation =
     (case height of
        None \<Rightarrow> Inr None
      | Some h \<Rightarrow>
          rbind (implementedRuleSets activation)
            (\<lambda>vs. rbind (resolve_loop h network activation vs None) (\<lambda>b. Inr (map_option fst b))))"

datatype train_req =
    Malformed string
  | Required string jsv jsv   \<comment> \<open>\<^verbatim>\<open>ruleSetVersion\<close>, \<^verbatim>\<open>heights\<close>, \<^verbatim>\<open>classification\<close>\<close>

definition readManifestTrainActivation :: "jsv \<Rightarrow> train_req option" where
  "readManifestTrainActivation manifest =
     (case manifest of
        JObj fs \<Rightarrow>
          (case own fs ''trainActivation'' of
             JUndef \<Rightarrow> None
           | JNull \<Rightarrow> None
           | JObj block \<Rightarrow>
               (if parseRuleSetVersion (own block ''ruleSetVersion'') = None
                then Some (Malformed ''trainActivation.ruleSetVersion is not a bare X.Y.Z'')
                else if \<not> is_plain_object (own block ''heights'')
                then Some (Malformed ''trainActivation.heights is not an object'')
                else Some (Required (js_trim (version_text (own block ''ruleSetVersion'')))
                             (own block ''heights'') (own block ''classification'')))
           | _ \<Rightarrow> Some (Malformed ''trainActivation is not an object''))
      | _ \<Rightarrow> None)"

text \<open>\<^verbatim>\<open>opts.required\<close> is a record already read, a raw manifest, or absent.\<close>

datatype train_arg = NoArg | Read "train_req option" | RawManifest jsv

definition normalizeTrainRequirement :: "train_arg \<Rightarrow> jsv \<Rightarrow> train_req option" where
  "normalizeTrainRequirement required manifest =
     (case required of
        NoArg \<Rightarrow> readManifestTrainActivation manifest
      | Read r \<Rightarrow> r
      | RawManifest m \<Rightarrow> readManifestTrainActivation m)"

datatype train_status = Clear | Pending | Halt

record train_verdict =
  tv_status :: train_status
  tv_activeRuleSet :: "string option"
  tv_requiredRuleSet :: "string option"
  tv_requiredAtHeight :: "rat option"
  tv_network :: "string option"
  tv_height :: "rat option"
  tv_classification :: jsv

definition baseTrainVerdict :: "string option \<Rightarrow> string option \<Rightarrow> rat option \<Rightarrow> train_verdict" where
  "baseTrainVerdict active network clock =
     \<lparr>tv_status = Clear, tv_activeRuleSet = active, tv_requiredRuleSet = None, tv_requiredAtHeight = None,
      tv_network = network, tv_height = clock, tv_classification = JNull\<rparr>"

definition unsupportedTrainVerdict ::
  "train_verdict \<Rightarrow> string \<Rightarrow> jsv \<Rightarrow> string option \<Rightarrow> rat option \<Rightarrow> train_verdict" where
  "unsupportedTrainVerdict base wanted heights network clock =
     (case asHeight (prop_of heights (netkey network)) of
        None \<Rightarrow> base\<lparr>tv_status := Halt, tv_requiredRuleSet := Some wanted\<rparr>
      | Some ah \<Rightarrow>
          (case clock of
             None \<Rightarrow> base\<lparr>tv_status := Halt, tv_requiredRuleSet := Some wanted, tv_requiredAtHeight := Some ah\<rparr>
           | Some c \<Rightarrow>
               (if ah \<le> c
                then base\<lparr>tv_status := Halt, tv_requiredRuleSet := Some wanted, tv_requiredAtHeight := Some ah\<rparr>
                else base\<lparr>tv_status := Pending, tv_requiredRuleSet := Some wanted, tv_requiredAtHeight := Some ah\<rparr>)))"

definition evaluateTrainActivation ::
  "string option \<Rightarrow> jsv \<Rightarrow> train_arg \<Rightarrow> jsv \<Rightarrow> jsv \<Rightarrow> train_verdict res" where
  "evaluateTrainActivation network height required manifest activation =
     (let clock = asHeight height; req = normalizeTrainRequirement required manifest in
      rbind (resolveRuleSet clock network activation)
        (\<lambda>active.
           let base = baseTrainVerdict active network clock in
           case req of
             None \<Rightarrow> Inr base
           | Some (Malformed _) \<Rightarrow> Inr (base\<lparr>tv_status := Halt\<rparr>)
           | Some (Required wanted heights cls) \<Rightarrow>
               rbind (implementedRuleSets activation)
                 (\<lambda>impl.
                    let base' = base\<lparr>tv_classification := cls\<rparr> in
                    if wanted \<in> set impl then Inr base'
                    else Inr (unsupportedTrainVerdict base' wanted heights network clock))))"

section \<open>Sub-tree gates\<close>

lemma isSubtreeActive_cases:
  "isSubtreeActive T name b nw coin =
     (if name \<in> set RESERVED_SUBTREES then Inr (subtree_active_at T name b nw coin)
      else Inl (''state_subtree_activation: unknown reserved sub-tree '' @ name))"
  by (auto simp: isSubtreeActive_def subtree_active_at_def)

text \<open>The candidates that pass: present and active.\<close>

definition passing :: "subtree_tables \<Rightarrow> candidates \<Rightarrow> jsv \<Rightarrow> string \<Rightarrow> string option \<Rightarrow> (string \<times> string) list" where
  "passing T cs b nw coin =
     concat (map (\<lambda>(name, v). case v of
         Some r \<Rightarrow> if subtree_active_at T name b nw coin then [(name, r)] else [] | None \<Rightarrow> []) cs)"

lemma gate_loop_ok:
  "(\<And>name r. (name, Some r) \<in> set cs \<Longrightarrow> name \<in> set RESERVED_SUBTREES) \<Longrightarrow>
     gate_loop T cs b nw coin = Inr (passing T cs b nw coin)"
proof (induction cs)
  case (Cons c cs)
  obtain name v where c: "c = (name, v)" by fastforce
  have IH: "gate_loop T cs b nw coin = Inr (passing T cs b nw coin)" using Cons by auto
  show ?case
  proof (cases v)
    case None
    then show ?thesis using IH by (simp add: c passing_def)
  next
    case (Some r)
    then have "name \<in> set RESERVED_SUBTREES" using Cons.prems c by auto
    with IH Some show ?thesis by (simp add: c isSubtreeActive_cases passing_def)
  qed
qed (simp add: passing_def)

lemma gate_loop_throws:
  "(name, Some r) \<in> set cs \<Longrightarrow> name \<notin> set RESERVED_SUBTREES \<Longrightarrow> \<exists>e. gate_loop T cs b nw coin = Inl e"
proof (induction cs)
  case (Cons c cs)
  show ?case
  proof (cases "c = (name, Some r)")
    case True
    then show ?thesis using Cons.prems by (simp add: isSubtreeActive_cases)
  next
    case False
    then obtain e where e: "gate_loop T cs b nw coin = Inl e" using Cons by auto
    obtain n v where "c = (n, v)" by fastforce
    with e show ?thesis
      by (cases v; cases "isSubtreeActive T n b nw coin") (auto)
  qed
qed simp

lemma strictHeight_int: "strictHeight (JInt h) = (if 0 \<le> h then Some h else None)"
  by (simp add: strictHeight_def JInt_def)

lemma atOrAfter_mono:
  "atOrAfter t (JInt h) nw coin \<Longrightarrow> h \<le> h' \<Longrightarrow> atOrAfter t (JInt h') nw coin"
  by (auto simp: atOrAfter_def strictHeight_int split: option.splits if_splits)

lemma atOrAfter_needs_coin: "\<not> atOrAfter t b nw None"
  by (simp add: atOrAfter_def subtree_threshold_def strictHeight_def split: option.split)

text \<open>Only armed slots reach the state root: the gate returns exactly the present candidates
  whose slot is active at the height, in order, and nothing when there is none; a present
  candidate under an unknown slot name throws; and a slot active at a height stays active.\<close>

theorem gateSubRoots_exact:
  "((\<forall>(name, v) \<in> set cs. v \<noteq> None \<longrightarrow> name \<in> set RESERVED_SUBTREES) \<longrightarrow>
      gateSubRoots T (Some cs) b nw coin =
        Inr (if passing T cs b nw coin = [] then None else Some (passing T cs b nw coin)))
   \<and> ((\<exists>(name, v) \<in> set cs. v \<noteq> None \<and> name \<notin> set RESERVED_SUBTREES) \<longrightarrow>
      (\<exists>e. gateSubRoots T (Some cs) b nw coin = Inl e))
   \<and> (h \<le> h' \<longrightarrow> subtree_active_at T name (JInt h) nw coin \<longrightarrow> subtree_active_at T name (JInt h') nw coin)"
proof (intro conjI impI)
  assume "\<forall>(name, v) \<in> set cs. v \<noteq> None \<longrightarrow> name \<in> set RESERVED_SUBTREES"
  then have "gate_loop T cs b nw coin = Inr (passing T cs b nw coin)" by (intro gate_loop_ok) auto
  then show "gateSubRoots T (Some cs) b nw coin =
      Inr (if passing T cs b nw coin = [] then None else Some (passing T cs b nw coin))"
    by (simp add: gateSubRoots_def)
next
  assume "\<exists>(name, v) \<in> set cs. v \<noteq> None \<and> name \<notin> set RESERVED_SUBTREES"
  then obtain n r where "(n, Some r) \<in> set cs" "n \<notin> set RESERVED_SUBTREES" by auto
  then show "\<exists>e. gateSubRoots T (Some cs) b nw coin = Inl e"
    using gate_loop_throws [of n r cs T b nw coin] by (auto simp: gateSubRoots_def)
next
  assume "h \<le> h'" "subtree_active_at T name (JInt h) nw coin"
  then show "subtree_active_at T name (JInt h') nw coin"
    using atOrAfter_mono by (auto simp: subtree_active_at_def isSubtreeActive_def split: if_splits)
qed

lemma committed_subtrees_eq:
  "committed_subtrees =
     \<lparr>STATE_SUBTREE_ACTIVATION = JObj [(''ownership_root'', JObj []), (''tokens_root'', JObj []),
        (''contract_state_root'', JObj [(''BTC:regtest'', JInt 10000), (''BTC:testnet'', JInt 0),
           (''LTC:testnet'', JInt 0), (''DOGE:testnet'', JInt 0)])],
      STATE_SUBTREE_SHADOW = JObj [(''ownership_root'', JObj []), (''tokens_root'', JObj []), (''contract_state_root'', JObj [])],
      ESCROW_LOCKED_LEAF_ACTIVATION = JObj [(''BTC:regtest'', JInt 11200), (''BTC:testnet'', JInt 0),
           (''LTC:testnet'', JInt 0), (''DOGE:testnet'', JInt 0)],
      ESCROW_LOCKED_LEAF_SHADOW = JObj []\<rparr>"
  by (simp add: committed_subtrees_def row_table_def shared_rows_4b_def shared_rows_4c_def shared_rows_4d_def shared_rows_4e_def)

lemma gateSubRoots_exact_witness:
  "gateSubRoots committed_subtrees (Some [(''tokens_root'', Some ''aa''), (''contract_state_root'', Some ''bb'')])
     (JInt 10000) ''regtest'' (Some ''BTC'') = Inr (Some [(''contract_state_root'', ''bb'')])
   \<and> (\<exists>e. gateSubRoots committed_subtrees (Some [(''escrow_root'', Some ''aa'')]) (JInt 10000) ''regtest'' (Some ''BTC'') = Inl e)"
proof
  have "\<forall>(name, v) \<in> set [(''tokens_root'', Some ''aa''), (''contract_state_root'', Some ''bb'')].
      v \<noteq> None \<longrightarrow> name \<in> set RESERVED_SUBTREES" by (simp add: RESERVED_SUBTREES_def)
  moreover have "passing committed_subtrees [(''tokens_root'', Some ''aa''), (''contract_state_root'', Some ''bb'')]
      (JInt 10000) ''regtest'' (Some ''BTC'') = [(''contract_state_root'', ''bb'')]"
    by (simp add: passing_def subtree_active_at_def isSubtreeActive_def RESERVED_SUBTREES_def committed_subtrees_eq
        prop_of_def own_def atOrAfter_def subtree_threshold_def strictHeight_int strictHeight_def [of JUndef])
  ultimately show "gateSubRoots committed_subtrees (Some [(''tokens_root'', Some ''aa''), (''contract_state_root'', Some ''bb'')])
     (JInt 10000) ''regtest'' (Some ''BTC'') = Inr (Some [(''contract_state_root'', ''bb'')])"
    using gateSubRoots_exact [of "[(''tokens_root'', Some ''aa''), (''contract_state_root'', Some ''bb'')]" committed_subtrees]
    by simp
  show "\<exists>e. gateSubRoots committed_subtrees (Some [(''escrow_root'', Some ''aa'')]) (JInt 10000) ''regtest'' (Some ''BTC'') = Inl e"
    using gateSubRoots_exact [of "[(''escrow_root'', Some ''aa'')]" committed_subtrees] by (simp add: RESERVED_SUBTREES_def)
qed

section \<open>The equivocation header\<close>

text \<open>A key that is opaque but unambiguous: it has no empty field.\<close>

definition no_double_bar :: "string \<Rightarrow> bool" where
  "no_double_bar key = (\<forall>i. Suc i < length key \<longrightarrow> \<not> (key ! i = CHR ''|'' \<and> key ! Suc i = CHR ''|''))"

lemma bars_boundary:
  assumes eq: "k1 @ ''||'' @ c1 = k2 @ ''||'' @ c2"
    and k: "no_double_bar k1" "no_double_bar k2" "last k1 \<noteq> CHR ''|''" "last k2 \<noteq> CHR ''|''" "k1 \<noteq> []" "k2 \<noteq> []"
  shows "k1 = k2 \<and> c1 = c2"
proof -
  have shorter: False if *: "k1 @ ''||'' @ c1 = k2 @ ''||'' @ c2" "length k1 < length k2"
      "no_double_bar k2" "last k2 \<noteq> CHR ''|''" for k1 k2 c1 c2
  proof -
    let ?n = "length k1"
    have at0: "k2 ! ?n = CHR ''|''"
      using arg_cong [OF *(1), of "\<lambda>s. s ! ?n"] *(2) by (simp add: nth_append)
    show False
    proof (cases "Suc ?n < length k2")
      case True
      then have "k2 ! Suc ?n = CHR ''|''"
        using arg_cong [OF *(1), of "\<lambda>s. s ! Suc ?n"] by (simp add: nth_append)
      then show False using at0 True *(3) unfolding no_double_bar_def by blast
    next
      case False
      then have "length k2 = Suc ?n" using *(2) by simp
      then have "last k2 = k2 ! ?n" by (cases k2 rule: rev_cases) (simp_all add: nth_append)
      then show False using at0 *(4) by simp
    qed
  qed
  have "length k1 = length k2"
    using shorter [OF eq _ k(2,4)] shorter [OF eq [symmetric] _ k(1,3)] by (cases "length k1" "length k2" rule: linorder_cases) auto
  then show ?thesis using eq by simp
qed

text \<open>The equivocation header separates rounds from content: two canonical messages are equal
  only when engine key and content are both equal, provided the keys have no empty field;
  so a message carries one key, and two messages of one key with different content differ.\<close>

theorem equiv_canonical_binding:
  assumes "no_double_bar (equivKey t1 r1 v1)" "no_double_bar (equivKey t2 r2 v2)"
    and "last (equivKey t1 r1 v1) \<noteq> CHR ''|''" "last (equivKey t2 r2 v2) \<noteq> CHR ''|''"
  shows "buildEquivCanonical t1 r1 v1 c1 = buildEquivCanonical t2 r2 v2 c2 \<longleftrightarrow>
    equivKey t1 r1 v1 = equivKey t2 r2 v2 \<and> c1 = c2"
  using bars_boundary [of "equivKey t1 r1 v1" c1 "equivKey t2 r2 v2" c2] assms
  by (auto simp: buildEquivCanonical_def equivPrefix_def equivKey_def)

lemma equiv_canonical_binding_witness:
  "buildEquivCanonical ''XCHECKPOINT'' ''BTC|mainnet|7|1'' ''0'' ''a'' \<noteq>
   buildEquivCanonical ''XCHECKPOINT'' ''BTC|mainnet|7|1'' ''0'' ''b''"
proof -
  have "no_double_bar (equivKey ''XCHECKPOINT'' ''BTC|mainnet|7|1'' ''0'')"
    by (simp add: no_double_bar_def equivKey_def nth_Cons split: nat.split)
  then show ?thesis
    using equiv_canonical_binding [of "''XCHECKPOINT''" "''BTC|mainnet|7|1''" "''0''" "''XCHECKPOINT''" "''BTC|mainnet|7|1''" "''0''" "''a''" "''b''"]
    by (simp add: equivKey_def)
qed


section \<open>The platform train\<close>

lemma compare_ok:
  "parse_version a = Some pa \<Longrightarrow> parse_version b = Some pb \<Longrightarrow> \<exists>c. compareRuleSetVersions a b = Inr c"
  by (simp add: compareRuleSetVersions_def)

lemma insert_version_ok:
  "parse_version v \<noteq> None \<Longrightarrow> \<forall>w \<in> set ws. parse_version w \<noteq> None \<Longrightarrow>
     \<exists>r. insert_version v ws = Inr r \<and> set r = insert v (set ws)"
proof (induction ws)
  case (Cons w ws)
  then obtain r where r: "insert_version v ws = Inr r" "set r = insert v (set ws)" by auto
  obtain c where "compareRuleSetVersions v w = Inr c" using Cons.prems compare_ok by fastforce
  with r show ?case by auto
qed simp

lemma sort_versions_ok:
  "\<forall>v \<in> set vs. parse_version v \<noteq> None \<Longrightarrow> \<exists>r. sort_versions vs = Inr r \<and> set r = set vs"
proof (induction vs)
  case (Cons v vs)
  then obtain r where r: "sort_versions vs = Inr r" "set r = set vs" by auto
  obtain r' where "insert_version v r = Inr r'" "set r' = insert v (set r)"
    using insert_version_ok [of v r] Cons.prems r by auto
  with r show ?case by simp
qed simp

definition versions_parse :: "jsv \<Rightarrow> bool" where
  "versions_parse activation = (\<forall>v \<in> set (object_keys activation). parse_version v \<noteq> None)"

lemma implementedRuleSets_ok:
  "versions_parse activation \<Longrightarrow> \<exists>vs. implementedRuleSets activation = Inr vs \<and> set vs = set (object_keys activation)"
  unfolding versions_parse_def implementedRuleSets_def by (rule sort_versions_ok)

text \<open>What a finished loop holds: an entry reached at \<open>h\<close> that no entry seen reached later.\<close>

definition latest_of ::
  "rat \<Rightarrow> string option \<Rightarrow> jsv \<Rightarrow> string set \<Rightarrow> (string \<times> rat) option \<Rightarrow> bool" where
  "latest_of h nw act V r =
     (case r of
        None \<Rightarrow> \<forall>v \<in> V. \<forall>a. activationHeightFor v nw act = Some a \<longrightarrow> h < a
      | Some (b, a) \<Rightarrow> b \<in> V \<and> activationHeightFor b nw act = Some a \<and> a \<le> h \<and>
          (\<forall>v \<in> V. \<forall>a'. activationHeightFor v nw act = Some a' \<longrightarrow> a' \<le> h \<longrightarrow> a' \<le> a))"

lemma latest_of_skip:
  "latest_of h nw act V r \<Longrightarrow> (\<And>a. activationHeightFor v nw act = Some a \<Longrightarrow> h < a) \<Longrightarrow> latest_of h nw act (insert v V) r"
  by (auto simp: latest_of_def split: option.splits)

lemma latest_of_first:
  "latest_of h nw act V None \<Longrightarrow> activationHeightFor v nw act = Some a \<Longrightarrow> a \<le> h \<Longrightarrow> latest_of h nw act (insert v V) (Some (v, a))"
  by (auto simp: latest_of_def)

lemma latest_of_take:
  "latest_of h nw act V (Some (b, ba)) \<Longrightarrow> activationHeightFor v nw act = Some a \<Longrightarrow> a \<le> h \<Longrightarrow> ba \<le> a \<Longrightarrow>
     latest_of h nw act (insert v V) (Some (v, a))"
  by (fastforce simp: latest_of_def)

lemma latest_of_keep:
  "latest_of h nw act V (Some (b, ba)) \<Longrightarrow> activationHeightFor v nw act = Some a \<Longrightarrow> a \<le> ba \<Longrightarrow>
     latest_of h nw act (insert v V) (Some (b, ba))"
  by (auto simp: latest_of_def)

lemma resolve_loop_latest:
  assumes "\<forall>v \<in> set vs. parse_version v \<noteq> None" "\<forall>v \<in> V. parse_version v \<noteq> None" "latest_of h nw act V best"
  shows "\<exists>r. resolve_loop h nw act vs best = Inr r \<and> latest_of h nw act (V \<union> set vs) r"
  using assms
proof (induction vs arbitrary: V best)
  case (Cons v vs)
  have pv: "\<forall>w \<in> insert v V. parse_version w \<noteq> None" "\<forall>w \<in> set vs. parse_version w \<noteq> None" using Cons.prems by auto
  have go: "\<exists>r. resolve_loop h nw act (v # vs) best = Inr r \<and> latest_of h nw act (V \<union> set (v # vs)) r"
    if "resolve_loop h nw act (v # vs) best = resolve_loop h nw act vs best'" "latest_of h nw act (insert v V) best'" for best'
    using Cons.IH [OF pv(2,1) that(2)] that(1) by auto
  show ?case
  proof (cases "activationHeightFor v nw act")
    case None
    then show ?thesis using Cons.prems(3) by (intro go) (auto intro: latest_of_skip)
  next
    case (Some a)
    show ?thesis
    proof (cases "h < a")
      case True
      then show ?thesis using Some Cons.prems(3) by (intro go) (auto intro: latest_of_skip)
    next
      case False
      show ?thesis
      proof (cases best)
        case None
        then show ?thesis using Some False Cons.prems(3) by (intro go) (auto intro: latest_of_first)
      next
        case (Some p)
        obtain b ba where p: "p = (b, ba)" by fastforce
        have "b \<in> V" using Cons.prems(3) Some p by (auto simp: latest_of_def)
        then obtain c where c: "compareRuleSetVersions v b = Inr c"
          using Cons.prems(2) pv compare_ok by (metis insertCI option.exhaust)
        show ?thesis
          by (rule go [of "if ba < a \<or> a = ba \<and> 0 < c then Some (v, a) else best"])
             (use \<open>activationHeightFor v nw act = Some a\<close> False Some p c Cons.prems(3) in
               \<open>auto intro: latest_of_take latest_of_keep\<close>)
      qed
    qed
  qed
qed auto

text \<open>The active rule set is the latest one reached: with parseable versions the resolution
  always returns; it returns nothing exactly when no entry has been reached at the height,
  and otherwise an entry of the map reached at the height such that no reached entry
  activates later.\<close>

theorem resolveRuleSet_latest:
  assumes "versions_parse activation"
  shows "\<exists>r. resolveRuleSet (Some h) network activation = Inr r \<and>
    (case r of
       None \<Rightarrow> \<forall>v \<in> set (object_keys activation). \<forall>a. activationHeightFor v network activation = Some a \<longrightarrow> h < a
     | Some b \<Rightarrow> b \<in> set (object_keys activation) \<and>
         (\<exists>a. activationHeightFor b network activation = Some a \<and> a \<le> h \<and>
            (\<forall>v \<in> set (object_keys activation). \<forall>a'. activationHeightFor v network activation = Some a' \<longrightarrow> a' \<le> h \<longrightarrow> a' \<le> a)))"
proof -
  obtain vs where vs: "implementedRuleSets activation = Inr vs" "set vs = set (object_keys activation)"
    using implementedRuleSets_ok [OF assms] by blast
  obtain r where r: "resolve_loop h network activation vs None = Inr r"
    "latest_of h network activation (set (object_keys activation)) r"
    using resolve_loop_latest [of vs "{}" h network activation None] assms vs
    by (auto simp: versions_parse_def latest_of_def)
  then show ?thesis
    using vs by (intro exI [of _ "map_option fst r"]) (auto simp: resolveRuleSet_def latest_of_def split: option.splits)
qed

text \<open>A build never applies a block past a boundary it does not implement: with parseable
  versions the pre-apply verdict is always computed; an unreadable manifest block halts; and
  when the manifest requires a rule set the build does not carry, the verdict is a halt
  unless the clock and the boundary are both known and the boundary is still ahead, in
  which case it is pending.\<close>

theorem train_halts_at_boundary:
  assumes "versions_parse activation"
  shows "\<exists>v. evaluateTrainActivation network height required manifest activation = Inr v \<and>
    (case normalizeTrainRequirement required manifest of
       None \<Rightarrow> tv_status v = Clear
     | Some (Malformed _) \<Rightarrow> tv_status v = Halt
     | Some (Required wanted heights _) \<Rightarrow>
         if wanted \<in> set (object_keys activation) then tv_status v = Clear
         else (case (asHeight height, asHeight (prop_of heights (netkey network))) of
                 (Some c, Some a) \<Rightarrow> tv_status v = (if c < a then Pending else Halt)
               | _ \<Rightarrow> tv_status v = Halt))"
proof -
  obtain vs where vs: "implementedRuleSets activation = Inr vs" "set vs = set (object_keys activation)"
    using implementedRuleSets_ok [OF assms] by blast
  have "\<exists>a. resolveRuleSet (asHeight height) network activation = Inr a"
  proof (cases "asHeight height")
    case (Some h)
    obtain r where "resolve_loop h network activation vs None = Inr r"
      using resolve_loop_latest [of vs "{}" h network activation None] assms vs by (auto simp: versions_parse_def latest_of_def)
    with Some vs show ?thesis by (simp add: resolveRuleSet_def)
  qed (simp add: resolveRuleSet_def)
  then obtain a where "resolveRuleSet (asHeight height) network activation = Inr a" by blast
  with vs show ?thesis
    by (auto simp: evaluateTrainActivation_def Let_def baseTrainVerdict_def unsupportedTrainVerdict_def
        split: option.splits train_req.splits)
qed

definition sample_train :: jsv where
  "sample_train = JObj [(''1.0.0'', JObj [(''mainnet'', JInt 0)]), (''2.0.0'', JObj [(''mainnet'', JInt 100)])]"

definition sample_manifest :: jsv where
  "sample_manifest = JObj [(''trainActivation'',
     JObj [(''ruleSetVersion'', JStr ''3.0.0''), (''heights'', JObj [(''mainnet'', JInt 500)])])]"

lemma sample_train_parses: "versions_parse sample_train"
  by code_simp

lemma resolveRuleSet_latest_witness:
  "\<exists>r. resolveRuleSet (Some 150) (Some ''mainnet'') sample_train = Inr r \<and> r \<noteq> None"
proof -
  have "activationHeightFor ''1.0.0'' (Some ''mainnet'') sample_train = Some 0"
    by (simp add: activationHeightFor_def sample_train_def prop_of_def own_def netkey_def asHeight_def JInt_def
        nullish_def is_boolean_def)
  moreover have "''1.0.0'' \<in> set (object_keys sample_train)" by (simp add: sample_train_def object_keys_def)
  ultimately show ?thesis
    using resolveRuleSet_latest [OF sample_train_parses, of 150 "Some ''mainnet''"]
    by (fastforce split: option.splits)
qed

lemma train_halts_at_boundary_witness:
  "\<exists>v. evaluateTrainActivation (Some ''mainnet'') (JInt 500) NoArg sample_manifest sample_train = Inr v \<and> tv_status v = Halt"
proof -
  have "normalizeTrainRequirement NoArg sample_manifest =
      Some (Required ''3.0.0'' (JObj [(''mainnet'', JInt 500)]) JUndef)"
    by code_simp
  moreover have "''3.0.0'' \<notin> set (object_keys sample_train)" by (simp add: sample_train_def object_keys_def)
  moreover have "asHeight (JInt 500) = Some 500" "asHeight (prop_of (JObj [(''mainnet'', JInt 500)]) (netkey (Some ''mainnet''))) = Some 500"
    by (simp_all add: prop_of_def own_def netkey_def asHeight_def JInt_def nullish_def is_boolean_def)
  ultimately show ?thesis
    using train_halts_at_boundary [OF sample_train_parses, of "Some ''mainnet''" "JInt 500" NoArg sample_manifest] by simp
qed

end
