(* ===== verification/State_Commitment.thy ===== *)
theory State_Commitment
  imports Journaled_Leaves Fixed_Merkle Activation_Gates "HOL-Library.List_Lexorder" "HOL-Library.Char_ord"
begin

text \<open>
  The roots a follower computes for a block: \<^verbatim>\<open>src/src/contract_state_subtree.js\<close>,
  \<^verbatim>\<open>src/src/escrow_leaf_subtree.js\<close> and the second half of
  \<^verbatim>\<open>src/src/state_commitment/index.js\<close>.  The tables the queries read are lists of rows; the database
  compares text by octets and numbers by value.  \<open>cast\<close> is the server's
  \<^verbatim>\<open>CAST(amount AS DECIMAL(60,18))\<close>, an integer count of $10^{-18}$ units, and the results of two
  larger queries (stake weights, leaf rows of the block) are arguments.
\<close>

section \<open>The replica\<close>

record contract_state_row =
  cs_id :: nat
  cs_block :: int
  cs_contract :: nat
  cs_key :: string
  cs_value :: "string option"

record escrow_row =
  ej_id :: nat
  ej_block :: int
  ej_address :: nat
  ej_tick :: nat
  ej_locked :: "string option"

record amount_row =
  am_address :: nat
  am_tick :: nat
  am_amount :: string

record roots_row =
  rr_chain :: string
  rr_network :: string
  rr_block :: int
  rr_balances :: string
  rr_stakes :: string
  rr_state :: string
  rr_block_merkle :: string
  rr_contract_state :: "string option"
  rr_contract_shadow :: "string option"
  rr_escrow_shadow :: "string option"

record replica =
  rp_nodes :: node_table
  rp_contract_state :: "contract_state_row list"
  rp_escrow :: "escrow_row list"
  rp_credits :: "amount_row list"
  rp_debits :: "amount_row list"
  rp_addresses :: "(nat \<times> string) list"
  rp_tickers :: "(nat \<times> string) list"
  rp_roots :: "roots_row list"

text \<open>\<^verbatim>\<open>ORDER BY id DESC LIMIT 1\<close>.\<close>

definition newest :: "('r \<Rightarrow> nat) \<Rightarrow> 'r list \<Rightarrow> 'r option" where
  "newest idf rows =
     (case rows of [] \<Rightarrow> None | r # rs \<Rightarrow> Some (foldl (\<lambda>m r. if idf m < idf r then r else m) r rs))"

text \<open>The join with \<^verbatim>\<open>SELECT MAX(id) ... GROUP BY\<close>.\<close>

definition latest_rows :: "('r \<Rightarrow> nat) \<Rightarrow> ('r \<Rightarrow> 'g) \<Rightarrow> 'r list \<Rightarrow> 'r list" where
  "latest_rows idf grp rows = filter (\<lambda>r. list_all (\<lambda>r'. grp r' = grp r \<longrightarrow> idf r' \<le> idf r) rows) rows"

text \<open>\<^verbatim>\<open>(prior.length && prior[0].r) ? String(prior[0].r) : null\<close>: an empty text is falsy.\<close>

definition truthy :: "string option \<Rightarrow> string option" where
  "truthy r = (case r of None \<Rightarrow> None | Some s \<Rightarrow> if s = [] then None else Some s)"

definition roots_at :: "replica \<Rightarrow> string \<Rightarrow> string \<Rightarrow> int \<Rightarrow> roots_row option" where
  "roots_at db chain network b =
     find (\<lambda>r. rr_chain r = chain \<and> rr_network r = network \<and> rr_block r = b) (rp_roots db)"

section \<open>Contract state\<close>

definition contractStateLeaf :: "hash_fn \<Rightarrow> string option \<Rightarrow> string option" where
  "contractStateLeaf H stateValue = map_option (\<lambda>v. hexenc (leafHash H v)) stateValue"

definition touchedContractStateKeys :: "replica \<Rightarrow> int \<Rightarrow> (nat \<times> string) list" where
  "touchedContractStateKeys db blockIndex =
     remdups (map (\<lambda>r. (cs_contract r, cs_key r)) (filter (\<lambda>r. cs_block r = blockIndex) (rp_contract_state db)))"

definition latestStateValue :: "replica \<Rightarrow> nat \<Rightarrow> string \<Rightarrow> string option" where
  "latestStateValue db contractIndex stateKey =
     (case newest cs_id (filter (\<lambda>r. cs_contract r = contractIndex \<and> cs_key r = stateKey) (rp_contract_state db)) of
        None \<Rightarrow> None
      | Some r \<Rightarrow> cs_value r)"

text \<open>A loop of \<^verbatim>\<open>smt.update\<close> calls: the updates are computed, any of which may throw, and threaded
  through the node table.\<close>

definition update_all ::
  "hash_fn \<Rightarrow> replica \<Rightarrow> string \<Rightarrow> (octets \<times> string option) list \<Rightarrow> replica \<times> string" where
  "update_all H db start us =
     (let (nodes, r) = psmt_run H db_ops (rp_nodes db) start us in (db\<lparr>rp_nodes := nodes\<rparr>, r))"

definition contract_update ::
  "hash_fn \<Rightarrow> string \<Rightarrow> string \<Rightarrow> nat \<Rightarrow> string \<Rightarrow> string option \<Rightarrow> (octets \<times> string option) res" where
  "contract_update H chain network c k leaf =
     rbind (contractStateKey H chain network c k) (\<lambda>key. Inr (key, leaf))"

definition buildFullContractStateRoot ::
  "hash_fn \<Rightarrow> replica \<Rightarrow> string \<Rightarrow> string \<Rightarrow> (replica \<times> string) res" where
  "buildFullContractStateRoot H db chain network =
     (let rows = latest_rows cs_id (\<lambda>r. (cs_contract r, cs_key r)) (rp_contract_state db);
          kept = filter (\<lambda>r. contractStateLeaf H (cs_value r) \<noteq> None) rows
      in rbind (rtraverse (\<lambda>r. contract_update H chain network (cs_contract r) (cs_key r)
                                 (contractStateLeaf H (cs_value r))) kept)
           (\<lambda>us. Inr (update_all H db (EMPTY_ROOT_HEX H) us)))"

definition resolveContractStateRoot ::
  "hash_fn \<Rightarrow> replica \<Rightarrow> string \<Rightarrow> string \<Rightarrow> int \<Rightarrow> bool \<Rightarrow> (replica \<times> string) res" where
  "resolveContractStateRoot H db chain network blockIndex shadow =
     (let prior = roots_at db chain network (blockIndex - 1);
          column = (case prior of None \<Rightarrow> None
                    | Some r \<Rightarrow> if shadow then rr_contract_shadow r else rr_contract_state r)
      in case truthy column of
           None \<Rightarrow> buildFullContractStateRoot H db chain network
         | Some priorRoot \<Rightarrow>
             rbind (rtraverse (\<lambda>(c, k). contract_update H chain network c k
                                          (contractStateLeaf H (latestStateValue db c k)))
                      (touchedContractStateKeys db blockIndex))
               (\<lambda>us. Inr (update_all H db priorRoot us)))"

section \<open>Escrow leaves\<close>

definition ZERO_CANON :: string where
  "ZERO_CANON = (case canonicalAmount ''0'' of Inr z \<Rightarrow> z | Inl _ \<Rightarrow> [])"

definition escrowLeaf :: "hash_fn \<Rightarrow> string option \<Rightarrow> string option res" where
  "escrowLeaf H lockedAmount =
     (case lockedAmount of
        None \<Rightarrow> Inr None
      | Some s \<Rightarrow>
          if s = [] then Inr None
          else rbind (canonicalAmount s)
                 (\<lambda>canon. Inr (if canon = ZERO_CANON then None else Some (hexenc (leafHash H canon)))))"

text \<open>The inner joins with \<^verbatim>\<open>index_addresses\<close> and \<^verbatim>\<open>index_tickers\<close>, whose ids are primary keys.\<close>

definition names_of :: "replica \<Rightarrow> nat \<times> nat \<Rightarrow> (string \<times> string) option" where
  "names_of db ids =
     (case (map_of (rp_addresses db) (fst ids), map_of (rp_tickers db) (snd ids)) of
        (Some a, Some t) \<Rightarrow> Some (a, t)
      | _ \<Rightarrow> None)"

abbreviation ej_names :: "replica \<Rightarrow> escrow_row \<Rightarrow> (string \<times> string) option" where
  "ej_names db r \<equiv> names_of db (ej_address r, ej_tick r)"

abbreviation am_names :: "replica \<Rightarrow> amount_row \<Rightarrow> (string \<times> string) option" where
  "am_names db r \<equiv> names_of db (am_address r, am_tick r)"

definition touchedEscrowKeys :: "replica \<Rightarrow> int \<Rightarrow> (string \<times> string) list" where
  "touchedEscrowKeys db blockIndex =
     remdups (List.map_filter (ej_names db) (filter (\<lambda>r. ej_block r = blockIndex) (rp_escrow db)))"

definition latestLockedAmount :: "replica \<Rightarrow> string \<Rightarrow> string \<Rightarrow> int option \<Rightarrow> string option" where
  "latestLockedAmount db address tick asOfBlock =
     (case newest ej_id (filter (\<lambda>r. ej_names db r = Some (address, tick)
                                   \<and> (case asOfBlock of None \<Rightarrow> True | Some h \<Rightarrow> ej_block r \<le> h)) (rp_escrow db)) of
        None \<Rightarrow> None
      | Some r \<Rightarrow> ej_locked r)"

definition liveEscrowLeaves :: "hash_fn \<Rightarrow> replica \<Rightarrow> ((string \<times> string) \<times> string) list res" where
  "liveEscrowLeaves H db =
     (let rows = latest_rows ej_id (\<lambda>r. (ej_address r, ej_tick r)) (rp_escrow db);
          joined = List.map_filter (\<lambda>r. map_option (\<lambda>n. (n, ej_locked r)) (ej_names db r)) rows
      in rbind (rtraverse (\<lambda>(n, locked). rbind (escrowLeaf H locked) (\<lambda>leaf. Inr (n, leaf))) joined)
           (\<lambda>out. Inr (List.map_filter (\<lambda>(n, leaf). map_option (Pair n) leaf) out)))"

definition escrow_update ::
  "hash_fn \<Rightarrow> string \<Rightarrow> string \<Rightarrow> string \<times> string \<Rightarrow> string option \<Rightarrow> (octets \<times> string option) res" where
  "escrow_update H chain network n leaf =
     rbind (escrowKey H chain network (fst n) (snd n)) (\<lambda>key. Inr (key, leaf))"

definition applyEscrowLeaves ::
  "hash_fn \<Rightarrow> replica \<Rightarrow> string \<Rightarrow> string \<Rightarrow> string \<Rightarrow> int \<Rightarrow> (replica \<times> string) res" where
  "applyEscrowLeaves H db start chain network blockIndex =
     rbind (rtraverse (\<lambda>n. rbind (escrowLeaf H (latestLockedAmount db (fst n) (snd n) None))
                             (escrow_update H chain network n))
              (touchedEscrowKeys db blockIndex))
       (\<lambda>us. Inr (update_all H db start us))"

definition resolveShadowBalancesRoot ::
  "hash_fn \<Rightarrow> replica \<Rightarrow> string \<Rightarrow> string \<Rightarrow> int \<Rightarrow> (octets \<times> string option) list option
   \<Rightarrow> (replica \<Rightarrow> (replica \<times> string) res) \<Rightarrow> (replica \<times> string) res" where
  "resolveShadowBalancesRoot H db chain network blockIndex balanceUpdates fullBuild =
     (let column = (case roots_at db chain network (blockIndex - 1) of None \<Rightarrow> None | Some r \<Rightarrow> rr_escrow_shadow r)
      in case (truthy column, balanceUpdates) of
           (Some priorRoot, Some us) \<Rightarrow>
             (let (db', r) = update_all H db priorRoot us in applyEscrowLeaves H db' r chain network blockIndex)
         | _ \<Rightarrow> fullBuild db)"

section \<open>Balances\<close>

text \<open>\<^verbatim>\<open>CAST(x AS CHAR)\<close> of a DECIMAL with 18 decimals, and the trim of \<^verbatim>\<open>minimalDecimal\<close>.\<close>

definition decimal_char :: "int \<Rightarrow> string" where
  "decimal_char v = (if v < 0 then CHR ''-'' # canon_text (nat (- v)) else canon_text (nat v))"

definition trim_trailing :: "char \<Rightarrow> string \<Rightarrow> string" where
  "trim_trailing c s = rev (dropWhile (\<lambda>d. d = c) (rev s))"

definition minimalDecimal :: "int \<Rightarrow> string" where
  "minimalDecimal v = trim_trailing (CHR ''.'') (trim_trailing (CHR ''0'') (decimal_char v))"

definition leafOrNull :: "hash_fn \<Rightarrow> string \<Rightarrow> string option res" where
  "leafOrNull H amountStr =
     rbind (canonicalAmount amountStr)
       (\<lambda>canon. Inr (if canon = ZERO_CANON then None else Some (hexenc (leafHash H canon))))"

definition sum_amounts :: "(string \<Rightarrow> int) \<Rightarrow> amount_row list \<Rightarrow> int" where
  "sum_amounts cast rows = (\<Sum>r \<leftarrow> rows. cast (am_amount r))"

definition getNetBalance :: "(string \<Rightarrow> int) \<Rightarrow> replica \<Rightarrow> string \<Rightarrow> string \<Rightarrow> string" where
  "getNetBalance cast db address tick =
     minimalDecimal
       (sum_amounts cast (filter (\<lambda>c. am_names db c = Some (address, tick)) (rp_credits db)) -
        sum_amounts cast (filter (\<lambda>d. am_names db d = Some (address, tick)) (rp_debits db)))"

text \<open>The grouped query of \<^verbatim>\<open>buildFullBalancesRoot\<close>: per id pair with an index row, the non-zero sums.\<close>

definition net_by_ids :: "(string \<Rightarrow> int) \<Rightarrow> replica \<Rightarrow> nat \<times> nat \<Rightarrow> int" where
  "net_by_ids cast db ids =
     sum_amounts cast (filter (\<lambda>c. (am_address c, am_tick c) = ids) (rp_credits db)) -
     sum_amounts cast (filter (\<lambda>d. (am_address d, am_tick d) = ids) (rp_debits db))"

definition grouped_balances :: "(string \<Rightarrow> int) \<Rightarrow> replica \<Rightarrow> ((string \<times> string) \<times> string) list" where
  "grouped_balances cast db =
     List.map_filter
       (\<lambda>ids. if net_by_ids cast db ids = 0 then None
              else map_option (\<lambda>n. (n, decimal_char (net_by_ids cast db ids))) (names_of db ids))
       (remdups (map (\<lambda>r. (am_address r, am_tick r)) (rp_credits db @ rp_debits db)))"

definition balance_update ::
  "hash_fn \<Rightarrow> string \<Rightarrow> string \<Rightarrow> string \<times> string \<Rightarrow> string option \<Rightarrow> (octets \<times> string option) res" where
  "balance_update H chain network n leaf =
     rbind (balanceKey H chain network (fst n) (snd n)) (\<lambda>key. Inr (key, leaf))"

definition buildFullBalancesRoot ::
  "hash_fn \<Rightarrow> (string \<Rightarrow> int) \<Rightarrow> subtree_tables \<Rightarrow> replica \<Rightarrow> string \<Rightarrow> string \<Rightarrow> int \<Rightarrow> bool
   \<Rightarrow> (replica \<times> string) res" where
  "buildFullBalancesRoot H cast T db chain network blockIndex forceEscrowLeaves =
     rbind (rtraverse (\<lambda>(n, net). rbind (leafOrNull H net) (\<lambda>leaf. Inr (n, leaf))) (grouped_balances cast db))
       (\<lambda>leaves. rbind (rtraverse (\<lambda>(n, leaf). balance_update H chain network n leaf)
                         (filter (\<lambda>(n, leaf). leaf \<noteq> None) leaves))
         (\<lambda>us. let (db1, r1) = update_all H db (EMPTY_ROOT_HEX H) us in
            if isEscrowLockedLeafActive T (JInt blockIndex) network (Some chain) \<or> forceEscrowLeaves
            then rbind (liveEscrowLeaves H db)
                   (\<lambda>es. rbind (rtraverse (\<lambda>(n, leaf). escrow_update H chain network n (Some leaf)) es)
                     (\<lambda>us'. Inr (update_all H db1 r1 us')))
            else Inr (db1, r1)))"

text \<open>The touched keys of an applied block; entries without an address or a tick are skipped.\<close>

definition touched_names :: "(string option \<times> string option) list option \<Rightarrow> (string \<times> string) list" where
  "touched_names touchedKeys =
     List.map_filter
       (\<lambda>e. case e of
              (Some a, Some t) \<Rightarrow> if t = [] then None else Some (a, t)
            | _ \<Rightarrow> None)
       (case touchedKeys of None \<Rightarrow> [] | Some ks \<Rightarrow> ks)"

record balances_result =
  br_db :: replica
  br_root :: string
  br_shadow_updates :: "(octets \<times> string option) list option"
  br_esc_shadow :: bool

definition computeFollowerBalancesRoot ::
  "hash_fn \<Rightarrow> (string \<Rightarrow> int) \<Rightarrow> subtree_tables \<Rightarrow> replica \<Rightarrow> string \<Rightarrow> string \<Rightarrow> int
   \<Rightarrow> (string option \<times> string option) list option \<Rightarrow> bool \<Rightarrow> balances_result res" where
  "computeFollowerBalancesRoot H cast T db chain network blockIndex touchedKeys isActivationBlock =
     (let active = (\<lambda>b. isEscrowLockedLeafActive T (JInt b) network (Some chain));
          escShadow = isEscrowLockedLeafShadowActive T (JInt blockIndex) network (Some chain);
          armingBlock = (active blockIndex \<and> \<not> active (blockIndex - 1));
          prior = (if isActivationBlock then None
                   else truthy (map_option rr_balances (roots_at db chain network (blockIndex - 1))))
      in if isActivationBlock \<or> armingBlock \<or> prior = None
         then rbind (buildFullBalancesRoot H cast T db chain network blockIndex False)
                (\<lambda>(db', r). Inr \<lparr>br_db = db', br_root = r, br_shadow_updates = None, br_esc_shadow = escShadow\<rparr>)
         else rbind (rtraverse (\<lambda>n. rbind (leafOrNull H (getNetBalance cast db (fst n) (snd n)))
                                      (balance_update H chain network n)) (touched_names touchedKeys))
                (\<lambda>us. let (db1, r1) = update_all H db (the prior) us;
                           shadow = (if escShadow then Some us else None)
                       in if active blockIndex
                          then rbind (applyEscrowLeaves H db1 r1 chain network blockIndex)
                                 (\<lambda>(db2, r2). Inr \<lparr>br_db = db2, br_root = r2, br_shadow_updates = shadow, br_esc_shadow = escShadow\<rparr>)
                          else Inr \<lparr>br_db = db1, br_root = r1, br_shadow_updates = shadow, br_esc_shadow = escShadow\<rparr>))"

section \<open>Stakes\<close>

record stake_row =
  sk_pubkey :: "string option"
  sk_source :: "string option"
  sk_weight :: "string option"

definition js_String :: "string option \<Rightarrow> string" where
  "js_String x = (case x of None \<Rightarrow> ''null'' | Some s \<Rightarrow> s)"

text \<open>One pass over the rows of a capability: the member leaves and the first weight of each source.\<close>

fun member_loop ::
  "hash_fn \<Rightarrow> string \<Rightarrow> stake_row list \<Rightarrow> (string \<times> string) list \<Rightarrow> (string \<times> string) list
   \<Rightarrow> ((string \<times> string) list \<times> (string \<times> string) list) res" where
  "member_loop H capability [] entries seen = Inr (entries, seen)"
| "member_loop H capability (r # rs) entries seen =
     (case sk_pubkey r of
        None \<Rightarrow> member_loop H capability rs entries seen
      | Some pk \<Rightarrow>
          rbind (canonicalAmount (case sk_weight r of None \<Rightarrow> ''0'' | Some w \<Rightarrow> w))
            (\<lambda>w. if w = ZERO_CANON then member_loop H capability rs entries seen
                 else rbind (stakeKey H pk capability)
                   (\<lambda>key. rbind (stakeMemberLeaf H (js_String (sk_source r)) (js_String (sk_weight r)))
                     (\<lambda>leaf. member_loop H capability rs (entries @ [(hexenc key, hexenc leaf)])
                               (if map_of seen (js_String (sk_source r)) = None
                                then seen @ [(js_String (sk_source r), js_String (sk_weight r))]
                                else seen)))))"

definition capability_entries ::
  "hash_fn \<Rightarrow> string \<Rightarrow> stake_row list \<Rightarrow> (string \<times> string) list res" where
  "capability_entries H capability rows =
     rbind (member_loop H capability rows [] [])
       (\<lambda>(entries, seen). rbind (sumCanonicalAmounts (map snd seen))
         (\<lambda>tot. rbind (canonicalAmount tot)
           (\<lambda>c. if c = ZERO_CANON then Inr entries
                else rbind (stakeKey H STAKE_TOTAL_PUBKEY capability)
                  (\<lambda>key. rbind (stakeTotalLeaf H tot)
                    (\<lambda>leaf. Inr (entries @ [(hexenc key, hexenc leaf)]))))))"

definition gatherStakeEntries ::
  "hash_fn \<Rightarrow> string list \<Rightarrow> (string \<Rightarrow> stake_row list) \<Rightarrow> string \<Rightarrow> (string \<times> string) list res" where
  "gatherStakeEntries H capabilities weights chain =
     (if chain \<noteq> ''BTC'' then Inr []
      else rbind (rtraverse (\<lambda>c. capability_entries H c (weights c)) capabilities) (\<lambda>es. Inr (concat es)))"

record stakes_memo =
  sm_chain :: string
  sm_network :: string
  sm_block :: int
  sm_digest :: string
  sm_root :: string

fun join_with :: "string \<Rightarrow> string list \<Rightarrow> string" where
  "join_with sep [] = []"
| "join_with sep [s] = s"
| "join_with sep (s # ss) = s @ sep @ join_with sep ss"

definition digest_text :: "(string \<times> string) list \<Rightarrow> string" where
  "digest_text entries =
     (let pairs = sort (map (\<lambda>e. fst e @ '':'' @ snd e) entries)
      in nat_str (length pairs) @ ''|'' @ join_with ''|'' pairs)"

definition stakeEntriesDigest :: "hash_fn \<Rightarrow> (string \<times> string) list \<Rightarrow> string" where
  "stakeEntriesDigest H entries = hexenc (H (digest_text entries))"

definition buildStakesRoot ::
  "hash_fn \<Rightarrow> stakes_memo option \<Rightarrow> replica \<Rightarrow> string \<Rightarrow> string \<Rightarrow> int \<Rightarrow> (string \<times> string) list
   \<Rightarrow> stakes_memo option \<times> replica \<times> string" where
  "buildStakesRoot H memo db chain network blockIndex entries =
     (let digest = stakeEntriesDigest H entries;
          remember = (\<lambda>r. Some \<lparr>sm_chain = chain, sm_network = network, sm_block = blockIndex, sm_digest = digest, sm_root = r\<rparr>);
          rebuild = (let (nodes, r) = buildFull H db_ops (rp_nodes db) entries in (remember r, db\<lparr>rp_nodes := nodes\<rparr>, r))
      in case memo of
           None \<Rightarrow> rebuild
         | Some m \<Rightarrow>
             if sm_chain m = chain \<and> sm_network m = network \<and> sm_block m = blockIndex - 1 \<and> sm_digest m = digest
                \<and> (sm_root m = EMPTY_ROOT_HEX H \<or> db_get (rp_nodes db) (sm_root m) \<noteq> None)
             then (remember (sm_root m), db, sm_root m)
             else rebuild)"

section \<open>The state root of a block\<close>

definition assembleStateRoot :: "hash_fn \<Rightarrow> string \<Rightarrow> string \<Rightarrow> (string \<times> string) list option \<Rightarrow> string" where
  "assembleStateRoot H balancesRootHex stakesRootHex extraSubRoots =
     (let base = [''balances_root'' \<mapsto> balancesRootHex, ''stakes_root'' \<mapsto> stakesRootHex];
          subRoots = (case extraSubRoots of
             None \<Rightarrow> base
           | Some ex \<Rightarrow>
               fold (\<lambda>name m. case truthy (map_of ex name) of None \<Rightarrow> m | Some v \<Rightarrow> m(name \<mapsto> v)) RESERVED_SUBTREES base)
      in hexenc (stateRoot H subRoots))"

definition extraSubRootColumn :: "(string \<times> string) list option \<Rightarrow> string \<Rightarrow> string option" where
  "extraSubRootColumn extraSubRoots slotName =
     (case extraSubRoots of None \<Rightarrow> None | Some ex \<Rightarrow> truthy (map_of ex slotName))"

definition reservedSubRootCandidates ::
  "hash_fn \<Rightarrow> subtree_tables \<Rightarrow> replica \<Rightarrow> string \<Rightarrow> string \<Rightarrow> int \<Rightarrow> (replica \<times> (string \<times> string) list option) res" where
  "reservedSubRootCandidates H T db chain network blockIndex =
     rbind (isSubtreeActive T ''contract_state_root'' (JInt blockIndex) network (Some chain))
       (\<lambda>a. if \<not> a then Inr (db, None)
            else rbind (resolveContractStateRoot H db chain network blockIndex False)
              (\<lambda>(db', r). Inr (db', Some [(''contract_state_root'', r)])))"

definition shadowSubRoots ::
  "hash_fn \<Rightarrow> subtree_tables \<Rightarrow> replica \<Rightarrow> string \<Rightarrow> string \<Rightarrow> int \<Rightarrow> (replica \<times> (string \<times> string) list option) res" where
  "shadowSubRoots H T db chain network blockIndex =
     rbind (isSubtreeShadowActive T ''contract_state_root'' (JInt blockIndex) network (Some chain))
       (\<lambda>a. if \<not> a then Inr (db, None)
            else rbind (resolveContractStateRoot H db chain network blockIndex True)
              (\<lambda>(db', r). Inr (db', Some [(''contract_state_root'', r)])))"

definition computeBlockMerkleRoot :: "hash_fn \<Rightarrow> block_rows \<Rightarrow> string res" where
  "computeBlockMerkleRoot H rows = rbind (blockMerkleLeaves H rows) (\<lambda>ls. Inr (hexenc (blockMerkleRoot H ls)))"

text \<open>\<^verbatim>\<open>INSERT ... ON DUPLICATE KEY UPDATE\<close> on the key (chain, network, block).\<close>

definition same_root_key :: "roots_row \<Rightarrow> roots_row \<Rightarrow> bool" where
  "same_root_key r r' \<longleftrightarrow> rr_chain r = rr_chain r' \<and> rr_network r = rr_network r' \<and> rr_block r = rr_block r'"

definition upsert_roots :: "(roots_row \<Rightarrow> roots_row) \<Rightarrow> roots_row \<Rightarrow> replica \<Rightarrow> replica" where
  "upsert_roots upd row db =
     db\<lparr>rp_roots := (if list_ex (same_root_key row) (rp_roots db)
                     then map (\<lambda>r. if same_root_key row r then upd r else r) (rp_roots db)
                     else rp_roots db @ [row])\<rparr>"

definition candidate_roots :: "(string \<times> string) list option \<Rightarrow> candidates option" where
  "candidate_roots c = map_option (map (\<lambda>(n, r). (n, Some r))) c"

text \<open>What one block commits: the row of \<^verbatim>\<open>state_tree_roots\<close>.  \<open>ti\<close> holds the touched keys and the
  activation flag, \<open>weights\<close> and \<open>rows\<close> the results of the stake and leaf queries.\<close>

record block_input =
  bi_touched :: "(string option \<times> string option) list option"
  bi_activation :: bool
  bi_weights :: "string \<Rightarrow> stake_row list"
  bi_rows :: block_rows

definition computeFollowerRoots ::
  "hash_fn \<Rightarrow> (string \<Rightarrow> int) \<Rightarrow> subtree_tables \<Rightarrow> string list \<Rightarrow> stakes_memo option \<Rightarrow> replica
   \<Rightarrow> string \<Rightarrow> string \<Rightarrow> int \<Rightarrow> block_input \<Rightarrow> (stakes_memo option \<times> replica \<times> roots_row) res" where
  "computeFollowerRoots H cast T capabilities memo db chain network blockIndex bi =
     rbind (computeFollowerBalancesRoot H cast T db chain network blockIndex (bi_touched bi) (bi_activation bi))
      (\<lambda>bal. rbind (if chain = ''BTC''
                    then rbind (gatherStakeEntries H capabilities (bi_weights bi) chain)
                           (\<lambda>es. Inr (buildStakesRoot H memo (br_db bal) chain network blockIndex es))
                    else Inr (memo, br_db bal, EMPTY_ROOT_HEX H))
      (\<lambda>(memo', db2, stakesRoot). rbind (reservedSubRootCandidates H T db2 chain network blockIndex)
      (\<lambda>(db3, cands). rbind (gateSubRoots T (candidate_roots cands) (JInt blockIndex) network (Some chain))
      (\<lambda>extra. rbind (shadowSubRoots H T db3 chain network blockIndex)
      (\<lambda>(db4, shadow). rbind
         (if br_esc_shadow bal
          then rbind (resolveShadowBalancesRoot H db4 chain network blockIndex (br_shadow_updates bal)
                        (\<lambda>d. buildFullBalancesRoot H cast T d chain network blockIndex True))
                 (\<lambda>(d, r). Inr (d, Some r))
          else Inr (db4, None))
      (\<lambda>(db5, escShadow). rbind (computeBlockMerkleRoot H (bi_rows bi))
      (\<lambda>bm. let row = \<lparr>rr_chain = chain, rr_network = network, rr_block = blockIndex,
                        rr_balances = br_root bal, rr_stakes = stakesRoot,
                        rr_state = assembleStateRoot H (br_root bal) stakesRoot extra,
                        rr_block_merkle = bm,
                        rr_contract_state = extraSubRootColumn extra ''contract_state_root'',
                        rr_contract_shadow = extraSubRootColumn shadow ''contract_state_root'',
                        rr_escrow_shadow = escShadow\<rparr>
             in Inr (memo', upsert_roots (\<lambda>_. row) row db5, row))))))))"

text \<open>The seed of a snapshot: no touched keys, no memo, and the statement does not name the column of the
  escrow shadow, which an existing row keeps.\<close>

definition seedSnapshotRoots ::
  "hash_fn \<Rightarrow> (string \<Rightarrow> int) \<Rightarrow> subtree_tables \<Rightarrow> string list \<Rightarrow> replica
   \<Rightarrow> string \<Rightarrow> string \<Rightarrow> int \<Rightarrow> (string \<Rightarrow> stake_row list) \<Rightarrow> block_rows \<Rightarrow> (replica \<times> roots_row) res" where
  "seedSnapshotRoots H cast T capabilities db chain network blockHeight weights rows =
     rbind (buildFullBalancesRoot H cast T db chain network blockHeight False)
      (\<lambda>(db1, balancesRoot). rbind (if chain = ''BTC''
                    then rbind (gatherStakeEntries H capabilities weights chain)
                           (\<lambda>es. let (nodes, r) = buildFull H db_ops (rp_nodes db1) es in Inr (db1\<lparr>rp_nodes := nodes\<rparr>, r))
                    else Inr (db1, EMPTY_ROOT_HEX H))
      (\<lambda>(db2, stakesRoot). rbind (reservedSubRootCandidates H T db2 chain network blockHeight)
      (\<lambda>(db3, cands). rbind (gateSubRoots T (candidate_roots cands) (JInt blockHeight) network (Some chain))
      (\<lambda>extra. rbind (shadowSubRoots H T db3 chain network blockHeight)
      (\<lambda>(db4, shadow). rbind (computeBlockMerkleRoot H rows)
      (\<lambda>bm. let row = \<lparr>rr_chain = chain, rr_network = network, rr_block = blockHeight,
                        rr_balances = balancesRoot, rr_stakes = stakesRoot,
                        rr_state = assembleStateRoot H balancesRoot stakesRoot extra,
                        rr_block_merkle = bm,
                        rr_contract_state = extraSubRootColumn extra ''contract_state_root'',
                        rr_contract_shadow = extraSubRootColumn shadow ''contract_state_root'',
                        rr_escrow_shadow = None\<rparr>
             in Inr (upsert_roots (\<lambda>old. row\<lparr>rr_escrow_shadow := rr_escrow_shadow old\<rparr>) row db4, row)))))))"

end
