(* ===== verification/Contract_State_Root.thy ===== *)
theory Contract_State_Root
  imports State_Commitment
begin

text \<open>
  The contract-state sub-tree: its journal as a leaf source, and the proof that the root of a block, threaded or
  rebuilt, is the root of the reference tree on which the journal has been replayed.
\<close>

section \<open>Journals\<close>

lemma newest_None [simp]: "newest idf rows = None \<longleftrightarrow> rows = []"
  by (simp add: newest_def split: list.split)

lemma newest_Nil [simp]: "newest idf [] = None"
  by simp

lemma newest_Some:
  assumes "newest idf rows = Some m"
  shows "m \<in> set rows \<and> (\<forall>r \<in> set rows. idf r \<le> idf m)"
proof -
  have *: "let m = foldl (\<lambda>m r. if idf m < idf r then r else m) x rs
    in m \<in> set (x # rs) \<and> (\<forall>r \<in> set (x # rs). idf r \<le> idf m)" for x rs
  proof (induction rs arbitrary: x)
    case (Cons y rs)
    obtain z where z: "z = (if idf x < idf y then y else x)" by simp
    then have "idf x \<le> idf z" "idf y \<le> idf z" "z = x \<or> z = y" by auto
    moreover have "foldl (\<lambda>m r. if idf m < idf r then r else m) x (y # rs) = foldl (\<lambda>m r. if idf m < idf r then r else m) z rs"
      by (simp add: z)
    ultimately show ?case using Cons [of z] unfolding Let_def by (auto intro: order_trans)
  qed (simp add: Let_def)
  show ?thesis
    using assms * by (cases rows) (auto simp: newest_def Let_def)
qed

lemma newest_eqI:
  assumes "inj_on idf (set rows)" "r \<in> set rows" "\<And>r'. r' \<in> set rows \<Longrightarrow> idf r' \<le> idf r"
  shows "newest idf rows = Some r"
proof (cases "newest idf rows")
  case None
  then show ?thesis using assms(2) by simp
next
  case (Some m)
  then have "idf m = idf r" using newest_Some [OF Some] assms by (meson order_antisym)
  then show ?thesis using Some newest_Some [OF Some] assms(1,2) by (auto dest: inj_onD)
qed

lemma latest_rows_newest:
  assumes "inj_on idf (set rows)"
  shows "r \<in> set (latest_rows idf grp rows) \<longleftrightarrow> newest idf (filter (\<lambda>r'. grp r' = grp r) rows) = Some r"
proof
  assume "r \<in> set (latest_rows idf grp rows)"
  then show "newest idf (filter (\<lambda>r'. grp r' = grp r) rows) = Some r"
    using assms by (intro newest_eqI) (auto simp: latest_rows_def list_all_iff inj_on_def)
next
  assume "newest idf (filter (\<lambda>r'. grp r' = grp r) rows) = Some r"
  from newest_Some [OF this] show "r \<in> set (latest_rows idf grp rows)"
    by (auto simp: latest_rows_def list_all_iff)
qed

lemma newest_snoc:
  assumes "newest idf rows = x" "\<And>r. r \<in> set rows \<Longrightarrow> idf r < idf y"
  shows "newest idf (rows @ [y]) = Some y"
  using newest_Some [of idf rows] assms by (cases rows) (auto simp: newest_def)

text \<open>A journal replayed in the order of its ids: the reference tree takes every write and every tombstone.\<close>

definition replay :: "('r \<Rightarrow> octets) \<Rightarrow> ('r \<Rightarrow> octets option) \<Rightarrow> 'r list \<Rightarrow> smt" where
  "replay key leaf rows = fold (\<lambda>r t. smt_set t (key r) (leaf r)) rows smt_new"

lemma replay_wf: "\<forall>r \<in> set rows. length (key r) = 32 \<Longrightarrow> wf_smt (replay key leaf rows)"
proof (induction rows rule: rev_induct)
  case (snoc r rows)
  then show ?case by (auto simp: replay_def intro: wf_intros)
qed (simp add: replay_def wf_smt_new)

lemma map_of_smt_set:
  assumes "wf_smt t" "length key = 32"
  shows "map_of (smt_entries (smt_set t key lo)) = (map_of (smt_entries t))(key := lo)"
proof -
  have "map_of (smt_entries (smt_set t key lo)) = map_of (put_entry key lo (smt_entries t))"
    using smt_entries_set [OF assms, of lo] wf_smt_entries [OF wf_smt_set [OF assms]] wf_put_entry [OF wf_smt_entries [OF assms(1)] assms(2)]
    by (simp add: wf_entries_def map_of_inject_set)
  then show ?thesis by (simp add: map_of_put_entry)
qed

lemma map_of_replay:
  assumes "\<forall>r \<in> set rows. length (key r) = 32" "sorted_wrt (\<lambda>r r'. idf r < idf r') rows"
  shows "map_of (smt_entries (replay key leaf rows)) k =
     (case newest idf (filter (\<lambda>r. key r = k) rows) of None \<Rightarrow> None | Some r \<Rightarrow> leaf r)"
  using assms
proof (induction rows rule: rev_induct)
  case Nil
  then show ?case by (simp add: replay_def smt_new_def smt_entries_def)
next
  case (snoc y rows)
  have wf: "wf_smt (replay key leaf rows)" and ky: "length (key y) = 32"
    using snoc.prems replay_wf [of rows key leaf] by auto
  have IH: "map_of (smt_entries (replay key leaf rows)) k =
     (case newest idf (filter (\<lambda>r. key r = k) rows) of None \<Rightarrow> None | Some r \<Rightarrow> leaf r)"
    using snoc by (simp add: sorted_wrt_append)
  have "newest idf (filter (\<lambda>r. key r = k) (rows @ [y])) =
     (if key y = k then Some y else newest idf (filter (\<lambda>r. key r = k) rows))"
    using snoc.prems(2) newest_snoc [OF refl, of "filter (\<lambda>r. key r = k) rows" idf y]
    by (auto simp: sorted_wrt_append)
  then show ?case using IH map_of_smt_set [OF wf ky, of "leaf y"] by (auto simp: replay_def)
qed

lemma map_of_replay_run:
  "\<forall>r \<in> set rows. length (key r) = 32 \<Longrightarrow>
     map_of (smt_entries (replay key leaf rows)) = map_of (run_from [] (updates_of key leaf rows))"
proof (induction rows rule: rev_induct)
  case (snoc y rows)
  then show ?case
    using map_of_smt_set [OF replay_wf, of rows key "key y" leaf "leaf y"]
    by (simp add: replay_def updates_of_def run_from_append map_of_put_entry)
qed (simp add: replay_def updates_of_def smt_new_def smt_entries_def)

section \<open>Trees with the same leaves\<close>

lemma smtNode_path_cong:
  assumes "wf_entries es" "wf_entries es'" "set es = set es'" "d \<le> SMT_DEPTH"
  shows "smtNode H (pathOf key d es) d = smtNode H (pathOf key d es') d"
  by (rule smtNode_cong_set) (use assms in \<open>auto simp: pathOf_def wf_entries_filter same_path_def\<close>)

lemma node_pair_cong:
  assumes "wf_entries es" "wf_entries es'" "set es = set es'" "d < SMT_DEPTH"
  shows "node_pair H key d es = node_pair H key d es'"
proof -
  have sp: "same_path d (pathOf key d es)" by (auto simp: same_path_def pathOf_def)
  show ?thesis
    unfolding node_pair_def
    by (intro arg_cong2 [where f = Pair] smtNode_cong_set same_path_left same_path_right sp)
       (use assms in \<open>auto simp: pathOf_def goLeft_def goRight_def wf_entries_filter\<close>)
qed

lemma serves_cong:
  assumes "wf_entries es" "wf_entries es'" "set es = set es'" "serves H A g es"
  shows "serves H A g es'"
proof -
  have path: "pathOf key d es = [] \<longleftrightarrow> pathOf key d es' = []" for key d
    using assms(3) by (auto simp: pathOf_def filter_empty_conv)
  note c = smtNode_path_cong [OF assms(1-3)] node_pair_cong [OF assms(1-3)]
  have "tree_pairs H es' = tree_pairs H es"
    unfolding tree_pairs_def using c(2) path by (metis (no_types, lifting))
  then have "tree_ok H A es'" using assms by (auto simp: tree_ok_def serves_def proper_leaves_def)
  moreover have "covers H g es'"
    using assms(4) c path unfolding serves_def covers_def by (metis less_imp_le)
  ultimately show ?thesis using assms(4) by (simp add: serves_def)
qed

section \<open>The contract state as a leaf source\<close>

definition cs_group :: "contract_state_row \<Rightarrow> nat \<times> string" where
  "cs_group r = (cs_contract r, cs_key r)"

definition cs_leaf :: "hash_fn \<Rightarrow> replica \<Rightarrow> nat \<times> string \<Rightarrow> octets option" where
  "cs_leaf H db g = map_option (leafHash H) (latestStateValue db (fst g) (snd g))"

definition cs_live :: "replica \<Rightarrow> (nat \<times> string) list" where
  "cs_live db = map cs_group (filter (\<lambda>r. cs_value r \<noteq> None) (latest_rows cs_id cs_group (rp_contract_state db)))"

definition cs_valid :: "replica \<Rightarrow> bool" where
  "cs_valid db \<longleftrightarrow> sorted_wrt (\<lambda>r r'. cs_id r < cs_id r') (rp_contract_state db)"

text \<open>The journal of the next block: rows stamped with that block are appended.\<close>

definition cs_grown :: "int \<Rightarrow> replica \<Rightarrow> replica \<Rightarrow> bool" where
  "cs_grown b db db' \<longleftrightarrow>
     (\<exists>new. rp_contract_state db' = rp_contract_state db @ new \<and> (\<forall>r \<in> set new. cs_block r = b))"

lemma sorted_ids_inj: "sorted_wrt (\<lambda>r r'. (idf r :: nat) < idf r') rows \<Longrightarrow> inj_on idf (set rows)"
  using strict_sorted_iff [of "map idf rows"] by (simp add: sorted_wrt_map distinct_map)

lemma cs_latest: "latestStateValue db c k =
    (case newest cs_id (filter (\<lambda>r. cs_group r = (c, k)) (rp_contract_state db)) of None \<Rightarrow> None | Some r \<Rightarrow> cs_value r)"
  by (simp add: latestStateValue_def cs_group_def)

interpretation contract: leaf_source cs_valid "cs_leaf H" touchedContractStateKeys cs_live cs_grown for H
proof
  fix b db db' and k :: "nat \<times> string"
  assume g: "cs_grown b db db'" and k: "k \<notin> set (touchedContractStateKeys db' b)"
  from g obtain new where new: "rp_contract_state db' = rp_contract_state db @ new" "\<forall>r \<in> set new. cs_block r = b"
    unfolding cs_grown_def by blast
  have "cs_group r \<in> set (touchedContractStateKeys db' b)" if "r \<in> set new" for r
    using that new by (simp add: touchedContractStateKeys_def cs_group_def)
  with k have "filter (\<lambda>r. cs_group r = k) new = []" by (auto simp: filter_empty_conv)
  then show "cs_leaf H db' k = cs_leaf H db k"
    by (simp add: cs_leaf_def cs_latest new(1))
next
  fix db and k :: "nat \<times> string"
  assume v: "cs_valid db" and "cs_leaf H db k \<noteq> None"
  then obtain r where r: "newest cs_id (filter (\<lambda>r. cs_group r = k) (rp_contract_state db)) = Some r" "cs_value r \<noteq> None"
    by (auto simp: cs_leaf_def cs_latest split: option.splits)
  then have g: "cs_group r = k" using newest_Some [OF r(1)] by auto
  then have "r \<in> set (latest_rows cs_id cs_group (rp_contract_state db))"
    using r(1) latest_rows_newest [OF sorted_ids_inj] v unfolding cs_valid_def by metis
  with r g show "k \<in> set (cs_live db)" by (auto simp: cs_live_def)
qed

text \<open>The tree key of a row, and the reference tree of the journal.\<close>

definition ok_value :: "'a res \<Rightarrow> 'a" where
  "ok_value m = (case m of Inr v \<Rightarrow> v | Inl e \<Rightarrow> undefined)"

definition cs_tree_key :: "hash_fn \<Rightarrow> string \<Rightarrow> string \<Rightarrow> nat \<times> string \<Rightarrow> octets" where
  "cs_tree_key H chain network g = ok_value (contractStateKey H chain network (fst g) (snd g))"

definition contract_tree :: "hash_fn \<Rightarrow> string \<Rightarrow> string \<Rightarrow> replica \<Rightarrow> smt" where
  "contract_tree H chain network db =
     replay (\<lambda>r. cs_tree_key H chain network (cs_group r)) (\<lambda>r. map_option (leafHash H) (cs_value r)) (rp_contract_state db)"

text \<open>The rows of a journal have keys the tree accepts, no two keys collide, and no leaf is the hash
  of an empty subtree.\<close>

definition cs_rows_ok :: "hash_fn \<Rightarrow> string \<Rightarrow> string \<Rightarrow> replica \<Rightarrow> bool" where
  "cs_rows_ok H chain network db \<longleftrightarrow>
     cs_valid db
   \<and> inj_on (cs_tree_key H chain network) (cs_group ` set (rp_contract_state db))
   \<and> (\<forall>r \<in> set (rp_contract_state db).
        is_ok (contractStateKey H chain network (cs_contract r) (cs_key r))
      \<and> length (cs_tree_key H chain network (cs_group r)) = 32
      \<and> (\<forall>v. cs_value r = Some v \<longrightarrow> (\<forall>h \<le> SMT_DEPTH. leafHash H v \<noteq> EMPTY H h)))"

lemma is_ok_value: "is_ok m \<Longrightarrow> m = Inr (ok_value m)"
  by (cases m) (auto simp: ok_value_def)

lemma contract_tree_table:
  assumes "cs_rows_ok H chain network db" and K: "cs_group ` set (rp_contract_state db) \<subseteq> K"
    and inj: "inj_on (cs_tree_key H chain network) K"
  shows "wf_smt (contract_tree H chain network db)"
    and "map_of (smt_entries (contract_tree H chain network db)) = leaf_table (cs_tree_key H chain network) K (cs_leaf H db)"
proof -
  let ?key = "\<lambda>r. cs_tree_key H chain network (cs_group r)" and ?rows = "rp_contract_state db"
  have len: "\<forall>r \<in> set ?rows. length (?key r) = 32" using assms by (auto simp: cs_rows_ok_def)
  show "wf_smt (contract_tree H chain network db)"
    unfolding contract_tree_def by (rule replay_wf [OF len])
  show "map_of (smt_entries (contract_tree H chain network db)) = leaf_table (cs_tree_key H chain network) K (cs_leaf H db)"
  proof
    fix key
    have m: "map_of (smt_entries (contract_tree H chain network db)) key =
      (case newest cs_id (filter (\<lambda>r. ?key r = key) ?rows) of None \<Rightarrow> None | Some r \<Rightarrow> map_option (leafHash H) (cs_value r))"
      unfolding contract_tree_def
      by (rule map_of_replay [OF len]) (use assms in \<open>simp add: cs_rows_ok_def cs_valid_def\<close>)
    show "map_of (smt_entries (contract_tree H chain network db)) key = leaf_table (cs_tree_key H chain network) K (cs_leaf H db) key"
    proof (cases "key \<in> cs_tree_key H chain network ` K")
      case True
      then obtain g where g: "g \<in> K" "key = cs_tree_key H chain network g" by blast
      have "filter (\<lambda>r. ?key r = key) ?rows = filter (\<lambda>r. cs_group r = g) ?rows"
        using inj K g by (intro filter_cong) (auto dest: inj_onD)
      then show ?thesis
        using m leaf_table_key [OF inj g(1), of "cs_leaf H db"] g
        by (auto simp: cs_leaf_def cs_latest split: option.split)
    next
      case False
      then have "filter (\<lambda>r. ?key r = key) ?rows = []" using K by (auto simp: filter_empty_conv)
      then show ?thesis using m False by (simp add: leaf_table_def newest_def)
    qed
  qed
qed

text \<open>What a loop of updates over the node table gives.\<close>

lemma update_all_refines:
  assumes "hash_ok H A" "updates_ok H us" "pairs_within H A es us" "serves H A (db_get (rp_nodes db)) es"
    and "start = hexenc (smtNode H es 0)" "update_all H db start (wire_updates us) = (db', r)"
  shows "r = hexenc (smtNode H (run_from es us) 0)
    \<and> serves H A (db_get (rp_nodes db')) (run_from es us)
    \<and> db' = db\<lparr>rp_nodes := rp_nodes db'\<rparr>
    \<and> (\<forall>es'. serves H A (db_get (rp_nodes db)) es' \<longrightarrow> serves H A (db_get (rp_nodes db')) es')"
proof -
  obtain nodes where n: "psmt_run H db_ops (rp_nodes db) start (wire_updates us) = (nodes, r)" "db' = db\<lparr>rp_nodes := nodes\<rparr>"
    using assms(6) by (auto simp: update_all_def split: prod.splits)
  have "no_get db_ops = db_get" by (simp add: db_ops_def)
  then show ?thesis
    using table.run_from_refines [OF assms(1-3), of "rp_nodes db" nodes r] assms(4,5) n by simp
qed

lemma EMPTY_ROOT_entries: "EMPTY_ROOT_HEX H = hexenc (smtNode H [] 0)"
  by (simp add: EMPTY_ROOT_HEX_def EMPTY_SMT_ROOT_def)

abbreviation cs_updates :: "hash_fn \<Rightarrow> string \<Rightarrow> string \<Rightarrow> replica \<Rightarrow> (nat \<times> string) list \<Rightarrow> leaf_update list" where
  "cs_updates H chain network db gs \<equiv> updates_of (cs_tree_key H chain network) (cs_leaf H db) gs"

text \<open>Where a block starts from: without a usable prior column on any honest store, otherwise on a store that
  serves the reference tree of the previous journal, whose root the column holds.\<close>

definition contract_prior :: "replica \<Rightarrow> string \<Rightarrow> string \<Rightarrow> int \<Rightarrow> bool \<Rightarrow> string option" where
  "contract_prior db chain network b shadow =
     truthy (case roots_at db chain network (b - 1) of None \<Rightarrow> None
             | Some r \<Rightarrow> if shadow then rr_contract_shadow r else rr_contract_state r)"

definition contract_start ::
  "hash_fn \<Rightarrow> (octets \<times> octets) set \<Rightarrow> string \<Rightarrow> string \<Rightarrow> replica \<Rightarrow> replica \<Rightarrow> int \<Rightarrow> bool \<Rightarrow> bool" where
  "contract_start H A chain network db0 db b shadow \<longleftrightarrow>
     (case contract_prior db chain network b shadow of
        None \<Rightarrow> store_ok H A (db_get (rp_nodes db)) \<and> pairs_within H A [] (cs_updates H chain network db (cs_live db))
      | Some r \<Rightarrow>
          cs_grown b db0 db
        \<and> r = smt_rootHex H (contract_tree H chain network db0)
        \<and> serves H A (db_get (rp_nodes db)) (smt_entries (contract_tree H chain network db0))
        \<and> pairs_within H A (smt_entries (contract_tree H chain network db0))
            (cs_updates H chain network db (touchedContractStateKeys db b)))"

lemma cs_updates_ok:
  assumes "cs_rows_ok H chain network db" "set gs \<subseteq> cs_group ` set (rp_contract_state db)"
  shows "updates_ok H (cs_updates H chain network db gs)"
proof -
  have leaf: "\<forall>h \<le> SMT_DEPTH. l \<noteq> EMPTY H h" if "cs_leaf H db g = Some l" for g l
  proof -
    from that obtain r where r: "newest cs_id (filter (\<lambda>r. cs_group r = g) (rp_contract_state db)) = Some r"
      "l = leafHash H (the (cs_value r))" "cs_value r \<noteq> None"
      by (auto simp: cs_leaf_def cs_latest split: option.splits)
    then show ?thesis using newest_Some [OF r(1)] assms(1) by (auto simp: cs_rows_ok_def)
  qed
  show ?thesis
    using assms leaf unfolding updates_ok_def updates_of_def cs_rows_ok_def by auto
qed

lemma cs_traverse:
  assumes "cs_rows_ok H chain network db" "set gs \<subseteq> cs_group ` set (rp_contract_state db)"
  shows "rtraverse (\<lambda>(c, k). contract_update H chain network c k (contractStateLeaf H (latestStateValue db c k))) gs =
    Inr (wire_updates (cs_updates H chain network db gs))"
proof -
  have "contract_update H chain network c k (contractStateLeaf H (latestStateValue db c k)) =
    Inr (cs_tree_key H chain network (c, k), map_option hexenc (cs_leaf H db (c, k)))" if "(c, k) \<in> set gs" for c k
  proof -
    have "is_ok (contractStateKey H chain network c k)"
      using assms that by (force simp: cs_rows_ok_def cs_group_def)
    then obtain key where "contractStateKey H chain network c k = Inr key" using is_ok_value by blast
    then show ?thesis
      by (simp add: contract_update_def cs_tree_key_def contractStateLeaf_def cs_leaf_def option.map_comp comp_def ok_value_def)
  qed
  then have "rtraverse (\<lambda>(c, k). contract_update H chain network c k (contractStateLeaf H (latestStateValue db c k))) gs =
    Inr (map (\<lambda>g. (cs_tree_key H chain network g, map_option hexenc (cs_leaf H db g))) gs)"
    by (intro rtraverse_Inr_map) auto
  then show ?thesis by (simp add: wire_updates_def updates_of_def comp_def)
qed

lemma cs_live_rows: "set (cs_live db) \<subseteq> cs_group ` set (rp_contract_state db)"
  by (auto simp: cs_live_def latest_rows_def)

lemma cs_touched_rows: "set (touchedContractStateKeys db b) \<subseteq> cs_group ` set (rp_contract_state db)"
  by (auto simp: touchedContractStateKeys_def cs_group_def)

lemma buildFull_traverse:
  assumes "cs_rows_ok H chain network db"
  shows "buildFullContractStateRoot H db chain network =
    Inr (update_all H db (EMPTY_ROOT_HEX H) (wire_updates (cs_updates H chain network db (cs_live db))))"
proof -
  let ?kept = "filter (\<lambda>r. cs_value r \<noteq> None) (latest_rows cs_id cs_group (rp_contract_state db))"
  have win: "latestStateValue db (cs_contract r) (cs_key r) = cs_value r" if "r \<in> set ?kept" for r
    using that latest_rows_newest [OF sorted_ids_inj, of cs_id "rp_contract_state db" r cs_group] assms
    by (simp add: cs_latest cs_rows_ok_def cs_valid_def cs_group_def)
  have tr: "rtraverse f (map g xs) = rtraverse (\<lambda>x. f (g x)) xs" for f :: "'x \<Rightarrow> 'y res" and g :: "'w \<Rightarrow> 'x" and xs
    by (induction xs) auto
  have cong: "(\<And>x. x \<in> set xs \<Longrightarrow> f x = f' x) \<Longrightarrow> rtraverse f xs = rtraverse f' xs" for f f' :: "'w \<Rightarrow> 'y res" and xs
    by (induction xs) auto
  have "rtraverse (\<lambda>r. contract_update H chain network (cs_contract r) (cs_key r) (contractStateLeaf H (cs_value r))) ?kept =
    rtraverse (\<lambda>(c, k). contract_update H chain network c k (contractStateLeaf H (latestStateValue db c k))) (map cs_group ?kept)"
    unfolding tr by (rule cong) (use win in \<open>simp add: cs_group_def\<close>)
  also have "\<dots> = Inr (wire_updates (cs_updates H chain network db (cs_live db)))"
    using cs_traverse [OF assms cs_live_rows] by (simp add: cs_live_def)
  finally show ?thesis
    by (simp add: buildFullContractStateRoot_def contractStateLeaf_def cs_group_def [abs_def] Let_def)
qed

text \<open>(C18) The contract-state root of a block, threaded from the stored root of the previous block or built
  from nothing when no such root is stored, is the root of the reference tree on which the whole journal has been
  replayed in id order, tombstones deleting their key; the only change to the replica is new nodes, and
  the store then serves that tree, which is what the next block starts from.  The statement covers the committed
  and the shadow column.\<close>

theorem contract_state_root_exact:
  assumes A: "hash_ok H A"
    and rows: "cs_rows_ok H chain network db"
    and start: "contract_start H A chain network db0 db b shadow"
  shows "\<exists>nodes. resolveContractStateRoot H db chain network b shadow =
      Inr (db\<lparr>rp_nodes := nodes\<rparr>, smt_rootHex H (contract_tree H chain network db))
    \<and> serves H A (db_get nodes) (smt_entries (contract_tree H chain network db))"
proof -
  let ?kf = "cs_tree_key H chain network" and ?K = "cs_group ` set (rp_contract_state db)"
  let ?t = "contract_tree H chain network db"
  have inj: "inj_on ?kf ?K" and v: "cs_valid db" using rows by (auto simp: cs_rows_ok_def)
  note tab = contract_tree_table [OF rows order_refl inj]
  have finish: "\<exists>nodes. Inr (update_all H db r (wire_updates us)) = Inr (db\<lparr>rp_nodes := nodes\<rparr>, smt_rootHex H ?t)
      \<and> serves H A (db_get nodes) (smt_entries ?t)"
    if "updates_ok H us" "pairs_within H A es us" "serves H A (db_get (rp_nodes db)) es" "r = hexenc (smtNode H es 0)"
      and m: "map_of (run_from es us) = leaf_table ?kf ?K (cs_leaf H db)" for us es r
  proof -
    obtain db' r' where u: "update_all H db r (wire_updates us) = (db', r')" by fastforce
    note ref = update_all_refines [OF A that(1-4) u]
    have wf: "wf_entries (run_from es us)" using ref by (auto simp: serves_def tree_ok_def)
    have same: "set (run_from es us) = set (smt_entries ?t)"
      using entries_eqI [OF wf wf_smt_entries [OF tab(1)]] m tab(2) by simp
    have "r' = smt_rootHex H ?t" using ref root_of_table [OF wf tab(1), of H] m tab(2) by simp
    moreover have "serves H A (db_get (rp_nodes db')) (smt_entries ?t)"
      using serves_cong [OF wf wf_smt_entries [OF tab(1)] same] ref by blast
    ultimately show ?thesis using u ref by metis
  qed
  show ?thesis
  proof (cases "contract_prior db chain network b shadow")
    case None
    then have "resolveContractStateRoot H db chain network b shadow =
      Inr (update_all H db (EMPTY_ROOT_HEX H) (wire_updates (cs_updates H chain network db (cs_live db))))"
      using buildFull_traverse [OF rows] by (simp add: resolveContractStateRoot_def contract_prior_def Let_def)
    moreover have "store_ok H A (db_get (rp_nodes db))" "pairs_within H A [] (cs_updates H chain network db (cs_live db))"
      using start None by (simp_all add: contract_start_def)
    ultimately show ?thesis
      using finish [OF cs_updates_ok [OF rows cs_live_rows] _ serves_empty_tree [OF _ A] EMPTY_ROOT_entries]
        contract.full_table [OF inj cs_live_rows v] by simp
  next
    case (Some r)
    let ?es = "smt_entries (contract_tree H chain network db0)"
    have st: "cs_grown b db0 db" "r = smt_rootHex H (contract_tree H chain network db0)"
      "serves H A (db_get (rp_nodes db)) ?es" "pairs_within H A ?es (cs_updates H chain network db (touchedContractStateKeys db b))"
      using start Some by (simp_all add: contract_start_def)
    have sub: "set (rp_contract_state db0) \<subseteq> set (rp_contract_state db)" using st(1) by (auto simp: cs_grown_def)
    have "cs_rows_ok H chain network db0"
      unfolding cs_rows_ok_def
    proof (intro conjI)
      show "cs_valid db0" using v st(1) by (auto simp: cs_valid_def cs_grown_def sorted_wrt_append)
      show "inj_on ?kf (cs_group ` set (rp_contract_state db0))" using inj sub by (meson image_mono inj_on_subset)
    qed (use rows sub in \<open>auto simp: cs_rows_ok_def\<close>)
    from contract_tree_table(2) [OF this _ inj] have m0: "map_of ?es = leaf_table ?kf ?K (cs_leaf H db0)"
      using sub by auto
    have "resolveContractStateRoot H db chain network b shadow =
      Inr (update_all H db r (wire_updates (cs_updates H chain network db (touchedContractStateKeys db b))))"
      using Some cs_traverse [OF rows cs_touched_rows]
      by (simp add: resolveContractStateRoot_def contract_prior_def Let_def)
    then show ?thesis
      using finish [OF cs_updates_ok [OF rows cs_touched_rows] st(4,3)] st(2)
        contract.thread_table [OF inj cs_touched_rows st(1) v m0]
      by (simp add: smt_rootHex_def smt_root_def)
  qed
qed


text \<open>With the identity for the hash, a domain of key fields that fills 32 octets and values of 17 octets.\<close>

definition even_pairs :: "(octets \<times> octets) set" where
  "even_pairs = {p. length (fst p) = length (snd p)}"

lemma hash_ok_id: "hash_ok id even_pairs"
  unfolding hash_ok_def by (auto simp: even_pairs_def empty_pairs_def intro!: collision_free_id)

lemma tree_pairs_even: "\<forall>e \<in> set es. length (snd e) = 18 \<Longrightarrow> tree_pairs id es \<subseteq> even_pairs"
  using tree_pairs_id unfolding even_pairs_def by blast

lemma pairs_within_id:
  assumes "\<forall>e \<in> set es. length (snd e) = 18" "\<forall>u \<in> set us. \<forall>l. snd u = Some l \<longrightarrow> length l = 18"
  shows "pairs_within id even_pairs es us"
proof -
  have run: "\<forall>e \<in> set (run_from es us). length (snd e) = 18"
    if "\<forall>e \<in> set es. length (snd e) = 18" "\<forall>u \<in> set us. \<forall>l. snd u = Some l \<longrightarrow> length l = 18" for us es
    using that
  proof (induction us arbitrary: es)
    case (Cons u us)
    obtain key lo where u: "u = (key, lo)" by fastforce
    have "\<forall>e \<in> set (put_entry key lo es). length (snd e) = 18"
      using Cons.prems u by (auto simp: put_entry_def split: option.splits)
    then show ?case using Cons.IH [of "put_entry key lo es"] Cons.prems by (simp add: u)
  qed simp
  have "tree_pairs id (run_from es (take i us)) \<subseteq> even_pairs" for i
    using assms run [of es "take i us"] tree_pairs_even by (meson in_set_takeD)
  then show ?thesis unfolding pairs_within_def by blast
qed

lemma leafHash_id_not_EMPTY: "leafHash id v \<noteq> EMPTY id h"
  by (cases h) (auto simp: leafHash_def nodeHash_def LEAF_PREFIX_def EMPTY_PREFIX_def NODE_PREFIX_def)

definition sample_row :: "nat \<Rightarrow> int \<Rightarrow> nat \<Rightarrow> string option \<Rightarrow> contract_state_row" where
  "sample_row i b c v = \<lparr>cs_id = i, cs_block = b, cs_contract = c, cs_key = ''counter'', cs_value = v\<rparr>"

definition sample_replica :: "node_table \<Rightarrow> contract_state_row list \<Rightarrow> roots_row list \<Rightarrow> replica" where
  "sample_replica nodes rows rts =
     \<lparr>rp_nodes = nodes, rp_contract_state = rows, rp_escrow = [], rp_credits = [], rp_debits = [],
      rp_addresses = [], rp_tickers = [], rp_roots = rts\<rparr>"

definition sample_roots :: "int \<Rightarrow> string \<Rightarrow> string option \<Rightarrow> roots_row" where
  "sample_roots b bal cst =
     \<lparr>rr_chain = ''BTC'', rr_network = ''mainnet'', rr_block = b, rr_balances = bal, rr_stakes = ''00'', rr_state = ''00'',
      rr_block_merkle = ''00'', rr_contract_state = cst, rr_contract_shadow = None, rr_escrow_shadow = None\<rparr>"

lemma sample_key:
  assumes "c < 10"
  shows "contractStateKey id ''BTC'' ''mainnet'' c ''counter'' =
    Inr (join_nul [''XCHAIN_CST'', ''BTC'', ''mainnet'', [digit_char c], ''counter''])"
proof -
  have "\<not> is_digit NUL" by (simp add: NUL_def is_digit_def)
  then have "NUL \<notin> set [digit_char c]" using is_digit_char [OF assms] by auto
  moreover have "nat_str c = [digit_char c]" using assms by (simp add: nat_str.simps)
  ultimately show ?thesis
    by (simp add: contractStateKey_def smtKey_def joinFields_def field_octets_def NUL_def)
qed

lemma sample_rows_ok:
  assumes "sorted_wrt (\<lambda>r r'. cs_id r < cs_id r') rows"
    "\<forall>r \<in> set rows. cs_contract r < 10 \<and> cs_key r = ''counter''"
  shows "cs_rows_ok id ''BTC'' ''mainnet'' (sample_replica nodes rows rts)"
proof -
  have key: "cs_tree_key id ''BTC'' ''mainnet'' (c, ''counter'') =
      join_nul [''XCHAIN_CST'', ''BTC'', ''mainnet'', [digit_char c], ''counter'']" if "c < 10" for c
    using sample_key [OF that] by (simp add: cs_tree_key_def ok_value_def)
  have "inj_on (cs_tree_key id ''BTC'' ''mainnet'') (cs_group ` set rows)"
  proof (rule inj_onI)
    fix g g' assume "g \<in> cs_group ` set rows" "g' \<in> cs_group ` set rows"
      and eq: "cs_tree_key id ''BTC'' ''mainnet'' g = cs_tree_key id ''BTC'' ''mainnet'' g'"
    then obtain c c' where c: "g = (c, ''counter'')" "g' = (c', ''counter'')" "c < 10" "c' < 10"
      using assms(2) by (auto simp: cs_group_def)
    then have "digit_char c = digit_char c'" using eq by (simp add: key)
    then have "c = c'" using c digit_val_char by metis
    then show "g = g'" using c by simp
  qed
  moreover have "is_ok (contractStateKey id ''BTC'' ''mainnet'' (cs_contract r) (cs_key r))
      \<and> length (cs_tree_key id ''BTC'' ''mainnet'' (cs_group r)) = 32" if "r \<in> set rows" for r
    using that assms(2) sample_key key by (simp add: cs_group_def)
  ultimately show ?thesis
    using assms(1) by (simp add: cs_rows_ok_def sample_replica_def cs_valid_def leafHash_id_not_EMPTY)
qed


lemma sample_updates_18:
  assumes "\<forall>r \<in> set (rp_contract_state db). \<forall>v. cs_value r = Some v \<longrightarrow> length v = 17"
  shows "\<forall>u \<in> set (cs_updates id chain network db gs). \<forall>l. snd u = Some l \<longrightarrow> length l = 18"
proof -
  have "length l = 18" if "cs_leaf id db g = Some l" for g l
  proof -
    from that obtain r where r: "newest cs_id (filter (\<lambda>r. cs_group r = g) (rp_contract_state db)) = Some r"
      "l = leafHash id (the (cs_value r))" "cs_value r \<noteq> None"
      by (auto simp: cs_leaf_def cs_latest split: option.splits)
    then show ?thesis using newest_Some [OF r(1)] assms by (auto simp: leafHash_def)
  qed
  then show ?thesis by (auto simp: updates_of_def)
qed

lemma root_id_nonempty:
  assumes "\<forall>e \<in> set (smt_entries t). length (snd e) = 18"
  shows "smt_rootHex id t \<noteq> []"
proof
  assume "smt_rootHex id t = []"
  then have "length (smt_root id t) = 0" using length_hexenc [of "smt_root id t"] by (simp add: smt_rootHex_def)
  moreover have "19 * 1 \<le> 19 * (2 :: nat) ^ (SMT_DEPTH - 0)" by (intro mult_le_mono2) simp
  ultimately show False using smtNode_id_length [OF assms, of 0] by (simp add: smt_root_def)
qed

text \<open>One write at height 100, built from nothing; then a tombstone for it and a write of another contract at
  height 101, threaded from the stored root.\<close>

lemma contract_state_root_exact_witness:
  "\<exists>db. contract_prior db ''BTC'' ''mainnet'' 101 False \<noteq> None
    \<and> touchedContractStateKeys db 101 = [(7, ''counter''), (8, ''counter'')]
    \<and> latestStateValue db 7 ''counter'' = None
    \<and> (\<exists>nodes. resolveContractStateRoot id db ''BTC'' ''mainnet'' 101 False =
         Inr (db\<lparr>rp_nodes := nodes\<rparr>, smt_rootHex id (contract_tree id ''BTC'' ''mainnet'' db)))"
proof -
  let ?v = "''0123456789abcdef1''" let ?w = "''0123456789abcdef2''"
  let ?r0 = "[sample_row 1 100 7 (Some ?v)]"
  let ?r1 = "[sample_row 1 100 7 (Some ?v), sample_row 2 101 7 None, sample_row 3 101 8 (Some ?w)]"
  let ?t0 = "contract_tree id ''BTC'' ''mainnet'' (sample_replica [] ?r0 [])"
  have ok: "cs_rows_ok id ''BTC'' ''mainnet'' (sample_replica n ?r0 t)" "cs_rows_ok id ''BTC'' ''mainnet'' (sample_replica n ?r1 t)" for n t
    by (rule sample_rows_ok; simp add: sample_row_def)+
  have within0: "pairs_within id even_pairs [] (cs_updates id ''BTC'' ''mainnet'' (sample_replica n ?r0 t) gs)" for n t gs
    by (intro pairs_within_id sample_updates_18) (simp_all add: sample_replica_def sample_row_def)
  have prior0: "contract_prior (sample_replica [] ?r0 []) ''BTC'' ''mainnet'' 100 False = None"
    by (simp add: contract_prior_def roots_at_def sample_replica_def truthy_def)
  have "contract_start id even_pairs ''BTC'' ''mainnet'' (sample_replica [] ?r0 []) (sample_replica [] ?r0 []) 100 False"
    unfolding contract_start_def prior0 using within0
    by (simp add: store_ok_def sample_replica_def db_get_map_of)
  from contract_state_root_exact [OF hash_ok_id ok(1) this]
  obtain nodes where s0: "serves id even_pairs (db_get nodes) (smt_entries ?t0)" by blast
  let ?db = "sample_replica nodes ?r1 [sample_roots 100 ''00'' (Some (smt_rootHex id ?t0))]"
  have ne: "smt_rootHex id ?t0 \<noteq> []"
    by (rule root_id_nonempty)
       (simp add: contract_tree_def replay_def sample_replica_def sample_row_def smt_set_def smt_new_def smt_entries_def leafHash_def)
  have prior: "contract_prior ?db ''BTC'' ''mainnet'' 101 False = Some (smt_rootHex id ?t0)"
    using ne by (simp add: contract_prior_def roots_at_def sample_replica_def sample_roots_def truthy_def)
  have t0: "contract_tree id ''BTC'' ''mainnet'' (sample_replica nodes ?r0 []) = ?t0"
    by (simp add: contract_tree_def sample_replica_def)
  have leaves: "\<forall>e \<in> set (smt_entries ?t0). length (snd e) = 18"
    by (simp add: contract_tree_def replay_def sample_replica_def sample_row_def smt_set_def smt_new_def smt_entries_def leafHash_def)
  have n: "rp_nodes ?db = nodes" by (simp add: sample_replica_def)
  have "cs_grown 101 (sample_replica nodes ?r0 []) ?db"
    by (simp add: cs_grown_def sample_replica_def sample_row_def)
  moreover have "pairs_within id even_pairs (smt_entries ?t0) (cs_updates id ''BTC'' ''mainnet'' ?db (touchedContractStateKeys ?db 101))"
    by (intro pairs_within_id leaves sample_updates_18) (simp_all add: sample_replica_def sample_row_def)
  ultimately have "contract_start id even_pairs ''BTC'' ''mainnet'' (sample_replica nodes ?r0 []) ?db 101 False"
    unfolding contract_start_def prior option.case t0 n using s0 by blast
  from contract_state_root_exact [OF hash_ok_id ok(2) this] show ?thesis
    using prior by (intro exI [of _ ?db] conjI)
      (auto simp: touchedContractStateKeys_def latestStateValue_def newest_def sample_replica_def sample_row_def)
qed

end
