(* ===== verification/Balances_Root.thy ===== *)
theory Balances_Root
  imports Contract_State_Root
begin

text \<open>
  The balances tree: rendered amounts, spendable and locked balances as leaf sources that share one tree, and the
  proof that every branch of \<^verbatim>\<open>computeFollowerBalancesRoot\<close> commits the reference tree.
\<close>

section \<open>Rendered amounts\<close>

lemma ZERO_CANON_text: "ZERO_CANON = canon_text 0"
proof -
  have "js_trim ''0'' = ''0''" by (rule js_trim_digits) (simp_all add: is_digit_def)
  then have "canonicalAmount ''0'' = Inr (canon_text 0)"
    by (simp add: canonicalAmount_text amount_ok_def amount_value_def int_part_def frac_part_def is_digit_def dec_val_zeros)
  then show ?thesis by (simp add: ZERO_CANON_def)
qed

lemma trim_trailing_append:
  "(\<forall>d \<in> set z. d = c) \<Longrightarrow> s = [] \<or> last s \<noteq> c \<Longrightarrow> trim_trailing c (s @ z) = s"
proof -
  assume z: "\<forall>d \<in> set z. d = c" and s: "s = [] \<or> last s \<noteq> c"
  have "dropWhile (\<lambda>d. d = c) (rev z @ rev s) = dropWhile (\<lambda>d. d = c) (rev s)"
    by (rule dropWhile_append2) (use z in simp)
  moreover have "dropWhile (\<lambda>d. d = c) (rev s) = rev s" using s by (cases s rule: rev_cases) auto
  ultimately show ?thesis by (simp add: trim_trailing_def)
qed

lemma split_trailing: "\<exists>s z. f = s @ z \<and> (\<forall>d \<in> set z. d = c) \<and> (s = [] \<or> last s \<noteq> c)"
proof (induction f rule: rev_induct)
  case (snoc x f)
  then obtain s z where sz: "f = s @ z" "\<forall>d \<in> set z. d = c" "s = [] \<or> last s \<noteq> c" by blast
  show ?case
  proof (cases "x = c")
    case True
    then show ?thesis using sz by (intro exI [of _ s] exI [of _ "z @ [x]"]) auto
  next
    case False
    then show ?thesis by (intro exI [of _ "f @ [x]"] exI [of _ "[]"]) simp
  qed
qed simp

lemma amount_ok_fraction:
  assumes "\<forall>c \<in> set i. is_digit c" "i \<noteq> []" "\<forall>c \<in> set f. is_digit c" "f \<noteq> []" "length f \<le> 18"
  shows "amount_ok (i @ CHR ''.'' # f)" "amount_value (i @ CHR ''.'' # f) = dec_val i * 10 ^ 18 + dec_val f * 10 ^ (18 - length f)"
    "amount_ok i" "amount_value i = dec_val i * 10 ^ 18"
proof -
  have d: "takeWhile is_digit (i @ CHR ''.'' # f) = i" "dropWhile is_digit (i @ CHR ''.'' # f) = CHR ''.'' # f"
    "takeWhile is_digit i = i" "dropWhile is_digit i = []"
    using assms(1) point_not_digit by (induction i) auto
  have "1 \<le> length f" using assms(4) by (simp add: Suc_le_eq)
  then show "amount_ok (i @ CHR ''.'' # f)" "amount_ok i"
    using assms unfolding amount_ok_def Let_def d by (simp_all add: list_all_iff)
  show "amount_value (i @ CHR ''.'' # f) = dec_val i * 10 ^ 18 + dec_val f * 10 ^ (18 - length f)"
    "amount_value i = dec_val i * 10 ^ 18"
    unfolding amount_value_def int_part_def frac_part_def d by simp_all
qed

lemma minimalDecimal_text:
  obtains s where "minimalDecimal (int n) = s" "amount_ok s" "js_trim s = s" "amount_value s = n"
proof -
  let ?i = "nat_str (n div 10 ^ 18)" and ?f = "frac18 (n mod 10 ^ 18)"
  from split_trailing [of ?f "CHR ''0''"] obtain g z
    where gz: "?f = g @ z \<and> (\<forall>d \<in> set z. d = CHR ''0'') \<and> (g = [] \<or> last g \<noteq> CHR ''0'')" by (elim exE)
  note f = gz [THEN conjunct1] gz [THEN conjunct2, THEN conjunct1] gz [THEN conjunct2, THEN conjunct2]
  have i: "\<forall>c \<in> set ?i. is_digit c" "?i \<noteq> []" by (rule nat_str_digits) simp
  have gd: "\<forall>c \<in> set g. is_digit c" using frac18_digits [of "n mod 10 ^ 18"] f(1) by auto
  have len: "length g + length z = 18" using frac18_length [of "n mod 10 ^ 18"] f(1) by simp
  have z0: "dec_val z = 0" by (rule dec_val_zeros) (use f(2) in auto)
  have lz: "18 - length g = length z" using len by linarith
  have "dec_val (g @ z) = n mod 10 ^ 18" using dec_val_frac18 [of "n mod 10 ^ 18"] unfolding f(1) .
  then have val: "dec_val g * 10 ^ (18 - length g) = n mod 10 ^ 18"
    unfolding lz dec_val_append z0 add_0_right .
  have "decimal_char (int n) = ?i @ CHR ''.'' # g @ z" using f(1) by (simp add: decimal_char_def canon_text_def)
  then have t1: "trim_trailing (CHR ''0'') (decimal_char (int n)) = ?i @ CHR ''.'' # g"
    using trim_trailing_append [of z "CHR ''0''" "?i @ CHR ''.'' # g"] f(2,3) by (cases "g = []") auto
  show thesis
  proof (cases "g = []")
    case True
    have "last ?i \<noteq> CHR ''.''" using i point_not_digit by (metis last_in_set)
    then have "minimalDecimal (int n) = ?i"
      using t1 True trim_trailing_append [of "[CHR ''.'']" "CHR ''.''" ?i] by (simp add: minimalDecimal_def)
    moreover have "js_trim ?i = ?i" using i by (intro js_trim_digits) (auto intro: last_in_set hd_in_set)
    moreover have "n mod 10 ^ 18 = 0" using val True by simp
    then have "n div 10 ^ 18 * 10 ^ 18 = n" by (metis add.right_neutral div_mult_mod_eq)
    ultimately show thesis
      using that [of ?i] amount_ok_fraction(3,4) [OF i, of "''0''"] by (simp add: is_digit_def)
  next
    case False
    have "last g \<noteq> CHR ''.''" using False gd point_not_digit by (metis last_in_set)
    then have "minimalDecimal (int n) = ?i @ CHR ''.'' # g"
      using t1 False trim_trailing_append [of "[]" "CHR ''.''" "?i @ CHR ''.'' # g"] by (simp add: minimalDecimal_def)
    moreover have "js_trim (?i @ CHR ''.'' # g) = ?i @ CHR ''.'' # g"
      using i gd False by (intro js_trim_digits) (auto intro: last_in_set hd_in_set)
    ultimately show thesis
      using that [of "?i @ CHR ''.'' # g"] amount_ok_fraction(1,2) [OF i gd False] len val by simp
  qed
qed

lemma canonicalAmount_minimalDecimal: "0 \<le> v \<Longrightarrow> canonicalAmount (minimalDecimal v) = Inr (canon_text (nat v))"
  by (rule minimalDecimal_text [of "nat v"]) (simp add: canonicalAmount_text)

lemma canonicalAmount_decimal_char: "0 \<le> v \<Longrightarrow> canonicalAmount (decimal_char v) = Inr (canon_text (nat v))"
  by (simp add: decimal_char_def canonicalAmount_canon_text)

text \<open>The leaf of an amount in $10^{-18}$ units.\<close>

definition value_leaf :: "hash_fn \<Rightarrow> nat \<Rightarrow> octets option" where
  "value_leaf H v = (if v = 0 then None else Some (leafHash H (canon_text v)))"

lemma leafOrNull_value: "canonicalAmount s = Inr (canon_text v) \<Longrightarrow> leafOrNull H s = Inr (map_option hexenc (value_leaf H v))"
  by (simp add: leafOrNull_def ZERO_CANON_text canon_text_inject value_leaf_def)

section \<open>Balances and escrow as leaf sources\<close>

text \<open>Ids and names of the two index tables are unique.\<close>

definition index_ok :: "replica \<Rightarrow> bool" where
  "index_ok db \<longleftrightarrow> distinct (map fst (rp_addresses db)) \<and> distinct (map snd (rp_addresses db))
     \<and> distinct (map fst (rp_tickers db)) \<and> distinct (map snd (rp_tickers db))"

definition named_pairs :: "replica \<Rightarrow> (string \<times> string) list" where
  "named_pairs db = List.product (map snd (rp_addresses db)) (map snd (rp_tickers db))"

lemma map_of_value_inj:
  "distinct (map snd xs) \<Longrightarrow> map_of xs i = Some v \<Longrightarrow> map_of xs j = Some v \<Longrightarrow> i = j"
  using inj_onD [of snd "set xs" "(i, v)" "(j, v)"] by (auto simp: distinct_map dest!: map_of_SomeD)

lemma in_map_filter: "y \<in> set (List.map_filter f xs) \<longleftrightarrow> (\<exists>x \<in> set xs. f x = Some y)"
  by (auto simp: map_filter_def image_iff)

lemma names_of_inj: "index_ok db \<Longrightarrow> names_of db i = Some n \<Longrightarrow> names_of db j = Some n \<Longrightarrow> i = j"
  unfolding names_of_def index_ok_def
  by (auto split: option.splits intro!: prod_eqI dest: map_of_value_inj)

lemma names_of_named: "names_of db i = Some n \<Longrightarrow> n \<in> set (named_pairs db)"
  by (auto simp: names_of_def named_pairs_def split: option.splits dest!: map_of_SomeD intro: rev_image_eqI)

definition net_of :: "(string \<Rightarrow> int) \<Rightarrow> replica \<Rightarrow> string \<times> string \<Rightarrow> int" where
  "net_of cast db n =
     sum_amounts cast (filter (\<lambda>c. am_names db c = Some n) (rp_credits db)) -
     sum_amounts cast (filter (\<lambda>d. am_names db d = Some n) (rp_debits db))"

definition bal_leaf :: "hash_fn \<Rightarrow> (string \<Rightarrow> int) \<Rightarrow> replica \<Rightarrow> string \<times> string \<Rightarrow> octets option" where
  "bal_leaf H cast db n = value_leaf H (nat (net_of cast db n))"

definition bal_valid :: "(string \<Rightarrow> int) \<Rightarrow> replica \<Rightarrow> bool" where
  "bal_valid cast db \<longleftrightarrow> index_ok db \<and> (\<forall>n. 0 \<le> net_of cast db n)"

definition bal_live :: "(string \<Rightarrow> int) \<Rightarrow> replica \<Rightarrow> (string \<times> string) list" where
  "bal_live cast db = map fst (grouped_balances cast db)"

definition bal_touched :: "replica \<Rightarrow> (string option \<times> string option) list option \<Rightarrow> (string \<times> string) list" where
  "bal_touched db ks = touched_names ks"

text \<open>The touched keys of a block name every pair whose net amount moved.\<close>

definition bal_grown :: "(string \<Rightarrow> int) \<Rightarrow> (string option \<times> string option) list option \<Rightarrow> replica \<Rightarrow> replica \<Rightarrow> bool" where
  "bal_grown cast ks db db' \<longleftrightarrow> (\<forall>n. n \<notin> set (touched_names ks) \<longrightarrow> net_of cast db' n = net_of cast db n)"

lemma getNetBalance_net: "getNetBalance cast db (fst n) (snd n) = minimalDecimal (net_of cast db n)"
  by (simp add: getNetBalance_def net_of_def)

lemma net_by_ids_net:
  assumes "index_ok db" "names_of db i = Some n"
  shows "net_by_ids cast db i = net_of cast db n"
proof -
  have "((am_address r, am_tick r) = i) = (am_names db r = Some n)" for r
    using assms names_of_inj [OF assms(1)] by blast
  then show ?thesis by (simp add: net_by_ids_def net_of_def)
qed

lemma grouped_iff:
  assumes "index_ok db"
  shows "set (grouped_balances cast db) =
    {(n, decimal_char (net_of cast db n)) | n. net_of cast db n \<noteq> 0}"
proof -
  have "\<exists>r \<in> set (rp_credits db @ rp_debits db). am_names db r = Some n" if "net_of cast db n \<noteq> 0" for n
  proof (rule ccontr)
    assume "\<not> ?thesis"
    then have "filter (\<lambda>c. am_names db c = Some n) (rp_credits db) = []" "filter (\<lambda>c. am_names db c = Some n) (rp_debits db) = []"
      by (auto simp: filter_empty_conv)
    then show False using that by (simp add: net_of_def sum_amounts_def)
  qed
  then have named: "\<exists>i \<in> set (remdups (map (\<lambda>r. (am_address r, am_tick r)) (rp_credits db @ rp_debits db))). names_of db i = Some n"
    if "net_of cast db n \<noteq> 0" for n
    using that by fastforce
  have "(n, decimal_char (net_of cast db n)) \<in> set (grouped_balances cast db)" if ne: "net_of cast db n \<noteq> 0" for n
  proof -
    from named [OF ne] obtain i where i: "i \<in> set (remdups (map (\<lambda>r. (am_address r, am_tick r)) (rp_credits db @ rp_debits db)))"
      "names_of db i = Some n" by blast
    show ?thesis
      unfolding grouped_balances_def in_map_filter using i(2) ne net_by_ids_net [OF assms i(2), of cast]
      by (intro bexI [OF _ i(1)]) simp
  qed
  moreover have "\<exists>n. x = (n, decimal_char (net_of cast db n)) \<and> net_of cast db n \<noteq> 0"
    if x: "x \<in> set (grouped_balances cast db)" for x
  proof -
    from x obtain i where i: "(if net_by_ids cast db i = 0 then None
        else map_option (\<lambda>n. (n, decimal_char (net_by_ids cast db i))) (names_of db i)) = Some x"
      unfolding grouped_balances_def in_map_filter by blast
    then obtain n where n: "names_of db i = Some n" "x = (n, decimal_char (net_by_ids cast db i))" "net_by_ids cast db i \<noteq> 0"
      by (auto split: if_splits)
    then show ?thesis using net_by_ids_net [OF assms n(1), of cast] by (intro exI [of _ n]) simp
  qed
  ultimately show ?thesis by blast
qed

interpretation spendable: leaf_source "bal_valid cast" "bal_leaf H cast" bal_touched "bal_live cast" "bal_grown cast" for H cast
proof
  fix ks db db' n assume "bal_grown cast ks db db'" "n \<notin> set (bal_touched db' ks)"
  then show "bal_leaf H cast db' n = bal_leaf H cast db n" unfolding bal_grown_def bal_touched_def bal_leaf_def by metis
next
  fix db n assume "bal_valid cast db" "bal_leaf H cast db n \<noteq> None"
  then have "index_ok db" "net_of cast db n \<noteq> 0" by (auto simp: bal_valid_def bal_leaf_def value_leaf_def split: if_splits)
  then have "(n, decimal_char (net_of cast db n)) \<in> set (grouped_balances cast db)" unfolding grouped_iff [OF \<open>index_ok db\<close>] by blast
  then show "n \<in> set (bal_live cast db)" unfolding bal_live_def set_map by (rule rev_image_eqI) simp
qed

subsection \<open>Escrow\<close>

definition locked_leaf :: "hash_fn \<Rightarrow> string option \<Rightarrow> octets option" where
  "locked_leaf H locked =
     (case locked of None \<Rightarrow> None | Some s \<Rightarrow> if s = [] then None else value_leaf H (amount_value (js_trim s)))"

definition locked_ok :: "string option \<Rightarrow> bool" where
  "locked_ok locked = (case locked of None \<Rightarrow> True | Some s \<Rightarrow> s = [] \<or> is_ok (canonicalAmount s))"

definition esc_leaf :: "bool \<Rightarrow> hash_fn \<Rightarrow> replica \<Rightarrow> string \<times> string \<Rightarrow> octets option" where
  "esc_leaf esc H db n = (if esc then locked_leaf H (latestLockedAmount db (fst n) (snd n) None) else None)"

definition esc_valid :: "bool \<Rightarrow> replica \<Rightarrow> bool" where
  "esc_valid esc db \<longleftrightarrow> (esc \<longrightarrow>
     index_ok db \<and> sorted_wrt (\<lambda>r r'. ej_id r < ej_id r') (rp_escrow db) \<and> (\<forall>r \<in> set (rp_escrow db). locked_ok (ej_locked r)))"

definition esc_rows :: "replica \<Rightarrow> ((string \<times> string) \<times> string option) list" where
  "esc_rows db = List.map_filter (\<lambda>r. map_option (\<lambda>n. (n, ej_locked r)) (ej_names db r))
     (latest_rows ej_id (\<lambda>r. (ej_address r, ej_tick r)) (rp_escrow db))"

definition esc_live :: "bool \<Rightarrow> hash_fn \<Rightarrow> replica \<Rightarrow> (string \<times> string) list" where
  "esc_live esc H db = (if esc then map fst (filter (\<lambda>(n, l). locked_leaf H l \<noteq> None) (esc_rows db)) else [])"

definition esc_touched :: "bool \<Rightarrow> replica \<Rightarrow> int \<Rightarrow> (string \<times> string) list" where
  "esc_touched esc db b = (if esc then touchedEscrowKeys db b else [])"

text \<open>The journal of the next block; index rows of the older entries do not change.\<close>

definition esc_grown :: "bool \<Rightarrow> int \<Rightarrow> replica \<Rightarrow> replica \<Rightarrow> bool" where
  "esc_grown esc b db db' \<longleftrightarrow> (esc \<longrightarrow>
     (\<exists>new. rp_escrow db' = rp_escrow db @ new \<and> (\<forall>r \<in> set new. ej_block r = b))
   \<and> (\<forall>r \<in> set (rp_escrow db). ej_names db' r = ej_names db r))"

lemma escrowLeaf_locked: "locked_ok l \<Longrightarrow> escrowLeaf H l = Inr (map_option hexenc (locked_leaf H l))"
  by (auto simp: escrowLeaf_def locked_leaf_def locked_ok_def canonicalAmount_text ZERO_CANON_text canon_text_inject
      value_leaf_def split: option.splits if_splits)

lemma latest_locked:
  "latestLockedAmount db a t None =
     (case newest ej_id (filter (\<lambda>r. ej_names db r = Some (a, t)) (rp_escrow db)) of None \<Rightarrow> None | Some r \<Rightarrow> ej_locked r)"
  by (simp add: latestLockedAmount_def)

lemma esc_rows_latest:
  assumes "esc_valid True db"
  shows "(n, l) \<in> set (esc_rows db) \<longleftrightarrow>
    (\<exists>r. newest ej_id (filter (\<lambda>r. ej_names db r = Some n) (rp_escrow db)) = Some r \<and> l = ej_locked r)"
proof -
  let ?grp = "\<lambda>r. (ej_address r, ej_tick r)"
  have ix: "index_ok db" and inj: "inj_on ej_id (set (rp_escrow db))"
    using assms by (auto simp: esc_valid_def intro: sorted_ids_inj)
  have same: "filter (\<lambda>r'. ?grp r' = ?grp r) (rp_escrow db) = filter (\<lambda>r'. ej_names db r' = Some n) (rp_escrow db)"
    if "ej_names db r = Some n" for r
    using that names_of_inj [OF ix] by (intro filter_cong refl) metis
  have "(n, l) \<in> set (esc_rows db) \<longleftrightarrow>
    (\<exists>r. r \<in> set (latest_rows ej_id ?grp (rp_escrow db)) \<and> ej_names db r = Some n \<and> l = ej_locked r)"
    unfolding esc_rows_def in_map_filter map_option_eq_Some by (cases n) (auto simp: Bex_def)
  also have "\<dots> \<longleftrightarrow> (\<exists>r. newest ej_id (filter (\<lambda>r. ej_names db r = Some n) (rp_escrow db)) = Some r \<and> l = ej_locked r)"
  proof -
    have "r \<in> set (latest_rows ej_id ?grp (rp_escrow db)) \<and> ej_names db r = Some n \<longleftrightarrow>
      newest ej_id (filter (\<lambda>r. ej_names db r = Some n) (rp_escrow db)) = Some r" for r
    proof
      assume "r \<in> set (latest_rows ej_id ?grp (rp_escrow db)) \<and> ej_names db r = Some n"
      then show "newest ej_id (filter (\<lambda>r. ej_names db r = Some n) (rp_escrow db)) = Some r"
        using latest_rows_newest [OF inj, of r ?grp] same [of r] by simp
    next
      assume *: "newest ej_id (filter (\<lambda>r. ej_names db r = Some n) (rp_escrow db)) = Some r"
      then have "ej_names db r = Some n" using newest_Some [OF *] by simp
      then show "r \<in> set (latest_rows ej_id ?grp (rp_escrow db)) \<and> ej_names db r = Some n"
        using * latest_rows_newest [OF inj, of r ?grp] same [of r] by simp
    qed
    then show ?thesis by blast
  qed
  finally show ?thesis .
qed

interpretation escrow: leaf_source "esc_valid esc" "esc_leaf esc H" "esc_touched esc" "esc_live esc H" "esc_grown esc" for esc H
proof
  fix b db db' and n :: "string \<times> string"
  assume g: "esc_grown esc b db db'" and k: "n \<notin> set (esc_touched esc db' b)"
  show "esc_leaf esc H db' n = esc_leaf esc H db n"
  proof (cases esc)
    case True
    with g obtain new where new: "rp_escrow db' = rp_escrow db @ new" "\<forall>r \<in> set new. ej_block r = b"
      "\<forall>r \<in> set (rp_escrow db). ej_names db' r = ej_names db r"
      unfolding esc_grown_def by blast
    have "n \<in> set (touchedEscrowKeys db' b)" if "r \<in> set new" "ej_names db' r = Some n" for r
      unfolding touchedEscrowKeys_def set_remdups in_map_filter using that new(1,2) by (intro bexI [of _ r]) auto
    then have "filter (\<lambda>r. ej_names db' r = Some n) new = []"
      using k True by (auto simp: filter_empty_conv esc_touched_def)
    moreover have "filter (\<lambda>r. ej_names db' r = Some n) (rp_escrow db) = filter (\<lambda>r. ej_names db r = Some n) (rp_escrow db)"
      using new(3) by (intro filter_cong) auto
    ultimately have "filter (\<lambda>r. ej_names db' r = Some n) (rp_escrow db') = filter (\<lambda>r. ej_names db r = Some n) (rp_escrow db)"
      by (simp add: new(1))
    then show ?thesis by (simp add: esc_leaf_def latest_locked)
  qed (simp add: esc_leaf_def)
next
  fix db and n :: "string \<times> string"
  assume v: "esc_valid esc db" and l: "esc_leaf esc H db n \<noteq> None"
  then have esc by (auto simp: esc_leaf_def split: if_splits)
  with l obtain r where r: "newest ej_id (filter (\<lambda>r. ej_names db r = Some n) (rp_escrow db)) = Some r" "locked_leaf H (ej_locked r) \<noteq> None"
    by (auto simp: esc_leaf_def latest_locked locked_leaf_def split: option.splits)
  have "esc_valid True db" using v \<open>esc\<close> by simp
  from esc_rows_latest [OF this, THEN iffD2] have "(n, ej_locked r) \<in> set (esc_rows db)" using r(1) by blast
  then have "(n, ej_locked r) \<in> set (filter (\<lambda>(n, l). locked_leaf H l \<noteq> None) (esc_rows db))" using r(2) by simp
  then have "n \<in> fst ` set (filter (\<lambda>(n, l). locked_leaf H l \<noteq> None) (esc_rows db))" by (metis fst_conv image_eqI)
  then show "n \<in> set (esc_live esc H db)" using \<open>esc\<close> by (simp add: esc_live_def)
qed

interpretation balances: leaf_pair "bal_valid cast" "bal_leaf H cast" bal_touched "bal_live cast" "bal_grown cast"
  "esc_valid esc" "esc_leaf esc H" "esc_touched esc" "esc_live esc H" "esc_grown esc" for H cast esc
  by unfold_locales

subsection \<open>The balances tree\<close>

definition bt_key :: "hash_fn \<Rightarrow> string \<Rightarrow> string \<Rightarrow> (string \<times> string) + (string \<times> string) \<Rightarrow> octets" where
  "bt_key H chain network =
     case_sum (\<lambda>n. ok_value (balanceKey H chain network (fst n) (snd n))) (\<lambda>n. ok_value (escrowKey H chain network (fst n) (snd n)))"

definition bt_leaf :: "hash_fn \<Rightarrow> (string \<Rightarrow> int) \<Rightarrow> bool \<Rightarrow> replica \<Rightarrow> (string \<times> string) + (string \<times> string) \<Rightarrow> octets option" where
  "bt_leaf H cast esc db = case_sum (bal_leaf H cast db) (esc_leaf esc H db)"

definition bt_objects :: "replica \<Rightarrow> ((string \<times> string) + (string \<times> string)) list" where
  "bt_objects db = map Inl (named_pairs db) @ map Inr (named_pairs db)"

text \<open>The reference tree: the leaf of every indexed pair of an address and a ticker, spendable and (when the leaf is
  committed) locked.\<close>

definition balances_tree :: "hash_fn \<Rightarrow> (string \<Rightarrow> int) \<Rightarrow> bool \<Rightarrow> string \<Rightarrow> string \<Rightarrow> replica \<Rightarrow> smt" where
  "balances_tree H cast esc chain network db = replay (bt_key H chain network) (bt_leaf H cast esc db) (bt_objects db)"

definition balances_ok :: "hash_fn \<Rightarrow> (string \<Rightarrow> int) \<Rightarrow> bool \<Rightarrow> string \<Rightarrow> string \<Rightarrow> replica \<Rightarrow> bool" where
  "balances_ok H cast esc chain network db \<longleftrightarrow>
     bal_valid cast db \<and> esc_valid esc db
   \<and> inj_on (bt_key H chain network) (set (bt_objects db))
   \<and> (\<forall>n \<in> set (named_pairs db). is_ok (balanceKey H chain network (fst n) (snd n)) \<and> is_ok (escrowKey H chain network (fst n) (snd n)))
   \<and> (\<forall>k \<in> set (bt_objects db). length (bt_key H chain network k) = 32
        \<and> (\<forall>l. bt_leaf H cast esc db k = Some l \<longrightarrow> (\<forall>h \<le> SMT_DEPTH. l \<noteq> EMPTY H h)))"

abbreviation bt_updates where
  "bt_updates H cast esc chain network db ks \<equiv> updates_of (bt_key H chain network) (bt_leaf H cast esc db) ks"

definition bt_live :: "hash_fn \<Rightarrow> (string \<Rightarrow> int) \<Rightarrow> bool \<Rightarrow> replica \<Rightarrow> ((string \<times> string) + (string \<times> string)) list" where
  "bt_live H cast esc db = map Inl (bal_live cast db) @ map Inr (esc_live esc H db)"

definition bt_touched ::
  "bool \<Rightarrow> replica \<Rightarrow> (string option \<times> string option) list option \<Rightarrow> int \<Rightarrow> ((string \<times> string) + (string \<times> string)) list" where
  "bt_touched esc db ks b = map Inl (touched_names ks) @ map Inr (esc_touched esc db b)"

lemma bal_live_named:
  assumes "index_ok db"
  shows "set (bal_live cast db) \<subseteq> set (named_pairs db)"
proof
  fix n assume "n \<in> set (bal_live cast db)"
  then obtain x where "(n, x) \<in> set (grouped_balances cast db)" by (auto simp: bal_live_def)
  then obtain i where "(if net_by_ids cast db i = 0 then None
        else map_option (\<lambda>n. (n, decimal_char (net_by_ids cast db i))) (names_of db i)) = Some (n, x)"
    unfolding grouped_balances_def in_map_filter by blast
  then have "names_of db i = Some n" by (auto split: if_splits)
  then show "n \<in> set (named_pairs db)" by (rule names_of_named)
qed

lemma esc_touched_named: "set (esc_touched esc db b) \<subseteq> set (named_pairs db)"
  using names_of_named unfolding esc_touched_def touchedEscrowKeys_def
  by (auto simp: in_map_filter split: if_splits)

lemma esc_live_named: "set (esc_live esc H db) \<subseteq> set (named_pairs db)"
proof
  fix n assume "n \<in> set (esc_live esc H db)"
  then obtain l where "(n, l) \<in> set (esc_rows db)" by (auto simp: esc_live_def split: if_splits)
  then obtain r where "ej_names db r = Some n" unfolding esc_rows_def in_map_filter by auto
  then show "n \<in> set (named_pairs db)" by (rule names_of_named)
qed

lemma bt_live_objects: "index_ok db \<Longrightarrow> set (bt_live H cast esc db) \<subseteq> set (bt_objects db)"
  using bal_live_named [of db cast] esc_live_named [of esc H db] by (auto simp: bt_live_def bt_objects_def)

lemma bt_touched_objects:
  "set (touched_names ks) \<subseteq> set (named_pairs db) \<Longrightarrow> set (bt_touched esc db ks b) \<subseteq> set (bt_objects db)"
  using esc_touched_named [of esc db b] by (auto simp: bt_touched_def bt_objects_def)

lemma bt_leaf_live: "bal_valid cast db \<Longrightarrow> esc_valid esc db \<Longrightarrow> bt_leaf H cast esc db k \<noteq> None \<Longrightarrow> k \<in> set (bt_live H cast esc db)"
  using balances.both.live_all [of cast db esc H k] by (simp add: bt_leaf_def bt_live_def)

lemma balances_tree_table:
  assumes "bal_valid cast db" "esc_valid esc db" "inj_on (bt_key H chain network) K" "set (bt_objects db) \<subseteq> K"
    and "\<forall>k \<in> set (bt_objects db). length (bt_key H chain network k) = 32"
  shows "wf_smt (balances_tree H cast esc chain network db)"
    and "map_of (smt_entries (balances_tree H cast esc chain network db)) = leaf_table (bt_key H chain network) K (bt_leaf H cast esc db)"
proof -
  show "wf_smt (balances_tree H cast esc chain network db)"
    unfolding balances_tree_def by (rule replay_wf [OF assms(5)])
  have none: "bt_leaf H cast esc db k = None" if "k \<notin> set (bt_objects db)" for k
    using that bt_leaf_live [OF assms(1,2)] bt_live_objects [of db H cast esc] assms(1) unfolding bal_valid_def by blast
  have e: "map_of [] = leaf_table (bt_key H chain network) K (\<lambda>_. None)" by (simp add: leaf_table_None)
  show "map_of (smt_entries (balances_tree H cast esc chain network db)) = leaf_table (bt_key H chain network) K (bt_leaf H cast esc db)"
    unfolding balances_tree_def map_of_replay_run [OF assms(5)]
    by (rule updates_of_table [OF assms(3,4) e none])
qed

lemma bt_updates_ok:
  assumes "balances_ok H cast esc chain network db" "set ks \<subseteq> set (bt_objects db)"
  shows "updates_ok H (bt_updates H cast esc chain network db ks)"
proof -
  have "length (bt_key H chain network k) = 32 \<and> (\<forall>l. bt_leaf H cast esc db k = Some l \<longrightarrow> (\<forall>h \<le> SMT_DEPTH. l \<noteq> EMPTY H h))"
    if "k \<in> set ks" for k
    using assms that unfolding balances_ok_def by blast
  then show ?thesis unfolding updates_ok_def updates_of_def by (simp only: set_map ball_simps fst_conv snd_conv) blast
qed

section \<open>The loops compute the updates\<close>

lemma psmt_run_append:
  "psmt_run H ops st r (us @ vs) = (case psmt_run H ops st r us of (st', r') \<Rightarrow> psmt_run H ops st' r' vs)"
  by (induction us arbitrary: st r) (auto split: prod.splits)

lemma update_all_append:
  "(case update_all H db start us of (db1, r1) \<Rightarrow> update_all H db1 r1 vs) = update_all H db start (us @ vs)"
proof -
  obtain st r where "psmt_run H db_ops (rp_nodes db) start us = (st, r)" by fastforce
  then show ?thesis by (simp add: update_all_def psmt_run_append split: prod.splits)
qed

lemma update_all_frame: "update_all H db start us = (db', r) \<Longrightarrow> db' = db\<lparr>rp_nodes := rp_nodes db'\<rparr>"
  by (auto simp: update_all_def split: prod.splits)

lemma balance_update_ok:
  assumes "balances_ok H cast esc chain network db" "n \<in> set (named_pairs db)"
  shows "balance_update H chain network n leaf = Inr (bt_key H chain network (Inl n), leaf)"
    and "escrow_update H chain network n leaf = Inr (bt_key H chain network (Inr n), leaf)"
proof -
  have "is_ok (balanceKey H chain network (fst n) (snd n))" "is_ok (escrowKey H chain network (fst n) (snd n))"
    using assms by (auto simp: balances_ok_def)
  from this [THEN is_ok_value] obtain x y where
    "balanceKey H chain network (fst n) (snd n) = Inr x" "escrowKey H chain network (fst n) (snd n) = Inr y" by blast
  then show "balance_update H chain network n leaf = Inr (bt_key H chain network (Inl n), leaf)"
    "escrow_update H chain network n leaf = Inr (bt_key H chain network (Inr n), leaf)"
    by (simp_all add: balance_update_def escrow_update_def bt_key_def ok_value_def)
qed

lemma bal_leaf_net:
  "bal_valid cast db \<Longrightarrow> leafOrNull H (getNetBalance cast db (fst n) (snd n)) = Inr (map_option hexenc (bal_leaf H cast db n))"
  unfolding getNetBalance_net bal_leaf_def
  by (rule leafOrNull_value [OF canonicalAmount_minimalDecimal]) (unfold bal_valid_def, blast)

lemma bal_leaf_grouped:
  "bal_valid cast db \<Longrightarrow> leafOrNull H (decimal_char (net_of cast db n)) = Inr (map_option hexenc (bal_leaf H cast db n))"
  unfolding bal_leaf_def by (rule leafOrNull_value [OF canonicalAmount_decimal_char]) (unfold bal_valid_def, blast)

lemma esc_leaf_latest:
  assumes "esc_valid True db"
  shows "escrowLeaf H (latestLockedAmount db (fst n) (snd n) None) = Inr (map_option hexenc (esc_leaf True H db n))"
proof -
  have "locked_ok (latestLockedAmount db (fst n) (snd n) None)"
  proof (cases "newest ej_id (filter (\<lambda>r. ej_names db r = Some n) (rp_escrow db))")
    case None
    then show ?thesis by (simp add: latest_locked locked_ok_def)
  next
    case (Some r)
    then show ?thesis using newest_Some [OF Some] assms by (simp add: latest_locked esc_valid_def)
  qed
  then show ?thesis using escrowLeaf_locked by (simp add: esc_leaf_def)
qed

lemma thread_updates:
  assumes "balances_ok H cast esc chain network db" "set (touched_names ks) \<subseteq> set (named_pairs db)"
  shows "rtraverse (\<lambda>n. rbind (leafOrNull H (getNetBalance cast db (fst n) (snd n))) (balance_update H chain network n)) (touched_names ks) =
    Inr (wire_updates (bt_updates H cast esc chain network db (map Inl (touched_names ks))))"
proof -
  have v: "bal_valid cast db" using assms by (simp add: balances_ok_def)
  have "rtraverse (\<lambda>n. rbind (leafOrNull H (getNetBalance cast db (fst n) (snd n))) (balance_update H chain network n)) (touched_names ks) =
    Inr (map (\<lambda>n. (bt_key H chain network (Inl n), map_option hexenc (bal_leaf H cast db n))) (touched_names ks))"
    using assms by (intro rtraverse_Inr_map) (auto simp: bal_leaf_net [OF v] balance_update_ok)
  then show ?thesis by (simp add: wire_updates_def updates_of_def bt_leaf_def comp_def)
qed

lemma apply_escrow_updates:
  assumes "balances_ok H cast True chain network db"
  shows "applyEscrowLeaves H db start chain network b =
    Inr (update_all H db start (wire_updates (bt_updates H cast True chain network db (map Inr (touchedEscrowKeys db b)))))"
proof -
  have v: "esc_valid True db" using assms by (simp add: balances_ok_def)
  have named: "n \<in> set (named_pairs db)" if "n \<in> set (touchedEscrowKeys db b)" for n
    using that esc_touched_named [of True db b] by (auto simp: esc_touched_def)
  have "rtraverse (\<lambda>n. rbind (escrowLeaf H (latestLockedAmount db (fst n) (snd n) None)) (escrow_update H chain network n)) (touchedEscrowKeys db b) =
    Inr (map (\<lambda>n. (bt_key H chain network (Inr n), map_option hexenc (esc_leaf True H db n))) (touchedEscrowKeys db b))"
    using named by (intro rtraverse_Inr_map) (simp add: esc_leaf_latest [OF v] balance_update_ok [OF assms])
  then show ?thesis by (simp add: applyEscrowLeaves_def wire_updates_def updates_of_def bt_leaf_def comp_def)
qed

lemma live_escrow_leaves:
  assumes "esc_valid True db"
  shows "liveEscrowLeaves H db = Inr (map (\<lambda>n. (n, hexenc (the (esc_leaf True H db n)))) (esc_live True H db))"
proof -
  have row: "locked_leaf H l = esc_leaf True H db n \<and> locked_ok l" if "(n, l) \<in> set (esc_rows db)" for n l
  proof -
    from that esc_rows_latest [OF assms] obtain r where
      r: "newest ej_id (filter (\<lambda>r. ej_names db r = Some n) (rp_escrow db)) = Some r" "l = ej_locked r" by blast
    then show ?thesis using newest_Some [OF r(1)] assms by (simp add: esc_leaf_def latest_locked esc_valid_def)
  qed
  have "rtraverse (\<lambda>(n, locked). rbind (escrowLeaf H locked) (\<lambda>leaf. Inr (n, leaf))) (esc_rows db) =
    Inr (map (\<lambda>(n, l). (n, map_option hexenc (locked_leaf H l))) (esc_rows db))"
    using row by (intro rtraverse_Inr_map) (auto simp: escrowLeaf_locked)
  moreover have "List.map_filter (\<lambda>(n, leaf). map_option (Pair n) leaf) (map (\<lambda>(n, l). (n, map_option hexenc (locked_leaf H l))) rows) =
    map (\<lambda>n. (n, hexenc (the (esc_leaf True H db n)))) (map fst (filter (\<lambda>(n, l). locked_leaf H l \<noteq> None) rows))"
    if "set rows \<subseteq> set (esc_rows db)" for rows
    using that row by (induction rows) (auto simp: map_filter_simps)
  ultimately show ?thesis
    unfolding liveEscrowLeaves_def esc_rows_def [symmetric] Let_def by (simp add: esc_live_def)
qed

lemma full_escrow_updates:
  assumes "balances_ok H cast True chain network db"
  shows "rtraverse (\<lambda>(n, leaf). escrow_update H chain network n (Some leaf)) (map (\<lambda>n. (n, hexenc (the (esc_leaf True H db n)))) (esc_live True H db)) =
    Inr (wire_updates (bt_updates H cast True chain network db (map Inr (esc_live True H db))))"
proof -
  have present: "esc_leaf True H db n = Some (the (esc_leaf True H db n))" if "n \<in> set (esc_live True H db)" for n
  proof -
    have v: "esc_valid True db" using assms by (simp add: balances_ok_def)
    from that obtain l where "(n, l) \<in> set (esc_rows db)" "locked_leaf H l \<noteq> None" by (auto simp: esc_live_def)
    then show ?thesis using esc_rows_latest [OF v] by (auto simp: esc_leaf_def latest_locked)
  qed
  have "escrow_update H chain network n (Some (hexenc (the (esc_leaf True H db n)))) =
      Inr (bt_key H chain network (Inr n), map_option hexenc (esc_leaf True H db n))" if "n \<in> set (esc_live True H db)" for n
    using balance_update_ok(2) [OF assms, of n] present [OF that] esc_live_named [of True H db] that
    by (metis option.simps(9) subsetD)
  then have "rtraverse (\<lambda>n. escrow_update H chain network n (Some (hexenc (the (esc_leaf True H db n))))) (esc_live True H db) =
    Inr (map (\<lambda>n. (bt_key H chain network (Inr n), map_option hexenc (esc_leaf True H db n))) (esc_live True H db))"
    by (rule rtraverse_Inr_map)
  moreover have "rtraverse (\<lambda>(n, leaf). escrow_update H chain network n (Some leaf)) (map (\<lambda>n. (n, f n)) ns) =
    rtraverse (\<lambda>n. escrow_update H chain network n (Some (f n))) ns" for f ns
    by (induction ns) auto
  ultimately show ?thesis by (simp add: wire_updates_def updates_of_def bt_leaf_def comp_def)
qed

lemma full_spendable_updates:
  assumes "balances_ok H cast esc chain network db"
  shows "rtraverse (\<lambda>(n, net). rbind (leafOrNull H net) (\<lambda>leaf. Inr (n, leaf))) (grouped_balances cast db) =
      Inr (map (\<lambda>n. (n, map_option hexenc (bal_leaf H cast db n))) (bal_live cast db))"
    and "rtraverse (\<lambda>(n, leaf). balance_update H chain network n leaf)
        (filter (\<lambda>(n, leaf). leaf \<noteq> None) (map (\<lambda>n. (n, map_option hexenc (bal_leaf H cast db n))) (bal_live cast db))) =
      Inr (wire_updates (bt_updates H cast esc chain network db (map Inl (bal_live cast db))))"
proof -
  have v: "bal_valid cast db" and ix: "index_ok db" using assms by (auto simp: balances_ok_def bal_valid_def)
  have elem: "snd p = decimal_char (net_of cast db (fst p)) \<and> net_of cast db (fst p) \<noteq> 0" if "p \<in> set (grouped_balances cast db)" for p
    using that unfolding grouped_iff [OF ix] by auto
  have "rtraverse (\<lambda>(n, net). rbind (leafOrNull H net) (\<lambda>leaf. Inr (n, leaf))) (grouped_balances cast db) =
      Inr (map (\<lambda>p. (fst p, map_option hexenc (bal_leaf H cast db (fst p)))) (grouped_balances cast db))"
    by (rule rtraverse_Inr_map) (use elem bal_leaf_grouped [OF v] in \<open>auto simp: case_prod_beta\<close>)
  then show "rtraverse (\<lambda>(n, net). rbind (leafOrNull H net) (\<lambda>leaf. Inr (n, leaf))) (grouped_balances cast db) =
      Inr (map (\<lambda>n. (n, map_option hexenc (bal_leaf H cast db n))) (bal_live cast db))"
    by (simp add: bal_live_def comp_def)
  have present: "bal_leaf H cast db n \<noteq> None" if n: "n \<in> set (bal_live cast db)" for n
  proof -
    from n obtain p where p: "p \<in> set (grouped_balances cast db)" "n = fst p" unfolding bal_live_def by auto
    have "0 \<le> net_of cast db n" using v unfolding bal_valid_def by blast
    then have "nat (net_of cast db n) \<noteq> 0" using elem [OF p(1)] p(2) by simp
    then show ?thesis by (simp add: bal_leaf_def value_leaf_def)
  qed
  then have f: "filter (\<lambda>(n, leaf). leaf \<noteq> None) (map (\<lambda>n. (n, map_option hexenc (bal_leaf H cast db n))) (bal_live cast db)) =
      map (\<lambda>n. (n, map_option hexenc (bal_leaf H cast db n))) (bal_live cast db)"
    by (intro filter_True) auto
  have tr: "rtraverse (\<lambda>(n, leaf). balance_update H chain network n leaf) (map (\<lambda>n. (n, f n)) ns) =
    rtraverse (\<lambda>n. balance_update H chain network n (f n)) ns" for f ns
    by (induction ns) auto
  have "rtraverse (\<lambda>n. balance_update H chain network n (map_option hexenc (bal_leaf H cast db n))) (bal_live cast db) =
    Inr (map (\<lambda>n. (bt_key H chain network (Inl n), map_option hexenc (bal_leaf H cast db n))) (bal_live cast db))"
    using bal_live_named [OF ix, of cast] by (intro rtraverse_Inr_map balance_update_ok(1) [OF assms]) auto
  then show "rtraverse (\<lambda>(n, leaf). balance_update H chain network n leaf)
        (filter (\<lambda>(n, leaf). leaf \<noteq> None) (map (\<lambda>n. (n, map_option hexenc (bal_leaf H cast db n))) (bal_live cast db))) =
      Inr (wire_updates (bt_updates H cast esc chain network db (map Inl (bal_live cast db))))"
    unfolding f tr by (simp add: wire_updates_def updates_of_def bt_leaf_def comp_def)
qed

lemma wire_append: "wire_updates (us @ vs) = wire_updates us @ wire_updates vs"
  by (simp add: wire_updates_def)

lemma updates_of_append: "updates_of kf m (xs @ ys) = updates_of kf m xs @ updates_of kf m ys"
  by (simp add: updates_of_def)

lemma build_full_updates:
  assumes ok: "balances_ok H cast esc chain network db"
    and esc: "esc \<longleftrightarrow> isEscrowLockedLeafActive T (JInt b) network (Some chain) \<or> force"
  shows "buildFullBalancesRoot H cast T db chain network b force =
    Inr (update_all H db (EMPTY_ROOT_HEX H) (wire_updates (bt_updates H cast esc chain network db (bt_live H cast esc db))))"
proof -
  let ?us = "wire_updates (bt_updates H cast esc chain network db (map Inl (bal_live cast db)))"
  obtain db1 r1 where u: "update_all H db (EMPTY_ROOT_HEX H) ?us = (db1, r1)" by fastforce
  show ?thesis
  proof (cases esc)
    case True
    let ?vs = "wire_updates (bt_updates H cast esc chain network db (map Inr (esc_live esc H db)))"
    have "esc_valid True db" "balances_ok H cast True chain network db" using ok True by (auto simp: balances_ok_def)
    then have "buildFullBalancesRoot H cast T db chain network b force = Inr (update_all H db1 r1 ?vs)"
      unfolding buildFullBalancesRoot_def full_spendable_updates [OF ok] rbind_simps
      using True esc u by (simp add: live_escrow_leaves full_escrow_updates)
    moreover have "update_all H db1 r1 ?vs = update_all H db (EMPTY_ROOT_HEX H) (?us @ ?vs)"
      using update_all_append [where H = H and db = db and start = "EMPTY_ROOT_HEX H" and us = ?us and vs = ?vs] u by simp
    ultimately show ?thesis by (simp add: bt_live_def wire_append updates_of_append)
  next
    case False
    then show ?thesis
      unfolding buildFullBalancesRoot_def full_spendable_updates [OF ok] rbind_simps
      using esc u by (simp add: bt_live_def esc_live_def)
  qed
qed

text \<open>None of the readers looks at the node table.\<close>

lemma nodes_frame [simp]:
  "names_of (db\<lparr>rp_nodes := x\<rparr>) = names_of db"
  "net_of cast (db\<lparr>rp_nodes := x\<rparr>) = net_of cast db"
  "named_pairs (db\<lparr>rp_nodes := x\<rparr>) = named_pairs db"
  "index_ok (db\<lparr>rp_nodes := x\<rparr>) = index_ok db"
  "touchedEscrowKeys (db\<lparr>rp_nodes := x\<rparr>) = touchedEscrowKeys db"
  "latestLockedAmount (db\<lparr>rp_nodes := x\<rparr>) = latestLockedAmount db"
  by (simp_all add: fun_eq_iff names_of_def net_of_def named_pairs_def index_ok_def touchedEscrowKeys_def latestLockedAmount_def)

lemma balances_frame [simp]:
  "bt_leaf H cast esc (db\<lparr>rp_nodes := x\<rparr>) = bt_leaf H cast esc db"
  "balances_ok H cast esc chain network (db\<lparr>rp_nodes := x\<rparr>) = balances_ok H cast esc chain network db"
  "balances_tree H cast esc chain network (db\<lparr>rp_nodes := x\<rparr>) = balances_tree H cast esc chain network db"
proof -
  show l: "bt_leaf H cast esc (db\<lparr>rp_nodes := x\<rparr>) = bt_leaf H cast esc db"
    by (cases esc) (simp_all add: bt_leaf_def bal_leaf_def [abs_def] esc_leaf_def [abs_def])
  show "balances_ok H cast esc chain network (db\<lparr>rp_nodes := x\<rparr>) = balances_ok H cast esc chain network db"
    by (simp add: balances_ok_def bal_valid_def esc_valid_def bt_objects_def l)
  show "balances_tree H cast esc chain network (db\<lparr>rp_nodes := x\<rparr>) = balances_tree H cast esc chain network db"
    by (simp add: balances_tree_def bt_objects_def l)
qed

lemma escrow_gate_mono:
  assumes "isEscrowLockedLeafActive T (JInt (b - 1)) network coin"
  shows "isEscrowLockedLeafActive T (JInt b) network coin"
proof -
  have s: "strictHeight (JInt i) = (if 0 \<le> i then Some i else None)" for i
    by (simp add: strictHeight_def JInt_def)
  from assms show ?thesis
    by (auto simp: isEscrowLockedLeafActive_def atOrAfter_def s split: option.splits if_splits)
qed

definition escrow_committed :: "subtree_tables \<Rightarrow> string \<Rightarrow> string \<Rightarrow> int \<Rightarrow> bool" where
  "escrow_committed T chain network b = isEscrowLockedLeafActive T (JInt b) network (Some chain)"

text \<open>The stored root a block may thread from: none on the activation block, on the block that arms the escrow
  leaf, and without a row for the previous block.\<close>

definition balances_prior ::
  "subtree_tables \<Rightarrow> replica \<Rightarrow> string \<Rightarrow> string \<Rightarrow> int \<Rightarrow> bool \<Rightarrow> string option" where
  "balances_prior T db chain network b act =
     (if act \<or> (escrow_committed T chain network b \<and> \<not> escrow_committed T chain network (b - 1)) then None
      else truthy (map_option rr_balances (roots_at db chain network (b - 1))))"

definition balances_start ::
  "hash_fn \<Rightarrow> (string \<Rightarrow> int) \<Rightarrow> (octets \<times> octets) set \<Rightarrow> subtree_tables \<Rightarrow> string \<Rightarrow> string \<Rightarrow> replica \<Rightarrow> replica
   \<Rightarrow> int \<Rightarrow> (string option \<times> string option) list option \<Rightarrow> bool \<Rightarrow> bool" where
  "balances_start H cast A T chain network db0 db b ks act \<longleftrightarrow>
     (let esc = escrow_committed T chain network b in
      case balances_prior T db chain network b act of
        None \<Rightarrow> store_ok H A (db_get (rp_nodes db))
          \<and> pairs_within H A [] (bt_updates H cast esc chain network db (bt_live H cast esc db))
      | Some r \<Rightarrow>
          (let t0 = balances_tree H cast (escrow_committed T chain network (b - 1)) chain network db0 in
             r = smt_rootHex H t0
           \<and> serves H A (db_get (rp_nodes db)) (smt_entries t0)
           \<and> bal_valid cast db0 \<and> esc_valid esc db0 \<and> set (named_pairs db0) \<subseteq> set (named_pairs db)
           \<and> bal_grown cast ks db0 db \<and> esc_grown esc b db0 db
           \<and> set (touched_names ks) \<subseteq> set (named_pairs db)
           \<and> pairs_within H A (smt_entries t0) (bt_updates H cast esc chain network db (bt_touched esc db ks b))))"

lemma balances_finish:
  assumes A: "hash_ok H A" and ok: "balances_ok H cast esc chain network db"
    and "updates_ok H us" "pairs_within H A es us" "serves H A (db_get (rp_nodes db)) es" "r = hexenc (smtNode H es 0)"
    and m: "map_of (run_from es us) = leaf_table (bt_key H chain network) (set (bt_objects db)) (bt_leaf H cast esc db)"
  shows "\<exists>nodes. update_all H db r (wire_updates us) =
      (db\<lparr>rp_nodes := nodes\<rparr>, smt_rootHex H (balances_tree H cast esc chain network db))
    \<and> serves H A (db_get nodes) (smt_entries (balances_tree H cast esc chain network db))"
proof -
  let ?t = "balances_tree H cast esc chain network db"
  obtain db' r' where u: "update_all H db r (wire_updates us) = (db', r')" by fastforce
  have "inj_on (bt_key H chain network) (set (bt_objects db))" "\<forall>k \<in> set (bt_objects db). length (bt_key H chain network k) = 32"
    "bal_valid cast db" "esc_valid esc db"
    using ok by (simp_all add: balances_ok_def)
  note tab = balances_tree_table [OF this(3,4,1) order_refl this(2)]
  note ref = update_all_refines [OF A assms(3-6) u]
  have wf: "wf_entries (run_from es us)" using ref by (auto simp: serves_def tree_ok_def)
  have same: "set (run_from es us) = set (smt_entries ?t)"
    using entries_eqI [OF wf wf_smt_entries [OF tab(1)]] m tab(2) by simp
  have "r' = smt_rootHex H ?t" using ref root_of_table [OF wf tab(1), of H] m tab(2) by simp
  moreover have "serves H A (db_get (rp_nodes db')) (smt_entries ?t)"
    using serves_cong [OF wf wf_smt_entries [OF tab(1)] same] ref by blast
  ultimately show ?thesis using u ref by metis
qed

text \<open>What a computed balances root has to be.\<close>

definition exact_balances ::
    "hash_fn \<Rightarrow> (string \<Rightarrow> int) \<Rightarrow> (octets \<times> octets) set \<Rightarrow> subtree_tables \<Rightarrow> string \<Rightarrow> string \<Rightarrow> replica \<Rightarrow> int \<Rightarrow> (string option \<times> string option) list option \<Rightarrow> bool \<Rightarrow> bool" where
  "exact_balances H cast A T chain network db b ks act \<longleftrightarrow> (\<exists>nodes shadow.
      computeFollowerBalancesRoot H cast T db chain network b ks act =
        Inr \<lparr>br_db = db\<lparr>rp_nodes := nodes\<rparr>,
             br_root = smt_rootHex H (balances_tree H cast (escrow_committed T chain network b) chain network db),
             br_shadow_updates = shadow,
             br_esc_shadow = isEscrowLockedLeafShadowActive T (JInt b) network (Some chain)\<rparr>
    \<and> serves H A (db_get nodes) (smt_entries (balances_tree H cast (escrow_committed T chain network b) chain network db)))"

lemma balances_rebuilt:
  assumes A: "hash_ok H A"
    and ok: "balances_ok H cast (escrow_committed T chain network b) chain network db"
    and start: "balances_start H cast A T chain network db0 db b ks act"
    and None: "balances_prior T db chain network b act = None"
  shows "exact_balances H cast A T chain network db b ks act"
proof -
  let ?esc = "escrow_committed T chain network b" and ?K = "set (bt_objects db)" and ?kf = "bt_key H chain network"
  have inj: "inj_on ?kf ?K" and len: "\<forall>k \<in> ?K. length (?kf k) = 32"
    and v: "bal_valid cast db" "esc_valid ?esc db" using ok by (simp_all add: balances_ok_def)
  have ix: "index_ok db" using v by (simp add: bal_valid_def)
  have st: "store_ok H A (db_get (rp_nodes db))"
    "pairs_within H A [] (bt_updates H cast ?esc chain network db (bt_live H cast ?esc db))"
    using start None by (simp_all add: balances_start_def Let_def)
  have "map_of (run_from [] (bt_updates H cast ?esc chain network db (bt_live H cast ?esc db))) =
    leaf_table ?kf ?K (bt_leaf H cast ?esc db)"
    using balances.both.full_table [where H = H and cast = cast and esc = ?esc, OF inj _, of db] bt_live_objects [OF ix, of H cast ?esc] v
    by (simp add: bt_live_def bt_leaf_def)
  from balances_finish [OF A ok bt_updates_ok [OF ok bt_live_objects [OF ix]] st(2) serves_empty_tree [OF st(1) A] EMPTY_ROOT_entries this]
  obtain nodes where n: "update_all H db (EMPTY_ROOT_HEX H) (wire_updates (bt_updates H cast ?esc chain network db (bt_live H cast ?esc db))) =
    (db\<lparr>rp_nodes := nodes\<rparr>, smt_rootHex H (balances_tree H cast ?esc chain network db))"
    "serves H A (db_get nodes) (smt_entries (balances_tree H cast ?esc chain network db))" by blast
  have "act \<or> ?esc \<and> \<not> escrow_committed T chain network (b - 1)
      \<or> truthy (map_option rr_balances (roots_at db chain network (b - 1))) = None"
    using None by (auto simp: balances_prior_def split: if_splits)
  then have "computeFollowerBalancesRoot H cast T db chain network b ks act =
      Inr \<lparr>br_db = db\<lparr>rp_nodes := nodes\<rparr>, br_root = smt_rootHex H (balances_tree H cast ?esc chain network db), br_shadow_updates = None,
           br_esc_shadow = isEscrowLockedLeafShadowActive T (JInt b) network (Some chain)\<rparr>"
    using build_full_updates [OF ok, of T b False] n(1)
    by (auto simp: computeFollowerBalancesRoot_def escrow_committed_def Let_def)
  with n(2) show ?thesis unfolding exact_balances_def by blast
qed

text \<open>The incremental thread: the prior root is committed with the same escrow gate, and the touched pairs exist.\<close>

lemma balances_thread_start:
  assumes A: "hash_ok H A"
    and ok: "balances_ok H cast (escrow_committed T chain network b) chain network db"
    and start: "balances_start H cast A T chain network db0 db b ks act"
    and Some: "balances_prior T db chain network b act = Some r"
  shows "\<not> act" "truthy (map_option rr_balances (roots_at db chain network (b - 1))) = Some r"
    and "escrow_committed T chain network (b - 1) = escrow_committed T chain network b"
    and "set (touched_names ks) \<subseteq> set (named_pairs db)"
proof -
  show "\<not> act" "truthy (map_option rr_balances (roots_at db chain network (b - 1))) = Some r"
    and "escrow_committed T chain network (b - 1) = escrow_committed T chain network b"
    using Some escrow_gate_mono by (auto simp: balances_prior_def escrow_committed_def split: if_splits)
  show "set (touched_names ks) \<subseteq> set (named_pairs db)" using start Some by (simp add: balances_start_def Let_def)
qed

lemma balances_thread_nodes:
  assumes A: "hash_ok H A"
    and ok: "balances_ok H cast (escrow_committed T chain network b) chain network db"
    and start: "balances_start H cast A T chain network db0 db b ks act"
    and Some: "balances_prior T db chain network b act = Some r"
  shows "\<exists>nodes. update_all H db r (wire_updates (bt_updates H cast (escrow_committed T chain network b) chain network db
        (bt_touched (escrow_committed T chain network b) db ks b))) =
      (db\<lparr>rp_nodes := nodes\<rparr>, smt_rootHex H (balances_tree H cast (escrow_committed T chain network b) chain network db))
    \<and> serves H A (db_get nodes) (smt_entries (balances_tree H cast (escrow_committed T chain network b) chain network db))"
proof -
  let ?esc = "escrow_committed T chain network b" and ?K = "set (bt_objects db)" and ?kf = "bt_key H chain network"
  have inj: "inj_on ?kf ?K" and len: "\<forall>k \<in> ?K. length (?kf k) = 32"
    and v: "bal_valid cast db" "esc_valid ?esc db" using ok by (simp_all add: balances_ok_def)
  let ?t0 = "balances_tree H cast (escrow_committed T chain network (b - 1)) chain network db0"
  have e0: "escrow_committed T chain network (b - 1) = ?esc" by (rule balances_thread_start(3) [OF A ok start Some])
  have st: "r = smt_rootHex H ?t0" "serves H A (db_get (rp_nodes db)) (smt_entries ?t0)"
    "bal_valid cast db0" "esc_valid ?esc db0" "set (named_pairs db0) \<subseteq> set (named_pairs db)"
    "bal_grown cast ks db0 db" "esc_grown ?esc b db0 db" "set (touched_names ks) \<subseteq> set (named_pairs db)"
    "pairs_within H A (smt_entries ?t0) (bt_updates H cast ?esc chain network db (bt_touched ?esc db ks b))"
    using start Some by (simp_all add: balances_start_def Let_def)
  have sub: "set (bt_objects db0) \<subseteq> ?K" using st(5) by (auto simp: bt_objects_def)
  have m0: "map_of (smt_entries ?t0) = leaf_table ?kf ?K (bt_leaf H cast ?esc db0)"
    unfolding e0 using sub len by (intro balances_tree_table(2) [OF st(3,4) inj sub]) blast
  have tou: "set (bt_touched ?esc db ks b) \<subseteq> ?K" by (rule bt_touched_objects [OF st(8)])
  have "map_of (run_from (smt_entries ?t0) (bt_updates H cast ?esc chain network db (bt_touched ?esc db ks b))) =
    leaf_table ?kf ?K (bt_leaf H cast ?esc db)"
    using balances.both.thread_table [where H = H and cast = cast and esc = ?esc and b = "(ks, b)", OF inj, of db db0 "smt_entries ?t0"]
      tou v st(6,7) m0 by (simp add: bt_touched_def bal_touched_def bt_leaf_def)
  from balances_finish [OF A ok bt_updates_ok [OF ok tou] st(9,2) _ this, of r]
  show ?thesis using st(1) by (auto simp: smt_rootHex_def smt_root_def)
qed

lemma balances_threaded:
  assumes A: "hash_ok H A"
    and ok: "balances_ok H cast (escrow_committed T chain network b) chain network db"
    and start: "balances_start H cast A T chain network db0 db b ks act"
    and Some: "balances_prior T db chain network b act = Some r"
  shows "exact_balances H cast A T chain network db b ks act"
proof -
  let ?esc = "escrow_committed T chain network b"
  note prior = balances_thread_start(1,2) [OF A ok start Some] and e0 = balances_thread_start(3) [OF A ok start Some]
    and tou = balances_thread_start(4) [OF A ok start Some]
  obtain nodes where n: "update_all H db r (wire_updates (bt_updates H cast ?esc chain network db (bt_touched ?esc db ks b))) =
    (db\<lparr>rp_nodes := nodes\<rparr>, smt_rootHex H (balances_tree H cast ?esc chain network db))"
    "serves H A (db_get nodes) (smt_entries (balances_tree H cast ?esc chain network db))"
    using balances_thread_nodes [OF A ok start Some] by blast
  let ?us = "wire_updates (bt_updates H cast ?esc chain network db (map Inl (touched_names ks)))"
  obtain db1 r1 where u: "update_all H db r ?us = (db1, r1)" by fastforce
  obtain x where db1: "db1 = db\<lparr>rp_nodes := x\<rparr>" using update_all_frame [OF u] by blast
  let ?shadow = "if isEscrowLockedLeafShadowActive T (JInt b) network (Some chain) then Some ?us else None"
  have go: "computeFollowerBalancesRoot H cast T db chain network b ks act =
    (if ?esc then rbind (applyEscrowLeaves H db1 r1 chain network b)
         (\<lambda>(db2, r2). Inr \<lparr>br_db = db2, br_root = r2, br_shadow_updates = ?shadow,
            br_esc_shadow = isEscrowLockedLeafShadowActive T (JInt b) network (Some chain)\<rparr>)
     else Inr \<lparr>br_db = db1, br_root = r1, br_shadow_updates = ?shadow,
            br_esc_shadow = isEscrowLockedLeafShadowActive T (JInt b) network (Some chain)\<rparr>)"
    using prior e0 thread_updates [OF ok tou] u
    by (simp add: computeFollowerBalancesRoot_def escrow_committed_def Let_def)
  show ?thesis
  proof (cases ?esc)
    case True
    let ?vs = "wire_updates (bt_updates H cast True chain network db (map Inr (touchedEscrowKeys db b)))"
    have "applyEscrowLeaves H db1 r1 chain network b = Inr (update_all H db1 r1 ?vs)"
      using apply_escrow_updates [of H cast chain network db1 r1 b] ok True by (simp add: db1)
    moreover have "update_all H db1 r1 ?vs = update_all H db r (?us @ ?vs)"
      using update_all_append [where H = H and db = db and start = r and us = ?us and vs = ?vs] u by simp
    moreover have "?us @ ?vs = wire_updates (bt_updates H cast ?esc chain network db (bt_touched ?esc db ks b))"
      using True by (simp add: bt_touched_def esc_touched_def wire_append updates_of_append)
    ultimately show ?thesis unfolding exact_balances_def using go True n by auto
  next
    case False
    then have "wire_updates (bt_updates H cast ?esc chain network db (bt_touched ?esc db ks b)) = ?us"
      by (simp add: bt_touched_def esc_touched_def)
    then show ?thesis unfolding exact_balances_def using go False n u by auto
  qed
qed

text \<open>(C2) The balances root of a block is the root of the reference tree that holds the exact net amount of
  every indexed pair, and from the armed height on the locked total of every locker, on every branch:
  activation block, arming block, missing predecessor and incremental thread.  The replica only gains nodes and
  the store then serves that tree.\<close>

theorem follower_balances_root_exact:
  assumes A: "hash_ok H A"
    and ok: "balances_ok H cast (escrow_committed T chain network b) chain network db"
    and start: "balances_start H cast A T chain network db0 db b ks act"
  shows "\<exists>nodes shadow.
      computeFollowerBalancesRoot H cast T db chain network b ks act =
        Inr \<lparr>br_db = db\<lparr>rp_nodes := nodes\<rparr>,
             br_root = smt_rootHex H (balances_tree H cast (escrow_committed T chain network b) chain network db),
             br_shadow_updates = shadow,
             br_esc_shadow = isEscrowLockedLeafShadowActive T (JInt b) network (Some chain)\<rparr>
    \<and> serves H A (db_get nodes) (smt_entries (balances_tree H cast (escrow_committed T chain network b) chain network db))"
  using balances_rebuilt [OF assms] balances_threaded [OF assms]
  unfolding exact_balances_def by (cases "balances_prior T db chain network b act") blast+

text \<open>A hash for examples: the identity, except that leaves are cut to the length of the empty leaf.\<close>

definition cut_hash :: hash_fn where
  "cut_hash m = (if take 1 m = [LEAF_PREFIX] then take 18 m else m)"

lemma cut_nodeHash: "nodeHash cut_hash = nodeHash id"
  by (simp add: fun_eq_iff nodeHash_def cut_hash_def NODE_PREFIX_def LEAF_PREFIX_def)

lemma cut_EMPTY: "EMPTY cut_hash k = EMPTY id k"
proof -
  have same: "EMPTY H k = EMPTY H' k" if "nodeHash H = nodeHash H'" "EMPTY H 0 = EMPTY H' 0" for H H' k
    using that by (induction k) simp_all
  show ?thesis by (rule same [OF cut_nodeHash]) (simp add: cut_hash_def EMPTY_PREFIX_def LEAF_PREFIX_def)
qed

lemma cut_smtNode: "smtNode cut_hash es d = smtNode id es d"
proof (induction cut_hash es d rule: smtNode.induct)
  case (1 es d)
  then show ?case by (subst (1 2) smtNode.simps) (auto simp: cut_EMPTY cut_nodeHash)
qed

lemma cut_pairs: "tree_pairs cut_hash es = tree_pairs id es" "empty_pairs cut_hash = empty_pairs id"
  by (simp_all add: tree_pairs_def node_pair_def empty_pairs_def cut_smtNode cut_EMPTY)

lemma hash_ok_cut: "hash_ok cut_hash even_pairs"
  using hash_ok_id unfolding hash_ok_def collision_free_def cut_pairs cut_nodeHash cut_EMPTY .

lemma pairs_within_cut:
  "\<forall>e \<in> set es. length (snd e) = 18 \<Longrightarrow> \<forall>u \<in> set us. \<forall>l. snd u = Some l \<longrightarrow> length l = 18 \<Longrightarrow>
     pairs_within cut_hash even_pairs es us"
  using pairs_within_id [of es us] unfolding pairs_within_def cut_pairs by blast

lemma value_leaf_cut:
  assumes "value_leaf cut_hash v = Some l"
  shows "length l = 18" "l \<noteq> EMPTY cut_hash h"
proof -
  have "length (frac18 (v mod 10 ^ 18)) = 18" by (rule frac18_length) simp
  then have len: "18 \<le> length (canon_text v)" by (simp add: canon_text_def)
  have l: "l = take 18 (LEAF_PREFIX # canon_text v)"
    using assms by (auto simp: value_leaf_def leafHash_def cut_hash_def split: if_splits)
  then show "length l = 18" using len by simp
  have "hd l = LEAF_PREFIX" using l by simp
  moreover have "hd (EMPTY id h) \<noteq> LEAF_PREFIX"
    by (cases h) (simp_all add: nodeHash_def LEAF_PREFIX_def EMPTY_PREFIX_def NODE_PREFIX_def)
  ultimately show "l \<noteq> EMPTY cut_hash h" unfolding cut_EMPTY by metis
qed

lemma bt_leaf_cut:
  assumes "bt_leaf cut_hash cast esc db k = Some l"
  shows "length l = 18" "l \<noteq> EMPTY cut_hash h"
proof -
  from assms obtain v where "value_leaf cut_hash v = Some l"
    by (auto simp: bt_leaf_def bal_leaf_def esc_leaf_def locked_leaf_def split: sum.splits if_splits option.splits)
  then show "length l = 18" "l \<noteq> EMPTY cut_hash h" by (rule value_leaf_cut)+
qed

lemma replay_leaves:
  assumes "\<forall>r \<in> set rows. length (key r) = 32 \<and> (\<forall>l. leaf r = Some l \<longrightarrow> length l = n)"
  shows "\<forall>e \<in> set (smt_entries (replay key leaf rows)). length (snd e) = n"
  using assms
proof (induction rows rule: rev_induct)
  case (snoc y rows)
  then have "wf_smt (replay key leaf rows)" "length (key y) = 32" by (auto intro: replay_wf)
  from smt_entries_set [OF this, of "leaf y"] snoc show ?case
    by (auto simp: replay_def put_entry_def split: option.splits)
qed (simp add: replay_def smt_new_def smt_entries_def)

subsection \<open>A locker and a balance\<close>

definition armed_tables :: subtree_tables where
  "armed_tables = \<lparr>STATE_SUBTREE_ACTIVATION = JUndef, STATE_SUBTREE_SHADOW = JUndef,
     ESCROW_LOCKED_LEAF_ACTIVATION = JObj [(''BTC:mainnet'', JInt 50)], ESCROW_LOCKED_LEAF_SHADOW = JUndef\<rparr>"

definition credit_of :: "string \<Rightarrow> amount_row" where
  "credit_of s = \<lparr>am_address = 1, am_tick = 1, am_amount = s\<rparr>"

definition wallet :: "node_table \<Rightarrow> amount_row list \<Rightarrow> escrow_row list \<Rightarrow> roots_row list \<Rightarrow> replica" where
  "wallet nodes credits journal rts =
     \<lparr>rp_nodes = nodes, rp_contract_state = [], rp_escrow = journal, rp_credits = credits, rp_debits = [],
      rp_addresses = [(1, ''alice'')], rp_tickers = [(1, ''ABC'')], rp_roots = rts\<rparr>"

definition sql_cast :: "string \<Rightarrow> int" where
  "sql_cast s = int (amount_value s)"

lemma escrow_armed: "50 \<le> b \<Longrightarrow> escrow_committed armed_tables ''BTC'' ''mainnet'' b"
  by (simp add: escrow_committed_def isEscrowLockedLeafActive_def armed_tables_def atOrAfter_def subtree_threshold_def
      prop_of_def own_def strictHeight_def JInt_def)

lemma wallet_named: "named_pairs (wallet n c j t) = [(''alice'', ''ABC'')]"
  by (simp add: named_pairs_def wallet_def)

lemma wallet_names: "am_address r = 1 \<Longrightarrow> am_tick r = 1 \<Longrightarrow> am_names (wallet n c j t) r = Some (''alice'', ''ABC'')"
  by (simp add: names_of_def wallet_def)

lemma wallet_valid: "bal_valid sql_cast (wallet n c j t)"
proof -
  have "0 \<le> sum_amounts sql_cast rows" for rows
    by (induction rows) (simp_all add: sum_amounts_def sql_cast_def)
  then show ?thesis by (simp add: bal_valid_def index_ok_def wallet_def net_of_def) (simp add: sum_amounts_def)
qed

lemma wallet_keys:
  "balanceKey cut_hash ''BTC'' ''mainnet'' ''alice'' ''ABC'' = Inr (join_nul [''XCHAIN_BAL'', ''BTC'', ''mainnet'', ''alice'', ''ABC''])"
  "escrowKey cut_hash ''BTC'' ''mainnet'' ''alice'' ''ABC'' = Inr (join_nul [''XCHAIN_ESC'', ''BTC'', ''mainnet'', ''alice'', ''ABC''])"
  by (simp_all add: balanceKey_def escrowKey_def smtKey_def joinFields_def field_octets_def NUL_def cut_hash_def LEAF_PREFIX_def)

lemma wallet_ok:
  assumes "esc_valid True (wallet n c j t)"
  shows "balances_ok cut_hash sql_cast True ''BTC'' ''mainnet'' (wallet n c j t)"
proof -
  have "bt_key cut_hash ''BTC'' ''mainnet'' (Inl (''alice'', ''ABC'')) = join_nul [''XCHAIN_BAL'', ''BTC'', ''mainnet'', ''alice'', ''ABC'']"
    "bt_key cut_hash ''BTC'' ''mainnet'' (Inr (''alice'', ''ABC'')) = join_nul [''XCHAIN_ESC'', ''BTC'', ''mainnet'', ''alice'', ''ABC'']"
    using wallet_keys by (simp_all add: bt_key_def ok_value_def)
  then show ?thesis
    using assms wallet_valid [of n c j t] wallet_keys bt_leaf_cut(2)
    unfolding balances_ok_def bt_objects_def wallet_named by (auto simp: inj_on_def)
qed


text \<open>Height 100 builds the tree of one credit from nothing; height 101 adds a credit and a locked amount and
  threads from the stored root, above the armed height of the escrow leaf.\<close>

lemma follower_balances_root_exact_witness:
  "\<exists>db. balances_prior armed_tables db ''BTC'' ''mainnet'' 101 False \<noteq> None
    \<and> touchedEscrowKeys db 101 = [(''alice'', ''ABC'')]
    \<and> (\<exists>r. computeFollowerBalancesRoot cut_hash sql_cast armed_tables db ''BTC'' ''mainnet'' 101 (Some [(Some ''alice'', Some ''ABC'')]) False = Inr r
         \<and> br_root r = smt_rootHex cut_hash (balances_tree cut_hash sql_cast True ''BTC'' ''mainnet'' db))"
proof -
  let ?ks = "Some [(Some ''alice'', Some ''ABC'')]"
  let ?lock = "[\<lparr>ej_id = 1, ej_block = 101, ej_address = 1, ej_tick = 1, ej_locked = Some ''2''\<rparr>]"
  let ?c0 = "[credit_of ''5'']" let ?c1 = "[credit_of ''5'', credit_of ''7'']"
  let ?t0 = "balances_tree cut_hash sql_cast True ''BTC'' ''mainnet'' (wallet [] ?c0 [] [])"
  have esc: "escrow_committed armed_tables ''BTC'' ''mainnet'' b" if "50 \<le> b" for b by (rule escrow_armed [OF that])
  have ok0: "balances_ok cut_hash sql_cast True ''BTC'' ''mainnet'' (wallet n ?c0 [] t)" for n t
    by (rule wallet_ok) (simp add: esc_valid_def index_ok_def wallet_def)
  have two: "is_ok (canonicalAmount ''2'')" by code_simp
  have ok1: "balances_ok cut_hash sql_cast True ''BTC'' ''mainnet'' (wallet n ?c1 ?lock t)" for n t
    by (rule wallet_ok) (simp add: esc_valid_def index_ok_def wallet_def locked_ok_def two)
  have up18: "\<forall>u \<in> set (bt_updates cut_hash sql_cast e ''BTC'' ''mainnet'' db gs). \<forall>l. snd u = Some l \<longrightarrow> length l = 18" for e db gs
    using bt_leaf_cut(1) by (auto simp: updates_of_def)
  have p0: "balances_prior armed_tables (wallet [] ?c0 [] []) ''BTC'' ''mainnet'' 100 True = None"
    by (simp add: balances_prior_def)
  have "balances_start cut_hash sql_cast even_pairs armed_tables ''BTC'' ''mainnet'' (wallet [] ?c0 [] []) (wallet [] ?c0 [] []) 100 None True"
    unfolding balances_start_def Let_def p0 option.case
    by (intro conjI pairs_within_cut up18) (simp_all add: store_ok_def wallet_def db_get_map_of)
  from follower_balances_root_exact [OF hash_ok_cut _ this] ok0 esc [of 100]
  obtain nodes where s0: "serves cut_hash even_pairs (db_get nodes) (smt_entries ?t0)" by auto
  let ?db = "wallet nodes ?c1 ?lock [sample_roots 100 (smt_rootHex cut_hash ?t0) None]"
  have t0: "balances_tree cut_hash sql_cast True ''BTC'' ''mainnet'' (wallet n ?c0 [] []) = ?t0" for n
    using balances_frame(3) [where db = "wallet [] ?c0 [] []" and x = n] by (simp add: wallet_def)
  have leaves: "\<forall>e \<in> set (smt_entries ?t0). length (snd e) = 18"
    unfolding balances_tree_def
    by (rule replay_leaves) (use ok0 [of "[]" "[]"] bt_leaf_cut(1) in \<open>auto simp: balances_ok_def\<close>)
  have "smt_rootHex cut_hash ?t0 \<noteq> []"
    using root_id_nonempty [OF leaves] by (simp add: smt_rootHex_def smt_root_def cut_smtNode)
  then have prior: "balances_prior armed_tables ?db ''BTC'' ''mainnet'' 101 False = Some (smt_rootHex cut_hash ?t0)"
    using esc by (simp add: balances_prior_def roots_at_def wallet_def sample_roots_def truthy_def)
  have net: "net_of sql_cast (wallet n c j t) m = 0" if "\<forall>r \<in> set c. am_address r = 1 \<and> am_tick r = 1" "m \<noteq> (''alice'', ''ABC'')" for n c j t m
  proof -
    have "filter (\<lambda>r. am_names (wallet n c j t) r = Some m) c = []" using that wallet_names by (auto simp: filter_empty_conv)
    then show ?thesis by (simp add: net_of_def wallet_def sum_amounts_def)
  qed
  have tn: "touched_names ?ks = [(''alice'', ''ABC'')]" by (simp add: touched_names_def map_filter_simps)
  have g1: "bal_grown sql_cast ?ks (wallet nodes ?c0 [] []) ?db"
    unfolding bal_grown_def tn using net by (simp add: credit_of_def)
  have g2: "esc_grown True 101 (wallet nodes ?c0 [] []) ?db" by (simp add: esc_grown_def wallet_def)
  have v0: "esc_valid True (wallet nodes ?c0 [] [])" using ok0 by (simp add: balances_ok_def)
  have w: "pairs_within cut_hash even_pairs (smt_entries ?t0) (bt_updates cut_hash sql_cast True ''BTC'' ''mainnet'' ?db (bt_touched True ?db ?ks 101))"
    by (intro pairs_within_cut leaves up18)
  have n: "rp_nodes ?db = nodes" by (simp add: wallet_def)
  have e: "escrow_committed armed_tables ''BTC'' ''mainnet'' (101 - 1) = True" "escrow_committed armed_tables ''BTC'' ''mainnet'' 101 = True"
    using esc by simp_all
  have "balances_start cut_hash sql_cast even_pairs armed_tables ''BTC'' ''mainnet'' (wallet nodes ?c0 [] []) ?db 101 ?ks False"
    unfolding balances_start_def Let_def prior option.case e t0 [of nodes] n tn wallet_named
    by (intro conjI refl s0 wallet_valid v0 g1 g2 w subset_refl)
  from follower_balances_root_exact [OF hash_ok_cut _ this] ok1 esc [of 101]
  have "\<exists>r. computeFollowerBalancesRoot cut_hash sql_cast armed_tables ?db ''BTC'' ''mainnet'' 101 ?ks False = Inr r
      \<and> br_root r = smt_rootHex cut_hash (balances_tree cut_hash sql_cast True ''BTC'' ''mainnet'' ?db)" by auto
  moreover have "touchedEscrowKeys ?db 101 = [(''alice'', ''ABC'')]"
    by (simp add: touchedEscrowKeys_def map_filter_simps names_of_def wallet_def)
  ultimately show ?thesis using prior by (metis option.distinct(1))
qed

end
