(* ===== verification/Block_Roots.thy ===== *)
theory Block_Roots
  imports Balances_Root
begin

text \<open>
  The row of \<^verbatim>\<open>state_tree_roots\<close> a block or a snapshot stores, and the memo of the stakes tree.
\<close>

section \<open>The row of a block\<close>

text \<open>The sub-roots a stored row describes.\<close>

definition row_extra :: "roots_row \<Rightarrow> (string \<times> string) list option" where
  "row_extra row = map_option (\<lambda>r. [(''contract_state_root'', r)]) (rr_contract_state row)"

lemma candidates_shape:
  "reservedSubRootCandidates H T db chain network b = Inr (db', c) \<Longrightarrow> c = None \<or> (\<exists>r. c = Some [(''contract_state_root'', r)])"
  by (auto simp: reservedSubRootCandidates_def rbind_Inr_iff split: if_splits)

lemma gated_shape:
  assumes "reservedSubRootCandidates H T db chain network b = Inr (db', c)"
    and "gateSubRoots T (candidate_roots c) (JInt b) network (Some chain) = Inr extra"
  shows "extra = None \<or> (\<exists>r. extra = Some [(''contract_state_root'', r)]
    \<and> subtree_active_at T ''contract_state_root'' (JInt b) network (Some chain))"
  using candidates_shape [OF assms(1)] assms(2)
  by (auto simp: candidate_roots_def gateSubRoots_def rbind_Inr_iff subtree_active_at_def split: if_splits)

lemma assemble_column:
  assumes "extra = None \<or> (\<exists>r. extra = Some [(''contract_state_root'', r)])"
  shows "assembleStateRoot H bal stk extra =
    assembleStateRoot H bal stk (map_option (\<lambda>r. [(''contract_state_root'', r)]) (extraSubRootColumn extra ''contract_state_root''))"
  using assms by (auto simp: assembleStateRoot_def extraSubRootColumn_def truthy_def RESERVED_SUBTREES_def Let_def)

lemma find_updated:
  "list_ex P xs \<Longrightarrow> (\<And>x. x \<in> set xs \<Longrightarrow> P (if P x then f x else x) = P x) \<Longrightarrow>
     find P (map (\<lambda>x. if P x then f x else x) xs) = map_option f (find P xs)"
  by (induction xs) (auto simp: find_None_iff list_ex_iff split: if_splits)

lemma roots_at_upsert:
  assumes "\<And>r. same_root_key row r \<Longrightarrow> same_root_key row (upd r)"
  shows "roots_at (upsert_roots upd row db) (rr_chain row) (rr_network row) (rr_block row) =
      Some (case roots_at db (rr_chain row) (rr_network row) (rr_block row) of None \<Rightarrow> row | Some r \<Rightarrow> upd r)"
proof -
  have P: "(\<lambda>r. rr_chain r = rr_chain row \<and> rr_network r = rr_network row \<and> rr_block r = rr_block row) = same_root_key row"
    by (auto simp: same_root_key_def fun_eq_iff)
  show ?thesis
  proof (cases "list_ex (same_root_key row) (rp_roots db)")
    case True
    then obtain r where "find (same_root_key row) (rp_roots db) = Some r"
      by (cases "find (same_root_key row) (rp_roots db)") (auto simp: find_None_iff list_ex_iff)
    then show ?thesis
      using True find_updated [OF True, of upd] assms by (simp add: roots_at_def P upsert_roots_def)
  next
    case False
    then have "find (same_root_key row) (rp_roots db) = None" by (simp add: find_None_iff list_ex_iff)
    moreover have "find Q (xs @ [x]) = (case find Q xs of None \<Rightarrow> if Q x then Some x else None | Some y \<Rightarrow> Some y)" for Q and xs :: "roots_row list" and x
      by (induction xs) auto
    ultimately show ?thesis using False by (simp add: roots_at_def P upsert_roots_def same_root_key_def)
  qed
qed

lemma roots_at_upsert_other:
  assumes "\<And>r. same_root_key row r \<Longrightarrow> same_root_key row (upd r)" "(c, n, b) \<noteq> (rr_chain row, rr_network row, rr_block row)"
  shows "roots_at (upsert_roots upd row db) c n b = roots_at db c n b"
proof -
  let ?Q = "\<lambda>r. rr_chain r = c \<and> rr_network r = n \<and> rr_block r = b"
  have no: "\<not> ?Q row" "\<And>r. same_root_key row r \<Longrightarrow> \<not> ?Q r \<and> \<not> ?Q (upd r)"
    using assms by (auto simp: same_root_key_def)
  have "find ?Q (map (\<lambda>r. if same_root_key row r then upd r else r) xs) = find ?Q xs" for xs
    using no(2) by (induction xs) auto
  moreover have "find ?Q (xs @ [row]) = find ?Q xs" for xs
    using no(1) by (induction xs) auto
  ultimately show ?thesis by (simp add: roots_at_def upsert_roots_def)
qed

definition same_sources :: "replica \<Rightarrow> replica \<Rightarrow> bool" where
  "same_sources db db' \<longleftrightarrow>
     (\<exists>nodes rts. db' = db\<lparr>rp_nodes := nodes, rp_roots := rts\<rparr>)"

lemma same_sources_refl: "same_sources db db"
  unfolding same_sources_def by (intro exI [of _ "rp_nodes db"] exI [of _ "rp_roots db"]) simp

lemma same_sources_trans: "same_sources a b \<Longrightarrow> same_sources b c \<Longrightarrow> same_sources a c"
  unfolding same_sources_def by force

definition nodes_only :: "replica \<Rightarrow> replica \<Rightarrow> bool" where
  "nodes_only db db' \<longleftrightarrow> (\<exists>nodes. db' = db\<lparr>rp_nodes := nodes\<rparr>)"

lemma nodes_only_intros [wf_intros]:
  "nodes_only db db" "nodes_only db (db\<lparr>rp_nodes := x\<rparr>)"
  "update_all H db r us = (db', r') \<Longrightarrow> nodes_only db db'"
  using update_all_frame [of H db r us db' r'] unfolding nodes_only_def
  by (auto intro: exI [of _ "rp_nodes db"])

lemma nodes_only_update: "nodes_only db (fst (update_all H db r us))"
  using nodes_only_intros(3) [of H db r us "fst (update_all H db r us)" "snd (update_all H db r us)"] by simp

lemma nodes_only_trans: "nodes_only a b \<Longrightarrow> nodes_only b c \<Longrightarrow> nodes_only a c"
  by (auto simp: nodes_only_def)

lemma nodes_only_contract: "resolveContractStateRoot H db chain network b sh = Inr (db', r) \<Longrightarrow> nodes_only db db'"
  by (auto simp: resolveContractStateRoot_def buildFullContractStateRoot_def Let_def rbind_Inr_iff
      intro: nodes_only_intros split: option.splits)

lemma nodes_only_escrow: "applyEscrowLeaves H db s chain network b = Inr (db', r) \<Longrightarrow> nodes_only db db'"
  by (auto simp: applyEscrowLeaves_def rbind_Inr_iff intro: nodes_only_intros)

lemma nodes_only_escrow_after:
  "applyEscrowLeaves H (fst (update_all H db r us)) s chain network b = Inr (db', r') \<Longrightarrow> nodes_only db db'"
  using nodes_only_trans [OF nodes_only_update nodes_only_escrow] by blast

lemma nodes_only_full: "buildFullBalancesRoot H cast T db chain network b f = Inr (db', r) \<Longrightarrow> nodes_only db db'"
  unfolding buildFullBalancesRoot_def
  by (auto simp: rbind_Inr_iff case_prod_beta Let_def split: if_splits
      intro: nodes_only_update nodes_only_trans nodes_only_intros)

lemma nodes_only_balances:
  "computeFollowerBalancesRoot H cast T db chain network b ks act = Inr bal \<Longrightarrow> nodes_only db (br_db bal)"
  unfolding computeFollowerBalancesRoot_def
  by (auto simp: Let_def rbind_Inr_iff case_prod_beta split: if_splits
      intro: nodes_only_update nodes_only_full nodes_only_escrow_after)

lemma nodes_only_shadow:
  assumes "resolveShadowBalancesRoot H db chain network b us (\<lambda>d. buildFullBalancesRoot H cast T d chain network b True) = Inr (db', r)"
  shows "nodes_only db db'"
  using assms
  by (auto simp: resolveShadowBalancesRoot_def Let_def case_prod_beta split: option.splits
      intro: nodes_only_full nodes_only_escrow_after)

lemma nodes_only_stakes: "buildStakesRoot H memo db chain network b es = (memo', db', r) \<Longrightarrow> nodes_only db db'"
  by (auto simp: buildStakesRoot_def Let_def split: prod.splits option.splits if_splits intro: nodes_only_intros)

lemma nodes_only_candidates:
  "reservedSubRootCandidates H T db chain network b = Inr (db', c) \<Longrightarrow> nodes_only db db'"
  "shadowSubRoots H T db chain network b = Inr (db', c) \<Longrightarrow> nodes_only db db'"
  by (auto simp: reservedSubRootCandidates_def shadowSubRoots_def rbind_Inr_iff split: if_splits
      intro: nodes_only_intros nodes_only_contract)


lemma nodes_only_roots: "nodes_only db db' \<Longrightarrow> rp_roots db' = rp_roots db \<and> roots_at db' = roots_at db"
  by (auto simp: nodes_only_def roots_at_def fun_eq_iff)

text \<open>The steps of \<^verbatim>\<open>computeFollowerRoots\<close> as one chain.\<close>

lemma follower_steps:
  assumes "computeFollowerRoots H cast T caps memo db chain network b bi = Inr (memo', db', row)"
  obtains bal stakesRoot extra shadow db2 db3 db4 db5 cands esc where
    "computeFollowerBalancesRoot H cast T db chain network b (bi_touched bi) (bi_activation bi) = Inr bal"
    "nodes_only (br_db bal) db2" "chain \<noteq> ''BTC'' \<longrightarrow> stakesRoot = EMPTY_ROOT_HEX H"
    "reservedSubRootCandidates H T db2 chain network b = Inr (db3, cands)"
    "gateSubRoots T (candidate_roots cands) (JInt b) network (Some chain) = Inr extra"
    "shadowSubRoots H T db3 chain network b = Inr (db4, shadow)"
    "nodes_only db4 db5" "\<not> br_esc_shadow bal \<longrightarrow> esc = None"
    "computeBlockMerkleRoot H (bi_rows bi) = Inr (rr_block_merkle row)"
    "row = \<lparr>rr_chain = chain, rr_network = network, rr_block = b, rr_balances = br_root bal, rr_stakes = stakesRoot,
       rr_state = assembleStateRoot H (br_root bal) stakesRoot extra, rr_block_merkle = rr_block_merkle row,
       rr_contract_state = extraSubRootColumn extra ''contract_state_root'',
       rr_contract_shadow = extraSubRootColumn shadow ''contract_state_root'', rr_escrow_shadow = esc\<rparr>"
    "db' = upsert_roots (\<lambda>_. row) row db5"
proof -
  from assms obtain bal stk db3 cands extra db4 shadow es bm where *:
    "computeFollowerBalancesRoot H cast T db chain network b (bi_touched bi) (bi_activation bi) = Inr bal"
    "(if chain = ''BTC'' then rbind (gatherStakeEntries H caps (bi_weights bi) chain)
        (\<lambda>e. Inr (buildStakesRoot H memo (br_db bal) chain network b e)) else Inr (memo, br_db bal, EMPTY_ROOT_HEX H)) = Inr (memo', stk)"
    "reservedSubRootCandidates H T (fst stk) chain network b = Inr (db3, cands)"
    "gateSubRoots T (candidate_roots cands) (JInt b) network (Some chain) = Inr extra"
    "shadowSubRoots H T db3 chain network b = Inr (db4, shadow)"
    "(if br_esc_shadow bal then rbind (resolveShadowBalancesRoot H db4 chain network b (br_shadow_updates bal)
        (\<lambda>d. buildFullBalancesRoot H cast T d chain network b True)) (\<lambda>(d, r). Inr (d, Some r)) else Inr (db4, None)) = Inr es"
    "computeBlockMerkleRoot H (bi_rows bi) = Inr bm"
    "row = \<lparr>rr_chain = chain, rr_network = network, rr_block = b, rr_balances = br_root bal, rr_stakes = snd stk,
       rr_state = assembleStateRoot H (br_root bal) (snd stk) extra, rr_block_merkle = bm,
       rr_contract_state = extraSubRootColumn extra ''contract_state_root'',
       rr_contract_shadow = extraSubRootColumn shadow ''contract_state_root'', rr_escrow_shadow = snd es\<rparr>"
    "db' = upsert_roots (\<lambda>_. row) row (fst es)"
    unfolding computeFollowerRoots_def Let_def
    by (elim rbind_InrE) (simp add: case_prod_beta, elim rbind_InrE, fastforce simp: case_prod_beta elim: rbind_InrE)
  have "nodes_only (br_db bal) (fst stk) \<and> (chain \<noteq> ''BTC'' \<longrightarrow> snd stk = EMPTY_ROOT_HEX H)"
    using *(2) nodes_only_stakes [of H memo "br_db bal" chain network b _ memo' "fst stk" "snd stk"]
    by (auto simp: rbind_Inr_iff split: if_splits intro: nodes_only_intros)
  moreover have "nodes_only db4 (fst es) \<and> (\<not> br_esc_shadow bal \<longrightarrow> snd es = None)"
    using *(6) by (auto simp: rbind_Inr_iff split: if_splits intro: nodes_only_intros nodes_only_shadow)
  ultimately show thesis using that [of bal "fst stk" "snd stk" db3 cands extra db4 shadow "fst es" "snd es"] * by simp
qed

text \<open>(C25) The row a block stores describes itself: its state root is assembled from its own columns, a
  contract-state column is set only at heights where the slot is armed, the two shadow columns are empty wherever
  their leaf is committed, a chain without capability staking commits the empty stakes tree, and apart from new nodes and that one
  row the replica is unchanged.\<close>

theorem follower_roots_row_consistent:
  assumes "computeFollowerRoots H cast T caps memo db chain network b bi = Inr (memo', db', row)"
  shows "roots_at db' chain network b = Some row
    \<and> rr_state row = assembleStateRoot H (rr_balances row) (rr_stakes row) (row_extra row)
    \<and> (rr_contract_state row \<noteq> None \<longrightarrow> subtree_active_at T ''contract_state_root'' (JInt b) network (Some chain))
    \<and> (subtree_active_at T ''contract_state_root'' (JInt b) network (Some chain) \<longrightarrow> rr_contract_shadow row = None)
    \<and> (escrow_committed T chain network b \<longrightarrow> rr_escrow_shadow row = None)
    \<and> (chain \<noteq> ''BTC'' \<longrightarrow> rr_stakes row = EMPTY_ROOT_HEX H)
    \<and> same_sources db db'
    \<and> (\<forall>c n h. (c, n, h) \<noteq> (chain, network, b) \<longrightarrow> roots_at db' c n h = roots_at db c n h)"
proof -
  obtain bal stk extra shadow db2 db3 db4 db5 cands esc where s:
    "computeFollowerBalancesRoot H cast T db chain network b (bi_touched bi) (bi_activation bi) = Inr bal"
    "nodes_only (br_db bal) db2" "chain \<noteq> ''BTC'' \<longrightarrow> stk = EMPTY_ROOT_HEX H"
    "reservedSubRootCandidates H T db2 chain network b = Inr (db3, cands)"
    "gateSubRoots T (candidate_roots cands) (JInt b) network (Some chain) = Inr extra"
    "shadowSubRoots H T db3 chain network b = Inr (db4, shadow)"
    "nodes_only db4 db5" "\<not> br_esc_shadow bal \<longrightarrow> esc = None"
    "row = \<lparr>rr_chain = chain, rr_network = network, rr_block = b, rr_balances = br_root bal, rr_stakes = stk,
       rr_state = assembleStateRoot H (br_root bal) stk extra, rr_block_merkle = rr_block_merkle row,
       rr_contract_state = extraSubRootColumn extra ''contract_state_root'',
       rr_contract_shadow = extraSubRootColumn shadow ''contract_state_root'', rr_escrow_shadow = esc\<rparr>"
    "db' = upsert_roots (\<lambda>_. row) row db5"
    by (rule follower_steps [OF assms])
  have row: "rr_chain row = chain" "rr_network row = network" "rr_block row = b" "rr_balances row = br_root bal"
    "rr_stakes row = stk" "rr_state row = assembleStateRoot H (br_root bal) stk extra"
    "rr_contract_state row = extraSubRootColumn extra ''contract_state_root''"
    "rr_contract_shadow row = extraSubRootColumn shadow ''contract_state_root''" "rr_escrow_shadow row = esc"
    by (subst s(9), simp)+
  have same: "same_root_key row r \<Longrightarrow> same_root_key row row" for r by (simp add: same_root_key_def)
  have nodes: "nodes_only db db5"
    using nodes_only_balances [OF s(1)] s(2) nodes_only_candidates(1) [OF s(4)] nodes_only_candidates(2) [OF s(6)] s(7)
    by (blast intro: nodes_only_trans)
  have gate: "extra = None \<or> (\<exists>r. extra = Some [(''contract_state_root'', r)]
      \<and> subtree_active_at T ''contract_state_root'' (JInt b) network (Some chain))"
    by (rule gated_shape [OF s(4,5)])
  have shadow: "shadow = None" if "subtree_active_at T ''contract_state_root'' (JInt b) network (Some chain)"
    using s(6) that by (simp add: shadowSubRoots_def isSubtreeShadowActive_def subtree_active_at_def)
  have "br_esc_shadow bal = isEscrowLockedLeafShadowActive T (JInt b) network (Some chain)"
    using s(1) by (auto simp: computeFollowerBalancesRoot_def Let_def rbind_Inr_iff case_prod_beta split: if_splits)
  then have esc: "esc = None" if "escrow_committed T chain network b"
    using s(8) that by (simp add: isEscrowLockedLeafShadowActive_def escrow_committed_def)
  have at1: "roots_at db' chain network b = Some row"
    using roots_at_upsert [of row "\<lambda>_. row" db5] same s(10) row by (simp split: option.splits)
  have at2: "roots_at db' c n h = roots_at db c n h" if "(c, n, h) \<noteq> (chain, network, b)" for c n h
    using roots_at_upsert_other [of row "\<lambda>_. row" c n h db5] same that row s(10) nodes_only_roots [OF nodes] by simp
  have src: "same_sources db db'"
    using nodes s(10) unfolding nodes_only_def same_sources_def upsert_roots_def by auto
  have st: "rr_state row = assembleStateRoot H (rr_balances row) (rr_stakes row) (row_extra row)"
    using assemble_column [of extra H "br_root bal" stk] gate row by (auto simp: row_extra_def)
  show ?thesis
    using at1 at2 src st gate shadow esc s(3) row by (auto simp: extraSubRootColumn_def)
qed

definition unarmed_tables :: subtree_tables where
  "unarmed_tables = \<lparr>STATE_SUBTREE_ACTIVATION = JUndef, STATE_SUBTREE_SHADOW = JUndef,
     ESCROW_LOCKED_LEAF_ACTIVATION = JUndef, ESCROW_LOCKED_LEAF_SHADOW = JUndef\<rparr>"

lemma atOrAfter_undef: "\<not> atOrAfter JUndef b network coin"
  by (simp add: atOrAfter_def subtree_threshold_def prop_of_def strictHeight_def split: option.splits)

lemma unarmed:
  "isSubtreeActive unarmed_tables ''contract_state_root'' b network coin = Inr False"
  "isSubtreeShadowActive unarmed_tables ''contract_state_root'' b network coin = Inr False"
  "\<not> isEscrowLockedLeafActive unarmed_tables b network coin"
  "\<not> isEscrowLockedLeafShadowActive unarmed_tables b network coin"
  by (simp_all add: isSubtreeActive_def isSubtreeShadowActive_def isEscrowLockedLeafActive_def isEscrowLockedLeafShadowActive_def
      unarmed_tables_def prop_of_def atOrAfter_undef RESERVED_SUBTREES_def)

definition no_rows :: block_rows where
  "no_rows = \<lparr>br_credits = [], br_debits = [], br_escrows = [], br_actions = [], br_contracts = [], br_state = [],
     br_executions = [], br_emissions = [], br_deposits = [], br_withdrawals = []\<rparr>"

definition first_block :: block_input where
  "first_block = \<lparr>bi_touched = None, bi_activation = True, bi_weights = (\<lambda>_. []), bi_rows = no_rows\<rparr>"

lemma first_block_roots:
  "computeFollowerRoots H cast unarmed_tables caps None (sample_replica [] [] []) ''LTC'' ''mainnet'' 7 first_block =
    Inr (None, (sample_replica [] [] [])\<lparr>rp_roots :=
          [\<lparr>rr_chain = ''LTC'', rr_network = ''mainnet'', rr_block = 7, rr_balances = EMPTY_ROOT_HEX H, rr_stakes = EMPTY_ROOT_HEX H,
            rr_state = assembleStateRoot H (EMPTY_ROOT_HEX H) (EMPTY_ROOT_HEX H) None, rr_block_merkle = hexenc (EMPTY H 0),
            rr_contract_state = None, rr_contract_shadow = None, rr_escrow_shadow = None\<rparr>]\<rparr>,
        \<lparr>rr_chain = ''LTC'', rr_network = ''mainnet'', rr_block = 7, rr_balances = EMPTY_ROOT_HEX H, rr_stakes = EMPTY_ROOT_HEX H,
            rr_state = assembleStateRoot H (EMPTY_ROOT_HEX H) (EMPTY_ROOT_HEX H) None, rr_block_merkle = hexenc (EMPTY H 0),
            rr_contract_state = None, rr_contract_shadow = None, rr_escrow_shadow = None\<rparr>)"
proof -
  have "buildFullBalancesRoot H cast unarmed_tables (sample_replica [] [] []) ''LTC'' ''mainnet'' 7 False = Inr (sample_replica [] [] [], EMPTY_ROOT_HEX H)"
    by (simp add: buildFullBalancesRoot_def unarmed grouped_balances_def sample_replica_def map_filter_simps update_all_def)
  then show ?thesis
    by (simp add: computeFollowerRoots_def computeFollowerBalancesRoot_def first_block_def unarmed reservedSubRootCandidates_def
        shadowSubRoots_def candidate_roots_def gateSubRoots_def computeBlockMerkleRoot_def blockMerkleLeaves_def no_rows_def
        blockMerkleRoot_def fixedMerkleRoot_def extraSubRootColumn_def upsert_roots_def sample_replica_def Let_def)
qed

lemma follower_roots_row_consistent_witness:
  "\<exists>db' row. computeFollowerRoots id sql_cast unarmed_tables [] None (sample_replica [] [] []) ''LTC'' ''mainnet'' 7 first_block = Inr (None, db', row)
    \<and> roots_at db' ''LTC'' ''mainnet'' 7 = Some row
    \<and> rr_state row = assembleStateRoot id (rr_balances row) (rr_stakes row) (row_extra row)"
  using follower_roots_row_consistent [OF first_block_roots [of id sql_cast "[]"]] first_block_roots [of id sql_cast "[]"] by blast

text \<open>(C35) Seeding a snapshot gives exactly the row and the node store, or exactly the error, that the live path
  computes for that height as an activation block, so a bootstrapped follower continues from the state a live one has.
  The seed has no escrow shadow, so the statement excludes heights in that window.\<close>

theorem snapshot_seed_is_full_block:
  assumes "roots_at db chain network b = None" "\<not> isEscrowLockedLeafShadowActive T (JInt b) network (Some chain)"
  shows "seedSnapshotRoots H cast T caps db chain network b weights rows =
    map_sum id snd (computeFollowerRoots H cast T caps None db chain network b
      \<lparr>bi_touched = ks, bi_activation = True, bi_weights = weights, bi_rows = rows\<rparr>)"
proof (cases "buildFullBalancesRoot H cast T db chain network b False")
  case (Inl e)
  then show ?thesis by (simp add: seedSnapshotRoots_def computeFollowerRoots_def computeFollowerBalancesRoot_def Let_def)
next
  case (Inr p)
  obtain db1 r1 where p: "p = (db1, r1)" by fastforce
  have n1: "nodes_only db db1" using nodes_only_full Inr p by blast
  have bal: "computeFollowerBalancesRoot H cast T db chain network b ks True =
    Inr \<lparr>br_db = db1, br_root = r1, br_shadow_updates = None, br_esc_shadow = False\<rparr>"
    using Inr p assms(2) by (simp add: computeFollowerBalancesRoot_def Let_def)
  define live where "live = (if chain = ''BTC'' then rbind (gatherStakeEntries H caps weights chain)
      (\<lambda>es. Inr (buildStakesRoot H None db1 chain network b es)) else Inr (None, db1, EMPTY_ROOT_HEX H))"
  define seed where "seed = (if chain = ''BTC'' then rbind (gatherStakeEntries H caps weights chain)
      (\<lambda>es. let (nodes, r) = buildFull H db_ops (rp_nodes db1) es in Inr (db1\<lparr>rp_nodes := nodes\<rparr>, r)) else Inr (db1, EMPTY_ROOT_HEX H))"
  have seed: "seed = map_sum id snd live"
    unfolding seed_def live_def
    by (cases "gatherStakeEntries H caps weights chain") (auto simp: buildStakesRoot_def Let_def split: prod.splits)
  define row where "row = (\<lambda>stk extra shadow bm. \<lparr>rr_chain = chain, rr_network = network, rr_block = b,
      rr_balances = r1, rr_stakes = stk, rr_state = assembleStateRoot H r1 stk extra, rr_block_merkle = bm,
      rr_contract_state = extraSubRootColumn extra ''contract_state_root'',
      rr_contract_shadow = extraSubRootColumn shadow ''contract_state_root'', rr_escrow_shadow = None\<rparr>)"
  define tail where "tail = (\<lambda>(db2, stk). rbind (reservedSubRootCandidates H T db2 chain network b)
      (\<lambda>(db3, cands). rbind (gateSubRoots T (candidate_roots cands) (JInt b) network (Some chain))
      (\<lambda>extra. rbind (shadowSubRoots H T db3 chain network b)
      (\<lambda>(db4, shadow). rbind (computeBlockMerkleRoot H rows) (\<lambda>bm. Inr (db4, row stk extra shadow bm))))))"
  have upsert: "upsert_roots upd rw d = d\<lparr>rp_roots := rp_roots d @ [rw]\<rparr>"
    if "nodes_only db d" "rr_chain rw = chain" "rr_network rw = network" "rr_block rw = b" for upd rw d
  proof -
    have "roots_at d chain network b = None" using nodes_only_roots [OF that(1)] assms(1) by simp
    then have "\<not> list_ex (same_root_key rw) (rp_roots d)"
      using that by (auto simp: roots_at_def find_None_iff list_ex_iff same_root_key_def)
    then show ?thesis by (simp add: upsert_roots_def)
  qed
  have reach: "nodes_only db d" if "live = Inr (m, q)" "tail q = Inr (d, rw)" for m q d rw
  proof -
    have "nodes_only db1 (fst q)"
      using that(1) nodes_only_stakes [of H None db1 chain network b _ m "fst q" "snd q"] unfolding live_def
      by (auto simp: rbind_Inr_iff split: if_splits intro: nodes_only_intros)
    then show ?thesis
      using that(2) n1 nodes_only_candidates unfolding tail_def
      by (auto simp: rbind_Inr_iff case_prod_beta) (metis nodes_only_trans)
  qed
  have L: "computeFollowerRoots H cast T caps None db chain network b
      \<lparr>bi_touched = ks, bi_activation = True, bi_weights = weights, bi_rows = rows\<rparr> =
    rbind live (\<lambda>(m, q). rbind (tail q) (\<lambda>(d, rw). Inr (m, upsert_roots (\<lambda>_. rw) rw d, rw)))"
    unfolding computeFollowerRoots_def block_input.simps bal rbind_simps balances_result.simps if_False live_def [symmetric]
    by (rule arg_cong [where f = "rbind live"]) (simp add: fun_eq_iff tail_def row_def rbind_def Let_def split: sum.split prod.split)
  have S: "seedSnapshotRoots H cast T caps db chain network b weights rows =
    rbind seed (\<lambda>q. rbind (tail q) (\<lambda>(d, rw). Inr (upsert_roots (\<lambda>old. rw\<lparr>rr_escrow_shadow := rr_escrow_shadow old\<rparr>) rw d, rw)))"
    unfolding seedSnapshotRoots_def Inr p rbind_simps prod.case seed_def [symmetric]
    by (rule arg_cong [where f = "rbind seed"]) (simp add: fun_eq_iff tail_def row_def rbind_def Let_def split: sum.split prod.split)
  show ?thesis
  proof (cases live)
    case (Inl e)
    then show ?thesis using L S seed by simp
  next
    case (Inr mq)
    obtain m q where mq: "mq = (m, q)" by (cases mq)
    show ?thesis
    proof (cases "tail q")
      case (Inl e)
      then show ?thesis using L S seed Inr mq by simp
    next
      case t: (Inr dr)
      obtain d rw where dr: "dr = (d, rw)" by fastforce
      have "rr_chain rw = chain" "rr_network rw = network" "rr_block rw = b"
        using t dr unfolding tail_def by (auto simp: rbind_Inr_iff case_prod_beta row_def)
      from upsert [OF reach this] show ?thesis using L S seed Inr mq t dr by simp
    qed
  qed
qed

lemma snapshot_seed_is_full_block_witness:
  "\<exists>db' row. seedSnapshotRoots id sql_cast unarmed_tables [] (sample_replica [] [] []) ''LTC'' ''mainnet'' 7 (\<lambda>_. []) no_rows = Inr (db', row)
    \<and> roots_at db' ''LTC'' ''mainnet'' 7 = Some row"
proof -
  have "roots_at (sample_replica [] [] []) ''LTC'' ''mainnet'' 7 = None" by (simp add: roots_at_def sample_replica_def)
  from snapshot_seed_is_full_block [OF this unarmed(4), of id sql_cast "[]" "\<lambda>_. []" no_rows None]
    first_block_roots [of id sql_cast "[]"]
  show ?thesis by (simp add: first_block_def roots_at_def)
qed

section \<open>The stakes memo\<close>

lemma sep_split:
  "c \<notin> set a \<Longrightarrow> c \<notin> set b \<Longrightarrow> a @ c # r = b @ c # s \<Longrightarrow> a = b \<and> r = s"
  by (induction a arbitrary: b) (auto simp: append_eq_Cons_conv Cons_eq_append_conv)

lemma join_with_inject:
  assumes "length xs = length ys" "\<forall>w \<in> set xs \<union> set ys. c \<notin> set w" "join_with [c] xs = join_with [c] ys"
  shows "xs = ys"
  using assms
proof (induction xs ys rule: list_induct2)
  case (Cons x xs y ys)
  show ?case
  proof (cases xs)
    case Nil
    then show ?thesis using Cons by simp
  next
    case xs: (Cons x' xs')
    then obtain y' ys' where y: "ys = y' # ys'" using \<open>length xs = length ys\<close> by (cases ys) auto
    have "x @ c # join_with [c] xs = y @ c # join_with [c] ys" using Cons.prems(2) xs y by simp
    moreover have "c \<notin> set x" "c \<notin> set y" using Cons.prems(1) by auto
    ultimately have "x = y \<and> join_with [c] xs = join_with [c] ys" by (metis sep_split)
    then show ?thesis using Cons.IH Cons.prems(1) by auto
  qed
qed simp

lemma hexenc_no_sep: "c \<notin> set hex_digits \<Longrightarrow> c \<notin> set (hexenc bs)"
proof -
  assume c: "c \<notin> set hex_digits"
  have "hex_digits ! n \<noteq> c" if "n < 16" for n
    using c that nth_mem [of n hex_digits] by (auto simp: hex_digits_def)
  moreover have "of_char d div 16 < (16::nat)" "of_char d mod 16 < (16::nat)" for d :: char
    using nat_of_char_less_256 [of d] by linarith+
  ultimately have "c \<notin> set (hex_octet d)" for d unfolding hex_octet_def by (metis empty_iff empty_set set_ConsD)
  then show ?thesis by (simp add: hexenc_def)
qed

text \<open>Entries as pairs of octets; the code carries their hexadecimal text.\<close>

definition hex_entries :: "smt_entry list \<Rightarrow> (string \<times> string) list" where
  "hex_entries es = map (map_prod hexenc hexenc) es"

lemma digest_text_inject:
  assumes "digest_text (hex_entries es) = digest_text (hex_entries fs)"
  shows "set es = set fs"
proof -
  let ?p = "\<lambda>e. hexenc (fst e) @ '':'' @ hexenc (snd e)"
  let ?xs = "sort (map ?p es)" and ?ys = "sort (map ?p fs)"
  have sep: "CHR ''|'' \<notin> set hex_digits" "CHR '':'' \<notin> set hex_digits" by (simp_all add: hex_digits_def)
  have dt: "digest_text (hex_entries es) = nat_str (length es) @ CHR ''|'' # join_with ''|'' (sort (map ?p es))" for es
    by (simp add: digest_text_def hex_entries_def comp_def)
  have nb: "CHR ''|'' \<notin> set (nat_str n)" for n using nat_str_digits [of n] by (auto simp: is_digit_def)
  have e: "nat_str (length es) @ CHR ''|'' # join_with ''|'' ?xs = nat_str (length fs) @ CHR ''|'' # join_with ''|'' ?ys"
    using assms unfolding dt .
  from sep_split [OF nb nb e] have "length es = length fs" and j: "join_with ''|'' ?xs = join_with ''|'' ?ys" by simp_all
  then have l: "length ?xs = length ?ys" by simp
  have "CHR ''|'' \<notin> set (?p e)" for e using hexenc_no_sep [OF sep(1)] by simp
  then have "\<forall>w \<in> set ?xs \<union> set ?ys. CHR ''|'' \<notin> set w" unfolding set_sort set_map by blast
  from join_with_inject [OF l this j] have "set ?xs = set ?ys" by (rule arg_cong)
  then have img: "?p ` set es = ?p ` set fs" unfolding set_sort set_map .
  have inj: "x = y" if "?p x = ?p y" for x y
  proof -
    have "hexenc (fst x) @ CHR '':'' # hexenc (snd x) = hexenc (fst y) @ CHR '':'' # hexenc (snd y)" using that by simp
    from sep_split [OF hexenc_no_sep [OF sep(2)] hexenc_no_sep [OF sep(2)] this] show ?thesis
      by (simp add: prod_eq_iff)
  qed
  from inj_image_eq_iff [OF injI [of ?p], OF inj, THEN iffD1, OF _ img] show ?thesis .
qed

definition stakes_tree :: "smt_entry list \<Rightarrow> smt" where
  "stakes_tree es = replay fst (\<lambda>e. Some (snd e)) es"

text \<open>Distinct keys of 32 octets, and no leaf that is an empty subtree.\<close>

definition stakes_ok :: "hash_fn \<Rightarrow> smt_entry list \<Rightarrow> bool" where
  "stakes_ok H es \<longleftrightarrow> wf_entries es \<and> proper_leaves H es"

definition memo_ok ::
  "hash_fn \<Rightarrow> (octets \<times> octets) set \<Rightarrow> stakes_memo option \<Rightarrow> (string \<rightharpoonup> string \<times> string) \<Rightarrow> smt_entry list \<Rightarrow> bool" where
  "memo_ok H A memo g es \<longleftrightarrow>
     (case memo of
        None \<Rightarrow> True
      | Some m \<Rightarrow> sm_digest m = stakeEntriesDigest H (hex_entries es) \<and> sm_root m = smt_rootHex H (stakes_tree es)
          \<and> stakes_ok H es \<and> serves H A g (smt_entries (stakes_tree es)))"

lemma stakes_tree_table:
  assumes "wf_entries es"
  shows "wf_smt (stakes_tree es)" "set (smt_entries (stakes_tree es)) = set es"
proof -
  have len: "\<forall>e \<in> set es. length (fst e) = 32" using assms by (simp add: wf_entries_def)
  show wf: "wf_smt (stakes_tree es)" unfolding stakes_tree_def by (rule replay_wf [OF len])
  have "map_of (run_from [] (updates_of fst (\<lambda>e. Some (snd e)) es)) = map_of es"
    using assms
  proof (induction es rule: rev_induct)
    case (snoc e es)
    then have "map_of es (fst e) = None" by (auto simp: wf_entries_def map_of_eq_None_iff)
    with snoc show ?case
      by (auto simp: wf_entries_def updates_of_def run_from_append map_of_put_entry fun_eq_iff map_add_def split: option.splits)
  qed (simp add: updates_of_def)
  then have "map_of (smt_entries (stakes_tree es)) = map_of es"
    unfolding stakes_tree_def map_of_replay_run [OF len] .
  then show "set (smt_entries (stakes_tree es)) = set es"
    by (intro entries_eqI wf_smt_entries wf assms)
qed

lemma stakes_tree_cong: "wf_entries es \<Longrightarrow> wf_entries fs \<Longrightarrow> set es = set fs \<Longrightarrow> smt_rootHex H (stakes_tree es) = smt_rootHex H (stakes_tree fs)"
  using stakes_tree_table unfolding smt_rootHex_def smt_root_def by (metis smtNode_root_cong wf_smt_entries)

text \<open>The memoised stakes root is the root a rebuild computes: whatever the memo holds from the previous block,
  the root returned is the reference root of the present entries, the store serves that tree, and the new
  memo is again sound.  The only way to serve the memo is an equal digest, and equal digests without a collision
  mean the same entries in some order.\<close>

theorem stakes_memo_sound:
  assumes A: "hash_ok H A" and es: "stakes_ok H es" and memo: "memo_ok H A memo (db_get (rp_nodes db)) old"
    and store: "store_ok H A (db_get (rp_nodes db))"
    and pairs: "pairs_within H A [] (updates_of fst (\<lambda>e. Some (snd e)) es)"
    and coll: "H (digest_text (hex_entries old)) = H (digest_text (hex_entries es)) \<Longrightarrow>
      digest_text (hex_entries old) = digest_text (hex_entries es)"
    and run: "buildStakesRoot H memo db chain network b (hex_entries es) = (memo', db', r)"
  shows "r = smt_rootHex H (stakes_tree es)
    \<and> serves H A (db_get (rp_nodes db')) (smt_entries (stakes_tree es))
    \<and> memo_ok H A memo' (db_get (rp_nodes db')) es \<and> nodes_only db db'"
proof -
  have wf: "wf_entries es" using es by (simp add: stakes_ok_def)
  note t = stakes_tree_table [OF wf]
  let ?us = "updates_of fst (\<lambda>e. Some (snd e)) es"
  define remember where "remember = (\<lambda>r. Some \<lparr>sm_chain = chain, sm_network = network, sm_block = b,
      sm_digest = stakeEntriesDigest H (hex_entries es), sm_root = r\<rparr>)"
  define rebuild where "rebuild = (let (nodes, r) = buildFull H db_ops (rp_nodes db) (hex_entries es) in (remember r, db\<lparr>rp_nodes := nodes\<rparr>, r))"
  have mem: "memo_ok H A (remember r) g es"
    if "r = smt_rootHex H (stakes_tree es)" "serves H A g (smt_entries (stakes_tree es))" for r g
    using that es by (simp add: memo_ok_def remember_def)
  have full: "r = smt_rootHex H (stakes_tree es) \<and> serves H A (db_get (rp_nodes db')) (smt_entries (stakes_tree es))
      \<and> memo_ok H A memo' (db_get (rp_nodes db')) es \<and> nodes_only db db'" if "rebuild = (memo', db', r)"
  proof -
    have ok: "updates_ok H ?us"
      using es by (auto simp: updates_ok_def updates_of_def stakes_ok_def wf_entries_def proper_leaves_def)
    have "map (\<lambda>(keyHex, leafHex). (hexdec keyHex, Some leafHex)) (hex_entries es) = wire_updates ?us"
      by (simp add: hex_entries_def wire_updates_def updates_of_def case_prod_beta)
    then have u: "update_all H db (EMPTY_ROOT_HEX H) (wire_updates ?us) = (db', r)" "memo' = remember r"
      using that by (auto simp: rebuild_def buildFull_def update_all_def Let_def split: prod.splits)
    note ref = update_all_refines [OF A ok pairs serves_empty_tree [OF store A] EMPTY_ROOT_entries u(1)]
    have wf': "wf_entries (run_from [] ?us)" using ref by (auto simp: serves_def tree_ok_def)
    have "set (run_from [] ?us) = set (smt_entries (stakes_tree es))"
      using map_of_replay_run [of es fst "\<lambda>e. Some (snd e)"] wf
      by (intro entries_eqI wf' wf_smt_entries t(1)) (simp add: stakes_tree_def wf_entries_def)
    then have "r = smt_rootHex H (stakes_tree es)" "serves H A (db_get (rp_nodes db')) (smt_entries (stakes_tree es))"
      using ref serves_cong [OF wf' wf_smt_entries [OF t(1)]] smtNode_root_cong [OF wf' wf_smt_entries [OF t(1)], of H]
      by (auto simp: smt_rootHex_def smt_root_def)
    then show ?thesis using mem u nodes_only_intros(3) [OF u(1)] by simp
  qed
  show ?thesis
  proof (cases "\<exists>m. memo = Some m \<and> sm_chain m = chain \<and> sm_network m = network \<and> sm_block m = b - 1
      \<and> sm_digest m = stakeEntriesDigest H (hex_entries es) \<and> (sm_root m = EMPTY_ROOT_HEX H \<or> db_get (rp_nodes db) (sm_root m) \<noteq> None)")
    case False
    then have "buildStakesRoot H memo db chain network b (hex_entries es) = rebuild"
      by (auto simp: buildStakesRoot_def rebuild_def remember_def Let_def split: option.splits)
    then show ?thesis using run full by simp
  next
    case True
    then obtain m where m: "memo = Some m" "sm_digest m = stakeEntriesDigest H (hex_entries es)"
      and hit: "sm_chain m = chain \<and> sm_network m = network \<and> sm_block m = b - 1
        \<and> sm_digest m = stakeEntriesDigest H (hex_entries es) \<and> (sm_root m = EMPTY_ROOT_HEX H \<or> db_get (rp_nodes db) (sm_root m) \<noteq> None)"
      by blast
    have "buildStakesRoot H memo db chain network b (hex_entries es) = (remember (sm_root m), db, sm_root m)"
      unfolding buildStakesRoot_def Let_def m(1) option.case remember_def if_P [OF hit] by (rule refl)
    then have res: "memo' = remember (sm_root m)" "db' = db" "r = sm_root m" using run by simp_all
    have old: "sm_digest m = stakeEntriesDigest H (hex_entries old)" "sm_root m = smt_rootHex H (stakes_tree old)"
      "stakes_ok H old" "serves H A (db_get (rp_nodes db)) (smt_entries (stakes_tree old))"
      using memo m(1) by (auto simp: memo_ok_def)
    have "H (digest_text (hex_entries old)) = H (digest_text (hex_entries es))"
      using m(2) old(1) by (simp add: stakeEntriesDigest_def)
    then have "set old = set es" using coll digest_text_inject by blast
    moreover have wfo: "wf_entries old" using old(3) by (simp add: stakes_ok_def)
    ultimately have "r = smt_rootHex H (stakes_tree es)" "set (smt_entries (stakes_tree old)) = set (smt_entries (stakes_tree es))"
      using res old(2) stakes_tree_cong [OF wfo wf] stakes_tree_table(2) t(2) by auto
    moreover from this(2) have "serves H A (db_get (rp_nodes db)) (smt_entries (stakes_tree es))"
      using serves_cong [OF wf_smt_entries wf_smt_entries _ old(4)] stakes_tree_table(1) [OF wfo] t(1) by blast
    ultimately show ?thesis using res mem nodes_only_intros(1) by simp
  qed
qed


text \<open>The tree of two entries is rebuilt at height 100 and the memo then serves them in another order at 101.\<close>

lemma stakes_memo_sound_witness:
  "\<exists>memo db. memo \<noteq> None \<and>
     buildStakesRoot id memo db ''BTC'' ''mainnet'' 101
       (hex_entries [(key1, ''leaf 000000000002.''), (key0, ''leaf 000000000001.'')]) =
     (map_option (\<lambda>m. m\<lparr>sm_block := 101\<rparr>) memo, db,
      smt_rootHex id (stakes_tree [(key1, ''leaf 000000000002.''), (key0, ''leaf 000000000001.'')]))"
proof -
  let ?es = "[(key0, ''leaf 000000000001.''), (key1, ''leaf 000000000002.'')] :: smt_entry list"
  let ?fs = "[(key1, ''leaf 000000000002.''), (key0, ''leaf 000000000001.'')] :: smt_entry list"
  let ?db0 = "sample_replica [] [] []"
  have "CHR ''l'' # cs \<noteq> EMPTY id k" for cs k
    by (cases k) (auto simp: nodeHash_def EMPTY_PREFIX_def NODE_PREFIX_def)
  then have ok: "stakes_ok id ?es" "stakes_ok id ?fs"
    using keys_differ by (simp_all add: stakes_ok_def wf_entries_def proper_leaves_def)
  have w: "pairs_within id even_pairs [] (updates_of fst (\<lambda>e. Some (snd e)) xs)" if "set xs \<subseteq> set ?es" for xs
    by (rule pairs_within_id) (use that in \<open>auto simp: updates_of_def\<close>)
  obtain memo db r where run: "buildStakesRoot id None ?db0 ''BTC'' ''mainnet'' 100 (hex_entries ?es) = (memo, db, r)"
    by (metis prod_cases3)
  have "store_ok id even_pairs (db_get (rp_nodes ?db0))" by (simp add: store_ok_def sample_replica_def db_get_map_of)
  from stakes_memo_sound [OF hash_ok_id ok(1) _ this w _ run, of "[]"]
  have r: "r = smt_rootHex id (stakes_tree ?es)" "serves id even_pairs (db_get (rp_nodes db)) (smt_entries (stakes_tree ?es))"
    "memo_ok id even_pairs memo (db_get (rp_nodes db)) ?es"
    by (auto simp: memo_ok_def)
  have memo: "memo = Some \<lparr>sm_chain = ''BTC'', sm_network = ''mainnet'', sm_block = 100,
      sm_digest = stakeEntriesDigest id (hex_entries ?es), sm_root = r\<rparr>"
    using run by (auto simp: buildStakesRoot_def Let_def split: prod.splits)
  have dig: "stakeEntriesDigest id (hex_entries ?fs) = stakeEntriesDigest id (hex_entries ?es)"
  proof -
    have "sort [x, y] = sort [y, x]" for x y :: string by auto
    then have "sort (map f ?fs) = sort (map f ?es)" for f :: "smt_entry \<Rightarrow> string" by (simp only: list.map)
    then show ?thesis by (simp only: stakeEntriesDigest_def digest_text_def hex_entries_def map_map length_map length_sort)
  qed
  have in_store: "db_get (rp_nodes db) r \<noteq> None"
  proof -
    have "covers id (db_get (rp_nodes db)) (smt_entries (stakes_tree ?es))" using r(2) by (simp add: serves_def)
    moreover have "smt_entries (stakes_tree ?es) \<noteq> []"
      using stakes_tree_table(2) [of ?es] ok(1) by (metis list.set_intros(1) list.set(1) empty_iff stakes_ok_def)
    moreover have "0 < SMT_DEPTH" by (simp add: SMT_DEPTH_def)
    ultimately have "db_get (rp_nodes db) (hexenc (smtNode id (smt_entries (stakes_tree ?es)) 0)) \<noteq> None"
      using coversD [of id "db_get (rp_nodes db)" "smt_entries (stakes_tree ?es)" 0 key0] unfolding pathOf_0 by simp
    then show ?thesis by (simp add: r(1) smt_rootHex_def smt_root_def)
  qed
  obtain memo' db' r' where run': "buildStakesRoot id memo db ''BTC'' ''mainnet'' 101 (hex_entries ?fs) = (memo', db', r')"
    by (metis prod_cases3)
  have st: "store_ok id even_pairs (db_get (rp_nodes db))" using r(2) by (simp add: serves_def)
  from stakes_memo_sound [OF hash_ok_id ok(2) r(3) st w _ run'] have "r' = smt_rootHex id (stakes_tree ?fs)" by auto
  moreover have "memo' = map_option (\<lambda>m. m\<lparr>sm_block := 101\<rparr>) memo" "db' = db"
    using run' in_store dig unfolding memo by (auto simp: buildStakesRoot_def Let_def)
  ultimately show ?thesis using run' memo by blast
qed

end
