(* ===== verification/Orphan_Stats.thy ===== *)
theory Orphan_Stats
  imports State_Commitment
begin

text \<open>
  The read-only reachability report over the node store: \<^verbatim>\<open>reportOrphanStats\<close> of
  \<^verbatim>\<open>src/src/state_commitment/index.js\<close> with the reads of
  \<^verbatim>\<open>src/src/db/subtree/orphan_stats_reads.js\<close>.  The frontier walk ends on every store, and unless it stops at its
  cap it counts exactly the stored nodes some retained root reaches.
\<close>

section \<open>The walk\<close>

definition EMPTY_CONSTANTS :: "hash_fn \<Rightarrow> string set" where
  "EMPTY_CONSTANTS H = (\<lambda>h. hexenc (EMPTY H h)) ` {0..SMT_DEPTH}"

definition countStateTreeNodes :: "replica \<Rightarrow> nat" where
  "countStateTreeNodes db = length (rp_nodes db)"

definition selectRetainedRootUnion :: "replica \<Rightarrow> string \<Rightarrow> string \<Rightarrow> string list" where
  "selectRetainedRootUnion db chain network =
     (let rows = filter (\<lambda>r. rr_chain r = chain \<and> rr_network r = network) (rp_roots db) in
      remdups (map rr_balances rows @ map rr_stakes rows @ List.map_filter rr_contract_state rows))"

definition selectNodeRowsByHash :: "node_table \<Rightarrow> string list \<Rightarrow> tree_node list" where
  "selectNodeRowsByHash nodes hashes = filter (\<lambda>n. tn_hash n \<in> set hashes) nodes"

text \<open>One hash offered to the walk: falsy, empty and seen ones are skipped.\<close>

definition offer :: "hash_fn \<Rightarrow> string \<Rightarrow> string set \<times> string list \<Rightarrow> string set \<times> string list" where
  "offer H h s =
     (if h = [] \<or> h \<in> EMPTY_CONSTANTS H \<or> h \<in> fst s then s else (insert h (fst s), snd s @ [h]))"

definition offer_row :: "hash_fn \<Rightarrow> tree_node \<Rightarrow> string set \<times> string list \<Rightarrow> string set \<times> string list" where
  "offer_row H n s = offer H (tn_right n) (offer H (tn_left n) s)"

definition row_hashes :: "node_table \<Rightarrow> string set" where
  "row_hashes nodes = tn_left ` set nodes \<union> tn_right ` set nodes"

lemma offer_measure:
  assumes "finite U" "h \<in> U"
  shows "card (U - fst (offer H h s)) + length (snd (offer H h s)) \<le> card (U - fst s) + length (snd s)"
proof (cases "h = [] \<or> h \<in> EMPTY_CONSTANTS H \<or> h \<in> fst s")
  case False
  have "U - insert h (fst s) = (U - fst s) - {h}" by auto
  moreover have "card (U - fst s - {h}) = card (U - fst s) - 1" "0 < card (U - fst s)"
    using assms False by (auto simp: card_gt_0_iff)
  ultimately show ?thesis using False by (simp add: offer_def)
qed (auto simp: offer_def)

lemma offer_rows_measure:
  assumes "finite U" "\<forall>n \<in> set rows. tn_left n \<in> U \<and> tn_right n \<in> U"
  shows "card (U - fst (fold (offer_row H) rows s)) + length (snd (fold (offer_row H) rows s)) \<le> card (U - fst s) + length (snd s)"
  using assms(2)
proof (induction rows arbitrary: s)
  case (Cons n rows)
  then have "card (U - fst (fold (offer_row H) rows (offer_row H n s))) + length (snd (fold (offer_row H) rows (offer_row H n s)))
    \<le> card (U - fst (offer_row H n s)) + length (snd (offer_row H n s))" by simp
  also have "\<dots> \<le> card (U - fst s) + length (snd s)"
    using offer_measure [OF assms(1), of "tn_right n" H "offer H (tn_left n) s"] offer_measure [OF assms(1), of "tn_left n" H s] Cons.prems
    by (simp add: offer_row_def)
  finally show ?case by simp
qed simp

text \<open>The loop: \<open>seen\<close>, the frontier and the count.  A walk past \<open>maxNodes\<close> seen hashes stops and
  reports that it did.  A batch has at least one hash.\<close>

function walk ::
  "hash_fn \<Rightarrow> node_table \<Rightarrow> int \<Rightarrow> nat \<Rightarrow> string set \<Rightarrow> string list \<Rightarrow> nat \<Rightarrow> nat \<times> bool" where
  "walk H nodes maxNodes batchSize seen frontier reachable =
     (if frontier = [] then (reachable, False)
      else if int (card seen) > maxNodes then (reachable, True)
      else (let rows = selectNodeRowsByHash nodes (take (max 1 batchSize) frontier);
                (seen', frontier') = fold (offer_row H) rows (seen, drop (max 1 batchSize) frontier)
            in walk H nodes maxNodes batchSize seen' frontier' (reachable + length rows)))"
  by pat_completeness auto
termination
proof (relation "measure (\<lambda>(H, nodes, maxNodes, batchSize, seen, frontier, reachable). card (row_hashes nodes - seen) + length frontier)", goal_cases)
  case (2 H nodes maxNodes batchSize seen frontier reachable rows p seen' frontier')
  have "finite (row_hashes nodes)" by (simp add: row_hashes_def)
  moreover have "\<forall>n \<in> set rows. tn_left n \<in> row_hashes nodes \<and> tn_right n \<in> row_hashes nodes"
    using 2 by (auto simp: selectNodeRowsByHash_def row_hashes_def)
  moreover have "seen' = fst (fold (offer_row H) rows (seen, drop (max 1 batchSize) frontier))"
    "frontier' = snd (fold (offer_row H) rows (seen, drop (max 1 batchSize) frontier))"
    using 2 by (metis fst_conv, metis snd_conv)
  ultimately have "card (row_hashes nodes - seen') + length frontier' \<le> card (row_hashes nodes - seen) + length (drop (max 1 batchSize) frontier)"
    using offer_rows_measure [of "row_hashes nodes" rows H "(seen, drop (max 1 batchSize) frontier)"] by simp
  moreover have "length (drop (max 1 batchSize) frontier) < length frontier" using 2(1) by (cases frontier) auto
  ultimately show ?case by simp
qed simp

declare walk.simps [simp del]

record orphan_stats =
  os_totalNodes :: nat
  os_reachableNodes :: nat
  os_orphanCount :: int
  os_reachabilitySkipped :: bool
  os_reachabilityEstimated :: bool

text \<open>\<open>0\<close> stands for an option left out: \<^verbatim>\<open>opts.maxNodes || parseInt(env) || 2000000\<close>,
  \<^verbatim>\<open>opts.batchSize || 1000\<close>.\<close>

definition reportOrphanStats :: "hash_fn \<Rightarrow> replica \<Rightarrow> string \<Rightarrow> string \<Rightarrow> int \<Rightarrow> int \<Rightarrow> nat \<Rightarrow> orphan_stats" where
  "reportOrphanStats H db chain network optMaxNodes envMaxNodes optBatchSize =
     (let maxNodes = (if optMaxNodes \<noteq> 0 then optMaxNodes else if envMaxNodes \<noteq> 0 then envMaxNodes else 2000000);
          batchSize = (if optBatchSize \<noteq> 0 then optBatchSize else 1000);
          totalNodes = countStateTreeNodes db
      in if totalNodes = 0
         then \<lparr>os_totalNodes = 0, os_reachableNodes = 0, os_orphanCount = 0, os_reachabilitySkipped = False, os_reachabilityEstimated = False\<rparr>
         else (let (seen, frontier) = fold (offer H) (selectRetainedRootUnion db chain network) ({}, []);
                   (reachable, truncated) = walk H (rp_nodes db) maxNodes batchSize seen frontier 0
               in \<lparr>os_totalNodes = totalNodes, os_reachableNodes = reachable,
                   os_orphanCount = int totalNodes - int reachable, os_reachabilitySkipped = False,
                   os_reachabilityEstimated = truncated\<rparr>))"

section \<open>Reachability\<close>

text \<open>The hashes reached from the retained roots through stored nodes.\<close>

inductive reachable :: "hash_fn \<Rightarrow> node_table \<Rightarrow> string list \<Rightarrow> string \<Rightarrow> bool" for H nodes rts where
  retained: "h \<in> set rts \<Longrightarrow> h \<noteq> [] \<Longrightarrow> h \<notin> EMPTY_CONSTANTS H \<Longrightarrow> reachable H nodes rts h"
| child: "reachable H nodes rts (tn_hash n) \<Longrightarrow> n \<in> set nodes \<Longrightarrow> c \<in> {tn_left n, tn_right n} \<Longrightarrow>
    c \<noteq> [] \<Longrightarrow> c \<notin> EMPTY_CONSTANTS H \<Longrightarrow> reachable H nodes rts c"

inductive_cases reachableE: "reachable H nodes rts h"

definition live_nodes :: "hash_fn \<Rightarrow> node_table \<Rightarrow> string list \<Rightarrow> tree_node list" where
  "live_nodes H nodes rts = filter (\<lambda>n. reachable H nodes rts (tn_hash n)) nodes"

definition proper_hash :: "hash_fn \<Rightarrow> string \<Rightarrow> bool" where
  "proper_hash H h \<longleftrightarrow> h \<noteq> [] \<and> h \<notin> EMPTY_CONSTANTS H"

text \<open>What a run of offers does: the frontier grows by distinct new hashes, which are the new ones of \<open>seen\<close>.\<close>

definition extends :: "string set \<times> string list \<Rightarrow> string set \<times> string list \<Rightarrow> string set \<Rightarrow> bool" where
  "extends s s' N \<longleftrightarrow> (\<exists>new. snd s' = snd s @ new \<and> distinct new \<and> set new = N - fst s \<and> fst s' = fst s \<union> N)"

lemma offer_extends: "extends s (offer H h s) {x. x = h \<and> proper_hash H x}"
  by (auto simp: extends_def offer_def proper_hash_def)

lemma extends_trans: "extends s s' N \<Longrightarrow> extends s' s'' M \<Longrightarrow> extends s s'' (N \<union> M)"
  unfolding extends_def
proof (elim exE conjE)
  fix new new'
  assume "snd s' = snd s @ new" "distinct new" "set new = N - fst s" "fst s' = fst s \<union> N"
    "snd s'' = snd s' @ new'" "distinct new'" "set new' = M - fst s'" "fst s'' = fst s' \<union> M"
  then show "\<exists>new. snd s'' = snd s @ new \<and> distinct new \<and> set new = N \<union> M - fst s \<and> fst s'' = fst s \<union> (N \<union> M)"
    by (intro exI [of _ "new @ new'"]) auto
qed

lemma extends_refl: "extends s s {}"
  by (simp add: extends_def)

lemma offers_extends: "extends s (fold (offer H) hs s) {x \<in> set hs. proper_hash H x}"
proof (induction hs arbitrary: s)
  case (Cons h hs)
  have "{x. x = h \<and> proper_hash H x} \<union> {x \<in> set hs. proper_hash H x} = {x \<in> set (h # hs). proper_hash H x}" by auto
  then show ?case using extends_trans [OF offer_extends [of s H h] Cons.IH [of "offer H h s"]] by simp
qed (simp add: extends_refl)

lemma offer_rows_extends: "extends s (fold (offer_row H) rows s) {x \<in> row_hashes rows. proper_hash H x}"
proof (induction rows arbitrary: s)
  case (Cons n rows)
  have "extends s (offer_row H n s) ({x. x = tn_left n \<and> proper_hash H x} \<union> {x. x = tn_right n \<and> proper_hash H x})"
    unfolding offer_row_def by (rule extends_trans [OF offer_extends offer_extends])
  from extends_trans [OF this Cons.IH]
  have "extends s (fold (offer_row H) (n # rows) s)
    ({x. x = tn_left n \<and> proper_hash H x} \<union> {x. x = tn_right n \<and> proper_hash H x} \<union> {x \<in> row_hashes rows. proper_hash H x})"
    by simp
  moreover have "{x. x = tn_left n \<and> proper_hash H x} \<union> {x. x = tn_right n \<and> proper_hash H x} \<union> {x \<in> row_hashes rows. proper_hash H x}
      = {x \<in> row_hashes (n # rows). proper_hash H x}" by (auto simp: row_hashes_def)
  ultimately show ?case by simp
qed (simp add: extends_refl row_hashes_def)


text \<open>The loop invariant: what has been resolved is counted and has its children seen.\<close>

definition walk_inv :: "hash_fn \<Rightarrow> node_table \<Rightarrow> string list \<Rightarrow> string set \<Rightarrow> string list \<Rightarrow> nat \<Rightarrow> bool" where
  "walk_inv H nodes rts seen frontier k \<longleftrightarrow>
     finite seen \<and> distinct frontier \<and> set frontier \<subseteq> seen
   \<and> {h \<in> set rts. proper_hash H h} \<subseteq> seen \<and> (\<forall>h \<in> seen. reachable H nodes rts h)
   \<and> (\<forall>n \<in> set nodes. tn_hash n \<in> seen - set frontier \<longrightarrow> {c \<in> {tn_left n, tn_right n}. proper_hash H c} \<subseteq> seen)
   \<and> k = length (filter (\<lambda>n. tn_hash n \<in> seen - set frontier) nodes)"

lemma walk_inv_done:
  assumes "walk_inv H nodes rts seen [] k"
  shows "k = length (live_nodes H nodes rts)"
proof -
  have "reachable H nodes rts h \<Longrightarrow> h \<in> seen" for h
  proof (induction rule: reachable.induct)
    case (retained h)
    then show ?case using assms by (auto simp: walk_inv_def proper_hash_def)
  next
    case (child n c)
    then show ?case using assms unfolding walk_inv_def proper_hash_def by auto
  qed
  then have "filter (\<lambda>n. tn_hash n \<in> seen - set []) nodes = live_nodes H nodes rts"
    using assms unfolding live_nodes_def walk_inv_def by (intro filter_cong) auto
  then show ?thesis using assms by (simp add: walk_inv_def)
qed

lemma length_filter_mono: "(\<And>x. P x \<Longrightarrow> Q x) \<Longrightarrow> length (filter P xs) \<le> length (filter Q xs)"
  by (induction xs) (auto simp: le_SucI)

lemma walk_inv_le: "walk_inv H nodes rts seen frontier k \<Longrightarrow> k \<le> length (live_nodes H nodes rts)"
  unfolding walk_inv_def live_nodes_def by (elim conjE) (simp only:, rule length_filter_mono, blast)

lemma walk_inv_step:
  assumes i: "walk_inv H nodes rts seen frontier k" and rows: "rows = selectNodeRowsByHash nodes (take (max 1 b) frontier)"
    and f: "fold (offer_row H) rows (seen, drop (max 1 b) frontier) = (seen', frontier')"
  shows "walk_inv H nodes rts seen' frontier' (k + length rows)"
proof -
  let ?batch = "take (max 1 b) frontier" and ?rest = "drop (max 1 b) frontier"
  let ?N = "{x \<in> row_hashes rows. proper_hash H x}"
  obtain new where new: "frontier' = ?rest @ new" "distinct new" "set new = ?N - seen" "seen' = seen \<union> ?N"
    using offer_rows_extends [of "(seen, ?rest)" H rows] f by (auto simp: extends_def)
  have fr: "set frontier = set ?batch \<union> set ?rest" "set ?batch \<inter> set ?rest = {}" "distinct ?rest"
    using i set_take_disj_set_drop_if_distinct [of frontier "max 1 b" "max 1 b"]
    by (auto simp: walk_inv_def simp flip: set_append)
  have sub: "set frontier \<subseteq> seen" "finite seen" using i by (auto simp: walk_inv_def)
  have resolved: "seen' - set frontier' = (seen - set frontier) \<union> set ?batch"
    using new fr sub by auto
  have batch_rows: "n \<in> set rows \<longleftrightarrow> n \<in> set nodes \<and> tn_hash n \<in> set ?batch" for n
    using rows by (simp add: selectNodeRowsByHash_def)
  have fin: "finite seen'" using new(4) sub by (simp add: row_hashes_def)
  have reach: "reachable H nodes rts h" if "h \<in> seen'" for h
  proof (cases "h \<in> seen")
    case False
    then have "h \<in> ?N" using that unfolding new(4) by blast
    then obtain n where n: "n \<in> set rows" "h \<in> {tn_left n, tn_right n}" "proper_hash H h"
      unfolding row_hashes_def by blast
    then have "n \<in> set nodes" "tn_hash n \<in> seen" using batch_rows fr sub by auto
    then show ?thesis using n i by (auto simp: walk_inv_def proper_hash_def intro: reachable.child)
  qed (use i in \<open>auto simp: walk_inv_def\<close>)
  have children: "{c \<in> {tn_left n, tn_right n}. proper_hash H c} \<subseteq> seen'"
    if "n \<in> set nodes" "tn_hash n \<in> seen' - set frontier'" for n
  proof (cases "tn_hash n \<in> set ?batch")
    case True
    then have "n \<in> set rows" using that batch_rows by blast
    then show ?thesis using new(4) by (auto simp: row_hashes_def)
  next
    case False
    then show ?thesis using that resolved i new(4) unfolding walk_inv_def by blast
  qed
  have "length (filter (\<lambda>n. tn_hash n \<in> (seen - set frontier) \<union> set ?batch) xs) =
      length (filter (\<lambda>n. tn_hash n \<in> seen - set frontier) xs) + length (filter (\<lambda>n. tn_hash n \<in> set ?batch) xs)" for xs :: "tree_node list"
    using fr(1) by (induction xs) auto
  moreover have "k = length (filter (\<lambda>n. tn_hash n \<in> seen - set frontier) nodes)" using i unfolding walk_inv_def by blast
  ultimately have "k + length rows = length (filter (\<lambda>n. tn_hash n \<in> seen' - set frontier') nodes)"
    unfolding resolved rows selectNodeRowsByHash_def by (simp only:)
  moreover have "distinct frontier'" "set frontier' \<subseteq> seen'" using new fr sub by auto
  moreover have "{h \<in> set rts. proper_hash H h} \<subseteq> seen'" using i new(4) unfolding walk_inv_def by blast
  ultimately show ?thesis using fin reach children unfolding walk_inv_def by blast
qed

lemma walk_counts:
  "walk_inv H nodes rts seen frontier k \<Longrightarrow> walk H nodes mx b seen frontier k = (r, t) \<Longrightarrow>
     r \<le> length (live_nodes H nodes rts) \<and> (\<not> t \<longrightarrow> r = length (live_nodes H nodes rts))
     \<and> (t \<longrightarrow> mx < int (card {h. reachable H nodes rts h}))"
proof (induction H nodes mx b seen frontier k rule: walk.induct)
  case (1 H nodes mx b seen frontier k)
  note i = "1.prems"(1)
  show ?case
  proof (cases "frontier = []")
    case True
    then show ?thesis using "1.prems" walk_inv_done [of H nodes rts seen k] by (auto simp: walk.simps)
  next
    case False
    note ne = this
    show ?thesis
    proof (cases "int (card seen) > mx")
      case True
      have "finite {h. reachable H nodes rts h}"
      proof (rule finite_subset)
        show "{h. reachable H nodes rts h} \<subseteq> set rts \<union> row_hashes nodes"
          unfolding row_hashes_def by (blast elim: reachable.cases)
      qed (simp add: row_hashes_def)
      then have "card seen \<le> card {h. reachable H nodes rts h}"
        using i by (intro card_mono) (auto simp: walk_inv_def)
      then show ?thesis using "1.prems" True ne walk_inv_le [OF i] by (auto simp: walk.simps)
    next
      case False
      obtain seen' frontier' where f: "fold (offer_row H) (selectNodeRowsByHash nodes (take (max 1 b) frontier)) (seen, drop (max 1 b) frontier) = (seen', frontier')"
        by fastforce
      note inv = walk_inv_step [OF i refl f]
      have "walk H nodes mx b seen' frontier' (k + length (selectNodeRowsByHash nodes (take (max 1 b) frontier))) = (r, t)"
        using "1.prems"(2) ne False f by (subst (asm) walk.simps) simp
      from "1.IH" [OF ne False refl f [symmetric] refl inv this] show ?thesis .
    qed
  qed
qed


text \<open>(C36) The orphan report: the walk always ends; the totals are the size of the store; when it did not stop at
  its cap the reachable count is exactly the number of stored nodes that a retained root reaches and the orphan count
  exactly the rest; when it did stop, they are a lower and an upper bound, and more hashes than the cap are
  reachable.\<close>

theorem orphan_report_exact:
  fixes db H chain network mx env bs
  defines "st \<equiv> reportOrphanStats H db chain network mx env bs"
    and "live \<equiv> live_nodes H (rp_nodes db) (selectRetainedRootUnion db chain network)"
  shows "os_totalNodes st = length (rp_nodes db)
    \<and> os_orphanCount st = int (os_totalNodes st) - int (os_reachableNodes st)
    \<and> os_reachableNodes st \<le> length live
    \<and> (\<not> os_reachabilityEstimated st \<longrightarrow> os_reachableNodes st = length live)
    \<and> (os_reachabilityEstimated st \<longrightarrow>
         (if mx \<noteq> 0 then mx else if env \<noteq> 0 then env else 2000000) <
           int (card {h. reachable H (rp_nodes db) (selectRetainedRootUnion db chain network) h}))"
proof (cases "rp_nodes db = []")
  case True
  then show ?thesis by (simp add: st_def live_def reportOrphanStats_def countStateTreeNodes_def live_nodes_def)
next
  case False
  let ?rts = "selectRetainedRootUnion db chain network"
  let ?mx = "if mx \<noteq> 0 then mx else if env \<noteq> 0 then env else 2000000"
  let ?bs = "if bs \<noteq> 0 then bs else 1000"
  obtain seen frontier where f: "fold (offer H) ?rts ({}, []) = (seen, frontier)" by fastforce
  obtain r t where w: "walk H (rp_nodes db) ?mx ?bs seen frontier 0 = (r, t)" by fastforce
  have "distinct frontier" "set frontier = {x \<in> set ?rts. proper_hash H x}" "seen = {x \<in> set ?rts. proper_hash H x}"
    using offers_extends [of "({}, [])" H ?rts] f by (auto simp: extends_def)
  then have "walk_inv H (rp_nodes db) ?rts seen frontier 0"
    by (auto simp: walk_inv_def proper_hash_def intro: reachable.retained)
  note counts = walk_counts [OF this w]
  have "st = \<lparr>os_totalNodes = length (rp_nodes db), os_reachableNodes = r, os_orphanCount = int (length (rp_nodes db)) - int r,
      os_reachabilitySkipped = False, os_reachabilityEstimated = t\<rparr>"
    unfolding st_def reportOrphanStats_def countStateTreeNodes_def Let_def f using False w by simp
  then show ?thesis using counts unfolding live_def by simp
qed

definition node3 :: "string \<Rightarrow> string \<Rightarrow> string \<Rightarrow> tree_node" where
  "node3 h l r = \<lparr>tn_hash = h, tn_left = l, tn_right = r\<rparr>"

definition orphan_example :: replica where
  "orphan_example =
     \<lparr>rp_nodes = [node3 ''aa'' ''bb'' ''cc'', node3 ''bb'' ''dd'' ''ee'', node3 ''ff'' ''bb'' ''cc''],
      rp_contract_state = [], rp_escrow = [], rp_credits = [], rp_debits = [], rp_addresses = [], rp_tickers = [],
      rp_roots = [\<lparr>rr_chain = ''BTC'', rr_network = ''mainnet'', rr_block = 1, rr_balances = ''aa'', rr_stakes = [], rr_state = [],
        rr_block_merkle = [], rr_contract_state = None, rr_contract_shadow = None, rr_escrow_shadow = None\<rparr>]\<rparr>"

text \<open>Three rows of which the root \<^verbatim>\<open>aa\<close> reaches two.\<close>

lemma orphan_report_exact_witness:
  "\<exists>H. os_orphanCount (reportOrphanStats H orphan_example ''BTC'' ''mainnet'' 0 0 0) = 1
    \<and> os_reachableNodes (reportOrphanStats H orphan_example ''BTC'' ''mainnet'' 0 0 0) =
        length (live_nodes H (rp_nodes orphan_example) (selectRetainedRootUnion orphan_example ''BTC'' ''mainnet''))"
proof -
  let ?H = "\<lambda>_. ''constant''"
  have "EMPTY ?H k = ''constant''" for k by (cases k) (simp_all add: nodeHash_def)
  then have e: "EMPTY_CONSTANTS ?H = {hexenc ''constant''}" by (auto simp: EMPTY_CONSTANTS_def)
  have len: "length (hexenc ''constant'') = 16" by (simp only: length_hexenc) simp
  have ne: "hexenc ''constant'' \<noteq> [a, b]" for a b
  proof
    assume "hexenc ''constant'' = [a, b]"
    then have "length [a, b] = 16" using len by metis
    then show False by simp
  qed
  have off: "offer ?H [a, b] (S, xs) = (if [a, b] \<in> S then (S, xs) else (insert [a, b] S, xs @ [[a, b]]))" for a b S xs
    using ne [of a b] unfolding offer_def e by auto
  have blank: "offer ?H [] s = s" for s by (simp add: offer_def)
  have u: "selectRetainedRootUnion orphan_example ''BTC'' ''mainnet'' = [''aa'', []]"
    by (simp add: selectRetainedRootUnion_def orphan_example_def map_filter_simps)
  have f: "fold (offer ?H) [''aa'', []] ({}, []) = ({''aa''}, [''aa''])" by (simp add: off blank)
  have n: "rp_nodes orphan_example = [node3 ''aa'' ''bb'' ''cc'', node3 ''bb'' ''dd'' ''ee'', node3 ''ff'' ''bb'' ''cc'']"
    by (simp add: orphan_example_def)
  have w: "walk ?H (rp_nodes orphan_example) 2000000 1000 {''aa''} [''aa''] 0 = (2, False)"
    unfolding n by (simp add: walk.simps selectNodeRowsByHash_def node3_def offer_row_def off)
  have st: "reportOrphanStats ?H orphan_example ''BTC'' ''mainnet'' 0 0 0 =
      \<lparr>os_totalNodes = 3, os_reachableNodes = 2, os_orphanCount = 1, os_reachabilitySkipped = False, os_reachabilityEstimated = False\<rparr>"
    unfolding reportOrphanStats_def countStateTreeNodes_def Let_def u f by (simp add: w) (simp add: n)
  then show ?thesis
    using orphan_report_exact [of ?H orphan_example "''BTC''" "''mainnet''" 0 0 0]
    by (intro exI [of _ ?H]) simp
qed

end
