(* ===== verification/Gate_Load.thy ===== *)
theory Gate_Load
  imports Gate_Registry
begin

text \<open>
  The registry of this build: the committed rows pass registration, and what the readers
  and the activation predicate then answer.
\<close>

section \<open>The committed rows\<close>

lemma queued_rows_ok: "list_all row_ok queued"
  by code_simp

lemma sync_rows_ok: "list_all row_ok sync_rows"
  by code_simp

lemmas row_lists =
  shared_rows_1a_def shared_rows_1b_def shared_rows_1c_def shared_rows_1d_def shared_rows_1e_def
  shared_rows_2a_def shared_rows_2b_def shared_rows_2c_def shared_rows_3a_def shared_rows_3b_def
  shared_rows_3c_def shared_rows_4a_def shared_rows_4b_def shared_rows_4c_def shared_rows_4d_def
  shared_rows_4e_def shared_rows_5a_def shared_rows_5b_def shared_rows_5c_def sync_rows_def

lemma row_keys_distinct: "distinct (map fst (queued @ sync_rows))"
  by (simp add: queued_def row_lists)

lemma committed_row: "(k, u, t) \<in> set (queued @ sync_rows) \<Longrightarrow> map_of (queued @ sync_rows) k = Some (u, t)"
  using map_of_is_SomeI [OF row_keys_distinct, of k "(u, t)"] by simp

lemma arming_rules_read: "list_all (\<lambda>(key, name, _). name \<in> set ENV_READERS) REGTEST_ARMING"
  by code_simp

definition committed :: registry where
  "committed = \<lparr>reg_entries = queued @ sync_rows, reg_overlay = True, reg_cache = Map.empty\<rparr>"

lemma gate_registry_committed: "gate_registry = Inr committed"
proof -
  have "addGates createRegistry queued = Inr (createRegistry\<lparr>reg_entries := queued\<rparr>)"
    using addGates_ok [OF queued_rows_ok, of createRegistry] row_keys_distinct by (simp add: createRegistry_def)
  moreover have "addGates (setReadOverlay (createRegistry\<lparr>reg_entries := queued\<rparr>)) sync_rows = Inr committed"
    using addGates_ok [OF sync_rows_ok, of "setReadOverlay (createRegistry\<lparr>reg_entries := queued\<rparr>)"] row_keys_distinct
    by (simp add: createRegistry_def setReadOverlay_def committed_def)
  ultimately show ?thesis by (simp add: gate_registry_def registerRows_def)
qed

lemma swq_row:
  "map_of (queued @ sync_rows) ''stake_weighted_quorum.STAKE_WEIGHTED_QUORUM_ACTIVATION'' =
     Some (''height'', JObj [(''mainnet'', JInt 961000), (''testnet'', JInt 0), (''regtest'', JInt 0)])"
  by (rule committed_row) (simp add: queued_def shared_rows_3a_def)

section \<open>Properties\<close>

text \<open>The registry of this build loads: replaying the queued rows and then the rows of this
  repository throws nothing, every committed row is registered in order under its own key,
  and every regtest arming rule names an environment reader that exists.\<close>

theorem gate_registry_loads:
  "gate_registry = Inr \<lparr>reg_entries = queued @ sync_rows, reg_overlay = True, reg_cache = Map.empty\<rparr>
   \<and> (\<forall>(key, name, rule) \<in> set REGTEST_ARMING. \<forall>env. readRuleEnv name env = Inr (env name))"
proof
  show "gate_registry = Inr \<lparr>reg_entries = queued @ sync_rows, reg_overlay = True, reg_cache = Map.empty\<rparr>"
    using gate_registry_committed by (simp add: committed_def)
  show "\<forall>(key, name, rule) \<in> set REGTEST_ARMING. \<forall>env. readRuleEnv name env = Inr (env name)"
    using arming_rules_read by (auto simp: list_all_iff readRuleEnv_def)
qed

lemma gate_registry_loads_witness:
  "\<exists>r. gate_registry = Inr r \<and> reg_has r ''stake_weighted_quorum.STAKE_WEIGHTED_QUORUM_ACTIVATION''"
proof -
  have "map_of (queued @ sync_rows) ''stake_weighted_quorum.STAKE_WEIGHTED_QUORUM_ACTIVATION'' \<noteq> None"
    using swq_row by simp
  then show ?thesis using conjunct1 [OF gate_registry_loads]
    by (intro exI conjI) (assumption, simp add: reg_has_def del: map_of_append)
qed

text \<open>(C34) Reads never go stale: whatever sequence of reads a process makes while its environment
  changes, each returns what arming the committed row with the environment of that moment
  gives; the overlay's cache is invisible.\<close>

theorem registry_reads_follow_environment:
  "gate_registry = Inr r \<Longrightarrow> reg_reads r qs = map (\<lambda>(env, key). fresh_read env r key) qs"
  by (rule reg_reads_fresh) (auto simp: gate_registry_committed committed_def cache_ok_def)

lemma registry_reads_follow_environment_witness:
  "reg_reads committed [(Map.empty, ''rollcall_activation.ROLLCALL_ACTIVATION''), ([''XC_ROLLCALL_REGTEST_ACTIVATION'' \<mapsto> ''armed''], ''rollcall_activation.ROLLCALL_ACTIVATION'')] =
   map (\<lambda>(env, key). fresh_read env committed key)
     [(Map.empty, ''rollcall_activation.ROLLCALL_ACTIVATION''), ([''XC_ROLLCALL_REGTEST_ACTIVATION'' \<mapsto> ''armed''], ''rollcall_activation.ROLLCALL_ACTIVATION'')]"
  using registry_reads_follow_environment [OF gate_registry_committed] .


text \<open>Activation is monotone and fails closed: on the registry of this build a gate that is
  active at one height is active at every later height under the same environment; it is
  active only where the row's threshold for that network and coin is a number at or below
  the height, so an absent network or \<open>UNPINNED\<close> never activates.\<close>

theorem activeAt_monotone_fail_closed:
  assumes "gate_registry = Inr r"
    and "activeAt env r key (Some nw) coin (JInt h) time = Inr (True, r1)"
    and "unitOf r key \<noteq> Inr ''time''" "h \<le> h'"
  shows "(\<exists>r2. activeAt env r key (Some nw) coin (JInt h') time = Inr (True, r2))
    \<and> (\<exists>table t. fresh_read env r key = Inr table \<and> threshold_of table nw coin = JNum (Fin t) \<and> t \<le> of_int h)"
proof -
  have ok: "cache_ok r" using assms(1) by (auto simp: gate_registry_committed committed_def cache_ok_def)
  from activeAt_fresh [OF ok assms(2)] obtain utag table v where
    row: "map_of (reg_entries r) key = Some (utag, table)" "utag \<in> {''height'', ''epoch'', ''time''}"
    and v: "fresh_read env r key = Inr v" and b: "reached (threshold_of v nw coin) (if utag = ''time'' then time else JInt h)"
    by metis
  have ut: "utag \<noteq> ''time''" using assms(3) row(1) by (auto simp: unitOf_def)
  then obtain t where t: "threshold_of v nw coin = JNum (Fin t)" "t \<le> of_int h"
    using b by (auto simp: reached_int)
  then have t': "t \<le> of_int h'" using assms(4) by (meson of_int_le_iff order_trans)
  have "\<exists>r2. reg_read env r key = Inr (v, r2)"
    using reg_read_fresh(1) [OF ok, of env key] v by (cases "reg_read env r key") auto
  then have "\<exists>r2. activeAt env r key (Some nw) coin (JInt h') time = Inr (True, r2)"
    using row ut t t' by (cases v) (auto simp: activeAt_def threshold_of_def reached_int)
  then show ?thesis using v t by blast
qed

lemma activeAt_monotone_fail_closed_witness:
  "\<exists>r2. activeAt Map.empty committed ''stake_weighted_quorum.STAKE_WEIGHTED_QUORUM_ACTIVATION'' (Some ''mainnet'') None
     (JInt 1000000) JNull = Inr (True, r2)"
proof -
  let ?k = "''stake_weighted_quorum.STAKE_WEIGHTED_QUORUM_ACTIVATION''"
  note row = swq_row
  have rule: "arming_rule ?k = None" by (simp add: arming_rule_def REGTEST_ARMING_def)
  have "activeAt Map.empty committed ?k (Some ''mainnet'') None (JInt 961000) JNull = Inr (True, committed)"
    by (simp add: activeAt_def committed_def row rule reg_read_def armAtRead_def resolveThreshold_def own_def
        reached_def JInt_def del: map_of_append)
  from activeAt_monotone_fail_closed [OF gate_registry_committed this, of 1000000]
  show ?thesis by (simp add: unitOf_def committed_def row del: map_of_append)
qed

end
