(* ===== verification/Stake_Quorum.thy ===== *)
theory Stake_Quorum
  imports Activation_Gates
begin

text \<open>
  The stake-weighted quorum of \<^verbatim>\<open>src/src/consensus/stake_weighted_quorum.js\<close>.  Its arithmetic
  is the third-party \<^verbatim>\<open>mathjs\<close> bignumber, which is a parameter here: the record
  \<open>bignum\<close> of the operations the module calls.  Theorems assume \<open>exact_on\<close>: that sums
  and multiples of the stakes at hand are exact, as they are while they fit the 64
  significant digits \<^verbatim>\<open>mathjs\<close> computes with.
\<close>

section \<open>Snapshots\<close>

text \<open>One entry of a snapshot; a missing field is \<^verbatim>\<open>null\<close> or \<^verbatim>\<open>undefined\<close>.  An entry that is
  itself null is \<open>None\<close> in a snapshot.\<close>

record validator =
  v_pubkey :: string
  v_source :: "string option"
  v_weight :: "string option"

record snapshot =
  s_validators :: "validator option list"
  s_truncated :: bool

record 'n bignum =
  bn_zero :: 'n
  bn_of :: "string \<Rightarrow> 'n"
  bn_add :: "'n \<Rightarrow> 'n \<Rightarrow> 'n"
  bn_scale :: "'n \<Rightarrow> nat \<Rightarrow> 'n"
  bn_lt0 :: "'n \<Rightarrow> bool"
  bn_lte0 :: "'n \<Rightarrow> bool"
  bn_gt :: "'n \<Rightarrow> 'n \<Rightarrow> bool"

definition STAKE_WEIGHTED_QUORUM_ACTIVATION :: jsv where
  "STAKE_WEIGHTED_QUORUM_ACTIVATION =
     row_table shared_rows_3a ''stake_weighted_quorum.STAKE_WEIGHTED_QUORUM_ACTIVATION''"

definition isStakeWeightedQuorumActive :: "jsv \<Rightarrow> string \<Rightarrow> bool" where
  "isStakeWeightedQuorumActive snapshotBlock network = network_gate STAKE_WEIGHTED_QUORUM_ACTIVATION snapshotBlock network"

section \<open>The module\<close>

definition bcnum :: "'n bignum \<Rightarrow> string option \<Rightarrow> 'n" where
  "bcnum B v =
     (let s = (case v of None \<Rightarrow> ''0'' | Some x \<Rightarrow> js_trim x) in
      if s = [] \<or> decimal_text s = None then bn_zero B else bn_of B s)"

definition blank :: "string option \<Rightarrow> bool" where
  "blank x = (case x of None \<Rightarrow> True | Some s \<Rightarrow> js_trim s = [])"

text \<open>A weight that is neither missing nor nonnumeric, trimmed.\<close>

definition numeric_weight :: "string option \<Rightarrow> string option" where
  "numeric_weight w =
     (case w of
        None \<Rightarrow> None
      | Some x \<Rightarrow> (let ws = js_trim x in if ws = [] \<or> decimal_text ws = None then None else Some ws))"

type_synonym weights = "(string \<times> string) list"   \<comment> \<open>source to weight, in insertion order\<close>

fun total_weights :: "validator option list \<Rightarrow> weights \<Rightarrow> weights res" where
  "total_weights [] W = Inr W"
| "total_weights (vo # vs) W =
     (case vo of
        None \<Rightarrow> Inl ''stake_weighted_quorum.totalStake: blank/missing source would collapse the stake bucket''
      | Some v \<Rightarrow>
          if blank (v_source v)
          then Inl ''stake_weighted_quorum.totalStake: blank/missing source would collapse the stake bucket''
          else (let src = the (v_source v) in
                if map_of W src \<noteq> None then total_weights vs W
                else (case v_weight v of
                        None \<Rightarrow> Inl ''stake_weighted_quorum.totalStake: missing weight would silently lower S''
                      | Some _ \<Rightarrow>
                          (case numeric_weight (v_weight v) of
                             None \<Rightarrow> Inl ''stake_weighted_quorum.totalStake: nonnumeric weight would silently lower S''
                           | Some ws \<Rightarrow> total_weights vs (W @ [(src, ws)])))))"

fun total_sum :: "'n bignum \<Rightarrow> weights \<Rightarrow> 'n \<Rightarrow> 'n res" where
  "total_sum B [] S = Inr S"
| "total_sum B ((_, w) # ws) S =
     (let bw = bcnum B (Some w) in
      if bn_lt0 B bw then Inl ''stake_weighted_quorum.totalStake: negative weight in snapshot''
      else total_sum B ws (bn_add B S bw))"

definition totalStake :: "'n bignum \<Rightarrow> snapshot \<Rightarrow> 'n res" where
  "totalStake B snap =
     (if s_truncated snap then Inl ''stake_weighted_quorum.totalStake: truncated snapshot cannot be summed''
      else rbind (total_weights (s_validators snap) []) (\<lambda>W. total_sum B W (bn_zero B)))"

record stake_index =
  weightBySource :: weights
  pubkeyToSource :: "string \<rightharpoonup> string"

fun index_loop :: "validator option list \<Rightarrow> stake_index \<Rightarrow> stake_index option" where
  "index_loop [] ix = Some ix"
| "index_loop (vo # vs) ix =
     (case vo of
        None \<Rightarrow> None
      | Some v \<Rightarrow>
          if blank (v_source v) then None
          else (let src = the (v_source v);
                    ix' = ix\<lparr>pubkeyToSource := (pubkeyToSource ix)(toLowerCase (v_pubkey v) \<mapsto> src)\<rparr>
                in if map_of (weightBySource ix) src \<noteq> None then index_loop vs ix'
                   else (case numeric_weight (v_weight v) of
                           None \<Rightarrow> None
                         | Some ws \<Rightarrow> index_loop vs (ix'\<lparr>weightBySource := weightBySource ix @ [(src, ws)]\<rparr>))))"

definition indexStakeSources :: "validator option list \<Rightarrow> stake_index option" where
  "indexStakeSources vs = index_loop vs \<lparr>weightBySource = [], pubkeyToSource = Map.empty\<rparr>"

fun sum_loop :: "'n bignum \<Rightarrow> weights \<Rightarrow> 'n \<Rightarrow> 'n option" where
  "sum_loop B [] S = (if bn_lte0 B S then None else Some S)"
| "sum_loop B ((_, w) # ws) S =
     (let bw = bcnum B (Some w) in if bn_lt0 B bw then None else sum_loop B ws (bn_add B S bw))"

definition sumStakeWeights :: "'n bignum \<Rightarrow> weights \<Rightarrow> 'n option" where
  "sumStakeWeights B W = sum_loop B W (bn_zero B)"

fun tally_loop ::
  "'n bignum \<Rightarrow> stake_index \<Rightarrow> string list \<Rightarrow> string set \<Rightarrow> string set \<Rightarrow> 'n \<Rightarrow> 'n" where
  "tally_loop B ix [] seen counted tally = tally"
| "tally_loop B ix (pk # pks) seen counted tally =
     (let lpk = toLowerCase pk in
      if lpk \<in> seen then tally_loop B ix pks seen counted tally
      else (case pubkeyToSource ix lpk of
              None \<Rightarrow> tally_loop B ix pks (insert lpk seen) counted tally
            | Some src \<Rightarrow>
                if src \<in> counted then tally_loop B ix pks (insert lpk seen) counted tally
                else tally_loop B ix pks (insert lpk seen) (insert src counted)
                       (bn_add B tally (bcnum B (map_of (weightBySource ix) src)))))"

definition sumSignerStake :: "'n bignum \<Rightarrow> stake_index \<Rightarrow> string list \<Rightarrow> 'n" where
  "sumSignerStake B ix signerPubkeys = tally_loop B ix signerPubkeys {} {} (bn_zero B)"

definition meetsStakeThreshold :: "'n bignum \<Rightarrow> snapshot \<Rightarrow> string list \<Rightarrow> bool" where
  "meetsStakeThreshold B snap signerPubkeys =
     (if s_truncated snap then False
      else (case indexStakeSources (s_validators snap) of
              None \<Rightarrow> False
            | Some ix \<Rightarrow>
                (case sumStakeWeights B (weightBySource ix) of
                   None \<Rightarrow> False
                 | Some S \<Rightarrow> bn_gt B (bn_scale B (sumSignerStake B ix signerPubkeys) 3) (bn_scale B S 2))))"

lemma trim_start_no_ws: "ws_prefix ws (trim_start ws s) = None"
proof (induction ws s rule: trim_start.induct)
  case (1 ws s)
  then show ?case by (cases "ws_prefix ws s") (simp_all add: trim_start.simps [of ws s])
qed

lemma trim_start_suffix: "\<exists>k. trim_start ws s = drop k s"
proof (induction ws s rule: trim_start.induct)
  case (1 ws s)
  show ?case
  proof (cases "ws_prefix ws s")
    case None
    then show ?thesis by (intro exI [of _ 0]) (simp add: trim_start.simps)
  next
    case (Some w)
    then obtain k where "trim_start ws (drop (length w) s) = drop k (drop (length w) s)" using 1 by blast
    then show ?thesis using Some by (intro exI [of _ "k + length w"]) (simp add: trim_start.simps [of ws s])
  qed
qed

lemma ws_prefix_take: "ws_prefix ws s = None \<Longrightarrow> ws_prefix ws (take n s) = None"
  by (auto simp: ws_prefix_def find_None_iff) (metis append_take_drop_id append_eq_conv_conj length_take min.absorb2 nat_le_linear take_all take_take)

lemma js_trim_idem: "js_trim (js_trim s) = js_trim s"
proof -
  let ?l = "trim_start js_ws s" and ?r = "\<lambda>t. trim_start (map rev js_ws) t"
  obtain k where k: "?r (rev ?l) = drop k (rev ?l)" using trim_start_suffix by blast
  have "js_trim s = take (length ?l - k) ?l" by (simp add: js_trim_def k rev_drop)
  then have "ws_prefix js_ws (js_trim s) = None" using ws_prefix_take [OF trim_start_no_ws] by simp
  then have "trim_start js_ws (js_trim s) = js_trim s" by (simp add: trim_start.simps [of js_ws])
  moreover have "ws_prefix (map rev js_ws) (rev (js_trim s)) = None" by (simp add: js_trim_def trim_start_no_ws)
  then have "?r (rev (js_trim s)) = rev (js_trim s)" by (simp add: trim_start.simps [of "map rev js_ws"])
  ultimately show ?thesis by (simp add: js_trim_def [of "js_trim s"])
qed

section \<open>The index of a snapshot\<close>

definition index_ok :: "stake_index \<Rightarrow> bool" where
  "index_ok ix \<longleftrightarrow>
     distinct (map fst (weightBySource ix)) \<and>
     ran (pubkeyToSource ix) \<subseteq> fst ` set (weightBySource ix) \<and>
     (\<forall>(src, w) \<in> set (weightBySource ix). w \<noteq> [] \<and> js_trim w = w \<and> decimal_text w \<noteq> None)"

lemma numeric_weight_SomeD:
  "numeric_weight w = Some ws \<Longrightarrow> ws \<noteq> [] \<and> js_trim ws = ws \<and> decimal_text ws \<noteq> None"
  by (auto simp: numeric_weight_def js_trim_idem Let_def split: option.splits if_splits)

lemma index_loop_ok: "index_loop vs ix = Some ix' \<Longrightarrow> index_ok ix \<Longrightarrow> index_ok ix'"
proof (induction vs arbitrary: ix)
  case (Cons vo vs)
  from Cons.prems(1) obtain v where v: "vo = Some v" "\<not> blank (v_source v)"
    by (auto split: option.splits if_splits)
  define src where "src = the (v_source v)"
  let ?ix = "ix\<lparr>pubkeyToSource := (pubkeyToSource ix)(toLowerCase (v_pubkey v) \<mapsto> src)\<rparr>"
  have upd: "ran ((pubkeyToSource ix)(toLowerCase (v_pubkey v) \<mapsto> src)) \<subseteq> insert src (ran (pubkeyToSource ix))"
    by (auto simp: ran_def)
  show ?case
  proof (cases "map_of (weightBySource ix) src")
    case None
    then obtain ws where ws: "numeric_weight (v_weight v) = Some ws"
      "index_loop vs (?ix\<lparr>weightBySource := weightBySource ix @ [(src, ws)]\<rparr>) = Some ix'"
      using Cons.prems(1) v by (auto simp: Let_def src_def split: option.splits)
    have "index_ok (?ix\<lparr>weightBySource := weightBySource ix @ [(src, ws)]\<rparr>)"
      using Cons.prems(2) None numeric_weight_SomeD [OF ws(1)] upd
      by (auto simp: index_ok_def map_of_eq_None_iff)
    then show ?thesis using Cons.IH ws(2) by blast
  next
    case (Some w)
    then have *: "index_loop vs ?ix = Some ix'" using Cons.prems(1) v by (simp add: Let_def src_def)
    have "src \<in> fst ` set (weightBySource ix)" using map_of_SomeD [OF Some] by force
    then have "index_ok ?ix" using Cons.prems(2) upd by (auto simp: index_ok_def)
    then show ?thesis using Cons.IH * by blast
  qed
qed simp

lemma indexStakeSources_ok: "indexStakeSources vs = Some ix \<Longrightarrow> index_ok ix"
  unfolding indexStakeSources_def by (rule index_loop_ok) (auto simp: index_ok_def)

section \<open>Exact arithmetic\<close>

text \<open>The contract of the bignumber library: a decimal text denotes its value, comparisons are
  exact, and a sum or a multiple is exact when its value has at most 64 significant digits.\<close>

definition fits :: "rat \<Rightarrow> bool" where
  "fits q \<longleftrightarrow> (\<exists>m e. \<bar>m\<bar> < 10 ^ 64 \<and> q = of_int m / 10 ^ e)"

definition bignum_contract :: "'n bignum \<Rightarrow> ('n \<Rightarrow> rat) \<Rightarrow> bool" where
  "bignum_contract B val \<longleftrightarrow>
     val (bn_zero B) = 0 \<and>
     (\<forall>s q. decimal_text s = Some q \<longrightarrow> val (bn_of B s) = q) \<and>
     (\<forall>a b. fits (val a + val b) \<longrightarrow> val (bn_add B a b) = val a + val b) \<and>
     (\<forall>a k. fits (of_nat k * val a) \<longrightarrow> val (bn_scale B a k) = of_nat k * val a) \<and>
     (\<forall>a. bn_lt0 B a \<longleftrightarrow> val a < 0) \<and> (\<forall>a. bn_lte0 B a \<longleftrightarrow> val a \<le> 0) \<and>
     (\<forall>a b. bn_gt B a b \<longleftrightarrow> val b < val a)"

definition weight_value :: "string \<Rightarrow> rat" where
  "weight_value w = the (decimal_text w)"

definition stake_of :: "weights \<Rightarrow> string \<Rightarrow> rat" where
  "stake_of W src = (case map_of W src of None \<Rightarrow> 0 | Some w \<Rightarrow> weight_value w)"

definition total_of :: "weights \<Rightarrow> rat" where
  "total_of W = sum (stake_of W) (fst ` set W)"

definition signing_sources :: "stake_index \<Rightarrow> string list \<Rightarrow> string set" where
  "signing_sources ix pks = {src. \<exists>pk \<in> set pks. pubkeyToSource ix (toLowerCase pk) = Some src}"




definition grid :: "rat \<Rightarrow> bool" where
  "grid q \<longleftrightarrow> (\<exists>m. q = of_int m / 10 ^ 18)"

lemma grid_0: "grid 0"
  unfolding grid_def by (intro exI [of _ 0]) simp

lemma grid_add: "grid p \<Longrightarrow> grid q \<Longrightarrow> grid (p + q)"
  unfolding grid_def by (metis add_divide_distrib of_int_add)

lemma grid_nat: "grid q \<Longrightarrow> grid (of_nat k * q)"
  by (induction k) (auto simp: grid_0 distrib_right intro: grid_add)

lemma fits_grid: "grid q \<Longrightarrow> \<bar>q\<bar> < 10 ^ 46 \<Longrightarrow> fits q"
proof -
  assume "grid q" and q: "\<bar>q\<bar> < 10 ^ 46"
  then obtain m where m: "q = of_int m / 10 ^ 18" unfolding grid_def by blast
  then have "of_int \<bar>m\<bar> = \<bar>q\<bar> * 10 ^ 18" by (simp add: abs_divide)
  also have "\<dots> < 10 ^ 46 * 10 ^ 18" using q by simp
  also have "\<dots> = of_int (10 ^ 64)" by simp
  finally have "\<bar>m\<bar> < 10 ^ 64" using of_int_less_iff by blast
  with m show ?thesis unfolding fits_def by blast
qed

lemma val_zero: "bignum_contract B val \<Longrightarrow> val (bn_zero B) = 0"
  by (simp add: bignum_contract_def)

lemma val_add:
  "bignum_contract B val \<Longrightarrow> grid (val a) \<Longrightarrow> grid (val b) \<Longrightarrow> \<bar>val a + val b\<bar> < 10 ^ 46 \<Longrightarrow>
     val (bn_add B a b) = val a + val b"
  using fits_grid grid_add unfolding bignum_contract_def by blast

lemma val_scale:
  "bignum_contract B val \<Longrightarrow> grid (val a) \<Longrightarrow> \<bar>of_nat k * val a\<bar> < 10 ^ 46 \<Longrightarrow>
     val (bn_scale B a k) = of_nat k * val a"
  using fits_grid grid_nat unfolding bignum_contract_def by blast

lemma val_bcnum:
  "bignum_contract B val \<Longrightarrow> w \<noteq> [] \<Longrightarrow> js_trim w = w \<Longrightarrow> decimal_text w \<noteq> None \<Longrightarrow>
     val (bcnum B (Some w)) = weight_value w"
  by (auto simp: bcnum_def weight_value_def bignum_contract_def)

lemma val_lt0: "bignum_contract B val \<Longrightarrow> bn_lt0 B a \<longleftrightarrow> val a < 0"
  by (simp add: bignum_contract_def)

definition weight_sum :: "weights \<Rightarrow> rat" where
  "weight_sum W = (\<Sum>p \<leftarrow> W. weight_value (snd p))"

definition usable :: "weights \<Rightarrow> bool" where
  "usable W \<longleftrightarrow>
     (\<forall>p \<in> set W. snd p \<noteq> [] \<and> js_trim (snd p) = snd p \<and> decimal_text (snd p) \<noteq> None \<and> grid (weight_value (snd p)))"

lemma sum_loop_negative:
  assumes "bignum_contract B val" "usable W" "\<exists>p \<in> set W. weight_value (snd p) < 0"
  shows "sum_loop B W S = None"
  using assms(2,3)
proof (induction W arbitrary: S)
  case (Cons p W)
  obtain src w where p: "p = (src, w)" by fastforce
  have "val (bcnum B (Some w)) = weight_value w"
    using Cons.prems(1) by (intro val_bcnum [OF assms(1)]) (auto simp: p usable_def)
  then have "bn_lt0 B (bcnum B (Some w)) \<longleftrightarrow> weight_value w < 0" using val_lt0 [OF assms(1)] by simp
  then show ?case using Cons by (auto simp: p usable_def Let_def)
qed simp

lemma sum_loop_val:
  assumes "bignum_contract B val" "usable W" "\<forall>p \<in> set W. 0 \<le> weight_value (snd p)"
    and "grid (val S)" "0 \<le> val S" "val S + weight_sum W < 10 ^ 46"
  shows "if val S + weight_sum W \<le> 0 then sum_loop B W S = None
    else \<exists>S'. sum_loop B W S = Some S' \<and> val S' = val S + weight_sum W"
  using assms(2-)
proof (induction W arbitrary: S)
  case Nil
  then show ?case using assms(1) by (simp add: bignum_contract_def weight_sum_def)
next
  case (Cons p W)
  obtain src w where p: "p = (src, w)" by fastforce
  have v: "val (bcnum B (Some w)) = weight_value w"
    using Cons.prems(1) by (intro val_bcnum [OF assms(1)]) (auto simp: p usable_def)
  have w: "0 \<le> weight_value w" "grid (weight_value w)" using Cons.prems by (auto simp: p usable_def)
  have sn: "0 \<le> weight_sum W" unfolding weight_sum_def using Cons.prems(2) by (intro sum_list_nonneg) auto
  have split: "weight_sum (p # W) = weight_value w + weight_sum W" by (simp add: weight_sum_def p)
  have add: "val (bn_add B S (bcnum B (Some w))) = val S + weight_value w"
    unfolding v [symmetric] using Cons.prems w sn split v by (intro val_add [OF assms(1)]) auto
  have step: "sum_loop B (p # W) S = sum_loop B W (bn_add B S (bcnum B (Some w)))"
    using val_lt0 [OF assms(1)] v w by (simp add: p Let_def)
  have "if val (bn_add B S (bcnum B (Some w))) + weight_sum W \<le> 0 then sum_loop B W (bn_add B S (bcnum B (Some w))) = None
    else \<exists>S'. sum_loop B W (bn_add B S (bcnum B (Some w))) = Some S' \<and> val S' = val (bn_add B S (bcnum B (Some w))) + weight_sum W"
    using Cons.prems w add split by (intro Cons.IH) (auto simp: usable_def intro: grid_add)
  then show ?case unfolding step add split by (simp only: add.assoc)
qed

lemma tally_loop_val:
  assumes C: "bignum_contract B val" and ix: "index_ok ix" and W: "W = weightBySource ix" "usable W"
    and nn: "\<forall>p \<in> set W. 0 \<le> weight_value (snd p)" and tot: "total_of W < 10 ^ 46"
    and inv: "val tally = sum (stake_of W) counted" "counted \<subseteq> fst ` set W"
      "\<forall>l \<in> seen. \<forall>src. pubkeyToSource ix l = Some src \<longrightarrow> src \<in> counted"
  shows "val (tally_loop B ix pks seen counted tally) = sum (stake_of W) (counted \<union> signing_sources ix pks)"
proof -
  have st: "0 \<le> stake_of W src" "grid (stake_of W src)" for src
  proof -
    have "(src, w) \<in> set W" if "map_of W src = Some w" for w using that by (rule map_of_SomeD)
    then show "0 \<le> stake_of W src" "grid (stake_of W src)"
      using nn W(2) by (fastforce simp: stake_of_def usable_def grid_0 split: option.split)+
  qed
  have bound: "0 \<le> sum (stake_of W) A \<and> sum (stake_of W) A < 10 ^ 46 \<and> grid (sum (stake_of W) A)"
    if "A \<subseteq> fst ` set W" for A
  proof -
    have "sum (stake_of W) A \<le> total_of W" unfolding total_of_def using that st by (intro sum_mono2) auto
    moreover have "finite A" using that finite_subset by blast
    then have "grid (sum (stake_of W) A)" by (induction rule: finite_induct) (auto intro: grid_0 grid_add st)
    ultimately show ?thesis using tot st by (auto intro: sum_nonneg)
  qed
  show ?thesis using inv
  proof (induction pks arbitrary: seen counted tally)
    case Nil
    then show ?case by (simp add: signing_sources_def)
  next
    case (Cons pk pks)
    let ?l = "toLowerCase pk"
    have sg: "signing_sources ix (pk # pks) = {src. pubkeyToSource ix ?l = Some src} \<union> signing_sources ix pks"
      by (auto simp: signing_sources_def)
    consider "?l \<in> seen \<or> pubkeyToSource ix ?l = None \<or> (\<exists>src \<in> counted. pubkeyToSource ix ?l = Some src)"
      | src where "?l \<notin> seen" "pubkeyToSource ix ?l = Some src" "src \<notin> counted"
      by (cases "pubkeyToSource ix ?l") auto
    then show ?case
    proof cases
      case 1
      have cnt: "src \<in> counted" if "pubkeyToSource ix ?l = Some src" for src
        using 1 that Cons.prems(3) by auto
      have same: "counted \<union> signing_sources ix (pk # pks) = counted \<union> signing_sources ix pks"
        using cnt sg by auto
      have seen': "\<forall>l \<in> insert ?l seen. \<forall>src. pubkeyToSource ix l = Some src \<longrightarrow> src \<in> counted"
        using cnt Cons.prems(3) by blast
      have "tally_loop B ix (pk # pks) seen counted tally =
          tally_loop B ix pks (if ?l \<in> seen then seen else insert ?l seen) counted tally"
        using cnt by (auto simp: Let_def split: option.split)
      then show ?thesis
        using Cons.IH [OF Cons.prems(1,2) seen'] Cons.IH [OF Cons.prems] same by (cases "?l \<in> seen") simp_all
    next
      case (2 src)
      have src: "src \<in> fst ` set W" using ix W(1) 2(2) by (auto simp: index_ok_def ran_def)
      then obtain w where w: "map_of W src = Some w" by (metis map_of_eq_None_iff not_None_eq)
      have vw: "val (bcnum B (map_of (weightBySource ix) src)) = stake_of W src"
        using W w map_of_SomeD [OF w] by (auto simp: stake_of_def usable_def intro!: val_bcnum [OF C])
      have ins: "insert src counted \<subseteq> fst ` set W" using src Cons.prems(2) by simp
      have fin: "finite counted" using Cons.prems(2) finite_subset by blast
      have sum: "sum (stake_of W) (insert src counted) = val tally + stake_of W src"
        using 2(3) fin Cons.prems(1) by simp
      have add: "val (bn_add B tally (bcnum B (map_of (weightBySource ix) src))) = sum (stake_of W) (insert src counted)"
        unfolding sum vw [symmetric]
        using bound [OF Cons.prems(2)] bound [OF ins] Cons.prems(1) sum vw st by (intro val_add [OF C]) auto
      have "val (tally_loop B ix pks (insert ?l seen) (insert src counted) (bn_add B tally (bcnum B (map_of (weightBySource ix) src))))
          = sum (stake_of W) (insert src counted \<union> signing_sources ix pks)"
        using Cons.prems 2 ins add by (intro Cons.IH) auto
      moreover have "insert src counted \<union> signing_sources ix pks = counted \<union> signing_sources ix (pk # pks)"
        using sg 2(2) by auto
      ultimately show ?thesis using 2 by (simp add: Let_def)
    qed
  qed
qed


lemma total_of_weight_sum: "distinct (map fst W) \<Longrightarrow> total_of W = weight_sum W"
proof -
  assume d: "distinct (map fst W)"
  have "stake_of W (fst p) = weight_value (snd p)" if "p \<in> set W" for p
  proof -
    have "map_of W (fst p) = Some (snd p)" using that d by (intro map_of_is_SomeI) auto
    then show ?thesis by (simp add: stake_of_def)
  qed
  moreover have "total_of W = (\<Sum>p \<leftarrow> W. stake_of W (fst p))"
    unfolding total_of_def using d by (simp add: sum_list_distinct_conv_sum_set [of "map fst W" "stake_of W", simplified, symmetric] comp_def)
  ultimately show ?thesis unfolding weight_sum_def by (metis (no_types, lifting) map_cong)
qed

text \<open>The weights are decimals of at most 18 places and their triple total fits the precision.\<close>

definition within_precision :: "weights \<Rightarrow> bool" where
  "within_precision W \<longleftrightarrow> (\<forall>p \<in> set W. grid (weight_value (snd p))) \<and> 3 * total_of W < 10 ^ 46"

lemma meets_exact:
  assumes C: "bignum_contract B val" and trunc: "\<not> s_truncated snap"
    and ix: "indexStakeSources (s_validators snap) = Some ix" and P: "within_precision (weightBySource ix)"
  shows "meetsStakeThreshold B snap pks \<longleftrightarrow>
    (\<forall>p \<in> set (weightBySource ix). 0 \<le> weight_value (snd p)) \<and> 0 < total_of (weightBySource ix) \<and>
    2 * total_of (weightBySource ix) < 3 * sum (stake_of (weightBySource ix)) (signing_sources ix pks)"
proof (cases "\<forall>p \<in> set (weightBySource ix). 0 \<le> weight_value (snd p)")
  case nn: True
  let ?W = "weightBySource ix"
  have ok: "index_ok ix" by (rule indexStakeSources_ok [OF ix])
  have us: "usable ?W" using ok P by (auto simp: usable_def index_ok_def within_precision_def)
  have ts: "total_of ?W = weight_sum ?W" using ok by (intro total_of_weight_sum) (simp add: index_ok_def)
  have t0: "0 \<le> total_of ?W" unfolding ts weight_sum_def using nn by (intro sum_list_nonneg) auto
  have t: "total_of ?W < 10 ^ 46" "3 * total_of ?W < 10 ^ 46" using P t0 by (auto simp: within_precision_def)
  have S: "if total_of ?W \<le> 0 then sumStakeWeights B ?W = None
      else \<exists>S. sumStakeWeights B ?W = Some S \<and> val S = total_of ?W"
    using sum_loop_val [OF C us nn, of "bn_zero B"] t unfolding ts
    by (simp only: sumStakeWeights_def val_zero [OF C] grid_0 add_0 order_refl HOL.simp_thms True_implies_equals)
  have T: "val (sumSignerStake B ix pks) = sum (stake_of ?W) (signing_sources ix pks)"
    using tally_loop_val [OF C ok refl us nn t(1), of "bn_zero B" "{}" "{}" pks]
    by (simp add: sumSignerStake_def val_zero [OF C])
  have sub: "signing_sources ix pks \<subseteq> fst ` set ?W"
    using ok by (auto simp: signing_sources_def index_ok_def ran_def)
  have st: "0 \<le> stake_of ?W src" "grid (stake_of ?W src)" for src
    using nn us map_of_SomeD [of ?W src] by (fastforce simp: stake_of_def usable_def grid_0 split: option.split)+
  have fin: "finite (signing_sources ix pks)" using sub finite_subset by blast
  have tl: "0 \<le> sum (stake_of ?W) (signing_sources ix pks)" "sum (stake_of ?W) (signing_sources ix pks) \<le> total_of ?W"
    using st sub by (auto simp: total_of_def intro!: sum_nonneg sum_mono2)
  have gr: "grid (sum (stake_of ?W) A)" if "finite A" for A
    using that by (induction rule: finite_induct) (auto intro: grid_0 grid_add st)
  have v3: "val (bn_scale B (sumSignerStake B ix pks) 3) = 3 * sum (stake_of ?W) (signing_sources ix pks)"
    using val_scale [OF C, of "sumSignerStake B ix pks" 3] T gr [OF fin] tl t by simp
  have v2: "val (bn_scale B S 2) = 2 * total_of ?W" if "val S = total_of ?W" for S
    using val_scale [OF C, of S 2] that gr [of "fst ` set ?W"] t t0 by (simp add: total_of_def)
  have gt: "bn_gt B a b \<longleftrightarrow> val b < val a" for a b using C by (simp add: bignum_contract_def)
  show ?thesis
    using S nn trunc ix v2 v3 gt t0 by (cases "total_of ?W \<le> 0") (auto simp: meetsStakeThreshold_def)
next
  case False
  have "usable (weightBySource ix)"
    using indexStakeSources_ok [OF ix] P by (auto simp: usable_def index_ok_def within_precision_def)
  then have "sumStakeWeights B (weightBySource ix) = None"
    unfolding sumStakeWeights_def using False by (intro sum_loop_negative [OF C]) (auto simp: not_le)
  then show ?thesis using False trunc ix by (auto simp: meetsStakeThreshold_def)
qed

text \<open>(C22) The quorum test is the exact two-thirds test: on a complete snapshot whose stakes fit the
  precision, it holds exactly when no weight is negative, the total over distinct sources is
  positive, and three times the stake of the distinct sources that signed exceeds twice the
  total.  Duplicate signers, repeated keys of a source, key case and signer order do not
  matter.\<close>

theorem stake_quorum_exact:
  assumes "bignum_contract B val" "\<not> s_truncated snap"
    and "indexStakeSources (s_validators snap) = Some ix" "within_precision (weightBySource ix)"
  shows "meetsStakeThreshold B snap pks \<longleftrightarrow>
    (\<forall>p \<in> set (weightBySource ix). 0 \<le> weight_value (snd p)) \<and> 0 < total_of (weightBySource ix) \<and>
    2 * total_of (weightBySource ix) < 3 * sum (stake_of (weightBySource ix)) (signing_sources ix pks)"
  by (rule meets_exact [OF assms])

text \<open>(C33) Two stake quorums of one snapshot overlap in more than a third of the stake: the sources
  that signed both hold more than a third of the total.\<close>

theorem stake_quorum_intersection:
  assumes "bignum_contract B val" "indexStakeSources (s_validators snap) = Some ix"
    and "within_precision (weightBySource ix)"
    and "meetsStakeThreshold B snap pks1" "meetsStakeThreshold B snap pks2"
  shows "total_of (weightBySource ix) <
    3 * sum (stake_of (weightBySource ix)) (signing_sources ix pks1 \<inter> signing_sources ix pks2)"
proof -
  let ?W = "weightBySource ix" and ?A = "signing_sources ix pks1" and ?B = "signing_sources ix pks2"
  have tr: "\<not> s_truncated snap" using assms(4) by (auto simp: meetsStakeThreshold_def)
  note ex = meets_exact [OF assms(1) tr assms(2,3)]
  have nn: "\<forall>p \<in> set ?W. 0 \<le> weight_value (snd p)" and a: "2 * total_of ?W < 3 * sum (stake_of ?W) ?A"
    and b: "2 * total_of ?W < 3 * sum (stake_of ?W) ?B" using ex assms(4,5) by auto
  have ok: "index_ok ix" by (rule indexStakeSources_ok [OF assms(2)])
  have sub: "?A \<subseteq> fst ` set ?W" "?B \<subseteq> fst ` set ?W" using ok by (auto simp: signing_sources_def index_ok_def ran_def)
  then have fin: "finite ?A" "finite ?B" using finite_subset by blast+
  have st: "0 \<le> stake_of ?W src" for src
    using nn map_of_SomeD [of ?W src] by (fastforce simp: stake_of_def split: option.split)
  have "sum (stake_of ?W) (?A \<union> ?B) \<le> total_of ?W"
    unfolding total_of_def using sub st by (intro sum_mono2) auto
  moreover have "sum (stake_of ?W) ?A + sum (stake_of ?W) ?B =
      sum (stake_of ?W) (?A \<union> ?B) + sum (stake_of ?W) (?A \<inter> ?B)"
    using fin by (simp add: sum.union_inter)
  ultimately show ?thesis using a b by simp
qed

text \<open>The two walks over a snapshot, \<^verbatim>\<open>totalStake\<close>'s and the quorum test's, build the same weights.\<close>

lemma index_total:
  "map_option weightBySource (index_loop vs ix) =
     (case total_weights vs (weightBySource ix) of Inl _ \<Rightarrow> None | Inr W \<Rightarrow> Some W)"
proof (induction vs arbitrary: ix)
  case (Cons vo vs)
  show ?case
  proof (cases vo)
    case (Some v)
    then show ?thesis
      by (cases "v_weight v")
         (auto simp: Cons.IH Let_def numeric_weight_def split: option.splits)
  qed simp
qed simp

definition entry_ok :: "validator option list \<Rightarrow> nat \<Rightarrow> bool" where
  "entry_ok vs i =
     (case vs ! i of
        None \<Rightarrow> False
      | Some v \<Rightarrow> \<not> blank (v_source v) \<and>
          (numeric_weight (v_weight v) \<noteq> None \<or> (\<exists>j < i. \<exists>u. vs ! j = Some u \<and> v_source u = v_source v)))"

lemma index_loop_entries:
  "index_loop vs ix = Some ix' \<Longrightarrow> i < length vs \<Longrightarrow>
     entry_ok vs i \<or> (\<exists>v. vs ! i = Some v \<and> \<not> blank (v_source v) \<and> map_of (weightBySource ix) (the (v_source v)) \<noteq> None)"
proof (induction vs arbitrary: ix i)
  case (Cons vo vs)
  from Cons.prems(1) obtain v where v: "vo = Some v" "\<not> blank (v_source v)"
    by (auto split: option.splits if_splits)
  show ?case
  proof (cases i)
    case 0
    then show ?thesis
      using Cons.prems(1) v by (auto simp: entry_ok_def Let_def split: option.splits if_splits)
  next
    case (Suc k)
    obtain ix1 where ix1: "index_loop vs ix1 = Some ix'"
      "weightBySource ix1 = weightBySource ix \<or> (\<exists>ws. weightBySource ix1 = weightBySource ix @ [(the (v_source v), ws)])"
      using Cons.prems(1) v by (auto simp: Let_def split: option.splits if_splits)
    have "entry_ok vs k \<or> (\<exists>w. vs ! k = Some w \<and> \<not> blank (v_source w) \<and> map_of (weightBySource ix1) (the (v_source w)) \<noteq> None)"
      using Cons.IH [OF ix1(1), of k] Cons.prems(2) Suc by simp
    then show ?thesis
    proof (elim disjE exE)
      assume "entry_ok vs k"
      then show ?thesis using Suc v
        by (force simp: entry_ok_def split: option.splits)
    next
      fix w assume w: "vs ! k = Some w \<and> \<not> blank (v_source w) \<and> map_of (weightBySource ix1) (the (v_source w)) \<noteq> None"
      show ?thesis
      proof (cases "map_of (weightBySource ix) (the (v_source w)) = None")
        case True
        then have "the (v_source w) = the (v_source v)" using w ix1(2) by (auto split: if_splits)
        then have "v_source v = v_source w" using w v by (auto simp: blank_def split: option.splits)
        then show ?thesis using w v Suc by (auto simp: entry_ok_def intro!: exI [of _ 0])
      qed (use w Suc in auto)
    qed
  qed
qed simp

text \<open>A malformed snapshot never finalizes, whatever the arithmetic: a truncated snapshot, a
  null entry, a blank source, or a source whose first entry has a missing or nonnumeric
  weight gives a negative answer, and the total stake of such a snapshot throws.\<close>

theorem stake_quorum_fails_closed:
  assumes "s_truncated snap \<or> (\<exists>i < length (s_validators snap). \<not> entry_ok (s_validators snap) i)"
  shows "\<not> meetsStakeThreshold B snap pks \<and> \<not> is_ok (totalStake B snap)"
proof (cases "s_truncated snap")
  case True
  then show ?thesis by (simp add: meetsStakeThreshold_def totalStake_def)
next
  case False
  have "indexStakeSources (s_validators snap) = None"
    using index_loop_entries [of "s_validators snap" "\<lparr>weightBySource = [], pubkeyToSource = Map.empty\<rparr>"] assms False
    by (cases "indexStakeSources (s_validators snap)") (auto simp: indexStakeSources_def)
  moreover from this have "\<not> is_ok (total_weights (s_validators snap) [])"
    using index_total [of "s_validators snap" "\<lparr>weightBySource = [], pubkeyToSource = Map.empty\<rparr>"]
    by (cases "total_weights (s_validators snap) []") (auto simp: indexStakeSources_def)
  ultimately show ?thesis
    using False by (cases "total_weights (s_validators snap) []") (simp_all add: meetsStakeThreshold_def totalStake_def)
qed

section \<open>Witnesses\<close>

definition rat_bignum :: "rat bignum" where
  "rat_bignum = \<lparr>bn_zero = 0, bn_of = (\<lambda>s. case decimal_text s of None \<Rightarrow> 0 | Some q \<Rightarrow> q), bn_add = (+),
     bn_scale = (\<lambda>q k. of_nat k * q), bn_lt0 = (\<lambda>q. q < 0), bn_lte0 = (\<lambda>q. q \<le> 0), bn_gt = (\<lambda>p q. q < p)\<rparr>"

lemma rat_bignum_contract: "bignum_contract rat_bignum id"
  by (simp add: bignum_contract_def rat_bignum_def)

definition sample_snapshot :: snapshot where
  "sample_snapshot = \<lparr>s_validators =
     [Some \<lparr>v_pubkey = ''aa'', v_source = Some ''s1'', v_weight = Some ''50''\<rparr>,
      Some \<lparr>v_pubkey = ''bb'', v_source = Some ''s2'', v_weight = Some ''50''\<rparr>,
      Some \<lparr>v_pubkey = ''cc'', v_source = Some ''s2'', v_weight = Some ''50''\<rparr>], s_truncated = False\<rparr>"

definition sample_index :: stake_index where
  "sample_index = \<lparr>weightBySource = [(''s1'', ''50''), (''s2'', ''50'')],
     pubkeyToSource = [''aa'' \<mapsto> ''s1'', ''bb'' \<mapsto> ''s2'', ''cc'' \<mapsto> ''s2'']\<rparr>"

lemma sample_trims: "js_trim ''s1'' = ''s1''" "js_trim ''s2'' = ''s2''" "js_trim ''50'' = ''50''"
  "decimal_text ''50'' = Some 50" "toLowerCase ''aa'' = ''aa''" "toLowerCase ''BB'' = ''bb''"
  "toLowerCase ''bb'' = ''bb''" "toLowerCase ''cc'' = ''cc''"
  by code_simp+

lemma sample_index_eq: "indexStakeSources (s_validators sample_snapshot) = Some sample_index"
  by (simp add: indexStakeSources_def sample_snapshot_def sample_index_def blank_def numeric_weight_def sample_trims Let_def)

lemma sample_total: "total_of (weightBySource sample_index) = 100"
  by (simp add: total_of_def sample_index_def stake_of_def weight_value_def sample_trims)

lemma sample_precise: "within_precision (weightBySource sample_index)"
proof -
  have "grid 50" unfolding grid_def by (intro exI [of _ "50 * 10 ^ 18"]) simp
  then show ?thesis
    using sample_total by (auto simp: within_precision_def sample_index_def weight_value_def sample_trims)
qed

lemma stake_quorum_exact_witness:
  "meetsStakeThreshold rat_bignum sample_snapshot [''aa'', ''BB'', ''aa''] \<and> \<not> meetsStakeThreshold rat_bignum sample_snapshot [''bb'', ''cc'']"
proof -
  have "signing_sources sample_index [''aa'', ''BB'', ''aa''] = {''s1'', ''s2''}"
    "signing_sources sample_index [''bb'', ''cc''] = {''s2''}"
    by (auto simp: signing_sources_def sample_index_def sample_trims)
  then show ?thesis
    using stake_quorum_exact [OF rat_bignum_contract _ sample_index_eq sample_precise] sample_total
    by (simp add: sample_snapshot_def sample_index_def stake_of_def weight_value_def sample_trims)
qed

lemma stake_quorum_intersection_witness:
  "100 < 3 * sum (stake_of (weightBySource sample_index))
     (signing_sources sample_index [''aa'', ''bb''] \<inter> signing_sources sample_index [''cc'', ''aa''])"
proof -
  have m: "meetsStakeThreshold rat_bignum sample_snapshot [''aa'', ''bb'']" "meetsStakeThreshold rat_bignum sample_snapshot [''cc'', ''aa'']"
    by (simp_all add: meetsStakeThreshold_def sample_index_eq sumStakeWeights_def sumSignerStake_def sample_index_def
        bcnum_def rat_bignum_def sample_trims) (simp_all add: sample_snapshot_def)
  show ?thesis
    using stake_quorum_intersection [OF rat_bignum_contract sample_index_eq sample_precise m] sample_total by simp
qed

lemma stake_quorum_fails_closed_witness:
  "\<not> meetsStakeThreshold rat_bignum (sample_snapshot\<lparr>s_truncated := True\<rparr>) [''aa'', ''bb'']"
  using stake_quorum_fails_closed [of "sample_snapshot\<lparr>s_truncated := True\<rparr>" rat_bignum] by simp

end
