(* ===== verification/Checkpoint.thy ===== *)
theory Checkpoint
  imports Stake_Quorum
begin

text \<open>
  State checkpoints: the canonical signing string and the local verification of its quorum
  (\<^verbatim>\<open>src/src/checkpoint.js\<close>), with the supersession suffix
  (\<^verbatim>\<open>src/src/client/supersede_suffix.js\<close>).  Ed25519 verification is the
  parameter \<open>ed\<close> (payload, signature, public key); the JSON text form of the signature
  list is represented by its parse.  Numeric columns are integers.
\<close>

section \<open>Checkpoints\<close>

record fold_archive =
  fa_match_batch_seq :: int
  fa_match_count :: int
  fa_batch_crc32 :: string
  fa_total_chunks :: int

text \<open>The signature list as served: an array, a JSON text (with its parse, if it parses), or
  something else.  A missing key or signature is the empty string.\<close>

type_synonym sig = "string \<times> string"   \<comment> \<open>public key, signature\<close>

datatype sigs_value = SigArray "sig list" | SigOther

datatype sigs_field = SigValue sigs_value | SigText "sigs_value option"

record checkpoint =
  cp_chain :: string
  cp_network :: string
  cp_block_index :: int
  cp_block_hash :: string
  cp_ledger_hash :: string
  cp_actions_hash :: string
  cp_contract_hash :: string
  cp_checkpoint_seq :: int
  cp_snapshot_block :: int
  cp_state_root :: "string option"
  cp_state_root_version :: "int option"
  cp_block_merkle_root :: "string option"
  cp_block_merkle_version :: "int option"
  cp_supersedes_from :: "int option"
  cp_rules_digest :: "string option"
  cp_fold_archive :: "fold_archive option"
  cp_validator_signatures :: sigs_field

fun join_bar :: "string list \<Rightarrow> string" where
  "join_bar [] = []"
| "join_bar [w] = w"
| "join_bar (w # ws) = w @ ''|'' @ join_bar ws"

section \<open>Flag days\<close>

text \<open>\<^verbatim>\<open>activeAt\<close> on a committed height row that no environment rule arms.\<close>

definition height_row_active :: "jsv \<Rightarrow> string \<Rightarrow> string option \<Rightarrow> int \<Rightarrow> bool" where
  "height_row_active table network coin h = reached (threshold_of table network coin) (JInt h)"

definition isCheckpointCommitmentActive :: "int \<Rightarrow> string \<Rightarrow> bool" where
  "isCheckpointCommitmentActive snapshotBlock network =
     height_row_active
       (row_table shared_rows_2a ''checkpoint_commitment_activation.CHECKPOINT_COMMITMENT_ACTIVATION'')
       network None snapshotBlock"

definition isCheckpointSupersedeActive :: "int \<Rightarrow> string \<Rightarrow> bool" where
  "isCheckpointSupersedeActive snapshotBlock network =
     height_row_active
       (row_table shared_rows_5b ''checkpoint_supersede_activation.CHECKPOINT_SUPERSEDE_ACTIVATION'')
       network (Some ''BTC'') snapshotBlock"

section \<open>The supersession suffix\<close>

definition hasSupersedeFields :: "checkpoint \<Rightarrow> bool" where
  "hasSupersedeFields cp = (cp_supersedes_from cp \<noteq> None \<or> cp_rules_digest cp \<noteq> None)"

definition is_hex_text :: "nat \<Rightarrow> string \<Rightarrow> bool" where
  "is_hex_text n s = (length s = n \<and> list_all (\<lambda>c. hexval c \<noteq> None) s)"

definition supersedeSuffix :: "checkpoint \<Rightarrow> string res" where
  "supersedeSuffix cp =
     (case (cp_supersedes_from cp, cp_rules_digest cp) of
        (None, None) \<Rightarrow> Inr []
      | (Some from_, Some digest) \<Rightarrow>
          if from_ < 0 \<or> 2 ^ 53 - 1 < from_ then Inl ''supersedes_from must be a non-negative safe integer''
          else if \<not> is_hex_text 64 digest then Inl ''rules_digest must be 64 hexadecimal characters''
          else Inr (''|SUPERSEDE|'' @ int_str from_ @ ''|'' @ toLowerCase digest)
      | _ \<Rightarrow> Inl ''checkpoint supersession requires supersedes_from and rules_digest'')"

section \<open>The canonical string\<close>

definition base_fields :: "checkpoint \<Rightarrow> string list" where
  "base_fields cp =
     [''XCHECKPOINT'', cp_chain cp, cp_network cp, int_str (cp_block_index cp), cp_block_hash cp,
      cp_ledger_hash cp, cp_actions_hash cp, cp_contract_hash cp,
      int_str (cp_checkpoint_seq cp), int_str (cp_snapshot_block cp)]"

definition root_suffix :: "checkpoint \<Rightarrow> string" where
  "root_suffix cp =
     (case (cp_state_root cp, cp_state_root_version cp, cp_block_merkle_root cp, cp_block_merkle_version cp) of
        (Some sr, Some sv, Some mr, Some mv) \<Rightarrow>
          (if isCheckpointCommitmentActive (cp_snapshot_block cp) (cp_network cp)
           then ''|'' @ join_bar [toLowerCase sr, int_str sv, toLowerCase mr, int_str mv] else [])
      | _ \<Rightarrow> [])"

definition fold_suffix :: "checkpoint \<Rightarrow> string" where
  "fold_suffix cp =
     (case cp_fold_archive cp of
        None \<Rightarrow> []
      | Some f \<Rightarrow> ''|'' @ join_bar [int_str (fa_match_batch_seq f), int_str (fa_match_count f),
                                    toLowerCase (fa_batch_crc32 f), int_str (fa_total_chunks f)])"

definition round_id :: "checkpoint \<Rightarrow> string" where
  "round_id cp =
     cp_chain cp @ ''|'' @ cp_network cp @ ''|'' @ int_str (cp_block_index cp) @ ''|'' @ int_str (cp_checkpoint_seq cp) @
     (case cp_fold_archive cp of None \<Rightarrow> [] | Some f \<Rightarrow> ''|'' @ int_str (fa_match_batch_seq f))"

definition canonicalCheckpoint :: "checkpoint \<Rightarrow> string res" where
  "canonicalCheckpoint cp =
     rbind (if isCheckpointSupersedeActive (cp_snapshot_block cp) (cp_network cp) \<and> hasSupersedeFields cp
            then supersedeSuffix cp else Inr [])
       (\<lambda>sup.
          let raw = join_bar (base_fields cp) @ root_suffix cp @ sup @ fold_suffix cp in
          Inr (if isEquivHeaderActive (JInt (cp_snapshot_block cp)) (cp_network cp)
               then buildEquivCanonical ENGINE_TAG_CHECKPOINT (round_id cp) ''0'' raw
               else raw))"

definition tryCanonicalCheckpoint :: "checkpoint option \<Rightarrow> string option" where
  "tryCanonicalCheckpoint cp =
     (case cp of
        None \<Rightarrow> None
      | Some c \<Rightarrow> (case canonicalCheckpoint c of Inl _ \<Rightarrow> None | Inr s \<Rightarrow> Some s))"

section \<open>Verification\<close>

type_synonym ed25519 = "octets \<Rightarrow> octets \<Rightarrow> octets \<Rightarrow> bool"

definition verifySignature :: "ed25519 \<Rightarrow> string \<Rightarrow> string \<Rightarrow> string \<Rightarrow> bool" where
  "verifySignature ed payload sigHex pubkeyHex =
     (if payload = [] \<or> sigHex = [] \<or> pubkeyHex = [] then False
      else if \<not> is_hex_text 64 pubkeyHex then False
      else if \<not> is_hex_text 128 sigHex then False
      else ed payload (hexdec sigHex) (hexdec pubkeyHex))"

definition commitmentActive :: "checkpoint option \<Rightarrow> bool" where
  "commitmentActive cp =
     (case cp of None \<Rightarrow> False
      | Some c \<Rightarrow> isCheckpointCommitmentActive (cp_snapshot_block c) (cp_network c))"

definition commitmentMissing :: "checkpoint option \<Rightarrow> bool" where
  "commitmentMissing cp =
     (case cp of
        None \<Rightarrow> False
      | Some c \<Rightarrow>
          (if \<not> isCheckpointCommitmentActive (cp_snapshot_block c) (cp_network c) then False
           else cp_state_root c = None \<or> cp_state_root c = Some [] \<or>
                cp_block_merkle_root c = None \<or> cp_block_merkle_root c = Some [] \<or>
                cp_state_root_version c = None \<or> cp_block_merkle_version c = None))"

definition supersessionDisallowed :: "checkpoint option \<Rightarrow> bool" where
  "supersessionDisallowed cp =
     (case cp of
        None \<Rightarrow> False
      | Some c \<Rightarrow> hasSupersedeFields c \<and> \<not> isCheckpointSupersedeActive (cp_snapshot_block c) (cp_network c))"

text \<open>An entry of the supplied set: a bare public key or an object.\<close>

datatype vset_entry = Bare string | Entry validator

record vset =
  vs_entries :: "vset_entry list"
  vs_truncated :: bool

definition entry_pubkey :: "vset_entry \<Rightarrow> string" where
  "entry_pubkey e = (case e of Bare p \<Rightarrow> p | Entry v \<Rightarrow> v_pubkey v)"

definition isWeightedEntry :: "vset_entry \<Rightarrow> bool" where
  "isWeightedEntry e =
     (case e of
        Bare _ \<Rightarrow> False
      | Entry v \<Rightarrow>
          \<not> blank (v_source v) \<and> \<not> blank (v_weight v) \<and>
          (case number_text (the (v_weight v)) of Fin w \<Rightarrow> 0 \<le> w | _ \<Rightarrow> False))"

definition entry_validator :: "vset_entry \<Rightarrow> validator option" where
  "entry_validator e =
     Some (case e of Bare p \<Rightarrow> \<lparr>v_pubkey = ''undefined'', v_source = None, v_weight = None\<rparr> | Entry v \<Rightarrow> v)"

definition vset_snapshot :: "vset \<Rightarrow> snapshot" where
  "vset_snapshot vs = \<lparr>s_validators = map entry_validator (vs_entries vs), s_truncated = vs_truncated vs\<rparr>"

definition qualified_keys :: "vset \<Rightarrow> string list" where
  "qualified_keys vs = remdups (map (\<lambda>e. toLowerCase (entry_pubkey e)) (vs_entries vs))"

definition count_quorum :: "nat \<Rightarrow> nat" where
  "count_quorum n = (if n \<le> 1 then 1 else max (2 * ((n - 1) div 3) + 1) ((n + 2) div 2))"

definition sig_list :: "sigs_field \<Rightarrow> sig list" where
  "sig_list f =
     (let v = (case f of SigValue v \<Rightarrow> v | SigText (Some v) \<Rightarrow> v | SigText None \<Rightarrow> SigArray []) in
      case v of SigArray ss \<Rightarrow> ss | SigOther \<Rightarrow> [])"

text \<open>The signature loop: the valid signers in order of first valid signature; a key counts as
  seen only once a signature of it verifies.\<close>

fun sig_loop :: "ed25519 \<Rightarrow> string \<Rightarrow> string list \<Rightarrow> sig list \<Rightarrow> string list \<Rightarrow> string list" where
  "sig_loop ed canonical qualified [] signers = signers"
| "sig_loop ed canonical qualified ((k, s) # ss) signers =
     (let pk = toLowerCase k in
      if pk = [] \<or> pk \<in> set signers \<or> pk \<notin> set qualified then sig_loop ed canonical qualified ss signers
      else if verifySignature ed canonical s pk then sig_loop ed canonical qualified ss (signers @ [pk])
      else sig_loop ed canonical qualified ss signers)"

record verdict =
  vd_valid :: bool
  vd_validSigs :: nat
  vd_quorum :: nat
  vd_weighted :: bool
  vd_canonical :: "string option"

definition verifyCheckpoint :: "ed25519 \<Rightarrow> 'n bignum \<Rightarrow> checkpoint option \<Rightarrow> vset \<Rightarrow> verdict" where
  "verifyCheckpoint ed B cp vs =
     (let qualified = qualified_keys vs;
          quorum = count_quorum (length qualified);
          weighted = (case cp of
             None \<Rightarrow> False
           | Some c \<Rightarrow> isStakeWeightedQuorumActive (JInt (cp_snapshot_block c)) (cp_network c))
      in case (tryCanonicalCheckpoint cp, cp) of
           (Some canonical, Some c) \<Rightarrow>
             if commitmentMissing cp \<or> supersessionDisallowed cp
             then \<lparr>vd_valid = False, vd_validSigs = 0, vd_quorum = quorum, vd_weighted = weighted, vd_canonical = Some canonical\<rparr>
             else (let signers = sig_loop ed canonical qualified (sig_list (cp_validator_signatures c)) [];
                       valid = (if weighted
                                then vs_entries vs \<noteq> [] \<and> list_all isWeightedEntry (vs_entries vs) \<and>
                                     meetsStakeThreshold B (vset_snapshot vs) signers
                                else qualified \<noteq> [] \<and> quorum \<le> length signers)
                   in \<lparr>vd_valid = valid, vd_validSigs = length signers, vd_quorum = quorum, vd_weighted = weighted,
                       vd_canonical = Some canonical\<rparr>)
         | (canonical, _) \<Rightarrow>
             \<lparr>vd_valid = False, vd_validSigs = 0, vd_quorum = quorum, vd_weighted = weighted, vd_canonical = canonical\<rparr>)"

section \<open>Served checkpoints\<close>

text \<open>The body of the verify endpoint; \<open>final\<close> is absent in bodies of older explorers.\<close>

record body =
  bd_checkpoint :: checkpoint
  bd_validators :: "vset option"
  bd_snapshot_available :: bool
  bd_final :: "bool option"

record served_verdict =
  sv_verdict :: verdict
  sv_snapshotAvailable :: bool
  sv_final :: bool
  sv_supplied :: bool

definition verifyServedCheckpoint :: "ed25519 \<Rightarrow> 'n bignum \<Rightarrow> body \<Rightarrow> vset option \<Rightarrow> served_verdict" where
  "verifyServedCheckpoint ed B bd supplied =
     (let vs = (case supplied of
                  Some s \<Rightarrow> s
                | None \<Rightarrow> (case bd_validators bd of Some v \<Rightarrow> v | None \<Rightarrow> \<lparr>vs_entries = [], vs_truncated = False\<rparr>))
      in \<lparr>sv_verdict = verifyCheckpoint ed B (Some (bd_checkpoint bd)) vs,
          sv_snapshotAvailable = bd_snapshot_available bd,
          sv_final = (case bd_final bd of None \<Rightarrow> True | Some f \<Rightarrow> f),
          sv_supplied = (supplied \<noteq> None)\<rparr>)"

section \<open>The signature loop\<close>

definition valid_signers :: "ed25519 \<Rightarrow> string \<Rightarrow> string list \<Rightarrow> sig list \<Rightarrow> string set" where
  "valid_signers ed canonical qualified ss =
     {pk. pk \<noteq> [] \<and> pk \<in> set qualified \<and> (\<exists>(k, s) \<in> set ss. toLowerCase k = pk \<and> verifySignature ed canonical s pk)}"

lemma sig_loop_spec:
  "distinct signers \<Longrightarrow>
     distinct (sig_loop ed c q ss signers) \<and>
     set (sig_loop ed c q ss signers) = set signers \<union> valid_signers ed c q ss"
proof (induction ss arbitrary: signers)
  case Nil
  then show ?case by (simp add: valid_signers_def)
next
  case (Cons e ss)
  obtain k s where e: "e = (k, s)" by fastforce
  let ?pk = "toLowerCase k"
  have vs: "valid_signers ed c q (e # ss) =
      (if ?pk \<noteq> [] \<and> ?pk \<in> set q \<and> verifySignature ed c s ?pk then {?pk} else {}) \<union> valid_signers ed c q ss"
    by (auto simp: valid_signers_def e)
  show ?case
  proof (cases "?pk \<noteq> [] \<and> ?pk \<in> set q \<and> verifySignature ed c s ?pk \<and> ?pk \<notin> set signers")
    case True
    then show ?thesis using Cons.IH [of "signers @ [?pk]"] Cons.prems vs by (auto simp: e Let_def)
  next
    case False
    then have "sig_loop ed c q (e # ss) signers = sig_loop ed c q ss signers" by (auto simp: e Let_def)
    moreover have "set signers \<union> valid_signers ed c q (e # ss) = set signers \<union> valid_signers ed c q ss"
      using False vs by auto
    ultimately show ?thesis using Cons.IH [OF Cons.prems] by simp
  qed
qed

text \<open>(C23) The verdict counts validators, not entries: for a checkpoint that reaches the signature
  check, the number of valid signatures is the number of qualified public keys with at least
  one entry whose signature verifies, in whatever order, case and multiplicity the entries
  come; in the count regime it is valid exactly when that number reaches the quorum, in the
  stake regime only when the weighted test accepts those signers.\<close>

theorem verifyCheckpoint_counts_validators:
  assumes "tryCanonicalCheckpoint (Some c) = Some canonical"
    and "\<not> commitmentMissing (Some c)" "\<not> supersessionDisallowed (Some c)"
  shows "vd_validSigs (verifyCheckpoint ed B (Some c) vs) =
      card (valid_signers ed canonical (qualified_keys vs) (sig_list (cp_validator_signatures c)))
    \<and> vd_canonical (verifyCheckpoint ed B (Some c) vs) = Some canonical
    \<and> (\<not> vd_weighted (verifyCheckpoint ed B (Some c) vs) \<longrightarrow>
        (vd_valid (verifyCheckpoint ed B (Some c) vs) \<longleftrightarrow>
           qualified_keys vs \<noteq> [] \<and>
           count_quorum (card (set (qualified_keys vs))) \<le>
             card (valid_signers ed canonical (qualified_keys vs) (sig_list (cp_validator_signatures c)))))
    \<and> (vd_weighted (verifyCheckpoint ed B (Some c) vs) \<and> vd_valid (verifyCheckpoint ed B (Some c) vs) \<longrightarrow>
        list_all isWeightedEntry (vs_entries vs) \<and>
        (\<exists>signers. set signers = valid_signers ed canonical (qualified_keys vs) (sig_list (cp_validator_signatures c))
           \<and> meetsStakeThreshold B (vset_snapshot vs) signers))"
proof -
  let ?L = "sig_loop ed canonical (qualified_keys vs) (sig_list (cp_validator_signatures c)) []"
  have L: "distinct ?L" "set ?L = valid_signers ed canonical (qualified_keys vs) (sig_list (cp_validator_signatures c))"
    using sig_loop_spec [of "[]"] by auto
  then have "length ?L = card (valid_signers ed canonical (qualified_keys vs) (sig_list (cp_validator_signatures c)))"
    using distinct_card by metis
  moreover have "length (qualified_keys vs) = card (set (qualified_keys vs))"
    by (metis distinct_card distinct_remdups qualified_keys_def)
  ultimately show ?thesis
    using assms L(2) by (auto simp: verifyCheckpoint_def Let_def)
qed

text \<open>No validity without the commitment and a quorum: a checkpoint is never valid when its
  canonical string cannot be built, when it lacks the roots that its flag day requires, or
  when it supersedes before that is allowed; an empty or unweighted validator set never
  validates one; and in the count regime any two quorums of one set share a validator, at
  least \<open>f + 1\<close> of them when the set has \<open>3 f + 1\<close>.\<close>

theorem verifyCheckpoint_fails_closed:
  "(vd_valid (verifyCheckpoint ed B cp vs) \<longrightarrow>
      tryCanonicalCheckpoint cp \<noteq> None \<and> \<not> commitmentMissing cp \<and> \<not> supersessionDisallowed cp \<and>
      vs_entries vs \<noteq> [] \<and>
      (vd_weighted (verifyCheckpoint ed B cp vs) \<longrightarrow> list_all isWeightedEntry (vs_entries vs)))
   \<and> (finite V \<longrightarrow> X \<subseteq> V \<longrightarrow> Y \<subseteq> V \<longrightarrow> count_quorum (card V) \<le> card X \<longrightarrow> count_quorum (card V) \<le> card Y \<longrightarrow>
        1 \<le> card (X \<inter> Y) \<and> (\<forall>f. card V = 3 * f + 1 \<longrightarrow> f + 1 \<le> card (X \<inter> Y)))"
proof (rule conjI; intro impI)
  assume "vd_valid (verifyCheckpoint ed B cp vs)"
  then show "tryCanonicalCheckpoint cp \<noteq> None \<and> \<not> commitmentMissing cp \<and> \<not> supersessionDisallowed cp \<and>
      vs_entries vs \<noteq> [] \<and>
      (vd_weighted (verifyCheckpoint ed B cp vs) \<longrightarrow> list_all isWeightedEntry (vs_entries vs))"
    by (auto simp: verifyCheckpoint_def Let_def qualified_keys_def split: option.splits if_splits)
next
  assume fin: "finite V" and sub: "X \<subseteq> V" "Y \<subseteq> V"
    and q: "count_quorum (card V) \<le> card X" "count_quorum (card V) \<le> card Y"
  have "card X + card Y = card (X \<union> Y) + card (X \<inter> Y)"
    using card_Un_Int fin finite_subset sub by metis
  moreover have "card (X \<union> Y) \<le> card V" using fin sub by (intro card_mono) auto
  ultimately have ov: "card X + card Y \<le> card V + card (X \<inter> Y)" by simp
  have maj: "card V < 2 * count_quorum (card V)" by (auto simp: count_quorum_def)
  have "1 \<le> card (X \<inter> Y)" using ov maj q by linarith
  moreover have "f + 1 \<le> card (X \<inter> Y)" if f: "card V = 3 * f + 1" for f
  proof -
    have "2 * f + 1 \<le> count_quorum (card V)" using f by (auto simp: count_quorum_def)
    then show ?thesis using ov q f by linarith
  qed
  ultimately show "1 \<le> card (X \<inter> Y) \<and> (\<forall>f. card V = 3 * f + 1 \<longrightarrow> f + 1 \<le> card (X \<inter> Y))" by blast
qed


section \<open>The canonical string binds the checkpoint\<close>

lemma split_on_clean: "c \<notin> set s \<Longrightarrow> split_on c s = [s]"
  by (induction s) auto

lemma split_on_append: "c \<notin> set w \<Longrightarrow> split_on c (w @ c # s) = w # split_on c s"
  by (induction w) auto

lemma split_join_bar:
  "ws \<noteq> [] \<Longrightarrow> \<forall>w \<in> set ws. CHR ''|'' \<notin> set w \<Longrightarrow> split_on CHR ''|'' (join_bar ws) = ws"
  by (induction ws rule: join_bar.induct) (auto simp: split_on_clean split_on_append)

lemma join_bar_inject:
  assumes "xs \<noteq> []" "ys \<noteq> []" "\<forall>w \<in> set (xs @ ys). CHR ''|'' \<notin> set w" "join_bar xs = join_bar ys"
  shows "xs = ys"
proof -
  have "split_on CHR ''|'' (join_bar xs) = xs" by (rule split_join_bar) (use assms(1-3) in auto)
  moreover have "split_on CHR ''|'' (join_bar ys) = ys" by (rule split_join_bar) (use assms(1-3) in auto)
  ultimately show ?thesis using assms(4) by metis
qed

lemma join_bar_append: "xs \<noteq> [] \<Longrightarrow> ys \<noteq> [] \<Longrightarrow> join_bar (xs @ ys) = join_bar xs @ ''|'' @ join_bar ys"
proof (induction xs rule: join_bar.induct)
  case (2 w)
  then show ?case by (cases ys) auto
qed auto

lemma digit_not_bar: "is_digit c \<Longrightarrow> c \<noteq> CHR ''|'' \<and> c \<noteq> CHR ''-''"
  by (auto simp: is_digit_def)

lemma int_str_clean: "CHR ''|'' \<notin> set (int_str n)"
  using nat_str_digits [of "nat n"] nat_str_digits [of "nat (- n)"]
  by (auto simp: int_str_def list_all_iff is_digit_def)

lemma int_str_inject: "int_str a = int_str b \<longleftrightarrow> a = b"
proof -
  have "nat_str k \<noteq> CHR ''-'' # s" for k s
    using nat_str_digits [of k] by (auto simp: is_digit_def)
  then show ?thesis by (auto simp: int_str_def split: if_splits) (metis nat_0_le nat_str_inject not_less)+
qed

definition roots_list :: "checkpoint \<Rightarrow> string list" where
  "roots_list cp =
     (case (cp_state_root cp, cp_state_root_version cp, cp_block_merkle_root cp, cp_block_merkle_version cp) of
        (Some sr, Some sv, Some mr, Some mv) \<Rightarrow>
          (if isCheckpointCommitmentActive (cp_snapshot_block cp) (cp_network cp)
           then [toLowerCase sr, int_str sv, toLowerCase mr, int_str mv] else [])
      | _ \<Rightarrow> [])"

definition sup_list :: "checkpoint \<Rightarrow> string list" where
  "sup_list cp =
     (if isCheckpointSupersedeActive (cp_snapshot_block cp) (cp_network cp) \<and> hasSupersedeFields cp
      then [''SUPERSEDE'', int_str (the (cp_supersedes_from cp)), toLowerCase (the (cp_rules_digest cp))] else [])"

definition fold_list :: "checkpoint \<Rightarrow> string list" where
  "fold_list cp =
     (case cp_fold_archive cp of
        None \<Rightarrow> []
      | Some f \<Rightarrow> [int_str (fa_match_batch_seq f), int_str (fa_match_count f), toLowerCase (fa_batch_crc32 f), int_str (fa_total_chunks f)])"

definition signed_list :: "checkpoint \<Rightarrow> string list" where
  "signed_list cp = base_fields cp @ roots_list cp @ sup_list cp @ fold_list cp"

definition full_list :: "checkpoint \<Rightarrow> string list" where
  "full_list cp =
     (if isEquivHeaderActive (JInt (cp_snapshot_block cp)) (cp_network cp)
      then [''EQUIV'', ENGINE_TAG_CHECKPOINT, cp_chain cp, cp_network cp, int_str (cp_block_index cp), int_str (cp_checkpoint_seq cp)] @
           (case cp_fold_archive cp of None \<Rightarrow> [] | Some f \<Rightarrow> [int_str (fa_match_batch_seq f)]) @ [''0'', []] @ signed_list cp
      else signed_list cp)"

lemma base_fields_ne [simp]: "base_fields cp \<noteq> []"
  by (simp add: base_fields_def)

lemma join_bar_suffix: "xs \<noteq> [] \<Longrightarrow> join_bar (xs @ ys) = join_bar xs @ (if ys = [] then [] else ''|'' @ join_bar ys)"
  by (simp add: join_bar_append)

lemma canonical_full_list:
  assumes "canonicalCheckpoint cp = Inr s"
  shows "s = join_bar (full_list cp)"
proof -
  define sup where "sup = (if sup_list cp = [] then [] else ''|'' @ join_bar (sup_list cp))"
  have sup: "(if isCheckpointSupersedeActive (cp_snapshot_block cp) (cp_network cp) \<and> hasSupersedeFields cp
      then supersedeSuffix cp else Inr []) = Inr sup"
    using assms by (auto simp: canonicalCheckpoint_def supersedeSuffix_def sup_def sup_list_def rbind_Inr_iff
        hasSupersedeFields_def split: if_splits option.splits)
  have rt: "root_suffix cp = (if roots_list cp = [] then [] else ''|'' @ join_bar (roots_list cp))"
    by (auto simp: root_suffix_def roots_list_def split: option.split)
  have fd: "fold_suffix cp = (if fold_list cp = [] then [] else ''|'' @ join_bar (fold_list cp))"
    by (auto simp: fold_suffix_def fold_list_def split: option.split)
  have raw: "join_bar (signed_list cp) = join_bar (base_fields cp) @ root_suffix cp @ sup @ fold_suffix cp"
    by (simp add: signed_list_def join_bar_suffix rt fd sup_def join_bar_append)
  have sne: "signed_list cp \<noteq> []" by (simp add: signed_list_def)
  show ?thesis
  proof (cases "isEquivHeaderActive (JInt (cp_snapshot_block cp)) (cp_network cp)")
    case True
    have "join_bar (full_list cp) = buildEquivCanonical ENGINE_TAG_CHECKPOINT (round_id cp) ''0'' (join_bar (signed_list cp))"
      using True sne by (cases "signed_list cp")
        (auto simp: full_list_def buildEquivCanonical_def equivPrefix_def equivKey_def round_id_def split: option.split)
    then show ?thesis using assms sup raw True by (simp add: canonicalCheckpoint_def Let_def)
  next
    case False
    then show ?thesis using assms sup raw by (simp add: canonicalCheckpoint_def Let_def full_list_def)
  qed
qed


definition clean :: "checkpoint \<Rightarrow> bool" where
  "clean cp \<longleftrightarrow>
     (\<forall>w \<in> {cp_chain cp, cp_network cp, cp_block_hash cp, cp_ledger_hash cp, cp_actions_hash cp, cp_contract_hash cp}
          \<union> set_option (cp_state_root cp) \<union> set_option (cp_block_merkle_root cp)
          \<union> fa_batch_crc32 ` set_option (cp_fold_archive cp). CHR ''|'' \<notin> set w)"

lemma lower_bar: "CHR ''|'' \<in> set (toLowerCase w) \<longleftrightarrow> CHR ''|'' \<in> set w"
proof -
  have "lower_char c = CHR ''|'' \<longleftrightarrow> c = CHR ''|''" for c
  proof (cases "65 \<le> (of_char c :: nat) \<and> of_char c \<le> (90 :: nat)")
    case True
    then have "of_char (lower_char c) \<noteq> (124 :: nat)" "of_char c \<noteq> (124 :: nat)"
      by (simp_all add: lower_char_def Let_def)
    then show ?thesis by auto
  qed (auto simp: lower_char_def Let_def)
  then show ?thesis unfolding toLowerCase_def set_map by (metis image_iff)
qed

lemma hex_no_bar: "is_hex_text n w \<Longrightarrow> CHR ''|'' \<notin> set w"
proof -
  have "hexval CHR ''|'' = None" by code_simp
  then show "is_hex_text n w \<Longrightarrow> CHR ''|'' \<notin> set w" by (auto simp: is_hex_text_def list_all_iff)
qed

lemma full_list_clean:
  assumes "clean cp" "canonicalCheckpoint cp = Inr s"
  shows "\<forall>w \<in> set (full_list cp). CHR ''|'' \<notin> set w"
proof -
  have "CHR ''|'' \<notin> set (toLowerCase (the (cp_rules_digest cp)))" if "sup_list cp \<noteq> []"
    using assms(2) that hex_no_bar
    by (auto simp: canonicalCheckpoint_def supersedeSuffix_def sup_list_def rbind_Inr_iff hasSupersedeFields_def lower_bar
        split: if_splits option.splits)
  then have "\<forall>w \<in> set (sup_list cp). CHR ''|'' \<notin> set w"
    by (auto simp: sup_list_def int_str_clean)
  moreover have "\<forall>w \<in> set (base_fields cp @ roots_list cp @ fold_list cp). CHR ''|'' \<notin> set w"
    using assms(1)
    by (auto simp: base_fields_def roots_list_def fold_list_def clean_def int_str_clean lower_bar split: option.splits if_splits)
  ultimately show ?thesis
    using assms(1) by (auto simp: full_list_def signed_list_def clean_def int_str_clean ENGINE_TAG_CHECKPOINT_def split: option.splits)
qed

lemma full_list_signed:
  assumes "full_list c1 = full_list c2"
  shows "signed_list c1 = signed_list c2"
proof -
  have hd: "hd (signed_list c) = ''XCHECKPOINT''" for c by (simp add: signed_list_def base_fields_def)
  have int0: "int_str n \<noteq> []" for n by (simp add: int_str_def)
  define e1 e2 where "e1 = isEquivHeaderActive (JInt (cp_snapshot_block c1)) (cp_network c1)"
    and "e2 = isEquivHeaderActive (JInt (cp_snapshot_block c2)) (cp_network c2)"
  have "hd (full_list c1) = (if e1 then ''EQUIV'' else ''XCHECKPOINT'')"
    "hd (full_list c2) = (if e2 then ''EQUIV'' else ''XCHECKPOINT'')"
    using hd by (simp_all add: full_list_def e1_def e2_def)
  then have "e1 = e2" using assms by (cases e1; cases e2) simp_all
  then show ?thesis
    using assms int0 by (cases e1) (auto simp: full_list_def e1_def e2_def split: option.splits)
qed

text \<open>What the signatures of a checkpoint commit to; hexadecimal text up to case.\<close>

definition signed_content where
  "signed_content cp =
     ((cp_chain cp, cp_network cp, cp_block_index cp, cp_block_hash cp, cp_ledger_hash cp, cp_actions_hash cp,
       cp_contract_hash cp, cp_checkpoint_seq cp, cp_snapshot_block cp),
      (if commitmentActive (Some cp)
       then Some (map_option toLowerCase (cp_state_root cp), cp_state_root_version cp,
                  map_option toLowerCase (cp_block_merkle_root cp), cp_block_merkle_version cp) else None),
      (if hasSupersedeFields cp then Some (cp_supersedes_from cp, map_option toLowerCase (cp_rules_digest cp)) else None),
      map_option (\<lambda>f. (fa_match_batch_seq f, fa_match_count f, toLowerCase (fa_batch_crc32 f), fa_total_chunks f))
        (cp_fold_archive cp))"

lemma signed_list_parts:
  assumes eq: "signed_list c1 = signed_list c2"
    and m: "\<not> commitmentMissing (Some c1)" "\<not> commitmentMissing (Some c2)"
  shows "base_fields c1 = base_fields c2 \<and> roots_list c1 = roots_list c2 \<and> sup_list c1 = sup_list c2 \<and> fold_list c1 = fold_list c2"
proof -
  have b: "base_fields c1 = base_fields c2" "roots_list c1 @ sup_list c1 @ fold_list c1 = roots_list c2 @ sup_list c2 @ fold_list c2"
    using eq by (simp_all add: signed_list_def base_fields_def)
  have sn: "cp_snapshot_block c1 = cp_snapshot_block c2" "cp_network c1 = cp_network c2"
    using b(1) by (simp_all add: base_fields_def int_str_inject)
  have rl: "length (roots_list c) = (if isCheckpointCommitmentActive (cp_snapshot_block c) (cp_network c) then 4 else 0)"
    if "\<not> commitmentMissing (Some c)" for c
    using that by (auto simp: roots_list_def commitmentMissing_def split: option.splits if_splits)
  then have "length (roots_list c1) = length (roots_list c2)" using m sn by simp
  then have r: "roots_list c1 = roots_list c2" "sup_list c1 @ fold_list c1 = sup_list c2 @ fold_list c2"
    using b(2) by auto
  have len: "length (sup_list c) \<in> {0, 3}" "length (fold_list c) \<in> {0, 4}" for c
    by (auto simp: sup_list_def fold_list_def split: option.split)
  have "length (sup_list c1) + length (fold_list c1) = length (sup_list c2) + length (fold_list c2)"
    using arg_cong [OF r(2), of length] by simp
  then have "length (sup_list c1) = length (sup_list c2)"
    using len(1) [of c1] len(1) [of c2] len(2) [of c1] len(2) [of c2] by auto
  then show ?thesis using b(1) r by auto
qed

lemma supersede_both:
  assumes "canonicalCheckpoint c = Inr s" "hasSupersedeFields c" "\<not> supersessionDisallowed (Some c)"
  obtains f d where "cp_supersedes_from c = Some f" "cp_rules_digest c = Some d"
    "sup_list c = [''SUPERSEDE'', int_str f, toLowerCase d]"
proof -
  have a: "isCheckpointSupersedeActive (cp_snapshot_block c) (cp_network c)"
    using assms(2,3) by (simp add: supersessionDisallowed_def)
  then have "is_ok (supersedeSuffix c)"
    using assms(1,2) by (cases "supersedeSuffix c") (auto simp: canonicalCheckpoint_def)
  then obtain f d where "cp_supersedes_from c = Some f" "cp_rules_digest c = Some d"
    using assms(2) by (cases "cp_supersedes_from c"; cases "cp_rules_digest c") (auto simp: supersedeSuffix_def hasSupersedeFields_def)
  then show thesis using that a assms(2) by (simp add: sup_list_def)
qed

lemma signed_content_lists:
  assumes l: "base_fields c1 = base_fields c2" "roots_list c1 = roots_list c2" "sup_list c1 = sup_list c2" "fold_list c1 = fold_list c2"
    and m: "\<not> commitmentMissing (Some c1)" "\<not> commitmentMissing (Some c2)"
      "\<not> supersessionDisallowed (Some c1)" "\<not> supersessionDisallowed (Some c2)"
    and ok: "canonicalCheckpoint c1 = Inr s1" "canonicalCheckpoint c2 = Inr s2"
  shows "signed_content c1 = signed_content c2"
proof -
  have base: "cp_chain c1 = cp_chain c2 \<and> cp_network c1 = cp_network c2 \<and> cp_block_index c1 = cp_block_index c2 \<and>
      cp_block_hash c1 = cp_block_hash c2 \<and> cp_ledger_hash c1 = cp_ledger_hash c2 \<and> cp_actions_hash c1 = cp_actions_hash c2 \<and>
      cp_contract_hash c1 = cp_contract_hash c2 \<and> cp_checkpoint_seq c1 = cp_checkpoint_seq c2 \<and> cp_snapshot_block c1 = cp_snapshot_block c2"
    using l(1) by (simp add: base_fields_def int_str_inject)
  have roots: "commitmentActive (Some c1) \<Longrightarrow>
      map_option toLowerCase (cp_state_root c1) = map_option toLowerCase (cp_state_root c2) \<and>
      cp_state_root_version c1 = cp_state_root_version c2 \<and>
      map_option toLowerCase (cp_block_merkle_root c1) = map_option toLowerCase (cp_block_merkle_root c2) \<and>
      cp_block_merkle_version c1 = cp_block_merkle_version c2"
    using l(2) m(1,2) base
    by (auto simp: roots_list_def commitmentMissing_def commitmentActive_def int_str_inject split: option.splits)
  have has: "hasSupersedeFields c1 \<longleftrightarrow> hasSupersedeFields c2"
  proof -
    have "sup_list c = [] \<longleftrightarrow> \<not> hasSupersedeFields c" if "\<not> supersessionDisallowed (Some c)" for c
      using that by (auto simp: sup_list_def supersessionDisallowed_def)
    then show ?thesis using l(3) m(3,4) by metis
  qed
  have sup: "cp_supersedes_from c1 = cp_supersedes_from c2 \<and> map_option toLowerCase (cp_rules_digest c1) = map_option toLowerCase (cp_rules_digest c2)"
    if h: "hasSupersedeFields c1"
  proof -
    from supersede_both [OF ok(1) h m(3)] obtain f1 d1 where
      1: "cp_supersedes_from c1 = Some f1" "cp_rules_digest c1 = Some d1" "sup_list c1 = [''SUPERSEDE'', int_str f1, toLowerCase d1]" .
    from supersede_both [OF ok(2) h [unfolded has] m(4)] obtain f2 d2 where
      2: "cp_supersedes_from c2 = Some f2" "cp_rules_digest c2 = Some d2" "sup_list c2 = [''SUPERSEDE'', int_str f2, toLowerCase d2]" .
    have "int_str f1 = int_str f2" "toLowerCase d1 = toLowerCase d2" using l(3) unfolding 1(3) 2(3) by (metis list.inject)+
    then show ?thesis using 1 2 int_str_inject by simp
  qed
  have "map_option (\<lambda>f. (fa_match_batch_seq f, fa_match_count f, toLowerCase (fa_batch_crc32 f), fa_total_chunks f)) (cp_fold_archive c1) =
      map_option (\<lambda>f. (fa_match_batch_seq f, fa_match_count f, toLowerCase (fa_batch_crc32 f), fa_total_chunks f)) (cp_fold_archive c2)"
    using l(4) by (auto simp: fold_list_def int_str_inject split: option.splits)
  then show ?thesis
    using base roots sup has by (auto simp: signed_content_def commitmentActive_def)
qed

text \<open>(C24) The canonical string binds what it signs: two checkpoints that pass the structural checks
  and have the same canonical string agree on every signed field, including the committed
  roots and versions, the supersession and the folded archive (provided no text field
  contains the separator).  Signatures cannot be moved from one to the other.\<close>

theorem canonicalCheckpoint_binding:
  assumes "canonicalCheckpoint c1 = Inr s" "canonicalCheckpoint c2 = Inr s" "clean c1" "clean c2"
    and "\<not> commitmentMissing (Some c1)" "\<not> commitmentMissing (Some c2)"
    and "\<not> supersessionDisallowed (Some c1)" "\<not> supersessionDisallowed (Some c2)"
  shows "signed_content c1 = signed_content c2"
proof -
  have ne: "full_list c \<noteq> []" for c by (simp add: full_list_def signed_list_def)
  have "full_list c1 = full_list c2"
    using join_bar_inject [OF ne ne, of c1 c2] full_list_clean assms(1-4) canonical_full_list [OF assms(1)] canonical_full_list [OF assms(2)]
    by (metis Un_iff set_append)
  then have "signed_list c1 = signed_list c2" by (rule full_list_signed)
  then show ?thesis using signed_list_parts [OF _ assms(5,6)] signed_content_lists assms(1,2,5-8) by blast
qed


section \<open>Witnesses\<close>

definition sample_checkpoint :: checkpoint where
  "sample_checkpoint =
     \<lparr>cp_chain = ''BTC'', cp_network = ''mainnet'', cp_block_index = 7, cp_block_hash = ''b1'', cp_ledger_hash = ''l1'',
      cp_actions_hash = ''a1'', cp_contract_hash = ''c1'', cp_checkpoint_seq = 1, cp_snapshot_block = 100,
      cp_state_root = None, cp_state_root_version = None, cp_block_merkle_root = None, cp_block_merkle_version = None,
      cp_supersedes_from = None, cp_rules_digest = None, cp_fold_archive = None,
      cp_validator_signatures = SigValue (SigArray [(replicate 64 CHR ''A'', ''bad''), (replicate 64 CHR ''a'', replicate 128 CHR ''0'')])\<rparr>"

definition sample_vset :: vset where
  "sample_vset = \<lparr>vs_entries = [Bare (replicate 64 CHR ''a'')], vs_truncated = False\<rparr>"

lemma sample_gates:
  "\<not> isCheckpointCommitmentActive 100 ''mainnet''" "\<not> isCheckpointSupersedeActive 100 ''mainnet''"
  "\<not> isEquivHeaderActive (JInt 100) ''mainnet''" "\<not> isStakeWeightedQuorumActive (JInt 100) ''mainnet''"
  by (simp_all add: isCheckpointCommitmentActive_def isCheckpointSupersedeActive_def isEquivHeaderActive_def
      isStakeWeightedQuorumActive_def height_row_active_def row_table_def shared_rows_2a_def shared_rows_5b_def shared_rows_3a_def
      threshold_of_def resolveThreshold_def own_def reached_def UNPINNED_def UNARMED_def EQUIV_HEADER_ACTIVATION_def
      STAKE_WEIGHTED_QUORUM_ACTIVATION_def network_gate_def prop_of_def num_ge_def JInt_def)

lemma sample_ok:
  "\<not> commitmentMissing (Some sample_checkpoint)" "\<not> supersessionDisallowed (Some sample_checkpoint)"
  "canonicalCheckpoint sample_checkpoint = Inr (join_bar (base_fields sample_checkpoint))"
  by (simp_all add: commitmentMissing_def supersessionDisallowed_def canonicalCheckpoint_def sample_checkpoint_def sample_gates
      hasSupersedeFields_def root_suffix_def fold_suffix_def)

lemma sample_hex:
  "toLowerCase (replicate 64 CHR ''A'') = replicate 64 CHR ''a''" "toLowerCase (replicate 64 CHR ''a'') = replicate 64 CHR ''a''"
  "is_hex_text 64 (replicate 64 CHR ''a'')" "is_hex_text 128 (replicate 128 CHR ''0'')"
proof -
  have "lower_char CHR ''A'' = CHR ''a''" "lower_char CHR ''a'' = CHR ''a''" "hexval CHR ''a'' \<noteq> None" "hexval CHR ''0'' \<noteq> None"
    by code_simp+
  then show "toLowerCase (replicate 64 CHR ''A'') = replicate 64 CHR ''a''" "toLowerCase (replicate 64 CHR ''a'') = replicate 64 CHR ''a''"
    "is_hex_text 64 (replicate 64 CHR ''a'')" "is_hex_text 128 (replicate 128 CHR ''0'')"
    by (simp_all add: toLowerCase_def is_hex_text_def list_all_iff)
qed

lemma verifyCheckpoint_counts_validators_witness:
  "vd_validSigs (verifyCheckpoint (\<lambda>_ _ _. True) rat_bignum (Some sample_checkpoint) sample_vset) = 1
   \<and> vd_valid (verifyCheckpoint (\<lambda>_ _ _. True) rat_bignum (Some sample_checkpoint) sample_vset)"
proof -
  let ?ed = "\<lambda>_ _ _. True" and ?c = "join_bar (base_fields sample_checkpoint)" and ?pk = "replicate 64 CHR ''a''"
  have t: "tryCanonicalCheckpoint (Some sample_checkpoint) = Some ?c" by (simp add: tryCanonicalCheckpoint_def sample_ok)
  have q: "qualified_keys sample_vset = [?pk]" by (simp add: qualified_keys_def sample_vset_def entry_pubkey_def sample_hex)
  have "?c \<noteq> []" by (simp add: base_fields_def)
  then have "verifySignature ?ed ?c (replicate 128 CHR ''0'') ?pk"
    unfolding verifySignature_def using sample_hex(3,4) by auto
  then have v: "valid_signers ?ed ?c [?pk] (sig_list (cp_validator_signatures sample_checkpoint)) = {?pk}"
    by (auto simp: valid_signers_def sig_list_def sample_checkpoint_def sample_hex(1,2))
  have w: "\<not> vd_weighted (verifyCheckpoint ?ed rat_bignum (Some sample_checkpoint) sample_vset)"
    by (simp add: verifyCheckpoint_def t sample_ok Let_def) (simp add: sample_checkpoint_def sample_gates)
  show ?thesis
    using verifyCheckpoint_counts_validators [OF t sample_ok(1,2), of ?ed rat_bignum sample_vset] q v w
    by (simp add: count_quorum_def)
qed

lemma verifyCheckpoint_fails_closed_witness:
  "\<not> vd_valid (verifyCheckpoint (\<lambda>_ _ _. True) rat_bignum (Some sample_checkpoint) \<lparr>vs_entries = [], vs_truncated = False\<rparr>)"
  using verifyCheckpoint_fails_closed [of "\<lambda>_ _ _. True" rat_bignum "Some sample_checkpoint" "\<lparr>vs_entries = [], vs_truncated = False\<rparr>" "{} :: nat set"]
  by simp

lemma canonicalCheckpoint_binding_witness:
  "signed_content sample_checkpoint = signed_content (sample_checkpoint\<lparr>cp_validator_signatures := SigValue SigOther\<rparr>)"
proof (rule canonicalCheckpoint_binding [OF sample_ok(3)])
  show "canonicalCheckpoint (sample_checkpoint\<lparr>cp_validator_signatures := SigValue SigOther\<rparr>) = Inr (join_bar (base_fields sample_checkpoint))"
    by (simp add: canonicalCheckpoint_def sample_checkpoint_def sample_gates hasSupersedeFields_def root_suffix_def
        fold_suffix_def base_fields_def)
  show "clean sample_checkpoint" "clean (sample_checkpoint\<lparr>cp_validator_signatures := SigValue SigOther\<rparr>)"
    by (simp_all add: clean_def sample_checkpoint_def)
qed (simp_all add: commitmentMissing_def supersessionDisallowed_def hasSupersedeFields_def sample_checkpoint_def sample_gates)

end
