(* ===== verification/Log_Tree.thy ===== *)
theory Log_Tree
  imports Merkle_Primitives Fixed_Merkle
begin

text \<open>
  The Merkle tree of the transparency log, \<^verbatim>\<open>src/src/server/merkle_tree.js\<close>: leaves over the
  three hashes of a block, the layers with the odd node paired with itself, inclusion
  proofs and their verification.  Proofs of a built tree verify, and two leaf vectors of
  the same length with the same root are equal or exhibit a collision among the messages
  the two trees hash.  Hashes travel as hexadecimal text, so the message of an inner node
  is the text of its two children.
\<close>

section \<open>The tree\<close>

definition sha256_hex :: "hash_fn \<Rightarrow> string \<Rightarrow> string" where
  "sha256_hex H s = hexenc (H s)"

definition computeLeaf :: "hash_fn \<Rightarrow> string option \<Rightarrow> string option \<Rightarrow> string option \<Rightarrow> string" where
  "computeLeaf H ledgerHash actionsHash contractHash =
     sha256_hex H (or_blank ledgerHash @ or_blank actionsHash @ or_blank contractHash)"

definition hashPair :: "hash_fn \<Rightarrow> string \<Rightarrow> string \<Rightarrow> string" where
  "hashPair H left right = sha256_hex H (left @ right)"

text \<open>The inner loop of \<^verbatim>\<open>buildTree\<close>: one layer from the one below it.\<close>

fun next_layer :: "hash_fn \<Rightarrow> string list \<Rightarrow> string list" where
  "next_layer H (left # right # layer) = hashPair H left right # next_layer H layer"
| "next_layer H [left] = [hashPair H left left]"
| "next_layer H [] = []"

lemma length_next_layer [simp]: "length (next_layer H layer) = Suc (length layer) div 2"
  by (induction H layer rule: next_layer.induct) auto

text \<open>The outer loop: the layers from the current one up to the one of length one.\<close>

function layers_from :: "hash_fn \<Rightarrow> string list \<Rightarrow> string list list" where
  "layers_from H layer =
     (if length layer > 1 then layer # layers_from H (next_layer H layer) else [layer])"
  by pat_completeness auto
termination
  by (relation "measure (\<lambda>(H, layer). length layer)") auto

declare layers_from.simps [simp del]

record log_tree =
  lt_root :: "string option"
  lt_layers :: "string list list"

definition buildTree :: "hash_fn \<Rightarrow> string list \<Rightarrow> log_tree" where
  "buildTree H leaves =
     (if leaves = [] then \<lparr>lt_root = None, lt_layers = []\<rparr>
      else (let layers = layers_from H leaves in
            \<lparr>lt_root = Some (hd (last layers)), lt_layers = layers\<rparr>))"

section \<open>Proofs\<close>

record proof_step =
  ps_hash :: string
  ps_position :: string

fun proof_loop :: "string list list \<Rightarrow> nat \<Rightarrow> proof_step list" where
  "proof_loop (layer # upper # layers) index =
     (let isRight = (index mod 2 = 1);
          siblingIndex = (if isRight then index - 1 else index + 1)
      in (if siblingIndex < length layer
          then \<lparr>ps_hash = layer ! siblingIndex, ps_position = (if isRight then ''left'' else ''right'')\<rparr>
          else \<lparr>ps_hash = layer ! index, ps_position = ''right''\<rparr>)
         # proof_loop (upper # layers) (index div 2))"
| "proof_loop _ index = []"

definition generateProof :: "string list list \<Rightarrow> int \<Rightarrow> proof_step list option" where
  "generateProof layers leafIndex =
     (if layers = [] \<or> leafIndex < 0 \<or> leafIndex \<ge> int (length (hd layers)) then None
      else Some (proof_loop layers (nat leafIndex)))"

definition fold_step :: "hash_fn \<Rightarrow> string \<Rightarrow> proof_step \<Rightarrow> string" where
  "fold_step H current st =
     (if ps_position st = ''left'' then hashPair H (ps_hash st) current
      else hashPair H current (ps_hash st))"

text \<open>The leaf and the root are falsy when absent or empty, a proof only when absent.\<close>

definition verifyProof :: "hash_fn \<Rightarrow> string option \<Rightarrow> proof_step list option \<Rightarrow> string option \<Rightarrow> bool" where
  "verifyProof H leaf path expectedRoot =
     (case (leaf, path, expectedRoot) of
        (Some l, Some p, Some r) \<Rightarrow> l \<noteq> [] \<and> r \<noteq> [] \<and> foldl (fold_step H) l p = r
      | _ \<Rightarrow> False)"

section \<open>Layers\<close>

lemma layers_from_Cons: "\<exists>rest. layers_from H layer = layer # rest"
  by (subst layers_from.simps) simp

lemma layers_from_nonempty [simp]: "layers_from H layer \<noteq> []"
  using layers_from_Cons [of H layer] by auto

lemma hd_layers_from [simp]: "hd (layers_from H layer) = layer"
  using layers_from_Cons [of H layer] by auto

lemma layers_from_long:
  "length layer > 1 \<Longrightarrow> layers_from H layer = layer # layers_from H (next_layer H layer)"
  by (subst layers_from.simps) simp

lemma layers_from_short: "\<not> length layer > 1 \<Longrightarrow> layers_from H layer = [layer]"
  by (subst layers_from.simps) simp

lemma length_last_layers: "layer \<noteq> [] \<Longrightarrow> length (last (layers_from H layer)) = 1"
proof (induction H layer rule: layers_from.induct)
  case (1 H layer)
  show ?case
  proof (cases "length layer > 1")
    case True
    then have "next_layer H layer \<noteq> []" by (simp flip: length_greater_0_conv)
    with 1 True show ?thesis by (simp add: layers_from_long)
  next
    case False
    with 1 show ?thesis by (cases layer) (auto simp: layers_from_short)
  qed
qed

lemma next_layer_nth:
  "i < length layer \<Longrightarrow> next_layer H layer ! (i div 2) =
     hashPair H (layer ! (2 * (i div 2)))
       (layer ! (if 2 * (i div 2) + 1 < length layer then 2 * (i div 2) + 1 else 2 * (i div 2)))"
proof (induction H layer arbitrary: i rule: next_layer.induct)
  case (1 H a b layer)
  show ?case
  proof (cases "i < 2")
    case True
    then show ?thesis by simp
  next
    case False
    then obtain j where j: "i = Suc (Suc j)" by (metis add_2_eq_Suc le_Suc_ex not_less)
    with 1 show ?thesis by simp
  qed
qed auto

lemma fold_next_layer:
  assumes "i < length layer"
  shows "fold_step H (layer ! i) (hd (proof_loop (layer # upper # rest) i)) = next_layer H layer ! (i div 2)"
proof (cases "i mod 2 = 1")
  case True
  then have e: "2 * (i div 2) = i - 1" "Suc (i - 1) = i" by presburger+
  have "i - 1 < length layer" using assms by simp
  with assms True show ?thesis by (simp add: next_layer_nth fold_step_def e Let_def)
next
  case False
  then have e: "2 * (i div 2) = i" by presburger
  show ?thesis using assms False by (simp add: next_layer_nth fold_step_def e Let_def)
qed

lemma fold_proof_loop:
  "i < length layer \<Longrightarrow>
     foldl (fold_step H) (layer ! i) (proof_loop (layers_from H layer) i) = hd (last (layers_from H layer))"
proof (induction H layer arbitrary: i rule: layers_from.induct)
  case (1 H layer)
  show ?case
  proof (cases "length layer > 1")
    case True
    obtain rest where rest: "layers_from H (next_layer H layer) = next_layer H layer # rest"
      using layers_from_Cons by blast
    have i: "i div 2 < length (next_layer H layer)" using 1(2) by simp
    have "proof_loop (layers_from H layer) i =
        hd (proof_loop (layer # next_layer H layer # rest) i) # proof_loop (layers_from H (next_layer H layer)) (i div 2)"
      by (simp add: layers_from_long [OF True] rest Let_def)
    then show ?thesis
      using fold_next_layer [OF 1(2)] 1(1) [OF True i] True by (simp add: layers_from_long)
  next
    case False
    with 1(2) obtain a where "layer = [a]" by (cases layer) auto
    with 1(2) show ?thesis by (simp add: layers_from_short)
  qed
qed

lemma hexenc_eq_Nil [simp]: "hexenc bs = [] \<longleftrightarrow> bs = []"
  using length_hexenc [of bs] by (metis length_0_conv mult_eq_0_iff zero_neq_numeral)

lemma computeLeaf_nonempty: "(\<And>x. H x \<noteq> []) \<Longrightarrow> computeLeaf H a b c \<noteq> []"
  by (simp add: computeLeaf_def sha256_hex_def)

lemma next_layer_nonempty: "(\<And>x. H x \<noteq> []) \<Longrightarrow> [] \<notin> set (next_layer H layer)"
  by (induction H layer rule: next_layer.induct) (simp_all add: hashPair_def sha256_hex_def eq_commute [of "[]"])

lemma last_layer_nonempty:
  assumes H: "\<And>x. H x \<noteq> []"
  shows "[] \<notin> set layer \<Longrightarrow> [] \<notin> set (last (layers_from H layer))"
proof (induction "length layer" arbitrary: layer rule: less_induct)
  case less
  then show ?case
    by (cases "length layer > 1") (auto simp: layers_from_long layers_from_short next_layer_nonempty [OF H])
qed

lemma buildTree_root_nonempty:
  assumes "\<And>x. H x \<noteq> []" "leaves \<noteq> []" "[] \<notin> set leaves"
  shows "hd (last (layers_from H leaves)) \<noteq> []"
proof -
  have "last (layers_from H leaves) \<noteq> []"
    using length_last_layers [OF assms(2), of H] by auto
  then have "hd (last (layers_from H leaves)) \<in> set (last (layers_from H leaves))" by simp
  then show ?thesis using last_layer_nonempty [OF assms(1,3)] by auto
qed

lemma built_proof_verifies:
  assumes "\<And>x. H x \<noteq> []" "[] \<notin> set leaves" "i < length leaves"
  shows "verifyProof H (Some (leaves ! i)) (generateProof (lt_layers (buildTree H leaves)) (int i))
           (lt_root (buildTree H leaves))"
proof -
  have ne: "leaves \<noteq> []" using assms(3) by auto
  have "leaves ! i \<noteq> []" using assms(2,3) by (metis nth_mem)
  then show ?thesis
    using assms ne buildTree_root_nonempty [OF assms(1) ne assms(2)]
    by (simp add: buildTree_def Let_def generateProof_def verifyProof_def fold_proof_loop)
qed

section \<open>Binding\<close>

text \<open>The messages hashed for one layer, for a whole tree and for the leaves of an epoch.\<close>

fun layer_msgs :: "string list \<Rightarrow> string list" where
  "layer_msgs (left # right # layer) = (left @ right) # layer_msgs layer"
| "layer_msgs [left] = [left @ left]"
| "layer_msgs [] = []"

definition tree_msgs :: "hash_fn \<Rightarrow> string list \<Rightarrow> string list" where
  "tree_msgs H leaves = concat (map layer_msgs (butlast (layers_from H leaves)))"

type_synonym block_hashes = "string \<times> string \<times> string"

definition leaf_msg :: "block_hashes \<Rightarrow> string" where
  "leaf_msg r = fst r @ fst (snd r) @ snd (snd r)"

definition row_leaf :: "hash_fn \<Rightarrow> block_hashes \<Rightarrow> string" where
  "row_leaf H r = computeLeaf H (Some (fst r)) (Some (fst (snd r))) (Some (snd (snd r)))"

definition epoch_msgs :: "hash_fn \<Rightarrow> block_hashes list \<Rightarrow> string list" where
  "epoch_msgs H rows = map leaf_msg rows @ tree_msgs H (map (row_leaf H) rows)"

definition complete_hashes :: "block_hashes \<Rightarrow> bool" where
  "complete_hashes r \<longleftrightarrow> length (fst r) = 64 \<and> length (fst (snd r)) = 64 \<and> length (snd (snd r)) = 64"

definition colliding :: "hash_fn \<Rightarrow> string list \<Rightarrow> string list \<Rightarrow> bool" where
  "colliding H xs ys \<longleftrightarrow> (\<exists>x \<in> set xs. \<exists>y \<in> set ys. x \<noteq> y \<and> H x = H y)"

lemma next_layer_msgs: "next_layer H layer = map (sha256_hex H) (layer_msgs layer)"
  by (induction H layer rule: next_layer.induct) (auto simp: hashPair_def)

lemma row_leaf_msg: "row_leaf H r = sha256_hex H (leaf_msg r)"
  by (simp add: row_leaf_def computeLeaf_def leaf_msg_def or_blank_def)

lemma colliding_mono:
  "colliding H xs ys \<Longrightarrow> set xs \<subseteq> set xs' \<Longrightarrow> set ys \<subseteq> set ys' \<Longrightarrow> colliding H xs' ys'"
  unfolding colliding_def by blast

lemma equal_digests:
  "map (sha256_hex H) xs = map (sha256_hex H) ys \<Longrightarrow> xs = ys \<or> colliding H xs ys"
proof (induction xs arbitrary: ys)
  case (Cons x xs)
  then obtain y ys' where ys: "ys = y # ys'" by (cases ys) auto
  with Cons.prems have "H x = H y" and "map (sha256_hex H) xs = map (sha256_hex H) ys'"
    by (auto simp: sha256_hex_def [abs_def])
  with Cons.IH show ?case unfolding ys by (fastforce simp: colliding_def)
qed simp

lemma layer_msgs_inject:
  "length xs = length ys \<Longrightarrow> \<forall>x \<in> set xs. length x = n \<Longrightarrow> \<forall>y \<in> set ys. length y = n \<Longrightarrow>
     layer_msgs xs = layer_msgs ys \<Longrightarrow> xs = ys"
proof (induction xs arbitrary: ys rule: layer_msgs.induct)
  case (1 a b xs)
  then obtain c d ys' where ys: "ys = c # d # ys'" by (cases ys; cases "tl ys") auto
  with 1 show ?case by auto
next
  case (2 a)
  then obtain c where "ys = [c]" by (cases ys) auto
  with 2 show ?case by auto
qed auto

lemma next_layer_width: "(\<And>x. length (H x) = 32) \<Longrightarrow> \<forall>x \<in> set (next_layer H layer). length x = 64"
  by (auto simp: next_layer_msgs sha256_hex_def)

lemma tree_msgs_long:
  "length layer > 1 \<Longrightarrow> tree_msgs H layer = layer_msgs layer @ tree_msgs H (next_layer H layer)"
  by (simp add: tree_msgs_def layers_from_long)

lemma equal_roots:
  assumes H: "\<And>x. length (H x) = 32"
  shows "length xs = length ys \<Longrightarrow> \<forall>x \<in> set xs. length x = 64 \<Longrightarrow> \<forall>y \<in> set ys. length y = 64 \<Longrightarrow>
     hd (last (layers_from H xs)) = hd (last (layers_from H ys)) \<Longrightarrow>
     xs = ys \<or> colliding H (tree_msgs H xs) (tree_msgs H ys)"
proof (induction "length xs" arbitrary: xs ys rule: less_induct)
  case less
  show ?case
  proof (cases "length xs > 1")
    case True
    with less.prems(1) have l: "length ys > 1" by simp
    have "next_layer H xs = next_layer H ys \<or>
        colliding H (tree_msgs H (next_layer H xs)) (tree_msgs H (next_layer H ys))"
      by (rule less.hyps) (use True l less.prems in \<open>simp_all add: layers_from_long next_layer_width [OF H]\<close>)
    then show ?thesis
    proof
      assume "next_layer H xs = next_layer H ys"
      then have "layer_msgs xs = layer_msgs ys \<or> colliding H (layer_msgs xs) (layer_msgs ys)"
        unfolding next_layer_msgs by (rule equal_digests)
      then show ?thesis
        using layer_msgs_inject [OF less.prems(1-3)]
          colliding_mono [of H "layer_msgs xs" "layer_msgs ys" "tree_msgs H xs" "tree_msgs H ys"]
        by (auto simp: tree_msgs_long [OF True] tree_msgs_long [OF l])
    next
      assume "colliding H (tree_msgs H (next_layer H xs)) (tree_msgs H (next_layer H ys))"
      then have "colliding H (tree_msgs H xs) (tree_msgs H ys)"
        by (rule colliding_mono) (simp_all add: tree_msgs_long [OF True] tree_msgs_long [OF l])
      then show ?thesis ..
    qed
  next
    case False
    with less.prems(1) have l: "\<not> length ys > 1" by simp
    show ?thesis
    proof (cases xs)
      case Nil
      with less.prems(1) show ?thesis by simp
    next
      case (Cons a r)
      with False obtain b where "xs = [a]" "ys = [b]" using less.prems(1) by (cases r; cases ys) auto
      with less.prems(4) show ?thesis by (simp add: layers_from_short)
    qed
  qed
qed

lemma leaf_msgs_inject:
  "list_all complete_hashes xs \<Longrightarrow> list_all complete_hashes ys \<Longrightarrow> length xs = length ys \<Longrightarrow>
     map leaf_msg xs = map leaf_msg ys \<Longrightarrow> xs = ys"
proof (induction xs arbitrary: ys)
  case (Cons x xs)
  then obtain y ys' where ys: "ys = y # ys'" by (cases ys) auto
  from Cons.prems have "x = y"
    unfolding ys by (cases x; cases y) (auto simp: leaf_msg_def complete_hashes_def)
  with Cons ys show ?case by auto
qed simp

text \<open>(C38) A root and a leaf count determine the recorded hashes: two epochs of equally many blocks, each
  with its three 64-digit hashes, that build the same root either record the same hashes in the same
  order or show two different messages, hashed while building the two trees, with one digest.\<close>

theorem log_root_binds_rows:
  assumes "\<And>x. length (H x) = 32"
    and "list_all complete_hashes rows" "list_all complete_hashes rows'"
    and "length rows = length rows'"
    and "lt_root (buildTree H (map (row_leaf H) rows)) = lt_root (buildTree H (map (row_leaf H) rows'))"
  shows "rows = rows' \<or>
    (\<exists>x \<in> set (epoch_msgs H rows). \<exists>y \<in> set (epoch_msgs H rows'). x \<noteq> y \<and> H x = H y)"
proof (cases "rows = []")
  case False
  let ?l = "map (row_leaf H) rows" and ?l' = "map (row_leaf H) rows'"
  have "\<forall>x \<in> set ?l. length x = 64" "\<forall>x \<in> set ?l'. length x = 64"
    by (auto simp: row_leaf_msg sha256_hex_def assms(1))
  moreover have "hd (last (layers_from H ?l)) = hd (last (layers_from H ?l'))"
    using assms(4,5) False by (auto simp: buildTree_def Let_def split: if_splits)
  ultimately have "?l = ?l' \<or> colliding H (tree_msgs H ?l) (tree_msgs H ?l')"
    using equal_roots [OF assms(1), of ?l ?l'] assms(4) by simp
  then have "?l = ?l' \<or> colliding H (epoch_msgs H rows) (epoch_msgs H rows')"
    by (rule disj_forward) (auto elim: colliding_mono simp: epoch_msgs_def)
  moreover have digests: "map (sha256_hex H) (map leaf_msg xs) = map (row_leaf H) xs" for xs
    by (simp add: row_leaf_msg)
  moreover have "rows = rows' \<or> colliding H (epoch_msgs H rows) (epoch_msgs H rows')" if "?l = ?l'"
    using equal_digests [of H "map leaf_msg rows" "map leaf_msg rows'"] that
      leaf_msgs_inject [OF assms(2,3,4)]
      colliding_mono [of H "map leaf_msg rows" "map leaf_msg rows'" "epoch_msgs H rows" "epoch_msgs H rows'"]
    unfolding digests by (auto simp: epoch_msgs_def)
  ultimately show ?thesis unfolding colliding_def by blast
qed (use assms(4) in simp)

theorem log_root_binds_rows_witness:
  "let H = (\<lambda>_. replicate 32 (CHR 0x00)); a = replicate 64 (CHR ''a''); b = replicate 64 (CHR ''b'') in
   \<exists>x \<in> set (epoch_msgs H [(a, b, b)]). \<exists>y \<in> set (epoch_msgs H [(b, a, b)]). x \<noteq> y \<and> H x = H y"
proof -
  let ?H = "\<lambda>_ :: octets. replicate 32 (CHR 0x00)"
  let ?a = "replicate 64 (CHR ''a'')" and ?b = "replicate 64 (CHR ''b'')"
  have "[(?a, ?b, ?b)] = [(?b, ?a, ?b)] \<or>
    (\<exists>x \<in> set (epoch_msgs ?H [(?a, ?b, ?b)]). \<exists>y \<in> set (epoch_msgs ?H [(?b, ?a, ?b)]). x \<noteq> y \<and> ?H x = ?H y)"
    by (rule log_root_binds_rows) (simp_all add: complete_hashes_def row_leaf_msg sha256_hex_def)
  moreover have "?a \<noteq> ?b" by (simp add: replicate_eq_replicate)
  ultimately show ?thesis unfolding Let_def by blast
qed

text \<open>The count is needed: an odd last node is its own sibling, so repeating the last leaf of an odd
  layer keeps the root.  A leaf with one hash missing hashes the same message as an inner node over
  the other two, so a leaf and a node are told apart by their place in the proof only.\<close>

lemma repeated_last_leaf_same_root:
  "lt_root (buildTree H [a, b, c]) = lt_root (buildTree H [a, b, c, c])"
  by (simp add: buildTree_def layers_from_long layers_from_short)

lemma partial_leaf_is_node: "computeLeaf H (Some x) (Some y) None = hashPair H x y"
  by (simp add: computeLeaf_def hashPair_def or_blank_def)

end
