(* ===== verification/Transparency_Log.thy ===== *)
theory Transparency_Log
  imports JS_Values Log_Tree
begin

text \<open>
  The transparency log of a source server, \<^verbatim>\<open>src/src/server/transparency_log.js\<close>, over the
  tables \<^verbatim>\<open>sync_meta\<close>, \<^verbatim>\<open>merkle_epochs\<close> and \<^verbatim>\<open>merkle_reorgs\<close> with the statements of
  \<^verbatim>\<open>src/src/db/sync_meta.js\<close> and \<^verbatim>\<open>src/src/db/merkle_epochs.js\<close>, and the gap repair of
  \<^verbatim>\<open>src/src/server/poller.js\<close>.  A table is the list of its rows in insertion order.
  Row ids, time stamps the database assigns and log messages are left out; the statements
  succeed, except in the interruption of a reorg prune, which is stated as such.
\<close>

section \<open>Tables\<close>

record meta_row =
  mt_block :: int
  mt_time :: int
  mt_ledger :: "string option"
  mt_actions :: "string option"
  mt_contract :: "string option"

text \<open>\<^verbatim>\<open>leaf_count\<close> is absent on rows older than the column.\<close>

record epoch_row =
  ep_epoch :: int
  ep_start :: int
  ep_end :: int
  ep_root :: string
  ep_count :: "int option"

record reorg_row =
  ro_block :: int
  ro_epoch :: int
  ro_start :: int
  ro_end :: int
  ro_old :: string
  ro_new :: "string option"

text \<open>\<open>src_rows\<close> stands for the source's own blocks with their hashes (\<^verbatim>\<open>getBlockHashRow\<close>).\<close>

record log_db =
  sync_meta :: "meta_row list"
  merkle_epochs :: "epoch_row list"
  merkle_reorgs :: "reorg_row list"
  src_rows :: "meta_row list"

subsection \<open>Statements on \<^verbatim>\<open>merkle_epochs\<close> and \<^verbatim>\<open>merkle_reorgs\<close>\<close>

definition getHighestEpochEndAtOrBelow :: "log_db \<Rightarrow> int \<Rightarrow> int option" where
  "getHighestEpochEndAtOrBelow db cutoff =
     sql_max (filter (\<lambda>e. e \<le> cutoff) (map ep_end (merkle_epochs db)))"

definition countEpochsStraddling :: "log_db \<Rightarrow> int \<Rightarrow> nat" where
  "countEpochsStraddling db boundary =
     length (filter (\<lambda>e. ep_start e \<le> boundary \<and> ep_end e > boundary) (merkle_epochs db))"

definition getMerkleEpoch :: "log_db \<Rightarrow> int \<Rightarrow> epoch_row list" where
  "getMerkleEpoch db epoch = filter (\<lambda>e. ep_epoch e = epoch) (merkle_epochs db)"

definition insertMerkleEpoch :: "int \<Rightarrow> int \<Rightarrow> int \<Rightarrow> string \<Rightarrow> nat \<Rightarrow> log_db \<Rightarrow> log_db" where
  "insertMerkleEpoch epoch startBlock endBlock rt leafCount db =
     db\<lparr>merkle_epochs := merkle_epochs db @
         [\<lparr>ep_epoch = epoch, ep_start = startBlock, ep_end = endBlock, ep_root = rt,
           ep_count = Some (int leafCount)\<rparr>]\<rparr>"

definition pending_marker :: "int \<Rightarrow> reorg_row \<Rightarrow> bool" where
  "pending_marker epoch r = (ro_epoch r = epoch \<and> ro_new r = None)"

definition backfillReorgMarkerRoot :: "string \<Rightarrow> int \<Rightarrow> log_db \<Rightarrow> log_db" where
  "backfillReorgMarkerRoot rt epoch db =
     db\<lparr>merkle_reorgs := map (\<lambda>r. if pending_marker epoch r then r\<lparr>ro_new := Some rt\<rparr> else r) (merkle_reorgs db)\<rparr>"

definition findEpochsEndingAtOrAfter :: "log_db \<Rightarrow> int \<Rightarrow> epoch_row list" where
  "findEpochsEndingAtOrAfter db block_index = filter (\<lambda>e. ep_end e \<ge> block_index) (merkle_epochs db)"

definition findPendingReorgMarker :: "log_db \<Rightarrow> int \<Rightarrow> reorg_row list" where
  "findPendingReorgMarker db epoch = take 1 (filter (pending_marker epoch) (merkle_reorgs db))"

definition findPendingReorgMarkerStart :: "log_db \<Rightarrow> int \<Rightarrow> int option" where
  "findPendingReorgMarkerStart db epoch =
     sql_min (map ro_start (filter (pending_marker epoch) (merkle_reorgs db)))"

definition insertReorgMarker :: "int \<Rightarrow> int \<Rightarrow> int \<Rightarrow> int \<Rightarrow> string \<Rightarrow> log_db \<Rightarrow> log_db" where
  "insertReorgMarker block_index epoch startBlock endBlock oldRoot db =
     db\<lparr>merkle_reorgs := merkle_reorgs db @
         [\<lparr>ro_block = block_index, ro_epoch = epoch, ro_start = startBlock, ro_end = endBlock,
           ro_old = oldRoot, ro_new = None\<rparr>]\<rparr>"

definition deleteEpochsEndingAtOrAfter :: "int \<Rightarrow> log_db \<Rightarrow> log_db" where
  "deleteEpochsEndingAtOrAfter block_index db =
     db\<lparr>merkle_epochs := filter (\<lambda>e. \<not> ep_end e \<ge> block_index) (merkle_epochs db)\<rparr>"

definition deleteMerkleEpoch :: "int \<Rightarrow> log_db \<Rightarrow> log_db" where
  "deleteMerkleEpoch epoch db = db\<lparr>merkle_epochs := filter (\<lambda>e. ep_epoch e \<noteq> epoch) (merkle_epochs db)\<rparr>"

definition getLatestMerkleEpoch :: "log_db \<Rightarrow> epoch_row list" where
  "getLatestMerkleEpoch db = take 1 (rev (sort_key ep_epoch (merkle_epochs db)))"

subsection \<open>Statements on \<^verbatim>\<open>sync_meta\<close>\<close>

text \<open>\<^verbatim>\<open>INSERT IGNORE\<close> under the unique \<^verbatim>\<open>block_index\<close>.\<close>

definition recordSyncMetaHashes :: "meta_row \<Rightarrow> log_db \<Rightarrow> log_db" where
  "recordSyncMetaHashes r db =
     (if mt_block r \<in> set (map mt_block (sync_meta db)) then db
      else db\<lparr>sync_meta := sync_meta db @ [r]\<rparr>)"

definition deleteSyncMetaThrough :: "int \<Rightarrow> log_db \<Rightarrow> log_db" where
  "deleteSyncMetaThrough boundary db =
     db\<lparr>sync_meta := filter (\<lambda>r. \<not> mt_block r \<le> boundary) (sync_meta db)\<rparr>"

definition deleteSyncMetaFrom :: "int \<Rightarrow> log_db \<Rightarrow> log_db" where
  "deleteSyncMetaFrom block_index db =
     db\<lparr>sync_meta := filter (\<lambda>r. \<not> mt_block r \<ge> block_index) (sync_meta db)\<rparr>"

definition findSyncMetaLeaves :: "log_db \<Rightarrow> int \<Rightarrow> int \<Rightarrow> meta_row list" where
  "findSyncMetaLeaves db startBlock endBlock =
     sort_key mt_block (filter (\<lambda>r. mt_block r \<ge> startBlock \<and> mt_block r \<le> endBlock) (sync_meta db))"

definition getSyncMetaTip :: "log_db \<Rightarrow> int option" where
  "getSyncMetaTip db = sql_max (map mt_block (sync_meta db))"

definition getRecordedBlockHashes :: "log_db \<Rightarrow> int \<Rightarrow> meta_row list" where
  "getRecordedBlockHashes db height = take 1 (filter (\<lambda>r. mt_block r = height) (sync_meta db))"

definition getSyncMetaBounds :: "log_db \<Rightarrow> (int \<times> int) option" where
  "getSyncMetaBounds db =
     (case (sql_min (map mt_block (sync_meta db)), sql_max (map mt_block (sync_meta db))) of
        (Some lo, Some hi) \<Rightarrow> Some (lo, hi) | _ \<Rightarrow> None)"

definition findUnrecordedBlocksBetween :: "log_db \<Rightarrow> int \<Rightarrow> int \<Rightarrow> int list" where
  "findUnrecordedBlocksBetween db lo hi =
     sort (filter (\<lambda>b. b > lo \<and> b < hi \<and> b \<notin> set (map mt_block (sync_meta db))) (map mt_block (src_rows db)))"

definition countSyncMetaRows :: "log_db \<Rightarrow> nat" where
  "countSyncMetaRows db = length (sync_meta db)"

definition findSyncMetaPage :: "log_db \<Rightarrow> nat \<Rightarrow> nat \<Rightarrow> meta_row list" where
  "findSyncMetaPage db limit offset = take limit (drop offset (rev (sort_key mt_block (sync_meta db))))"

section \<open>The log\<close>

record tlog =
  epochSize :: int
  readOnly :: bool
  retentionBlocks :: int
  retentionFloor :: int

text \<open>\<^verbatim>\<open>parseInt(v, 10)\<close> and \<^verbatim>\<open>parseInt(v)\<close> as an integer, \<^verbatim>\<open>NaN\<close> as \<^term>\<open>None\<close>.  With the radix given,
  a \<^verbatim>\<open>0x\<close> prefix is the digit 0.\<close>

definition parseInt10_text :: "string \<Rightarrow> int option" where
  "parseInt10_text s =
     (let (sg, t) = take_sign (trim_start js_ws s); ds = takeWhile is_digit t in
      if ds = [] then None else Some (if sg = 1 then int (dec_val ds) else - int (dec_val ds)))"

definition int_of_num :: "jsnum \<Rightarrow> int option" where
  "int_of_num n = (case n of Fin q \<Rightarrow> Some \<lfloor>q\<rfloor> | _ \<Rightarrow> None)"

definition parseInt10 :: "jsv \<Rightarrow> int option" where
  "parseInt10 v = (case v of JStr s \<Rightarrow> parseInt10_text s | _ \<Rightarrow> int_of_num (js_parseInt v))"

definition positive_setting :: "jsv \<Rightarrow> int" where
  "positive_setting v = (case parseInt10 v of Some n \<Rightarrow> if n > 0 then n else 0 | None \<Rightarrow> 0)"

definition TransparencyLog :: "int option \<Rightarrow> jsv \<Rightarrow> jsv \<Rightarrow> jsv \<Rightarrow> tlog" where
  "TransparencyLog epochs ro blocks reorgFloor =
     \<lparr>epochSize = (case epochs of Some n \<Rightarrow> if n = 0 then 100 else n | None \<Rightarrow> 100),
      readOnly = (ro = JBool True),
      retentionBlocks = positive_setting blocks,
      retentionFloor = positive_setting reorgFloor\<rparr>"

definition flooredWindow :: "tlog \<Rightarrow> int \<Rightarrow> int" where
  "flooredWindow this keep = max keep (retentionFloor this)"

definition getHighWaterMark :: "log_db \<Rightarrow> int option" where
  "getHighWaterMark db = getSyncMetaTip db"

definition row_of_leaf :: "hash_fn \<Rightarrow> meta_row \<Rightarrow> string" where
  "row_of_leaf H r = computeLeaf H (mt_ledger r) (mt_actions r) (mt_contract r)"

definition reorgedLeavesTruncated :: "log_db \<Rightarrow> int \<Rightarrow> int \<Rightarrow> bool" where
  "reorgedLeavesTruncated db epoch firstLeaf =
     (case findPendingReorgMarkerStart db epoch of None \<Rightarrow> False | Some start \<Rightarrow> \<not> firstLeaf \<le> start)"

definition commitEpoch :: "hash_fn \<Rightarrow> tlog \<Rightarrow> int \<Rightarrow> log_db \<Rightarrow> log_db" where
  "commitEpoch H this epoch db =
     (let startBlock = (epoch - 1) * epochSize this + 1;
          endBlock = epoch * epochSize this;
          rows = findSyncMetaLeaves db startBlock endBlock
      in if readOnly this \<or> getMerkleEpoch db epoch \<noteq> [] \<or> rows = []
            \<or> reorgedLeavesTruncated db epoch (mt_block (hd rows)) then db
         else (let leaves = map (row_of_leaf H) rows in
               case lt_root (buildTree H leaves) of
                 None \<Rightarrow> db
               | Some rt \<Rightarrow> if rt = [] then db
                   else backfillReorgMarkerRoot rt epoch
                          (insertMerkleEpoch epoch (mt_block (hd rows)) (mt_block (last rows)) rt (length leaves) db)))"

datatype prune_report =
    Disabled
  | SkippedPrune string
  | Pruned nat "int option" "int option" "int option"

text \<open>The result reports the number of deleted rows, the tip, the cutoff and the boundary.\<close>

definition pruneSyncMeta :: "tlog \<Rightarrow> jsv \<Rightarrow> log_db \<Rightarrow> prune_report \<times> log_db" where
  "pruneSyncMeta this blocks db =
     (case (if nullish blocks then Some (retentionBlocks this) else parseInt10 blocks) of
        None \<Rightarrow> (Disabled, db)
      | Some keep0 \<Rightarrow>
          if keep0 \<le> 0 then (Disabled, db)
          else if readOnly this then (SkippedPrune ''read_only'', db)
          else
            (case getHighWaterMark db of
               None \<Rightarrow> (Pruned 0 None None None, db)
             | Some tip \<Rightarrow>
                 let cutoff = tip - flooredWindow this keep0 in
                 if cutoff < 1 then (Pruned 0 (Some tip) None None, db)
                 else
                   (case getHighestEpochEndAtOrBelow db cutoff of
                      None \<Rightarrow> (Pruned 0 (Some tip) (Some cutoff) None, db)
                    | Some boundary \<Rightarrow>
                        if boundary < 1 then (Pruned 0 (Some tip) (Some cutoff) None, db)
                        else if countEpochsStraddling db boundary > 0 then (SkippedPrune ''straddling_epoch'', db)
                        else (let db' = deleteSyncMetaThrough boundary db in
                              (Pruned (length (sync_meta db) - length (sync_meta db')) (Some tip) (Some cutoff)
                                 (Some boundary), db')))))"

definition recordBlock :: "hash_fn \<Rightarrow> tlog \<Rightarrow> meta_row \<Rightarrow> log_db \<Rightarrow> log_db" where
  "recordBlock H this r db =
     (if readOnly this then db
      else (let db1 = recordSyncMetaHashes r db in
            if mt_block r > 0 \<and> mt_block r mod epochSize this = 0
            then (let db2 = commitEpoch H this (mt_block r div epochSize this) db1 in
                  if retentionBlocks this > 0 then snd (pruneSyncMeta this JUndef db2) else db2)
            else db1))"

text \<open>The writes of \<^verbatim>\<open>pruneFrom\<close> in the order the statements are issued: the invalidated epochs are
  read once, each gets its marker unless one is pending, then the two range deletes.\<close>

definition mark_invalidated :: "int \<Rightarrow> epoch_row \<Rightarrow> log_db \<Rightarrow> log_db" where
  "mark_invalidated block_index e db =
     (if findPendingReorgMarker db (ep_epoch e) = []
      then insertReorgMarker block_index (ep_epoch e) (ep_start e) (ep_end e) (ep_root e) db else db)"

definition prune_writes :: "int \<Rightarrow> log_db \<Rightarrow> (log_db \<Rightarrow> log_db) list" where
  "prune_writes block_index db =
     map (mark_invalidated block_index) (findEpochsEndingAtOrAfter db block_index) @
     [deleteEpochsEndingAtOrAfter block_index, deleteSyncMetaFrom block_index]"

definition pruneFrom :: "tlog \<Rightarrow> int \<Rightarrow> log_db \<Rightarrow> log_db" where
  "pruneFrom this block_index db = (if readOnly this then db else run_writes (prune_writes block_index db) db)"

text \<open>A prune interrupted by a fault after \<open>k\<close> of its statements.\<close>

definition pruneFrom_faulted :: "nat \<Rightarrow> tlog \<Rightarrow> int \<Rightarrow> log_db \<Rightarrow> log_db" where
  "pruneFrom_faulted k this block_index db =
     (if readOnly this then db else run_writes (take k (prune_writes block_index db)) db)"

record log_proof =
  lp_block :: int
  lp_epoch :: int
  lp_leaf :: string
  lp_root :: string
  lp_path :: "proof_step list option"
  lp_verified :: bool

datatype proof_reply = NoProof | ProofError string | ProofOf log_proof

text \<open>\<^verbatim>\<open>Math.ceil(b / s)\<close> for positive \<open>s\<close>.\<close>

definition ceil_div :: "int \<Rightarrow> int \<Rightarrow> int" where
  "ceil_div b s = - ((- b) div s)"

text \<open>The loop keeps the last row whose block matches.\<close>

fun leaf_index :: "meta_row list \<Rightarrow> int \<Rightarrow> int \<Rightarrow> int \<Rightarrow> int" where
  "leaf_index [] blockIndex i found = found"
| "leaf_index (r # rows) blockIndex i found =
     leaf_index rows blockIndex (i + 1) (if mt_block r = blockIndex then i else found)"

definition getProof :: "hash_fn \<Rightarrow> tlog \<Rightarrow> log_db \<Rightarrow> jsv \<Rightarrow> proof_reply" where
  "getProof H this db arg =
     (case int_of_num (js_parseInt arg) of
        None \<Rightarrow> NoProof
      | Some blockIndex \<Rightarrow>
          if blockIndex < 1 then NoProof
          else (let epoch = ceil_div blockIndex (epochSize this) in
            case getMerkleEpoch db epoch of
              [] \<Rightarrow> ProofError ''epoch not yet committed''
            | epochData # _ \<Rightarrow>
                let rows = findSyncMetaLeaves db (ep_start epochData) (ep_end epochData) in
                if rows = [] then NoProof
                else if ep_count epochData \<noteq> None \<and> ep_count epochData \<noteq> Some (int (length rows))
                then ProofError ''epoch leaves incomplete''
                else (let leaves = map (row_of_leaf H) rows; i = leaf_index rows blockIndex 0 (-1) in
                  if i = -1 then ProofError ''block not found in epoch''
                  else (let tree = buildTree H leaves; path = generateProof (lt_layers tree) i;
                            leaf = leaves ! nat i
                    in ProofOf \<lparr>lp_block = blockIndex, lp_epoch = epoch, lp_leaf = leaf,
                         lp_root = ep_root epochData, lp_path = path,
                         lp_verified = verifyProof H (Some leaf) path (Some (ep_root epochData))\<rparr>))))"

definition blockIdentity :: "meta_row option \<Rightarrow> string option" where
  "blockIdentity row =
     (case row of
        None \<Rightarrow> None
      | Some r \<Rightarrow> (case mt_ledger r of
          None \<Rightarrow> None
        | Some l \<Rightarrow> Some (l @ ''|'' @ or_blank (mt_actions r) @ ''|'' @ or_blank (mt_contract r))))"

definition getRecordedHash :: "log_db \<Rightarrow> int \<Rightarrow> string option" where
  "getRecordedHash db height =
     (case getRecordedBlockHashes db height of [] \<Rightarrow> None | r # _ \<Rightarrow> blockIdentity (Some r))"

definition findGaps :: "log_db \<Rightarrow> int list" where
  "findGaps db =
     (case getSyncMetaBounds db of
        None \<Rightarrow> []
      | Some (lo, hi) \<Rightarrow> if hi - lo < 2 then [] else findUnrecordedBlocksBetween db lo hi)"

definition recommitEpoch :: "hash_fn \<Rightarrow> tlog \<Rightarrow> int \<Rightarrow> int option \<Rightarrow> log_db \<Rightarrow> log_db" where
  "recommitEpoch H this epoch highWaterMark db =
     (if readOnly this then db
      else if (case highWaterMark of None \<Rightarrow> False | Some hwm \<Rightarrow> epoch * epochSize this > hwm) then db
      else commitEpoch H this epoch (deleteMerkleEpoch epoch db))"

definition getLatestRoot :: "log_db \<Rightarrow> epoch_row option" where
  "getLatestRoot db = (case getLatestMerkleEpoch db of [] \<Rightarrow> None | e # _ \<Rightarrow> Some e)"

record log_page =
  pg_page :: int
  pg_limit :: int
  pg_total :: nat
  pg_results :: "meta_row list"

text \<open>\<^verbatim>\<open>parseInt(x) || d\<close>\<close>

definition int_or :: "jsv \<Rightarrow> int \<Rightarrow> int" where
  "int_or v d = (case int_of_num (js_parseInt v) of None \<Rightarrow> d | Some n \<Rightarrow> if n = 0 then d else n)"

definition getPage :: "log_db \<Rightarrow> jsv \<Rightarrow> jsv \<Rightarrow> log_page" where
  "getPage db pageArg limitArg =
     (let page = max 0 (int_or pageArg 0); limit = min 1000 (max 1 (int_or limitArg 100)) in
      \<lparr>pg_page = page, pg_limit = limit, pg_total = countSyncMetaRows db,
       pg_results = findSyncMetaPage db (nat limit) (nat (page * limit))\<rparr>)"

section \<open>Gap repair\<close>

text \<open>The repair loop of \<^verbatim>\<open>backfillGaps\<close>: a gap whose source row is gone is skipped, an epoch enters
  the set once, in the order of its first gap.\<close>

fun backfill_loop :: "hash_fn \<Rightarrow> tlog \<Rightarrow> int list \<Rightarrow> log_db \<Rightarrow> int list \<Rightarrow> log_db \<times> int list" where
  "backfill_loop H this [] db epochs = (db, epochs)"
| "backfill_loop H this (b # gaps) db epochs =
     (case filter (\<lambda>r. mt_block r = b) (src_rows db) of
        [] \<Rightarrow> backfill_loop H this gaps db epochs
      | r # _ \<Rightarrow> backfill_loop H this gaps (recordBlock H this r db)
                   (if ceil_div b (epochSize this) \<in> set epochs then epochs
                    else epochs @ [ceil_div b (epochSize this)]))"

definition backfillGaps :: "hash_fn \<Rightarrow> tlog \<Rightarrow> log_db \<Rightarrow> nat \<times> log_db" where
  "backfillGaps H this db =
     (if readOnly this then (0, db)
      else (let gaps = findGaps db in
        if gaps = [] then (0, db)
        else (let (db1, epochs) = backfill_loop H this gaps db [];
                  hwm = getHighWaterMark db1;
                  completed = (case hwm of None \<Rightarrow> epochs
                               | Some h \<Rightarrow> filter (\<lambda>e. e * epochSize this \<le> h) epochs)
              in (length gaps, foldl (\<lambda>d e. recommitEpoch H this e hwm d) db1 completed))))"

end
