(* ===== verification/Log_Proofs.thy ===== *)
theory Log_Proofs
  imports Transparency_Log
begin

text \<open>
  What the transparency log guarantees.  The runs of a log are the sequences of its
  operations the poller issues: a new tip block, a repaired gap, a re-committed epoch, a
  retention sweep, a reorg prune, complete or interrupted by a fault.  In every log such a
  run reaches, the leaves of a committed epoch are all present or all pruned, so an
  inclusion proof the log hands out verifies against the committed root.
\<close>

section \<open>Runs\<close>

inductive log_reach :: "hash_fn \<Rightarrow> tlog \<Rightarrow> log_db \<Rightarrow> bool" for H this where
  fresh: "log_reach H this \<lparr>sync_meta = [], merkle_epochs = [], merkle_reorgs = [], src_rows = rows\<rparr>"
| source: "log_reach H this db \<Longrightarrow> log_reach H this (db\<lparr>src_rows := rows\<rparr>)"
| next_block: "log_reach H this db \<Longrightarrow> \<forall>q \<in> set (sync_meta db). mt_block q < mt_block r \<Longrightarrow>
    \<forall>e \<in> set (merkle_epochs db). ep_end e < mt_block r \<Longrightarrow> log_reach H this (recordBlock H this r db)"
| gap: "log_reach H this db \<Longrightarrow> q \<in> set (sync_meta db) \<Longrightarrow> mt_block q < mt_block r \<Longrightarrow>
    log_reach H this (recordBlock H this r db)"
| recommit: "log_reach H this db \<Longrightarrow> log_reach H this (recommitEpoch H this epoch hwm db)"
| retention: "log_reach H this db \<Longrightarrow> log_reach H this (snd (pruneSyncMeta this blocks db))"
| reorg: "log_reach H this db \<Longrightarrow> log_reach H this (pruneFrom this b db)"
| reorg_fault: "log_reach H this db \<Longrightarrow> log_reach H this (pruneFrom_faulted k this b db)"

text \<open>The leaves a committed epoch was built from, in block order.\<close>

definition epoch_leaves :: "hash_fn \<Rightarrow> log_db \<Rightarrow> epoch_row \<Rightarrow> meta_row list \<Rightarrow> bool" where
  "epoch_leaves H db e L \<longleftrightarrow>
     set L \<subseteq> set (sync_meta db) \<and> sorted (map mt_block L) \<and> distinct (map mt_block L) \<and>
     (\<forall>r \<in> set L. ep_start e \<le> mt_block r \<and> mt_block r \<le> ep_end e) \<and>
     ep_count e = Some (int (length L)) \<and>
     lt_root (buildTree H (map (row_of_leaf H) L)) = Some (ep_root e) \<and> ep_root e \<noteq> []"

definition epoch_sound :: "hash_fn \<Rightarrow> log_db \<Rightarrow> epoch_row \<Rightarrow> bool" where
  "epoch_sound H db e \<longleftrightarrow> (\<forall>r \<in> set (sync_meta db). ep_end e < mt_block r) \<or> (\<exists>L. epoch_leaves H db e L)"

definition log_inv :: "hash_fn \<Rightarrow> log_db \<Rightarrow> bool" where
  "log_inv H db \<longleftrightarrow> distinct (map mt_block (sync_meta db)) \<and> (\<forall>e \<in> set (merkle_epochs db). epoch_sound H db e)"

section \<open>Tables\<close>

lemma sort_key_props [simp]:
  "set (findSyncMetaLeaves db s t) = {r \<in> set (sync_meta db). s \<le> mt_block r \<and> mt_block r \<le> t}"
  "sorted (map mt_block (findSyncMetaLeaves db s t))"
  by (auto simp: findSyncMetaLeaves_def)

lemma distinct_leaves:
  "distinct (map mt_block (sync_meta db)) \<Longrightarrow> distinct (map mt_block (findSyncMetaLeaves db s t))"
  by (simp add: findSyncMetaLeaves_def distinct_map distinct_filter inj_on_def)

lemma epoch_sound_mono:
  assumes "epoch_sound H db e" "set (sync_meta db) \<subseteq> set (sync_meta db')"
    "\<And>r. r \<in> set (sync_meta db') \<Longrightarrow> r \<notin> set (sync_meta db) \<Longrightarrow>
      \<forall>q \<in> set (sync_meta db). ep_end e < mt_block q \<Longrightarrow> ep_end e < mt_block r"
  shows "epoch_sound H db' e"
  using assms unfolding epoch_sound_def epoch_leaves_def by blast

lemma epoch_sound_cong: "set (sync_meta db') = set (sync_meta db) \<Longrightarrow> epoch_sound H db' e = epoch_sound H db e"
  by (simp add: epoch_sound_def epoch_leaves_def)

section \<open>Operations keep the invariant\<close>

lemma commitEpoch_cases:
  obtains (same) "commitEpoch H this epoch db = db"
  | (commit) rows rt where "rows \<noteq> []"
      "rows = findSyncMetaLeaves db ((epoch - 1) * epochSize this + 1) (epoch * epochSize this)"
      "lt_root (buildTree H (map (row_of_leaf H) rows)) = Some rt" "rt \<noteq> []"
      "commitEpoch H this epoch db = backfillReorgMarkerRoot rt epoch
         (insertMerkleEpoch epoch (mt_block (hd rows)) (mt_block (last rows)) rt (length rows) db)"
  by (cases "commitEpoch H this epoch db = db")
    (auto simp: commitEpoch_def Let_def split: if_splits option.splits)

lemma commitEpoch_sync_meta [simp]: "sync_meta (commitEpoch H this epoch db) = sync_meta db"
  by (cases rule: commitEpoch_cases [of H this epoch db])
    (auto simp: backfillReorgMarkerRoot_def insertMerkleEpoch_def)

lemma sorted_hd_last:
  "sorted (map f xs) \<Longrightarrow> x \<in> set xs \<Longrightarrow> f (hd xs) \<le> f x \<and> f x \<le> f (last xs)"
  by (induction xs) auto

lemma commitEpoch_inv:
  assumes inv: "log_inv H db"
  shows "log_inv H (commitEpoch H this epoch db)"
proof (cases rule: commitEpoch_cases [of H this epoch db])
  case same
  with inv show ?thesis by simp
next
  case (commit rows rt)
  let ?e = "\<lparr>ep_epoch = epoch, ep_start = mt_block (hd rows), ep_end = mt_block (last rows), ep_root = rt,
             ep_count = Some (int (length rows))\<rparr>"
  have eps: "merkle_epochs (commitEpoch H this epoch db) = merkle_epochs db @ [?e]"
    by (simp add: commit backfillReorgMarkerRoot_def insertMerkleEpoch_def)
  have sorted: "sorted (map mt_block rows)" and sub: "set rows \<subseteq> set (sync_meta db)"
    by (auto simp: commit(2))
  have "distinct (map mt_block rows)"
    using inv by (simp add: log_inv_def distinct_leaves commit(2))
  with sorted sub have "epoch_leaves H db ?e rows"
    using sorted_hd_last [of mt_block rows] commit(3,4) by (auto simp: epoch_leaves_def)
  then have "epoch_sound H db ?e" by (auto simp: epoch_sound_def)
  with inv show ?thesis
    unfolding log_inv_def eps by (simp add: epoch_sound_cong [of "commitEpoch H this epoch db" db])
qed

lemma pruneSyncMeta_cases:
  obtains (same) "snd (pruneSyncMeta this blocks db) = db"
  | (cut) boundary tip keep where "snd (pruneSyncMeta this blocks db) = deleteSyncMetaThrough boundary db"
      "countEpochsStraddling db boundary = 0" "getSyncMetaTip db = Some tip" "1 \<le> boundary"
      "0 < keep" "(if nullish blocks then Some (retentionBlocks this) else parseInt10 blocks) = Some keep"
      "getHighestEpochEndAtOrBelow db (tip - max keep (retentionFloor this)) = Some boundary"
proof (cases "snd (pruneSyncMeta this blocks db) = db")
  case False
  let ?k = "if nullish blocks then Some (retentionBlocks this) else parseInt10 blocks"
  from False obtain keep where k: "?k = Some keep"
    unfolding pruneSyncMeta_def by (cases ?k) auto
  from False k have pos: "0 < keep" unfolding pruneSyncMeta_def by (auto split: if_splits)
  from False k pos have ro: "\<not> readOnly this" unfolding pruneSyncMeta_def by auto
  from False k pos ro obtain tip where tip: "getSyncMetaTip db = Some tip"
    unfolding pruneSyncMeta_def getHighWaterMark_def by (cases "getSyncMetaTip db") auto
  let ?c = "tip - max keep (retentionFloor this)"
  from False k pos ro tip have c: "\<not> ?c < 1"
    unfolding pruneSyncMeta_def getHighWaterMark_def flooredWindow_def by (auto simp: Let_def)
  from False k pos ro tip c obtain b where b: "getHighestEpochEndAtOrBelow db ?c = Some b"
    unfolding pruneSyncMeta_def getHighWaterMark_def flooredWindow_def
    by (cases "getHighestEpochEndAtOrBelow db ?c") (auto simp: Let_def)
  have "snd (pruneSyncMeta this blocks db) =
      (if b < 1 then db else if countEpochsStraddling db b > 0 then db else deleteSyncMetaThrough b db)"
    unfolding pruneSyncMeta_def getHighWaterMark_def flooredWindow_def k
    using pos ro tip c b by (simp add: Let_def)
  with False have "1 \<le> b" "countEpochsStraddling db b = 0"
      "snd (pruneSyncMeta this blocks db) = deleteSyncMetaThrough b db"
    by (auto split: if_splits)
  with k pos tip b show thesis by (intro cut)
qed (rule same)

lemma no_straddle:
  "countEpochsStraddling db b = 0 \<Longrightarrow> e \<in> set (merkle_epochs db) \<Longrightarrow> ep_start e \<le> b \<Longrightarrow> ep_end e \<le> b"
  by (auto simp: countEpochsStraddling_def filter_empty_conv not_less)

lemma deleteSyncMetaThrough_inv:
  assumes inv: "log_inv H db" and no: "countEpochsStraddling db b = 0"
  shows "log_inv H (deleteSyncMetaThrough b db)"
proof -
  have "epoch_sound H (deleteSyncMetaThrough b db) e" if e: "e \<in> set (merkle_epochs db)" for e
  proof (cases "ep_end e \<le> b")
    case True
    then show ?thesis by (auto simp: epoch_sound_def deleteSyncMetaThrough_def)
  next
    case False
    then have "b < ep_start e" using no_straddle [OF no e] by linarith
    moreover have "epoch_sound H db e" using inv e by (simp add: log_inv_def)
    ultimately show ?thesis
      unfolding epoch_sound_def epoch_leaves_def deleteSyncMetaThrough_def by fastforce
  qed
  with inv show ?thesis by (auto simp: log_inv_def deleteSyncMetaThrough_def distinct_map inj_on_def)
qed

lemma pruneSyncMeta_inv: "log_inv H db \<Longrightarrow> log_inv H (snd (pruneSyncMeta this blocks db))"
  by (cases rule: pruneSyncMeta_cases [of this blocks db]) (auto intro: deleteSyncMetaThrough_inv)

lemma recordSyncMetaHashes_inv:
  assumes inv: "log_inv H db"
    and ok: "(\<forall>e \<in> set (merkle_epochs db). ep_end e < mt_block r) \<or>
             (\<exists>q \<in> set (sync_meta db). mt_block q < mt_block r)"
  shows "log_inv H (recordSyncMetaHashes r db)"
proof (cases "mt_block r \<in> set (map mt_block (sync_meta db))")
  case False
  have "epoch_sound H (recordSyncMetaHashes r db) e" if e: "e \<in> set (merkle_epochs db)" for e
  proof (rule epoch_sound_mono)
    show "epoch_sound H db e" using inv e by (simp add: log_inv_def)
    show "set (sync_meta db) \<subseteq> set (sync_meta (recordSyncMetaHashes r db))"
      by (auto simp: recordSyncMetaHashes_def)
    show "ep_end e < mt_block q" if "q \<in> set (sync_meta (recordSyncMetaHashes r db))"
      "q \<notin> set (sync_meta db)" "\<forall>q \<in> set (sync_meta db). ep_end e < mt_block q" for q
      using that ok e False by (auto simp: recordSyncMetaHashes_def split: if_splits)
  qed
  with inv False show ?thesis by (auto simp: log_inv_def recordSyncMetaHashes_def)
qed (use inv in \<open>simp add: recordSyncMetaHashes_def\<close>)

lemma recordBlock_inv:
  assumes "log_inv H db"
    and "(\<forall>e \<in> set (merkle_epochs db). ep_end e < mt_block r) \<or>
         (\<exists>q \<in> set (sync_meta db). mt_block q < mt_block r)"
  shows "log_inv H (recordBlock H this r db)"
  using recordSyncMetaHashes_inv [OF assms] assms(1)
  by (simp add: recordBlock_def Let_def commitEpoch_inv pruneSyncMeta_inv)

lemma recommitEpoch_inv: "log_inv H db \<Longrightarrow> log_inv H (recommitEpoch H this epoch hwm db)"
proof -
  assume inv: "log_inv H db"
  then have "log_inv H (deleteMerkleEpoch epoch db)"
    by (simp add: log_inv_def deleteMerkleEpoch_def epoch_sound_def epoch_leaves_def)
  then show ?thesis using inv by (simp add: recommitEpoch_def commitEpoch_inv)
qed

section \<open>Reorg prunes\<close>

lemma mark_keeps [simp]:
  "sync_meta (mark_invalidated b e db) = sync_meta db"
  "merkle_epochs (mark_invalidated b e db) = merkle_epochs db"
  "src_rows (mark_invalidated b e db) = src_rows db"
  by (simp_all add: mark_invalidated_def insertReorgMarker_def)

lemma marks_keep [simp]:
  "sync_meta (run_writes (map (mark_invalidated b) es) db) = sync_meta db"
  "merkle_epochs (run_writes (map (mark_invalidated b) es) db) = merkle_epochs db"
  by (induction es arbitrary: db) simp_all

definition marked :: "log_db \<Rightarrow> epoch_row \<Rightarrow> bool" where
  "marked db e \<longleftrightarrow> (\<exists>r \<in> set (merkle_reorgs db). pending_marker (ep_epoch e) r)"

lemma findPending_Nil: "findPendingReorgMarker db (ep_epoch e) = [] \<longleftrightarrow> \<not> marked db e"
  by (auto simp: findPendingReorgMarker_def marked_def filter_empty_conv)

lemma mark_marked [simp]: "marked db e \<Longrightarrow> mark_invalidated b e db = db"
  by (simp add: mark_invalidated_def findPending_Nil)

lemma marked_mark: "marked (mark_invalidated b e db) e"
  by (auto simp: mark_invalidated_def findPending_Nil marked_def insertReorgMarker_def pending_marker_def)

lemma marked_mark_other: "marked db e \<Longrightarrow> marked (mark_invalidated b e' db) e"
  by (auto simp: mark_invalidated_def marked_def insertReorgMarker_def)

lemma marks_marked_other: "marked db e \<Longrightarrow> marked (run_writes (map (mark_invalidated b) es) db) e"
  by (induction es arbitrary: db) (simp_all add: marked_mark_other)

lemma marks_marked: "e \<in> set es \<Longrightarrow> marked (run_writes (map (mark_invalidated b) es) db) e"
  by (induction es arbitrary: db) (auto simp: marked_mark marks_marked_other)

lemma marks_again: "\<forall>e \<in> set es. marked db e \<Longrightarrow> run_writes (map (mark_invalidated b) es) db = db"
  by (induction es) simp_all

lemma deletes_keep_marked [simp]:
  "marked (deleteEpochsEndingAtOrAfter b db) e = marked db e" "marked (deleteSyncMetaFrom b db) e = marked db e"
  by (simp_all add: marked_def deleteEpochsEndingAtOrAfter_def deleteSyncMetaFrom_def)

lemma deletes_idem [simp]:
  "deleteEpochsEndingAtOrAfter b (deleteEpochsEndingAtOrAfter b db) = deleteEpochsEndingAtOrAfter b db"
  "deleteSyncMetaFrom b (deleteSyncMetaFrom b db) = deleteSyncMetaFrom b db"
  "deleteEpochsEndingAtOrAfter b (deleteSyncMetaFrom b db) = deleteSyncMetaFrom b (deleteEpochsEndingAtOrAfter b db)"
  by (simp_all add: deleteEpochsEndingAtOrAfter_def deleteSyncMetaFrom_def)

lemma nothing_invalidated [simp]:
  "findEpochsEndingAtOrAfter (deleteEpochsEndingAtOrAfter b db) b = []"
  "findEpochsEndingAtOrAfter (deleteSyncMetaFrom b db) b = findEpochsEndingAtOrAfter db b"
  by (simp_all add: findEpochsEndingAtOrAfter_def deleteEpochsEndingAtOrAfter_def deleteSyncMetaFrom_def filter_empty_conv)

lemma findEpochs_marks [simp]:
  "findEpochsEndingAtOrAfter (run_writes (map (mark_invalidated b') es) db) b = findEpochsEndingAtOrAfter db b"
  by (simp add: findEpochsEndingAtOrAfter_def)

abbreviation marks :: "int \<Rightarrow> epoch_row list \<Rightarrow> log_db \<Rightarrow> log_db" where
  "marks b es \<equiv> run_writes (map (mark_invalidated b) es)"

lemma pruneFrom_writes:
  "\<not> readOnly this \<Longrightarrow> pruneFrom this b db =
     deleteSyncMetaFrom b (deleteEpochsEndingAtOrAfter b (marks b (findEpochsEndingAtOrAfter db b) db))"
  by (simp add: pruneFrom_def prune_writes_def)

lemma pruneFrom_faulted_cases:
  obtains (read_only) "readOnly this" "pruneFrom_faulted k this b db = db"
  | (marking) "\<not> readOnly this"
      "pruneFrom_faulted k this b db = marks b (take k (findEpochsEndingAtOrAfter db b)) db"
  | (epochs) "\<not> readOnly this" "pruneFrom_faulted k this b db =
       deleteEpochsEndingAtOrAfter b (marks b (findEpochsEndingAtOrAfter db b) db)"
  | (complete) "\<not> readOnly this" "pruneFrom_faulted k this b db = pruneFrom this b db"
proof -
  let ?es = "findEpochsEndingAtOrAfter db b"
  consider "readOnly this" | "\<not> readOnly this" "k \<le> length ?es" | "\<not> readOnly this" "k = length ?es + 1"
    | "\<not> readOnly this" "k \<ge> length ?es + 2" by linarith
  then show thesis
    by cases (simp_all add: that pruneFrom_faulted_def prune_writes_def take_map pruneFrom_writes)
qed

lemma prune_retry:
  "pruneFrom this b (pruneFrom_faulted k this b db) = pruneFrom this b db"
proof (cases rule: pruneFrom_faulted_cases [of this k b db])
  case marking
  let ?es = "findEpochsEndingAtOrAfter db b"
  have "marks b ?es (marks b (take k ?es) db) = marks b (drop k ?es) (marks b (take k ?es) (marks b (take k ?es) db))"
    by (subst append_take_drop_id [of k ?es, symmetric], subst map_append) simp
  also have "\<dots> = marks b (drop k ?es) (marks b (take k ?es) db)"
    by (simp add: marks_again marks_marked)
  also have "\<dots> = marks b (take k ?es @ drop k ?es) db" unfolding map_append by simp
  finally have "marks b ?es (marks b (take k ?es) db) = marks b ?es db" by simp
  with marking show ?thesis by (simp add: pruneFrom_writes)
qed (simp_all add: pruneFrom_writes)

text \<open>The statements of a prune form a resumable sequence.\<close>

definition writable :: tlog where
  "writable = \<lparr>epochSize = 100, readOnly = False, retentionBlocks = 0, retentionFloor = 0\<rparr>"

interpretation prune: resumable "prune_writes b" for b
proof
  fix k db
  show "run_writes (prune_writes b (run_writes (take k (prune_writes b db)) db)) (run_writes (take k (prune_writes b db)) db) =
    run_writes (prune_writes b db) db"
    using prune_retry [of writable b k db] by (simp add: pruneFrom_def pruneFrom_faulted_def writable_def)
qed

lemma prune_attempt:
  "\<not> readOnly this \<Longrightarrow> pruneFrom_faulted k this b db = prune.attempt b k db"
  "\<not> readOnly this \<Longrightarrow> pruneFrom this b db = prune.complete b db"
  by (simp_all add: pruneFrom_faulted_def pruneFrom_def prune.attempt_def prune.complete_def)

lemma marks_inv: "log_inv H db \<Longrightarrow> log_inv H (marks b es db)"
  by (simp add: log_inv_def epoch_sound_def epoch_leaves_def)

lemma deleteEpochs_inv: "log_inv H db \<Longrightarrow> log_inv H (deleteEpochsEndingAtOrAfter b db)"
  by (simp add: log_inv_def deleteEpochsEndingAtOrAfter_def epoch_sound_def epoch_leaves_def)

lemma deleteSyncMetaFrom_inv:
  assumes "log_inv H db" "\<forall>e \<in> set (merkle_epochs db). ep_end e < b"
  shows "log_inv H (deleteSyncMetaFrom b db)"
proof -
  have "epoch_sound H (deleteSyncMetaFrom b db) e" if "e \<in> set (merkle_epochs db)" for e
  proof -
    have "ep_end e < b" "epoch_sound H db e" using assms that by (auto simp: log_inv_def)
    then show ?thesis unfolding epoch_sound_def epoch_leaves_def deleteSyncMetaFrom_def by fastforce
  qed
  with assms(1) show ?thesis
    by (auto simp: log_inv_def deleteSyncMetaFrom_def distinct_map inj_on_def)
qed

lemma pruneFrom_inv: "log_inv H db \<Longrightarrow> log_inv H (pruneFrom this b db)"
proof (cases "readOnly this")
  case False
  assume "log_inv H db"
  then have "log_inv H (deleteEpochsEndingAtOrAfter b (marks b (findEpochsEndingAtOrAfter db b) db))"
    by (intro deleteEpochs_inv marks_inv)
  then show ?thesis
    unfolding pruneFrom_writes [OF False]
    by (rule deleteSyncMetaFrom_inv) (auto simp: deleteEpochsEndingAtOrAfter_def)
qed (simp add: pruneFrom_def)

lemma pruneFrom_faulted_inv: "log_inv H db \<Longrightarrow> log_inv H (pruneFrom_faulted k this b db)"
  by (cases rule: pruneFrom_faulted_cases [of this k b db])
    (simp_all add: marks_inv deleteEpochs_inv pruneFrom_inv)

lemma log_reach_inv: "log_reach H this db \<Longrightarrow> log_inv H db"
proof (induction rule: log_reach.induct)
  case (fresh rows)
  show ?case by (simp add: log_inv_def)
next
  case (source db rows)
  then show ?case by (simp add: log_inv_def epoch_sound_def epoch_leaves_def)
next
  case (next_block db r)
  then show ?case by (intro recordBlock_inv) auto
next
  case (gap db q r)
  then show ?case by (intro recordBlock_inv) auto
qed (auto intro: recommitEpoch_inv pruneSyncMeta_inv pruneFrom_inv pruneFrom_faulted_inv)

section \<open>Inclusion proofs\<close>

lemma leaf_index_found:
  "leaf_index rows b i f = f \<or>
     (\<exists>k < length rows. leaf_index rows b i f = i + int k \<and> mt_block (rows ! k) = b)"
proof (induction rows arbitrary: i f)
  case (Cons r rows)
  let ?f = "if mt_block r = b then i else f"
  from Cons [of "i + 1" ?f] show ?case
  proof (elim disjE exE conjE)
    assume "leaf_index rows b (i + 1) ?f = ?f"
    then show ?thesis by (auto intro: exI [of _ 0])
  next
    fix k assume "k < length rows" "leaf_index rows b (i + 1) ?f = i + 1 + int k" "mt_block (rows ! k) = b"
    then show ?thesis by (intro disjI2 exI [of _ "Suc k"]) simp
  qed
qed simp

lemma leaf_index_ge: "- 1 \<le> f \<Longrightarrow> 0 \<le> i \<Longrightarrow> \<exists>r \<in> set rows. mt_block r = b \<Longrightarrow> 0 \<le> leaf_index rows b i f"
proof (induction rows arbitrary: i f)
  case (Cons r rows)
  show ?case
  proof (cases "\<exists>r \<in> set rows. mt_block r = b")
    case True
    with Cons show ?thesis by simp
  next
    case False
    with Cons.prems have "mt_block r = b" by auto
    then show ?thesis using leaf_index_found [of rows b "i + 1" i] Cons.prems by auto
  qed
qed simp

lemma sorted_same_rows:
  assumes "set L \<subseteq> set M" "length L = length M" "sorted (map f L)" "distinct (map f L)"
    "sorted (map f M)" "distinct (map f M)"
  shows "M = (L :: 'a list)"
proof -
  have "distinct L" "distinct M" using assms(4,6) by (simp_all add: distinct_map)
  then have "set L = set M"
    using assms(1,2) by (metis List.finite_set card_subset_eq distinct_card)
  moreover have "inj_on f (set M)" using assms(6) by (simp add: distinct_map)
  ultimately show ?thesis
    using assms by (intro map_sorted_distinct_set_unique [of f]) auto
qed

lemma getProof_cases:
  assumes "getProof H this db arg = ProofOf p"
  obtains e i where "e \<in> set (merkle_epochs db)" "ep_epoch e = lp_epoch p" "ep_root e = lp_root p"
    "i < length (findSyncMetaLeaves db (ep_start e) (ep_end e))"
    "mt_block (findSyncMetaLeaves db (ep_start e) (ep_end e) ! i) = lp_block p"
    "ep_count e \<noteq> None \<Longrightarrow> ep_count e = Some (int (length (findSyncMetaLeaves db (ep_start e) (ep_end e))))"
    "lp_leaf p = row_of_leaf H (findSyncMetaLeaves db (ep_start e) (ep_end e) ! i)"
    "lp_path p = generateProof (lt_layers (buildTree H (map (row_of_leaf H)
       (findSyncMetaLeaves db (ep_start e) (ep_end e))))) (int i)"
    "lp_verified p = verifyProof H (Some (lp_leaf p)) (lp_path p) (Some (lp_root p))"
proof -
  from assms obtain b where b: "int_of_num (js_parseInt arg) = Some b" "\<not> b < 1"
    unfolding getProof_def by (cases "int_of_num (js_parseInt arg)") (auto split: if_splits)
  let ?ep = "ceil_div b (epochSize this)"
  from assms b obtain e es where e: "getMerkleEpoch db ?ep = e # es"
    unfolding getProof_def by (cases "getMerkleEpoch db ?ep") (auto simp: Let_def)
  let ?rows = "findSyncMetaLeaves db (ep_start e) (ep_end e)"
  let ?i = "leaf_index ?rows b 0 (- 1)"
  have mem: "e \<in> set (merkle_epochs db)" "ep_epoch e = ?ep"
    using arg_cong [OF e, of set] unfolding getMerkleEpoch_def by auto
  from assms b e have ne: "?rows \<noteq> []" and cnt: "ep_count e \<noteq> None \<Longrightarrow> ep_count e = Some (int (length ?rows))"
    and i: "?i \<noteq> - 1"
    unfolding getProof_def by (auto simp: Let_def split: if_splits)
  from i obtain k where k: "k < length ?rows" "?i = int k" "mt_block (?rows ! k) = b"
    using leaf_index_found [of ?rows b 0 "- 1"] by auto
  have "\<not> (ep_count e \<noteq> None \<and> ep_count e \<noteq> Some (int (length ?rows)))" using cnt by blast
  then have p: "p = \<lparr>lp_block = b, lp_epoch = ?ep, lp_leaf = row_of_leaf H (?rows ! k), lp_root = ep_root e,
      lp_path = generateProof (lt_layers (buildTree H (map (row_of_leaf H) ?rows))) (int k),
      lp_verified = verifyProof H (Some (row_of_leaf H (?rows ! k)))
        (generateProof (lt_layers (buildTree H (map (row_of_leaf H) ?rows))) (int k)) (Some (ep_root e))\<rparr>"
    using assms b e ne i k unfolding getProof_def by (auto simp: Let_def split: if_splits)
  show thesis using mem k cnt by (intro that [of e k]) (simp_all add: p)
qed

lemma committed_leaves_verify:
  assumes H: "\<And>x. H x \<noteq> []" and inv: "log_inv H db" and e: "e \<in> set (merkle_epochs db)"
    and rows: "rows = findSyncMetaLeaves db (ep_start e) (ep_end e)" and i: "i < length rows"
    and cnt: "ep_count e \<noteq> None \<Longrightarrow> ep_count e = Some (int (length rows))"
  shows "verifyProof H (Some (row_of_leaf H (rows ! i)))
    (generateProof (lt_layers (buildTree H (map (row_of_leaf H) rows))) (int i)) (Some (ep_root e))"
proof -
  have "rows ! i \<in> set rows" using i by simp
  then have "\<not> (\<forall>r \<in> set (sync_meta db). ep_end e < mt_block r)" unfolding rows by force
  moreover have "epoch_sound H db e" using inv e by (simp add: log_inv_def)
  ultimately obtain L where L: "epoch_leaves H db e L" by (auto simp: epoch_sound_def)
  then have "length L = length rows" "set L \<subseteq> set rows"
    using cnt by (auto simp: epoch_leaves_def rows)
  then have "rows = L"
    using L inv unfolding rows epoch_leaves_def
    by (intro sorted_same_rows [of L _ mt_block]) (auto simp: distinct_leaves log_inv_def)
  then have "lt_root (buildTree H (map (row_of_leaf H) rows)) = Some (ep_root e)"
    using L by (simp add: epoch_leaves_def)
  moreover have "[] \<notin> set (map (row_of_leaf H) rows)"
    using computeLeaf_nonempty [OF H] by (auto simp: row_of_leaf_def eq_commute [of "[]"])
  ultimately show ?thesis
    using built_proof_verifies [of H, OF H, of "map (row_of_leaf H) rows" i] i by simp
qed

lemma getProof_verified:
  assumes H: "\<And>x. H x \<noteq> []" and inv: "log_inv H db" and p: "getProof H this db arg = ProofOf p"
  shows "verifyProof H (Some (lp_leaf p)) (lp_path p) (Some (lp_root p)) \<and> lp_verified p \<and>
    (\<exists>r \<in> set (sync_meta db). mt_block r = lp_block p \<and> lp_leaf p = row_of_leaf H r) \<and>
    (\<exists>e \<in> set (merkle_epochs db). ep_epoch e = lp_epoch p \<and> ep_root e = lp_root p)"
proof -
  from p obtain e i where e: "e \<in> set (merkle_epochs db)" "ep_epoch e = lp_epoch p" "ep_root e = lp_root p"
    and i: "i < length (findSyncMetaLeaves db (ep_start e) (ep_end e))"
    and blk: "mt_block (findSyncMetaLeaves db (ep_start e) (ep_end e) ! i) = lp_block p"
    and cnt: "ep_count e \<noteq> None \<Longrightarrow> ep_count e = Some (int (length (findSyncMetaLeaves db (ep_start e) (ep_end e))))"
    and leaf: "lp_leaf p = row_of_leaf H (findSyncMetaLeaves db (ep_start e) (ep_end e) ! i)"
    and path: "lp_path p = generateProof (lt_layers (buildTree H (map (row_of_leaf H)
       (findSyncMetaLeaves db (ep_start e) (ep_end e))))) (int i)"
    and ver: "lp_verified p = verifyProof H (Some (lp_leaf p)) (lp_path p) (Some (lp_root p))"
    by (rule getProof_cases) blast
  have v: "verifyProof H (Some (lp_leaf p)) (lp_path p) (Some (lp_root p))"
    using committed_leaves_verify [OF H inv e(1) refl i cnt] by (simp add: leaf path e(3))
  have "findSyncMetaLeaves db (ep_start e) (ep_end e) ! i \<in> set (findSyncMetaLeaves db (ep_start e) (ep_end e))"
    using i by (rule nth_mem)
  then have "\<exists>r \<in> set (sync_meta db). mt_block r = lp_block p \<and> lp_leaf p = row_of_leaf H r"
    using blk leaf unfolding sort_key_props by blast
  with v ver e show ?thesis by blast
qed

text \<open>(C6) Every inclusion proof a log hands out verifies: in every log that a run of tip blocks, repaired
  gaps, re-commits, retention sweeps and (possibly interrupted) reorg prunes reaches, a served proof
  folds the leaf of the recorded block to the root of the committed epoch, and says so.  A committed
  epoch whose leaves are not all present is refused, never served from a subset.\<close>

theorem log_proofs_verify:
  assumes "log_reach H this db" and "\<And>x. H x \<noteq> []" and "getProof H this db arg = ProofOf p"
  shows "verifyProof H (Some (lp_leaf p)) (lp_path p) (Some (lp_root p)) \<and> lp_verified p \<and>
    (\<exists>r \<in> set (sync_meta db). mt_block r = lp_block p \<and> lp_leaf p = row_of_leaf H r) \<and>
    (\<exists>e \<in> set (merkle_epochs db). ep_epoch e = lp_epoch p \<and> ep_root e = lp_root p)"
  using getProof_verified [OF assms(2) log_reach_inv [OF assms(1)] assms(3)] .

definition demo_row :: "int \<Rightarrow> string \<Rightarrow> meta_row" where
  "demo_row b h = \<lparr>mt_block = b, mt_time = 0, mt_ledger = Some h, mt_actions = Some h, mt_contract = Some h\<rparr>"

definition demo_log :: "int \<Rightarrow> tlog" where
  "demo_log keep = \<lparr>epochSize = 2, readOnly = False, retentionBlocks = keep, retentionFloor = 0\<rparr>"

definition demo_hash :: hash_fn where
  "demo_hash x = (if x = [] then ''h'' else x)"

definition empty_log :: log_db where
  "empty_log = \<lparr>sync_meta = [], merkle_epochs = [], merkle_reorgs = [], src_rows = []\<rparr>"

definition demo_db :: log_db where
  "demo_db = recordBlock demo_hash (demo_log 0) (demo_row 2 ''b'') (recordBlock demo_hash (demo_log 0) (demo_row 1 ''a'') empty_log)"

lemma demo_hash_nonempty: "demo_hash x \<noteq> []"
  by (simp add: demo_hash_def)

lemma demo_db_reach: "log_reach demo_hash (demo_log 0) demo_db"
  unfolding demo_db_def
proof (intro log_reach.next_block)
  show "log_reach demo_hash (demo_log 0) empty_log" unfolding empty_log_def by (rule log_reach.fresh)
qed (simp_all add: recordBlock_def recordSyncMetaHashes_def demo_log_def demo_row_def empty_log_def)

lemma demo_proof: "getProof demo_hash (demo_log 0) demo_db (JInt 1) = ProofOf
   \<lparr>lp_block = 1, lp_epoch = 1, lp_leaf = ''616161'', lp_root = ''363136313631363236323632'',
    lp_path = Some [\<lparr>ps_hash = ''626262'', ps_position = ''right''\<rparr>], lp_verified = True\<rparr>"
  by code_simp


theorem log_proofs_verify_witness:
  "\<exists>p. getProof demo_hash (demo_log 0) demo_db (JInt 1) = ProofOf p \<and> lp_verified p"
  using log_proofs_verify [OF demo_db_reach demo_hash_nonempty demo_proof] demo_proof by blast

section \<open>Commit makes provable\<close>

lemma parseInt_JInt [simp]: "int_of_num (js_parseInt (JInt b)) = Some b"
  by (simp add: JInt_def int_of_num_def)

lemma ceil_div_epoch:
  assumes "0 < s" "(epoch - 1) * s + 1 \<le> b" "b \<le> epoch * s"
  shows "ceil_div b s = epoch"
proof -
  have "(- b) div s = - epoch"
  proof (rule int_div_pos_eq)
    show "- b = s * (- epoch) + (epoch * s - b)" by (simp add: algebra_simps)
    show "0 \<le> epoch * s - b" using assms by simp
    show "epoch * s - b < s" using assms by (simp add: algebra_simps)
  qed
  then show ?thesis by (simp add: ceil_div_def)
qed

lemma leaves_of_commit:
  assumes "distinct (map mt_block (sync_meta db))" "rows = findSyncMetaLeaves db s t" "rows \<noteq> []"
    and "sync_meta db' = sync_meta db"
  shows "findSyncMetaLeaves db' (mt_block (hd rows)) (mt_block (last rows)) = rows"
proof -
  have "mt_block (hd rows) \<in> {s..t}" "mt_block (last rows) \<in> {s..t}"
    using hd_in_set [OF assms(3)] last_in_set [OF assms(3)] unfolding assms(2) by auto
  moreover have "sorted (map mt_block rows)" unfolding assms(2) by simp
  ultimately have "set (findSyncMetaLeaves db' (mt_block (hd rows)) (mt_block (last rows))) = set rows"
    using sorted_hd_last [of mt_block rows] unfolding sort_key_props assms(4)
    by (auto simp: assms(2))
  moreover have "inj_on mt_block (set rows)"
    using assms(1) unfolding assms(2) by (auto simp: distinct_map inj_on_def)
  ultimately show ?thesis
    using distinct_leaves [OF assms(1)] distinct_leaves [of db'] assms(1,2,4)
    by (intro map_sorted_distinct_set_unique [of mt_block]) auto
qed

lemma getProof_hit:
  assumes "int_of_num (js_parseInt arg) = Some b" "\<not> b < 1"
    and "getMerkleEpoch db (ceil_div b (epochSize this)) = e # es"
    and "findSyncMetaLeaves db (ep_start e) (ep_end e) = rows"
    and "ep_count e = Some (int (length rows))" "distinct (map mt_block rows)"
    and "r \<in> set rows" "mt_block r = b"
  shows "\<exists>p. getProof H this db arg = ProofOf p \<and> lp_leaf p = row_of_leaf H r \<and> lp_epoch p = ceil_div b (epochSize this)"
proof -
  let ?i = "leaf_index rows b 0 (- 1)"
  have ne: "rows \<noteq> []" using assms(7) by auto
  have "0 \<le> ?i" using assms(7,8) by (intro leaf_index_ge) auto
  then obtain k where k: "k < length rows" "?i = int k" "mt_block (rows ! k) = b"
    using leaf_index_found [of rows b 0 "- 1"] by auto
  then have "rows ! k = r"
    using assms(6-8) by (simp add: distinct_map inj_on_def)
  with k ne show ?thesis
    unfolding getProof_def assms(1) by (simp add: assms(2-5) Let_def)
qed

text \<open>(C37) Committing an epoch makes each of its recorded blocks provable: when the epoch is not committed yet
  and a reorg did not leave its leaves truncated, every block recorded in its range gets a proof that
  verifies against the root just committed.\<close>

theorem committed_epoch_provable:
  assumes "\<And>x. H x \<noteq> []" "log_inv H db" "0 < epochSize this" "\<not> readOnly this"
    and "getMerkleEpoch db epoch = []"
    and "r \<in> set (sync_meta db)" "1 \<le> mt_block r"
    and "(epoch - 1) * epochSize this + 1 \<le> mt_block r" "mt_block r \<le> epoch * epochSize this"
    and "\<not> reorgedLeavesTruncated db epoch
           (mt_block (hd (findSyncMetaLeaves db ((epoch - 1) * epochSize this + 1) (epoch * epochSize this))))"
  shows "\<exists>p. getProof H this (commitEpoch H this epoch db) (JInt (mt_block r)) = ProofOf p \<and>
    lp_verified p \<and> lp_leaf p = row_of_leaf H r \<and> lp_epoch p = epoch"
proof -
  let ?s = "(epoch - 1) * epochSize this + 1" and ?t = "epoch * epochSize this"
  let ?rows = "findSyncMetaLeaves db ?s ?t" and ?db = "commitEpoch H this epoch db"
  let ?l = "map (row_of_leaf H) ?rows"
  have r: "r \<in> set ?rows" using assms(6,8,9) by simp
  then have ne: "?rows \<noteq> []" by (metis empty_iff list.set(1))
  have "[] \<notin> set ?l"
    using computeLeaf_nonempty [of H, OF assms(1)] by (auto simp: row_of_leaf_def eq_commute [of "[]"])
  then obtain rt where rt: "lt_root (buildTree H ?l) = Some rt" "rt \<noteq> []"
    using buildTree_root_nonempty [of H ?l, OF assms(1)] ne by (simp add: buildTree_def Let_def)
  let ?e = "\<lparr>ep_epoch = epoch, ep_start = mt_block (hd ?rows), ep_end = mt_block (last ?rows), ep_root = rt,
             ep_count = Some (int (length ?rows))\<rparr>"
  have db: "merkle_epochs ?db = merkle_epochs db @ [?e]"
    using assms(4,5,10) ne rt
    by (simp add: commitEpoch_def Let_def backfillReorgMarkerRoot_def insertMerkleEpoch_def)
  have ep: "ceil_div (mt_block r) (epochSize this) = epoch" using ceil_div_epoch assms(3,8,9) by blast
  have get: "getMerkleEpoch ?db epoch = [?e]" using assms(5) unfolding getMerkleEpoch_def db by simp
  have dist: "distinct (map mt_block (sync_meta db))" using assms(2) by (simp add: log_inv_def)
  have "findSyncMetaLeaves ?db (ep_start ?e) (ep_end ?e) = ?rows"
    using leaves_of_commit [OF dist refl ne, of ?db] by simp
  then obtain p where p: "getProof H this ?db (JInt (mt_block r)) = ProofOf p" "lp_leaf p = row_of_leaf H r"
      "lp_epoch p = epoch"
    using getProof_hit [of "JInt (mt_block r)" "mt_block r" ?db this ?e "[]" ?rows r H] get ep assms(7) r
      distinct_leaves [OF dist] by auto
  moreover have "lp_verified p"
    using getProof_verified [OF assms(1) commitEpoch_inv [OF assms(2)] p(1)] by blast
  ultimately show ?thesis by blast
qed

theorem committed_epoch_provable_witness:
  "\<exists>p. getProof demo_hash (demo_log 0) (commitEpoch demo_hash (demo_log 0) 1 (empty_log\<lparr>sync_meta := [demo_row 1 ''a'']\<rparr>)) (JInt 1)
     = ProofOf p \<and> lp_verified p"
  using committed_epoch_provable [of demo_hash "empty_log\<lparr>sync_meta := [demo_row 1 ''a'']\<rparr>" "demo_log 0" 1 "demo_row 1 ''a''"]
  by (auto simp: demo_hash_nonempty demo_log_def demo_row_def empty_log_def log_inv_def getMerkleEpoch_def
      reorgedLeavesTruncated_def findPendingReorgMarkerStart_def sql_min_def)

section \<open>Interrupted prunes\<close>

lemma pruneFrom_effect:
  assumes "\<not> readOnly this"
  shows "sync_meta (pruneFrom this b db) = filter (\<lambda>r. mt_block r < b) (sync_meta db)"
    and "merkle_epochs (pruneFrom this b db) = filter (\<lambda>e. ep_end e < b) (merkle_epochs db)"
    and "e \<in> set (merkle_epochs db) \<Longrightarrow> b \<le> ep_end e \<Longrightarrow> marked (pruneFrom this b db) e"
  using assms marks_marked [of e "findEpochsEndingAtOrAfter db b" b db]
  by (auto simp: pruneFrom_writes deleteSyncMetaFrom_def deleteEpochsEndingAtOrAfter_def not_le
      findEpochsEndingAtOrAfter_def marked_def)

text \<open>(C27) A reorg prune survives faults: after any number of attempts, each stopped by a fault after some
  of its statements, the retry leaves exactly the log an undisturbed prune leaves: no duplicate audit
  marker, no block and no committed epoch at or above the fork, and a pending marker for every epoch
  that was dropped.\<close>

theorem reorg_prune_crash_safe:
  assumes "\<not> readOnly this"
  shows "pruneFrom this b (foldl (\<lambda>d k. pruneFrom_faulted k this b d) db ks) = pruneFrom this b db \<and>
    sync_meta (pruneFrom this b db) = filter (\<lambda>r. mt_block r < b) (sync_meta db) \<and>
    merkle_epochs (pruneFrom this b db) = filter (\<lambda>e. ep_end e < b) (merkle_epochs db) \<and>
    (\<forall>e \<in> set (merkle_epochs db). b \<le> ep_end e \<longrightarrow>
       (\<exists>r \<in> set (merkle_reorgs (pruneFrom this b db)). ro_epoch r = ep_epoch e \<and> ro_new r = None))"
  using prune.complete_attempts [of b db ks] prune_attempt [OF assms] pruneFrom_effect [OF assms, where b = b and db = db]
  unfolding marked_def pending_marker_def by simp

theorem reorg_prune_crash_safe_witness:
  "pruneFrom (demo_log 0) 2 (foldl (\<lambda>d k. pruneFrom_faulted k (demo_log 0) 2 d) demo_db [1, 0, 2]) =
     pruneFrom (demo_log 0) 2 demo_db"
  using reorg_prune_crash_safe [of "demo_log 0" 2 demo_db "[1, 0, 2]"] by (simp add: demo_log_def)

section \<open>Retention\<close>

lemma retention_window:
  assumes "r \<in> set (sync_meta db)" "getSyncMetaTip db = Some tip"
    and "(if nullish blocks then Some (retentionBlocks this) else parseInt10 blocks) = Some keep"
    and "tip - max keep (retentionFloor this) < mt_block r"
  shows "r \<in> set (sync_meta (snd (pruneSyncMeta this blocks db)))"
proof (cases rule: pruneSyncMeta_cases [of this blocks db])
  case (cut boundary tip' keep')
  then have "boundary \<le> tip - max keep (retentionFloor this)"
    using assms(2,3) sql_max_SomeD unfolding getHighestEpochEndAtOrBelow_def by fastforce
  with assms(1,4) show ?thesis unfolding cut(1) by (simp add: deleteSyncMetaThrough_def)
qed (use assms in simp)


definition demo_long :: log_db where
  "demo_long = foldl (\<lambda>d b. recordBlock demo_hash (demo_log 0) (demo_row b ''a'') d) empty_log [1, 2, 3, 4, 5]"


section \<open>Pages\<close>

lemma take_Suc_pages: "take (Suc n * l) xs = take (n * l) xs @ take l (drop (n * l) xs)"
  using take_add [of "n * l" l xs] by (simp add: add.commute)

lemma int_or_JInt: "int_or (JInt (int i)) 0 = int i"
  by (simp add: int_or_def)

text \<open>The pages of the log are bounded and cover it: a page holds between one and a thousand rows at
  most, whatever the request asks for, and the first \<open>n\<close> pages of one page size, in order, are the newest rows
  of the log in descending block order, none missing and none twice.\<close>

theorem log_pages_cover:
  "1 \<le> pg_limit (getPage db page limit) \<and> pg_limit (getPage db page limit) \<le> 1000 \<and>
   length (pg_results (getPage db page limit)) \<le> 1000 \<and>
   concat (map (\<lambda>i. pg_results (getPage db (JInt (int i)) limit)) [0..<n]) =
     take (n * nat (pg_limit (getPage db page limit))) (rev (sort_key mt_block (sync_meta db)))"
proof (intro conjI)
  let ?l = "nat (pg_limit (getPage db page limit))"
  show "concat (map (\<lambda>i. pg_results (getPage db (JInt (int i)) limit)) [0..<n]) =
     take (n * ?l) (rev (sort_key mt_block (sync_meta db)))"
  proof (induction n)
    case (Suc n)
    have "pg_results (getPage db (JInt (int n)) limit) = take ?l (drop (n * ?l) (rev (sort_key mt_block (sync_meta db))))"
      by (simp add: getPage_def Let_def findSyncMetaPage_def int_or_JInt nat_mult_distrib)
    with Suc show ?case by (simp add: take_Suc_pages del: mult_Suc)
  qed simp
  show "length (pg_results (getPage db page limit)) \<le> 1000"
    unfolding getPage_def Let_def findSyncMetaPage_def by (simp add: min.coboundedI2)
qed (simp_all add: getPage_def Let_def)

section \<open>Gap repair\<close>

lemma bounds_eq:
  "getSyncMetaBounds db = (if sync_meta db = [] then None
     else Some (Min (mt_block ` set (sync_meta db)), Max (mt_block ` set (sync_meta db))))"
  by (simp add: getSyncMetaBounds_def sql_min_Min sql_max_Max) (simp add: sql_min_def)

lemma commitEpoch_src_rows [simp]: "src_rows (commitEpoch H this epoch db) = src_rows db"
  by (cases rule: commitEpoch_cases [of H this epoch db])
    (simp_all add: backfillReorgMarkerRoot_def insertMerkleEpoch_def)

lemma recordBlock_no_retention:
  assumes "retentionBlocks this = 0" "\<not> readOnly this"
  shows "mt_block ` set (sync_meta (recordBlock H this r db)) = insert (mt_block r) (mt_block ` set (sync_meta db))"
    and "set (sync_meta db) \<subseteq> set (sync_meta (recordBlock H this r db))"
    and "src_rows (recordBlock H this r db) = src_rows db"
  using assms by (auto simp: recordBlock_def recordSyncMetaHashes_def Let_def)

lemma backfill_loop_spec:
  assumes ret: "retentionBlocks this = 0" "\<not> readOnly this"
  shows "backfill_loop H this gaps db epochs = (db', epochs') \<Longrightarrow> log_reach H this db \<Longrightarrow>
     set gaps \<subseteq> mt_block ` set (src_rows db) \<Longrightarrow> q \<in> set (sync_meta db) \<Longrightarrow> \<forall>b \<in> set gaps. mt_block q < b \<Longrightarrow>
     log_reach H this db' \<and> src_rows db' = src_rows db \<and>
     mt_block ` set (sync_meta db') = mt_block ` set (sync_meta db) \<union> set gaps"
proof (induction gaps arbitrary: db epochs)
  case (Cons b gaps)
  obtain r rs where r: "filter (\<lambda>r. mt_block r = b) (src_rows db) = r # rs"
    using Cons.prems(3) by (cases "filter (\<lambda>r. mt_block r = b) (src_rows db)") (auto simp: filter_empty_conv)
  then have rb: "mt_block r = b" by (metis (mono_tags, lifting) filter_eq_ConsD)
  let ?db = "recordBlock H this r db"
  note rec = recordBlock_no_retention [OF ret, where H = H and r = r and db = db]
  have "log_reach H this ?db"
    using Cons.prems(2,4,5) rb by (intro log_reach.gap [of H this db q r]) auto
  then have "log_reach H this db' \<and> src_rows db' = src_rows ?db \<and>
     mt_block ` set (sync_meta db') = mt_block ` set (sync_meta ?db) \<union> set gaps"
    using Cons.prems r rec by (intro Cons.IH) auto
  then show ?case using rec rb by auto
qed simp

lemma recommitEpoch_keeps:
  "sync_meta (recommitEpoch H this e hwm db) = sync_meta db"
  "src_rows (recommitEpoch H this e hwm db) = src_rows db"
  by (simp_all add: recommitEpoch_def) (simp_all add: deleteMerkleEpoch_def)

lemma recommits_spec:
  "log_reach H this db \<Longrightarrow>
     log_reach H this (foldl (\<lambda>d e. recommitEpoch H this e hwm d) db es) \<and>
     sync_meta (foldl (\<lambda>d e. recommitEpoch H this e hwm d) db es) = sync_meta db \<and>
     src_rows (foldl (\<lambda>d e. recommitEpoch H this e hwm d) db es) = src_rows db"
  by (induction es arbitrary: db) (simp_all add: log_reach.recommit recommitEpoch_keeps)

lemma findGaps_set:
  "sync_meta db \<noteq> [] \<Longrightarrow> set (findGaps db) =
     {b \<in> mt_block ` set (src_rows db). Min (mt_block ` set (sync_meta db)) < b \<and>
        b < Max (mt_block ` set (sync_meta db)) \<and> b \<notin> mt_block ` set (sync_meta db)}"
  by (auto simp: findGaps_def bounds_eq findUnrecordedBlocksBetween_def)

lemma findGaps_filled:
  assumes "sync_meta db \<noteq> []" "mt_block ` set (sync_meta db') = mt_block ` set (sync_meta db) \<union> set (findGaps db)"
    and "src_rows db' = src_rows db"
  shows "findGaps db' = []"
proof -
  let ?m = "mt_block ` set (sync_meta db)"
  have g: "b \<in> set (findGaps db) \<Longrightarrow> Min ?m < b \<and> b < Max ?m" for b
    using findGaps_set [OF assms(1)] by auto
  have fin: "finite ?m" "?m \<noteq> {}" using assms(1) by auto
  have "Min (?m \<union> set (findGaps db)) = Min ?m"
    by (rule Min_eqI) (use g fin Min_in [OF fin] in \<open>auto intro: less_imp_le\<close>)
  moreover have "Max (?m \<union> set (findGaps db)) = Max ?m"
    by (rule Max_eqI) (use g fin Max_in [OF fin] in \<open>auto intro: less_imp_le\<close>)
  moreover have "sync_meta db' \<noteq> []" using assms(1,2) by auto
  ultimately have "set (findGaps db') = {}"
    unfolding findGaps_set [OF \<open>sync_meta db' \<noteq> []\<close>] assms(2,3) using findGaps_set [OF assms(1)] by auto
  then show ?thesis by simp
qed

text \<open>(C40) The repair of gaps fills every gap: with retention off, after the repair no source block between the
  lowest and the highest recorded block is missing, the repair reports the number of gaps it found, and
  the log is still one whose proofs verify.\<close>

theorem backfill_repairs_gaps:
  assumes "log_reach H this db" "retentionBlocks this = 0" "\<not> readOnly this"
  shows "findGaps (snd (backfillGaps H this db)) = [] \<and>
    fst (backfillGaps H this db) = length (findGaps db) \<and>
    log_reach H this (snd (backfillGaps H this db))"
proof (cases "findGaps db = []")
  case True
  with assms show ?thesis by (simp add: backfillGaps_def)
next
  case False
  then have ne: "sync_meta db \<noteq> []" by (auto simp: findGaps_def bounds_eq)
  obtain db1 epochs where loop: "backfill_loop H this (findGaps db) db [] = (db1, epochs)" by fastforce
  let ?m = "mt_block ` set (sync_meta db)"
  have "Min ?m \<in> ?m" using ne by (intro Min_in) auto
  then obtain q where q: "q \<in> set (sync_meta db)" "mt_block q = Min ?m" by (metis imageE)
  have spec: "log_reach H this db1 \<and> src_rows db1 = src_rows db \<and>
      mt_block ` set (sync_meta db1) = ?m \<union> set (findGaps db)"
    by (rule backfill_loop_spec [OF assms(2,3) loop assms(1) _ q(1)]) (auto simp: findGaps_set [OF ne] q(2))
  obtain es hwm where db': "snd (backfillGaps H this db) = foldl (\<lambda>d e. recommitEpoch H this e hwm d) db1 es"
    using assms(3) False loop by (auto simp: backfillGaps_def Let_def)
  have "log_reach H this (snd (backfillGaps H this db))"
    "findGaps (snd (backfillGaps H this db)) = []"
    using recommits_spec [of H this db1 hwm es] spec findGaps_filled [OF ne, of "snd (backfillGaps H this db)"]
    unfolding db' by simp_all
  moreover have "fst (backfillGaps H this db) = length (findGaps db)"
    using assms(3) False loop by (simp add: backfillGaps_def Let_def)
  ultimately show ?thesis by blast
qed

definition demo_source :: "meta_row list" where
  "demo_source = map (\<lambda>b. demo_row b ''a'') [1, 2, 3, 4, 5, 6, 7, 8]"

definition demo_holes :: log_db where
  "demo_holes = foldl (\<lambda>d b. recordBlock demo_hash (demo_log 0) (demo_row b ''a'') d)
     (empty_log\<lparr>src_rows := demo_source\<rparr>) [1, 4, 5, 6, 7, 8]"

definition above_log :: "int \<Rightarrow> log_db \<Rightarrow> bool" where
  "above_log b db \<longleftrightarrow> (\<forall>q \<in> set (sync_meta db). mt_block q < b) \<and> (\<forall>e \<in> set (merkle_epochs db). ep_end e < b)"

lemma demo_holes_reach: "log_reach demo_hash (demo_log 0) demo_holes"
proof -
  let ?d = "\<lambda>bs. foldl (\<lambda>d b. recordBlock demo_hash (demo_log 0) (demo_row b ''a'') d)
     (empty_log\<lparr>src_rows := demo_source\<rparr>) bs"
  have step: "log_reach demo_hash (demo_log 0) (?d (bs @ [b]))"
    if "log_reach demo_hash (demo_log 0) (?d bs)" "above_log b (?d bs)" for bs b
    using log_reach.next_block [OF that(1), of "demo_row b ''a''"] that(2)
    by (simp add: above_log_def) (simp add: demo_row_def)
  have "log_reach demo_hash (demo_log 0) (?d [])"
    unfolding empty_log_def foldl_Nil by (intro log_reach.source log_reach.fresh)
  moreover have "above_log 1 (?d [])" "above_log 4 (?d [1])" "above_log 5 (?d [1, 4])"
    "above_log 6 (?d [1, 4, 5])" "above_log 7 (?d [1, 4, 5, 6])" "above_log 8 (?d [1, 4, 5, 6, 7])"
    by code_simp+
  ultimately have "log_reach demo_hash (demo_log 0) (?d ((((([] @ [1]) @ [4]) @ [5]) @ [6]) @ [7] @ [8]))"
    using step [of "[]" 1] step [of "[1]" 4] step [of "[1, 4]" 5] step [of "[1, 4, 5]" 6]
      step [of "[1, 4, 5, 6]" 7] step [of "[1, 4, 5, 6, 7]" 8]
    unfolding append_Cons append_Nil by blast
  then show ?thesis unfolding demo_holes_def append_Cons append_Nil .
qed

theorem backfill_repairs_gaps_witness:
  "findGaps demo_holes = [2, 3] \<and> findGaps (snd (backfillGaps demo_hash (demo_log 0) demo_holes)) = []"
  using backfill_repairs_gaps [OF demo_holes_reach] by (simp add: demo_log_def) code_simp

text \<open>With a retention window the loop reads its gaps once and then prunes beneath them: the boundary block 2
  of the first gap triggers a sweep through block 6, block 3 is recorded into the swept range, and
  the two re-commits then drop the root of epoch 1 and publish one of epoch 2 over a single leaf.\<close>

lemma backfill_under_retention_loses_roots:
  "map (\<lambda>e. (ep_epoch e, ep_count e)) (merkle_epochs demo_holes) = [(2, Some 1), (3, Some 2), (4, Some 2)] \<and>
   (let db = snd (backfillGaps demo_hash (demo_log 2) demo_holes) in
    map mt_block (sync_meta db) = [7, 8, 3] \<and>
    map (\<lambda>e. (ep_epoch e, ep_start e, ep_count e)) (merkle_epochs db) =
      [(3, 5, Some 2), (4, 7, Some 2), (2, 3, Some 1)])"
  by code_simp

end
