(* ===== verification/Client_State.thy ===== *)
theory Client_State
  imports JS_Values
begin

text \<open>
  The durable state of a replica's client and the operations that move it: the rollback
  guard (\<^verbatim>\<open>src/src/client/rollback_guard.js\<close>) with its persistence, the retroactive
  admission (\<^verbatim>\<open>src/src/client/retroactive_admission.js\<close>), the verified-tip marker
  (\<^verbatim>\<open>src/src/client/verified_tip.js\<close>), the halt and its durable write
  (\<^verbatim>\<open>src/src/client/halt_persistence.js\<close>, \<^verbatim>\<open>src/src/db/sync_halt.js\<close>), the recompute of a
  committed block and the reorg handler of \<^verbatim>\<open>src/src/client/sync.js\<close>, over the
  \<^verbatim>\<open>sync_state\<close> table of \<^verbatim>\<open>src/src/db/sync_meta.js\<close>.

  A database statement that may fail takes a flag that says whether it succeeds.  A
  committed block carries the hashes its own rows recompute to (\<^term>\<open>None\<close> when the
  computation throws): \<^verbatim>\<open>src/src/client/block_hasher.js\<close> computes them and is not modelled.
\<close>

section \<open>The rollback guard\<close>

record guard =
  g_max :: int
  g_peak :: "int option"
  g_low :: "int option"

definition RollbackGuard :: "int \<Rightarrow> guard" where
  "RollbackGuard maxDepth = \<lparr>g_max = maxDepth, g_peak = None, g_low = None\<rparr>"

definition reset :: "guard \<Rightarrow> guard" where
  "reset g = g\<lparr>g_peak := None, g_low := None\<rparr>"

text \<open>A \<^verbatim>\<open>null\<close> low would count as 0 in the subtraction.\<close>

definition expire :: "int \<Rightarrow> guard \<Rightarrow> guard" where
  "expire tip g =
     (case g_peak g of
        None \<Rightarrow> g
      | Some peak \<Rightarrow>
          if tip \<ge> peak \<or> tip - (case g_low g of None \<Rightarrow> 0 | Some low \<Rightarrow> low) \<ge> g_max g then reset g else g)"

definition depthFor :: "int \<Rightarrow> int \<Rightarrow> guard \<Rightarrow> int \<times> guard" where
  "depthFor tip target g =
     (let g' = expire tip g; peak = (case g_peak g' of None \<Rightarrow> tip | Some p \<Rightarrow> p) in (peak - target + 1, g'))"

definition recordRollback :: "int \<Rightarrow> int \<Rightarrow> guard \<Rightarrow> guard" where
  "recordRollback tip target g =
     (let g' = expire tip g in
      g'\<lparr>g_peak := Some (case g_peak g' of None \<Rightarrow> tip | Some p \<Rightarrow> p),
         g_low := Some (case g_low g' of None \<Rightarrow> target | Some l \<Rightarrow> min l target)\<rparr>)"

definition exceeds :: "int \<Rightarrow> int \<Rightarrow> guard \<Rightarrow> bool \<times> guard" where
  "exceeds tip target g = (let (d, g') = depthFor tip target g in (d > g_max g', g'))"

definition js_opt :: "int option \<Rightarrow> jsv" where
  "js_opt x = (case x of None \<Rightarrow> JNull | Some n \<Rightarrow> JInt n)"

definition toState :: "guard \<Rightarrow> (string \<times> jsv) list" where
  "toState g = [(''peak'', js_opt (g_peak g)), (''low'', js_opt (g_low g))]"

definition safe_integer :: "jsv \<Rightarrow> int option" where
  "safe_integer v =
     (case v of JNum (Fin q) \<Rightarrow> if q = of_int \<lfloor>q\<rfloor> \<and> \<bar>q\<bar> < 2 ^ 53 then Some \<lfloor>q\<rfloor> else None | _ \<Rightarrow> None)"

text \<open>The checks that \<^verbatim>\<open>restoreState\<close> and \<^verbatim>\<open>loadRollbackGuardState\<close> share: a streak has a safe
  non-negative peak and a low that does not exceed it.\<close>

definition coherent_streak :: "(string \<times> jsv) list \<Rightarrow> (int \<times> int) option" where
  "coherent_streak fs =
     (case (safe_integer (own fs ''peak''), safe_integer (own fs ''low'')) of
        (Some p, Some l) \<Rightarrow> if p < 0 \<or> l < 0 \<or> l > p then None else Some (p, l)
      | _ \<Rightarrow> None)"

definition restoreState :: "jsv \<Rightarrow> guard \<Rightarrow> guard" where
  "restoreState state g =
     (case state of
        JObj fs \<Rightarrow>
          if own fs ''peak'' = JNull \<and> own fs ''low'' = JNull then reset g
          else (case coherent_streak fs of
                  None \<Rightarrow> reset g
                | Some (p, l) \<Rightarrow> (reset g)\<lparr>g_peak := Some p, g_low := Some l\<rparr>)
      | _ \<Rightarrow> reset g)"

section \<open>Retroactive admission\<close>

definition RETROACTIVE_BLOCK_SECONDS :: "string \<Rightarrow> int option" where
  "RETROACTIVE_BLOCK_SECONDS coin =
     (if coin = ''BTC'' then Some 600 else if coin = ''LTC'' then Some 150
      else if coin = ''DOGE'' then Some 60 else None)"

definition retroactiveCapBlocks :: "string \<Rightarrow> jsnum \<Rightarrow> int res" where
  "retroactiveCapBlocks coin hours =
     (case RETROACTIVE_BLOCK_SECONDS coin of
        None \<Rightarrow> Inl (''Unknown coin: '' @ coin)
      | Some seconds \<Rightarrow>
          (case hours of
             Fin h \<Rightarrow> if h \<le> 0 then Inl ''hours must be a finite positive number''
                      else Inr \<lfloor>h * 3600 / of_int seconds\<rfloor>
           | _ \<Rightarrow> Inl ''hours must be a finite positive number''))"

record retroactive =
  ra_target :: int
  ra_rules_to :: string

record reorg_report =
  rr_source :: nat
  rr_target :: "int option"
  rr_rules_to :: "string option"

definition admitRetroactiveRewind ::
    "int \<Rightarrow> int \<Rightarrow> retroactive option \<Rightarrow> reorg_report list \<Rightarrow> nat \<Rightarrow> bool \<times> string" where
  "admitRetroactiveRewind depth capBlocks retro reports quorum =
     (case retro of
        None \<Rightarrow> (False, ''not_retroactive'')
      | Some ra \<Rightarrow>
          if depth > capBlocks then (False, ''over_cap'')
          else (let sources = remdups (map rr_source (filter (\<lambda>r. rr_target r = Some (ra_target ra) \<and>
                                rr_rules_to r = Some (ra_rules_to ra)) reports)) in
                if length sources < quorum then (False, ''no_quorum'') else (True, ''quorum'')))"

section \<open>Client state\<close>

text \<open>A value of \<^verbatim>\<open>sync_state\<close> is text; the JSON text of an object is kept as its properties.\<close>

datatype sval = SText string | SJson "(string \<times> jsv) list"

text \<open>\<^verbatim>\<open>_verifiedTip\<close>: \<^verbatim>\<open>undefined\<close> until read, \<^verbatim>\<open>null\<close> when no marker is stored, else a height.\<close>

datatype marker = Unread | Absent | At int

text \<open>A halt as \<^verbatim>\<open>_halted\<close> and \<^verbatim>\<open>sync_halt\<close> hold it: the block (\<^term>\<open>None\<close> for \<^verbatim>\<open>NaN\<close>), the reason, the text of
  each mismatch and the sources; the time stamp is left out.\<close>

record halt =
  h_block :: "int option"
  h_reason :: string
  h_mismatches :: "string list"
  h_sources :: "string list"

record committed_block =
  cb_hashes :: "string option \<times> string option \<times> string option"
  cb_state :: "string option"
  cb_computed :: "(string \<times> string \<times> string) option"
  cb_computed_state :: "string option"
  cb_trusted :: bool

text \<open>\<open>cb_trusted\<close> marks the rows a bootstrap installed without recompute; the code keeps no such
  flag and no operation below reads it.\<close>

record client =
  cl_dbType :: string
  cl_coin :: string
  cl_verifyRecompute :: bool
  cl_verifyStateHash :: bool
  cl_batch :: int
  cl_capHours :: jsnum
  cl_quorum :: nat
  cl_stopping :: bool
  cl_sources :: "string list"
  cl_lastApplied :: "int option"
  cl_bootstrapBase :: "int option"
  cl_guard :: guard
  cl_verified :: marker
  cl_persisted :: marker
  cl_generation :: nat
  cl_removals :: nat
  cl_halted :: "halt option"
  cl_haltDurable :: bool
  cl_pendingCopy :: bool
  cl_rows :: "(int \<times> committed_block) list"
  cl_sync_state :: "string \<rightharpoonup> sval"
  cl_sync_halt :: "halt list"

subsection \<open>\<^verbatim>\<open>sync_state\<close>\<close>

definition getSyncState :: "bool \<Rightarrow> string \<Rightarrow> bool \<Rightarrow> client \<Rightarrow> sval option res" where
  "getSyncState ok key strict c =
     (if ok then Inr (cl_sync_state c key)
      else if strict then Inl ''sync_state read failed'' else Inr None)"

definition setSyncState :: "bool \<Rightarrow> string \<Rightarrow> sval \<Rightarrow> bool \<Rightarrow> client \<Rightarrow> (bool \<times> client) res" where
  "setSyncState ok key v strict c =
     (if ok then Inr (True, c\<lparr>cl_sync_state := (cl_sync_state c)(key \<mapsto> v)\<rparr>)
      else if strict then Inl ''sync_state write failed'' else Inr (False, c))"

definition deleteSyncState :: "bool \<Rightarrow> string \<Rightarrow> client \<Rightarrow> bool \<times> client" where
  "deleteSyncState ok key c =
     (if ok then (True, c\<lparr>cl_sync_state := (cl_sync_state c)(key := None)\<rparr>) else (False, c))"

section \<open>Halts\<close>

definition getActiveHalt :: "client \<Rightarrow> halt option" where
  "getActiveHalt c = (if cl_sync_halt c = [] then None else Some (last (cl_sync_halt c)))"

text \<open>The pre-check tolerates a failed read, the insert does not.\<close>

definition recordHalt :: "bool \<Rightarrow> bool \<Rightarrow> halt \<Rightarrow> client \<Rightarrow> client res" where
  "recordHalt readOk writeOk h c =
     (let existing = (if readOk then getActiveHalt c else None) in
      if (case existing of None \<Rightarrow> False | Some e \<Rightarrow> h_block e \<noteq> None \<and> h_block e = h_block h) then Inr c
      else if writeOk then Inr (c\<lparr>cl_sync_halt := cl_sync_halt c @ [h\<lparr>h_reason := take 64 (h_reason h)\<rparr>]\<rparr>)
      else Inl ''sync_halt write failed'')"

definition clearSyncHalt :: "bool \<Rightarrow> client \<Rightarrow> client res" where
  "clearSyncHalt ok c = (if ok then Inr (c\<lparr>cl_sync_halt := []\<rparr>) else Inl ''sync_halt clear failed'')"

definition pendingHaltKey :: "client \<Rightarrow> string" where
  "pendingHaltKey c = ''halt_pending:'' @ cl_dbType c"

definition halt_json :: "halt \<Rightarrow> (string \<times> jsv) list" where
  "halt_json h = [(''blockIndex'', case h_block h of None \<Rightarrow> JNull | Some b \<Rightarrow> JInt b), (''reason'', JStr (h_reason h)),
     (''mismatches'', JArr (map JStr (h_mismatches h))), (''sources'', JArr (map JStr (h_sources h)))]"

definition dropPendingHaltCopy :: "bool \<Rightarrow> bool \<Rightarrow> client \<Rightarrow> client" where
  "dropPendingHaltCopy delOk setOk c =
     (let c1 = c\<lparr>cl_pendingCopy := False\<rparr>; (dropped, c2) = deleteSyncState delOk (pendingHaltKey c) c1 in
      if dropped then c2
      else (case setSyncState setOk (pendingHaltKey c) (SText []) False c2 of Inl _ \<Rightarrow> c2 | Inr (_, c3) \<Rightarrow> c3))"

definition clearPendingHaltCopy :: "bool \<Rightarrow> bool \<Rightarrow> client \<Rightarrow> client" where
  "clearPendingHaltCopy delOk setOk c = (if cl_pendingCopy c then dropPendingHaltCopy delOk setOk c else c)"

definition writePendingHaltCopy :: "bool \<Rightarrow> halt \<Rightarrow> client \<Rightarrow> client" where
  "writePendingHaltCopy ok h c =
     (case setSyncState ok (pendingHaltKey c) (SJson (halt_json h)) False (c\<lparr>cl_pendingCopy := True\<rparr>) of
        Inl _ \<Rightarrow> c | Inr (_, c') \<Rightarrow> c')"

text \<open>The faults of one durable halt write: the pre-check, the row, the copy, its removal.\<close>

record halt_io =
  io_read :: bool
  io_write :: bool
  io_copy :: bool
  io_del :: bool

definition persistHalt :: "halt_io \<Rightarrow> halt \<Rightarrow> client \<Rightarrow> client" where
  "persistHalt io h c =
     (case recordHalt (io_read io) (io_write io) h c of
        Inr c1 \<Rightarrow> clearPendingHaltCopy (io_del io) (io_copy io) (c1\<lparr>cl_haltDurable := True\<rparr>)
      | Inl _ \<Rightarrow> writePendingHaltCopy (io_copy io) h (c\<lparr>cl_haltDurable := False\<rparr>))"

definition isHaltDurable :: "client \<Rightarrow> bool" where
  "isHaltDurable c = (cl_halted c = None \<or> cl_haltDurable c)"

definition retryHaltPersist :: "halt_io \<Rightarrow> halt \<Rightarrow> client \<Rightarrow> client" where
  "retryHaltPersist io h c =
     (if cl_halted c \<noteq> Some h then c
      else (case recordHalt (io_read io) (io_write io) h c of
              Inr c1 \<Rightarrow> clearPendingHaltCopy (io_del io) (io_copy io) (c1\<lparr>cl_haltDurable := True\<rparr>)
            | Inl _ \<Rightarrow> c))"

definition haltOnDivergence :: "halt_io \<Rightarrow> int \<Rightarrow> string list \<Rightarrow> string list \<Rightarrow> string \<Rightarrow> client \<Rightarrow> client" where
  "haltOnDivergence io blockIndex mismatches sources reason c =
     (if cl_halted c \<noteq> None then c
      else (let h = \<lparr>h_block = Some blockIndex,
                     h_reason = (if reason = [] then ''cross-source-divergence'' else reason),
                     h_mismatches = mismatches, h_sources = sources\<rparr>
            in persistHalt io h (c\<lparr>cl_halted := Some h\<rparr>)))"

definition synthetic_halt :: "string \<Rightarrow> halt" where
  "synthetic_halt reason = \<lparr>h_block = Some (-1), h_reason = reason, h_mismatches = [], h_sources = []\<rparr>"

definition num_int :: "jsnum \<Rightarrow> int option" where
  "num_int n = (case n of Fin q \<Rightarrow> if q = of_int \<lfloor>q\<rfloor> then Some \<lfloor>q\<rfloor> else None | _ \<Rightarrow> None)"

definition json_strings :: "jsv \<Rightarrow> string list" where
  "json_strings v = (case v of JArr vs \<Rightarrow> List.map_filter (\<lambda>x. case x of JStr s \<Rightarrow> Some s | _ \<Rightarrow> None) vs | _ \<Rightarrow> [])"

text \<open>The copy is read strictly; text that is not the JSON of an object with a string \<^verbatim>\<open>reason\<close> is damage.\<close>

definition restorePendingHalt :: "bool \<Rightarrow> halt_io \<Rightarrow> client \<Rightarrow> bool \<times> client" where
  "restorePendingHalt readOk io c =
     (if cl_halted c \<noteq> None then (False, c)
      else (case getSyncState readOk (pendingHaltKey c) True c of
              Inl _ \<Rightarrow> (True, c\<lparr>cl_halted := Some (synthetic_halt ''halt-state-check-failed'')\<rparr>)
            | Inr None \<Rightarrow> (False, c)
            | Inr (Some (SText s)) \<Rightarrow>
                if s = [] then (False, c)
                else (True, c\<lparr>cl_pendingCopy := True, cl_halted := Some (synthetic_halt ''halt-copy-unreadable'')\<rparr>)
            | Inr (Some (SJson fs)) \<Rightarrow>
                (case own fs ''reason'' of
                   JStr reason \<Rightarrow>
                     (let h = \<lparr>h_block = num_int (js_Number (own fs ''blockIndex'')), h_reason = reason,
                               h_mismatches = json_strings (own fs ''mismatches''),
                               h_sources = json_strings (own fs ''sources'')\<rparr>
                      in (True, persistHalt io h (c\<lparr>cl_pendingCopy := True, cl_halted := Some h\<rparr>)))
                 | _ \<Rightarrow> (True, c\<lparr>cl_pendingCopy := True, cl_halted := Some (synthetic_halt ''halt-copy-unreadable'')\<rparr>))))"

definition installStartupHalt :: "halt \<Rightarrow> client \<Rightarrow> client" where
  "installStartupHalt prior c = c\<lparr>cl_halted := Some prior\<rparr>"

text \<open>The startup decision before any wait: an unreadable table halts, an active row is installed.\<close>

definition resolveStartupHalt :: "bool \<Rightarrow> client \<Rightarrow> client" where
  "resolveStartupHalt readOk c =
     (if \<not> readOk then c\<lparr>cl_halted := Some (synthetic_halt ''halt-state-check-failed'')\<rparr>
      else (case getActiveHalt c of None \<Rightarrow> c | Some prior \<Rightarrow> installStartupHalt prior c))"

section \<open>The verified-tip marker\<close>

definition verifiedTipKey :: "client \<Rightarrow> string" where
  "verifiedTipKey c = ''verified_tip:'' @ cl_dbType c"

definition tracksVerifiedTip :: "client \<Rightarrow> bool" where
  "tracksVerifiedTip c = (cl_dbType c = ''indexer'' \<and> cl_verifyRecompute c)"

text \<open>The JSON text of an object is not a number.\<close>

definition parseHeight :: "sval option \<Rightarrow> int option" where
  "parseHeight raw =
     (case raw of
        Some (SText s) \<Rightarrow> if s = [] then None else num_int (number_text s)
      | _ \<Rightarrow> None)"

definition marker_of :: "int option \<Rightarrow> marker" where
  "marker_of x = (case x of None \<Rightarrow> Absent | Some n \<Rightarrow> At n)"

definition loadVerifiedTip :: "bool \<Rightarrow> client \<Rightarrow> client res" where
  "loadVerifiedTip ok c =
     rbind (getSyncState ok (verifiedTipKey c) True c) (\<lambda>raw.
       Inr (c\<lparr>cl_verified := marker_of (parseHeight raw), cl_persisted := marker_of (parseHeight raw)\<rparr>))"

definition rowsChangedSince :: "nat \<Rightarrow> client \<Rightarrow> bool" where
  "rowsChangedSince generation c = (cl_generation c \<noteq> generation \<or> cl_removals c > 0)"

definition bumpRowGeneration :: "client \<Rightarrow> client" where
  "bumpRowGeneration c = c\<lparr>cl_generation := cl_generation c + 1\<rparr>"

definition writeVerifiedTip :: "bool \<Rightarrow> int \<Rightarrow> client \<Rightarrow> client" where
  "writeVerifiedTip ok n c =
     (case setSyncState ok (verifiedTipKey c) (SText (int_str n)) False c of
        Inr (True, c') \<Rightarrow> c'\<lparr>cl_persisted := At n\<rparr>
      | _ \<Rightarrow> c)"

definition advanceVerifiedTip :: "bool \<Rightarrow> int \<Rightarrow> nat option \<Rightarrow> client \<Rightarrow> client" where
  "advanceVerifiedTip ok n generation c =
     (if (case generation of None \<Rightarrow> False | Some g \<Rightarrow> rowsChangedSince g c) then c
      else if (case cl_verified c of At v \<Rightarrow> n \<le> v | _ \<Rightarrow> False) then c
      else writeVerifiedTip ok n (c\<lparr>cl_verified := At n\<rparr>))"

definition noteVerifiedBlock :: "int \<Rightarrow> client \<Rightarrow> client" where
  "noteVerifiedBlock h c =
     (case cl_verified c of At v \<Rightarrow> if h > v then c\<lparr>cl_verified := At h\<rparr> else c | _ \<Rightarrow> c\<lparr>cl_verified := At h\<rparr>)"

definition persistVerifiedTip :: "bool \<Rightarrow> nat \<Rightarrow> client \<Rightarrow> client" where
  "persistVerifiedTip ok generation c =
     (if rowsChangedSince generation c then c
      else (case cl_verified c of
              At v \<Rightarrow> if cl_persisted c = At v then c else writeVerifiedTip ok v c
            | _ \<Rightarrow> c))"

text \<open>A lowering may throw after it bumped the generation, so the state is returned with the error.\<close>

definition lowerVerifiedTip :: "bool \<Rightarrow> bool \<Rightarrow> int \<Rightarrow> client \<Rightarrow> string option \<times> client" where
  "lowerVerifiedTip loadOk writeOk n c =
     (if \<not> tracksVerifiedTip c then (None, c)
      else (let c1 = bumpRowGeneration c in
        case (if cl_verified c1 = Unread then loadVerifiedTip loadOk c1 else Inr c1) of
          Inl e \<Rightarrow> (Some e, c1)
        | Inr c2 \<Rightarrow>
            if (case cl_verified c2 of At v \<Rightarrow> v \<le> n | _ \<Rightarrow> False) then (None, c2)
            else (case setSyncState writeOk (verifiedTipKey c2) (SText (int_str n)) True c2 of
                    Inl e \<Rightarrow> (Some e, c2)
                  | Inr (_, c3) \<Rightarrow> (None, c3\<lparr>cl_verified := At n, cl_persisted := At n\<rparr>))))"

definition endRowRemoval :: "client \<Rightarrow> client" where
  "endRowRemoval c = bumpRowGeneration (c\<lparr>cl_removals := cl_removals c - 1\<rparr>)"

definition beginRowRemoval :: "bool \<Rightarrow> bool \<Rightarrow> int option \<Rightarrow> client \<Rightarrow> string option \<times> client" where
  "beginRowRemoval loadOk writeOk n c =
     (let c1 = (bumpRowGeneration c)\<lparr>cl_removals := cl_removals c + 1\<rparr> in
      case n of
        None \<Rightarrow> (None, c1)
      | Some m \<Rightarrow>
          (case lowerVerifiedTip loadOk writeOk m c1 of
             (None, c2) \<Rightarrow> (None, c2)
           | (Some e, c2) \<Rightarrow> (Some e, endRowRemoval c2)))"

definition adoptVerifiedTip :: "bool \<Rightarrow> int \<Rightarrow> bool \<Rightarrow> client \<Rightarrow> string option \<times> client" where
  "adoptVerifiedTip ok n strict c =
     (if \<not> tracksVerifiedTip c then (None, c)
      else (let c1 = bumpRowGeneration c in
        case setSyncState ok (verifiedTipKey c1) (SText (int_str n)) strict c1 of
          Inl e \<Rightarrow> (Some e, c1)
        | Inr (written, c2) \<Rightarrow>
            (None, (if written then c2\<lparr>cl_verified := At n, cl_persisted := At n\<rparr> else c2\<lparr>cl_verified := At n\<rparr>))))"

definition startVerifiedTipBelow :: "int \<Rightarrow> client \<Rightarrow> client" where
  "startVerifiedTipBelow sinceBlock c =
     (if tracksVerifiedTip c then c\<lparr>cl_verified := At (sinceBlock - 1)\<rparr> else c)"

definition verifiedThroughLastApplied :: "client \<Rightarrow> bool" where
  "verifiedThroughLastApplied c =
     (case cl_verified c of At v \<Rightarrow> cl_lastApplied c = Some v | _ \<Rightarrow> False)"

section \<open>Recompute of a committed block\<close>

definition getLastBlock :: "client \<Rightarrow> int option" where
  "getLastBlock c = sql_max (map fst (cl_rows c))"

datatype block_check = Ok | Unresolved | HeldBlock | HaltFor string "string list"

text \<open>\<^verbatim>\<open>verifyRecompute\<close> with \<^verbatim>\<open>failClosed\<close> and the committed hashes given: \<^term>\<open>Inl\<close> when the recompute
  throws on every attempt, else the fields that do not match.  The join block of a truncated replica
  is skipped.\<close>

definition verifyRecompute ::
    "client \<Rightarrow> int \<Rightarrow> string option \<times> string option \<times> string option \<Rightarrow> (string \<times> string \<times> string) option \<Rightarrow> string list res" where
  "verifyRecompute c blockIndex stored computed =
     (if cl_dbType c \<noteq> ''indexer'' \<or> cl_bootstrapBase c = Some blockIndex then Inr []
      else (case computed of
              None \<Rightarrow> Inl ''recompute failed''
            | Some (l, a, k) \<Rightarrow>
                (case stored of (sl, sa, sk) \<Rightarrow>
                   Inr ((if Some l \<noteq> sl then [''ledger_hash''] else []) @
                        (if Some a \<noteq> sa then [''actions_hash''] else []) @
                        (if Some k \<noteq> sk then [''contract_hash''] else [])))))"

definition evaluateStoredStateHash :: "client \<Rightarrow> string option \<Rightarrow> string option \<Rightarrow> block_check" where
  "evaluateStoredStateHash c stored computed =
     (if cl_dbType c \<noteq> ''indexer'' \<or> \<not> cl_verifyStateHash c \<or> stored = None then Ok
      else (case computed of
              None \<Rightarrow> HeldBlock
            | Some s \<Rightarrow> if stored = Some s then Ok else HaltFor ''state-hash-divergence'' [''state_hash'']))"

text \<open>\<open>readOk\<close>: the committed row reads within its three attempts.  An absent row and a \<^verbatim>\<open>NULL\<close> or
  empty ledger hash are unresolved.\<close>

definition evaluateCommittedBlock :: "bool \<Rightarrow> bool \<Rightarrow> int \<Rightarrow> client \<Rightarrow> block_check" where
  "evaluateCommittedBlock readOk atTip blockIndex c =
     (if \<not> readOk then HaltFor ''boundary-read-error'' [''boundary_hash_read_error'']
      else (case map_of (cl_rows c) blockIndex of
              None \<Rightarrow> Unresolved
            | Some b \<Rightarrow>
                if fst (cb_hashes b) = None \<or> fst (cb_hashes b) = Some [] then Unresolved
                else (case verifyRecompute c blockIndex (cb_hashes b) (cb_computed b) of
                        Inl _ \<Rightarrow> HaltFor ''recompute-error'' [''recompute_error'']
                      | Inr ms \<Rightarrow>
                          if ms \<noteq> [] then HaltFor ''local-recompute-divergence'' ms
                          else if atTip then evaluateStoredStateHash c (cb_state b) (cb_computed_state b)
                          else Ok)))"

section \<open>The walk above the marker\<close>

datatype outcome = WalkOk | WalkHalted | WalkHeld

definition MARKER_WRITE_STEP :: int where
  "MARKER_WRITE_STEP = 50"

text \<open>What happens around one walk: which reads and marker writes succeed, the faults of a halt
  write, and what the other tasks of the process did to the client while the walk awaited the
  recompute of a block, and while it awaited a marker write or its turn.\<close>

record walk_env =
  we_read :: "int \<Rightarrow> bool"
  we_write :: "int \<Rightarrow> bool"
  we_halt :: halt_io
  we_during :: "int \<Rightarrow> client \<Rightarrow> client"
  we_between :: "int \<Rightarrow> client \<Rightarrow> client"

definition settleUnverifiedBlock :: "halt_io \<Rightarrow> int \<Rightarrow> block_check \<Rightarrow> client \<Rightarrow> outcome \<times> client" where
  "settleUnverifiedBlock io h result c =
     (case result of
        HaltFor reason ms \<Rightarrow> (WalkHalted, haltOnDivergence io h ms (take 1 (cl_sources c)) reason c)
      | _ \<Rightarrow> (WalkHeld, c))"

function verify_window :: "walk_env \<Rightarrow> int \<Rightarrow> int \<Rightarrow> int \<Rightarrow> nat \<Rightarrow> int \<Rightarrow> client \<Rightarrow> outcome \<times> client" where
  "verify_window we lo hi tip generation h c =
     (if h > hi then
        (let c1 = we_between we h (persistVerifiedTip (we_write we h) generation c) in
         (if rowsChangedSince generation c1 then WalkHeld else WalkOk, c1))
      else if rowsChangedSince generation c then (WalkHeld, c)
      else
        (let result = evaluateCommittedBlock (we_read we h) (h = tip) h c; c1 = we_during we h c in
         if rowsChangedSince generation c1 then (WalkHeld, c1)
         else if result \<noteq> Ok then
           settleUnverifiedBlock (we_halt we) h result (persistVerifiedTip (we_write we h) generation c1)
         else
           (let c2 = noteVerifiedBlock h c1;
                c3 = (if (h - lo + 1) mod MARKER_WRITE_STEP = 0
                      then we_between we h (persistVerifiedTip (we_write we h) generation c2) else c2)
            in verify_window we lo hi tip generation (h + 1) c3)))"
  by pat_completeness auto
termination
  by (relation "measure (\<lambda>(we, lo, hi, tip, generation, h, c). nat (hi + 1 - h))") auto

declare verify_window.simps [simp del]

definition verifyCommittedWindow :: "walk_env \<Rightarrow> int \<Rightarrow> int \<Rightarrow> int \<Rightarrow> nat \<Rightarrow> client \<Rightarrow> outcome \<times> client" where
  "verifyCommittedWindow we lo hi tip generation c = verify_window we lo hi tip generation lo c"

text \<open>The windows; \<^verbatim>\<open>numericSetting\<close> keeps the batch at 1 or more.\<close>

function verifyCommittedRange :: "walk_env \<Rightarrow> int \<Rightarrow> int \<Rightarrow> nat \<Rightarrow> client \<Rightarrow> outcome \<times> client" where
  "verifyCommittedRange we lo e generation c =
     (if lo > e then (WalkOk, c)
      else
        (let batch = max 1 (cl_batch c); hi = min (lo + batch - 1) e;
             (v, c1) = verifyCommittedWindow we lo hi e generation c
         in if v \<noteq> WalkOk then (v, c1)
            else if hi < e then
              (if cl_stopping c1 then (WalkHeld, c1)
               else verifyCommittedRange we (lo + batch) e generation (we_between we hi c1))
            else (WalkOk, c1)))"
  by pat_completeness auto
termination
  by (relation "measure (\<lambda>(we, lo, e, generation, c). nat (e + 1 - lo))") auto

declare verifyCommittedRange.simps [simp del]

definition LEGACY_PENDING_PREFIX :: string where
  "LEGACY_PENDING_PREFIX = ''post_commit_verify_pending:''"

definition seedVerifiedTip :: "bool \<Rightarrow> int \<Rightarrow> client \<Rightarrow> client" where
  "seedVerifiedTip readOk tip c =
     (let legacy = (case getSyncState readOk (LEGACY_PENDING_PREFIX @ cl_dbType c) False c of
                      Inr raw \<Rightarrow> parseHeight raw | Inl _ \<Rightarrow> None);
          start = (case legacy of Some l \<Rightarrow> if l < tip then l else tip | None \<Rightarrow> tip)
      in c\<lparr>cl_verified := At (start - 1)\<rparr>)"

definition dropLegacyPendingMarker :: "bool \<Rightarrow> client \<Rightarrow> client" where
  "dropLegacyPendingMarker ok c = snd (deleteSyncState ok (LEGACY_PENDING_PREFIX @ cl_dbType c) c)"

text \<open>The height the walk starts at: above the marker, and not below the first block held.\<close>

definition walk_start :: "client \<Rightarrow> int" where
  "walk_start c =
     (let s = (case cl_verified c of At v \<Rightarrow> v + 1 | _ \<Rightarrow> 1) in
      case cl_bootstrapBase c of Some b \<Rightarrow> if s < b then b else s | None \<Rightarrow> s)"

text \<open>\<open>tipOk\<close>, \<open>loadOk\<close>, \<open>legacyOk\<close>: the reads of the stored tip, the marker and the legacy key succeed.\<close>

definition walkUnverifiedTail :: "walk_env \<Rightarrow> bool \<Rightarrow> bool \<Rightarrow> bool \<Rightarrow> client \<Rightarrow> outcome \<times> client" where
  "walkUnverifiedTail we tipOk loadOk legacyOk c =
     (let generation = cl_generation c in
      if rowsChangedSince generation c then (WalkHeld, c)
      else if \<not> tipOk then (WalkHeld, c)
      else (case getLastBlock c of
              None \<Rightarrow> (WalkOk, c)
            | Some tip \<Rightarrow>
                (case (if cl_verified c = Unread then loadVerifiedTip loadOk c else Inr c) of
                   Inl _ \<Rightarrow> (WalkHeld, c)
                 | Inr c1 \<Rightarrow>
                     (let seeded = (case cl_verified c1 of At v \<Rightarrow> v > tip | _ \<Rightarrow> True);
                          c2 = (if seeded then seedVerifiedTip legacyOk tip c1 else c1)
                      in if walk_start c2 > tip then (WalkOk, c2)
                         else (let (v, c3) = verifyCommittedRange we (walk_start c2) tip generation c2 in
                               (v, if v = WalkOk \<and> seeded then dropLegacyPendingMarker (we_write we tip) c3 else c3))))))"

definition verifyUnverifiedTail :: "walk_env \<Rightarrow> bool \<Rightarrow> bool \<Rightarrow> bool \<Rightarrow> client \<Rightarrow> outcome \<times> client" where
  "verifyUnverifiedTail we tipOk loadOk legacyOk c =
     (if \<not> tracksVerifiedTip c then (WalkOk, c)
      else if cl_halted c \<noteq> None then (WalkHalted, c)
      else walkUnverifiedTail we tipOk loadOk legacyOk c)"

section \<open>Reorgs\<close>

record reorg_event =
  re_block :: int
  re_retroactive :: "retroactive option"

definition rollbackGuardStateKey :: "client \<Rightarrow> string" where
  "rollbackGuardStateKey c = ''rollback_guard:'' @ cl_dbType c"

definition persistRollbackGuardState :: "bool \<Rightarrow> client \<Rightarrow> client res" where
  "persistRollbackGuardState ok c =
     rbind (setSyncState ok (rollbackGuardStateKey c) (SJson (toState (cl_guard c))) True c) (\<lambda>(saved, c').
       if saved then Inr c'
       else Inl (''rollback guard state '' @ rollbackGuardStateKey c @ '' could not be persisted; refusing to roll back''))"

datatype load_status = LoadOk | LoadUnreadable | LoadInvalid

text \<open>The read passes no \<^verbatim>\<open>rethrow\<close>, so a fault comes back as \<^verbatim>\<open>null\<close>; text that is not the JSON of
  an object has no \<^verbatim>\<open>peak\<close> and is invalid.\<close>

definition loadRollbackGuardState :: "bool \<Rightarrow> client \<Rightarrow> load_status \<times> client" where
  "loadRollbackGuardState ok c =
     (case getSyncState ok (rollbackGuardStateKey c) False c of
        Inl _ \<Rightarrow> (LoadUnreadable, c)
      | Inr None \<Rightarrow> (LoadOk, c)
      | Inr (Some (SText _)) \<Rightarrow> (LoadInvalid, c)
      | Inr (Some (SJson fs)) \<Rightarrow>
          (case coherent_streak fs of
             None \<Rightarrow> (LoadInvalid, c)
           | Some (p, l) \<Rightarrow> (LoadOk, c\<lparr>cl_guard := (cl_guard c)\<lparr>g_peak := Some p, g_low := Some l\<rparr>\<rparr>)))"

definition resetRollbackGuardState :: "bool \<Rightarrow> client \<Rightarrow> client" where
  "resetRollbackGuardState ok c =
     snd (deleteSyncState ok (rollbackGuardStateKey c) (c\<lparr>cl_guard := reset (cl_guard c)\<rparr>))"

text \<open>The faults of one rollback: reading and lowering the marker, saving the guard, the deletes.\<close>

record rollback_io =
  rb_load :: bool
  rb_lower :: bool
  rb_save :: bool
  rb_delete :: bool

text \<open>\<^verbatim>\<open>rollback.rollback(b)\<close> removes every row at or above \<open>b\<close> or throws; the removal is closed either way.\<close>

definition applyReorgRollback :: "rollback_io \<Rightarrow> reorg_event \<Rightarrow> client \<Rightarrow> string option \<times> client" where
  "applyReorgRollback io event c =
     (case beginRowRemoval (rb_load io) (rb_lower io) (Some (re_block event - 1)) c of
        (Some e, c1) \<Rightarrow> (Some e, c1)
      | (None, c1) \<Rightarrow>
          (let c2 = c1\<lparr>cl_guard := recordRollback (case cl_lastApplied c1 of None \<Rightarrow> 0 | Some t \<Rightarrow> t) (re_block event) (cl_guard c1)\<rparr> in
           case persistRollbackGuardState (rb_save io) c2 of
             Inl e \<Rightarrow> (Some e, endRowRemoval c2)
           | Inr c3 \<Rightarrow>
               if rb_delete io
               then (None, (endRowRemoval (c3\<lparr>cl_rows := filter (\<lambda>r. fst r < re_block event) (cl_rows c3)\<rparr>))
                             \<lparr>cl_lastApplied := Some (re_block event - 1)\<rparr>)
               else (Some ''rollback failed'', endRowRemoval c3)))"

definition retroactiveReorgAdmission :: "client \<Rightarrow> reorg_event \<Rightarrow> int \<Rightarrow> reorg_report list \<Rightarrow> (bool \<times> string) res" where
  "retroactiveReorgAdmission c event depth reports =
     (let retro = (case re_retroactive event of
                     Some ra \<Rightarrow> if ra_target ra = re_block event then Some ra else None | None \<Rightarrow> None)
      in rbind (retroactiveCapBlocks (cl_coin c) (cl_capHours c)) (\<lambda>capBlocks.
           Inr (admitRetroactiveRewind depth capBlocks retro reports (cl_quorum c))))"

text \<open>The reorg handler.  \<open>reports\<close> is \<^term>\<open>None\<close> when the caller passes none.\<close>

definition handleReorg :: "halt_io \<Rightarrow> rollback_io \<Rightarrow> reorg_event \<Rightarrow> reorg_report list option \<Rightarrow> client \<Rightarrow> client res" where
  "handleReorg hio io event reports c =
     (if cl_halted c \<noteq> None then Inr c
      else (case cl_lastApplied c of
        None \<Rightarrow> Inr c
      | Some tip \<Rightarrow>
          if re_block event > tip then Inr c
          else
            (let (depth, g) = depthFor tip (re_block event) (cl_guard c); c1 = c\<lparr>cl_guard := g\<rparr>;
                 unwind = (\<lambda>_ :: unit. case applyReorgRollback io event c1 of
                             (None, c2) \<Rightarrow> c2
                           | (Some e, c2) \<Rightarrow> haltOnDivergence hio (re_block event) [''reorg_rollback_failed'']
                                               (take 1 (cl_sources c2)) ''reorg-rollback-failed'' c2)
             in if depth > g_max g then
                  rbind (retroactiveReorgAdmission c1 event depth (case reports of None \<Rightarrow> [] | Some rs \<Rightarrow> rs)) (\<lambda>(admit, reason).
                    if admit then Inr (unwind ())
                    else if reason = ''no_quorum'' \<and> reports \<noteq> None then Inr c1
                    else Inr (haltOnDivergence hio (re_block event) [''rollback_depth''] (take 1 (cl_sources c1))
                                ''max-rollback-depth-exceeded'' c1))
                else Inr (unwind ()))))"

text \<open>The operator clear: a synthetic halt is dropped in memory only, an invalid guard row is deleted,
  any other halt is cleared durably first.\<close>

definition clearHalt :: "bool \<Rightarrow> halt_io \<Rightarrow> client \<Rightarrow> string option \<times> client" where
  "clearHalt clearOk io c =
     (let c0 = c\<lparr>cl_haltDurable := True\<rparr> in
      case cl_halted c of
        Some h \<Rightarrow>
          if h_reason h = ''halt-state-check-failed'' then (None, c0\<lparr>cl_halted := None\<rparr>)
          else if h_reason h = ''rollback-guard-state-invalid''
          then (None, (resetRollbackGuardState (io_del io) c0)\<lparr>cl_halted := None\<rparr>)
          else (case clearSyncHalt clearOk c0 of
                  Inl e \<Rightarrow> (Some e, c)
                | Inr c1 \<Rightarrow>
                    (let c2 = dropPendingHaltCopy (io_del io) (io_copy io) c1;
                         c3 = (if h_reason h = ''max-rollback-depth-exceeded''
                               then resetRollbackGuardState (io_del io) c2 else c2)
                     in (None, c3\<lparr>cl_halted := None\<rparr>)))
      | None \<Rightarrow>
          (case clearSyncHalt clearOk c0 of
             Inl e \<Rightarrow> (Some e, c)
           | Inr c1 \<Rightarrow> (None, dropPendingHaltCopy (io_del io) (io_copy io) c1)))"

end
