(* ===== verification/Rollback_Bound.thy ===== *)
theory Rollback_Bound
  imports Client_State
begin

text \<open>
  The rollback guard bounds the total depth of the rewinds a source can obtain, however they
  are split: in every run of applied blocks, reorg events, failed writes and restarts the tip
  stays within the limit of the highest tip the replica ever held.  A restart that cannot read the
  saved streak gives a source the limit once more; a retroactive rewind that a quorum admits beyond
  the limit is outside the bound.
\<close>

section \<open>Runs\<close>

text \<open>A reorg that is unwound beyond the limit: a retroactive rewind that passes its own admission.\<close>

definition admitted_deep :: "reorg_event \<Rightarrow> reorg_report list option \<Rightarrow> client \<Rightarrow> bool" where
  "admitted_deep event reports c \<longleftrightarrow>
     (let (depth, g) = depthFor (case cl_lastApplied c of None \<Rightarrow> 0 | Some t \<Rightarrow> t) (re_block event) (cl_guard c) in
      depth > g_max g \<and>
      (case retroactiveReorgAdmission (c\<lparr>cl_guard := g\<rparr>) event depth (case reports of None \<Rightarrow> [] | Some rs \<Rightarrow> rs) of
         Inl _ \<Rightarrow> False | Inr (admit, _) \<Rightarrow> admit))"

text \<open>\<open>rollback_run m M f c\<close>: the client \<open>c\<close> is reached under the limit \<open>m\<close>, \<open>M\<close> is the highest tip so far, and \<open>f\<close>
  restarts could not read the saved streak.  A restart keeps the tables and starts from a new guard that loads the saved
  streak; the read is fail-soft.\<close>

inductive rollback_run :: "int \<Rightarrow> int \<Rightarrow> nat \<Rightarrow> client \<Rightarrow> bool" for m where
  start: "cl_guard c = RollbackGuard m \<Longrightarrow> cl_lastApplied c = Some t \<Longrightarrow>
    cl_sync_state c (rollbackGuardStateKey c) = None \<Longrightarrow> rollback_run m t 0 c"
| block: "rollback_run m M f c \<Longrightarrow> cl_lastApplied c = Some t \<Longrightarrow>
    rollback_run m (max M (t + 1)) f (c\<lparr>cl_lastApplied := Some (t + 1), cl_rows := rows\<rparr>)"
| reorg: "rollback_run m M f c \<Longrightarrow> \<not> admitted_deep event reports c \<Longrightarrow>
    handleReorg hio io event reports c = Inr c' \<Longrightarrow> rollback_run m M f c'"
| restart: "rollback_run m M f c \<Longrightarrow>
    loadRollbackGuardState ok (c\<lparr>cl_guard := RollbackGuard m, cl_halted := None\<rparr>) = (LoadOk, c') \<Longrightarrow>
    rollback_run m M (if ok then f else Suc f) c'"

lemma plain_not_deep:
  "re_retroactive event = None \<Longrightarrow> \<not> admitted_deep event reports c"
  by (auto simp: admitted_deep_def retroactiveReorgAdmission_def admitRetroactiveRewind_def rbind_def Let_def
      split: sum.splits option.splits)

section \<open>Streaks\<close>

text \<open>A streak accounts for the highest tip \<open>M\<close> when the tip is \<open>t\<close>.\<close>

definition streak_ok :: "int \<Rightarrow> int \<Rightarrow> int \<Rightarrow> (int \<times> int) option \<Rightarrow> bool" where
  "streak_ok m M t s \<longleftrightarrow>
     (case s of None \<Rightarrow> M = t | Some (p, l) \<Rightarrow> p - l + 1 \<le> m \<and> l \<le> t + 1 \<and> M = max p t)"

definition guard_streak :: "guard \<Rightarrow> (int \<times> int) option" where
  "guard_streak g = (case (g_peak g, g_low g) of (Some p, Some l) \<Rightarrow> Some (p, l) | _ \<Rightarrow> None)"

definition guard_ok :: "int \<Rightarrow> int \<Rightarrow> int \<Rightarrow> guard \<Rightarrow> bool" where
  "guard_ok m M t g \<longleftrightarrow> g_max g = m \<and> (g_peak g = None \<longleftrightarrow> g_low g = None) \<and> streak_ok m M t (guard_streak g)"

definition saved_ok :: "int \<Rightarrow> int \<Rightarrow> int \<Rightarrow> sval option \<Rightarrow> bool" where
  "saved_ok m M t s \<longleftrightarrow>
     (case s of
        None \<Rightarrow> M = t
      | Some (SText _) \<Rightarrow> True
      | Some (SJson fs) \<Rightarrow> (\<forall>p l. coherent_streak fs = Some (p, l) \<longrightarrow> streak_ok m M t (Some (p, l))))"

text \<open>\<open>N\<close> is the highest tip the guard in memory accounts for, \<open>S\<close> the one the saved streak accounts for.\<close>

definition bound_inv :: "int \<Rightarrow> int \<Rightarrow> int \<Rightarrow> client \<Rightarrow> bool" where
  "bound_inv m N S c \<longleftrightarrow> (\<exists>t. cl_lastApplied c = Some t \<and> guard_ok m N t (cl_guard c) \<and>
     saved_ok m S t (cl_sync_state c (rollbackGuardStateKey c)))"

lemma guard_okE:
  assumes "guard_ok m M t g"
  obtains "g_peak g = None" "g_low g = None" "M = t" "g_max g = m"
  | p l where "g_peak g = Some p" "g_low g = Some l" "p - l + 1 \<le> m" "l \<le> t + 1" "M = max p t" "g_max g = m"
  using assms unfolding guard_ok_def streak_ok_def guard_streak_def
  by (cases "g_peak g"; cases "g_low g") auto

lemma streak_advance: "streak_ok m M t s \<Longrightarrow> streak_ok m (max M (t + 1)) (t + 1) s"
  by (auto simp: streak_ok_def split: option.splits)

lemma guard_advance: "guard_ok m M t g \<Longrightarrow> guard_ok m (max M (t + 1)) (t + 1) g"
  by (simp add: guard_ok_def streak_advance)

lemma saved_advance: "saved_ok m M t s \<Longrightarrow> saved_ok m (max M (t + 1)) (t + 1) s"
  by (auto simp: saved_ok_def streak_advance split: option.splits sval.splits)

lemma expire_ok:
  assumes "guard_ok m M t g"
  shows "guard_ok m M t (expire t g)" and "g_max (expire t g) = m"
    and "g_peak (expire t g) = None \<Longrightarrow> M = t"
    and "g_peak (expire t g) = Some p \<Longrightarrow> M = max p t \<and> t < p"
  using assms
  by (auto elim!: guard_okE simp: expire_def reset_def guard_ok_def streak_ok_def guard_streak_def
      split: if_splits)

lemma record_ok:
  assumes g: "guard_ok m M t g" and target: "b \<le> t" and d: "fst (depthFor t b g) \<le> m"
  shows "guard_ok m M t (recordRollback t b g)" and "guard_ok m M (b - 1) (recordRollback t b g)"
proof -
  note e = expire_ok [OF g]
  from e(1) show "guard_ok m M t (recordRollback t b g)" "guard_ok m M (b - 1) (recordRollback t b g)"
    using target d e(3,4)
    by (auto elim!: guard_okE simp: recordRollback_def depthFor_def Let_def guard_ok_def streak_ok_def guard_streak_def)
qed

lemma expire_idem: "expire t (expire t g) = expire t g"
  by (simp add: expire_def reset_def split: option.splits)

lemma depthFor_expire: "fst (depthFor t b (expire t g)) = fst (depthFor t b g)"
  "recordRollback t b (expire t g) = recordRollback t b g"
  by (simp_all add: depthFor_def recordRollback_def expire_idem Let_def)

lemma safe_integer_JInt: "safe_integer (js_opt x) = Some n \<Longrightarrow> x = Some n"
  by (auto simp: safe_integer_def js_opt_def JInt_def split: option.splits if_splits)

lemma coherent_toState: "coherent_streak (toState g) = Some (p, l) \<Longrightarrow> guard_streak g = Some (p, l)"
  by (auto simp: coherent_streak_def toState_def own_def guard_streak_def split: option.splits if_splits
      dest!: safe_integer_JInt)

lemma saved_toState: "guard_ok m M t g \<Longrightarrow> saved_ok m M t (Some (SJson (toState g)))"
  by (auto simp: saved_ok_def guard_ok_def dest!: coherent_toState)

section \<open>Writes to other keys\<close>

lemma guard_key_differs [simp]:
  "rollbackGuardStateKey c \<noteq> pendingHaltKey c'" "rollbackGuardStateKey c \<noteq> verifiedTipKey c'"
  by (simp_all add: rollbackGuardStateKey_def pendingHaltKey_def verifiedTipKey_def)

text \<open>What the bound depends on of the client.\<close>

definition bound_view :: "client \<Rightarrow> int option \<times> guard \<times> sval option \<times> string" where
  "bound_view c = (cl_lastApplied c, cl_guard c, cl_sync_state c (rollbackGuardStateKey c), cl_dbType c)"

lemma bound_view_inv: "bound_view c' = bound_view c \<Longrightarrow> bound_inv m N S c' = bound_inv m N S c"
  by (simp add: bound_view_def bound_inv_def)

lemma view_haltOnDivergence [simp]: "bound_view (haltOnDivergence io b ms ss r c) = bound_view c"
proof -
  have "bound_view (persistHalt io h c) = bound_view c" for h c
    using guard_key_differs
    by (auto simp: persistHalt_def recordHalt_def clearPendingHaltCopy_def dropPendingHaltCopy_def
        writePendingHaltCopy_def deleteSyncState_def setSyncState_def bound_view_def Let_def
        rollbackGuardStateKey_def pendingHaltKey_def split: option.splits)
  moreover have "bound_view (c\<lparr>cl_halted := h\<rparr>) = bound_view c" for h
    by (simp add: bound_view_def rollbackGuardStateKey_def)
  ultimately show ?thesis by (simp add: haltOnDivergence_def Let_def)
qed

lemma view_lowerVerifiedTip: "bound_view (snd (lowerVerifiedTip a b n c)) = bound_view c"
  by (auto simp: lowerVerifiedTip_def loadVerifiedTip_def getSyncState_def setSyncState_def bumpRowGeneration_def
      bound_view_def Let_def rollbackGuardStateKey_def verifiedTipKey_def split: marker.splits)

lemma view_endRowRemoval [simp]: "bound_view (endRowRemoval c) = bound_view c"
  by (simp add: endRowRemoval_def bumpRowGeneration_def bound_view_def rollbackGuardStateKey_def)

lemma view_beginRowRemoval: "bound_view (snd (beginRowRemoval a b n c)) = bound_view c"
proof (cases n)
  case None
  then show ?thesis
    by (simp add: beginRowRemoval_def bumpRowGeneration_def bound_view_def rollbackGuardStateKey_def Let_def)
next
  case (Some k)
  let ?c = "(bumpRowGeneration c)\<lparr>cl_removals := cl_removals c + 1\<rparr>"
  obtain e c2 where l: "lowerVerifiedTip a b k ?c = (e, c2)" by fastforce
  with view_lowerVerifiedTip [of a b k ?c] have "bound_view c2 = bound_view ?c" by simp
  also have "\<dots> = bound_view c"
    by (simp add: bumpRowGeneration_def bound_view_def rollbackGuardStateKey_def)
  finally show ?thesis using Some l by (cases e) (simp_all add: beginRowRemoval_def Let_def)
qed

section \<open>The bound\<close>

text \<open>An unwind keeps what the guard accounts for, and what it saves accounts for the same.\<close>

lemma applyReorgRollback_inv:
  assumes inv: "bound_inv m N S c" and tip: "cl_lastApplied c = Some t" and le: "re_block ev \<le> t"
    and d: "fst (depthFor t (re_block ev) (cl_guard c)) \<le> m"
  shows "\<exists>S' \<in> {S, N}. bound_inv m N S' (snd (applyReorgRollback io ev c))"
proof -
  obtain e c1 where b: "beginRowRemoval (rb_load io) (rb_lower io) (Some (re_block ev - 1)) c = (e, c1)" by fastforce
  with view_beginRowRemoval [of "rb_load io" "rb_lower io" "Some (re_block ev - 1)" c]
  have v: "bound_view c1 = bound_view c" by simp
  then have c1: "cl_lastApplied c1 = Some t" "cl_guard c1 = cl_guard c" "cl_dbType c1 = cl_dbType c"
      "cl_sync_state c1 (rollbackGuardStateKey c1) = cl_sync_state c (rollbackGuardStateKey c)"
    using tip by (simp_all add: bound_view_def)
  have g: "guard_ok m N t (cl_guard c)" and s: "saved_ok m S t (cl_sync_state c (rollbackGuardStateKey c))"
    using inv tip by (simp_all add: bound_inv_def)
  let ?g = "recordRollback t (re_block ev) (cl_guard c)"
  have rec: "guard_ok m N t ?g" "guard_ok m N (re_block ev - 1) ?g" by (rule record_ok [OF g le d])+
  show ?thesis
  proof (cases e)
    case (Some err)
    then show ?thesis using b bound_view_inv [OF v] inv by (simp add: applyReorgRollback_def)
  next
    case None
    let ?c2 = "c1\<lparr>cl_guard := ?g\<rparr>"
    have two: "bound_inv m N S ?c2"
      using c1 rec(1) s by (simp add: bound_inv_def rollbackGuardStateKey_def)
    let ?c3 = "?c2\<lparr>cl_sync_state := (cl_sync_state ?c2)(rollbackGuardStateKey ?c2 \<mapsto> SJson (toState ?g))\<rparr>"
    have three: "bound_inv m N N ?c3"
      using c1 rec(1) by (simp add: bound_inv_def rollbackGuardStateKey_def saved_toState)
    have four: "bound_inv m N N ((endRowRemoval (?c3\<lparr>cl_rows := rows\<rparr>))\<lparr>cl_lastApplied := Some (re_block ev - 1)\<rparr>)" for rows
      using rec(2)
      by (simp add: bound_inv_def rollbackGuardStateKey_def saved_toState endRowRemoval_def bumpRowGeneration_def)
    have p: "persistRollbackGuardState (rb_save io) ?c2 =
        (if rb_save io then Inr ?c3 else Inl ''sync_state write failed'')"
      by (simp add: persistRollbackGuardState_def setSyncState_def)
    show ?thesis
      using None b c1(1,2) two three four
      by (simp add: applyReorgRollback_def Let_def p bound_view_inv [OF view_endRowRemoval])
  qed
qed

text \<open>Beyond the limit the reorg is left for more votes or halts.\<close>

lemma handleReorg_refused:
  assumes step: "handleReorg hio io ev reports c = Inr c'" and "cl_halted c = None" "cl_lastApplied c = Some t" "re_block ev \<le> t"
    and dep: "depthFor t (re_block ev) (cl_guard c) = (d, g)" "g_max g < d" and shallow: "\<not> admitted_deep ev reports c"
  shows "bound_view c' = bound_view (c\<lparr>cl_guard := g\<rparr>)"
proof -
  have "\<not> admit" if "retroactiveReorgAdmission (c\<lparr>cl_guard := g\<rparr>) ev d (case reports of None \<Rightarrow> [] | Some rs \<Rightarrow> rs) = Inr (admit, reason)"
    for admit reason using shallow that dep assms(3) by (auto simp: admitted_deep_def)
  then show ?thesis
    using step assms(2-4) dep by (auto simp: handleReorg_def Let_def rbind_Inr_iff split: if_splits)
qed

lemma handleReorg_inv:
  assumes inv: "bound_inv m N S c" and shallow: "\<not> admitted_deep ev reports c"
    and step: "handleReorg hio io ev reports c = Inr c'"
  shows "\<exists>S' \<in> {S, N}. bound_inv m N S' c'"
proof -
  obtain t where t: "cl_lastApplied c = Some t" and g: "guard_ok m N t (cl_guard c)"
    and s: "saved_ok m S t (cl_sync_state c (rollbackGuardStateKey c))"
    using inv by (auto simp: bound_inv_def)
  let ?b = "re_block ev" and ?g = "expire t (cl_guard c)"
  let ?c1 = "c\<lparr>cl_guard := ?g\<rparr>"
  have one: "bound_inv m N S ?c1"
    using t expire_ok(1) [OF g] s by (simp add: bound_inv_def rollbackGuardStateKey_def)
  obtain d where dep: "depthFor t ?b (cl_guard c) = (d, ?g)" by (simp add: depthFor_def Let_def)
  have max: "g_max ?g = m" by (rule expire_ok(2) [OF g])
  consider "cl_halted c \<noteq> None \<or> t < ?b" | "cl_halted c = None" "?b \<le> t" "d \<le> m" | "cl_halted c = None" "?b \<le> t" "m < d"
    by linarith
  then show ?thesis
  proof cases
    case 1
    then have "c' = c" using step t by (cases "cl_halted c") (simp_all add: handleReorg_def)
    then show ?thesis using inv by simp
  next
    case 2
    obtain e c2 where a: "applyReorgRollback io ev ?c1 = (e, c2)" by fastforce
    have "\<exists>S' \<in> {S, N}. bound_inv m N S' (snd (applyReorgRollback io ev ?c1))"
      using applyReorgRollback_inv [OF one, of t ev] t 2 dep by (simp add: depthFor_expire)
    then have "\<exists>S' \<in> {S, N}. bound_inv m N S' c2" using a by simp
    moreover have "c' = (case e of None \<Rightarrow> c2 | Some _ \<Rightarrow> haltOnDivergence hio ?b [''reorg_rollback_failed'']
        (take 1 (cl_sources c2)) ''reorg-rollback-failed'' c2)"
      using step t 2 dep a max by (cases e) (simp_all add: handleReorg_def Let_def)
    ultimately show ?thesis by (cases e) (simp_all add: bound_view_inv [OF view_haltOnDivergence])
  next
    case 3
    then have "bound_view c' = bound_view ?c1"
      using handleReorg_refused [OF step _ t _ dep _ shallow] max by simp
    then show ?thesis using bound_view_inv [of c' ?c1 m N S] one by blast
  qed
qed

text \<open>A restart goes on from the saved streak, or, when it cannot be read, from the tip.\<close>

lemma load_inv:
  assumes "bound_inv m N S c"
    and "loadRollbackGuardState True (c\<lparr>cl_guard := RollbackGuard m, cl_halted := None\<rparr>) = (LoadOk, c')"
  shows "bound_inv m S S c'"
  using assms
  by (auto simp: loadRollbackGuardState_def getSyncState_def bound_inv_def rollbackGuardStateKey_def RollbackGuard_def
      saved_ok_def guard_ok_def guard_streak_def streak_ok_def split: option.splits sval.splits)

lemma unread_inv:
  assumes "bound_inv m N S c" "cl_lastApplied c = Some t"
    and "loadRollbackGuardState False (c\<lparr>cl_guard := RollbackGuard m, cl_halted := None\<rparr>) = (LoadOk, c')"
  shows "bound_inv m t S c'"
proof -
  have "c' = c\<lparr>cl_guard := RollbackGuard m, cl_halted := None\<rparr>"
    using assms(3) by (simp add: loadRollbackGuardState_def getSyncState_def)
  then show ?thesis
    using assms(1,2) by (simp add: bound_inv_def rollbackGuardStateKey_def RollbackGuard_def guard_ok_def guard_streak_def streak_ok_def)
qed

lemma bound_inv_near:
  assumes "bound_inv m N S c" "0 \<le> m" "cl_lastApplied c = Some t"
  shows "N - m \<le> t" "t \<le> N"
  using assms by (auto simp: bound_inv_def elim!: guard_okE)

definition run_inv :: "int \<Rightarrow> int \<Rightarrow> nat \<Rightarrow> client \<Rightarrow> bool" where
  "run_inv m M f c \<longleftrightarrow> (\<exists>N S. bound_inv m N S c \<and> N \<le> M \<and> S \<le> M \<and> M - N \<le> m * int f \<and> M - S \<le> m * int f)"

lemma run_invI: "bound_inv m N S c \<Longrightarrow> N \<le> M \<Longrightarrow> S \<le> M \<Longrightarrow> M - N \<le> m * int f \<Longrightarrow> M - S \<le> m * int f \<Longrightarrow> run_inv m M f c"
  unfolding run_inv_def by blast

lemma run_inv_restart:
  assumes inv: "run_inv m M f c" and m: "0 \<le> m"
    and load: "loadRollbackGuardState ok (c\<lparr>cl_guard := RollbackGuard m, cl_halted := None\<rparr>) = (LoadOk, c')"
  shows "run_inv m M (if ok then f else Suc f) c'"
proof -
  obtain N S where b: "bound_inv m N S c" "N \<le> M" "S \<le> M" "M - N \<le> m * int f" "M - S \<le> m * int f"
    using inv unfolding run_inv_def by blast
  obtain t where t: "cl_lastApplied c = Some t" using b(1) by (auto simp: bound_inv_def)
  note near = bound_inv_near [OF b(1) m t]
  show ?thesis
  proof (cases ok)
    case True
    then have "bound_inv m S S c'" using load_inv [OF b(1)] load by simp
    then show ?thesis using b True by (auto intro: run_invI)
  next
    case False
    then have "bound_inv m t S c'" using unread_inv [OF b(1) t] load by simp
    then show ?thesis using near b(2-5) m False by (intro run_invI [of m t S]) (auto simp: algebra_simps)
  qed
qed

lemma rollback_run_inv: "rollback_run m M f c \<Longrightarrow> 0 \<le> m \<Longrightarrow> run_inv m M f c"
proof (induction rule: rollback_run.induct)
  case (start c t)
  then have "bound_inv m t t c"
    by (simp add: bound_inv_def guard_ok_def guard_streak_def streak_ok_def saved_ok_def RollbackGuard_def)
  then show ?case by (rule run_invI) simp_all
next
  case (block M f c t rows)
  then obtain N S where b: "bound_inv m N S c" "N \<le> M" "S \<le> M" "M - N \<le> m * int f" "M - S \<le> m * int f"
    unfolding run_inv_def by blast
  let ?c = "c\<lparr>cl_lastApplied := Some (t + 1), cl_rows := rows\<rparr>"
  have "bound_inv m (max N (t + 1)) (max S (t + 1)) ?c"
    using b(1) block.hyps(2) by (auto simp: bound_inv_def rollbackGuardStateKey_def guard_advance saved_advance)
  moreover have "0 \<le> m * int f" using block.prems by simp
  ultimately show ?case using b(2-5) by (intro run_invI) auto
next
  case (reorg M f c ev reports hio io c')
  then obtain N S where b: "bound_inv m N S c" "N \<le> M" "S \<le> M" "M - N \<le> m * int f" "M - S \<le> m * int f"
    unfolding run_inv_def by blast
  then show ?case using handleReorg_inv [OF b(1) reorg.hyps(2,3)] by (auto intro: run_invI)
next
  case (restart M f c ok c')
  then show ?case by (blast intro: run_inv_restart)
qed

text \<open>(C21) Splitting a deep rewind does not evade the limit: whatever blocks are applied, whatever reorg events arrive,
  whichever of their database writes fail, and across restarts, the tip never falls more than the limit below the highest
  tip the replica ever held, plus the limit once more for every restart that could not read the saved streak.  The one
  kind of reorg left out is a retroactive rewind that its own admission (a cap and a quorum of reports) let through beyond
  the limit.\<close>

theorem rollback_depth_bounded:
  assumes "rollback_run m M f c" "0 \<le> m" "cl_lastApplied c = Some t"
  shows "M - m * (int f + 1) \<le> t \<and> t \<le> M"
proof -
  obtain N S where "bound_inv m N S c" "N \<le> M" "M - N \<le> m * int f"
    using rollback_run_inv [OF assms(1,2)] unfolding run_inv_def by blast
  then show ?thesis using bound_inv_near [OF _ assms(2,3), of N S] by (auto simp: algebra_simps)
qed

section \<open>Accepted and refused rewinds\<close>

definition io_clean :: "rollback_io \<Rightarrow> bool" where
  "io_clean io \<longleftrightarrow> rb_load io \<and> rb_lower io \<and> rb_save io \<and> rb_delete io"

lemma beginRowRemoval_clean: "fst (beginRowRemoval True True n c) = None"
  by (auto simp: beginRowRemoval_def lowerVerifiedTip_def loadVerifiedTip_def getSyncState_def setSyncState_def Let_def
      split: option.splits)

lemma beginRowRemoval_halted: "cl_halted (snd (beginRowRemoval a b n c)) = cl_halted c"
  "cl_rows (snd (beginRowRemoval a b n c)) = cl_rows c"
  by (auto simp: beginRowRemoval_def lowerVerifiedTip_def loadVerifiedTip_def getSyncState_def setSyncState_def Let_def
      endRowRemoval_def bumpRowGeneration_def split: option.splits marker.splits)

lemma handleReorg_accepts:
  assumes "io_clean io" "cl_halted c = None" "cl_lastApplied c = Some t" "re_block ev \<le> t"
    and "fst (depthFor t (re_block ev) (cl_guard c)) \<le> g_max (cl_guard c)"
  shows "\<exists>c'. handleReorg hio io ev reports c = Inr c' \<and> cl_lastApplied c' = Some (re_block ev - 1) \<and>
    cl_guard c' = recordRollback t (re_block ev) (cl_guard c) \<and> cl_halted c' = None \<and>
    cl_rows c' = filter (\<lambda>r. fst r < re_block ev) (cl_rows c)"
proof -
  let ?b = "re_block ev" and ?c1 = "c\<lparr>cl_guard := expire t (cl_guard c)\<rparr>"
  obtain d where dep: "depthFor t ?b (cl_guard c) = (d, expire t (cl_guard c))" by (simp add: depthFor_def Let_def)
  have max: "g_max (expire t (cl_guard c)) = g_max (cl_guard c)"
    by (simp add: expire_def reset_def split: option.splits)
  obtain c2 where b: "beginRowRemoval True True (Some (?b - 1)) ?c1 = (None, c2)"
    using beginRowRemoval_clean [of "Some (?b - 1)" ?c1] by (cases "beginRowRemoval True True (Some (?b - 1)) ?c1") auto
  from view_beginRowRemoval [of True True "Some (?b - 1)" ?c1] beginRowRemoval_halted [of True True "Some (?b - 1)" ?c1]
  have c2: "cl_lastApplied c2 = Some t" "cl_guard c2 = expire t (cl_guard c)" "cl_halted c2 = None" "cl_rows c2 = cl_rows c"
    using b assms(2,3) by (simp_all add: bound_view_def)
  let ?c3 = "c2\<lparr>cl_guard := recordRollback t ?b (cl_guard c2)\<rparr>"
  have "applyReorgRollback io ev ?c1 = (None,
      (endRowRemoval (?c3\<lparr>cl_sync_state := (cl_sync_state ?c3)(rollbackGuardStateKey ?c3 \<mapsto> SJson (toState (cl_guard ?c3))),
          cl_rows := filter (\<lambda>r. fst r < ?b) (cl_rows c2)\<rparr>))\<lparr>cl_lastApplied := Some (?b - 1)\<rparr>)"
    using assms(1) b c2(1)
    by (simp add: applyReorgRollback_def io_clean_def persistRollbackGuardState_def setSyncState_def Let_def)
  then show ?thesis
    using assms(2-5) dep max c2
    by (simp add: handleReorg_def Let_def endRowRemoval_def bumpRowGeneration_def depthFor_expire)
qed

lemma handleReorg_refuses:
  assumes "cl_halted c = None" "cl_lastApplied c = Some t" "re_block ev \<le> t" "re_retroactive ev = None"
    and "g_max (cl_guard c) < fst (depthFor t (re_block ev) (cl_guard c))"
    and "retroactiveCapBlocks (cl_coin c) (cl_capHours c) = Inr cap"
  shows "\<exists>c' h. handleReorg hio io ev reports c = Inr c' \<and> cl_lastApplied c' = Some t \<and>
    cl_halted c' = Some h \<and> h_reason h = ''max-rollback-depth-exceeded''"
proof -
  let ?b = "re_block ev" and ?c1 = "c\<lparr>cl_guard := expire t (cl_guard c)\<rparr>"
  obtain d where dep: "depthFor t ?b (cl_guard c) = (d, expire t (cl_guard c))" by (simp add: depthFor_def Let_def)
  have max: "g_max (expire t (cl_guard c)) = g_max (cl_guard c)"
    by (simp add: expire_def reset_def split: option.splits)
  let ?c' = "haltOnDivergence hio ?b [''rollback_depth''] (take 1 (cl_sources ?c1)) ''max-rollback-depth-exceeded'' ?c1"
  have "handleReorg hio io ev reports c = Inr ?c'"
    using assms dep max
    by (simp add: handleReorg_def Let_def retroactiveReorgAdmission_def admitRetroactiveRewind_def)
  moreover have "cl_lastApplied ?c' = Some t"
    using view_haltOnDivergence [of hio ?b] assms(2) by (simp add: bound_view_def)
  moreover have "cl_halted (persistHalt io' h x) = cl_halted x" for io' h x
    by (auto simp: persistHalt_def recordHalt_def clearPendingHaltCopy_def dropPendingHaltCopy_def
        writePendingHaltCopy_def deleteSyncState_def setSyncState_def Let_def split: option.splits)
  ultimately show ?thesis using assms(1) by (simp add: haltOnDivergence_def Let_def)
qed

definition demo_client :: client where
  "demo_client = \<lparr>cl_dbType = ''indexer'', cl_coin = ''BTC'', cl_verifyRecompute = True, cl_verifyStateHash = True,
     cl_batch = 500, cl_capHours = Fin 72, cl_quorum = 1, cl_stopping = False, cl_sources = [''s''],
     cl_lastApplied = Some 10, cl_bootstrapBase = None, cl_guard = RollbackGuard 3, cl_verified = At 10,
     cl_persisted = At 10, cl_generation = 0, cl_removals = 0, cl_halted = None, cl_haltDurable = True,
     cl_pendingCopy = False, cl_rows = [], cl_sync_state = Map.empty, cl_sync_halt = []\<rparr>"

definition all_io :: halt_io where
  "all_io = \<lparr>io_read = True, io_write = True, io_copy = True, io_del = True\<rparr>"

definition all_rb :: rollback_io where
  "all_rb = \<lparr>rb_load = True, rb_lower = True, rb_save = True, rb_delete = True\<rparr>"

text \<open>Two rewinds by one block each from tip 10 under limit 3.\<close>

lemma demo_run:
  "\<exists>c. rollback_run 3 10 0 c \<and> cl_lastApplied c = Some 7 \<and> cl_halted c = None \<and>
     cl_guard c = \<lparr>g_max = 3, g_peak = Some 10, g_low = Some 8\<rparr>"
proof -
  let ?e = "\<lambda>b. \<lparr>re_block = b, re_retroactive = None\<rparr>"
  have io: "io_clean all_rb" by (simp add: io_clean_def all_rb_def)
  have "rollback_run 3 10 0 demo_client" by (rule rollback_run.start) (simp_all add: demo_client_def)
  moreover have g: "fst (depthFor 10 9 (cl_guard demo_client)) = 2"
    "recordRollback 10 9 (cl_guard demo_client) = \<lparr>g_max = 3, g_peak = Some 10, g_low = Some 9\<rparr>"
    "fst (depthFor 8 8 \<lparr>g_max = 3, g_peak = Some 10, g_low = Some 9\<rparr>) = 3"
    "recordRollback 8 8 \<lparr>g_max = 3, g_peak = Some 10, g_low = Some 9\<rparr> = \<lparr>g_max = 3, g_peak = Some 10, g_low = Some 8\<rparr>"
    by code_simp+
  moreover obtain c1 where c1: "handleReorg all_io all_rb (?e 9) None demo_client = Inr c1"
      "cl_lastApplied c1 = Some 8" "cl_guard c1 = \<lparr>g_max = 3, g_peak = Some 10, g_low = Some 9\<rparr>" "cl_halted c1 = None"
    using handleReorg_accepts [OF io, of demo_client 10 "?e 9" all_io None] g
    by (auto simp: demo_client_def RollbackGuard_def)
  moreover obtain c2 where "handleReorg all_io all_rb (?e 8) None c1 = Inr c2"
      "cl_lastApplied c2 = Some 7" "cl_guard c2 = \<lparr>g_max = 3, g_peak = Some 10, g_low = Some 8\<rparr>" "cl_halted c2 = None"
    using handleReorg_accepts [OF io, of c1 8 "?e 8" all_io None] g c1 by auto
  ultimately show ?thesis
    using rollback_run.reorg [of 3 10 0 demo_client "?e 9" None all_io all_rb c1]
      rollback_run.reorg [of 3 10 0 c1 "?e 8" None all_io all_rb c2] by (auto simp: plain_not_deep)
qed

theorem rollback_depth_bounded_witness:
  "\<exists>c. rollback_run 3 10 0 c \<and> cl_lastApplied c = Some 7 \<and> 10 - 3 \<le> (7::int) \<and> (7::int) \<le> 10"
proof -
  obtain c where c: "rollback_run 3 10 0 c" "cl_lastApplied c = Some 7" using demo_run by blast
  then show ?thesis using rollback_depth_bounded [OF c(1) _ c(2)] by auto
qed

text \<open>The saved streak is read fail-soft: a read fault is reported as a missing row, so the status
  \<^verbatim>\<open>'unreadable'\<close> that holds startup is never produced and the restart begins with an empty streak.\<close>

lemma unreadable_streak_is_forgotten:
  "loadRollbackGuardState False c = (LoadOk, c)" "fst (loadRollbackGuardState ok c) \<noteq> LoadUnreadable"
  by (auto simp: loadRollbackGuardState_def getSyncState_def split: option.splits sval.splits)

end
