(* ===== verification/Verified_Tip.thy ===== *)
theory Verified_Tip
  imports Rollback_Bound
begin

text \<open>
  The verified-tip marker never vouches for a block that was not recomputed.  Walks run beside
  live blocks, reorg rollbacks and halts, which may change the rows while a recompute is
  awaited; the row generation makes a walk drop what it read across such a change.  A walk compares
  the recompute with the stored header row, a live block with the hashes its event carried.  A block
  installed by a bootstrap is trusted as the code trusts it and is left out of the claim.
\<close>

section \<open>Soundness of the marker\<close>

definition durable_marker :: "client \<Rightarrow> int option" where
  "durable_marker c = parseHeight (cl_sync_state c (verifiedTipKey c))"

text \<open>The hashes the live events of each height carried.\<close>

type_synonym delivered = "int \<Rightarrow> (string option \<times> string option \<times> string option) set"

text \<open>A block is clean when it recomputes to its stored hashes, or to those of a live event of its height: the live path compares
  with the event and does not read the header row it stored.\<close>

definition clean_row :: "delivered \<Rightarrow> client \<Rightarrow> int \<Rightarrow> committed_block \<Rightarrow> bool" where
  "clean_row E c h b \<longleftrightarrow> (\<exists>hs \<in> insert (cb_hashes b) (E h). verifyRecompute c h hs (cb_computed b) = Inr [])"

text \<open>The height the client vouches for: the marker in memory, or the stored one until it is read.\<close>

definition eff_marker :: "client \<Rightarrow> int option" where
  "eff_marker c = (case cl_verified c of At v \<Rightarrow> Some v | Unread \<Rightarrow> durable_marker c | Absent \<Rightarrow> None)"

definition top_le :: "client \<Rightarrow> int \<Rightarrow> bool" where
  "top_le c n \<longleftrightarrow> (\<forall>r \<in> set (cl_rows c). fst r \<le> n) \<and> (\<forall>t. cl_lastApplied c = Some t \<longrightarrow> t \<le> n)"

text \<open>The rows have one block per height and none below the join floor; a marker is stored, it does
  not exceed the one in memory, nor that the highest block the client knows; and every block at
  or below it that was not installed on trust is clean.\<close>

definition rows_inv :: "client \<Rightarrow> bool" where
  "rows_inv c \<longleftrightarrow> tracksVerifiedTip c \<and> distinct (map fst (cl_rows c)) \<and>
     (\<forall>x. cl_bootstrapBase c = Some x \<longrightarrow> (\<forall>r \<in> set (cl_rows c). x \<le> fst r))"

definition clean_upto :: "delivered \<Rightarrow> client \<Rightarrow> int \<Rightarrow> bool" where
  "clean_upto E c v \<longleftrightarrow> (\<forall>h b. (h, b) \<in> set (cl_rows c) \<longrightarrow> \<not> cb_trusted b \<longrightarrow> h \<le> v \<longrightarrow> clean_row E c h b)"

definition marker_at :: "client \<Rightarrow> int \<Rightarrow> bool" where
  "marker_at c v \<longleftrightarrow> eff_marker c = Some v \<and> (\<exists>d. durable_marker c = Some d \<and> d \<le> v)"

definition marker_inv :: "delivered \<Rightarrow> client \<Rightarrow> bool" where
  "marker_inv E c \<longleftrightarrow> rows_inv c \<and> (\<exists>v. marker_at c v \<and> (\<forall>n. top_le c n \<longrightarrow> v \<le> n) \<and> clean_upto E c v)"

section \<open>The other tasks\<close>

text \<open>What runs beside a walk: the commit of a live block or of a range of blocks, a live block on top of the verified
  tip that is finished because what is stored at its height recomputes to the hashes its event carried, a reorg rollback,
  a removal opened or closed, a halt, a new last applied height.\<close>

definition recomputes_to :: "client \<Rightarrow> int \<Rightarrow> string option \<times> string option \<times> string option \<Rightarrow> bool" where
  "recomputes_to c h hs \<longleftrightarrow> list_all (\<lambda>(k, b). k = h \<longrightarrow> verifyRecompute c h hs (cb_computed b) = Inr []) (cl_rows c)"

definition append_rows :: "(int \<times> committed_block) list \<Rightarrow> client \<Rightarrow> client" where
  "append_rows rs c = c\<lparr>cl_rows := cl_rows c @ rs\<rparr>"

definition above_floor :: "client \<Rightarrow> (int \<times> committed_block) list \<Rightarrow> bool" where
  "above_floor c rs \<longleftrightarrow> (\<forall>x. cl_bootstrapBase c = Some x \<longrightarrow> (\<forall>r \<in> set rs. x \<le> fst r))"

inductive task :: "delivered \<Rightarrow> client \<Rightarrow> client \<Rightarrow> bool" for E where
  commit: "top_le c n \<Longrightarrow> \<forall>r \<in> set rs. n < fst r \<Longrightarrow> distinct (map fst rs) \<Longrightarrow> above_floor c rs \<Longrightarrow>
    task E c (append_rows rs c)"
| live: "verifiedThroughLastApplied c \<Longrightarrow> cl_lastApplied c = Some t \<Longrightarrow> hs \<in> E (t + 1) \<Longrightarrow> recomputes_to c (t + 1) hs \<Longrightarrow>
    task E c (advanceVerifiedTip ok (t + 1) (Some (cl_generation c)) (c\<lparr>cl_lastApplied := Some (t + 1)\<rparr>))"
| applied: "r \<in> set (cl_rows c) \<Longrightarrow> top_le c (fst r) \<Longrightarrow> task E c (c\<lparr>cl_lastApplied := Some (fst r)\<rparr>)"
| reorg: "task E c (snd (applyReorgRollback io ev c))"
| open_removal: "task E c (snd (beginRowRemoval loadOk writeOk n c))"
| close_removal: "task E c (endRowRemoval c)"
| halt: "task E c (haltOnDivergence io b ms ss reason c)"

text \<open>The part of the client the claim reads, which most operations leave alone.\<close>

definition same_view :: "client \<Rightarrow> client \<Rightarrow> bool" where
  "same_view c c' \<longleftrightarrow> cl_rows c' = cl_rows c \<and> cl_lastApplied c' = cl_lastApplied c \<and>
     cl_bootstrapBase c' = cl_bootstrapBase c \<and> cl_dbType c' = cl_dbType c \<and>
     cl_verifyRecompute c' = cl_verifyRecompute c"

lemma same_view_simps:
  assumes "same_view c c'"
  shows "clean_row E c' h b = clean_row E c h b" "top_le c' n = top_le c n" "rows_inv c' = rows_inv c"
    "clean_upto E c' v = clean_upto E c v" "verifiedTipKey c' = verifiedTipKey c"
  using assms
  by (simp_all add: same_view_def clean_row_def verifyRecompute_def top_le_def rows_inv_def clean_upto_def
      tracksVerifiedTip_def verifiedTipKey_def)

lemma clean_upto_le: "clean_upto E c v \<Longrightarrow> w \<le> v \<Longrightarrow> clean_upto E c w"
  by (force simp: clean_upto_def)

text \<open>An operation that keeps the rows and does not raise the marker keeps the claim.\<close>

lemma marker_inv_view:
  assumes "marker_inv E c" "same_view c c'" "marker_at c v" "marker_at c' w" "w \<le> v"
  shows "marker_inv E c'"
proof -
  have "(\<forall>n. top_le c n \<longrightarrow> v \<le> n) \<and> clean_upto E c v \<and> rows_inv c"
    using assms(1,3) by (auto simp: marker_inv_def marker_at_def)
  then show ?thesis
    using assms(2,4,5) clean_upto_le unfolding marker_inv_def same_view_simps [OF assms(2)] by fastforce
qed

lemma marker_inv_cases:
  assumes "marker_inv E c"
  obtains v where "marker_at c v" "\<forall>n. top_le c n \<longrightarrow> v \<le> n" "clean_upto E c v" "rows_inv c"
  using assms by (auto simp: marker_inv_def)

lemma parseHeight_int_str [simp]: "parseHeight (Some (SText (int_str n))) = Some n"
proof -
  have "int_str n \<noteq> []" by (simp add: int_str_def)
  then show ?thesis by (simp add: parseHeight_def number_text_int_str num_int_def)
qed

lemma marker_keys [simp]: "verifiedTipKey c \<noteq> pendingHaltKey c'" "verifiedTipKey c \<noteq> rollbackGuardStateKey c'"
  by (simp_all add: verifiedTipKey_def pendingHaltKey_def rollbackGuardStateKey_def)

lemma marker_at_cong:
  "cl_verified c' = cl_verified c \<Longrightarrow> cl_sync_state c' (verifiedTipKey c') = cl_sync_state c (verifiedTipKey c) \<Longrightarrow>
     marker_at c' v = marker_at c v"
proof -
  assume a: "cl_verified c' = cl_verified c" "cl_sync_state c' (verifiedTipKey c') = cl_sync_state c (verifiedTipKey c)"
  then have "durable_marker c' = durable_marker c" by (simp add: durable_marker_def)
  with a(1) show ?thesis by (cases "cl_verified c") (simp_all add: marker_at_def eff_marker_def)
qed

subsection \<open>Halts\<close>

lemma persistHalt_frame:
  "same_view c (persistHalt io h c)" "cl_verified (persistHalt io h c) = cl_verified c"
  "cl_sync_state (persistHalt io h c) (verifiedTipKey x) = cl_sync_state c (verifiedTipKey x)"
  "cl_generation (persistHalt io h c) = cl_generation c" "cl_removals (persistHalt io h c) = cl_removals c"
  "cl_halted (persistHalt io h c) = cl_halted c"
  by (auto simp: persistHalt_def recordHalt_def clearPendingHaltCopy_def dropPendingHaltCopy_def same_view_def
      writePendingHaltCopy_def deleteSyncState_def setSyncState_def Let_def split: option.splits)

lemma halt_frame:
  "same_view c (haltOnDivergence io b ms ss reason c)"
  "cl_verified (haltOnDivergence io b ms ss reason c) = cl_verified c"
  "cl_sync_state (haltOnDivergence io b ms ss reason c) (verifiedTipKey x) = cl_sync_state c (verifiedTipKey x)"
  "cl_generation (haltOnDivergence io b ms ss reason c) = cl_generation c"
  "cl_removals (haltOnDivergence io b ms ss reason c) = cl_removals c"
  unfolding haltOnDivergence_def using persistHalt_frame
  by (simp_all add: Let_def same_view_def)

lemma halt_inv:
  assumes "marker_inv E c"
  shows "marker_inv E (haltOnDivergence io b ms ss reason c)"
proof -
  from assms obtain v where v: "marker_at c v" by (rule marker_inv_cases)
  have "marker_at (haltOnDivergence io b ms ss reason c) v"
    using v marker_at_cong [of "haltOnDivergence io b ms ss reason c" c v] halt_frame
      same_view_simps(5) [OF halt_frame(1)] by metis
  then show ?thesis using marker_inv_view [OF assms halt_frame(1) v] by blast
qed

subsection \<open>Removals\<close>

lemma bump_frame: "same_view c (bumpRowGeneration c)" "marker_at (bumpRowGeneration c) v = marker_at c v"
proof -
  show "marker_at (bumpRowGeneration c) v = marker_at c v"
    by (rule marker_at_cong) (simp_all add: bumpRowGeneration_def verifiedTipKey_def)
qed (simp add: bumpRowGeneration_def same_view_def)

lemma endRowRemoval_frame: "same_view c (endRowRemoval c)" "marker_at (endRowRemoval c) v = marker_at c v"
  "cl_generation (endRowRemoval c) = cl_generation c + 1"
proof -
  show "marker_at (endRowRemoval c) v = marker_at c v"
    by (rule marker_at_cong) (simp_all add: endRowRemoval_def bumpRowGeneration_def verifiedTipKey_def)
qed (simp_all add: endRowRemoval_def bumpRowGeneration_def same_view_def)

text \<open>A lowering keeps the rows, never raises the marker, and on success leaves it at or below its argument.\<close>

lemma lowerVerifiedTip_frame:
  assumes "tracksVerifiedTip c" "marker_at c v" "lowerVerifiedTip loadOk writeOk n c = (e, c')"
  shows "same_view c c'" "cl_generation c' = cl_generation c + 1" "cl_removals c' = cl_removals c"
    "\<exists>w \<le> v. marker_at c' w \<and> (e = None \<longrightarrow> w \<le> n)"
proof -
  obtain d where d: "durable_marker c = Some d" "d \<le> v" "eff_marker c = Some v" using assms(2) by (auto simp: marker_at_def)
  let ?c1 = "bumpRowGeneration c"
  have key: "verifiedTipKey ?c1 = verifiedTipKey c" by (simp add: bumpRowGeneration_def verifiedTipKey_def)
  let ?load = "if cl_verified ?c1 = Unread then loadVerifiedTip loadOk ?c1 else Inr ?c1"
  have load: "?load = Inl err \<or> (\<exists>c2. ?load = Inr c2 \<and> same_view c c2 \<and> cl_verified c2 = At v \<and>
      durable_marker c2 = Some d \<and> cl_generation c2 = cl_generation c + 1 \<and> cl_removals c2 = cl_removals c)"
    if "err = ''sync_state read failed''" for err
  proof (cases "cl_verified c")
    case Unread
    then have "v = d" using d by (simp add: eff_marker_def)
    then show ?thesis
      using Unread d that key
      by (auto simp: loadVerifiedTip_def getSyncState_def bumpRowGeneration_def same_view_def durable_marker_def
          marker_of_def verifiedTipKey_def)
  next
    case (At w)
    then show ?thesis
      using d by (simp add: eff_marker_def bumpRowGeneration_def same_view_def durable_marker_def verifiedTipKey_def)
  qed (use d in \<open>simp add: eff_marker_def\<close>)
  from load [OF refl] have "same_view c c' \<and> cl_generation c' = cl_generation c + 1 \<and> cl_removals c' = cl_removals c \<and>
      (\<exists>w \<le> v. marker_at c' w \<and> (e = None \<longrightarrow> w \<le> n))"
  proof (elim disjE exE conjE)
    assume l: "?load = Inl ''sync_state read failed''"
    then have "c' = ?c1" "e \<noteq> None" using assms(1,3) by (auto simp: lowerVerifiedTip_def Let_def)
    then show ?thesis
      using bump_frame assms(2) by (auto simp: bumpRowGeneration_def)
  next
    fix c2 assume l: "?load = Inr c2" and c2: "same_view c c2" "cl_verified c2 = At v" "durable_marker c2 = Some d"
      "cl_generation c2 = cl_generation c + 1" "cl_removals c2 = cl_removals c"
    have m2: "marker_at c2 v" using c2 d by (simp add: marker_at_def eff_marker_def)
    show ?thesis
    proof (cases "v \<le> n \<or> \<not> writeOk")
      case True
      then have "c' = c2" "e = None \<longrightarrow> v \<le> n"
        using assms(1,3) l c2 by (auto simp: lowerVerifiedTip_def Let_def setSyncState_def split: if_splits)
      then show ?thesis using c2 m2 by auto
    next
      case False
      then have c': "c' = c2\<lparr>cl_sync_state := (cl_sync_state c2)(verifiedTipKey c2 \<mapsto> SText (int_str n)),
          cl_verified := At n, cl_persisted := At n\<rparr>" "e = None"
        using assms(1,3) l c2 by (auto simp: lowerVerifiedTip_def Let_def setSyncState_def)
      have "marker_at c' n" by (simp add: c' marker_at_def eff_marker_def durable_marker_def verifiedTipKey_def)
      moreover have "same_view c c'" "cl_generation c' = cl_generation c + 1" "cl_removals c' = cl_removals c"
        using c2 c' by (simp_all add: same_view_def)
      ultimately show ?thesis using False by (auto intro!: exI [of _ n])
    qed
  qed
  then show "same_view c c'" "cl_generation c' = cl_generation c + 1" "cl_removals c' = cl_removals c"
    "\<exists>w \<le> v. marker_at c' w \<and> (e = None \<longrightarrow> w \<le> n)" by blast+
qed

lemma beginRowRemoval_frame:
  assumes "tracksVerifiedTip c" "marker_at c v" "beginRowRemoval loadOk writeOk n c = (e, c')"
  shows "same_view c c' \<and> cl_generation c < cl_generation c' \<and>
    (\<exists>w \<le> v. marker_at c' w \<and> (e = None \<longrightarrow> (\<forall>m. n = Some m \<longrightarrow> w \<le> m)))"
proof -
  let ?c1 = "(bumpRowGeneration c)\<lparr>cl_removals := cl_removals c + 1\<rparr>"
  have v1: "same_view c ?c1" by (simp add: bumpRowGeneration_def same_view_def)
  have m1: "marker_at ?c1 v"
    using assms(2) marker_at_cong [of ?c1 c v] by (simp add: bumpRowGeneration_def verifiedTipKey_def)
  have g1: "cl_generation ?c1 = cl_generation c + 1" by (simp add: bumpRowGeneration_def)
  show ?thesis
  proof (cases n)
    case None
    then have "c' = ?c1" using assms(3) by (auto simp: beginRowRemoval_def Let_def)
    then show ?thesis using v1 m1 g1 None by auto
  next
    case (Some m)
    obtain e2 c2 where low: "lowerVerifiedTip loadOk writeOk m ?c1 = (e2, c2)" by fastforce
    have t1: "tracksVerifiedTip ?c1" using assms(1) by (simp add: tracksVerifiedTip_def bumpRowGeneration_def)
    note f = lowerVerifiedTip_frame [OF t1 m1 low]
    have "same_view c c2" using v1 f(1) by (simp add: same_view_def)
    then show ?thesis
      using f g1 low assms(3) Some endRowRemoval_frame
      by (cases e2) (auto simp: beginRowRemoval_def Let_def same_view_def)
  qed
qed

lemma applyReorg_cases:
  assumes "tracksVerifiedTip c" "marker_at c v"
  obtains c1 w where "same_view c c1" "cl_generation c < cl_generation c1" "w \<le> v" "marker_at c1 w"
      "snd (applyReorgRollback io ev c) = c1"
  | c1 w where "same_view c c1" "cl_generation c < cl_generation c1" "w \<le> v" "w \<le> re_block ev - 1" "marker_at c1 w"
      "snd (applyReorgRollback io ev c) = c1\<lparr>cl_rows := filter (\<lambda>r. fst r < re_block ev) (cl_rows c1),
         cl_lastApplied := Some (re_block ev - 1)\<rparr>"
proof -
  obtain e c1 where b: "beginRowRemoval (rb_load io) (rb_lower io) (Some (re_block ev - 1)) c = (e, c1)" by fastforce
  note f = beginRowRemoval_frame [OF assms b]
  obtain w where w: "w \<le> v" "marker_at c1 w" "e = None \<Longrightarrow> w \<le> re_block ev - 1" using f by auto
  let ?c2 = "c1\<lparr>cl_guard := recordRollback (case cl_lastApplied c1 of None \<Rightarrow> 0 | Some t \<Rightarrow> t) (re_block ev) (cl_guard c1)\<rparr>"
  let ?c3 = "?c2\<lparr>cl_sync_state := (cl_sync_state ?c2)(rollbackGuardStateKey ?c2 \<mapsto> SJson (toState (cl_guard ?c2)))\<rparr>"
  have p: "persistRollbackGuardState ok ?c2 = (if ok then Inr ?c3 else Inl ''sync_state write failed'')" for ok
    by (simp add: persistRollbackGuardState_def setSyncState_def)
  have m: "marker_at ?c2 w" "marker_at ?c3 w"
    using w(2) marker_at_cong [of ?c2 c1 w] marker_at_cong [of ?c3 c1 w]
    by (simp_all add: verifiedTipKey_def rollbackGuardStateKey_def)
  have v: "same_view c ?c2" "same_view c ?c3" using f by (simp_all add: same_view_def)
  have g: "cl_generation c < cl_generation (endRowRemoval ?c2)" "cl_generation c < cl_generation (endRowRemoval ?c3)"
    using f by (simp_all add: endRowRemoval_frame)
  have ends: "same_view c (endRowRemoval ?c2)" "same_view c (endRowRemoval ?c3)"
    "marker_at (endRowRemoval ?c2) w" "marker_at (endRowRemoval ?c3) w"
    using v m endRowRemoval_frame by (simp_all add: same_view_def)
  consider "e \<noteq> None" | "e = None" "\<not> rb_save io" | "e = None" "rb_save io" "\<not> rb_delete io" | "e = None" "rb_save io" "rb_delete io"
    by blast
  then show thesis
  proof cases
    case 1
    then show thesis using b f w by (intro that(1) [of c1 w]) (auto simp: applyReorgRollback_def)
  next
    case 2
    then show thesis using b w g ends
      by (intro that(1) [of "endRowRemoval ?c2" w]) (auto simp: applyReorgRollback_def p Let_def)
  next
    case 3
    then show thesis using b w g ends
      by (intro that(1) [of "endRowRemoval ?c3" w]) (auto simp: applyReorgRollback_def p Let_def)
  next
    case 4
    then show thesis using b w g ends
      by (intro that(2) [of "endRowRemoval ?c3" w])
        (auto simp: applyReorgRollback_def p Let_def endRowRemoval_def bumpRowGeneration_def)
  qed
qed

lemma applyReorg_inv:
  assumes inv: "marker_inv E c"
  shows "marker_inv E (snd (applyReorgRollback io ev c))"
proof -
  from inv obtain v where v: "marker_at c v" "clean_upto E c v" "rows_inv c" by (rule marker_inv_cases)
  then have t: "tracksVerifiedTip c" by (simp add: rows_inv_def)
  show ?thesis
  proof (cases rule: applyReorg_cases [OF t v(1), of io ev])
    case (1 c1 w)
    then show ?thesis using marker_inv_view [OF inv 1(1) v(1)] by auto
  next
    case (2 c1 w)
    let ?c = "c1\<lparr>cl_rows := filter (\<lambda>r. fst r < re_block ev) (cl_rows c1), cl_lastApplied := Some (re_block ev - 1)\<rparr>"
    have rows: "rows_inv c1" "clean_upto E c1 w" using v clean_upto_le [OF v(2) 2(3)] same_view_simps [OF 2(1)] by auto
    have "rows_inv ?c" using rows(1)
      by (auto simp: rows_inv_def tracksVerifiedTip_def distinct_map inj_on_def)
    moreover have "marker_at ?c w"
      using 2(5) marker_at_cong [of ?c c1 w] by (simp add: verifiedTipKey_def)
    moreover have "clean_upto E ?c w" using rows(2) by (auto simp: clean_upto_def clean_row_def verifyRecompute_def)
    moreover have "\<forall>n. top_le ?c n \<longrightarrow> w \<le> n" using 2(4) by (auto simp: top_le_def)
    ultimately show ?thesis unfolding 2(6) marker_inv_def by blast
  qed
qed

subsection \<open>Every task keeps the claim\<close>

lemma top_exists: "\<exists>n. top_le c n"
proof -
  let ?s = "insert (case cl_lastApplied c of None \<Rightarrow> 0 | Some t \<Rightarrow> t) (fst ` set (cl_rows c))"
  have "finite ?s" by simp
  then have "\<forall>x \<in> ?s. x \<le> Max ?s" by simp
  then show ?thesis by (intro exI [of _ "Max ?s"]) (auto simp: top_le_def)
qed

lemma rows_inv_append:
  assumes "rows_inv c" "top_le c n" "\<forall>r \<in> set rs. n < fst r" "distinct (map fst rs)" "above_floor c rs"
    and "cl_rows c' = cl_rows c @ rs" "cl_bootstrapBase c' = cl_bootstrapBase c" "tracksVerifiedTip c'"
  shows "rows_inv c'"
proof -
  have "fst r < fst q" if "r \<in> set (cl_rows c)" "q \<in> set rs" for r q
    using assms(2,3) that by (force simp: top_le_def)
  then have "distinct (map fst (cl_rows c @ rs))"
    using assms(1,4) by (force simp: rows_inv_def)
  then show ?thesis using assms by (auto simp: rows_inv_def above_floor_def)
qed

lemma clean_upto_append:
  assumes "clean_upto E c v" "\<forall>r \<in> set rs. v < fst r" "cl_rows c' = cl_rows c @ rs"
    and "cl_dbType c' = cl_dbType c" "cl_bootstrapBase c' = cl_bootstrapBase c"
  shows "clean_upto E c' v"
  using assms by (force simp: clean_upto_def clean_row_def verifyRecompute_def)

lemma commit_inv:
  assumes inv: "marker_inv E c" and rs: "top_le c n" "\<forall>r \<in> set rs. n < fst r" "distinct (map fst rs)" "above_floor c rs"
  shows "marker_inv E (append_rows rs c)"
proof -
  from inv obtain v where v: "marker_at c v" "\<forall>n. top_le c n \<longrightarrow> v \<le> n" "clean_upto E c v" "rows_inv c"
    by (rule marker_inv_cases)
  have "v \<le> n" using v(2) rs(1) by blast
  have "rows_inv (append_rows rs c)"
    using v(4) by (intro rows_inv_append [OF v(4) rs]) (simp_all add: append_rows_def rows_inv_def tracksVerifiedTip_def)
  moreover have "marker_at (append_rows rs c) v"
    using v(1) marker_at_cong [of "append_rows rs c" c v] by (simp add: append_rows_def verifiedTipKey_def)
  moreover have "clean_upto E (append_rows rs c) v"
    using \<open>v \<le> n\<close> rs(2) by (intro clean_upto_append [OF v(3)]) (auto simp: append_rows_def)
  moreover have "\<forall>k. top_le (append_rows rs c) k \<longrightarrow> v \<le> k"
    using v(2) by (auto simp: top_le_def append_rows_def)
  ultimately show ?thesis unfolding marker_inv_def by blast
qed

text \<open>Raising the marker in memory to a height whose rows are clean, written durably or not.\<close>

lemma raise_inv:
  assumes "rows_inv c" "clean_upto E c w" "\<And>n. top_le c n \<Longrightarrow> w \<le> n" "marker_at c v" "v \<le> w"
  shows "marker_inv E (c\<lparr>cl_verified := At w\<rparr>)" "marker_inv E (writeVerifiedTip ok w (c\<lparr>cl_verified := At w\<rparr>))"
proof -
  let ?c = "c\<lparr>cl_verified := At w\<rparr>"
  obtain d where d: "durable_marker c = Some d" "d \<le> v" using assms(4) by (auto simp: marker_at_def)
  have sv: "same_view c ?c" by (simp add: same_view_def)
  have m: "marker_at ?c w" using d assms(5) by (simp add: marker_at_def eff_marker_def durable_marker_def verifiedTipKey_def)
  show one: "marker_inv E ?c"
    using assms(1-3) m unfolding marker_inv_def same_view_simps [OF sv] by blast
  let ?w = "writeVerifiedTip ok w ?c"
  have "same_view ?c ?w" by (simp add: writeVerifiedTip_def setSyncState_def same_view_def)
  moreover have "marker_at ?w w"
    using m by (simp add: writeVerifiedTip_def setSyncState_def marker_at_def eff_marker_def durable_marker_def verifiedTipKey_def)
  ultimately show "marker_inv E ?w" using marker_inv_view [OF one _ m] by blast
qed

lemma clean_recomputes:
  "recomputes_to c h hs \<Longrightarrow> hs \<in> E h \<Longrightarrow> (h, b) \<in> set (cl_rows c) \<Longrightarrow> clean_row E c h b"
  by (force simp: recomputes_to_def clean_row_def list_all_iff)

lemma live_inv:
  assumes inv: "marker_inv E c" and ver: "verifiedThroughLastApplied c" and t: "cl_lastApplied c = Some t"
    and hs: "hs \<in> E (t + 1)" "recomputes_to c (t + 1) hs"
  shows "marker_inv E (advanceVerifiedTip ok (t + 1) (Some g) (c\<lparr>cl_lastApplied := Some (t + 1)\<rparr>))"
proof -
  from inv obtain v where v: "marker_at c v" "\<forall>n. top_le c n \<longrightarrow> v \<le> n" "clean_upto E c v" "rows_inv c"
    by (rule marker_inv_cases)
  have vt: "cl_verified c = At t" using ver t by (auto simp: verifiedThroughLastApplied_def split: marker.splits)
  then have "v = t" using v(1) by (simp add: marker_at_def eff_marker_def)
  let ?c = "c\<lparr>cl_lastApplied := Some (t + 1)\<rparr>"
  have rows: "rows_inv ?c" using v(4) by (simp add: rows_inv_def tracksVerifiedTip_def)
  have mk: "marker_at ?c t"
    using v(1) \<open>v = t\<close> marker_at_cong [of ?c c t] by (simp add: verifiedTipKey_def)
  have "clean_row E c k b" if "(k, b) \<in> set (cl_rows c)" "\<not> cb_trusted b" "k \<le> t + 1" for k b
    using that v(3) \<open>v = t\<close> clean_recomputes [of c "t + 1" hs E, OF hs(2,1)] by (cases "k = t + 1") (auto simp: clean_upto_def)
  then have cl: "clean_upto E ?c (t + 1)" by (auto simp: clean_upto_def clean_row_def verifyRecompute_def)
  have top: "\<And>n. top_le ?c n \<Longrightarrow> t + 1 \<le> n" by (simp add: top_le_def)
  note r = raise_inv(2) [OF rows cl top mk, where ok = ok]
  have "marker_inv E ?c"
    using rows mk clean_upto_le [OF cl, of t] top unfolding marker_inv_def by force
  then show ?thesis
    using r vt by (simp add: advanceVerifiedTip_def)
qed

lemma applied_inv:
  assumes inv: "marker_inv E c" and top: "top_le c n" "r \<in> set (cl_rows c)" "n = fst r"
  shows "marker_inv E (c\<lparr>cl_lastApplied := Some n\<rparr>)"
proof -
  from inv obtain v where v: "marker_at c v" "\<forall>n. top_le c n \<longrightarrow> v \<le> n" "clean_upto E c v" "rows_inv c"
    by (rule marker_inv_cases)
  let ?c = "c\<lparr>cl_lastApplied := Some n\<rparr>"
  have "rows_inv ?c" "clean_upto E ?c v"
    using v by (simp_all add: rows_inv_def tracksVerifiedTip_def clean_upto_def clean_row_def verifyRecompute_def)
  moreover have "marker_at ?c v" using v(1) marker_at_cong [of ?c c v] by (simp add: verifiedTipKey_def)
  moreover have "\<forall>k. top_le ?c k \<longrightarrow> v \<le> k" using v(2) top(1) by (auto simp: top_le_def)
  ultimately show ?thesis unfolding marker_inv_def by blast
qed

lemma task_inv: "task E c c' \<Longrightarrow> marker_inv E c \<Longrightarrow> marker_inv E c'"
proof (induction rule: task.induct)
  case (commit c n rs)
  then show ?case by (blast intro: commit_inv)
next
  case (live c t hs ok)
  then show ?case by (blast intro: live_inv)
next
  case (applied r c)
  then show ?case by (blast intro: applied_inv)
next
  case (reorg c io ev)
  then show ?case by (rule applyReorg_inv)
next
  case (open_removal c loadOk writeOk n)
  obtain v where v: "marker_at c v" "rows_inv c" using open_removal by (rule marker_inv_cases)
  obtain e c' where b: "beginRowRemoval loadOk writeOk n c = (e, c')" by fastforce
  have "tracksVerifiedTip c" using v(2) by (simp add: rows_inv_def)
  from beginRowRemoval_frame [OF this v(1) b] open_removal v(1) b show ?case
    using marker_inv_view by auto
next
  case (close_removal c)
  obtain v where v: "marker_at c v" using close_removal by (rule marker_inv_cases)
  then show ?case using marker_inv_view [OF close_removal endRowRemoval_frame(1) v] endRowRemoval_frame(2) by blast
next
  case (halt c io b ms ss reason)
  then show ?case by (rule halt_inv)
qed

section \<open>Interference\<close>

text \<open>While the generation stands still the rows only grow, above everything the client knows.\<close>

definition grows :: "client \<Rightarrow> client \<Rightarrow> bool" where
  "grows c c' \<longleftrightarrow> cl_removals c' = cl_removals c \<and> cl_dbType c' = cl_dbType c \<and>
     cl_bootstrapBase c' = cl_bootstrapBase c \<and> (\<forall>n. top_le c' n \<longrightarrow> top_le c n) \<and>
     (\<exists>rs n. cl_rows c' = cl_rows c @ rs \<and> top_le c n \<and> (\<forall>r \<in> set rs. n < fst r))"

definition later :: "client \<Rightarrow> client \<Rightarrow> bool" where
  "later c c' \<longleftrightarrow> cl_generation c \<le> cl_generation c' \<and> (cl_generation c' = cl_generation c \<longrightarrow> grows c c')"

lemma grows_same: "same_view c c' \<Longrightarrow> cl_removals c' = cl_removals c \<Longrightarrow> grows c c'"
  using top_exists [of c] same_view_simps(2) [of c c'] by (auto simp: grows_def same_view_def intro: exI [of _ "[]"])

lemma later_refl: "later c c"
  by (simp add: later_def grows_same same_view_def)

lemma grows_trans:
  assumes "grows c c'" "grows c' c''"
  shows "grows c c''"
proof -
  obtain rs n where n: "cl_rows c' = cl_rows c @ rs" "top_le c n" "\<forall>r \<in> set rs. n < fst r"
    using assms(1) by (auto simp: grows_def)
  obtain rs' n' where n': "cl_rows c'' = cl_rows c' @ rs'" "top_le c' n'" "\<forall>r \<in> set rs'. n' < fst r"
    using assms(2) by (auto simp: grows_def)
  have "top_le c n'" using n'(2) assms(1) by (simp add: grows_def)
  then have "top_le c (min n n')" using n(2) by (simp add: min_def)
  moreover have "cl_rows c'' = cl_rows c @ (rs @ rs')" "\<forall>r \<in> set (rs @ rs'). min n n' < fst r"
    using n n' by auto
  ultimately show ?thesis using assms unfolding grows_def by fastforce
qed

lemma later_trans: "later c c' \<Longrightarrow> later c' c'' \<Longrightarrow> later c c''"
  unfolding later_def by (metis grows_trans le_antisym le_trans)

lemma beginRowRemoval_generation: "cl_generation c < cl_generation (snd (beginRowRemoval a b n c))"
  by (auto simp: beginRowRemoval_def lowerVerifiedTip_def loadVerifiedTip_def getSyncState_def setSyncState_def Let_def
      endRowRemoval_def bumpRowGeneration_def split: option.splits marker.splits)

lemma applyReorg_generation: "cl_generation c < cl_generation (snd (applyReorgRollback io ev c))"
proof -
  obtain e c1 where b: "beginRowRemoval (rb_load io) (rb_lower io) (Some (re_block ev - 1)) c = (e, c1)" by fastforce
  then have "cl_generation c < cl_generation c1"
    using beginRowRemoval_generation [of c "rb_load io" "rb_lower io" "Some (re_block ev - 1)"] by simp
  then show ?thesis
    using b by (auto simp: applyReorgRollback_def persistRollbackGuardState_def setSyncState_def Let_def
        endRowRemoval_def bumpRowGeneration_def split: option.splits)
qed

lemma task_later: "task E c c' \<Longrightarrow> later c c'"
proof (induction rule: task.induct)
  case (commit c n rs)
  then show ?case by (auto simp: later_def grows_def append_rows_def top_le_def)
next
  case (live c t hs ok)
  let ?c = "c\<lparr>cl_lastApplied := Some (t + 1)\<rparr>"
  let ?a = "advanceVerifiedTip ok (t + 1) (Some (cl_generation c)) ?c"
  have "same_view ?c ?a" "cl_removals ?a = cl_removals ?c" "cl_generation ?a = cl_generation ?c"
    by (auto simp: advanceVerifiedTip_def writeVerifiedTip_def setSyncState_def same_view_def split: marker.splits)
  moreover have "grows c ?c"
    using live(2) top_exists [of c] by (auto simp: grows_def top_le_def)
  ultimately show ?case
    using grows_trans [OF _ grows_same] by (auto simp: later_def)
next
  case (applied r c)
  then show ?case by (auto simp: later_def grows_def top_le_def intro!: exI [of _ "[]"])
next
  case (reorg c io ev)
  then show ?case using applyReorg_generation [of c io ev] by (simp add: later_def)
next
  case (open_removal c loadOk writeOk n)
  then show ?case using beginRowRemoval_generation [of c loadOk writeOk n] by (simp add: later_def)
next
  case (close_removal c)
  then show ?case by (simp add: later_def endRowRemoval_frame)
next
  case (halt c io b ms ss reason)
  then show ?case by (simp add: later_def grows_same halt_frame)
qed

definition tasks :: "delivered \<Rightarrow> client \<Rightarrow> client \<Rightarrow> bool" where
  "tasks E = (task E)\<^sup>*\<^sup>*"

lemma tasks_later: "tasks E c c' \<Longrightarrow> later c c'"
  unfolding tasks_def
  by (induction rule: rtranclp_induct) (auto intro: later_refl later_trans task_later)

lemma tasks_inv: "tasks E c c' \<Longrightarrow> marker_inv E c \<Longrightarrow> marker_inv E c'"
  unfolding tasks_def by (induction rule: rtranclp_induct) (auto intro: task_inv)

lemma beginRowRemoval_read:
  "cl_verified c \<noteq> Unread \<Longrightarrow> cl_verified (snd (beginRowRemoval a b n c)) \<noteq> Unread"
  by (auto simp: beginRowRemoval_def lowerVerifiedTip_def setSyncState_def Let_def
      endRowRemoval_def bumpRowGeneration_def split: option.splits marker.splits)

lemma task_read: "task E c c' \<Longrightarrow> cl_verified c \<noteq> Unread \<Longrightarrow> cl_verified c' \<noteq> Unread"
proof (induction rule: task.induct)
  case (reorg c io ev)
  obtain e c1 where b: "beginRowRemoval (rb_load io) (rb_lower io) (Some (re_block ev - 1)) c = (e, c1)" by fastforce
  then have "cl_verified c1 \<noteq> Unread" using beginRowRemoval_read [OF reorg] by (metis snd_conv)
  then show ?case
    using b by (auto simp: applyReorgRollback_def persistRollbackGuardState_def setSyncState_def Let_def
        endRowRemoval_def bumpRowGeneration_def split: option.splits)
qed (auto simp: append_rows_def advanceVerifiedTip_def writeVerifiedTip_def setSyncState_def endRowRemoval_def
    bumpRowGeneration_def beginRowRemoval_read halt_frame split: marker.splits)

lemma tasks_read: "tasks E c c' \<Longrightarrow> cl_verified c \<noteq> Unread \<Longrightarrow> cl_verified c' \<noteq> Unread"
  unfolding tasks_def by (induction rule: rtranclp_induct) (auto dest: task_read)

text \<open>The interference of a walk is what other tasks do.\<close>

definition fair_env :: "delivered \<Rightarrow> walk_env \<Rightarrow> bool" where
  "fair_env E we \<longleftrightarrow> (\<forall>h c. tasks E c (we_during we h c)) \<and> (\<forall>h c. tasks E c (we_between we h c))"

section \<open>The walk\<close>

text \<open>Where a walk that started at generation \<open>g\<close> stands before block \<open>h\<close>: unless the rows changed, the
  stored tip it walks to is still there and everything below \<open>h\<close> is clean.\<close>

definition walk_at :: "delivered \<Rightarrow> nat \<Rightarrow> int \<Rightarrow> int \<Rightarrow> client \<Rightarrow> bool" where
  "walk_at E g tip h c \<longleftrightarrow> marker_inv E c \<and> cl_verified c \<noteq> Unread \<and> g \<le> cl_generation c \<and>
     (\<not> rowsChangedSince g c \<longrightarrow> tip \<in> fst ` set (cl_rows c) \<and> clean_upto E c (h - 1))"

lemma walk_at_tasks:
  assumes "walk_at E g tip h c" "tasks E c c'" "h \<le> tip + 1"
  shows "walk_at E g tip h c'"
proof -
  have l: "later c c'" using assms(2) by (rule tasks_later)
  have "tip \<in> fst ` set (cl_rows c') \<and> clean_upto E c' (h - 1)" if q: "\<not> rowsChangedSince g c'"
  proof -
    have "cl_generation c' = cl_generation c" using q l assms(1) by (simp add: rowsChangedSince_def walk_at_def later_def)
    then have gr: "grows c c'" and "\<not> rowsChangedSince g c"
      using l q by (auto simp: later_def grows_def rowsChangedSince_def)
    then have tip: "tip \<in> fst ` set (cl_rows c)" "clean_upto E c (h - 1)" using assms(1) by (simp_all add: walk_at_def)
    from gr obtain rs n where rs: "cl_rows c' = cl_rows c @ rs" "top_le c n" "\<forall>r \<in> set rs. n < fst r"
      by (auto simp: grows_def)
    have "tip \<le> n" using tip(1) rs(2) by (auto simp: top_le_def)
    then have "clean_upto E c' (h - 1)"
      using rs(1,3) assms(3) gr by (intro clean_upto_append [OF tip(2)]) (auto simp: grows_def)
    then show ?thesis using tip(1) rs(1) by auto
  qed
  moreover have "g \<le> cl_generation c'" using assms(1) l by (simp add: walk_at_def later_def)
  ultimately show ?thesis using assms(1) tasks_inv [OF assms(2)] tasks_read [OF assms(2)] by (simp add: walk_at_def)
qed

lemma evaluate_Ok_clean:
  assumes "evaluateCommittedBlock ok at_tip h c = Ok" "rows_inv c"
  shows "(h, b) \<in> set (cl_rows c) \<Longrightarrow> clean_row E c h b" and "h \<in> fst ` set (cl_rows c)"
proof -
  obtain r where r: "map_of (cl_rows c) h = Some r" "verifyRecompute c h (cb_hashes r) (cb_computed r) = Inr []"
    using assms(1) unfolding evaluateCommittedBlock_def
    by (auto split: if_splits option.splits sum.splits)
  show "h \<in> fst ` set (cl_rows c)" using map_of_SomeD [OF r(1)] by force
  have "b = r" if "(h, b) \<in> set (cl_rows c)"
    using that r(1) assms(2) by (simp add: rows_inv_def map_of_is_SomeI)
  then show "clean_row E c h b" if "(h, b) \<in> set (cl_rows c)" using that r(2) by (simp add: clean_row_def)
qed

lemma persistVerifiedTip_frame:
  "same_view c (persistVerifiedTip ok g c)" "cl_generation (persistVerifiedTip ok g c) = cl_generation c"
  "cl_removals (persistVerifiedTip ok g c) = cl_removals c" "cl_verified (persistVerifiedTip ok g c) = cl_verified c"
  by (auto simp: persistVerifiedTip_def writeVerifiedTip_def setSyncState_def same_view_def split: marker.splits)

lemma persistVerifiedTip_inv:
  assumes "marker_inv E c"
  shows "marker_inv E (persistVerifiedTip ok g c)"
proof -
  from assms obtain v where v: "marker_at c v" by (rule marker_inv_cases)
  have "marker_at (persistVerifiedTip ok g c) v"
    using v by (cases "cl_verified c")
      (auto simp: persistVerifiedTip_def writeVerifiedTip_def setSyncState_def marker_at_def eff_marker_def
        durable_marker_def verifiedTipKey_def)
  then show ?thesis using marker_inv_view [OF assms persistVerifiedTip_frame(1) v] by blast
qed

lemma persist_walk_at: "walk_at E g tip h c \<Longrightarrow> walk_at E g tip h (persistVerifiedTip ok g' c)"
  using same_view_simps(4) [OF persistVerifiedTip_frame(1)]
    persistVerifiedTip_frame [where c = c and ok = ok and g = g']
  by (auto simp: walk_at_def persistVerifiedTip_inv rowsChangedSince_def same_view_def)

lemma note_walk_at:
  assumes w: "walk_at E g tip h c" and q: "\<not> rowsChangedSince g c"
    and b: "h \<in> fst ` set (cl_rows c)" "\<And>b. (h, b) \<in> set (cl_rows c) \<Longrightarrow> clean_row E c h b"
  shows "walk_at E g tip (h + 1) (noteVerifiedBlock h c)"
proof -
  from w have inv: "marker_inv E c" by (simp add: walk_at_def)
  then obtain v where v: "marker_at c v" "\<forall>n. top_le c n \<longrightarrow> v \<le> n" "clean_upto E c v" "rows_inv c"
    by (rule marker_inv_cases)
  have cl: "clean_upto E c h"
    using w q b(2) by (fastforce simp: walk_at_def clean_upto_def)
  have top: "\<And>n. top_le c n \<Longrightarrow> h \<le> n" using b(1) by (auto simp: top_le_def)
  let ?c = "noteVerifiedBlock h c"
  have sv: "same_view c ?c" "cl_generation ?c = cl_generation c" "cl_removals ?c = cl_removals c"
    by (auto simp: noteVerifiedBlock_def same_view_def split: marker.splits)
  have "marker_inv E ?c"
  proof (cases "cl_verified c")
    case (At u)
    then have "u = v" using v(1) by (simp add: marker_at_def eff_marker_def)
    then show ?thesis
      using At inv raise_inv(1) [OF v(4) cl top v(1)] by (simp add: noteVerifiedBlock_def)
  qed (use w v(1) in \<open>auto simp: walk_at_def marker_at_def eff_marker_def\<close>)
  moreover have "cl_verified ?c \<noteq> Unread" using w by (auto simp: noteVerifiedBlock_def walk_at_def split: marker.splits)
  ultimately show ?thesis
    using w q cl b(1) sv same_view_simps(4) [OF sv(1)] by (simp add: walk_at_def rowsChangedSince_def same_view_def)
qed

lemma window_step:
  assumes fair: "fair_env E we" and w: "walk_at E g tip h c" "h \<le> hi" "hi \<le> tip" "\<not> rowsChangedSince g c"
    and q: "\<not> rowsChangedSince g (we_during we h c)" and ok: "evaluateCommittedBlock rd (h = tip) h c = Ok"
  shows "walk_at E g tip (h + 1) (noteVerifiedBlock h (we_during we h c))"
proof (rule note_walk_at)
  let ?c = "we_during we h c"
  have t: "tasks E c ?c" using fair by (simp add: fair_env_def)
  show wc: "walk_at E g tip h ?c" using walk_at_tasks [OF w(1) t] w(2,3) by simp
  have rows: "rows_inv c" "rows_inv ?c" using w(1) wc by (auto simp: walk_at_def marker_inv_def)
  note ev = evaluate_Ok_clean [OF ok rows(1)]
  have "grows c ?c"
    using tasks_later [OF t] w(4) q by (simp add: later_def rowsChangedSince_def)
  then obtain rs where rs: "cl_rows ?c = cl_rows c @ rs" "cl_dbType ?c = cl_dbType c" "cl_bootstrapBase ?c = cl_bootstrapBase c"
    by (auto simp: grows_def)
  show "h \<in> fst ` set (cl_rows ?c)" using ev(2) rs(1) by auto
  show "clean_row E ?c h b" if "(h, b) \<in> set (cl_rows ?c)" for b
  proof -
    obtain b0 where b0: "(h, b0) \<in> set (cl_rows c)" using ev(2) by auto
    then have "(h, b0) \<in> set (cl_rows ?c)" using rs(1) by simp
    then have "b0 = b" using that rows(2) eq_key_imp_eq_value [of "cl_rows ?c"] by (auto simp: rows_inv_def)
    then show ?thesis using ev(1) [OF b0] rs by (simp add: clean_row_def verifyRecompute_def)
  qed
qed (rule q)

lemma settle_inv: "marker_inv E c \<Longrightarrow> marker_inv E (snd (settleUnverifiedBlock io h r c))"
  by (auto simp: settleUnverifiedBlock_def halt_inv split: block_check.splits)

lemma settle_not_ok: "fst (settleUnverifiedBlock io h r c) \<noteq> WalkOk"
  by (auto simp: settleUnverifiedBlock_def split: block_check.splits)

lemma window_inv:
  assumes fair: "fair_env E we"
  shows "walk_at E g tip h c \<Longrightarrow> h \<le> hi + 1 \<Longrightarrow> hi \<le> tip \<Longrightarrow> verify_window we lo hi tip g h c = (r, c') \<Longrightarrow>
     marker_inv E c' \<and> (r = WalkOk \<longrightarrow> walk_at E g tip (hi + 1) c' \<and> \<not> rowsChangedSince g c')"
proof (induction "nat (hi + 1 - h)" arbitrary: h c rule: less_induct)
  case less
  have between: "walk_at E g tip k (we_between we j x)" if "walk_at E g tip k x" "k \<le> tip + 1" for k j x
    using that walk_at_tasks fair by (auto simp: fair_env_def)
  show ?case
  proof (cases "h > hi")
    case True
    let ?c1 = "we_between we h (persistVerifiedTip (we_write we h) g c)"
    have h: "h = hi + 1" using True less.prems(2) by simp
    have "walk_at E g tip h ?c1"
      using less.prems(3) h by (intro between persist_walk_at less.prems(1)) simp
    moreover have "r = (if rowsChangedSince g ?c1 then WalkHeld else WalkOk)" "c' = ?c1"
      using less.prems(4) True by (auto simp: verify_window.simps [of we lo hi tip g h c] Let_def)
    ultimately show ?thesis using h by (auto simp: walk_at_def)
  next
    case False
    let ?v = "evaluateCommittedBlock (we_read we h) (h = tip) h c" and ?c1 = "we_during we h c"
    have t: "tasks E c ?c1" using fair by (simp add: fair_env_def)
    have w1: "walk_at E g tip h ?c1" using walk_at_tasks [OF less.prems(1) t] less.prems(3) False by simp
    then have inv1: "marker_inv E ?c1" by (simp add: walk_at_def)
    note unf = verify_window.simps [of we lo hi tip g h c]
    consider "rowsChangedSince g c" | "\<not> rowsChangedSince g c" "rowsChangedSince g ?c1"
      | "\<not> rowsChangedSince g c" "\<not> rowsChangedSince g ?c1" "?v \<noteq> Ok"
      | "\<not> rowsChangedSince g c" "\<not> rowsChangedSince g ?c1" "?v = Ok" by blast
    then show ?thesis
    proof cases
      case 1
      then show ?thesis using less.prems False unf by (simp add: walk_at_def)
    next
      case 2
      then show ?thesis using less.prems(4) False unf inv1 by (simp add: Let_def)
    next
      case 3
      then have "(r, c') = settleUnverifiedBlock (we_halt we) h ?v (persistVerifiedTip (we_write we h) g ?c1)"
        using less.prems(4) False unf by (simp add: Let_def)
      then show ?thesis
        using settle_inv [OF persistVerifiedTip_inv [OF inv1]] settle_not_ok by (metis fst_conv snd_conv)
    next
      case 4
      let ?c2 = "noteVerifiedBlock h ?c1"
      let ?c3 = "if (h - lo + 1) mod MARKER_WRITE_STEP = 0
                 then we_between we h (persistVerifiedTip (we_write we h) g ?c2) else ?c2"
      have w2: "walk_at E g tip (h + 1) ?c2"
        using window_step [OF fair less.prems(1) _ less.prems(3) 4(1,2,3)] False by simp
      then have "walk_at E g tip (h + 1) ?c3"
        using False less.prems(3) by (auto intro: between persist_walk_at)
      moreover have "verify_window we lo hi tip g (h + 1) ?c3 = (r, c')"
        using less.prems(4) False 4 unf by (simp add: Let_def)
      ultimately show ?thesis
        using less.hyps [of "h + 1" ?c3] False less.prems(3) by simp
    qed
  qed
qed

lemma range_inv:
  assumes fair: "fair_env E we"
  shows "walk_at E g e lo c \<Longrightarrow> lo \<le> e + 1 \<Longrightarrow> verifyCommittedRange we lo e g c = (r, c') \<Longrightarrow> marker_inv E c'"
proof (induction "nat (e + 1 - lo)" arbitrary: lo c rule: less_induct)
  case less
  show ?case
  proof (cases "lo > e")
    case True
    then show ?thesis using less.prems by (simp add: verifyCommittedRange.simps [of we lo] walk_at_def)
  next
    case False
    let ?b = "max 1 (cl_batch c)"
    let ?hi = "min (lo + ?b - 1) e"
    obtain v c1 where win: "verifyCommittedWindow we lo ?hi e g c = (v, c1)" by fastforce
    have W: "marker_inv E c1 \<and> (v = WalkOk \<longrightarrow> walk_at E g e (?hi + 1) c1 \<and> \<not> rowsChangedSince g c1)"
      using window_inv [OF fair less.prems(1), of ?hi lo v c1] win False by (simp add: verifyCommittedWindow_def)
    show ?thesis
    proof (cases "v = WalkOk \<and> ?hi < e \<and> \<not> cl_stopping c1")
      case True
      let ?c2 = "we_between we ?hi c1"
      have "?hi + 1 = lo + ?b" using True by auto
      then have "walk_at E g e (lo + ?b) ?c2"
        using W True walk_at_tasks [of E g e "lo + ?b" c1 ?c2] fair by (auto simp: fair_env_def)
      moreover have "verifyCommittedRange we (lo + ?b) e g ?c2 = (r, c')"
        using less.prems(3) False True win by (simp add: verifyCommittedRange.simps [of we lo] Let_def)
      ultimately show ?thesis using less.hyps [of "lo + ?b" ?c2] False True by auto
    next
      case stop: False
      then have "c' = c1"
        using less.prems(3) False win
        by (auto simp: verifyCommittedRange.simps [of we lo] Let_def split: if_splits)
      then show ?thesis using W by simp
    qed
  qed
qed

text \<open>The marker in force is not above the stored tip, so the walk does not seed a new one.\<close>

definition walk_ready :: "client \<Rightarrow> bool" where
  "walk_ready c \<longleftrightarrow> (\<exists>t v. getLastBlock c = Some t \<and> eff_marker c = Some v \<and> v \<le> t)"

lemma verifyUnverifiedTail_inv:
  assumes fair: "fair_env E we" and inv: "marker_inv E c" and ready: "walk_ready c"
  shows "marker_inv E (snd (verifyUnverifiedTail we tipOk loadOk legacyOk c))"
proof -
  obtain tip v where tip: "getLastBlock c = Some tip" "eff_marker c = Some v" "v \<le> tip"
    using ready by (auto simp: walk_ready_def)
  obtain v' where v: "marker_at c v'" "clean_upto E c v'" "rows_inv c" using inv by (rule marker_inv_cases)
  then have "v' = v" using tip(2) by (simp add: marker_at_def)
  let ?load = "if cl_verified c = Unread then loadVerifiedTip loadOk c else Inr c"
  show ?thesis
  proof (cases "tracksVerifiedTip c \<and> cl_halted c = None \<and> \<not> rowsChangedSince (cl_generation c) c \<and> tipOk \<and> (\<exists>c1. ?load = Inr c1)")
    case False
    then have "snd (verifyUnverifiedTail we tipOk loadOk legacyOk c) = c"
      using tip(1) by (cases ?load) (auto simp: verifyUnverifiedTail_def walkUnverifiedTail_def Let_def split: if_splits)
    then show ?thesis using inv by simp
  next
    case True
    then obtain c1 where c1: "?load = Inr c1" by blast
    then have same: "same_view c c1" "cl_generation c1 = cl_generation c" "cl_removals c1 = cl_removals c" "cl_verified c1 = At v"
        "cl_halted c1 = cl_halted c"
      using tip(2) v(1) \<open>v' = v\<close>
      by (auto simp: loadVerifiedTip_def getSyncState_def same_view_def eff_marker_def durable_marker_def marker_of_def
          marker_at_def split: if_splits marker.splits)
    have m1: "marker_at c1 v"
      using v(1) \<open>v' = v\<close> c1 same(1,4)
      by (auto simp: marker_at_def eff_marker_def durable_marker_def loadVerifiedTip_def getSyncState_def
          same_view_def verifiedTipKey_def split: if_splits)
    then have inv1: "marker_inv E c1" using marker_inv_view [OF inv same(1) v(1)] \<open>v' = v\<close> by blast
    let ?s = "walk_start c1"
    show ?thesis
    proof (cases "?s > tip")
      case s: True
      then have "snd (verifyUnverifiedTail we tipOk loadOk legacyOk c) = c1"
        using True c1 tip same by (auto simp: verifyUnverifiedTail_def walkUnverifiedTail_def Let_def)
      then show ?thesis using inv1 by simp
    next
      case s: False
      obtain r c3 where rng: "verifyCommittedRange we ?s tip (cl_generation c) c1 = (r, c3)" by fastforce
      have "clean_upto E c1 (?s - 1)"
      proof -
        have "clean_upto E c1 v" using v(2) \<open>v' = v\<close> same_view_simps(4) [OF same(1)] by simp
        moreover have "rows_inv c1" using v(3) same_view_simps(3) [OF same(1)] by simp
        ultimately show ?thesis
          using same(4) by (fastforce simp: walk_start_def clean_upto_def rows_inv_def Let_def split: option.splits if_splits)
      qed
      moreover have "tip \<in> fst ` set (cl_rows c1)"
        using tip(1) same(1) sql_max_SomeD unfolding getLastBlock_def same_view_def by fastforce
      ultimately have "walk_at E (cl_generation c) tip ?s c1"
        using inv1 same by (simp add: walk_at_def)
      then have "marker_inv E c3" using range_inv [OF fair _ _ rng] s by simp
      moreover have "snd (verifyUnverifiedTail we tipOk loadOk legacyOk c) = c3"
        using True c1 tip same s rng by (auto simp: verifyUnverifiedTail_def walkUnverifiedTail_def Let_def)
      ultimately show ?thesis by simp
    qed
  qed
qed

section \<open>Runs\<close>

definition restarted :: "client \<Rightarrow> client" where
  "restarted c = c\<lparr>cl_verified := Unread, cl_persisted := Unread, cl_generation := 0, cl_removals := 0,
     cl_halted := None, cl_lastApplied := getLastBlock c\<rparr>"

text \<open>A run starts at a bootstrapped replica whose marker stands on its tip, in memory and, the write of it having
  succeeded, in the database.  A restart forgets what was in memory; it is taken where the stored marker is not above the
  stored tip.\<close>

inductive marker_run :: "delivered \<Rightarrow> client \<Rightarrow> bool" for E where
  bootstrap: "rows_inv c \<Longrightarrow> \<forall>r \<in> set (cl_rows c). cb_trusted (snd r) \<and> fst r \<le> v \<Longrightarrow> cl_lastApplied c = Some v \<Longrightarrow>
    cl_verified c = At v \<Longrightarrow> durable_marker c = Some v \<Longrightarrow> marker_run E c"
| task: "marker_run E c \<Longrightarrow> task E c c' \<Longrightarrow> marker_run E c'"
| walk: "marker_run E c \<Longrightarrow> fair_env E we \<Longrightarrow> walk_ready c \<Longrightarrow>
    marker_run E (snd (verifyUnverifiedTail we tipOk loadOk legacyOk c))"
| restart: "marker_run E c \<Longrightarrow> getLastBlock c = Some t \<Longrightarrow> durable_marker c = Some d \<Longrightarrow> d \<le> t \<Longrightarrow>
    marker_run E (restarted c)"

lemma restart_inv:
  assumes inv: "marker_inv E c" and t: "getLastBlock c = Some t" "durable_marker c = Some d" "d \<le> t"
  shows "marker_inv E (restarted c)"
proof -
  obtain v where v: "marker_at c v" "clean_upto E c v" "rows_inv c" using inv by (rule marker_inv_cases)
  have "d \<le> v" using v(1) t(2) by (auto simp: marker_at_def)
  have frame: "rows_inv (restarted c)" "clean_upto E (restarted c) d"
    using v(3) clean_upto_le [OF v(2) \<open>d \<le> v\<close>]
    by (simp_all add: restarted_def rows_inv_def tracksVerifiedTip_def clean_upto_def clean_row_def verifyRecompute_def)
  moreover have "marker_at (restarted c) d"
    using t(2) by (simp add: marker_at_def eff_marker_def restarted_def durable_marker_def verifiedTipKey_def)
  moreover have "\<forall>n. top_le (restarted c) n \<longrightarrow> d \<le> n"
    using t by (auto simp: top_le_def restarted_def)
  ultimately show ?thesis unfolding marker_inv_def by blast
qed

lemma marker_run_inv: "marker_run E c \<Longrightarrow> marker_inv E c"
proof (induction rule: marker_run.induct)
  case (bootstrap c v)
  then have "marker_at c v" by (simp add: marker_at_def eff_marker_def)
  moreover have "clean_upto E c v" using bootstrap(2) by (fastforce simp: clean_upto_def)
  ultimately show ?case using bootstrap(1,3) by (auto simp: marker_inv_def top_le_def)
next
  case (task c c')
  then show ?case by (blast intro: task_inv)
next
  case (walk c we tipOk loadOk legacyOk)
  then show ?case by (blast intro: verifyUnverifiedTail_inv)
next
  case (restart c t d)
  then show ?case by (blast intro: restart_inv)
qed

text \<open>(C5) The verified marker never vouches for an unverified block.  Take a run from a bootstrap whose marker write
  succeeded, through live blocks, catch-up ranges, reorg rollbacks with failing writes, halts, verification walks
  interleaved with all of these, and restarts with a stored marker not above the stored tip.  Then each committed block at
  or below the marker in memory or in the database, other than one the bootstrap installed on trust, recomputes to the
  three hashes stored with it or to those a live event of its height carried; the live path does not compare the two.
  The join block of a truncated replica, which has no predecessor, is exempt by the recompute itself.\<close>

theorem verified_marker_sound:
  assumes "marker_run E c" "(h, b) \<in> set (cl_rows c)" "\<not> cb_trusted b"
    and "cl_verified c = At v \<or> durable_marker c = Some v" "h \<le> v"
  shows "\<exists>hs. (hs = cb_hashes b \<or> hs \<in> E h) \<and> verifyRecompute c h hs (cb_computed b) = Inr []"
proof -
  obtain w where w: "marker_at c w" "clean_upto E c w"
    using marker_run_inv [OF assms(1)] by (rule marker_inv_cases)
  then have "v \<le> w" using assms(4) by (auto simp: marker_at_def eff_marker_def)
  then have "clean_row E c h b" using w(2) assms(2,3,5) by (auto simp: clean_upto_def)
  then show ?thesis unfolding clean_row_def by blast
qed

definition demo_block :: "string \<Rightarrow> string \<Rightarrow> bool \<Rightarrow> committed_block" where
  "demo_block stored computed trusted = \<lparr>cb_hashes = (Some stored, Some stored, Some stored), cb_state = None,
     cb_computed = Some (computed, computed, computed), cb_computed_state = None, cb_trusted = trusted\<rparr>"

definition demo_replica :: client where
  "demo_replica = demo_client\<lparr>cl_rows := [(10, demo_block ''x'' ''y'' True)],
     cl_sync_state := [verifiedTipKey demo_client \<mapsto> SText (int_str 10)]\<rparr>"

definition quiet_env :: walk_env where
  "quiet_env = \<lparr>we_read = (\<lambda>_. True), we_write = (\<lambda>_. True), we_halt = all_io,
     we_during = (\<lambda>_ c. c), we_between = (\<lambda>_ c. c)\<rparr>"

lemma quiet_fair: "fair_env E quiet_env"
  by (simp add: fair_env_def quiet_env_def tasks_def)

lemma demo_replica_run: "marker_run E demo_replica"
  by (rule marker_run.bootstrap [where v = 10])
    (simp_all add: demo_replica_def demo_client_def rows_inv_def tracksVerifiedTip_def demo_block_def
      durable_marker_def verifiedTipKey_def)

theorem verified_marker_sound_witness:
  "\<exists>c. cl_verified c = At 11 \<and> (11, demo_block ''x'' ''z'' False) \<in> set (cl_rows c) \<and>
     verifyRecompute c 11 (Some ''z'', Some ''z'', Some ''z'') (Some (''z'', ''z'', ''z'')) = Inr []"
proof -
  let ?b = "demo_block ''x'' ''z'' False" and ?E = "\<lambda>h :: int. if h = 11 then {(Some ''z'', Some ''z'', Some ''z'')} else {}"
  let ?c1 = "append_rows [(11, ?b)] demo_replica"
  let ?c = "advanceVerifiedTip True (10 + 1) (Some (cl_generation ?c1)) (?c1\<lparr>cl_lastApplied := Some (10 + 1)\<rparr>)"
  have "task ?E demo_replica ?c1"
    by (rule task.commit [where n = 10]) (simp_all add: demo_replica_def demo_client_def top_le_def above_floor_def)
  then have one: "marker_run ?E ?c1" by (rule marker_run.task [OF demo_replica_run])
  have "task ?E ?c1 ?c"
    by (rule task.live [where hs = "(Some ''z'', Some ''z'', Some ''z'')"])
      (simp_all add: demo_replica_def demo_client_def verifiedThroughLastApplied_def append_rows_def recomputes_to_def
        demo_block_def verifyRecompute_def)
  with one have run: "marker_run ?E ?c" by (rule marker_run.task)
  have c: "cl_verified ?c = At 11" "(11, ?b) \<in> set (cl_rows ?c)"
    by (simp_all add: advanceVerifiedTip_def append_rows_def demo_replica_def demo_client_def rowsChangedSince_def
        writeVerifiedTip_def setSyncState_def)
  have "\<exists>hs. (hs = cb_hashes ?b \<or> hs \<in> ?E 11) \<and> verifyRecompute ?c 11 hs (cb_computed ?b) = Inr []"
    by (rule verified_marker_sound [OF run c(2) _ disjI1 [OF c(1)]]) (simp_all add: demo_block_def)
  moreover have "verifyRecompute ?c 11 (cb_hashes ?b) (cb_computed ?b) \<noteq> Inr []"
    by (simp add: verifyRecompute_def demo_block_def advanceVerifiedTip_def append_rows_def demo_replica_def demo_client_def
        rowsChangedSince_def writeVerifiedTip_def setSyncState_def)
  ultimately have "verifyRecompute ?c 11 (Some ''z'', Some ''z'', Some ''z'') (Some (''z'', ''z'', ''z'')) = Inr []"
    by (auto simp: demo_block_def)
  then show ?thesis using c by blast
qed

section \<open>The verdict of an undisturbed walk\<close>

definition same_ctl :: "client \<Rightarrow> client \<Rightarrow> bool" where
  "same_ctl c c' \<longleftrightarrow> same_view c c' \<and> cl_generation c' = cl_generation c \<and> cl_removals c' = cl_removals c \<and>
     cl_halted c' = cl_halted c \<and> cl_stopping c' = cl_stopping c \<and> cl_batch c' = cl_batch c \<and>
     cl_verifyStateHash c' = cl_verifyStateHash c \<and> cl_sources c' = cl_sources c"

lemma same_ctl_trans: "same_ctl c c' \<Longrightarrow> same_ctl c' c'' \<Longrightarrow> same_ctl c c''"
  by (simp add: same_ctl_def same_view_def)

lemma same_ctl_evaluate:
  "same_ctl c c' \<Longrightarrow> evaluateCommittedBlock rd t h c' = evaluateCommittedBlock rd t h c"
proof -
  assume s: "same_ctl c c'"
  then have eqs: "verifyRecompute c' h = verifyRecompute c h" "evaluateStoredStateHash c' = evaluateStoredStateHash c"
      "cl_rows c' = cl_rows c"
    by (simp_all add: same_ctl_def same_view_def verifyRecompute_def evaluateStoredStateHash_def fun_eq_iff)
  show ?thesis unfolding evaluateCommittedBlock_def eqs by (rule refl)
qed

lemma same_ctl_ops: "same_ctl c (persistVerifiedTip ok g c)" "same_ctl c (noteVerifiedBlock h c)"
  by (auto simp: persistVerifiedTip_def writeVerifiedTip_def setSyncState_def noteVerifiedBlock_def same_ctl_def
      same_view_def split: marker.splits)

definition quiet :: "walk_env \<Rightarrow> bool" where
  "quiet we \<longleftrightarrow> we_during we = (\<lambda>_ c. c) \<and> we_between we = (\<lambda>_ c. c)"

text \<open>The verdict of block \<open>h\<close>, and the first block of a range that does not pass.\<close>

definition block_verdict :: "walk_env \<Rightarrow> int \<Rightarrow> client \<Rightarrow> int \<Rightarrow> block_check" where
  "block_verdict we tip c h = evaluateCommittedBlock (we_read we h) (h = tip) h c"

definition fails_first :: "walk_env \<Rightarrow> int \<Rightarrow> client \<Rightarrow> int \<Rightarrow> int \<Rightarrow> int \<Rightarrow> bool" where
  "fails_first we tip c lo hi k \<longleftrightarrow> lo \<le> k \<and> k \<le> hi \<and> block_verdict we tip c k \<noteq> Ok \<and>
     (\<forall>j. lo \<le> j \<longrightarrow> j < k \<longrightarrow> block_verdict we tip c j = Ok)"

text \<open>What a walk over \<open>lo..hi\<close> from marker \<open>u\<close> ends with: all blocks passed and the marker is on \<open>hi\<close>, or block \<open>k\<close>
  is the first that did not and was settled with the marker below it.\<close>

definition walk_result :: "walk_env \<Rightarrow> int \<Rightarrow> client \<Rightarrow> int \<Rightarrow> int \<Rightarrow> outcome \<times> client \<Rightarrow> bool" where
  "walk_result we tip c lo hi res \<longleftrightarrow>
     (\<exists>c'. res = (WalkOk, c') \<and> same_ctl c c' \<and> (\<forall>k. lo \<le> k \<longrightarrow> k \<le> hi \<longrightarrow> block_verdict we tip c k = Ok) \<and>
        cl_verified c' = (if lo \<le> hi then At hi else cl_verified c)) \<or>
     (\<exists>k c'. fails_first we tip c lo hi k \<and> same_ctl c c' \<and> (\<exists>u < k. cl_verified c' = At u) \<and>
        res = settleUnverifiedBlock (we_halt we) k (block_verdict we tip c k) c')"

lemma same_ctl_verdict: "same_ctl c c' \<Longrightarrow> block_verdict we tip c' k = block_verdict we tip c k"
  by (simp add: block_verdict_def same_ctl_evaluate)

lemma walk_compose:
  assumes ok: "\<forall>k. lo \<le> k \<longrightarrow> k < mid \<longrightarrow> block_verdict we tip c k = Ok" and sc: "same_ctl c c1"
    and v: "cl_verified c1 = At (mid - 1)" and mid: "lo < mid" "mid \<le> hi + 1"
    and res: "walk_result we tip c1 mid hi res"
  shows "walk_result we tip c lo hi res"
proof -
  note same = same_ctl_verdict [OF sc]
  from res consider c' where "res = (WalkOk, c')" "same_ctl c1 c'" "\<forall>k. mid \<le> k \<longrightarrow> k \<le> hi \<longrightarrow> block_verdict we tip c k = Ok"
      "cl_verified c' = (if mid \<le> hi then At hi else cl_verified c1)"
    | k c' u where "fails_first we tip c1 mid hi k" "same_ctl c1 c'" "u < k" "cl_verified c' = At u"
      "res = settleUnverifiedBlock (we_halt we) k (block_verdict we tip c k) c'"
    unfolding walk_result_def same by blast
  then show ?thesis
  proof cases
    case 1
    have "\<forall>k. lo \<le> k \<longrightarrow> k \<le> hi \<longrightarrow> block_verdict we tip c k = Ok" using ok 1(3) by force
    moreover have "cl_verified c' = At hi"
    proof (cases "mid \<le> hi")
      case False
      then have "hi = mid - 1" using mid(2) by simp
      then show ?thesis using 1(4) v False by simp
    qed (use 1(4) in simp)
    ultimately show ?thesis
      unfolding walk_result_def using 1(1) same_ctl_trans [OF sc 1(2)] mid by auto
  next
    case 2
    have "fails_first we tip c lo hi k" using 2(1) ok mid(1) unfolding fails_first_def same by force
    then show ?thesis
      unfolding walk_result_def using 2(3-5) same_ctl_trans [OF sc 2(2)] by blast
  qed
qed

lemma window_quiet:
  assumes q: "quiet we"
  shows "cl_verified c = At u \<Longrightarrow> u < h \<Longrightarrow> h \<le> hi + 1 \<Longrightarrow> cl_removals c = 0 \<Longrightarrow> g = cl_generation c \<Longrightarrow>
    walk_result we tip c h hi (verify_window we lo hi tip g h c)"
proof (induction "nat (hi + 1 - h)" arbitrary: h c u rule: less_induct)
  case less
  have still: "\<not> rowsChangedSince g c'" if "same_ctl c c'" for c'
    using that less.prems by (simp add: rowsChangedSince_def same_ctl_def)
  have s0: "\<not> rowsChangedSince g c" using less.prems by (simp add: rowsChangedSince_def)
  note unf = verify_window.simps [of we lo hi tip g h c]
  consider "h > hi" | "h \<le> hi" "block_verdict we tip c h \<noteq> Ok" | "h \<le> hi" "block_verdict we tip c h = Ok" by linarith
  then show ?case
  proof cases
    case 1
    let ?c = "persistVerifiedTip (we_write we h) g c"
    have "verify_window we lo hi tip g h c = (WalkOk, ?c)"
      using 1 q still [OF same_ctl_ops(1)] unf by (simp add: quiet_def Let_def)
    then show ?thesis
      using 1 same_ctl_ops(1) persistVerifiedTip_frame(4) unfolding walk_result_def by force
  next
    case 2
    let ?c = "persistVerifiedTip (we_write we h) g c"
    have "verify_window we lo hi tip g h c = settleUnverifiedBlock (we_halt we) h (block_verdict we tip c h) ?c"
      using 2 q s0 unf by (simp add: quiet_def block_verdict_def Let_def)
    moreover have "fails_first we tip c h hi h" using 2 by (auto simp: fails_first_def)
    moreover have "\<exists>u < h. cl_verified ?c = At u" using less.prems(1,2) persistVerifiedTip_frame(4) by simp
    ultimately show ?thesis using same_ctl_ops(1) unfolding walk_result_def by blast
  next
    case 3
    let ?n = "noteVerifiedBlock h c"
    let ?c = "if (h - lo + 1) mod MARKER_WRITE_STEP = 0 then persistVerifiedTip (we_write we h) g ?n else ?n"
    have sc: "same_ctl c ?c"
      using same_ctl_ops(2) [of c h] same_ctl_trans [OF same_ctl_ops(2) same_ctl_ops(1)] by simp
    have vc: "cl_verified ?c = At h"
      using less.prems(1,2) persistVerifiedTip_frame(4) by (simp add: noteVerifiedBlock_def)
    have "verify_window we lo hi tip g h c = verify_window we lo hi tip g (h + 1) ?c"
      using 3 q s0 unf by (simp add: quiet_def block_verdict_def Let_def)
    moreover have "walk_result we tip ?c (h + 1) hi (verify_window we lo hi tip g (h + 1) ?c)"
      using less.prems sc vc 3 by (intro less.hyps [of "h + 1" ?c h]) (auto simp: same_ctl_def)
    ultimately show ?thesis
      using 3 sc vc by (intro walk_compose [of h "h + 1" we tip c ?c]) auto
  qed
qed

lemma range_quiet:
  assumes q: "quiet we"
  shows "cl_verified c = At u \<Longrightarrow> u < lo \<Longrightarrow> lo \<le> e \<Longrightarrow> cl_removals c = 0 \<Longrightarrow> g = cl_generation c \<Longrightarrow> \<not> cl_stopping c \<Longrightarrow>
    walk_result we e c lo e (verifyCommittedRange we lo e g c)"
proof (induction "nat (e + 1 - lo)" arbitrary: lo c u rule: less_induct)
  case less
  let ?b = "max 1 (cl_batch c)"
  let ?hi = "min (lo + ?b - 1) e"
  have b: "lo \<le> ?hi" "?hi \<le> e" using less.prems(3) by auto
  have w: "walk_result we e c lo ?hi (verifyCommittedWindow we lo ?hi e g c)"
    unfolding verifyCommittedWindow_def
    by (rule window_quiet [OF q less.prems(1,2) _ less.prems(4,5)]) (use b(1) in linarith)
  have rng: "verifyCommittedRange we lo e g c =
      (let (v, c1) = verifyCommittedWindow we lo ?hi e g c in
       if v \<noteq> WalkOk then (v, c1) else if ?hi < e
       then (if cl_stopping c1 then (WalkHeld, c1) else verifyCommittedRange we (lo + ?b) e g c1) else (WalkOk, c1))"
  proof -
    have id: "we_between we = (\<lambda>_ c. c)" using q by (simp add: quiet_def)
    have "\<not> lo > e" using less.prems(3) by simp
    then show ?thesis
      unfolding verifyCommittedRange.simps [of we lo e g c] Let_def id if_not_P [of "lo > e"] by simp
  qed
  from w show ?case unfolding walk_result_def [of we e c lo ?hi]
  proof (elim disjE exE conjE)
    fix c1 assume r: "verifyCommittedWindow we lo ?hi e g c = (WalkOk, c1)" "same_ctl c c1"
      "\<forall>k. lo \<le> k \<longrightarrow> k \<le> ?hi \<longrightarrow> block_verdict we e c k = Ok" "cl_verified c1 = (if lo \<le> ?hi then At ?hi else cl_verified c)"
    show ?thesis
    proof (cases "?hi < e")
      case True
      then have hi: "?hi = lo + ?b - 1" and lt: "lo + ?b - 1 < e" by linarith+
      have "walk_result we e c1 (lo + ?b) e (verifyCommittedRange we (lo + ?b) e g c1)"
        using r(2,4) less.prems True hi b
        by (intro less.hyps [of "lo + ?b" c1 ?hi]) (auto simp: same_ctl_def)
      moreover have "verifyCommittedRange we lo e g c = verifyCommittedRange we (lo + ?b) e g c1"
        using rng r(1,2) lt less.prems(6) by (simp add: same_ctl_def)
      ultimately show ?thesis
        using r(2-4) hi b True by (intro walk_compose [of lo "lo + ?b" we e c c1]) auto
    next
      case False
      then have "?hi = e" using b by simp
      then show ?thesis using w rng r(1) by simp
    qed
  next
    fix k c' u' assume r: "fails_first we e c lo ?hi k" "same_ctl c c'" "u' < k" "cl_verified c' = At u'"
      "verifyCommittedWindow we lo ?hi e g c = settleUnverifiedBlock (we_halt we) k (block_verdict we e c k) c'"
    have "verifyCommittedRange we lo e g c = settleUnverifiedBlock (we_halt we) k (block_verdict we e c k) c'"
      using rng r(5) settle_not_ok [of "we_halt we" k "block_verdict we e c k" c']
      by (cases "settleUnverifiedBlock (we_halt we) k (block_verdict we e c k) c'") simp
    moreover have "fails_first we e c lo e k" using r(1) b(2) by (auto simp: fails_first_def)
    ultimately show ?thesis unfolding walk_result_def using r(2-4) by blast
  qed
qed

text \<open>(C26) An undisturbed walk decides exactly: with a marker at or below the stored tip, no removal in
  flight and no stop request, it returns \<open>ok\<close> and raises the marker to the tip when every block above the
  marker passes its check (the tip's state hash included); otherwise it stops at the first block
  that does not, leaves the marker below it, and halts the replica there with the failing fields, or holds when
  the block cannot be judged.\<close>

theorem walk_verdict_exact:
  assumes "quiet we" "tracksVerifiedTip c" "cl_halted c = None" "cl_removals c = 0" "\<not> cl_stopping c"
    and "getLastBlock c = Some tip" "cl_verified c = At v" "v \<le> tip" "walk_start c \<le> tip"
  shows "if (\<forall>h. walk_start c \<le> h \<longrightarrow> h \<le> tip \<longrightarrow> block_verdict we tip c h = Ok)
    then \<exists>c'. verifyUnverifiedTail we True loadOk legacyOk c = (WalkOk, c') \<and> cl_verified c' = At tip \<and> cl_halted c' = None
    else \<exists>h c' u. fails_first we tip c (walk_start c) tip h \<and> cl_verified c' = At u \<and> u < h \<and>
      (case block_verdict we tip c h of
         HaltFor reason ms \<Rightarrow> verifyUnverifiedTail we True loadOk legacyOk c = (WalkHalted, c') \<and>
           (\<exists>hl. cl_halted c' = Some hl \<and> h_block hl = Some h \<and> h_mismatches hl = ms)
       | _ \<Rightarrow> verifyUnverifiedTail we True loadOk legacyOk c = (WalkHeld, c') \<and> cl_halted c' = None)"
proof -
  let ?s = "walk_start c" and ?r = "verifyCommittedRange we (walk_start c) tip (cl_generation c) c"
  have "v < ?s" using assms(7) by (auto simp: walk_start_def Let_def split: option.splits)
  then have w: "walk_result we tip c ?s tip ?r"
    using range_quiet [OF assms(1,7)] assms by blast
  have tail: "verifyUnverifiedTail we True loadOk legacyOk c = ?r"
    using assms by (simp add: verifyUnverifiedTail_def walkUnverifiedTail_def rowsChangedSince_def Let_def case_prod_beta)
  from w show ?thesis unfolding walk_result_def
  proof (elim disjE exE conjE)
    fix c' assume "?r = (WalkOk, c')" "same_ctl c c'" "\<forall>k. ?s \<le> k \<longrightarrow> k \<le> tip \<longrightarrow> block_verdict we tip c k = Ok"
      "cl_verified c' = (if ?s \<le> tip then At tip else cl_verified c)"
    then show ?thesis using assms(3,9) unfolding tail by (auto simp: same_ctl_def)
  next
    fix k c' u assume r: "fails_first we tip c ?s tip k" "same_ctl c c'" "u < k" "cl_verified c' = At u"
      "?r = settleUnverifiedBlock (we_halt we) k (block_verdict we tip c k) c'"
    have bad: "\<not> (\<forall>h. ?s \<le> h \<longrightarrow> h \<le> tip \<longrightarrow> block_verdict we tip c h = Ok)" using r(1) by (auto simp: fails_first_def)
    have h: "cl_halted c' = None" using r(2) assms(3) by (simp add: same_ctl_def)
    let ?h = "\<lambda>reason ms. haltOnDivergence (we_halt we) k ms (take 1 (cl_sources c')) reason c'"
    have "cl_verified (?h reason ms) = At u" for reason ms using halt_frame(2) r(4) by simp
    moreover have "\<exists>hl. cl_halted (?h reason ms) = Some hl \<and> h_block hl = Some k \<and> h_mismatches hl = ms" for reason ms
      using h by (simp add: haltOnDivergence_def Let_def persistHalt_frame(6))
    ultimately show ?thesis
      using bad r(1,3,4,5) h unfolding tail
      by (cases "block_verdict we tip c k") (auto simp: settleUnverifiedBlock_def intro!: exI [of _ k])
  qed
qed

theorem walk_verdict_exact_witness:
  "\<exists>c' u. verifyUnverifiedTail quiet_env True True True
       (append_rows [(11, demo_block ''z'' ''z'' False), (12, demo_block ''z'' ''y'' False)] demo_replica) = (WalkHalted, c') \<and>
     cl_verified c' = At u \<and> u < 12"
proof -
  let ?c = "append_rows [(11, demo_block ''z'' ''z'' False), (12, demo_block ''z'' ''y'' False)] demo_replica"
  have facts: "quiet quiet_env" "tracksVerifiedTip ?c" "cl_halted ?c = None" "cl_removals ?c = 0" "\<not> cl_stopping ?c"
    "getLastBlock ?c = Some 12" "cl_verified ?c = At 10" "walk_start ?c = 11"
    by (simp_all add: quiet_def quiet_env_def tracksVerifiedTip_def append_rows_def demo_replica_def demo_client_def
        getLastBlock_def sql_max_def walk_start_def)
  have v: "block_verdict quiet_env 12 ?c 11 = Ok"
    "block_verdict quiet_env 12 ?c 12 = HaltFor ''local-recompute-divergence'' [''ledger_hash'', ''actions_hash'', ''contract_hash'']"
    by (simp_all add: block_verdict_def evaluateCommittedBlock_def quiet_env_def append_rows_def demo_replica_def
        demo_client_def demo_block_def verifyRecompute_def)
  have bad: "\<not> (\<forall>h. 11 \<le> h \<longrightarrow> h \<le> 12 \<longrightarrow> block_verdict quiet_env 12 ?c h = Ok)"
    using v(2) by (auto intro!: exI [of _ 12])
  from walk_verdict_exact [OF facts(1-7), of True True] bad facts(8)
  obtain h c' u where h: "fails_first quiet_env 12 ?c 11 12 h" "cl_verified c' = At u" "u < h"
    "case block_verdict quiet_env 12 ?c h of
       HaltFor reason ms \<Rightarrow> verifyUnverifiedTail quiet_env True True True ?c = (WalkHalted, c') \<and>
         (\<exists>hl. cl_halted c' = Some hl \<and> h_block hl = Some h \<and> h_mismatches hl = ms)
     | _ \<Rightarrow> verifyUnverifiedTail quiet_env True True True ?c = (WalkHeld, c') \<and> cl_halted c' = None"
    by auto
  have "h = 11 \<or> h = 12" using h(1) by (auto simp: fails_first_def)
  then have "h = 12" using h(1) v(1) by (auto simp: fails_first_def)
  then show ?thesis using h v(2) by auto
qed

end
