(* ===== verification/Halt_Durability.thy ===== *)
theory Halt_Durability
  imports Rollback_Bound
begin

text \<open>
  A halt outlives the process: its row in \<^verbatim>\<open>sync_halt\<close> or the copy in \<^verbatim>\<open>sync_state\<close> brings it back at
  the next start, a table that cannot be read holds the client, and only an operator clear that
  reached the database lets the next start go on.
\<close>

section \<open>Restart\<close>

definition reboot :: "client \<Rightarrow> client" where
  "reboot c = c\<lparr>cl_halted := None, cl_haltDurable := True, cl_pendingCopy := False\<rparr>"

text \<open>The halt checks of \<^verbatim>\<open>start\<close> and \<^verbatim>\<open>synchronizeStoredReplica\<close>, in order, before anything is applied.\<close>

definition startup :: "bool \<Rightarrow> bool \<Rightarrow> halt_io \<Rightarrow> client \<Rightarrow> client" where
  "startup readOk copyOk io c =
     (let c1 = resolveStartupHalt readOk c in
      if cl_halted c1 \<noteq> None then c1 else snd (restorePendingHalt copyOk io c1))"

section \<open>Lemmas\<close>

lemma json_strings_map [simp]: "json_strings (JArr (map JStr ss)) = ss"
  by (induction ss) (simp_all add: json_strings_def map_filter_simps)

lemma own_halt_json:
  "own (halt_json h) ''reason'' = JStr (h_reason h)"
  "own (halt_json h) ''mismatches'' = JArr (map JStr (h_mismatches h))"
  "own (halt_json h) ''sources'' = JArr (map JStr (h_sources h))"
  "h_block h = Some b \<Longrightarrow> num_int (js_Number (own (halt_json h) ''blockIndex'')) = Some b"
  by (simp_all add: own_def halt_json_def num_int_def JInt_def)

lemma persistHalt_halted [simp]: "cl_halted (persistHalt io h c) = cl_halted c"
  by (auto simp: persistHalt_def recordHalt_def clearPendingHaltCopy_def dropPendingHaltCopy_def
      writePendingHaltCopy_def deleteSyncState_def setSyncState_def Let_def split: option.splits)

lemma restore_copy:
  assumes "cl_halted c = None" "cl_sync_state c (pendingHaltKey c) = Some (SJson (halt_json h))" "h_block h = Some b"
  shows "cl_halted (snd (restorePendingHalt True io c)) = Some h"
  using assms
  by (simp add: restorePendingHalt_def getSyncState_def own_halt_json own_halt_json(4) [OF assms(3)] Let_def)

lemma startup_unreadable: "\<not> readOk \<or> \<not> copyOk \<Longrightarrow> \<exists>h. cl_halted (startup readOk copyOk io c) = Some h"
  by (auto simp: startup_def resolveStartupHalt_def restorePendingHalt_def getSyncState_def installStartupHalt_def
      Let_def split: option.splits)

definition halt_of :: "int \<Rightarrow> string list \<Rightarrow> string list \<Rightarrow> string \<Rightarrow> halt" where
  "halt_of b ms ss reason = \<lparr>h_block = Some b, h_reason = (if reason = [] then ''cross-source-divergence'' else reason),
     h_mismatches = ms, h_sources = ss\<rparr>"

lemma haltOnDivergence_persists:
  "cl_halted c = None \<Longrightarrow> haltOnDivergence io b ms ss reason c =
     persistHalt io (halt_of b ms ss reason) (c\<lparr>cl_halted := Some (halt_of b ms ss reason)\<rparr>)"
  by (simp add: haltOnDivergence_def halt_of_def Let_def)

lemma persistHalt_row:
  assumes "io_write io" "cl_sync_halt c = []"
  shows "cl_sync_halt (persistHalt io h c) = [h\<lparr>h_reason := take 64 (h_reason h)\<rparr>]"
  using assms
  by (auto simp: persistHalt_def recordHalt_def getActiveHalt_def clearPendingHaltCopy_def dropPendingHaltCopy_def
      deleteSyncState_def setSyncState_def Let_def)

lemma persistHalt_copy:
  assumes "\<not> io_write io" "io_copy io" "cl_sync_halt c = []"
  shows "cl_sync_halt (persistHalt io h c) = []" "cl_dbType (persistHalt io h c) = cl_dbType c"
    "cl_sync_state (persistHalt io h c) (pendingHaltKey c) = Some (SJson (halt_json h))"
  using assms
  by (simp_all add: persistHalt_def recordHalt_def getActiveHalt_def writePendingHaltCopy_def setSyncState_def
      pendingHaltKey_def)

section \<open>Durability\<close>

text \<open>(C28) A halt survives a restart: if the row or its copy was written, the next start is halted on the
  same block before anything is applied, whatever else fails then; an unreadable table halts it too; and only after
  an operator clear that reached the database is the next start free to go on.\<close>

theorem halt_survives_restart:
  assumes "cl_halted c = None" "cl_sync_halt c = []" "io_write io \<or> io_copy io"
    and "c' = haltOnDivergence io b ms ss reason c"
  shows "(\<exists>h. cl_halted (startup readOk copyOk io' (reboot c')) = Some h \<and>
      (readOk \<and> copyOk \<longrightarrow> h_block h = Some b \<and> h_mismatches h = ms)) \<and>
    (reason \<notin> {''halt-state-check-failed'', ''rollback-guard-state-invalid''} \<longrightarrow> io_del io'' \<or> io_copy io'' \<longrightarrow>
      fst (clearHalt True io'' c') = None \<and>
      cl_halted (startup True True io' (reboot (snd (clearHalt True io'' c')))) = None) \<and>
    (reason \<notin> {''halt-state-check-failed'', ''rollback-guard-state-invalid''} \<longrightarrow>
      fst (clearHalt False io'' c') \<noteq> None \<and> snd (clearHalt False io'' c') = c')"
proof (intro conjI impI)
  let ?h = "halt_of b ms ss reason" and ?c = "c\<lparr>cl_halted := Some (halt_of b ms ss reason)\<rparr>"
  have c': "c' = persistHalt io ?h ?c" using assms(1,4) haltOnDivergence_persists by simp
  have halted: "cl_halted c' = Some ?h" by (simp add: c')
  have e: "cl_sync_halt ?c = []" using assms(2) by simp
  show "\<exists>h. cl_halted (startup readOk copyOk io' (reboot c')) = Some h \<and>
      (readOk \<and> copyOk \<longrightarrow> h_block h = Some b \<and> h_mismatches h = ms)"
  proof (cases "readOk \<and> copyOk")
    case False
    then show ?thesis using startup_unreadable by blast
  next
    case True
    show ?thesis
    proof (cases "io_write io")
      case w: True
      then have "cl_sync_halt (reboot c') = [?h\<lparr>h_reason := take 64 (h_reason ?h)\<rparr>]"
        using persistHalt_row [OF w e] by (simp add: c' reboot_def)
      then have "cl_halted (startup readOk copyOk io' (reboot c')) = Some (?h\<lparr>h_reason := take 64 (h_reason ?h)\<rparr>)"
        using True by (simp add: startup_def resolveStartupHalt_def getActiveHalt_def installStartupHalt_def)
      then show ?thesis by (simp add: halt_of_def)
    next
      case w: False
      note copy = persistHalt_copy [OF w _ e, of ?h]
      have "cl_sync_halt (reboot c') = []" "cl_halted (reboot c') = None"
        "cl_sync_state (reboot c') (pendingHaltKey (reboot c')) = Some (SJson (halt_json ?h))"
        using copy w assms(3) by (simp_all add: c' reboot_def pendingHaltKey_def)
      then have "cl_halted (startup readOk copyOk io' (reboot c')) = Some ?h"
        using True restore_copy [of "reboot c'" ?h b io']
        by (simp add: startup_def resolveStartupHalt_def getActiveHalt_def halt_of_def)
      then show ?thesis by (simp add: halt_of_def)
    qed
  qed
  assume r: "reason \<notin> {''halt-state-check-failed'', ''rollback-guard-state-invalid''}"
  then have nr: "h_reason ?h \<noteq> ''halt-state-check-failed''" "h_reason ?h \<noteq> ''rollback-guard-state-invalid''"
    by (simp_all add: halt_of_def)
  show "fst (clearHalt False io'' c') \<noteq> None" "snd (clearHalt False io'' c') = c'"
    using nr halted by (simp_all add: clearHalt_def clearSyncHalt_def Let_def)
  show "fst (clearHalt True io'' c') = None"
    using nr halted by (simp add: clearHalt_def clearSyncHalt_def Let_def)
  assume d: "io_del io'' \<or> io_copy io''"
  let ?x = "snd (clearHalt True io'' c')"
  have "cl_sync_halt ?x = [] \<and> cl_dbType ?x = cl_dbType c' \<and>
      (cl_sync_state ?x (pendingHaltKey c') = None \<or> cl_sync_state ?x (pendingHaltKey c') = Some (SText []))"
    using nr halted d
    by (auto simp: clearHalt_def clearSyncHalt_def Let_def dropPendingHaltCopy_def deleteSyncState_def setSyncState_def
        resetRollbackGuardState_def pendingHaltKey_def rollbackGuardStateKey_def)
  then show "cl_halted (startup True True io' (reboot ?x)) = None"
    by (auto simp: startup_def resolveStartupHalt_def getActiveHalt_def reboot_def restorePendingHalt_def getSyncState_def
        pendingHaltKey_def)
qed

theorem halt_survives_restart_witness:
  "\<exists>h. cl_halted (startup True True all_io (reboot (haltOnDivergence (all_io\<lparr>io_write := False\<rparr>) 11 [''ledger_hash'']
       [''s''] ''local-recompute-divergence'' demo_client))) = Some h \<and> h_block h = Some 11"
proof -
  have "cl_halted demo_client = None" "cl_sync_halt demo_client = []"
    "io_write (all_io\<lparr>io_write := False\<rparr>) \<or> io_copy (all_io\<lparr>io_write := False\<rparr>)"
    by (simp_all add: demo_client_def all_io_def)
  from halt_survives_restart [OF this refl, where readOk = True and copyOk = True and io' = all_io] show ?thesis by blast
qed

end
