(* ===== verification/Source_Votes.thy ===== *)
theory Source_Votes
  imports Client_State
begin

text \<open>
  How a client with several sources decides on a live event: the comparison of hashes
  (\<^verbatim>\<open>src/src/client/hash_verifier.js\<close>), the tally of block reports with its strikes, evictions and
  timeouts, the votes on reorgs, and the dispatch of a live block in
  \<^verbatim>\<open>src/src/client/sync.js\<close>.  The hashes of an event are text, null or absent.  A timer is the event it was
  armed for; its firing is a step of its own.  Sockets and reconnects are left out.
\<close>

section \<open>Events and hashes\<close>

datatype hash_field = Undef | Null | Text string

definition js_string :: "hash_field \<Rightarrow> string" where
  "js_string v = (case v of Undef \<Rightarrow> ''undefined'' | Null \<Rightarrow> ''null'' | Text s \<Rightarrow> s)"

definition is_null :: "hash_field \<Rightarrow> bool" where
  "is_null v = (v = Undef \<or> v = Null)"

text \<open>The fields of a block event: its height, the chain hashes, the committed roots, the hash of the decoder's
  block, and of the payload rows what the parent check reads: the id of the parent hash in the block's own row and
  the \<^verbatim>\<open>index_transactions\<close> rows.\<close>

record block_event =
  be_block :: int
  be_ledger :: hash_field
  be_actions :: hash_field
  be_contract :: hash_field
  be_state :: hash_field
  be_block_hash :: hash_field
  be_balances_root :: hash_field
  be_block_merkle_root :: hash_field
  be_state_root :: hash_field
  be_prev_id :: "string option"
  be_index_txs :: "(string \<times> string) list"

text \<open>\<^verbatim>\<open>compareBlockHashes\<close>: the mismatched and the skipped fields.\<close>

definition compareBlockHashes :: "block_event \<Rightarrow> block_event \<Rightarrow> string list \<times> (string \<times> string) list" where
  "compareBlockHashes a b =
     ((if be_ledger a \<noteq> be_ledger b then [''ledger_hash''] else []) @
      (if be_actions a \<noteq> be_actions b then [''actions_hash''] else []) @
      (if be_contract a \<noteq> be_contract b then [''contract_hash''] else []) @
      (if \<not> is_null (be_state a) \<and> \<not> is_null (be_state b) \<and> be_state a \<noteq> be_state b then [''state_hash''] else []),
      (if is_null (be_state a) = is_null (be_state b) then []
       else [(''state_hash'', if is_null (be_state a) then ''absent-local'' else ''absent-remote'')]))"

text \<open>\<^verbatim>\<open>verifyChainContinuity\<close>: the reason a block does not extend the tip.\<close>

definition verifyChainContinuity :: "int option \<Rightarrow> int \<Rightarrow> string option" where
  "verifyChainContinuity prev n =
     (case prev of
        None \<Rightarrow> None
      | Some p \<Rightarrow> if n \<noteq> p + 1 then Some (''Block gap: expected '' @ int_str (p + 1) @ '', got '' @ int_str n) else None)"

section \<open>State\<close>

text \<open>One held reorg: the sources that voted, whether its timer runs, the event, whether the tip is
  fetched again after the unwind, and the last report of each source.\<close>

record reorg_entry =
  en_votes :: "nat list"
  en_timer :: bool
  en_event :: reorg_event
  en_rewind :: bool
  en_reports :: "(nat \<times> reorg_report) list"

text \<open>The client with its live side.  \<^verbatim>\<open>_evictedSources\<close> and the strict sets are lists without
  repetition; \<^verbatim>\<open>pendingHashes\<close> maps a height to the reports by source; \<open>lv_indexTxs\<close> are the replica's own
  \<^verbatim>\<open>index_transactions\<close> rows.\<close>

record live =
  lv_client :: client
  lv_verifyHashes :: bool
  lv_strict :: bool
  lv_haltOnDivergence :: bool
  lv_sourceQuorum :: nat
  lv_evictThreshold :: nat
  lv_strikeWindow :: int
  lv_lastHashes :: "block_event option"
  lv_evicted :: "nat list"
  lv_strikes :: "nat \<Rightarrow> int list"
  lv_pending :: "int \<rightharpoonup> (nat \<times> block_event) list"
  lv_timers :: "int \<rightharpoonup> block_event"
  lv_strictConfirm :: "int list"
  lv_reorgs :: "int \<rightharpoonup> reorg_entry"
  lv_strictReorg :: "int list"
  lv_lastAgreeing :: "nat option"
  lv_indexTxs :: "(string \<times> string) list"

definition lv_sources :: "live \<Rightarrow> string list" where
  "lv_sources s = cl_sources (lv_client s)"

definition lv_tip :: "live \<Rightarrow> int option" where
  "lv_tip s = cl_lastApplied (lv_client s)"

text \<open>\<^verbatim>\<open>null\<close> compares as 0.\<close>

definition tip_num :: "live \<Rightarrow> int" where
  "tip_num s = (case lv_tip s of None \<Rightarrow> 0 | Some t \<Rightarrow> t)"

text \<open>The threshold of the constructor: the configured value kept in range, else a simple majority.\<close>

definition source_quorum :: "nat \<Rightarrow> nat \<Rightarrow> nat" where
  "source_quorum rawQuorum numSources =
     (if rawQuorum \<ge> 1 then min (max 1 rawQuorum) (max 1 numSources)
      else if numSources \<ge> 1 then (numSources + 2) div 2 else 1)"

section \<open>Sources\<close>

definition activeSourceCount :: "live \<Rightarrow> nat" where
  "activeSourceCount s = length (lv_sources s) - length (lv_evicted s)"

definition activeSourceIndices :: "live \<Rightarrow> nat list" where
  "activeSourceIndices s = filter (\<lambda>i. i \<notin> set (lv_evicted s)) [0..<length (lv_sources s)]"

definition effectiveQuorum :: "live \<Rightarrow> nat" where
  "effectiveQuorum s = min (lv_sourceQuorum s) (max 1 (activeSourceCount s))"

definition sourceQuorumActive :: "live \<Rightarrow> bool" where
  "sourceQuorumActive s = (cl_dbType (lv_client s) = ''indexer'' \<and> lv_verifyHashes s \<and> activeSourceCount s > 1)"

definition sourceReorgQuorumActive :: "live \<Rightarrow> bool" where
  "sourceReorgQuorumActive s =
     (if activeSourceCount s \<le> 1 then False
      else cl_dbType (lv_client s) = ''decoder'' \<or> sourceQuorumActive s)"

definition evictSource :: "nat \<Rightarrow> live \<Rightarrow> live" where
  "evictSource i s =
     (if i \<in> set (lv_evicted s) then s
      else if activeSourceCount s - 1 < 2 then s
      else s\<lparr>lv_evicted := lv_evicted s @ [i], lv_strikes := (lv_strikes s)(i := [])\<rparr>)"

definition strikeSource :: "nat \<Rightarrow> int \<Rightarrow> live \<Rightarrow> live" where
  "strikeSource i blockIndex s =
     (if i \<in> set (lv_evicted s) then s
      else
        (let old = lv_strikes s i;
             pushed = (if old = [] \<or> last old \<noteq> blockIndex then old @ [blockIndex] else old);
             strikes = filter (\<lambda>b. b > blockIndex - lv_strikeWindow s) pushed;
             s1 = s\<lparr>lv_strikes := (lv_strikes s)(i := strikes)\<rparr>
         in if length strikes \<ge> lv_evictThreshold s then evictSource i s1 else s1))"

section \<open>The tally of a block\<close>

definition baseTupleKey :: "block_event \<Rightarrow> string" where
  "baseTupleKey h = js_string (be_ledger h) @ ''|'' @ js_string (be_actions h) @ ''|'' @ js_string (be_contract h)"

definition hashTupleKey :: "block_event \<Rightarrow> string" where
  "hashTupleKey h = js_string (be_ledger h) @ ''|'' @ js_string (be_actions h) @ ''|'' @ js_string (be_contract h) @
     ''|'' @ js_string (if is_null (be_state h) then Null else be_state h)"

definition state_text :: "block_event \<Rightarrow> string option" where
  "state_text h = (case be_state h of Text t \<Rightarrow> Some t | _ \<Rightarrow> None)"

definition voteKey :: "(string \<Rightarrow> string list) \<Rightarrow> block_event \<Rightarrow> string" where
  "voteKey baseStates h =
     (let states = baseStates (baseTupleKey h) in
      if is_null (be_state h) \<and> length states = 1 then baseTupleKey h @ ''|'' @ hd states else hashTupleKey h)"

text \<open>The keys of an object with integer keys come in ascending order.\<close>

fun put_report :: "nat \<Rightarrow> block_event \<Rightarrow> (nat \<times> block_event) list \<Rightarrow> (nat \<times> block_event) list" where
  "put_report i e [] = [(i, e)]"
| "put_report i e ((j, d) # rs) =
     (if i < j then (i, e) # (j, d) # rs else if i = j then (i, e) # rs else (j, d) # put_report i e rs)"

definition recordPendingBlockHash :: "block_event \<Rightarrow> nat \<Rightarrow> live \<Rightarrow> (nat \<times> block_event) list \<times> live" where
  "recordPendingBlockHash event i s =
     (let old = (case lv_pending s (be_block event) of None \<Rightarrow> [] | Some rs \<Rightarrow> rs);
          pending = put_report i event old
      in (pending, s\<lparr>lv_pending := (lv_pending s)(be_block event \<mapsto> pending)\<rparr>))"

record tally =
  ta_groups :: "(string \<times> nat list) list"
  ta_reported :: nat
  ta_states :: "string \<Rightarrow> string list"
  ta_abstain :: "string list"

definition first_occurrences :: "'a list \<Rightarrow> 'a list" where
  "first_occurrences xs = rev (remdups (rev xs))"

definition active_reports :: "live \<Rightarrow> (nat \<times> block_event) list \<Rightarrow> (nat \<times> block_event) list" where
  "active_reports s pending = filter (\<lambda>(i, _). i \<notin> set (lv_evicted s)) pending"

definition base_states :: "(nat \<times> block_event) list \<Rightarrow> string \<Rightarrow> string list" where
  "base_states active b =
     first_occurrences (List.map_filter (\<lambda>(_, e). if baseTupleKey e = b then state_text e else None) active)"

definition tallyPendingBlockHashes :: "live \<Rightarrow> (nat \<times> block_event) list \<Rightarrow> tally" where
  "tallyPendingBlockHashes s pending =
     (let active = active_reports s pending; states = base_states active; key = (\<lambda>r. voteKey states (snd r)) in
      \<lparr>ta_groups = map (\<lambda>k. (k, map fst (filter (\<lambda>r. key r = k) active))) (first_occurrences (map key active)),
       ta_reported = length active,
       ta_states = states,
       ta_abstain = map key (filter (\<lambda>(_, e). is_null (be_state e) \<and> length (states (baseTupleKey e)) > 1) active)\<rparr>)"

definition group_members :: "tally \<Rightarrow> string \<Rightarrow> nat list" where
  "group_members t k = (case map_of (ta_groups t) k of None \<Rightarrow> [] | Some is \<Rightarrow> is)"

text \<open>The payload to apply: the given event, or the first of a member that carries a state hash.\<close>

definition checkableGroupEvent :: "(nat \<times> block_event) list \<Rightarrow> nat list \<Rightarrow> block_event \<Rightarrow> block_event" where
  "checkableGroupEvent pending members event =
     (if \<not> is_null (be_state event) then event
      else (case List.map_filter (\<lambda>i. case map_of pending i of
                   Some e \<Rightarrow> if is_null (be_state e) then None else Some e | None \<Rightarrow> None) members of
              [] \<Rightarrow> event
            | e # _ \<Rightarrow> e))"

definition strike_dissenters :: "int \<Rightarrow> string \<Rightarrow> tally \<Rightarrow> (nat \<times> block_event) list \<Rightarrow> live \<Rightarrow> live" where
  "strike_dissenters blockIndex currentKey t pending s =
     fold (\<lambda>(i, e) s. if i \<in> set (lv_evicted s) then s
            else if voteKey (ta_states t) e \<noteq> currentKey \<and> voteKey (ta_states t) e \<notin> set (ta_abstain t)
            then strikeSource i blockIndex s else s) pending s"

definition forget_block :: "int \<Rightarrow> live \<Rightarrow> live" where
  "forget_block blockIndex s =
     s\<lparr>lv_pending := (lv_pending s)(blockIndex := None), lv_strictConfirm := removeAll blockIndex (lv_strictConfirm s),
       lv_timers := (lv_timers s)(blockIndex := None)\<rparr>"

definition acceptBlockQuorum ::
    "int \<Rightarrow> (nat \<times> block_event) list \<Rightarrow> string \<Rightarrow> nat list \<Rightarrow> tally \<Rightarrow> live \<Rightarrow> live" where
  "acceptBlockQuorum blockIndex pending currentKey currentGroup t s =
     forget_block blockIndex ((strike_dissenters blockIndex currentKey t pending s)\<lparr>lv_lastAgreeing := Some (length currentGroup)\<rparr>)"

text \<open>A halt of the live side: the halt of the client, and nothing stays pending.\<close>

definition clearAllPendingReorgs :: "live \<Rightarrow> live" where
  "clearAllPendingReorgs s = s\<lparr>lv_reorgs := Map.empty, lv_strictReorg := []\<rparr>"

definition stopDivergenceApply :: "live \<Rightarrow> live" where
  "stopDivergenceApply s =
     clearAllPendingReorgs (s\<lparr>lv_pending := Map.empty, lv_strictConfirm := [], lv_timers := Map.empty\<rparr>)"

definition live_halt :: "halt_io \<Rightarrow> int \<Rightarrow> string list \<Rightarrow> string list \<Rightarrow> string \<Rightarrow> live \<Rightarrow> live" where
  "live_halt io blockIndex mismatches sources reason s =
     (if cl_halted (lv_client s) \<noteq> None then s
      else stopDivergenceApply (s\<lparr>lv_client := haltOnDivergence io blockIndex mismatches sources reason (lv_client s)\<rparr>))"

definition source_name :: "live \<Rightarrow> nat \<Rightarrow> string" where
  "source_name s i = (if i < length (lv_sources s) then lv_sources s ! i else ''undefined'')"

definition rejectBlockWithoutQuorum :: "halt_io \<Rightarrow> int \<Rightarrow> (string \<times> nat list) list \<Rightarrow> live \<Rightarrow> live" where
  "rejectBlockWithoutQuorum io blockIndex groups s =
     (let s1 = forget_block blockIndex s in
      if lv_haltOnDivergence s then
        live_halt io blockIndex (map fst groups) (concat (map (map (source_name s) \<circ> snd) groups)) ''no-source-quorum'' s1
      else if lv_strict s then s1\<lparr>lv_strictConfirm := List.insert blockIndex (lv_strictConfirm s1)\<rparr>
      else s1)"

definition armBlockQuorumTimer :: "block_event \<Rightarrow> live \<Rightarrow> live" where
  "armBlockQuorumTimer event s =
     (if cl_stopping (lv_client s) \<or> lv_timers s (be_block event) \<noteq> None then s
      else s\<lparr>lv_timers := (lv_timers s)(be_block event \<mapsto> event)\<rparr>)"

text \<open>What a handler asks for next: apply a block, or an incremental catch-up.\<close>

datatype request = ApplyBlock block_event | CatchUp int | Done

text \<open>The firing of a block timer.  The pending reports are dropped after the apply.\<close>

definition fireBlockTimer :: "halt_io \<Rightarrow> int \<Rightarrow> live \<Rightarrow> request \<times> live" where
  "fireBlockTimer io blockIndex s =
     (case lv_timers s blockIndex of
        None \<Rightarrow> (Done, s)
      | Some event \<Rightarrow>
          if cl_stopping (lv_client s) then (Done, s)
          else
            (let s1 = s\<lparr>lv_timers := (lv_timers s)(blockIndex := None)\<rparr> in
             case lv_pending s1 blockIndex of
               None \<Rightarrow> (Done, s1)
             | Some pending \<Rightarrow>
                 if \<not> tip_num s1 < blockIndex then (Done, s1)
                 else if lv_strict s1 then
                   (Done, s1\<lparr>lv_strictConfirm := List.insert blockIndex (lv_strictConfirm s1)\<rparr>)
                 else
                   (let t = tallyPendingBlockHashes s1 pending; heldKey = voteKey (ta_states t) event in
                    if length (ta_groups t) > 1 then (Done, rejectBlockWithoutQuorum io blockIndex (ta_groups t) s1)
                    else if heldKey \<notin> fst ` set (ta_groups t) then
                      (Done, s1\<lparr>lv_pending := (lv_pending s1)(blockIndex := None)\<rparr>)
                    else (ApplyBlock (checkableGroupEvent pending (group_members t heldKey) event),
                          s1\<lparr>lv_pending := (lv_pending s1)(blockIndex := None)\<rparr>))))"

text \<open>\<^term>\<open>None\<close> lets the caller apply its own event.\<close>

definition handleBlockQuorum :: "halt_io \<Rightarrow> block_event \<Rightarrow> nat \<Rightarrow> live \<Rightarrow> request option \<times> live" where
  "handleBlockQuorum io event i s =
     (if \<not> sourceQuorumActive s then (None, s)
      else if i \<in> set (lv_evicted s) then (Some Done, s)
      else
        (let (pending, s1) = recordPendingBlockHash event i s; t = tallyPendingBlockHashes s1 pending;
             currentKey = voteKey (ta_states t) event; currentGroup = group_members t currentKey in
         if currentKey \<notin> set (ta_abstain t) \<and> length currentGroup \<ge> effectiveQuorum s1 then
           (let s2 = acceptBlockQuorum (be_block event) pending currentKey currentGroup t s1;
                chosen = checkableGroupEvent pending currentGroup event in
            (if chosen = event then None else Some (ApplyBlock chosen), s2))
         else if ta_reported t \<ge> activeSourceCount s1 then
           (Some Done, rejectBlockWithoutQuorum io (be_block event) (ta_groups t) s1)
         else (Some Done, armBlockQuorumTimer event s1)))"

end
