(* ===== verification/Live_Events.thy ===== *)
theory Live_Events
  imports Source_Votes
begin

text \<open>
  The dispatch of live events: the parent check of decoder blocks (\<^verbatim>\<open>src/src/client/decoder_link.js\<close>), the votes
  on source-reported reorgs with their timers, and the handlers of a block and of a reorg event in
  \<^verbatim>\<open>src/src/client/sync.js\<close>.  A handler returns what it asks for next together with the state; an exception is an
  error of the result.
\<close>

section \<open>Parent links of decoder blocks\<close>

text \<open>An \<^verbatim>\<open>index_transactions\<close> row with an empty hash is the seeded one.\<close>

definition find_hash :: "(string \<times> string) list \<Rightarrow> (string \<times> string) list \<Rightarrow> string \<Rightarrow> string option" where
  "find_hash payload held prevId = (case map_of payload prevId of Some h \<Rightarrow> Some h | None \<Rightarrow> map_of held prevId)"

definition previousBlockHash :: "string option \<Rightarrow> (string \<times> string) list \<Rightarrow> (string \<times> string) list \<Rightarrow> string option" where
  "previousBlockHash prevId payload held =
     (case prevId of
        None \<Rightarrow> None
      | Some p \<Rightarrow> (case find_hash payload held p of Some h \<Rightarrow> if h = [] then None else Some h | None \<Rightarrow> None))"

definition decoderLinkBroken ::
    "string option \<Rightarrow> (string \<times> string) list \<Rightarrow> hash_field \<Rightarrow> (string \<times> string) list \<Rightarrow> bool" where
  "decoderLinkBroken prevId payload tipHash held =
     (if is_null tipHash \<or> tipHash = Text [] then False
      else (case previousBlockHash prevId payload held of None \<Rightarrow> False | Some h \<Rightarrow> Text h \<noteq> tipHash))"

datatype link_state = Linked | Broken | LinkUnresolved

definition decoderLinkState ::
    "string option \<Rightarrow> (string \<times> string) list \<Rightarrow> hash_field \<Rightarrow> (string \<times> string) list \<Rightarrow> link_state" where
  "decoderLinkState prevId payload tipHash held =
     (case prevId of
        None \<Rightarrow> Linked
      | Some p \<Rightarrow>
          if is_null tipHash \<or> tipHash = Text [] then LinkUnresolved
          else (case find_hash payload held p of
                  None \<Rightarrow> LinkUnresolved
                | Some h \<Rightarrow> if h = [] then Linked else if Text h = tipHash then Linked else Broken))"

definition decoderTipReplaced :: "block_event \<Rightarrow> live \<Rightarrow> bool" where
  "decoderTipReplaced event s =
     decoderLinkBroken (be_prev_id event) (be_index_txs event)
       (case lv_lastHashes s of None \<Rightarrow> Undef | Some h \<Rightarrow> be_block_hash h) (lv_indexTxs s)"

section \<open>Reorg votes\<close>

definition reorg_report_of :: "reorg_event \<Rightarrow> nat \<Rightarrow> reorg_report" where
  "reorg_report_of event i =
     \<lparr>rr_source = i, rr_target = map_option ra_target (re_retroactive event),
      rr_rules_to = map_option ra_rules_to (re_retroactive event)\<rparr>"

definition recordReorgReport :: "reorg_event \<Rightarrow> nat \<Rightarrow> reorg_entry \<Rightarrow> reorg_entry" where
  "recordReorgReport event i e = e\<lparr>en_reports := AList.update i (reorg_report_of event i) (en_reports e)\<rparr>"

definition recordReorgVote :: "reorg_event \<Rightarrow> nat \<Rightarrow> bool \<Rightarrow> live \<Rightarrow> reorg_entry \<times> live" where
  "recordReorgVote event i rewind s =
     (let e0 = (case lv_reorgs s (re_block event) of
                  None \<Rightarrow> \<lparr>en_votes = [], en_timer = False, en_event = event, en_rewind = False, en_reports = []\<rparr>
                | Some e \<Rightarrow> e);
          e1 = recordReorgReport event i (e0\<lparr>en_votes := (if i \<in> set (en_votes e0) then en_votes e0 else en_votes e0 @ [i])\<rparr>);
          e2 = (if rewind then e1\<lparr>en_rewind := True\<rparr> else e1)
      in (e2, s\<lparr>lv_reorgs := (lv_reorgs s)(re_block event \<mapsto> e2)\<rparr>))"

definition activeRetroactiveReports :: "live \<Rightarrow> reorg_entry \<Rightarrow> reorg_report list" where
  "activeRetroactiveReports s e = filter (\<lambda>r. rr_source r \<notin> set (lv_evicted s)) (map snd (en_reports e))"

definition entryHasRetroactiveReport :: "live \<Rightarrow> reorg_entry \<Rightarrow> bool" where
  "entryHasRetroactiveReport s e =
     list_ex (\<lambda>r. rr_target r \<noteq> None \<or> rr_rules_to r \<noteq> None) (activeRetroactiveReports s e)"

definition activeReorgVotes :: "live \<Rightarrow> reorg_entry \<Rightarrow> nat" where
  "activeReorgVotes s e = length (filter (\<lambda>i. i \<notin> set (lv_evicted s)) (en_votes e))"

definition clearPendingReorg :: "int \<Rightarrow> live \<Rightarrow> live" where
  "clearPendingReorg height s =
     s\<lparr>lv_reorgs := (lv_reorgs s)(height := None), lv_strictReorg := removeAll height (lv_strictReorg s)\<rparr>"

definition prunePendingReorgs :: "live \<Rightarrow> live" where
  "prunePendingReorgs s =
     (case lv_tip s of
        None \<Rightarrow> s
      | Some tip \<Rightarrow>
          s\<lparr>lv_reorgs := (\<lambda>h. if h > tip then None else lv_reorgs s h),
            lv_strictReorg := filter (\<lambda>h. \<not> (h > tip \<and> lv_reorgs s h \<noteq> None)) (lv_strictReorg s)\<rparr>)"

text \<open>What surrounds one reorg: the faults of the halt write and of the rollback, and the hash row of the new tip as
  the database returns it.\<close>

record reorg_io =
  ri_halt :: halt_io
  ri_rollback :: rollback_io
  ri_tip_row :: "block_event option"

text \<open>\<^verbatim>\<open>handleReorg\<close> on the live side.  A successful rollback lowers the tip; a new halt clears what is pending.\<close>

definition live_reorg :: "reorg_io \<Rightarrow> reorg_event \<Rightarrow> reorg_report list option \<Rightarrow> live \<Rightarrow> live res" where
  "live_reorg io event reports s =
     (let c = (lv_client s)\<lparr>cl_quorum := effectiveQuorum s\<rparr> in
      rbind (handleReorg (ri_halt io) (ri_rollback io) event reports c) (\<lambda>c'.
        (let s' = s\<lparr>lv_client := c'\<rparr> in
         if cl_halted c = None \<and> cl_halted c' \<noteq> None then Inr (stopDivergenceApply s')
         else if cl_lastApplied c' \<noteq> cl_lastApplied c then
           Inr (prunePendingReorgs (s'\<lparr>lv_lastHashes := (if re_block event - 1 \<ge> 0 then ri_tip_row io else None)\<rparr>))
         else Inr s')))"

definition rewindForkedHead :: "reorg_io \<Rightarrow> reorg_event \<Rightarrow> reorg_report list option \<Rightarrow> live \<Rightarrow> (request \<times> live) res" where
  "rewindForkedHead io event reports s =
     rbind (live_reorg io event reports s) (\<lambda>s'. Inr (CatchUp (tip_num s' + 1), s'))"

definition applyAgreedReorg :: "reorg_io \<Rightarrow> reorg_entry \<Rightarrow> live \<Rightarrow> (request \<times> live) res" where
  "applyAgreedReorg io e s =
     (if en_rewind e then rewindForkedHead io (en_event e) (Some (activeRetroactiveReports s e)) s
      else rbind (live_reorg io (en_event e) (Some (activeRetroactiveReports s e)) s) (\<lambda>s'. Inr (Done, s')))"

definition armReorgQuorumTimer :: "int \<Rightarrow> live \<Rightarrow> live" where
  "armReorgQuorumTimer height s =
     (if cl_stopping (lv_client s) then s
      else (case lv_reorgs s height of
              None \<Rightarrow> s
            | Some e \<Rightarrow> if en_timer e then s else s\<lparr>lv_reorgs := (lv_reorgs s)(height \<mapsto> e\<lparr>en_timer := True\<rparr>)\<rparr>))"

definition fireReorgTimer :: "reorg_io \<Rightarrow> int \<Rightarrow> live \<Rightarrow> (request \<times> live) res" where
  "fireReorgTimer io height s =
     (case lv_reorgs s height of
        None \<Rightarrow> Inr (Done, s)
      | Some e \<Rightarrow>
          if \<not> en_timer e \<or> cl_stopping (lv_client s) then Inr (Done, s)
          else if lv_strict s then
            Inr (Done, s\<lparr>lv_reorgs := (lv_reorgs s)(height \<mapsto> e\<lparr>en_timer := False\<rparr>),
                         lv_strictReorg := List.insert height (lv_strictReorg s)\<rparr>)
          else
            (let s1 = s\<lparr>lv_reorgs := (lv_reorgs s)(height := None)\<rparr> in
             if activeReorgVotes s1 e = 0 then Inr (Done, s1)
             else applyAgreedReorg io (e\<lparr>en_timer := False\<rparr>) s1))"

definition handleSourceReorg :: "reorg_io \<Rightarrow> reorg_event \<Rightarrow> nat option \<Rightarrow> bool \<Rightarrow> live \<Rightarrow> (request \<times> live) res" where
  "handleSourceReorg io event source rewind s =
     (if cl_halted (lv_client s) \<noteq> None then Inr (Done, s)
      else (case source of
        None \<Rightarrow> applyAgreedReorg io \<lparr>en_votes = [], en_timer = False, en_event = event, en_rewind = rewind, en_reports = []\<rparr> s
      | Some i \<Rightarrow>
          if i \<in> set (lv_evicted s) then Inr (Done, s)
          else (case lv_tip s of
            None \<Rightarrow> Inr (Done, s)
          | Some tip \<Rightarrow>
              if re_block event > tip then Inr (Done, s)
              else
                (let (depth, g) = depthFor tip (re_block event) (cl_guard (lv_client s));
                     s0 = s\<lparr>lv_client := (lv_client s)\<lparr>cl_guard := g\<rparr>\<rparr>;
                     deep = depth > g_max g;
                     retroRequired = (deep \<and> re_retroactive event \<noteq> None \<and> activeSourceCount s0 > 1) in
                 if \<not> sourceReorgQuorumActive s0 \<and> \<not> retroRequired then
                   applyAgreedReorg io (recordReorgReport event i
                     \<lparr>en_votes = [], en_timer = False, en_event = event, en_rewind = rewind, en_reports = []\<rparr>) s0
                 else
                   (let (e, s1) = recordReorgVote event i rewind s0 in
                    if activeReorgVotes s1 e \<ge> effectiveQuorum s1 then
                      (if deep then
                         rbind (retroactiveReorgAdmission ((lv_client s1)\<lparr>cl_quorum := effectiveQuorum s1\<rparr>) event depth
                                  (activeRetroactiveReports s1 e)) (\<lambda>(_, reason).
                           if reason = ''no_quorum'' then
                             Inr (Done, s1\<lparr>lv_reorgs := (lv_reorgs s1)(re_block event \<mapsto> e\<lparr>en_timer := False\<rparr>)\<rparr>)
                           else applyAgreedReorg io (e\<lparr>en_event := event\<rparr>) (clearPendingReorg (re_block event) s1))
                       else applyAgreedReorg io e (clearPendingReorg (re_block event) s1))
                    else if \<not> deep \<or> \<not> entryHasRetroactiveReport s1 e then
                      Inr (Done, armReorgQuorumTimer (re_block event) s1)
                    else Inr (Done, s1))))))"

section \<open>Live blocks\<close>

definition head_fork :: "block_event \<Rightarrow> live \<Rightarrow> bool" where
  "head_fork event s =
     (case lv_lastHashes s of
        None \<Rightarrow> False
      | Some lh \<Rightarrow>
          if cl_dbType (lv_client s) = ''decoder'' then
            \<not> (is_null (be_block_hash lh) \<or> be_block_hash lh = Text []) \<and>
            \<not> (is_null (be_block_hash event) \<or> be_block_hash event = Text []) \<and> be_block_hash event \<noteq> be_block_hash lh
          else cl_dbType (lv_client s) = ''indexer'' \<and>
            list_ex (\<lambda>f. \<not> is_null (f event) \<and> \<not> is_null (f lh) \<and> f event \<noteq> f lh) [be_ledger, be_actions, be_contract])"

definition plain_reorg :: "int \<Rightarrow> reorg_event" where
  "plain_reorg b = \<lparr>re_block = b, re_retroactive = None\<rparr>"

text \<open>The branches of both head-duplicate handlers: \<^term>\<open>None\<close> is their \<^verbatim>\<open>null\<close>, a silent skip.\<close>

definition fork_at :: "reorg_io \<Rightarrow> int \<Rightarrow> nat option \<Rightarrow> live \<Rightarrow> (request \<times> live) res" where
  "fork_at io b source s =
     (case source of
        None \<Rightarrow> rewindForkedHead io (plain_reorg b) None s
      | Some i \<Rightarrow> handleSourceReorg io (plain_reorg b) (Some i) True s)"

definition handlePreviouslyAppliedBlock :: "reorg_io \<Rightarrow> block_event \<Rightarrow> nat option \<Rightarrow> live \<Rightarrow> (request \<times> live) res option" where
  "handlePreviouslyAppliedBlock io event source s =
     (case lv_tip s of
        None \<Rightarrow> None
      | Some tip \<Rightarrow>
          if be_block event > tip then None
          else if be_block event = tip \<and> head_fork event s then Some (fork_at io tip source s)
          else Some (Inr (Done, s)))"

text \<open>Every event comes from a source: \<^verbatim>\<open>handleEvent\<close> passes its index.\<close>

definition handleBlock :: "reorg_io \<Rightarrow> block_event \<Rightarrow> nat \<Rightarrow> live \<Rightarrow> (request \<times> live) res" where
  "handleBlock io event i s =
     (if lv_tip s = None \<and> be_block event > 0 then Inr (CatchUp (be_block event), s)
      else (case handlePreviouslyAppliedBlock io event (Some i) s of
        Some r \<Rightarrow> r
      | None \<Rightarrow>
          (let indexer = (cl_dbType (lv_client s) = ''indexer'') in
           if lv_tip s \<noteq> None \<and> (if indexer then verifyChainContinuity (lv_tip s) (be_block event) \<noteq> None
                               else be_block event > tip_num s + 1)
           then Inr (CatchUp (tip_num s + 1), s)
           else if lv_tip s \<noteq> None \<and> \<not> indexer \<and> decoderTipReplaced event s then fork_at io (tip_num s) (Some i) s
           else (case handleBlockQuorum (ri_halt io) event i s of
                   (None, s') \<Rightarrow> Inr (ApplyBlock event, s')
                 | (Some r, s') \<Rightarrow> Inr (r, s')))))"

text \<open>A catch-up from one source is refused while halted or while a strict confirmation is outstanding.\<close>

definition strictPendingConfirmationHeights :: "live \<Rightarrow> int list" where
  "strictPendingConfirmationHeights s = sort (lv_strictConfirm s @ lv_strictReorg s)"

definition incrementalCatchUpBlocked :: "live \<Rightarrow> bool" where
  "incrementalCatchUpBlocked s =
     (if cl_halted (lv_client s) \<noteq> None then True else length (lv_strictConfirm s) > 0 \<or> length (lv_strictReorg s) > 0)"

end
