(* ===== verification/Source_Quorum.thy ===== *)
theory Source_Quorum
  imports Live_Events Rollback_Bound
begin

text \<open>
  What the votes of several sources guarantee.  A block leaves the vote on the reports of a quorum of distinct active
  sources, or, without strict confirmation, on its timer while no report that counts contests it; a reorg moves the tip
  on the claims of a quorum, or, without strict confirmation, on its timer; and while the sources outside a faulty
  minority tell one story, none of them is evicted and, but for the two gaps the theorem names, only that story is
  applied.
\<close>

section \<open>Keys\<close>

text \<open>A report whose hashes carry no separator; hexadecimal text never does.\<close>

definition pipes :: "string \<Rightarrow> nat" where
  "pipes t = length (filter (\<lambda>c. c = CHR 0x7C) t)"

definition clean_report :: "block_event \<Rightarrow> bool" where
  "clean_report e \<longleftrightarrow> (\<forall>f \<in> {be_ledger e, be_actions e, be_contract e, be_state e}. pipes (js_string f) = 0)"

definition same_chain_hashes :: "block_event \<Rightarrow> block_event \<Rightarrow> bool" where
  "same_chain_hashes d e \<longleftrightarrow> js_string (be_ledger d) = js_string (be_ledger e) \<and>
     js_string (be_actions d) = js_string (be_actions e) \<and> js_string (be_contract d) = js_string (be_contract e)"

lemma pipes_simps [simp]:
  "pipes [] = 0" "pipes (c # t) = (if c = CHR 0x7C then 1 else 0) + pipes t" "pipes (a @ b) = pipes a + pipes b"
  by (auto simp: pipes_def)

lemma split_at_first:
  "z \<notin> set a \<Longrightarrow> z \<notin> set b \<Longrightarrow> a @ z # x = b @ z # y \<Longrightarrow> a = b \<and> x = y"
proof (induction a arbitrary: b)
  case Nil
  then show ?case by (cases b) auto
next
  case (Cons c a)
  then show ?case by (cases b) auto
qed

lemma pipes_zero: "pipes t = 0 \<longleftrightarrow> CHR 0x7C \<notin> set t"
  by (auto simp: pipes_def filter_empty_conv)

lemma pipe_free_append:
  "pipes a = 0 \<Longrightarrow> pipes b = 0 \<Longrightarrow> a @ CHR 0x7C # x = b @ CHR 0x7C # y \<Longrightarrow> a = b \<and> x = y"
  unfolding pipes_zero by (rule split_at_first)

text \<open>A vote key is the base key, a separator and a state part.\<close>

definition state_part :: "(string \<Rightarrow> string list) \<Rightarrow> block_event \<Rightarrow> string" where
  "state_part states h =
     (if is_null (be_state h) \<and> length (states (baseTupleKey h)) = 1 then hd (states (baseTupleKey h))
      else js_string (if is_null (be_state h) then Null else be_state h))"

lemma voteKey_parts:
  "voteKey states h = js_string (be_ledger h) @ ''|'' @ js_string (be_actions h) @ ''|'' @ js_string (be_contract h) @ ''|'' @ state_part states h"
  by (simp add: voteKey_def state_part_def hashTupleKey_def baseTupleKey_def Let_def)

lemma voteKey_same:
  assumes same: "voteKey states d = voteKey states e" and clean: "clean_report e" and part: "pipes (state_part states e) = 0"
  shows "same_chain_hashes d e \<and> state_part states d = state_part states e"
proof -
  have "pipes (voteKey states d) = 3"
    unfolding same using clean part by (simp add: voteKey_parts clean_report_def)
  then have d: "pipes (js_string (be_ledger d)) = 0" "pipes (js_string (be_actions d)) = 0" "pipes (js_string (be_contract d)) = 0"
    by (auto simp: voteKey_parts)
  have e: "pipes (js_string (be_ledger e)) = 0" "pipes (js_string (be_actions e)) = 0" "pipes (js_string (be_contract e)) = 0"
    using clean by (auto simp: clean_report_def)
  show ?thesis
    using same d e unfolding voteKey_parts same_chain_hashes_def append_Cons append_Nil
    by (metis pipe_free_append)
qed

section \<open>Tallies\<close>

lemma first_occurrences_set [simp]: "set (first_occurrences xs) = set xs"
  by (simp add: first_occurrences_def)

lemma first_occurrences_distinct [simp]: "distinct (first_occurrences xs)"
  by (simp add: first_occurrences_def)

lemma map_of_keyed: "map_of (map (\<lambda>k. (k, f k)) ks) k = (if k \<in> set ks then Some (f k) else None)"
  by (induction ks) auto

lemma tally_simps [simp]:
  "ta_states (tallyPendingBlockHashes s p) = base_states (active_reports s p)"
  "ta_reported (tallyPendingBlockHashes s p) = length (active_reports s p)"
  by (simp_all add: tallyPendingBlockHashes_def Let_def)

lemma group_members_eq:
  "group_members (tallyPendingBlockHashes s p) k =
     map fst (filter (\<lambda>r. voteKey (base_states (active_reports s p)) (snd r) = k) (active_reports s p))"
  by (auto simp: group_members_def tallyPendingBlockHashes_def Let_def map_of_keyed filter_empty_conv)

lemma abstain_iff:
  "k \<in> set (ta_abstain (tallyPendingBlockHashes s p)) \<longleftrightarrow>
     (\<exists>(i, e) \<in> set (active_reports s p). is_null (be_state e) \<and>
        length (base_states (active_reports s p) (baseTupleKey e)) > 1 \<and> voteKey (base_states (active_reports s p)) e = k)"
  by (force simp: tallyPendingBlockHashes_def Let_def)

lemma tally_keys:
  "fst ` set (ta_groups (tallyPendingBlockHashes s p)) = (\<lambda>r. voteKey (base_states (active_reports s p)) (snd r)) ` set (active_reports s p)"
  by (force simp: tallyPendingBlockHashes_def Let_def)

lemma active_reports_set [simp]: "r \<in> set (active_reports s p) \<longleftrightarrow> r \<in> set p \<and> fst r \<notin> set (lv_evicted s)"
  by (auto simp: active_reports_def)

lemma base_states_mem:
  "t \<in> set (base_states rs b) \<longleftrightarrow> (\<exists>(i, e) \<in> set rs. baseTupleKey e = b \<and> be_state e = Text t)"
  by (force simp: base_states_def List.map_filter_def state_text_def split: if_splits hash_field.splits)

lemma base_states_distinct [simp]: "distinct (base_states rs b)"
  by (simp add: base_states_def)

subsection \<open>Reports by source\<close>

lemma put_report_set: "set (put_report i e rs) \<subseteq> insert (i, e) (set rs)"
  by (induction i e rs rule: put_report.induct) auto

lemma put_report_mem: "(i, e) \<in> set (put_report i e rs)"
  by (induction i e rs rule: put_report.induct) auto

lemma put_report_keys: "fst ` set (put_report i e rs) = insert i (fst ` set rs)"
  by (induction i e rs rule: put_report.induct) auto

lemma put_report_sorted: "sorted_wrt (<) (map fst rs) \<Longrightarrow> sorted_wrt (<) (map fst (put_report i e rs))"
proof (induction i e rs rule: put_report.induct)
  case (2 i e j d rs)
  have "\<forall>k \<in> fst ` set (put_report i e rs). j < k" if "j < i"
    using that 2(2) put_report_keys[of i e rs] by auto
  then show ?case using 2 by auto
qed simp

lemma put_report_other: "sorted_wrt (<) (map fst rs) \<Longrightarrow> (j, d) \<in> set (put_report i e rs) \<Longrightarrow> j \<noteq> i \<Longrightarrow> (j, d) \<in> set rs"
  using put_report_set by fastforce

lemma sorted_distinct: "sorted_wrt (<) (xs :: nat list) \<Longrightarrow> distinct xs"
  by (simp add: strict_sorted_iff)

section \<open>Ballots\<close>

text \<open>\<open>B\<close> holds the sources that may misbehave: fewer than the quorum, and every evicted source is among them.\<close>

definition faulty_minority :: "nat set \<Rightarrow> live \<Rightarrow> bool" where
  "faulty_minority B s \<longleftrightarrow> B \<subseteq> {..<length (lv_sources s)} \<and> card B < lv_sourceQuorum s \<and> card B < length (lv_sources s) \<and>
     set (lv_evicted s) \<subseteq> B \<and> distinct (lv_evicted s)"

lemma minority_below_quorum:
  assumes "faulty_minority B s"
  shows "card (B - set (lv_evicted s)) < effectiveQuorum s"
proof -
  have fin: "finite B" using assms finite_subset by (auto simp: faulty_minority_def)
  have "card (B - set (lv_evicted s)) = card B - length (lv_evicted s)"
    using assms by (simp add: faulty_minority_def card_Diff_subset distinct_card)
  moreover have "length (lv_evicted s) \<le> card B"
    using assms fin by (metis card_mono distinct_card faulty_minority_def)
  ultimately show ?thesis
    using assms by (auto simp: faulty_minority_def effectiveQuorum_def activeSourceCount_def)
qed

text \<open>A ballot is a way to read voters off a state; its voters are distinct active sources.\<close>

locale ballot =
  fixes voters :: "live \<Rightarrow> 'b \<Rightarrow> nat list"
    and proper :: "live \<Rightarrow> 'b \<Rightarrow> bool"
  assumes voters_distinct: "proper s b \<Longrightarrow> distinct (voters s b)"
    and voters_active: "proper s b \<Longrightarrow> i \<in> set (voters s b) \<Longrightarrow> i < length (lv_sources s) \<and> i \<notin> set (lv_evicted s)"
begin

text \<open>A quorum reaches outside a faulty minority.\<close>

lemma honest_voter:
  assumes "proper s b" "faulty_minority B s" "effectiveQuorum s \<le> length (voters s b)"
  shows "\<exists>i \<in> set (voters s b). i \<notin> B"
proof (rule ccontr)
  assume "\<not> ?thesis"
  then have "set (voters s b) \<subseteq> B - set (lv_evicted s)" using voters_active[OF assms(1)] by blast
  then have "card (set (voters s b)) \<le> card (B - set (lv_evicted s))"
    using assms(2) by (intro card_mono) (auto simp: faulty_minority_def intro: finite_subset)
  then show False
    using minority_below_quorum[OF assms(2)] assms(3) voters_distinct[OF assms(1)] by (simp add: distinct_card)
qed

text \<open>Under a majority threshold two winning ballots share a voter.\<close>

lemma winners_share_voter:
  assumes "proper s b" "proper s c" and "length (lv_sources s) < 2 * lv_sourceQuorum s"
    and ev: "distinct (lv_evicted s)" "set (lv_evicted s) \<subseteq> {..<length (lv_sources s)}"
    and "effectiveQuorum s \<le> length (voters s b)" "effectiveQuorum s \<le> length (voters s c)" "1 < activeSourceCount s"
  shows "\<exists>i. i \<in> set (voters s b) \<and> i \<in> set (voters s c)"
proof (rule ccontr)
  let ?A = "{..<length (lv_sources s)} - set (lv_evicted s)"
  assume "\<not> ?thesis"
  then have "card (set (voters s b) \<union> set (voters s c)) = length (voters s b) + length (voters s c)"
    using assms(1,2) by (subst card_Un_disjoint) (auto simp: distinct_card voters_distinct)
  moreover have "card (set (voters s b) \<union> set (voters s c)) \<le> card ?A"
    using assms(1,2) by (intro card_mono) (auto dest: voters_active)
  moreover have "card ?A = activeSourceCount s"
    using ev by (simp add: card_Diff_subset distinct_card activeSourceCount_def)
  ultimately show False
    using assms(3,6,7,8) by (auto simp: effectiveQuorum_def activeSourceCount_def min_def max_def split: if_splits)
qed

end

definition reports_ok :: "live \<Rightarrow> (nat \<times> block_event) list \<Rightarrow> bool" where
  "reports_ok s rs \<longleftrightarrow> sorted_wrt (<) (map fst rs) \<and> (\<forall>i \<in> fst ` set rs. i < length (lv_sources s))"

definition votes_ok :: "live \<Rightarrow> reorg_entry \<Rightarrow> bool" where
  "votes_ok s e \<longleftrightarrow> distinct (en_votes e) \<and> (\<forall>i \<in> set (en_votes e). i < length (lv_sources s))"

interpretation blocks: ballot
    "\<lambda>s (p, k). group_members (tallyPendingBlockHashes s p) k" "\<lambda>s (p, k). reports_ok s p"
proof
  fix s :: live and b :: "(nat \<times> block_event) list \<times> string"
  obtain p k where b: "b = (p, k)" by force
  assume "(\<lambda>s (p, k). reports_ok s p) s b"
  then have ok: "reports_ok s p" by (simp add: b)
  then show "distinct ((\<lambda>s (p, k). group_members (tallyPendingBlockHashes s p) k) s b)"
    unfolding b by (auto simp: group_members_eq reports_ok_def active_reports_def distinct_map_filter dest!: sorted_distinct)
  fix i assume "i \<in> set ((\<lambda>s (p, k). group_members (tallyPendingBlockHashes s p) k) s b)"
  then show "i < length (lv_sources s) \<and> i \<notin> set (lv_evicted s)"
    using ok unfolding b by (auto simp: group_members_eq reports_ok_def)
qed

interpretation reorgs: ballot "\<lambda>s e. filter (\<lambda>i. i \<notin> set (lv_evicted s)) (en_votes e)" votes_ok
  by unfold_locales (auto simp: votes_ok_def)

section \<open>Honest sources\<close>

text \<open>The story the honest sources tell: the four hashes of each height.  A source may leave the state hash out.\<close>

type_synonym story = "int \<Rightarrow> string \<times> string \<times> string \<times> string"

definition honest_report :: "story \<Rightarrow> block_event \<Rightarrow> bool" where
  "honest_report truth e \<longleftrightarrow>
     (case truth (be_block e) of (l, a, k, t) \<Rightarrow>
        be_ledger e = Text l \<and> be_actions e = Text a \<and> be_contract e = Text k \<and> (is_null (be_state e) \<or> be_state e = Text t) \<and>
        pipes l = 0 \<and> pipes a = 0 \<and> pipes k = 0 \<and> pipes t = 0)"

definition honest_reports :: "nat set \<Rightarrow> story \<Rightarrow> int \<Rightarrow> (nat \<times> block_event) list \<Rightarrow> bool" where
  "honest_reports B truth h rs \<longleftrightarrow> (\<forall>(i, e) \<in> set rs. be_block e = h \<and> (i \<notin> B \<longrightarrow> honest_report truth e))"

lemma honest_reportsD:
  "honest_reports B truth h rs \<Longrightarrow> (i, e) \<in> set rs \<Longrightarrow> be_block e = h \<and> (i \<notin> B \<longrightarrow> honest_report truth e)"
  by (auto simp: honest_reports_def)

lemma honest_base: "honest_report truth d \<Longrightarrow> honest_report truth e \<Longrightarrow> be_block d = be_block e \<Longrightarrow> baseTupleKey d = baseTupleKey e"
  by (auto simp: honest_report_def baseTupleKey_def split: prod.splits)

lemma honest_clean: "honest_report truth e \<Longrightarrow> clean_report e"
  by (auto simp: honest_report_def clean_report_def is_null_def js_string_def split: prod.splits)

text \<open>Two honest reports of a height get one key, unless a report without a state hash sits beside a split.\<close>

lemma honest_keys:
  assumes "honest_reports B truth h rs" "(i, d) \<in> set rs" "i \<notin> B" "(j, e) \<in> set rs" "j \<notin> B"
    and split: "\<not> (is_null (be_state d) \<and> length (base_states rs (baseTupleKey d)) > 1)"
      "\<not> (is_null (be_state e) \<and> length (base_states rs (baseTupleKey e)) > 1)"
  shows "voteKey (base_states rs) d = voteKey (base_states rs) e"
proof -
  have h: "honest_report truth d" "honest_report truth e" "be_block d = be_block e"
    using assms(2-5) by (auto dest: honest_reportsD[OF assms(1)])
  note base = honest_base[OF h]
  have part: "state_part (base_states rs) f = js_string (be_state f)" if "\<not> is_null (be_state f)" for f
    using that by (simp add: state_part_def)
  have joined: "base_states rs (baseTupleKey f) = [t]"
    if "(n, f) \<in> set rs" "be_state f = Text t" "length (base_states rs (baseTupleKey f)) \<le> 1" for n f t
  proof -
    have "t \<in> set (base_states rs (baseTupleKey f))" using that by (force simp: base_states_mem)
    then show ?thesis using that(3) by (cases "base_states rs (baseTupleKey f)") auto
  qed
  have "state_part (base_states rs) d = state_part (base_states rs) e"
  proof (cases "is_null (be_state d) = is_null (be_state e)")
    case True
    then show ?thesis
      using h base by (auto simp: state_part_def honest_report_def split: prod.splits)
  next
    case False
    then show ?thesis
      using h base assms(2,4) split joined[of i d] joined[of j e]
      by (auto simp: state_part_def honest_report_def js_string_def not_less split: prod.splits)
  qed
  then show ?thesis
    using h by (auto simp: voteKey_parts honest_report_def split: prod.splits)
qed

section \<open>Strikes and evictions\<close>

text \<open>Only the evictions and the strikes change; only sources of \<open>D\<close> are evicted, none twice, and two stay active.\<close>

definition struck :: "nat set \<Rightarrow> live \<Rightarrow> live \<Rightarrow> bool" where
  "struck D s s' \<longleftrightarrow> s'\<lparr>lv_evicted := lv_evicted s, lv_strikes := lv_strikes s\<rparr> = s \<and>
     set (lv_evicted s') \<subseteq> set (lv_evicted s) \<union> D \<and> (distinct (lv_evicted s) \<longrightarrow> distinct (lv_evicted s')) \<and>
     min 2 (activeSourceCount s) \<le> activeSourceCount s'"

lemma struck_fields:
  assumes "struck D s s'"
  shows "lv_client s' = lv_client s" "lv_pending s' = lv_pending s" "lv_timers s' = lv_timers s" "lv_reorgs s' = lv_reorgs s"
    "lv_strict s' = lv_strict s" "lv_sourceQuorum s' = lv_sourceQuorum s" "lv_verifyHashes s' = lv_verifyHashes s"
proof -
  have same: "s'\<lparr>lv_evicted := lv_evicted s, lv_strikes := lv_strikes s\<rparr> = s" using assms by (simp add: struck_def)
  note fields_of = arg_cong[OF same, of lv_client] arg_cong[OF same, of lv_pending] arg_cong[OF same, of lv_timers]
    arg_cong[OF same, of lv_reorgs] arg_cong[OF same, of lv_strict] arg_cong[OF same, of lv_sourceQuorum]
    arg_cong[OF same, of lv_verifyHashes]
  show "lv_client s' = lv_client s" "lv_pending s' = lv_pending s" "lv_timers s' = lv_timers s" "lv_reorgs s' = lv_reorgs s"
    "lv_strict s' = lv_strict s" "lv_sourceQuorum s' = lv_sourceQuorum s" "lv_verifyHashes s' = lv_verifyHashes s"
    using fields_of by simp_all
qed

lemma struck_refl: "struck D s s"
  by (simp add: struck_def)

lemma struck_trans: "struck D s s' \<Longrightarrow> struck D s' s'' \<Longrightarrow> struck D s s''"
  by (cases s; cases s'; cases s'') (auto simp: struck_def)

lemma struck_evict: "i \<in> D \<Longrightarrow> struck D s (evictSource i s)"
  by (auto simp: struck_def evictSource_def activeSourceCount_def lv_sources_def)

lemma struck_note: "struck D s (s\<lparr>lv_strikes := x\<rparr>)"
  by (simp add: struck_def activeSourceCount_def lv_sources_def)

lemma struck_strike: "i \<in> D \<Longrightarrow> struck D s (strikeSource i b s)"
  unfolding strikeSource_def Let_def using struck_trans[OF struck_note struck_evict] struck_note struck_refl by simp

definition dissenters :: "string \<Rightarrow> tally \<Rightarrow> (nat \<times> block_event) list \<Rightarrow> nat set" where
  "dissenters k t p = {i. \<exists>e. (i, e) \<in> set p \<and> voteKey (ta_states t) e \<noteq> k \<and> voteKey (ta_states t) e \<notin> set (ta_abstain t)}"

lemma struck_dissenters:
  assumes "dissenters k t p \<subseteq> D"
  shows "struck D s (strike_dissenters b k t p s)"
  using assms
proof (induction p arbitrary: s)
  case Nil
  then show ?case by (simp add: strike_dissenters_def struck_refl)
next
  case (Cons r p)
  obtain i e where r: "r = (i, e)" by force
  define hit where "hit \<longleftrightarrow> i \<notin> set (lv_evicted s) \<and> voteKey (ta_states t) e \<noteq> k \<and> voteKey (ta_states t) e \<notin> set (ta_abstain t)"
  define s1 where "s1 = (if hit then strikeSource i b s else s)"
  have "i \<in> D" if hit using that Cons.prems by (auto simp: dissenters_def r hit_def)
  then have "struck D s s1" by (simp add: s1_def struck_strike struck_refl)
  moreover have "dissenters k t p \<subseteq> D" using Cons.prems by (auto simp: dissenters_def)
  moreover have "strike_dissenters b k t (r # p) s = strike_dissenters b k t p s1"
    by (auto simp: strike_dissenters_def r s1_def hit_def)
  ultimately show ?case using Cons.IH[of s1] struck_trans by metis
qed

section \<open>A quorum among honest sources\<close>

lemma honest_reports_active: "honest_reports B truth h p \<Longrightarrow> honest_reports B truth h (active_reports s p)"
  by (auto simp: honest_reports_def)

text \<open>The winning group holds an honest report, so no honest source dissents from it.\<close>

lemma winner_has_honest:
  assumes "reports_ok s p" "faulty_minority B s" "honest_reports B truth h p"
    and "effectiveQuorum s \<le> length (group_members (tallyPendingBlockHashes s p) k)"
  obtains j e where "(j, e) \<in> set (active_reports s p)" "j \<notin> B" "voteKey (base_states (active_reports s p)) e = k"
    "honest_report truth e"
proof -
  obtain j where "j \<in> set (group_members (tallyPendingBlockHashes s p) k)" "j \<notin> B"
    using blocks.honest_voter[of s "(p, k)" B] assms by auto
  then obtain e where e: "(j, e) \<in> set (active_reports s p)" "voteKey (base_states (active_reports s p)) e = k" "j \<notin> B"
    by (auto simp: group_members_eq)
  then have "honest_report truth e" using honest_reportsD[OF assms(3), of j e] by auto
  then show thesis using that e by blast
qed

lemma honest_never_dissents:
  assumes "reports_ok s p" "faulty_minority B s" "honest_reports B truth h p"
    and "effectiveQuorum s \<le> length (group_members (tallyPendingBlockHashes s p) k)"
    and "k \<notin> set (ta_abstain (tallyPendingBlockHashes s p))"
  shows "dissenters k (tallyPendingBlockHashes s p) (active_reports s p) \<subseteq> B"
proof
  fix i assume "i \<in> dissenters k (tallyPendingBlockHashes s p) (active_reports s p)"
  then obtain d where d: "(i, d) \<in> set (active_reports s p)" "voteKey (base_states (active_reports s p)) d \<noteq> k"
    "voteKey (base_states (active_reports s p)) d \<notin> set (ta_abstain (tallyPendingBlockHashes s p))"
    by (auto simp: dissenters_def)
  obtain j e where e: "(j, e) \<in> set (active_reports s p)" "j \<notin> B" "voteKey (base_states (active_reports s p)) e = k"
    using winner_has_honest[OF assms(1-4)] by blast
  show "i \<in> B"
  proof (rule ccontr)
    assume "i \<notin> B"
    then have "voteKey (base_states (active_reports s p)) d = voteKey (base_states (active_reports s p)) e"
      using honest_keys[OF honest_reports_active[OF assms(3)] d(1) _ e(1,2)] d(3,1) e assms(5)
      unfolding abstain_iff by blast
    then show False using d e by simp
  qed
qed

section \<open>Configuration of the client\<close>

text \<open>The sources and the database type are fixed: no handler changes them.\<close>

definition client_config :: "client \<Rightarrow> string list \<times> string" where
  "client_config c = (cl_sources c, cl_dbType c)"

lemma config_halt [simp]: "client_config (haltOnDivergence io b ms ss r c) = client_config c"
proof -
  have "client_config (persistHalt io h c) = client_config c" for h c
    by (auto simp: persistHalt_def recordHalt_def clearPendingHaltCopy_def dropPendingHaltCopy_def
        writePendingHaltCopy_def deleteSyncState_def setSyncState_def client_config_def Let_def split: option.splits)
  then show ?thesis by (simp add: haltOnDivergence_def Let_def client_config_def)
qed

lemma config_endRowRemoval [simp]: "client_config (endRowRemoval c) = client_config c"
  by (simp add: endRowRemoval_def bumpRowGeneration_def client_config_def)

lemma config_lowerVerifiedTip: "client_config (snd (lowerVerifiedTip a b n c)) = client_config c"
  by (auto simp: lowerVerifiedTip_def loadVerifiedTip_def getSyncState_def setSyncState_def bumpRowGeneration_def
      client_config_def Let_def split: marker.splits)

lemma config_beginRowRemoval: "client_config (snd (beginRowRemoval a b n c)) = client_config c"
proof (cases n)
  case None
  then show ?thesis by (simp add: beginRowRemoval_def bumpRowGeneration_def client_config_def)
next
  case (Some m)
  let ?c1 = "(bumpRowGeneration c)\<lparr>cl_removals := cl_removals c + 1\<rparr>"
  have "client_config (snd (lowerVerifiedTip a b m ?c1)) = client_config c"
    unfolding config_lowerVerifiedTip by (simp add: bumpRowGeneration_def client_config_def)
  then show ?thesis
    using Some by (auto simp: beginRowRemoval_def Let_def split: prod.splits option.splits)
qed

lemma config_applyReorgRollback: "client_config (snd (applyReorgRollback io event c)) = client_config c"
proof -
  obtain o1 c1 where b: "beginRowRemoval (rb_load io) (rb_lower io) (Some (re_block event - 1)) c = (o1, c1)" by force
  have c1: "client_config c1 = client_config c" using config_beginRowRemoval[of "rb_load io" "rb_lower io" _ c] b by (metis snd_conv)
  have upd: "client_config (d\<lparr>cl_guard := g\<rparr>) = client_config d" "client_config (d\<lparr>cl_rows := rs\<rparr>) = client_config d"
    "client_config (d\<lparr>cl_lastApplied := t\<rparr>) = client_config d" "client_config (d\<lparr>cl_sync_state := m\<rparr>) = client_config d" for d g rs t m
    by (simp_all add: client_config_def)
  show ?thesis
    using c1 by (auto simp: applyReorgRollback_def b persistRollbackGuardState_def setSyncState_def Let_def upd
        rbind_def split: option.splits)
qed

lemma config_handleReorg:
  assumes "handleReorg hio io event reports c = Inr c'"
  shows "client_config c' = client_config c"
proof -
  obtain d g where dg: "depthFor (case cl_lastApplied c of None \<Rightarrow> 0 | Some t \<Rightarrow> t) (re_block event) (cl_guard c) = (d, g)" by force
  let ?c1 = "c\<lparr>cl_guard := g\<rparr>"
  have c1: "client_config ?c1 = client_config c" by (simp add: client_config_def)
  obtain o2 c2 where r: "applyReorgRollback io event ?c1 = (o2, c2)" by force
  have c2: "client_config c2 = client_config c" using config_applyReorgRollback[of io event ?c1] r c1 by simp
  show ?thesis
    using assms dg c1 c2 r
    by (auto simp: handleReorg_def rbind_def Let_def split: if_splits option.splits sum.splits prod.splits)
qed

section \<open>Runs\<close>

text \<open>What the sources delivered so far: blocks, reorg reports, and the disputes of the block held as tip that lie in a
  delivered block.\<close>

datatype delivery = DBlock nat block_event | DReorg nat reorg_event | DFork nat int

text \<open>A delivered block disputes the tip: at the height of the tip it has another hash, or on top of it another parent.\<close>

definition other_head :: "block_event \<Rightarrow> block_event \<Rightarrow> bool" where
  "other_head lh e \<longleftrightarrow>
     list_ex (\<lambda>f. \<not> is_null (f e) \<and> \<not> is_null (f lh) \<and> f e \<noteq> f lh) [be_block_hash, be_ledger, be_actions, be_contract]"

definition other_parent :: "block_event \<Rightarrow> (string \<times> string) list \<Rightarrow> block_event \<Rightarrow> bool" where
  "other_parent lh held e \<longleftrightarrow>
     (case be_prev_id e of
        None \<Rightarrow> False
      | Some p \<Rightarrow> (case find_hash (be_index_txs e) held p of
          None \<Rightarrow> False
        | Some h \<Rightarrow> \<not> is_null (be_block_hash lh) \<and> be_block_hash lh \<noteq> Text h))"

definition disputes_tip :: "block_event \<Rightarrow> live \<Rightarrow> bool" where
  "disputes_tip e s \<longleftrightarrow>
     (case (lv_tip s, lv_lastHashes s) of
        (Some tip, Some lh) \<Rightarrow> be_block e = tip \<and> other_head lh e \<or> be_block e = tip + 1 \<and> other_parent lh (lv_indexTxs s) e
      | _ \<Rightarrow> False)"

definition fork_claim :: "nat \<Rightarrow> block_event \<Rightarrow> live \<Rightarrow> delivery list" where
  "fork_claim i e s = (if disputes_tip e s then [DFork i (tip_num s)] else [])"

definition fresh :: "live \<Rightarrow> bool" where
  "fresh s \<longleftrightarrow> lv_evicted s = [] \<and> lv_pending s = Map.empty \<and> lv_timers s = Map.empty \<and> lv_reorgs s = Map.empty"

text \<open>The confirmation state at or below a verified tip is dropped.\<close>

definition clearAppliedBlockWork :: "live \<Rightarrow> live" where
  "clearAppliedBlockWork s =
     s\<lparr>lv_pending := (\<lambda>h. if h \<le> tip_num s then None else lv_pending s h),
       lv_timers := (\<lambda>h. if h \<le> tip_num s then None else lv_timers s h)\<rparr>"

text \<open>What the live side reacts to: a delivery of a source, or a timer.  The event is labelled with what it asks for.\<close>

inductive live_event :: "delivery list \<Rightarrow> live \<Rightarrow> request \<Rightarrow> delivery list \<Rightarrow> live \<Rightarrow> bool" where
  block: "i < length (lv_sources s) \<Longrightarrow> handleBlock io e i s = Inr (r, s') \<Longrightarrow>
    live_event D s r (fork_claim i e s @ DBlock i e # D) s'"
| reorg: "i < length (lv_sources s) \<Longrightarrow> handleSourceReorg io ev (Some i) False s = Inr (r, s') \<Longrightarrow>
    live_event D s r (DReorg i ev # D) s'"
| block_timer: "fireBlockTimer hio h s = (r, s') \<Longrightarrow> live_event D s r D s'"
| reorg_timer: "fireReorgTimer io h s = Inr (r, s') \<Longrightarrow> live_event D s r D s'"

text \<open>These in any order.  Between them the rest of the client (applies, catch-ups, walks) may change everything of the
  client but its configuration.\<close>

inductive live_run :: "live \<Rightarrow> delivery list \<Rightarrow> live \<Rightarrow> bool" for s0 where
  start: "fresh s0 \<Longrightarrow> live_run s0 [] s0"
| event: "live_run s0 D s \<Longrightarrow> live_event D s r D' s' \<Longrightarrow> live_run s0 D' s'"
| client: "live_run s0 D s \<Longrightarrow> client_config c = client_config (lv_client s) \<Longrightarrow>
    live_run s0 D (s\<lparr>lv_client := c, lv_lastHashes := lh, lv_indexTxs := txs\<rparr>)"
| applied: "live_run s0 D s \<Longrightarrow> live_run s0 D (clearAppliedBlockWork s)"
| halted: "live_run s0 D s \<Longrightarrow> live_run s0 D (stopDivergenceApply s)"

text \<open>Source \<open>i\<close> claimed a reorg at height \<open>b\<close>: by a report of it, or by a block that disputed the tip \<open>b\<close>.\<close>

definition claimed_reorg :: "delivery list \<Rightarrow> nat \<Rightarrow> int \<Rightarrow> bool" where
  "claimed_reorg D i b \<longleftrightarrow> (\<exists>ev. DReorg i ev \<in> set D \<and> re_block ev = b) \<or>
     DFork i b \<in> set D"

definition pending_inv :: "nat \<Rightarrow> delivery list \<Rightarrow> (int \<rightharpoonup> (nat \<times> block_event) list) \<Rightarrow> bool" where
  "pending_inv n D m \<longleftrightarrow> (\<forall>h rs. m h = Some rs \<longrightarrow> sorted_wrt (<) (map fst rs) \<and>
     (\<forall>i e. (i, e) \<in> set rs \<longrightarrow> i < n \<and> be_block e = h \<and> DBlock i e \<in> set D))"

definition timers_inv :: "delivery list \<Rightarrow> (int \<rightharpoonup> block_event) \<Rightarrow> bool" where
  "timers_inv D m \<longleftrightarrow> (\<forall>h e. m h = Some e \<longrightarrow> be_block e = h \<and> (\<exists>i. DBlock i e \<in> set D))"

definition entry_inv :: "nat \<Rightarrow> delivery list \<Rightarrow> int \<Rightarrow> reorg_entry \<Rightarrow> bool" where
  "entry_inv n D b e \<longleftrightarrow> re_block (en_event e) = b \<and> distinct (en_votes e) \<and> (\<forall>i \<in> set (en_votes e). i < n \<and> claimed_reorg D i b)"

definition reorgs_inv :: "nat \<Rightarrow> delivery list \<Rightarrow> (int \<rightharpoonup> reorg_entry) \<Rightarrow> bool" where
  "reorgs_inv n D m \<longleftrightarrow> (\<forall>b e. m b = Some e \<longrightarrow> entry_inv n D b e)"

definition live_inv :: "delivery list \<Rightarrow> live \<Rightarrow> bool" where
  "live_inv D s \<longleftrightarrow> (let n = length (lv_sources s) in
     distinct (lv_evicted s) \<and> set (lv_evicted s) \<subseteq> {..<n} \<and>
     pending_inv n D (lv_pending s) \<and> timers_inv D (lv_timers s) \<and> reorgs_inv n D (lv_reorgs s))"

lemmas inv_defs = live_inv_def pending_inv_def timers_inv_def reorgs_inv_def entry_inv_def

lemma claimed_mono: "claimed_reorg D i b \<Longrightarrow> set D \<subseteq> set D' \<Longrightarrow> claimed_reorg D' i b"
  unfolding claimed_reorg_def by blast

lemma entry_inv_mono: "entry_inv n D b e \<Longrightarrow> set D \<subseteq> set D' \<Longrightarrow> entry_inv n D' b e"
  unfolding entry_inv_def using claimed_mono by blast

lemma live_inv_mono: "live_inv D s \<Longrightarrow> set D \<subseteq> set D' \<Longrightarrow> live_inv D' s"
  unfolding live_inv_def pending_inv_def timers_inv_def reorgs_inv_def Let_def using entry_inv_mono by blast

lemma map_le_Some: "m' \<subseteq>\<^sub>m m \<Longrightarrow> m' k = Some v \<Longrightarrow> m k = Some v"
  by (metis domI map_le_def)

lemma live_inv_cong:
  assumes "live_inv D s" "lv_sources s' = lv_sources s" "lv_evicted s' = lv_evicted s"
    and "lv_pending s' \<subseteq>\<^sub>m lv_pending s" "lv_timers s' \<subseteq>\<^sub>m lv_timers s" "lv_reorgs s' \<subseteq>\<^sub>m lv_reorgs s"
  shows "live_inv D s'"
  using assms(1) map_le_Some[OF assms(4)] map_le_Some[OF assms(5)] map_le_Some[OF assms(6)]
  unfolding live_inv_def pending_inv_def timers_inv_def reorgs_inv_def Let_def assms(2,3) by blast

lemma lv_sources_config: "client_config (lv_client s') = client_config (lv_client s) \<Longrightarrow> lv_sources s' = lv_sources s"
  by (simp add: client_config_def lv_sources_def)

subsection \<open>Reorg handling keeps the invariant\<close>

text \<open>What a reorg may do to the live side: drop what is pending, and change the client but its configuration.\<close>

definition reorg_effect :: "live \<Rightarrow> live \<Rightarrow> bool" where
  "reorg_effect s s' \<longleftrightarrow> client_config (lv_client s') = client_config (lv_client s) \<and> lv_evicted s' = lv_evicted s \<and>
     lv_pending s' \<subseteq>\<^sub>m lv_pending s \<and> lv_timers s' \<subseteq>\<^sub>m lv_timers s \<and> lv_reorgs s' \<subseteq>\<^sub>m lv_reorgs s \<and>
     lv_sourceQuorum s' = lv_sourceQuorum s"

lemma reorg_effect_inv: "live_inv D s \<Longrightarrow> reorg_effect s s' \<Longrightarrow> live_inv D s'"
  unfolding reorg_effect_def by (elim conjE, erule live_inv_cong) (erule lv_sources_config, assumption+)

lemma reorg_effect_refl [simp]: "reorg_effect s s"
  by (simp add: reorg_effect_def)

lemma reorg_effect_trans: "reorg_effect s s' \<Longrightarrow> reorg_effect s' s'' \<Longrightarrow> reorg_effect s s''"
  unfolding reorg_effect_def by (elim conjE, intro conjI) (simp, simp, (erule (1) map_le_trans)+, simp)

lemma stop_effect: "reorg_effect s (stopDivergenceApply s)"
  by (simp add: reorg_effect_def stopDivergenceApply_def clearAllPendingReorgs_def)

lemma live_halt_effect: "reorg_effect s (live_halt io b ms ss r s)"
  by (simp add: reorg_effect_def live_halt_def stopDivergenceApply_def clearAllPendingReorgs_def)

lemma live_reorg_effect:
  assumes "live_reorg io ev reports s = Inr s'"
  shows "reorg_effect s s'"
proof -
  let ?c = "(lv_client s)\<lparr>cl_quorum := effectiveQuorum s\<rparr>"
  obtain c' where c': "handleReorg (ri_halt io) (ri_rollback io) ev reports ?c = Inr c'"
    using assms by (auto simp: live_reorg_def rbind_def Let_def split: sum.splits)
  have "client_config c' = client_config (lv_client s)" using config_handleReorg[OF c'] by (simp add: client_config_def)
  then show ?thesis
    using assms c'
    by (auto simp: live_reorg_def rbind_def Let_def reorg_effect_def stopDivergenceApply_def clearAllPendingReorgs_def
        prunePendingReorgs_def map_le_def split: if_splits option.splits)
qed

lemma rewind_effect: "rewindForkedHead io ev reports s = Inr (r, s') \<Longrightarrow> reorg_effect s s'"
  by (auto simp: rewindForkedHead_def rbind_def split: sum.splits dest: live_reorg_effect)

lemma applyAgreed_effect: "applyAgreedReorg io e s = Inr (r, s') \<Longrightarrow> reorg_effect s s'"
  by (auto simp: applyAgreedReorg_def rbind_def split: if_splits sum.splits dest: live_reorg_effect rewind_effect)

subsection \<open>The tip moves only to the block below a reorg\<close>

lemma tip_halt [simp]: "cl_lastApplied (haltOnDivergence io b ms ss r c) = cl_lastApplied c"
  by (auto simp: haltOnDivergence_def persistHalt_def recordHalt_def clearPendingHaltCopy_def dropPendingHaltCopy_def
      writePendingHaltCopy_def deleteSyncState_def setSyncState_def Let_def split: option.splits)

lemma tip_applyReorgRollback:
  "cl_lastApplied (snd (applyReorgRollback io event c)) \<in> {cl_lastApplied c, Some (re_block event - 1)}"
proof -
  have low: "cl_lastApplied (snd (lowerVerifiedTip a b n d)) = cl_lastApplied d" for a b n d
    by (auto simp: lowerVerifiedTip_def loadVerifiedTip_def getSyncState_def setSyncState_def bumpRowGeneration_def Let_def
        split: marker.splits)
  have fin [simp]: "cl_lastApplied (endRowRemoval d) = cl_lastApplied d" for d
    by (simp add: endRowRemoval_def bumpRowGeneration_def)
  obtain o1 c1 where b: "beginRowRemoval (rb_load io) (rb_lower io) (Some (re_block event - 1)) c = (o1, c1)" by force
  then have "cl_lastApplied c1 = cl_lastApplied c"
    using low[of "rb_load io" "rb_lower io" "re_block event - 1" "(bumpRowGeneration c)\<lparr>cl_removals := cl_removals c + 1\<rparr>"]
    by (auto simp: beginRowRemoval_def Let_def bumpRowGeneration_def split: prod.splits option.splits)
  then show ?thesis
    by (auto simp: applyReorgRollback_def b persistRollbackGuardState_def setSyncState_def Let_def rbind_def split: option.splits)
qed

lemma tip_handleReorg:
  assumes "handleReorg hio io event reports c = Inr c'"
  shows "cl_lastApplied c' \<in> {cl_lastApplied c, Some (re_block event - 1)}"
proof -
  obtain d g where dg: "depthFor (case cl_lastApplied c of None \<Rightarrow> 0 | Some t \<Rightarrow> t) (re_block event) (cl_guard c) = (d, g)" by force
  let ?c1 = "c\<lparr>cl_guard := g\<rparr>"
  obtain o2 c2 where r: "applyReorgRollback io event ?c1 = (o2, c2)" by force
  have c2: "cl_lastApplied c2 \<in> {cl_lastApplied c, Some (re_block event - 1)}"
    using tip_applyReorgRollback[of io event ?c1] r by simp
  show ?thesis
    using assms dg c2 r
    by (auto simp: handleReorg_def rbind_def Let_def split: if_splits option.splits sum.splits prod.splits)
qed

lemma tip_live_reorg:
  assumes "live_reorg io ev reports s = Inr s'"
  shows "lv_tip s' \<in> {lv_tip s, Some (re_block ev - 1)}"
proof -
  let ?c = "(lv_client s)\<lparr>cl_quorum := effectiveQuorum s\<rparr>"
  obtain c' where c': "handleReorg (ri_halt io) (ri_rollback io) ev reports ?c = Inr c'"
    using assms by (auto simp: live_reorg_def rbind_def Let_def split: sum.splits)
  moreover have "lv_tip s' = cl_lastApplied c'"
    using assms c' by (auto simp: live_reorg_def rbind_def Let_def lv_tip_def stopDivergenceApply_def
        clearAllPendingReorgs_def prunePendingReorgs_def split: if_splits option.splits)
  ultimately show ?thesis using tip_handleReorg[OF c'] by (simp add: lv_tip_def)
qed

lemma tip_applyAgreed:
  "applyAgreedReorg io e s = Inr (r, s') \<Longrightarrow> lv_tip s' \<in> {lv_tip s, Some (re_block (en_event e) - 1)}"
  by (auto simp: applyAgreedReorg_def rewindForkedHead_def rbind_def split: if_splits sum.splits dest!: tip_live_reorg)

subsection \<open>Votes on reorgs\<close>

lemma claimed_here [intro]: "claimed_reorg (DReorg i ev # D) i (re_block ev)"
  by (auto simp: claimed_reorg_def)

lemma recordReorgVote_effect:
  assumes "live_inv D s" "i < length (lv_sources s)" "claimed_reorg D i (re_block ev)"
    and "recordReorgVote ev i rewind s = (e, s')"
  shows "live_inv D s'" "entry_inv (length (lv_sources s)) D (re_block ev) e" "lv_reorgs s' (re_block ev) = Some e"
    "s' = s\<lparr>lv_reorgs := (lv_reorgs s)(re_block ev \<mapsto> e)\<rparr>"
proof -
  let ?n = "length (lv_sources s)"
  have old: "entry_inv ?n D (re_block ev) x" if "lv_reorgs s (re_block ev) = Some x" for x
    using assms(1) that by (auto simp: live_inv_def reorgs_inv_def Let_def)
  show ent: "entry_inv ?n D (re_block ev) e"
    using assms(2-4) old
    by (auto simp: recordReorgVote_def recordReorgReport_def entry_inv_def Let_def split: option.splits if_splits)
  show s': "s' = s\<lparr>lv_reorgs := (lv_reorgs s)(re_block ev \<mapsto> e)\<rparr>"
    using assms(4) by (auto simp: recordReorgVote_def Let_def)
  then show "lv_reorgs s' (re_block ev) = Some e" by simp
  show "live_inv D s'"
    using assms(1) ent unfolding s' by (auto simp: live_inv_def reorgs_inv_def lv_sources_def Let_def)
qed

text \<open>The parts of the state that stay when a source event is handled as a reorg.\<close>

definition kept :: "delivery list \<Rightarrow> live \<Rightarrow> live \<Rightarrow> bool" where
  "kept D s s' \<longleftrightarrow> live_inv D s' \<and> client_config (lv_client s') = client_config (lv_client s) \<and>
     lv_evicted s' = lv_evicted s \<and> lv_sourceQuorum s' = lv_sourceQuorum s"

lemma kept_effect: "live_inv D s \<Longrightarrow> reorg_effect s s' \<Longrightarrow> kept D s s'"
  unfolding kept_def using reorg_effect_inv by (auto simp: reorg_effect_def)

lemma kept_refl: "live_inv D s \<Longrightarrow> kept D s s"
  by (simp add: kept_def)

lemma kept_trans: "kept D s s' \<Longrightarrow> kept D s' s'' \<Longrightarrow> kept D s s''"
  by (simp add: kept_def)

lemma kept_inv: "kept D s s' \<Longrightarrow> live_inv D s'"
  by (simp add: kept_def)

lemma kept_same:
  assumes "kept D s s'"
  shows "lv_sources s' = lv_sources s" "effectiveQuorum s' = effectiveQuorum s" "activeReorgVotes s' e = activeReorgVotes s e"
proof -
  show "lv_sources s' = lv_sources s" using assms by (simp add: kept_def client_config_def lv_sources_def)
  then show "effectiveQuorum s' = effectiveQuorum s" "activeReorgVotes s' e = activeReorgVotes s e"
    using assms by (simp_all add: kept_def effectiveQuorum_def activeSourceCount_def activeReorgVotes_def)
qed

lemma kept_guard: "live_inv D s \<Longrightarrow> kept D s (s\<lparr>lv_client := (lv_client s)\<lparr>cl_guard := g\<rparr>\<rparr>)"
  by (intro kept_effect) (simp_all add: reorg_effect_def client_config_def)

lemma kept_entry:
  "live_inv D s \<Longrightarrow> entry_inv (length (lv_sources s)) D b e \<Longrightarrow> kept D s (s\<lparr>lv_reorgs := (lv_reorgs s)(b \<mapsto> e)\<rparr>)"
  by (auto simp: kept_def live_inv_def reorgs_inv_def lv_sources_def Let_def)

lemma kept_clear: "live_inv D s \<Longrightarrow> kept D s (clearPendingReorg b s)"
  by (intro kept_effect) (auto simp: reorg_effect_def clearPendingReorg_def map_le_def)

lemma kept_arm:
  assumes "live_inv D s"
  shows "kept D s (armReorgQuorumTimer b s)"
proof (cases "lv_reorgs s b")
  case None
  then show ?thesis using assms by (simp add: armReorgQuorumTimer_def kept_refl)
next
  case (Some e)
  then have "entry_inv (length (lv_sources s)) D b (e\<lparr>en_timer := True\<rparr>)"
    using assms by (auto simp: live_inv_def reorgs_inv_def entry_inv_def Let_def)
  then show ?thesis using assms Some by (simp add: armReorgQuorumTimer_def kept_refl kept_entry)
qed

lemma tip_arm: "lv_tip (armReorgQuorumTimer b s) = lv_tip s"
  by (simp add: armReorgQuorumTimer_def lv_tip_def split: option.splits)

text \<open>How a vote on a reorg is answered.  In every branch the state is kept; the tip moves only by the agreed reorg.\<close>

lemma handleSourceReorg_cases:
  assumes inv: "live_inv D s" and i: "i < length (lv_sources s)" "claimed_reorg D i (re_block ev)"
    and run: "handleSourceReorg io ev (Some i) rewind s = Inr (r, s')"
  shows "kept D s s' \<and> (lv_tip s' = lv_tip s \<or>
     lv_tip s' = Some (re_block ev - 1) \<and>
     (\<not> sourceReorgQuorumActive s \<or>
      (\<exists>e. entry_inv (length (lv_sources s)) D (re_block ev) e \<and> effectiveQuorum s \<le> activeReorgVotes s e)))"
proof (cases "cl_halted (lv_client s) \<noteq> None \<or> i \<in> set (lv_evicted s) \<or> lv_tip s = None \<or> re_block ev > the (lv_tip s)")
  case True
  then have "s' = s" using run by (auto simp: handleSourceReorg_def split: if_splits option.splits)
  then show ?thesis using inv by (simp add: kept_refl)
next
  case False
  then obtain tip where tip: "lv_tip s = Some tip" "\<not> re_block ev > tip" "cl_halted (lv_client s) = None" "i \<notin> set (lv_evicted s)" by auto
  obtain depth g where dg: "depthFor tip (re_block ev) (cl_guard (lv_client s)) = (depth, g)" by force
  define s0 where "s0 = s\<lparr>lv_client := (lv_client s)\<lparr>cl_guard := g\<rparr>\<rparr>"
  have s0: "kept D s s0" "lv_tip s0 = lv_tip s" "sourceReorgQuorumActive s0 = sourceReorgQuorumActive s"
    using inv by (simp_all add: s0_def kept_guard lv_tip_def sourceReorgQuorumActive_def sourceQuorumActive_def
        activeSourceCount_def lv_sources_def)
  obtain e s1 where vote: "recordReorgVote ev i rewind s0 = (e, s1)" by force
  have inv0: "live_inv D s0" using s0(1) by (rule kept_inv)
  note rec = recordReorgVote_effect[OF inv0 _ i(2) vote, unfolded kept_same(1)[OF s0(1)], OF i(1)]
  have s1: "kept D s s1" using kept_trans[OF s0(1)] kept_entry[OF inv0, of "re_block ev" e] rec(2)
    unfolding rec(4) kept_same(1)[OF s0(1)] by blast
  have tip1: "lv_tip s1 = lv_tip s" using s0(2) by (simp add: rec(4) lv_tip_def)
  have ent: "re_block (en_event e) = re_block ev" using rec(2) by (simp add: entry_inv_def)
  have agreed: "kept D s s' \<and> lv_tip s' \<in> {lv_tip s, Some (re_block ev - 1)}"
    if "applyAgreedReorg io x (clearPendingReorg (re_block ev) s1) = Inr (r, s')" "re_block (en_event x) = re_block ev" for x
    using kept_trans[OF s1 kept_trans[OF kept_clear[OF kept_inv[OF s1]] kept_effect[OF kept_inv[OF kept_clear[OF kept_inv[OF s1]]] applyAgreed_effect[OF that(1)]]]]
      tip_applyAgreed[OF that(1)] that(2) tip1 by (simp add: clearPendingReorg_def lv_tip_def)
  consider (direct) "\<not> sourceReorgQuorumActive s" "\<exists>x. applyAgreedReorg io x s0 = Inr (r, s') \<and> en_event x = ev"
    | (agree) x where "effectiveQuorum s1 \<le> activeReorgVotes s1 e" "re_block (en_event x) = re_block ev"
        "applyAgreedReorg io x (clearPendingReorg (re_block ev) s1) = Inr (r, s')"
    | (hold) "s' = s1\<lparr>lv_reorgs := (lv_reorgs s1)(re_block ev \<mapsto> e\<lparr>en_timer := False\<rparr>)\<rparr>"
    | (wait) "s' = s1 \<or> s' = armReorgQuorumTimer (re_block ev) s1"
    using run tip dg vote ent
    by (fastforce simp: handleSourceReorg_def Let_def s0_def[symmetric] s0(3) recordReorgReport_def rbind_def
        split: if_splits sum.splits prod.splits)
  then show ?thesis
  proof cases
    case direct
    then show ?thesis
      using kept_trans[OF s0(1) kept_effect[OF inv0 applyAgreed_effect]] tip_applyAgreed s0(2) by fastforce
  next
    case agree
    then show ?thesis using agreed rec(2) kept_same[OF s1] by auto
  next
    case hold
    have "entry_inv (length (lv_sources s1)) D (re_block ev) (e\<lparr>en_timer := False\<rparr>)"
      using rec(2) kept_same(1)[OF s1] by (simp add: entry_inv_def)
    then show ?thesis
      using kept_trans[OF s1 kept_entry[OF kept_inv[OF s1]]] tip1 hold by (simp add: lv_tip_def)
  next
    case wait
    then show ?thesis
      using kept_trans[OF s1 kept_arm[OF kept_inv[OF s1]]] s1 tip1 tip_arm by auto
  qed
qed

subsection \<open>Votes on blocks\<close>

definition reports_from :: "delivery list \<Rightarrow> int \<Rightarrow> live \<Rightarrow> (nat \<times> block_event) list \<Rightarrow> bool" where
  "reports_from D h s p \<longleftrightarrow> reports_ok s p \<and> (\<forall>j e. (j, e) \<in> set p \<longrightarrow> DBlock j e \<in> set D \<and> be_block e = h)"

definition wins :: "live \<Rightarrow> (nat \<times> block_event) list \<Rightarrow> string \<Rightarrow> bool" where
  "wins s p k \<longleftrightarrow> k \<notin> set (ta_abstain (tallyPendingBlockHashes s p)) \<and>
     effectiveQuorum s \<le> length (group_members (tallyPendingBlockHashes s p) k)"

text \<open>A quorum of delivered reports stands behind \<open>d\<close>.\<close>

definition backed :: "delivery list \<Rightarrow> live \<Rightarrow> block_event \<Rightarrow> bool" where
  "backed D s d \<longleftrightarrow> (\<exists>p j. reports_from D (be_block d) s p \<and> (j, d) \<in> set (active_reports s p) \<and>
     wins s p (voteKey (base_states (active_reports s p)) d))"

lemma tally_cong: "lv_evicted s' = lv_evicted s \<Longrightarrow> tallyPendingBlockHashes s' p = tallyPendingBlockHashes s p"
  by (simp add: tallyPendingBlockHashes_def active_reports_def)

lemma map_filter_mem: "y \<in> set (List.map_filter f xs) \<longleftrightarrow> (\<exists>x \<in> set xs. f x = Some y)"
  by (induction xs) (auto simp: List.map_filter_simps split: option.splits)

lemma checkable_cases:
  assumes sorted: "sorted_wrt (<) (map fst p)"
  shows "checkableGroupEvent p (group_members (tallyPendingBlockHashes s p) k) event = event \<or>
     (\<exists>j. (j, checkableGroupEvent p (group_members (tallyPendingBlockHashes s p) k) event) \<in> set (active_reports s p) \<and>
     voteKey (base_states (active_reports s p)) (checkableGroupEvent p (group_members (tallyPendingBlockHashes s p) k) event) = k)"
proof -
  let ?f = "\<lambda>i. case map_of p i of Some e \<Rightarrow> if is_null (be_state e) then None else Some e | None \<Rightarrow> None"
  let ?ds = "List.map_filter ?f (group_members (tallyPendingBlockHashes s p) k)"
  have mem: "\<exists>j. (j, d) \<in> set (active_reports s p) \<and> voteKey (base_states (active_reports s p)) d = k" if here: "d \<in> set ?ds" for d
  proof -
    obtain j where j: "j \<in> set (group_members (tallyPendingBlockHashes s p) k)" "?f j = Some d"
      using here unfolding map_filter_mem by blast
    then have d: "map_of p j = Some d" by (auto split: option.splits if_splits)
    from j(1) obtain e where e: "(j, e) \<in> set (active_reports s p)" "voteKey (base_states (active_reports s p)) e = k"
      by (auto simp: group_members_eq)
    have "map_of p j = Some e" using e(1) sorted_distinct[OF sorted] by (intro map_of_is_SomeI) auto
    then show ?thesis using d e by auto
  qed
  show ?thesis
  proof (cases "is_null (be_state event)")
    case False
    then show ?thesis by (auto simp: checkableGroupEvent_def)
  next
    case True
    then show ?thesis using mem by (cases ?ds) (auto simp: checkableGroupEvent_def)
  qed
qed

lemma checkable_member:
  assumes "sorted_wrt (<) (map fst p)" "(i, event) \<in> set (active_reports s p)" "voteKey (base_states (active_reports s p)) event = k"
  shows "\<exists>j. (j, checkableGroupEvent p (group_members (tallyPendingBlockHashes s p) k) event) \<in> set (active_reports s p) \<and>
     voteKey (base_states (active_reports s p)) (checkableGroupEvent p (group_members (tallyPendingBlockHashes s p) k) event) = k"
  using checkable_cases[OF assms(1), of s k event] assms(2,3) by metis

lemma live_inv_forget: "live_inv D s \<Longrightarrow> live_inv D (forget_block b s)"
  by (erule live_inv_cong) (auto simp: forget_block_def lv_sources_def map_le_def)

lemma live_inv_struck:
  assumes "live_inv D s" "struck E s s'" "E \<subseteq> {..<length (lv_sources s)}"
  shows "live_inv D s'"
proof -
  have src: "lv_sources s' = lv_sources s" using struck_fields(1)[OF assms(2)] by (simp add: lv_sources_def)
  show ?thesis
    using assms struck_fields[OF assms(2)] unfolding live_inv_def Let_def src by (auto simp: struck_def)
qed

lemma reject_effect: "reorg_effect s (rejectBlockWithoutQuorum io b gs s)"
proof -
  have f: "reorg_effect s (forget_block b s)" by (simp add: reorg_effect_def forget_block_def map_le_def)
  have c: "reorg_effect s (x\<lparr>lv_strictConfirm := ys\<rparr>)" if "reorg_effect s x" for x ys using that by (simp add: reorg_effect_def)
  show ?thesis
    using f c reorg_effect_trans[OF f live_halt_effect] by (simp add: rejectBlockWithoutQuorum_def Let_def)
qed

lemma live_inv_record:
  assumes "live_inv D s" "i < length (lv_sources s)" "DBlock i e \<in> set D" "recordPendingBlockHash e i s = (p, s1)"
  shows "live_inv D s1" "reports_from D (be_block e) s p" "(i, e) \<in> set p"
    "s1 = s\<lparr>lv_pending := (lv_pending s)(be_block e \<mapsto> p)\<rparr>"
proof -
  define old where "old = (case lv_pending s (be_block e) of None \<Rightarrow> [] | Some rs \<Rightarrow> rs)"
  have p: "p = put_report i e old" and s1: "s1 = s\<lparr>lv_pending := (lv_pending s)(be_block e \<mapsto> p)\<rparr>"
    using assms(4) by (auto simp: recordPendingBlockHash_def old_def Let_def)
  have o: "sorted_wrt (<) (map fst old)" "\<And>j d. (j, d) \<in> set old \<Longrightarrow> j < length (lv_sources s) \<and> be_block d = be_block e \<and> DBlock j d \<in> set D"
    using assms(1) unfolding old_def live_inv_def pending_inv_def Let_def by (cases "lv_pending s (be_block e)"; simp)+
  have mem: "j < length (lv_sources s) \<and> be_block d = be_block e \<and> DBlock j d \<in> set D" if "(j, d) \<in> set p" for j d
    using that put_report_set[of i e old] o(2) assms(2,3) unfolding p by blast
  have sorted: "sorted_wrt (<) (map fst p)" unfolding p by (rule put_report_sorted[OF o(1)])
  show "reports_from D (be_block e) s p"
    using mem sorted unfolding reports_from_def reports_ok_def by force
  show "(i, e) \<in> set p" unfolding p by (rule put_report_mem)
  show "s1 = s\<lparr>lv_pending := (lv_pending s)(be_block e \<mapsto> p)\<rparr>" by (rule s1)
  show "live_inv D s1"
    using assms(1) mem sorted unfolding s1 live_inv_def pending_inv_def Let_def lv_sources_def by simp
qed

text \<open>One delivery of a block to the vote.  A new eviction needs a winning key, from which the evicted dissent; what leaves
  the vote to be applied is backed.\<close>

definition vote_step :: "delivery list \<Rightarrow> live \<Rightarrow> live \<Rightarrow> bool" where
  "vote_step D s s' \<longleftrightarrow> live_inv D s' \<and> client_config (lv_client s') = client_config (lv_client s) \<and>
     lv_sourceQuorum s' = lv_sourceQuorum s \<and> (activeSourceCount s \<ge> 2 \<longrightarrow> activeSourceCount s' \<ge> 2) \<and>
     (lv_evicted s' = lv_evicted s \<or>
      (\<exists>h p k. reports_from D h s p \<and> wins s p k \<and>
         set (lv_evicted s') \<subseteq> set (lv_evicted s) \<union> dissenters k (tallyPendingBlockHashes s p) p))"

lemma vote_step_kept: "kept D s s' \<Longrightarrow> vote_step D s s'"
  by (auto simp: kept_def vote_step_def activeSourceCount_def client_config_def lv_sources_def)

lemma vote_step_effect: "live_inv D s \<Longrightarrow> reorg_effect s s' \<Longrightarrow> vote_step D s s'"
  by (rule vote_step_kept) (rule kept_effect)

lemma dissenters_in_range: "reports_ok s p \<Longrightarrow> dissenters k t p \<subseteq> {..<length (lv_sources s)}"
  by (force simp: dissenters_def reports_ok_def)

lemma accept_step:
  assumes inv: "live_inv D s" and p: "reports_from D h s p" "wins s p k"
  shows "vote_step D s (acceptBlockQuorum b p k g (tallyPendingBlockHashes s p) s)"
proof -
  let ?t = "tallyPendingBlockHashes s p" and ?s2 = "strike_dissenters b k (tallyPendingBlockHashes s p) p s"
  let ?s3 = "?s2\<lparr>lv_lastAgreeing := Some (length g)\<rparr>"
  have st: "struck (dissenters k ?t p) s ?s2" by (rule struck_dissenters) simp
  have range: "dissenters k ?t p \<subseteq> {..<length (lv_sources s)}" using p(1) by (simp add: reports_from_def dissenters_in_range)
  have "live_inv D ?s3"
    using live_inv_struck[OF inv st range] by (simp add: live_inv_def lv_sources_def Let_def)
  then have "live_inv D (forget_block b ?s3)" by (rule live_inv_forget)
  moreover have "activeSourceCount (forget_block b ?s3) = activeSourceCount ?s2"
    by (simp add: forget_block_def activeSourceCount_def lv_sources_def)
  ultimately show ?thesis
    using st p struck_fields[OF st] unfolding vote_step_def acceptBlockQuorum_def
    by (auto simp: struck_def forget_block_def)
qed

lemma kept_record:
  assumes "live_inv D s" "i < length (lv_sources s)" "DBlock i e \<in> set D" "recordPendingBlockHash e i s = (p, s1)"
  shows "kept D s s1"
  using live_inv_record[OF assms] by (simp add: kept_def)

lemma vote_step_record:
  assumes s1: "kept D s s1" and "vote_step D s1 s2"
  shows "vote_step D s s2"
proof -
  have "lv_evicted s1 = lv_evicted s" using s1 by (simp add: kept_def)
  then have "reports_from D h s1 p = reports_from D h s p" "wins s1 p k = wins s p k"
    "tallyPendingBlockHashes s1 p = tallyPendingBlockHashes s p" "activeSourceCount s1 = activeSourceCount s" for h p k
    using kept_same[OF s1] tally_cong[of s1 s p]
    by (simp_all add: reports_from_def reports_ok_def wins_def activeSourceCount_def)
  then show ?thesis using assms by (simp add: vote_step_def kept_def)
qed

lemma handleBlockQuorum_step:
  assumes inv: "live_inv D s" and i: "i < length (lv_sources s)" "DBlock i e \<in> set D"
    and run: "handleBlockQuorum io e i s = (ro, s')"
  shows "vote_step D s s'" and "lv_tip s' = lv_tip s"
    and "sourceQuorumActive s \<Longrightarrow> ro = None \<Longrightarrow> backed D s e"
    and "sourceQuorumActive s \<Longrightarrow> ro = Some (ApplyBlock d) \<Longrightarrow> backed D s d"
    and "ro \<noteq> Some (CatchUp n)"
proof -
  obtain p s1 where rec: "recordPendingBlockHash e i s = (p, s1)" by force
  note r = live_inv_record[OF inv i rec] and k1 = kept_record[OF inv i rec]
  let ?t = "tallyPendingBlockHashes s p"
  let ?k = "voteKey (ta_states ?t) e"
  let ?d = "checkableGroupEvent p (group_members ?t ?k) e"
  have ev: "lv_evicted s1 = lv_evicted s" using k1 by (simp add: kept_def)
  have t1: "tallyPendingBlockHashes s1 p = ?t" by (rule tally_cong[OF ev])
  have same: "activeSourceCount s1 = activeSourceCount s" "effectiveQuorum s1 = effectiveQuorum s" "lv_tip s1 = lv_tip s"
    using kept_same[OF k1] ev by (simp_all add: activeSourceCount_def r(4) lv_tip_def)
  have eq: "handleBlockQuorum io e i s =
      (if \<not> sourceQuorumActive s then (None, s) else if i \<in> set (lv_evicted s) then (Some Done, s)
       else if wins s p ?k then
         (if ?d = e then None else Some (ApplyBlock ?d), acceptBlockQuorum (be_block e) p ?k (group_members ?t ?k) ?t s1)
       else if ta_reported ?t \<ge> activeSourceCount s then (Some Done, rejectBlockWithoutQuorum io (be_block e) (ta_groups ?t) s1)
       else (Some Done, armBlockQuorumTimer e s1))"
    unfolding handleBlockQuorum_def rec Let_def wins_def prod.case t1 same by (rule refl)
  consider (off) "\<not> sourceQuorumActive s \<or> i \<in> set (lv_evicted s)"
    | (accept) "sourceQuorumActive s" "i \<notin> set (lv_evicted s)" "wins s p ?k"
    | (refuse) "sourceQuorumActive s" "i \<notin> set (lv_evicted s)" "\<not> wins s p ?k" "ta_reported ?t \<ge> activeSourceCount s"
    | (wait) "sourceQuorumActive s" "i \<notin> set (lv_evicted s)" "\<not> wins s p ?k" "\<not> ta_reported ?t \<ge> activeSourceCount s"
    by blast
  note cs = this
  have "vote_step D s s' \<and> lv_tip s' = lv_tip s \<and> (sourceQuorumActive s \<longrightarrow> ro = None \<longrightarrow> backed D s e) \<and>
    (sourceQuorumActive s \<longrightarrow> ro = Some (ApplyBlock d) \<longrightarrow> backed D s d) \<and> ro \<noteq> Some (CatchUp n)"
    using cs
  proof cases
    case off
    then have "s' = s" "\<not> sourceQuorumActive s \<or> ro = Some Done" "ro \<in> {None, Some Done}"
      using run unfolding eq by (auto split: if_splits)
    then show ?thesis using vote_step_kept[OF kept_refl[OF inv]] by auto
  next
    case here: accept
    then have accept: "i \<notin> set (lv_evicted s)" "wins s p ?k" "s' = acceptBlockQuorum (be_block e) p ?k (group_members ?t ?k) ?t s1"
        "ro = (if ?d = e then None else Some (ApplyBlock ?d))"
      using run unfolding eq by auto
    have "(i, e) \<in> set (active_reports s p)" using r(3) accept(1) by simp
    moreover have "sorted_wrt (<) (map fst p)" using r(2) by (simp add: reports_from_def reports_ok_def)
    ultimately obtain j where j: "(j, ?d) \<in> set (active_reports s p)" "voteKey (base_states (active_reports s p)) ?d = ?k"
      using checkable_member[of p i e s ?k] by auto
    have "be_block ?d = be_block e" using j(1) r(2) by (auto simp: reports_from_def)
    then have "backed D s ?d"
      using j r(2) accept(2) unfolding backed_def by (intro exI[of _ p] exI[of _ j]) simp
    moreover have "reports_from D (be_block e) s1 p" "wins s1 p ?k"
      using r(2) accept(2) kept_same[OF k1] t1 by (simp_all add: reports_from_def reports_ok_def wins_def)
    then have "vote_step D s s'"
      using vote_step_record[OF k1] accept_step[OF r(1), of "be_block e" p ?k "be_block e"] unfolding accept(3) t1 by blast
    moreover have "lv_tip s' = lv_tip s"
      using struck_fields(1)[OF struck_dissenters, of ?k ?t p UNIV] same(3)
      unfolding accept(3) by (simp add: acceptBlockQuorum_def forget_block_def lv_tip_def)
    ultimately show ?thesis using accept(4) by (auto split: if_splits)
  next
    case here: refuse
    then have refuse: "s' = rejectBlockWithoutQuorum io (be_block e) (ta_groups ?t) s1" "ro = Some Done"
      using run unfolding eq by auto
    have "lv_tip s' = lv_tip s"
      using same(3) unfolding refuse(1) by (simp add: rejectBlockWithoutQuorum_def live_halt_def stopDivergenceApply_def
          clearAllPendingReorgs_def forget_block_def lv_tip_def Let_def)
    then show ?thesis
      using vote_step_record[OF k1 vote_step_effect[OF r(1) reject_effect]] refuse by simp
  next
    case here: wait
    then have wait: "s' = armBlockQuorumTimer e s1" "ro = Some Done"
      using run unfolding eq by auto
    have "live_inv D s'"
      using r(1) i(2) unfolding wait(1) armBlockQuorumTimer_def live_inv_def timers_inv_def Let_def lv_sources_def by auto
    then have "kept D s1 s'" unfolding wait(1) by (simp add: kept_def armBlockQuorumTimer_def)
    then show ?thesis
      using vote_step_record[OF k1 vote_step_kept] same(3) wait by (simp add: armBlockQuorumTimer_def lv_tip_def)
  qed
  then show "vote_step D s s'" and "lv_tip s' = lv_tip s"
    and "sourceQuorumActive s \<Longrightarrow> ro = None \<Longrightarrow> backed D s e"
    and "sourceQuorumActive s \<Longrightarrow> ro = Some (ApplyBlock d) \<Longrightarrow> backed D s d"
    and "ro \<noteq> Some (CatchUp n)" by blast+
qed

subsection \<open>Every step of the live side\<close>

definition reorg_backed :: "delivery list \<Rightarrow> live \<Rightarrow> int \<Rightarrow> bool" where
  "reorg_backed D s b \<longleftrightarrow>
     (\<exists>e. entry_inv (length (lv_sources s)) D b e \<and> effectiveQuorum s \<le> activeReorgVotes s e)"

text \<open>The tip stays, or drops below a height a quorum claimed to be reorganised.\<close>

definition tip_move :: "delivery list \<Rightarrow> live \<Rightarrow> live \<Rightarrow> bool" where
  "tip_move D s s' \<longleftrightarrow> lv_tip s' = lv_tip s \<or>
     (\<exists>b. lv_tip s' = Some (b - 1) \<and> (sourceReorgQuorumActive s \<longrightarrow> reorg_backed D s b))"

lemma reorg_never_applies:
  "rewindForkedHead io ev rs s = Inr (r, s') \<Longrightarrow> r \<noteq> ApplyBlock d"
  "applyAgreedReorg io e s = Inr (r, s') \<Longrightarrow> r \<noteq> ApplyBlock d"
  "handleSourceReorg io ev src rewind s = Inr (r, s') \<Longrightarrow> r \<noteq> ApplyBlock d"
proof -
  show rw: "rewindForkedHead io ev rs s = Inr (r, s') \<Longrightarrow> r \<noteq> ApplyBlock d" for ev rs s s'
    by (auto simp: rewindForkedHead_def rbind_def split: sum.splits)
  show ag: "applyAgreedReorg io e s = Inr (r, s') \<Longrightarrow> r \<noteq> ApplyBlock d" for e s s'
    using rw by (auto simp: applyAgreedReorg_def rbind_def split: if_splits sum.splits)
  show "handleSourceReorg io ev src rewind s = Inr (r, s') \<Longrightarrow> r \<noteq> ApplyBlock d"
    using ag by (auto simp: handleSourceReorg_def rbind_def Let_def split: if_splits sum.splits prod.splits option.splits)
qed

lemma sourceReorg_step:
  assumes "live_inv D s" "i < length (lv_sources s)" "claimed_reorg D i (re_block ev)"
    "handleSourceReorg io ev (Some i) rewind s = Inr (r, s')"
  shows "vote_step D s s'" "tip_move D s s'"
  using handleSourceReorg_cases[OF assms] vote_step_kept unfolding tip_move_def reorg_backed_def by auto

text \<open>The two comparisons that end in a rewind are disputes.\<close>

lemma head_fork_disputes: "head_fork e s \<Longrightarrow> lv_tip s = Some (be_block e) \<Longrightarrow> disputes_tip e s"
  by (auto simp: head_fork_def disputes_tip_def other_head_def split: option.splits if_splits)

lemma replaced_disputes: "decoderTipReplaced e s \<Longrightarrow> lv_tip s = Some (be_block e - 1) \<Longrightarrow> disputes_tip e s"
  by (auto simp: decoderTipReplaced_def decoderLinkBroken_def previousBlockHash_def disputes_tip_def other_parent_def is_null_def
      split: option.splits if_splits)

lemma handleBlock_step:
  assumes inv: "live_inv D s" and i: "i < length (lv_sources s)" "DBlock i e \<in> set D" "set (fork_claim i e s) \<subseteq> set D"
    and run: "handleBlock io e i s = Inr (r, s')"
  shows "vote_step D s s'" "tip_move D s s'" "sourceQuorumActive s \<Longrightarrow> r = ApplyBlock d \<Longrightarrow> backed D s d"
proof -
  have fork: "vote_step D s s' \<and> tip_move D s s' \<and> r \<noteq> ApplyBlock d"
    if "fork_at io b (Some i) s = Inr (r, s')" "disputes_tip e s" "b = tip_num s" for b
  proof -
    have "claimed_reorg D i (re_block (plain_reorg b))"
      using that(2,3) i(3) by (auto simp: claimed_reorg_def plain_reorg_def fork_claim_def)
    then show ?thesis
      using that(1) sourceReorg_step[OF inv i(1)] reorg_never_applies(3) unfolding fork_at_def by fastforce
  qed
  have skip: "vote_step D s s \<and> tip_move D s s" using vote_step_kept[OF kept_refl[OF inv]] by (simp add: tip_move_def)
  consider (skip) "s' = s" "r = Done \<or> (\<exists>n. r = CatchUp n)"
    | (fork) b where "fork_at io b (Some i) s = Inr (r, s')" "disputes_tip e s" "b = tip_num s"
    | (vote) ro where "handleBlockQuorum (ri_halt io) e i s = (ro, s')" "r = (case ro of None \<Rightarrow> ApplyBlock e | Some q \<Rightarrow> q)"
  proof (cases "handlePreviouslyAppliedBlock io e (Some i) s")
    case (Some x)
    then show ?thesis
      using run that(1,2) head_fork_disputes[of e s]
      by (auto simp: handleBlock_def handlePreviouslyAppliedBlock_def tip_num_def split: if_splits option.splits)
  next
    case None
    then have "lv_tip s = None \<or> be_block e \<ge> tip_num s + 1"
      by (auto simp: handlePreviouslyAppliedBlock_def tip_num_def split: option.splits if_splits)
    then have "lv_tip s = Some (be_block e - 1)" if "lv_tip s \<noteq> None" "\<not> be_block e > tip_num s + 1"
      using that by (auto simp: tip_num_def)
    then show ?thesis
      using run None that replaced_disputes[of e s] unfolding handleBlock_def Let_def
      by (cases "handleBlockQuorum (ri_halt io) e i s") (fastforce split: if_splits option.splits)
  qed
  note cs = this
  have "vote_step D s s' \<and> tip_move D s s' \<and> (sourceQuorumActive s \<longrightarrow> r = ApplyBlock d \<longrightarrow> backed D s d)"
    using cs
  proof cases
    case skip
    then show ?thesis using \<open>vote_step D s s \<and> tip_move D s s\<close> by auto
  next
    case fork
    then show ?thesis using \<open>\<And>b. fork_at io b (Some i) s = Inr (r, s') \<Longrightarrow> _ \<Longrightarrow> _ \<Longrightarrow> _\<close> by blast
  next
    case vote
    then show ?thesis
      using handleBlockQuorum_step[OF inv i(1,2) vote(1)] by (auto simp: tip_move_def split: option.splits)
  qed
  then show "vote_step D s s'" "tip_move D s s'" "sourceQuorumActive s \<Longrightarrow> r = ApplyBlock d \<Longrightarrow> backed D s d" by blast+
qed

text \<open>The fallbacks.  A block timer applies nothing in strict mode, and otherwise only what no active report contests; a
  reorg timer moves no tip in strict mode, and otherwise needs an active claim.\<close>

definition uncontested :: "delivery list \<Rightarrow> live \<Rightarrow> block_event \<Rightarrow> bool" where
  "uncontested D s d \<longleftrightarrow> (\<exists>i. DBlock i d \<in> set D) \<and> (\<exists>p. lv_pending s (be_block d) = Some p \<and> active_reports s p \<noteq> [] \<and>
     (\<forall>(i, e) \<in> set (active_reports s p). voteKey (base_states (active_reports s p)) e = voteKey (base_states (active_reports s p)) d))"

lemma one_group:
  assumes "length (ta_groups (tallyPendingBlockHashes s p)) \<le> 1" "(i, d) \<in> set (active_reports s p)" "(j, e) \<in> set (active_reports s p)"
  shows "voteKey (base_states (active_reports s p)) d = voteKey (base_states (active_reports s p)) e"
proof -
  have "finite (fst ` set (ta_groups (tallyPendingBlockHashes s p)))" by simp
  moreover have "card (fst ` set (ta_groups (tallyPendingBlockHashes s p))) \<le> 1"
    using assms(1) card_image_le card_length le_trans by (metis finite_set)
  moreover have "voteKey (base_states (active_reports s p)) d \<in> fst ` set (ta_groups (tallyPendingBlockHashes s p))"
    "voteKey (base_states (active_reports s p)) e \<in> fst ` set (ta_groups (tallyPendingBlockHashes s p))"
    unfolding tally_keys using assms(2,3) by force+
  ultimately show ?thesis by (metis card_le_Suc0_iff_eq One_nat_def)
qed

lemma fireBlockTimer_step:
  assumes inv: "live_inv D s" and run: "fireBlockTimer io h s = (r, s')"
  shows "vote_step D s s'" "tip_move D s s'" "lv_strict s \<Longrightarrow> r = Done" "r = ApplyBlock d \<Longrightarrow> uncontested D s d"
proof -
  define s1 where "s1 = s\<lparr>lv_timers := (lv_timers s)(h := None)\<rparr>"
  have e1: "reorg_effect s s1" by (simp add: s1_def reorg_effect_def map_le_def)
  have same: "lv_pending s1 = lv_pending s" "lv_evicted s1 = lv_evicted s" "lv_tip s1 = lv_tip s" "lv_strict s1 = lv_strict s"
    by (simp_all add: s1_def lv_tip_def)
  have drop: "reorg_effect s (s1\<lparr>lv_pending := (lv_pending s1)(h := None)\<rparr>)" "reorg_effect s (s1\<lparr>lv_strictConfirm := x\<rparr>)" for x
    using e1 by (auto simp: reorg_effect_def map_le_def)
  have rejected: "reorg_effect s (rejectBlockWithoutQuorum io h gs s1)" "lv_tip (rejectBlockWithoutQuorum io h gs s1) = lv_tip s" for gs
    using reorg_effect_trans[OF e1 reject_effect] same(3)
    by (simp_all add: rejectBlockWithoutQuorum_def live_halt_def stopDivergenceApply_def clearAllPendingReorgs_def
        forget_block_def lv_tip_def Let_def)
  consider (idle) "r = Done" "s' = s \<or> s' = s1 \<or> (\<exists>x. s' = s1\<lparr>lv_strictConfirm := x\<rparr>) \<or> (\<exists>gs. s' = rejectBlockWithoutQuorum io h gs s1) \<or>
        s' = s1\<lparr>lv_pending := (lv_pending s1)(h := None)\<rparr>"
    | (fire) event p where "lv_timers s h = Some event" "lv_pending s h = Some p" "\<not> lv_strict s"
        "length (ta_groups (tallyPendingBlockHashes s p)) \<le> 1"
        "voteKey (base_states (active_reports s p)) event \<in> fst ` set (ta_groups (tallyPendingBlockHashes s p))"
        "r = ApplyBlock (checkableGroupEvent p (group_members (tallyPendingBlockHashes s p) (voteKey (base_states (active_reports s p)) event)) event)"
        "s' = s1\<lparr>lv_pending := (lv_pending s1)(h := None)\<rparr>"
    using run tally_cong[OF same(2)]
    unfolding fireBlockTimer_def s1_def[symmetric] same Let_def by (fastforce split: option.splits if_splits)
  note cs = this
  show vs: "vote_step D s s'"
    using cs vote_step_effect[OF inv] reorg_effect_refl e1 drop rejected by cases blast+
  show "tip_move D s s'"
    using cs same(3) rejected(2) by cases (auto simp: tip_move_def lv_tip_def)
  show "r = Done" if "lv_strict s" using cs that by cases auto
  show "uncontested D s d" if r: "r = ApplyBlock d"
    using cs
  proof cases
    case idle
    then show ?thesis using r by simp
  next
    case fire
    have p: "reports_from D h s p"
      using inv fire(2) unfolding live_inv_def pending_inv_def Let_def reports_from_def reports_ok_def by fastforce
    obtain i e0 where e0: "(i, e0) \<in> set (active_reports s p)"
        "voteKey (base_states (active_reports s p)) e0 = voteKey (base_states (active_reports s p)) event"
      using fire(5) unfolding tally_keys by force
    let ?d = "checkableGroupEvent p (group_members (tallyPendingBlockHashes s p) (voteKey (base_states (active_reports s p)) event)) event"
    have "be_block event = h \<and> (\<exists>i. DBlock i event \<in> set D)"
      using inv fire(1) by (auto simp: live_inv_def timers_inv_def Let_def)
    moreover have "?d = event \<or> (\<exists>j. (j, ?d) \<in> set (active_reports s p) \<and>
        voteKey (base_states (active_reports s p)) ?d = voteKey (base_states (active_reports s p)) event)"
      using p by (intro checkable_cases) (simp add: reports_from_def reports_ok_def)
    ultimately have d: "be_block d = h" "\<exists>i. DBlock i d \<in> set D"
        "voteKey (base_states (active_reports s p)) d = voteKey (base_states (active_reports s p)) event"
      using p fire(6) r by (auto simp: reports_from_def)
    have "\<forall>(j, e) \<in> set (active_reports s p). voteKey (base_states (active_reports s p)) e = voteKey (base_states (active_reports s p)) d"
      using one_group[OF fire(4) e0(1)] e0(2) d(3) by auto
    moreover have "active_reports s p \<noteq> []" using e0(1) by (metis empty_iff empty_set)
    ultimately show ?thesis
      using d fire(2) unfolding uncontested_def by (intro conjI exI[of _ p]) auto
  qed
qed

lemma fireReorgTimer_step:
  assumes inv: "live_inv D s" and run: "fireReorgTimer io h s = Inr (r, s')"
  shows "vote_step D s s'" "lv_strict s \<Longrightarrow> tip_move D s s'"
    "lv_tip s' \<noteq> lv_tip s \<Longrightarrow> lv_tip s' = Some (h - 1) \<and> (\<exists>i. i < length (lv_sources s) \<and> i \<notin> set (lv_evicted s) \<and> claimed_reorg D i h)"
proof -
  have "vote_step D s s' \<and> (lv_strict s \<longrightarrow> lv_tip s' = lv_tip s) \<and>
    (lv_tip s' \<noteq> lv_tip s \<longrightarrow> lv_tip s' = Some (h - 1) \<and> (\<exists>i. i < length (lv_sources s) \<and> i \<notin> set (lv_evicted s) \<and> claimed_reorg D i h))"
  proof (cases "lv_reorgs s h")
    case None
    then show ?thesis using run vote_step_kept[OF kept_refl[OF inv]] by (simp add: fireReorgTimer_def)
  next
    case (Some e)
    define s1 where "s1 = s\<lparr>lv_reorgs := (lv_reorgs s)(h := None)\<rparr>"
    have e1: "reorg_effect s s1" "lv_tip s1 = lv_tip s" by (simp_all add: s1_def reorg_effect_def map_le_def lv_tip_def)
    have ent: "entry_inv (length (lv_sources s)) D h e"
      using inv Some by (simp add: live_inv_def reorgs_inv_def Let_def)
    have held: "kept D s (s\<lparr>lv_reorgs := (lv_reorgs s)(h \<mapsto> e\<lparr>en_timer := False\<rparr>), lv_strictReorg := x\<rparr>)" for x
      using kept_entry[OF inv, of h "e\<lparr>en_timer := False\<rparr>"] ent
      by (simp add: kept_def entry_inv_def live_inv_def lv_sources_def Let_def)
    have eq: "fireReorgTimer io h s =
        (if \<not> en_timer e \<or> cl_stopping (lv_client s) then Inr (Done, s)
         else if lv_strict s then Inr (Done, s\<lparr>lv_reorgs := (lv_reorgs s)(h \<mapsto> e\<lparr>en_timer := False\<rparr>),
                                               lv_strictReorg := List.insert h (lv_strictReorg s)\<rparr>)
         else if activeReorgVotes s1 e = 0 then Inr (Done, s1) else applyAgreedReorg io (e\<lparr>en_timer := False\<rparr>) s1)"
      unfolding fireReorgTimer_def Let_def s1_def Some option.case by (rule refl)
    consider (idle) "s' = s" | (strict) x where "s' = s\<lparr>lv_reorgs := (lv_reorgs s)(h \<mapsto> e\<lparr>en_timer := False\<rparr>), lv_strictReorg := x\<rparr>"
      | (gone) "\<not> lv_strict s" "s' = s1"
      | (go) "\<not> lv_strict s" "activeReorgVotes s1 e \<noteq> 0" "applyAgreedReorg io (e\<lparr>en_timer := False\<rparr>) s1 = Inr (r, s')"
      using run unfolding eq by (metis Inr_inject prod.inject)
    then show ?thesis
    proof cases
      case idle
      then show ?thesis using vote_step_kept[OF kept_refl[OF inv]] by simp
    next
      case strict
      then show ?thesis using vote_step_kept[OF held] by (simp add: lv_tip_def)
    next
      case gone
      then show ?thesis using vote_step_effect[OF inv e1(1)] e1(2) by simp
    next
      case go
      obtain i where "i \<in> set (en_votes e)" "i \<notin> set (lv_evicted s)"
        using go(2) by (auto simp: activeReorgVotes_def s1_def filter_empty_conv)
      then have "\<exists>i. i < length (lv_sources s) \<and> i \<notin> set (lv_evicted s) \<and> claimed_reorg D i h" using ent by (auto simp: entry_inv_def)
      then show ?thesis
        using vote_step_effect[OF inv reorg_effect_trans[OF e1(1) applyAgreed_effect[OF go(3)]]] tip_applyAgreed[OF go(3)]
          e1(2) ent go(1) by (auto simp: entry_inv_def)
    qed
  qed
  then show "vote_step D s s'" "lv_strict s \<Longrightarrow> tip_move D s s'"
    "lv_tip s' \<noteq> lv_tip s \<Longrightarrow> lv_tip s' = Some (h - 1) \<and> (\<exists>i. i < length (lv_sources s) \<and> i \<notin> set (lv_evicted s) \<and> claimed_reorg D i h)"
    by (auto simp: tip_move_def)
qed

lemma fireReorgTimer_never_applies: "fireReorgTimer io h s = Inr (r, s') \<Longrightarrow> r \<noteq> ApplyBlock d"
  using reorg_never_applies(2) by (auto simp: fireReorgTimer_def Let_def split: if_splits option.splits)

section \<open>Runs keep the invariant\<close>

lemma live_event_grows: "live_event D s r D' s' \<Longrightarrow> set D \<subseteq> set D'"
  by (auto elim!: live_event.cases)

lemma block_event_logged:
  assumes "D' = fork_claim i e s @ DBlock i e # D" "live_inv D s"
  shows "live_inv D' s" "DBlock i e \<in> set D'" "set (fork_claim i e s) \<subseteq> set D'"
  using live_inv_mono[OF assms(2), of D'] assms(1) by auto

lemma reorg_event_logged:
  assumes "D' = DReorg i ev # D" "live_inv D s"
  shows "live_inv D' s" "claimed_reorg D' i (re_block ev)"
  using live_inv_mono[OF assms(2), of D'] assms(1) by auto

lemma live_event_step:
  assumes "live_event D s r D' s'" "live_inv D s"
  shows "vote_step D' s s'"
  using assms(1)
proof cases
  case (block i io e)
  note log = block_event_logged[OF block(1) assms(2)]
  show ?thesis by (rule handleBlock_step(1)[OF log(1) block(2) log(2,3) block(3)])
next
  case (reorg i io ev)
  note log = reorg_event_logged[OF reorg(1) assms(2)]
  show ?thesis by (rule sourceReorg_step(1)[OF log(1) reorg(2) log(2) reorg(3)])
next
  case (block_timer hio h)
  then show ?thesis using fireBlockTimer_step(1)[OF assms(2)] by auto
next
  case (reorg_timer io h)
  then show ?thesis using fireReorgTimer_step(1)[OF assms(2)] by auto
qed

text \<open>Without strict confirmation a reorg timer also moves the tip, on one claim.\<close>

lemma live_event_tip:
  assumes "live_event D s r D' s'" "live_inv D s"
  shows "tip_move D' s s' \<or> \<not> lv_strict s \<and>
    (\<exists>b i. lv_tip s' = Some (b - 1) \<and> i < length (lv_sources s) \<and> i \<notin> set (lv_evicted s) \<and> claimed_reorg D' i b)"
  using assms(1)
proof cases
  case (block i io e)
  note log = block_event_logged[OF block(1) assms(2)]
  show ?thesis by (rule disjI1) (rule handleBlock_step(2)[OF log(1) block(2) log(2,3) block(3)])
next
  case (reorg i io ev)
  note log = reorg_event_logged[OF reorg(1) assms(2)]
  show ?thesis by (rule disjI1) (rule sourceReorg_step(2)[OF log(1) reorg(2) log(2) reorg(3)])
next
  case (block_timer hio h)
  then show ?thesis using fireBlockTimer_step(2)[OF assms(2)] by auto
next
  case (reorg_timer io h)
  then show ?thesis
    using fireReorgTimer_step(2,3)[OF assms(2) reorg_timer(2)] by (cases "lv_tip s' = lv_tip s") (auto simp: tip_move_def)
qed

text \<open>The two ways a block leaves the vote: on the delivery that completes its quorum, or on its timer.\<close>

lemma live_event_applies:
  assumes "live_event D s (ApplyBlock d) D' s'" "live_inv D s" "sourceQuorumActive s"
  shows "backed D' s d \<or> \<not> lv_strict s \<and> uncontested D' s d"
  using assms(1)
proof cases
  case (block i io e)
  note log = block_event_logged[OF block(1) assms(2)]
  show ?thesis by (rule disjI1) (rule handleBlock_step(3)[OF log(1) block(2) log(2,3) block(3) assms(3) refl])
next
  case (reorg i io ev)
  then show ?thesis using reorg_never_applies(3) by blast
next
  case (block_timer hio h)
  then show ?thesis using fireBlockTimer_step(3,4)[OF assms(2)] by auto
next
  case (reorg_timer io h)
  then show ?thesis using fireReorgTimer_never_applies by blast
qed

lemma client_effect:
  "client_config c = client_config (lv_client s) \<Longrightarrow> reorg_effect s (s\<lparr>lv_client := c, lv_lastHashes := lh, lv_indexTxs := txs\<rparr>)"
  by (simp add: reorg_effect_def)

lemma applied_effect: "reorg_effect s (clearAppliedBlockWork s)"
  by (auto simp: reorg_effect_def clearAppliedBlockWork_def map_le_def split: if_splits)

lemma live_run_inv: "live_run s0 D s \<Longrightarrow> live_inv D s"
proof (induction rule: live_run.induct)
  case start
  then show ?case by (simp add: fresh_def live_inv_def pending_inv_def timers_inv_def reorgs_inv_def Let_def)
next
  case (event D s r D' s')
  then show ?case using live_event_step by (simp add: vote_step_def)
qed (auto intro: reorg_effect_inv client_effect applied_effect stop_effect)

definition honest_history :: "nat set \<Rightarrow> story \<Rightarrow> delivery list \<Rightarrow> bool" where
  "honest_history B truth D \<longleftrightarrow> (\<forall>i e. DBlock i e \<in> set D \<longrightarrow> i \<notin> B \<longrightarrow> honest_report truth e)"

lemma honest_history_reports: "honest_history B truth D \<Longrightarrow> reports_from D h s p \<Longrightarrow> honest_reports B truth h p"
  by (auto simp: honest_history_def reports_from_def honest_reports_def)

text \<open>A faulty minority stays one: only faulty sources are ever evicted.\<close>

lemma vote_step_minority:
  assumes step: "vote_step D s s'" and B: "faulty_minority B s" and honest: "honest_history B truth D"
  shows "faulty_minority B s'"
proof -
  have "set (lv_evicted s') \<subseteq> B"
  proof (cases "lv_evicted s' = lv_evicted s")
    case True
    then show ?thesis using B by (simp add: faulty_minority_def)
  next
    case False
    then obtain h p k where p: "reports_from D h s p" "wins s p k"
      and ev: "set (lv_evicted s') \<subseteq> set (lv_evicted s) \<union> dissenters k (tallyPendingBlockHashes s p) p"
      using step unfolding vote_step_def by blast
    have "dissenters k (tallyPendingBlockHashes s p) (active_reports s p) \<subseteq> B"
      using p B honest_history_reports[OF honest p(1)] unfolding reports_from_def wins_def
      by (intro honest_never_dissents) auto
    moreover have "dissenters k (tallyPendingBlockHashes s p) p \<subseteq>
        dissenters k (tallyPendingBlockHashes s p) (active_reports s p) \<union> set (lv_evicted s)"
      by (auto simp: dissenters_def)
    ultimately show ?thesis using ev B unfolding faulty_minority_def by blast
  qed
  moreover have "lv_sources s' = lv_sources s" using step unfolding vote_step_def by (blast intro: lv_sources_config)
  ultimately show ?thesis using step B unfolding faulty_minority_def vote_step_def live_inv_def Let_def by simp
qed

lemma honest_mono: "honest_history B truth D' \<Longrightarrow> set D \<subseteq> set D' \<Longrightarrow> honest_history B truth D"
  unfolding honest_history_def by blast

lemma run_minority:
  assumes "live_run s0 D s" "faulty_minority B s0" "honest_history B truth D"
  shows "faulty_minority B s \<and> (2 \<le> activeSourceCount s0 \<longrightarrow> 2 \<le> activeSourceCount s)"
  using assms
proof (induction rule: live_run.induct)
  case (event D s r D' s')
  have honest: "honest_history B truth D" using event.prems(2) live_event_grows[OF event.hyps(2)] by (rule honest_mono)
  have step: "vote_step D' s s'" using live_event_step[OF event.hyps(2)] live_run_inv[OF event.hyps(1)] by simp
  then show ?case
    using event.IH[OF event.prems(1) honest] vote_step_minority[OF step _ event.prems(2)] by (auto simp: vote_step_def)
next
  case (client D s c lh txs)
  then show ?case using vote_step_minority[OF vote_step_effect[OF live_run_inv client_effect]] vote_step_effect[OF live_run_inv client_effect]
    by (fastforce simp: vote_step_def)
next
  case (applied D s)
  then show ?case using vote_step_minority[OF vote_step_effect[OF live_run_inv applied_effect]] vote_step_effect[OF live_run_inv applied_effect]
    by (fastforce simp: vote_step_def)
next
  case (halted D s)
  then show ?case using vote_step_minority[OF vote_step_effect[OF live_run_inv stop_effect]] vote_step_effect[OF live_run_inv stop_effect]
    by (fastforce simp: vote_step_def)
qed simp

section \<open>What leaves the vote\<close>

text \<open>The separator in a state hash that is among the reports.\<close>

definition joins_state :: "(nat \<times> block_event) list \<Rightarrow> bool" where
  "joins_state p \<longleftrightarrow> (\<exists>(j, x) \<in> set p. pipes (js_string (be_state x)) \<noteq> 0)"

lemma state_part_clean:
  assumes sep: "\<not> joins_state p" and x: "(j, x) \<in> set (active_reports s p)"
  shows "pipes (state_part (base_states (active_reports s p)) x) = 0"
proof (cases "is_null (be_state x) \<and> length (base_states (active_reports s p) (baseTupleKey x)) = 1")
  case True
  then have "hd (base_states (active_reports s p) (baseTupleKey x)) \<in> set (base_states (active_reports s p) (baseTupleKey x))"
    by (intro hd_in_set) auto
  then obtain n y where "(n, y) \<in> set p" "be_state y = Text (hd (base_states (active_reports s p) (baseTupleKey x)))"
    by (auto simp: base_states_mem)
  moreover have "pipes (js_string (be_state y)) = 0" using sep calculation(1) unfolding joins_state_def by blast
  ultimately show ?thesis using True by (simp add: state_part_def js_string_def)
next
  case False
  then show ?thesis using sep x by (auto simp: state_part_def js_string_def joins_state_def)
qed

lemma same_key_same_hashes:
  assumes "\<not> joins_state p" "(j, x) \<in> set (active_reports s p)" "clean_report x"
    and "voteKey (base_states (active_reports s p)) x = voteKey (base_states (active_reports s p)) d"
  shows "same_chain_hashes d x"
  using voteKey_same[OF assms(4)[symmetric] assms(3) state_part_clean[OF assms(1,2)]] by blast

lemma live_inv_pending: "live_inv D s \<Longrightarrow> lv_pending s h = Some p \<Longrightarrow> reports_from D h s p"
  unfolding live_inv_def pending_inv_def Let_def reports_from_def reports_ok_def by fastforce


text \<open>What the story says of a block.\<close>

definition tells :: "story \<Rightarrow> block_event \<Rightarrow> bool" where
  "tells truth d \<longleftrightarrow> (case truth (be_block d) of (l, a, k, t) \<Rightarrow>
     js_string (be_ledger d) = l \<and> js_string (be_actions d) = a \<and> js_string (be_contract d) = k)"

lemma honest_tells: "honest_report truth x \<Longrightarrow> same_chain_hashes d x \<Longrightarrow> be_block x = be_block d \<Longrightarrow> tells truth d"
  by (auto simp: tells_def honest_report_def same_chain_hashes_def js_string_def split: prod.splits)

text \<open>One honest report among the agreeing ones settles the hashes, unless a faulty source slipped in a separator.\<close>

lemma honest_agreement:
  assumes honest: "honest_history B truth D" and p: "reports_from D (be_block d) s p"
    and x: "(j, x) \<in> set (active_reports s p)" "j \<notin> B"
      "voteKey (base_states (active_reports s p)) x = voteKey (base_states (active_reports s p)) d"
  shows "tells truth d \<or> (\<exists>n \<in> B. \<exists>y. DBlock n y \<in> set D \<and> be_block y = be_block d \<and> pipes (js_string (be_state y)) \<noteq> 0)"
proof (cases "joins_state p")
  case True
  then obtain n y where y: "(n, y) \<in> set p" "pipes (js_string (be_state y)) \<noteq> 0" unfolding joins_state_def by blast
  then have here: "DBlock n y \<in> set D" "be_block y = be_block d" using p unfolding reports_from_def by blast+
  have "\<not> honest_report truth y" using y(2) honest_clean[of truth y] by (auto simp: clean_report_def)
  then have "n \<in> B" using honest here(1) unfolding honest_history_def by blast
  then show ?thesis using y(2) here by blast
next
  case False
  have "DBlock j x \<in> set D" "be_block x = be_block d" using p x(1) unfolding reports_from_def by auto
  then show ?thesis
    using same_key_same_hashes[OF False x(1) _ x(3)] honest_clean honest_tells honest x(2) unfolding honest_history_def by blast
qed

text \<open>(C4) While the sources outside a faulty minority tell one story, only faulty sources are ever evicted, a client with
  several active sources keeps two of them, and every block a delivery or a timer makes it apply has the hashes of that
  story, with two exceptions.  A faulty source may have sent, for that height, a state hash with the separator of the
  vote key inside.  Without strict confirmation (the default), the confirmation timer may have run out on a height that
  only faulty sources, of those that count, have reported so far.\<close>
theorem honest_story_applied:
  assumes run: "live_run s0 D s" and B: "faulty_minority B s0" and honest: "honest_history B truth D'"
    and act: "sourceQuorumActive s" and event: "live_event D s (ApplyBlock d) D' s'"
  shows "set (lv_evicted s') \<subseteq> B \<and> 2 \<le> activeSourceCount s' \<and>
    (tells truth d \<or>
     (\<exists>j \<in> B. \<exists>x. DBlock j x \<in> set D' \<and> be_block x = be_block d \<and> pipes (js_string (be_state x)) \<noteq> 0) \<or>
     \<not> lv_strict s \<and> (\<exists>p. lv_pending s (be_block d) = Some p \<and> fst ` set (active_reports s p) \<subseteq> B))"
proof (intro conjI)
  have "honest_history B truth D" using honest live_event_grows[OF event] by (rule honest_mono)
  note min = run_minority[OF run B this] run_minority[OF live_run.event[OF run event] B honest]
  show "set (lv_evicted s') \<subseteq> B" using min(2) by (simp add: faulty_minority_def)
  have inv: "live_inv D s" by (rule live_run_inv[OF run])
  show "2 \<le> activeSourceCount s'"
    using live_event_step[OF event inv] act by (auto simp: vote_step_def sourceQuorumActive_def)
  show "tells truth d \<or>
     (\<exists>j \<in> B. \<exists>x. DBlock j x \<in> set D' \<and> be_block x = be_block d \<and> pipes (js_string (be_state x)) \<noteq> 0) \<or>
     \<not> lv_strict s \<and> (\<exists>p. lv_pending s (be_block d) = Some p \<and> fst ` set (active_reports s p) \<subseteq> B)"
    using live_event_applies[OF event inv act]
  proof (elim disjE conjE)
    assume "backed D' s d"
    then obtain p where p: "reports_from D' (be_block d) s p" "wins s p (voteKey (base_states (active_reports s p)) d)"
      unfolding backed_def by blast
    have ok: "reports_ok s p" "effectiveQuorum s \<le> length (group_members (tallyPendingBlockHashes s p) (voteKey (base_states (active_reports s p)) d))"
      using p by (simp_all add: reports_from_def wins_def)
    obtain j x where "(j, x) \<in> set (active_reports s p)" "j \<notin> B"
        "voteKey (base_states (active_reports s p)) x = voteKey (base_states (active_reports s p)) d"
      using winner_has_honest[OF ok(1) conjunct1[OF min(1)] honest_history_reports[OF honest p(1)] ok(2)] by metis
    then show ?thesis using honest_agreement[OF honest p(1)] by blast
  next
    assume default: "\<not> lv_strict s" and "uncontested D' s d"
    then obtain p where p: "lv_pending s (be_block d) = Some p"
        "\<forall>(i, e) \<in> set (active_reports s p). voteKey (base_states (active_reports s p)) e = voteKey (base_states (active_reports s p)) d"
      unfolding uncontested_def by blast
    have sent: "reports_from D' (be_block d) s p"
      using live_inv_pending[OF live_inv_mono[OF inv live_event_grows[OF event]] p(1)] .
    show ?thesis
    proof (cases "fst ` set (active_reports s p) \<subseteq> B")
      case True
      then show ?thesis using default p(1) by blast
    next
      case False
      then obtain j x where "(j, x) \<in> set (active_reports s p)" "j \<notin> B" by force
      then show ?thesis using honest_agreement[OF honest sent] p(2) by blast
    qed
  qed
qed


section \<open>A run with three sources\<close>

definition demo_live :: live where
  "demo_live = \<lparr>lv_client = demo_client\<lparr>cl_sources := [''a'', ''b'', ''c'']\<rparr>, lv_verifyHashes = True, lv_strict = True,
     lv_haltOnDivergence = True, lv_sourceQuorum = source_quorum 0 3, lv_evictThreshold = 3, lv_strikeWindow = 200,
     lv_lastHashes = None, lv_evicted = [], lv_strikes = (\<lambda>_. []), lv_pending = Map.empty, lv_timers = Map.empty,
     lv_strictConfirm = [], lv_reorgs = Map.empty, lv_strictReorg = [], lv_lastAgreeing = None, lv_indexTxs = []\<rparr>"

definition demo_event :: "string \<Rightarrow> hash_field \<Rightarrow> block_event" where
  "demo_event l st = \<lparr>be_block = 11, be_ledger = Text l, be_actions = Text ''a'', be_contract = Text ''c'', be_state = st,
     be_block_hash = Undef, be_balances_root = Undef, be_block_merkle_root = Undef, be_state_root = Undef,
     be_prev_id = None, be_index_txs = []\<rparr>"

definition demo_rio :: reorg_io where
  "demo_rio = \<lparr>ri_halt = all_io, ri_rollback = all_rb, ri_tip_row = None\<rparr>"

abbreviation demo_report :: block_event where
  "demo_report \<equiv> demo_event ''l'' (Text ''s'')"

definition demo_live1 :: live where
  "demo_live1 = demo_live\<lparr>lv_pending := [11 \<mapsto> [(0, demo_report)]], lv_timers := [11 \<mapsto> demo_report]\<rparr>"

lemmas demo_simps = demo_live1_def demo_live_def demo_client_def demo_rio_def lv_tip_def tip_num_def lv_sources_def source_quorum_def

lemma demo_fields [simp]: "be_block (demo_event l st) = 11" "be_state (demo_event l st) = st"
  by (simp_all add: demo_event_def)

lemma demo_step1: "handleBlock demo_rio demo_report 0 demo_live = Inr (Done, demo_live1)"
  by (simp add: demo_simps handleBlock_def handlePreviouslyAppliedBlock_def verifyChainContinuity_def
      handleBlockQuorum_def sourceQuorumActive_def activeSourceCount_def recordPendingBlockHash_def tallyPendingBlockHashes_def
      active_reports_def first_occurrences_def group_members_def effectiveQuorum_def armBlockQuorumTimer_def Let_def)

lemma demo_step2: "\<exists>s'. handleBlock demo_rio demo_report 1 demo_live1 = Inr (ApplyBlock demo_report, s')"
  by (simp add: demo_simps handleBlock_def handlePreviouslyAppliedBlock_def verifyChainContinuity_def
      handleBlockQuorum_def sourceQuorumActive_def activeSourceCount_def recordPendingBlockHash_def tallyPendingBlockHashes_def
      active_reports_def first_occurrences_def group_members_def effectiveQuorum_def checkableGroupEvent_def is_null_def Let_def) auto

lemma live_demo_run: "live_run demo_live [DBlock 0 demo_report] demo_live1"
proof -
  have "live_run demo_live [] demo_live" by (rule live_run.start) (simp add: fresh_def demo_live_def)
  moreover have "fork_claim 0 demo_report demo_live = []"
    by (simp add: fork_claim_def disputes_tip_def demo_simps)
  then have "live_event [] demo_live Done [DBlock 0 demo_report] demo_live1"
    using live_event.block[OF _ demo_step1, of "[]"] by (simp add: demo_simps)
  ultimately show ?thesis by (rule live_run.event)
qed

lemma demo_active: "sourceQuorumActive demo_live1" "sourceReorgQuorumActive demo_live1" "length (lv_sources demo_live1) = 3"
  "effectiveQuorum demo_live1 = 2" "lv_evicted demo_live1 = []"
  by (simp_all add: demo_simps sourceQuorumActive_def sourceReorgQuorumActive_def activeSourceCount_def effectiveQuorum_def)

lemma demo_clean: "pipes (js_string (be_state demo_report)) = 0" "clean_report demo_report"
  by (simp_all add: clean_report_def demo_event_def js_string_def)

lemma demo_event2:
  obtains s' where "live_event [DBlock 0 demo_report] demo_live1 (ApplyBlock demo_report) [DBlock 1 demo_report, DBlock 0 demo_report] s'"
proof -
  obtain s' where s': "handleBlock demo_rio demo_report 1 demo_live1 = Inr (ApplyBlock demo_report, s')" using demo_step2 by blast
  have "fork_claim 1 demo_report demo_live1 = []" by (simp add: fork_claim_def disputes_tip_def demo_simps)
  then show thesis
    using that[of s'] live_event.block[OF _ s', of "[DBlock 0 demo_report]"] demo_active(3) by simp
qed


theorem honest_story_applied_witness:
  "\<exists>s'. live_event [DBlock 0 demo_report] demo_live1 (ApplyBlock demo_report) [DBlock 1 demo_report, DBlock 0 demo_report] s' \<and>
     set (lv_evicted s') \<subseteq> {2} \<and> tells (\<lambda>_. (''l'', ''a'', ''c'', ''s'')) demo_report"
proof -
  let ?truth = "\<lambda>_. (''l'', ''a'', ''c'', ''s'')"
  obtain s' where s': "live_event [DBlock 0 demo_report] demo_live1 (ApplyBlock demo_report) [DBlock 1 demo_report, DBlock 0 demo_report] s'"
    by (rule demo_event2)
  have "faulty_minority {2} demo_live" by (simp add: faulty_minority_def demo_simps)
  moreover have "honest_history {2} ?truth [DBlock 1 demo_report, DBlock 0 demo_report]"
    by (simp add: honest_history_def honest_report_def demo_event_def)
  moreover have "lv_strict demo_live1" by (simp add: demo_simps)
  ultimately show ?thesis
    using honest_story_applied[OF live_demo_run _ _ demo_active(1) s', of "{2}" ?truth] s' by auto
qed

definition demo_reorg_entry :: reorg_entry where
  "demo_reorg_entry = \<lparr>en_votes = [0], en_timer = True, en_event = plain_reorg 10, en_rewind = False,
     en_reports = [(0, reorg_report_of (plain_reorg 10) 0)]\<rparr>"

definition demo_live3 :: live where
  "demo_live3 = demo_live\<lparr>lv_reorgs := [10 \<mapsto> demo_reorg_entry]\<rparr>"

lemma demo_guard: "depthFor 10 10 \<lparr>g_max = 3, g_peak = None, g_low = None\<rparr> = (1, \<lparr>g_max = 3, g_peak = None, g_low = None\<rparr>)"
  by (simp add: depthFor_def expire_def)

lemma demo_reorg1: "handleSourceReorg demo_rio (plain_reorg 10) (Some 0) False demo_live = Inr (Done, demo_live3)"
  by (simp add: demo_live3_def demo_reorg_entry_def demo_simps handleSourceReorg_def demo_guard sourceReorgQuorumActive_def
      sourceQuorumActive_def activeSourceCount_def recordReorgVote_def recordReorgReport_def activeReorgVotes_def
      effectiveQuorum_def armReorgQuorumTimer_def plain_reorg_def RollbackGuard_def Let_def)

lemma demo_run3: "live_run demo_live [DReorg 0 (plain_reorg 10)] demo_live3"
proof -
  have "live_run demo_live [] demo_live" by (rule live_run.start) (simp add: fresh_def demo_live_def)
  moreover have "live_event [] demo_live Done [DReorg 0 (plain_reorg 10)] demo_live3"
    by (rule live_event.reorg[OF _ demo_reorg1]) (simp add: demo_simps)
  ultimately show ?thesis by (rule live_run.event)
qed

lemma demo_reorg2:
  "\<exists>s'. handleSourceReorg demo_rio (plain_reorg 10) (Some 1) False demo_live3 = Inr (Done, s') \<and> lv_tip s' = Some 9"
proof -
  let ?e = "demo_reorg_entry\<lparr>en_votes := [0, 1], en_reports := en_reports demo_reorg_entry @ [(1, reorg_report_of (plain_reorg 10) 1)]\<rparr>"
  let ?c = "(lv_client demo_live)\<lparr>cl_quorum := 2\<rparr>"
  obtain c' where c': "handleReorg all_io all_rb (plain_reorg 10) (Some (map snd (en_reports ?e))) ?c = Inr c'"
      "cl_lastApplied c' = Some 9" "cl_halted c' = None"
    using handleReorg_accepts[of all_rb ?c 10 "plain_reorg 10" all_io] demo_guard
    by (auto simp: io_clean_def all_rb_def demo_simps plain_reorg_def RollbackGuard_def)
  have q: "effectiveQuorum demo_live = 2" by (simp add: demo_simps effectiveQuorum_def activeSourceCount_def)
  have s: "clearPendingReorg 10 (demo_live3\<lparr>lv_reorgs := [10 \<mapsto> ?e]\<rparr>) = demo_live"
    by (simp add: clearPendingReorg_def demo_live3_def demo_live_def)
  have "handleSourceReorg demo_rio (plain_reorg 10) (Some 1) False demo_live3 =
      applyAgreedReorg demo_rio ?e (clearPendingReorg 10 (demo_live3\<lparr>lv_reorgs := [10 \<mapsto> ?e]\<rparr>))"
    by (simp add: demo_live3_def demo_reorg_entry_def demo_simps handleSourceReorg_def demo_guard sourceReorgQuorumActive_def
        sourceQuorumActive_def activeSourceCount_def recordReorgVote_def recordReorgReport_def activeReorgVotes_def
        effectiveQuorum_def plain_reorg_def RollbackGuard_def Let_def)
  also have "\<dots> = Inr (Done, prunePendingReorgs (demo_live\<lparr>lv_client := c', lv_lastHashes := None\<rparr>))"
    using c' unfolding s
    by (simp add: applyAgreedReorg_def live_reorg_def demo_reorg_entry_def activeRetroactiveReports_def q
        Let_def plain_reorg_def reorg_report_of_def demo_rio_def, simp add: demo_simps)
  finally show ?thesis using c'(2) by (simp add: prunePendingReorgs_def lv_tip_def)
qed


text \<open>The key of a vote joins its four parts with a separator that no report is checked for.  Once a report of the honest base
  brings a state hash with a separator in it, the reports without a state hash share a key with another contract hash.\<close>

lemma separator_joins_tuples:
  "let honest = demo_event ''l'' Null; one = demo_event ''l'' (Text ''u|v'');
       two = (demo_event ''l'' (Text ''v''))\<lparr>be_contract := Text ''c|u''\<rparr>;
       t = tallyPendingBlockHashes demo_live [(0, honest), (1, one), (2, two)]
   in group_members t (voteKey (ta_states t) two) = [0, 1, 2] \<and> be_contract two \<noteq> be_contract honest"
  by code_simp

end
