(* ===== verification/Anchor_Cycle.thy ===== *)
theory Anchor_Cycle
  imports Checkpoint Source_Votes Merkle_Primitives
begin

text \<open>
  The checkpoint-quorum anchor of \<^verbatim>\<open>src/src/client/sync.js\<close>: one cycle over a served checkpoint, the walk that follows
  validator rotation from a pinned seed (\<^verbatim>\<open>src/src/client/supersede_follow.js\<close> picks its binding steps), and the durable
  marks of what was verified.  A served checkpoint is the record of \<open>Checkpoint\<close>: its numbers are integers and its chain and
  network are present.  The results of two reads are part of the state: the replica's own roots by height, and the rows of
  \<^verbatim>\<open>getStakeWeightsByCapabilityAsOf\<close> by snapshot height.
\<close>

section \<open>Binding steps\<close>

fun lowest_superseding :: "checkpoint \<Rightarrow> checkpoint list \<Rightarrow> int option \<Rightarrow> int option" where
  "lowest_superseding step [] lowest = lowest"
| "lowest_superseding step (c # cs) lowest =
     (case cp_supersedes_from c of
        None \<Rightarrow> lowest_superseding step cs lowest
      | Some lo \<Rightarrow>
          if cp_checkpoint_seq c \<le> cp_checkpoint_seq step \<or> lo > cp_block_index step
          then lowest_superseding step cs lowest
          else lowest_superseding step cs
                 (case lowest of
                    None \<Rightarrow> Some (cp_checkpoint_seq c)
                  | Some l \<Rightarrow> if cp_checkpoint_seq c < l then Some (cp_checkpoint_seq c) else Some l))"

definition supersedingSeqFor :: "checkpoint \<Rightarrow> checkpoint list \<Rightarrow> int option" where
  "supersedingSeqFor step chain = lowest_superseding step chain None"

definition isNonBindingStep :: "checkpoint \<Rightarrow> checkpoint list \<Rightarrow> bool" where
  "isNonBindingStep step chain = (supersedingSeqFor step chain \<noteq> None)"

definition bindingSteps :: "checkpoint list \<Rightarrow> checkpoint list" where
  "bindingSteps chain = filter (\<lambda>step. \<not> isNonBindingStep step chain) chain"

section \<open>State\<close>

record local_roots =
  lr_state_root :: string
  lr_block_merkle_root :: "string option"

text \<open>A row of the weight query; a missing public key or weight is \<^term>\<open>None\<close>.\<close>

record weight_row =
  wr_pubkey :: "string option"
  wr_weight :: "string option"
  wr_source :: string

record anchor =
  an_live :: live
  an_network :: string
  an_strictFresh :: bool
  an_freshBlocks :: int
  an_seq :: "int option"
  an_block :: "int option"
  an_pinned :: "vset option"
  an_seed :: "checkpoint option"
  an_roots :: "int \<rightharpoonup> local_roots"
  an_stakes :: "int \<Rightarrow> weight_row list \<times> bool"

definition an_tip :: "anchor \<Rightarrow> int" where
  "an_tip a = tip_num (an_live a)"

definition an_coin :: "anchor \<Rightarrow> string" where
  "an_coin a = cl_coin (lv_client (an_live a))"

text \<open>The faults of one cycle: the halt write and the two mark writes.\<close>

record anchor_io =
  ao_halt :: halt_io
  ao_seq :: bool
  ao_block :: bool

section \<open>Sequence numbers\<close>

definition MAX_SAFE_INTEGER :: int where
  "MAX_SAFE_INTEGER = 2 ^ 53 - 1"

text \<open>\<^verbatim>\<open>signedCheckpointSeq\<close> on text: a plain decimal that is a safe integer.\<close>

definition signedCheckpointSeq :: "string \<Rightarrow> int option" where
  "signedCheckpointSeq t =
     (if t \<noteq> [] \<and> list_all is_digit t \<and> (t = ''0'' \<or> hd t \<noteq> CHR ''0'') \<and> int (dec_val t) \<le> MAX_SAFE_INTEGER
      then Some (int (dec_val t)) else None)"

definition verifiedCheckpointSeqKey :: "client \<Rightarrow> string" where
  "verifiedCheckpointSeqKey c = ''verified_checkpoint_seq:'' @ cl_dbType c"

definition verifiedCheckpointBlockKey :: "client \<Rightarrow> string" where
  "verifiedCheckpointBlockKey c = ''verified_checkpoint_block:'' @ cl_dbType c"

definition anchor_client :: "anchor \<Rightarrow> client" where
  "anchor_client a = lv_client (an_live a)"

definition with_client :: "client \<Rightarrow> anchor \<Rightarrow> anchor" where
  "with_client c a = a\<lparr>an_live := (an_live a)\<lparr>lv_client := c\<rparr>\<rparr>"

text \<open>\<^verbatim>\<open>setSyncState\<close> as the marks use it: fail-soft, telling whether the row was written.\<close>

definition write_mark :: "bool \<Rightarrow> string \<Rightarrow> int \<Rightarrow> anchor \<Rightarrow> bool \<times> anchor" where
  "write_mark ok key n a =
     (case setSyncState ok key (SText (int_str n)) False (anchor_client a) of
        Inr (written, c) \<Rightarrow> (written, with_client c a)
      | Inl _ \<Rightarrow> (False, a))"

definition recordVerifiedCheckpointSeq :: "bool \<Rightarrow> int \<Rightarrow> anchor \<Rightarrow> anchor" where
  "recordVerifiedCheckpointSeq ok seq a =
     (case signedCheckpointSeq (int_str seq) of
        None \<Rightarrow> a
      | Some signedSeq \<Rightarrow>
          if (case an_seq a of None \<Rightarrow> False | Some seen \<Rightarrow> signedSeq < seen) then a
          else (let a1 = a\<lparr>an_seq := Some signedSeq\<rparr> in
                snd (write_mark ok (verifiedCheckpointSeqKey (anchor_client a)) signedSeq a1)))"

definition safe_height :: "int \<Rightarrow> bool" where
  "safe_height n \<longleftrightarrow> 0 \<le> n \<and> n \<le> MAX_SAFE_INTEGER"

definition recordVerifiedCheckpointBlock :: "bool \<Rightarrow> int \<Rightarrow> anchor \<Rightarrow> anchor" where
  "recordVerifiedCheckpointBlock ok blockIndex a =
     (if \<not> safe_height blockIndex then a
      else if (case an_block a of None \<Rightarrow> False | Some seen \<Rightarrow> blockIndex \<le> seen) then a
      else (let (persisted, a1) = write_mark ok (verifiedCheckpointBlockKey (anchor_client a)) blockIndex a in
            if persisted then a1\<lparr>an_block := Some blockIndex\<rparr> else a1))"

text \<open>The marks are read fail-soft at startup; the JSON text of an object is no number.\<close>

definition loadVerifiedCheckpointSeq :: "bool \<Rightarrow> anchor \<Rightarrow> anchor" where
  "loadVerifiedCheckpointSeq ok a =
     (if an_seq a \<noteq> None then a
      else (case getSyncState ok (verifiedCheckpointSeqKey (anchor_client a)) False (anchor_client a) of
              Inr (Some (SText t)) \<Rightarrow> (case signedCheckpointSeq t of None \<Rightarrow> a | Some seq \<Rightarrow> a\<lparr>an_seq := Some seq\<rparr>)
            | _ \<Rightarrow> a))"

definition loadVerifiedCheckpointBlock :: "bool \<Rightarrow> anchor \<Rightarrow> anchor" where
  "loadVerifiedCheckpointBlock ok a =
     (if an_block a \<noteq> None then a
      else (case getSyncState ok (verifiedCheckpointBlockKey (anchor_client a)) False (anchor_client a) of
              Inr (Some (SText t)) \<Rightarrow>
                (case number_text t of
                   Fin q \<Rightarrow> if q = of_int \<lfloor>q\<rfloor> \<and> safe_height \<lfloor>q\<rfloor> then a\<lparr>an_block := Some \<lfloor>q\<rfloor>\<rparr> else a
                 | _ \<Rightarrow> a)
            | _ \<Rightarrow> a))"

section \<open>Checks on one checkpoint\<close>

definition COIN_ALIASES :: "(string \<times> string) list" where
  "COIN_ALIASES = [(''btc'', ''BTC''), (''bitcoin'', ''BTC''), (''ltc'', ''LTC''), (''litecoin'', ''LTC''),
     (''doge'', ''DOGE''), (''dogecoin'', ''DOGE'')]"

definition coinTicker :: "string \<Rightarrow> string" where
  "coinTicker coin = (case map_of COIN_ALIASES (toLowerCase coin) of Some t \<Rightarrow> t | None \<Rightarrow> coin)"

definition upper_char :: "char \<Rightarrow> char" where
  "upper_char c = (let n = of_char c :: nat in if 97 \<le> n \<and> n \<le> 122 then char_of (n - 32) else c)"

definition toUpperCase :: "string \<Rightarrow> string" where
  "toUpperCase s = map upper_char s"

definition checkpointBindingMismatches :: "checkpoint \<Rightarrow> anchor \<Rightarrow> string list" where
  "checkpointBindingMismatches c a =
     (if toUpperCase (coinTicker (cp_chain c)) \<noteq> toUpperCase (an_coin a) then [''checkpoint_chain''] else []) @
     (if toLowerCase (cp_network c) \<noteq> toLowerCase (an_network a) then [''checkpoint_network''] else [])"

datatype roots_cmp = RootsMatch | RootsMismatch "string list" | RootsMissing

definition root_text :: "string option \<Rightarrow> string" where
  "root_text r = (case r of None \<Rightarrow> ''null'' | Some s \<Rightarrow> s)"

definition checkpointRootsMatchLocal :: "checkpoint \<Rightarrow> anchor \<Rightarrow> roots_cmp" where
  "checkpointRootsMatchLocal c a =
     (case an_roots a (cp_block_index c) of
        None \<Rightarrow> RootsMissing
      | Some local \<Rightarrow>
          (let m1 = (if toLowerCase (lr_state_root local) \<noteq> toLowerCase (root_text (cp_state_root c)) then [''state_root''] else []) in
           if m1 = [] \<and> cp_block_merkle_root c \<noteq> None \<and> lr_block_merkle_root local = None then RootsMissing
           else
             (let m2 = (case (cp_block_merkle_root c, lr_block_merkle_root local) of
                          (Some x, Some y) \<Rightarrow> if toLowerCase y \<noteq> toLowerCase x then [''block_merkle_root''] else []
                        | _ \<Rightarrow> [])
              in if m1 @ m2 = [] then RootsMatch else RootsMismatch (m1 @ m2))))"

definition checkpointSkipsAnchoring :: "checkpoint \<Rightarrow> anchor \<Rightarrow> bool" where
  "checkpointSkipsAnchoring cp a =
     (if commitmentMissing (Some cp) then True
      else if cp_state_root cp = None \<or> \<not> commitmentActive (Some cp) then True
      else if tryCanonicalCheckpoint (Some cp) = None then True
      else (case (an_seq a, signedCheckpointSeq (int_str (cp_checkpoint_seq cp))) of
              (Some seen, Some seq) \<Rightarrow> seq < seen
            | _ \<Rightarrow> False))"

definition checkpointFreshnessMismatches :: "checkpoint \<Rightarrow> anchor \<Rightarrow> bool" where
  "checkpointFreshnessMismatches cp a =
     (an_tip a - cp_block_index cp > an_freshBlocks a \<and> an_strictFresh a \<and> an_block a \<noteq> None)"

text \<open>\<^verbatim>\<open>verifyServedCheckpoint\<close> of the client: the verifier itself catches a malformed canonical, so it never throws here.\<close>

definition served_valid :: "ed25519 \<Rightarrow> 'n bignum \<Rightarrow> checkpoint \<Rightarrow> vset \<Rightarrow> bool" where
  "served_valid ed B cp vs = vd_valid (verifyCheckpoint ed B (Some cp) vs)"

text \<open>The signer set of a snapshot from the replica's own staking rows: rows without a key or with a zero weight drop out, a
  malformed weight throws.\<close>

fun publish_entries :: "weight_row list \<Rightarrow> vset_entry list res" where
  "publish_entries [] = Inr []"
| "publish_entries (r # rs) =
     (case wr_pubkey r of
        None \<Rightarrow> publish_entries rs
      | Some pk \<Rightarrow>
          rbind (canonicalAmount (case wr_weight r of None \<Rightarrow> ''0'' | Some w \<Rightarrow> w)) (\<lambda>w.
            if Inr w = canonicalAmount ''0'' then publish_entries rs
            else rbind (publish_entries rs) (\<lambda>es.
              Inr (Entry \<lparr>v_pubkey = pk, v_source = Some (wr_source r), v_weight = Some (root_text (wr_weight r))\<rparr> # es))))"

definition oraclePublishSetAt :: "int \<Rightarrow> anchor \<Rightarrow> vset res" where
  "oraclePublishSetAt snapshotBlock a =
     (case an_stakes a snapshotBlock of (rows, truncated) \<Rightarrow>
        rbind (publish_entries rows) (\<lambda>es. Inr \<lparr>vs_entries = es, vs_truncated = truncated\<rparr>))"

definition lookup_block :: "checkpoint \<Rightarrow> anchor \<Rightarrow> int" where
  "lookup_block c a =
     (case js_Number (buriedSnapshotBlock SNAPSHOT_BURIAL_ACTIVATION (JInt (cp_snapshot_block c)) (an_network a)) of
        Fin q \<Rightarrow> \<lfloor>q\<rfloor> | _ \<Rightarrow> cp_snapshot_block c)"

section \<open>Following rotation\<close>

datatype follow = FollowOk checkpoint | FollowWait string | FollowDivergence "string list" "string option"

text \<open>One step against the trust root: \<^term>\<open>None\<close> when it is attested, else the verdict to stop on.\<close>

definition attestRotationStep :: "ed25519 \<Rightarrow> 'n bignum \<Rightarrow> checkpoint \<Rightarrow> checkpoint \<Rightarrow> anchor \<Rightarrow> follow option res" where
  "attestRotationStep ed B next trusted a =
     (if checkpointBindingMismatches next a \<noteq> []
      then Inr (Some (FollowDivergence (checkpointBindingMismatches next a) (Some ''checkpoint-binding-mismatch'')))
      else if cp_block_index next > an_tip a then Inr (Some (FollowWait ''past the replica tip''))
      else if cp_state_root next = None \<or> \<not> commitmentActive (Some next) then Inr (Some (FollowWait ''pre-commitment''))
      else if tryCanonicalCheckpoint (Some next) = None then Inr (Some (FollowWait ''malformed signed form''))
      else if cp_snapshot_block next > cp_block_index trusted then Inr (Some (FollowWait ''signer set not yet attested''))
      else rbind (oraclePublishSetAt (lookup_block next a) a) (\<lambda>vset.
        if vs_truncated vset then Inr (Some (FollowWait ''signer set truncated''))
        else if \<not> served_valid ed B next vset then Inr (Some (FollowDivergence [''checkpoint_quorum''] None))
        else (case checkpointRootsMatchLocal next a of
                RootsMissing \<Rightarrow> Inr (Some (FollowWait ''step height not recomputed''))
              | RootsMismatch ms \<Rightarrow> Inr (Some (FollowDivergence ms None))
              | RootsMatch \<Rightarrow> Inr None)))"

text \<open>The inner loop over one fetched range: the new trust root and whether it advanced, or a verdict.\<close>

fun follow_steps ::
    "ed25519 \<Rightarrow> 'n bignum \<Rightarrow> anchor \<Rightarrow> int \<Rightarrow> checkpoint list \<Rightarrow> checkpoint \<Rightarrow> bool \<Rightarrow> (follow + checkpoint \<times> bool) res" where
  "follow_steps ed B a target [] trusted advanced = Inr (Inr (trusted, advanced))"
| "follow_steps ed B a target (next # steps) trusted advanced =
     (if cp_block_index next \<le> cp_block_index trusted then follow_steps ed B a target steps trusted advanced
      else rbind (attestRotationStep ed B next trusted a) (\<lambda>stop.
        case stop of
          Some v \<Rightarrow> Inr (Inl v)
        | None \<Rightarrow> if cp_block_index next \<ge> target then Inr (Inr (next, True))
                  else follow_steps ed B a target steps next True))"

text \<open>What the anchor source answers to a range request, by the number of the request; \<^term>\<open>None\<close> is a failed fetch or a body
  that is no array.\<close>

type_synonym range_source = "nat \<Rightarrow> int \<Rightarrow> int \<Rightarrow> checkpoint list option"

text \<open>The outer loop.  Its first argument counts down the runaway guard of the code.\<close>

fun follow_loop ::
    "nat \<Rightarrow> ed25519 \<Rightarrow> 'n bignum \<Rightarrow> anchor \<Rightarrow> range_source \<Rightarrow> int \<Rightarrow> int \<Rightarrow> checkpoint \<Rightarrow> (follow + checkpoint) res" where
  "follow_loop 0 ed B a rg target lo trusted =
     (if cp_block_index trusted < target then Inr (Inl (FollowWait ''runaway guard tripped'')) else Inr (Inr trusted))"
| "follow_loop (Suc n) ed B a rg target lo trusted =
     (if \<not> cp_block_index trusted < target then Inr (Inr trusted)
      else (case rg n lo target of
              None \<Rightarrow> Inr (Inl (FollowWait ''range fetch failed''))
            | Some chain \<Rightarrow>
                if chain = [] then Inr (Inl (FollowWait ''empty checkpoint range''))
                else rbind (follow_steps ed B a target (bindingSteps chain) trusted False) (\<lambda>r.
                  case r of
                    Inl v \<Rightarrow> Inr (Inl v)
                  | Inr (trusted', advanced) \<Rightarrow>
                      if \<not> advanced then Inr (Inl (FollowWait ''nothing usable past the trusted block''))
                      else follow_loop n ed B a rg target (cp_block_index trusted' + 1) trusted')))"

definition FOLLOW_GUARD :: nat where
  "FOLLOW_GUARD = 10000"

definition canFollowRotation :: "anchor \<Rightarrow> bool" where
  "canFollowRotation a = (an_coin a = ''BTC'')"

definition followCheckpointForward ::
    "ed25519 \<Rightarrow> 'n bignum \<Rightarrow> range_source \<Rightarrow> checkpoint \<Rightarrow> checkpoint \<Rightarrow> anchor \<Rightarrow> follow res" where
  "followCheckpointForward ed B rg cp seed a =
     (if \<not> canFollowRotation a then Inr (FollowWait ''rotation following is BTC-only'')
      else if cp_state_root seed = None then Inr (FollowWait ''pinned seed checkpoint is malformed'')
      else if cp_block_index cp \<le> cp_block_index seed then Inr (FollowWait ''not past the pinned seed'')
      else (case checkpointRootsMatchLocal seed a of
        RootsMissing \<Rightarrow> Inr (FollowWait ''seed height not recomputed'')
      | RootsMismatch ms \<Rightarrow> Inr (FollowDivergence ms None)
      | RootsMatch \<Rightarrow>
          rbind (follow_loop FOLLOW_GUARD ed B a rg (cp_block_index cp) (cp_block_index seed + 1) seed) (\<lambda>r.
            case r of
              Inl v \<Rightarrow> Inr v
            | Inr trusted \<Rightarrow>
                if cp_block_index trusted \<noteq> cp_block_index cp then Inr (FollowWait ''walk ended short of the checkpoint'')
                else if toLowerCase (root_text (cp_state_root trusted)) \<noteq> toLowerCase (root_text (cp_state_root cp)) \<or>
                        tryCanonicalCheckpoint (Some trusted) = None \<or> tryCanonicalCheckpoint (Some cp) = None \<or>
                        tryCanonicalCheckpoint (Some trusted) \<noteq> tryCanonicalCheckpoint (Some cp)
                then Inr (FollowWait ''differs on a signed field'')
                else Inr (FollowOk trusted))))"

section \<open>One cycle\<close>

datatype anchor_outcome = Verified | HaltedAnchor | Ahead | Unanchored

definition haltCheckpoint :: "anchor_io \<Rightarrow> checkpoint \<Rightarrow> string list \<Rightarrow> string \<Rightarrow> anchor \<Rightarrow> anchor_outcome \<times> anchor" where
  "haltCheckpoint io cp mismatches reason a =
     (HaltedAnchor, a\<lparr>an_live := live_halt (ao_halt io) (cp_block_index cp) mismatches (take 1 (lv_sources (an_live a))) reason (an_live a)\<rparr>)"

definition record_verified :: "anchor_io \<Rightarrow> checkpoint \<Rightarrow> anchor \<Rightarrow> anchor" where
  "record_verified io c a =
     recordVerifiedCheckpointBlock (ao_block io) (cp_block_index c) (recordVerifiedCheckpointSeq (ao_seq io) (cp_checkpoint_seq c) a)"

text \<open>\<^verbatim>\<open>anchorByRotation\<close> with \<^verbatim>\<open>processRotationFollow\<close>: the marks take the attested step, never the served body.\<close>

definition anchorByRotation ::
    "anchor_io \<Rightarrow> ed25519 \<Rightarrow> 'n bignum \<Rightarrow> range_source \<Rightarrow> checkpoint \<Rightarrow> anchor \<Rightarrow> (anchor_outcome \<times> anchor) res" where
  "anchorByRotation io ed B rg cp a =
     (case (if canFollowRotation a then an_seed a else None) of
        None \<Rightarrow> Inr (haltCheckpoint io cp [''checkpoint_quorum''] ''checkpoint-quorum-divergence'' a)
      | Some seed \<Rightarrow>
          rbind (followCheckpointForward ed B rg cp seed a) (\<lambda>r.
            case r of
              FollowOk attested \<Rightarrow> Inr (Verified, record_verified io attested a)
            | FollowDivergence ms reason \<Rightarrow>
                Inr (haltCheckpoint io cp ms (case reason of None \<Rightarrow> ''checkpoint-quorum-divergence'' | Some s \<Rightarrow> s) a)
            | FollowWait _ \<Rightarrow> Inr (Unanchored, a)))"

definition judgeCheckpointPastTip :: "ed25519 \<Rightarrow> 'n bignum \<Rightarrow> checkpoint \<Rightarrow> vset \<Rightarrow> anchor_outcome" where
  "judgeCheckpointPastTip ed B cp validators = (if served_valid ed B cp validators then Ahead else Unanchored)"

text \<open>\<open>served\<close> is the body of the latest checkpoint, \<^term>\<open>None\<close> on a transport fault or a 404.\<close>

definition anchorLatestCheckpoint ::
    "anchor_io \<Rightarrow> ed25519 \<Rightarrow> 'n bignum \<Rightarrow> range_source \<Rightarrow> checkpoint option \<Rightarrow> vset \<Rightarrow> anchor \<Rightarrow> (anchor_outcome \<times> anchor) res" where
  "anchorLatestCheckpoint io ed B rg served validators a =
     (case served of
        None \<Rightarrow> Inr (Unanchored, a)
      | Some cp \<Rightarrow>
          if checkpointBindingMismatches cp a \<noteq> []
          then Inr (haltCheckpoint io cp (checkpointBindingMismatches cp a) ''checkpoint-binding-mismatch'' a)
          else if checkpointSkipsAnchoring cp a then Inr (Unanchored, a)
          else if checkpointFreshnessMismatches cp a
          then Inr (haltCheckpoint io cp [''checkpoint_freshness''] ''checkpoint-freshness-stale'' a)
          else if cp_block_index cp > an_tip a then Inr (judgeCheckpointPastTip ed B cp validators, a)
          else if \<not> served_valid ed B cp validators then anchorByRotation io ed B rg cp a
          else (case checkpointRootsMatchLocal cp a of
                  RootsMissing \<Rightarrow> Inr (Unanchored, a)
                | RootsMismatch ms \<Rightarrow> Inr (haltCheckpoint io cp ms ''checkpoint-quorum-divergence'' a)
                | RootsMatch \<Rightarrow> Inr (Verified, record_verified io cp a)))"

definition enforceVerifiedAnchorFreshness :: "anchor_io \<Rightarrow> anchor \<Rightarrow> anchor" where
  "enforceVerifiedAnchorFreshness io a =
     (case an_block a of
        None \<Rightarrow> a
      | Some seen \<Rightarrow>
          if \<not> an_strictFresh a \<or> \<not> (an_tip a - seen > an_freshBlocks a) then a
          else a\<lparr>an_live := live_halt (ao_halt io) seen [''checkpoint_freshness''] (take 1 (lv_sources (an_live a)))
                   ''checkpoint-freshness-stale'' (an_live a)\<rparr>)"

text \<open>\<open>source\<close> tells whether an anchor URL or an active source is there to ask.\<close>

definition verifyCheckpointQuorum ::
    "anchor_io \<Rightarrow> ed25519 \<Rightarrow> 'n bignum \<Rightarrow> range_source \<Rightarrow> bool \<Rightarrow> checkpoint option \<Rightarrow> anchor \<Rightarrow> anchor res" where
  "verifyCheckpointQuorum io ed B rg source served a =
     (if cl_halted (anchor_client a) \<noteq> None then Inr a
      else (case an_pinned a of
              None \<Rightarrow> Inr a
            | Some validators \<Rightarrow>
                if vs_entries validators = [] \<or> \<not> source then Inr a
                else rbind (anchorLatestCheckpoint io ed B rg served validators a) (\<lambda>(outcome, a').
                  Inr (if outcome = Unanchored then enforceVerifiedAnchorFreshness io a' else a'))))"

end
