(* ===== verification/Anchor_Proofs.thy ===== *)
theory Anchor_Proofs
  imports Anchor_Cycle Rollback_Bound
begin

text \<open>
  What an anchor cycle guarantees: a verified outcome rests on the pinned signer set or on an unbroken chain of attested
  checkpoints from the pinned seed, and in any run of cycles, restarts and changes elsewhere in the replica a durable mark of
  what was verified never falls while every startup reads it; one failed read gives it up.
\<close>

section \<open>The chain of trust\<close>

inductive attested :: "ed25519 \<Rightarrow> 'n bignum \<Rightarrow> anchor \<Rightarrow> checkpoint \<Rightarrow> checkpoint \<Rightarrow> bool" for ed B a seed where
  seed: "checkpointRootsMatchLocal seed a = RootsMatch \<Longrightarrow> attested ed B a seed seed"
| step: "attested ed B a seed trusted \<Longrightarrow> cp_block_index trusted < cp_block_index nxt \<Longrightarrow> cp_block_index nxt \<le> an_tip a \<Longrightarrow>
     checkpointBindingMismatches nxt a = [] \<Longrightarrow> commitmentActive (Some nxt) \<Longrightarrow>
     cp_snapshot_block nxt \<le> cp_block_index trusted \<Longrightarrow>
     oraclePublishSetAt (lookup_block nxt a) a = Inr vset \<Longrightarrow> \<not> vs_truncated vset \<Longrightarrow> served_valid ed B nxt vset \<Longrightarrow>
     checkpointRootsMatchLocal nxt a = RootsMatch \<Longrightarrow> attested ed B a seed nxt"

lemma attested_roots: "attested ed B a seed c \<Longrightarrow> checkpointRootsMatchLocal c a = RootsMatch"
  by (induction rule: attested.induct) auto

lemma attested_past_seed: "attested ed B a seed c \<Longrightarrow> cp_block_index seed \<le> cp_block_index c"
  by (induction rule: attested.induct) auto

lemma attestRotationStep_None:
  assumes "attestRotationStep ed B nxt trusted a = Inr None"
  obtains vset where "cp_block_index nxt \<le> an_tip a" "checkpointBindingMismatches nxt a = []" "commitmentActive (Some nxt)"
    "cp_snapshot_block nxt \<le> cp_block_index trusted" "oraclePublishSetAt (lookup_block nxt a) a = Inr vset"
    "\<not> vs_truncated vset" "served_valid ed B nxt vset" "checkpointRootsMatchLocal nxt a = RootsMatch"
  using assms unfolding attestRotationStep_def
  by (auto simp: rbind_Inr_iff split: if_splits roots_cmp.splits)

lemma follow_steps_attested:
  assumes "follow_steps ed B a target steps trusted advanced = Inr (Inr (c, adv))" "attested ed B a seed trusted"
  shows "attested ed B a seed c"
  using assms
proof (induction steps arbitrary: trusted advanced)
  case (Cons nxt steps)
  show ?case
  proof (cases "cp_block_index nxt \<le> cp_block_index trusted")
    case False
    with Cons.prems(1) have n: "attestRotationStep ed B nxt trusted a = Inr None"
      by (auto simp: rbind_Inr_iff split: option.splits)
    then have "attested ed B a seed nxt"
      using Cons.prems(2) False by (elim attestRotationStep_None) (blast intro: attested.step leI)
    then show ?thesis using Cons False n by (auto split: if_splits)
  qed (use Cons in auto)
qed simp

lemma follow_loop_attested:
  assumes "follow_loop n ed B a rg target lo trusted = Inr (Inr c)" "attested ed B a seed trusted"
  shows "attested ed B a seed c"
  using assms
proof (induction n arbitrary: lo trusted)
  case (Suc n)
  show ?case
  proof (cases "cp_block_index trusted < target")
    case True
    then obtain chain t where s: "follow_steps ed B a target (bindingSteps chain) trusted False = Inr (Inr (t, True))"
      and l: "follow_loop n ed B a rg target (cp_block_index t + 1) t = Inr (Inr c)"
      using Suc.prems(1) by (auto simp: rbind_Inr_iff split: option.splits if_splits sum.splits) (metis old.sum.exhaust surj_pair)
    show ?thesis using Suc.IH[OF l follow_steps_attested[OF s Suc.prems(2)]] .
  qed (use Suc.prems in auto)
qed (auto split: if_splits)

lemma attestRotationStep_stops: "attestRotationStep ed B nxt trusted a \<noteq> Inr (Some (FollowOk c))"
  unfolding attestRotationStep_def by (auto simp: rbind_Inr_iff split: roots_cmp.splits)

lemma follow_steps_stops: "follow_steps ed B a target steps trusted advanced \<noteq> Inr (Inl (FollowOk c))"
proof (induction steps arbitrary: trusted advanced)
  case (Cons nxt steps)
  then show ?case using attestRotationStep_stops[of ed B nxt trusted a c] by (auto simp: rbind_Inr_iff split: option.splits)
qed simp

lemma follow_loop_stops: "follow_loop n ed B a rg target lo trusted \<noteq> Inr (Inl (FollowOk c))"
proof (induction n arbitrary: lo trusted)
  case (Suc n)
  have "r \<noteq> Inl (FollowOk c)" if "follow_steps ed B a target (bindingSteps chain) trusted False = Inr r" for chain r
    using that follow_steps_stops by blast
  then show ?case using Suc by (auto simp: rbind_Inr_iff split: option.splits sum.splits)
qed simp

lemma followCheckpointForward_ok:
  assumes "followCheckpointForward ed B rg cp seed a = Inr (FollowOk c)"
  shows "attested ed B a seed c \<and> cp_block_index c = cp_block_index cp \<and> tryCanonicalCheckpoint (Some c) \<noteq> None \<and>
    tryCanonicalCheckpoint (Some c) = tryCanonicalCheckpoint (Some cp) \<and>
    toLowerCase (root_text (cp_state_root c)) = toLowerCase (root_text (cp_state_root cp))"
proof -
  from assms have m: "checkpointRootsMatchLocal seed a = RootsMatch"
    and r: "rbind (follow_loop FOLLOW_GUARD ed B a rg (cp_block_index cp) (cp_block_index seed + 1) seed) (\<lambda>r.
            case r of
              Inl v \<Rightarrow> Inr v
            | Inr trusted \<Rightarrow>
                if cp_block_index trusted \<noteq> cp_block_index cp then Inr (FollowWait ''walk ended short of the checkpoint'')
                else if toLowerCase (root_text (cp_state_root trusted)) \<noteq> toLowerCase (root_text (cp_state_root cp)) \<or>
                        tryCanonicalCheckpoint (Some trusted) = None \<or> tryCanonicalCheckpoint (Some cp) = None \<or>
                        tryCanonicalCheckpoint (Some trusted) \<noteq> tryCanonicalCheckpoint (Some cp)
                then Inr (FollowWait ''differs on a signed field'')
                else Inr (FollowOk trusted)) = Inr (FollowOk c)"
    unfolding followCheckpointForward_def by (auto split: if_splits roots_cmp.splits)
  from r obtain x where x: "follow_loop FOLLOW_GUARD ed B a rg (cp_block_index cp) (cp_block_index seed + 1) seed = Inr x"
    by (auto simp: rbind_Inr_iff)
  show ?thesis
  proof (cases x)
    case (Inl v)
    then show ?thesis using r x follow_loop_stops[where n = FOLLOW_GUARD and ed = ed and B = B and a = a and rg = rg] by simp
  next
    case (Inr t)
    then have "c = t \<and> cp_block_index t = cp_block_index cp \<and> tryCanonicalCheckpoint (Some t) \<noteq> None \<and>
      tryCanonicalCheckpoint (Some t) = tryCanonicalCheckpoint (Some cp) \<and>
      toLowerCase (root_text (cp_state_root t)) = toLowerCase (root_text (cp_state_root cp))"
      using r x by (auto split: if_splits)
    then show ?thesis using follow_loop_attested[OF x[unfolded Inr] attested.seed[OF m]] by blast
  qed
qed

lemma roots_match_row:
  assumes "checkpointRootsMatchLocal c a = RootsMatch"
  obtains local where "an_roots a (cp_block_index c) = Some local"
    "toLowerCase (lr_state_root local) = toLowerCase (root_text (cp_state_root c))"
    "\<forall>x. cp_block_merkle_root c = Some x \<longrightarrow> (\<exists>y. lr_block_merkle_root local = Some y \<and> toLowerCase y = toLowerCase x)"
  using assms unfolding checkpointRootsMatchLocal_def
  by (auto simp: Let_def split: option.splits if_splits)

lemma anchorByRotation_verified:
  assumes "anchorByRotation io ed B rg cp a = Inr (Verified, a')"
  obtains seed c where "an_seed a = Some seed" "followCheckpointForward ed B rg cp seed a = Inr (FollowOk c)"
    "a' = record_verified io c a"
  using assms unfolding anchorByRotation_def haltCheckpoint_def
  by (auto simp: rbind_Inr_iff split: option.splits follow.splits if_splits) (metis follow.exhaust)

lemma anchor_verified_cases:
  assumes "anchorLatestCheckpoint io ed B rg served validators a = Inr (Verified, a')"
  obtains (pinned) cp where "served = Some cp" "checkpointBindingMismatches cp a = []" "\<not> checkpointSkipsAnchoring cp a"
      "cp_block_index cp \<le> an_tip a" "served_valid ed B cp validators" "checkpointRootsMatchLocal cp a = RootsMatch"
      "a' = record_verified io cp a"
  | (followed) cp seed c where "served = Some cp" "checkpointBindingMismatches cp a = []" "\<not> checkpointSkipsAnchoring cp a"
      "cp_block_index cp \<le> an_tip a" "an_seed a = Some seed" "followCheckpointForward ed B rg cp seed a = Inr (FollowOk c)"
      "a' = record_verified io c a"
proof -
  obtain cp where cp: "served = Some cp" using assms by (cases served) (auto simp: anchorLatestCheckpoint_def)
  note e = assms[unfolded anchorLatestCheckpoint_def cp option.case]
  have g: "checkpointBindingMismatches cp a = []" "\<not> checkpointSkipsAnchoring cp a" "cp_block_index cp \<le> an_tip a"
    using e by (auto simp: haltCheckpoint_def judgeCheckpointPastTip_def split: if_splits)
  have e2: "(if \<not> served_valid ed B cp validators then anchorByRotation io ed B rg cp a
          else (case checkpointRootsMatchLocal cp a of
                  RootsMissing \<Rightarrow> Inr (Unanchored, a)
                | RootsMismatch ms \<Rightarrow> Inr (haltCheckpoint io cp ms ''checkpoint-quorum-divergence'' a)
                | RootsMatch \<Rightarrow> Inr (Verified, record_verified io cp a))) = Inr (Verified, a')"
    using e g by (auto simp: haltCheckpoint_def split: if_splits)
  show ?thesis
  proof (cases "served_valid ed B cp validators")
    case True
    then have "checkpointRootsMatchLocal cp a = RootsMatch" "a' = record_verified io cp a"
      using e2 by (auto simp: haltCheckpoint_def split: roots_cmp.splits)
    then show ?thesis by (rule pinned[OF cp g True])
  next
    case False
    then have "anchorByRotation io ed B rg cp a = Inr (Verified, a')" using e2 by simp
    then show ?thesis by (rule anchorByRotation_verified) (rule followed[OF cp g])
  qed
qed

text \<open>(C13) A cycle that ends verified is backed: the served checkpoint names this chain and network, lies at or below the tip,
  and its signed string is that of a checkpoint at the same height which either the pinned set signed by quorum or is reached
  from the pinned seed through steps whose signer set was fixed at or below the previously trusted height, each with roots
  equal to the replica's own; its state root is the one the replica recomputed at that height.\<close>
theorem anchor_verified_sound:
  assumes "anchorLatestCheckpoint io ed B rg served validators a = Inr (Verified, a')"
  shows "\<exists>cp c local. served = Some cp \<and> checkpointBindingMismatches cp a = [] \<and> cp_block_index cp \<le> an_tip a \<and>
    commitmentActive (Some cp) \<and> tryCanonicalCheckpoint (Some cp) \<noteq> None \<and>
    tryCanonicalCheckpoint (Some c) = tryCanonicalCheckpoint (Some cp) \<and> cp_block_index c = cp_block_index cp \<and>
    (c = cp \<and> served_valid ed B cp validators \<or>
     (\<exists>seed. an_seed a = Some seed \<and> cp_block_index seed \<le> cp_block_index c \<and> attested ed B a seed c)) \<and>
    an_roots a (cp_block_index cp) = Some local \<and>
    toLowerCase (lr_state_root local) = toLowerCase (root_text (cp_state_root cp)) \<and>
    (\<forall>x. cp_block_merkle_root c = Some x \<longrightarrow> (\<exists>y. lr_block_merkle_root local = Some y \<and> toLowerCase y = toLowerCase x)) \<and>
    a' = record_verified io c a"
  using assms
proof (cases rule: anchor_verified_cases)
  case (pinned cp)
  have s: "commitmentActive (Some cp)" "tryCanonicalCheckpoint (Some cp) \<noteq> None"
    using pinned(3) by (auto simp: checkpointSkipsAnchoring_def split: if_splits)
  from pinned(6) show ?thesis
    by (rule roots_match_row) (use pinned s in blast)
next
  case (followed cp seed c)
  have s: "commitmentActive (Some cp)" "tryCanonicalCheckpoint (Some cp) \<noteq> None"
    using followed(3) by (auto simp: checkpointSkipsAnchoring_def split: if_splits)
  note f = followCheckpointForward_ok[OF followed(6)]
  then have "attested ed B a seed c" by blast
  from attested_roots[OF this] show ?thesis
  proof (rule roots_match_row)
    fix local assume l: "an_roots a (cp_block_index c) = Some local"
      "toLowerCase (lr_state_root local) = toLowerCase (root_text (cp_state_root c))"
      "\<forall>x. cp_block_merkle_root c = Some x \<longrightarrow> (\<exists>y. lr_block_merkle_root local = Some y \<and> toLowerCase y = toLowerCase x)"
    show ?thesis
      using followed s f l attested_past_seed[of ed B a seed c] by (intro exI[of _ cp] exI[of _ c] exI[of _ local]) auto
  qed
qed

section \<open>Marks\<close>

lemma nat_str_no_zero: "nat_str n = ''0'' \<or> hd (nat_str n) \<noteq> CHR ''0''"
proof -
  have fix_point: "strip_zeros (nat_str n) = nat_str n"
    using strip_zeros_nat_str[of "nat_str n"] nat_str_digits[of n] by simp
  show ?thesis
  proof (cases "nat_str n" rule: strip_zeros.cases)
    case (1 c d s)
    have "is_digit d" using nat_str_digits[of n] 1 by simp
    moreover have "length (strip_zeros (d # s)) \<le> length (d # s)" for d s
      by (induction "d # s" arbitrary: d s rule: strip_zeros.induct) (auto simp: le_SucI)
    ultimately have "c \<noteq> CHR ''0''" using fix_point 1 by (auto dest: arg_cong[of _ _ length]) (metis Suc_n_not_le_n length_Cons)
    then show ?thesis using 1 by simp
  qed auto
qed

lemma signedCheckpointSeq_int_str [simp]: "signedCheckpointSeq (int_str n) = (if safe_height n then Some n else None)"
  using nat_str_digits[of "nat n"] nat_str_no_zero[of "nat n"]
  by (auto simp: signedCheckpointSeq_def int_str_def safe_height_def list_all_iff is_digit_def)

definition seq_mark :: "sval option \<Rightarrow> int option" where
  "seq_mark v = (case v of Some (SText t) \<Rightarrow> signedCheckpointSeq t | _ \<Rightarrow> None)"

definition block_mark :: "sval option \<Rightarrow> int option" where
  "block_mark v =
     (case v of
        Some (SText t) \<Rightarrow> (case number_text t of Fin q \<Rightarrow> if q = of_int \<lfloor>q\<rfloor> \<and> safe_height \<lfloor>q\<rfloor> then Some \<lfloor>q\<rfloor> else None | _ \<Rightarrow> None)
      | _ \<Rightarrow> None)"

definition durable_seq :: "anchor \<Rightarrow> int option" where
  "durable_seq a = seq_mark (cl_sync_state (anchor_client a) (verifiedCheckpointSeqKey (anchor_client a)))"

definition durable_block :: "anchor \<Rightarrow> int option" where
  "durable_block a = block_mark (cl_sync_state (anchor_client a) (verifiedCheckpointBlockKey (anchor_client a)))"

definition marks :: "anchor \<Rightarrow> int option \<times> int option \<times> int option \<times> int option" where
  "marks a = (an_seq a, an_block a, durable_seq a, durable_block a)"

text \<open>A restart forgets what is in memory and reads the marks back.\<close>

definition anchor_boot :: "bool \<Rightarrow> bool \<Rightarrow> anchor \<Rightarrow> anchor" where
  "anchor_boot seqOk blockOk a =
     loadVerifiedCheckpointBlock blockOk (loadVerifiedCheckpointSeq seqOk (a\<lparr>an_seq := None, an_block := None\<rparr>))"

definition opt_le :: "int option \<Rightarrow> int option \<Rightarrow> bool" where
  "opt_le x y = (case x of None \<Rightarrow> True | Some n \<Rightarrow> (case y of None \<Rightarrow> False | Some m \<Rightarrow> n \<le> m))"

lemma opt_le_refl [simp]: "opt_le x x"
  by (simp add: opt_le_def split: option.split)

lemma opt_le_trans: "opt_le x y \<Longrightarrow> opt_le y z \<Longrightarrow> opt_le x z"
  by (auto simp: opt_le_def split: option.splits)

text \<open>What is on disk never exceeds what is in memory, for the marks that the startups read: \<open>sq\<close> tells it of the
  sequence, \<open>bq\<close> of the block.\<close>

definition mark_inv :: "bool \<Rightarrow> bool \<Rightarrow> anchor \<Rightarrow> bool" where
  "mark_inv sq bq a = ((sq \<longrightarrow> opt_le (durable_seq a) (an_seq a)) \<and> (bq \<longrightarrow> opt_le (durable_block a) (an_block a)))"

definition marks_rise :: "bool \<Rightarrow> bool \<Rightarrow> anchor \<Rightarrow> anchor \<Rightarrow> bool" where
  "marks_rise sq bq a a' = (mark_inv sq bq a' \<and> (sq \<longrightarrow> opt_le (durable_seq a) (durable_seq a')) \<and>
     (bq \<longrightarrow> opt_le (durable_block a) (durable_block a')))"

lemma marks_rise_trans: "marks_rise sq bq a b \<Longrightarrow> marks_rise sq bq b c \<Longrightarrow> marks_rise sq bq a c"
  unfolding marks_rise_def by (blast intro: opt_le_trans)

lemma marks_rise_weaken: "marks_rise sq bq a b \<Longrightarrow> marks_rise (sq \<and> ok) (bq \<and> ok') a b"
  by (auto simp: marks_rise_def mark_inv_def)

lemma marks_eq_rise: "marks a' = marks a \<Longrightarrow> mark_inv sq bq a \<Longrightarrow> marks_rise sq bq a a'"
  by (simp add: marks_def marks_rise_def mark_inv_def)

lemma mark_keys_distinct:
  "verifiedCheckpointSeqKey c \<noteq> verifiedCheckpointBlockKey c" "verifiedCheckpointBlockKey c \<noteq> verifiedCheckpointSeqKey c"
  "verifiedCheckpointSeqKey c \<noteq> pendingHaltKey d" "verifiedCheckpointBlockKey c \<noteq> pendingHaltKey d"
  by (simp_all add: verifiedCheckpointSeqKey_def verifiedCheckpointBlockKey_def pendingHaltKey_def)

lemma mark_values [simp]:
  "seq_mark (Some (SText (int_str n))) = (if safe_height n then Some n else None)"
  "block_mark (Some (SText (int_str n))) = (if safe_height n then Some n else None)"
  by (simp_all add: seq_mark_def block_mark_def number_text_int_str)

lemma marks_boot [simp]:
  "marks (anchor_boot sq bq a) =
     (if sq then durable_seq a else None, if bq then durable_block a else None, durable_seq a, durable_block a)"
proof -
  have s: "loadVerifiedCheckpointSeq sq x = x\<lparr>an_seq := if sq then durable_seq x else None\<rparr>" if "an_seq x = None" for x
    using that
    by (auto simp: loadVerifiedCheckpointSeq_def durable_seq_def seq_mark_def getSyncState_def anchor_client_def
        split: option.split sval.split)
  have b: "loadVerifiedCheckpointBlock bq x = x\<lparr>an_block := if bq then durable_block x else None\<rparr>" if "an_block x = None" for x
    using that
    by (auto simp: loadVerifiedCheckpointBlock_def durable_block_def block_mark_def getSyncState_def anchor_client_def
        split: option.split sval.split jsnum.split)
  have "anchor_boot sq bq a = a\<lparr>an_seq := if sq then durable_seq a else None, an_block := if bq then durable_block a else None\<rparr>"
    by (simp add: anchor_boot_def s b durable_seq_def durable_block_def anchor_client_def)
  then show ?thesis by (simp add: marks_def durable_seq_def durable_block_def anchor_client_def)
qed

lemma halt_keeps_marks:
  "cl_dbType (persistHalt io h c) = cl_dbType c"
  "cl_sync_state (persistHalt io h c) (verifiedCheckpointSeqKey d) = cl_sync_state c (verifiedCheckpointSeqKey d)"
  "cl_sync_state (persistHalt io h c) (verifiedCheckpointBlockKey d) = cl_sync_state c (verifiedCheckpointBlockKey d)"
  by (auto simp: persistHalt_def recordHalt_def clearPendingHaltCopy_def dropPendingHaltCopy_def writePendingHaltCopy_def
      deleteSyncState_def setSyncState_def Let_def mark_keys_distinct split: option.splits)

lemma marks_live_halt: "marks (a\<lparr>an_live := live_halt io b ms ss r (an_live a)\<rparr>) = marks a"
proof -
  have "cl_dbType (haltOnDivergence io b ms ss r c) = cl_dbType c"
    "cl_sync_state (haltOnDivergence io b ms ss r c) (verifiedCheckpointSeqKey d) = cl_sync_state c (verifiedCheckpointSeqKey d)"
    "cl_sync_state (haltOnDivergence io b ms ss r c) (verifiedCheckpointBlockKey d) = cl_sync_state c (verifiedCheckpointBlockKey d)"
    for c d by (simp_all add: haltOnDivergence_def halt_keeps_marks Let_def)
  then show ?thesis
    by (simp add: marks_def durable_seq_def durable_block_def anchor_client_def live_halt_def stopDivergenceApply_def
        clearAllPendingReorgs_def verifiedCheckpointSeqKey_def verifiedCheckpointBlockKey_def)
qed

lemma marks_record_seq:
  assumes "mark_inv sq bq a"
  shows "marks_rise sq bq a (recordVerifiedCheckpointSeq ok n a)"
  using assms
  by (auto simp: recordVerifiedCheckpointSeq_def write_mark_def setSyncState_def with_client_def anchor_client_def Let_def
      marks_rise_def mark_inv_def durable_seq_def durable_block_def verifiedCheckpointSeqKey_def verifiedCheckpointBlockKey_def
      opt_le_def split: option.splits)

lemma marks_record_block:
  assumes "mark_inv sq bq a"
  shows "marks_rise sq bq a (recordVerifiedCheckpointBlock ok n a)"
  using assms
  by (auto simp: recordVerifiedCheckpointBlock_def write_mark_def setSyncState_def with_client_def anchor_client_def Let_def
      marks_rise_def mark_inv_def durable_seq_def durable_block_def verifiedCheckpointSeqKey_def verifiedCheckpointBlockKey_def
      opt_le_def split: option.splits)

lemma marks_record: "mark_inv sq bq a \<Longrightarrow> marks_rise sq bq a (record_verified io c a)"
  unfolding record_verified_def using marks_record_seq marks_record_block
  by (meson marks_rise_def marks_rise_trans)

lemma cycle_cases:
  assumes "verifyCheckpointQuorum io ed B rg src served a = Inr a'"
  obtains (same) "a' = a"
  | (verified) c where "a' = record_verified io c a"
  | (halted) b ms ss r where "a' = a\<lparr>an_live := live_halt (ao_halt io) b ms ss r (an_live a)\<rparr>"
proof -
  let ?halt = "\<lambda>b. \<exists>n ms ss r. b = a\<lparr>an_live := live_halt (ao_halt io) n ms ss r (an_live a)\<rparr>"
  let ?ends = "\<lambda>out b. b = a \<and> out \<noteq> Verified \<or> (\<exists>c. b = record_verified io c a \<and> out = Verified) \<or> out = HaltedAnchor \<and> ?halt b"
  have rot: "?ends out b"
    if l: "anchorByRotation io ed B rg cp a = Inr (out, b)" for cp out b
  proof (cases "if canFollowRotation a then an_seed a else None")
    case None
    then show ?thesis using l by (auto simp: anchorByRotation_def haltCheckpoint_def)
  next
    case (Some seed)
    then obtain f where "followCheckpointForward ed B rg cp seed a = Inr f"
      using l by (auto simp: anchorByRotation_def rbind_Inr_iff)
    then show ?thesis using l Some by (cases f) (auto simp: anchorByRotation_def haltCheckpoint_def)
  qed
  have latest: "?ends out b"
    if l: "anchorLatestCheckpoint io ed B rg served vs a = Inr (out, b)" for vs out b
  proof (cases served)
    case (Some cp)
    note e = l[unfolded anchorLatestCheckpoint_def Some option.case]
    show ?thesis
    proof (cases "checkpointBindingMismatches cp a \<noteq> [] \<or> checkpointSkipsAnchoring cp a \<or> checkpointFreshnessMismatches cp a \<or> cp_block_index cp > an_tip a")
      case True
      then show ?thesis using e by (auto simp: haltCheckpoint_def judgeCheckpointPastTip_def split: if_splits)
    next
      case False
      then show ?thesis using e rot[of cp out b]
        by (cases "checkpointRootsMatchLocal cp a") (auto simp: haltCheckpoint_def split: if_splits)
    qed
  qed (use l in \<open>auto simp: anchorLatestCheckpoint_def\<close>)
  have fresh: "enforceVerifiedAnchorFreshness io a = a \<or> (\<exists>n ms ss r. enforceVerifiedAnchorFreshness io a = a\<lparr>an_live := live_halt (ao_halt io) n ms ss r (an_live a)\<rparr>)"
    by (auto simp: enforceVerifiedAnchorFreshness_def split: option.split)
  show thesis
  proof (cases "\<exists>vs out b. anchorLatestCheckpoint io ed B rg served vs a = Inr (out, b) \<and> a' = (if out = Unanchored then enforceVerifiedAnchorFreshness io b else b)")
    case True
    then obtain vs out b where v: "anchorLatestCheckpoint io ed B rg served vs a = Inr (out, b)"
      "a' = (if out = Unanchored then enforceVerifiedAnchorFreshness io b else b)" by blast
    show thesis using latest[OF v(1)] v(2) fresh same verified halted by (auto split: if_splits)
  next
    case False
    have "a' = a" using assms False unfolding verifyCheckpointQuorum_def
      by (auto simp: rbind_Inr_iff split: option.splits if_splits) metis
    then show thesis by (rule same)
  qed
qed

text \<open>Recording writes the two marks and nothing else of the client.\<close>

lemma record_client:
  "\<exists>f. anchor_client (record_verified io c a) = (anchor_client a)\<lparr>cl_sync_state := f\<rparr> \<and>
     (\<forall>k. k \<noteq> verifiedCheckpointSeqKey (anchor_client a) \<longrightarrow> k \<noteq> verifiedCheckpointBlockKey (anchor_client a) \<longrightarrow>
       f k = cl_sync_state (anchor_client a) k)"
proof -
  have same: "\<exists>f. c = c\<lparr>cl_sync_state := f\<rparr> \<and> (\<forall>k. k \<noteq> key \<longrightarrow> f k = cl_sync_state c k)" for c :: client and key
    by (intro exI[of _ "cl_sync_state c"]) simp
  have w: "\<exists>f. anchor_client (snd (write_mark ok key n x)) = (anchor_client x)\<lparr>cl_sync_state := f\<rparr> \<and>
      (\<forall>k. k \<noteq> key \<longrightarrow> f k = cl_sync_state (anchor_client x) k)" for ok key n x
    using same[of "anchor_client x" key]
    by (cases ok) (auto simp: write_mark_def setSyncState_def with_client_def anchor_client_def)
  have s: "\<exists>f. anchor_client (recordVerifiedCheckpointSeq ok n x) = (anchor_client x)\<lparr>cl_sync_state := f\<rparr> \<and>
      (\<forall>k. k \<noteq> verifiedCheckpointSeqKey (anchor_client x) \<longrightarrow> f k = cl_sync_state (anchor_client x) k)" for ok n x
  proof -
    have "recordVerifiedCheckpointSeq ok n x = x \<or>
        recordVerifiedCheckpointSeq ok n x = snd (write_mark ok (verifiedCheckpointSeqKey (anchor_client x)) n (x\<lparr>an_seq := Some n\<rparr>))"
      by (simp add: recordVerifiedCheckpointSeq_def Let_def split: option.split)
    moreover have "anchor_client (x\<lparr>an_seq := Some n\<rparr>) = anchor_client x" by (simp add: anchor_client_def)
    ultimately show ?thesis using w same by metis
  qed
  have b: "\<exists>f. anchor_client (recordVerifiedCheckpointBlock ok n x) = (anchor_client x)\<lparr>cl_sync_state := f\<rparr> \<and>
      (\<forall>k. k \<noteq> verifiedCheckpointBlockKey (anchor_client x) \<longrightarrow> f k = cl_sync_state (anchor_client x) k)" for ok n x
  proof -
    obtain p y where y: "write_mark ok (verifiedCheckpointBlockKey (anchor_client x)) n x = (p, y)" by fastforce
    then have "recordVerifiedCheckpointBlock ok n x \<in> {x, y, y\<lparr>an_block := Some n\<rparr>}"
      by (simp add: recordVerifiedCheckpointBlock_def)
    then have "anchor_client (recordVerifiedCheckpointBlock ok n x) \<in> {anchor_client x, anchor_client y}"
      by (auto simp: anchor_client_def)
    moreover have "anchor_client y = anchor_client (snd (write_mark ok (verifiedCheckpointBlockKey (anchor_client x)) n x))" by (simp add: y)
    ultimately show ?thesis using w same by fastforce
  qed
  obtain f where f: "anchor_client (recordVerifiedCheckpointSeq (ao_seq io) (cp_checkpoint_seq c) a) = (anchor_client a)\<lparr>cl_sync_state := f\<rparr>"
    "\<forall>k. k \<noteq> verifiedCheckpointSeqKey (anchor_client a) \<longrightarrow> f k = cl_sync_state (anchor_client a) k" using s by blast
  obtain g where "anchor_client (record_verified io c a) = (anchor_client a)\<lparr>cl_sync_state := g\<rparr>"
    "\<forall>k. k \<noteq> verifiedCheckpointBlockKey (anchor_client a) \<longrightarrow> g k = f k"
    using b[of "ao_block io" "cp_block_index c" "recordVerifiedCheckpointSeq (ao_seq io) (cp_checkpoint_seq c) a"] f(1)
    by (auto simp: record_verified_def verifiedCheckpointBlockKey_def)
  then show ?thesis using f(2) by (intro exI[of _ g]) auto
qed

lemma marks_cycle:
  assumes "verifyCheckpointQuorum io ed B rg src served a = Inr a'" "mark_inv sq bq a"
  shows "marks_rise sq bq a a'"
  using assms(1)
proof (cases rule: cycle_cases)
  case (verified c)
  then show ?thesis using marks_record[OF assms(2)] by simp
qed (simp_all add: marks_eq_rise marks_live_halt assms(2))

text \<open>A run from a startup: cycles, changes elsewhere in the replica and restarts.  A startup reads the two marks, and each read
  may fail; \<open>sq\<close> and \<open>bq\<close> hold while no read of the sequence and of the block has failed.\<close>

inductive anchor_run :: "ed25519 \<Rightarrow> 'n bignum \<Rightarrow> anchor \<Rightarrow> bool \<Rightarrow> bool \<Rightarrow> anchor \<Rightarrow> bool" for ed B a0 where
  boot: "anchor_run ed B a0 sq bq (anchor_boot sq bq a0)"
| cycle: "anchor_run ed B a0 sq bq a \<Longrightarrow> verifyCheckpointQuorum io ed B rg src served a = Inr a' \<Longrightarrow> anchor_run ed B a0 sq bq a'"
| elsewhere: "anchor_run ed B a0 sq bq a \<Longrightarrow> marks a' = marks a \<Longrightarrow> anchor_run ed B a0 sq bq a'"
| restart: "anchor_run ed B a0 sq bq a \<Longrightarrow> anchor_run ed B a0 (sq \<and> seqOk) (bq \<and> blockOk) (anchor_boot seqOk blockOk a)"

lemma boot_rise: "marks_rise sq bq a (anchor_boot sq bq a)"
  using marks_boot[of sq bq a] by (cases sq; cases bq) (simp_all add: marks_def marks_rise_def mark_inv_def)

lemma restart_rise: "marks_rise (sq \<and> seqOk) (bq \<and> blockOk) a (anchor_boot seqOk blockOk a)"
  using boot_rise[of seqOk blockOk a] by (auto simp: marks_rise_def mark_inv_def)

lemma run_rise: "anchor_run ed B a0 sq bq a \<Longrightarrow> marks_rise sq bq a0 a"
proof (induction rule: anchor_run.induct)
  case (boot sq bq)
  show ?case by (rule boot_rise)
next
  case (cycle sq bq a io rg src served a')
  then have "marks_rise sq bq a a'" by (intro marks_cycle) (auto simp: marks_rise_def)
  with cycle.IH show ?case by (rule marks_rise_trans)
next
  case (elsewhere sq bq a a')
  then have "marks_rise sq bq a a'" by (intro marks_eq_rise) (auto simp: marks_rise_def)
  with elsewhere.IH show ?case by (rule marks_rise_trans)
next
  case (restart sq bq a seqOk blockOk)
  show ?case by (rule marks_rise_trans[OF marks_rise_weaken[OF restart.IH] restart_rise])
qed

text \<open>(C16) From startup on, over every sequence of cycles, restarts and changes elsewhere, with failing writes anywhere: while
  every startup could read the sequence mark, the durable one never falls and no cycle verifies a checkpoint whose sequence
  is below it; while every startup could read the block mark, the durable one never falls.  The reads are fail-soft, and a
  startup that cannot read a mark gives up only that one.\<close>
theorem anchor_marks_never_fall:
  assumes "anchor_run ed B a0 sq bq a"
  shows "(sq \<longrightarrow> (\<forall>n. durable_seq a0 = Some n \<longrightarrow> (\<exists>m. durable_seq a = Some m \<and> n \<le> m)) \<and>
      (\<forall>io rg cp vs a' n. anchorLatestCheckpoint io ed B rg (Some cp) vs a = Inr (Verified, a') \<and> safe_height (cp_checkpoint_seq cp) \<and>
         durable_seq a = Some n \<longrightarrow> n \<le> cp_checkpoint_seq cp)) \<and>
    (bq \<longrightarrow> (\<forall>n. durable_block a0 = Some n \<longrightarrow> (\<exists>m. durable_block a = Some m \<and> n \<le> m)))"
proof -
  have r: "marks_rise sq bq a0 a" by (rule run_rise[OF assms])
  have "n \<le> cp_checkpoint_seq cp"
    if v: "anchorLatestCheckpoint io ed B rg (Some cp) vs a = Inr (Verified, a')" "safe_height (cp_checkpoint_seq cp)"
      "durable_seq a = Some n" and sq for io rg cp vs a' n
  proof -
    have "\<not> checkpointSkipsAnchoring cp a" using v(1) by (rule anchor_verified_cases) auto
    moreover have "opt_le (Some n) (an_seq a)" using r v(3) \<open>sq\<close> by (simp add: marks_rise_def mark_inv_def)
    ultimately show ?thesis using v(2)
      by (auto simp: checkpointSkipsAnchoring_def opt_le_def split: if_splits option.splits)
  qed
  then show ?thesis using r by (auto simp: marks_rise_def opt_le_def split: option.splits)
qed

text \<open>A startup whose read of the mark fails starts with none, and the next verified checkpoint overwrites the durable mark,
  also with a lower sequence.\<close>

lemma unread_mark_overwritten:
  assumes "safe_height n"
  shows "durable_seq (recordVerifiedCheckpointSeq True n (anchor_boot False ok a)) = Some n"
  using assms
  by (auto simp: recordVerifiedCheckpointSeq_def write_mark_def setSyncState_def with_client_def anchor_client_def Let_def
      durable_seq_def anchor_boot_def loadVerifiedCheckpointSeq_def loadVerifiedCheckpointBlock_def getSyncState_def
      verifiedCheckpointSeqKey_def split: option.split sval.split jsnum.split)

section \<open>A followed rotation\<close>

definition demo_signed :: "int \<Rightarrow> int \<Rightarrow> checkpoint" where
  "demo_signed b n = \<lparr>cp_chain = ''BTC'', cp_network = ''regtest'', cp_block_index = b, cp_block_hash = ''h'',
      cp_ledger_hash = ''l'', cp_actions_hash = ''a'', cp_contract_hash = ''c'', cp_checkpoint_seq = n, cp_snapshot_block = 5,
      cp_state_root = Some ''AB'', cp_state_root_version = Some 1, cp_block_merkle_root = Some ''cd'',
      cp_block_merkle_version = Some 1, cp_supersedes_from = None, cp_rules_digest = None, cp_fold_archive = None,
      cp_validator_signatures = SigValue (SigArray [(replicate 64 CHR ''a'', replicate 128 CHR ''0'')])\<rparr>"

definition demo_rows :: "weight_row list" where
  "demo_rows = [\<lparr>wr_pubkey = Some (replicate 64 CHR ''a''), wr_weight = Some ''7'', wr_source = ''s''\<rparr>]"

definition demo_anchor :: anchor where
  "demo_anchor = \<lparr>an_live = \<lparr>lv_client = demo_client, lv_verifyHashes = True, lv_strict = True,
     lv_haltOnDivergence = True, lv_sourceQuorum = 1, lv_evictThreshold = 3, lv_strikeWindow = 200,
     lv_lastHashes = None, lv_evicted = [], lv_strikes = (\<lambda>_. []), lv_pending = Map.empty, lv_timers = Map.empty,
     lv_strictConfirm = [], lv_reorgs = Map.empty, lv_strictReorg = [], lv_lastAgreeing = None, lv_indexTxs = []\<rparr>,
     an_network = ''regtest'', an_strictFresh = True, an_freshBlocks = 100, an_seq = None, an_block = None,
     an_pinned = Some \<lparr>vs_entries = [Bare ''00''], vs_truncated = False\<rparr>, an_seed = Some (demo_signed 5 1),
     an_roots = (\<lambda>_. Some \<lparr>lr_state_root = ''ab'', lr_block_merkle_root = Some ''cd''\<rparr>),
     an_stakes = (\<lambda>_. (demo_rows, False))\<rparr>"

definition demo_set :: vset where
  "demo_set = \<lparr>vs_entries = [Entry \<lparr>v_pubkey = replicate 64 CHR ''a'', v_source = Some ''s'', v_weight = Some ''7''\<rparr>], vs_truncated = False\<rparr>"

lemma demo_signed_valid:
  "served_valid (\<lambda>_ _ _. True) rat_bignum (demo_signed 8 2) demo_set"
  "\<not> served_valid (\<lambda>_ _ _. True) rat_bignum (demo_signed 8 2) \<lparr>vs_entries = [Bare ''00''], vs_truncated = False\<rparr>"
  "publish_entries demo_rows = Inr (vs_entries demo_set)"
  "commitmentActive (Some (demo_signed 8 2))" "\<not> commitmentMissing (Some (demo_signed 8 2))"
  "tryCanonicalCheckpoint (Some (demo_signed 8 2)) \<noteq> None"
  "checkpointBindingMismatches (demo_signed 8 2) demo_anchor = []"
  "checkpointRootsMatchLocal (demo_signed 8 2) demo_anchor = RootsMatch"
  "checkpointRootsMatchLocal (demo_signed 5 1) demo_anchor = RootsMatch"
  "an_tip demo_anchor = 10"
  by code_simp+

lemma demo_attest: "attestRotationStep (\<lambda>_ _ _. True) rat_bignum (demo_signed 8 2) (demo_signed 5 1) demo_anchor = Inr None"
proof -
  have "oraclePublishSetAt b demo_anchor = Inr demo_set" for b
    by (simp add: oraclePublishSetAt_def demo_anchor_def demo_signed_valid demo_set_def)
  then show ?thesis
    unfolding attestRotationStep_def demo_signed_valid(7,8,10) using demo_signed_valid(1,4,6)
    by (simp add: demo_set_def) (simp add: demo_signed_def)
qed

lemma demo_follow:
  "followCheckpointForward (\<lambda>_ _ _. True) rat_bignum (\<lambda>_ _ _. Some [demo_signed 8 2]) (demo_signed 8 2) (demo_signed 5 1) demo_anchor =
     Inr (FollowOk (demo_signed 8 2))"
proof -
  have b: "cp_block_index (demo_signed x y) = x" "cp_state_root (demo_signed x y) = Some ''AB''" for x y by (simp_all add: demo_signed_def)
  have "bindingSteps [demo_signed 8 2] = [demo_signed 8 2]"
    by (simp add: bindingSteps_def isNonBindingStep_def supersedingSeqFor_def) (simp add: demo_signed_def)
  moreover have "follow_loop n ed rat_bignum a rg 8 lo (demo_signed 8 2) = Inr (Inr (demo_signed 8 2))" for n ed a rg lo
    by (cases n) (simp_all add: b)
  ultimately have "follow_loop (Suc n) (\<lambda>_ _ _. True) rat_bignum demo_anchor (\<lambda>_ _ _. Some [demo_signed 8 2]) 8 6 (demo_signed 5 1) =
      Inr (Inr (demo_signed 8 2))" for n
    by (simp add: b demo_attest)
  from this[of 9999] have "follow_loop FOLLOW_GUARD (\<lambda>_ _ _. True) rat_bignum demo_anchor (\<lambda>_ _ _. Some [demo_signed 8 2]) 8 6 (demo_signed 5 1) =
      Inr (Inr (demo_signed 8 2))"
    by (simp add: FOLLOW_GUARD_def)
  then show ?thesis
    using demo_signed_valid(6)
    by (simp add: followCheckpointForward_def b demo_signed_valid(9)) (simp add: canFollowRotation_def an_coin_def demo_anchor_def demo_client_def)
qed

definition demo_aio :: anchor_io where
  "demo_aio = \<lparr>ao_halt = all_io, ao_seq = True, ao_block = True\<rparr>"

lemma demo_verified:
  "anchorLatestCheckpoint demo_aio (\<lambda>_ _ _. True) rat_bignum (\<lambda>_ _ _. Some [demo_signed 8 2]) (Some (demo_signed 8 2))
     \<lparr>vs_entries = [Bare ''00''], vs_truncated = False\<rparr> demo_anchor = Inr (Verified, record_verified demo_aio (demo_signed 8 2) demo_anchor)"
proof -
  have "\<not> checkpointSkipsAnchoring (demo_signed 8 2) demo_anchor"
    using demo_signed_valid(4-6) by (simp add: checkpointSkipsAnchoring_def) (simp add: demo_anchor_def demo_signed_def)
  moreover have "\<not> checkpointFreshnessMismatches (demo_signed 8 2) demo_anchor"
    by (simp add: checkpointFreshnessMismatches_def demo_anchor_def)
  moreover have "canFollowRotation demo_anchor" "an_seed demo_anchor = Some (demo_signed 5 1)" "cp_block_index (demo_signed 8 2) = 8"
    by (simp_all add: canFollowRotation_def an_coin_def demo_anchor_def demo_client_def demo_signed_def)
  ultimately show ?thesis
    by (simp add: anchorLatestCheckpoint_def demo_signed_valid anchorByRotation_def demo_follow)
qed

lemma anchor_verified_sound_witness:
  "\<exists>cp c seed. cp = demo_signed 8 2 \<and> tryCanonicalCheckpoint (Some c) = tryCanonicalCheckpoint (Some cp) \<and>
     an_seed demo_anchor = Some seed \<and> attested (\<lambda>_ _ _. True) rat_bignum demo_anchor seed c"
  using anchor_verified_sound[OF demo_verified] demo_signed_valid(2) by auto

lemma anchor_marks_never_fall_witness:
  "anchor_run (\<lambda>_ _ _. True) rat_bignum (record_verified demo_aio (demo_signed 8 2) demo_anchor) True False
     (anchor_boot True False (record_verified demo_aio (demo_signed 8 2) demo_anchor)) \<and>
   (\<exists>n. durable_seq (anchor_boot True False (record_verified demo_aio (demo_signed 8 2) demo_anchor)) = Some n \<and> 2 \<le> n)"
proof -
  let ?a = "record_verified demo_aio (demo_signed 8 2) demo_anchor"
  have d: "durable_seq ?a = Some 2" by code_simp
  have run: "anchor_run (\<lambda>_ _ _. True) rat_bignum ?a True False (anchor_boot True False ?a)" by (rule anchor_run.boot)
  from anchor_marks_never_fall[OF run] show ?thesis using run d by auto
qed

end
