(* ===== verification/Live_Apply.thy ===== *)
theory Live_Apply
  imports Anchor_Proofs Source_Quorum Verified_Tip Activation_Gates
begin

text \<open>
  How a live block is applied and verified (\<^verbatim>\<open>applyAndVerifyBlock\<close> of \<^verbatim>\<open>src/src/client/sync.js\<close>): the platform-train gate,
  the tail below it, the transaction of \<^verbatim>\<open>src/src/client/applier.js\<close>, the recompute, the state hash, the committed roots,
  the new tip and its marker, and the checkpoint anchor when it is due.  What the rows of the block recompute to comes with the
  block, as in \<open>Client_State\<close>; what the transaction writes beside them is left out.
\<close>

section \<open>State\<close>

record commit_roots =
  cr_balances :: string
  cr_block_merkle :: string
  cr_state :: string

record applying =
  ap_anchor :: anchor
  ap_unverified :: "(int \<times> commit_roots) option"
  ap_lastVerify :: int
  ap_interval :: int
  ap_quorumOn :: bool
  ap_verifyCommitment :: bool
  ap_train :: "train_req option"

definition ap_client :: "applying \<Rightarrow> client" where
  "ap_client s = anchor_client (ap_anchor s)"

definition set_client :: "client \<Rightarrow> applying \<Rightarrow> applying" where
  "set_client c s = s\<lparr>ap_anchor := with_client c (ap_anchor s)\<rparr>"

definition ap_halt :: "halt_io \<Rightarrow> int \<Rightarrow> string list \<Rightarrow> string list \<Rightarrow> string \<Rightarrow> applying \<Rightarrow> applying" where
  "ap_halt io b ms ss reason s =
     s\<lparr>ap_anchor := (ap_anchor s)\<lparr>an_live := live_halt io b ms ss reason (an_live (ap_anchor s))\<rparr>\<rparr>"

text \<open>What happens around one block.  \<open>ai_tx\<close> is what the transaction commits: the block with what it recomputes to, unless the
  payload has no row for it, and the roots computed in it, if the commitment is active; \<^term>\<open>None\<close> when it rolls back.  \<open>ai_absent\<close> is what the hasher answers on a
  height without rows.  \<open>ai_waiting\<close> and \<open>ai_verifying\<close> are what timers and catch-ups do to the client while the block waits
  for the apply lock and while its verification awaits.\<close>

record apply_io =
  ai_halt :: halt_io
  ai_walk :: walk_env
  ai_walkTip :: bool
  ai_walkLoad :: bool
  ai_walkLegacy :: bool
  ai_data :: bool
  ai_version :: bool
  ai_existsOk :: bool
  ai_tx :: "(committed_block option \<times> commit_roots option) option"
  ai_absent :: "(string \<times> string \<times> string) option \<times> string option"
  ai_waiting :: "client \<Rightarrow> client"
  ai_verifying :: "client \<Rightarrow> client"
  ai_counter :: bool
  ai_marker :: bool

text \<open>The anchor cycle's surroundings.\<close>

record 'n anchor_env =
  ae_io :: anchor_io
  ae_ed :: ed25519
  ae_bignum :: "'n bignum"
  ae_range :: range_source
  ae_source :: bool
  ae_served :: "checkpoint option"

section \<open>The gates before a write\<close>

text \<open>A gate that cannot be evaluated halts.\<close>

definition checkTrainActivation :: "halt_io \<Rightarrow> jsv \<Rightarrow> jsv \<Rightarrow> int \<Rightarrow> applying \<Rightarrow> bool \<times> applying" where
  "checkTrainActivation io manifest activation blockIndex s =
     (let status = (case evaluateTrainActivation (Some (an_network (ap_anchor s)))
                       (if an_coin (ap_anchor s) = ''BTC'' then JInt blockIndex else JNull) (Read (ap_train s)) manifest activation of
                      Inl _ \<Rightarrow> Halt
                    | Inr v \<Rightarrow> tv_status v)
      in if status = Clear \<or> status = Pending then (False, s)
         else (True, ap_halt io blockIndex [''rule_set''] [] ''train-activation'' s))"

definition liveBlockBlockedByUnverifiedTail :: "apply_io \<Rightarrow> applying \<Rightarrow> bool \<times> applying" where
  "liveBlockBlockedByUnverifiedTail io s =
     (let c = ap_client s in
      if \<not> tracksVerifiedTip c \<or> verifiedThroughLastApplied c then (False, s)
      else (let (v, c') = verifyUnverifiedTail (ai_walk io) (ai_walkTip io) (ai_walkLoad io) (ai_walkLegacy io) c in
            (v \<noteq> WalkOk, set_client c' s)))"

section \<open>The transaction\<close>

text \<open>\<^verbatim>\<open>applyBlock\<close> of the applier: a payload without data and a height already stored write nothing and leave no roots.\<close>

definition applyBlock :: "apply_io \<Rightarrow> block_event \<Rightarrow> client \<Rightarrow> (commit_roots option \<times> client) res" where
  "applyBlock io event c =
     (if \<not> ai_data io then Inr (None, c)
      else if \<not> ai_version io then Inl ''Schema version mismatch''
      else if \<not> ai_existsOk io then Inl ''block row unreadable''
      else if map_of (cl_rows c) (be_block event) \<noteq> None then Inr (None, c)
      else (case ai_tx io of
              None \<Rightarrow> Inl ''block apply rolled back''
            | Some (b, roots) \<Rightarrow>
                Inr (if cl_dbType c = ''indexer'' then roots else None,
                     c\<lparr>cl_rows := cl_rows c @ (case b of None \<Rightarrow> [] | Some row \<Rightarrow> [(be_block event, row)])\<rparr>)))"

definition carryUnverifiedRoots :: "commit_roots option \<Rightarrow> block_event \<Rightarrow> applying \<Rightarrow> commit_roots option \<times> applying" where
  "carryUnverifiedRoots computed event s =
     (let roots = (case computed of
                     Some r \<Rightarrow> Some r
                   | None \<Rightarrow> (case ap_unverified s of
                               Some (b, r) \<Rightarrow> if b = be_block event then Some r else None
                             | None \<Rightarrow> None))
      in (roots, s\<lparr>ap_unverified := (case roots of None \<Rightarrow> None | Some r \<Rightarrow> Some (be_block event, r))\<rparr>))"

section \<open>The checks on a committed block\<close>

definition hash_opt :: "hash_field \<Rightarrow> string option" where
  "hash_opt v = (case v of Text s \<Rightarrow> Some s | _ \<Rightarrow> None)"

definition event_hashes :: "block_event \<Rightarrow> string option \<times> string option \<times> string option" where
  "event_hashes event = (hash_opt (be_ledger event), hash_opt (be_actions event), hash_opt (be_contract event))"

definition rehash_block :: "apply_io \<Rightarrow> int \<Rightarrow> client \<Rightarrow> (string \<times> string \<times> string) option" where
  "rehash_block io h c = (case map_of (cl_rows c) h of Some b \<Rightarrow> cb_computed b | None \<Rightarrow> fst (ai_absent io))"

definition rehash_state :: "apply_io \<Rightarrow> int \<Rightarrow> client \<Rightarrow> string option" where
  "rehash_state io h c = (case map_of (cl_rows c) h of Some b \<Rightarrow> cb_computed_state b | None \<Rightarrow> snd (ai_absent io))"

text \<open>\<^verbatim>\<open>verifyRecompute\<close> with \<^verbatim>\<open>holdTip\<close>: one attempt, and an error holds the tip.\<close>

definition live_recompute :: "apply_io \<Rightarrow> block_event \<Rightarrow> client \<Rightarrow> string list res" where
  "live_recompute io event c =
     (if cl_dbType c = ''indexer'' \<and> cl_verifyRecompute c
      then verifyRecompute c (be_block event) (event_hashes event) (rehash_block io (be_block event) c) else Inr [])"

text \<open>\<^verbatim>\<open>stateHashMismatch\<close>, when a live block calls for it.\<close>

definition live_state_mismatch :: "apply_io \<Rightarrow> block_event \<Rightarrow> client \<Rightarrow> bool res" where
  "live_state_mismatch io event c =
     (if cl_dbType c \<noteq> ''indexer'' \<or> \<not> cl_verifyStateHash c \<or> is_null (be_state event) then Inr False
      else (case rehash_state io (be_block event) c of
              None \<Rightarrow> Inl ''state hash failed''
            | Some s \<Rightarrow> Inr (Text s \<noteq> be_state event)))"

definition stateCommitmentDivergence :: "block_event \<Rightarrow> commit_roots \<Rightarrow> (string list \<times> string) option" where
  "stateCommitmentDivergence event computed =
     (let missing = (if is_null (be_balances_root event) then [''balances_root''] else []) @
                    (if is_null (be_block_merkle_root event) then [''block_merkle_root''] else []) in
      if missing \<noteq> [] then Some (missing, ''state-commitment-missing'')
      else (let mismatches =
              (if Text (cr_balances computed) \<noteq> be_balances_root event then [''balances_root''] else []) @
              (if \<not> is_null (be_block_merkle_root event) \<and> Text (cr_block_merkle computed) \<noteq> be_block_merkle_root event
               then [''block_merkle_root''] else []) @
              (if \<not> is_null (be_state_root event) \<and> Text (cr_state computed) \<noteq> be_state_root event then [''state_root''] else [])
            in if mismatches \<noteq> [] then Some (mismatches, ''state-commitment-divergence'') else None))"

definition isTruncated :: "client \<Rightarrow> bool" where
  "isTruncated c = (case cl_bootstrapBase c of None \<Rightarrow> False | Some b \<Rightarrow> b > 0)"

definition commitment_verdict :: "block_event \<Rightarrow> commit_roots option \<Rightarrow> applying \<Rightarrow> (string list \<times> string) option" where
  "commitment_verdict event roots s =
     (case roots of
        None \<Rightarrow> None
      | Some r \<Rightarrow>
          if cl_dbType (ap_client s) = ''indexer'' \<and> ap_verifyCommitment s \<and> \<not> isTruncated (ap_client s)
          then stateCommitmentDivergence event r else None)"

text \<open>\<^verbatim>\<open>recordSyncStateCounter\<close>: the row holds the integers it wrote.\<close>

definition recordSyncStateCounter :: "bool \<Rightarrow> string \<Rightarrow> int \<Rightarrow> client \<Rightarrow> client" where
  "recordSyncStateCounter ok kind blockIndex c =
     (let countKey = kind @ ''_count:'' @ cl_dbType c;
          n = (case getSyncState ok countKey False c of
                 Inr v \<Rightarrow> (case parseHeight v of Some k \<Rightarrow> k + 1 | None \<Rightarrow> 1)
               | Inl _ \<Rightarrow> 1);
          c1 = (case setSyncState ok countKey (SText (int_str n)) False c of Inr (_, c') \<Rightarrow> c' | Inl _ \<Rightarrow> c)
      in (case setSyncState ok (kind @ ''_last_block:'' @ cl_dbType c) (SText (int_str blockIndex)) False c1 of
            Inr (_, c') \<Rightarrow> c' | Inl _ \<Rightarrow> c1))"

section \<open>The new tip\<close>

definition tip_hashes :: "client \<Rightarrow> block_event \<Rightarrow> block_event" where
  "tip_hashes c event =
     (let e = event\<lparr>be_state := Undef, be_balances_root := Undef, be_block_merkle_root := Undef, be_state_root := Undef,
                    be_prev_id := None, be_index_txs := []\<rparr>
      in if cl_dbType c = ''decoder'' then e\<lparr>be_ledger := Undef, be_actions := Undef, be_contract := Undef\<rparr>
         else e\<lparr>be_block_hash := Undef\<rparr>)"

definition finishAppliedBlock :: "block_event \<Rightarrow> applying \<Rightarrow> applying" where
  "finishAppliedBlock event s =
     (let a = ap_anchor s; l = an_live a; c = lv_client l in
      s\<lparr>ap_unverified := None,
        ap_anchor := a\<lparr>an_live := l\<lparr>lv_client := c\<lparr>cl_lastApplied := Some (be_block event)\<rparr>,
                                   lv_lastHashes := Some (tip_hashes c event)\<rparr>\<rparr>\<rparr>)"

definition checkpointQuorumIsDue :: "applying \<Rightarrow> bool" where
  "checkpointQuorumIsDue s =
     (cl_dbType (ap_client s) = ''indexer'' \<and> ap_quorumOn s \<and> an_tip (ap_anchor s) - ap_lastVerify s \<ge> ap_interval s)"

text \<open>A throwing anchor cycle is caught; the cycle counts as run.\<close>

definition anchor_if_due :: "'n anchor_env \<Rightarrow> applying \<Rightarrow> applying" where
  "anchor_if_due ae s =
     (if checkpointQuorumIsDue s then
        (let s1 = s\<lparr>ap_lastVerify := an_tip (ap_anchor s)\<rparr> in
         case verifyCheckpointQuorum (ae_io ae) (ae_ed ae) (ae_bignum ae) (ae_range ae) (ae_source ae) (ae_served ae) (ap_anchor s1) of
           Inr a \<Rightarrow> s1\<lparr>ap_anchor := a\<rparr>
         | Inl _ \<Rightarrow> s1)
      else s)"

definition finish_block :: "'n anchor_env \<Rightarrow> apply_io \<Rightarrow> nat \<Rightarrow> block_event \<Rightarrow> applying \<Rightarrow> applying" where
  "finish_block ae io generation event s =
     (let s1 = finishAppliedBlock event s;
          c = ap_client s1;
          s2 = (if tracksVerifiedTip c then set_client (advanceVerifiedTip (ai_marker io) (be_block event) (Some generation) c) s1 else s1);
          a = ap_anchor s2;
          s3 = s2\<lparr>ap_anchor := a\<lparr>an_live := clearAppliedBlockWork (an_live a)\<rparr>\<rparr>
      in anchor_if_due ae s3)"

section \<open>One live block\<close>

datatype apply_outcome = Refused | TrainHalt | TailBlocked | Held | DivergenceHalt string | Finished

text \<open>After the commit.  The hashes are computed from the rows before other tasks run.\<close>

definition verify_applied :: "'n anchor_env \<Rightarrow> apply_io \<Rightarrow> nat \<Rightarrow> block_event \<Rightarrow> commit_roots option \<Rightarrow> applying \<Rightarrow> apply_outcome \<times> applying" where
  "verify_applied ae io generation event computed s =
     (let (roots, s1) = carryUnverifiedRoots computed event s;
          c = ap_client s1;
          s2 = set_client (ai_verifying io c) s1;
          halt = (\<lambda>ms reason. (DivergenceHalt reason,
                    ap_halt (ai_halt io) (be_block event) ms (take 1 (cl_sources (ap_client s2))) reason s2))
      in case live_recompute io event c of
           Inl _ \<Rightarrow> (Held, set_client (recordSyncStateCounter (ai_counter io) ''unverified_recompute'' (be_block event) (ap_client s2)) s2)
         | Inr ms \<Rightarrow>
             if ms \<noteq> [] then halt ms ''local-recompute-divergence''
             else (case live_state_mismatch io event c of
                     Inl _ \<Rightarrow> (Held, s2)
                   | Inr True \<Rightarrow> halt [''state_hash''] ''state-hash-divergence''
                   | Inr False \<Rightarrow>
                       (case commitment_verdict event roots s2 of
                          Some (ms, reason) \<Rightarrow> halt ms reason
                        | None \<Rightarrow> (Finished, finish_block ae io generation event s2))))"

definition applyAndVerifyBlock ::
    "'n anchor_env \<Rightarrow> apply_io \<Rightarrow> jsv \<Rightarrow> jsv \<Rightarrow> block_event \<Rightarrow> applying \<Rightarrow> apply_outcome \<times> applying" where
  "applyAndVerifyBlock ae io manifest activation event s =
     (if cl_halted (ap_client s) \<noteq> None then (Refused, s)
      else (let (stop, s1) = checkTrainActivation (ai_halt io) manifest activation (be_block event) s in
        if stop then (TrainHalt, s1)
        else (let (blocked, s2) = liveBlockBlockedByUnverifiedTail io s1 in
          if blocked then (TailBlocked, s2)
          else (let generation = cl_generation (ap_client s2);
                    s3 = set_client (ai_waiting io (ap_client s2)) s2
                in case applyBlock io event (ap_client s3) of
                     Inl _ \<Rightarrow> (Held, s3)
                   | Inr (computed, c) \<Rightarrow> verify_applied ae io generation event computed (set_client c s3)))))"

end
