(* ===== verification/Live_Proofs.thy ===== *)
theory Live_Proofs
  imports Live_Apply
begin

text \<open>
  What applying a live block guarantees: the tip moves to a block exactly when its rows recompute to what it carries, and the
  verified-tip marker stays sound through every outcome and every task interleaved with the verification.
\<close>

section \<open>Frames\<close>

lemma client_simps [simp]:
  "ap_client (set_client c s) = c"
  "ap_unverified (set_client c s) = ap_unverified s" "ap_verifyCommitment (set_client c s) = ap_verifyCommitment s"
  "ap_lastVerify (set_client c s) = ap_lastVerify s" "ap_client (s\<lparr>ap_unverified := u\<rparr>) = ap_client s"
  "ap_client (s\<lparr>ap_lastVerify := n\<rparr>) = ap_client s"
  by (simp_all add: ap_client_def set_client_def anchor_client_def with_client_def)

lemma set_client_same [simp]: "set_client (ap_client s) s = s"
  by (simp add: ap_client_def set_client_def anchor_client_def with_client_def)

lemma live_halt_client: "lv_client (live_halt io b ms ss r l) = haltOnDivergence io b ms ss r (lv_client l)"
  by (simp add: live_halt_def stopDivergenceApply_def clearAllPendingReorgs_def haltOnDivergence_def)

lemma ap_halt_client [simp]: "ap_client (ap_halt io b ms ss r s) = haltOnDivergence io b ms ss r (ap_client s)"
  by (simp add: ap_halt_def live_halt_client ap_client_def anchor_client_def)

lemma halt_installed:
  assumes "cl_halted c = None" "reason \<noteq> []"
  shows "\<exists>h. cl_halted (haltOnDivergence io b ms ss reason c) = Some h \<and> h_block h = Some b \<and> h_reason h = reason"
  using assms by (simp add: haltOnDivergence_def Let_def persistHalt_frame(6))

lemma train_passes: "checkTrainActivation io m a b s = (False, s') \<Longrightarrow> s' = s"
  by (simp add: checkTrainActivation_def Let_def split: if_splits)

lemma anchor_cycle_client:
  assumes "verifyCheckpointQuorum io ed B rg src served a = Inr a'"
  obtains (same) "anchor_client a' = anchor_client a"
  | (marks) f where "anchor_client a' = (anchor_client a)\<lparr>cl_sync_state := f\<rparr>"
      "\<And>x. f (verifiedTipKey x) = cl_sync_state (anchor_client a) (verifiedTipKey x)"
  | (halted) io b ms ss r where "anchor_client a' = haltOnDivergence io b ms ss r (anchor_client a)"
  using assms
proof (cases rule: cycle_cases)
  case (verified c)
  obtain f where f: "anchor_client (record_verified io c a) = (anchor_client a)\<lparr>cl_sync_state := f\<rparr>"
    "\<forall>k. k \<noteq> verifiedCheckpointSeqKey (anchor_client a) \<longrightarrow> k \<noteq> verifiedCheckpointBlockKey (anchor_client a) \<longrightarrow>
       f k = cl_sync_state (anchor_client a) k" using record_client[of io c a] by blast
  have "f (verifiedTipKey x) = cl_sync_state (anchor_client a) (verifiedTipKey x)" for x
    by (rule f(2)[rule_format]) (simp_all add: verifiedTipKey_def verifiedCheckpointSeqKey_def verifiedCheckpointBlockKey_def)
  then show ?thesis using marks[of f] f(1) verified by simp
next
  case (halted b ms ss r)
  then show ?thesis using that(3)[of "ao_halt io" b ms ss r] by (simp add: anchor_client_def live_halt_client)
qed (rule same, simp)

text \<open>After a finished block the client is that of the raised tip and marker, up to the anchor cycle.\<close>

definition raised :: "apply_io \<Rightarrow> nat \<Rightarrow> block_event \<Rightarrow> client \<Rightarrow> client" where
  "raised io g e c =
     (let c1 = c\<lparr>cl_lastApplied := Some (be_block e)\<rparr> in
      if tracksVerifiedTip c1 then advanceVerifiedTip (ai_marker io) (be_block e) (Some g) c1 else c1)"

lemma finish_client:
  obtains (same) "ap_client (finish_block ae io g e s) = raised io g e (ap_client s)"
  | (marks) f where "ap_client (finish_block ae io g e s) = (raised io g e (ap_client s))\<lparr>cl_sync_state := f\<rparr>"
      "\<And>x. f (verifiedTipKey x) = cl_sync_state (raised io g e (ap_client s)) (verifiedTipKey x)"
  | (halted) hio b ms ss r where "ap_client (finish_block ae io g e s) = haltOnDivergence hio b ms ss r (raised io g e (ap_client s))"
proof -
  define s1 where "s1 = finishAppliedBlock e s"
  define s2 where "s2 = (if tracksVerifiedTip (ap_client s1)
    then set_client (advanceVerifiedTip (ai_marker io) (be_block e) (Some g) (ap_client s1)) s1 else s1)"
  define s3 where "s3 = s2\<lparr>ap_anchor := (ap_anchor s2)\<lparr>an_live := clearAppliedBlockWork (an_live (ap_anchor s2))\<rparr>\<rparr>"
  have f: "finish_block ae io g e s = anchor_if_due ae s3"
    by (simp add: finish_block_def s1_def s2_def s3_def Let_def)
  have "ap_client s1 = (ap_client s)\<lparr>cl_lastApplied := Some (be_block e)\<rparr>"
    by (simp add: s1_def finishAppliedBlock_def ap_client_def anchor_client_def Let_def)
  moreover have "ap_client s3 = ap_client s2"
    by (simp add: s3_def ap_client_def anchor_client_def clearAppliedBlockWork_def)
  ultimately have c: "ap_client s3 = raised io g e (ap_client s)"
    by (simp add: s2_def raised_def Let_def)
  let ?a = "ap_anchor s3"
  show thesis
  proof (cases "checkpointQuorumIsDue s3 \<and>
      (\<exists>a. verifyCheckpointQuorum (ae_io ae) (ae_ed ae) (ae_bignum ae) (ae_range ae) (ae_source ae) (ae_served ae) ?a = Inr a)")
    case True
    then obtain a where a: "verifyCheckpointQuorum (ae_io ae) (ae_ed ae) (ae_bignum ae) (ae_range ae) (ae_source ae) (ae_served ae) ?a = Inr a"
      by blast
    then have r: "ap_client (finish_block ae io g e s) = anchor_client a"
      using True by (simp add: f anchor_if_due_def ap_client_def)
    have s: "anchor_client ?a = raised io g e (ap_client s)" using c by (simp add: ap_client_def)
    from a show thesis by (rule anchor_cycle_client) (use r s that in \<open>simp_all\<close>)
  next
    case False
    then have "ap_client (finish_block ae io g e s) = ap_client s3"
      by (auto simp: f anchor_if_due_def ap_client_def Let_def split: sum.split)
    then show thesis using c same by simp
  qed
qed

lemma raised_tip: "cl_lastApplied (raised io g e c) = Some (be_block e)"
  by (simp add: raised_def advanceVerifiedTip_def writeVerifiedTip_def setSyncState_def Let_def split: marker.split)

lemma finish_tip: "cl_lastApplied (ap_client (finish_block ae io g e s)) = Some (be_block e)"
  by (rule finish_client[of ae io g e s]) (simp_all add: raised_tip)

section \<open>The checks\<close>

definition hashes_match :: "apply_io \<Rightarrow> block_event \<Rightarrow> client \<Rightarrow> bool" where
  "hashes_match io e c \<longleftrightarrow>
     (cl_dbType c = ''indexer'' \<and> cl_verifyRecompute c \<and> cl_bootstrapBase c \<noteq> Some (be_block e) \<longrightarrow>
      (\<exists>l a k. rehash_block io (be_block e) c = Some (l, a, k) \<and> be_ledger e = Text l \<and> be_actions e = Text a \<and> be_contract e = Text k)) \<and>
     (cl_dbType c = ''indexer'' \<and> cl_verifyStateHash c \<and> \<not> is_null (be_state e) \<longrightarrow>
      (\<exists>x. rehash_state io (be_block e) c = Some x \<and> be_state e = Text x))"

definition roots_match :: "block_event \<Rightarrow> commit_roots \<Rightarrow> bool" where
  "roots_match e r \<longleftrightarrow> be_balances_root e = Text (cr_balances r) \<and> be_block_merkle_root e = Text (cr_block_merkle r) \<and>
     (is_null (be_state_root e) \<or> be_state_root e = Text (cr_state r))"

lemma Some_hash_opt: "Some x = hash_opt v \<longleftrightarrow> v = Text x" "hash_opt v = Some x \<longleftrightarrow> v = Text x"
  by (auto simp: hash_opt_def split: hash_field.splits)

lemma hashes_match_iff:
  "hashes_match io e c \<longleftrightarrow> live_recompute io e c = Inr [] \<and> live_state_mismatch io e c = Inr False"
  by (auto simp: hashes_match_def live_recompute_def live_state_mismatch_def verifyRecompute_def event_hashes_def Some_hash_opt
      split: option.splits if_splits)

lemma roots_match_iff: "stateCommitmentDivergence e r = None \<longleftrightarrow> roots_match e r"
  by (auto simp: stateCommitmentDivergence_def roots_match_def is_null_def Let_def)

lemma divergence_reason: "stateCommitmentDivergence e r = Some (ms, reason) \<Longrightarrow> reason \<noteq> []"
  by (auto simp: stateCommitmentDivergence_def Let_def split: if_splits)

lemma verify_applied_cases:
  assumes "verify_applied ae io g e computed s = (out, s')"
  defines "c \<equiv> ap_client s" and "roots \<equiv> fst (carryUnverifiedRoots computed e s)"
    and "s2 \<equiv> set_client (ai_verifying io (ap_client s)) (snd (carryUnverifiedRoots computed e s))"
  obtains (finished) "out = Finished" "s' = finish_block ae io g e s2" "hashes_match io e c" "commitment_verdict e roots s2 = None"
  | (held) "out = Held" "\<not> hashes_match io e c" "s' = s2 \<or>
      s' = set_client (recordSyncStateCounter (ai_counter io) ''unverified_recompute'' (be_block e) (ap_client s2)) s2"
  | (halted) ms reason where "out = DivergenceHalt reason" "reason \<noteq> []"
      "s' = ap_halt (ai_halt io) (be_block e) ms (take 1 (cl_sources (ap_client s2))) reason s2"
      "\<not> (hashes_match io e c \<and> commitment_verdict e roots s2 = None)"
proof -
  obtain s1 where r: "carryUnverifiedRoots computed e s = (roots, s1)" unfolding roots_def by (metis prod.collapse)
  have c1: "ap_client s1 = c" using r by (auto simp: carryUnverifiedRoots_def c_def Let_def)
  have s2: "s2 = set_client (ai_verifying io c) s1" by (simp add: s2_def r c_def)
  note e = assms(1)[unfolded verify_applied_def r Let_def prod.case c1, folded s2]
  show thesis
  proof (cases "live_recompute io e c")
    case (Inl x)
    then show ?thesis using e held by (auto simp: hashes_match_iff)
  next
    case (Inr ms)
    show ?thesis
    proof (cases "ms = []")
      case False
      then show ?thesis using e Inr halted[of "''local-recompute-divergence''" ms] by (auto simp: hashes_match_iff)
    next
      case True
      show ?thesis
      proof (cases "live_state_mismatch io e c")
        case (Inl x)
        then show ?thesis using e Inr True held by (auto simp: hashes_match_iff)
      next
        case m: (Inr bad)
        then show ?thesis
        proof (cases bad)
          case True
          then show ?thesis using e Inr \<open>ms = []\<close> m halted[of "''state-hash-divergence''" "[''state_hash'']"] by (auto simp: hashes_match_iff)
        next
          case False
          show ?thesis
          proof (cases "commitment_verdict e roots s2")
            case None
            then show ?thesis using e Inr \<open>ms = []\<close> m False finished by (auto simp: hashes_match_iff)
          next
            case (Some v)
            then show ?thesis using e Inr \<open>ms = []\<close> m False halted[of "snd v" "fst v"] divergence_reason
              by (cases v) (auto simp: hashes_match_iff commitment_verdict_def split: option.splits if_splits)
          qed
        qed
      qed
    qed
  qed
qed

lemma commitment_iff:
  "commitment_verdict e roots s = None \<longleftrightarrow>
     (\<forall>r. roots = Some r \<and> cl_dbType (ap_client s) = ''indexer'' \<and> ap_verifyCommitment s \<and> \<not> isTruncated (ap_client s) \<longrightarrow>
        roots_match e r)"
  by (auto simp: commitment_verdict_def roots_match_iff split: option.split)

lemma carry_frame [simp]:
  "ap_client (snd (carryUnverifiedRoots r e s)) = ap_client s"
  "ap_verifyCommitment (snd (carryUnverifiedRoots r e s)) = ap_verifyCommitment s"
  by (simp_all add: carryUnverifiedRoots_def Let_def)

lemma counter_frame [simp]:
  "cl_lastApplied (recordSyncStateCounter ok k b c) = cl_lastApplied c" "cl_halted (recordSyncStateCounter ok k b c) = cl_halted c"
  by (cases ok; simp add: recordSyncStateCounter_def setSyncState_def Let_def)+

lemma applyBlock_frame:
  assumes "applyBlock io e c = Inr (r, c')"
  shows "\<exists>rs. c' = c\<lparr>cl_rows := cl_rows c @ rs\<rparr>"
  using assms by (auto simp: applyBlock_def split: if_splits option.splits intro: exI[of _ "[]"])

text \<open>Nothing else runs meanwhile and the tail is verified.\<close>

definition undisturbed :: "apply_io \<Rightarrow> applying \<Rightarrow> bool" where
  "undisturbed io s \<longleftrightarrow> ai_waiting io = id \<and> ai_verifying io = id \<and>
     (\<not> tracksVerifiedTip (ap_client s) \<or> verifiedThroughLastApplied (ap_client s))"

lemma undisturbed_apply:
  assumes "undisturbed io s" "cl_halted (ap_client s) = None" "\<not> fst (checkTrainActivation (ai_halt io) m act (be_block e) s)"
  shows "applyAndVerifyBlock ae io m act e s =
    (case applyBlock io e (ap_client s) of
       Inl _ \<Rightarrow> (Held, s)
     | Inr (computed, c) \<Rightarrow> verify_applied ae io (cl_generation (ap_client s)) e computed (set_client c s))"
proof -
  have t: "checkTrainActivation (ai_halt io) m act (be_block e) s = (False, s)"
    using assms(3) train_passes by (metis prod.collapse)
  have "liveBlockBlockedByUnverifiedTail io s = (False, s)"
    using assms(1) by (auto simp: liveBlockBlockedByUnverifiedTail_def undisturbed_def Let_def)
  then show ?thesis
    using assms(1,2) t by (simp add: applyAndVerifyBlock_def undisturbed_def Let_def)
qed

text \<open>(C15) A live block that nothing disturbs is finished exactly when the client is not halted, the platform-train gate is open,
  the transaction commits, the rows recompute to the hashes and the state hash the block carries, and the roots computed in its
  transaction, or kept from an earlier delivery of the same height, are the ones it carries; then it is the new tip.  Otherwise
  the tip stays, a divergence is a halt at this height, and a block held for an error keeps its roots for the next delivery.\<close>
theorem live_tip_verified:
  assumes "applyAndVerifyBlock ae io m act e s = (out, s')" "undisturbed io s"
  shows "(out = Finished \<longleftrightarrow>
      cl_halted (ap_client s) = None \<and> \<not> fst (checkTrainActivation (ai_halt io) m act (be_block e) s) \<and>
      (\<exists>computed c. applyBlock io e (ap_client s) = Inr (computed, c) \<and> hashes_match io e c \<and>
        (\<forall>r. fst (carryUnverifiedRoots computed e s) = Some r \<and> cl_dbType (ap_client s) = ''indexer'' \<and> ap_verifyCommitment s \<and>
           \<not> isTruncated (ap_client s) \<longrightarrow> roots_match e r))) \<and>
    cl_lastApplied (ap_client s') = (if out = Finished then Some (be_block e) else cl_lastApplied (ap_client s)) \<and>
    (\<forall>reason. out = DivergenceHalt reason \<longrightarrow>
      (\<exists>h. cl_halted (ap_client s') = Some h \<and> h_block h = Some (be_block e) \<and> h_reason h = reason)) \<and>
    (\<forall>computed c r. out = Held \<and> applyBlock io e (ap_client s) = Inr (computed, c) \<and> fst (carryUnverifiedRoots computed e s) = Some r \<longrightarrow>
      ap_unverified s' = Some (be_block e, r))"
proof (cases "cl_halted (ap_client s) = None \<and> \<not> fst (checkTrainActivation (ai_halt io) m act (be_block e) s)")
  case False
  then have "out \<in> {Refused, TrainHalt} \<and> cl_lastApplied (ap_client s') = cl_lastApplied (ap_client s)"
    using assms(1) by (auto simp: applyAndVerifyBlock_def checkTrainActivation_def Let_def split: if_splits)
  then show ?thesis using False by auto
next
  case ready: True
  note eq = assms(1)[unfolded undisturbed_apply[OF assms(2) ready[THEN conjunct1] ready[THEN conjunct2]]]
  show ?thesis
  proof (cases "applyBlock io e (ap_client s)")
    case (Inl x)
    then show ?thesis using eq by auto
  next
    case (Inr p)
    obtain computed c where p: "p = (computed, c)" by fastforce
    obtain rs where c: "c = (ap_client s)\<lparr>cl_rows := cl_rows (ap_client s) @ rs\<rparr>" using applyBlock_frame Inr p by blast
    have q: "ai_verifying io = id" using assms(2) by (simp add: undisturbed_def)
    have carry: "fst (carryUnverifiedRoots computed e (set_client c s)) = fst (carryUnverifiedRoots computed e s)"
      by (simp add: carryUnverifiedRoots_def Let_def split: option.split)
    have kept: "fst (carryUnverifiedRoots computed e (set_client c s)) = Some r \<Longrightarrow>
        ap_unverified (snd (carryUnverifiedRoots computed e (set_client c s))) = Some (be_block e, r)" for r
      by (simp add: carryUnverifiedRoots_def Let_def)
    have v: "verify_applied ae io (cl_generation (ap_client s)) e computed (set_client c s) = (out, s')"
      using eq Inr p by simp
    have i: "isTruncated c = isTruncated (ap_client s)" by (simp add: c isTruncated_def)
    from v show ?thesis
      by (cases rule: verify_applied_cases)
        (use ready Inr p q carry kept i in \<open>auto simp: c commitment_iff finish_tip halt_installed\<close>)
  qed
qed

section \<open>The marker\<close>

lemma marker_inv_marks:
  assumes "marker_inv E c" "\<And>x. f (verifiedTipKey x) = cl_sync_state c (verifiedTipKey x)"
  shows "marker_inv E (c\<lparr>cl_sync_state := f\<rparr>)"
proof -
  let ?c = "c\<lparr>cl_sync_state := f\<rparr>"
  have sv: "same_view c ?c" by (simp add: same_view_def)
  from assms(1) obtain v where v: "marker_at c v" by (rule marker_inv_cases)
  have "marker_at ?c v" using v marker_at_cong [of ?c c v] assms(2) by (simp add: verifiedTipKey_def)
  then show ?thesis using marker_inv_view [OF assms(1) sv v] by blast
qed

lemma counter_inv:
  assumes "marker_inv E c"
  shows "marker_inv E (recordSyncStateCounter ok ''unverified_recompute'' b c)"
proof (cases ok)
  case True
  then obtain n where "recordSyncStateCounter ok ''unverified_recompute'' b c =
      c\<lparr>cl_sync_state := (cl_sync_state c)(''unverified_recompute_count:'' @ cl_dbType c \<mapsto> SText n,
        ''unverified_recompute_last_block:'' @ cl_dbType c \<mapsto> SText (int_str b))\<rparr>"
    by (simp add: recordSyncStateCounter_def setSyncState_def Let_def)
  then show ?thesis using marker_inv_marks[OF assms] by (simp add: verifiedTipKey_def)
qed (use assms in \<open>simp add: recordSyncStateCounter_def setSyncState_def Let_def\<close>)

lemma finish_inv:
  assumes "marker_inv E (raised io g e (ap_client s))"
  shows "marker_inv E (ap_client (finish_block ae io g e s))"
  by (rule finish_client[of ae io g e s]) (simp_all add: assms marker_inv_marks halt_inv)

lemma tip_up_inv:
  assumes "marker_inv E c" "\<forall>t. cl_lastApplied c = Some t \<longrightarrow> t \<le> n"
  shows "marker_inv E (c\<lparr>cl_lastApplied := Some n\<rparr>)"
proof -
  let ?c = "c\<lparr>cl_lastApplied := Some n\<rparr>"
  from assms(1) obtain v where v: "marker_at c v" "\<forall>n. top_le c n \<longrightarrow> v \<le> n" "clean_upto E c v" "rows_inv c"
    by (rule marker_inv_cases)
  have "rows_inv ?c" "clean_upto E ?c v"
    using v by (simp_all add: rows_inv_def tracksVerifiedTip_def clean_upto_def clean_row_def verifyRecompute_def)
  moreover have "marker_at ?c v" using v(1) marker_at_cong [of ?c c v] by (simp add: verifiedTipKey_def)
  moreover have "\<forall>k. top_le ?c k \<longrightarrow> v \<le> k" using v(2) assms(2) by (force simp: top_le_def)
  ultimately show ?thesis unfolding marker_inv_def by blast
qed

lemma raised_inv:
  assumes inv: "marker_inv E c" and low: "\<forall>t. cl_lastApplied c = Some t \<longrightarrow> t \<le> be_block e" and read: "cl_verified c \<noteq> Unread"
    and clean: "\<not> rowsChangedSince g c \<Longrightarrow> clean_upto E c (be_block e)"
  shows "marker_inv E (raised io g e c)"
proof -
  let ?c = "c\<lparr>cl_lastApplied := Some (be_block e)\<rparr>" and ?b = "be_block e"
  have up: "marker_inv E ?c" using tip_up_inv[OF inv low] .
  have changed: "rowsChangedSince g ?c = rowsChangedSince g c" by (simp add: rowsChangedSince_def)
  show ?thesis
  proof (cases "rowsChangedSince g c \<or> (case cl_verified c of At v \<Rightarrow> ?b \<le> v | _ \<Rightarrow> False)")
    case True
    then have "raised io g e c = ?c" by (auto simp: raised_def advanceVerifiedTip_def changed Let_def split: marker.splits)
    then show ?thesis using up by simp
  next
    case False
    from up obtain v where v: "marker_at ?c v" "\<forall>n. top_le ?c n \<longrightarrow> v \<le> n" "clean_upto E ?c v" "rows_inv ?c" by (rule marker_inv_cases)
    have cl: "clean_upto E ?c ?b"
      using clean False by (simp add: clean_upto_def clean_row_def verifyRecompute_def)
    have "v \<le> ?b" using v(1) False read by (cases "cl_verified c") (auto simp: marker_at_def eff_marker_def)
    moreover have "raised io g e c = writeVerifiedTip (ai_marker io) ?b (?c\<lparr>cl_verified := At ?b\<rparr>) \<or> raised io g e c = ?c"
      using False by (auto simp: raised_def advanceVerifiedTip_def changed Let_def)
    ultimately show ?thesis using raise_inv(2)[OF v(4) cl _ v(1)] up by (auto simp: top_le_def)
  qed
qed

lemma applied_clean:
  assumes inv: "marker_inv E c" and tip: "cl_verified c = At (h - 1)" "cl_lastApplied c = Some (h - 1)"
    and c1: "c1 = c\<lparr>cl_rows := cl_rows c @ rs\<rparr>" "marker_inv E c1" "\<forall>r \<in> set rs. fst r = h"
    and row: "map_of (cl_rows c1) h = Some blk" "clean_row E c1 h blk"
    and later: "tasks E c1 c2" "\<not> rowsChangedSince (cl_generation c) c2"
  shows "clean_upto E c2 h"
proof -
  have "cl_generation c2 = cl_generation c1" using later(2) c1(1) by (simp add: rowsChangedSince_def)
  then have "grows c1 c2" using tasks_later[OF later(1)] by (simp add: later_def)
  then obtain rs' n where g: "cl_rows c2 = cl_rows c1 @ rs'" "top_le c1 n" "\<forall>r \<in> set rs'. n < fst r"
    "cl_dbType c2 = cl_dbType c1" "cl_bootstrapBase c2 = cl_bootstrapBase c1" by (auto simp: grows_def)
  have "(h, blk) \<in> set (cl_rows c1)" using row(1) by (rule map_of_SomeD)
  then have "h \<le> n" using g(2) by (force simp: top_le_def)
  from inv obtain v where v: "marker_at c v" "clean_upto E c v" by (rule marker_inv_cases)
  then have v: "clean_upto E c (h - 1)" using tip(1) by (simp add: marker_at_def eff_marker_def)
  have d: "distinct (map fst (cl_rows c1))" using c1(2) by (simp add: marker_inv_def rows_inv_def)
  have "clean_row E c2 k b" if kb: "(k, b) \<in> set (cl_rows c2)" "\<not> cb_trusted b" "k \<le> h" for k b
  proof -
    have in1: "(k, b) \<in> set (cl_rows c1)" using kb(1,3) g(1,3) \<open>h \<le> n\<close> by force
    have "clean_row E c1 k b"
    proof (cases "k = h")
      case True
      then show ?thesis using in1 d row map_of_is_SomeI by force
    next
      case False
      then have "(k, b) \<in> set (cl_rows c)" using in1 c1(1,3) by auto
      then show ?thesis using v kb(2,3) False c1(1) by (simp add: clean_upto_def clean_row_def verifyRecompute_def)
    qed
    then show ?thesis using g(4,5) by (simp add: clean_row_def verifyRecompute_def)
  qed
  then show ?thesis unfolding clean_upto_def by blast
qed

text \<open>A row of the block's height is there after the commit, whatever hashes it holds.\<close>

definition row_stored :: "apply_io \<Rightarrow> block_event \<Rightarrow> client \<Rightarrow> bool" where
  "row_stored io e c \<longleftrightarrow> (\<forall>r c1. applyBlock io e c = Inr (r, c1) \<longrightarrow> map_of (cl_rows c1) (be_block e) \<noteq> None)"

text \<open>The block comes next: the client stands one below it with a marker to match, and its rows are new or already there.\<close>

definition next_block :: "block_event \<Rightarrow> client \<Rightarrow> bool" where
  "next_block e c \<longleftrightarrow> cl_verified c = At (be_block e - 1) \<and> cl_lastApplied c = Some (be_block e - 1) \<and>
     (map_of (cl_rows c) (be_block e) \<noteq> None \<or> top_le c (be_block e - 1)) \<and>
     (\<forall>x. cl_bootstrapBase c = Some x \<longrightarrow> x \<le> be_block e)"

lemma applyBlock_inv:
  assumes inv: "marker_inv E c" and nx: "next_block e c" and ap: "applyBlock io e c = Inr (r, c1)"
  obtains rs where "c1 = c\<lparr>cl_rows := cl_rows c @ rs\<rparr>" "marker_inv E c1" "\<forall>r \<in> set rs. fst r = be_block e"
proof (cases "c1 = c")
  case True
  then show ?thesis using that[of "[]"] inv by simp
next
  case False
  then obtain b where b: "c1 = append_rows [(be_block e, b)] c" and fresh: "map_of (cl_rows c) (be_block e) = None"
    using ap by (auto simp: applyBlock_def append_rows_def split: if_splits option.splits)
  have "top_le c (be_block e - 1)" "above_floor c [(be_block e, b)]" using nx fresh by (auto simp: next_block_def above_floor_def)
  then have "marker_inv E c1" unfolding b by (intro commit_inv[OF inv]) auto
  then show ?thesis using that[of "[(be_block e, b)]"] b by (simp add: append_rows_def)
qed

lemma verify_applied_inv:
  assumes inv: "marker_inv E c" and nx: "next_block e c" and hs: "row_stored io e c" "event_hashes e \<in> E (be_block e)"
    and ap: "applyBlock io e c = Inr (computed, c1)"
    and env: "\<forall>c. tasks E c (ai_verifying io c) \<and> (\<forall>t. cl_lastApplied c = Some (be_block e - 1) \<and> cl_lastApplied (ai_verifying io c) = Some t \<longrightarrow> t \<le> be_block e)"
    and v: "verify_applied ae io (cl_generation c) e computed (set_client c1 s) = (out, s')"
  shows "marker_inv E (ap_client s')"
proof -
  obtain rs where c1: "c1 = c\<lparr>cl_rows := cl_rows c @ rs\<rparr>" "marker_inv E c1" "\<forall>r \<in> set rs. fst r = be_block e"
    using applyBlock_inv[OF inv nx ap] by blast
  let ?c2 = "ai_verifying io c1"
  have "cl_lastApplied c1 = Some (be_block e - 1)" using c1(1) nx by (simp add: next_block_def)
  then have c2: "marker_inv E ?c2" "tasks E c1 ?c2" "\<forall>t. cl_lastApplied ?c2 = Some t \<longrightarrow> t \<le> be_block e"
    using tasks_inv c1(2) env by blast+
  from v show ?thesis
  proof (cases rule: verify_applied_cases)
    case finished
    obtain blk where blk: "map_of (cl_rows c1) (be_block e) = Some blk"
      using hs(1) ap by (auto simp: row_stored_def)
    have "tracksVerifiedTip c1" using c1(2) by (simp add: marker_inv_def rows_inv_def)
    then have "verifyRecompute c1 (be_block e) (event_hashes e) (cb_computed blk) = Inr []"
      using finished(3) blk by (simp add: hashes_match_iff live_recompute_def rehash_block_def tracksVerifiedTip_def)
    then have cl: "clean_row E c1 (be_block e) blk" using hs(2) unfolding clean_row_def by blast
    have tip: "cl_verified c = At (be_block e - 1)" "cl_lastApplied c = Some (be_block e - 1)"
      using nx by (simp_all add: next_block_def)
    then have "cl_verified ?c2 \<noteq> Unread" using tasks_read[OF c2(2)] c1(1) by simp
    then have "marker_inv E (raised io (cl_generation c) e ?c2)"
      using raised_inv[OF c2(1,3)] applied_clean[OF inv tip c1 blk cl c2(2)] by blast
    then show ?thesis using finished(2) by (simp add: finish_inv)
  qed (use c2(1) counter_inv halt_inv in auto)
qed

text \<open>Verifying a live block keeps the marker sound, whatever other tasks do to the client while the verification awaits: when
  the commit leaves a row at its height, every block the marker vouches for still recomputes to the hashes stored with
  it or carried by a live event, on every outcome, and the anchor cycle at the end does not change that.\<close>
lemma live_block_keeps_marker:
  assumes "applyAndVerifyBlock ae io m act e s = (out, s')"
    and "marker_inv E (ap_client s)" "next_block e (ap_client s)" "row_stored io e (ap_client s)" "event_hashes e \<in> E (be_block e)"
    and "ai_waiting io = id" "\<forall>c. tasks E c (ai_verifying io c) \<and> (\<forall>t. cl_lastApplied c = Some (be_block e - 1) \<and> cl_lastApplied (ai_verifying io c) = Some t \<longrightarrow> t \<le> be_block e)"
  shows "marker_inv E (ap_client s')"
proof -
  let ?c = "ap_client s" and ?train = "checkTrainActivation (ai_halt io) m act (be_block e) s"
  show ?thesis
  proof (cases "cl_halted ?c \<noteq> None \<or> fst ?train")
    case True
    then have "ap_client s' = ?c \<or> ap_client s' = haltOnDivergence (ai_halt io) (be_block e) [''rule_set''] [] ''train-activation'' ?c"
      using assms(1) by (auto simp: applyAndVerifyBlock_def checkTrainActivation_def Let_def split: if_splits)
    then show ?thesis using assms(2) halt_inv by auto
  next
    case False
    then have t: "?train = (False, s)" using train_passes by (metis prod.collapse)
    have "liveBlockBlockedByUnverifiedTail io s = (False, s)"
      using assms(3) by (simp add: liveBlockBlockedByUnverifiedTail_def next_block_def verifiedThroughLastApplied_def Let_def)
    then have eq: "(case applyBlock io e ?c of Inl _ \<Rightarrow> (Held, s)
        | Inr (computed, c) \<Rightarrow> verify_applied ae io (cl_generation ?c) e computed (set_client c s)) = (out, s')"
      using assms(1,6) False t by (simp add: applyAndVerifyBlock_def Let_def)
    show ?thesis
    proof (cases "applyBlock io e ?c")
      case (Inl x)
      then show ?thesis using eq assms(2) by simp
    next
      case (Inr p)
      obtain computed c1 where p: "p = (computed, c1)" by fastforce
      have "verify_applied ae io (cl_generation ?c) e computed (set_client c1 s) = (out, s')" using eq Inr p by simp
      then show ?thesis by (rule verify_applied_inv[OF assms(2-5) Inr[unfolded p] assms(7)])
    qed
  qed
qed

section \<open>What the checks leave open\<close>

text \<open>A rollback that runs while a block awaits its verification is overwritten by the tip of that block: the tip names a block
  whose rows are gone.\<close>

lemma rollback_under_verification:
  assumes "verify_applied ae io g e computed s = (Finished, s')"
    and "ai_verifying io (ap_client s) = c2" "applyReorgRollback rio ev (ap_client s) = (None, c2)" "re_block ev \<le> be_block e"
  shows "cl_lastApplied (ap_client s') = Some (be_block e) \<and> be_block e \<notin> fst ` set (cl_rows (ap_client s'))"
proof -
  have rows: "be_block e \<notin> fst ` set (cl_rows c2)"
    using assms(3,4) by (auto simp: applyReorgRollback_def Let_def endRowRemoval_def bumpRowGeneration_def
        split: prod.splits option.splits sum.splits if_splits)
  have raised: "cl_rows (raised io g e c) = cl_rows c" for c
    by (auto simp: raised_def advanceVerifiedTip_def writeVerifiedTip_def setSyncState_def Let_def split: marker.split)
  from assms(1) show ?thesis
  proof (cases rule: verify_applied_cases)
    case finished
    define s2 where "s2 = set_client (ai_verifying io (ap_client s)) (snd (carryUnverifiedRoots computed e s))"
    have "ap_client s2 = c2" using assms(2) by (simp add: s2_def)
    then have "cl_rows (ap_client (finish_block ae io g e s2)) = cl_rows c2"
      by (rule_tac finish_client[of ae io g e s2]) (use halt_frame(1) same_view_def in \<open>simp_all add: raised\<close>)
    then show ?thesis using finished(2) rows finish_tip by (simp add: s2_def)
  qed simp_all
qed

text \<open>A payload without data is finished when the hasher answers the carried hashes on no rows: the tip then has no row.\<close>

lemma empty_payload_is_finished:
  assumes "undisturbed io s" "cl_halted (ap_client s) = None" "\<not> fst (checkTrainActivation (ai_halt io) m act (be_block e) s)"
    and "\<not> ai_data io" "map_of (cl_rows (ap_client s)) (be_block e) = None" "ap_unverified s = None"
    and "ai_absent io = (Some (l, a, k), Some x)" "be_ledger e = Text l" "be_actions e = Text a" "be_contract e = Text k" "be_state e = Text x"
  shows "fst (applyAndVerifyBlock ae io m act e s) = Finished"
proof -
  have "applyBlock io e (ap_client s) = Inr (None, ap_client s)" using assms(4) by (simp add: applyBlock_def)
  then have eq: "applyAndVerifyBlock ae io m act e s = verify_applied ae io (cl_generation (ap_client s)) e None s"
    using undisturbed_apply[OF assms(1-3)] by simp
  have hm: "hashes_match io e (ap_client s)"
    using assms by (simp add: hashes_match_def rehash_block_def rehash_state_def)
  have no: "fst (carryUnverifiedRoots None e s) = None" using assms(6) by (simp add: carryUnverifiedRoots_def Let_def)
  obtain out s' where v: "verify_applied ae io (cl_generation (ap_client s)) e None s = (out, s')" by fastforce
  then have "out = Finished" by (cases rule: verify_applied_cases) (use hm no in \<open>simp_all add: commitment_iff\<close>)
  then show ?thesis using eq v by simp
qed

section \<open>A block applied to a replica\<close>

definition demo_applying :: applying where
  "demo_applying = \<lparr>ap_anchor = demo_anchor\<lparr>an_live := (an_live demo_anchor)\<lparr>lv_client := demo_replica\<rparr>\<rparr>, ap_unverified = None,
     ap_lastVerify = 0, ap_interval = 100, ap_quorumOn = False, ap_verifyCommitment = True, ap_train = None\<rparr>"

definition demo_apply_io :: apply_io where
  "demo_apply_io = \<lparr>ai_halt = all_io, ai_walk = quiet_env, ai_walkTip = True, ai_walkLoad = True, ai_walkLegacy = True, ai_data = True,
     ai_version = True, ai_existsOk = True,
     ai_tx = Some (Some (demo_block ''z'' ''z'' False), Some \<lparr>cr_balances = ''b'', cr_block_merkle = ''m'', cr_state = ''r''\<rparr>),
     ai_absent = (None, None), ai_waiting = id, ai_verifying = id, ai_counter = True, ai_marker = True\<rparr>"

definition demo_anchor_env :: "rat anchor_env" where
  "demo_anchor_env = \<lparr>ae_io = demo_aio, ae_ed = (\<lambda>_ _ _. True), ae_bignum = rat_bignum, ae_range = (\<lambda>_ _ _. None),
     ae_source = True, ae_served = None\<rparr>"

definition demo_next :: block_event where
  "demo_next = \<lparr>be_block = 11, be_ledger = Text ''z'', be_actions = Text ''z'', be_contract = Text ''z'', be_state = Undef,
     be_block_hash = Undef, be_balances_root = Text ''b'', be_block_merkle_root = Text ''m'', be_state_root = Undef,
     be_prev_id = None, be_index_txs = []\<rparr>"

lemma demo_applying_client [simp]: "ap_client demo_applying = demo_replica"
  by (simp add: demo_applying_def ap_client_def anchor_client_def)

lemma demo_train: "\<not> fst (checkTrainActivation (ai_halt demo_apply_io) sample_manifest sample_train (be_block demo_next) demo_applying)"
proof -
  have "(case evaluateTrainActivation (Some ''regtest'') (JInt 11) (Read None) sample_manifest sample_train of
      Inl _ \<Rightarrow> Halt | Inr v \<Rightarrow> tv_status v) = Clear" by code_simp
  then show ?thesis
    by (simp add: checkTrainActivation_def demo_applying_def demo_anchor_def an_coin_def demo_replica_def demo_client_def demo_next_def Let_def)
qed

lemma demo_commit:
  "applyBlock demo_apply_io demo_next demo_replica =
     Inr (Some \<lparr>cr_balances = ''b'', cr_block_merkle = ''m'', cr_state = ''r''\<rparr>, append_rows [(11, demo_block ''z'' ''z'' False)] demo_replica)"
  by (simp add: applyBlock_def demo_apply_io_def demo_next_def demo_replica_def demo_client_def append_rows_def)

lemma live_tip_verified_witness:
  "\<exists>s'. applyAndVerifyBlock demo_anchor_env demo_apply_io sample_manifest sample_train demo_next demo_applying = (Finished, s') \<and>
     cl_lastApplied (ap_client s') = Some 11"
proof -
  obtain out s' where r: "applyAndVerifyBlock demo_anchor_env demo_apply_io sample_manifest sample_train demo_next demo_applying = (out, s')"
    by fastforce
  have u: "undisturbed demo_apply_io demo_applying"
    by (simp add: undisturbed_def demo_apply_io_def) (simp add: demo_replica_def demo_client_def verifiedThroughLastApplied_def)
  have h: "hashes_match demo_apply_io demo_next (append_rows [(11, demo_block ''z'' ''z'' False)] demo_replica)"
    by (simp add: hashes_match_def rehash_block_def append_rows_def demo_next_def demo_replica_def demo_client_def demo_block_def is_null_def)
  have "fst (carryUnverifiedRoots (Some r) demo_next demo_applying) = Some r" for r
    by (simp add: carryUnverifiedRoots_def Let_def)
  moreover have "roots_match demo_next \<lparr>cr_balances = ''b'', cr_block_merkle = ''m'', cr_state = ''r''\<rparr>"
    by (simp add: roots_match_def demo_next_def is_null_def)
  moreover have "cl_halted demo_replica = None" by (simp add: demo_replica_def demo_client_def)
  ultimately have "out = Finished"
    using live_tip_verified[OF r u] demo_train demo_commit h by auto
  then show ?thesis using live_tip_verified[OF r u] r by (simp add: demo_next_def)
qed

end
