(* ===== verification/Json_Text.thy ===== *)
theory Json_Text
  imports Sync_Prelude
begin

text \<open>
  \<^verbatim>\<open>JSON.stringify\<close> on the values the hash preimages are built from (\<^verbatim>\<open>jsonStringify\<close> and \<^verbatim>\<open>getDataHash\<close> of
  \<^verbatim>\<open>src/src/util/index.js\<close>): integers, text, arrays and objects.  A text is its UTF-8 bytes; \<^verbatim>\<open>JSON.stringify\<close> escapes the
  quotation mark, the backslash and the bytes below 32 only.
\<close>

section \<open>Values\<close>

datatype json = JsNull | JsInt int | JsText string | JsList "json list" | JsObj "(string \<times> json) list"

definition esc_char :: "char \<Rightarrow> string" where
  "esc_char c =
     (if c = CHR 0x22 \<or> c = CHR 0x5C then [CHR 0x5C, c]
      else if c = CHR 0x08 then [CHR 0x5C, CHR ''b'']
      else if c = CHR 0x09 then [CHR 0x5C, CHR ''t'']
      else if c = CHR 0x0A then [CHR 0x5C, CHR ''n'']
      else if c = CHR 0x0C then [CHR 0x5C, CHR ''f'']
      else if c = CHR 0x0D then [CHR 0x5C, CHR ''r'']
      else if (of_char c :: nat) < 32 then [CHR 0x5C, CHR ''u'', CHR ''0'', CHR ''0''] @ hex_octet c
      else [c])"

definition quote_text :: "string \<Rightarrow> string" where
  "quote_text s = CHR 0x22 # concat (map esc_char s) @ [CHR 0x22]"

fun commas :: "string list \<Rightarrow> string" where
  "commas [] = []"
| "commas [x] = x"
| "commas (x # xs) = x @ CHR '','' # commas xs"

fun stringify :: "json \<Rightarrow> string" where
  "stringify JsNull = ''null''"
| "stringify (JsInt n) = int_str n"
| "stringify (JsText s) = quote_text s"
| "stringify (JsList xs) = CHR ''['' # commas (map stringify xs) @ '']''"
| "stringify (JsObj fs) = CHR ''{'' # commas (map (\<lambda>(k, v). quote_text k @ CHR '':'' # stringify v) fs) @ ''}''"

section \<open>The text determines the value\<close>

text \<open>What may follow a value inside a text.\<close>

definition ends :: "string \<Rightarrow> bool" where
  "ends r \<longleftrightarrow> r = [] \<or> \<not> is_digit (hd r)"

lemma esc_char_first: "esc_char c = x # xs \<Longrightarrow> x \<noteq> CHR 0x22"
  by (auto simp: esc_char_def split: if_splits)

lemma esc_char_ne [simp]: "esc_char c \<noteq> []"
  by (simp add: esc_char_def)

text \<open>The three shapes of an escaped character.\<close>

definition named_escape :: "char \<Rightarrow> char" where
  "named_escape x = (if x = CHR ''b'' then CHR 0x08 else if x = CHR ''t'' then CHR 0x09 else if x = CHR ''n'' then CHR 0x0A
     else if x = CHR ''f'' then CHR 0x0C else if x = CHR ''r'' then CHR 0x0D else x)"

lemma esc_char_cases:
  obtains (plain) "esc_char c = [c]" "c \<noteq> CHR 0x5C" "c \<noteq> CHR 0x22"
  | (named) x where "esc_char c = [CHR 0x5C, x]" "x \<noteq> CHR ''u''" "c = named_escape x"
  | (code) "esc_char c = [CHR 0x5C, CHR ''u'', CHR ''0'', CHR ''0''] @ hex_octet c"
proof -
  consider "c = CHR 0x22 \<or> c = CHR 0x5C" | "c = CHR 0x08" | "c = CHR 0x09" | "c = CHR 0x0A" | "c = CHR 0x0C" | "c = CHR 0x0D"
    | "c \<notin> {CHR 0x22, CHR 0x5C, CHR 0x08, CHR 0x09, CHR 0x0A, CHR 0x0C, CHR 0x0D}" by blast
  then show thesis
  proof cases
    case 7
    then have "esc_char c = (if (of_char c :: nat) < 32 then [CHR 0x5C, CHR ''u'', CHR ''0'', CHR ''0''] @ hex_octet c else [c])"
      by (simp only: esc_char_def insert_iff empty_iff simp_thms if_False de_Morgan_disj)
    then show thesis using plain code 7 by (metis insertI1 insert_iff)
  next
    case 1
    then show thesis by (intro named[of c]) (auto simp: esc_char_def named_escape_def)
  next
    case 2
    then show thesis by (intro named[of "CHR ''b''"]) (auto simp: esc_char_def named_escape_def)
  next
    case 3
    then show thesis by (intro named[of "CHR ''t''"]) (auto simp: esc_char_def named_escape_def)
  next
    case 4
    then show thesis by (intro named[of "CHR ''n''"]) (auto simp: esc_char_def named_escape_def)
  next
    case 5
    then show thesis by (intro named[of "CHR ''f''"]) (auto simp: esc_char_def named_escape_def)
  next
    case 6
    then show thesis by (intro named[of "CHR ''r''"]) (auto simp: esc_char_def named_escape_def)
  qed
qed

lemma hex_octet_inject: "hex_octet c = hex_octet d \<longleftrightarrow> c = d"
  using hexenc_inject[of "[c]" "[d]"] by (simp add: hexenc_def)

lemma esc_char_code:
  assumes "esc_char c @ r = esc_char d @ r'"
  shows "c = d \<and> r = r'"
  by (rule esc_char_cases[of c]; rule esc_char_cases[of d]; use assms hex_octet_inject[of c d] in \<open>auto simp: hex_octet_def\<close>)

lemma quoted_code:
  assumes "concat (map esc_char s) @ CHR 0x22 # r = concat (map esc_char t) @ CHR 0x22 # r'"
  shows "s = t \<and> r = r'"
  using assms
proof (induction s arbitrary: t)
  case Nil
  then show ?case using esc_char_first[of "hd t"] by (cases t; cases "esc_char (hd t)") auto
next
  case (Cons c s)
  show ?case
  proof (cases t)
    case Nil
    then show ?thesis using Cons.prems esc_char_first[of c] by (cases "esc_char c") auto
  next
    case (Cons d t')
    then have "esc_char c @ concat (map esc_char s) @ CHR 0x22 # r = esc_char d @ concat (map esc_char t') @ CHR 0x22 # r'"
      using Cons.prems by simp
    from esc_char_code[OF this] show ?thesis using Cons.IH Cons by auto
  qed
qed

lemma quote_text_code: "quote_text s @ r = quote_text t @ r' \<Longrightarrow> s = t \<and> r = r'"
  using quoted_code[of s r t r'] by (simp add: quote_text_def)

lemma nat_code:
  assumes "nat_str m @ r = nat_str n @ r'" "ends r" "ends r'"
  shows "m = n \<and> r = r'"
proof -
  have t: "takeWhile is_digit (nat_str k @ x) = nat_str k" if "ends x" for k x
    using that nat_str_digits[of k] by (cases x) (auto simp: ends_def takeWhile_append)
  have "nat_str m = nat_str n" using arg_cong[OF assms(1), of "takeWhile is_digit"] t assms(2,3) by simp
  then show ?thesis using assms(1) by simp
qed

lemma nat_str_hd: "is_digit (hd (nat_str n))"
  using nat_str_digits[of n] by (metis hd_in_set nat_str_nonempty)

lemma int_code:
  assumes "int_str m @ r = int_str n @ r'" "ends r" "ends r'"
  shows "m = n \<and> r = r'"
proof -
  have "\<not> is_digit CHR ''-''" by (simp add: is_digit_def)
  then have neg: "nat_str k @ x \<noteq> CHR ''-'' # y" for k x y using nat_str_hd[of k] by (cases "nat_str k") auto
  show ?thesis
  proof (cases "m < 0")
    case True
    then have "n < 0" using assms(1) neg by (cases "n < 0") (auto simp: int_str_def dest: sym)
    then show ?thesis using True assms nat_code[of "nat (- m)" r "nat (- n)" r'] by (auto simp: int_str_def nat_eq_iff)
  next
    case False
    then have "\<not> n < 0" using assms(1) neg by (cases "n < 0") (auto simp: int_str_def)
    then show ?thesis using False assms nat_code[of "nat m" r "nat n" r'] by (auto simp: int_str_def nat_eq_iff)
  qed
qed

text \<open>The first character tells the kind of a value.\<close>

definition json_kind :: "json \<Rightarrow> nat" where
  "json_kind v = (case v of JsNull \<Rightarrow> 0 | JsInt _ \<Rightarrow> 1 | JsText _ \<Rightarrow> 2 | JsList _ \<Rightarrow> 3 | JsObj _ \<Rightarrow> 4)"

definition char_kind :: "char \<Rightarrow> nat" where
  "char_kind c = (if c = CHR ''n'' then 0 else if c = CHR 0x22 then 2 else if c = CHR ''['' then 3 else if c = CHR ''{'' then 4
     else if c = CHR ''-'' \<or> is_digit c then 1 else 5)"

lemma stringify_ne [simp]: "stringify v \<noteq> []"
  by (cases v) (simp_all add: int_str_def quote_text_def)

lemma char_kind_digit: "is_digit c \<Longrightarrow> char_kind c = 1"
  by (auto simp: char_kind_def is_digit_def)

lemma char_kind_stringify: "char_kind (hd (stringify v)) = json_kind v"
proof (cases v)
  case (JsInt n)
  then show ?thesis
    using char_kind_digit[OF nat_str_hd[of "nat n"]]
    by (cases "n < 0") (simp add: json_kind_def int_str_def char_kind_def, simp add: json_kind_def int_str_def)
qed (simp_all add: json_kind_def quote_text_def char_kind_def)

lemma same_kind: "stringify v @ r = stringify w @ r' \<Longrightarrow> json_kind v = json_kind w"
  using char_kind_stringify[of v] char_kind_stringify[of w] by (metis hd_append2 stringify_ne)

text \<open>Parts between commas, each with an end it cannot run over.\<close>

lemma commas_code:
  assumes "commas (map p xs) @ c # r = commas (map q ys) @ c # r'" "c \<noteq> CHR '',''" "\<not> is_digit c"
    and "\<And>x y r r'. x \<in> set xs \<Longrightarrow> p x @ r = q y @ r' \<Longrightarrow> ends r \<Longrightarrow> ends r' \<Longrightarrow> f x = g y \<and> r = r'"
    and "\<And>x. x \<in> set xs \<Longrightarrow> p x \<noteq> [] \<and> hd (p x) \<noteq> c" "\<And>y. q y \<noteq> [] \<and> hd (q y) \<noteq> c"
  shows "map f xs = map g ys \<and> r = r'"
  using assms(1,4,5)
proof (induction xs arbitrary: ys)
  case Nil
  have no: "q y \<noteq> c # z" for y z using assms(6)[of y] by auto
  have "ys = []"
  proof (cases ys)
    case (Cons y ys')
    obtain d z where "q y = d # z" using assms(6)[of y] by (cases "q y") auto
    then show ?thesis using Nil(1) Cons no[of y z] by (cases ys') auto
  qed
  then show ?case using Nil(1) by simp
next
  case (Cons x xs)
  obtain y ys' where ys: "ys = y # ys'"
    using Cons.prems(1) Cons.prems(3)[of x] by (cases ys; cases xs; cases "p x") auto
  define R where "R = (if xs = [] then c # r else CHR '','' # commas (map p xs) @ c # r)"
  define R' where "R' = (if ys' = [] then c # r' else CHR '','' # commas (map q ys') @ c # r')"
  have "p x @ R = q y @ R'" using Cons.prems(1) by (cases xs; cases ys') (simp_all add: R_def R'_def ys)
  moreover have "ends R" "ends R'" using assms(3) by (simp_all add: R_def R'_def ends_def is_digit_def)
  ultimately have e: "f x = g y" "R = R'" using Cons.prems(2)[of x] by auto
  show ?case
  proof (cases "xs = []")
    case True
    then show ?thesis using e assms(2) by (auto simp: R_def R'_def ys split: if_splits)
  next
    case False
    then have "commas (map p xs) @ c # r = commas (map q ys') @ c # r'" "ys' \<noteq> []"
      using e(2) assms(2) by (auto simp: R_def R'_def split: if_splits)
    then show ?thesis using Cons.IH[of ys'] Cons.prems(2,3) e(1) ys by auto
  qed
qed

lemma stringify_code:
  "stringify v @ r = stringify w @ r' \<Longrightarrow> ends r \<Longrightarrow> ends r' \<Longrightarrow> v = w \<and> r = r'"
proof (induction v arbitrary: w r r')
  case JsNull
  then show ?case using same_kind[OF JsNull(1)] by (cases w) (simp_all add: json_kind_def)
next
  case (JsInt n)
  then show ?case using same_kind[OF JsInt(1)] int_code[of n r _ r'] by (cases w) (simp_all add: json_kind_def)
next
  case (JsText s)
  then show ?case using same_kind[OF JsText(1)] quote_text_code[of s r _ r'] by (cases w) (simp_all add: json_kind_def)
next
  case (JsList xs)
  obtain ys where w: "w = JsList ys" using same_kind[OF JsList(2)] by (cases w) (simp_all add: json_kind_def)
  have k: "hd (stringify y) \<noteq> CHR '']''" for y
  proof -
    have "json_kind y < 5" by (simp add: json_kind_def split: json.split)
    moreover have "char_kind CHR '']'' = 5" by code_simp
    ultimately show ?thesis using char_kind_stringify[of y] by force
  qed
  have "map (\<lambda>x. x) xs = map (\<lambda>y. y) ys \<and> r = r'"
  proof (rule commas_code[where p = stringify and q = stringify and c = "CHR '']''"])
    show "commas (map stringify xs) @ CHR '']'' # r = commas (map stringify ys) @ CHR '']'' # r'" using JsList(2) w by simp
    show "x = y \<and> s = s'" if "x \<in> set xs" "stringify x @ s = stringify y @ s'" "ends s" "ends s'" for x y s s'
      by (rule JsList(1)[OF that])
  qed (simp_all add: is_digit_def k)
  then show ?case using w by simp
next
  case (JsObj fs)
  obtain gs where w: "w = JsObj gs" using same_kind[OF JsObj(2)] by (cases w) (simp_all add: json_kind_def)
  let ?p = "\<lambda>(k, v). quote_text k @ CHR '':'' # stringify v"
  have field: "x = y \<and> s = s'"
    if "x \<in> set fs" "?p x @ s = ?p y @ s'" "ends s" "ends s'" for x y s s'
  proof -
    obtain k a l b where xy: "x = (k, a)" "y = (l, b)" by (cases x, cases y)
    have "quote_text k @ CHR '':'' # stringify a @ s = quote_text l @ CHR '':'' # stringify b @ s'" using that(2) xy by simp
    from quote_text_code[OF this] have "k = l" "stringify a @ s = stringify b @ s'" by auto
    moreover have "a \<in> Basic_BNFs.snds x" using xy by simp
    ultimately have "a = b \<and> s = s'" using JsObj(1)[OF that(1), of a s b s'] that(3,4) by blast
    then show ?thesis using \<open>k = l\<close> xy by simp
  qed
  have "map (\<lambda>x. x) fs = map (\<lambda>y. y) gs \<and> r = r'"
  proof (rule commas_code[where p = ?p and q = ?p and c = "CHR ''}''"])
    show "commas (map ?p fs) @ CHR ''}'' # r = commas (map ?p gs) @ CHR ''}'' # r'" using JsObj(2) w by simp
    show "x = y \<and> s = s'" if "x \<in> set fs" "?p x @ s = ?p y @ s'" "ends s" "ends s'" for x y s s' by (rule field[OF that])
  qed (simp_all add: is_digit_def quote_text_def split: prod.split)
  then show ?case using w by simp
qed

lemma stringify_inject: "stringify v = stringify w \<longleftrightarrow> v = w"
  using stringify_code[of v "[]" w "[]"] by (auto simp: ends_def)

end
