(* ===== verification/Row_Store.thy ===== *)
theory Row_Store
  imports Sync_Prelude "HOL-Library.List_Lexorder" "HOL-Library.Char_ord"
begin

text \<open>
  The database of a replica as the statements of \<^verbatim>\<open>src/src/client/rollback.js\<close> and \<^verbatim>\<open>src/src/client/applier.js\<close> see it: tables with
  their columns and rows, statements that the server runs or refuses with an error number, the \<^verbatim>\<open>try\<close> blocks around them, and the
  transaction.  A statement on a missing table is refused with 1146 and one on a missing column with 1054; any other error
  number is an answer of the server.
\<close>

section \<open>Column values\<close>

datatype cell = CNull | CNum int | CText string

text \<open>\<^verbatim>\<open>ORDER BY\<close> puts \<^verbatim>\<open>NULL\<close> first; a column holds values of one kind, so the order across kinds is immaterial.\<close>

instantiation cell :: linorder
begin

fun less_eq_cell :: "cell \<Rightarrow> cell \<Rightarrow> bool" where
  "less_eq_cell CNull y = True"
| "less_eq_cell (CNum a) CNull = False"
| "less_eq_cell (CNum a) (CNum b) = (a \<le> b)"
| "less_eq_cell (CNum a) (CText b) = True"
| "less_eq_cell (CText a) (CText b) = (a \<le> b)"
| "less_eq_cell (CText a) y = False"

definition less_cell :: "cell \<Rightarrow> cell \<Rightarrow> bool" where
  "less_cell x y = (x \<le> y \<and> \<not> y \<le> (x :: cell))"

instance
proof
  fix x y z :: cell
  show "(x < y) = (x \<le> y \<and> \<not> y \<le> x)" by (simp add: less_cell_def)
  show "x \<le> x" by (cases x) auto
  show "x \<le> y \<Longrightarrow> y \<le> z \<Longrightarrow> x \<le> z" by (cases x; cases y; cases z) auto
  show "x \<le> y \<Longrightarrow> y \<le> x \<Longrightarrow> x = y" by (cases x; cases y) auto
  show "x \<le> y \<or> y \<le> x" by (cases x; cases y) auto
qed

end

section \<open>Tables\<close>

type_synonym row = "string \<Rightarrow> cell"

record tbl =
  tb_columns :: "string list"
  tb_rows :: "row list"

type_synonym store = "string \<rightharpoonup> tbl"

definition rows_of :: "store \<Rightarrow> string \<Rightarrow> row list" where
  "rows_of st t = (case st t of None \<Rightarrow> [] | Some x \<Rightarrow> tb_rows x)"

definition on_rows :: "string \<Rightarrow> (row list \<Rightarrow> row list) \<Rightarrow> store \<Rightarrow> store" where
  "on_rows t f st = (case st t of None \<Rightarrow> st | Some x \<Rightarrow> st(t \<mapsto> x\<lparr>tb_rows := f (tb_rows x)\<rparr>))"

text \<open>Comparisons are false on \<^verbatim>\<open>NULL\<close>.\<close>

definition cell_ge :: "cell \<Rightarrow> int \<Rightarrow> bool" where
  "cell_ge v n = (case v of CNum k \<Rightarrow> n \<le> k | _ \<Rightarrow> False)"

definition cell_lt :: "cell \<Rightarrow> int \<Rightarrow> bool" where
  "cell_lt v n = (case v of CNum k \<Rightarrow> k < n | _ \<Rightarrow> False)"

definition cell_eq :: "cell \<Rightarrow> cell \<Rightarrow> bool" where
  "cell_eq v w = (v \<noteq> CNull \<and> v = w)"

definition cell_in :: "cell \<Rightarrow> string list \<Rightarrow> bool" where
  "cell_in v ts = (case v of CText s \<Rightarrow> s \<in> set ts | _ \<Rightarrow> False)"

text \<open>The first row that matches, as \<^verbatim>\<open>JOIN\<close> and \<^verbatim>\<open>LIMIT 1\<close> read it.\<close>

definition first_row :: "store \<Rightarrow> string \<Rightarrow> (row \<Rightarrow> bool) \<Rightarrow> row option" where
  "first_row st t P = find P (rows_of st t)"

definition any_row :: "store \<Rightarrow> string \<Rightarrow> (row \<Rightarrow> bool) \<Rightarrow> bool" where
  "any_row st t P = list_ex P (rows_of st t)"

definition delete_rows :: "string \<Rightarrow> (store \<Rightarrow> row \<Rightarrow> bool) \<Rightarrow> store \<Rightarrow> store" where
  "delete_rows t P st = on_rows t (filter (\<lambda>r. \<not> P st r)) st"

definition update_rows :: "string \<Rightarrow> (store \<Rightarrow> row \<Rightarrow> row option) \<Rightarrow> store \<Rightarrow> store" where
  "update_rows t f st = on_rows t (map (\<lambda>r. case f st r of None \<Rightarrow> r | Some r' \<Rightarrow> r')) st"

section \<open>Statements\<close>

text \<open>The answers of the server to the coming statements: \<^term>\<open>Some\<close> refuses one with an error number.  Past the end of the list
  every statement is run.\<close>

record session =
  ss_store :: store
  ss_faults :: "int option list"

type_synonym query = "session \<Rightarrow> int option \<times> session"

definition schema_gap :: "store \<Rightarrow> (string \<times> string list) list \<Rightarrow> int option" where
  "schema_gap st refs =
     (if list_ex (\<lambda>(t, cs). st t = None) refs then Some 1146
      else if list_ex (\<lambda>(t, cs). \<not> set cs \<subseteq> set (tb_columns (the (st t)))) refs then Some 1054 else None)"

definition answer :: "(string \<times> string list) list \<Rightarrow> session \<Rightarrow> int option \<times> session" where
  "answer refs ss =
     (case ss_faults ss of
        Some e # fs \<Rightarrow> (Some e, ss\<lparr>ss_faults := fs\<rparr>)
      | fs \<Rightarrow> (schema_gap (ss_store ss) refs, ss\<lparr>ss_faults := tl fs\<rparr>))"

definition statement :: "(string \<times> string list) list \<Rightarrow> (store \<Rightarrow> store) \<Rightarrow> query" where
  "statement refs eff ss =
     (case answer refs ss of
        (Some e, ss') \<Rightarrow> (Some e, ss')
      | (None, ss') \<Rightarrow> (None, ss'\<lparr>ss_store := eff (ss_store ss')\<rparr>))"

definition reading :: "(string \<times> string list) list \<Rightarrow> (store \<Rightarrow> 'a) \<Rightarrow> ('a \<Rightarrow> query) \<Rightarrow> query" where
  "reading refs f k ss =
     (case answer refs ss of
        (Some e, ss') \<Rightarrow> (Some e, ss')
      | (None, ss') \<Rightarrow> k (f (ss_store ss')) ss')"

fun in_order :: "query list \<Rightarrow> query" where
  "in_order [] ss = (None, ss)"
| "in_order (q # qs) ss = (case q ss of (Some e, ss') \<Rightarrow> (Some e, ss') | (None, ss') \<Rightarrow> in_order qs ss')"

text \<open>\<^verbatim>\<open>try\<close> with a \<^verbatim>\<open>catch\<close> that rethrows all but the tolerated error numbers.  What the block did before the error stays.\<close>

definition tolerating :: "(int \<Rightarrow> bool) \<Rightarrow> query \<Rightarrow> query" where
  "tolerating ok q ss =
     (case q ss of
        (Some e, ss') \<Rightarrow> (if ok e then None else Some e, ss')
      | (None, ss') \<Rightarrow> (None, ss'))"

definition isSchemaGapError :: "int \<Rightarrow> bool" where
  "isSchemaGapError e = (e = 1146 \<or> e = 1054)"

text \<open>\<^verbatim>\<open>beginTransaction\<close>, the body, \<^verbatim>\<open>commitTransaction\<close>: an error undoes the body, and so does a commit that finds no open
  transaction.  A commit that the server answers with an error counts as undone; a connection lost before the answer, after which either
  may hold, is not rendered.\<close>

definition in_transaction :: "query \<Rightarrow> query" where
  "in_transaction q ss =
     (case answer [] ss of
        (Some e, ss') \<Rightarrow> (Some e, ss')
      | (None, ss') \<Rightarrow>
          (case q ss' of
             (Some e, s2) \<Rightarrow> (Some e, s2\<lparr>ss_store := ss_store ss'\<rparr>)
           | (None, s2) \<Rightarrow>
               (case answer [] s2 of
                  (Some e, s3) \<Rightarrow> (Some e, s3\<lparr>ss_store := ss_store ss'\<rparr>)
                | (None, s3) \<Rightarrow> (None, s3))))"

definition at_rest :: "store \<Rightarrow> session" where
  "at_rest st = \<lparr>ss_store = st, ss_faults = []\<rparr>"

text \<open>No error number of a schema gap is answered where the schema has none.\<close>

definition honest_faults :: "session \<Rightarrow> bool" where
  "honest_faults ss = list_all (\<lambda>f. \<not> isSchemaGapError (the f) \<or> f = None) (ss_faults ss)"

section \<open>Faults never change what is committed\<close>

text \<open>A query is \<^emph>\<open>firm\<close> when, whatever the server answers, it ends as undisturbed or with an error that is not a schema gap.\<close>

definition firm :: "query \<Rightarrow> bool" where
  "firm q \<longleftrightarrow> (\<forall>ss. honest_faults ss \<longrightarrow>
     honest_faults (snd (q ss)) \<and>
     (case fst (q ss) of Some e \<Rightarrow> \<not> isSchemaGapError e | None \<Rightarrow> False) \<or>
     honest_faults (snd (q ss)) \<and> q (at_rest (ss_store ss)) = (fst (q ss), at_rest (ss_store (snd (q ss)))))"

lemma firm_cases:
  assumes "firm q" "honest_faults ss" "q ss = (r, ss')"
  shows "honest_faults ss'" "(\<exists>e. r = Some e \<and> \<not> isSchemaGapError e) \<or> q (at_rest (ss_store ss)) = (r, at_rest (ss_store ss'))"
  using assms by (auto simp: firm_def split: option.splits)

lemma firmI:
  assumes "\<And>ss r ss'. honest_faults ss \<Longrightarrow> q ss = (r, ss') \<Longrightarrow>
    honest_faults ss' \<and> ((\<exists>e. r = Some e \<and> \<not> isSchemaGapError e) \<or> q (at_rest (ss_store ss)) = (r, at_rest (ss_store ss')))"
  shows "firm q"
  unfolding firm_def
proof (intro allI impI)
  fix ss
  assume "honest_faults ss"
  from assms[OF this, of "fst (q ss)" "snd (q ss)"]
  show "honest_faults (snd (q ss)) \<and> (case fst (q ss) of Some e \<Rightarrow> \<not> isSchemaGapError e | None \<Rightarrow> False) \<or>
     honest_faults (snd (q ss)) \<and> q (at_rest (ss_store ss)) = (fst (q ss), at_rest (ss_store (snd (q ss))))"
    by auto
qed

lemma answer_honest:
  assumes "honest_faults ss" "answer refs ss = (r, ss')"
  shows "honest_faults ss'" "ss_store ss' = ss_store ss"
    "(\<exists>e. r = Some e \<and> \<not> isSchemaGapError e) \<or> answer refs (at_rest (ss_store ss)) = (r, at_rest (ss_store ss'))"
  using assms by (cases "ss_faults ss"; auto simp: answer_def honest_faults_def at_rest_def split: option.splits list.splits)+

lemma statement_firm [intro]: "firm (statement refs eff)"
proof (rule firmI)
  fix ss r ss'
  assume h: "honest_faults ss" "statement refs eff ss = (r, ss')"
  obtain a s1 where a: "answer refs ss = (a, s1)" by fastforce
  from answer_honest[OF h(1) a] h(2) a
  show "honest_faults ss' \<and> ((\<exists>e. r = Some e \<and> \<not> isSchemaGapError e) \<or>
      statement refs eff (at_rest (ss_store ss)) = (r, at_rest (ss_store ss')))"
    by (cases a) (auto simp: statement_def honest_faults_def at_rest_def)
qed

lemma reading_firm [intro]:
  assumes "\<And>x. firm (k x)"
  shows "firm (reading refs f k)"
proof (rule firmI)
  fix ss r ss'
  assume h: "honest_faults ss" "reading refs f k ss = (r, ss')"
  obtain a s1 where a: "answer refs ss = (a, s1)" by fastforce
  show "honest_faults ss' \<and> ((\<exists>e. r = Some e \<and> \<not> isSchemaGapError e) \<or>
      reading refs f k (at_rest (ss_store ss)) = (r, at_rest (ss_store ss')))"
  proof (cases a)
    case (Some e)
    then show ?thesis using answer_honest[OF h(1) a] h(2) a by (auto simp: reading_def)
  next
    case None
    then have k: "k (f (ss_store s1)) s1 = (r, ss')" using h(2) a by (simp add: reading_def)
    have u: "answer refs (at_rest (ss_store ss)) = (None, at_rest (ss_store s1))"
      using answer_honest(3)[OF h(1) a] None by simp
    show ?thesis
      using firm_cases[OF assms answer_honest(1)[OF h(1) a] k] u by (auto simp: reading_def at_rest_def)
  qed
qed

lemma in_order_firm [intro]:
  assumes "\<And>q. q \<in> set qs \<Longrightarrow> firm q"
  shows "firm (in_order qs)"
  using assms
proof (induction qs)
  case Nil
  show ?case by (rule firmI) (auto simp: at_rest_def)
next
  case (Cons q qs)
  show ?case
  proof (rule firmI)
    fix ss r ss'
    assume h: "honest_faults ss" "in_order (q # qs) ss = (r, ss')"
    obtain a s1 where a: "q ss = (a, s1)" by fastforce
    have q: "firm q" using Cons.prems by simp
    note c = firm_cases[OF q h(1) a]
    show "honest_faults ss' \<and> ((\<exists>e. r = Some e \<and> \<not> isSchemaGapError e) \<or>
        in_order (q # qs) (at_rest (ss_store ss)) = (r, at_rest (ss_store ss')))"
    proof (cases a)
      case (Some e)
      then show ?thesis using c h(2) a by auto
    next
      case None
      then have "in_order qs s1 = (r, ss')" using h(2) a by simp
      from firm_cases[OF Cons.IH c(1) this] Cons.prems show ?thesis using c(2) None by auto
    qed
  qed
qed

lemma tolerating_firm:
  assumes "firm q" "\<And>e. ok e \<Longrightarrow> isSchemaGapError e"
  shows "firm (tolerating ok q)"
proof (rule firmI)
  fix ss r ss'
  assume h: "honest_faults ss" "tolerating ok q ss = (r, ss')"
  obtain a s1 where a: "q ss = (a, s1)" by fastforce
  show "honest_faults ss' \<and> ((\<exists>e. r = Some e \<and> \<not> isSchemaGapError e) \<or>
      tolerating ok q (at_rest (ss_store ss)) = (r, at_rest (ss_store ss')))"
    using firm_cases[OF assms(1) h(1) a] h(2) a assms(2) by (cases a) (auto simp: tolerating_def)
qed

lemma tolerating_gap_firm [intro]: "firm q \<Longrightarrow> firm (tolerating isSchemaGapError q)"
  by (rule tolerating_firm)

lemma tolerating_1146_firm [intro]: "firm q \<Longrightarrow> firm (tolerating ((=) 1146) q)"
  by (rule tolerating_firm) (auto simp: isSchemaGapError_def)

text \<open>A failed transaction leaves the rows as they were.\<close>

lemma in_transaction_undone:
  assumes "in_transaction q ss = (Some e, ss')"
  shows "ss_store ss' = ss_store ss"
proof -
  have keep: "ss_store s' = ss_store s" if "answer refs s = (a, s')" for a s s' refs
    using that by (cases "ss_faults s") (auto simp: answer_def split: option.splits)
  show ?thesis
    using assms keep by (auto simp: in_transaction_def split: prod.splits option.splits)
qed

lemma in_transaction_firm [intro]:
  assumes "firm q"
  shows "firm (in_transaction q)"
proof (rule firmI)
  fix ss r ss'
  assume h: "honest_faults ss" "in_transaction q ss = (r, ss')"
  have nofault: "answer [] (at_rest st) = (None, at_rest st)" for st
    by (simp add: answer_def at_rest_def schema_gap_def)
  obtain a s1 where a: "answer [] ss = (a, s1)" by fastforce
  note ca = answer_honest[OF h(1) a]
  show "honest_faults ss' \<and> ((\<exists>e. r = Some e \<and> \<not> isSchemaGapError e) \<or>
      in_transaction q (at_rest (ss_store ss)) = (r, at_rest (ss_store ss')))"
  proof (cases a)
    case (Some e)
    then show ?thesis using ca h(2) a nofault by (auto simp: in_transaction_def)
  next
    case None
    obtain b s2 where b: "q s1 = (b, s2)" by fastforce
    note cb = firm_cases[OF assms ca(1) b]
    show ?thesis
    proof (cases b)
      case (Some e)
      then show ?thesis using cb ca None h(2) a b nofault
        by (auto simp: in_transaction_def honest_faults_def at_rest_def)
    next
      case bn: None
      obtain c s3 where c: "answer [] s2 = (c, s3)" by fastforce
      note cc = answer_honest[OF cb(1) c]
      show ?thesis
        using cc cb ca None bn h(2) a b c nofault
        by (cases c) (auto simp: in_transaction_def honest_faults_def at_rest_def)
    qed
  qed
qed

end
