(* ===== verification/Block_Hasher.thy ===== *)
theory Block_Hasher
  imports Json_Text Row_Store Checkpoint Merkle_Primitives "HOL-Library.List_Lexorder" "HOL-Library.Char_ord" "HOL-Library.Multiset"
begin

text \<open>
  The recompute of a block's chained hashes from the replicated rows (\<^verbatim>\<open>computeBlockHashes\<close> of
  \<^verbatim>\<open>src/src/client/block_hasher.js\<close>), with the role tokens of \<^verbatim>\<open>src/src/util/protocol_address_roles.js\<close>: the queries over the
  tables, the preimage objects in their key order, and the hash.  A column value is \<^verbatim>\<open>NULL\<close>, a safe integer or text.  The
  weight of a text under the default collation of a column is a parameter.
\<close>

fun cell_json :: "cell \<Rightarrow> json" where
  "cell_json CNull = JsNull"
| "cell_json (CNum n) = JsInt n"
| "cell_json (CText s) = JsText s"

section \<open>Tables\<close>

record ledger_entry =
  lg_action_index :: int
  lg_address_id :: cell
  lg_tick_id :: cell
  lg_amount :: cell

record action_entry =
  ac_action_index :: int
  ac_tx_index :: cell
  ac_action_id :: cell
  ac_block_index :: int

record contract_entry =
  ct_action_index :: int
  ct_source_id :: cell
  ct_code_hash :: cell
  ct_status_id :: cell

record state_key_entry =
  sk_id :: int
  sk_block_index :: int
  sk_contract_index :: cell
  sk_state_key :: string
  sk_state_value :: cell

record execution_entry =
  ex_action_index :: int
  ex_contract_index :: cell
  ex_caller_id :: cell
  ex_gas_used :: cell
  ex_status_id :: cell
  ex_emitted_count :: cell

record emission_entry =
  em_execution_index :: int
  em_emitted_action :: cell
  em_action_index :: cell
  em_position :: cell

record transfer_entry =
  tf_action_index :: int
  tf_contract_index :: cell
  tf_source_id :: cell
  tf_tick_id :: cell
  tf_amount :: cell
  tf_status_id :: cell

record header_entry =
  hr_block_index :: int
  hr_ledger_hash_id :: cell
  hr_actions_hash_id :: cell
  hr_contract_hash_id :: cell

record hash_db =
  hb_credits :: "ledger_entry list"
  hb_debits :: "ledger_entry list"
  hb_escrows :: "ledger_entry list"
  hb_actions :: "action_entry list"
  hb_contracts :: "contract_entry list"
  hb_contract_state :: "state_key_entry list"
  hb_executions :: "execution_entry list"
  hb_emissions :: "emission_entry list"
  hb_deposits :: "transfer_entry list"
  hb_withdrawals :: "transfer_entry list"
  hb_blocks :: "header_entry list"
  hb_addresses :: "cell \<rightharpoonup> string"
  hb_tickers :: "cell \<rightharpoonup> string"
  hb_action_names :: "cell \<rightharpoonup> string"
  hb_statuses :: "cell \<rightharpoonup> string"
  hb_transactions :: "cell \<rightharpoonup> string"

text \<open>A \<^verbatim>\<open>LEFT JOIN\<close> on a lookup table.\<close>

definition resolve :: "(cell \<rightharpoonup> string) \<Rightarrow> cell \<Rightarrow> cell" where
  "resolve tbl i = (if i = CNull then CNull else case tbl i of None \<Rightarrow> CNull | Some s \<Rightarrow> CText s)"

text \<open>The \<^verbatim>\<open>INNER JOIN\<close> on \<^verbatim>\<open>actions\<close> with its \<^verbatim>\<open>WHERE\<close>: a row for every action of the block it belongs to.\<close>

definition block_actions :: "hash_db \<Rightarrow> int \<Rightarrow> int \<Rightarrow> action_entry list" where
  "block_actions db h i = filter (\<lambda>a. ac_action_index a = i \<and> ac_block_index a = h) (hb_actions db)"

definition in_block :: "hash_db \<Rightarrow> int \<Rightarrow> ('r \<Rightarrow> int) \<Rightarrow> 'r list \<Rightarrow> 'r list" where
  "in_block db h key rows = concat (map (\<lambda>r. replicate (length (block_actions db h (key r))) r) rows)"

section \<open>The queries\<close>

definition ledger_rows :: "(cell \<Rightarrow> cell) \<Rightarrow> hash_db \<Rightarrow> int \<Rightarrow> ledger_entry list \<Rightarrow> (cell \<times> cell \<times> cell \<times> cell) list" where
  "ledger_rows coll db h rows =
     sort_key (\<lambda>(i, a, t, m). [i, a, t, coll m])
       (map (\<lambda>r. (CNum (lg_action_index r), resolve (hb_addresses db) (lg_address_id r), resolve (hb_tickers db) (lg_tick_id r), lg_amount r))
         (in_block db h lg_action_index rows))"

definition action_rows :: "hash_db \<Rightarrow> int \<Rightarrow> (cell \<times> cell \<times> cell) list" where
  "action_rows db h =
     sort_key (\<lambda>(i, x, a). i)
       (map (\<lambda>r. (CNum (ac_action_index r), ac_tx_index r, resolve (hb_action_names db) (ac_action_id r)))
         (filter (\<lambda>r. ac_block_index r = h) (hb_actions db)))"

definition contract_rows :: "hash_db \<Rightarrow> int \<Rightarrow> (cell \<times> cell \<times> cell \<times> cell) list" where
  "contract_rows db h =
     sort_key (\<lambda>(i, s, k, t). i)
       (map (\<lambda>r. (CNum (ct_action_index r), resolve (hb_addresses db) (ct_source_id r), ct_code_hash r, resolve (hb_statuses db) (ct_status_id r)))
         (in_block db h ct_action_index (hb_contracts db)))"

text \<open>The newest row of the block per contract and key, where keys of equal weight are one key.\<close>

definition newest_in_group :: "(string \<Rightarrow> string) \<Rightarrow> int \<Rightarrow> state_key_entry list \<Rightarrow> state_key_entry \<Rightarrow> bool" where
  "newest_in_group weight h rows r =
     (sk_block_index r = h \<and>
      list_all (\<lambda>q. sk_block_index q = h \<and> sk_contract_index q = sk_contract_index r \<and> weight (sk_state_key q) = weight (sk_state_key r) \<longrightarrow>
        sk_id q \<le> sk_id r) rows)"

definition state_rows :: "(string \<Rightarrow> string) \<Rightarrow> hash_db \<Rightarrow> int \<Rightarrow> (cell \<times> string \<times> cell) list" where
  "state_rows weight db h =
     sort_key (\<lambda>(i, k, v). [i, CText (weight k)])
       (map (\<lambda>r. (sk_contract_index r, sk_state_key r, sk_state_value r))
         (filter (newest_in_group weight h (hb_contract_state db)) (hb_contract_state db)))"

definition execution_rows :: "hash_db \<Rightarrow> int \<Rightarrow> (cell \<times> cell \<times> cell \<times> cell \<times> cell \<times> cell) list" where
  "execution_rows db h =
     sort_key (\<lambda>(i, c, a, g, t, n). i)
       (map (\<lambda>r. (CNum (ex_action_index r), ex_contract_index r, resolve (hb_addresses db) (ex_caller_id r), ex_gas_used r,
                  resolve (hb_statuses db) (ex_status_id r), ex_emitted_count r))
         (in_block db h ex_action_index (hb_executions db)))"

definition emission_rows :: "hash_db \<Rightarrow> int \<Rightarrow> (cell \<times> cell \<times> cell \<times> cell) list" where
  "emission_rows db h =
     sort_key (\<lambda>(e, n, i, p). [e, p])
       (map (\<lambda>r. (CNum (em_execution_index r), em_emitted_action r, em_action_index r, em_position r))
         (concat (map (\<lambda>r. replicate (length (filter (\<lambda>x. ex_action_index x = em_execution_index r) (in_block db h ex_action_index (hb_executions db)))) r)
            (hb_emissions db))))"

definition transfer_rows ::
    "(cell \<Rightarrow> cell) \<Rightarrow> hash_db \<Rightarrow> int \<Rightarrow> transfer_entry list \<Rightarrow> (cell \<times> cell \<times> cell \<times> cell \<times> cell \<times> cell) list" where
  "transfer_rows coll db h rows =
     sort_key (\<lambda>(i, c, a, t, m, s). [i, c, a, t, coll m, s])
       (map (\<lambda>r. (CNum (tf_action_index r), tf_contract_index r, resolve (hb_addresses db) (tf_source_id r),
                  resolve (hb_tickers db) (tf_tick_id r), tf_amount r, resolve (hb_statuses db) (tf_status_id r)))
         (in_block db h tf_action_index rows))"

section \<open>Role tokens\<close>

text \<open>The map is a plain object, so the names of \<^verbatim>\<open>Object.prototype\<close> are found on it: a function is dropped from JSON, and
  \<^verbatim>\<open>__proto__\<close> is an object without own properties.\<close>

definition PROTOTYPE_FUNCTIONS :: "string list" where
  "PROTOTYPE_FUNCTIONS = [''constructor'', ''__defineGetter__'', ''__defineSetter__'', ''hasOwnProperty'', ''__lookupGetter__'',
     ''__lookupSetter__'', ''isPrototypeOf'', ''propertyIsEnumerable'', ''toString'', ''valueOf'', ''toLocaleString'']"

definition ROLE_BY_ADDRESS :: "(string \<times> string) list" where
  "ROLE_BY_ADDRESS = [(''1XChainBurnAddressXXXXXXXXXbRsd2N'', ''BURN''), (''1XChain3M4uRwcHqt4XuhVBUQ8cL4qQsA'', ''GAS''),
     (''1Donate1GERVKPW6GFQcnGeTa8dgL6Abyp'', ''DONATE1''), (''1Donate2LkbBrsanwCVRPWZCXAqQcvcqGz'', ''DONATE2''),
     (''1RewardsRQTXMAytLt4bBQvPEscKsSEXt'', ''REWARD''), (''mxchainburnaddressXXXXXXXXXXa8EAfp'', ''BURN''),
     (''mgassdEpzH2AuKGK9W5FZh8drWYKrpXk6D'', ''GAS''), (''mfztXKX1HeVdCQf6pDCZFEzo5i5wYNHAM6'', ''DONATE1''),
     (''myBbbZ4t7BPoyNcT4sHtFwZDuiyYGDXLQM'', ''DONATE2''), (''mrewards4RQFYoZ5yEv4xr12PzfjDYViks'', ''REWARD''),
     (''mgash6jYSKAR3Q5HPpDgNX2BYr18q9N6GQ'', ''GAS''), (''muYHF9MMnK6Nmd5zx7EBtqEYZdaf2Xy8JX'', ''DONATE1''),
     (''mkQd27aJSqsQ666z1Q4MLFmd3Ybqzy3TNw'', ''DONATE2''), (''mrewardshQqD1ptkEBZGjPDF77L5uKJQmk'', ''REWARD''),
     (''LXChainBurnAddressXXXXXXXXXXSkrYkJ'', ''BURN''), (''LXChainCN6yjHVqqS9tYzYVYZ8CCZcSx72'', ''GAS''),
     (''Ldonate18tNZcVThKm5MX33EjvhaanJ6Mg'', ''DONATE1''), (''Ldonate2io846q2e7q8dUArh3TNnaq9ENb'', ''DONATE2''),
     (''XXXXXXXXXXXXXXXXXXXXXXXXXXXXXXXXXX'', ''REWARD''), (''mgashLN9oSvj2CUJYKWdNxh6VkamPg1Ges'', ''GAS''),
     (''mybp5CceJvVV5tNCCiF7oBiZWko2fNkmnT'', ''DONATE1''), (''muKEjejjXQvLY7Lp7Ecpn29gM2TCb5BLTF'', ''DONATE2''),
     (''mgas5QYE38Bg34hwEjFKaE7Gs536FARue4'', ''GAS''), (''mgNY2ZXbnNEkRT5ZRF8yGamivrSX2QH97h'', ''DONATE1''),
     (''n2DLJPppXUi8jC6fLiSkthZi2sc9UKiZHd'', ''DONATE2''), (''DChainBurnAddressXXXXXXXXXXXawc9pt'', ''BURN''),
     (''DGasfpttCnTijuuoAdiJ9sXJjG7vQ5pMkW'', ''GAS''), (''DDonate1RBcwGnCRNnVtwuCmQyWW1Gn25f'', ''DONATE1''),
     (''DDonate2o3Sg4phybp92oFpkmv8S9ZhGSV'', ''DONATE2''), (''nchainburnaddressXXXXXXXXXXXYKgF7W'', ''BURN''),
     (''ngasn6zHFzJ72zpk3DBKmXhD2XtszujSDW'', ''GAS''), (''ndonate1dE87UXUFf4gjyhPg7hfQRJXVXr'', ''DONATE1''),
     (''ndonate2wev8vKDgvd1DHhtJtvkRbn2usJ'', ''DONATE2''), (''mvs8WdppEhzQLxfcYwrr1eoKA2nUFi55ff'', ''BURN''),
     (''mgasDTdKu5DsbW97qSRnE8raAuYpKMfmhg'', ''GAS''), (''mzdg8wGxgP3Jk45FuZPspumCL3Ruup37ob'', ''DONATE1''),
     (''mmXU8RU7q3BUsyT66rtw1H6P7B2ZZd9c5Y'', ''DONATE2''), (''17BridgeLtcXChainXXXXXXXXXXa5uRRy'', ''BRIDGE_LTC''),
     (''17BridgeDogeXChainXXXXXXXXXVuqXcv'', ''BRIDGE_DOGE''), (''mfbtcbridgeLtcXXXXXXXXXXXXXXVPqpoV'', ''BRIDGE_LTC''),
     (''mfbtcbridgedogeXXXXXXXXXXXXXUXTr4m'', ''BRIDGE_DOGE''), (''LKLtcbridgebtcXXXXXXXXXXXXXXXA61Gk'', ''BRIDGE_BTC''),
     (''LKLtcbridgedogeXXXXXXXXXXXXXX8Aknx'', ''BRIDGE_DOGE''), (''mgLtcbridgebtcXXXXXXXXXXXXXXYpo2Bo'', ''BRIDGE_BTC''),
     (''mgLtcbridgedogeXXXXXXXXXXXXXZBQunc'', ''BRIDGE_DOGE''), (''D5dogebridgebtcXXXXXXXXXXXXXVAFQt9'', ''BRIDGE_BTC''),
     (''D5dogebridgeLtcXXXXXXXXXXXXXUVFLyn'', ''BRIDGE_LTC''), (''nUdogebridgebtcXXXXXXXXXXXXXWUG2kx'', ''BRIDGE_BTC''),
     (''nUdogebridgeLtcXXXXXXXXXXXXXTsEz6W'', ''BRIDGE_LTC''), (''mfdogebridgebtcXXXXXXXXXXXXXZ3agHN'', ''BRIDGE_BTC''),
     (''mfdogebridgeLtcXXXXXXXXXXXXXXb2E4n'', ''BRIDGE_LTC'')]"

definition canonicalizeHashAddress :: "cell \<Rightarrow> json option" where
  "canonicalizeHashAddress a =
     (case a of
        CText s \<Rightarrow>
          (case map_of ROLE_BY_ADDRESS s of
             Some r \<Rightarrow> Some (JsText r)
           | None \<Rightarrow> if s \<in> set PROTOTYPE_FUNCTIONS then None else if s = ''__proto__'' then Some (JsObj []) else Some (JsText s))
      | _ \<Rightarrow> Some (cell_json a))"

section \<open>Preimages\<close>

definition row_json :: "(string \<times> json option) list \<Rightarrow> json" where
  "row_json fs = JsObj (List.map_filter (\<lambda>(k, v). map_option (Pair k) v) fs)"

definition ledger_json :: "(cell \<times> cell \<times> cell \<times> cell) list \<Rightarrow> json" where
  "ledger_json rows = JsList (map (\<lambda>(i, a, t, m). row_json [(''action_index'', Some (cell_json i)), (''address'', canonicalizeHashAddress a),
     (''tick'', Some (cell_json t)), (''amount'', Some (cell_json m))]) rows)"

definition BLOCK_HASH_VERSION :: int where
  "BLOCK_HASH_VERSION = 1"

text \<open>The properties added to every preimage; \<^verbatim>\<open>previous_hash\<close> is \<^verbatim>\<open>undefined\<close>, and left out, when there is no predecessor row.\<close>

definition chain_fields :: "int \<Rightarrow> cell option \<Rightarrow> (string \<times> json) list" where
  "chain_fields h prev =
     (''block_index'', JsInt h) # (case prev of None \<Rightarrow> [] | Some p \<Rightarrow> [(''previous_hash'', cell_json p)]) @
     [(''hash_version'', JsInt BLOCK_HASH_VERSION)]"

definition ledger_preimage :: "(cell \<Rightarrow> cell) \<Rightarrow> hash_db \<Rightarrow> int \<Rightarrow> cell option \<Rightarrow> json" where
  "ledger_preimage coll db h prev =
     JsObj ([(''credits'', ledger_json (ledger_rows coll db h (hb_credits db))), (''debits'', ledger_json (ledger_rows coll db h (hb_debits db))),
             (''escrows'', ledger_json (ledger_rows coll db h (hb_escrows db)))] @ chain_fields h prev)"

definition action_json :: "cell \<times> cell \<times> cell \<Rightarrow> json" where
  "action_json r = (case r of (i, x, a) \<Rightarrow> JsObj [(''action_index'', cell_json i), (''tx_index'', cell_json x), (''action'', cell_json a)])"

text \<open>The array of the actions becomes an object with its indices as keys.\<close>

definition indexed :: "json list \<Rightarrow> (string \<times> json) list" where
  "indexed xs = zip (map nat_str [0..<length xs]) xs"

definition actions_preimage :: "hash_db \<Rightarrow> int \<Rightarrow> cell option \<Rightarrow> json" where
  "actions_preimage db h prev = JsObj (indexed (map action_json (action_rows db h)) @ chain_fields h prev)"

definition transfer_json :: "(cell \<times> cell \<times> cell \<times> cell \<times> cell \<times> cell) list \<Rightarrow> json" where
  "transfer_json rows = JsList (map (\<lambda>(i, c, a, t, m, s). JsObj [(''action_index'', cell_json i), (''contract_index'', cell_json c),
     (''source_address'', cell_json a), (''tick'', cell_json t), (''amount'', cell_json m), (''status'', cell_json s)]) rows)"

definition contracts_preimage :: "(cell \<Rightarrow> cell) \<Rightarrow> (string \<Rightarrow> string) \<Rightarrow> hash_db \<Rightarrow> int \<Rightarrow> cell option \<Rightarrow> json" where
  "contracts_preimage coll weight db h prev =
     JsObj ([(''contracts'', JsList (map (\<lambda>(i, s, k, t). JsObj [(''action_index'', cell_json i), (''source_address'', cell_json s),
               (''code_hash'', cell_json k), (''status'', cell_json t)]) (contract_rows db h))),
             (''state'', JsList (map (\<lambda>(i, k, v). JsObj [(''contract_index'', cell_json i), (''state_key'', JsText k), (''state_value'', cell_json v)])
               (state_rows weight db h))),
             (''executions'', JsList (map (\<lambda>(i, c, a, g, t, n). JsObj [(''action_index'', cell_json i), (''contract_index'', cell_json c),
               (''caller_address'', cell_json a), (''gas_used'', cell_json g), (''status'', cell_json t), (''emitted_count'', cell_json n)])
               (execution_rows db h))),
             (''emissions'', JsList (map (\<lambda>(e, n, i, p). JsObj [(''execution_index'', cell_json e), (''emitted_action'', cell_json n),
               (''action_index'', cell_json i), (''position'', cell_json p)]) (emission_rows db h))),
             (''deposits'', transfer_json (transfer_rows coll db h (hb_deposits db))),
             (''withdrawals'', transfer_json (transfer_rows coll db h (hb_withdrawals db)))] @ chain_fields h prev)"

section \<open>The hashes\<close>

definition getDataHash :: "hash_fn \<Rightarrow> json \<Rightarrow> string" where
  "getDataHash H data = hexenc (H (stringify data))"

text \<open>The committed hashes of a block: \<^term>\<open>None\<close> without a row.\<close>

definition stored_hashes :: "hash_db \<Rightarrow> int \<Rightarrow> (cell \<times> cell \<times> cell) option" where
  "stored_hashes db h =
     (case find (\<lambda>r. hr_block_index r = h) (hb_blocks db) of
        None \<Rightarrow> None
      | Some r \<Rightarrow> Some (resolve (hb_transactions db) (hr_ledger_hash_id r), resolve (hb_transactions db) (hr_actions_hash_id r),
                       resolve (hb_transactions db) (hr_contract_hash_id r)))"

definition state_key_weight :: "(string \<Rightarrow> string) \<Rightarrow> string \<Rightarrow> string \<Rightarrow> int \<Rightarrow> string \<Rightarrow> string" where
  "state_key_weight fold_key network coin h =
     (if height_row_active (row_table shared_rows_4a ''state_key_collation_activation.STATE_KEY_COLLATION_ACTIVATION'') network (Some coin) h
      then id else fold_key)"

definition hashes_from :: "hash_fn \<Rightarrow> (cell \<Rightarrow> cell) \<Rightarrow> (string \<Rightarrow> string) \<Rightarrow> hash_db \<Rightarrow> int \<Rightarrow> string \<times> string \<times> string" where
  "hashes_from H coll weight db h =
     (let prev = stored_hashes db (h - 1) in
      (getDataHash H (ledger_preimage coll db h (map_option fst prev)),
       getDataHash H (actions_preimage db h (map_option (fst \<circ> snd) prev)),
       getDataHash H (contracts_preimage coll weight db h (map_option (snd \<circ> snd) prev))))"

definition computeBlockHashes ::
    "hash_fn \<Rightarrow> (cell \<Rightarrow> cell) \<Rightarrow> (string \<Rightarrow> string) \<Rightarrow> hash_db \<Rightarrow> int \<Rightarrow> string \<Rightarrow> string \<Rightarrow> string \<times> string \<times> string" where
  "computeBlockHashes H coll fold_key db h network coin =
     hashes_from H coll (state_key_weight fold_key network coin h) db h"

end
