(* ===== verification/Hash_Binding.thy ===== *)
theory Hash_Binding
  imports Block_Hasher
begin

text \<open>
  What the block hashes of \<open>Block_Hasher\<close> determine: the recompute does not depend on the order in which the tables store
  their rows, and two histories that end in the same committed hashes have the same rows in every block, or exhibit two texts
  with one digest.
\<close>

section \<open>Preimages determine the rows\<close>

lemma cell_json_inject [simp]: "cell_json x = cell_json y \<longleftrightarrow> x = y"
  by (cases x; cases y) auto

definition ledger_view :: "(cell \<times> cell \<times> cell \<times> cell) list \<Rightarrow> (cell \<times> json option \<times> cell \<times> cell) list" where
  "ledger_view rows = map (\<lambda>(i, a, t, m). (i, canonicalizeHashAddress a, t, m)) rows"

lemma map_eq_through:
  assumes "map f xs = map f ys" "\<And>x y. f x = f y \<Longrightarrow> g x = g y"
  shows "map g xs = map g ys"
  using assms(1)
proof (induction xs arbitrary: ys)
  case (Cons x xs)
  then obtain y ys' where "ys = y # ys'" "f x = f y" "map f xs = map f ys'" by (cases ys) auto
  then show ?case using Cons.IH assms(2)[of x y] by simp
qed simp

lemma ledger_row_json:
  "row_json [(k, Some i), (l, c), (n, Some t), (p, Some m)] =
     JsObj ((k, i) # (case c of None \<Rightarrow> [] | Some x \<Rightarrow> [(l, x)]) @ [(n, t), (p, m)])"
  by (cases c) (simp_all add: row_json_def map_filter_simps)

lemma ledger_json_view:
  assumes "ledger_json rows = ledger_json rows'"
  shows "ledger_view rows = ledger_view rows'"
proof -
  have row: "(i, canonicalizeHashAddress a, t, m) = (i', canonicalizeHashAddress a', t', m')"
    if "row_json [(''action_index'', Some (cell_json i)), (''address'', canonicalizeHashAddress a), (''tick'', Some (cell_json t)), (''amount'', Some (cell_json m))]
      = row_json [(''action_index'', Some (cell_json i')), (''address'', canonicalizeHashAddress a'), (''tick'', Some (cell_json t')), (''amount'', Some (cell_json m'))]"
    for i a t m i' a' t' m'
    using that unfolding ledger_row_json
    by (cases "canonicalizeHashAddress a"; cases "canonicalizeHashAddress a'") simp_all
  show ?thesis
    unfolding ledger_view_def
    by (rule map_eq_through[OF assms[unfolded ledger_json_def json.inject]]) (clarify, drule row, simp)
qed

lemma chain_fields_inject: "chain_fields h p = chain_fields h' p' \<longleftrightarrow> h = h' \<and> p = p'"
  by (auto simp: chain_fields_def split: option.splits)

lemma indexed_append:
  assumes "indexed xs @ chain_fields h p = indexed ys @ chain_fields h' p'"
  shows "xs = ys \<and> chain_fields h p = chain_fields h' p'"
proof -
  let ?P = "\<lambda>f :: string \<times> json. fst f \<noteq> ''block_index''"
  have digits: "nat_str n \<noteq> ''block_index''" for n using nat_str_digits[of n] by (auto simp: is_digit_def)
  have t: "takeWhile ?P (indexed zs @ chain_fields k q) = indexed zs" for zs k q
  proof -
    have "fst f \<noteq> ''block_index''" if "f \<in> set (indexed zs)" for f
    proof -
      have "fst f \<in> set (map fst (indexed zs))" using that by simp
      then show ?thesis using digits by (metis imageE indexed_def length_map length_upt list.set_map map_fst_zip minus_nat.diff_0)
    qed
    then have "takeWhile ?P (indexed zs @ chain_fields k q) = indexed zs @ takeWhile ?P (chain_fields k q)"
      by (intro takeWhile_append2)
    then show ?thesis by (simp add: chain_fields_def)
  qed
  have i: "indexed xs = indexed ys" using arg_cong[OF assms, of "takeWhile ?P"] by (simp only: t)
  have "map snd (indexed zs) = zs" for zs by (simp add: indexed_def)
  then have "xs = ys" using i by metis
  then show ?thesis using assms by simp
qed

lemma action_json_inject [simp]: "action_json x = action_json y \<longleftrightarrow> x = y"
  by (cases x; cases y) (auto simp: action_json_def)

lemma transfer_json_inject [simp]: "transfer_json xs = transfer_json ys \<longleftrightarrow> xs = ys"
proof -
  have "inj (\<lambda>(i, c, a, t, m, s). JsObj [(''action_index'', cell_json i), (''contract_index'', cell_json c),
     (''source_address'', cell_json a), (''tick'', cell_json t), (''amount'', cell_json m), (''status'', cell_json s)])"
    by (auto simp: inj_def)
  from inj_map_eq_map[OF this] show ?thesis by (simp add: transfer_json_def)
qed

text \<open>All that the three hashes of a block are taken from.\<close>

record block_view =
  bv_credits :: "(cell \<times> json option \<times> cell \<times> cell) list"
  bv_debits :: "(cell \<times> json option \<times> cell \<times> cell) list"
  bv_escrows :: "(cell \<times> json option \<times> cell \<times> cell) list"
  bv_actions :: "(cell \<times> cell \<times> cell) list"
  bv_contracts :: "(cell \<times> cell \<times> cell \<times> cell) list"
  bv_state :: "(cell \<times> string \<times> cell) list"
  bv_executions :: "(cell \<times> cell \<times> cell \<times> cell \<times> cell \<times> cell) list"
  bv_emissions :: "(cell \<times> cell \<times> cell \<times> cell) list"
  bv_deposits :: "(cell \<times> cell \<times> cell \<times> cell \<times> cell \<times> cell) list"
  bv_withdrawals :: "(cell \<times> cell \<times> cell \<times> cell \<times> cell \<times> cell) list"
  bv_previous :: "(cell \<times> cell \<times> cell) option"

definition view_of :: "(cell \<Rightarrow> cell) \<Rightarrow> (string \<Rightarrow> string) \<Rightarrow> hash_db \<Rightarrow> int \<Rightarrow> block_view" where
  "view_of coll weight db h =
     \<lparr>bv_credits = ledger_view (ledger_rows coll db h (hb_credits db)), bv_debits = ledger_view (ledger_rows coll db h (hb_debits db)),
      bv_escrows = ledger_view (ledger_rows coll db h (hb_escrows db)), bv_actions = action_rows db h, bv_contracts = contract_rows db h,
      bv_state = state_rows weight db h, bv_executions = execution_rows db h, bv_emissions = emission_rows db h,
      bv_deposits = transfer_rows coll db h (hb_deposits db), bv_withdrawals = transfer_rows coll db h (hb_withdrawals db),
      bv_previous = stored_hashes db (h - 1)\<rparr>"

definition preimages :: "(cell \<Rightarrow> cell) \<Rightarrow> (string \<Rightarrow> string) \<Rightarrow> hash_db \<Rightarrow> int \<Rightarrow> json \<times> json \<times> json" where
  "preimages coll weight db h =
     (let prev = stored_hashes db (h - 1) in
      (ledger_preimage coll db h (map_option fst prev), actions_preimage db h (map_option (fst \<circ> snd) prev),
       contracts_preimage coll weight db h (map_option (snd \<circ> snd) prev)))"

lemma triple_parts:
  assumes "map_option fst p = map_option fst q" "map_option (fst \<circ> snd) p = map_option (fst \<circ> snd) q"
    "map_option (snd \<circ> snd) p = map_option (snd \<circ> snd) q"
  shows "p = q"
  using assms by (cases p; cases q) auto

lemma ledger_preimage_view:
  assumes "ledger_preimage coll db h p = ledger_preimage coll' db' h' p'"
  shows "ledger_view (ledger_rows coll db h (hb_credits db)) = ledger_view (ledger_rows coll' db' h' (hb_credits db'))"
    "ledger_view (ledger_rows coll db h (hb_debits db)) = ledger_view (ledger_rows coll' db' h' (hb_debits db'))"
    "ledger_view (ledger_rows coll db h (hb_escrows db)) = ledger_view (ledger_rows coll' db' h' (hb_escrows db'))"
    "p = p'"
proof -
  note e = assms[unfolded ledger_preimage_def json.inject append_Cons append_Nil list.inject prod.inject chain_fields_inject]
  show "ledger_view (ledger_rows coll db h (hb_credits db)) = ledger_view (ledger_rows coll' db' h' (hb_credits db'))"
    by (rule ledger_json_view) (use e in blast)
  show "ledger_view (ledger_rows coll db h (hb_debits db)) = ledger_view (ledger_rows coll' db' h' (hb_debits db'))"
    by (rule ledger_json_view) (use e in blast)
  show "ledger_view (ledger_rows coll db h (hb_escrows db)) = ledger_view (ledger_rows coll' db' h' (hb_escrows db'))"
    by (rule ledger_json_view) (use e in blast)
  show "p = p'" using e by blast
qed

lemma actions_preimage_view:
  assumes "actions_preimage db h p = actions_preimage db' h' p'"
  shows "action_rows db h = action_rows db' h'" "p = p'"
proof -
  have "indexed (map action_json (action_rows db h)) @ chain_fields h p = indexed (map action_json (action_rows db' h')) @ chain_fields h' p'"
    using assms by (simp add: actions_preimage_def)
  from indexed_append[OF this] have m: "map action_json (action_rows db h) = map action_json (action_rows db' h')" and "p = p'"
    by (auto simp: chain_fields_inject)
  show "p = p'" by fact
  have "inj action_json" by (simp add: inj_def)
  from inj_map_eq_map[OF this] m show "action_rows db h = action_rows db' h'" by blast
qed

lemma contracts_preimage_view:
  assumes "contracts_preimage coll w db h p = contracts_preimage coll' w' db' h' p'"
  shows "contract_rows db h = contract_rows db' h'" "state_rows w db h = state_rows w' db' h'"
    "execution_rows db h = execution_rows db' h'" "emission_rows db h = emission_rows db' h'"
    "transfer_rows coll db h (hb_deposits db) = transfer_rows coll' db' h' (hb_deposits db')"
    "transfer_rows coll db h (hb_withdrawals db) = transfer_rows coll' db' h' (hb_withdrawals db')" "p = p'"
proof -
  have inj: "inj (\<lambda>(i, s, k, t). JsObj [(''action_index'', cell_json i), (''source_address'', cell_json s), (''code_hash'', cell_json k), (''status'', cell_json t)])"
    "inj (\<lambda>(i, k, v). JsObj [(''contract_index'', cell_json i), (''state_key'', JsText k), (''state_value'', cell_json v)])"
    "inj (\<lambda>(i, c, a, g, t, n). JsObj [(''action_index'', cell_json i), (''contract_index'', cell_json c),
       (''caller_address'', cell_json a), (''gas_used'', cell_json g), (''status'', cell_json t), (''emitted_count'', cell_json n)])"
    "inj (\<lambda>(e, n, i, p). JsObj [(''execution_index'', cell_json e), (''emitted_action'', cell_json n), (''action_index'', cell_json i), (''position'', cell_json p)])"
    by (auto simp: inj_def)
  note maps = inj(1)[THEN inj_map_eq_map] inj(2)[THEN inj_map_eq_map] inj(3)[THEN inj_map_eq_map] inj(4)[THEN inj_map_eq_map]
  note e = assms[unfolded contracts_preimage_def json.inject append_Cons append_Nil list.inject prod.inject maps transfer_json_inject chain_fields_inject]
  show "contract_rows db h = contract_rows db' h'" "state_rows w db h = state_rows w' db' h'"
    "execution_rows db h = execution_rows db' h'" "emission_rows db h = emission_rows db' h'"
    "transfer_rows coll db h (hb_deposits db) = transfer_rows coll' db' h' (hb_deposits db')"
    "transfer_rows coll db h (hb_withdrawals db) = transfer_rows coll' db' h' (hb_withdrawals db')" "p = p'"
    using e by blast+
qed

lemma preimages_determine:
  assumes "preimages coll w db h = preimages coll' w' db' h'"
  shows "view_of coll w db h = view_of coll' w' db' h'"
proof -
  let ?p = "stored_hashes db (h - 1)" and ?q = "stored_hashes db' (h' - 1)"
  have l: "ledger_preimage coll db h (map_option fst ?p) = ledger_preimage coll' db' h' (map_option fst ?q)"
    and a: "actions_preimage db h (map_option (fst \<circ> snd) ?p) = actions_preimage db' h' (map_option (fst \<circ> snd) ?q)"
    and c: "contracts_preimage coll w db h (map_option (snd \<circ> snd) ?p) = contracts_preimage coll' w' db' h' (map_option (snd \<circ> snd) ?q)"
    using assms by (simp_all only: preimages_def Let_def prod.inject)
  have "?p = ?q"
    by (rule triple_parts[OF ledger_preimage_view(4)[OF l] actions_preimage_view(2)[OF a] contracts_preimage_view(7)[OF c]])
  then show ?thesis
    unfolding view_of_def
    by (simp only: ledger_preimage_view[OF l] actions_preimage_view(1)[OF a] contracts_preimage_view(1-6)[OF c])
qed

lemma hashes_from_preimages:
  "hashes_from H coll weight db h =
     (case preimages coll weight db h of (l, a, c) \<Rightarrow> (getDataHash H l, getDataHash H a, getDataHash H c))"
  by (simp add: hashes_from_def preimages_def Let_def)

section \<open>The order of the stored rows\<close>

text \<open>The primary keys and the unique indexes of the tables.\<close>

definition keyed :: "hash_db \<Rightarrow> bool" where
  "keyed db \<longleftrightarrow>
     distinct (map ac_action_index (hb_actions db)) \<and> distinct (map ct_action_index (hb_contracts db)) \<and>
     distinct (map sk_id (hb_contract_state db)) \<and> distinct (map ex_action_index (hb_executions db)) \<and>
     distinct (map (\<lambda>r. (em_execution_index r, em_position r)) (hb_emissions db)) \<and> distinct (map hr_block_index (hb_blocks db))"

definition same_tables :: "hash_db \<Rightarrow> hash_db \<Rightarrow> bool" where
  "same_tables db db' \<longleftrightarrow>
     mset (hb_credits db) = mset (hb_credits db') \<and> mset (hb_debits db) = mset (hb_debits db') \<and> mset (hb_escrows db) = mset (hb_escrows db') \<and>
     mset (hb_actions db) = mset (hb_actions db') \<and> mset (hb_contracts db) = mset (hb_contracts db') \<and>
     mset (hb_contract_state db) = mset (hb_contract_state db') \<and> mset (hb_executions db) = mset (hb_executions db') \<and>
     mset (hb_emissions db) = mset (hb_emissions db') \<and> mset (hb_deposits db) = mset (hb_deposits db') \<and>
     mset (hb_withdrawals db) = mset (hb_withdrawals db') \<and> mset (hb_blocks db) = mset (hb_blocks db') \<and>
     hb_addresses db = hb_addresses db' \<and> hb_tickers db = hb_tickers db' \<and> hb_action_names db = hb_action_names db' \<and>
     hb_statuses db = hb_statuses db' \<and> hb_transactions db = hb_transactions db'"

lemma sort_key_map_mset:
  assumes "mset xs = mset ys" "\<And>x y. x \<in> set xs \<Longrightarrow> y \<in> set xs \<Longrightarrow> k (f x) = k (f y) \<Longrightarrow> f x = f y"
  shows "sort_key k (map f xs) = sort_key k (map f ys)"
  by (rule sort_key_eq_sort_key) (use assms in \<open>auto simp: inj_on_def\<close>)

lemma block_actions_length:
  assumes "same_tables db db'"
  shows "length (block_actions db h i) = length (block_actions db' h i)"
proof -
  have "mset (block_actions db h i) = mset (block_actions db' h i)" using assms by (simp add: block_actions_def same_tables_def)
  then show ?thesis by (metis size_mset)
qed

lemma mset_concat_map: "mset (concat (map f xs)) = (\<Sum>x \<in># mset xs. mset (f x))"
  by (induction xs) simp_all

lemma in_block_mset:
  assumes "same_tables db db'" "mset xs = mset ys"
  shows "mset (in_block db h key xs) = mset (in_block db' h key ys)"
  using assms(2) block_actions_length[OF assms(1)] by (simp add: in_block_def mset_concat_map)

lemma in_block_sub: "set (in_block db h key xs) \<subseteq> set xs"
  by (auto simp: in_block_def)

lemma key_unique: "distinct (map key xs) \<Longrightarrow> x \<in> set xs \<Longrightarrow> y \<in> set xs \<Longrightarrow> key x = key y \<Longrightarrow> x = y"
  by (auto simp: distinct_map inj_on_def)

lemma ledger_rows_order:
  assumes "same_tables db db'" "mset xs = mset ys" "inj coll"
  shows "ledger_rows coll db h xs = ledger_rows coll db' h ys"
proof -
  have "hb_addresses db = hb_addresses db'" "hb_tickers db = hb_tickers db'" using assms(1) by (simp_all add: same_tables_def)
  then show ?thesis
    unfolding ledger_rows_def
    by (simp only:) (rule sort_key_map_mset[OF in_block_mset[OF assms(1,2)]], use assms(3) in \<open>auto simp: inj_eq\<close>)
qed

lemma transfer_rows_order:
  assumes "same_tables db db'" "mset xs = mset ys" "inj coll"
  shows "transfer_rows coll db h xs = transfer_rows coll db' h ys"
proof -
  have "hb_addresses db = hb_addresses db'" "hb_tickers db = hb_tickers db'" "hb_statuses db = hb_statuses db'"
    using assms(1) by (simp_all add: same_tables_def)
  then show ?thesis
    unfolding transfer_rows_def
    by (simp only:) (rule sort_key_map_mset[OF in_block_mset[OF assms(1,2)]], use assms(3) in \<open>auto simp: inj_eq\<close>)
qed

lemma action_rows_order:
  assumes "same_tables db db'" "keyed db"
  shows "action_rows db h = action_rows db' h"
proof -
  have n: "hb_action_names db = hb_action_names db'" using assms(1) by (simp add: same_tables_def)
  have m: "mset (filter (\<lambda>r. ac_block_index r = h) (hb_actions db)) = mset (filter (\<lambda>r. ac_block_index r = h) (hb_actions db'))"
    using assms(1) by (simp add: same_tables_def)
  have u: "x = y" if "x \<in> set (hb_actions db)" "y \<in> set (hb_actions db)" "ac_action_index x = ac_action_index y" for x y
    using key_unique[OF _ that] assms(2) by (simp add: keyed_def)
  show ?thesis unfolding action_rows_def n by (rule sort_key_map_mset[OF m]) (use u in auto)
qed

lemma contract_rows_order:
  assumes "same_tables db db'" "keyed db"
  shows "contract_rows db h = contract_rows db' h"
proof -
  have n: "hb_addresses db = hb_addresses db'" "hb_statuses db = hb_statuses db'" and m: "mset (hb_contracts db) = mset (hb_contracts db')"
    using assms(1) by (simp_all add: same_tables_def)
  have u: "x = y" if "x \<in> set (hb_contracts db)" "y \<in> set (hb_contracts db)" "ct_action_index x = ct_action_index y" for x y
    using key_unique[OF _ that] assms(2) by (simp add: keyed_def)
  show ?thesis
    unfolding contract_rows_def n
    by (rule sort_key_map_mset[OF in_block_mset[OF assms(1) m]]) (use u in_block_sub in \<open>fastforce dest: subsetD\<close>)
qed

lemma execution_rows_order:
  assumes "same_tables db db'" "keyed db"
  shows "execution_rows db h = execution_rows db' h"
proof -
  have n: "hb_addresses db = hb_addresses db'" "hb_statuses db = hb_statuses db'" and m: "mset (hb_executions db) = mset (hb_executions db')"
    using assms(1) by (simp_all add: same_tables_def)
  have u: "x = y" if "x \<in> set (hb_executions db)" "y \<in> set (hb_executions db)" "ex_action_index x = ex_action_index y" for x y
    using key_unique[OF _ that] assms(2) by (simp add: keyed_def)
  show ?thesis
    unfolding execution_rows_def n
    by (rule sort_key_map_mset[OF in_block_mset[OF assms(1) m]]) (use u in_block_sub in \<open>fastforce dest: subsetD\<close>)
qed

lemma emission_rows_order:
  assumes "same_tables db db'" "keyed db"
  shows "emission_rows db h = emission_rows db' h"
proof -
  have m: "mset (hb_emissions db) = mset (hb_emissions db')" and x: "mset (hb_executions db) = mset (hb_executions db')"
    using assms(1) by (simp_all add: same_tables_def)
  have "mset (filter P (in_block db h ex_action_index (hb_executions db))) = mset (filter P (in_block db' h ex_action_index (hb_executions db')))" for P
    using in_block_mset[OF assms(1) x] by (simp only: mset_filter)
  then have len: "length (filter P (in_block db h ex_action_index (hb_executions db))) = length (filter P (in_block db' h ex_action_index (hb_executions db')))" for P
    by (metis size_mset)
  have u: "x = y" if "x \<in> set (hb_emissions db)" "y \<in> set (hb_emissions db)" "em_execution_index x = em_execution_index y" "em_position x = em_position y" for x y
    using key_unique[of "\<lambda>r. (em_execution_index r, em_position r)", OF _ that(1,2)] that(3,4) assms(2) by (simp add: keyed_def)
  show ?thesis
    unfolding emission_rows_def len
    by (rule sort_key_map_mset) (use u m in \<open>auto simp: mset_concat_map\<close>)
qed

lemma state_rows_order:
  assumes "same_tables db db'" "keyed db"
  shows "state_rows w db h = state_rows w db' h"
proof -
  let ?N = "newest_in_group w h (hb_contract_state db)"
  have m: "mset (hb_contract_state db) = mset (hb_contract_state db')" using assms(1) by (simp add: same_tables_def)
  have "newest_in_group w h (hb_contract_state db') = ?N"
    using mset_eq_setD[OF m] by (intro ext) (simp add: newest_in_group_def list_all_iff)
  then have f: "filter (newest_in_group w h (hb_contract_state db')) (hb_contract_state db') = filter ?N (hb_contract_state db')" by simp
  have u: "x = y" if "x \<in> set (hb_contract_state db)" "y \<in> set (hb_contract_state db)" "?N x" "?N y"
      "sk_contract_index x = sk_contract_index y" "w (sk_state_key x) = w (sk_state_key y)" for x y
  proof -
    have "sk_id x = sk_id y" using that by (intro antisym) (simp_all add: newest_in_group_def list_all_iff)
    then show ?thesis using key_unique[of sk_id, OF _ that(1,2)] assms(2) by (simp add: keyed_def)
  qed
  show ?thesis
    unfolding state_rows_def f by (rule sort_key_map_mset) (use u m in \<open>auto simp del: filter_mset_eq_conv\<close>)
qed

lemma find_key:
  assumes "mset xs = mset ys" "distinct (map key xs)"
  shows "find (\<lambda>r. key r = k) xs = find (\<lambda>r. key r = k) ys"
proof -
  have s: "set xs = set ys" by (rule mset_eq_setD[OF assms(1)])
  have d: "x = y" if "x \<in> set xs" "y \<in> set xs" "key x = key y" for x y using key_unique[OF assms(2) that] .
  show ?thesis
  proof (cases "find (\<lambda>r. key r = k) xs")
    case None
    then have "find (\<lambda>r. key r = k) ys = None" using s by (simp add: find_None_iff)
    then show ?thesis using None by simp
  next
    case (Some x)
    then have x: "x \<in> set ys" "key x = k" using s by (auto simp: find_Some_iff)
    then obtain y where y: "find (\<lambda>r. key r = k) ys = Some y"
      by (cases "find (\<lambda>r. key r = k) ys") (auto simp: find_None_iff)
    then have "y \<in> set ys" "key y = k" by (auto simp: find_Some_iff)
    then show ?thesis using Some y x d s by metis
  qed
qed

lemma stored_hashes_order:
  assumes "same_tables db db'" "keyed db"
  shows "stored_hashes db h = stored_hashes db' h"
proof -
  have "find (\<lambda>r. hr_block_index r = h) (hb_blocks db) = find (\<lambda>r. hr_block_index r = h) (hb_blocks db')"
    by (rule find_key) (use assms in \<open>simp_all add: same_tables_def keyed_def\<close>)
  then show ?thesis using assms(1) by (simp add: stored_hashes_def same_tables_def split: option.split)
qed

lemma preimages_order:
  assumes "same_tables db db'" "keyed db" "inj coll"
  shows "preimages coll w db h = preimages coll w db' h"
proof -
  have t: "mset (hb_credits db) = mset (hb_credits db')" "mset (hb_debits db) = mset (hb_debits db')" "mset (hb_escrows db) = mset (hb_escrows db')"
    "mset (hb_deposits db) = mset (hb_deposits db')" "mset (hb_withdrawals db) = mset (hb_withdrawals db')"
    using assms(1) by (simp_all add: same_tables_def)
  note rows = t(1-3)[THEN ledger_rows_order[OF assms(1) _ assms(3)]] t(4-5)[THEN transfer_rows_order[OF assms(1) _ assms(3)]]
    action_rows_order[OF assms(1,2)] contract_rows_order[OF assms(1,2)] execution_rows_order[OF assms(1,2)]
    emission_rows_order[OF assms(1,2)] state_rows_order[OF assms(1,2)] stored_hashes_order[OF assms(1,2)]
  show ?thesis
    by (simp only: preimages_def ledger_preimage_def actions_preimage_def contracts_preimage_def rows)
qed

section \<open>A chain of hashes binds the history\<close>

definition hashed_texts :: "(cell \<Rightarrow> cell) \<Rightarrow> (string \<Rightarrow> string) \<Rightarrow> hash_db \<Rightarrow> int \<Rightarrow> string list" where
  "hashed_texts coll weight db h = (case preimages coll weight db h of (l, a, c) \<Rightarrow> map stringify [l, a, c])"

text \<open>The stored hashes of a height are the recomputed ones, as the integrity check of the client demands.\<close>

definition committed_at :: "hash_fn \<Rightarrow> (cell \<Rightarrow> cell) \<Rightarrow> (string \<Rightarrow> string) \<Rightarrow> string \<Rightarrow> string \<Rightarrow> hash_db \<Rightarrow> int \<Rightarrow> bool" where
  "committed_at H coll fold_key network coin db h =
     (stored_hashes db h =
       (case computeBlockHashes H coll fold_key db h network coin of (l, a, c) \<Rightarrow> Some (CText l, CText a, CText c)))"

definition collision_at :: "hash_fn \<Rightarrow> string list \<Rightarrow> string list \<Rightarrow> bool" where
  "collision_at H xs ys = list_ex (\<lambda>(x, y). x \<noteq> y \<and> H x = H y) (zip xs ys)"

lemma getDataHash_eq: "getDataHash H x = getDataHash H y \<longleftrightarrow> H (stringify x) = H (stringify y)"
  by (simp add: getDataHash_def hexenc_inject)

lemma hashes_bind_block:
  assumes "hashes_from H coll w db h = hashes_from H coll' w' db' h'"
  shows "view_of coll w db h = view_of coll' w' db' h' \<or> collision_at H (hashed_texts coll w db h) (hashed_texts coll' w' db' h')"
proof -
  obtain l a c where p: "preimages coll w db h = (l, a, c)" by (metis prod_cases3)
  obtain l' a' c' where q: "preimages coll' w' db' h' = (l', a', c')" by (metis prod_cases3)
  have e: "H (stringify l) = H (stringify l')" "H (stringify a) = H (stringify a')" "H (stringify c) = H (stringify c')"
    using assms by (simp_all add: hashes_from_preimages p q getDataHash_eq)
  show ?thesis
  proof (cases "l = l' \<and> a = a' \<and> c = c'")
    case True
    then have "preimages coll w db h = preimages coll' w' db' h'" using p q by simp
    then show ?thesis using preimages_determine by blast
  next
    case False
    then show ?thesis using e by (auto simp: collision_at_def hashed_texts_def p q stringify_inject)
  qed
qed

lemma committed_bind:
  assumes "committed_at H coll f network coin db h" "committed_at H coll' f' network coin db' h" "stored_hashes db h = stored_hashes db' h"
  shows "computeBlockHashes H coll f db h network coin = computeBlockHashes H coll' f' db' h network coin"
  using assms
  by (cases "computeBlockHashes H coll f db h network coin"; cases "computeBlockHashes H coll' f' db' h network coin")
     (simp add: committed_at_def)

section \<open>Two committed blocks\<close>

text \<open>A source with two committed blocks, and a replica of it that holds the rows in another order.\<close>

definition demo_ledger :: hash_db where
  "demo_ledger = \<lparr>hb_credits = [\<lparr>lg_action_index = 1, lg_address_id = CNum 1, lg_tick_id = CNum 1, lg_amount = CText ''5''\<rparr>,
       \<lparr>lg_action_index = 1, lg_address_id = CNum 2, lg_tick_id = CNum 1, lg_amount = CText ''7''\<rparr>],
     hb_debits = [], hb_escrows = [], hb_actions = [\<lparr>ac_action_index = 1, ac_tx_index = CNum 9, ac_action_id = CNum 1, ac_block_index = 4\<rparr>],
     hb_contracts = [], hb_contract_state = [], hb_executions = [], hb_emissions = [], hb_deposits = [], hb_withdrawals = [],
     hb_blocks = [\<lparr>hr_block_index = 4, hr_ledger_hash_id = CNum 41, hr_actions_hash_id = CNum 42, hr_contract_hash_id = CNum 43\<rparr>,
       \<lparr>hr_block_index = 5, hr_ledger_hash_id = CNum 51, hr_actions_hash_id = CNum 52, hr_contract_hash_id = CNum 53\<rparr>],
     hb_addresses = [CNum 1 \<mapsto> ''b'', CNum 2 \<mapsto> ''a''], hb_tickers = [CNum 1 \<mapsto> ''X''], hb_action_names = [CNum 1 \<mapsto> ''MINT''],
     hb_statuses = Map.empty, hb_transactions = Map.empty\<rparr>"

definition commit_block :: "hash_fn \<Rightarrow> int \<Rightarrow> hash_db \<Rightarrow> hash_db" where
  "commit_block H h db = (case computeBlockHashes H id id db h ''regtest'' ''BTC'' of
     (l, a, c) \<Rightarrow> db\<lparr>hb_transactions := (hb_transactions db)(CNum (10 * h + 1) \<mapsto> l, CNum (10 * h + 2) \<mapsto> a, CNum (10 * h + 3) \<mapsto> c)\<rparr>)"

definition demo_shuffled :: hash_db where
  "demo_shuffled = demo_ledger\<lparr>hb_credits := rev (hb_credits demo_ledger), hb_blocks := rev (hb_blocks demo_ledger)\<rparr>"

lemma rows_of_update [simp]:
  "ledger_rows coll (db\<lparr>hb_transactions := t\<rparr>) h = ledger_rows coll db h" "transfer_rows coll (db\<lparr>hb_transactions := t\<rparr>) h = transfer_rows coll db h"
  "action_rows (db\<lparr>hb_transactions := t\<rparr>) h = action_rows db h" "contract_rows (db\<lparr>hb_transactions := t\<rparr>) h = contract_rows db h"
  "state_rows w (db\<lparr>hb_transactions := t\<rparr>) h = state_rows w db h" "execution_rows (db\<lparr>hb_transactions := t\<rparr>) h = execution_rows db h"
  "emission_rows (db\<lparr>hb_transactions := t\<rparr>) h = emission_rows db h"
proof -
  show "ledger_rows coll (db\<lparr>hb_transactions := t\<rparr>) h = ledger_rows coll db h" by (intro ext) (simp add: ledger_rows_def in_block_def block_actions_def)
  show "transfer_rows coll (db\<lparr>hb_transactions := t\<rparr>) h = transfer_rows coll db h" by (intro ext) (simp add: transfer_rows_def in_block_def block_actions_def)
  show "action_rows (db\<lparr>hb_transactions := t\<rparr>) h = action_rows db h" by (simp add: action_rows_def)
  show "contract_rows (db\<lparr>hb_transactions := t\<rparr>) h = contract_rows db h" by (simp add: contract_rows_def in_block_def block_actions_def)
  show "state_rows w (db\<lparr>hb_transactions := t\<rparr>) h = state_rows w db h" by (simp add: state_rows_def)
  show "execution_rows (db\<lparr>hb_transactions := t\<rparr>) h = execution_rows db h" by (simp add: execution_rows_def in_block_def block_actions_def)
  show "emission_rows (db\<lparr>hb_transactions := t\<rparr>) h = emission_rows db h" by (simp add: emission_rows_def in_block_def block_actions_def)
qed

lemma preimages_update:
  assumes "stored_hashes (db\<lparr>hb_transactions := t\<rparr>) (h - 1) = stored_hashes db (h - 1)"
  shows "preimages coll w (db\<lparr>hb_transactions := t\<rparr>) h = preimages coll w db h"
  by (simp add: preimages_def assms ledger_preimage_def actions_preimage_def contracts_preimage_def)

text \<open>Writing the computed hashes of a block under the ids of its header row commits it and leaves the other heights alone.\<close>

definition header_ids :: "hash_db \<Rightarrow> bool" where
  "header_ids db \<longleftrightarrow> (\<forall>r \<in> set (hb_blocks db). hr_ledger_hash_id r = CNum (10 * hr_block_index r + 1) \<and>
     hr_actions_hash_id r = CNum (10 * hr_block_index r + 2) \<and> hr_contract_hash_id r = CNum (10 * hr_block_index r + 3))"

lemma commit_block_tables: "hb_blocks (commit_block H h db) = hb_blocks db"
  by (simp add: commit_block_def split: prod.split)

lemma commit_block_shape:
  obtains t where "commit_block H h db = db\<lparr>hb_transactions := t\<rparr>"
  by (cases "computeBlockHashes H id id db h ''regtest'' ''BTC''") (simp add: commit_block_def)

lemma commit_block_other:
  assumes "header_ids db" "k \<noteq> h"
  shows "stored_hashes (commit_block H h db) k = stored_hashes db k"
proof (cases "find (\<lambda>r. hr_block_index r = k) (hb_blocks db)")
  case (Some r)
  then have "hr_block_index r = k" "r \<in> set (hb_blocks db)" by (auto simp: find_Some_iff)
  moreover have "10 * k + a \<noteq> 10 * h + b" if "a \<in> {1, 2, 3}" "b \<in> {1, 2, 3}" for a b :: int using that assms(2) by auto
  ultimately show ?thesis using assms(1) Some
    by (auto simp: stored_hashes_def commit_block_def header_ids_def resolve_def split: prod.split)
qed (simp add: stored_hashes_def commit_block_def split: prod.split)

lemma commit_block_commits:
  assumes "header_ids db" "h \<in> hr_block_index ` set (hb_blocks db)"
  shows "committed_at H id id ''regtest'' ''BTC'' (commit_block H h db) h"
proof -
  obtain l a c where k: "computeBlockHashes H id id db h ''regtest'' ''BTC'' = (l, a, c)" by (metis prod_cases3)
  obtain r where r: "find (\<lambda>r. hr_block_index r = h) (hb_blocks db) = Some r"
    using assms(2) by (cases "find (\<lambda>r. hr_block_index r = h) (hb_blocks db)") (auto simp: find_None_iff)
  then have "hr_block_index r = h" "r \<in> set (hb_blocks db)" by (auto simp: find_Some_iff)
  then have "stored_hashes (commit_block H h db) h = Some (CText l, CText a, CText c)"
    using assms(1) r by (simp add: stored_hashes_def commit_block_def header_ids_def resolve_def k)
  moreover have "computeBlockHashes H id id (commit_block H h db) h ''regtest'' ''BTC'' = (l, a, c)"
  proof -
    obtain t where t: "commit_block H h db = db\<lparr>hb_transactions := t\<rparr>" by (rule commit_block_shape)
    then have "stored_hashes (db\<lparr>hb_transactions := t\<rparr>) (h - 1) = stored_hashes db (h - 1)"
      using commit_block_other[OF assms(1), of "h - 1" h H] by simp
    from preimages_update[OF this] show ?thesis using k by (simp only: t computeBlockHashes_def hashes_from_preimages)
  qed
  ultimately show ?thesis by (simp add: committed_at_def)
qed

lemma committed_kept:
  assumes "committed_at H id id ''regtest'' ''BTC'' db k" "header_ids db" "k < h"
  shows "committed_at H id id ''regtest'' ''BTC'' (commit_block H h db) k"
proof -
  obtain t where t: "commit_block H h db = db\<lparr>hb_transactions := t\<rparr>" by (rule commit_block_shape)
  have "stored_hashes (db\<lparr>hb_transactions := t\<rparr>) (k - 1) = stored_hashes db (k - 1)"
    using commit_block_other[OF assms(2), of "k - 1" h H] assms(3) t by simp
  from preimages_update[OF this] show ?thesis
    using assms commit_block_other[OF assms(2), of k h H] by (simp add: committed_at_def t computeBlockHashes_def hashes_from_preimages)
qed

definition demo_chain :: "hash_fn \<Rightarrow> hash_db \<Rightarrow> hash_db" where
  "demo_chain H db = commit_block H 5 (commit_block H 4 db)"

lemma demo_ids: "header_ids demo_ledger" "header_ids demo_shuffled" "4 \<in> hr_block_index ` set (hb_blocks demo_ledger)"
    "5 \<in> hr_block_index ` set (hb_blocks demo_ledger)" "set (hb_blocks demo_shuffled) = set (hb_blocks demo_ledger)"
  by (auto simp: header_ids_def demo_shuffled_def demo_ledger_def)

lemma demo_committed:
  assumes "header_ids db" "4 \<in> hr_block_index ` set (hb_blocks db)" "5 \<in> hr_block_index ` set (hb_blocks db)"
  shows "\<forall>h \<in> {4..5}. committed_at H id id ''regtest'' ''BTC'' (demo_chain H db) h"
proof
  fix h :: int
  assume "h \<in> {4..5}"
  then consider "h = 4" | "h = 5" by fastforce
  moreover have "header_ids (commit_block H 4 db)" "5 \<in> hr_block_index ` set (hb_blocks (commit_block H 4 db))"
    using assms by (simp_all add: header_ids_def commit_block_tables)
  ultimately show "committed_at H id id ''regtest'' ''BTC'' (demo_chain H db) h"
    using commit_block_commits committed_kept[OF commit_block_commits[OF assms(1,2)]] by cases (simp_all add: demo_chain_def)
qed

lemma commit_same_tables:
  assumes "same_tables db db'" "keyed db"
  shows "same_tables (commit_block H h db) (commit_block H h db')" "keyed (commit_block H h db)"
proof -
  have "computeBlockHashes H id id db h ''regtest'' ''BTC'' = computeBlockHashes H id id db' h ''regtest'' ''BTC''"
    by (simp only: computeBlockHashes_def hashes_from_preimages preimages_order[OF assms inj_on_id])
  then show "same_tables (commit_block H h db) (commit_block H h db')"
    using assms(1) by (simp add: commit_block_def same_tables_def split: prod.split)
  show "keyed (commit_block H h db)" using assms(2) by (simp add: commit_block_def keyed_def split: prod.split)
qed

lemma demo_same: "same_tables demo_ledger demo_shuffled" "keyed demo_ledger"
  by (simp_all add: same_tables_def keyed_def demo_shuffled_def demo_ledger_def)

section \<open>The theorems\<close>

text \<open>The recomputed hashes are a function of the contents of the tables: a replica that holds the same rows in any other
  storage order computes the same three hashes at every height, as long as the keys of the tables are unique and no two amounts
  have one weight in the collation of the amount column.\<close>

theorem block_hashes_order_independent:
  assumes "same_tables db db'" "keyed db" "inj coll"
  shows "computeBlockHashes H coll fold_key db h network coin = computeBlockHashes H coll fold_key db' h network coin"
  by (simp only: computeBlockHashes_def hashes_from_preimages preimages_order[OF assms])

theorem block_hashes_order_independent_witness:
  "demo_ledger \<noteq> demo_shuffled \<and>
   computeBlockHashes id id id demo_ledger 4 ''regtest'' ''BTC'' = computeBlockHashes id id id demo_shuffled 4 ''regtest'' ''BTC''"
  using block_hashes_order_independent[OF demo_same inj_on_id, of id] by (simp add: demo_shuffled_def demo_ledger_def)

text \<open>(C14) The chained hashes bind the whole history behind them: two replicas whose stored hashes are the recomputed ones at
  every height from \<open>lo\<close> to \<open>n\<close>, and equal at \<open>n\<close>, have the same hashed rows and the same predecessor hashes at every height of
  the range, or at some height of it two different texts of theirs with the same digest.\<close>

theorem hash_chain_binds_history:
  assumes "lo \<le> n" "stored_hashes db n = stored_hashes db' n"
    and "\<forall>h \<in> {lo..n}. committed_at H coll fold_key network coin db h"
    and "\<forall>h \<in> {lo..n}. committed_at H coll' fold_key' network coin db' h"
  shows "(\<forall>h \<in> {lo..n}. view_of coll (state_key_weight fold_key network coin h) db h = view_of coll' (state_key_weight fold_key' network coin h) db' h) \<or>
    (\<exists>h \<in> {lo..n}. collision_at H (hashed_texts coll (state_key_weight fold_key network coin h) db h)
       (hashed_texts coll' (state_key_weight fold_key' network coin h) db' h))"
proof (rule disjCI)
  assume none: "\<not> (\<exists>h \<in> {lo..n}. collision_at H (hashed_texts coll (state_key_weight fold_key network coin h) db h)
       (hashed_texts coll' (state_key_weight fold_key' network coin h) db' h))"
  let ?same = "\<lambda>h. view_of coll (state_key_weight fold_key network coin h) db h = view_of coll' (state_key_weight fold_key' network coin h) db' h"
  have step: "?same h" if "h \<in> {lo..n}" "stored_hashes db h = stored_hashes db' h" for h
    using hashes_bind_block[OF committed_bind[unfolded computeBlockHashes_def, OF _ _ that(2)]] assms(3,4) none that(1) by blast
  have "stored_hashes db (n - int k) = stored_hashes db' (n - int k)" if "lo \<le> n - int k" for k
    using that
  proof (induction k)
    case (Suc k)
    then have "?same (n - int k)" by (intro step) auto
    then have "stored_hashes db (n - int k - 1) = stored_hashes db' (n - int k - 1)" by (simp add: view_of_def)
    then show ?case by (simp add: algebra_simps)
  qed (use assms(2) in simp)
  note earlier = this
  have "stored_hashes db h = stored_hashes db' h" if "h \<in> {lo..n}" for h
    using earlier[of "nat (n - h)"] that by simp
  then show "\<forall>h \<in> {lo..n}. ?same h" using step by blast
qed

lemma no_collision_id: "\<not> collision_at id xs ys"
  by (auto simp: collision_at_def list_ex_iff)

theorem hash_chain_binds_history_witness:
  "view_of id (state_key_weight id ''regtest'' ''BTC'' 4) (demo_chain id demo_ledger) 4 =
   view_of id (state_key_weight id ''regtest'' ''BTC'' 4) (demo_chain id demo_shuffled) 4"
proof -
  have t: "same_tables (demo_chain id demo_ledger) (demo_chain id demo_shuffled)" "keyed (demo_chain id demo_ledger)"
    unfolding demo_chain_def
    by (rule commit_same_tables[OF commit_same_tables[OF demo_same]])+
  have "5 \<in> hr_block_index ` set (hb_blocks demo_shuffled)" "4 \<in> hr_block_index ` set (hb_blocks demo_shuffled)"
    using demo_ids by auto
  from hash_chain_binds_history[OF _ stored_hashes_order[OF t] demo_committed[OF demo_ids(1,3,4)] demo_committed[OF demo_ids(2) this(2,1)]]
  show ?thesis by (simp add: no_collision_id)
qed

section \<open>Names of the object prototype\<close>

text \<open>A row of an address that is the name of a function of \<^verbatim>\<open>Object.prototype\<close> is hashed without its address.\<close>

lemma prototype_names_share_hash:
  "ledger_json [(CNum 1, CText ''constructor'', CText ''X'', CText ''5'')] = ledger_json [(CNum 1, CText ''toString'', CText ''X'', CText ''5'')]"
proof -
  have "canonicalizeHashAddress (CText ''constructor'') = None" "canonicalizeHashAddress (CText ''toString'') = None" by code_simp+
  then show ?thesis by (simp add: ledger_json_def)
qed

end
