(* ===== verification/Table_Lifecycle.thy ===== *)
theory Table_Lifecycle
  imports Sync_Prelude
begin

text \<open>
  The registry of tables (\<^verbatim>\<open>src/src/table_lifecycle.js\<close> with its two parts under \<^verbatim>\<open>src/src/table_lifecycle/\<close>) and the stream
  topology of \<^verbatim>\<open>src/src/schema/replicated_tables.js\<close>: how each table reaches a follower, how a reorg unwinds it on the source and
  on a replica, and which hash covers it.
\<close>

section \<open>The registry\<close>

datatype replication = StreamAction | StreamBlock | StreamIndex | StreamSpecial | SnapshotOnly | HubMirror | NodeLocal | FollowerDerived

datatype unwinding = ByAction | ByBlock | ByIndex | Recomputed | Bespoke | Exempt | Lookup | LocalOnly | Mirror

datatype hash_class = LedgerHash | ActionsHash | ContractsHash | StateHash | StateCommitment | IndexMap | Quorum

record lifecycle_entry =
  lc_table :: string
  lc_replication :: replication
  lc_rollback :: "unwinding option"
  lc_replicaRollback :: unwinding
  lc_blockKey :: "string option"
  lc_hashed :: "hash_class list"

definition entry_of :: "string \<Rightarrow> replication \<Rightarrow> unwinding option \<Rightarrow> unwinding \<Rightarrow> string option \<Rightarrow> hash_class list \<Rightarrow> lifecycle_entry" where
  "entry_of t rep rb rrb key cls =
     \<lparr>lc_table = t, lc_replication = rep, lc_rollback = rb, lc_replicaRollback = rrb, lc_blockKey = key, lc_hashed = cls\<rparr>"

definition by_action :: "string \<Rightarrow> hash_class list \<Rightarrow> lifecycle_entry" where
  "by_action t cls = entry_of t StreamAction (Some ByAction) Mirror None cls"

definition ACTION_TABLES :: "lifecycle_entry list" where
  "ACTION_TABLES = [
    by_action ''actions'' [ActionsHash], by_action ''addresses'' [], by_action ''airdrops'' [], by_action ''batches'' [],
    by_action ''broadcasts'' [], by_action ''callbacks'' [], by_action ''credits'' [LedgerHash, StateHash],
    by_action ''debits'' [LedgerHash], by_action ''coinpay_expires'' [], by_action ''coinpay_obligations'' [],
    by_action ''coinpay_statuses'' [], by_action ''coinpays'' [], by_action ''destroys'' [], by_action ''dispensers'' [],
    by_action ''dispenser_cancels'' [], by_action ''dispenser_closes'' [], by_action ''dispenser_edits'' [],
    by_action ''dispenser_expires'' [], by_action ''dispenser_statuses'' [], by_action ''dispenses'' [], by_action ''dividends'' [],
    by_action ''escrows'' [LedgerHash], by_action ''fees'' [], by_action ''files'' [], by_action ''gated_files'' [],
    by_action ''issues'' [], by_action ''links'' [], by_action ''lists'' [], by_action ''list_edits'' [], by_action ''list_items'' [],
    by_action ''list_items_invalid'' [], by_action ''list_transfers'' [], by_action ''list_metas'' [],
    by_action ''mappings_actions'' [], by_action ''mappings_files'' [], by_action ''messages'' [], by_action ''mints'' [],
    by_action ''orders'' [], by_action ''order_cancels'' [], by_action ''order_edits'' [], by_action ''order_expires'' [],
    by_action ''order_matches'' [], by_action ''order_statuses'' [], by_action ''sends'' [], by_action ''xbridges'' [],
    by_action ''sleeps'' [], by_action ''swaps'' [], by_action ''swap_cancels'' [], by_action ''swap_edits'' [],
    by_action ''swap_expires'' [], by_action ''swap_matches'' [], by_action ''swap_statuses'' [],
    by_action ''cross_chain_settlements'' [], by_action ''bridge_settlements'' [], by_action ''list_share_mirrors'' [],
    by_action ''cross_chain_call_executions'' [], by_action ''cross_chain_call_callbacks'' [], by_action ''xcalls'' [StateHash],
    by_action ''sweeps'' [], by_action ''tokens'' [StateHash], by_action ''stakes'' [StateHash, StateCommitment],
    by_action ''unstakes'' [StateHash], by_action ''delegations'' [StateHash], by_action ''stake_key_revocations'' [],
    by_action ''reward_claims'' [], by_action ''full_node_verifications'' [], by_action ''rollcall_signers'' [],
    by_action ''rollcall_actions'' [], by_action ''contracts'' [ContractsHash], by_action ''contract_permissions'' [],
    by_action ''deploy_chunks'' [], by_action ''contract_stakes'' [StateHash], by_action ''contract_unstakes'' [StateHash],
    by_action ''contract_delegations'' [StateHash], by_action ''contract_executions'' [ContractsHash],
    by_action ''deposits'' [ContractsHash], by_action ''withdrawals'' [ContractsHash], by_action ''anchor_actions'' [StateHash],
    by_action ''attests'' [StateHash], by_action ''prices'' [],
    entry_of ''pending_hub_pushes'' NodeLocal (Some ByAction) LocalOnly None [], by_action ''token_controllers'' [],
    by_action ''address_controllers'' [], by_action ''polls'' [StateHash], by_action ''bet_feeds'' [StateHash],
    by_action ''bets'' [StateHash], by_action ''bet_feed_statuses'' [], by_action ''bet_statuses'' [], by_action ''bet_cancels'' [],
    by_action ''bet_resolves'' [], by_action ''bet_edits'' [], by_action ''votes'' [], by_action ''poll_results'' [],
    by_action ''vote_delegations'' []]"

definition BLOCK_AND_SPECIAL_TABLES :: "lifecycle_entry list" where
  "BLOCK_AND_SPECIAL_TABLES = [
    entry_of ''blocks'' StreamBlock (Some ByBlock) Mirror None [], entry_of ''transactions'' StreamBlock (Some ByBlock) Mirror None [],
    entry_of ''validator_rewards'' StreamBlock (Some ByBlock) Mirror None [],
    entry_of ''rollcalls'' StreamBlock (Some Bespoke) Bespoke (Some ''close_block'') [],
    entry_of ''rollcall_gates'' StreamBlock (Some Bespoke) Bespoke (Some ''close_block'') [],
    entry_of ''rollcall_absences'' StreamBlock (Some Bespoke) Bespoke (Some ''close_block'') [],
    entry_of ''contract_state'' StreamBlock (Some ByBlock) Mirror None [ContractsHash],
    entry_of ''escrow_leaf_journal'' StreamBlock (Some ByBlock) Mirror None [StateCommitment],
    entry_of ''slash_events'' StreamBlock (Some ByBlock) Mirror None [],
    entry_of ''contract_slash_debits'' StreamBlock (Some ByBlock) Mirror None [],
    entry_of ''contract_delegation_rotations'' StreamBlock (Some ByBlock) Mirror None [],
    entry_of ''capability_slash_events'' StreamBlock (Some ByBlock) Mirror None [],
    entry_of ''capability_slash_debits'' StreamBlock (Some ByBlock) Mirror None [],
    entry_of ''anchor_reward_reconcile_log'' StreamBlock (Some ByBlock) Mirror None [],
    entry_of ''state_tree_roots'' FollowerDerived (Some ByBlock) Mirror None [StateCommitment],
    entry_of ''index_addresses'' StreamIndex (Some ByIndex) Mirror None [IndexMap],
    entry_of ''index_tickers'' StreamIndex (Some ByIndex) Mirror None [IndexMap],
    entry_of ''balances'' SnapshotOnly (Some Recomputed) Recomputed None [StateCommitment],
    entry_of ''markets'' SnapshotOnly (Some Recomputed) Bespoke None [],
    entry_of ''attest_validator_stats'' SnapshotOnly (Some Recomputed) Bespoke None [],
    entry_of ''contract_emissions'' StreamAction (Some Bespoke) Bespoke None [ContractsHash],
    entry_of ''icons'' NodeLocal (Some Bespoke) Bespoke None [], entry_of ''pubkeys'' SnapshotOnly (Some Bespoke) Bespoke None [],
    entry_of ''price_snapshots'' HubMirror (Some Bespoke) Bespoke None [Quorum],
    entry_of ''events'' SnapshotOnly (Some Exempt) Exempt None [],
    entry_of ''recovery_pending_rewards'' NodeLocal (Some Exempt) LocalOnly None [],
    entry_of ''cross_chain_call_rejections'' NodeLocal (Some Exempt) LocalOnly None [],
    entry_of ''push_generations'' NodeLocal (Some Exempt) LocalOnly None [],
    entry_of ''cross_chain_matches'' HubMirror (Some Exempt) Bespoke None [Quorum],
    entry_of ''cross_chain_calls'' HubMirror (Some Exempt) Bespoke None [Quorum],
    entry_of ''bridge_transfers'' HubMirror (Some Exempt) Bespoke None [Quorum],
    entry_of ''oracle_prices'' HubMirror (Some Exempt) Bespoke None [],
    entry_of ''capability_snapshots'' HubMirror (Some Exempt) Exempt None [Quorum],
    entry_of ''state_checkpoints'' HubMirror (Some Exempt) Exempt None [Quorum],
    entry_of ''policy_snapshots'' HubMirror (Some Exempt) Exempt None [Quorum],
    entry_of ''list_snapshots'' HubMirror (Some Exempt) Exempt None [Quorum],
    entry_of ''remote_token_snapshots'' HubMirror (Some Exempt) Exempt None [Quorum],
    entry_of ''anchor_reward_attestations'' HubMirror (Some Exempt) Exempt None [],
    entry_of ''anchor_reward_attestation_copies'' NodeLocal (Some Exempt) Exempt None [],
    entry_of ''attestation_responses'' HubMirror (Some Exempt) Exempt None [],
    entry_of ''state_tree_nodes'' SnapshotOnly (Some Exempt) Exempt None [StateCommitment],
    entry_of ''index_actions'' StreamIndex (Some Lookup) Lookup None [],
    entry_of ''index_coins'' StreamIndex (Some Lookup) Lookup None [],
    entry_of ''index_fiats'' StreamIndex (Some Lookup) Lookup None [],
    entry_of ''index_memos'' StreamIndex (Some Lookup) Lookup None [],
    entry_of ''index_mime_types'' StreamIndex (Some Lookup) Lookup None [],
    entry_of ''index_pubkeys'' StreamIndex (Some Lookup) Lookup None [],
    entry_of ''index_statuses'' StreamIndex (Some Lookup) Lookup None [],
    entry_of ''index_transactions'' StreamIndex (Some Lookup) Lookup None [],
    entry_of ''sync_meta'' StreamSpecial None Bespoke None [], entry_of ''merkle_epochs'' SnapshotOnly None Bespoke None []]"

definition TABLES :: "lifecycle_entry list" where
  "TABLES = ACTION_TABLES @ BLOCK_AND_SPECIAL_TABLES"

section \<open>Derived lists\<close>

definition lifecycle_row :: "string \<Rightarrow> lifecycle_entry option" where
  "lifecycle_row t = find (\<lambda>e. lc_table e = t) TABLES"

definition tablesWhere :: "(lifecycle_entry \<Rightarrow> bool) \<Rightarrow> string list" where
  "tablesWhere P = map lc_table (filter P TABLES)"

record rollback_lists =
  rl_data :: "string list"
  rl_block :: "string list"
  rl_index :: "string list"

definition rollbackTables :: rollback_lists where
  "rollbackTables = \<lparr>rl_data = tablesWhere (\<lambda>e. lc_rollback e = Some ByAction), rl_block = tablesWhere (\<lambda>e. lc_rollback e = Some ByBlock),
     rl_index = tablesWhere (\<lambda>e. lc_rollback e = Some ByIndex)\<rparr>"

definition replicaRollbackTables :: rollback_lists where
  "replicaRollbackTables =
     \<lparr>rl_data = tablesWhere (\<lambda>e. lc_rollback e = Some ByAction \<and> lc_replicaRollback e = Mirror),
      rl_block = tablesWhere (\<lambda>e. lc_rollback e = Some ByBlock \<and> lc_replicaRollback e = Mirror),
      rl_index = tablesWhere (\<lambda>e. lc_rollback e = Some ByIndex \<and> lc_replicaRollback e = Mirror)\<rparr>"

record topology =
  tp_blockScoped :: "string list"
  tp_txScoped :: "string list"
  tp_actionScoped :: "string list"
  tp_index :: "string list"
  tp_special :: "string list"

definition streamTopology :: topology where
  "streamTopology =
     \<lparr>tp_blockScoped = tablesWhere (\<lambda>e. lc_replication e = StreamBlock), tp_txScoped = [],
      tp_actionScoped = tablesWhere (\<lambda>e. lc_replication e = StreamAction), tp_index = tablesWhere (\<lambda>e. lc_replication e = StreamIndex),
      tp_special = tablesWhere (\<lambda>e. lc_replication e = StreamSpecial)\<rparr>"

definition scope_column :: "lifecycle_entry \<Rightarrow> string" where
  "scope_column e = (case lc_blockKey e of Some k \<Rightarrow> k | None \<Rightarrow> ''block_index'')"

definition blockKey :: "string \<Rightarrow> string" where
  "blockKey t = (case lifecycle_row t of Some e \<Rightarrow> scope_column e | None \<Rightarrow> ''block_index'')"

definition hashClassTables :: "hash_class \<Rightarrow> string list" where
  "hashClassTables c = tablesWhere (\<lambda>e. c \<in> set (lc_hashed e))"

section \<open>Topology\<close>

definition decoder_topology :: topology where
  "decoder_topology =
     \<lparr>tp_blockScoped = [''blocks'', ''transactions''], tp_txScoped = [''transaction_outputs''], tp_actionScoped = [],
      tp_index = [''index_addresses'', ''index_transactions'', ''pubkeys'', ''events''], tp_special = [''dispensers'']\<rparr>"

definition getTopology :: "string \<Rightarrow> topology" where
  "getTopology dbType = (if dbType = ''decoder'' then decoder_topology else streamTopology)"

definition getReplicatedTables :: "string \<Rightarrow> string list" where
  "getReplicatedTables dbType =
     (let t = getTopology dbType in
      rev (remdups (rev (tp_blockScoped t @ tp_txScoped t @ tp_actionScoped t @ tp_index t @ tp_special t))))"

section \<open>Every streamed table is unwound\<close>

lemma where_member: "e \<in> set TABLES \<Longrightarrow> P e \<Longrightarrow> lc_table e \<in> set (tablesWhere P)"
  by (auto simp: tablesWhere_def)

lemmas registry_defs = TABLES_def ACTION_TABLES_def BLOCK_AND_SPECIAL_TABLES_def by_action_def entry_of_def

lemma stream_block_rows:
  "list_all (\<lambda>e. lc_replication e = StreamBlock \<longrightarrow>
     lc_rollback e = Some ByBlock \<and> lc_replicaRollback e = Mirror \<and> lc_blockKey e = None \<or>
     lc_table e \<in> set [''rollcall_gates'', ''rollcall_absences'', ''rollcalls''] \<and> lc_blockKey e = Some ''close_block'') TABLES"
  by (simp add: registry_defs)

lemma stream_action_rows:
  "list_all (\<lambda>e. lc_replication e = StreamAction \<longrightarrow>
     lc_rollback e = Some ByAction \<and> lc_replicaRollback e = Mirror \<or> lc_table e = ''contract_emissions'') TABLES"
  by (simp add: registry_defs)

lemma balances_row: "list_all (\<lambda>e. lc_table e = ''balances'' \<longrightarrow> lc_rollback e = Some Recomputed \<and> lc_replication e = SnapshotOnly) TABLES"
  by (simp add: registry_defs)

end
