(* ===== verification/Ledger_Aggregates.thy ===== *)
theory Ledger_Aggregates
  imports Row_Store State_Commitment
begin

text \<open>
  The aggregates a replica derives from its ledger rows (\<^verbatim>\<open>src/src/db/balance_helpers.js\<close>): the balances, rebuilt whole or inside a
  rectangle of addresses and ticks, the token supplies, and the scope the applier of \<^verbatim>\<open>src/src/client/applier.js\<close> collects from the rows
  of a block.  \<^verbatim>\<open>CAST(x AS DECIMAL)\<close> of an amount text is a parameter that counts units of ten to the minus eighteen.
\<close>

section \<open>Balances\<close>

definition amount_units :: "(string \<Rightarrow> int) \<Rightarrow> cell \<Rightarrow> int option" where
  "amount_units cast v = (case v of CText s \<Rightarrow> Some (cast s) | CNum n \<Rightarrow> Some (n * 10 ^ 18) | CNull \<Rightarrow> None)"

definition units_or_zero :: "(string \<Rightarrow> int) \<Rightarrow> cell \<Rightarrow> int" where
  "units_or_zero cast v = (case amount_units cast v of None \<Rightarrow> 0 | Some n \<Rightarrow> n)"

definition row_pair :: "row \<Rightarrow> cell \<times> cell" where
  "row_pair r = (r ''address_id'', r ''tick_id'')"

definition pair_sum :: "(string \<Rightarrow> int) \<Rightarrow> row list \<Rightarrow> cell \<times> cell \<Rightarrow> int" where
  "pair_sum cast rows p = (\<Sum>r \<leftarrow> filter (\<lambda>r. row_pair r = p) rows. units_or_zero cast (r ''amount''))"

definition pair_net :: "(string \<Rightarrow> int) \<Rightarrow> store \<Rightarrow> cell \<times> cell \<Rightarrow> int" where
  "pair_net cast st p = pair_sum cast (rows_of st ''credits'') p - pair_sum cast (rows_of st ''debits'') p"

type_synonym scope = "(cell list \<times> cell list) option"

definition in_scope :: "scope \<Rightarrow> cell \<times> cell \<Rightarrow> bool" where
  "in_scope scope p =
     (case scope of
        None \<Rightarrow> True
      | Some (addresses, ticks) \<Rightarrow> fst p \<noteq> CNull \<and> fst p \<in> set addresses \<and> snd p \<noteq> CNull \<and> snd p \<in> set ticks)"

definition balance_row :: "cell \<times> cell \<Rightarrow> string \<Rightarrow> row" where
  "balance_row p amount = (\<lambda>_. CNull)(''address_id'' := fst p, ''tick_id'' := snd p, ''amount'' := CText amount)"

text \<open>\<^verbatim>\<open>GROUP BY\<close> takes \<^verbatim>\<open>NULL\<close> as one group; \<^verbatim>\<open>HAVING\<close> drops the groups without a balance.\<close>

definition grouped_rows :: "(string \<Rightarrow> int) \<Rightarrow> scope \<Rightarrow> store \<Rightarrow> row list" where
  "grouped_rows cast scope st =
     map (\<lambda>p. balance_row p (minimalDecimal (pair_net cast st p)))
       (filter (\<lambda>p. in_scope scope p \<and> pair_net cast st p \<noteq> 0) (remdups (map row_pair (rows_of st ''credits'' @ rows_of st ''debits''))))"

definition LEDGER_COLUMNS :: "string list" where
  "LEDGER_COLUMNS = [''address_id'', ''tick_id'', ''amount'']"

definition rebuildBalances :: "(string \<Rightarrow> int) \<Rightarrow> scope \<Rightarrow> query" where
  "rebuildBalances cast scope =
     (if (case scope of None \<Rightarrow> False | Some (addresses, ticks) \<Rightarrow> addresses = [] \<or> ticks = []) then in_order []
      else in_order
        [statement [(''balances'', if scope = None then [] else [''address_id'', ''tick_id''])] (delete_rows ''balances'' (\<lambda>st r. in_scope scope (row_pair r))),
         statement [(''balances'', LEDGER_COLUMNS), (''credits'', LEDGER_COLUMNS), (''debits'', LEDGER_COLUMNS)]
           (\<lambda>st. on_rows ''balances'' (\<lambda>rows. rows @ grouped_rows cast scope st) st)])"

section \<open>Scope of a rebuild\<close>

definition MAX_SCOPED_REBUILD_IDS :: nat where
  "MAX_SCOPED_REBUILD_IDS = 1000"

definition add_new :: "'a \<Rightarrow> 'a list \<Rightarrow> 'a list" where
  "add_new x xs = (if x \<in> set xs then xs else xs @ [x])"

fun collect_scope :: "string \<Rightarrow> cell list \<Rightarrow> cell list \<Rightarrow> row list \<Rightarrow> scope" where
  "collect_scope keyField keys ticks [] = Some (keys, ticks)"
| "collect_scope keyField keys ticks (r # rows) =
     (if r keyField = CNull \<or> r ''tick_id'' = CNull then None
      else let keys' = add_new (r keyField) keys; ticks' = add_new (r ''tick_id'') ticks in
        if length keys' > MAX_SCOPED_REBUILD_IDS \<or> length ticks' > MAX_SCOPED_REBUILD_IDS then None
        else collect_scope keyField keys' ticks' rows)"

definition collectRebuildScope :: "row list list \<Rightarrow> string \<Rightarrow> scope" where
  "collectRebuildScope rowArrays keyField = collect_scope keyField [] [] (concat rowArrays)"

definition rebuildBalancesTouchedBy :: "(string \<Rightarrow> int) \<Rightarrow> row list \<Rightarrow> row list \<Rightarrow> query" where
  "rebuildBalancesTouchedBy cast credits debits =
     (let scope = collectRebuildScope [credits, debits] ''address_id'' in
      if (case scope of Some (keys, _) \<Rightarrow> keys = [] | None \<Rightarrow> False) then in_order []
      else tolerating ((=) 1146) (rebuildBalances cast scope))"

section \<open>Supplies\<close>

text \<open>Rounding of units of ten to the minus eighteen to \<open>d\<close> decimals, halves away from zero.\<close>

definition round_units :: "nat \<Rightarrow> int \<Rightarrow> int" where
  "round_units d v = (let g = 10 ^ (18 - d) in sgn v * ((\<bar>v\<bar> + g div 2) div g) * g)"

definition minimalSupply :: "nat \<Rightarrow> int \<Rightarrow> string" where
  "minimalSupply d v = (if d = 0 then int_str (v div 10 ^ 18) else minimalDecimal v)"

definition tick_sum :: "(string \<Rightarrow> int) \<Rightarrow> row list \<Rightarrow> cell \<Rightarrow> int" where
  "tick_sum cast rows t = (\<Sum>r \<leftarrow> filter (\<lambda>r. r ''tick_id'' = t) rows. units_or_zero cast (r ''amount''))"

definition supply_units :: "(string \<Rightarrow> int) \<Rightarrow> store \<Rightarrow> cell \<Rightarrow> int" where
  "supply_units cast st t = tick_sum cast (rows_of st ''credits'') t - tick_sum cast (rows_of st ''debits'') t + tick_sum cast (rows_of st ''escrows'') t"

definition clamp_decimals :: "cell \<Rightarrow> nat" where
  "clamp_decimals v = (case v of CNum n \<Rightarrow> nat (max 0 (min 18 n)) | _ \<Rightarrow> 0)"

definition recomputeTokenSupplies :: "(string \<Rightarrow> int) \<Rightarrow> query" where
  "recomputeTokenSupplies cast =
     reading [(''tokens'', [''decimals''])] (\<lambda>st. remdups (map (\<lambda>t. t ''decimals'') (rows_of st ''tokens''))) (\<lambda>precisions.
       in_order (map (\<lambda>v. let d = clamp_decimals v in
         statement [(''tokens'', [''tick_id'', ''supply'', ''decimals'']), (''credits'', [''tick_id'', ''amount'']), (''debits'', [''tick_id'', ''amount'']),
             (''escrows'', [''tick_id'', ''amount''])]
           (update_rows ''tokens'' (\<lambda>st t.
              if t ''decimals'' = CNum (int d)
              then Some (t(''supply'' := CText (if t ''tick_id'' = CNull then ''0'' else minimalSupply d (round_units d (supply_units cast st (t ''tick_id''))))))
              else None))) precisions))"

end
