(* ===== verification/Token_Refold.thy ===== *)
theory Token_Refold
  imports Row_Store
begin

text \<open>
  The refold of the token metadata from the surviving issues (\<^verbatim>\<open>src/src/db/token_refold.js\<close>): the ticks an orphaned range touched, the
  replay of the valid issues of a tick in order, and the rewrite of the token rows whose whole history is at hand.  The rendering of
  the folded values (\<^verbatim>\<open>tokenColumns\<close>, decimal arithmetic of a library) is a parameter.
\<close>

section \<open>The fold\<close>

text \<open>The values of an issue under the names of the source, with the column each is read from.\<close>

definition ROW_VALUES :: "(string \<times> string) list" where
  "ROW_VALUES = [(''ACTION_INDEX'', ''action_index''), (''TICK_ID'', ''tick_id''), (''OWNER_ID'', ''owner''), (''MAX_SUPPLY'', ''max_supply''),
     (''MAX_MINT'', ''max_mint''), (''DECIMALS'', ''decimals''), (''DESCRIPTION'', ''description''), (''LOCK_MAX_SUPPLY'', ''lock_max_supply''),
     (''LOCK_MINT_SUPPLY'', ''lock_mint_supply''), (''LOCK_MINT'', ''lock_mint''), (''LOCK_MAX_MINT'', ''lock_max_mint''),
     (''LOCK_DESCRIPTION'', ''lock_description''), (''LOCK_SLEEP'', ''lock_sleep''), (''LOCK_CALLBACK'', ''lock_callback''),
     (''CALLBACK_TICK_ID'', ''callback_tick_ref''), (''CALLBACK_BLOCK'', ''callback_block''), (''CALLBACK_AMOUNT'', ''callback_amount''),
     (''ALLOW_LIST'', ''allow_list''), (''BLOCK_LIST'', ''block_list''), (''BRIDGE_CHAINS'', ''bridge_chains''), (''MIN_DEPTH'', ''min_depth''),
     (''LOCK_BRIDGE'', ''lock_bridge''), (''MINT_ADDRESS_MAX'', ''mint_address_max''), (''MINT_START_BLOCK'', ''mint_start_block''),
     (''MINT_STOP_BLOCK'', ''mint_stop_block'')]"

definition cell_isNull :: "cell \<Rightarrow> bool" where
  "cell_isNull v = (v = CNull \<or> v = CText [])"

definition rowValues :: "row \<Rightarrow> (string \<times> cell) list" where
  "rowValues r =
     map (\<lambda>(k, c). (k,
       if k = ''OWNER_ID'' then (if r ''transfer_addr_id'' \<noteq> CNull then r ''transfer_addr_id'' else r ''source_addr_id'')
       else if k = ''DECIMALS'' then (if cell_isNull (r c) then CNum 0 else r c)
       else r c)) ROW_VALUES"

definition is_one :: "cell \<Rightarrow> bool" where
  "is_one v = (v = CNum 1 \<or> v = CText ''1'')"

definition is_zero_text :: "cell \<Rightarrow> bool" where
  "is_zero_text v = (v = CNum 0 \<or> v = CText ''0'')"

definition num_exceeds :: "cell \<Rightarrow> cell \<Rightarrow> bool" where
  "num_exceeds v w = (case (v, w) of (CNum a, CNum b) \<Rightarrow> b < a | _ \<Rightarrow> False)"

text \<open>A set lock stays set, the decimals never drop, a list value of 0 detaches the list, and an empty value inherits.\<close>

definition fold_value :: "string \<Rightarrow> cell \<Rightarrow> cell \<Rightarrow> cell" where
  "fold_value key held value =
     (if take 5 key = ''LOCK_'' \<and> is_one held then held
      else if key = ''DECIMALS'' \<and> num_exceeds held value then held
      else if (key = ''ALLOW_LIST'' \<or> key = ''BLOCK_LIST'') \<and> is_zero_text value then CNull
      else if cell_isNull value then held else value)"

definition foldRow :: "row \<Rightarrow> (string \<times> cell) list \<Rightarrow> row" where
  "foldRow data arr = fold (\<lambda>(key, value) d. d(key := fold_value key (d key) value)) arr data"

definition fold_issues :: "row list \<Rightarrow> row" where
  "fold_issues rows = fold (\<lambda>r d. foldRow d (rowValues r)) rows (\<lambda>_. CNull)"

section \<open>The issues of a tick\<close>

definition resolved_id :: "store \<Rightarrow> string \<Rightarrow> cell \<Rightarrow> cell" where
  "resolved_id st t i = (if any_row st t (\<lambda>x. cell_eq (x ''id'') i) then i else CNull)"

definition issue_row :: "store \<Rightarrow> row \<Rightarrow> row option" where
  "issue_row st i =
     (case first_row st ''actions'' (\<lambda>a. cell_eq (a ''action_index'') (i ''action_index'')) of
        None \<Rightarrow> None
      | Some a \<Rightarrow>
          if any_row st ''transactions'' (\<lambda>t. cell_eq (t ''tx_index'') (a ''tx_index'')) \<and> any_row st ''index_tickers'' (\<lambda>t. cell_eq (t ''id'') (i ''tick_id'')) \<and>
             any_row st ''index_addresses'' (\<lambda>x. cell_eq (x ''id'') (a ''source_id'')) \<and>
             any_row st ''index_statuses'' (\<lambda>s. cell_eq (s ''id'') (i ''status_id'') \<and> s ''status'' = CText ''valid'')
          then Some (i(''source_addr_id'' := a ''source_id'', ''transfer_addr_id'' := resolved_id st ''index_addresses'' (i ''transfer_id''),
            ''callback_tick_ref'' := resolved_id st ''index_tickers'' (i ''callback_tick_id'')))
          else None)"

definition ISSUE_REFS :: "(string \<times> string list) list" where
  "ISSUE_REFS = [(''issues'', [''tick_id'', ''action_index'', ''max_supply'', ''max_mint'', ''decimals'', ''description'', ''lock_max_supply'', ''lock_mint_supply'',
       ''lock_mint'', ''lock_max_mint'', ''lock_description'', ''lock_sleep'', ''lock_callback'', ''callback_block'', ''callback_amount'', ''mint_address_max'',
       ''mint_start_block'', ''mint_stop_block'', ''allow_list'', ''block_list'', ''bridge_chains'', ''min_depth'', ''lock_bridge'', ''status_id'', ''transfer_id'', ''callback_tick_id'']),
     (''actions'', [''action_index'', ''tx_index'', ''source_id'']), (''transactions'', [''tx_index'']), (''index_tickers'', [''id'']), (''index_addresses'', [''id'']),
     (''index_statuses'', [''id'', ''status''])]"

definition issues_of :: "store \<Rightarrow> cell \<Rightarrow> row list" where
  "issues_of st tick =
     sort_key (\<lambda>r. r ''action_index'') (List.map_filter (issue_row st) (filter (\<lambda>i. cell_eq (i ''tick_id'') tick) (rows_of st ''issues'')))"

section \<open>Touched ticks\<close>

definition LEDGER_TICK_TABLES :: "string list" where "LEDGER_TICK_TABLES = [''credits'', ''debits'', ''escrows'']"
definition CONTRACT_TICK_TABLES :: "string list" where "CONTRACT_TICK_TABLES = [''contract_stakes'', ''contract_unstakes'', ''contract_delegations'']"
definition TRANSACTION_TICK_TABLES :: "string list" where
  "TRANSACTION_TICK_TABLES = [''airdrops'', ''destroys'', ''mints'', ''sends'', ''fees'', ''issues'', ''swaps'']"

definition tick_column :: "string \<Rightarrow> string" where
  "tick_column t = (if t = ''swaps'' then ''give_tick_id'' else ''tick_id'')"

definition known_tick :: "store \<Rightarrow> cell \<Rightarrow> bool" where
  "known_tick st i = any_row st ''index_tickers'' (\<lambda>x. cell_eq (x ''id'') i)"

definition known_address :: "store \<Rightarrow> cell \<Rightarrow> bool" where
  "known_address st i = any_row st ''index_addresses'' (\<lambda>x. cell_eq (x ''id'') i)"

definition known_transaction :: "store \<Rightarrow> row \<Rightarrow> bool" where
  "known_transaction st r =
     any_row st ''actions'' (\<lambda>a. cell_eq (a ''action_index'') (r ''action_index'') \<and>
       any_row st ''transactions'' (\<lambda>t. cell_eq (t ''tx_index'') (a ''tx_index'') \<and> known_address st (t ''source_id'')))"

text \<open>\<^verbatim>\<open>refoldTickQuery\<close>: the columns a table is read by and the rows that count, \<^term>\<open>None\<close> for a table without ticks.\<close>

definition refoldTickQuery :: "string \<Rightarrow> ((string \<times> string list) list \<times> string \<times> (store \<Rightarrow> row \<Rightarrow> bool)) option" where
  "refoldTickQuery t =
     (if t \<in> set LEDGER_TICK_TABLES
      then Some ([(t, [''tick_id'', ''address_id'', ''action_index'']), (''index_tickers'', [''id'']), (''index_addresses'', [''id''])], ''tick_id'',
        \<lambda>st r. known_tick st (r ''tick_id'') \<and> known_address st (r ''address_id''))
      else if t \<in> set CONTRACT_TICK_TABLES
      then Some ([(t, [''tick_id'', ''source_id'', ''action_index'']), (''index_tickers'', [''id'']), (''index_addresses'', [''id''])], ''tick_id'',
        \<lambda>st r. known_tick st (r ''tick_id'') \<and> known_address st (r ''source_id''))
      else if t \<in> set TRANSACTION_TICK_TABLES
      then Some ((t, [tick_column t, ''action_index''] @ (if t \<in> {''mints'', ''sends'', ''fees''} then [''destination_id''] else []) @
            (if t = ''issues'' then [''transfer_id'', ''transfer_supply_id''] else [])) #
          [(''actions'', [''action_index'', ''tx_index'']), (''transactions'', [''tx_index'', ''source_id'']), (''index_tickers'', [''id'']), (''index_addresses'', [''id''])],
        tick_column t, \<lambda>st r. known_tick st (r (tick_column t)) \<and> known_transaction st r)
      else None)"

definition touched_ticks :: "int \<Rightarrow> string \<Rightarrow> string \<Rightarrow> (store \<Rightarrow> row \<Rightarrow> bool) \<Rightarrow> store \<Rightarrow> cell list" where
  "touched_ticks first t column counts st =
     map (\<lambda>r. r column) (filter (\<lambda>r. cell_ge (r ''action_index'') first \<and> counts st r \<and> r column \<noteq> CNull) (rows_of st t))"

text \<open>A read whose tolerated refusal counts as no rows.\<close>

definition reading_or :: "'a \<Rightarrow> (string \<times> string list) list \<Rightarrow> (store \<Rightarrow> 'a) \<Rightarrow> ('a \<Rightarrow> query) \<Rightarrow> query" where
  "reading_or none refs f k ss =
     (case answer refs ss of
        (Some e, ss') \<Rightarrow> if isSchemaGapError e then k none ss' else (Some e, ss')
      | (None, ss') \<Rightarrow> k (f (ss_store ss')) ss')"

fun collect_ticks :: "int \<Rightarrow> string list \<Rightarrow> cell list \<Rightarrow> (cell list \<Rightarrow> query) \<Rightarrow> query" where
  "collect_ticks first [] found k = k (sort (remdups found))"
| "collect_ticks first (t # ts) found k =
     (case refoldTickQuery t of
        None \<Rightarrow> collect_ticks first ts found k
      | Some (refs, column, counts) \<Rightarrow> reading_or [] refs (touched_ticks first t column counts) (\<lambda>ticks. collect_ticks first ts (found @ ticks) k))"

definition collectRefoldTickIds :: "int \<Rightarrow> string list \<Rightarrow> (cell list \<Rightarrow> query) \<Rightarrow> query" where
  "collectRefoldTickIds first tables k = collect_ticks first tables [] k"

section \<open>The rewrite\<close>

definition FOLD_COLUMNS :: "string list" where
  "FOLD_COLUMNS = [''max_supply'', ''max_mint'', ''decimals'', ''description'', ''lock_max_supply'', ''lock_mint'', ''lock_mint_supply'', ''lock_max_mint'',
     ''lock_description'', ''lock_sleep'', ''lock_callback'', ''callback_block'', ''callback_tick_id'', ''callback_amount'', ''allow_list'', ''block_list'',
     ''mint_address_max'', ''mint_start_block'', ''mint_stop_block'', ''bridge_chains'', ''min_depth'', ''lock_bridge'', ''owner_id'', ''last_action_index'']"

definition REFOLD_CHUNK :: nat where "REFOLD_CHUNK = 500"

fun chunks_of :: "nat \<Rightarrow> 'a list \<Rightarrow> 'a list list" where
  "chunks_of n [] = []"
| "chunks_of n (x # xs) = (if n = 0 then [x # xs] else take n (x # xs) # chunks_of n (drop (n - 1) xs))"

text \<open>The first issue of each tick and its folded columns; a tick without a valid issue has none.\<close>

definition fold_part :: "(row \<Rightarrow> row) \<Rightarrow> cell list \<Rightarrow> store \<Rightarrow> (cell \<times> cell \<times> row) list" where
  "fold_part render ticks st =
     List.map_filter (\<lambda>t. case issues_of st t of [] \<Rightarrow> None | i # is \<Rightarrow> Some (t, i ''action_index'', render (fold_issues (i # is)))) ticks"

fun fold_parts :: "(row \<Rightarrow> row) \<Rightarrow> cell list list \<Rightarrow> (cell \<times> cell \<times> row) list \<Rightarrow> ((cell \<times> cell \<times> row) list \<Rightarrow> query) \<Rightarrow> query" where
  "fold_parts render [] acc k = k acc"
| "fold_parts render (p # ps) acc k = reading ISSUE_REFS (fold_part render p) (\<lambda>xs. fold_parts render ps (acc @ xs) k)"

definition anchor_part :: "cell list \<Rightarrow> store \<Rightarrow> (cell \<times> cell) list" where
  "anchor_part ticks st = map (\<lambda>t. (t ''tick_id'', t ''action_index'')) (filter (\<lambda>t. list_ex (cell_eq (t ''tick_id'')) ticks) (rows_of st ''tokens''))"

fun anchor_parts :: "cell list list \<Rightarrow> (cell \<times> cell) list \<Rightarrow> ((cell \<times> cell) list \<Rightarrow> query) \<Rightarrow> query" where
  "anchor_parts [] acc k = k acc"
| "anchor_parts (p # ps) acc k = reading [(''tokens'', [''tick_id'', ''action_index''])] (anchor_part p) (\<lambda>xs. anchor_parts ps (acc @ xs) k)"

definition write_columns :: "row \<Rightarrow> row \<Rightarrow> row" where
  "write_columns cols t = (\<lambda>c. if c \<in> set FOLD_COLUMNS then cols c else t c)"

definition refoldTokenRows :: "(row \<Rightarrow> row) \<Rightarrow> cell list \<Rightarrow> query" where
  "refoldTokenRows render ticks =
     fold_parts render (chunks_of REFOLD_CHUNK ticks) [] (\<lambda>folded.
     anchor_parts (chunks_of REFOLD_CHUNK (map fst folded)) [] (\<lambda>anchors.
       in_order (map (\<lambda>(tick, first, cols).
         if map_of (rev anchors) tick = Some first
         then statement [(''tokens'', ''tick_id'' # FOLD_COLUMNS)]
           (update_rows ''tokens'' (\<lambda>st t. if cell_eq (t ''tick_id'') tick then Some (write_columns cols t) else None))
         else in_order []) folded)))"

section \<open>Faults\<close>

lemma reading_or_firm [intro]:
  assumes "\<And>x. firm (k x)"
  shows "firm (reading_or none refs f k)"
proof (rule firmI)
  fix ss r ss'
  assume h: "honest_faults ss" "reading_or none refs f k ss = (r, ss')"
  obtain a s1 where a: "answer refs ss = (a, s1)" by fastforce
  note c = answer_honest[OF h(1) a]
  show "honest_faults ss' \<and> ((\<exists>e. r = Some e \<and> \<not> isSchemaGapError e) \<or>
      reading_or none refs f k (at_rest (ss_store ss)) = (r, at_rest (ss_store ss')))"
  proof (cases "\<exists>e. a = Some e \<and> \<not> isSchemaGapError e")
    case True
    then show ?thesis using c h(2) a by (auto simp: reading_or_def)
  next
    case False
    then have u: "answer refs (at_rest (ss_store ss)) = (a, at_rest (ss_store s1))" using c(3) by blast
    define x where "x = (case a of Some e \<Rightarrow> none | None \<Rightarrow> f (ss_store s1))"
    have "k x s1 = (r, ss')" using False h(2) a by (auto simp: reading_or_def x_def split: option.splits if_splits)
    from firm_cases[OF assms c(1) this] show ?thesis
      using False u by (auto simp: reading_or_def x_def at_rest_def split: option.splits)
  qed
qed

lemma collect_ticks_firm: "(\<And>x. firm (k x)) \<Longrightarrow> firm (collect_ticks first ts found k)"
  by (induction ts arbitrary: found) (auto split: option.split prod.split)

lemma collectRefoldTickIds_firm [intro]: "(\<And>x. firm (k x)) \<Longrightarrow> firm (collectRefoldTickIds first ts k)"
  unfolding collectRefoldTickIds_def by (rule collect_ticks_firm)

lemma fold_parts_firm: "(\<And>x. firm (k x)) \<Longrightarrow> firm (fold_parts render ps acc k)"
  by (induction ps arbitrary: acc) auto

lemma anchor_parts_firm: "(\<And>x. firm (k x)) \<Longrightarrow> firm (anchor_parts ps acc k)"
  by (induction ps arbitrary: acc) auto

lemma refoldTokenRows_firm [intro]: "firm (refoldTokenRows render ticks)"
  unfolding refoldTokenRows_def by (intro fold_parts_firm anchor_parts_firm in_order_firm) (auto intro!: statement_firm in_order_firm)

end
