(* ===== verification/Client_Rollback.thy ===== *)
theory Client_Rollback
  imports Table_Lifecycle Ledger_Aggregates Token_Refold Checkpoint Transparency_Log
begin

text \<open>
  The rollback of a replica (\<^verbatim>\<open>src/src/client/rollback.js\<close>) statement by statement, with the shared aggregates of
  \<^verbatim>\<open>src/src/db/balance_helpers.js\<close> and the refold of \<^verbatim>\<open>src/src/db/token_refold.js\<close>.  The names and the order are those of the code:
  the reads before the transaction, the resets of surviving rows, the deletes, the sweeps, and the recomputed aggregates.  Texts
  are compared as they are, ids that the server mints are left \<^verbatim>\<open>NULL\<close>, \<^verbatim>\<open>CAST(x AS DECIMAL)\<close> of an amount is a parameter that
  counts units of ten to the minus eighteen, and so is the rendering of a folded token, which is arithmetic of a library.
\<close>

section \<open>Configuration\<close>

record rollback_cfg =
  rc_coin :: "string option"
  rc_network :: string
  rc_delay :: "int option"
  rc_cast :: "string \<Rightarrow> int"
  rc_fold_gate :: jsv
  rc_token_columns :: "row \<Rightarrow> row"

definition GAS_TICK :: string where
  "GAS_TICK = ''XCHAIN''"

definition cell_plus :: "cell \<Rightarrow> int \<Rightarrow> cell" where
  "cell_plus v n = (case v of CNum k \<Rightarrow> CNum (k + n) | _ \<Rightarrow> CNull)"

definition nulling :: "string list \<Rightarrow> row \<Rightarrow> row" where
  "nulling cs r = (\<lambda>c. if c \<in> set cs then CNull else r c)"

definition status_id :: "store \<Rightarrow> string \<Rightarrow> cell option" where
  "status_id st s = map_option (\<lambda>x. x ''id'') (first_row st ''index_statuses'' (\<lambda>x. x ''status'' = CText s))"

definition has_status :: "store \<Rightarrow> cell \<Rightarrow> string \<Rightarrow> bool" where
  "has_status st i s = any_row st ''index_statuses'' (\<lambda>x. cell_eq (x ''id'') i \<and> x ''status'' = CText s)"

definition column_nums :: "string \<Rightarrow> row list \<Rightarrow> int list" where
  "column_nums c rows = List.map_filter (\<lambda>r. case r c of CNum n \<Rightarrow> Some n | _ \<Rightarrow> None) rows"

definition guarded :: "query \<Rightarrow> query" where
  "guarded q = tolerating isSchemaGapError q"

section \<open>Resets of surviving rows\<close>

definition delete_emissions :: "int \<Rightarrow> query" where
  "delete_emissions first =
     tolerating ((=) 1146)
       (statement [(''contract_emissions'', [''execution_index'']), (''contract_executions'', [''action_index''])]
         (delete_rows ''contract_emissions'' (\<lambda>st r. any_row st ''contract_executions''
            (\<lambda>x. cell_ge (x ''action_index'') first \<and> cell_eq (r ''execution_index'') (x ''action_index'')))))"

definition reset_attests :: "int \<Rightarrow> query" where
  "reset_attests h =
     guarded (statement [(''attests'', [''request_status'', ''resolved_block'', ''version''])]
       (update_rows ''attests'' (\<lambda>st r.
          if r ''version'' = CNum 0 \<and> cell_in (r ''request_status'') [''fulfilled'', ''errored'', ''expired''] \<and> cell_ge (r ''resolved_block'') h
          then Some (r(''request_status'' := CText ''pending'', ''resolved_block'' := CNull)) else None)))"

definition reset_xcalls :: "int \<Rightarrow> query" where
  "reset_xcalls h =
     guarded (statement [(''xcalls'', [''request_status'', ''result_status'', ''result_payload'', ''resolved_block'', ''callback_action_index'', ''version''])]
       (update_rows ''xcalls'' (\<lambda>st r.
          if r ''version'' = CNum 0 \<and> cell_in (r ''request_status'') [''completed'', ''expired''] \<and> cell_ge (r ''resolved_block'') h
          then Some ((nulling [''result_status'', ''result_payload'', ''resolved_block'', ''callback_action_index''] r)(''request_status'' := CText ''pending''))
          else None)))"

definition POLL_RESET :: "string list" where
  "POLL_RESET = [''winning_option'', ''total_weight'', ''total_voters'', ''quorum_met'', ''min_voters_met'', ''fail_reason'', ''decided_early'',
     ''effective_close_block'', ''finalized_action_index'', ''resolved_block'', ''deposit_resolved'', ''callback_execute_action_index'', ''callback_due_block'']"

definition reopen_polls :: "int \<Rightarrow> query" where
  "reopen_polls h =
     guarded (statement [(''polls'', ''poll_status'' # POLL_RESET)]
       (update_rows ''polls'' (\<lambda>st r.
          if cell_in (r ''poll_status'') [''finalized'', ''failed_quorum''] \<and> cell_ge (r ''resolved_block'') h
          then Some ((nulling POLL_RESET r)(''poll_status'' := CText ''open'')) else None)))"

definition rearm_poll_callbacks :: "int \<Rightarrow> query" where
  "rearm_poll_callbacks h =
     guarded (statement [(''polls'', [''poll_status'', ''callback_due_block'', ''callback_execute_action_index''])]
       (update_rows ''polls'' (\<lambda>st r.
          if cell_in (r ''poll_status'') [''finalized'', ''failed_quorum''] \<and> cell_ge (r ''callback_due_block'') h \<and> r ''callback_execute_action_index'' \<noteq> CNull
          then Some (r(''callback_execute_action_index'' := CNull)) else None)))"

definition reset_bets :: "int \<Rightarrow> query" where
  "reset_bets h =
     guarded (in_order
       [statement [(''bet_feeds'', [''feed_status_id'', ''terminal_block'', ''closed_block'']), (''index_statuses'', [''id'', ''status''])]
          (update_rows ''bet_feeds'' (\<lambda>st r. case status_id st ''closed'' of None \<Rightarrow> None | Some i \<Rightarrow>
             if cell_ge (r ''terminal_block'') h \<and> cell_lt (r ''closed_block'') h
             then Some (r(''feed_status_id'' := i, ''terminal_block'' := CNull)) else None)),
        statement [(''bet_feeds'', [''feed_status_id'', ''terminal_block'', ''closed_block'']), (''index_statuses'', [''id'', ''status''])]
          (update_rows ''bet_feeds'' (\<lambda>st r. case status_id st ''open'' of None \<Rightarrow> None | Some i \<Rightarrow>
             if cell_ge (r ''terminal_block'') h \<and> (r ''closed_block'' = CNull \<or> cell_ge (r ''closed_block'') h)
             then Some (r(''feed_status_id'' := i, ''terminal_block'' := CNull)) else None)),
        statement [(''bet_feeds'', [''feed_status_id'', ''closed_block'']), (''index_statuses'', [''id'', ''status''])]
          (update_rows ''bet_feeds'' (\<lambda>st r. case status_id st ''open'' of None \<Rightarrow> None | Some i \<Rightarrow>
             if cell_ge (r ''closed_block'') h then Some (r(''feed_status_id'' := i, ''closed_block'' := CNull)) else None)),
        statement [(''bets'', [''bet_status_id'', ''settled_block'']), (''index_statuses'', [''id'', ''status''])]
          (update_rows ''bets'' (\<lambda>st r. case status_id st ''open'' of None \<Rightarrow> None | Some i \<Rightarrow>
             if cell_ge (r ''settled_block'') h then Some (r(''bet_status_id'' := i, ''settled_block'' := CNull)) else None))])"

text \<open>The order of two journal rows of one stake: by amount and then position for contract slashes, by position for the others.\<close>

definition num_lt :: "cell \<Rightarrow> cell \<Rightarrow> bool" where
  "num_lt v w = (case (v, w) of (CNum a, CNum b) \<Rightarrow> a < b | _ \<Rightarrow> False)"

definition contract_slash_before :: "(string \<Rightarrow> int) \<Rightarrow> row \<Rightarrow> row \<Rightarrow> bool" where
  "contract_slash_before cast e d =
     (case (amount_units cast (e ''prev_amount''), amount_units cast (d ''prev_amount'')) of
        (Some x, Some y) \<Rightarrow>
          x > y \<or>
          x = y \<and> (num_lt (e ''block_index'') (d ''block_index'') \<or>
            cell_eq (e ''block_index'') (d ''block_index'') \<and> (num_lt (e ''execution_index'') (d ''execution_index'') \<or>
              cell_eq (e ''execution_index'') (d ''execution_index'') \<and> num_lt (e ''slash_position'') (d ''slash_position'')))
      | _ \<Rightarrow> False)"

definition earlier_by :: "string \<Rightarrow> row \<Rightarrow> row \<Rightarrow> bool" where
  "earlier_by c e d =
     (num_lt (e ''block_index'') (d ''block_index'') \<or> cell_eq (e ''block_index'') (d ''block_index'') \<and> num_lt (e c) (d c))"

text \<open>The journal row to restore from: of this table and stake, at or above the height, with none before it.\<close>

definition restoring :: "(row \<Rightarrow> row \<Rightarrow> bool) \<Rightarrow> string \<Rightarrow> int \<Rightarrow> row list \<Rightarrow> row \<Rightarrow> row option" where
  "restoring before target h journal r =
     find (\<lambda>d. cell_eq (d ''stake_action_index'') (r ''action_index'') \<and> d ''target_table'' = CText target \<and> cell_ge (d ''block_index'') h \<and>
       \<not> list_ex (\<lambda>e. cell_eq (e ''target_table'') (d ''target_table'') \<and> cell_eq (e ''stake_action_index'') (d ''stake_action_index'') \<and>
         cell_ge (e ''block_index'') h \<and> before e d) journal) journal"

definition restore_from :: "(row \<Rightarrow> row \<Rightarrow> bool) \<Rightarrow> string \<Rightarrow> string list \<Rightarrow> string \<Rightarrow> string \<Rightarrow> string \<Rightarrow> int \<Rightarrow> query" where
  "restore_from before journal jcols column prev target h =
     guarded (statement [(target, [''action_index'', column]), (journal, [''stake_action_index'', ''target_table'', ''block_index'', prev] @ jcols)]
       (update_rows target (\<lambda>st r. map_option (\<lambda>d. r(column := d prev)) (restoring before target h (rows_of st journal) r))))"

definition restore_contract_slashes :: "(string \<Rightarrow> int) \<Rightarrow> int \<Rightarrow> query" where
  "restore_contract_slashes cast h =
     in_order (map (\<lambda>t. restore_from (contract_slash_before cast) ''contract_slash_debits'' [''execution_index'', ''slash_position''] ''amount'' ''prev_amount'' t h)
       [''contract_stakes'', ''contract_unstakes''])"

definition restore_rotations :: "int \<Rightarrow> query" where
  "restore_rotations h =
     in_order (map (\<lambda>t. restore_from (earlier_by ''delegation_action_index'') ''contract_delegation_rotations'' [''delegation_action_index'']
         ''signing_pubkey_id'' ''prev_signing_pubkey_id'' t h)
       [''contract_stakes'', ''contract_unstakes''])"

definition restore_capability_slashes :: "int \<Rightarrow> query" where
  "restore_capability_slashes h =
     in_order (map (\<lambda>t. restore_from (earlier_by ''slash_action_index'') ''capability_slash_debits'' [''slash_action_index''] ''amount'' ''prev_amount'' t h)
       [''stakes'', ''unstakes''])"

text \<open>A stamp that an orphaned unstake wrote.\<close>

definition orphan_stamp :: "store \<Rightarrow> string \<Rightarrow> string list \<Rightarrow> int \<Rightarrow> int \<Rightarrow> row \<Rightarrow> bool" where
  "orphan_stamp st children keys h delay r =
     (r ''deactivation_block'' \<noteq> CNull \<and>
      any_row st children (\<lambda>u. list_all (\<lambda>k. cell_eq (u k) (r k)) keys \<and> cell_ge (u ''block_index'') h \<and>
        r ''deactivation_block'' = cell_plus (u ''block_index'') delay))"

definition unstamp :: "row \<Rightarrow> row" where
  "unstamp r = r(''deactivation_block'' := CNull)"

definition reset_deactivations :: "rollback_cfg \<Rightarrow> int \<Rightarrow> query" where
  "reset_deactivations cfg h =
     (case rc_delay cfg of
        None \<Rightarrow> in_order []
      | Some delay \<Rightarrow> in_order
         [guarded (statement [(''stakes'', [''signing_pubkey_id'', ''deactivation_block'']), (''unstakes'', [''signing_pubkey_id'', ''block_index''])]
            (update_rows ''stakes'' (\<lambda>st r. if orphan_stamp st ''unstakes'' [''signing_pubkey_id''] h delay r then Some (unstamp r) else None))),
          guarded (statement [(''delegations'', [''deactivation_block''])]
            (update_rows ''delegations'' (\<lambda>st r. if cell_ge (r ''deactivation_block'') (h + delay) then Some (unstamp r) else None))),
          guarded (statement [(''contract_stakes'', [''source_id'', ''target_contract_index'', ''tick_id'', ''deactivation_block'']),
              (''contract_unstakes'', [''source_id'', ''target_contract_index'', ''tick_id'', ''block_index''])]
            (update_rows ''contract_stakes'' (\<lambda>st r.
               if orphan_stamp st ''contract_unstakes'' [''source_id'', ''target_contract_index'', ''tick_id''] h delay r then Some (unstamp r) else None))),
          guarded (statement [(''contract_delegations'', [''deactivation_block''])]
            (update_rows ''contract_delegations'' (\<lambda>st r. if cell_ge (r ''deactivation_block'') (h + delay) then Some (unstamp r) else None)))])"

definition REWARD_KEY :: "string list" where
  "REWARD_KEY = [''source_id'', ''signing_pubkey_id'', ''reward_type'', ''round_reference'', ''round_qualifier'']"

definition insert_missing :: "string \<Rightarrow> string list \<Rightarrow> row \<Rightarrow> store \<Rightarrow> store" where
  "insert_missing t key r st = on_rows t (\<lambda>rows. if list_ex (\<lambda>x. list_all (\<lambda>k. cell_eq (x k) (r k)) key) rows then rows else rows @ [r]) st"

definition reward_row :: "row \<Rightarrow> row" where
  "reward_row d = (\<lambda>c. if c \<in> set REWARD_KEY \<or> c = ''amount'' then d c
     else if c = ''block_index'' then d ''reward_block_index'' else if c = ''derive_block_index'' then d ''reward_derive_block_index'' else CNull)"

definition restore_anchor_rewards :: "int \<Rightarrow> query" where
  "restore_anchor_rewards h =
     guarded (statement [(''validator_rewards'', REWARD_KEY @ [''amount'', ''block_index'', ''derive_block_index'']),
         (''anchor_reward_reconcile_log'', REWARD_KEY @ [''amount'', ''block_index'', ''reward_block_index'', ''reward_derive_block_index''])]
       (\<lambda>st. fold (\<lambda>d. insert_missing ''validator_rewards'' REWARD_KEY (reward_row d))
         (filter (\<lambda>d. cell_ge (d ''block_index'') h \<and> cell_lt (d ''reward_block_index'') h \<and>
            (d ''reward_derive_block_index'' = CNull \<or> cell_lt (d ''reward_derive_block_index'') h)) (rows_of st ''anchor_reward_reconcile_log'')) st))"

section \<open>Cooldown maturities\<close>

definition matured_after :: "cell \<Rightarrow> int \<Rightarrow> row \<Rightarrow> bool" where
  "matured_after completed h u = (cell_eq (u ''status_id'') completed \<and> cell_ge (u ''cooldown_end_block'') h \<and> cell_lt (u ''block_index'') h)"

definition negative_amount :: "(string \<Rightarrow> int) \<Rightarrow> row \<Rightarrow> bool" where
  "negative_amount cast r = (case amount_units cast (r ''amount'') of Some v \<Rightarrow> v < 0 | None \<Rightarrow> False)"

definition capability_ledger_row :: "store \<Rightarrow> cell \<Rightarrow> int \<Rightarrow> row \<Rightarrow> bool" where
  "capability_ledger_row st completed h c =
     (any_row st ''unstakes'' (\<lambda>u. cell_eq (u ''action_index'') (c ''action_index'') \<and> cell_eq (u ''source_id'') (c ''address_id'') \<and> matured_after completed h u) \<and>
      any_row st ''index_tickers'' (\<lambda>g. cell_eq (g ''id'') (c ''tick_id'') \<and> g ''tick'' = CText GAS_TICK))"

definition contract_ledger_row :: "store \<Rightarrow> cell \<Rightarrow> int \<Rightarrow> row \<Rightarrow> bool" where
  "contract_ledger_row st completed h c =
     any_row st ''contract_unstakes'' (\<lambda>u. cell_eq (u ''action_index'') (c ''action_index'') \<and> cell_eq (u ''source_id'') (c ''address_id'') \<and>
       cell_eq (u ''tick_id'') (c ''tick_id'') \<and> matured_after completed h u)"

definition LEDGER_REFS :: "string list" where
  "LEDGER_REFS = [''action_index'', ''address_id'', ''tick_id'']"

definition UNSTAKE_REFS :: "string list" where
  "UNSTAKE_REFS = [''action_index'', ''source_id'', ''status_id'', ''cooldown_end_block'', ''block_index'']"

definition deleteCapabilityMaturityLedgerRows :: "rollback_cfg \<Rightarrow> cell \<Rightarrow> int \<Rightarrow> bool \<Rightarrow> query" where
  "deleteCapabilityMaturityLedgerRows cfg completed h releases =
     in_order (statement [(''credits'', LEDGER_REFS), (''unstakes'', UNSTAKE_REFS), (''index_tickers'', [''id'', ''tick''])]
         (delete_rows ''credits'' (\<lambda>st c. capability_ledger_row st completed h c)) #
       (if releases
        then [statement [(''escrows'', ''amount'' # LEDGER_REFS), (''unstakes'', UNSTAKE_REFS), (''index_tickers'', [''id'', ''tick''])]
          (delete_rows ''escrows'' (\<lambda>st e. capability_ledger_row st completed h e \<and> negative_amount (rc_cast cfg) e))]
        else []))"

definition deleteContractMaturityLedgerRows :: "rollback_cfg \<Rightarrow> cell \<Rightarrow> int \<Rightarrow> bool \<Rightarrow> query" where
  "deleteContractMaturityLedgerRows cfg completed h releases =
     in_order (statement [(''credits'', LEDGER_REFS), (''contract_unstakes'', ''tick_id'' # UNSTAKE_REFS)]
         (delete_rows ''credits'' (\<lambda>st c. contract_ledger_row st completed h c)) #
       (if releases
        then [statement [(''escrows'', ''amount'' # LEDGER_REFS), (''contract_unstakes'', ''tick_id'' # UNSTAKE_REFS)]
          (delete_rows ''escrows'' (\<lambda>st e. contract_ledger_row st completed h e \<and> negative_amount (rc_cast cfg) e))]
        else []))"

definition reopen_matured :: "string \<Rightarrow> cell \<Rightarrow> cell \<Rightarrow> int \<Rightarrow> query" where
  "reopen_matured t completed valid h =
     statement [(t, [''status_id'', ''cooldown_end_block'', ''block_index''])]
       (update_rows t (\<lambda>st u. if matured_after completed h u then Some (u(''status_id'' := valid)) else None))"

definition maturity_reversal_active :: "rollback_cfg \<Rightarrow> int \<Rightarrow> bool" where
  "maturity_reversal_active cfg h =
     height_row_active (row_table shared_rows_5b ''cooldown_maturity_escrow_reversal_activation.COOLDOWN_MATURITY_ESCROW_REVERSAL_ACTIVATION'')
       (rc_network cfg) (rc_coin cfg) h"

definition reverseCooldownMaturities :: "rollback_cfg \<Rightarrow> int \<Rightarrow> query" where
  "reverseCooldownMaturities cfg h =
     guarded
       (reading [(''index_statuses'', [''id'', ''status''])] (\<lambda>st. status_id st ''completed'') (\<lambda>completed.
        reading [(''index_statuses'', [''id'', ''status''])] (\<lambda>st. status_id st ''valid'') (\<lambda>valid.
          case (completed, valid) of
            (Some c, Some v) \<Rightarrow>
              let releases = maturity_reversal_active cfg h in
              in_order [deleteCapabilityMaturityLedgerRows cfg c h releases, deleteContractMaturityLedgerRows cfg c h releases,
                reopen_matured ''unstakes'' c v h, reopen_matured ''contract_unstakes'' c v h]
          | _ \<Rightarrow> in_order [])))"

section \<open>Verdicts stamped by orphaned chunks\<close>

text \<open>\<^verbatim>\<open>archiveHeadPickPredicate\<close>, \<^verbatim>\<open>archiveHeadPredicate\<close> and the floor of a folded head.\<close>

definition archiveHeadPickPredicate :: "int \<Rightarrow> row \<Rightarrow> bool" where
  "archiveHeadPickPredicate low p =
     (p ''match_batch_seq'' \<noteq> CNull \<and>
      (p ''version'' = CNum 1 \<or> p ''version'' = CNum 3 \<and> p ''chain'' = CNull \<and> cell_ge (p ''block_index_doge'') low))"

definition archiveHeadPredicate :: "row \<Rightarrow> bool" where
  "archiveHeadPredicate p = (p ''match_batch_seq'' \<noteq> CNull \<and> p ''version'' \<noteq> CNull \<and> p ''version'' \<noteq> CNum 2)"

definition foldArchiveHeadFloor :: "jsv \<Rightarrow> string \<Rightarrow> string \<Rightarrow> int" where
  "foldArchiveHeadFloor table network coin =
     (case prop_of table (coin @ '':'' @ network) of
        JNum (Fin n) \<Rightarrow> \<lceil>n\<rceil>
      | JUndef \<Rightarrow> (case prop_of table network of JNum (Fin n) \<Rightarrow> \<lceil>n\<rceil> | _ \<Rightarrow> 9999999999)
      | _ \<Rightarrow> 9999999999)"

definition author_scope_active :: "rollback_cfg \<Rightarrow> int \<Rightarrow> bool" where
  "author_scope_active cfg h =
     num_ge (of_int h) (prop_of (row_table shared_rows_1d
       ''archive_rollback_author_scope_activation.ARCHIVE_ROLLBACK_AUTHOR_SCOPE_ACTIVATION'') (rc_network cfg))"

definition author_of :: "store \<Rightarrow> row \<Rightarrow> cell option" where
  "author_of st r =
     (case first_row st ''actions'' (\<lambda>a. cell_eq (a ''action_index'') (r ''action_index'')) of
        None \<Rightarrow> None
      | Some a \<Rightarrow> map_option (\<lambda>x. x ''address'') (first_row st ''index_addresses'' (\<lambda>x. cell_eq (x ''id'') (a ''source_id''))))"

definition same_author :: "store \<Rightarrow> row \<Rightarrow> row \<Rightarrow> bool" where
  "same_author st p c = (case (author_of st p, author_of st c) of (Some x, Some y) \<Rightarrow> cell_eq x y | _ \<Rightarrow> False)"

definition reset_archive_heads :: "rollback_cfg \<Rightarrow> int \<Rightarrow> int \<Rightarrow> query" where
  "reset_archive_heads cfg h first =
     guarded (statement
       ([(''anchor_actions'', [''status_id'', ''pre_archive_status_id'', ''version'', ''match_batch_seq'', ''action_index'', ''chain'', ''block_index_doge'']),
         (''index_statuses'', [''id'', ''status''])] @
        (if author_scope_active cfg h then [(''actions'', [''action_index'', ''source_id'']), (''index_addresses'', [''id'', ''address''])] else []))
       (update_rows ''anchor_actions'' (\<lambda>st p.
          case status_id st ''unverified'' of
            None \<Rightarrow> None
          | Some us \<Rightarrow>
              if has_status st (p ''status_id'') ''invalid_archive'' \<and>
                 any_row st ''anchor_actions'' (\<lambda>c. c ''version'' = CNum 2 \<and> cell_eq (c ''match_batch_seq'') (p ''match_batch_seq'') \<and>
                   cell_ge (c ''action_index'') first \<and> has_status st (c ''status_id'') ''valid'' \<and> (author_scope_active cfg h \<longrightarrow> same_author st p c)) \<and>
                 archiveHeadPickPredicate (foldArchiveHeadFloor (rc_fold_gate cfg) (rc_network cfg) ''DOGE'') p \<and>
                 cell_lt (p ''action_index'') first \<and> archiveHeadPredicate p
              then Some (p(''status_id'' := (if p ''pre_archive_status_id'' = CNull then us else p ''pre_archive_status_id''), ''pre_archive_status_id'' := CNull))
              else None)))"

definition ATTEST_BATCH_HEAD_VERSION :: int where "ATTEST_BATCH_HEAD_VERSION = 5"
definition ATTEST_BATCH_CONTINUATION_VERSION :: int where "ATTEST_BATCH_CONTINUATION_VERSION = 6"
definition ATTEST_BATCH_COMPLETION_STAMP :: string where "ATTEST_BATCH_COMPLETION_STAMP = '' (stamped on batch completion)''"

definition ends_with :: "string \<Rightarrow> cell \<Rightarrow> bool" where
  "ends_with s v = (case v of CText t \<Rightarrow> length s \<le> length t \<and> drop (length t - length s) t = s | _ \<Rightarrow> False)"

definition same_source :: "store \<Rightarrow> row \<Rightarrow> row \<Rightarrow> bool" where
  "same_source st p c =
     any_row st ''actions'' (\<lambda>pa. cell_eq (pa ''action_index'') (p ''action_index'') \<and>
       any_row st ''actions'' (\<lambda>ca. cell_eq (ca ''action_index'') (c ''action_index'') \<and> cell_eq (ca ''source_id'') (pa ''source_id'')))"

definition reset_batch_heads :: "int \<Rightarrow> query" where
  "reset_batch_heads first =
     guarded (statement
       [(''attests'', [''status_id'', ''action_index'', ''request_id'', ''version'', ''batch_chunk_index'', ''batch_total_chunks'', ''batch_crc32'']),
        (''index_statuses'', [''id'', ''status'']), (''actions'', [''action_index'', ''source_id''])]
       (update_rows ''attests'' (\<lambda>st p.
          case status_id st ''valid'' of
            None \<Rightarrow> None
          | Some vs \<Rightarrow>
              if p ''version'' = CNum ATTEST_BATCH_HEAD_VERSION \<and> p ''batch_chunk_index'' = CNum 0 \<and> cell_lt (p ''action_index'') first \<and>
                 any_row st ''index_statuses'' (\<lambda>ps. cell_eq (ps ''id'') (p ''status_id'') \<and> ends_with ATTEST_BATCH_COMPLETION_STAMP (ps ''status'')) \<and>
                 any_row st ''attests'' (\<lambda>c. cell_eq (c ''request_id'') (p ''request_id'') \<and> c ''version'' = CNum ATTEST_BATCH_CONTINUATION_VERSION \<and>
                   c ''batch_chunk_index'' \<noteq> CNull \<and> cell_ge (c ''action_index'') first \<and>
                   cell_eq (c ''batch_total_chunks'') (p ''batch_total_chunks'') \<and> cell_eq (c ''batch_crc32'') (p ''batch_crc32'') \<and>
                   has_status st (c ''status_id'') ''valid'' \<and> same_source st p c)
              then Some (p(''status_id'' := vs)) else None)))"

section \<open>Generic deletes\<close>

definition delete_from :: "string \<Rightarrow> string \<Rightarrow> int \<Rightarrow> query" where
  "delete_from column t n = guarded (statement [(t, [column])] (delete_rows t (\<lambda>st r. cell_ge (r column) n)))"

definition delete_data :: "int \<Rightarrow> query" where
  "delete_data first = in_order (map (\<lambda>t. delete_from ''action_index'' t first) (rl_data replicaRollbackTables))"

definition delete_block_tables :: "int \<Rightarrow> query" where
  "delete_block_tables h = in_order (map (\<lambda>t. delete_from ''block_index'' t h) (rl_block replicaRollbackTables))"

definition delete_index_tables :: "int \<Rightarrow> query" where
  "delete_index_tables h = in_order (map (\<lambda>t. delete_from ''block_index'' t h) (rl_index replicaRollbackTables))"

section \<open>Columns derived again\<close>

definition OFFERS :: "(string \<times> string \<times> string) list" where
  "OFFERS = [(''orders'', ''order_statuses'', ''order_action_index''), (''swaps'', ''swap_statuses'', ''swap_action_index''),
     (''dispensers'', ''dispenser_statuses'', ''dispenser_action_index'')]"

definition newest_of :: "store \<Rightarrow> string \<Rightarrow> string \<Rightarrow> cell \<Rightarrow> cell" where
  "newest_of st statuses key i =
     (case column_nums ''action_index'' (filter (\<lambda>x. cell_eq (x key) i) (rows_of st statuses)) of [] \<Rightarrow> CNull | n # ns \<Rightarrow> CNum (fold max ns n))"

text \<open>The offers of a table that still hold the ownership of their token.\<close>

definition holding_offers :: "store \<Rightarrow> string \<times> string \<times> string \<Rightarrow> row list" where
  "holding_offers st kind =
     (case kind of (offers, statuses, key) \<Rightarrow>
       filter (\<lambda>o'. o' ''give_ownership'' = CNum 1 \<and>
         any_row st statuses (\<lambda>s. cell_eq (s key) (o' ''action_index'') \<and> cell_eq (s ''action_index'') (newest_of st statuses key (o' ''action_index'')) \<and>
           list_ex (has_status st (s ''status_id'')) [''open'', ''cancelling'', ''expiring''])) (rows_of st offers))"

definition tick_texts :: "store \<Rightarrow> cell \<Rightarrow> cell list" where
  "tick_texts st i = map (\<lambda>x. x ''tick'') (filter (\<lambda>x. cell_eq (x ''id'') i) (rows_of st ''index_tickers''))"

definition escrow_tickers :: "store \<Rightarrow> cell list" where
  "escrow_tickers st =
     remdups (concat (map (\<lambda>t. tick_texts st (t ''tick_id'')) (filter (\<lambda>t. t ''escrow_action_index'' \<noteq> CNull) (rows_of st ''tokens''))) @
       map (\<lambda>x. x ''tick'') (filter (\<lambda>x. list_ex (\<lambda>k. list_ex (\<lambda>o'. cell_eq (o' ''give_tick_id'') (x ''id'')) (holding_offers st k)) OFFERS)
         (rows_of st ''index_tickers'')))"

definition open_offer :: "store \<Rightarrow> cell \<Rightarrow> cell" where
  "open_offer st tick =
     (case column_nums ''action_index'' (concat (map (\<lambda>k. filter (\<lambda>o'. list_ex (cell_eq tick) (tick_texts st (o' ''give_tick_id''))) (holding_offers st k)) OFFERS)) of
        [] \<Rightarrow> CNull
      | n # ns \<Rightarrow> CNum (fold min ns n))"

definition OFFER_REFS :: "(string \<times> string list) list" where
  "OFFER_REFS = concat (map (\<lambda>(o', s, k). [(o', [''give_tick_id'', ''give_ownership'', ''action_index'']), (s, [k, ''action_index'', ''status_id''])]) OFFERS) @
     [(''index_statuses'', [''id'', ''status'']), (''index_tickers'', [''id'', ''tick''])]"

definition rederiveEscrowGate :: query where
  "rederiveEscrowGate =
     reading ((''tokens'', [''tick_id'', ''escrow_action_index'']) # OFFER_REFS) escrow_tickers (\<lambda>ticks.
       in_order (map (\<lambda>tick. reading OFFER_REFS (\<lambda>st. open_offer st tick) (\<lambda>offer.
         statement [(''tokens'', [''tick_id'', ''escrow_action_index'']), (''index_tickers'', [''id'', ''tick''])]
           (update_rows ''tokens'' (\<lambda>st t.
              case first_row st ''index_tickers'' (\<lambda>x. cell_eq (x ''tick'') tick) of
                None \<Rightarrow> None
              | Some x \<Rightarrow> if cell_eq (t ''tick_id'') (x ''id'') then Some (t(''escrow_action_index'' := offer)) else None)))) ticks))"

definition fulfilled_matches :: "store \<Rightarrow> cell list" where
  "fulfilled_matches st = map (\<lambda>c. c ''coinpay_action_index'')
     (filter (\<lambda>c. c ''coinpay_action_index'' \<noteq> CNull \<and> has_status st (c ''status_id'') ''fulfilled'') (rows_of st ''coinpay_statuses''))"

definition COINPAY_REFS :: "(string \<times> string list) list" where
  "COINPAY_REFS = [(''order_matches'', [''status_id'', ''settlement_type'', ''action_index'']), (''index_statuses'', [''id'', ''status'']),
     (''coinpay_statuses'', [''coinpay_action_index'', ''status_id''])]"

definition move_matches :: "string \<Rightarrow> string \<Rightarrow> bool \<Rightarrow> query" where
  "move_matches source target settled =
     statement COINPAY_REFS (update_rows ''order_matches'' (\<lambda>st m.
       case (status_id st source, status_id st target) of
         (Some a, Some b) \<Rightarrow>
           if m ''settlement_type'' = CText ''coinpay'' \<and> b \<noteq> CNull \<and> cell_eq (m ''status_id'') a \<and> m ''action_index'' \<noteq> CNull \<and>
              (m ''action_index'' \<in> set (fulfilled_matches st)) = settled
           then Some (m(''status_id'' := b)) else None
       | _ \<Rightarrow> None))"

definition rederiveCoinpayMatchStatus :: query where
  "rederiveCoinpayMatchStatus = in_order [move_matches ''valid'' ''pending_coinpay'' False, move_matches ''pending_coinpay'' ''valid'' True]"

definition rederiveTokenBridged :: query where
  "rederiveTokenBridged =
     statement [(''tokens'', [''bridged'', ''tick_id'']), (''xbridges'', [''tick_id'', ''version'', ''status_id'']), (''index_statuses'', [''id'', ''status''])]
       (update_rows ''tokens'' (\<lambda>st t.
          if t ''bridged'' = CNum 1 \<and>
             \<not> any_row st ''xbridges'' (\<lambda>x. cell_eq (x ''tick_id'') (t ''tick_id'') \<and> x ''version'' = CNum 3 \<and> has_status st (x ''status_id'') ''valid'')
          then Some (t(''bridged'' := CNum 0)) else None))"

section \<open>Sweeps\<close>

definition delete_dangling :: "string \<Rightarrow> (store \<Rightarrow> row \<Rightarrow> bool) \<Rightarrow> (string \<times> string list) list \<Rightarrow> query" where
  "delete_dangling t P refs = statement refs (delete_rows t P)"

definition sweep_icons :: query where
  "sweep_icons =
     tolerating ((=) 1146) (delete_dangling ''icons'' (\<lambda>st r. r ''token_id'' \<noteq> CNull \<and> \<not> any_row st ''tokens'' (\<lambda>t. cell_eq (t ''id'') (r ''token_id'')) \<and>
         \<not> any_row st ''tokens'' (\<lambda>t. t ''id'' = CNull))
       [(''icons'', [''token_id'']), (''tokens'', [''id''])])"

text \<open>\<^verbatim>\<open>readSurvivingMaxId\<close>: the highest id of a lookup table, 0 when it is empty.\<close>

definition readSurvivingMaxId :: "string \<Rightarrow> store \<Rightarrow> int" where
  "readSurvivingMaxId t st = (case column_nums ''id'' (rows_of st t) of [] \<Rightarrow> 0 | n # ns \<Rightarrow> fold max ns n)"

definition MARKET_NATIVE_TICK_ID :: int where "MARKET_NATIVE_TICK_ID = 0"

definition dangling_above :: "store \<Rightarrow> string \<Rightarrow> int \<Rightarrow> cell \<Rightarrow> bool" where
  "dangling_above st t bound v = (cell_ge v (bound + 1) \<and> \<not> any_row st t (\<lambda>x. cell_eq (x ''id'') v))"

definition sweep_markets :: query where
  "sweep_markets =
     guarded (reading [(''index_tickers'', [''id''])] (readSurvivingMaxId ''index_tickers'') (\<lambda>tickerMax.
       delete_dangling ''markets''
         (\<lambda>st m. m ''tick1_id'' \<noteq> CNum MARKET_NATIVE_TICK_ID \<and> dangling_above st ''index_tickers'' tickerMax (m ''tick1_id'') \<or>
                 m ''tick2_id'' \<noteq> CNum MARKET_NATIVE_TICK_ID \<and> dangling_above st ''index_tickers'' tickerMax (m ''tick2_id''))
         [(''markets'', [''tick1_id'', ''tick2_id'']), (''index_tickers'', [''id''])]))"

text \<open>A pair of ticks, where the native side is 0 in \<^verbatim>\<open>markets\<close> and \<^verbatim>\<open>NULL\<close> in the orders.\<close>

definition native_or :: "cell \<Rightarrow> int" where
  "native_or v = (case v of CNum n \<Rightarrow> n | _ \<Rightarrow> 0)"

definition row_pair_ticks :: "row \<Rightarrow> int \<times> int" where
  "row_pair_ticks r = (native_or (r ''give_tick_id''), native_or (r ''get_tick_id''))"

definition same_pair :: "int \<times> int \<Rightarrow> int \<times> int \<Rightarrow> bool" where
  "same_pair p q = (p = q \<or> p = (snd q, fst q))"

definition add_pair :: "int \<times> int \<Rightarrow> (int \<times> int) list \<Rightarrow> (int \<times> int) list" where
  "add_pair p ps = (if list_ex (same_pair p) ps then ps else ps @ [p])"

definition affected_pairs :: "int \<Rightarrow> store \<Rightarrow> (int \<times> int) list" where
  "affected_pairs first st =
     fold add_pair (map row_pair_ticks (filter (\<lambda>r. cell_ge (r ''action_index'') first) (rows_of st ''orders'' @ rows_of st ''order_matches''))) []"

definition PAIR_COLUMNS :: "string list" where "PAIR_COLUMNS = [''give_tick_id'', ''get_tick_id'']"

definition sweep_pair :: "int \<times> int \<Rightarrow> query" where
  "sweep_pair p =
     (let traded = (\<lambda>t st. any_row st t (\<lambda>r. same_pair (row_pair_ticks r) p));
          drop_market = delete_dangling ''markets'' (\<lambda>st m. same_pair (native_or (m ''tick1_id''), native_or (m ''tick2_id'')) p \<and> m ''tick1_id'' \<noteq> CNull \<and> m ''tick2_id'' \<noteq> CNull)
            [(''markets'', [''tick1_id'', ''tick2_id''])] in
      reading [(''orders'', PAIR_COLUMNS)] (traded ''orders'') (\<lambda>survives.
        if survives then in_order []
        else reading [(''order_matches'', PAIR_COLUMNS)] (traded ''order_matches'') (\<lambda>matched. if matched then in_order [] else drop_market)))"

definition sweep_pairs :: "(int \<times> int) list \<Rightarrow> query" where
  "sweep_pairs pairs = guarded (in_order (map sweep_pair pairs))"

definition sweep_pubkeys :: query where
  "sweep_pubkeys =
     guarded (reading [(''index_addresses'', [''id''])] (readSurvivingMaxId ''index_addresses'') (\<lambda>addressMax.
       delete_dangling ''pubkeys'' (\<lambda>st r. dangling_above st ''index_addresses'' addressMax (r ''address_id''))
         [(''pubkeys'', [''address_id'']), (''index_addresses'', [''id''])]))"

text \<open>The purge of price rounds in chunks: a statement that times out is tried again at half the size, three times in a row at
  most.  The chunk is never below one.\<close>

definition PRICE_SNAPSHOT_PURGE_CHUNK :: nat where "PRICE_SNAPSHOT_PURGE_CHUNK = 1000"
definition PRICE_SNAPSHOT_PURGE_TIMEOUT_RETRIES :: nat where "PRICE_SNAPSHOT_PURGE_TIMEOUT_RETRIES = 3"

definition isStatementTimeout :: "int \<Rightarrow> bool" where
  "isStatementTimeout e = (e = 1969 \<or> e = 3024)"

definition orphaned_price :: "int \<Rightarrow> row \<Rightarrow> bool" where
  "orphaned_price h r = (r ''reference_chain'' = CText ''BTC'' \<and> cell_ge (r ''reference_block'') h)"

fun delete_some :: "nat \<Rightarrow> ('a \<Rightarrow> bool) \<Rightarrow> 'a list \<Rightarrow> 'a list" where
  "delete_some n P [] = []"
| "delete_some n P (x # xs) = (if n > 0 \<and> P x then delete_some (n - 1) P xs else x # delete_some n P xs)"

definition PRICE_REFS :: "(string \<times> string list) list" where
  "PRICE_REFS = [(''price_snapshots'', [''reference_chain'', ''reference_block''])]"

lemma answer_shape:
  "answer refs ss = (Some e, s1) \<Longrightarrow> ss_store s1 = ss_store ss \<and> (length (ss_faults s1) < length (ss_faults ss) \<or> isSchemaGapError e)"
  "answer refs ss = (None, s1) \<Longrightarrow> ss_store s1 = ss_store ss \<and> length (ss_faults s1) \<le> length (ss_faults ss)"
  by (auto simp: answer_def schema_gap_def isSchemaGapError_def split: list.splits option.splits if_splits)

lemma delete_some_length:
  "length (filter P (delete_some n P xs)) = length (filter P xs) - n"
  by (induction n P xs rule: delete_some.induct) auto

definition purge_work :: "int \<Rightarrow> session \<Rightarrow> nat" where
  "purge_work h ss = length (ss_faults ss) + length (filter (orphaned_price h) (rows_of (ss_store ss) ''price_snapshots''))"

definition purge_chunk :: "int \<Rightarrow> nat \<Rightarrow> session \<Rightarrow> session" where
  "purge_chunk h chunk ss = ss\<lparr>ss_store := on_rows ''price_snapshots'' (delete_some chunk (orphaned_price h)) (ss_store ss)\<rparr>"

lemma purge_chunk_rows:
  "rows_of (ss_store (purge_chunk h chunk ss)) ''price_snapshots'' = delete_some chunk (orphaned_price h) (rows_of (ss_store ss) ''price_snapshots'')"
  by (auto simp: purge_chunk_def rows_of_def on_rows_def split: option.splits)

lemma purge_retry_less:
  "answer PRICE_REFS ss = (Some e, s1) \<Longrightarrow> isStatementTimeout e \<Longrightarrow> purge_work h s1 < purge_work h ss"
  using answer_shape(1)[of PRICE_REFS ss e s1] by (auto simp: purge_work_def isStatementTimeout_def isSchemaGapError_def)

lemma purge_chunk_less:
  assumes "answer PRICE_REFS ss = (None, s1)" "0 < chunk" "chunk \<le> length (filter (orphaned_price h) (rows_of (ss_store s1) ''price_snapshots''))"
  shows "purge_work h (purge_chunk h chunk s1) < purge_work h ss"
proof -
  have "ss_faults (purge_chunk h chunk s1) = ss_faults s1" by (simp add: purge_chunk_def)
  then show ?thesis
    using answer_shape(2)[OF assms(1)] assms(2,3) unfolding purge_work_def purge_chunk_rows delete_some_length by auto
qed

function purge_loop :: "int \<Rightarrow> nat \<Rightarrow> nat \<Rightarrow> query" where
  "purge_loop h chunk timeouts ss =
     (case answer PRICE_REFS ss of
        (Some e, s1) \<Rightarrow>
          if isStatementTimeout e \<and> Suc timeouts \<le> PRICE_SNAPSHOT_PURGE_TIMEOUT_RETRIES
          then purge_loop h (max 1 (chunk div 2)) (Suc timeouts) s1 else (Some e, s1)
      | (None, s1) \<Rightarrow>
          let n = length (filter (orphaned_price h) (rows_of (ss_store s1) ''price_snapshots''));
              s2 = purge_chunk h chunk s1 in
          if n < chunk \<or> chunk = 0 then (None, s2) else purge_loop h chunk 0 s2)"
  by pat_completeness auto
termination
  by (relation "measure (\<lambda>(h, chunk, timeouts, ss). purge_work h ss)")
     (auto simp: purge_retry_less purge_chunk_less not_less dest: sym)

definition purgeOrphanedPriceSnapshots :: "int \<Rightarrow> query" where
  "purgeOrphanedPriceSnapshots h = purge_loop h PRICE_SNAPSHOT_PURGE_CHUNK 0"

definition sweep_prices :: "rollback_cfg \<Rightarrow> int \<Rightarrow> query" where
  "sweep_prices cfg h = (if rc_coin cfg = Some ''BTC'' then guarded (purgeOrphanedPriceSnapshots h) else in_order [])"

definition reset_evictions :: "rollback_cfg \<Rightarrow> int \<Rightarrow> query" where
  "reset_evictions cfg h =
     (case rc_delay cfg of
        None \<Rightarrow> in_order []
      | Some delay \<Rightarrow>
          guarded (statement [(''delegations'', [''source_id'', ''deactivation_block'']), (''rollcall_absences'', [''source_id'', ''evicted'', ''close_block''])]
            (update_rows ''delegations'' (\<lambda>st d.
               if d ''deactivation_block'' \<noteq> CNull \<and>
                  any_row st ''rollcall_absences'' (\<lambda>ra. cell_eq (ra ''source_id'') (d ''source_id'') \<and> ra ''evicted'' = CNum 1 \<and> cell_ge (ra ''close_block'') h \<and>
                    d ''deactivation_block'' = cell_plus (ra ''close_block'') delay)
               then Some (unstamp d) else None))))"

definition delete_rollcalls :: "int \<Rightarrow> query" where
  "delete_rollcalls h = in_order (map (\<lambda>t. delete_from ''close_block'' t h) [''rollcall_gates'', ''rollcall_absences'', ''rollcalls''])"

definition of_chain :: "rollback_cfg \<Rightarrow> cell \<Rightarrow> bool" where
  "of_chain cfg v = (case rc_coin cfg of None \<Rightarrow> False | Some c \<Rightarrow> v = CText c)"

definition delete_hub_mirrors :: "rollback_cfg \<Rightarrow> int \<Rightarrow> query" where
  "delete_hub_mirrors cfg first = in_order
     [guarded (statement [(''oracle_prices'', [''source_chain'', ''action_index''])]
        (delete_rows ''oracle_prices'' (\<lambda>st r. of_chain cfg (r ''source_chain'') \<and> cell_ge (r ''action_index'') first))),
      guarded (in_order
        [statement [(''cross_chain_calls'', [''source_chain'', ''source_action_index''])]
           (delete_rows ''cross_chain_calls'' (\<lambda>st r. of_chain cfg (r ''source_chain'') \<and> cell_ge (r ''source_action_index'') first)),
         statement [(''cross_chain_matches'', [''a_chain'', ''a_action_index'', ''b_chain'', ''b_action_index''])]
           (delete_rows ''cross_chain_matches'' (\<lambda>st r. of_chain cfg (r ''a_chain'') \<and> cell_ge (r ''a_action_index'') first \<or>
              of_chain cfg (r ''b_chain'') \<and> cell_ge (r ''b_action_index'') first)),
         statement [(''bridge_transfers'', [''src_chain'', ''src_action_index''])]
           (delete_rows ''bridge_transfers'' (\<lambda>st r. of_chain cfg (r ''src_chain'') \<and> cell_ge (r ''src_action_index'') first))])]"

section \<open>The whole rollback\<close>

definition when_some :: "'a option \<Rightarrow> ('a \<Rightarrow> query) \<Rightarrow> query" where
  "when_some x q = (case x of None \<Rightarrow> in_order [] | Some y \<Rightarrow> q y)"

definition rederive_tokens :: "bool \<Rightarrow> query" where
  "rederive_tokens truncated = in_order (guarded rederiveEscrowGate # (if truncated then [] else [guarded rederiveTokenBridged, guarded rederiveCoinpayMatchStatus]))"

definition reset_survivors :: "rollback_cfg \<Rightarrow> int \<Rightarrow> int option \<Rightarrow> query" where
  "reset_survivors cfg h first = in_order
     [when_some first delete_emissions, reset_attests h, reset_xcalls h, reopen_polls h, rearm_poll_callbacks h, reset_bets h,
      restore_contract_slashes (rc_cast cfg) h, restore_rotations h, restore_capability_slashes h, reset_deactivations cfg h,
      restore_anchor_rewards h, reverseCooldownMaturities cfg h, when_some first (reset_archive_heads cfg h), when_some first reset_batch_heads]"

definition orphan_steps :: "rollback_cfg \<Rightarrow> int \<Rightarrow> int option \<Rightarrow> bool \<Rightarrow> (int \<times> int) list \<Rightarrow> query list" where
  "orphan_steps cfg h first truncated pairs =
     [when_some first delete_data, when_some first (\<lambda>_. rederive_tokens truncated), sweep_icons, delete_block_tables h,
      delete_from ''derive_block_index'' ''validator_rewards'' h, delete_index_tables h, sweep_markets, sweep_pairs pairs, sweep_pubkeys,
      sweep_prices cfg h, reset_evictions cfg h, delete_rollcalls h, when_some first (delete_hub_mirrors cfg),
      delete_from ''block_index'' ''sync_meta'' h, delete_from ''end_block'' ''merkle_epochs'' h, delete_from ''last_updated_block'' ''attest_validator_stats'' h]"

definition delete_orphans :: "rollback_cfg \<Rightarrow> int \<Rightarrow> int option \<Rightarrow> bool \<Rightarrow> (int \<times> int) list \<Rightarrow> query" where
  "delete_orphans cfg h first truncated pairs = in_order (orphan_steps cfg h first truncated pairs)"

definition recompute_aggregates :: "rollback_cfg \<Rightarrow> cell list \<Rightarrow> query" where
  "recompute_aggregates cfg ticks = in_order
     [tolerating ((=) 1146) (rebuildBalances (rc_cast cfg) None), guarded (refoldTokenRows (rc_token_columns cfg) ticks),
      tolerating ((=) 1146) (recomputeTokenSupplies (rc_cast cfg))]"

text \<open>The collected ticks are read between the resets and the deletes; a schema gap there counts as no ticks.\<close>

definition with_refold_ticks :: "int option \<Rightarrow> (cell list \<Rightarrow> query) \<Rightarrow> query" where
  "with_refold_ticks first k = (case first of None \<Rightarrow> k [] | Some f \<Rightarrow> collectRefoldTickIds f (rl_data replicaRollbackTables) k)"

definition rollback_body :: "rollback_cfg \<Rightarrow> int \<Rightarrow> int option \<Rightarrow> bool \<Rightarrow> (int \<times> int) list \<Rightarrow> query" where
  "rollback_body cfg h first truncated pairs =
     in_order [reset_survivors cfg h first,
       with_refold_ticks first (\<lambda>ticks. in_order [delete_orphans cfg h first truncated pairs, recompute_aggregates cfg ticks])]"

definition getFirstActionIndex :: "int \<Rightarrow> store \<Rightarrow> int option" where
  "getFirstActionIndex h st =
     (case column_nums ''action_index'' (filter (\<lambda>a. cell_ge (a ''block_index'') h) (rows_of st ''actions'')) of [] \<Rightarrow> None | n # ns \<Rightarrow> Some (fold min ns n))"

text \<open>\<^verbatim>\<open>getSyncState\<close> creates the table \<^verbatim>\<open>sync_state\<close> on its first call in a process, before the transaction.  The client reads its markers
  through it at startup, so by the time of a rollback the table is there, and only the read is rendered; its error aborts the rollback
  as any other.\<close>

definition truncated_replica :: "store \<Rightarrow> bool" where
  "truncated_replica st =
     (case first_row st ''sync_state'' (\<lambda>r. r ''state_key'' = CText ''bootstrap_base:indexer'') of
        None \<Rightarrow> False
      | Some r \<Rightarrow> (case r ''state_value'' of CText s \<Rightarrow> (case parseInt10_text s of Some n \<Rightarrow> n > 0 | None \<Rightarrow> False) | CNum n \<Rightarrow> n > 0 | CNull \<Rightarrow> False))"

definition rollbackIndexer :: "rollback_cfg \<Rightarrow> int \<Rightarrow> query" where
  "rollbackIndexer cfg h =
     reading [(''actions'', [''action_index'', ''block_index''])] (getFirstActionIndex h) (\<lambda>first.
     reading [] truncated_replica (\<lambda>truncated.
     (case first of
        Some f \<Rightarrow> if truncated then (\<lambda>k. k []) else
          reading_or [] [(''orders'', ''action_index'' # PAIR_COLUMNS), (''order_matches'', ''action_index'' # PAIR_COLUMNS)] (affected_pairs f)
      | None \<Rightarrow> (\<lambda>k. k [])) (\<lambda>pairs.
     in_transaction (rollback_body cfg h first truncated pairs))))"

section \<open>Decoder\<close>

definition delete_outputs :: "int list \<Rightarrow> query" where
  "delete_outputs txs =
     (if txs = [] then in_order []
      else in_order (map (\<lambda>t. guarded (statement [(t, [''tx_index''])] (delete_rows t (\<lambda>st r. list_ex (\<lambda>n. r ''tx_index'' = CNum n) txs)))) (tp_txScoped decoder_topology)))"

definition rollbackDecoder :: "int \<Rightarrow> query" where
  "rollbackDecoder h =
     in_transaction
       (reading [(''transactions'', [''tx_index'', ''block_index''])]
          (\<lambda>st. column_nums ''tx_index'' (filter (\<lambda>r. cell_ge (r ''block_index'') h) (rows_of st ''transactions''))) (\<lambda>txs.
        in_order (delete_outputs txs #
          map (\<lambda>t. statement [(t, [''block_index''])] (delete_rows t (\<lambda>st r. cell_ge (r ''block_index'') h))) (rev (tp_blockScoped decoder_topology)))))"

definition rollback :: "rollback_cfg \<Rightarrow> string \<Rightarrow> int \<Rightarrow> query" where
  "rollback cfg dbType h = (if dbType = ''decoder'' then rollbackDecoder h else rollbackIndexer cfg h)"

end
