(* ===== verification/Wire_Codec.thy ===== *)
theory Wire_Codec
  imports Row_Store JS_Values
begin

text \<open>
  The values of a row on their way from the database of the source to the database of a replica
  (\<^verbatim>\<open>src/src/util/wire_codec.js\<close>): the cast of wide integers, the sentinel around binary columns, the replacer of the
  serializer, and the values the replica binds (\<^verbatim>\<open>doQuery\<close> of \<^verbatim>\<open>src/src/db/index.js\<close>).  A buffer is a text of octets.
\<close>

section \<open>Base 64\<close>

definition sextet :: "nat \<Rightarrow> char" where
  "sextet n = char_of (if n < 26 then n + 65 else if n < 52 then n + 71 else if n < 62 then n - 4 else if n = 62 then 43 else 47)"

text \<open>The decoder also reads the URL alphabet.\<close>

definition sextet_value :: "char \<Rightarrow> nat option" where
  "sextet_value c =
     (let n = of_char c in
      if 65 \<le> n \<and> n \<le> 90 then Some (n - 65) else if 97 \<le> n \<and> n \<le> 122 then Some (n - 71)
      else if 48 \<le> n \<and> n \<le> 57 then Some (n + 4) else if n = 43 \<or> n = 45 then Some 62 else if n = 47 \<or> n = 95 then Some 63 else None)"

fun base64 :: "string \<Rightarrow> string" where
  "base64 [] = []"
| "base64 [a] = (let x = of_char a in [sextet (x div 4), sextet (x mod 4 * 16), CHR ''='', CHR ''=''])"
| "base64 [a, b] = (let x = of_char a; y = of_char b in [sextet (x div 4), sextet (x mod 4 * 16 + y div 16), sextet (y mod 16 * 4), CHR ''=''])"
| "base64 (a # b # c # bs) =
     (let x = of_char a; y = of_char b; z = of_char c in
      sextet (x div 4) # sextet (x mod 4 * 16 + y div 16) # sextet (y mod 16 * 4 + z div 64) # sextet (z mod 64) # base64 bs)"

fun octets_of_sextets :: "nat list \<Rightarrow> string" where
  "octets_of_sextets (p # q # r # s # ss) = char_of (p * 4 + q div 16) # char_of (q mod 16 * 16 + r div 4) # char_of (r mod 4 * 64 + s) # octets_of_sextets ss"
| "octets_of_sextets [p, q, r] = [char_of (p * 4 + q div 16), char_of (q mod 16 * 16 + r div 4)]"
| "octets_of_sextets [p, q] = [char_of (p * 4 + q div 16)]"
| "octets_of_sextets _ = []"

text \<open>\<^verbatim>\<open>Buffer.from(s, 'base64')\<close> stops at the padding and skips what is not of the alphabet.\<close>

definition from_base64 :: "string \<Rightarrow> string" where
  "from_base64 s = octets_of_sextets (List.map_filter sextet_value (takeWhile (\<lambda>c. c \<noteq> CHR ''='') s))"

lemma sextet_inverse: "n < 64 \<Longrightarrow> sextet_value (sextet n) = Some n" "n < 64 \<Longrightarrow> sextet n \<noteq> CHR ''=''"
proof -
  assume n: "n < 64"
  show "sextet_value (sextet n) = Some n" using n by (auto simp: sextet_def sextet_value_def Let_def)
  have "of_char (sextet n) \<noteq> (61 :: nat)" using n by (auto simp: sextet_def)
  then show "sextet n \<noteq> CHR ''=''" by auto
qed

lemma of_char_small: "(of_char c :: nat) < 256"
  by (metis mod_less_divisor of_char_mod_256 zero_less_numeral)

lemma join_digits:
  fixes a b k :: nat
  assumes "b < k"
  shows "(a * k + b) div k = a" "(a * k + b) mod k = b" "a < m \<Longrightarrow> a * k + b < m * k"
proof -
  show "(a * k + b) div k = a" "(a * k + b) mod k = b" using assms by simp_all
  assume "a < m"
  then have "a * k + k \<le> m * k" by (metis Suc_leI add.commute mult_Suc mult_le_mono1)
  then show "a * k + b < m * k" using assms by linarith
qed

lemma regroup:
  fixes x y z :: nat
  assumes "x < 256" "y < 256" "z < 256"
  shows "x div 4 < 64" "x mod 4 * 16 + y div 16 < 64" "y mod 16 * 4 + z div 64 < 64" "x div 4 * 4 + (x mod 4 * 16 + y div 16) div 16 = x"
    "(x mod 4 * 16 + y div 16) mod 16 * 16 + (y mod 16 * 4 + z div 64) div 4 = y" "(y mod 16 * 4 + z div 64) mod 4 * 64 + z mod 64 = z"
    "x mod 4 * 16 < 64" "y mod 16 * 4 < 64" "x div 4 * 4 + x mod 4 * 16 div 16 = x"
    "(x mod 4 * 16 + y div 16) mod 16 * 16 + y mod 16 * 4 div 4 = y" "z mod 64 < 64"
proof -
  have y: "y div 16 < 16" and z: "z div 64 < 4" using assms by (simp_all add: less_mult_imp_div_less)
  note jy = join_digits[OF y, of "x mod 4"] and jz = join_digits[OF z, of "y mod 16"]
  show "x mod 4 * 16 + y div 16 < 64" using jy(3)[of 4] by simp
  show "y mod 16 * 4 + z div 64 < 64" using jz(3)[of 16] by simp
  show "x div 4 * 4 + (x mod 4 * 16 + y div 16) div 16 = x" unfolding jy by simp
  show "(x mod 4 * 16 + y div 16) mod 16 * 16 + (y mod 16 * 4 + z div 64) div 4 = y" unfolding jy jz by simp
  show "(y mod 16 * 4 + z div 64) mod 4 * 64 + z mod 64 = z" unfolding jz by simp
  show "(x mod 4 * 16 + y div 16) mod 16 * 16 + y mod 16 * 4 div 4 = y" unfolding jy by simp
  have "x mod 4 < 4" "y mod 16 < 16" by simp_all
  then show "x mod 4 * 16 < 64" "y mod 16 * 4 < 64" by linarith+
qed (use assms in \<open>simp_all add: less_mult_imp_div_less\<close>)

lemma map_filter_Some: "f x = Some y \<Longrightarrow> List.map_filter f (x # xs) = y # List.map_filter f xs"
  by (simp add: List.map_filter_simps)

lemma from_base64_base64 [simp, codec_simps]: "from_base64 (base64 bs) = bs"
proof (induction bs rule: base64.induct)
  case (2 a)
  show ?case using regroup[OF of_char_small[of a] of_char_small of_char_small]
    by (simp add: from_base64_def Let_def sextet_inverse map_filter_Some List.map_filter_simps(2))
next
  case (3 a b)
  show ?case using regroup[OF of_char_small[of a] of_char_small[of b] of_char_small]
    by (simp add: from_base64_def Let_def sextet_inverse map_filter_Some List.map_filter_simps(2))
next
  case (4 a b c bs)
  then show ?case using regroup[OF of_char_small[of a] of_char_small[of b] of_char_small[of c]]
    by (simp add: from_base64_def Let_def sextet_inverse map_filter_Some)
qed (simp add: from_base64_def List.map_filter_simps)

section \<open>Values\<close>

datatype val = VNull | VNum int | VText string | VBig int | VBuf string | VList "val list" | VObj "(string \<times> val) list"

type_synonym wire_row = "(string \<times> val) list"
type_synonym wire_tables = "(string \<times> wire_row list) list"

definition BINARY_TAG :: string where
  "BINARY_TAG = ''__xbin__''"

text \<open>The nearest double of an integer, ties to even: 53 significant bits.\<close>

fun bit_len :: "nat \<Rightarrow> nat" where
  "bit_len n = (if n = 0 then 0 else Suc (bit_len (n div 2)))"

declare bit_len.simps [simp del]

definition round_double :: "nat \<Rightarrow> nat" where
  "round_double n =
     (let g = 2 ^ (bit_len n - 53); q = n div g; r = n mod g in
      (if 2 * r > g \<or> 2 * r = g \<and> odd q then q + 1 else q) * g)"

definition to_double :: "int \<Rightarrow> int" where
  "to_double n = sgn n * int (round_double (nat \<bar>n\<bar>))"

definition isSafeInteger :: "int \<Rightarrow> bool" where
  "isSafeInteger n \<longleftrightarrow> \<bar>n\<bar> \<le> 2 ^ 53 - 1"

text \<open>A \<^verbatim>\<open>BIGINT\<close> cell comes as its decimal text, or as no text for \<^verbatim>\<open>NULL\<close>.\<close>

definition bigIntTypeCast :: "string option \<Rightarrow> val" where
  "bigIntTypeCast text =
     (case text of
        None \<Rightarrow> VNull
      | Some t \<Rightarrow> (case int_text t of
          Some n \<Rightarrow> (let approx = to_double n in if isSafeInteger approx then VNum approx else VText t)
        | None \<Rightarrow> VText t))"

definition encode_value :: "val \<Rightarrow> val" where
  "encode_value v = (case v of VBuf b \<Rightarrow> VObj [(BINARY_TAG, VText (base64 b))] | _ \<Rightarrow> v)"

definition encodeRow :: "wire_row \<Rightarrow> wire_row" where
  "encodeRow row = map (\<lambda>(k, v). (k, encode_value v)) row"

definition encodeTables :: "wire_tables \<Rightarrow> wire_tables" where
  "encodeTables tables = map (\<lambda>(t, rows). (t, map encodeRow rows)) tables"

text \<open>What \<^verbatim>\<open>JSON.parse\<close> reads back from \<^verbatim>\<open>JSON.stringify\<close> with \<^verbatim>\<open>bigIntReplacer\<close>.  A buffer that was not encoded becomes the
  object of its \<^verbatim>\<open>toJSON\<close>.\<close>

fun on_wire :: "val \<Rightarrow> val" where
  "on_wire VNull = VNull"
| "on_wire (VNum n) = VNum n"
| "on_wire (VText s) = VText s"
| "on_wire (VBig n) = VText (int_str n)"
| "on_wire (VBuf b) = VObj [(''type'', VText ''Buffer''), (''data'', VList (map (\<lambda>c. VNum (of_char c)) b))]"
| "on_wire (VList vs) = VList (map on_wire vs)"
| "on_wire (VObj kvs) = VObj (map (\<lambda>(k, v). (k, on_wire v)) kvs)"

definition decodeValue :: "val \<Rightarrow> val" where
  "decodeValue v = (case v of VObj [(k, VText t)] \<Rightarrow> if k = BINARY_TAG then VBuf (from_base64 t) else v | _ \<Rightarrow> v)"

text \<open>The value \<^verbatim>\<open>doQuery\<close> binds: an object other than a buffer is turned into its text first.\<close>

fun val_text :: "val \<Rightarrow> string" where
  "val_text VNull = []"
| "val_text (VNum n) = int_str n"
| "val_text (VText s) = s"
| "val_text (VBig n) = int_str n"
| "val_text (VBuf b) = b"
| "val_text (VList []) = []"
| "val_text (VList [v]) = val_text v"
| "val_text (VList (v # w # vs)) = val_text v @ '','' @ val_text (VList (w # vs))"
| "val_text (VObj _) = ''[object Object]''"

definition bound :: "val \<Rightarrow> cell" where
  "bound v = (case v of VNull \<Rightarrow> CNull | VNum n \<Rightarrow> CNum n | VBig n \<Rightarrow> CNum n | VText s \<Rightarrow> CText s | VBuf b \<Rightarrow> CText b | _ \<Rightarrow> CText (val_text v))"

section \<open>From column to column\<close>

datatype column_kind = IntegerColumn | TextColumn | BinaryColumn

text \<open>What the driver hands out for a column of the source, and what the server of the replica stores in a column of that kind.\<close>

definition column_read :: "column_kind \<Rightarrow> cell \<Rightarrow> val" where
  "column_read kind v =
     (case v of
        CNull \<Rightarrow> if kind = IntegerColumn then bigIntTypeCast None else VNull
      | CNum n \<Rightarrow> bigIntTypeCast (Some (int_str n))
      | CText s \<Rightarrow> if kind = BinaryColumn then VBuf s else VText s)"

definition column_stored :: "column_kind \<Rightarrow> cell \<Rightarrow> cell" where
  "column_stored kind v =
     (case (kind, v) of (IntegerColumn, CText s) \<Rightarrow> (case int_text s of Some n \<Rightarrow> CNum n | None \<Rightarrow> v) | _ \<Rightarrow> v)"

definition of_kind :: "column_kind \<Rightarrow> cell \<Rightarrow> bool" where
  "of_kind kind v = (case v of CNull \<Rightarrow> True | CNum n \<Rightarrow> kind = IntegerColumn | CText s \<Rightarrow> kind \<noteq> IntegerColumn)"

lemma bit_len_bounds: "n < 2 ^ bit_len n" "n \<noteq> 0 \<Longrightarrow> 2 ^ (bit_len n - 1) \<le> n"
proof (induction n rule: bit_len.induct)
  case (1 n)
  {
    case 1
    then show ?case using "1.IH"(1) by (cases "n = 0") (simp_all add: bit_len.simps[of n])
  next
    case 2
    then show ?case
      using "1.IH"(2) by (cases "n div 2 = 0") (auto simp: bit_len.simps[of n] bit_len.simps[of 0] bit_len.simps[of "n div 2"])
  }
qed

lemma round_double_small: "n < 2 ^ 53 \<Longrightarrow> round_double n = n"
proof -
  assume n: "n < 2 ^ 53"
  have "bit_len n \<le> 53"
  proof (cases "n = 0")
    case False
    then have "(2 :: nat) ^ (bit_len n - 1) < 2 ^ 53" using bit_len_bounds(2)[of n] n by linarith
    then have "bit_len n - 1 < 53" by (rule power_less_imp_less_exp[rotated]) simp
    then show ?thesis by simp
  qed (simp add: bit_len.simps)
  then show ?thesis by (simp add: round_double_def)
qed

lemma round_double_large:
  assumes "2 ^ 53 \<le> n"
  shows "2 ^ 53 \<le> round_double n"
proof -
  define k where "k = bit_len n - 53"
  have "(2 :: nat) ^ 53 < 2 ^ bit_len n" using bit_len_bounds(1)[of n] assms by linarith
  then have b: "53 < bit_len n" by (rule power_less_imp_less_exp[rotated]) simp
  then have e: "bit_len n - 1 = 52 + k" "1 \<le> k" by (simp_all add: k_def)
  have "n \<noteq> 0" using assms by (intro notI) simp
  then have "2 ^ (52 + k) \<le> n" using bit_len_bounds(2)[of n] e by simp
  then have q: "2 ^ 52 \<le> n div 2 ^ k" by (simp add: power_add less_eq_div_iff_mult_less_eq)
  have "(2 :: nat) ^ 53 \<le> 2 ^ 52 * 2 ^ k" using e(2) power_increasing[of 1 k "2 :: nat"] by simp
  also have "\<dots> \<le> n div 2 ^ k * 2 ^ k" using q by (rule mult_le_mono1)
  also have "\<dots> \<le> round_double n" by (simp add: round_double_def Let_def k_def)
  finally show ?thesis .
qed

text \<open>Only an integer that the double holds exactly is read as a number.\<close>

lemma to_double_safe: "isSafeInteger (to_double n) \<longleftrightarrow> isSafeInteger n" "isSafeInteger n \<Longrightarrow> to_double n = n"
proof -
  have a: "\<bar>to_double n\<bar> = int (round_double (nat \<bar>n\<bar>))" if "n \<noteq> 0" using that by (simp add: to_double_def abs_mult)
  have s: "round_double (nat \<bar>n\<bar>) = nat \<bar>n\<bar>" if "isSafeInteger n"
    by (rule round_double_small) (use that in \<open>auto simp: isSafeInteger_def nat_less_iff\<close>)
  then show e: "to_double n = n" if "isSafeInteger n" using that by (simp add: to_double_def sgn_if)
  show "isSafeInteger (to_double n) \<longleftrightarrow> isSafeInteger n"
  proof (cases "isSafeInteger n")
    case False
    then have "2 ^ 53 \<le> nat \<bar>n\<bar>" by (simp add: isSafeInteger_def le_nat_iff)
    from round_double_large[OF this] have "2 ^ 53 \<le> int (round_double (nat \<bar>n\<bar>))" by simp
    moreover have "n \<noteq> 0" using False by (auto simp: isSafeInteger_def)
    ultimately show ?thesis using a False by (simp add: isSafeInteger_def)
  qed (simp add: e)
qed

lemma int_text_int_str [simp, codec_simps]: "int_text (int_str n) = Some n"
proof (cases "n < 0")
  case True
  then show ?thesis using nat_str_digits[of "nat (- n)"] by (simp add: int_str_def int_text_def list_all_iff)
next
  case False
  have d: "\<forall>c \<in> set (nat_str (nat n)). is_digit c" by (rule nat_str_digits)
  obtain c t where c: "nat_str (nat n) = c # t" by (cases "nat_str (nat n)") auto
  then have "is_digit c" using d by simp
  then have "c \<noteq> CHR ''-''" "c \<noteq> CHR ''+''" by (auto simp: is_digit_def)
  then show ?thesis using False d c dec_val_nat_str[of "nat n"] by (simp add: int_str_def int_text_def list_all_iff)
qed

definition delivered :: "column_kind \<Rightarrow> val \<Rightarrow> cell" where
  "delivered kind v = column_stored kind (bound (decodeValue (on_wire v)))"

lemma value_delivered: "of_kind kind v \<Longrightarrow> delivered kind (encode_value (column_read kind v)) = v"
  by (cases v; cases kind)
     (auto simp: delivered_def column_read_def column_stored_def of_kind_def bigIntTypeCast_def encode_value_def decodeValue_def bound_def BINARY_TAG_def
       to_double_safe Let_def)

definition served :: "(string \<Rightarrow> column_kind) \<Rightarrow> string list \<Rightarrow> row \<Rightarrow> wire_row" where
  "served kinds cs r = map (\<lambda>c. (c, column_read (kinds c) (r c))) cs"

text \<open>(C17) Every column of every row arrives as it is stored at the source, whatever its kind: \<^verbatim>\<open>NULL\<close>, integers of any width
  (past the safe integers of a double too), texts, and octets of a binary column.\<close>

theorem wire_columns_roundtrip:
  assumes "\<forall>(t, rows) \<in> set tables. \<forall>r \<in> set rows. \<forall>c \<in> set (cols t). of_kind (kinds c) (r c)"
  shows "map (\<lambda>(t, rows). (t, map (map (\<lambda>(c, v). (c, delivered (kinds c) v))) rows))
      (encodeTables (map (\<lambda>(t, rows). (t, map (served kinds (cols t)) rows)) tables)) =
    map (\<lambda>(t, rows). (t, map (\<lambda>r. map (\<lambda>c. (c, r c)) (cols t)) rows)) tables"
  using assms by (auto simp: encodeTables_def encodeRow_def served_def value_delivered)

theorem wire_columns_roundtrip_witness:
  "map (\<lambda>(t, rows). (t, map (map (\<lambda>(c, v). (c, delivered (if c = ''id'' then IntegerColumn else BinaryColumn) v))) rows))
      (encodeTables (map (\<lambda>(t, rows). (t, map (served (\<lambda>c. if c = ''id'' then IntegerColumn else BinaryColumn) [''id'', ''data'']) rows))
        [(''events'', [\<lambda>c. if c = ''id'' then CNum (2 ^ 64 - 1) else CText ''xyz''])])) =
    [(''events'', [[(''id'', CNum (2 ^ 64 - 1)), (''data'', CText ''xyz'')]])]"
  using wire_columns_roundtrip[of "[(''events'', [\<lambda>c. if c = ''id'' then CNum (2 ^ 64 - 1) else CText ''xyz''])]"
      "\<lambda>_. [''id'', ''data'']" "\<lambda>c. if c = ''id'' then IntegerColumn else BinaryColumn"]
  by (simp add: of_kind_def)

end
