(* ===== verification/Input_Validation.thy ===== *)
theory Input_Validation
  imports Gate_Registry
begin

text \<open>
  The checks on names and definitions that come from a source (\<^verbatim>\<open>src/src/util/validation.js\<close>) before they are spliced into a
  statement, and the \<^verbatim>\<open>ALTER TABLE\<close> that \<^verbatim>\<open>addMissingColumns\<close> of \<^verbatim>\<open>src/src/sql/migrations/runner.js\<close> builds from them.
\<close>

section \<open>Names\<close>

definition is_letter :: "char \<Rightarrow> bool" where
  "is_letter c = (let n = of_char c :: nat in 65 \<le> n \<and> n \<le> 90 \<or> 97 \<le> n \<and> n \<le> 122)"

definition is_word :: "char \<Rightarrow> bool" where
  "is_word c = (is_letter c \<or> is_digit c \<or> c = CHR ''_'')"

text \<open>\<^verbatim>\<open>IDENTIFIER_RE\<close> on 1 to 64 characters.\<close>

definition validateIdentifier :: "string \<Rightarrow> bool" where
  "validateIdentifier s = (s \<noteq> [] \<and> length s \<le> 64 \<and> list_all is_word s)"

section \<open>Lines of a definition\<close>

definition BT :: char where "BT = CHR 0x60"
definition SQ :: char where "SQ = CHR 0x27"
definition DQ :: char where "DQ = CHR 0x22"
definition NL :: char where "NL = CHR 0x0A"

text \<open>The name between the backticks that open a line, \<^term>\<open>None\<close> on a line that defines no column.\<close>

definition ticked_name :: "string \<Rightarrow> string option" where
  "ticked_name line =
     (case line of
        [] \<Rightarrow> None
      | c # s \<Rightarrow> (let name = takeWhile (\<lambda>d. d \<noteq> BT) s in
          if c = BT \<and> name \<noteq> [] \<and> BT \<in> set s then Some name else None))"

definition extractColumnNames :: "string \<Rightarrow> string list" where
  "extractColumnNames ddl = List.map_filter (\<lambda>l. ticked_name (js_trim l)) (split_on NL ddl)"

text \<open>\<^verbatim>\<open>/,\s*$/\<close>: a comma with nothing but white space behind it goes.  The line is trimmed.\<close>

definition drop_comma :: "string \<Rightarrow> string" where
  "drop_comma s = (if s \<noteq> [] \<and> last s = CHR '','' then butlast s else s)"

text \<open>The scan for a comma outside quotes and parentheses: \<^term>\<open>True\<close> when one is found.\<close>

datatype scan = Plain | InStr | InTick

fun top_comma :: "nat \<Rightarrow> scan \<Rightarrow> string \<Rightarrow> bool" where
  "top_comma depth st [] = False"
| "top_comma depth InStr (c # s) =
     (if c = SQ then (case s of d # s' \<Rightarrow> if d = SQ then top_comma depth InStr s' else top_comma depth Plain s | [] \<Rightarrow> False)
      else top_comma depth InStr s)"
| "top_comma depth InTick (c # s) =
     (if c = BT then (case s of d # s' \<Rightarrow> if d = BT then top_comma depth InTick s' else top_comma depth Plain s | [] \<Rightarrow> False)
      else top_comma depth InTick s)"
| "top_comma depth Plain (c # s) =
     (if c = SQ then top_comma depth InStr s
      else if c = BT then top_comma depth InTick s
      else if c = CHR ''('' then top_comma (depth + 1) Plain s
      else if c = CHR '')'' then top_comma (depth - 1) Plain s
      else if c = CHR '','' \<and> depth = 0 then True
      else top_comma depth Plain s)"

definition column_line :: "string \<Rightarrow> string \<Rightarrow> bool" where
  "column_line name line = (ticked_name line = Some name)"

definition extractColumnDefinition :: "string \<Rightarrow> string \<Rightarrow> string option" where
  "extractColumnDefinition ddl name =
     (case filter (column_line name) (map js_trim (split_on NL ddl)) of
        [] \<Rightarrow> None
      | line # _ \<Rightarrow> (let def = drop_comma line in
          if CHR '';'' \<in> set def \<or> top_comma 0 Plain def then None else Some def))"

section \<open>Statements\<close>

definition ascii_upper :: "char \<Rightarrow> char" where
  "ascii_upper c = (let n = of_char c :: nat in if 97 \<le> n \<and> n \<le> 122 then char_of (n - 32) else c)"

text \<open>Steps of the patterns, without regard to case: a keyword, white space that may be absent, white space that may not.\<close>

definition after_word :: "string \<Rightarrow> string \<Rightarrow> string option" where
  "after_word w s = (if map ascii_upper (take (length w) s) = w then Some (drop (length w) s) else None)"

definition skip_space :: "string \<Rightarrow> string" where
  "skip_space s = trim_start js_ws s"

definition after_space :: "string \<Rightarrow> string option" where
  "after_space s = (if skip_space s = s then None else Some (skip_space s))"

definition at_boundary :: "string \<Rightarrow> bool" where
  "at_boundary s = (case s of [] \<Rightarrow> True | c # _ \<Rightarrow> \<not> is_word c)"

definition two_words :: "string \<Rightarrow> string \<Rightarrow> string \<Rightarrow> string option" where
  "two_words v w s = Option.bind (after_word v s) (\<lambda>t. Option.bind (after_space t) (after_word w))"

definition bounded_word :: "(string \<Rightarrow> string option) \<Rightarrow> string \<Rightarrow> bool" where
  "bounded_word m s = (case m s of Some t \<Rightarrow> at_boundary t | None \<Rightarrow> False)"

definition ddl_start :: "string \<Rightarrow> bool" where
  "ddl_start s = (case two_words ''CREATE'' ''TABLE'' (skip_space s) of Some t \<Rightarrow> after_space t \<noteq> None | None \<Rightarrow> False)"

definition ddl_wrong_type :: "string \<Rightarrow> bool" where
  "ddl_wrong_type s = list_ex (\<lambda>w. bounded_word (two_words ''CREATE'' w) (skip_space s)) [''TRIGGER'', ''PROCEDURE'', ''FUNCTION'', ''EVENT'', ''VIEW'']"

definition banned_statement :: "string \<Rightarrow> bool" where
  "banned_statement s =
     (list_ex (\<lambda>w. bounded_word (after_word w) s) [''DROP'', ''EXEC'', ''EXECUTE''] \<or>
      list_ex (\<lambda>w. bounded_word (two_words ''CREATE'' w) s) [''TRIGGER'', ''PROCEDURE'', ''FUNCTION'', ''EVENT'', ''VIEW''])"

fun ddl_banned :: "string \<Rightarrow> bool" where
  "ddl_banned [] = False"
| "ddl_banned (c # s) = (c = CHR '';'' \<and> banned_statement (skip_space s) \<or> ddl_banned s)"

definition validateDdl :: "jsv \<Rightarrow> bool" where
  "validateDdl sql = (case sql of JStr s \<Rightarrow> js_trim s \<noteq> [] \<and> ddl_start s \<and> \<not> ddl_wrong_type s \<and> \<not> ddl_banned s | _ \<Rightarrow> False)"

text \<open>\<^verbatim>\<open>maskSqlQuoted\<close> blanks what stands in quotes of the three kinds, with doubled quotes inside.\<close>

fun mask_quoted :: "char option \<Rightarrow> string \<Rightarrow> string" where
  "mask_quoted q [] = []"
| "mask_quoted None (c # s) = (if c \<in> {SQ, BT, DQ} then CHR '' '' # mask_quoted (Some c) s else c # mask_quoted None s)"
| "mask_quoted (Some q) [c] = [CHR '' '']"
| "mask_quoted (Some q) (c # d # s) =
     (if c = q \<and> d = q then CHR '' '' # CHR '' '' # mask_quoted (Some q) s
      else CHR '' '' # mask_quoted (if c = q then None else Some q) (d # s))"

definition maskSqlQuoted :: "string \<Rightarrow> string" where
  "maskSqlQuoted s = mask_quoted None s"

fun has_word :: "string \<Rightarrow> bool \<Rightarrow> string \<Rightarrow> bool" where
  "has_word w open' [] = False"
| "has_word w open' (c # s) = (open' \<and> bounded_word (after_word w) (c # s) \<or> has_word w (\<not> is_word c) s)"

definition isAutoIncrementDefinition :: "string \<Rightarrow> bool" where
  "isAutoIncrementDefinition def = has_word ''AUTO_INCREMENT'' True (maskSqlQuoted def)"

datatype key_type = Primary | Unique | Index

definition CR :: char where "CR = CHR 0x0D"

definition in_parens :: "string \<Rightarrow> string option" where
  "in_parens s =
     (case skip_space s of
        [] \<Rightarrow> None
      | c # t \<Rightarrow> if c = CHR ''('' \<and> t \<noteq> [] \<and> last t = CHR '')'' \<and> CR \<notin> set t then Some (butlast t) else None)"

definition named_key :: "string \<Rightarrow> (string \<times> string) option" where
  "named_key s =
     Option.bind (after_space s) (\<lambda>t. Option.bind (ticked_name t) (\<lambda>name.
       map_option (Pair name) (in_parens (drop (length name + 2) t))))"

definition key_line :: "string \<Rightarrow> (key_type \<times> string option \<times> string) option" where
  "key_line s =
     (case Option.bind (two_words ''PRIMARY'' ''KEY'' s) in_parens of
        Some cols \<Rightarrow> Some (Primary, None, cols)
      | None \<Rightarrow> (case Option.bind (two_words ''UNIQUE'' ''KEY'' s) named_key of
          Some (name, cols) \<Rightarrow> Some (Unique, Some name, cols)
        | None \<Rightarrow> (case Option.bind (after_word ''KEY'' s) named_key of
            Some (name, cols) \<Rightarrow> Some (Index, Some name, cols)
          | None \<Rightarrow> None)))"

text \<open>One part of a key: a name in backticks with an optional prefix length.\<close>

definition key_part :: "string \<Rightarrow> string option" where
  "key_part part =
     Option.bind (ticked_name part) (\<lambda>name. let t = drop (length name + 2) part in
       if t = [] \<or> length t \<ge> 3 \<and> hd t = CHR ''('' \<and> last t = CHR '')'' \<and> list_all is_digit (butlast (tl t)) then Some name else None)"

definition key_rank :: "key_type \<Rightarrow> nat" where
  "key_rank k = (case k of Primary \<Rightarrow> 0 | Unique \<Rightarrow> 1 | Index \<Rightarrow> 2)"

definition key_candidate :: "string \<Rightarrow> string \<Rightarrow> (key_type \<times> string option) option" where
  "key_candidate column line =
     (let s = drop_comma (js_trim line) in
      if CHR '';'' \<in> set s then None
      else case key_line s of
        Some (ty, name, cols) \<Rightarrow>
          if map (\<lambda>p. key_part (js_trim p)) (split_on CHR '','' cols) = [Some column] \<and> validateIdentifier column \<and>
             (case name of None \<Rightarrow> True | Some n \<Rightarrow> validateIdentifier n)
          then Some (ty, name) else None
      | None \<Rightarrow> None)"

definition better_key :: "(key_type \<times> string option) option \<Rightarrow> key_type \<times> string option \<Rightarrow> (key_type \<times> string option) option" where
  "better_key best cand = (case best of None \<Rightarrow> Some cand | Some b \<Rightarrow> if key_rank (fst cand) < key_rank (fst b) then Some cand else best)"

definition extractKeyForColumn :: "string \<Rightarrow> string \<Rightarrow> (key_type \<times> string option) option" where
  "extractKeyForColumn ddl column = foldl better_key None (List.map_filter (key_candidate column) (split_on NL ddl))"

text \<open>The actions and the statement for one missing column; \<open>primary\<close> tells whether the table has a primary key.\<close>

definition ticked :: "string \<Rightarrow> string" where
  "ticked s = BT # s @ [BT]"

definition autoIncrementKeyAction :: "bool \<Rightarrow> string \<Rightarrow> string \<Rightarrow> string" where
  "autoIncrementKeyAction primary col ddl =
     (case extractKeyForColumn ddl col of
        Some (Primary, _) \<Rightarrow> if primary then ''ADD UNIQUE KEY '' @ ticked col @ '' ('' @ ticked col @ '')'' else ''ADD PRIMARY KEY ('' @ ticked col @ '')''
      | Some (Unique, Some name) \<Rightarrow> ''ADD UNIQUE KEY '' @ ticked name @ '' ('' @ ticked col @ '')''
      | Some (Index, Some name) \<Rightarrow> ''ADD KEY '' @ ticked name @ '' ('' @ ticked col @ '')''
      | _ \<Rightarrow> ''ADD UNIQUE KEY '' @ ticked col @ '' ('' @ ticked col @ '')'')"

definition add_column_statement :: "bool \<Rightarrow> string \<Rightarrow> string \<Rightarrow> string \<Rightarrow> string option" where
  "add_column_statement primary t ddl col =
     (if \<not> validateIdentifier col then None
      else map_option (\<lambda>def. ''ALTER TABLE '' @ ticked t @ '' ADD COLUMN '' @ def @
         (if isAutoIncrementDefinition def then '', '' @ autoIncrementKeyAction primary col ddl else [])) (extractColumnDefinition ddl col))"

definition addMissingColumns :: "bool \<Rightarrow> string \<Rightarrow> string \<Rightarrow> string list \<Rightarrow> string list" where
  "addMissingColumns primary t ddl present =
     List.map_filter (\<lambda>col. if col \<in> set present then None else add_column_statement primary t ddl col) (extractColumnNames ddl)"

section \<open>The statements a served definition leads to\<close>

lemma backtick_char [simp]: "CHR '','' \<noteq> BT" "BT \<noteq> CHR '',''" "CHR '';'' \<noteq> BT"
  by (simp_all add: BT_def)

lemma word_plain: "is_word c \<Longrightarrow> c \<notin> {SQ, BT, DQ, CHR ''('', CHR '')'', CHR '','', CHR '';''}"
  by (auto simp: is_word_def is_letter_def is_digit_def SQ_def BT_def DQ_def)

definition key_named :: "(key_type \<times> string option) option \<Rightarrow> bool" where
  "key_named x = (case x of None \<Rightarrow> True | Some (ty, m) \<Rightarrow> (case m of None \<Rightarrow> True | Some n \<Rightarrow> validateIdentifier n))"

lemma key_candidate_named: "key_named (key_candidate col l)"
proof (cases "key_line (drop_comma (js_trim l))")
  case None
  then show ?thesis by (simp add: key_candidate_def key_named_def Let_def)
next
  case (Some x)
  then show ?thesis by (cases x) (simp add: key_candidate_def key_named_def Let_def)
qed

lemma better_key_named: "key_named b \<Longrightarrow> key_named (Some c) \<Longrightarrow> key_named (better_key b c)"
  by (cases b) (simp_all add: better_key_def)

lemma best_key_named: "key_named b \<Longrightarrow> (\<And>c. c \<in> set cs \<Longrightarrow> key_named (Some c)) \<Longrightarrow> key_named (foldl better_key b cs)"
  by (induction cs arbitrary: b) (simp_all add: better_key_named)

lemma key_name_valid:
  assumes "extractKeyForColumn ddl col = Some (ty, Some n)"
  shows "validateIdentifier n"
proof -
  have "key_named (Some c)" if "c \<in> set (List.map_filter (key_candidate col) (split_on NL ddl))" for c
  proof -
    have "c \<in> (the \<circ> key_candidate col) ` {l. key_candidate col l \<noteq> None}" using that unfolding List.map_filter_def set_map set_filter by blast
    then obtain l where "key_candidate col l \<noteq> None" "c = the (key_candidate col l)" by auto
    then have "key_candidate col l = Some c" by simp
    then show ?thesis using key_candidate_named[of col l] by simp
  qed
  then have "key_named (extractKeyForColumn ddl col)"
    unfolding extractKeyForColumn_def by (intro best_key_named) (simp_all add: key_named_def)
  then show ?thesis using assms by (simp add: key_named_def)
qed

lemma ticked_clean: "validateIdentifier w \<Longrightarrow> CHR '','' \<notin> set (ticked w) \<and> CHR '';'' \<notin> set (ticked w)"
  using word_plain by (auto simp: ticked_def validateIdentifier_def list_all_iff)

lemma key_action_clean:
  assumes "validateIdentifier col"
  shows "CHR '','' \<notin> set (autoIncrementKeyAction primary col ddl) \<and> CHR '';'' \<notin> set (autoIncrementKeyAction primary col ddl)"
  using ticked_clean[OF assms] ticked_clean[OF key_name_valid, of ddl col]
  by (auto simp: autoIncrementKeyAction_def split: option.splits key_type.splits prod.splits if_splits)

lemma trim_set: "set (js_trim x) \<subseteq> set x"
proof -
  have t: "set (trim_start ws y) \<subseteq> set y" for ws y
  proof (induction ws y rule: trim_start.induct)
    case (1 ws y)
    then show ?case by (subst trim_start.simps) (auto split: option.splits dest: in_set_dropD)
  qed
  have "set (js_trim x) \<subseteq> set (rev (trim_start js_ws x))" unfolding js_trim_def using t set_rev by metis
  then show ?thesis using t[of js_ws x] by simp
qed

lemma split_on_nonempty: "split_on c s \<noteq> []"
  by (cases s) (auto split: list.split)

lemma split_set: "x \<in> set (split_on c s) \<Longrightarrow> set x \<subseteq> set s"
proof (induction s arbitrary: x)
  case (Cons d s)
  obtain a ls where a: "split_on c s = a # ls" by (cases "split_on c s") (use split_on_nonempty in auto)
  then have sub: "set y \<subseteq> set s" if "y \<in> set (a # ls)" for y using Cons.IH that by simp
  have "x \<in> {[], d # a} \<union> set (a # ls)" using Cons.prems a by (auto split: if_splits)
  then show ?case using sub[of a] sub[of x] by auto
qed simp

lemma ticked_line:
  assumes "ticked_name line = Some name"
  obtains rest where "line = ticked name @ rest"
proof -
  obtain t where t: "line = BT # t" "name = takeWhile (\<lambda>d. d \<noteq> BT) t" "BT \<in> set t"
    using assms by (auto simp: ticked_name_def Let_def split: list.splits if_splits)
  then obtain rest where "dropWhile (\<lambda>d. d \<noteq> BT) t = BT # rest"
    by (metis (mono_tags, lifting) dropWhile_eq_Nil_conv hd_dropWhile list.collapse)
  then have "line = ticked name @ rest" using t takeWhile_dropWhile_id[of "\<lambda>d. d \<noteq> BT" t] by (simp add: ticked_def)
  then show thesis by (rule that)
qed

lemma definition_line:
  assumes "extractColumnDefinition ddl name = Some def"
  shows "CHR '';'' \<notin> set def" "\<not> top_comma 0 Plain def" "\<exists>rest. def = ticked name @ rest" "set def \<subseteq> set ddl"
proof -
  obtain line ls where f: "filter (column_line name) (map js_trim (split_on NL ddl)) = line # ls"
    using assms by (cases "filter (column_line name) (map js_trim (split_on NL ddl))") (auto simp: extractColumnDefinition_def)
  then have l: "def = drop_comma line" "CHR '';'' \<notin> set def" "\<not> top_comma 0 Plain def"
    using assms by (auto simp: extractColumnDefinition_def Let_def split: if_splits)
  show "CHR '';'' \<notin> set def" "\<not> top_comma 0 Plain def" using l by auto
  have "line \<in> set (filter (column_line name) (map js_trim (split_on NL ddl)))" using f by simp
  then have m: "ticked_name line = Some name" "line \<in> js_trim ` set (split_on NL ddl)" by (auto simp: column_line_def)
  obtain rest where r: "line = ticked name @ rest" using ticked_line[OF m(1)] .
  then show "\<exists>rest. def = ticked name @ rest"
    unfolding l(1) drop_comma_def by (cases rest rule: rev_cases) (auto simp: ticked_def butlast_append)
  have "set line \<subseteq> set ddl" using m(2) trim_set split_set by blast
  moreover have "set def \<subseteq> set line" unfolding l(1) drop_comma_def by (auto dest: in_set_butlastD)
  ultimately show "set def \<subseteq> set ddl" by blast
qed

text \<open>A statement names the validated table and column, has no semicolon, the scan of its definition meets no comma outside its quotes
  and parentheses, and the key action has none at all.\<close>

lemma add_column_statement_shape:
  assumes "add_column_statement primary t ddl col = Some stmt" "validateIdentifier t"
  obtains more where "CHR '';'' \<notin> set stmt" "\<not> top_comma 0 Plain (ticked col @ more)"
    "stmt = ''ALTER TABLE '' @ ticked t @ '' ADD COLUMN '' @ ticked col @ more \<or>
     stmt = ''ALTER TABLE '' @ ticked t @ '' ADD COLUMN '' @ ticked col @ more @ '', '' @ autoIncrementKeyAction primary col ddl"
proof -
  obtain def where d: "extractColumnDefinition ddl col = Some def" and v: "validateIdentifier col"
    and s: "stmt = ''ALTER TABLE '' @ ticked t @ '' ADD COLUMN '' @ def @
      (if isAutoIncrementDefinition def then '', '' @ autoIncrementKeyAction primary col ddl else [])"
    using assms(1) by (auto simp: add_column_statement_def split: if_splits)
  note dl = definition_line[OF d]
  obtain more where more: "def = ticked col @ more" using dl(3) by blast
  have "CHR '';'' \<notin> set stmt" unfolding s using dl(1) ticked_clean[OF assms(2)] key_action_clean[OF v] by auto
  then show thesis by (rule that) (use dl(2) s more in \<open>auto split: if_splits\<close>)
qed

text \<open>The scan of a definition knows apostrophes and backticks, and neither double quotes nor comments: an apostrophe inside one of those
  hides the rest of the line from it, and a definition with a second action is taken.\<close>

definition smuggling_ddl :: "string \<Rightarrow> string" where
  "smuggling_ddl hidden = ''CREATE TABLE '' @ ticked ''t'' @ '' ('' @ [NL] @ ''  '' @ ticked ''evil'' @ '' int '' @ hidden @ '' , DROP COLUMN '' @ ticked ''victim'' @ [NL] @ '')''"

definition smuggled_statement :: "string \<Rightarrow> string" where
  "smuggled_statement hidden = ''ALTER TABLE '' @ ticked ''t'' @ '' ADD COLUMN '' @ ticked ''evil'' @ '' int '' @ hidden @ '' , DROP COLUMN '' @ ticked ''victim''"

lemma hidden_comma_accepted:
  "validateDdl (JStr (smuggling_ddl (''COMMENT '' @ [DQ, SQ, DQ])))"
  "add_column_statement True ''t'' (smuggling_ddl (''COMMENT '' @ [DQ, SQ, DQ])) ''evil'' = Some (smuggled_statement (''COMMENT '' @ [DQ, SQ, DQ]))"
  "validateDdl (JStr (smuggling_ddl (''/* '' @ [SQ] @ '' */'')))"
  "add_column_statement True ''t'' (smuggling_ddl (''/* '' @ [SQ] @ '' */'')) ''evil'' = Some (smuggled_statement (''/* '' @ [SQ] @ '' */''))"
  by code_simp+

end
