(* ===== verification/Row_Writes.thy ===== *)
theory Row_Writes
  imports Client_Rollback Wire_Codec Input_Validation
begin

text \<open>
  The three kinds of \<^verbatim>\<open>INSERT\<close> that \<^verbatim>\<open>insertRowValues\<close> of \<^verbatim>\<open>src/src/db/tables/table_mutations.js\<close> issues, over the unique keys of a table: a
  plain one that a held key refuses with 1062, one that skips such a row and warns, and one that overwrites the row that holds the key.
  The keys come with the definitions the source serves and are a parameter, the primary key first.  A column that a row does not
  carry is left \<^verbatim>\<open>NULL\<close>, an id that the server mints too.
\<close>

section \<open>Rows under unique keys\<close>

type_synonym unique_keys = "(string \<times> string list) list"

definition holds_key :: "string list \<Rightarrow> row \<Rightarrow> row \<Rightarrow> bool" where
  "holds_key key r x = (key \<noteq> [] \<and> list_all (\<lambda>c. cell_eq (r c) (x c)) key)"

text \<open>The first key that a row of the table holds, with the position of that row.\<close>

fun position :: "('a \<Rightarrow> bool) \<Rightarrow> 'a list \<Rightarrow> nat option" where
  "position P [] = None"
| "position P (x # xs) = (if P x then Some 0 else map_option Suc (position P xs))"

fun key_conflict :: "unique_keys \<Rightarrow> row \<Rightarrow> row list \<Rightarrow> (string \<times> nat) option" where
  "key_conflict [] r rows = None"
| "key_conflict ((name, key) # ks) r rows =
     (case position (holds_key key r) rows of Some i \<Rightarrow> Some (name, i) | None \<Rightarrow> key_conflict ks r rows)"

fun insert_plain :: "unique_keys \<Rightarrow> row list \<Rightarrow> row list \<Rightarrow> int + row list" where
  "insert_plain ks rows [] = Inr rows"
| "insert_plain ks rows (r # rs) = (if key_conflict ks r rows = None then insert_plain ks (rows @ [r]) rs else Inl 1062)"

text \<open>With the names of the keys that made a row be skipped.\<close>

fun insert_skipping :: "unique_keys \<Rightarrow> row list \<Rightarrow> row list \<Rightarrow> row list \<times> string list" where
  "insert_skipping ks rows [] = (rows, [])"
| "insert_skipping ks rows (r # rs) =
     (case key_conflict ks r rows of
        None \<Rightarrow> insert_skipping ks (rows @ [r]) rs
      | Some (name, _) \<Rightarrow> map_prod id (Cons name) (insert_skipping ks rows rs))"

definition overwrite :: "string list \<Rightarrow> row \<Rightarrow> row \<Rightarrow> row" where
  "overwrite cols r x = (\<lambda>c. if c \<in> set cols then r c else x c)"

fun insert_over :: "unique_keys \<Rightarrow> string list \<Rightarrow> row list \<Rightarrow> row list \<Rightarrow> int + row list" where
  "insert_over ks cols rows [] = Inr rows"
| "insert_over ks cols rows (r # rs) =
     (case key_conflict ks r rows of
        None \<Rightarrow> insert_over ks cols (rows @ [r]) rs
      | Some (_, i) \<Rightarrow>
          (let x = overwrite cols r (rows ! i) in
           if key_conflict ks x (take i rows @ drop (Suc i) rows) = None then insert_over ks cols (rows[i := x]) rs else Inl 1062))"

datatype insert_mode = PlainInsert | IgnoreInsert | UpsertInsert

definition insert_mode_rows :: "insert_mode \<Rightarrow> unique_keys \<Rightarrow> string list \<Rightarrow> row list \<Rightarrow> row list \<Rightarrow> int + row list \<times> string list" where
  "insert_mode_rows mode ks cols rows new =
     (case mode of
        PlainInsert \<Rightarrow> map_sum id (\<lambda>x. (x, [])) (insert_plain ks rows new)
      | IgnoreInsert \<Rightarrow> Inr (insert_skipping ks rows new)
      | UpsertInsert \<Rightarrow> map_sum id (\<lambda>x. (x, [])) (insert_over ks cols rows new))"

section \<open>Statements that may be refused for what the table holds\<close>

definition writing :: "(string \<times> string list) list \<Rightarrow> (store \<Rightarrow> int + store \<times> 'w) \<Rightarrow> ('w \<Rightarrow> query) \<Rightarrow> query" where
  "writing refs eff k ss =
     (case answer refs ss of
        (Some e, s1) \<Rightarrow> (Some e, s1)
      | (None, s1) \<Rightarrow>
          (case eff (ss_store s1) of
             Inl e \<Rightarrow> (Some e, s1)
           | Inr (st, w) \<Rightarrow> k w (s1\<lparr>ss_store := st\<rparr>)))"

definition insertRowValues :: "unique_keys \<Rightarrow> string \<Rightarrow> string list \<Rightarrow> row list \<Rightarrow> insert_mode \<Rightarrow> (string list \<Rightarrow> query) \<Rightarrow> query" where
  "insertRowValues ks t cols new mode k =
     writing [(t, cols)] (\<lambda>st. map_sum id (\<lambda>(rows, w). (on_rows t (\<lambda>_. rows) st, w)) (insert_mode_rows mode ks cols (rows_of st t) new)) k"

text \<open>An error the code throws itself has no number of the server.\<close>

definition THROWN :: int where
  "THROWN = -1"

definition failing :: query where
  "failing ss = (Some THROWN, ss)"

lemma writing_firm [intro]:
  assumes "\<And>w. firm (k w)"
  shows "firm (writing refs eff k)"
proof (rule firmI)
  fix ss r ss'
  assume h: "honest_faults ss" "writing refs eff k ss = (r, ss')"
  obtain a s1 where a: "answer refs ss = (a, s1)" by fastforce
  note c = answer_honest[OF h(1) a]
  show "honest_faults ss' \<and> ((\<exists>e. r = Some e \<and> \<not> isSchemaGapError e) \<or>
      writing refs eff k (at_rest (ss_store ss)) = (r, at_rest (ss_store ss')))"
  proof (cases a)
    case (Some e)
    then show ?thesis using c h(2) a by (auto simp: writing_def)
  next
    case None
    have u: "answer refs (at_rest (ss_store ss)) = (None, at_rest (ss_store s1))" using c(3) None by simp
    show ?thesis
    proof (cases "eff (ss_store s1)")
      case (Inl e)
      then show ?thesis using None a u c h(2) by (auto simp: writing_def at_rest_def)
    next
      case (Inr x)
      obtain st w where x: "x = (st, w)" by (cases x)
      have hs: "honest_faults (s1\<lparr>ss_store := st\<rparr>)" using c(1) by (simp add: honest_faults_def)
      have k: "k w (s1\<lparr>ss_store := st\<rparr>) = (r, ss')" using h(2) a None Inr x by (simp add: writing_def)
      from firm_cases[OF assms hs k] show ?thesis using u Inr x by (auto simp: writing_def at_rest_def)
    qed
  qed
qed

lemma insertRowValues_firm [intro]: "(\<And>w. firm (k w)) \<Longrightarrow> firm (insertRowValues ks t cols new mode k)"
  unfolding insertRowValues_def by (rule writing_firm)

lemma failing_firm [intro]: "firm failing"
  by (rule firmI) (auto simp: failing_def THROWN_def isSchemaGapError_def)

end
