(* ===== verification/Block_Applier.thy ===== *)
theory Block_Applier
  imports Row_Writes Activation_Gates
begin

text \<open>
  How the rows of a payload are written (\<^verbatim>\<open>src/src/client/applier.js\<close>): a live block, an incremental and a full snapshot, and the
  replacement of the decoder's dispensers, each in one transaction.  The unique keys of the tables come with the definitions of
  the source and are a parameter, and so are the list of tables the server enumerates and what it truncates.  The computation of
  the follower roots, which \<open>State_Commitment\<close> and \<open>Block_Roots\<close> model over their own tables, is a parameter here.
\<close>

section \<open>Table classes\<close>

definition stream_index_tables :: "string list" where
  "stream_index_tables = tablesWhere (\<lambda>e. lc_replication e = StreamIndex)"

definition ignoreTables :: "string list" where
  "ignoreTables = stream_index_tables @ [''pubkeys'', ''events'', ''sync_meta'', ''merkle_epochs'', ''validator_rewards'', ''rollcalls'', ''rollcall_absences'', ''rollcall_gates'']"

definition idKeyedIgnoreTables :: "string list" where
  "idKeyedIgnoreTables = stream_index_tables @ [''pubkeys'', ''rollcalls'', ''rollcall_absences'', ''rollcall_gates'']"

definition repairNaturalKeyColumns :: "string \<Rightarrow> string list option" where
  "repairNaturalKeyColumns = [''index_statuses'' \<mapsto> [''status'']]"

definition upsertFullDumpTables :: "string list" where
  "upsertFullDumpTables = [''markets'', ''attest_validator_stats'']"

definition authoritativeSnapshotUpsertTables :: "string list" where
  "authoritativeSnapshotUpsertTables = [''merkle_epochs'']"

definition localSurrogateIdTables :: "string \<Rightarrow> string option" where
  "localSurrogateIdTables = [''blocks'' \<mapsto> ''block_index'']"

definition localSurrogateIdOnlyTables :: "string list" where
  "localSurrogateIdOnlyTables = [''attest_validator_stats'', ''sync_meta'', ''merkle_epochs'']"

definition ESCROW_TRIGGER_TABLES :: "string list" where
  "ESCROW_TRIGGER_TABLES = [''orders'', ''order_statuses'', ''swaps'', ''swap_statuses'', ''dispensers'', ''dispenser_statuses'', ''tokens'']"

definition generatedColumns :: "string \<Rightarrow> string list" where
  "generatedColumns t = (if t = ''contract_state'' then [''state_key_bin''] else [])"

definition SCHEMA_VERSION :: "string \<Rightarrow> int" where
  "SCHEMA_VERSION dbType = (if dbType = ''decoder'' then 5 else 21)"

definition OPERATOR_LOCAL_TABLES :: "string list" where
  "OPERATOR_LOCAL_TABLES = tablesWhere (\<lambda>e. lc_replication e \<in> {NodeLocal, HubMirror, FollowerDerived}) @
     [''mempool_transactions'', ''dispenser_extension_undo'', ''sync_halt'', ''sync_state'']"

definition SOURCE_UNSTREAMED_TABLES :: "string list" where
  "SOURCE_UNSTREAMED_TABLES = [''merkle_reorgs'']"

definition REPLICA_LEDGER_TABLES :: "string list" where
  "REPLICA_LEDGER_TABLES = [''schema_migrations'']"

definition PRIORITY_TABLES :: "string list" where
  "PRIORITY_TABLES = [''index_actions'', ''index_addresses'', ''index_coins'', ''index_fiats'', ''index_memos'', ''index_mime_types'', ''index_pubkeys'',
     ''index_statuses'', ''index_tickers'', ''index_transactions'', ''blocks'', ''transactions'', ''actions'']"

definition TRAILING_TABLES :: "string list" where
  "TRAILING_TABLES = [''balances'', ''sync_meta'', ''pubkeys'']"

definition orderSnapshotTables :: "string list \<Rightarrow> string list" where
  "orderSnapshotTables allTables =
     filter (\<lambda>t. t \<in> set allTables) PRIORITY_TABLES @
     sort (filter (\<lambda>t. t \<notin> set PRIORITY_TABLES \<and> t \<notin> set TRAILING_TABLES) allTables) @
     filter (\<lambda>t. t \<in> set allTables) TRAILING_TABLES"

section \<open>Surroundings and payloads\<close>

record applier_cfg =
  bc_dbType :: string
  bc_coin :: "string option"
  bc_network :: string
  bc_activation :: jsv
  bc_cast :: "string \<Rightarrow> int"
  bc_keys :: "string \<Rightarrow> unique_keys"
  bc_truncates :: "cell \<Rightarrow> bool"
  bc_names :: "string list"
  bc_roots :: "int \<Rightarrow> (cell \<times> cell) list \<Rightarrow> bool \<Rightarrow> query"
  bc_seed :: "int \<Rightarrow> query"

record block_payload =
  bp_block :: "int option"
  bp_data :: "wire_tables option"
  bp_version :: "int option"
  bp_updated :: wire_tables

record snapshot_payload =
  sn_tables :: "wire_tables option"
  sn_version :: "int option"
  sn_height :: int
  sn_since :: "int option"
  sn_updated :: wire_tables

record insert_opts =
  io_authoritative :: bool
  io_strict :: bool

definition no_opts :: insert_opts where
  "no_opts = \<lparr>io_authoritative = False, io_strict = False\<rparr>"

definition payload_rows :: "wire_tables \<Rightarrow> string \<Rightarrow> wire_row list" where
  "payload_rows tables t = (case map_of tables t of None \<Rightarrow> [] | Some rows \<Rightarrow> rows)"

definition carries :: "wire_tables \<Rightarrow> string \<Rightarrow> bool" where
  "carries tables t = (map_of tables t \<noteq> None)"

definition asking :: "query \<Rightarrow> query" where
  "asking q = reading [] (\<lambda>_. ()) (\<lambda>_. q)"

section \<open>Preparing rows\<close>

text \<open>\<^term>\<open>None\<close> where the code throws.\<close>

definition without_columns :: "string list \<Rightarrow> string list \<Rightarrow> string list option" where
  "without_columns dropped columns = (let left = filter (\<lambda>c. c \<notin> set dropped) columns in if left = [] then None else Some left)"

definition without_generated :: "string \<Rightarrow> string list \<Rightarrow> string list option" where
  "without_generated t columns = (if generatedColumns t = [] then Some columns else without_columns (generatedColumns t) columns)"

definition prepareInsertColumns :: "string \<Rightarrow> wire_row list \<Rightarrow> string list option" where
  "prepareInsertColumns t rows =
     Option.bind (without_generated t (map fst (hd rows))) (\<lambda>columns.
       if t \<in> set localSurrogateIdOnlyTables \<and> ''id'' \<in> set columns then without_columns [''id''] columns else Some columns)"

definition wire_value :: "wire_row \<Rightarrow> string \<Rightarrow> val option" where
  "wire_value row c = map_option decodeValue (map_of row c)"

definition key_values :: "string \<Rightarrow> wire_row list \<Rightarrow> cell list option" where
  "key_values key rows =
     (let vs = map (\<lambda>r. wire_value r key) rows in
      if list_ex (\<lambda>v. v = None \<or> v = Some VNull) vs then None else Some (fold add_new (map (bound \<circ> the) vs) []))"

definition prepareNaturalKeyRows :: "string \<Rightarrow> wire_row list \<Rightarrow> string list \<Rightarrow> (string list \<times> (string \<times> cell list) option) option" where
  "prepareNaturalKeyRows t rows columns =
     (case localSurrogateIdTables t of
        Some key \<Rightarrow>
          if ''id'' \<in> set columns
          then Option.bind (without_columns [''id''] columns) (\<lambda>cols. map_option (\<lambda>vs. (cols, Some (key, vs))) (key_values key rows))
          else Some (columns, None)
      | None \<Rightarrow> Some (columns, None))"

definition prepareTableRows :: "string \<Rightarrow> wire_row list \<Rightarrow> (string list \<times> (string \<times> cell list) option) option" where
  "prepareTableRows t rows =
     (if validateIdentifier t then Option.bind (prepareInsertColumns t rows) (prepareNaturalKeyRows t rows) else None)"

definition mode_of :: "insert_opts \<Rightarrow> string \<Rightarrow> insert_mode" where
  "mode_of opts t =
     (if t \<in> set upsertFullDumpTables \<or> io_authoritative opts \<and> t \<in> set authoritativeSnapshotUpsertTables then UpsertInsert
      else if t \<in> set ignoreTables then IgnoreInsert else PlainInsert)"

text \<open>The values of a row over the columns of the statement.\<close>

definition wire_cells :: "string list \<Rightarrow> wire_row \<Rightarrow> row" where
  "wire_cells cols row = (\<lambda>c. if c \<in> set cols then (case wire_value row c of None \<Rightarrow> CNull | Some v \<Rightarrow> bound v) else CNull)"

section \<open>Stale lookups\<close>

definition id_num :: "cell \<Rightarrow> int" where
  "id_num v = (case v of CNum n \<Rightarrow> n | CText s \<Rightarrow> (case int_text s of Some n \<Rightarrow> n | None \<Rightarrow> 0) | CNull \<Rightarrow> 0)"

definition wire_id :: "wire_row \<Rightarrow> int option" where
  "wire_id row = (case map_of row ''id'' of None \<Rightarrow> None | Some v \<Rightarrow> if v = VNull then None else Some (id_num (bound v)))"

definition ids_where :: "string \<Rightarrow> (row \<Rightarrow> bool) \<Rightarrow> nat \<Rightarrow> store \<Rightarrow> int list" where
  "ids_where t P n st = map (\<lambda>r. id_num (r ''id'')) (take n (filter P (rows_of st t)))"

definition findRowIdById :: "string \<Rightarrow> int \<Rightarrow> (int list \<Rightarrow> query) \<Rightarrow> query" where
  "findRowIdById t i = reading [(t, [''id''])] (ids_where t (\<lambda>r. cell_eq (r ''id'') (CNum i)) 1)"

definition findRowIdsByKeyColumns :: "string \<Rightarrow> string list \<Rightarrow> cell list \<Rightarrow> (int list \<Rightarrow> query) \<Rightarrow> query" where
  "findRowIdsByKeyColumns t cols values =
     reading [(t, ''id'' # cols)] (ids_where t (\<lambda>r. list_all2 (\<lambda>c v. cell_eq (r c) v) cols values) 2)"

definition deleteRowById :: "string \<Rightarrow> int \<Rightarrow> query" where
  "deleteRowById t i = statement [(t, [''id''])] (delete_rows t (\<lambda>st r. cell_eq (r ''id'') (CNum i)))"

definition row_key :: "string list \<Rightarrow> wire_row \<Rightarrow> cell list option" where
  "row_key cols row =
     (let vs = map (wire_value row) cols in if list_ex (\<lambda>v. v = None) vs then None else Some (map (bound \<circ> the) vs))"

fun retire_row :: "string \<Rightarrow> int list \<Rightarrow> string list \<Rightarrow> wire_row list \<Rightarrow> int list \<Rightarrow> (int list \<Rightarrow> query) \<Rightarrow> query" where
  "retire_row t carried cols [] retired k = k retired"
| "retire_row t carried cols (row # rows) retired k =
     (let i = (case wire_id row of Some n \<Rightarrow> n | None \<Rightarrow> 0) in
      findRowIdById t i (\<lambda>mine.
        if mine \<noteq> [] then retire_row t carried cols rows retired k
        else case row_key cols row of
          None \<Rightarrow> retire_row t carried cols rows retired k
        | Some values \<Rightarrow> findRowIdsByKeyColumns t cols values (\<lambda>holder.
            case holder of
              [h] \<Rightarrow>
                if h = i \<or> h \<in> set carried \<or> h < Min (set carried) \<or> h > Max (set carried) then retire_row t carried cols rows retired k
                else (\<lambda>ss. case deleteRowById t h ss of
                  (Some e, s1) \<Rightarrow> (Some e, s1)
                | (None, s1) \<Rightarrow> retire_row t carried cols rows (retired @ [h]) k s1)
            | _ \<Rightarrow> retire_row t carried cols rows retired k)))"

definition uniqueKeyColumns :: "applier_cfg \<Rightarrow> string \<Rightarrow> string \<Rightarrow> string list" where
  "uniqueKeyColumns cfg t name =
     (if validateIdentifier name
      then (case map_of (bc_keys cfg t) name of Some cols \<Rightarrow> if list_all validateIdentifier cols then cols else [] | None \<Rightarrow> [])
      else [])"

fun retire_keys :: "applier_cfg \<Rightarrow> string \<Rightarrow> int list \<Rightarrow> wire_row list \<Rightarrow> string list \<Rightarrow> int list \<Rightarrow> (int list \<Rightarrow> query) \<Rightarrow> query" where
  "retire_keys cfg t carried batch [] retired k = k retired"
| "retire_keys cfg t carried batch (name # names) retired k =
     (let cols = uniqueKeyColumns cfg t name in
      asking (if cols = [] then retire_keys cfg t carried batch names retired k
        else retire_row t carried cols batch retired (\<lambda>retired'. retire_keys cfg t carried batch names retired' k)))"

definition retireStaleNaturalKeyRows :: "applier_cfg \<Rightarrow> string \<Rightarrow> wire_row list \<Rightarrow> wire_row list \<Rightarrow> string list \<Rightarrow> (int list \<Rightarrow> query) \<Rightarrow> query" where
  "retireStaleNaturalKeyRows cfg t batch pageRows suspect k =
     (let ids = map wire_id pageRows in
      if list_ex (\<lambda>i. i = None) ids then k [] else retire_keys cfg t (map the ids) batch (fold add_new suspect []) [] k)"

fun lookup_conflicts :: "string \<Rightarrow> string list \<Rightarrow> wire_row list \<Rightarrow> int list \<Rightarrow> (int list \<Rightarrow> query) \<Rightarrow> query" where
  "lookup_conflicts t cols [] found k = k found"
| "lookup_conflicts t cols (row # rows) found k =
     (case (wire_id row, row_key cols row) of
        (Some i, Some values) \<Rightarrow>
          findRowIdsByKeyColumns t cols values (\<lambda>holders.
            if holders = [i] then lookup_conflicts t cols rows found k
            else findRowIdById t i (\<lambda>mine. lookup_conflicts t cols rows (fold add_new (mine @ holders) found) k))
      | _ \<Rightarrow> failing)"

definition reconcileLookupRows :: "string \<Rightarrow> wire_row list \<Rightarrow> string list \<Rightarrow> query" where
  "reconcileLookupRows t rows cols = lookup_conflicts t cols rows [] (\<lambda>ids. in_order (map (deleteRowById t) ids))"

section \<open>Inserting\<close>

text \<open>The warnings are the keys that made rows be skipped; of the others only the truncation of an event is modelled.\<close>

definition suspectIgnoreWarnings :: "string list \<Rightarrow> string list" where
  "suspectIgnoreWarnings w = filter (\<lambda>name. name \<noteq> ''PRIMARY'') w"

definition strict_check :: "applier_cfg \<Rightarrow> string \<Rightarrow> string list \<Rightarrow> wire_row list \<Rightarrow> wire_row list \<Rightarrow> insert_mode \<Rightarrow> string list \<Rightarrow> query" where
  "strict_check cfg t cols batch rows mode w =
     (if suspectIgnoreWarnings w = [] then in_order []
      else retireStaleNaturalKeyRows cfg t batch rows (suspectIgnoreWarnings w) (\<lambda>retired.
        if retired = [] then failing
        else insertRowValues (bc_keys cfg t) t cols (map (wire_cells cols) batch) mode (\<lambda>w2.
          asking (if suspectIgnoreWarnings w2 = [] then in_order [] else failing))))"

definition insert_batch :: "applier_cfg \<Rightarrow> insert_opts \<Rightarrow> string \<Rightarrow> string list \<Rightarrow> wire_row list \<Rightarrow> wire_row list \<Rightarrow> query" where
  "insert_batch cfg opts t cols rows batch =
     (let new = map (wire_cells cols) batch in
      insertRowValues (bc_keys cfg t) t cols new (mode_of opts t) (\<lambda>w.
        if t = ''events'' then asking (if list_ex (\<lambda>r. list_ex (\<lambda>c. bc_truncates cfg (r c)) cols) new then failing else in_order [])
        else if io_strict opts \<and> t \<in> set idKeyedIgnoreTables then asking (strict_check cfg t cols batch rows (mode_of opts t) w)
        else in_order []))"

definition deleteRowsByKeyValues :: "string \<Rightarrow> string \<Rightarrow> cell list \<Rightarrow> query" where
  "deleteRowsByKeyValues t key vs = statement [(t, [key])] (delete_rows t (\<lambda>st r. list_ex (cell_eq (r key)) vs))"

definition insertRows :: "applier_cfg \<Rightarrow> insert_opts \<Rightarrow> string \<Rightarrow> wire_row list \<Rightarrow> query" where
  "insertRows cfg opts t rows =
     (if rows = [] then in_order []
      else case prepareTableRows t rows of
        None \<Rightarrow> failing
      | Some (cols, natural) \<Rightarrow>
          in_order
            [case natural of None \<Rightarrow> in_order [] | Some (key, vs) \<Rightarrow> in_order (map (deleteRowsByKeyValues t key) (chunks_of 500 vs)),
             if list_all validateIdentifier cols then in_order (map (insert_batch cfg opts t cols rows) (chunks_of 100 rows)) else failing])"

definition insertBlockRows :: "applier_cfg \<Rightarrow> wire_tables \<Rightarrow> query" where
  "insertBlockRows cfg data = in_order (map (\<lambda>(t, rows). insertRows cfg no_opts t rows) data)"

definition upsertRows :: "applier_cfg \<Rightarrow> string \<Rightarrow> wire_row list \<Rightarrow> query" where
  "upsertRows cfg t rows =
     (if rows = [] then in_order []
      else if \<not> validateIdentifier t then failing
      else case without_generated t (map fst (hd rows)) of
        None \<Rightarrow> failing
      | Some cols \<Rightarrow>
          if list_all validateIdentifier cols
          then in_order (map (\<lambda>batch. insertRowValues (bc_keys cfg t) t cols (map (wire_cells cols) batch) UpsertInsert (\<lambda>_. in_order [])) (chunks_of 100 rows))
          else failing)"

definition applyUpdatedRows :: "applier_cfg \<Rightarrow> wire_tables \<Rightarrow> query" where
  "applyUpdatedRows cfg updated = in_order (map (\<lambda>(t, rows). upsertRows cfg t rows) updated)"

section \<open>What follows the rows\<close>

definition same_or_null :: "cell \<Rightarrow> cell \<Rightarrow> bool" where
  "same_or_null v w = (v = w)"

definition reconciled :: "row \<Rightarrow> row \<Rightarrow> bool" where
  "reconciled d vr =
     (list_all (\<lambda>c. cell_eq (d c) (vr c)) [''source_id'', ''signing_pubkey_id'', ''reward_type''] \<and>
      list_all (\<lambda>c. same_or_null (d c) (vr c)) [''round_reference'', ''round_qualifier''])"

definition mirrorAnchorRewardReconcile :: "(cell \<Rightarrow> bool) \<Rightarrow> query" where
  "mirrorAnchorRewardReconcile in_window =
     guarded (statement [(''validator_rewards'', REWARD_KEY), (''anchor_reward_reconcile_log'', ''block_index'' # REWARD_KEY)]
       (delete_rows ''validator_rewards'' (\<lambda>st vr. any_row st ''anchor_reward_reconcile_log'' (\<lambda>d. in_window (d ''block_index'') \<and> reconciled d vr))))"

definition maybeRederiveEscrow :: "wire_tables \<Rightarrow> query" where
  "maybeRederiveEscrow tables =
     (if list_ex (\<lambda>(t, _). t \<in> set ESCROW_TRIGGER_TABLES) tables then guarded rederiveEscrowGate else in_order [])"

definition scope_row :: "wire_row \<Rightarrow> row" where
  "scope_row row = (\<lambda>c. case map_of row c of None \<Rightarrow> CNull | Some v \<Rightarrow> bound v)"

definition rebuild_touched :: "applier_cfg \<Rightarrow> wire_tables \<Rightarrow> query" where
  "rebuild_touched cfg tables =
     (if carries tables ''credits'' \<or> carries tables ''debits''
      then rebuildBalancesTouchedBy (bc_cast cfg) (map scope_row (payload_rows tables ''credits'')) (map scope_row (payload_rows tables ''debits''))
      else in_order [])"

definition touched_pairs :: "wire_tables \<Rightarrow> (cell \<times> cell) list" where
  "touched_pairs data =
     fold add_new (filter (\<lambda>(a, t). a \<noteq> CNull \<and> t \<noteq> CNull)
       (map (\<lambda>row. (scope_row row ''address_id'', scope_row row ''tick_id''))
         (payload_rows data ''credits'' @ payload_rows data ''debits'' @ payload_rows data ''escrows''))) []"

definition text_of :: "store \<Rightarrow> string \<Rightarrow> string \<Rightarrow> cell \<Rightarrow> cell" where
  "text_of st t c i = (case filter (\<lambda>x. cell_eq (x ''id'') i) (rows_of st t) of [] \<Rightarrow> CNull | xs \<Rightarrow> last xs c)"

definition collectSmtTouchedKeys :: "wire_tables \<Rightarrow> ((cell \<times> cell) list \<Rightarrow> query) \<Rightarrow> query" where
  "collectSmtTouchedKeys data k =
     (let pairs = touched_pairs data in
      if pairs = [] then k []
      else reading [(''index_addresses'', [''id'', ''address''])] (\<lambda>st. map (text_of st ''index_addresses'' ''address'' \<circ> fst) pairs) (\<lambda>addresses.
        reading [(''index_tickers'', [''id'', ''tick''])] (\<lambda>st. map (text_of st ''index_tickers'' ''tick'' \<circ> snd) pairs) (\<lambda>ticks.
          k (filter (\<lambda>(a, t). a \<noteq> CNull \<and> t \<noteq> CNull \<and> t \<noteq> CText []) (zip addresses ticks)))))"

definition commitment_active :: "applier_cfg \<Rightarrow> int \<Rightarrow> bool" where
  "commitment_active cfg b = isStateCommitmentActive (bc_activation cfg) (JInt b) (bc_network cfg) (bc_coin cfg)"

definition updateBlockStateCommitment :: "applier_cfg \<Rightarrow> int \<Rightarrow> wire_tables \<Rightarrow> query" where
  "updateBlockStateCommitment cfg b data =
     (if \<not> commitment_active cfg b then in_order []
      else if isStateCommitmentActivationBlock (bc_activation cfg) (JInt b) (bc_network cfg) (bc_coin cfg) then bc_roots cfg b [] True
      else collectSmtTouchedKeys data (\<lambda>keys. bc_roots cfg b keys False))"

definition applyIndexerBlockState :: "applier_cfg \<Rightarrow> int \<Rightarrow> wire_tables \<Rightarrow> wire_tables \<Rightarrow> query" where
  "applyIndexerBlockState cfg b data updated =
     in_order
       [applyUpdatedRows cfg updated,
        if payload_rows data ''anchor_reward_reconcile_log'' = [] then in_order [] else mirrorAnchorRewardReconcile (\<lambda>v. cell_eq v (CNum b)),
        maybeRederiveEscrow data, rebuild_touched cfg data, updateBlockStateCommitment cfg b data]"

section \<open>A live block\<close>

definition applyBlockTransaction :: "applier_cfg \<Rightarrow> int \<Rightarrow> wire_tables \<Rightarrow> wire_tables \<Rightarrow> query" where
  "applyBlockTransaction cfg b data updated =
     in_transaction (in_order
       [insertBlockRows cfg data, if bc_dbType cfg = ''indexer'' then applyIndexerBlockState cfg b data updated else in_order []])"

definition BLOCK_HASH_REFS :: "string \<Rightarrow> (string \<times> string list) list" where
  "BLOCK_HASH_REFS dbType =
     [(''blocks'', [''block_index'', ''block_time''] @ (if dbType = ''decoder'' then [''block_hash_id''] else
        [''ledger_hash_id'', ''actions_hash_id'', ''contract_hash_id'', ''state_hash_id''])), (''index_transactions'', [''id'', ''hash''])]"

definition block_stored :: "int \<Rightarrow> store \<Rightarrow> bool" where
  "block_stored b st = any_row st ''blocks'' (\<lambda>r. r ''block_index'' = CNum b)"

definition apply_block_payload :: "applier_cfg \<Rightarrow> block_payload \<Rightarrow> query" where
  "apply_block_payload cfg payload =
     (case (bp_data payload, bp_block payload) of
        (Some data, Some b) \<Rightarrow>
          if bp_version payload \<noteq> Some (SCHEMA_VERSION (bc_dbType cfg)) then failing
          else reading (BLOCK_HASH_REFS (bc_dbType cfg)) (block_stored b) (\<lambda>existing.
            if existing then in_order [] else applyBlockTransaction cfg b data (bp_updated payload))
      | _ \<Rightarrow> in_order [])"

section \<open>Snapshots\<close>

definition snapshot_table_step :: "applier_cfg \<Rightarrow> bool \<Rightarrow> string \<times> wire_row list \<Rightarrow> query" where
  "snapshot_table_step cfg strict x = (case x of (t, rows) \<Rightarrow>
     if rows = [] \<or> t \<in> set REPLICA_LEDGER_TABLES then in_order []
     else in_order
       [case repairNaturalKeyColumns t of Some cols \<Rightarrow> if strict then reconcileLookupRows t rows cols else in_order [] | None \<Rightarrow> in_order [],
        insertRows cfg \<lparr>io_authoritative = True, io_strict = strict\<rparr> t rows])"

definition insertSnapshotTables :: "applier_cfg \<Rightarrow> bool \<Rightarrow> wire_tables \<Rightarrow> query" where
  "insertSnapshotTables cfg strict tables = in_order (map (snapshot_table_step cfg strict) tables)"

definition applyIncrementalSnapshot :: "applier_cfg \<Rightarrow> bool \<Rightarrow> snapshot_payload \<Rightarrow> query" where
  "applyIncrementalSnapshot cfg strict snap =
     (case sn_tables snap of
        None \<Rightarrow> in_order []
      | Some tables \<Rightarrow>
          if sn_version snap \<noteq> Some (SCHEMA_VERSION (bc_dbType cfg)) then failing
          else in_transaction (in_order
            [insertSnapshotTables cfg strict tables,
             if bc_dbType cfg = ''indexer''
             then in_order
               [applyUpdatedRows cfg (sn_updated snap),
                (case sn_since snap of
                   Some since \<Rightarrow> if payload_rows tables ''anchor_reward_reconcile_log'' = [] then in_order [] else mirrorAnchorRewardReconcile (\<lambda>v. cell_ge v since)
                 | None \<Rightarrow> in_order []),
                maybeRederiveEscrow tables, rebuild_touched cfg tables,
                if commitment_active cfg (sn_height snap) then bc_seed cfg (sn_height snap) else in_order []]
             else in_order []]))"

definition localSnapshotTableNames :: "applier_cfg \<Rightarrow> string list" where
  "localSnapshotTableNames cfg = filter (\<lambda>t. t \<noteq> [] \<and> t \<notin> set OPERATOR_LOCAL_TABLES \<and> t \<notin> set REPLICA_LEDGER_TABLES) (bc_names cfg)"

definition payloadSnapshotTableNames :: "wire_tables \<Rightarrow> string list" where
  "payloadSnapshotTableNames tables =
     filter (\<lambda>t. t \<notin> set OPERATOR_LOCAL_TABLES \<and> t \<notin> set SOURCE_UNSTREAMED_TABLES \<and> t \<notin> set REPLICA_LEDGER_TABLES) (map fst tables)"

definition snapshot_tables :: "applier_cfg \<Rightarrow> wire_tables \<Rightarrow> string list" where
  "snapshot_tables cfg tables = orderSnapshotTables (fold add_new (payloadSnapshotTableNames tables @ localSnapshotTableNames cfg) [])"

definition deleteAllRows :: "string \<Rightarrow> query" where
  "deleteAllRows t = statement [(t, [])] (delete_rows t (\<lambda>st r. True))"

definition deleteStateTreeRootsFromBlock :: "applier_cfg \<Rightarrow> int \<Rightarrow> query" where
  "deleteStateTreeRootsFromBlock cfg h =
     statement [(''state_tree_roots'', [''chain'', ''network'', ''block_index''])]
       (delete_rows ''state_tree_roots'' (\<lambda>st r. (case bc_coin cfg of Some c \<Rightarrow> r ''chain'' = CText c | None \<Rightarrow> False) \<and>
          r ''network'' = CText (bc_network cfg) \<and> cell_ge (r ''block_index'') h))"

definition applyFullSnapshot :: "applier_cfg \<Rightarrow> snapshot_payload \<Rightarrow> query" where
  "applyFullSnapshot cfg snap =
     (case sn_tables snap of
        None \<Rightarrow> in_order []
      | Some payload \<Rightarrow>
          if sn_version snap \<noteq> Some (SCHEMA_VERSION (bc_dbType cfg)) then failing
          else in_transaction (asking (
            let tables = snapshot_tables cfg payload in
            if \<not> list_all validateIdentifier tables then failing
            else in_order
              [in_order (map deleteAllRows (rev tables)),
               in_order (map (\<lambda>t. insertRows cfg no_opts t (payload_rows payload t)) (filter (\<lambda>t. t \<in> set (payloadSnapshotTableNames payload)) tables)),
               guarded (deleteStateTreeRootsFromBlock cfg (sn_height snap)),
               if bc_dbType cfg = ''indexer'' \<and> commitment_active cfg (sn_height snap) then bc_seed cfg (sn_height snap) else in_order []])))"

definition applyDispensersReplace :: "applier_cfg \<Rightarrow> wire_row list option \<Rightarrow> query" where
  "applyDispensersReplace cfg rows =
     (case rows of
        None \<Rightarrow> in_order []
      | Some rs \<Rightarrow>
          if bc_dbType cfg \<noteq> ''decoder'' then in_order []
          else in_transaction (in_order [deleteAllRows ''dispensers'', if rs = [] then in_order [] else insertRows cfg no_opts ''dispensers'' rs]))"

end
