(* ===== verification/Rollback_Proofs.thy ===== *)
theory Rollback_Proofs
  imports Client_Rollback
begin

text \<open>
  A rollback of \<open>Client_Rollback\<close> under faults of the server: every step ends as undisturbed or with an error that is not tolerated, and a
  failed rollback leaves the rows as they were.
\<close>

section \<open>All or nothing\<close>

lemma guarded_firm [intro!]: "firm q \<Longrightarrow> firm (guarded q)"
  unfolding guarded_def by (rule tolerating_gap_firm)

lemma when_some_firm [intro!]: "(\<And>y. firm (q y)) \<Longrightarrow> firm (when_some x q)"
  by (cases x) (auto simp: when_some_def intro!: in_order_firm)

lemmas firm_rules = guarded_firm when_some_firm statement_firm reading_firm in_order_firm tolerating_1146_firm reading_or_firm

lemma schema_gap_on_rows: "schema_gap (on_rows t f st) refs = schema_gap st refs"
proof -
  have m: "(on_rows t f st) u = None \<longleftrightarrow> st u = None" for u by (auto simp: on_rows_def split: option.splits)
  have c: "tb_columns (the ((on_rows t f st) u)) = tb_columns (the (st u))" if "st u \<noteq> None" for u
    using that by (auto simp: on_rows_def split: option.splits)
  have "list_ex (\<lambda>(u, cs). \<not> set cs \<subseteq> set (tb_columns (the ((on_rows t f st) u)))) refs =
      list_ex (\<lambda>(u, cs). \<not> set cs \<subseteq> set (tb_columns (the (st u)))) refs" if "\<not> list_ex (\<lambda>(u, cs). st u = None) refs"
    using that c by (fastforce simp: list_ex_iff)
  then show ?thesis unfolding schema_gap_def m by simp
qed

definition without_prices :: "int \<Rightarrow> store \<Rightarrow> store" where
  "without_prices h st = on_rows ''price_snapshots'' (filter (\<lambda>r. \<not> orphaned_price h r)) st"

lemma filter_delete_some: "filter (\<lambda>x. \<not> P x) (delete_some n P xs) = filter (\<lambda>x. \<not> P x) xs"
  by (induction n P xs rule: delete_some.induct) auto

lemma delete_some_all: "length (filter P xs) \<le> n \<Longrightarrow> delete_some n P xs = filter (\<lambda>x. \<not> P x) xs"
  by (induction n P xs rule: delete_some.induct) auto

lemma on_rows_twice: "on_rows t f (on_rows t g st) = on_rows t (f \<circ> g) st"
  by (auto simp: on_rows_def split: option.splits)

lemma on_rows_cong: "f (rows_of st t) = g (rows_of st t) \<Longrightarrow> on_rows t f st = on_rows t g st"
  by (auto simp: on_rows_def rows_of_def split: option.splits)

lemma purge_loop_result:
  assumes "honest_faults ss" "0 < chunk" "purge_loop h chunk timeouts ss = (r, ss')"
  shows "honest_faults ss' \<and>
    (case r of
       None \<Rightarrow> schema_gap (ss_store ss) PRICE_REFS = None \<and> ss_store ss' = without_prices h (ss_store ss)
     | Some e \<Rightarrow> \<not> isSchemaGapError e \<or> schema_gap (ss_store ss) PRICE_REFS = Some e \<and> ss_store ss' = ss_store ss)"
  using assms
proof (induction h chunk timeouts ss rule: purge_loop.induct)
  case (1 h chunk timeouts ss)
  obtain a s1 where a: "answer PRICE_REFS ss = (a, s1)" by fastforce
  note ca = answer_honest[OF \<open>honest_faults ss\<close> a]
  have u: "answer PRICE_REFS (at_rest st) = (schema_gap st PRICE_REFS, at_rest st)" for st
    by (simp add: answer_def at_rest_def)
  show ?case
  proof (cases a)
    case (Some e)
    show ?thesis
    proof (cases "isStatementTimeout e \<and> Suc timeouts \<le> PRICE_SNAPSHOT_PURGE_TIMEOUT_RETRIES")
      case True
      then have e: "purge_loop h (max 1 (chunk div 2)) (Suc timeouts) s1 = (r, ss')" using "1.prems"(3) a Some by simp
      have pos: "0 < max 1 (chunk div 2)" by simp
      from "1.IH"(2)[OF a[symmetric] Some True ca(1) pos e] show ?thesis unfolding ca(2) .
    next
      case False
      then have "r = Some e" "ss' = s1" using "1.prems"(3) a Some by auto
      then show ?thesis using ca u Some by auto
    qed
  next
    case None
    have gap: "schema_gap (ss_store ss) PRICE_REFS = None" using ca u None by auto
    let ?n = "length (filter (orphaned_price h) (rows_of (ss_store s1) ''price_snapshots''))"
    let ?s2 = "purge_chunk h chunk s1"
    have h2: "honest_faults ?s2" using ca(1) by (simp add: honest_faults_def purge_chunk_def)
    show ?thesis
    proof (cases "?n < chunk \<or> chunk = 0")
      case True
      then have "r = None" "ss' = ?s2" using "1.prems"(3) a None by (auto simp: Let_def)
      moreover have "ss_store ?s2 = without_prices h (ss_store ss)"
        using True "1.prems"(2) ca(2) delete_some_all[of "orphaned_price h" "rows_of (ss_store s1) ''price_snapshots''" chunk]
        by (auto simp: purge_chunk_def without_prices_def intro!: on_rows_cong)
      ultimately show ?thesis using h2 gap by simp
    next
      case False
      then have "purge_loop h chunk 0 ?s2 = (r, ss')" using "1.prems"(3) a None by (simp add: Let_def)
      from "1.IH"(1)[OF a[symmetric] None refl refl False h2 "1.prems"(2) this]
      have "honest_faults ss' \<and> (case r of None \<Rightarrow> schema_gap (ss_store ?s2) PRICE_REFS = None \<and> ss_store ss' = without_prices h (ss_store ?s2)
         | Some e \<Rightarrow> \<not> isSchemaGapError e \<or> schema_gap (ss_store ?s2) PRICE_REFS = Some e \<and> ss_store ss' = ss_store ?s2)" .
      moreover have "schema_gap (ss_store ?s2) PRICE_REFS = None"
        using gap ca(2) by (simp add: purge_chunk_def schema_gap_on_rows)
      moreover have "without_prices h (ss_store ?s2) = without_prices h (ss_store ss)"
        using ca(2) by (simp add: without_prices_def purge_chunk_def on_rows_twice comp_def filter_delete_some)
      ultimately show ?thesis using gap by (auto split: option.splits)
    qed
  qed
qed

lemma purge_loop_quiet:
  assumes "ss_faults ss = []" "purge_loop h chunk timeouts ss = (r, ss')"
  shows "ss_faults ss' = [] \<and> (\<forall>e. r = Some e \<longrightarrow> isSchemaGapError e)"
  using assms
proof (induction h chunk timeouts ss rule: purge_loop.induct)
  case (1 h chunk timeouts ss)
  obtain a s1 where a: "answer PRICE_REFS ss = (a, s1)" by fastforce
  then have s: "ss_faults s1 = []" "\<And>e. a = Some e \<Longrightarrow> isSchemaGapError e"
    using "1.prems"(1) by (auto simp: answer_def schema_gap_def isSchemaGapError_def split: if_splits)
  show ?case
  proof (cases a)
    case (Some e)
    then have "\<not> isStatementTimeout e" using s(2) by (auto simp: isSchemaGapError_def isStatementTimeout_def)
    then show ?thesis using a s Some "1.prems"(2) by auto
  next
    case None
    have f: "ss_faults (purge_chunk h chunk s1) = []" using s(1) by (simp add: purge_chunk_def)
    show ?thesis
      using "1.IH"(1)[OF a[symmetric] None refl refl _ f] a None f "1.prems"(2) by (auto simp: Let_def split: if_splits)
  qed
qed

lemma purge_firm [intro!]: "firm (purgeOrphanedPriceSnapshots h)"
proof (rule firmI)
  fix ss r ss'
  assume h: "honest_faults ss" "purgeOrphanedPriceSnapshots h ss = (r, ss')"
  have c: "0 < PRICE_SNAPSHOT_PURGE_CHUNK" by (simp add: PRICE_SNAPSHOT_PURGE_CHUNK_def)
  note p = purge_loop_result[OF h(1) c h(2)[unfolded purgeOrphanedPriceSnapshots_def]]
  have hu: "honest_faults (at_rest st)" "ss_faults (at_rest st) = []" for st by (simp_all add: honest_faults_def at_rest_def)
  obtain q s where u: "purgeOrphanedPriceSnapshots h (at_rest (ss_store ss)) = (q, s)" by fastforce
  note pu = purge_loop_result[OF hu(1) c u[unfolded purgeOrphanedPriceSnapshots_def]]
  note qu = purge_loop_quiet[OF hu(2) u[unfolded purgeOrphanedPriceSnapshots_def]]
  have s: "s = at_rest (ss_store s)" using qu by (simp add: at_rest_def)
  have q: "q = schema_gap (ss_store ss) PRICE_REFS"
    "ss_store s = (if q = None then without_prices h (ss_store ss) else ss_store ss)"
    using pu qu by (cases q; simp add: at_rest_def)+
  show "honest_faults ss' \<and> ((\<exists>e. r = Some e \<and> \<not> isSchemaGapError e) \<or>
      purgeOrphanedPriceSnapshots h (at_rest (ss_store ss)) = (r, at_rest (ss_store ss')))"
    using p q u s by (cases r) (auto simp: at_rest_def)
qed

lemma rebuildBalances_firm [intro!]: "firm (rebuildBalances cast scope)"
  unfolding rebuildBalances_def by (auto intro!: firm_rules)

lemma recomputeTokenSupplies_firm [intro!]: "firm (recomputeTokenSupplies cast)"
  unfolding recomputeTokenSupplies_def by (auto intro!: firm_rules simp: Let_def)

lemma cooldown_firm [intro!]: "firm (reverseCooldownMaturities cfg h)"
  unfolding reverseCooldownMaturities_def deleteCapabilityMaturityLedgerRows_def deleteContractMaturityLedgerRows_def reopen_matured_def Let_def
  by (auto intro!: firm_rules split: option.split)

lemma reset_survivors_firm [intro!]: "firm (reset_survivors cfg h first)"
  unfolding reset_survivors_def delete_emissions_def reset_attests_def reset_xcalls_def reopen_polls_def rearm_poll_callbacks_def reset_bets_def
    restore_contract_slashes_def restore_rotations_def restore_capability_slashes_def restore_from_def reset_deactivations_def restore_anchor_rewards_def
    reset_archive_heads_def reset_batch_heads_def
  by (auto intro!: firm_rules split: option.split)

lemma delete_from_firm [intro!]: "firm (delete_from c t n)"
  unfolding delete_from_def by (auto intro!: firm_rules)

lemma sweeps_firm [intro!]: "firm sweep_icons" "firm sweep_markets" "firm (sweep_pairs pairs)" "firm sweep_pubkeys" "firm (sweep_prices cfg h)"
  unfolding sweep_icons_def sweep_markets_def sweep_pairs_def sweep_pair_def sweep_pubkeys_def sweep_prices_def delete_dangling_def Let_def
  by (auto intro!: firm_rules)

lemma rederive_firm [intro!]: "firm (rederive_tokens truncated)"
  unfolding rederive_tokens_def rederiveEscrowGate_def rederiveTokenBridged_def rederiveCoinpayMatchStatus_def move_matches_def
  by (auto intro!: firm_rules)

lemma delete_orphans_firm [intro!]: "firm (delete_orphans cfg h first truncated pairs)"
  unfolding delete_orphans_def orphan_steps_def delete_data_def delete_block_tables_def delete_index_tables_def reset_evictions_def delete_rollcalls_def delete_hub_mirrors_def
  by (auto intro!: firm_rules split: option.split)

lemma rollback_body_firm [intro!]: "firm (rollback_body cfg h first truncated pairs)"
  unfolding rollback_body_def with_refold_ticks_def recompute_aggregates_def
  by (auto intro!: firm_rules collectRefoldTickIds_firm refoldTokenRows_firm split: option.split)

lemma rollbackIndexer_firm: "firm (rollbackIndexer cfg h)"
  unfolding rollbackIndexer_def by (auto intro!: firm_rules in_transaction_firm split: option.split)

lemma rollbackDecoder_firm: "firm (rollbackDecoder h)"
  unfolding rollbackDecoder_def delete_outputs_def by (auto intro!: firm_rules in_transaction_firm)

lemma answer_store: "answer refs ss = (r, ss') \<Longrightarrow> ss_store ss' = ss_store ss"
  by (cases r) (auto dest: answer_shape)

lemma reading_undone:
  assumes "reading refs f k ss = (Some e, ss')" "\<And>x s s'. k x s = (Some e, s') \<Longrightarrow> ss_store s' = ss_store s"
  shows "ss_store ss' = ss_store ss"
proof -
  obtain a s1 where a: "answer refs ss = (a, s1)" by fastforce
  show ?thesis using assms(1) a answer_store[OF a] assms(2)[of "f (ss_store s1)" s1 ss'] by (cases a) (auto simp: reading_def)
qed

lemma reading_or_undone:
  assumes "reading_or none refs f k ss = (Some e, ss')" "\<And>x s s'. k x s = (Some e, s') \<Longrightarrow> ss_store s' = ss_store s"
  shows "ss_store ss' = ss_store ss"
proof -
  obtain a s1 where a: "answer refs ss = (a, s1)" by fastforce
  show ?thesis
    using assms(1) a answer_store[OF a] assms(2)[of "f (ss_store s1)" s1 ss'] assms(2)[of none s1 ss']
    by (cases a) (auto simp: reading_or_def split: if_splits)
qed

lemma rollbackIndexer_undone: "rollbackIndexer cfg h ss = (Some e, ss') \<Longrightarrow> ss_store ss' = ss_store ss"
  unfolding rollbackIndexer_def
  by (erule reading_undone, erule reading_undone)
     (auto split: option.splits if_splits dest: in_transaction_undone elim!: reading_or_undone)

lemma rollbackDecoder_undone: "rollbackDecoder h ss = (Some e, ss') \<Longrightarrow> ss_store ss' = ss_store ss"
  unfolding rollbackDecoder_def by (rule in_transaction_undone)

lemma rollback_firm: "firm (rollback cfg dbType h)"
  using rollbackIndexer_firm rollbackDecoder_firm by (simp add: rollback_def)

lemma rollback_undone: "rollback cfg dbType h ss = (Some e, ss') \<Longrightarrow> ss_store ss' = ss_store ss"
  using rollbackIndexer_undone rollbackDecoder_undone by (simp add: rollback_def split: if_splits)

text \<open>Small stores for examples.\<close>

definition demo_cells :: "(string \<times> cell) list \<Rightarrow> row" where
  "demo_cells kvs = (\<lambda>c. case map_of kvs c of None \<Rightarrow> CNull | Some v \<Rightarrow> v)"

definition demo_table :: "string list \<Rightarrow> (string \<times> cell) list list \<Rightarrow> tbl" where
  "demo_table cs rows = \<lparr>tb_columns = cs, tb_rows = map demo_cells rows\<rparr>"

definition demo_cfg :: rollback_cfg where
  "demo_cfg = \<lparr>rc_coin = Some ''BTC'', rc_network = ''regtest'', rc_delay = Some 6, rc_cast = (\<lambda>_. 0), rc_fold_gate = JUndef, rc_token_columns = id\<rparr>"

definition demo_decoder :: store where
  "demo_decoder = [''transactions'' \<mapsto> demo_table [''tx_index'', ''block_index''] [[(''tx_index'', CNum 1), (''block_index'', CNum 4)], [(''tx_index'', CNum 2), (''block_index'', CNum 5)]],
     ''blocks'' \<mapsto> demo_table [''block_index''] [[(''block_index'', CNum 4)], [(''block_index'', CNum 5)]]]"

definition demo_faulty :: session where
  "demo_faulty = \<lparr>ss_store = demo_decoder, ss_faults = [None, None, None, Some 1205]\<rparr>"

end
