(* ===== verification/Rollback_Scope.thy ===== *)
theory Rollback_Scope
  imports Rollback_Proofs
begin

text \<open>
  The orphaned range after a committed rollback: what makes a row of a table of the registry orphaned, and that no such row is
  left, whichever of the guarded statements removes it and whatever runs after it.
\<close>

section \<open>What a query keeps\<close>

text \<open>A relation between the rows before and after a query that nothing disturbs, whether or not it ends with an error.\<close>

definition keeps :: "(store \<Rightarrow> store \<Rightarrow> bool) \<Rightarrow> query \<Rightarrow> bool" where
  "keeps R q \<longleftrightarrow> (\<forall>ss r ss'. ss_faults ss = [] \<longrightarrow> q ss = (r, ss') \<longrightarrow> ss_faults ss' = [] \<and> R (ss_store ss) (ss_store ss'))"

locale preorder_on_stores =
  fixes R :: "store \<Rightarrow> store \<Rightarrow> bool"
  assumes refl: "R st st"
    and trans: "R a b \<Longrightarrow> R b c \<Longrightarrow> R a c"
begin

lemma answer_keeps: "answer refs ss = (r, ss') \<Longrightarrow> ss_faults ss = [] \<Longrightarrow> ss_faults ss' = [] \<and> R (ss_store ss) (ss_store ss')"
  using refl by (auto simp: answer_def)

lemma statement_keeps: "(\<And>st. R st (eff st)) \<Longrightarrow> keeps R (statement refs eff)"
  unfolding keeps_def statement_def by (auto split: prod.splits option.splits dest!: answer_keeps) (metis trans)

lemma reading_keeps: "(\<And>x. keeps R (k x)) \<Longrightarrow> keeps R (reading refs f k)"
  unfolding keeps_def reading_def by (auto split: prod.splits option.splits dest!: answer_keeps) (metis trans)+

lemma reading_or_keeps: "(\<And>x. keeps R (k x)) \<Longrightarrow> keeps R (reading_or none refs f k)"
  unfolding keeps_def reading_or_def by (auto split: prod.splits option.splits if_splits dest!: answer_keeps) (metis trans)+

lemma in_order_keeps: "(\<And>q. q \<in> set qs \<Longrightarrow> keeps R q) \<Longrightarrow> keeps R (in_order qs)"
proof (induction qs)
  case Nil
  show ?case using refl by (auto simp: keeps_def)
next
  case (Cons q qs)
  have q: "keeps R q" "keeps R (in_order qs)" using Cons by auto
  show ?case
    unfolding keeps_def
  proof (intro allI impI)
    fix ss r ss'
    assume f: "ss_faults ss = []" "in_order (q # qs) ss = (r, ss')"
    obtain a s1 where a: "q ss = (a, s1)" by fastforce
    have k: "ss_faults s1 = []" "R (ss_store ss) (ss_store s1)" using q(1) f(1) a unfolding keeps_def by blast+
    show "ss_faults ss' = [] \<and> R (ss_store ss) (ss_store ss')"
    proof (cases a)
      case (Some e)
      then show ?thesis using f(2) a k by auto
    next
      case None
      then have "in_order qs s1 = (r, ss')" using f(2) a by simp
      then have "ss_faults ss' = []" "R (ss_store s1) (ss_store ss')" using q(2) k(1) unfolding keeps_def by blast+
      then show ?thesis using k(2) trans by blast
    qed
  qed
qed

lemma tolerating_keeps: "keeps R q \<Longrightarrow> keeps R (tolerating ok q)"
  unfolding keeps_def
proof (intro allI impI)
  fix ss r ss'
  assume k: "\<forall>ss r ss'. ss_faults ss = [] \<longrightarrow> q ss = (r, ss') \<longrightarrow> ss_faults ss' = [] \<and> R (ss_store ss) (ss_store ss')"
    "ss_faults ss = []" "tolerating ok q ss = (r, ss')"
  obtain a s1 where "q ss = (a, s1)" by fastforce
  moreover have "ss' = s1" using k(3) \<open>q ss = (a, s1)\<close> by (cases a) (auto simp: tolerating_def)
  ultimately show "ss_faults ss' = [] \<and> R (ss_store ss) (ss_store ss')" using k(1,2) by blast
qed

lemma guarded_keeps: "keeps R q \<Longrightarrow> keeps R (guarded q)"
  unfolding guarded_def by (rule tolerating_keeps)

lemma when_some_keeps: "(\<And>y. keeps R (q y)) \<Longrightarrow> keeps R (when_some x q)"
  by (cases x) (auto simp: when_some_def intro!: in_order_keeps)

lemma collect_ticks_keeps: "(\<And>x. keeps R (k x)) \<Longrightarrow> keeps R (collect_ticks first ts found k)"
  by (induction ts arbitrary: found) (auto intro!: reading_or_keeps split: option.split prod.split)

lemma fold_parts_keeps: "(\<And>x. keeps R (k x)) \<Longrightarrow> keeps R (fold_parts render ps acc k)"
  by (induction ps arbitrary: acc) (auto intro!: reading_keeps)

lemma anchor_parts_keeps: "(\<And>x. keeps R (k x)) \<Longrightarrow> keeps R (anchor_parts ps acc k)"
  by (induction ps arbitrary: acc) (auto intro!: reading_keeps)

lemma purge_keeps:
  assumes "\<And>st. R st (without_prices h st)"
  shows "keeps R (purgeOrphanedPriceSnapshots h)"
  unfolding keeps_def
proof (intro allI impI)
  fix ss r ss'
  assume f: "ss_faults ss = []" "purgeOrphanedPriceSnapshots h ss = (r, ss')"
  have "honest_faults ss" using f(1) by (simp add: honest_faults_def)
  from purge_loop_result[OF this _ f(2)[unfolded purgeOrphanedPriceSnapshots_def]] purge_loop_quiet[OF f(1) f(2)[unfolded purgeOrphanedPriceSnapshots_def]]
  show "ss_faults ss' = [] \<and> R (ss_store ss) (ss_store ss')"
    using assms refl by (auto simp: PRICE_SNAPSHOT_PURGE_CHUNK_def split: option.splits)
qed

text \<open>A query of a list establishes a property that the others keep.\<close>

lemma in_order_establishes:
  assumes "in_order qs ss = (None, ss')" "ss_faults ss = []" "q \<in> set qs" "\<And>q'. q' \<in> set qs \<Longrightarrow> keeps R q'"
    and "\<And>s s'. ss_faults s = [] \<Longrightarrow> R (ss_store ss) (ss_store s) \<Longrightarrow> q s = (None, s') \<Longrightarrow> P (ss_store s')"
    and "\<And>a b. R a b \<Longrightarrow> P a \<Longrightarrow> P b"
  shows "P (ss_store ss')"
  using assms(1-5)
proof (induction qs arbitrary: ss)
  case (Cons x xs)
  obtain a s1 where a: "x ss = (a, s1)" by fastforce
  then have n: "a = None" "in_order xs s1 = (None, ss')" using Cons.prems(1) by (cases a; auto)+
  have x: "keeps R x" "keeps R (in_order xs)" using Cons.prems(4) by (auto intro!: in_order_keeps)
  have k: "ss_faults s1 = []" "R (ss_store ss) (ss_store s1)" using x(1) a Cons.prems(2) unfolding keeps_def by blast+
  show ?case
  proof (cases "x = q")
    case True
    then have "P (ss_store s1)" using Cons.prems(5)[OF Cons.prems(2) refl] a n(1) by simp
    moreover have "R (ss_store s1) (ss_store ss')" using x(2) n(2) k(1) unfolding keeps_def by blast
    ultimately show ?thesis using assms(6) by blast
  next
    case False
    then have q: "q \<in> set xs" using Cons.prems(3) by auto
    show ?thesis
      by (rule Cons.IH[OF n(2) k(1) q]) (use Cons.prems(4,5) k(2) trans in \<open>auto intro: Cons.prems(5)\<close>)
  qed
qed simp

end

section \<open>Rows only go\<close>

text \<open>The columns a table is unwound by.  Once the surviving rows are reset, no row is added beyond the balances and none of these
  columns is written.\<close>

definition SCOPE_COLUMNS :: "string list" where
  "SCOPE_COLUMNS = [''action_index'', ''block_index'', ''close_block'', ''end_block'', ''derive_block_index'', ''last_updated_block'',
     ''execution_index'', ''source_chain'', ''source_action_index'', ''a_chain'', ''a_action_index'', ''b_chain'', ''b_action_index'',
     ''src_chain'', ''src_action_index'', ''reference_chain'', ''reference_block'']"

text \<open>Two rows that a condition on these columns cannot tell apart.\<close>

definition same_scope :: "row \<Rightarrow> row \<Rightarrow> bool" where
  "same_scope r' r \<longleftrightarrow> (\<forall>c \<in> set SCOPE_COLUMNS. r' c = r c)"

definition same_schema :: "store \<Rightarrow> store \<Rightarrow> bool" where
  "same_schema st st' \<longleftrightarrow> (\<forall>t. map_option tb_columns (st t) = map_option tb_columns (st' t))"

definition shrinks :: "store \<Rightarrow> store \<Rightarrow> bool" where
  "shrinks st st' \<longleftrightarrow> same_schema st st' \<and>
     (\<forall>t. t \<noteq> ''balances'' \<longrightarrow> (\<forall>r' \<in> set (rows_of st' t). \<exists>r \<in> set (rows_of st t). \<forall>c \<in> set SCOPE_COLUMNS. r' c = r c))"

interpretation schema: preorder_on_stores same_schema
  by unfold_locales (auto simp: same_schema_def)

interpretation shrink: preorder_on_stores shrinks
proof
  show "shrinks st st" for st by (auto simp: shrinks_def same_schema_def)
  show "shrinks a c" if ab: "shrinks a b" and bc: "shrinks b c" for a b c
    unfolding shrinks_def
  proof (intro conjI allI impI ballI)
    show "same_schema a c" using ab bc schema.trans by (auto simp: shrinks_def)
    fix t r
    assume t: "t \<noteq> ''balances''" "r \<in> set (rows_of c t)"
    then obtain y where y: "y \<in> set (rows_of b t)" "\<forall>k \<in> set SCOPE_COLUMNS. r k = y k" using bc unfolding shrinks_def by blast
    then obtain x where "x \<in> set (rows_of a t)" "\<forall>k \<in> set SCOPE_COLUMNS. y k = x k" using ab t(1) unfolding shrinks_def by blast
    then show "\<exists>x \<in> set (rows_of a t). \<forall>k \<in> set SCOPE_COLUMNS. r k = x k" using y(2) by auto
  qed
qed

lemma on_rows_schema: "same_schema st (on_rows t f st)"
  by (auto simp: same_schema_def on_rows_def split: option.splits)

lemma rows_of_on_rows: "rows_of (on_rows t f st) u = (if u = t \<and> st t \<noteq> None then f (rows_of st t) else rows_of st u)"
  by (auto simp: rows_of_def on_rows_def split: option.splits)

lemma on_rows_shrinks:
  assumes "t = ''balances'' \<or> (\<forall>r' \<in> set (f (rows_of st t)). \<exists>r \<in> set (rows_of st t). \<forall>c \<in> set SCOPE_COLUMNS. r' c = r c)"
  shows "shrinks st (on_rows t f st)"
  using assms by (auto simp: shrinks_def on_rows_schema rows_of_on_rows)

lemma delete_rows_shrinks [intro!]: "shrinks st (delete_rows t P st)"
  unfolding delete_rows_def by (rule on_rows_shrinks) auto

lemma update_rows_shrinks:
  assumes "\<And>r r'. f st r = Some r' \<Longrightarrow> \<forall>c \<in> set SCOPE_COLUMNS. r' c = r c"
  shows "shrinks st (update_rows t f st)"
  unfolding update_rows_def
proof (rule on_rows_shrinks, rule disjI2, rule ballI)
  fix r'
  assume "r' \<in> set (map (\<lambda>r. case f st r of None \<Rightarrow> r | Some r' \<Rightarrow> r') (rows_of st t))"
  then obtain r where "r \<in> set (rows_of st t)" "r' = (case f st r of None \<Rightarrow> r | Some x \<Rightarrow> x)" by auto
  then show "\<exists>r \<in> set (rows_of st t). \<forall>c \<in> set SCOPE_COLUMNS. r' c = r c" using assms by (cases "f st r") fastforce+
qed

lemma update_rows_schema [intro!]: "same_schema st (update_rows t f st)"
  unfolding update_rows_def by (rule on_rows_schema)

lemma delete_rows_schema [intro!]: "same_schema st (delete_rows t P st)"
  unfolding delete_rows_def by (rule on_rows_schema)

lemma without_prices_shrinks [intro!]: "shrinks st (without_prices h st)"
  unfolding without_prices_def by (rule on_rows_shrinks) auto

lemmas shrink_rules = shrink.statement_keeps shrink.reading_keeps shrink.reading_or_keeps shrink.in_order_keeps shrink.tolerating_keeps
  shrink.guarded_keeps shrink.when_some_keeps update_rows_shrinks

lemma delete_from_keeps [intro!]: "keeps shrinks (delete_from c t n)"
  unfolding delete_from_def by (auto intro!: shrink_rules)

lemma sweeps_keep [intro!]: "keeps shrinks sweep_icons" "keeps shrinks sweep_markets" "keeps shrinks (sweep_pairs pairs)"
  "keeps shrinks sweep_pubkeys" "keeps shrinks (sweep_prices cfg h)"
  unfolding sweep_icons_def sweep_markets_def sweep_pairs_def sweep_pair_def sweep_pubkeys_def sweep_prices_def delete_dangling_def Let_def
  by (auto intro!: shrink_rules shrink.purge_keeps)

lemma rederive_keeps [intro!]: "keeps shrinks (rederive_tokens truncated)"
  unfolding rederive_tokens_def rederiveEscrowGate_def rederiveTokenBridged_def rederiveCoinpayMatchStatus_def move_matches_def
  by (auto intro!: shrink_rules simp: SCOPE_COLUMNS_def split: option.splits if_splits)

lemma orphan_steps_keep: "q \<in> set (orphan_steps cfg h first truncated pairs) \<Longrightarrow> keeps shrinks q"
  unfolding orphan_steps_def delete_data_def delete_block_tables_def delete_index_tables_def reset_evictions_def delete_rollcalls_def delete_hub_mirrors_def
  by (auto intro!: shrink_rules simp: SCOPE_COLUMNS_def unstamp_def split: option.splits if_splits)

lemma delete_orphans_keeps: "keeps shrinks (delete_orphans cfg h first truncated pairs)"
  unfolding delete_orphans_def by (rule shrink.in_order_keeps) (rule orphan_steps_keep)

section \<open>The orphaned range is gone\<close>

definition gone :: "string \<Rightarrow> (row \<Rightarrow> bool) \<Rightarrow> store \<Rightarrow> bool" where
  "gone t P st \<longleftrightarrow> list_all (\<lambda>r. \<not> P r) (rows_of st t)"

definition by_scope :: "(row \<Rightarrow> bool) \<Rightarrow> bool" where
  "by_scope P \<longleftrightarrow> (\<forall>r r'. same_scope r' r \<longrightarrow> P r' = P r)"

lemma gone_shrinks: "shrinks a b \<Longrightarrow> gone t P a \<Longrightarrow> t \<noteq> ''balances'' \<Longrightarrow> by_scope P \<Longrightarrow> gone t P b"
  unfolding shrinks_def gone_def by_scope_def same_scope_def list_all_iff by metis

lemma by_scope_column: "c \<in> set SCOPE_COLUMNS \<Longrightarrow> by_scope (\<lambda>r. cell_ge (r c) n)"
  by (auto simp: by_scope_def same_scope_def)

text \<open>A table is ready for a statement when it is missing or the statement finds the tables and columns it names.\<close>

definition ready :: "store \<Rightarrow> string \<Rightarrow> (string \<times> string list) list \<Rightarrow> bool" where
  "ready st t refs \<longleftrightarrow> st t = None \<or> schema_gap st refs = None"

lemma schema_gap_schema:
  assumes "same_schema a b"
  shows "schema_gap b refs = schema_gap a refs" and "b t = None \<longleftrightarrow> a t = None"
proof -
  have m: "map_option tb_columns (a t) = map_option tb_columns (b t)" for t using assms by (simp add: same_schema_def)
  have n: "b t = None \<longleftrightarrow> a t = None" for t using m[of t] by (metis option.map_disc_iff)
  have c: "tb_columns (the (b t)) = tb_columns (the (a t))" if "a t \<noteq> None" for t using m[of t] n[of t] that by auto
  have "list_ex (\<lambda>(u, cs). \<not> set cs \<subseteq> set (tb_columns (the (b u)))) refs =
      list_ex (\<lambda>(u, cs). \<not> set cs \<subseteq> set (tb_columns (the (a u)))) refs" if "\<not> list_ex (\<lambda>(u, cs). a u = None) refs"
    using that c by (fastforce simp: list_ex_iff)
  then show "schema_gap b refs = schema_gap a refs" unfolding schema_gap_def n by simp
  show "b t = None \<longleftrightarrow> a t = None" by (rule n)
qed

lemma ready_schema: "same_schema a b \<Longrightarrow> ready a t refs \<Longrightarrow> ready b t refs"
  unfolding ready_def using schema_gap_schema by metis

text \<open>A query that, when it finds its table ready, leaves no row with the property.\<close>

definition establishes :: "query \<Rightarrow> (string \<times> string list) list \<Rightarrow> string \<Rightarrow> (row \<Rightarrow> bool) \<Rightarrow> bool" where
  "establishes q refs t P \<longleftrightarrow>
     (\<forall>ss ss'. ss_faults ss = [] \<longrightarrow> ready (ss_store ss) t refs \<longrightarrow> q ss = (None, ss') \<longrightarrow> gone t P (ss_store ss'))"

lemma quiet_statement:
  "ss_faults ss = [] \<Longrightarrow> statement refs eff ss =
     (case schema_gap (ss_store ss) refs of Some e \<Rightarrow> (Some e, ss) | None \<Rightarrow> (None, ss\<lparr>ss_store := eff (ss_store ss)\<rparr>))"
  by (auto simp: statement_def answer_def split: option.split)

lemma gap_tolerated: "schema_gap st refs = Some e \<Longrightarrow> isSchemaGapError e"
  by (auto simp: schema_gap_def isSchemaGapError_def split: if_splits)

lemma gone_missing: "st t = None \<Longrightarrow> gone t P st"
  by (simp add: gone_def rows_of_def)

lemma gone_filtered: "gone t P (on_rows t (filter (\<lambda>r. \<not> P r)) st)"
  by (cases "st t") (auto simp: gone_def rows_of_on_rows list_all_iff, simp add: rows_of_def)

lemma gone_deleted: "gone t P (delete_rows t (\<lambda>st r. P r) st)"
  unfolding delete_rows_def by (rule gone_filtered)

lemma establishes_delete: "establishes (guarded (statement refs (delete_rows t (\<lambda>st r. P r)))) refs t P"
  unfolding establishes_def
proof (intro allI impI)
  fix ss ss'
  assume f: "ss_faults ss = []" "ready (ss_store ss) t refs" "guarded (statement refs (delete_rows t (\<lambda>st r. P r))) ss = (None, ss')"
  show "gone t P (ss_store ss')"
  proof (cases "schema_gap (ss_store ss) refs")
    case None
    then have "ss_store ss' = delete_rows t (\<lambda>st r. P r) (ss_store ss)"
      using f by (auto simp: guarded_def tolerating_def quiet_statement)
    then show ?thesis by (simp add: gone_deleted)
  next
    case (Some e)
    then have "ss_store ss' = ss_store ss" using f gap_tolerated[OF Some] by (auto simp: guarded_def tolerating_def quiet_statement)
    then show ?thesis using f(2) Some by (simp add: ready_def gone_missing)
  qed
qed

lemma establishes_from: "establishes (delete_from c t n) [(t, [c])] t (\<lambda>r. cell_ge (r c) n)"
  unfolding delete_from_def by (rule establishes_delete)

lemma establishes_member:
  assumes "q \<in> set qs" "\<And>q'. q' \<in> set qs \<Longrightarrow> keeps shrinks q'" "establishes q refs t P" "t \<noteq> ''balances''" "by_scope P"
  shows "establishes (in_order qs) refs t P"
  unfolding establishes_def
proof (intro allI impI)
  fix ss ss'
  assume f: "ss_faults ss = []" "ready (ss_store ss) t refs" "in_order qs ss = (None, ss')"
  show "gone t P (ss_store ss')"
  proof (rule shrink.in_order_establishes[OF f(3,1) assms(1)])
    show "keeps shrinks q'" if "q' \<in> set qs" for q' using assms(2) that .
    show "gone t P (ss_store s')" if "ss_faults s = []" "shrinks (ss_store ss) (ss_store s)" "q s = (None, s')" for s s'
    proof -
      have "ready (ss_store s) t refs" using ready_schema f(2) that(2) by (auto simp: shrinks_def)
      then show ?thesis using assms(3) that(1,3) unfolding establishes_def by blast
    qed
    show "gone t P b" if "shrinks a b" "gone t P a" for a b using gone_shrinks[OF that assms(4,5)] .
  qed
qed

lemma establishes_deletes:
  "t \<in> set ts \<Longrightarrow> t \<noteq> ''balances'' \<Longrightarrow> c \<in> set SCOPE_COLUMNS \<Longrightarrow>
    establishes (in_order (map (\<lambda>t. delete_from c t n) ts)) [(t, [c])] t (\<lambda>r. cell_ge (r c) n)"
  by (rule establishes_member[of "delete_from c t n"]) (auto intro: establishes_from by_scope_column)

lemma establishes_prices:
  assumes "rc_coin cfg = Some ''BTC''"
  shows "establishes (sweep_prices cfg h) PRICE_REFS ''price_snapshots'' (orphaned_price h)"
  unfolding establishes_def
proof (intro allI impI)
  fix ss ss'
  assume f: "ss_faults ss = []" "ready (ss_store ss) ''price_snapshots'' PRICE_REFS" "sweep_prices cfg h ss = (None, ss')"
  obtain r s where p: "purgeOrphanedPriceSnapshots h ss = (r, s)" by fastforce
  have h: "honest_faults ss" using f(1) by (simp add: honest_faults_def)
  have chunk: "0 < PRICE_SNAPSHOT_PURGE_CHUNK" by (simp add: PRICE_SNAPSHOT_PURGE_CHUNK_def)
  note res = purge_loop_result[OF h chunk p[unfolded purgeOrphanedPriceSnapshots_def]]
  have s: "ss' = s" "r = None \<or> (\<exists>e. r = Some e \<and> isSchemaGapError e)"
    using f(3) p assms by (auto simp: sweep_prices_def guarded_def tolerating_def split: option.splits if_splits)
  show "gone ''price_snapshots'' (orphaned_price h) (ss_store ss')"
  proof (cases r)
    case None
    then have "ss_store ss' = without_prices h (ss_store ss)" using res s(1) by simp
    then show ?thesis by (simp add: without_prices_def gone_filtered)
  next
    case (Some e)
    then have "schema_gap (ss_store ss) PRICE_REFS \<noteq> None" "ss_store ss' = ss_store ss" using res s by auto
    then show ?thesis using f(2) by (auto simp: ready_def gone_missing)
  qed
qed

section \<open>What makes a row orphaned\<close>

definition CALL_REFS :: "(string \<times> string list) list" where
  "CALL_REFS = [(''cross_chain_calls'', [''source_chain'', ''source_action_index''])]"
definition MATCH_REFS :: "(string \<times> string list) list" where
  "MATCH_REFS = [(''cross_chain_matches'', [''a_chain'', ''a_action_index'', ''b_chain'', ''b_action_index''])]"
definition BRIDGE_REFS :: "(string \<times> string list) list" where
  "BRIDGE_REFS = [(''bridge_transfers'', [''src_chain'', ''src_action_index''])]"

definition orphan_call :: "rollback_cfg \<Rightarrow> int \<Rightarrow> row \<Rightarrow> bool" where
  "orphan_call cfg n r \<longleftrightarrow> of_chain cfg (r ''source_chain'') \<and> cell_ge (r ''source_action_index'') n"
definition orphan_match :: "rollback_cfg \<Rightarrow> int \<Rightarrow> row \<Rightarrow> bool" where
  "orphan_match cfg n r \<longleftrightarrow> of_chain cfg (r ''a_chain'') \<and> cell_ge (r ''a_action_index'') n \<or> of_chain cfg (r ''b_chain'') \<and> cell_ge (r ''b_action_index'') n"
definition orphan_bridge :: "rollback_cfg \<Rightarrow> int \<Rightarrow> row \<Rightarrow> bool" where
  "orphan_bridge cfg n r \<longleftrightarrow> of_chain cfg (r ''src_chain'') \<and> cell_ge (r ''src_action_index'') n"
definition orphan_price_quote :: "rollback_cfg \<Rightarrow> int \<Rightarrow> row \<Rightarrow> bool" where
  "orphan_price_quote cfg n r \<longleftrightarrow> of_chain cfg (r ''source_chain'') \<and> cell_ge (r ''action_index'') n"

text \<open>The rows of the mirrored hub tables that orphaned actions of this chain wrote.  The deletes of calls, matches and bridge
  transfers share one guard, so each needs the tables before it.\<close>

definition hub_rules :: "rollback_cfg \<Rightarrow> int \<Rightarrow> string \<Rightarrow> ((string \<times> string list) list \<times> (row \<Rightarrow> bool)) list" where
  "hub_rules cfg n t =
     (if t = ''oracle_prices'' then [([(t, [''source_chain'', ''action_index''])], orphan_price_quote cfg n)]
      else if t = ''cross_chain_calls'' then [(CALL_REFS, orphan_call cfg n)]
      else if t = ''cross_chain_matches'' then [(CALL_REFS @ MATCH_REFS, orphan_match cfg n)]
      else if t = ''bridge_transfers'' then [(CALL_REFS @ MATCH_REFS @ BRIDGE_REFS, orphan_bridge cfg n)]
      else [])"

text \<open>What makes a row of a table orphaned by a rollback to a height whose first orphaned action is \<open>first\<close>, with the columns that
  tell it.  Tables that the replica does not unwind by row have no rule: lookups without a block, node-local tables, the
  exempt ones, and the tables that are recomputed or swept of dangling rows.\<close>

definition scope_rules :: "rollback_cfg \<Rightarrow> int \<Rightarrow> int option \<Rightarrow> lifecycle_entry \<Rightarrow> ((string \<times> string list) list \<times> (row \<Rightarrow> bool)) list" where
  "scope_rules cfg h first e =
     (let t = lc_table e; upto = (\<lambda>c. ([(t, [c])], \<lambda>r. cell_ge (r c) h)) in
      if lc_replicaRollback e = Mirror then
        (case lc_rollback e of
           Some ByBlock \<Rightarrow> upto ''block_index'' # (if t = ''validator_rewards'' then [upto ''derive_block_index''] else [])
         | Some ByIndex \<Rightarrow> [upto ''block_index'']
         | Some ByAction \<Rightarrow> (case first of None \<Rightarrow> [] | Some n \<Rightarrow> [([(t, [''action_index''])], \<lambda>r. cell_ge (r ''action_index'') n)])
         | _ \<Rightarrow> [])
      else if t \<in> set [''rollcall_gates'', ''rollcall_absences'', ''rollcalls''] then [upto ''close_block'']
      else if t = ''sync_meta'' then [upto ''block_index'']
      else if t = ''merkle_epochs'' then [upto ''end_block'']
      else if t = ''attest_validator_stats'' then [upto ''last_updated_block'']
      else if t = ''price_snapshots'' then (if rc_coin cfg = Some ''BTC'' then [(PRICE_REFS, orphaned_price h)] else [])
      else (case first of None \<Rightarrow> [] | Some n \<Rightarrow> hub_rules cfg n t))"

text \<open>An emission of an execution that is orphaned: the emissions have no action of their own.\<close>

definition orphan_emission :: "int option \<Rightarrow> store \<Rightarrow> row \<Rightarrow> bool" where
  "orphan_emission first st r =
     (case first of
        None \<Rightarrow> False
      | Some n \<Rightarrow> any_row st ''contract_executions'' (\<lambda>x. cell_ge (x ''action_index'') n \<and> cell_eq (r ''execution_index'') (x ''action_index'')))"

definition unwound :: "rollback_cfg \<Rightarrow> int \<Rightarrow> int option \<Rightarrow> store \<Rightarrow> lifecycle_entry \<Rightarrow> bool" where
  "unwound cfg h first st e = list_all (\<lambda>(refs, P). gone (lc_table e) P st) (scope_rules cfg h first e)"

definition scoped :: "rollback_cfg \<Rightarrow> int \<Rightarrow> int option \<Rightarrow> store \<Rightarrow> lifecycle_entry \<Rightarrow> bool" where
  "scoped cfg h first st e = list_all (\<lambda>(refs, P). ready st (lc_table e) refs) (scope_rules cfg h first e)"

lemma hub_by_scope:
  "by_scope (orphan_call cfg n)" "by_scope (orphan_match cfg n)" "by_scope (orphan_bridge cfg n)" "by_scope (orphan_price_quote cfg n)"
  by (simp_all add: by_scope_def same_scope_def SCOPE_COLUMNS_def orphan_call_def orphan_match_def orphan_bridge_def orphan_price_quote_def)

lemma price_by_scope: "by_scope (orphaned_price h)"
  by (simp add: by_scope_def same_scope_def SCOPE_COLUMNS_def orphaned_price_def)

lemma gap_append: "schema_gap st (a @ b) = None \<longleftrightarrow> schema_gap st a = None \<and> schema_gap st b = None"
  by (auto simp: schema_gap_def)

text \<open>The three deletes under one guard.\<close>

definition call_deletes :: "rollback_cfg \<Rightarrow> int \<Rightarrow> query list" where
  "call_deletes cfg n =
     [statement CALL_REFS (delete_rows ''cross_chain_calls'' (\<lambda>st. orphan_call cfg n)),
      statement MATCH_REFS (delete_rows ''cross_chain_matches'' (\<lambda>st. orphan_match cfg n)),
      statement BRIDGE_REFS (delete_rows ''bridge_transfers'' (\<lambda>st. orphan_bridge cfg n))]"

lemma hub_mirrors_eq:
  "delete_hub_mirrors cfg n = in_order
     [guarded (statement [(''oracle_prices'', [''source_chain'', ''action_index''])] (delete_rows ''oracle_prices'' (\<lambda>st. orphan_price_quote cfg n))),
      guarded (in_order (call_deletes cfg n))]"
  unfolding delete_hub_mirrors_def call_deletes_def CALL_REFS_def MATCH_REFS_def BRIDGE_REFS_def orphan_call_def orphan_match_def orphan_bridge_def orphan_price_quote_def
  by (rule refl)

lemma other_table_rows: "t \<noteq> u \<Longrightarrow> rows_of (delete_rows u P st) t = rows_of st t"
  by (simp add: delete_rows_def rows_of_on_rows)

lemma gone_other: "t \<noteq> u \<Longrightarrow> gone t P (delete_rows u Q st) = gone t P st"
  by (simp add: gone_def other_table_rows)

lemma call_deletes_result:
  assumes "ss_faults ss = []" "guarded (in_order (call_deletes cfg n)) ss = (None, ss')"
  defines "st \<equiv> ss_store ss"
  defines "st1 \<equiv> delete_rows ''cross_chain_calls'' (\<lambda>st. orphan_call cfg n) st"
  defines "st2 \<equiv> delete_rows ''cross_chain_matches'' (\<lambda>st. orphan_match cfg n) st1"
  shows "ss_store ss' =
    (if schema_gap st CALL_REFS \<noteq> None then st else if schema_gap st MATCH_REFS \<noteq> None then st1
     else if schema_gap st BRIDGE_REFS \<noteq> None then st2 else delete_rows ''bridge_transfers'' (\<lambda>st. orphan_bridge cfg n) st2)"
proof -
  have g: "schema_gap st1 refs = schema_gap st refs" "schema_gap st2 refs = schema_gap st refs" for refs
    by (simp_all add: st1_def st2_def schema_gap_schema(1)[OF delete_rows_schema])
  show ?thesis
    using assms(1,2) g[of MATCH_REFS] g[of BRIDGE_REFS] gap_tolerated
    by (auto simp: guarded_def tolerating_def call_deletes_def quiet_statement st_def st1_def st2_def split: option.splits if_splits)
qed

lemma establishes_calls:
  "establishes (guarded (in_order (call_deletes cfg n))) CALL_REFS ''cross_chain_calls'' (orphan_call cfg n)"
  "establishes (guarded (in_order (call_deletes cfg n))) (CALL_REFS @ MATCH_REFS) ''cross_chain_matches'' (orphan_match cfg n)"
  "establishes (guarded (in_order (call_deletes cfg n))) (CALL_REFS @ MATCH_REFS @ BRIDGE_REFS) ''bridge_transfers'' (orphan_bridge cfg n)"
  unfolding establishes_def
  by (auto simp: call_deletes_result ready_def gap_append gone_missing gone_other gone_deleted)

lemma hub_mirrors_keep: "q \<in> set [guarded (statement refs (delete_rows t P)), guarded (in_order (call_deletes cfg n))] \<Longrightarrow> keeps shrinks q"
  by (auto simp: call_deletes_def intro!: shrink_rules)

lemma establishes_hub:
  assumes "(refs, P) \<in> set (hub_rules cfg n t)"
  shows "establishes (delete_hub_mirrors cfg n) refs t P"
  unfolding hub_mirrors_eq
proof (rule establishes_member)
  let ?q = "if t = ''oracle_prices'' then guarded (statement [(''oracle_prices'', [''source_chain'', ''action_index''])] (delete_rows ''oracle_prices'' (\<lambda>st. orphan_price_quote cfg n)))
    else guarded (in_order (call_deletes cfg n))"
  show "?q \<in> set [guarded (statement [(''oracle_prices'', [''source_chain'', ''action_index''])] (delete_rows ''oracle_prices'' (\<lambda>st. orphan_price_quote cfg n))),
      guarded (in_order (call_deletes cfg n))]" by simp
  show "establishes ?q refs t P"
    using assms establishes_calls[of cfg n] establishes_delete[of "[(t, [''source_chain'', ''action_index''])]" t "orphan_price_quote cfg n"]
    by (auto simp: hub_rules_def split: if_splits)
  show "t \<noteq> ''balances''" "by_scope P" using assms by (auto simp: hub_rules_def hub_by_scope split: if_splits)
qed (rule hub_mirrors_keep)

lemma mirror_row: "list_all (\<lambda>e. lc_replicaRollback e = Mirror \<longrightarrow> lc_table e \<noteq> ''balances'') TABLES"
  by (simp add: registry_defs)

text \<open>Every rule has its step.\<close>

definition step_for :: "query list \<Rightarrow> (string \<times> string list) list \<Rightarrow> string \<Rightarrow> (row \<Rightarrow> bool) \<Rightarrow> bool" where
  "step_for qs refs t P \<longleftrightarrow> (\<exists>q \<in> set qs. establishes q refs t P) \<and> by_scope P \<and> t \<noteq> ''balances''"

lemma step_forI: "q \<in> set qs \<Longrightarrow> establishes q refs t P \<Longrightarrow> by_scope P \<Longrightarrow> t \<noteq> ''balances'' \<Longrightarrow> step_for qs refs t P"
  by (auto simp: step_for_def)

lemma step_for_deletes:
  "in_order (map (\<lambda>t. delete_from c t n) ts) \<in> set qs \<Longrightarrow> t \<in> set ts \<Longrightarrow> t \<noteq> ''balances'' \<Longrightarrow> c \<in> set SCOPE_COLUMNS \<Longrightarrow>
    step_for qs [(t, [c])] t (\<lambda>r. cell_ge (r c) n)"
  by (rule step_forI[OF _ establishes_deletes by_scope_column])

lemma step_for_from:
  "delete_from c t n \<in> set qs \<Longrightarrow> t \<noteq> ''balances'' \<Longrightarrow> c \<in> set SCOPE_COLUMNS \<Longrightarrow> step_for qs [(t, [c])] t (\<lambda>r. cell_ge (r c) n)"
  by (rule step_forI[OF _ establishes_from by_scope_column])

lemma mirror_step:
  assumes "e \<in> set TABLES" "lc_replicaRollback e = Mirror" "(refs, P) \<in> set (scope_rules cfg h first e)"
  shows "step_for (orphan_steps cfg h first truncated pairs) refs (lc_table e) P"
proof -
  have nb: "lc_table e \<noteq> ''balances''" using mirror_row assms(1,2) by (auto simp: list_all_iff)
  have listed: "lc_table e \<in> set (tablesWhere (\<lambda>e. lc_rollback e = Some k \<and> lc_replicaRollback e = Mirror))" if "lc_rollback e = Some k" for k
    using where_member[OF assms(1), of "\<lambda>e. lc_rollback e = Some k \<and> lc_replicaRollback e = Mirror"] assms(2) that by simp
  consider "lc_rollback e = Some ByBlock" "refs = [(lc_table e, [''block_index''])]" "P = (\<lambda>r. cell_ge (r ''block_index'') h)"
    | "lc_table e = ''validator_rewards''" "refs = [(lc_table e, [''derive_block_index''])]" "P = (\<lambda>r. cell_ge (r ''derive_block_index'') h)"
    | "lc_rollback e = Some ByIndex" "refs = [(lc_table e, [''block_index''])]" "P = (\<lambda>r. cell_ge (r ''block_index'') h)"
    | n where "lc_rollback e = Some ByAction" "first = Some n" "refs = [(lc_table e, [''action_index''])]" "P = (\<lambda>r. cell_ge (r ''action_index'') n)"
    using assms(2,3) unfolding scope_rules_def Let_def
    by (cases "lc_rollback e"; cases first; cases "the (lc_rollback e)") (auto split: if_splits)
  then show ?thesis
  proof cases
    case 1
    show ?thesis unfolding 1(2,3)
      by (rule step_for_deletes[of _ _ "rl_block replicaRollbackTables"])
         (use listed[OF 1(1)] nb in \<open>simp_all add: orphan_steps_def delete_block_tables_def replicaRollbackTables_def SCOPE_COLUMNS_def\<close>)
  next
    case 2
    show ?thesis unfolding 2(2,3) by (rule step_for_from) (use 2(1) nb in \<open>simp_all add: orphan_steps_def SCOPE_COLUMNS_def\<close>)
  next
    case 3
    show ?thesis unfolding 3(2,3)
      by (rule step_for_deletes[of _ _ "rl_index replicaRollbackTables"])
         (use listed[OF 3(1)] nb in \<open>simp_all add: orphan_steps_def delete_index_tables_def replicaRollbackTables_def SCOPE_COLUMNS_def\<close>)
  next
    case 4
    show ?thesis unfolding 4(3,4)
      by (rule step_for_deletes[of _ _ "rl_data replicaRollbackTables"])
         (use listed[OF 4(1)] nb 4(2) in \<open>simp_all add: orphan_steps_def delete_data_def when_some_def replicaRollbackTables_def SCOPE_COLUMNS_def\<close>)
  qed
qed

lemma bespoke_step:
  assumes "lc_replicaRollback e \<noteq> Mirror" "(refs, P) \<in> set (scope_rules cfg h first e)"
  shows "step_for (orphan_steps cfg h first truncated pairs) refs (lc_table e) P"
proof -
  let ?rc = "[''rollcall_gates'', ''rollcall_absences'', ''rollcalls'']"
  consider "lc_table e \<in> set ?rc" "refs = [(lc_table e, [''close_block''])]" "P = (\<lambda>r. cell_ge (r ''close_block'') h)"
    | c where "(lc_table e, c) \<in> set [(''sync_meta'', ''block_index''), (''merkle_epochs'', ''end_block''), (''attest_validator_stats'', ''last_updated_block'')]"
      "refs = [(lc_table e, [c])]" "P = (\<lambda>r. cell_ge (r c) h)"
    | "lc_table e = ''price_snapshots''" "rc_coin cfg = Some ''BTC''" "refs = PRICE_REFS" "P = orphaned_price h"
    | n where "first = Some n" "(refs, P) \<in> set (hub_rules cfg n (lc_table e))"
    using assms unfolding scope_rules_def Let_def
    by (cases "lc_table e \<in> set ?rc"; cases "lc_table e = ''sync_meta''"; cases "lc_table e = ''merkle_epochs''";
        cases "lc_table e = ''attest_validator_stats''"; cases "lc_table e = ''price_snapshots''"; cases first)
       (auto split: if_splits)
  then show ?thesis
  proof cases
    case 1
    show ?thesis unfolding 1(2,3)
      by (rule step_for_deletes[of _ _ ?rc]) (use 1(1) in \<open>auto simp: orphan_steps_def delete_rollcalls_def SCOPE_COLUMNS_def\<close>)
  next
    case 2
    show ?thesis unfolding 2(2,3) by (rule step_for_from) (use 2(1) in \<open>auto simp: orphan_steps_def SCOPE_COLUMNS_def\<close>)
  next
    case 3
    show ?thesis unfolding 3(1,3,4)
      by (rule step_forI[OF _ establishes_prices[OF 3(2)] price_by_scope]) (simp_all add: orphan_steps_def)
  next
    case 4
    have P: "by_scope P" "lc_table e \<noteq> ''balances''" using 4(2) by (auto simp: hub_rules_def hub_by_scope split: if_splits)
    show ?thesis
      by (rule step_forI[OF _ establishes_hub[OF 4(2)] P]) (simp add: orphan_steps_def when_some_def 4(1))
  qed
qed

lemma unwound_after:
  assumes "delete_orphans cfg h first truncated pairs s1 = (None, s2)" "ss_faults s1 = []" "e \<in> set TABLES"
    and "scoped cfg h first (ss_store s1) e"
  shows "unwound cfg h first (ss_store s2) e"
proof -
  have "gone (lc_table e) P (ss_store s2)" if "(refs, P) \<in> set (scope_rules cfg h first e)" for refs P
  proof -
    have "step_for (orphan_steps cfg h first truncated pairs) refs (lc_table e) P"
      using mirror_step[OF assms(3) _ that] bespoke_step[OF _ that] by blast
    then obtain q where q: "q \<in> set (orphan_steps cfg h first truncated pairs)" "establishes q refs (lc_table e) P" "by_scope P" "lc_table e \<noteq> ''balances''"
      unfolding step_for_def by blast
    have "ready (ss_store s1) (lc_table e) refs" using assms(4) that by (auto simp: scoped_def list_all_iff)
    moreover have "establishes (delete_orphans cfg h first truncated pairs) refs (lc_table e) P"
      unfolding delete_orphans_def by (rule establishes_member[OF q(1) orphan_steps_keep q(2,4,3)])
    ultimately show ?thesis using assms(1,2) unfolding establishes_def by blast
  qed
  then show ?thesis by (auto simp: unwound_def list_all_iff)
qed

lemma aggregates_keep: "keeps shrinks (recompute_aggregates cfg ticks)"
proof -
  have b: "keeps shrinks (rebuildBalances cast scope)" for cast scope
    unfolding rebuildBalances_def by (auto intro!: shrink_rules intro: on_rows_shrinks)
  have s: "keeps shrinks (recomputeTokenSupplies cast)" for cast
    unfolding recomputeTokenSupplies_def Let_def by (auto intro!: shrink_rules simp: SCOPE_COLUMNS_def split: if_splits)
  have f: "\<forall>c \<in> set SCOPE_COLUMNS. c \<notin> set FOLD_COLUMNS" by code_simp
  have r: "keeps shrinks (refoldTokenRows render ticks)" for render
    unfolding refoldTokenRows_def
    by (intro shrink.fold_parts_keeps shrink.anchor_parts_keeps shrink.in_order_keeps)
       (use f in \<open>auto intro!: shrink_rules simp: write_columns_def split: if_splits\<close>)
  show ?thesis unfolding recompute_aggregates_def using b s r by (auto intro!: shrink_rules)
qed

lemmas schema_rules = schema.statement_keeps schema.reading_keeps schema.reading_or_keeps schema.in_order_keeps schema.tolerating_keeps
  schema.guarded_keeps schema.when_some_keeps

lemma insert_ignore_schema: "same_schema st (fold (\<lambda>d. insert_missing t key (f d)) ds st)"
proof (induction ds arbitrary: st)
  case (Cons d ds)
  have "same_schema st (insert_missing t key (f d) st)" unfolding insert_missing_def by (rule on_rows_schema)
  then show ?case using Cons schema.trans by auto
qed (simp add: schema.refl)

lemma reset_survivors_schema: "keeps same_schema (reset_survivors cfg h first)"
  unfolding reset_survivors_def delete_emissions_def reset_attests_def reset_xcalls_def reopen_polls_def rearm_poll_callbacks_def reset_bets_def
    restore_contract_slashes_def restore_rotations_def restore_capability_slashes_def restore_from_def reset_deactivations_def restore_anchor_rewards_def
    reset_archive_heads_def reset_batch_heads_def reverseCooldownMaturities_def deleteCapabilityMaturityLedgerRows_def deleteContractMaturityLedgerRows_def
    reopen_matured_def Let_def
  by (auto intro!: schema_rules insert_ignore_schema split: option.split)

text \<open>The reads between the resets and the deletes change nothing.\<close>

lemma collect_ticks_reaches:
  assumes "collect_ticks first ts found k ss = (None, ss')" "ss_faults ss = []"
  shows "\<exists>ticks s. k ticks s = (None, ss') \<and> ss_store s = ss_store ss \<and> ss_faults s = []"
  using assms
proof (induction ts arbitrary: found ss)
  case (Cons t ts)
  show ?case
  proof (cases "refoldTickQuery t")
    case (Some x)
    obtain refs column counts where x: "x = (refs, column, counts)" by (cases x)
    obtain a s1 where a: "answer refs ss = (a, s1)" by fastforce
    then have s: "ss_store s1 = ss_store ss" "ss_faults s1 = []" using Cons.prems(2) by (auto simp: answer_def)
    from Cons.prems(1) obtain found' where "collect_ticks first ts found' k s1 = (None, ss')"
      by (cases a) (auto simp: Some x reading_or_def a split: if_splits)
    from Cons.IH[OF this s(2)] show ?thesis unfolding s(1) .
  qed (use Cons in auto)
qed auto

lemma rollback_body_split:
  assumes "rollback_body cfg h first truncated pairs ss = (None, ss')" "ss_faults ss = []"
  obtains s0 s1 ticks s2 where "reset_survivors cfg h first ss = (None, s0)" "ss_store s1 = ss_store s0" "same_schema (ss_store ss) (ss_store s1)" "ss_faults s1 = []"
    "delete_orphans cfg h first truncated pairs s1 = (None, s2)" "ss_faults s2 = []" "recompute_aggregates cfg ticks s2 = (None, ss')"
proof -
  obtain a s0 where r: "reset_survivors cfg h first ss = (a, s0)" by fastforce
  then have a: "a = None" using assms(1) by (cases a) (auto simp: rollback_body_def)
  have s0: "ss_faults s0 = []" "same_schema (ss_store ss) (ss_store s0)"
    using reset_survivors_schema assms(2) r unfolding keeps_def by blast+
  let ?k = "\<lambda>ticks. in_order [delete_orphans cfg h first truncated pairs, recompute_aggregates cfg ticks]"
  have "with_refold_ticks first ?k s0 = (None, ss')"
    using assms(1) r a by (auto simp: rollback_body_def split: prod.splits option.splits)
  then have w: "(case first of None \<Rightarrow> ?k [] | Some f \<Rightarrow> collect_ticks f (rl_data replicaRollbackTables) [] ?k) s0 = (None, ss')"
    unfolding with_refold_ticks_def collectRefoldTickIds_def .
  have "\<exists>ticks s1. ?k ticks s1 = (None, ss') \<and> ss_store s1 = ss_store s0 \<and> ss_faults s1 = []"
  proof (cases "\<exists>f. first = Some f")
    case False
    then have "first = None" by auto
    then have "?k [] s0 = (None, ss')" using w by (simp only: option.case)
    then show ?thesis using s0(1) by blast
  next
    case True
    then obtain f where f: "first = Some f" by blast
    then have "collect_ticks f (rl_data replicaRollbackTables) [] ?k s0 = (None, ss')" using w by (simp only: option.case)
    from collect_ticks_reaches[OF this s0(1)] show ?thesis .
  qed
  then obtain ticks s1 where k: "?k ticks s1 = (None, ss')" "ss_store s1 = ss_store s0" "ss_faults s1 = []" by blast
  obtain b s2 where d: "delete_orphans cfg h first truncated pairs s1 = (b, s2)" by fastforce
  have "b = None" "recompute_aggregates cfg ticks s2 = (None, ss')" using k(1) d by (cases b; auto split: prod.splits option.splits)+
  moreover have "ss_faults s2 = []"
    using d k(3) delete_orphans_keeps unfolding keeps_def by blast
  ultimately show thesis using that r a k s0 d by metis
qed

text \<open>The whole rollback, undisturbed.\<close>

lemma undisturbed_simps:
  "answer refs (at_rest st) = (schema_gap st refs, at_rest st)"
  "reading refs f k (at_rest st) = (case schema_gap st refs of Some e \<Rightarrow> (Some e, at_rest st) | None \<Rightarrow> k (f st) (at_rest st))"
  "reading_or none refs f g (at_rest st) = (case schema_gap st refs of
     Some e \<Rightarrow> if isSchemaGapError e then g none (at_rest st) else (Some e, at_rest st) | None \<Rightarrow> g (f' st) (at_rest st))"
  if "f = f'"
  using that by (auto simp: answer_def at_rest_def reading_def reading_or_def split: option.split)

lemma in_transaction_committed:
  assumes "in_transaction q (at_rest st) = (None, ss')"
  shows "\<exists>s2. q (at_rest st) = (None, s2) \<and> ss_store ss' = ss_store s2"
proof -
  obtain a s2 where q: "q (at_rest st) = (a, s2)" by fastforce
  obtain c s3 where c: "answer [] s2 = (c, s3)" by fastforce
  have "answer [] (at_rest st) = (None, at_rest st)" by (simp add: answer_def at_rest_def schema_gap_def)
  then show ?thesis using assms q c answer_store[OF c] by (cases a; cases c) (auto simp: in_transaction_def)
qed

lemma rollback_split:
  assumes "rollbackIndexer cfg h (at_rest st) = (None, ss')"
  obtains truncated pairs s2 where
    "rollback_body cfg h (getFirstActionIndex h st) truncated pairs (at_rest st) = (None, s2)" "ss_store ss' = ss_store s2"
proof -
  let ?R = "\<lambda>truncated pairs. in_transaction (rollback_body cfg h (getFirstActionIndex h st) truncated pairs) (at_rest st) = (None, ss')"
  have e: "schema_gap st [] = None" by (simp add: schema_gap_def)
  have "\<exists>truncated pairs. ?R truncated pairs"
  proof (cases "getFirstActionIndex h st")
    case None
    then show ?thesis using assms unfolding rollbackIndexer_def undisturbed_simps(2)[OF HOL.refl] e by (auto split: option.splits)
  next
    case (Some f)
    then show ?thesis
      using assms unfolding rollbackIndexer_def undisturbed_simps(2)[OF HOL.refl] e
      by (auto simp: undisturbed_simps(3)[OF HOL.refl] split: option.splits if_splits)
  qed
  then show thesis using in_transaction_committed that by blast
qed

lemma scoped_schema: "same_schema a b \<Longrightarrow> scoped cfg h first a e \<Longrightarrow> scoped cfg h first b e"
  using ready_schema by (auto simp: scoped_def list_all_iff)

lemma unwound_shrinks:
  assumes "shrinks a b" "unwound cfg h first a e" "e \<in> set TABLES"
  shows "unwound cfg h first b e"
proof -
  have "by_scope P \<and> lc_table e \<noteq> ''balances''" if "(refs, P) \<in> set (scope_rules cfg h first e)" for refs P
    using mirror_step[OF assms(3) _ that] bespoke_step[OF _ that] unfolding step_for_def by blast
  then show ?thesis using assms(2) gone_shrinks[OF assms(1)] by (fastforce simp: unwound_def list_all_iff)
qed

subsection \<open>Emissions\<close>

text \<open>The emissions go first, while the executions they belong to are still there; no other reset writes the table.\<close>

definition keeps_emissions :: "store \<Rightarrow> store \<Rightarrow> bool" where
  "keeps_emissions a b \<longleftrightarrow> rows_of b ''contract_emissions'' = rows_of a ''contract_emissions''"

interpretation emissions: preorder_on_stores keeps_emissions
  by unfold_locales (auto simp: keeps_emissions_def)

lemma other_rows_keep [intro!]: "t \<noteq> ''contract_emissions'' \<Longrightarrow> keeps_emissions st (on_rows t f st)"
  by (simp add: keeps_emissions_def rows_of_on_rows)

lemma other_writes_keep:
  "t \<noteq> ''contract_emissions'' \<Longrightarrow> keeps_emissions st (update_rows t f st)" "t \<noteq> ''contract_emissions'' \<Longrightarrow> keeps_emissions st (delete_rows t P st)"
  unfolding update_rows_def delete_rows_def by auto

lemma inserts_keep: "t \<noteq> ''contract_emissions'' \<Longrightarrow> keeps_emissions st (fold (\<lambda>d. insert_missing t key (f d)) ds st)"
proof (induction ds arbitrary: st)
  case (Cons d ds)
  have "keeps_emissions st (insert_missing t key (f d) st)" unfolding insert_missing_def using Cons.prems by (rule other_rows_keep)
  then show ?case using Cons emissions.trans by auto
qed (simp add: emissions.refl)

lemmas emission_rules = emissions.statement_keeps emissions.reading_keeps emissions.reading_or_keeps emissions.in_order_keeps
  emissions.tolerating_keeps emissions.guarded_keeps emissions.when_some_keeps

lemma later_resets_keep:
  "keeps keeps_emissions (in_order (tl [when_some first delete_emissions, reset_attests h, reset_xcalls h, reopen_polls h, rearm_poll_callbacks h, reset_bets h,
      restore_contract_slashes (rc_cast cfg) h, restore_rotations h, restore_capability_slashes h, reset_deactivations cfg h,
      restore_anchor_rewards h, reverseCooldownMaturities cfg h, when_some first (reset_archive_heads cfg h), when_some first reset_batch_heads]))"
  unfolding reset_attests_def reset_xcalls_def reopen_polls_def rearm_poll_callbacks_def reset_bets_def
    restore_contract_slashes_def restore_rotations_def restore_capability_slashes_def restore_from_def reset_deactivations_def restore_anchor_rewards_def
    reset_archive_heads_def reset_batch_heads_def reverseCooldownMaturities_def deleteCapabilityMaturityLedgerRows_def deleteContractMaturityLedgerRows_def
    reopen_matured_def Let_def
  by (auto intro!: emission_rules inserts_keep other_writes_keep split: option.split)

lemma delete_emissions_gone:
  assumes "ss_faults ss = []" "when_some first delete_emissions ss = (None, s1)"
  shows "gone ''contract_emissions'' (orphan_emission first (ss_store ss)) (ss_store s1)" "ss_faults s1 = []"
proof -
  let ?st = "ss_store ss"
  let ?refs = "[(''contract_emissions'', [''execution_index'']), (''contract_executions'', [''action_index''])]"
  have "gone ''contract_emissions'' (orphan_emission first ?st) (ss_store s1) \<and> ss_faults s1 = []"
  proof (cases first)
    case None
    then show ?thesis using assms by (auto simp: when_some_def gone_def orphan_emission_def list_all_iff)
  next
    case (Some n)
    have o: "orphan_emission (Some n) = (\<lambda>st r. any_row st ''contract_executions''
        (\<lambda>x. cell_ge (x ''action_index'') n \<and> cell_eq (r ''execution_index'') (x ''action_index'')))"
      by (intro ext) (simp add: orphan_emission_def)
    show ?thesis
    proof (cases "schema_gap ?st ?refs")
      case None
      then have "s1 = ss\<lparr>ss_store := delete_rows ''contract_emissions'' (\<lambda>st. orphan_emission first st) ?st\<rparr>"
        using assms Some by (auto simp: when_some_def delete_emissions_def tolerating_def quiet_statement o)
      then show ?thesis using assms(1) by (simp add: delete_rows_def gone_filtered)
    next
      case gap: (Some e)
      then have "e = 1146" "s1 = ss"
        using assms Some by (auto simp: when_some_def delete_emissions_def tolerating_def quiet_statement split: if_splits)
      then have "?st ''contract_emissions'' = None \<or> ?st ''contract_executions'' = None"
        using gap by (auto simp: schema_gap_def split: if_splits)
      then show ?thesis
        using assms(1) \<open>s1 = ss\<close> Some gone_missing by (auto simp: gone_def orphan_emission_def any_row_def rows_of_def list_all_iff)
    qed
  qed
  then show "gone ''contract_emissions'' (orphan_emission first ?st) (ss_store s1)" "ss_faults s1 = []" by blast+
qed

lemma emission_by_scope: "by_scope (orphan_emission first st)"
  by (auto simp: by_scope_def same_scope_def SCOPE_COLUMNS_def orphan_emission_def split: option.split)

lemma resets_drop_emissions:
  assumes "reset_survivors cfg h first ss = (None, s0)" "ss_faults ss = []"
  shows "gone ''contract_emissions'' (orphan_emission first (ss_store ss)) (ss_store s0)"
proof -
  let ?rest = "tl [when_some first delete_emissions, reset_attests h, reset_xcalls h, reopen_polls h, rearm_poll_callbacks h, reset_bets h,
      restore_contract_slashes (rc_cast cfg) h, restore_rotations h, restore_capability_slashes h, reset_deactivations cfg h,
      restore_anchor_rewards h, reverseCooldownMaturities cfg h, when_some first (reset_archive_heads cfg h), when_some first reset_batch_heads]"
  have eq: "reset_survivors cfg h first = in_order (when_some first delete_emissions # ?rest)" by (simp add: reset_survivors_def)
  obtain a s1 where a: "when_some first delete_emissions ss = (a, s1)" by fastforce
  then have n: "a = None" "in_order ?rest s1 = (None, s0)" using assms(1) unfolding eq by (cases a; simp)+
  note g = delete_emissions_gone[OF assms(2) a[unfolded n(1)]]
  have "keeps_emissions (ss_store s1) (ss_store s0)"
    using later_resets_keep[of first h cfg] n(2) g(2) unfolding keeps_def by blast
  then show ?thesis using g(1) by (simp add: gone_def keeps_emissions_def)
qed

text \<open>(C10) After a committed rollback to a height, whatever faults the server answered with on the way, no orphaned row is left
  in a table that the replica unwinds by row.  That is: no row at or above the height in the tables the registry mirrors by
  block (the state tree roots among them, and the validator rewards also by the block that derived them), in the reproducible lookups, the roll calls, the sync
  metadata, the Merkle epochs (by their end) and the attest statistics; no row at or above the first orphaned action in the
  tables it mirrors by action; no contract emission of an orphaned execution; no price round of the reference chain at or
  above the height on Bitcoin; and no oracle price, cross-chain call, match or bridge transfer of an orphaned action of this
  chain.  Not claimed: the swept icons, markets and public keys, and the recomputed balances and supplies.  The tables that
  exist have the columns their statements name.\<close>

theorem rollback_removes_orphans:
  assumes "honest_faults ss" "rollbackIndexer cfg h ss = (None, ss')"
    and "list_all (scoped cfg h (getFirstActionIndex h (ss_store ss)) (ss_store ss)) TABLES"
  shows "list_all (unwound cfg h (getFirstActionIndex h (ss_store ss)) (ss_store ss')) TABLES \<and>
    gone ''contract_emissions'' (orphan_emission (getFirstActionIndex h (ss_store ss)) (ss_store ss)) (ss_store ss')"
proof -
  let ?first = "getFirstActionIndex h (ss_store ss)"
  have "rollbackIndexer cfg h (at_rest (ss_store ss)) = (None, at_rest (ss_store ss'))"
    using firm_cases(2)[OF rollbackIndexer_firm assms(1,2)] by simp
  from rollback_split[OF this] obtain truncated pairs s2 where
    s: "rollback_body cfg h ?first truncated pairs (at_rest (ss_store ss)) = (None, s2)" "ss_store ss' = ss_store s2"
    by (metis session.select_convs(1) at_rest_def)
  have u: "ss_store (at_rest (ss_store ss)) = ss_store ss" "ss_faults (at_rest (ss_store ss)) = []" by (simp_all add: at_rest_def)
  from rollback_body_split[OF s(1) u(2)] obtain s0 s3 ticks s4 where
    r: "reset_survivors cfg h ?first (at_rest (ss_store ss)) = (None, s0)" "ss_store s3 = ss_store s0" and
    b: "same_schema (ss_store ss) (ss_store s3)" "ss_faults s3 = []" "delete_orphans cfg h ?first truncated pairs s3 = (None, s4)" "ss_faults s4 = []"
      "recompute_aggregates cfg ticks s4 = (None, s2)" unfolding u(1) by metis
  have later: "shrinks (ss_store s4) (ss_store s2)" "shrinks (ss_store s3) (ss_store s4)"
    using aggregates_keep delete_orphans_keeps b(2-5) unfolding keeps_def by blast+
  have "unwound cfg h ?first (ss_store s2) e" if "e \<in> set TABLES" for e
    using unwound_shrinks[OF later(1) unwound_after[OF b(3,2) that] that] scoped_schema[OF b(1)] assms(3) that by (simp add: list_all_iff)
  moreover have "gone ''contract_emissions'' (orphan_emission ?first (ss_store ss)) (ss_store s2)"
    using gone_shrinks[OF shrink.trans[OF later(2,1)] _ _ emission_by_scope] resets_drop_emissions[OF r(1) u(2)] r(2) u(1) by simp
  ultimately show ?thesis unfolding s(2) list_all_iff by blast
qed

text \<open>A replica with two blocks, of which the higher one is orphaned, with an execution and its emission.\<close>

definition demo_row_replica :: store where
  "demo_row_replica = [''actions'' \<mapsto> demo_table [''action_index'', ''block_index''] [[(''action_index'', CNum 1), (''block_index'', CNum 4)], [(''action_index'', CNum 2), (''block_index'', CNum 5)]],
     ''blocks'' \<mapsto> demo_table [''block_index''] [[(''block_index'', CNum 4)], [(''block_index'', CNum 5)]],
     ''contract_executions'' \<mapsto> demo_table [''action_index''] [[(''action_index'', CNum 2)]],
     ''contract_emissions'' \<mapsto> demo_table [''execution_index''] [[(''execution_index'', CNum 2)]]]"

theorem rollback_removes_orphans_witness:
  "fst (rollbackIndexer demo_cfg 5 (at_rest demo_row_replica)) = None \<and> getFirstActionIndex 5 demo_row_replica = Some 2 \<and>
   list_all (unwound demo_cfg 5 (Some 2) (ss_store (snd (rollbackIndexer demo_cfg 5 (at_rest demo_row_replica))))) TABLES \<and>
   gone ''contract_emissions'' (orphan_emission (Some 2) demo_row_replica) (ss_store (snd (rollbackIndexer demo_cfg 5 (at_rest demo_row_replica))))"
proof -
  have h: "honest_faults (at_rest demo_row_replica)" by code_simp
  have n: "fst (rollbackIndexer demo_cfg 5 (at_rest demo_row_replica)) = None" by code_simp
  have f: "getFirstActionIndex 5 demo_row_replica = Some 2" by code_simp
  have c: "list_all (scoped demo_cfg 5 (Some 2) demo_row_replica) TABLES" by code_simp
  have u: "ss_store (at_rest demo_row_replica) = demo_row_replica" by (simp add: at_rest_def)
  have r: "rollbackIndexer demo_cfg 5 (at_rest demo_row_replica) = (None, snd (rollbackIndexer demo_cfg 5 (at_rest demo_row_replica)))"
    using n by (metis prod.collapse)
  show ?thesis using rollback_removes_orphans[OF h r] n c f unfolding u f by blast
qed

end
