(* ===== verification/Ledger_Proofs.thy ===== *)
theory Ledger_Proofs
  imports Rollback_Scope
begin

text \<open>
  When the balances of a replica are those of its ledger rows, and what a rebuild leaves: whole, or inside the rectangle of
  touched addresses and ticks.
\<close>

section \<open>Exact balances\<close>

definition balance_view :: "row \<Rightarrow> (cell \<times> cell) \<times> cell" where
  "balance_view r = (row_pair r, r ''amount'')"

definition balances_exact :: "(string \<Rightarrow> int) \<Rightarrow> store \<Rightarrow> bool" where
  "balances_exact cast st \<longleftrightarrow>
     distinct (map row_pair (rows_of st ''balances'')) \<and>
     set (map balance_view (rows_of st ''balances'')) = set (map balance_view (grouped_rows cast None st))"

lemma balance_row_view [simp]: "row_pair (balance_row p a) = p" "balance_row p a ''amount'' = CText a"
  by (simp_all add: row_pair_def balance_row_def)

lemma pair_sum_nonzero: "pair_sum cast rows p \<noteq> 0 \<Longrightarrow> p \<in> set (map row_pair rows)"
  by (induction rows) (auto simp: pair_sum_def split: if_splits)

lemma pair_net_nonzero: "pair_net cast st p \<noteq> 0 \<Longrightarrow> p \<in> set (map row_pair (rows_of st ''credits'' @ rows_of st ''debits''))"
  using pair_sum_nonzero[of cast "rows_of st ''credits''" p] pair_sum_nonzero[of cast "rows_of st ''debits''" p]
  by (cases "pair_sum cast (rows_of st ''credits'') p = 0") (auto simp: pair_net_def)

lemma grouped_view:
  "set (map balance_view (grouped_rows cast scope st)) =
     (\<lambda>p. (p, CText (minimalDecimal (pair_net cast st p)))) ` {p. in_scope scope p \<and> pair_net cast st p \<noteq> 0}"
  using pair_net_nonzero[of cast st] by (auto simp: grouped_rows_def balance_view_def image_iff)

lemma grouped_pairs: "map row_pair (grouped_rows cast scope st) =
    filter (\<lambda>p. in_scope scope p \<and> pair_net cast st p \<noteq> 0) (remdups (map row_pair (rows_of st ''credits'' @ rows_of st ''debits'')))"
  by (simp add: grouped_rows_def comp_def)

text \<open>The rows a rebuild leaves, when nothing outside its scope has moved since the balances were exact.\<close>

lemma rebuilt_exact:
  assumes "rows_of st' ''balances'' = filter (\<lambda>r. \<not> in_scope scope (row_pair r)) bal @ grouped_rows cast scope st'"
    and "distinct (map row_pair bal)"
    and "\<And>p. \<not> in_scope scope p \<Longrightarrow> (\<forall>v. (p, v) \<in> set (map balance_view bal) \<longleftrightarrow> pair_net cast st' p \<noteq> 0 \<and> v = CText (minimalDecimal (pair_net cast st' p)))"
  shows "balances_exact cast st'"
proof -
  have d: "distinct (map row_pair (rows_of st' ''balances''))"
    using assms(2) unfolding assms(1) map_append distinct_append grouped_pairs
    by (auto simp: distinct_map_filter)
  have "(p, v) \<in> set (map balance_view (rows_of st' ''balances'')) \<longleftrightarrow> pair_net cast st' p \<noteq> 0 \<and> v = CText (minimalDecimal (pair_net cast st' p))" for p v
  proof (cases "in_scope scope p")
    case True
    then have "(p, v) \<notin> set (map balance_view (filter (\<lambda>r. \<not> in_scope scope (row_pair r)) bal))" by (auto simp: balance_view_def)
    then show ?thesis using True unfolding assms(1) map_append set_append grouped_view by auto
  next
    case False
    have "(p, v) \<in> set (map balance_view (filter (\<lambda>r. \<not> in_scope scope (row_pair r)) bal)) \<longleftrightarrow> (p, v) \<in> set (map balance_view bal)"
      using False by (auto simp: balance_view_def)
    then show ?thesis using False assms(3)[OF False] unfolding assms(1) map_append set_append grouped_view by auto
  qed
  then have "x \<in> set (map balance_view (rows_of st' ''balances'')) \<longleftrightarrow> x \<in> set (map balance_view (grouped_rows cast None st'))" for x
    unfolding grouped_view by (cases x) (auto simp: in_scope_def)
  then have "set (map balance_view (rows_of st' ''balances'')) = set (map balance_view (grouped_rows cast None st'))" by blast
  then show ?thesis using d by (simp add: balances_exact_def)
qed

lemma exact_view:
  assumes "balances_exact cast st"
  shows "(p, v) \<in> set (map balance_view (rows_of st ''balances'')) \<longleftrightarrow> pair_net cast st p \<noteq> 0 \<and> v = CText (minimalDecimal (pair_net cast st p))"
  using assms unfolding balances_exact_def grouped_view by (auto simp: in_scope_def)

section \<open>Rebuilds\<close>

definition ledger_tables :: "store \<Rightarrow> bool" where
  "ledger_tables st \<longleftrightarrow> list_all (\<lambda>t. case st t of None \<Rightarrow> False | Some x \<Rightarrow> set LEDGER_COLUMNS \<subseteq> set (tb_columns x)) [''balances'', ''credits'', ''debits'']"

lemma ledger_tables_schema: "same_schema a b \<Longrightarrow> ledger_tables a \<Longrightarrow> ledger_tables b"
proof -
  assume a: "same_schema a b" "ledger_tables a"
  have "map_option tb_columns (a t) = map_option tb_columns (b t)" for t using a(1) by (simp add: same_schema_def)
  then have "(case b t of None \<Rightarrow> False | Some x \<Rightarrow> set LEDGER_COLUMNS \<subseteq> set (tb_columns x)) = (case a t of None \<Rightarrow> False | Some x \<Rightarrow> set LEDGER_COLUMNS \<subseteq> set (tb_columns x))" for t
    by (cases "a t"; cases "b t") (metis option.map_disc_iff option.distinct(1), metis option.map_disc_iff option.distinct(1), metis option.map_disc_iff option.distinct(1),
      metis option.map(2) option.inject option.case(2))
  then show ?thesis using a(2) by (simp add: ledger_tables_def list_all_iff)
qed

lemma rebuild_run:
  assumes "ledger_tables st" "\<not> (case scope of None \<Rightarrow> False | Some (addresses, ticks) \<Rightarrow> addresses = [] \<or> ticks = [])"
  shows "rebuildBalances cast scope (at_rest st) =
    (None, at_rest (on_rows ''balances'' (\<lambda>rows. filter (\<lambda>r. \<not> in_scope scope (row_pair r)) rows @ grouped_rows cast scope st) st))"
proof -
  let ?d = "delete_rows ''balances'' (\<lambda>st r. in_scope scope (row_pair r)) st"
  obtain x where x: "st ''balances'' = Some x" using assms(1) by (auto simp: ledger_tables_def split: option.splits)
  have g: "schema_gap st [(''balances'', if scope = None then [] else [''address_id'', ''tick_id''])] = None"
    "schema_gap st [(''balances'', LEDGER_COLUMNS), (''credits'', LEDGER_COLUMNS), (''debits'', LEDGER_COLUMNS)] = None"
    using assms(1) by (auto simp: schema_gap_def ledger_tables_def LEDGER_COLUMNS_def split: option.splits)
  have same: "rows_of ?d ''credits'' = rows_of st ''credits''" "rows_of ?d ''debits'' = rows_of st ''debits''"
    by (simp_all add: delete_rows_def rows_of_on_rows)
  have n: "pair_net cast ?d = pair_net cast st" by (intro ext) (simp add: pair_net_def same)
  have gr: "grouped_rows cast scope ?d = grouped_rows cast scope st" by (simp add: grouped_rows_def n same)
  have "on_rows ''balances'' (\<lambda>rows. rows @ grouped_rows cast scope ?d) ?d =
      on_rows ''balances'' (\<lambda>rows. filter (\<lambda>r. \<not> in_scope scope (row_pair r)) rows @ grouped_rows cast scope st) st"
    unfolding gr unfolding delete_rows_def on_rows_twice by (simp add: comp_def)
  moreover have "statement refs eff (at_rest s) = (case schema_gap s refs of Some e \<Rightarrow> (Some e, at_rest s) | None \<Rightarrow> (None, at_rest (eff s)))" for refs eff s
    by (auto simp: statement_def answer_def at_rest_def split: option.split)
  ultimately show ?thesis
    using assms(2) g by (simp add: rebuildBalances_def delete_rows_def schema_gap_on_rows)
qed

lemma collect_scope_covers:
  assumes "collect_scope key keys ticks rows = Some (keys', ticks')" "r \<in> set rows"
  shows "r key \<noteq> CNull \<and> r key \<in> set keys' \<and> r ''tick_id'' \<noteq> CNull \<and> r ''tick_id'' \<in> set ticks'"
proof -
  have mono: "set ks \<subseteq> set keys' \<and> set tk \<subseteq> set ticks'" if "collect_scope key ks tk xs = Some (keys', ticks')" for ks tk xs
    using that
  proof (induction xs arbitrary: ks tk)
    case (Cons x xs)
    then have "collect_scope key (add_new (x key) ks) (add_new (x ''tick_id'') tk) xs = Some (keys', ticks')" by (auto simp: Let_def split: if_splits)
    from Cons.IH[OF this] show ?case by (auto simp: add_new_def split: if_splits)
  qed simp
  show ?thesis
    using assms
  proof (induction rows arbitrary: keys ticks)
    case (Cons x xs)
    then have c: "x key \<noteq> CNull" "x ''tick_id'' \<noteq> CNull"
      "collect_scope key (add_new (x key) keys) (add_new (x ''tick_id'') ticks) xs = Some (keys', ticks')"
      by (auto simp: Let_def split: if_splits)
    show ?case
    proof (cases "r = x")
      case True
      then show ?thesis using mono[OF c(3)] c(1,2) by (auto simp: add_new_def split: if_splits)
    next
      case False
      then show ?thesis using Cons.IH[OF c(3)] Cons.prems(2) by simp
    qed
  qed simp
qed

lemma collect_scope_nonempty:
  assumes "collect_scope key keys ticks rows = Some (keys', ticks')" "keys = [] \<longleftrightarrow> ticks = []"
  shows "keys' = [] \<longleftrightarrow> ticks' = []"
  using assms by (induction rows arbitrary: keys ticks) (auto simp: Let_def add_new_def split: if_splits)

end
