(* ===== verification/Applier_Proofs.thy ===== *)
theory Applier_Proofs
  imports Block_Applier Ledger_Proofs
begin

text \<open>
  What the transactions of a replica leave behind, whatever the server answers on the way: each is applied whole or not at all, and the
  balances are those of the ledger rows over every run of live blocks, snapshots and rollbacks.
\<close>

section \<open>All or nothing\<close>

datatype replica_op =
    LiveBlock block_payload
  | Incremental bool snapshot_payload
  | FullSnapshot snapshot_payload
  | Dispensers "wire_row list option"
  | RollBack int

definition run_op :: "applier_cfg \<Rightarrow> rollback_cfg \<Rightarrow> replica_op \<Rightarrow> query" where
  "run_op cfg rc op =
     (case op of
        LiveBlock p \<Rightarrow> apply_block_payload cfg p
      | Incremental strict s \<Rightarrow> applyIncrementalSnapshot cfg strict s
      | FullSnapshot s \<Rightarrow> applyFullSnapshot cfg s
      | Dispensers rows \<Rightarrow> applyDispensersReplace cfg rows
      | RollBack h \<Rightarrow> rollback rc (bc_dbType cfg) h)"

lemma asking_firm [intro!]: "firm q \<Longrightarrow> firm (asking q)"
  unfolding asking_def by (rule reading_firm)

lemma deleteRowById_firm [intro!]: "firm (deleteRowById t i)"
  unfolding deleteRowById_def by (rule statement_firm)

lemma then_firm:
  assumes "firm p" "firm q"
  shows "firm (\<lambda>ss. case p ss of (Some e, s1) \<Rightarrow> (Some e, s1) | (None, s1) \<Rightarrow> q s1)"
proof -
  have "(\<lambda>ss. case p ss of (Some e, s1) \<Rightarrow> (Some e, s1) | (None, s1) \<Rightarrow> q s1) = in_order [p, q]"
    by (auto intro!: ext split: prod.split option.split)
  then show ?thesis using in_order_firm[of "[p, q]"] assms by auto
qed

lemma finds_firm: "(\<And>x. firm (k x)) \<Longrightarrow> firm (findRowIdById t i k)" "(\<And>x. firm (k x)) \<Longrightarrow> firm (findRowIdsByKeyColumns t cols vs k)"
  unfolding findRowIdById_def findRowIdsByKeyColumns_def by (rule reading_firm, simp)+

lemma retire_row_firm: "(\<And>x. firm (k x)) \<Longrightarrow> firm (retire_row t carried cols rows retired k)"
  by (induction rows arbitrary: retired)
     (auto simp: Let_def intro!: finds_firm then_firm split: option.split list.split)

lemma retire_keys_firm: "(\<And>x. firm (k x)) \<Longrightarrow> firm (retire_keys cfg t carried batch names retired k)"
  by (induction names arbitrary: retired) (auto simp: Let_def intro!: retire_row_firm)

lemma lookup_conflicts_firm: "(\<And>x. firm (k x)) \<Longrightarrow> firm (lookup_conflicts t cols rows found k)"
  by (induction rows arbitrary: found) (auto intro!: finds_firm split: option.split)

lemma reconcile_firm [intro!]: "firm (reconcileLookupRows t rows cols)"
  unfolding reconcileLookupRows_def by (auto intro!: lookup_conflicts_firm in_order_firm)

lemma insert_batch_firm [intro!]: "firm (insert_batch cfg opts t cols rows batch)"
  unfolding insert_batch_def strict_check_def retireStaleNaturalKeyRows_def Let_def
  by (auto intro!: insertRowValues_firm retire_keys_firm in_order_firm failing_firm)

lemma insertRows_firm [intro!]: "firm (insertRows cfg opts t rows)"
  unfolding insertRows_def deleteRowsByKeyValues_def
  by (auto intro!: in_order_firm failing_firm statement_firm split: option.split prod.split)

lemma upsertRows_firm [intro!]: "firm (upsertRows cfg t rows)"
  unfolding upsertRows_def by (auto intro!: in_order_firm failing_firm insertRowValues_firm split: option.split)

lemma updated_firm [intro!]: "firm (applyUpdatedRows cfg updated)"
  unfolding applyUpdatedRows_def by (auto intro!: in_order_firm)

lemma mirror_firm [intro!]: "firm (mirrorAnchorRewardReconcile P)"
  unfolding mirrorAnchorRewardReconcile_def by (intro guarded_firm statement_firm)

lemma escrow_gate_firm: "firm rederiveEscrowGate"
  unfolding rederiveEscrowGate_def by (intro reading_firm in_order_firm) (auto intro!: reading_firm statement_firm)

lemma rederive_escrow_firm [intro!]: "firm (maybeRederiveEscrow tables)"
  unfolding maybeRederiveEscrow_def using guarded_firm[OF escrow_gate_firm] in_order_firm[of "[]"] by simp

lemma touched_firm [intro!]: "firm (rebuild_touched cfg tables)"
  unfolding rebuild_touched_def rebuildBalancesTouchedBy_def Let_def by (auto intro!: in_order_firm tolerating_1146_firm)

text \<open>The computation of the roots aborts the transaction on every error of the server.  It is a parameter of the applier; in
  \<^verbatim>\<open>state_commitment/index.js\<close> every read and write of it goes through \<^verbatim>\<open>doQueryStrict\<close>, which throws every error.\<close>

definition firm_roots :: "applier_cfg \<Rightarrow> bool" where
  "firm_roots cfg \<longleftrightarrow> (\<forall>b keys act. firm (bc_roots cfg b keys act)) \<and> (\<forall>h. firm (bc_seed cfg h))"

lemma commitment_firm: "firm_roots cfg \<Longrightarrow> firm (updateBlockStateCommitment cfg b data)"
  unfolding updateBlockStateCommitment_def collectSmtTouchedKeys_def Let_def by (auto intro!: firm_rules simp: firm_roots_def)

lemma steps_firm: "firm (in_order [])" "firm q \<Longrightarrow> firm (in_order qs) \<Longrightarrow> firm (in_order (q # qs))"
  "firm p \<Longrightarrow> firm q \<Longrightarrow> firm (if c then p else q)"
proof -
  show "firm (in_order [])" by (rule in_order_firm) simp
  show "firm (in_order (q # qs))" if "firm q" "firm (in_order qs)"
  proof -
    have "in_order (q # qs) = in_order [q, in_order qs]" by (auto intro!: ext split: prod.split option.split)
    then show ?thesis using in_order_firm[of "[q, in_order qs]"] that by auto
  qed
qed auto

lemma insert_tables_firm: "firm (in_order (map (\<lambda>t. insertRows cfg opts t (rows t)) ts))"
  by (rule in_order_firm) auto

lemma insert_block_firm: "firm (insertBlockRows cfg data)"
  unfolding insertBlockRows_def by (rule in_order_firm) auto

lemma insert_snapshot_firm: "firm (insertSnapshotTables cfg strict tables)"
proof -
  have r: "firm (case repairNaturalKeyColumns t of Some cols \<Rightarrow> if strict then reconcileLookupRows t rows cols else in_order [] | None \<Rightarrow> in_order [])" for t rows
    by (cases "repairNaturalKeyColumns t") (auto intro!: steps_firm)
  have "firm (snapshot_table_step cfg strict x)" for x unfolding snapshot_table_step_def by (cases x) (auto intro!: steps_firm r)
  then show ?thesis unfolding insertSnapshotTables_def by (intro in_order_firm) auto
qed

lemma clear_firm: "firm (in_order (map deleteAllRows ts))"
  by (rule in_order_firm) (auto simp: deleteAllRows_def intro!: statement_firm)

lemma live_block_firm:
  assumes "firm_roots cfg"
  shows "firm (apply_block_payload cfg p)"
proof -
  have "firm (applyBlockTransaction cfg b data updated)" for b data updated
    unfolding applyBlockTransaction_def applyIndexerBlockState_def
    by (intro in_transaction_firm steps_firm insert_block_firm updated_firm mirror_firm rederive_escrow_firm touched_firm commitment_firm[OF assms])
  then show ?thesis
    unfolding apply_block_payload_def
    by (auto intro!: steps_firm failing_firm reading_firm split: option.split)
qed

lemma incremental_firm:
  assumes "firm_roots cfg"
  shows "firm (applyIncrementalSnapshot cfg strict s)"
proof (cases "sn_tables s")
  case None
  then show ?thesis by (simp add: applyIncrementalSnapshot_def steps_firm)
next
  case (Some tables)
  have seed: "firm (bc_seed cfg h)" for h using assms by (simp add: firm_roots_def)
  have "firm (case sn_since s of Some since \<Rightarrow> if payload_rows tables ''anchor_reward_reconcile_log'' = [] then in_order [] else mirrorAnchorRewardReconcile (\<lambda>v. cell_ge v since)
      | None \<Rightarrow> in_order [])" by (cases "sn_since s") (auto intro!: steps_firm)
  then show ?thesis
    unfolding applyIncrementalSnapshot_def Some option.case
    by (intro in_transaction_firm steps_firm failing_firm insert_snapshot_firm updated_firm rederive_escrow_firm touched_firm seed)
qed

lemma full_firm:
  assumes "firm_roots cfg"
  shows "firm (applyFullSnapshot cfg s)"
proof (cases "sn_tables s")
  case None
  then show ?thesis by (simp add: applyFullSnapshot_def steps_firm)
next
  case (Some tables)
  have seed: "firm (bc_seed cfg h)" for h using assms by (simp add: firm_roots_def)
  show ?thesis
    unfolding applyFullSnapshot_def Some option.case Let_def deleteStateTreeRootsFromBlock_def
    by (intro in_transaction_firm steps_firm failing_firm asking_firm clear_firm insert_tables_firm guarded_firm statement_firm seed)
qed

lemma dispensers_firm: "firm (applyDispensersReplace cfg rows)"
  unfolding applyDispensersReplace_def deleteAllRows_def
  by (cases rows) (auto intro!: in_transaction_firm steps_firm statement_firm)

lemma run_op_firm: "firm_roots cfg \<Longrightarrow> firm (run_op cfg rc op)"
  using live_block_firm incremental_firm full_firm dispensers_firm rollback_firm by (cases op) (simp_all add: run_op_def)

lemma run_op_undone: "run_op cfg rc op ss = (Some e, ss') \<Longrightarrow> ss_store ss' = ss_store ss"
proof (cases op)
  case (LiveBlock p)
  assume "run_op cfg rc op ss = (Some e, ss')"
  then show ?thesis
    unfolding run_op_def apply_block_payload_def applyBlockTransaction_def using LiveBlock
    by (auto simp: failing_def split: option.splits if_splits elim!: reading_undone dest: in_transaction_undone)
next
  case (RollBack h)
  assume "run_op cfg rc op ss = (Some e, ss')"
  then show ?thesis using rollback_undone RollBack by (auto simp: run_op_def)
qed (auto simp: run_op_def applyIncrementalSnapshot_def applyFullSnapshot_def applyDispensersReplace_def failing_def
  split: option.splits if_splits dest: in_transaction_undone)

text \<open>(C7) Every operation of a replica (a live block, an incremental or a full snapshot, the replacement of the dispensers, a
  rollback) is applied whole or not at all: whatever the server answers to its statements (time-outs, deadlocks, lost connections,
  held keys, a failing commit), either it ends with an error and the rows are those from before, or it is committed and the rows are those
  of the undisturbed operation.  The server answers 1146 and 1054 only for tables and columns that are missing.\<close>

theorem replica_ops_all_or_nothing:
  assumes "firm_roots cfg" "honest_faults ss" "run_op cfg rc op ss = (r, ss')"
  shows "if r = None then ss_store ss' = ss_store (snd (run_op cfg rc op (at_rest (ss_store ss)))) else ss_store ss' = ss_store ss"
  using firm_cases(2)[OF run_op_firm[OF assms(1)] assms(2,3)] run_op_undone[of cfg rc op ss _ ss'] assms(3)
  by (auto simp: at_rest_def)

definition demo_applier :: "string \<Rightarrow> applier_cfg" where
  "demo_applier dbType = \<lparr>bc_dbType = dbType, bc_coin = Some ''BTC'', bc_network = ''regtest'', bc_activation = JUndef,
     bc_cast = (\<lambda>s. case int_text s of Some n \<Rightarrow> n * 10 ^ 18 | None \<Rightarrow> 0), bc_keys = (\<lambda>_. []), bc_truncates = (\<lambda>_. False),
     bc_names = [''balances'', ''credits'', ''debits''], bc_roots = (\<lambda>_ _ _. in_order []), bc_seed = (\<lambda>_. in_order [])\<rparr>"

text \<open>A decoder whose server gives up on a lock (1205) in the middle of the deletes.\<close>

theorem replica_ops_all_or_nothing_witness:
  "fst (run_op (demo_applier ''decoder'') demo_cfg (RollBack 5) demo_faulty) = Some 1205 \<and>
   ss_store (snd (run_op (demo_applier ''decoder'') demo_cfg (RollBack 5) demo_faulty)) = demo_decoder"
proof -
  have f: "firm_roots (demo_applier ''decoder'')" using steps_firm(1) by (simp add: firm_roots_def demo_applier_def)
  have h: "honest_faults demo_faulty" by (simp add: honest_faults_def demo_faulty_def isSchemaGapError_def)
  have e: "fst (run_op (demo_applier ''decoder'') demo_cfg (RollBack 5) demo_faulty) = Some 1205" by code_simp
  have s: "ss_store demo_faulty = demo_decoder" by (simp add: demo_faulty_def)
  show ?thesis using replica_ops_all_or_nothing[OF f h prod.collapse[symmetric], of demo_cfg "RollBack 5"] e s by simp
qed

end
