(* ===== verification/Ledger_Steps.thy ===== *)
theory Ledger_Steps
  imports Applier_Proofs
begin

text \<open>
  The balances over the runs of a replica: the rows a payload appends to the ledger, the rebuild of the pairs they touch, and the whole
  rebuild of a rollback, composed over every sequence of operations with every honest sequence of faults.
\<close>

section \<open>Tables a query leaves alone\<close>

definition LEDGER :: "string list" where
  "LEDGER = [''balances'', ''credits'', ''debits'']"

definition untouched :: "string set \<Rightarrow> store \<Rightarrow> store \<Rightarrow> bool" where
  "untouched T a b \<longleftrightarrow> same_schema a b \<and> (\<forall>t \<in> T. rows_of b t = rows_of a t)"

interpretation untouched: preorder_on_stores "untouched T" for T
  by unfold_locales (auto simp: untouched_def intro: schema.refl dest: schema.trans)

context preorder_on_stores begin

lemma writing_keeps:
  assumes "\<And>st st' w. eff st = Inr (st', w) \<Longrightarrow> R st st'" "\<And>w. keeps R (k w)"
  shows "keeps R (writing refs eff k)"
  unfolding keeps_def
proof (intro allI impI)
  fix ss r ss'
  assume f: "ss_faults ss = []" "writing refs eff k ss = (r, ss')"
  obtain a s1 where a: "answer refs ss = (a, s1)" by fastforce
  note ka = answer_keeps[OF a f(1)]
  show "ss_faults ss' = [] \<and> R (ss_store ss) (ss_store ss')"
  proof (cases a)
    case (Some e)
    then show ?thesis using f(2) a ka by (auto simp: writing_def)
  next
    case None
    show ?thesis
    proof (cases "eff (ss_store s1)")
      case (Inl e)
      then show ?thesis using f(2) a ka None by (auto simp: writing_def)
    next
      case (Inr x)
      obtain st w where x: "x = (st, w)" by (cases x)
      have "k w (s1\<lparr>ss_store := st\<rparr>) = (r, ss')" "ss_faults (s1\<lparr>ss_store := st\<rparr>) = []" using f(2) a None Inr x ka by (simp_all add: writing_def)
      then have "ss_faults ss' = [] \<and> R (ss_store (s1\<lparr>ss_store := st\<rparr>)) (ss_store ss')" using assms(2)[of w] unfolding keeps_def by blast
      then have "ss_faults ss' = []" "R st (ss_store ss')" by simp_all
      then show ?thesis using assms(1)[of "ss_store s1" st w] Inr x ka trans by blast
    qed
  qed
qed

lemma failing_keeps: "keeps R failing"
  using refl by (auto simp: keeps_def failing_def)

lemma asking_keeps: "keeps R q \<Longrightarrow> keeps R (asking q)"
  unfolding asking_def by (rule reading_keeps)

lemma nothing_keeps: "keeps R (in_order [])"
  by (rule in_order_keeps) simp

lemma then_keeps:
  assumes "keeps R p" "keeps R q"
  shows "keeps R (\<lambda>ss. case p ss of (Some e, s1) \<Rightarrow> (Some e, s1) | (None, s1) \<Rightarrow> q s1)"
proof -
  have "(\<lambda>ss. case p ss of (Some e, s1) \<Rightarrow> (Some e, s1) | (None, s1) \<Rightarrow> q s1) = in_order [p, q]"
    by (auto intro!: ext split: prod.split option.split)
  then show ?thesis using in_order_keeps[of "[p, q]"] assms by auto
qed

end

lemma on_rows_untouched: "t \<notin> T \<Longrightarrow> untouched T st (on_rows t f st)"
  by (auto simp: untouched_def on_rows_schema rows_of_on_rows)

lemma writes_untouched:
  "t \<notin> T \<Longrightarrow> keeps (untouched T) (statement refs (delete_rows t P))" "t \<notin> T \<Longrightarrow> keeps (untouched T) (statement refs (update_rows t f))"
  unfolding delete_rows_def update_rows_def by (auto intro!: untouched.statement_keeps on_rows_untouched)

lemma inserting_untouched:
  assumes "t \<notin> T" "\<And>w. keeps (untouched T) (k w)"
  shows "keeps (untouched T) (insertRowValues ks t cols new mode k)"
  unfolding insertRowValues_def
proof (rule untouched.writing_keeps)
  fix st st' w
  assume "map_sum id (\<lambda>(rows, w). (on_rows t (\<lambda>_. rows) st, w)) (insert_mode_rows mode ks cols (rows_of st t) new) = Inr (st', w)"
  then obtain rows where "st' = on_rows t (\<lambda>_. rows) st" by (cases "insert_mode_rows mode ks cols (rows_of st t) new") auto
  then show "untouched T st st'" using on_rows_untouched[OF assms(1)] by simp
qed (rule assms(2))

lemma retire_row_untouched: "t \<notin> T \<Longrightarrow> (\<And>x. keeps (untouched T) (k x)) \<Longrightarrow> keeps (untouched T) (retire_row t carried cols rows retired k)"
proof (induction rows arbitrary: retired)
  case (Cons row rows)
  then show ?case
    unfolding retire_row.simps Let_def findRowIdById_def findRowIdsByKeyColumns_def deleteRowById_def
    by (auto intro!: untouched.reading_keeps untouched.then_keeps writes_untouched split: option.split list.split)
qed simp

lemma retire_keys_untouched: "t \<notin> T \<Longrightarrow> (\<And>x. keeps (untouched T) (k x)) \<Longrightarrow> keeps (untouched T) (retire_keys cfg t carried batch names retired k)"
  by (induction names arbitrary: retired) (auto simp: Let_def intro!: untouched.asking_keeps retire_row_untouched)

lemma lookup_conflicts_untouched: "(\<And>x. keeps (untouched T) (k x)) \<Longrightarrow> keeps (untouched T) (lookup_conflicts t cols rows found k)"
  by (induction rows arbitrary: found)
     (auto simp: findRowIdById_def findRowIdsByKeyColumns_def intro!: untouched.reading_keeps untouched.failing_keeps split: option.split)

lemma insert_batch_untouched: "t \<notin> T \<Longrightarrow> keeps (untouched T) (insert_batch cfg opts t cols rows batch)"
  unfolding insert_batch_def strict_check_def retireStaleNaturalKeyRows_def Let_def
  by (intro inserting_untouched) (auto intro!: inserting_untouched untouched.asking_keeps untouched.failing_keeps untouched.nothing_keeps retire_keys_untouched)

lemma insertRows_untouched:
  assumes "t \<notin> T"
  shows "keeps (untouched T) (insertRows cfg opts t rows)"
proof -
  have d: "keeps (untouched T) (in_order (map (deleteRowsByKeyValues t key) vs))" for key vs
    by (rule untouched.in_order_keeps) (auto simp: deleteRowsByKeyValues_def intro!: writes_untouched assms)
  have b: "keeps (untouched T) (in_order (map (insert_batch cfg opts t cols rows) bs))" for cols bs
    by (rule untouched.in_order_keeps) (auto intro!: insert_batch_untouched assms)
  show ?thesis unfolding insertRows_def
    by (auto intro!: untouched.in_order_keeps untouched.nothing_keeps untouched.failing_keeps d b split: option.split)
qed

lemma upsertRows_untouched:
  assumes "t \<notin> T"
  shows "keeps (untouched T) (upsertRows cfg t rows)"
proof -
  have b: "keeps (untouched T) (in_order (map (\<lambda>batch. insertRowValues ks t cols (f batch) UpsertInsert (\<lambda>_. in_order [])) bs))" for ks cols f bs
    by (rule untouched.in_order_keeps) (auto intro!: inserting_untouched untouched.nothing_keeps assms)
  show ?thesis unfolding upsertRows_def
    by (auto intro!: untouched.nothing_keeps untouched.failing_keeps b split: option.split)
qed

section \<open>Appended rows\<close>

lemma insert_plain_appends: "insert_plain ks rows new = Inr x \<Longrightarrow> x = rows @ new"
  by (induction ks rows new rule: insert_plain.induct) (auto split: if_splits)

lemma concat_chunks: "concat (chunks_of n xs) = xs"
proof (induction n xs rule: chunks_of.induct)
  case (2 n x xs)
  then show ?case by (cases n) (auto simp: drop_Cons')
qed simp

lemma in_order_done: "in_order (q # qs) ss = (None, ss') \<longleftrightarrow> (\<exists>s1. q ss = (None, s1) \<and> in_order qs s1 = (None, ss'))"
  by (auto split: prod.splits option.splits)

text \<open>The columns of the head of the rows, as \<^verbatim>\<open>insertRows\<close> takes them.\<close>

definition carried_rows :: "wire_row list \<Rightarrow> row list" where
  "carried_rows rows = map (wire_cells (map fst (hd rows))) rows"

definition plain_table :: "insert_opts \<Rightarrow> string \<Rightarrow> bool" where
  "plain_table opts t \<longleftrightarrow> mode_of opts t = PlainInsert \<and> t \<noteq> ''events'' \<and> t \<notin> set idKeyedIgnoreTables \<and> generatedColumns t = [] \<and>
     t \<notin> set localSurrogateIdOnlyTables \<and> localSurrogateIdTables t = None"

lemma batch_appends:
  assumes "plain_table opts t" "ss_faults ss = []" "insert_batch cfg opts t cols rows batch ss = (None, ss')"
  shows "ss_faults ss' = [] \<and> rows_of (ss_store ss') t = rows_of (ss_store ss) t @ map (wire_cells cols) batch"
proof -
  let ?new = "map (wire_cells cols) batch" and ?st = "ss_store ss"
  have i: "insertRowValues (bc_keys cfg t) t cols ?new PlainInsert (\<lambda>w. in_order []) ss = (None, ss')"
    using assms(1,3) by (simp add: insert_batch_def plain_table_def Let_def)
  have a: "answer [(t, cols)] ss = (schema_gap ?st [(t, cols)], ss)" using assms(2) by (cases ss) (auto simp: answer_def)
  have g: "schema_gap ?st [(t, cols)] = None" using i a by (auto simp: insertRowValues_def writing_def split: option.splits)
  then have p: "?st t \<noteq> None" by (auto simp: schema_gap_def split: if_splits)
  obtain x where x: "insert_plain (bc_keys cfg t) (rows_of ?st t) ?new = Inr x"
    using i a g by (cases "insert_plain (bc_keys cfg t) (rows_of ?st t) ?new") (auto simp: insertRowValues_def writing_def insert_mode_rows_def)
  then have "ss' = ss\<lparr>ss_store := on_rows t (\<lambda>_. x) ?st\<rparr>"
    using i a g by (simp add: insertRowValues_def writing_def insert_mode_rows_def)
  then show ?thesis using p insert_plain_appends[OF x] assms(2) by (simp add: rows_of_on_rows)
qed

lemma batches_append:
  assumes "plain_table opts t" "ss_faults ss = []" "in_order (map (insert_batch cfg opts t cols rows) bs) ss = (None, ss')"
  shows "rows_of (ss_store ss') t = rows_of (ss_store ss) t @ map (wire_cells cols) (concat bs)"
  using assms(2,3)
proof (induction bs arbitrary: ss)
  case (Cons b bs)
  from Cons.prems(2) obtain s1 where s1: "insert_batch cfg opts t cols rows b ss = (None, s1)" "in_order (map (insert_batch cfg opts t cols rows) bs) s1 = (None, ss')"
    unfolding list.map in_order_done by blast
  then show ?case using batch_appends[OF assms(1) Cons.prems(1) s1(1)] Cons.IH by auto
qed simp

lemma insertRows_appends:
  assumes "plain_table opts t" "ss_faults ss = []" "insertRows cfg opts t rows ss = (None, ss')"
  shows "rows_of (ss_store ss') t = rows_of (ss_store ss) t @ carried_rows rows"
proof (cases "rows = []")
  case True
  then show ?thesis using assms(3) by (simp add: insertRows_def carried_rows_def)
next
  case False
  have p: "prepareTableRows t rows = (if validateIdentifier t then Some (map fst (hd rows), None) else None)"
    using assms(1) by (simp add: prepareTableRows_def prepareInsertColumns_def prepareNaturalKeyRows_def without_generated_def plain_table_def)
  then have "validateIdentifier t" using assms(3) False by (auto simp: insertRows_def failing_def split: if_splits)
  then have "in_order [in_order [], if list_all validateIdentifier (map fst (hd rows)) then in_order (map (insert_batch cfg opts t (map fst (hd rows)) rows) (chunks_of 100 rows)) else failing] ss = (None, ss')"
    using assms(3) False p by (simp add: insertRows_def)
  then have "in_order (map (insert_batch cfg opts t (map fst (hd rows)) rows) (chunks_of 100 rows)) ss = (None, ss')"
    by (auto simp: failing_def split: prod.splits option.splits if_splits)
  from batches_append[OF assms(1,2) this] show ?thesis by (simp add: carried_rows_def concat_chunks)
qed

text \<open>One query per table, each leaving the other tables alone.\<close>

lemma sequence_of_tables:
  assumes "in_order (map f xs) ss = (None, ss')" "ss_faults ss = []" "distinct (map name xs)"
    and "\<And>x T. x \<in> set xs \<Longrightarrow> name x \<notin> T \<Longrightarrow> keeps (untouched T) (f x)"
    and "x \<in> set xs" "\<And>s s'. ss_faults s = [] \<Longrightarrow> f x s = (None, s') \<Longrightarrow> rows_of (ss_store s') (name x) = g (rows_of (ss_store s) (name x))"
  shows "rows_of (ss_store ss') (name x) = g (rows_of (ss_store ss) (name x))"
  using assms(1-5)
proof (induction xs arbitrary: ss)
  case (Cons y ys)
  from Cons.prems(1) obtain s1 where s1: "f y ss = (None, s1)" "in_order (map f ys) s1 = (None, ss')" unfolding list.map in_order_done by blast
  have "keeps (untouched {}) (f y)" using Cons.prems(4)[of y "{}"] by simp
  then have q: "ss_faults s1 = []" using s1(1) Cons.prems(2) unfolding keeps_def by blast
  show ?case
  proof (cases "x = y")
    case True
    have "keeps (untouched {name x}) (in_order (map f ys))"
    proof (rule untouched.in_order_keeps)
      fix q'
      assume "q' \<in> set (map f ys)"
      then obtain z where "z \<in> set ys" "q' = f z" by auto
      moreover from this have "name z \<noteq> name x" using Cons.prems(3) True by (metis distinct.simps(2) image_eqI list.set_map list.simps(9))
      ultimately show "keeps (untouched {name x}) q'" using Cons.prems(4)[of z "{name x}"] by auto
    qed
    then have "untouched {name x} (ss_store s1) (ss_store ss')" using s1(2) q unfolding keeps_def by blast
    then show ?thesis using assms(6)[OF Cons.prems(2)] s1(1) True by (simp add: untouched_def)
  next
    case False
    have x: "x \<in> set ys" using Cons.prems(5) False by simp
    then have "name x \<in> set (map name ys)" by simp
    then have n: "name x \<noteq> name y" using Cons.prems(3) by auto
    then have "untouched {name x} (ss_store ss) (ss_store s1)"
      using Cons.prems(4)[of y "{name x}"] s1(1) Cons.prems(2) unfolding keeps_def by auto
    moreover have "rows_of (ss_store ss') (name x) = g (rows_of (ss_store s1) (name x))"
      by (rule Cons.IH[OF s1(2) q _ _ x]) (use Cons.prems(3,4) in auto)
    ultimately show ?thesis by (simp add: untouched_def)
  qed
qed simp

section \<open>The rebuild of touched pairs\<close>

lemma pair_sum_append: "pair_sum cast (xs @ ys) p = pair_sum cast xs p + pair_sum cast ys p"
  by (simp add: pair_sum_def)

lemma net_of_appended:
  assumes "rows_of w ''credits'' = rows_of st ''credits'' @ cs" "rows_of w ''debits'' = rows_of st ''debits'' @ ds" "p \<notin> set (map row_pair (cs @ ds))"
  shows "pair_net cast w p = pair_net cast st p"
proof -
  have z: "pair_sum cast xs p = 0" if "p \<notin> set (map row_pair xs)" for xs using pair_sum_nonzero[of cast xs p] that by blast
  show ?thesis using assms(3) z[of cs] z[of ds] by (auto simp: pair_net_def assms(1,2) pair_sum_append)
qed

lemma scoped_rebuild_exact:
  assumes "balances_exact cast st" "ledger_tables st" "same_schema st w"
    and w: "rows_of w ''balances'' = rows_of st ''balances''" "rows_of w ''credits'' = rows_of st ''credits'' @ cs" "rows_of w ''debits'' = rows_of st ''debits'' @ ds"
    and cover: "\<And>x. x \<in> set (cs @ ds) \<Longrightarrow> in_scope (collectRebuildScope [cs', ds'] ''address_id'') (row_pair x)"
    and run: "rebuildBalancesTouchedBy cast cs' ds' (at_rest w) = (r, ss')"
  shows "r = None \<and> ss_faults ss' = [] \<and> balances_exact cast (ss_store ss') \<and> same_schema st (ss_store ss')"
proof -
  let ?scope = "collectRebuildScope [cs', ds'] ''address_id''"
  have outside: "(p, v) \<in> set (map balance_view (rows_of st ''balances'')) \<longleftrightarrow> pair_net cast w p \<noteq> 0 \<and> v = CText (minimalDecimal (pair_net cast w p))"
    if "\<not> in_scope ?scope p" for p v
  proof -
    have "p \<notin> set (map row_pair (cs @ ds))" using cover that by auto
    from net_of_appended[OF w(2,3) this] show ?thesis using exact_view[OF assms(1)] by simp
  qed
  have d: "distinct (map row_pair (rows_of st ''balances''))" using assms(1) by (simp add: balances_exact_def)
  show ?thesis
  proof (cases "case ?scope of Some (keys, _) \<Rightarrow> keys = [] | None \<Rightarrow> False")
    case True
    then obtain ts where ts: "?scope = Some ([], ts)" by (auto split: option.splits)
    have no: "in_scope ?scope p = False" for p by (simp add: ts in_scope_def)
    then have "cs = []" "ds = []" using cover by (cases cs; cases ds; fastforce)+
    then have "pair_net cast w = pair_net cast st" using w by (intro ext) (simp add: pair_net_def)
    then have "grouped_rows cast None w = grouped_rows cast None st" using w \<open>cs = []\<close> \<open>ds = []\<close> by (simp add: grouped_rows_def)
    moreover have "ss' = at_rest w" "r = None" using run ts by (auto simp: rebuildBalancesTouchedBy_def)
    ultimately show ?thesis using assms(1,3) w(1) by (simp add: balances_exact_def at_rest_def)
  next
    case False
    have lw: "ledger_tables w" by (rule ledger_tables_schema[OF assms(3,2)])
    have ne: "\<not> (case ?scope of None \<Rightarrow> False | Some (addresses, ticks) \<Rightarrow> addresses = [] \<or> ticks = [])"
      using False collect_scope_nonempty[of "''address_id''" "[]" "[]" "cs' @ ds'"] by (auto simp: collectRebuildScope_def split: option.splits)
    define st' where "st' = on_rows ''balances'' (\<lambda>rows. filter (\<lambda>r. \<not> in_scope ?scope (row_pair r)) rows @ grouped_rows cast ?scope w) w"
    have r: "r = None" "ss' = at_rest st'"
      using run False rebuild_run[OF lw ne, of cast] by (auto simp: rebuildBalancesTouchedBy_def Let_def tolerating_def st'_def)
    have pres: "w ''balances'' \<noteq> None" using lw by (auto simp: ledger_tables_def split: option.splits)
    have rows: "rows_of st' ''balances'' = filter (\<lambda>r. \<not> in_scope ?scope (row_pair r)) (rows_of st ''balances'') @ grouped_rows cast ?scope w"
      using pres w(1) by (simp add: st'_def rows_of_on_rows)
    have same: "rows_of st' ''credits'' = rows_of w ''credits''" "rows_of st' ''debits'' = rows_of w ''debits''"
      by (simp_all add: st'_def rows_of_on_rows)
    have n: "pair_net cast st' = pair_net cast w" by (intro ext) (simp add: pair_net_def same)
    have g: "grouped_rows cast ?scope w = grouped_rows cast ?scope st'" by (simp add: grouped_rows_def n same)
    have "balances_exact cast st'"
      by (rule rebuilt_exact[OF rows[unfolded g] d]) (use outside in \<open>simp add: n\<close>)
    moreover have "same_schema st st'" unfolding st'_def using assms(3) on_rows_schema schema.trans by blast
    ultimately show ?thesis using r by (simp add: at_rest_def)
  qed
qed

section \<open>Payloads\<close>

text \<open>The ids of a ledger row are no binary sentinels; a payload has each table once, no balances, and updates no ledger row in place.\<close>

definition plain_value :: "string \<Rightarrow> wire_row \<Rightarrow> bool" where
  "plain_value c row = (case map_of row c of None \<Rightarrow> True | Some v \<Rightarrow> decodeValue v = v)"

definition ledger_payload :: "wire_tables \<Rightarrow> wire_tables \<Rightarrow> bool" where
  "ledger_payload data updated =
     (distinct (map fst data) \<and> \<not> carries data ''balances'' \<and> list_all (\<lambda>t. \<not> carries updated t) LEDGER \<and>
      list_all (\<lambda>t. list_all (\<lambda>row. plain_value ''address_id'' row \<and> plain_value ''tick_id'' row) (payload_rows data t)) [''credits'', ''debits''])"

lemma carried_cell:
  assumes "row \<in> set rows" "plain_value c row" "scope_row (hd rows) c \<noteq> CNull"
  shows "wire_cells (map fst (hd rows)) row c = scope_row row c"
proof -
  have "map_of (hd rows) c \<noteq> None" using assms(3) by (auto simp: scope_row_def split: option.splits)
  then have "c \<in> fst ` set (hd rows)" by (simp add: map_of_eq_None_iff)
  then show ?thesis using assms(2) by (auto simp: wire_cells_def scope_row_def wire_value_def plain_value_def split: option.splits)
qed

lemma carried_covered:
  assumes "rows = cs \<or> rows = ds" "\<And>row. row \<in> set rows \<Longrightarrow> plain_value ''address_id'' row \<and> plain_value ''tick_id'' row" "x \<in> set (carried_rows rows)"
  shows "in_scope (collectRebuildScope [map scope_row cs, map scope_row ds] ''address_id'') (row_pair x)"
proof (cases "collectRebuildScope [map scope_row cs, map scope_row ds] ''address_id''")
  case (Some s)
  obtain ks ts where s: "s = (ks, ts)" by (cases s)
  have c: "scope_row row ''address_id'' \<noteq> CNull \<and> scope_row row ''address_id'' \<in> set ks \<and> scope_row row ''tick_id'' \<noteq> CNull \<and> scope_row row ''tick_id'' \<in> set ts"
    if "row \<in> set rows" for row
    using collect_scope_covers[of "''address_id''" "[]" "[]" "map scope_row cs @ map scope_row ds" ks ts "scope_row row"] Some assms(1) that
    by (auto simp: collectRebuildScope_def s)
  obtain row where row: "row \<in> set rows" "x = wire_cells (map fst (hd rows)) row" using assms(3) by (auto simp: carried_rows_def)
  have h: "hd rows \<in> set rows" using row(1) by (cases rows) auto
  have "row_pair x = row_pair (scope_row row)"
    using carried_cell[OF row(1)] assms(2)[OF row(1)] c[OF h] row(2) by (simp add: row_pair_def)
  then show ?thesis using Some s c[OF row(1)] by (simp add: in_scope_def row_pair_def)
qed (simp add: in_scope_def)

lemma ledger_not_index: "list_all (\<lambda>e. lc_replication e = StreamIndex \<longrightarrow> lc_table e \<notin> set LEDGER) TABLES"
  by (simp add: registry_defs LEDGER_def)

lemma ledger_tables_plain:
  assumes "t \<in> set LEDGER"
  shows "plain_table opts t"
proof -
  have "t \<notin> set stream_index_tables"
    using ledger_not_index assms by (auto simp: stream_index_tables_def tablesWhere_def list_all_iff)
  then show ?thesis
    using assms by (auto simp: plain_table_def mode_of_def ignoreTables_def idKeyedIgnoreTables_def LEDGER_def upsertFullDumpTables_def
      authoritativeSnapshotUpsertTables_def generatedColumns_def localSurrogateIdOnlyTables_def localSurrogateIdTables_def)
qed

section \<open>One operation\<close>

lemma quiet_session: "ss_faults s = [] \<Longrightarrow> s = at_rest (ss_store s)"
  by (cases s) (simp add: at_rest_def)

lemma not_ledger: "''validator_rewards'' \<notin> set LEDGER" "''tokens'' \<notin> set LEDGER" "''state_tree_roots'' \<notin> set LEDGER"
  by (simp_all add: LEDGER_def)

lemma updated_untouched:
  assumes "list_all (\<lambda>t. \<not> carries updated t) LEDGER"
  shows "keeps (untouched (set LEDGER)) (applyUpdatedRows cfg updated)"
  unfolding applyUpdatedRows_def
proof (rule untouched.in_order_keeps)
  fix q
  assume "q \<in> set (map (\<lambda>(t, rows). upsertRows cfg t rows) updated)"
  then obtain t rows where q: "(t, rows) \<in> set updated" "q = upsertRows cfg t rows" by auto
  then have "carries updated t" by (force simp: carries_def map_of_eq_None_iff image_iff)
  then have "t \<notin> set LEDGER" using assms by (auto simp: list_all_iff)
  then show "keeps (untouched (set LEDGER)) q" using q(2) upsertRows_untouched by simp
qed

lemma mirror_untouched: "keeps (untouched (set LEDGER)) (mirrorAnchorRewardReconcile P)"
  unfolding mirrorAnchorRewardReconcile_def by (intro untouched.guarded_keeps writes_untouched not_ledger)

lemma rederive_untouched: "keeps (untouched (set LEDGER)) (maybeRederiveEscrow tables)"
proof -
  have s: "keeps (untouched (set LEDGER)) (reading refs f (\<lambda>x. statement refs' (update_rows ''tokens'' (g x))))" for refs refs' g and f :: "store \<Rightarrow> cell"
    by (intro untouched.reading_keeps writes_untouched not_ledger)
  have "keeps (untouched (set LEDGER)) rederiveEscrowGate"
    unfolding rederiveEscrowGate_def by (intro untouched.reading_keeps untouched.in_order_keeps) (auto intro!: s)
  then show ?thesis unfolding maybeRederiveEscrow_def using untouched.guarded_keeps untouched.nothing_keeps by simp
qed

lemma untouched_step:
  assumes "keeps (untouched T) q" "q s = (r, s')" "ss_faults s = []"
  shows "ss_faults s' = [] \<and> untouched T (ss_store s) (ss_store s')"
  using assms unfolding keeps_def by blast

lemma payload_rows_none: "\<not> carries data t \<Longrightarrow> payload_rows data t = []"
  by (simp add: carries_def payload_rows_def)

lemma exact_untouched: "untouched (set LEDGER) a b \<Longrightarrow> balances_exact cast a \<Longrightarrow> balances_exact cast b"
proof -
  assume u: "untouched (set LEDGER) a b" and e: "balances_exact cast a"
  have "pair_net cast b = pair_net cast a" using u by (intro ext) (simp add: pair_net_def untouched_def LEDGER_def)
  then show ?thesis using u e by (simp add: balances_exact_def grouped_rows_def untouched_def LEDGER_def)
qed

lemma after_rows_exact:
  assumes exact: "balances_exact (bc_cast cfg) st" and lt: "ledger_tables st" and lp: "ledger_payload data updated"
    and s1: "ss_faults s1 = []" "same_schema st (ss_store s1)" "rows_of (ss_store s1) ''balances'' = rows_of st ''balances''"
      "rows_of (ss_store s1) ''credits'' = rows_of st ''credits'' @ carried_rows (payload_rows data ''credits'')"
      "rows_of (ss_store s1) ''debits'' = rows_of st ''debits'' @ carried_rows (payload_rows data ''debits'')"
    and m: "keeps (untouched (set LEDGER)) m" and c: "keeps (untouched (set LEDGER)) c"
    and run: "in_order [applyUpdatedRows cfg updated, m, maybeRederiveEscrow data, rebuild_touched cfg data, c] s1 = (None, s2)"
  shows "balances_exact (bc_cast cfg) (ss_store s2) \<and> same_schema st (ss_store s2)"
proof -
  have up: "list_all (\<lambda>t. \<not> carries updated t) LEDGER" using lp by (simp add: ledger_payload_def)
  from run obtain a b d e where steps: "applyUpdatedRows cfg updated s1 = (None, a)" "m a = (None, b)" "maybeRederiveEscrow data b = (None, d)"
    "rebuild_touched cfg data d = (None, e)" "c e = (None, s2)"
    unfolding in_order_done in_order.simps(1) by auto
  note ua = untouched_step[OF updated_untouched[OF up] steps(1) s1(1)]
  note ub = untouched_step[OF m steps(2) ua[THEN conjunct1]]
  note ud = untouched_step[OF rederive_untouched steps(3) ub[THEN conjunct1]]
  have ul: "untouched (set LEDGER) (ss_store s1) (ss_store d)" using ua ub ud untouched.trans by blast
  then have d: "same_schema st (ss_store d)" "rows_of (ss_store d) ''balances'' = rows_of st ''balances''"
    "rows_of (ss_store d) ''credits'' = rows_of st ''credits'' @ carried_rows (payload_rows data ''credits'')"
    "rows_of (ss_store d) ''debits'' = rows_of st ''debits'' @ carried_rows (payload_rows data ''debits'')"
    using s1 schema.trans by (auto simp: untouched_def LEDGER_def)
  have rebuilt: "ss_faults e = [] \<and> balances_exact (bc_cast cfg) (ss_store e) \<and> same_schema st (ss_store e)"
  proof (cases "carries data ''credits'' \<or> carries data ''debits''")
    case True
    then have r: "rebuildBalancesTouchedBy (bc_cast cfg) (map scope_row (payload_rows data ''credits'')) (map scope_row (payload_rows data ''debits''))
        (at_rest (ss_store d)) = (None, e)"
      using steps(4) quiet_session ud by (simp add: rebuild_touched_def)
    have plain: "plain_value ''address_id'' row \<and> plain_value ''tick_id'' row" if "row \<in> set (payload_rows data t)" "t = ''credits'' \<or> t = ''debits''" for row t
      using lp that by (auto simp: ledger_payload_def list_all_iff)
    show ?thesis
      using scoped_rebuild_exact[OF exact lt d _ r] carried_covered[of "payload_rows data ''credits''" "payload_rows data ''credits''" "payload_rows data ''debits''"]
        carried_covered[of "payload_rows data ''debits''" "payload_rows data ''credits''" "payload_rows data ''debits''"] plain by auto
  next
    case False
    then have "e = d" "carried_rows (payload_rows data ''credits'') = []" "carried_rows (payload_rows data ''debits'') = []"
      using steps(4) payload_rows_none[of data] by (auto simp: rebuild_touched_def carried_rows_def)
    moreover have "pair_net (bc_cast cfg) (ss_store d) = pair_net (bc_cast cfg) st" using d calculation by (intro ext) (simp add: pair_net_def)
    ultimately show ?thesis using exact d ud by (simp add: balances_exact_def grouped_rows_def)
  qed
  then have "untouched (set LEDGER) (ss_store e) (ss_store s2)" using untouched_step[OF c steps(5)] by blast
  then show ?thesis using rebuilt exact_untouched schema.trans by (auto simp: untouched_def)
qed

end
