(* ===== verification/Ledger_Runs.thy ===== *)
theory Ledger_Runs
  imports Ledger_Steps
begin

text \<open>
  The balances over the runs of a replica: live blocks, incremental and full snapshots and rollbacks in any order, each with its own
  sequence of faults of the server.
\<close>

section \<open>Rows of a payload\<close>

lemma exact_cong: "(\<And>t. t \<in> set LEDGER \<Longrightarrow> rows_of a t = rows_of b t) \<Longrightarrow> balances_exact cast a = balances_exact cast b"
proof -
  assume r: "\<And>t. t \<in> set LEDGER \<Longrightarrow> rows_of a t = rows_of b t"
  have "pair_net cast a = pair_net cast b" using r by (intro ext) (simp add: pair_net_def LEDGER_def)
  then show ?thesis using r by (simp add: balances_exact_def grouped_rows_def LEDGER_def)
qed

lemma payload_rows_member: "distinct (map fst data) \<Longrightarrow> (t, rows) \<in> set data \<Longrightarrow> payload_rows data t = rows"
  by (simp add: payload_rows_def)

lemma carried_nothing [simp]: "carried_rows [] = []"
  by (simp add: carried_rows_def)

lemma sequence_elsewhere:
  assumes "in_order (map f xs) ss = (None, s1)" "ss_faults ss = []" "\<And>x T. x \<in> set xs \<Longrightarrow> name x \<notin> T \<Longrightarrow> keeps (untouched T) (f x)"
  shows "ss_faults s1 = [] \<and> same_schema (ss_store ss) (ss_store s1) \<and> (\<forall>u. u \<notin> name ` set xs \<longrightarrow> rows_of (ss_store s1) u = rows_of (ss_store ss) u)"
proof -
  have "keeps (untouched {u. u \<notin> name ` set xs}) (in_order (map f xs))"
    by (rule untouched.in_order_keeps) (use assms(3) in auto)
  from untouched_step[OF this assms(1,2)] show ?thesis by (auto simp: untouched_def)
qed

lemma inserted_rows:
  assumes "in_order (map f data) ss = (None, s1)" "ss_faults ss = []" "distinct (map fst data)"
    and "\<And>x T. x \<in> set data \<Longrightarrow> fst x \<notin> T \<Longrightarrow> keeps (untouched T) (f x)"
    and "\<And>rows s s'. (u, rows) \<in> set data \<Longrightarrow> ss_faults s = [] \<Longrightarrow> f (u, rows) s = (None, s') \<Longrightarrow>
      rows_of (ss_store s') u = rows_of (ss_store s) u @ carried_rows rows"
  shows "rows_of (ss_store s1) u = rows_of (ss_store ss) u @ carried_rows (payload_rows data u)"
proof (cases "u \<in> fst ` set data")
  case True
  then obtain rows where r: "(u, rows) \<in> set data" by auto
  then show ?thesis
    using sequence_of_tables[OF assms(1,2,3,4) r, where g = "\<lambda>x. x @ carried_rows rows"] assms(5)[OF r] payload_rows_member[OF assms(3) r] by simp
next
  case False
  then have "payload_rows data u = []" by (auto simp: payload_rows_def map_of_eq_None_iff[THEN iffD2] split: option.splits dest: map_of_SomeD)
  then show ?thesis using sequence_elsewhere[OF assms(1,2), where name = fst] assms(4) False by simp
qed

lemma ledger_members: "''balances'' \<in> set LEDGER" "''credits'' \<in> set LEDGER" "''debits'' \<in> set LEDGER"
  by (simp_all add: LEDGER_def)

lemma block_rows_inserted:
  assumes "insertBlockRows cfg data ss = (None, s1)" "ss_faults ss = []" "distinct (map fst data)" "u \<in> set LEDGER"
  shows "rows_of (ss_store s1) u = rows_of (ss_store ss) u @ carried_rows (payload_rows data u)"
proof (rule inserted_rows[OF assms(1)[unfolded insertBlockRows_def] assms(2,3)])
  show "keeps (untouched T) (case x of (t, rows) \<Rightarrow> insertRows cfg no_opts t rows)" if "fst x \<notin> T" for x T
    using insertRows_untouched that by (cases x) simp
  show "rows_of (ss_store s') u = rows_of (ss_store s) u @ carried_rows rows"
    if "ss_faults s = []" "(case (u, rows) of (t, rows) \<Rightarrow> insertRows cfg no_opts t rows) s = (None, s')" for rows s s'
    using insertRows_appends[OF ledger_tables_plain[OF assms(4)] that(1)] that(2) by simp
qed

lemma reconcile_untouched: "t \<notin> T \<Longrightarrow> keeps (untouched T) (reconcileLookupRows t rows cols)"
  unfolding reconcileLookupRows_def deleteRowById_def
  by (intro lookup_conflicts_untouched untouched.in_order_keeps) (auto intro!: writes_untouched)

lemma snapshot_step_untouched:
  assumes "fst x \<notin> T"
  shows "keeps (untouched T) (snapshot_table_step cfg strict x)"
proof -
  obtain t rows where x: "x = (t, rows)" by (cases x)
  have r: "keeps (untouched T) (case repairNaturalKeyColumns t of Some cols \<Rightarrow> if strict then reconcileLookupRows t rows cols else in_order [] | None \<Rightarrow> in_order [])"
    using assms reconcile_untouched[of t T] untouched.nothing_keeps by (cases "repairNaturalKeyColumns t") (auto simp: x)
  show ?thesis
    unfolding snapshot_table_step_def x using assms insertRows_untouched[of t T] untouched.nothing_keeps r
    by (auto simp: x intro!: untouched.in_order_keeps)
qed

lemma snapshot_rows_inserted:
  assumes "insertSnapshotTables cfg strict data ss = (None, s1)" "ss_faults ss = []" "distinct (map fst data)" "u \<in> set LEDGER"
  shows "rows_of (ss_store s1) u = rows_of (ss_store ss) u @ carried_rows (payload_rows data u)"
proof (rule inserted_rows[OF assms(1)[unfolded insertSnapshotTables_def] assms(2,3)])
  show "keeps (untouched T) (snapshot_table_step cfg strict x)" if "fst x \<notin> T" for x T using snapshot_step_untouched[OF that] .
  have l: "u \<notin> set REPLICA_LEDGER_TABLES" "repairNaturalKeyColumns u = None"
    using assms(4) by (auto simp: LEDGER_def REPLICA_LEDGER_TABLES_def repairNaturalKeyColumns_def)
  show "rows_of (ss_store s') u = rows_of (ss_store s) u @ carried_rows rows"
    if "ss_faults s = []" "snapshot_table_step cfg strict (u, rows) s = (None, s')" for rows s s'
  proof (cases "rows = []")
    case False
    then have "insertRows cfg \<lparr>io_authoritative = True, io_strict = strict\<rparr> u rows s = (None, s')"
      using that(2) l by (auto simp: snapshot_table_step_def split: prod.splits option.splits)
    from insertRows_appends[OF ledger_tables_plain[OF assms(4)] that(1) this] show ?thesis .
  qed (use that(2) in \<open>simp add: snapshot_table_step_def\<close>)
qed

section \<open>The operations\<close>

text \<open>The computation of the roots writes the tables of the state trees only.\<close>

definition roots_apart :: "applier_cfg \<Rightarrow> bool" where
  "roots_apart cfg \<longleftrightarrow> (\<forall>b keys act. keeps (untouched (set LEDGER)) (bc_roots cfg b keys act)) \<and> (\<forall>h. keeps (untouched (set LEDGER)) (bc_seed cfg h))"

lemma commitment_untouched: "roots_apart cfg \<Longrightarrow> keeps (untouched (set LEDGER)) (updateBlockStateCommitment cfg b data)"
  unfolding updateBlockStateCommitment_def collectSmtTouchedKeys_def Let_def
  by (auto intro!: untouched.reading_keeps untouched.nothing_keeps simp: roots_apart_def)

lemma mirror_if_untouched: "keeps (untouched (set LEDGER)) (if c then in_order [] else mirrorAnchorRewardReconcile P)"
  using mirror_untouched untouched.nothing_keeps by simp

lemma live_block_exact:
  assumes "balances_exact (bc_cast cfg) st" "ledger_tables st" "roots_apart cfg" "bc_dbType cfg = ''indexer''" "ledger_payload data updated"
    and "applyBlockTransaction cfg b data updated (at_rest st) = (None, ss')"
  shows "balances_exact (bc_cast cfg) (ss_store ss') \<and> same_schema st (ss_store ss')"
proof -
  from in_transaction_committed[OF assms(6)[unfolded applyBlockTransaction_def]] obtain s2 where
    s2: "in_order [insertBlockRows cfg data, applyIndexerBlockState cfg b data updated] (at_rest st) = (None, s2)" "ss_store ss' = ss_store s2"
    using assms(4) by auto
  then obtain s1 where i: "insertBlockRows cfg data (at_rest st) = (None, s1)" and p: "applyIndexerBlockState cfg b data updated s1 = (None, s2)"
    unfolding in_order_done in_order.simps(1) by auto
  have d: "distinct (map fst data)" "\<not> carries data ''balances''" using assms(5) by (auto simp: ledger_payload_def)
  have u: "ss_faults (at_rest st) = []" "ss_store (at_rest st) = st" by (simp_all add: at_rest_def)
  have f: "ss_faults s1 = []" "same_schema st (ss_store s1)"
    using sequence_elsewhere[OF i[unfolded insertBlockRows_def] u(1), where name = fst] insertRows_untouched u(2) by auto
  note rows = block_rows_inserted[OF i u(1) d(1), unfolded u(2)]
  show ?thesis
    unfolding s2(2)
    using after_rows_exact[OF assms(1,2,5) f _ rows[OF ledger_members(2)] rows[OF ledger_members(3)] mirror_if_untouched commitment_untouched[OF assms(3)] p[unfolded applyIndexerBlockState_def]]
      rows[OF ledger_members(1)] payload_rows_none[OF d(2)] by simp
qed

lemma incremental_exact:
  assumes "balances_exact (bc_cast cfg) st" "ledger_tables st" "roots_apart cfg" "bc_dbType cfg = ''indexer''"
    and "sn_tables s = Some data" "ledger_payload data (sn_updated s)"
    and "applyIncrementalSnapshot cfg strict s (at_rest st) = (None, ss')"
  shows "balances_exact (bc_cast cfg) (ss_store ss') \<and> same_schema st (ss_store ss')"
proof -
  define m where "m = (case sn_since s of
      Some since \<Rightarrow> if payload_rows data ''anchor_reward_reconcile_log'' = [] then in_order [] else mirrorAnchorRewardReconcile (\<lambda>v. cell_ge v since)
    | None \<Rightarrow> in_order [])"
  define c where "c = (if commitment_active cfg (sn_height s) then bc_seed cfg (sn_height s) else in_order [])"
  have m: "keeps (untouched (set LEDGER)) m" and c: "keeps (untouched (set LEDGER)) c"
    using mirror_if_untouched untouched.nothing_keeps assms(3) by (auto simp: m_def c_def roots_apart_def split: option.split)
  have "in_transaction (in_order [insertSnapshotTables cfg strict data, in_order [applyUpdatedRows cfg (sn_updated s), m, maybeRederiveEscrow data, rebuild_touched cfg data, c]])
      (at_rest st) = (None, ss')"
    using assms(4,5,7) by (auto simp: applyIncrementalSnapshot_def m_def c_def failing_def split: if_splits)
  from in_transaction_committed[OF this] obtain s1 s2 where i: "insertSnapshotTables cfg strict data (at_rest st) = (None, s1)"
    and p: "in_order [applyUpdatedRows cfg (sn_updated s), m, maybeRederiveEscrow data, rebuild_touched cfg data, c] s1 = (None, s2)" and e: "ss_store ss' = ss_store s2"
    unfolding in_order_done[of "insertSnapshotTables cfg strict data"] in_order_done[of "in_order _" "[]"] in_order.simps(1) by auto
  have d: "distinct (map fst data)" "\<not> carries data ''balances''" using assms(6) by (auto simp: ledger_payload_def)
  have u: "ss_faults (at_rest st) = []" "ss_store (at_rest st) = st" by (simp_all add: at_rest_def)
  have f: "ss_faults s1 = []" "same_schema st (ss_store s1)"
    using sequence_elsewhere[OF i[unfolded insertSnapshotTables_def] u(1), where name = fst] snapshot_step_untouched u(2) by auto
  note rows = snapshot_rows_inserted[OF i u(1) d(1), unfolded u(2)]
  show ?thesis
    unfolding e
    using after_rows_exact[OF assms(1,2,6) f _ rows[OF ledger_members(2)] rows[OF ledger_members(3)] m c p] rows[OF ledger_members(1)] payload_rows_none[OF d(2)] by simp
qed

text \<open>The ledger a full snapshot carries.\<close>

definition snapshot_ledger :: "wire_tables \<Rightarrow> store" where
  "snapshot_ledger payload = (\<lambda>t. Some \<lparr>tb_columns = [], tb_rows = carried_rows (payload_rows payload t)\<rparr>)"

lemma ordered_tables: "distinct ts \<Longrightarrow> distinct (orderSnapshotTables ts) \<and> set (orderSnapshotTables ts) = set ts"
proof -
  assume d: "distinct ts"
  have p: "distinct (PRIORITY_TABLES @ TRAILING_TABLES)" by code_simp
  then show ?thesis using d by (auto simp: orderSnapshotTables_def)
qed

lemma added_new: "distinct ys \<Longrightarrow> distinct (fold add_new xs ys) \<and> set (fold add_new xs ys) = set xs \<union> set ys"
proof (induction xs arbitrary: ys)
  case (Cons x xs)
  then show ?case using Cons.IH[of "add_new x ys"] by (auto simp: add_new_def)
qed simp

lemma snapshot_tables_members: "distinct (snapshot_tables cfg payload)"
  "set (snapshot_tables cfg payload) = set (payloadSnapshotTableNames payload) \<union> set (localSnapshotTableNames cfg)"
  using ordered_tables[of "fold add_new (payloadSnapshotTableNames payload @ localSnapshotTableNames cfg) []"]
    added_new[of "[]" "payloadSnapshotTableNames payload @ localSnapshotTableNames cfg"] by (auto simp: snapshot_tables_def)

lemma ledger_not_local: "list_all (\<lambda>e. lc_replication e \<in> {NodeLocal, HubMirror, FollowerDerived} \<longrightarrow> lc_table e \<notin> set LEDGER) TABLES"
  by (simp add: registry_defs LEDGER_def)

lemma ledger_streamed: "u \<in> set LEDGER \<Longrightarrow> u \<notin> set OPERATOR_LOCAL_TABLES \<and> u \<notin> set REPLICA_LEDGER_TABLES \<and> u \<notin> set SOURCE_UNSTREAMED_TABLES \<and> u \<noteq> []"
proof -
  assume u: "u \<in> set LEDGER"
  have "u \<notin> set (tablesWhere (\<lambda>e. lc_replication e \<in> {NodeLocal, HubMirror, FollowerDerived}))"
    using ledger_not_local u unfolding tablesWhere_def list_all_iff set_map set_filter by blast
  then show ?thesis using u by (auto simp: OPERATOR_LOCAL_TABLES_def REPLICA_LEDGER_TABLES_def SOURCE_UNSTREAMED_TABLES_def LEDGER_def)
qed

lemma cleared_rows:
  assumes "in_order (map deleteAllRows ts) ss = (None, s1)" "ss_faults ss = []" "distinct ts" "u \<in> set ts"
  shows "rows_of (ss_store s1) u = []"
proof -
  have k: "keeps (untouched T) (deleteAllRows t)" if "t \<notin> T" for t T unfolding deleteAllRows_def using writes_untouched that by blast
  have e: "rows_of (ss_store s') u = []" if "ss_faults s = []" "deleteAllRows u s = (None, s')" for s s'
  proof (cases "ss_store s u")
    case None
    then show ?thesis using that by (auto simp: deleteAllRows_def statement_def answer_def schema_gap_def)
  next
    case (Some x)
    then show ?thesis using that by (auto simp: deleteAllRows_def statement_def answer_def schema_gap_def delete_rows_def rows_of_on_rows)
  qed
  show ?thesis
    using sequence_of_tables[OF assms(1,2), of "\<lambda>x. x" u "\<lambda>_. []"] assms(3,4) k e by simp
qed

lemma full_exact:
  assumes "roots_apart cfg" "set LEDGER \<subseteq> set (bc_names cfg)" "sn_tables s = Some payload" "balances_exact cast (snapshot_ledger payload)"
    and "applyFullSnapshot cfg s (at_rest st) = (None, ss')"
  shows "balances_exact cast (ss_store ss') \<and> same_schema st (ss_store ss')"
proof -
  let ?ts = "snapshot_tables cfg payload" and ?ps = "filter (\<lambda>t. t \<in> set (payloadSnapshotTableNames payload)) (snapshot_tables cfg payload)"
  define del where "del = in_order (map deleteAllRows (rev ?ts))"
  define ins where "ins = in_order (map (\<lambda>t. insertRows cfg no_opts t (payload_rows payload t)) ?ps)"
  define c where "c = (if bc_dbType cfg = ''indexer'' \<and> commitment_active cfg (sn_height s) then bc_seed cfg (sn_height s) else in_order [])"
  have "in_transaction (asking (if \<not> list_all validateIdentifier ?ts then failing
      else in_order [del, ins, guarded (deleteStateTreeRootsFromBlock cfg (sn_height s)), c])) (at_rest st) = (None, ss')"
    using assms(3,5) by (auto simp: applyFullSnapshot_def Let_def del_def ins_def c_def failing_def split: if_splits)
  from in_transaction_committed[OF this] obtain s4 where s4: "ss_store ss' = ss_store s4"
    "in_order [del, ins, guarded (deleteStateTreeRootsFromBlock cfg (sn_height s)), c] (at_rest st) = (None, s4)"
    by (auto simp: asking_def undisturbed_simps(2) schema_gap_def failing_def split: if_splits)
  then obtain s1 s2 s3 where st: "del (at_rest st) = (None, s1)" "ins s1 = (None, s2)"
    "guarded (deleteStateTreeRootsFromBlock cfg (sn_height s)) s2 = (None, s3)" "c s3 = (None, s4)"
    unfolding in_order_done in_order.simps(1) by auto
  have u: "ss_faults (at_rest st) = []" "ss_store (at_rest st) = st" by (simp_all add: at_rest_def)
  have kd: "keeps (untouched T) (deleteAllRows t)" if "t \<notin> T" for t T unfolding deleteAllRows_def using writes_untouched that by blast
  have f1: "ss_faults s1 = []" "same_schema st (ss_store s1)"
    using sequence_elsewhere[OF st(1)[unfolded del_def] u(1), where name = "\<lambda>x. x"] kd u(2) by auto
  have f2: "ss_faults s2 = []" "same_schema st (ss_store s2)"
    using sequence_elsewhere[OF st(2)[unfolded ins_def] f1(1), where name = "\<lambda>x. x"] insertRows_untouched f1(2) schema.trans by auto
  have g: "keeps (untouched (set LEDGER)) (guarded (deleteStateTreeRootsFromBlock cfg (sn_height s)))"
    unfolding deleteStateTreeRootsFromBlock_def by (intro untouched.guarded_keeps writes_untouched not_ledger)
  have kc: "keeps (untouched (set LEDGER)) c" using assms(1) untouched.nothing_keeps by (simp add: c_def roots_apart_def)
  note f3 = untouched_step[OF g st(3) f2(1)]
  have un: "untouched (set LEDGER) (ss_store s2) (ss_store s4)" using f3 untouched_step[OF kc st(4)] untouched.trans by blast
  have "rows_of (ss_store s4) t = rows_of (snapshot_ledger payload) t" if t: "t \<in> set LEDGER" for t
  proof -
    have "t \<in> set ?ts" using snapshot_tables_members(2) ledger_streamed[OF t] assms(2) t by (auto simp: localSnapshotTableNames_def)
    then have z: "rows_of (ss_store s1) t = []" using cleared_rows[OF st(1)[unfolded del_def] u(1)] snapshot_tables_members(1) by simp
    have "rows_of (ss_store s2) t = carried_rows (payload_rows payload t)"
    proof (cases "t \<in> set ?ps")
      case True
      have "rows_of (ss_store s2) t = rows_of (ss_store s1) t @ carried_rows (payload_rows payload t)"
        using sequence_of_tables[OF st(2)[unfolded ins_def] f1(1), of "\<lambda>x. x" t "\<lambda>rows. rows @ carried_rows (payload_rows payload t)"]
          snapshot_tables_members(1) True insertRows_untouched insertRows_appends[OF ledger_tables_plain[OF t]] by auto
      then show ?thesis using z by simp
    next
      case False
      then have "t \<notin> fst ` set payload" using \<open>t \<in> set ?ts\<close> ledger_streamed[OF t] by (auto simp: payloadSnapshotTableNames_def)
      then have "payload_rows payload t = []" by (auto simp: payload_rows_def split: option.splits dest: map_of_SomeD) (force dest: map_of_SomeD)
      then show ?thesis
        using sequence_elsewhere[OF st(2)[unfolded ins_def] f1(1), where name = "\<lambda>x. x"] insertRows_untouched False z by auto
    qed
    then show ?thesis using un t by (simp add: untouched_def snapshot_ledger_def rows_of_def)
  qed
  then show ?thesis
    using exact_cong[of "ss_store s4" "snapshot_ledger payload" cast] assms(4) un f2(2) schema.trans unfolding s4(1) untouched_def by blast
qed

lemma aggregates_exact:
  assumes "ledger_tables (ss_store s)" "ss_faults s = []" "recompute_aggregates rc ticks s = (None, s')"
  shows "balances_exact (rc_cast rc) (ss_store s') \<and> same_schema (ss_store s) (ss_store s')"
proof -
  let ?st = "ss_store s" and ?cast = "rc_cast rc"
  from assms(3) obtain s1 where b: "tolerating ((=) 1146) (rebuildBalances ?cast None) s = (None, s1)"
    and r: "in_order [guarded (refoldTokenRows (rc_token_columns rc) ticks), tolerating ((=) 1146) (recomputeTokenSupplies ?cast)] s1 = (None, s')"
    unfolding recompute_aggregates_def in_order_done[of "tolerating _ (rebuildBalances _ _)"] by blast
  define w where "w = on_rows ''balances'' (\<lambda>rows. filter (\<lambda>r. \<not> in_scope None (row_pair r)) rows @ grouped_rows ?cast None ?st) ?st"
  have s1: "s1 = at_rest w"
    using b quiet_session[OF assms(2)] rebuild_run[OF assms(1), of None ?cast] by (auto simp: tolerating_def w_def)
  have pres: "?st ''balances'' \<noteq> None" using assms(1) by (auto simp: ledger_tables_def split: option.splits)
  have same: "rows_of w ''credits'' = rows_of ?st ''credits''" "rows_of w ''debits'' = rows_of ?st ''debits''" by (simp_all add: w_def rows_of_on_rows)
  have n: "pair_net ?cast w = pair_net ?cast ?st" by (intro ext) (simp add: pair_net_def same)
  have g: "grouped_rows ?cast None w = grouped_rows ?cast None ?st" by (simp add: grouped_rows_def n same)
  have "rows_of w ''balances'' = filter (\<lambda>r. \<not> in_scope None (row_pair r)) [] @ grouped_rows ?cast None w"
    unfolding g using pres by (simp add: w_def rows_of_on_rows in_scope_def)
  then have e: "balances_exact ?cast w" by (rule rebuilt_exact) (simp_all add: in_scope_def)
  have f: "keeps (untouched (set LEDGER)) (refoldTokenRows render ticks)" for render
    unfolding refoldTokenRows_def
    by (intro untouched.fold_parts_keeps untouched.anchor_parts_keeps untouched.in_order_keeps) (auto intro!: writes_untouched not_ledger untouched.nothing_keeps)
  have p: "keeps (untouched (set LEDGER)) (recomputeTokenSupplies ?cast)"
    unfolding recomputeTokenSupplies_def Let_def by (intro untouched.reading_keeps untouched.in_order_keeps) (auto intro!: writes_untouched not_ledger)
  have "keeps (untouched (set LEDGER)) (in_order [guarded (refoldTokenRows (rc_token_columns rc) ticks), tolerating ((=) 1146) (recomputeTokenSupplies ?cast)])"
    by (rule untouched.in_order_keeps) (auto intro!: untouched.guarded_keeps untouched.tolerating_keeps f p)
  from untouched_step[OF this r] have un: "untouched (set LEDGER) w (ss_store s')" unfolding s1 by (simp add: at_rest_def)
  have "same_schema ?st w" unfolding w_def by (rule on_rows_schema)
  then show ?thesis using un exact_untouched[OF un e] schema.trans by (auto simp: untouched_def)
qed

lemma rollback_exact:
  assumes "ledger_tables st" "rollbackIndexer rc h (at_rest st) = (None, ss')"
  shows "balances_exact (rc_cast rc) (ss_store ss') \<and> same_schema st (ss_store ss')"
proof -
  from rollback_split[OF assms(2)] obtain truncated pairs s2 where
    s2: "rollback_body rc h (getFirstActionIndex h st) truncated pairs (at_rest st) = (None, s2)" "ss_store ss' = ss_store s2" by metis
  have u: "ss_store (at_rest st) = st" "ss_faults (at_rest st) = []" by (simp_all add: at_rest_def)
  from rollback_body_split[OF s2(1) u(2)] obtain s3 ticks s4 where b: "same_schema st (ss_store s3)" "ss_faults s3 = []"
    "delete_orphans rc h (getFirstActionIndex h st) truncated pairs s3 = (None, s4)" "ss_faults s4 = []" "recompute_aggregates rc ticks s4 = (None, s2)"
    unfolding u(1) by metis
  have "shrinks (ss_store s3) (ss_store s4)" using delete_orphans_keeps b(2,3) unfolding keeps_def by blast
  then have sc: "same_schema st (ss_store s4)" using b(1) schema.trans by (auto simp: shrinks_def)
  from aggregates_exact[OF ledger_tables_schema[OF sc assms(1)] b(4,5)] show ?thesis unfolding s2(2) using sc schema.trans by blast
qed

section \<open>Runs\<close>

text \<open>What an operation carries keeps the ledger: a payload as above, a full snapshot whose own balances are those of its ledger rows.\<close>

definition ledger_op :: "applier_cfg \<Rightarrow> replica_op \<Rightarrow> bool" where
  "ledger_op cfg op =
     (case op of
        LiveBlock p \<Rightarrow> (case bp_data p of None \<Rightarrow> True | Some data \<Rightarrow> ledger_payload data (bp_updated p))
      | Incremental strict s \<Rightarrow> (case sn_tables s of None \<Rightarrow> True | Some data \<Rightarrow> ledger_payload data (sn_updated s))
      | FullSnapshot s \<Rightarrow> (case sn_tables s of None \<Rightarrow> True | Some payload \<Rightarrow> balances_exact (bc_cast cfg) (snapshot_ledger payload))
      | _ \<Rightarrow> True)"

definition indexer_replica :: "applier_cfg \<Rightarrow> rollback_cfg \<Rightarrow> bool" where
  "indexer_replica cfg rc \<longleftrightarrow> bc_dbType cfg = ''indexer'' \<and> rc_cast rc = bc_cast cfg \<and> set LEDGER \<subseteq> set (bc_names cfg) \<and> firm_roots cfg \<and> roots_apart cfg"

fun run_ops :: "applier_cfg \<Rightarrow> rollback_cfg \<Rightarrow> (replica_op \<times> int option list) list \<Rightarrow> store \<Rightarrow> store" where
  "run_ops cfg rc [] st = st"
| "run_ops cfg rc ((op, faults) # ops) st = run_ops cfg rc ops (ss_store (snd (run_op cfg rc op \<lparr>ss_store = st, ss_faults = faults\<rparr>)))"

lemma op_undisturbed_exact:
  assumes "indexer_replica cfg rc" "ledger_op cfg op" "balances_exact (bc_cast cfg) st" "ledger_tables st"
    and run: "run_op cfg rc op (at_rest st) = (None, ss')"
  shows "balances_exact (bc_cast cfg) (ss_store ss') \<and> same_schema st (ss_store ss')"
proof -
  have c: "bc_dbType cfg = ''indexer''" "rc_cast rc = bc_cast cfg" "set LEDGER \<subseteq> set (bc_names cfg)" "roots_apart cfg"
    using assms(1) by (auto simp: indexer_replica_def)
  have same: "ss' = at_rest st \<Longrightarrow> ?thesis" using assms(3) schema.refl by (simp add: at_rest_def)
  show ?thesis
  proof (cases op)
    case (LiveBlock p)
    show ?thesis
    proof (cases "bp_data p = None \<or> bp_block p = None")
      case True
      then show ?thesis using run same LiveBlock by (auto simp: run_op_def apply_block_payload_def split: option.splits)
    next
      case False
      then obtain data b where d: "bp_data p = Some data" "bp_block p = Some b" by auto
      then have "ss' = at_rest st \<or> applyBlockTransaction cfg b data (bp_updated p) (at_rest st) = (None, ss')"
        using run LiveBlock by (auto simp: run_op_def apply_block_payload_def failing_def undisturbed_simps(2) split: if_splits option.splits)
      then show ?thesis using same live_block_exact[OF assms(3,4) c(4,1)] assms(2) d LiveBlock by (auto simp: ledger_op_def)
    qed
  next
    case (Incremental strict s)
    then show ?thesis
      using run same incremental_exact[OF assms(3,4) c(4,1)] assms(2)
      by (cases "sn_tables s") (auto simp: run_op_def ledger_op_def applyIncrementalSnapshot_def)
  next
    case (FullSnapshot s)
    then show ?thesis
      using run same full_exact[OF c(4,3)] assms(2) by (cases "sn_tables s") (auto simp: run_op_def ledger_op_def applyFullSnapshot_def)
  next
    case (Dispensers rows)
    then show ?thesis using run same c(1) by (cases rows) (auto simp: run_op_def applyDispensersReplace_def)
  next
    case (RollBack h)
    then show ?thesis using run rollback_exact[OF assms(4), of rc h ss'] c by (simp add: run_op_def rollback_def)
  qed
qed

lemma op_exact:
  assumes "indexer_replica cfg rc" "ledger_op cfg op" "balances_exact (bc_cast cfg) (ss_store ss)" "ledger_tables (ss_store ss)" "honest_faults ss"
    and run: "run_op cfg rc op ss = (r, ss')"
  shows "balances_exact (bc_cast cfg) (ss_store ss') \<and> ledger_tables (ss_store ss')"
proof (cases r)
  case (Some e)
  then show ?thesis using run_op_undone run assms(3,4) by simp
next
  case None
  have "firm (run_op cfg rc op)" using assms(1) run_op_firm by (simp add: indexer_replica_def)
  from firm_cases(2)[OF this assms(5) run] have "run_op cfg rc op (at_rest (ss_store ss)) = (None, at_rest (ss_store ss'))" using None by simp
  from op_undisturbed_exact[OF assms(1-4) this] show ?thesis using ledger_tables_schema assms(4) by (auto simp: at_rest_def)
qed

text \<open>(C3) The balances of a replica are always those of its ledger rows: from a replica whose balances are exact, every sequence
  of live blocks, incremental and full snapshots and rollbacks, whatever the server answers to any statement of any of them, leaves
  exact balances, although a block rebuilds only the pairs it touches.  No payload carries balances or rewrites ledger rows except a
  full snapshot, whose own balances are exact.\<close>

theorem balances_always_exact:
  assumes "indexer_replica cfg rc" "balances_exact (bc_cast cfg) st" "ledger_tables st"
    and "\<forall>(op, faults) \<in> set ops. ledger_op cfg op \<and> honest_faults \<lparr>ss_store = st, ss_faults = faults\<rparr>"
  shows "balances_exact (bc_cast cfg) (run_ops cfg rc ops st)"
  using assms(2-)
proof (induction ops arbitrary: st)
  case (Cons x ops)
  obtain op faults where x: "x = (op, faults)" by (cases x)
  let ?ss = "\<lparr>ss_store = st, ss_faults = faults\<rparr>"
  obtain r s' where r: "run_op cfg rc op ?ss = (r, s')" by fastforce
  have "balances_exact (bc_cast cfg) (ss_store s') \<and> ledger_tables (ss_store s')"
    by (rule op_exact[OF assms(1) _ _ _ _ r]) (use Cons.prems x in auto)
  then show ?case using Cons.IH[of "ss_store s'"] Cons.prems(3) x r by (auto simp: honest_faults_def)
qed simp

text \<open>A replica that applies a block with a credit; the first attempt times out on its third statement.\<close>

definition demo_rollback :: rollback_cfg where
  "demo_rollback = demo_cfg\<lparr>rc_cast := bc_cast (demo_applier ''indexer'')\<rparr>"

definition demo_ledger_store :: store where
  "demo_ledger_store = [''balances'' \<mapsto> demo_table LEDGER_COLUMNS [], ''credits'' \<mapsto> demo_table LEDGER_COLUMNS [], ''debits'' \<mapsto> demo_table LEDGER_COLUMNS [],
     ''blocks'' \<mapsto> demo_table [''block_index'', ''block_time'', ''ledger_hash_id'', ''actions_hash_id'', ''contract_hash_id'', ''state_hash_id''] [],
     ''index_transactions'' \<mapsto> demo_table [''id'', ''hash''] []]"

definition demo_credit_block :: block_payload where
  "demo_credit_block = \<lparr>bp_block = Some 7, bp_data = Some [(''blocks'', [[(''block_index'', VNum 7)]]),
     (''credits'', [[(''address_id'', VNum 1), (''tick_id'', VNum 2), (''amount'', VText ''5'')]])], bp_version = Some 21, bp_updated = []\<rparr>"

definition demo_ops :: "(replica_op \<times> int option list) list" where
  "demo_ops = [(LiveBlock demo_credit_block, [None, None, Some 1205]), (LiveBlock demo_credit_block, []), (LiveBlock demo_credit_block, [])]"

theorem balances_always_exact_witness:
  "balances_exact (bc_cast (demo_applier ''indexer'')) (run_ops (demo_applier ''indexer'') demo_rollback demo_ops demo_ledger_store)"
proof -
  have n: "keeps (untouched T) (in_order [])" for T by (rule untouched.nothing_keeps)
  have i: "indexer_replica (demo_applier ''indexer'') demo_rollback"
    using n steps_firm(1) by (simp add: indexer_replica_def demo_applier_def demo_rollback_def firm_roots_def roots_apart_def LEDGER_def)
  have e: "balances_exact (bc_cast (demo_applier ''indexer'')) demo_ledger_store" "ledger_tables demo_ledger_store" by code_simp+
  have p: "ledger_payload [(''blocks'', [[(''block_index'', VNum 7)]]), (''credits'', [[(''address_id'', VNum 1), (''tick_id'', VNum 2), (''amount'', VText ''5'')]])] []"
    by code_simp
  have o: "\<forall>(op, faults) \<in> set demo_ops. ledger_op (demo_applier ''indexer'') op \<and> honest_faults \<lparr>ss_store = demo_ledger_store, ss_faults = faults\<rparr>"
    using p by (simp add: demo_ops_def ledger_op_def demo_credit_block_def honest_faults_def isSchemaGapError_def)
  show ?thesis by (rule balances_always_exact[OF i e o])
qed

end
