(* ===== verification/Server_Poller.thy ===== *)
theory Server_Poller
  imports Transparency_Log Client_State
begin

text \<open>
  The poller of the server (\<^verbatim>\<open>src/src/server/poller.js\<close> with \<^verbatim>\<open>poller/reorg_window_seed.js\<close> and \<^verbatim>\<open>poller/retroactive_rewind.js\<close>): the cursor, the
  recorded identities of the blocks it broadcast, the reorg markers of the source, the two ways a rewritten chain shows, the walk back
  to the fork, and the forward stream over one pinned snapshot.  Every read of the source sees the source of its moment: a world gives the
  answer to the n-th request, a view of the source or a fault.  Values of JSON columns are given parsed.  The status page, the advisory id
  ceilings and the reads for databases without range queries are left out.
\<close>

section \<open>The source and its answers\<close>

record hash_row =
  hr_meta :: meta_row
  hr_block_hash :: "string option"
  hr_state :: "string option"

record source_event =
  se_id :: int
  se_code :: string
  se_data :: jsv

record source_view =
  sv_rows :: "hash_row list"
  sv_events :: "source_event list"

text \<open>A refused request, with the number of its statements that were run before.\<close>

datatype reply = View source_view | Refused nat

type_synonym world = "nat \<Rightarrow> reply"

definition source_tip :: "source_view \<Rightarrow> int option" where
  "source_tip s = sql_max (map (mt_block \<circ> hr_meta) (sv_rows s))"

definition getBlockHashRow :: "source_view \<Rightarrow> int \<Rightarrow> hash_row option" where
  "getBlockHashRow s h = find (\<lambda>r. mt_block (hr_meta r) = h) (sv_rows s)"

definition row_identity :: "bool \<Rightarrow> hash_row \<Rightarrow> string option" where
  "row_identity decoder r = (if decoder then hr_block_hash r else blockIdentity (Some (hr_meta r)))"

definition source_identity :: "bool \<Rightarrow> source_view \<Rightarrow> int \<Rightarrow> string option" where
  "source_identity decoder s h = Option.bind (getBlockHashRow s h) (row_identity decoder)"

section \<open>Retroactive rewinds\<close>

record replay_marker =
  rm_target :: int
  rm_replay_to :: int
  rm_rules_to :: string
  rm_state :: string

definition marker_digest :: "string \<Rightarrow> bool" where
  "marker_digest s = (length s = 64 \<and> list_all (\<lambda>c. is_digit c \<or> c \<in> set ''abcdef'') s)"

definition text_prop :: "(string \<times> jsv) list \<Rightarrow> string \<Rightarrow> string option" where
  "text_prop fs k = (case own fs k of JStr s \<Rightarrow> Some s | _ \<Rightarrow> None)"

definition integer_prop :: "(string \<times> jsv) list \<Rightarrow> string \<Rightarrow> int option" where
  "integer_prop fs k = (case own fs k of JNum (Fin q) \<Rightarrow> if of_int \<lfloor>q\<rfloor> = q then Some \<lfloor>q\<rfloor> else None | _ \<Rightarrow> None)"

definition canonicalReplayMarker :: "jsv \<Rightarrow> replay_marker res" where
  "canonicalReplayMarker marker =
     (case marker of
        JObj fs \<Rightarrow>
          (case safe_integer (own fs ''target'') of
             None \<Rightarrow> Inl ''target must be a non-negative safe integer''
           | Some target \<Rightarrow>
               if target < 0 then Inl ''target must be a non-negative safe integer''
               else (case integer_prop fs ''replay_to'' of
                  None \<Rightarrow> Inl ''replay_to must be an integer at or above target''
                | Some replay_to \<Rightarrow>
                    if replay_to < target then Inl ''replay_to must be an integer at or above target''
                    else (case (text_prop fs ''rules_from'', text_prop fs ''rules_to'', text_prop fs ''state'') of
                       (Some from, Some rules_to, Some state) \<Rightarrow>
                         if \<not> marker_digest from then Inl ''rules_from must be a 64-character lowercase hex digest''
                         else if \<not> marker_digest rules_to then Inl ''rules_to must be a 64-character lowercase hex digest''
                         else if state \<notin> {''pending'', ''replaying'', ''replayed''} then Inl ''state is not a replay state''
                         else Inr \<lparr>rm_target = target, rm_replay_to = replay_to, rm_rules_to = rules_to, rm_state = state\<rparr>
                     | _ \<Rightarrow> Inl ''replay marker text'')))
      | _ \<Rightarrow> Inl ''replay marker must be an object'')"

text \<open>The newest replay marker of the source.\<close>

definition getSourceReplayMarker :: "source_view \<Rightarrow> replay_marker option res" where
  "getSourceReplayMarker s =
     (case rev (sort_key se_id (filter (\<lambda>e. se_code e = ''CONSENSUS_RETRO_REPLAY'') (sv_events s))) of
        [] \<Rightarrow> Inr None
      | e # _ \<Rightarrow> rbind (canonicalReplayMarker (se_data e)) (\<lambda>m. Inr (Some m)))"

definition retroactiveFromRules :: "replay_marker option \<Rightarrow> retroactive option" where
  "retroactiveFromRules marker =
     (case marker of
        None \<Rightarrow> None
      | Some m \<Rightarrow> if rm_state m \<noteq> ''pending'' \<and> rm_state m \<noteq> ''replaying'' then None
          else Some \<lparr>ra_target = rm_target m, ra_rules_to = rm_rules_to m\<rparr>)"

definition retroactiveForkPoint :: "retroactive option \<Rightarrow> int \<Rightarrow> int" where
  "retroactiveForkPoint retro walkBack = (case retro of None \<Rightarrow> walkBack | Some r \<Rightarrow> ra_target r)"

section \<open>State\<close>

record block_message =
  bm_meta :: meta_row
  bm_block_hash :: "string option"
  bm_state :: "string option"

datatype stream_event = BlockSent int "string option" block_message | ReorgSent int "retroactive option"

text \<open>\<open>pl_clock\<close> counts the requests made so far, \<open>pl_sent\<close> what was broadcast.\<close>

record poller =
  pl_last :: "int option"
  pl_hash :: "string option"
  pl_event :: "int option"
  pl_markers :: bool
  pl_recent :: "int \<rightharpoonup> string option"
  pl_log :: log_db
  pl_sent :: "stream_event list"
  pl_clock :: nat

record poller_cfg =
  pc_decoder :: bool
  pc_cap :: int
  pc_log :: "tlog option"
  pc_hash :: hash_fn

definition tick :: "poller \<Rightarrow> poller" where
  "tick p = p\<lparr>pl_clock := Suc (pl_clock p)\<rparr>"

definition send :: "stream_event \<Rightarrow> poller \<Rightarrow> poller" where
  "send e p = p\<lparr>pl_sent := pl_sent p @ [e]\<rparr>"

text \<open>A strict read throws on a fault; a fail-soft one takes it as no row.\<close>

definition strict_read :: "world \<Rightarrow> (source_view \<Rightarrow> 'a res) \<Rightarrow> poller \<Rightarrow> 'a res \<times> poller" where
  "strict_read w f p = (case w (pl_clock p) of Refused _ \<Rightarrow> (Inl ''query failed'', tick p) | View s \<Rightarrow> (f s, tick p))"

definition sourceBlockHash :: "poller_cfg \<Rightarrow> world \<Rightarrow> int \<Rightarrow> poller \<Rightarrow> string option \<times> poller" where
  "sourceBlockHash cfg w h p = (case w (pl_clock p) of Refused _ \<Rightarrow> (None, tick p) | View s \<Rightarrow> (source_identity (pc_decoder cfg) s h, tick p))"

section \<open>The log\<close>

definition prune_log :: "poller_cfg \<Rightarrow> world \<Rightarrow> int \<Rightarrow> poller \<Rightarrow> unit res \<times> poller" where
  "prune_log cfg w h p =
     (case pc_log cfg of
        None \<Rightarrow> (Inr (), p)
      | Some lg \<Rightarrow>
          (case w (pl_clock p) of
             Refused k \<Rightarrow> (Inl ''prune failed'', (tick p)\<lparr>pl_log := pruneFrom_faulted k lg h (pl_log p)\<rparr>)
           | View _ \<Rightarrow> (Inr (), (tick p)\<lparr>pl_log := pruneFrom lg h (pl_log p)\<rparr>)))"

definition record_log :: "poller_cfg \<Rightarrow> world \<Rightarrow> meta_row \<Rightarrow> poller \<Rightarrow> unit res \<times> poller" where
  "record_log cfg w r p =
     (case pc_log cfg of
        None \<Rightarrow> (Inr (), p)
      | Some lg \<Rightarrow>
          (case w (pl_clock p) of
             Refused _ \<Rightarrow> (Inl ''record failed'', tick p)
           | View _ \<Rightarrow> (Inr (), (tick p)\<lparr>pl_log := recordBlock (pc_hash cfg) lg r (pl_log p)\<rparr>)))"

section \<open>Reorgs\<close>

function resolveForkPoint :: "poller_cfg \<Rightarrow> world \<Rightarrow> int \<Rightarrow> poller \<Rightarrow> int \<times> poller" where
  "resolveForkPoint cfg w fork p =
     (if fork - 1 \<ge> 1
      then (case pl_recent p (fork - 1) of
          None \<Rightarrow> (fork, p)
        | Some recorded \<Rightarrow>
            (case sourceBlockHash cfg w (fork - 1) p of (below, p1) \<Rightarrow>
               if below \<noteq> None \<and> below \<noteq> recorded then resolveForkPoint cfg w (fork - 1) p1 else (fork, p1)))
      else (fork, p))"
  by pat_completeness auto
termination by (relation "measure (\<lambda>(cfg, w, fork, p). nat fork)") auto

text \<open>The guard after a rewind: the recorded identity, or the source's own where none is recorded.\<close>

definition recorded_or_source :: "poller_cfg \<Rightarrow> world \<Rightarrow> int \<Rightarrow> poller \<Rightarrow> poller" where
  "recorded_or_source cfg w h p =
     (case pl_recent p h of
        Some x \<Rightarrow> p\<lparr>pl_hash := x\<rparr>
      | None \<Rightarrow> (case sourceBlockHash cfg w h p of (x, p1) \<Rightarrow> p1\<lparr>pl_hash := x\<rparr>))"

definition reorg_to :: "poller_cfg \<Rightarrow> world \<Rightarrow> int \<Rightarrow> retroactive option \<Rightarrow> (poller \<Rightarrow> poller) \<Rightarrow> poller \<Rightarrow> unit res \<times> poller" where
  "reorg_to cfg w fork retro seed p =
     (case prune_log cfg w fork p of
        (Inl e, p1) \<Rightarrow> (Inl e, p1)
      | (Inr _, p1) \<Rightarrow> (Inr (), seed ((send (ReorgSent fork retro) p1)\<lparr>pl_last := Some (fork - 1)\<rparr>)))"

text \<open>The height named by a marker, as \<^verbatim>\<open>reorgMarkerBlock\<close> reads it.\<close>

definition reorgMarkerBlock :: "source_event \<Rightarrow> int res" where
  "reorgMarkerBlock e =
     (case safe_integer (JNum (js_Number (case se_data e of JObj fs \<Rightarrow> own fs ''block_index'' | JArr _ \<Rightarrow> JUndef | v \<Rightarrow> v))) of
        Some n \<Rightarrow> if n < 1 then Inl ''invalid REORG marker'' else Inr n
      | None \<Rightarrow> Inl ''invalid REORG marker'')"

definition marker_height :: "source_event \<Rightarrow> int res" where
  "marker_height e = (if se_id e < 1 then Inl ''invalid REORG marker'' else reorgMarkerBlock e)"

definition readLatestEventId :: "source_view \<Rightarrow> int option res" where
  "readLatestEventId s =
     (case sql_max (map se_id (sv_events s)) of
        None \<Rightarrow> Inr None
      | Some n \<Rightarrow> if n < 1 \<or> n > 2 ^ 53 - 1 then Inl ''invalid events cursor'' else Inr (Some n))"

definition initializeReorgMarkerCursor :: "poller_cfg \<Rightarrow> world \<Rightarrow> poller \<Rightarrow> unit res \<times> poller" where
  "initializeReorgMarkerCursor cfg w p =
     (if pc_decoder cfg then (Inr (), p)
      else (case strict_read w readLatestEventId p of
          (Inl e, p1) \<Rightarrow> (Inl e, p1)
        | (Inr x, p1) \<Rightarrow> (Inr (), p1\<lparr>pl_event := x, pl_markers := True\<rparr>)))"

definition readNewReorgMarkers :: "poller_cfg \<Rightarrow> world \<Rightarrow> poller \<Rightarrow> (source_event list \<times> int option) res \<times> poller" where
  "readNewReorgMarkers cfg w p =
     (if \<not> pl_markers p \<or> pc_decoder cfg then (Inr ([], pl_event p), p)
      else (case strict_read w readLatestEventId p of
          (Inl e, p1) \<Rightarrow> (Inl e, p1)
        | (Inr newest, p1) \<Rightarrow>
            (case newest of
               None \<Rightarrow> (Inr ([], None), p1)
             | Some n \<Rightarrow>
                 if pl_event p = Some n then (Inr ([], Some n), p1)
                 else if (case pl_event p of Some k \<Rightarrow> n < k | None \<Rightarrow> False) then (Inl ''events cursor moved backwards'', p1)
                 else strict_read w (\<lambda>s. Inr (filter (\<lambda>e. se_code e = ''REORG'')
                     (filter (\<lambda>e. (case pl_event p of Some k \<Rightarrow> k | None \<Rightarrow> 0) < se_id e \<and> se_id e \<le> n) (sv_events s)), Some n)) p1)))"

text \<open>True when the poll ends here.\<close>

definition handleReorgMarkers :: "poller_cfg \<Rightarrow> world \<Rightarrow> int \<Rightarrow> poller \<Rightarrow> bool res \<times> poller" where
  "handleReorgMarkers cfg w c p =
     (case readNewReorgMarkers cfg w p of
        (Inl e, p1) \<Rightarrow> (Inl e, p1)
      | (Inr (markers, newest), p1) \<Rightarrow>
          if markers = [] then (Inr False, p1\<lparr>pl_event := newest\<rparr>)
          else (case rtraverse marker_height markers of
              Inl e \<Rightarrow> (Inl e, p1)
            | Inr heights \<Rightarrow>
                (let fork = foldl min (hd heights) heights in
                 if fork > c then (Inr False, p1\<lparr>pl_event := newest\<rparr>)
                 else (case reorg_to cfg w fork None (\<lambda>q. recorded_or_source cfg w (fork - 1) (q\<lparr>pl_event := newest\<rparr>)) p1 of
                     (Inl e, p2) \<Rightarrow> (Inl e, p2)
                   | (Inr _, p2) \<Rightarrow> (Inr True, p2)))))"

definition handleNetForwardReorg :: "poller_cfg \<Rightarrow> world \<Rightarrow> int \<Rightarrow> string \<Rightarrow> poller \<Rightarrow> bool res \<times> poller" where
  "handleNetForwardReorg cfg w c guard p =
     (case sourceBlockHash cfg w c p of (src, p1) \<Rightarrow>
        if src = None \<or> src = Some guard then (Inr False, p1)
        else (case resolveForkPoint cfg w c p1 of (fork, p2) \<Rightarrow>
           (case reorg_to cfg w fork None
               (\<lambda>q. q\<lparr>pl_hash := (if fork - 1 \<ge> 0 then (case pl_recent q (fork - 1) of Some x \<Rightarrow> x | None \<Rightarrow> None) else None)\<rparr>) p2 of
              (Inl e, p3) \<Rightarrow> (Inl e, p3)
            | (Inr _, p3) \<Rightarrow> (Inr True, p3))))"

definition handleHeightDropReorg :: "poller_cfg \<Rightarrow> world \<Rightarrow> int \<Rightarrow> poller \<Rightarrow> unit res \<times> poller" where
  "handleHeightDropReorg cfg w currentBlock p =
     (case resolveForkPoint cfg w (currentBlock + 1) p of (walkBack, p1) \<Rightarrow>
        (case strict_read w getSourceReplayMarker p1 of
           (Inl e, p2) \<Rightarrow> (Inl e, p2)
         | (Inr marker, p2) \<Rightarrow>
             (let retro = retroactiveFromRules marker; fork = retroactiveForkPoint retro walkBack in
              reorg_to cfg w fork retro (recorded_or_source cfg w (fork - 1)) p2)))"

section \<open>The forward stream\<close>

text \<open>The header of a payload; the state hash is left out while the snapshot is ahead of the block.\<close>

definition block_message_of :: "hash_row \<Rightarrow> int option \<Rightarrow> block_message" where
  "block_message_of r viewTip =
     \<lparr>bm_meta = hr_meta r, bm_block_hash = hr_block_hash r,
      bm_state = (case viewTip of Some t \<Rightarrow> if t > mt_block (hr_meta r) then None else hr_state r | None \<Rightarrow> hr_state r)\<rparr>"

definition publishBlockPayload :: "poller_cfg \<Rightarrow> hash_row \<Rightarrow> int option \<Rightarrow> int \<Rightarrow> poller \<Rightarrow> poller" where
  "publishBlockPayload cfg r viewTip b p =
     (let identity = row_identity (pc_decoder cfg) r;
          p1 = (send (BlockSent b identity (block_message_of r viewTip)) p)\<lparr>pl_hash := identity\<rparr>;
          recent = (pl_recent p)(b \<mapsto> identity) in
      p1\<lparr>pl_recent := (if b > pc_cap cfg then recent(b - pc_cap cfg - 1 := None) else recent)\<rparr>)"

definition BATCH :: nat where "BATCH = 100"

fun stream_loop :: "poller_cfg \<Rightarrow> world \<Rightarrow> source_view \<Rightarrow> int option \<Rightarrow> int \<Rightarrow> nat \<Rightarrow> int \<Rightarrow> poller \<Rightarrow> unit res \<times> poller" where
  "stream_loop cfg w snap viewTip streamTo 0 c p = (Inr (), p)"
| "stream_loop cfg w snap viewTip streamTo (Suc n) c p =
     (if c < streamTo
      then (case w (pl_clock p) of
          Refused _ \<Rightarrow> (Inl ''query failed'', tick p)
        | View _ \<Rightarrow>
            (case getBlockHashRow snap (c + 1) of
               None \<Rightarrow> stream_loop cfg w snap viewTip streamTo n (c + 1) ((tick p)\<lparr>pl_hash := None, pl_last := Some (c + 1)\<rparr>)
             | Some r \<Rightarrow>
                 (case record_log cfg w (hr_meta r) (tick p) of
                    (Inl e, p1) \<Rightarrow> (Inl e, p1)
                  | (Inr _, p1) \<Rightarrow>
                      stream_loop cfg w snap viewTip streamTo n (c + 1) ((publishBlockPayload cfg r viewTip (c + 1) p1)\<lparr>pl_last := Some (c + 1)\<rparr>))))
      else (Inr (), p))"

text \<open>One pinned snapshot serves the batch; its release may fail after the blocks are out.\<close>

definition streamNewBlocks :: "poller_cfg \<Rightarrow> world \<Rightarrow> int \<Rightarrow> int \<Rightarrow> poller \<Rightarrow> unit res \<times> poller" where
  "streamNewBlocks cfg w currentBlock c p =
     (case w (pl_clock p) of
        Refused _ \<Rightarrow> (Inl ''snapshot failed'', tick p)
      | View snap \<Rightarrow>
          (case strict_read w (\<lambda>_. Inr (source_tip snap)) (tick p) of
             (Inl e, p1) \<Rightarrow> (Inl e, p1)
           | (Inr snapTip, p1) \<Rightarrow>
               (case stream_loop cfg w snap snapTip (case snapTip of Some t \<Rightarrow> t | None \<Rightarrow> currentBlock) BATCH c p1 of
                  (r, p2) \<Rightarrow> (case strict_read w (\<lambda>_. Inr ()) p2 of (Inl e, p3) \<Rightarrow> (Inl e, p3) | (Inr _, p3) \<Rightarrow> (r, p3)))))"

section \<open>One poll\<close>

definition initializePollCursor :: "poller_cfg \<Rightarrow> world \<Rightarrow> int \<Rightarrow> poller \<Rightarrow> poller" where
  "initializePollCursor cfg w t p = (case sourceBlockHash cfg w t (p\<lparr>pl_last := Some t\<rparr>) of (x, p1) \<Rightarrow> p1\<lparr>pl_hash := x\<rparr>)"

definition poll_forward :: "poller_cfg \<Rightarrow> world \<Rightarrow> int \<Rightarrow> int \<Rightarrow> poller \<Rightarrow> unit res \<times> poller" where
  "poll_forward cfg w t c p =
     (if t < c then handleHeightDropReorg cfg w t p
      else if c < t then streamNewBlocks cfg w t c p
      else (Inr (), p))"

definition poll :: "poller_cfg \<Rightarrow> world \<Rightarrow> poller \<Rightarrow> unit res \<times> poller" where
  "poll cfg w p =
     (case strict_read w (\<lambda>s. Inr (source_tip s)) p of
        (Inl e, p1) \<Rightarrow> (Inl e, p1)
      | (Inr None, p1) \<Rightarrow> (Inr (), p1)
      | (Inr (Some t), p1) \<Rightarrow>
          (case pl_last p1 of
             None \<Rightarrow> (Inr (), initializePollCursor cfg w t p1)
           | Some c \<Rightarrow>
               (case handleReorgMarkers cfg w c p1 of
                  (Inl e, p2) \<Rightarrow> (Inl e, p2)
                | (Inr True, p2) \<Rightarrow> (Inr (), p2)
                | (Inr False, p2) \<Rightarrow>
                    (case pl_hash p2 of
                       None \<Rightarrow> poll_forward cfg w t c p2
                     | Some guard \<Rightarrow>
                         (case handleNetForwardReorg cfg w c guard p2 of
                            (Inl e, p3) \<Rightarrow> (Inl e, p3)
                          | (Inr True, p3) \<Rightarrow> (Inr (), p3)
                          | (Inr False, p3) \<Rightarrow> poll_forward cfg w t c p3)))))"

section \<open>Start\<close>

text \<open>\<^verbatim>\<open>resumeCursor\<close>: the high-water mark of the log, or the tip of the source where there is none.\<close>

definition resumeCursor :: "poller_cfg \<Rightarrow> world \<Rightarrow> poller \<Rightarrow> int option \<times> poller" where
  "resumeCursor cfg w p =
     (case pc_log cfg of
        Some _ \<Rightarrow> (getHighWaterMark (pl_log p), p)
      | None \<Rightarrow> (case w (pl_clock p) of Refused _ \<Rightarrow> (None, tick p) | View s \<Rightarrow> (source_tip s, tick p)))"

definition seedReorgGuardHash :: "poller_cfg \<Rightarrow> world \<Rightarrow> int \<Rightarrow> poller \<Rightarrow> string option \<times> poller" where
  "seedReorgGuardHash cfg w c p =
     (case (pc_log cfg, getRecordedHash (pl_log p) c) of
        (Some _, Some x) \<Rightarrow> (Some x, p)
      | _ \<Rightarrow> sourceBlockHash cfg w c p)"

text \<open>The durable identities of a range of heights, of the log or of the source.\<close>

definition readReorgWindow :: "poller_cfg \<Rightarrow> world \<Rightarrow> int \<Rightarrow> int \<Rightarrow> poller \<Rightarrow> (int \<times> string option) list res \<times> poller" where
  "readReorgWindow cfg w low c p =
     (case pc_log cfg of
        Some _ \<Rightarrow> (Inr (map (\<lambda>r. (mt_block r, blockIdentity (Some r))) (findSyncMetaLeaves (pl_log p) low c)), p)
      | None \<Rightarrow> strict_read w (\<lambda>s. Inr (map (\<lambda>r. (mt_block (hr_meta r), hr_block_hash r))
          (filter (\<lambda>r. low \<le> mt_block (hr_meta r) \<and> mt_block (hr_meta r) \<le> c) (sv_rows s)))) p)"

text \<open>The unbroken run of identities below the cursor, from the highest height down.\<close>

fun seed_suffix :: "(int \<times> string option) list \<Rightarrow> nat \<Rightarrow> int \<Rightarrow> (int \<times> string) list" where
  "seed_suffix hashes 0 h = []"
| "seed_suffix hashes (Suc n) h =
     (case map_of (rev hashes) h of Some (Some x) \<Rightarrow> (h, x) # seed_suffix hashes n (h - 1) | _ \<Rightarrow> [])"

definition seedReorgWindow :: "poller_cfg \<Rightarrow> world \<Rightarrow> poller \<Rightarrow> unit res \<times> poller" where
  "seedReorgWindow cfg w p =
     (case pl_last p of
        None \<Rightarrow> (Inr (), p\<lparr>pl_hash := None\<rparr>)
      | Some c \<Rightarrow>
          (let low = max 1 (c - pc_cap cfg + 1) in
           (case readReorgWindow cfg w low c p of
              (Inl e, p1) \<Rightarrow> (Inl e, p1)
            | (Inr rows, p1) \<Rightarrow>
                (let suffix = seed_suffix rows (nat (c - low + 1)) c;
                     p2 = p1\<lparr>pl_recent := fold (\<lambda>(h, x) m. m(h \<mapsto> Some x)) (rev suffix) (pl_recent p1)\<rparr> in
                 case suffix of
                   (_, x) # _ \<Rightarrow> (Inr (), p2\<lparr>pl_hash := Some x\<rparr>)
                 | [] \<Rightarrow> (case seedReorgGuardHash cfg w c p2 of (x, p3) \<Rightarrow> (Inr (), p3\<lparr>pl_hash := x\<rparr>))))))"

text \<open>The repair of the gaps of the log.  The first answer serves the reads, a row it cannot read counting as gone; the second is for the
  writes, of which a fault leaves the first ones.  A failure is logged and polling goes on.\<close>

definition backfill_faulted :: "nat \<Rightarrow> hash_fn \<Rightarrow> tlog \<Rightarrow> log_db \<Rightarrow> log_db" where
  "backfill_faulted k H lg db =
     (if readOnly lg then db
      else (let gaps = findGaps db; (db1, epochs) = backfill_loop H lg (take k gaps) db []; hwm = getHighWaterMark db1;
                completed = (case hwm of None \<Rightarrow> epochs | Some h \<Rightarrow> filter (\<lambda>e. e * epochSize lg \<le> h) epochs) in
            foldl (\<lambda>d e. recommitEpoch H lg e hwm d) db1 (take (k - length gaps) completed)))"

definition repair_gaps :: "poller_cfg \<Rightarrow> world \<Rightarrow> poller \<Rightarrow> poller" where
  "repair_gaps cfg w p =
     (case pc_log cfg of
        None \<Rightarrow> p
      | Some lg \<Rightarrow>
          (case w (pl_clock p) of
             Refused _ \<Rightarrow> tick p
           | View s \<Rightarrow>
               (let db = (pl_log p)\<lparr>src_rows := map hr_meta (sv_rows s)\<rparr> in
                (tick (tick p))\<lparr>pl_log := (case w (Suc (pl_clock p)) of
                   View _ \<Rightarrow> snd (backfillGaps (pc_hash cfg) lg db) | Refused k \<Rightarrow> backfill_faulted k (pc_hash cfg) lg db)\<rparr>)))"

definition start :: "poller_cfg \<Rightarrow> world \<Rightarrow> poller \<Rightarrow> unit res \<times> poller" where
  "start cfg w p =
     (case initializeReorgMarkerCursor cfg w p of
        (Inl e, p1) \<Rightarrow> (Inl e, p1)
      | (Inr _, p1) \<Rightarrow> (case resumeCursor cfg w p1 of (c, p2) \<Rightarrow>
          (case seedReorgWindow cfg w (p2\<lparr>pl_last := c\<rparr>) of
             (Inl e, p3) \<Rightarrow> (Inl e, p3)
           | (Inr _, p3) \<Rightarrow> (Inr (), repair_gaps cfg w p3))))"

definition fresh_poller :: "log_db \<Rightarrow> nat \<Rightarrow> poller" where
  "fresh_poller db n = \<lparr>pl_last = None, pl_hash = None, pl_event = None, pl_markers = False, pl_recent = Map.empty, pl_log = db, pl_sent = [], pl_clock = n\<rparr>"

fun polls :: "poller_cfg \<Rightarrow> world \<Rightarrow> nat \<Rightarrow> poller \<Rightarrow> poller" where
  "polls cfg w 0 p = p"
| "polls cfg w (Suc n) p = polls cfg w n (snd (poll cfg w p))"

end
