(* ===== verification/Poller_Proofs.thy ===== *)
theory Poller_Proofs
  imports Server_Poller
begin

text \<open>
  What the subscribers of a poller hold.  Over every sequence of views of a source without gaps, and of faults, the broadcast blocks are
  consecutive, a reorg never names a height above the last one sent, and each recorded identity at or below the cursor is the one the
  subscribers hold, until a reorg goes out that a replay marker of the source sends outside the broadcast chain: a drop in height under an
  active marker rewinds to the marker's target, which the code does not compare with its cursor.
\<close>

section \<open>What subscribers hold\<close>

fun deliver :: "stream_event \<Rightarrow> (int \<rightharpoonup> string option) \<Rightarrow> (int \<rightharpoonup> string option)" where
  "deliver (BlockSent h x m) F = F(h \<mapsto> x)"
| "deliver (ReorgSent f r) F = (\<lambda>h. if h < f then F h else None)"

lemma deliver_reorg [simp]: "deliver (ReorgSent f r) F = F |` {..<f}"
  by (rule ext) (simp add: restrict_map_def)

declare deliver.simps(2) [simp del]

definition held :: "(int \<rightharpoonup> string option) \<Rightarrow> poller \<Rightarrow> (int \<rightharpoonup> string option)" where
  "held F0 p = fold deliver (pl_sent p) F0"

text \<open>The height a subscriber stands at: the next block is one above, a reorg starts at or below it.\<close>

fun follow_step :: "int option \<Rightarrow> stream_event \<Rightarrow> int option" where
  "follow_step None e = None"
| "follow_step (Some c) (BlockSent h x m) = (if h = c + 1 then Some h else None)"
| "follow_step (Some c) (ReorgSent f r) = (if f \<le> c then Some (f - 1) else None)"

definition followed :: "int \<Rightarrow> stream_event list \<Rightarrow> int option" where
  "followed c es = foldl follow_step (Some c) es"

text \<open>The events lead to \<open>c\<close> from the cursor that the start set; where it set none, from the one the first poll took.\<close>

definition starts_from :: "int option \<Rightarrow> stream_event list \<Rightarrow> int \<Rightarrow> bool" where
  "starts_from base es c = (case base of Some b \<Rightarrow> followed b es = Some c | None \<Rightarrow> \<exists>b. followed b es = Some c)"

lemma starts_from_nil [simp]: "starts_from base [] c \<longleftrightarrow> base = None \<or> base = Some c"
  by (auto simp: starts_from_def followed_def split: option.splits)

lemma starts_from_snoc: "starts_from base es c \<Longrightarrow> follow_step (Some c) e = Some c' \<Longrightarrow> starts_from base (es @ [e]) c'"
  by (cases base) (auto simp: starts_from_def followed_def, metis)

section \<open>The recorded window\<close>

definition window :: "int \<Rightarrow> int \<Rightarrow> (int \<rightharpoonup> string option) \<Rightarrow> int \<Rightarrow> (int \<rightharpoonup> string option) \<Rightarrow> bool" where
  "window cap lo F c recent \<longleftrightarrow>
     (\<forall>h. recent h \<noteq> None \<longrightarrow> lo \<le> h \<and> recent h \<noteq> Some None) \<and>
     (\<forall>h \<le> c. recent h \<noteq> None \<longrightarrow> c - cap \<le> h \<and> F h = recent h \<and> (\<forall>h'. h \<le> h' \<longrightarrow> h' \<le> c \<longrightarrow> recent h' \<noteq> None))"

lemma window_rewind:
  assumes "window cap lo F c recent" "f \<le> c + 1"
  shows "window cap lo (F |` {..<f}) (f - 1) recent"
proof -
  have "f - 1 - cap \<le> h \<and> (F |` {..<f}) h = recent h \<and> (\<forall>h'. h \<le> h' \<longrightarrow> h' \<le> f - 1 \<longrightarrow> recent h' \<noteq> None)" if "h \<le> f - 1" "recent h \<noteq> None" for h
  proof -
    have "h \<le> c" using that(1) assms(2) by simp
    then have "c - cap \<le> h \<and> F h = recent h \<and> (\<forall>h'. h \<le> h' \<longrightarrow> h' \<le> c \<longrightarrow> recent h' \<noteq> None)" using assms(1) that(2) unfolding window_def by blast
    then show ?thesis using assms(2) that(1) by auto
  qed
  then show ?thesis using assms(1) unfolding window_def by blast
qed

lemma window_publish:
  assumes "window cap lo F c recent" "lo - 1 \<le> c" "0 \<le> lo" "0 \<le> cap"
  shows "window cap lo (F(c + 1 \<mapsto> Some x)) (c + 1)
    (if c + 1 > cap then (recent(c + 1 \<mapsto> Some x))(c + 1 - cap - 1 := None) else recent(c + 1 \<mapsto> Some x))" (is "window _ _ _ _ ?r")
proof -
  have lo: "\<And>h. recent h \<noteq> None \<Longrightarrow> lo \<le> h \<and> recent h \<noteq> Some None" using assms(1) unfolding window_def by blast
  have w: "c - cap \<le> h" "F h = recent h" "h \<le> h' \<Longrightarrow> h' \<le> c \<Longrightarrow> recent h' \<noteq> None" if "h \<le> c" "recent h \<noteq> None" for h h'
    using assms(1) that unfolding window_def by blast+
  have r: "?r h = (if h = c - cap \<and> c + 1 > cap then None else if h = c + 1 then Some (Some x) else recent h)" for h
    using assms(4) by auto
  have "c + 1 - cap \<le> h \<and> (F(c + 1 \<mapsto> Some x)) h = ?r h \<and> (\<forall>h'. h \<le> h' \<longrightarrow> h' \<le> c + 1 \<longrightarrow> ?r h' \<noteq> None)" if "h \<le> c + 1" "?r h \<noteq> None" for h
  proof (cases "h = c + 1")
    case True
    then show ?thesis using assms(4) unfolding r by auto
  next
    case False
    then have n: "recent h \<noteq> None" "h \<le> c" "\<not> (h = c - cap \<and> c + 1 > cap)" using that unfolding r by (auto split: if_splits)
    then have "c + 1 - cap \<le> h" using w(1)[OF n(2,1)] lo[OF n(1)] assms(3) by force
    then show ?thesis using w(2)[OF n(2,1)] w(3)[OF n(2,1)] n False assms(4) unfolding r by (auto simp: not_less)
  qed
  moreover have "\<forall>h. ?r h \<noteq> None \<longrightarrow> lo \<le> h \<and> ?r h \<noteq> Some None" using lo assms(2) unfolding r by auto
  ultimately show ?thesis unfolding window_def by blast
qed

lemma window_size:
  assumes "window cap lo F c recent" "0 \<le> cap"
  shows "card (dom recent \<inter> {..c}) \<le> nat cap + 1"
proof -
  have "dom recent \<inter> {..c} \<subseteq> {c - cap..c}" using assms(1) unfolding window_def by auto
  then have "card (dom recent \<inter> {..c}) \<le> card {c - cap..c}" by (intro card_mono) auto
  then show ?thesis using assms(2) by (simp add: nat_add_distrib)
qed

section \<open>The invariant\<close>

definition streams :: "poller_cfg \<Rightarrow> int \<Rightarrow> int option \<Rightarrow> (int \<rightharpoonup> string option) \<Rightarrow> poller \<Rightarrow> bool" where
  "streams cfg lo base F0 p \<longleftrightarrow>
     (case pl_last p of
        None \<Rightarrow> pl_sent p = [] \<and> pl_recent p = Map.empty \<and> F0 = Map.empty \<and> base = None
      | Some c \<Rightarrow>
          lo - 1 \<le> c \<and> starts_from base (pl_sent p) c \<and> window (pc_cap cfg) lo (held F0 p) c (pl_recent p) \<and>
          (\<forall>h > c. held F0 p h = None) \<and> (\<forall>x. pl_recent p c = Some x \<longrightarrow> pl_hash p = x))"

text \<open>A source without gaps from \<open>lo\<close> up, whose reorg markers name heights from \<open>lo\<close> up.\<close>

definition sound_view :: "bool \<Rightarrow> int \<Rightarrow> source_view \<Rightarrow> bool" where
  "sound_view decoder lo s \<longleftrightarrow>
     (\<exists>t \<ge> lo. source_tip s = Some t \<and> (\<forall>h. lo \<le> h \<longrightarrow> h \<le> t \<longrightarrow> source_identity decoder s h \<noteq> None)) \<and>
     (\<forall>r \<in> set (sv_rows s). lo \<le> mt_block (hr_meta r)) \<and>
     (\<forall>e \<in> set (sv_events s). \<forall>n. se_code e = ''REORG'' \<longrightarrow> reorgMarkerBlock e = Inr n \<longrightarrow> lo \<le> n)"

definition sound_world :: "bool \<Rightarrow> int \<Rightarrow> world \<Rightarrow> bool" where
  "sound_world decoder lo w \<longleftrightarrow> (\<forall>n s. w n = View s \<longrightarrow> sound_view decoder lo s)"

text \<open>A reorg outside the broadcast chain: sent for a replay marker that a view of the source carried, with a target above the height the
  events before it lead to, or below \<open>lo\<close>.\<close>

definition announced :: "world \<Rightarrow> retroactive \<Rightarrow> bool" where
  "announced w r \<longleftrightarrow> (\<exists>n s m. w n = View s \<and> getSourceReplayMarker s = Inr m \<and> retroactiveFromRules m = Some r)"

definition strayed :: "int \<Rightarrow> world \<Rightarrow> int option \<Rightarrow> stream_event list \<Rightarrow> bool" where
  "strayed lo w base es \<longleftrightarrow>
     (\<exists>xs ys r c. es = xs @ ReorgSent (ra_target r) (Some r) # ys \<and> announced w r \<and> starts_from base xs c \<and> (ra_target r < lo \<or> c < ra_target r))"

lemma strayed_append: "strayed lo w base es \<Longrightarrow> strayed lo w base (es @ zs)"
  unfolding strayed_def by (metis append.assoc append_Cons)

lemma identity_in_rows: "sound_view d lo s \<Longrightarrow> source_identity d s h \<noteq> None \<Longrightarrow> lo \<le> h"
  by (auto simp: sound_view_def source_identity_def getBlockHashRow_def Option.bind_eq_Some_conv find_Some_iff)

lemma tick_simps [simp]: "pl_last (tick p) = pl_last p" "pl_hash (tick p) = pl_hash p" "pl_event (tick p) = pl_event p" "pl_markers (tick p) = pl_markers p"
  "pl_recent (tick p) = pl_recent p" "pl_log (tick p) = pl_log p" "pl_sent (tick p) = pl_sent p"
  by (simp_all add: tick_def)

lemma send_simps [simp]: "pl_last (send e p) = pl_last p" "pl_hash (send e p) = pl_hash p" "pl_event (send e p) = pl_event p" "pl_markers (send e p) = pl_markers p"
  "pl_recent (send e p) = pl_recent p" "pl_log (send e p) = pl_log p" "pl_sent (send e p) = pl_sent p @ [e]"
  by (simp_all add: send_def)

text \<open>Steps that leave the stream alone.\<close>

definition alike :: "poller \<Rightarrow> poller \<Rightarrow> bool" where
  "alike p q \<longleftrightarrow> pl_last q = pl_last p \<and> pl_hash q = pl_hash p \<and> pl_recent q = pl_recent p \<and> pl_sent q = pl_sent p"

lemma alike_refl [simp]: "alike p p" "alike p (tick p)" "alike p (p\<lparr>pl_event := e\<rparr>)" "alike p (p\<lparr>pl_log := l\<rparr>)" "alike p ((tick p)\<lparr>pl_log := l\<rparr>)"
  by (simp_all add: alike_def)

lemma alike_trans: "alike p q \<Longrightarrow> alike q r \<Longrightarrow> alike p r"
  by (simp add: alike_def)

lemma alike_held: "alike p q \<Longrightarrow> held F0 q = held F0 p"
  by (simp add: alike_def held_def)

lemma alike_streams: "alike p q \<Longrightarrow> streams cfg lo base F0 p \<Longrightarrow> streams cfg lo base F0 q"
  by (auto simp: alike_def streams_def held_def split: option.splits)

lemma strict_read_tick: "strict_read w f p = (r, q) \<Longrightarrow> q = tick p"
  by (auto simp: strict_read_def split: reply.splits)

lemma sourceBlockHash_tick: "sourceBlockHash cfg w h p = (x, q) \<Longrightarrow> q = tick p"
  by (auto simp: sourceBlockHash_def split: reply.splits)

lemma sourceBlockHash_view: "sourceBlockHash cfg w h p = (Some x, q) \<Longrightarrow> \<exists>s. w (pl_clock p) = View s \<and> source_identity (pc_decoder cfg) s h = Some x"
  by (auto simp: sourceBlockHash_def split: reply.splits)

declare resolveForkPoint.simps [simp del]

lemma resolveForkPoint_bounds:
  "resolveForkPoint cfg w fork p = (f, q) \<Longrightarrow> alike p q \<and> f \<le> fork \<and> (f = fork \<or> pl_recent p f \<noteq> None)"
proof (induction cfg w fork p arbitrary: f q rule: resolveForkPoint.induct)
  case (1 cfg w fork p)
  show ?case
  proof (cases "fork - 1 \<ge> 1 \<and> pl_recent p (fork - 1) \<noteq> None")
    case False
    then show ?thesis using 1(2) by (auto simp: resolveForkPoint.simps[of cfg w fork p] split: if_splits option.splits)
  next
    case True
    then obtain recorded where r: "pl_recent p (fork - 1) = Some recorded" by auto
    obtain below p1 where b: "sourceBlockHash cfg w (fork - 1) p = (below, p1)" by fastforce
    have a: "p1 = tick p" using sourceBlockHash_tick[OF b] .
    show ?thesis
    proof (cases "below \<noteq> None \<and> below \<noteq> recorded")
      case True
      then have "resolveForkPoint cfg w (fork - 1) p1 = (f, q)"
        using 1(2) \<open>fork - 1 \<ge> 1 \<and> _\<close> r b by (simp add: resolveForkPoint.simps[of cfg w fork p])
      from 1(1)[OF _ r b[symmetric] True this] \<open>fork - 1 \<ge> 1 \<and> _\<close> r
      show ?thesis unfolding a by (auto simp: alike_def)
    next
      case False
      then show ?thesis using 1(2) r b a by (auto simp: resolveForkPoint.simps[of cfg w fork p] split: if_splits)
    qed
  qed
qed

section \<open>Reorgs keep the invariant\<close>

lemma held_snoc: "pl_sent q = pl_sent p @ [e] \<Longrightarrow> held F0 q = deliver e (held F0 p)"
  by (simp add: held_def)

lemma prune_log_alike: "prune_log cfg w h p = (r, q) \<Longrightarrow> alike p q"
  by (auto simp: prune_log_def split: option.splits reply.splits)

lemma record_log_alike: "record_log cfg w m p = (r, q) \<Longrightarrow> alike p q"
  by (auto simp: record_log_def split: option.splits reply.splits)

text \<open>The guard that a rewind leaves behind.\<close>

definition reseeds :: "int \<Rightarrow> (poller \<Rightarrow> poller) \<Rightarrow> bool" where
  "reseeds h seed \<longleftrightarrow> (\<forall>q. pl_last (seed q) = pl_last q \<and> pl_recent (seed q) = pl_recent q \<and> pl_sent (seed q) = pl_sent q \<and>
     (\<forall>x. pl_recent q h = Some x \<longrightarrow> pl_hash (seed q) = x))"

lemma recorded_or_source_reseeds: "reseeds h (recorded_or_source cfg w h)" "reseeds h (\<lambda>q. recorded_or_source cfg w h (q\<lparr>pl_event := e\<rparr>))"
  by (auto simp: reseeds_def recorded_or_source_def split: option.splits prod.splits dest!: sourceBlockHash_tick)

lemma rewound_streams:
  assumes "streams cfg lo base F0 p" "pl_last p = Some c" "lo \<le> f" "f \<le> c"
    and "pl_last q = Some (f - 1)" "pl_recent q = pl_recent p" "pl_sent q = pl_sent p @ [ReorgSent f r]" "\<forall>x. pl_recent p (f - 1) = Some x \<longrightarrow> pl_hash q = x"
  shows "streams cfg lo base F0 q"
proof -
  have s: "starts_from base (pl_sent p) c" "window (pc_cap cfg) lo (held F0 p) c (pl_recent p)" "\<forall>h > c. held F0 p h = None"
    using assms(1,2) by (auto simp: streams_def)
  have h: "held F0 q = held F0 p |` {..<f}" using held_snoc[OF assms(7)] by simp
  have "starts_from base (pl_sent q) (f - 1)" using starts_from_snoc[OF s(1)] assms(4,7) by simp
  then show ?thesis
    using window_rewind[OF s(2), of f] assms(3-8) unfolding streams_def h by (auto simp: restrict_map_def)
qed

lemma reorg_to_streams:
  assumes "streams cfg lo base F0 p" "pl_last p = Some c" "lo \<le> f" "f \<le> c" "reseeds (f - 1) seed" "reorg_to cfg w f r seed p = (x, q)"
  shows "streams cfg lo base F0 q"
proof -
  obtain y p1 where y: "prune_log cfg w f p = (y, p1)" by fastforce
  have a: "alike p p1" using prune_log_alike[OF y] .
  show ?thesis
  proof (cases y)
    case (Inl e)
    then show ?thesis using assms(1,6) y alike_streams[OF a] by (simp add: reorg_to_def)
  next
    case (Inr u)
    then have q: "q = seed ((send (ReorgSent f r) p1)\<lparr>pl_last := Some (f - 1)\<rparr>)" using assms(6) y by (simp add: reorg_to_def)
    show ?thesis
      by (rule rewound_streams[OF assms(1-4), of q r]) (use assms(5) a in \<open>auto simp: q reseeds_def alike_def\<close>)
  qed
qed

text \<open>A reorg outside the broadcast chain; where the log cannot be cut it is not sent.\<close>

lemma reorg_strays:
  assumes "streams cfg lo base F0 p" "pl_last p = Some c" "reorg_to cfg w f (Some r) (recorded_or_source cfg w h) p = (x, q)" "f = ra_target r" "announced w r" "f < lo \<or> c < f"
  shows "streams cfg lo base F0 q \<or> strayed lo w base (pl_sent q)"
proof -
  obtain y p1 where y: "prune_log cfg w f p = (y, p1)" by fastforce
  have a: "alike p p1" using prune_log_alike[OF y] .
  show ?thesis
  proof (cases y)
    case (Inl e)
    then show ?thesis using assms(1,3) y alike_streams[OF a] by (simp add: reorg_to_def)
  next
    case (Inr u)
    then have q: "q = recorded_or_source cfg w h ((send (ReorgSent f (Some r)) p1)\<lparr>pl_last := Some (f - 1)\<rparr>)" using assms(3) y by (simp add: reorg_to_def)
    have "pl_sent q = pl_sent p @ [ReorgSent (ra_target r) (Some r)]"
      using recorded_or_source_reseeds(1)[of h cfg w] a assms(4) unfolding q by (simp add: reseeds_def alike_def)
    moreover have "starts_from base (pl_sent p) c" using assms(1,2) by (simp add: streams_def)
    ultimately show ?thesis using assms(4-6) unfolding strayed_def by blast
  qed
qed

lemma view_at: "sound_world d lo w \<Longrightarrow> w n = View s \<Longrightarrow> sound_view d lo s"
  by (simp add: sound_world_def)

lemma newMarkers:
  assumes "readNewReorgMarkers cfg w p = (Inr (ms, newest), q)" "sound_world d lo w"
  shows "alike p q \<and> (\<forall>e \<in> set ms. \<forall>n. marker_height e = Inr n \<longrightarrow> lo \<le> n)"
  using assms
  by (auto simp: readNewReorgMarkers_def strict_read_def marker_height_def sound_world_def sound_view_def alike_def
      split: if_splits prod.splits sum.splits option.splits reply.splits)

lemma newMarkers_failed: "readNewReorgMarkers cfg w p = (Inl e, q) \<Longrightarrow> alike p q"
  by (auto simp: readNewReorgMarkers_def alike_def split: if_splits prod.splits sum.splits option.splits dest!: strict_read_tick)

lemma least_height:
  assumes "rtraverse marker_height ms = Inr hs" "ms \<noteq> []" "\<forall>e \<in> set ms. \<forall>n. marker_height e = Inr n \<longrightarrow> lo \<le> n"
  shows "lo \<le> foldl min (hd hs) hs"
proof -
  have n: "length ms = length hs" "\<forall>i < length hs. marker_height (ms ! i) = Inr (hs ! i)"
    using assms(1) by (auto simp: rtraverse_Inr_iff list_all2_conv_all_nth)
  then have "lo \<le> hs ! i" if "i < length hs" for i using assms(3) that by (metis nth_mem)
  then have "hs \<noteq> []" "\<forall>n \<in> set hs. lo \<le> n" using n(1) assms(2) by (auto simp: in_set_conv_nth)
  moreover have "lo \<le> foldl min x ns" if "lo \<le> x" "\<forall>n \<in> set ns. lo \<le> n" for x and ns :: "int list"
    using that by (induction ns arbitrary: x) auto
  ultimately show ?thesis by (metis list.set_sel(1))
qed

lemma handleReorgMarkers_streams:
  assumes "streams cfg lo base F0 p" "pl_last p = Some c" "sound_world d lo w" "handleReorgMarkers cfg w c p = (x, q)"
  shows "streams cfg lo base F0 q \<and> (x = Inr False \<longrightarrow> alike p q)"
proof -
  obtain y p1 where y: "readNewReorgMarkers cfg w p = (y, p1)" by fastforce
  show ?thesis
  proof (cases y)
    case (Inl e)
    then show ?thesis using assms(1,4) y alike_streams[OF newMarkers_failed] by (auto simp: handleReorgMarkers_def)
  next
    case (Inr z)
    obtain ms newest where z: "z = (ms, newest)" by (cases z)
    note m = newMarkers[OF y[unfolded Inr z] assms(3)]
    have s1: "streams cfg lo base F0 p1" "pl_last p1 = Some c" using m alike_streams[of p p1] assms(1,2) by (auto simp: alike_def)
    have quiet: ?thesis if "x = Inr False \<or> (\<exists>e. x = Inl e)" "alike p1 q"
      using that m alike_trans alike_streams[OF that(2) s1(1)] by blast
    show ?thesis
    proof (cases "ms = []")
      case True
      then show ?thesis using assms(4) y Inr z by (intro quiet) (auto simp: handleReorgMarkers_def)
    next
      case False
      show ?thesis
      proof (cases "rtraverse marker_height ms")
        case (Inl e)
        then show ?thesis using assms(4) y Inr z False by (intro quiet) (auto simp: handleReorgMarkers_def)
      next
        case (Inr hs)
        let ?f = "foldl min (hd hs) hs"
        show ?thesis
        proof (cases "?f > c")
          case True
          then show ?thesis using assms(4) y \<open>y = Inr z\<close> z False Inr by (intro quiet) (auto simp: handleReorgMarkers_def Let_def)
        next
          case le: False
          obtain v p2 where v: "reorg_to cfg w ?f None (\<lambda>q. recorded_or_source cfg w (?f - 1) (q\<lparr>pl_event := newest\<rparr>)) p1 = (v, p2)" by fastforce
          have "streams cfg lo base F0 p2"
            by (rule reorg_to_streams[OF s1 least_height[OF Inr False] _ recorded_or_source_reseeds(2) v]) (use m le in auto)
          then show ?thesis using assms(4) y \<open>y = Inr z\<close> z False Inr le v by (cases v) (auto simp: handleReorgMarkers_def Let_def)
        qed
      qed
    qed
  qed
qed

lemma handleNetForwardReorg_streams:
  assumes "streams cfg lo base F0 p" "pl_last p = Some c" "sound_world (pc_decoder cfg) lo w" "1 \<le> lo" "handleNetForwardReorg cfg w c g p = (x, q)"
  shows "streams cfg lo base F0 q \<and> (x = Inr False \<longrightarrow> alike p q)"
proof -
  obtain src p1 where src: "sourceBlockHash cfg w c p = (src, p1)" by fastforce
  have p1: "p1 = tick p" using sourceBlockHash_tick[OF src] .
  show ?thesis
  proof (cases "src = None \<or> src = Some g")
    case True
    then show ?thesis using assms(1,5) src p1 alike_streams[OF alike_refl(2)] by (auto simp: handleNetForwardReorg_def)
  next
    case False
    obtain f p2 where f: "resolveForkPoint cfg w c p1 = (f, p2)" by fastforce
    note b = resolveForkPoint_bounds[OF f]
    have a: "alike p p2" using b p1 by (auto simp: alike_def)
    obtain x where "src = Some x" using False by (cases src) auto
    then obtain s where "w (pl_clock p) = View s" "source_identity (pc_decoder cfg) s c = Some x" using sourceBlockHash_view src by blast
    then have "lo \<le> c" using view_at[OF assms(3)] identity_in_rows by blast
    moreover have "pl_recent p f \<noteq> None \<Longrightarrow> lo \<le> f" using assms(1,2) by (auto simp: streams_def window_def)
    ultimately have lf: "lo \<le> f" "f \<le> c" using b p1 by auto
    let ?seed = "\<lambda>q. q\<lparr>pl_hash := (if f - 1 \<ge> 0 then (case pl_recent q (f - 1) of Some x \<Rightarrow> x | None \<Rightarrow> None) else None)\<rparr>"
    obtain v p3 where v: "reorg_to cfg w f None ?seed p2 = (v, p3)" by fastforce
    have s2: "streams cfg lo base F0 p2" "pl_last p2 = Some c" using alike_streams[OF a assms(1)] a assms(2) by (auto simp: alike_def)
    have "reseeds (f - 1) ?seed" using lf(1) assms(4) by (auto simp: reseeds_def)
    then have "streams cfg lo base F0 p3" using reorg_to_streams[OF s2 lf _ v] by blast
    then show ?thesis using assms(5) src False f v by (cases v) (auto simp: handleNetForwardReorg_def)
  qed
qed

lemma handleHeightDropReorg_streams:
  assumes "streams cfg lo base F0 p" "pl_last p = Some c" "lo \<le> t" "t < c" "handleHeightDropReorg cfg w t p = (x, q)"
  shows "streams cfg lo base F0 q \<or> strayed lo w base (pl_sent q)"
proof -
  obtain f p1 where f: "resolveForkPoint cfg w (t + 1) p = (f, p1)" by fastforce
  note b = resolveForkPoint_bounds[OF f]
  have lf: "lo \<le> f" "f \<le> c" using b assms(1-4) by (auto simp: streams_def window_def)
  obtain y p2 where y: "strict_read w getSourceReplayMarker p1 = (y, p2)" by fastforce
  have a: "alike p p2" using strict_read_tick[OF y] b by (auto simp: alike_def)
  have s2: "streams cfg lo base F0 p2" "pl_last p2 = Some c" using alike_streams[OF a assms(1)] a assms(2) by (auto simp: alike_def)
  show ?thesis
  proof (cases y)
    case (Inl e)
    then show ?thesis using assms(5) f y s2 by (simp add: handleHeightDropReorg_def)
  next
    case (Inr m)
    define g where "g = retroactiveForkPoint (retroactiveFromRules m) f"
    have q: "reorg_to cfg w g (retroactiveFromRules m) (recorded_or_source cfg w (g - 1)) p2 = (x, q)"
      using assms(5) f y Inr by (simp add: handleHeightDropReorg_def g_def Let_def)
    show ?thesis
    proof (cases "lo \<le> g \<and> g \<le> c")
      case True
      then show ?thesis using reorg_to_streams[OF s2 _ _ recorded_or_source_reseeds(1) q] by blast
    next
      case False
      then obtain r where r: "retroactiveFromRules m = Some r" "g = ra_target r"
        using lf by (cases "retroactiveFromRules m") (auto simp: g_def retroactiveForkPoint_def)
      have "announced w r" using y Inr r(1) by (auto simp: announced_def strict_read_def split: reply.splits)
      then show ?thesis using reorg_strays[OF s2 q[unfolded r(1)] r(2)] False by auto
    qed
  qed
qed

section \<open>The forward stream keeps the invariant\<close>

lemma sound_row:
  assumes "sound_view d lo s" "source_tip s = Some t" "lo \<le> h" "h \<le> t"
  obtains r x where "getBlockHashRow s h = Some r" "row_identity d r = Some x" "source_identity d s h = Some x"
proof -
  have "source_identity d s h \<noteq> None" using assms by (auto simp: sound_view_def)
  then show ?thesis using that by (cases "getBlockHashRow s h") (auto simp: source_identity_def)
qed

lemma published_streams:
  assumes "streams cfg lo base F0 p" "pl_last p = Some c" "row_identity (pc_decoder cfg) r = Some x" "1 \<le> lo" "0 \<le> pc_cap cfg"
  shows "streams cfg lo base F0 ((publishBlockPayload cfg r v (c + 1) p)\<lparr>pl_last := Some (c + 1)\<rparr>)" (is "streams _ _ _ _ ?q")
proof -
  have s: "lo - 1 \<le> c" "starts_from base (pl_sent p) c" "window (pc_cap cfg) lo (held F0 p) c (pl_recent p)" "\<forall>h > c. held F0 p h = None"
    using assms(1,2) by (auto simp: streams_def)
  have q: "pl_sent ?q = pl_sent p @ [BlockSent (c + 1) (Some x) (block_message_of r v)]" "pl_hash ?q = Some x" "pl_last ?q = Some (c + 1)"
    "pl_recent ?q = (if c + 1 > pc_cap cfg then ((pl_recent p)(c + 1 \<mapsto> Some x))(c + 1 - pc_cap cfg - 1 := None) else (pl_recent p)(c + 1 \<mapsto> Some x))"
    by (auto simp: publishBlockPayload_def Let_def assms(3))
  have h: "held F0 ?q = (held F0 p)(c + 1 \<mapsto> Some x)" using held_snoc[OF q(1)] by simp
  have "starts_from base (pl_sent ?q) (c + 1)" unfolding q(1) by (rule starts_from_snoc[OF s(2)]) simp
  moreover have "window (pc_cap cfg) lo (held F0 ?q) (c + 1) (pl_recent ?q)"
    unfolding h q(4) by (rule window_publish[OF s(3,1)]) (use assms(4,5) in auto)
  moreover have "\<forall>y. pl_recent ?q (c + 1) = Some y \<longrightarrow> pl_hash ?q = y" unfolding q(2,4) using assms(5) by auto
  ultimately show ?thesis using s(1,4) unfolding streams_def q(3) h by auto
qed

lemma stream_loop_streams:
  assumes "streams cfg lo base F0 p" "pl_last p = Some c" "sound_view (pc_decoder cfg) lo s" "source_tip s = Some t" "1 \<le> lo" "0 \<le> pc_cap cfg"
  shows "streams cfg lo base F0 (snd (stream_loop cfg w s v t n c p))"
  using assms(1,2)
proof (induction n arbitrary: c p)
  case (Suc n)
  show ?case
  proof (cases "c < t \<and> (\<exists>u. w (pl_clock p) = View u)")
    case False
    then show ?thesis using Suc.prems(1) alike_streams[OF alike_refl(2)] by (cases "w (pl_clock p)") auto
  next
    case True
    then obtain u where u: "w (pl_clock p) = View u" by blast
    have lo: "lo \<le> c + 1" using Suc.prems by (simp add: streams_def)
    obtain r x where r: "getBlockHashRow s (c + 1) = Some r" "row_identity (pc_decoder cfg) r = Some x"
      using sound_row[OF assms(3,4) lo] True by (metis zless_imp_add1_zle)
    obtain y p1 where y: "record_log cfg w (hr_meta r) (tick p) = (y, p1)" by fastforce
    have a: "alike p p1" using record_log_alike[OF y] by (simp add: alike_def)
    have s1: "streams cfg lo base F0 p1" "pl_last p1 = Some c" using alike_streams[OF a Suc.prems(1)] a Suc.prems(2) by (auto simp: alike_def)
    note st = published_streams[OF s1 r(2) assms(5,6), of v]
    show ?thesis using Suc.IH[OF st] True u r(1) y s1(1) by (cases y) auto
  qed
qed simp

lemma streamNewBlocks_streams:
  assumes "streams cfg lo base F0 p" "pl_last p = Some c" "sound_world (pc_decoder cfg) lo w" "1 \<le> lo" "0 \<le> pc_cap cfg"
  shows "streams cfg lo base F0 (snd (streamNewBlocks cfg w t c p))"
proof (cases "w (pl_clock p)")
  case (Refused k)
  then show ?thesis using alike_streams[OF alike_refl(2) assms(1)] by (simp add: streamNewBlocks_def)
next
  case (View s)
  note vs = view_at[OF assms(3) View]
  then obtain t' where t': "source_tip s = Some t'" by (auto simp: sound_view_def)
  obtain y p1 where y: "strict_read w (\<lambda>_. Inr (source_tip s)) (tick p) = (y, p1)" by fastforce
  have s1: "streams cfg lo base F0 p1" "pl_last p1 = Some c"
    using strict_read_tick[OF y] alike_streams[of p p1] assms(1,2) by (auto simp: alike_def)
  show ?thesis
  proof (cases y)
    case (Inl e)
    then show ?thesis using View y s1 by (simp add: streamNewBlocks_def)
  next
    case (Inr st)
    then have st: "st = Some t'" using y t' by (auto simp: strict_read_def split: reply.splits)
    obtain r p2 where r: "stream_loop cfg w s (Some t') t' BATCH c p1 = (r, p2)" by fastforce
    have s2: "streams cfg lo base F0 p2" using stream_loop_streams[OF s1 vs t' assms(4,5), of w "Some t'" BATCH] r by simp
    obtain z p3 where z: "strict_read w (\<lambda>_. Inr ()) p2 = (z, p3)" by fastforce
    have "streams cfg lo base F0 p3" using strict_read_tick[OF z] alike_streams[OF alike_refl(2) s2] by simp
    then show ?thesis using View y Inr st r z by (cases z) (auto simp: streamNewBlocks_def)
  qed
qed

section \<open>Polls keep the invariant\<close>

lemma poll_forward_streams:
  assumes "streams cfg lo base F0 p" "pl_last p = Some c" "sound_world (pc_decoder cfg) lo w" "1 \<le> lo" "0 \<le> pc_cap cfg" "lo \<le> t"
  shows "streams cfg lo base F0 (snd (poll_forward cfg w t c p)) \<or> strayed lo w base (pl_sent (snd (poll_forward cfg w t c p)))"
proof (cases "t < c")
  case True
  obtain x q where "handleHeightDropReorg cfg w t p = (x, q)" by fastforce
  then show ?thesis using handleHeightDropReorg_streams[OF assms(1,2,6) True] True by (simp add: poll_forward_def)
next
  case False
  then show ?thesis using streamNewBlocks_streams[OF assms(1-5)] assms(1) by (simp add: poll_forward_def)
qed

lemma first_poll_streams:
  assumes "streams cfg lo base F0 p" "pl_last p = None" "lo \<le> t"
  shows "streams cfg lo base F0 (initializePollCursor cfg w t p)"
proof -
  have s: "pl_sent p = []" "pl_recent p = Map.empty" "F0 = Map.empty" "base = None" using assms(1,2) by (auto simp: streams_def)
  obtain x q where q: "sourceBlockHash cfg w t (p\<lparr>pl_last := Some t\<rparr>) = (x, q)" by fastforce
  have "q = tick (p\<lparr>pl_last := Some t\<rparr>)" using sourceBlockHash_tick[OF q] .
  then show ?thesis
    using s q assms(3) by (auto simp: initializePollCursor_def streams_def held_def window_def)
qed

lemma poll_streams:
  assumes "streams cfg lo base F0 p" "sound_world (pc_decoder cfg) lo w" "1 \<le> lo" "0 \<le> pc_cap cfg"
  shows "streams cfg lo base F0 (snd (poll cfg w p)) \<or> strayed lo w base (pl_sent (snd (poll cfg w p)))"
proof -
  obtain y p1 where y: "strict_read w (\<lambda>s. Inr (source_tip s)) p = (y, p1)" by fastforce
  have s1: "streams cfg lo base F0 p1" using strict_read_tick[OF y] alike_streams[OF alike_refl(2) assms(1)] by simp
  show ?thesis
  proof (cases "\<exists>t. y = Inr (Some t)")
    case False
    then show ?thesis using y s1 by (auto simp: poll_def split: sum.split option.split)
  next
    case True
    then obtain t where t: "y = Inr (Some t)" by blast
    have lt: "lo \<le> t"
      using y t view_at[OF assms(2)] by (fastforce simp: strict_read_def sound_view_def split: reply.splits)
    show ?thesis
    proof (cases "pl_last p1")
      case None
      then show ?thesis using first_poll_streams[OF s1 None lt] y t by (simp add: poll_def)
    next
      case (Some c)
      obtain x p2 where x: "handleReorgMarkers cfg w c p1 = (x, p2)" by fastforce
      note m = handleReorgMarkers_streams[OF s1 Some assms(2) x]
      show ?thesis
      proof (cases "x = Inr False")
        case False
        then show ?thesis using m y t Some x by (cases x) (auto simp: poll_def split: bool.splits)
      next
        case True
        then have l2: "pl_last p2 = Some c" using m Some by (simp add: alike_def)
        note fw = poll_forward_streams[OF _ _ assms(2-4) lt]
        show ?thesis
        proof (cases "pl_hash p2")
          case None
          then show ?thesis using fw[OF conjunct1[OF m] l2] l2 y t Some x True by (simp add: poll_def)
        next
          case g: (Some g)
          obtain z p3 where z: "handleNetForwardReorg cfg w c g p2 = (z, p3)" by fastforce
          note n = handleNetForwardReorg_streams[OF _ l2 assms(2,3) z, of base F0]
          show ?thesis
          proof (cases "z = Inr False")
            case False
            then show ?thesis using m n y t Some x True g z by (cases z) (auto simp: poll_def split: bool.splits)
          next
            case z': True
            then have "streams cfg lo base F0 p3" "pl_last p3 = Some c" using n m l2 by (auto simp: alike_def)
            then show ?thesis using fw y t Some x True g z z' by (simp add: poll_def)
          qed
        qed
      qed
    qed
  qed
qed

text \<open>What was sent stays sent.\<close>

definition grown :: "poller \<Rightarrow> poller \<Rightarrow> bool" where
  "grown p q \<longleftrightarrow> (\<exists>es. pl_sent q = pl_sent p @ es)"

lemma grown_trans: "grown p q \<Longrightarrow> grown q r \<Longrightarrow> grown p r"
  by (auto simp: grown_def)

lemma alike_grown: "alike p q \<Longrightarrow> grown p q"
  by (simp add: alike_def grown_def)

lemma grown_refl [simp]: "grown p p" "grown p (tick p)" "grown p (p\<lparr>pl_hash := x\<rparr>)"
  by (simp_all add: grown_def)

lemma reorg_to_grown:
  assumes "reseeds h seed"
  shows "grown p (snd (reorg_to cfg w f r seed p))"
proof -
  obtain y p1 where y: "prune_log cfg w f p = (y, p1)" by fastforce
  have "pl_sent p1 = pl_sent p" using prune_log_alike[OF y] by (simp add: alike_def)
  then show ?thesis using y assms by (cases y) (auto simp: reorg_to_def grown_def reseeds_def)
qed

lemma handleReorgMarkers_grown: "grown p (snd (handleReorgMarkers cfg w c p))"
proof -
  obtain y p1 where y: "readNewReorgMarkers cfg w p = (y, p1)" by fastforce
  have a: "pl_sent p1 = pl_sent p"
    using y by (auto simp: readNewReorgMarkers_def split: if_splits prod.splits sum.splits option.splits dest!: strict_read_tick)
  have "grown p1 (snd (reorg_to cfg w f None (\<lambda>q. recorded_or_source cfg w (f - 1) (q\<lparr>pl_event := n\<rparr>)) p1))" for f n
    by (rule reorg_to_grown[OF recorded_or_source_reseeds(2)])
  then show ?thesis using y a
    by (auto simp: handleReorgMarkers_def grown_def Let_def split: sum.split prod.split) (metis snd_conv)+
qed

lemma handleNetForwardReorg_grown: "grown p (snd (handleNetForwardReorg cfg w c g p))"
proof -
  obtain src p1 f p2 where s: "sourceBlockHash cfg w c p = (src, p1)" "resolveForkPoint cfg w c p1 = (f, p2)" by (metis surj_pair)
  have a: "pl_sent p1 = pl_sent p" "pl_sent p2 = pl_sent p"
    using sourceBlockHash_tick[OF s(1)] resolveForkPoint_bounds[OF s(2)] by (simp_all add: alike_def)
  let ?seed = "\<lambda>q. q\<lparr>pl_hash := (if f - 1 \<ge> 0 then (case pl_recent q (f - 1) of Some x \<Rightarrow> x | None \<Rightarrow> None) else None)\<rparr>"
  obtain v p3 where v: "reorg_to cfg w f None ?seed p2 = (v, p3)" by fastforce
  obtain y p4 where y: "prune_log cfg w f p2 = (y, p4)" by fastforce
  have "pl_sent p4 = pl_sent p2" using prune_log_alike[OF y] by (simp add: alike_def)
  then have "grown p2 p3" using v y by (cases y) (auto simp: reorg_to_def grown_def)
  then show ?thesis using s a v by (cases v) (auto simp: handleNetForwardReorg_def grown_def)
qed

lemma handleHeightDropReorg_grown: "grown p (snd (handleHeightDropReorg cfg w t p))"
proof -
  obtain f p1 y p2 where s: "resolveForkPoint cfg w (t + 1) p = (f, p1)" "strict_read w getSourceReplayMarker p1 = (y, p2)" by (metis surj_pair)
  have a: "grown p p2" using resolveForkPoint_bounds[OF s(1)] strict_read_tick[OF s(2)] by (simp add: alike_def grown_def)
  show ?thesis
  proof (cases y)
    case (Inr m)
    then show ?thesis
      using grown_trans[OF a reorg_to_grown[OF recorded_or_source_reseeds(1)]] s by (simp add: handleHeightDropReorg_def Let_def)
  qed (use s a in \<open>simp add: handleHeightDropReorg_def\<close>)
qed

lemma stream_loop_grown: "grown p (snd (stream_loop cfg w s v t n c p))"
proof (induction n arbitrary: c p)
  case (Suc n)
  show ?case
  proof (cases "c < t \<and> (\<exists>u. w (pl_clock p) = View u)")
    case False
    then show ?thesis by (cases "w (pl_clock p)") auto
  next
    case True
    then obtain u where u: "w (pl_clock p) = View u" by blast
    show ?thesis
    proof (cases "getBlockHashRow s (c + 1)")
      case None
      have "grown p ((tick p)\<lparr>pl_hash := None, pl_last := Some (c + 1)\<rparr>)" by (simp add: grown_def)
      from grown_trans[OF this Suc.IH] show ?thesis using True u None by simp
    next
      case (Some r)
      obtain y p1 where y: "record_log cfg w (hr_meta r) (tick p) = (y, p1)" by fastforce
      have a: "pl_sent p1 = pl_sent p" using record_log_alike[OF y] by (simp add: alike_def)
      then have "grown p ((publishBlockPayload cfg r v (c + 1) p1)\<lparr>pl_last := Some (c + 1)\<rparr>)" by (simp add: grown_def publishBlockPayload_def Let_def)
      from grown_trans[OF this Suc.IH] show ?thesis using True u Some y a by (cases y) (auto simp: grown_def)
    qed
  qed
qed simp

lemma streamNewBlocks_grown: "grown p (snd (streamNewBlocks cfg w t c p))"
proof (cases "w (pl_clock p)")
  case (View s)
  obtain y p1 where y: "strict_read w (\<lambda>_. Inr (source_tip s)) (tick p) = (y, p1)" by fastforce
  have p1: "grown p p1" using strict_read_tick[OF y] by (simp add: grown_def)
  show ?thesis
  proof (cases y)
    case (Inr st)
    obtain r p2 where r: "stream_loop cfg w s st (case st of Some t \<Rightarrow> t | None \<Rightarrow> t) BATCH c p1 = (r, p2)" by fastforce
    have g: "grown p p2" using grown_trans[OF p1 stream_loop_grown] r by (metis snd_conv)
    obtain z p3 where z: "strict_read w (\<lambda>_. Inr ()) p2 = (z, p3)" by fastforce
    have "grown p p3" using g strict_read_tick[OF z] by (simp add: grown_def)
    then show ?thesis using View y Inr r z by (cases z) (simp_all add: streamNewBlocks_def)
  qed (use View y p1 in \<open>simp add: streamNewBlocks_def\<close>)
qed (simp add: streamNewBlocks_def)

lemma poll_grown: "grown p (snd (poll cfg w p))"
proof -
  obtain y p1 where y: "strict_read w (\<lambda>s. Inr (source_tip s)) p = (y, p1)" by fastforce
  have g1: "grown p p1" using strict_read_tick[OF y] by simp
  have fw: "grown q (snd (poll_forward cfg w t c q))" for t c q
    by (simp add: poll_forward_def handleHeightDropReorg_grown streamNewBlocks_grown)
  have first: "grown p1 (initializePollCursor cfg w t p1)" for t
    by (auto simp: initializePollCursor_def grown_def split: prod.split dest!: sourceBlockHash_tick)
  have "grown p1 (snd (poll cfg w p))" if y': "y = Inr (Some t)" "pl_last p1 = Some c" for t c
  proof -
    obtain x p2 where x: "handleReorgMarkers cfg w c p1 = (x, p2)" by fastforce
    have g2: "grown p1 p2" using handleReorgMarkers_grown[of p1 cfg w c] x by simp
    have g3: "grown p1 (snd (handleNetForwardReorg cfg w c g p2))" for g using grown_trans[OF g2 handleNetForwardReorg_grown] .
    have g4: "grown p1 (snd (poll_forward cfg w t c p2))" "grown p1 (snd (poll_forward cfg w t c (snd (handleNetForwardReorg cfg w c g p2))))" for g
      using grown_trans[OF g2 fw] grown_trans[OF g3 fw] by blast+
    show ?thesis using y y' x g2 g3 g4 by (auto simp: poll_def split: sum.split bool.split option.split prod.split) (metis snd_conv)+
  qed
  then show ?thesis using y g1 first by (auto simp: poll_def intro: grown_trans split: sum.split option.split)
qed

lemma polls_grown: "grown p (polls cfg w n p)"
  by (induction n arbitrary: p) (auto intro: grown_trans poll_grown)

lemma polls_streams:
  assumes "streams cfg lo base F0 p" "sound_world (pc_decoder cfg) lo w" "1 \<le> lo" "0 \<le> pc_cap cfg"
  shows "streams cfg lo base F0 (polls cfg w n p) \<or> strayed lo w base (pl_sent (polls cfg w n p))"
  using assms(1)
proof (induction n arbitrary: p)
  case (Suc n)
  from poll_streams[OF Suc.prems assms(2-4)] show ?case
  proof
    assume "strayed lo w base (pl_sent (snd (poll cfg w p)))"
    then show ?thesis using polls_grown[of "snd (poll cfg w p)" cfg w n] strayed_append by (auto simp: grown_def)
  qed (use Suc.IH in simp)
qed simp

section \<open>The seed\<close>

lemma seeded:
  fixes hashes :: "(int \<times> string option) list"
  defines "seed n h \<equiv> fold (\<lambda>(h, x) m. m(h \<mapsto> Some x)) (rev (seed_suffix hashes n h)) (Map.empty :: int \<rightharpoonup> string option)"
  shows "seed n h h' \<noteq> None \<Longrightarrow>
    h - int n < h' \<and> h' \<le> h \<and> seed n h h' \<noteq> Some None \<and> (\<exists>y. (h', y) \<in> set hashes) \<and> (\<forall>h''. h' \<le> h'' \<longrightarrow> h'' \<le> h \<longrightarrow> seed n h h'' \<noteq> None)"
proof (induction n arbitrary: h)
  case 0
  then show ?case by (simp add: seed_def)
next
  case (Suc n)
  show ?case
  proof (cases "\<exists>x. map_of (rev hashes) h = Some (Some x)")
    case False
    then have "seed (Suc n) h = Map.empty" by (auto simp: seed_def split: option.split)
    then show ?thesis using Suc.prems by simp
  next
    case True
    then obtain x where x: "map_of (rev hashes) h = Some (Some x)" by blast
    have e: "seed (Suc n) h = (seed n (h - 1))(h \<mapsto> Some x)" by (simp add: seed_def x)
    have m: "(h, Some x) \<in> set hashes" using map_of_SomeD[OF x] by simp
    show ?thesis
    proof (cases "h' = h")
      case True
      then show ?thesis using m e by auto
    next
      case False
      then have "seed n (h - 1) h' \<noteq> None" using Suc.prems e by simp
      from Suc.IH[OF this] show ?thesis using e False by auto
    qed
  qed
qed

lemma window_rows:
  assumes "readReorgWindow cfg w low c p = (Inr rows, q)" "sound_world (pc_decoder cfg) lo w" "\<forall>r \<in> set (sync_meta (pl_log p)). lo \<le> mt_block r" "(h, y) \<in> set rows"
  shows "lo \<le> h"
  using assms
  by (auto simp: readReorgWindow_def strict_read_def findSyncMetaLeaves_def sound_world_def sound_view_def split: option.splits reply.splits)

lemma seedReorgWindow_streams:
  assumes "pl_sent p = []" "pl_recent p = Map.empty" "\<forall>c. pl_last p = Some c \<longrightarrow> lo \<le> c"
    and "sound_world (pc_decoder cfg) lo w" "\<forall>r \<in> set (sync_meta (pl_log p)). lo \<le> mt_block r" "0 \<le> pc_cap cfg" "seedReorgWindow cfg w p = (r, q)"
  shows "streams cfg lo (pl_last p) (pl_recent q) q"
proof (cases "pl_last p")
  case None
  then show ?thesis using assms(1,2,7) by (auto simp: seedReorgWindow_def streams_def)
next
  case (Some c)
  let ?low = "max 1 (c - pc_cap cfg + 1)"
  have finish: "streams cfg lo (pl_last p) (pl_recent q) q"
    if "pl_last q = Some c" "pl_sent q = []" "window (pc_cap cfg) lo (pl_recent q) c (pl_recent q)" "\<forall>h > c. pl_recent q h = None" "\<forall>x. pl_recent q c = Some x \<longrightarrow> pl_hash q = x" for q
    using that assms(3) Some unfolding streams_def by (auto simp: held_def)
  have e: "window (pc_cap cfg) lo Map.empty c Map.empty" by (simp add: window_def)
  obtain y p1 where y: "readReorgWindow cfg w ?low c p = (y, p1)" by fastforce
  have a: "alike p p1" using y by (auto simp: readReorgWindow_def split: option.splits dest!: strict_read_tick)
  show ?thesis
  proof (cases y)
    case (Inl x)
    then show ?thesis using assms(1,2,7) Some y a e by (intro finish) (auto simp: seedReorgWindow_def alike_def)
  next
    case (Inr rows)
    define n where "n = nat (c - ?low + 1)"
    define recent :: "int \<rightharpoonup> string option" where "recent = fold (\<lambda>(h, x) m. m(h \<mapsto> Some x)) (rev (seed_suffix rows n c)) Map.empty"
    note sd = seeded[of rows n c, folded recent_def]
    have w: "window (pc_cap cfg) lo recent c recent"
      unfolding window_def
    proof (intro conjI allI impI)
      fix h
      assume h: "recent h \<noteq> None"
      show "lo \<le> h" using sd[OF h] window_rows[OF y[unfolded Inr] assms(4,5)] by blast
      show "recent h \<noteq> Some None" using sd[OF h] by blast
      show "c - pc_cap cfg \<le> h" using sd[OF h] assms(6) by (auto simp: n_def split: if_splits)
      show "recent h' \<noteq> None" if "h \<le> h'" "h' \<le> c" for h' using sd[OF h] that by blast
    qed simp
    have above: "\<forall>h > c. recent h = None" using sd by (metis leD option.distinct(1))
    have r0: "pl_recent p1 = Map.empty" "pl_sent p1 = []" "pl_last p1 = Some c" using a assms(1,2) Some by (auto simp: alike_def)
    show ?thesis
    proof (cases "seed_suffix rows n c")
      case Nil
      then have re: "recent = Map.empty" by (simp add: recent_def)
      obtain x p3 where x: "seedReorgGuardHash cfg w c (p1\<lparr>pl_recent := recent\<rparr>) = (x, p3)" by fastforce
      have "alike (p1\<lparr>pl_recent := recent\<rparr>) p3" using x by (auto simp: seedReorgGuardHash_def split: option.splits dest!: sourceBlockHash_tick)
      then have p3: "pl_recent p3 = recent" "pl_sent p3 = []" "pl_last p3 = Some c" using r0 by (auto simp: alike_def)
      have "p1\<lparr>pl_recent := Map.empty\<rparr> = p1" using r0(1) by (cases p1) simp
      then have x1: "seedReorgGuardHash cfg w c p1 = (x, p3)" using x unfolding re by metis
      have "q = p3\<lparr>pl_hash := x\<rparr>"
        using assms(7) Some y Inr Nil x1 r0 unfolding seedReorgWindow_def by (simp add: Let_def n_def[symmetric] recent_def[symmetric] re)
      then show ?thesis using w above p3 re by (intro finish) auto
    next
      case (Cons z zs)
      obtain h x where z: "z = (h, x)" by (cases z)
      have hc: "h = c" "recent c = Some (Some x)" using Cons z by (cases n; auto simp: recent_def split: option.splits)+
      have "q = p1\<lparr>pl_recent := recent, pl_hash := Some x\<rparr>"
        using assms(7) Some y Inr Cons z r0 unfolding seedReorgWindow_def by (simp add: Let_def n_def[symmetric] recent_def)
      then show ?thesis using w above r0 hc by (intro finish) auto
    qed
  qed
qed

lemma seedReorgWindow_last: "seedReorgWindow cfg w p = (r, q) \<Longrightarrow> pl_last q = pl_last p"
  by (auto simp: seedReorgWindow_def seedReorgGuardHash_def readReorgWindow_def Let_def split: option.splits prod.splits sum.splits list.splits
      dest!: strict_read_tick sourceBlockHash_tick)

lemma repair_gaps_alike: "alike p (repair_gaps cfg w p)"
  by (auto simp: repair_gaps_def alike_def Let_def split: option.splits reply.splits)

lemma start_streams:
  assumes "sound_world (pc_decoder cfg) lo w" "\<forall>r \<in> set (sync_meta db). lo \<le> mt_block r" "0 \<le> pc_cap cfg"
  shows "streams cfg lo (pl_last (snd (start cfg w (fresh_poller db n)))) (pl_recent (snd (start cfg w (fresh_poller db n)))) (snd (start cfg w (fresh_poller db n)))"
proof -
  let ?p = "fresh_poller db n"
  obtain y p1 where y: "initializeReorgMarkerCursor cfg w ?p = (y, p1)" by fastforce
  have p1: "pl_last p1 = None" "pl_sent p1 = []" "pl_recent p1 = Map.empty" "pl_log p1 = db"
    using y by (auto simp: initializeReorgMarkerCursor_def fresh_poller_def split: if_splits prod.splits sum.splits dest!: strict_read_tick)
  show ?thesis
  proof (cases y)
    case (Inl e)
    then show ?thesis using y p1 by (simp add: start_def streams_def)
  next
    case (Inr u)
    obtain c p2 where c: "resumeCursor cfg w p1 = (c, p2)" by fastforce
    have p2: "pl_sent p2 = []" "pl_recent p2 = Map.empty" "pl_log p2 = db"
      using c p1 by (auto simp: resumeCursor_def split: option.splits reply.splits)
    have lo: "lo \<le> k" if "c = Some k" for k
    proof (cases "pc_log cfg")
      case None
      then show ?thesis using c that view_at[OF assms(1)] by (fastforce simp: resumeCursor_def sound_view_def split: reply.splits)
    next
      case (Some lg)
      then have k: "sql_max (map mt_block (sync_meta db)) = Some k" using c that p1 by (auto simp: resumeCursor_def getHighWaterMark_def getSyncMetaTip_def)
      then have "map mt_block (sync_meta db) \<noteq> []" by (auto simp: sql_max_def)
      then have "k \<in> set (map mt_block (sync_meta db))" using k sql_max_Max by (metis Max_in finite_set option.inject set_empty)
      then show ?thesis using assms(2) by auto
    qed
    obtain r q where q: "seedReorgWindow cfg w (p2\<lparr>pl_last := c\<rparr>) = (r, q)" by fastforce
    have "streams cfg lo (pl_last (p2\<lparr>pl_last := c\<rparr>)) (pl_recent q) q"
      by (rule seedReorgWindow_streams[OF _ _ _ assms(1) _ assms(3) q]) (use p2 lo assms(2) in auto)
    then have "streams cfg lo c (pl_recent q) q" by simp
    moreover have "pl_last q = c" using seedReorgWindow_last[OF q] by simp
    moreover have "streams cfg lo c (pl_recent q) (repair_gaps cfg w q)" "pl_recent (repair_gaps cfg w q) = pl_recent q" "pl_last (repair_gaps cfg w q) = pl_last q"
      using alike_streams[OF repair_gaps_alike calculation(1)] repair_gaps_alike[of q cfg w] by (simp_all add: alike_def)
    ultimately show ?thesis using y Inr c q by (auto simp: start_def split: sum.splits)
  qed
qed

end
