(* ===== verification/Poller_Convergence.thy ===== *)
theory Poller_Convergence
  imports Poller_Proofs
begin

text \<open>
  A source at rest: in every state a poller gets into, a few polls bring the subscribers to the chain of the source from the last recorded
  height at which both agree; the blocks below it stay.
\<close>

section \<open>Subscribers beside a source\<close>

text \<open>Between \<open>a\<close> and \<open>k\<close> the subscribers hold the source's blocks, above \<open>k\<close> others, and below \<open>a\<close> what \<open>G\<close> gives.\<close>

definition on_source :: "poller_cfg \<Rightarrow> int \<Rightarrow> int option \<Rightarrow> source_view \<Rightarrow> (int \<rightharpoonup> string option) \<Rightarrow> (int \<rightharpoonup> string option) \<Rightarrow> int \<Rightarrow> int \<Rightarrow> int \<Rightarrow> poller \<Rightarrow> bool" where
  "on_source cfg lo base S F0 G a k c p \<longleftrightarrow>
     pl_last p = Some c \<and> streams cfg lo base F0 p \<and> a \<le> k \<and> k \<le> c \<and> pl_recent p k \<noteq> None \<and>
     (\<forall>h < a. held F0 p h = G h) \<and>
     (\<forall>h. a \<le> h \<longrightarrow> h \<le> k \<longrightarrow> held F0 p h = Some (source_identity (pc_decoder cfg) S h)) \<and>
     (\<forall>h. k < h \<longrightarrow> h \<le> c \<longrightarrow> held F0 p h \<noteq> Some (source_identity (pc_decoder cfg) S h))"

text \<open>\<open>k\<close> is the last recorded height up to \<open>d\<close> at which the recorded identity is the source's.\<close>

definition last_agreeing :: "poller_cfg \<Rightarrow> source_view \<Rightarrow> poller \<Rightarrow> int \<Rightarrow> int \<Rightarrow> bool" where
  "last_agreeing cfg S p d k \<longleftrightarrow>
     k \<le> d \<and> pl_recent p k = Some (source_identity (pc_decoder cfg) S k) \<and>
     (\<forall>h. k < h \<longrightarrow> h \<le> d \<longrightarrow> pl_recent p h \<noteq> Some (source_identity (pc_decoder cfg) S h))"

definition settled :: "poller_cfg \<Rightarrow> source_view \<Rightarrow> poller \<Rightarrow> bool" where
  "settled cfg S p \<longleftrightarrow> pc_decoder cfg \<or> \<not> pl_markers p \<or> readLatestEventId S = Inr (pl_event p)"

text \<open>The reorg markers not read yet; the height the cursor keeps once they are read; and that they can be read: the newest id is not
  below the last one read and each marker names a height.\<close>

definition unread_markers :: "poller_cfg \<Rightarrow> source_view \<Rightarrow> poller \<Rightarrow> source_event list" where
  "unread_markers cfg S p =
     (if \<not> pl_markers p \<or> pc_decoder cfg then []
      else filter (\<lambda>e. se_code e = ''REORG'') (filter (\<lambda>e. (case pl_event p of Some j \<Rightarrow> j | None \<Rightarrow> 0) < se_id e) (sv_events S)))"

definition kept_height :: "poller_cfg \<Rightarrow> source_view \<Rightarrow> poller \<Rightarrow> int \<Rightarrow> int" where
  "kept_height cfg S p c = foldl min c (map (\<lambda>e. projr (marker_height e) - 1) (unread_markers cfg S p))"

definition markers_readable :: "poller_cfg \<Rightarrow> source_view \<Rightarrow> poller \<Rightarrow> bool" where
  "markers_readable cfg S p \<longleftrightarrow>
     settled cfg S p \<or>
     (\<exists>n. readLatestEventId S = Inr n \<and> (\<forall>m j. n = Some m \<longrightarrow> pl_event p = Some j \<longrightarrow> j \<le> m) \<and>
       (\<forall>e \<in> set (unread_markers cfg S p). \<exists>m. marker_height e = Inr m))"

abbreviation resting :: "source_view \<Rightarrow> world" where
  "resting S \<equiv> (\<lambda>_. View S)"

lemma resting_reads [simp]: "strict_read (resting S) f p = (f S, tick p)" "sourceBlockHash cfg (resting S) h p = (source_identity (pc_decoder cfg) S h, tick p)"
  by (simp_all add: strict_read_def sourceBlockHash_def)

definition undisturbed_events :: "poller \<Rightarrow> poller \<Rightarrow> bool" where
  "undisturbed_events p q \<longleftrightarrow> pl_event q = pl_event p \<and> pl_markers q = pl_markers p"

lemma undisturbed_events_simps [simp]: "undisturbed_events p p" "undisturbed_events p (tick p)"
  by (simp_all add: undisturbed_events_def)

lemma settled_cong: "undisturbed_events p q \<Longrightarrow> settled cfg S q = settled cfg S p"
  by (simp add: undisturbed_events_def settled_def)

lemma on_source_cong: "alike p q \<Longrightarrow> on_source cfg lo base S F0 G a k c p \<Longrightarrow> on_source cfg lo base S F0 G a k c q"
  using alike_held[of p q F0] alike_streams[of p q] by (auto simp: on_source_def alike_def)

lemma on_source_facts:
  assumes "on_source cfg lo base S F0 G a k c p"
  shows "pl_recent p k = Some (source_identity (pc_decoder cfg) S k)" "source_identity (pc_decoder cfg) S k \<noteq> None" "lo \<le> k"
    "\<And>h. k < h \<Longrightarrow> h \<le> c \<Longrightarrow> \<exists>x. pl_recent p h = Some x \<and> x \<noteq> source_identity (pc_decoder cfg) S h" "pl_recent p c = Some (pl_hash p)"
proof -
  have w: "window (pc_cap cfg) lo (held F0 p) c (pl_recent p)" "\<forall>x. pl_recent p c = Some x \<longrightarrow> pl_hash p = x" "k \<le> c" "pl_recent p k \<noteq> None"
    using assms by (auto simp: on_source_def streams_def)
  have k: "held F0 p k = pl_recent p k" "pl_recent p k \<noteq> Some None" "lo \<le> k" "\<And>h. k \<le> h \<Longrightarrow> h \<le> c \<Longrightarrow> pl_recent p h \<noteq> None"
    using w unfolding window_def by blast+
  show r: "pl_recent p k = Some (source_identity (pc_decoder cfg) S k)" using assms k(1) unfolding on_source_def by force
  show "source_identity (pc_decoder cfg) S k \<noteq> None" "lo \<le> k" using r k by auto
  show "\<exists>x. pl_recent p h = Some x \<and> x \<noteq> source_identity (pc_decoder cfg) S h" if "k < h" "h \<le> c" for h
  proof -
    have "pl_recent p h \<noteq> None" using k(4) that by simp
    then have "held F0 p h = pl_recent p h" using w(1) that unfolding window_def by blast
    then show ?thesis using assms that \<open>pl_recent p h \<noteq> None\<close> unfolding on_source_def by (metis not_None_eq)
  qed
  show "pl_recent p c = Some (pl_hash p)" using k(4)[of c] w(2,3) by auto
qed

lemma top_of_source:
  assumes "sound_view d lo S" "source_tip S = Some t"
  shows "source_identity d S h \<noteq> None \<longleftrightarrow> lo \<le> h \<and> h \<le> t"
proof
  assume i: "source_identity d S h \<noteq> None"
  then obtain r where r: "r \<in> set (sv_rows S)" "mt_block (hr_meta r) = h"
    by (auto simp: source_identity_def getBlockHashRow_def Option.bind_eq_Some_conv find_Some_iff intro: nth_mem)
  have "h \<in> set (map (mt_block \<circ> hr_meta) (sv_rows S))" using r by force
  moreover have "t = Max (set (map (mt_block \<circ> hr_meta) (sv_rows S)))"
    using assms(2) calculation sql_max_Max[of "map (mt_block \<circ> hr_meta) (sv_rows S)"] unfolding source_tip_def by force
  ultimately have "h \<le> t" by (metis List.finite_set Max_ge)
  then show "lo \<le> h \<and> h \<le> t" using identity_in_rows[OF assms(1) i] by simp
qed (use assms in \<open>auto simp: sound_view_def\<close>)

lemma agreeing_on_source:
  assumes "streams cfg lo base F0 p" "pl_last p = Some c" "last_agreeing cfg S p c k" "\<forall>h < k. held F0 p h = G h"
  shows "on_source cfg lo base S F0 G k k c p"
proof -
  have w: "window (pc_cap cfg) lo (held F0 p) c (pl_recent p)" using assms(1,2) by (simp add: streams_def)
  have k: "k \<le> c" "pl_recent p k = Some (source_identity (pc_decoder cfg) S k)" using assms(3) by (simp_all add: last_agreeing_def)
  have r: "held F0 p h = pl_recent p h" if "k \<le> h" "h \<le> c" for h
    using w k that unfolding window_def by (metis option.distinct(1))
  have "held F0 p h \<noteq> Some (source_identity (pc_decoder cfg) S h)" if "k < h" "h \<le> c" for h
    using assms(3) r[of h] that unfolding last_agreeing_def by auto
  then show ?thesis using assms(1,2,4) k r[of k] unfolding on_source_def by auto
qed

lemma on_source_agreeing: "on_source cfg lo base S F0 G a k c p \<Longrightarrow> last_agreeing cfg S p c k"
  using on_source_facts(1,4)[of cfg lo base S F0 G a k c p] unfolding last_agreeing_def by (fastforce simp: on_source_def)

section \<open>Rewinding\<close>

lemma resolve_exact:
  assumes "\<And>h. k < h \<Longrightarrow> h < fork \<Longrightarrow> \<exists>x. pl_recent p h = Some x \<and> source_identity (pc_decoder cfg) S h \<noteq> None \<and> x \<noteq> source_identity (pc_decoder cfg) S h"
    and "pl_recent p k = Some (source_identity (pc_decoder cfg) S k)" "1 \<le> k" "k < fork"
  shows "\<exists>q. resolveForkPoint cfg (resting S) fork p = (k + 1, q) \<and> alike p q \<and> undisturbed_events p q"
  using assms
proof (induction "nat (fork - k)" arbitrary: fork p)
  case (Suc n)
  show ?case
  proof (cases "fork = k + 1")
    case True
    then show ?thesis using Suc.prems(2,3) by (simp add: resolveForkPoint.simps[of cfg "resting S" "k + 1" p] alike_def undisturbed_events_def)
  next
    case False
    then obtain x where x: "pl_recent p (fork - 1) = Some x" "source_identity (pc_decoder cfg) S (fork - 1) \<noteq> None" "x \<noteq> source_identity (pc_decoder cfg) S (fork - 1)"
      using Suc.prems(1)[of "fork - 1"] Suc.prems(4) by auto
    have "\<exists>q. resolveForkPoint cfg (resting S) (fork - 1) (tick p) = (k + 1, q) \<and> alike (tick p) q \<and> undisturbed_events (tick p) q"
      by (rule Suc.hyps(1)) (use Suc.prems Suc.hyps(2) False in auto)
    then obtain q where q: "resolveForkPoint cfg (resting S) (fork - 1) (tick p) = (k + 1, q)" "alike (tick p) q" "undisturbed_events (tick p) q" by blast
    have "resolveForkPoint cfg (resting S) fork p = (k + 1, q)"
      using x False Suc.prems(3,4) q(1) by (simp add: resolveForkPoint.simps[of cfg "resting S" fork p])
    then show ?thesis using q(2,3) by (auto simp: alike_def undisturbed_events_def)
  qed
qed simp

lemma reorg_done:
  "\<exists>p1. reorg_to cfg (resting S) f r seed p = (Inr (), seed ((send (ReorgSent f r) p1)\<lparr>pl_last := Some (f - 1)\<rparr>)) \<and> alike p p1 \<and> undisturbed_events p p1"
  by (cases "pc_log cfg") (auto simp: reorg_to_def prune_log_def alike_def undisturbed_events_def)

lemma rewound_on_source:
  assumes "on_source cfg lo base S F0 G a k c p" "k < f" "f \<le> c" "pl_last q = Some (f - 1)" "pl_recent q = pl_recent p" "pl_sent q = pl_sent p @ [ReorgSent f r]"
    and "\<forall>x. pl_recent p (f - 1) = Some x \<longrightarrow> pl_hash q = x"
  shows "on_source cfg lo base S F0 G a k (f - 1) q"
proof -
  have o: "streams cfg lo base F0 p" "pl_last p = Some c" "lo \<le> f" using assms(1,2) on_source_facts(3)[OF assms(1)] by (auto simp: on_source_def)
  have h: "held F0 q = held F0 p |` {..<f}" using held_snoc[OF assms(6)] by simp
  show ?thesis
    using assms rewound_streams[OF o(1,2,3) assms(3-7)] unfolding on_source_def h by (auto simp: restrict_map_def)
qed

text \<open>The rewind to the fork, from a height that the source has.\<close>

lemma to_the_fork:
  assumes "on_source cfg lo base S F0 G a k c p" "k < c" "sound_view (pc_decoder cfg) lo S" "source_tip S = Some t" "1 \<le> lo" "k < fork" "fork \<le> c + 1" "fork \<le> t + 1"
  shows "\<exists>q. resolveForkPoint cfg (resting S) fork p = (k + 1, q) \<and> alike p q \<and> undisturbed_events p q"
proof (rule resolve_exact)
  note f = on_source_facts[OF assms(1)]
  show "\<exists>x. pl_recent p h = Some x \<and> source_identity (pc_decoder cfg) S h \<noteq> None \<and> x \<noteq> source_identity (pc_decoder cfg) S h" if "k < h" "h < fork" for h
    using f(4)[of h] f(3) that assms(7,8) top_of_source[OF assms(3,4), of h] by auto
qed (use on_source_facts[OF assms(1)] assms(5,6) in auto)

lemma net_forward_step:
  assumes "on_source cfg lo base S F0 G a k c p" "k < c" "sound_view (pc_decoder cfg) lo S" "source_tip S = Some t" "1 \<le> lo" "c \<le> t" "pl_hash p = Some g"
  shows "\<exists>q. handleNetForwardReorg cfg (resting S) c g p = (Inr True, q) \<and> on_source cfg lo base S F0 G a k k q \<and> undisturbed_events p q"
proof -
  note f = on_source_facts[OF assms(1)]
  have "lo \<le> c" using f(3) assms(2) by simp
  then have src: "source_identity (pc_decoder cfg) S c \<noteq> None" "source_identity (pc_decoder cfg) S c \<noteq> Some g"
    using top_of_source[OF assms(3,4)] assms(6,7) f(4)[of c] f(5) assms(2) by auto
  have o: "on_source cfg lo base S F0 G a k c (tick p)" using on_source_cong[OF alike_refl(2) assms(1)] .
  obtain q where q: "resolveForkPoint cfg (resting S) c (tick p) = (k + 1, q)" "alike (tick p) q" "undisturbed_events (tick p) q"
    using to_the_fork[OF o assms(2-5), of c] assms(2,6) by auto
  let ?seed = "\<lambda>q. q\<lparr>pl_hash := (if k + 1 - 1 \<ge> 0 then (case pl_recent q (k + 1 - 1) of Some x \<Rightarrow> x | None \<Rightarrow> None) else None)\<rparr>"
  obtain p1 where p1: "reorg_to cfg (resting S) (k + 1) None ?seed q = (Inr (), ?seed ((send (ReorgSent (k + 1) None) p1)\<lparr>pl_last := Some (k + 1 - 1)\<rparr>))"
    "alike q p1" "undisturbed_events q p1" using reorg_done by blast
  have oq: "on_source cfg lo base S F0 G a k c p1" using on_source_cong[OF alike_trans[OF q(2) p1(2)] o] .
  have "on_source cfg lo base S F0 G a k (k + 1 - 1) (?seed ((send (ReorgSent (k + 1) None) p1)\<lparr>pl_last := Some (k + 1 - 1)\<rparr>))"
    by (rule rewound_on_source[OF oq]) (use assms(2) f(3) assms(5) in auto)
  then show ?thesis using src q p1 by (auto simp: handleNetForwardReorg_def undisturbed_events_def)
qed

lemma recorded_or_source_undisturbed: "undisturbed_events p (recorded_or_source cfg (resting S) h p)"
  by (auto simp: recorded_or_source_def undisturbed_events_def split: option.split)

lemma height_drop_step:
  assumes "on_source cfg lo base S F0 G a k c p" "k < c" "sound_view (pc_decoder cfg) lo S" "source_tip S = Some t" "1 \<le> lo" "t < c"
    and "getSourceReplayMarker S = Inr m" "retroactiveFromRules m = None"
  shows "\<exists>q. handleHeightDropReorg cfg (resting S) t p = (Inr (), q) \<and> on_source cfg lo base S F0 G a k k q \<and> undisturbed_events p q"
proof -
  note f = on_source_facts[OF assms(1)]
  have kt: "k \<le> t" using top_of_source[OF assms(3,4)] f(2) by blast
  obtain q where q: "resolveForkPoint cfg (resting S) (t + 1) p = (k + 1, q)" "alike p q" "undisturbed_events p q"
    using to_the_fork[OF assms(1-5), of "t + 1"] kt assms(6) by auto
  obtain p1 where p1: "reorg_to cfg (resting S) (k + 1) None (recorded_or_source cfg (resting S) (k + 1 - 1)) (tick q) =
      (Inr (), recorded_or_source cfg (resting S) (k + 1 - 1) ((send (ReorgSent (k + 1) None) p1)\<lparr>pl_last := Some (k + 1 - 1)\<rparr>))"
    "alike (tick q) p1" "undisturbed_events (tick q) p1" using reorg_done by blast
  let ?q = "(send (ReorgSent (k + 1) None) p1)\<lparr>pl_last := Some (k + 1 - 1)\<rparr>"
  have a: "alike p p1" using q(2) p1(2) by (auto simp: alike_def)
  have oq: "on_source cfg lo base S F0 G a k c p1" using on_source_cong[OF a assms(1)] .
  have "on_source cfg lo base S F0 G a k (k + 1 - 1) (recorded_or_source cfg (resting S) (k + 1 - 1) ?q)"
    by (rule rewound_on_source[OF oq, where r = None]) (use recorded_or_source_reseeds(1)[of "k + 1 - 1" cfg "resting S"] assms(2) in \<open>auto simp: reseeds_def\<close>)
  moreover have "undisturbed_events p (recorded_or_source cfg (resting S) (k + 1 - 1) ?q)"
    using recorded_or_source_undisturbed[of ?q cfg S "k + 1 - 1"] q(3) p1(3) by (auto simp: undisturbed_events_def)
  ultimately show ?thesis using q(1) p1(1) assms(7,8) by (simp add: handleHeightDropReorg_def retroactiveForkPoint_def)
qed

section \<open>Markers\<close>

lemma sql_max_bound: "sql_max xs = Some n \<Longrightarrow> x \<in> set xs \<Longrightarrow> x \<le> n"
  by (metis List.finite_set Max_ge empty_iff option.inject set_empty sql_max_Max)

lemma newest_event:
  assumes "readLatestEventId S = Inr n" "e \<in> set (sv_events S)"
  shows "\<exists>m. n = Some m \<and> se_id e \<le> m"
proof (cases "sql_max (map se_id (sv_events S))")
  case None
  then show ?thesis using assms(2) by (auto simp: sql_max_def split: if_splits list.splits)
next
  case (Some m)
  have "n = Some m" using assms(1) Some by (simp add: readLatestEventId_def split: if_splits)
  then show ?thesis using assms(2) sql_max_bound[OF Some, of "se_id e"] by simp
qed

lemma settled_unread:
  assumes "settled cfg S p"
  shows "unread_markers cfg S p = []"
proof (cases "pc_decoder cfg \<or> \<not> pl_markers p")
  case False
  then have r: "readLatestEventId S = Inr (pl_event p)" using assms by (simp add: settled_def)
  have "\<not> (case pl_event p of Some j \<Rightarrow> j | None \<Rightarrow> 0) < se_id e" if "e \<in> set (sv_events S)" for e
    using newest_event[OF r that] by auto
  then show ?thesis by (simp add: unread_markers_def filter_empty_conv)
qed (auto simp: unread_markers_def)

lemma settled_kept: "settled cfg S p \<Longrightarrow> kept_height cfg S p c = c"
  by (simp add: kept_height_def settled_unread)

text \<open>The read of a source at rest.\<close>

lemma markers_read:
  assumes "markers_readable cfg S p"
  shows "\<exists>n q. readNewReorgMarkers cfg (resting S) p = (Inr (unread_markers cfg S p, n), q) \<and> alike p q \<and> pl_markers q = pl_markers p \<and>
    settled cfg S (q\<lparr>pl_event := n\<rparr>)"
proof (cases "settled cfg S p")
  case True
  have "\<exists>q. readNewReorgMarkers cfg (resting S) p = (Inr ([], pl_event p), q) \<and> alike p q \<and> undisturbed_events p q"
    using True by (cases "pl_event p") (auto simp: readNewReorgMarkers_def settled_def)
  then obtain q where q: "readNewReorgMarkers cfg (resting S) p = (Inr ([], pl_event p), q)" "alike p q" "undisturbed_events p q" by blast
  moreover have "settled cfg S (q\<lparr>pl_event := pl_event p\<rparr>)"
    using True settled_cong[of p "q\<lparr>pl_event := pl_event p\<rparr>"] q(3) by (simp add: undisturbed_events_def)
  ultimately show ?thesis by (auto simp: settled_unread[OF True] undisturbed_events_def)
next
  case False
  then have u: "pl_markers p" "\<not> pc_decoder cfg" by (auto simp: settled_def)
  obtain n where n: "readLatestEventId S = Inr n" "\<And>m j. n = Some m \<Longrightarrow> pl_event p = Some j \<Longrightarrow> j \<le> m"
    using assms False unfolding markers_readable_def by blast
  have ne: "pl_event p \<noteq> n" using False n(1) by (auto simp: settled_def)
  have st: "settled cfg S (q\<lparr>pl_event := n\<rparr>)" for q using n(1) by (simp add: settled_def)
  show ?thesis
  proof (cases n)
    case None
    then have "sv_events S = []" using newest_event[OF n(1)] by (cases "sv_events S") auto
    then show ?thesis using u n(1) None st by (auto simp: readNewReorgMarkers_def unread_markers_def)
  next
    case (Some m)
    then have "\<not> (case pl_event p of Some j \<Rightarrow> m < j | None \<Rightarrow> False)" using n(2)[of m] by (cases "pl_event p") auto
    moreover have "filter (\<lambda>e. j < se_id e \<and> se_id e \<le> m \<and> se_code e = ''REORG'') (sv_events S) = filter (\<lambda>e. j < se_id e \<and> se_code e = ''REORG'') (sv_events S)" for j
      using newest_event[OF n(1)] Some by (intro filter_cong) auto
    ultimately show ?thesis using u n(1) ne Some st by (auto simp: readNewReorgMarkers_def unread_markers_def alike_def)
  qed
qed

lemma foldl_min_min: "foldl min (min a b) xs = min a (foldl min b xs)" for xs :: "int list"
  by (induction xs arbitrary: b) (simp_all add: min.assoc)

lemma foldl_min_shift: "foldl min (a - 1) (map (\<lambda>x. g x - 1) xs) = foldl min a (map g xs) - 1" for a :: int
  by (induction xs arbitrary: a) (simp_all add: min_diff_distrib_left[symmetric])

lemma kept_by_markers:
  assumes "\<forall>e \<in> set ms. \<exists>m. marker_height e = Inr m" "ms \<noteq> []" "unread_markers cfg S p = ms"
  shows "\<exists>hs. rtraverse marker_height ms = Inr hs \<and> kept_height cfg S p c = min c (foldl min (hd hs) hs - 1)"
proof -
  let ?hs = "map (\<lambda>e. projr (marker_height e)) ms"
  have r: "rtraverse marker_height ms = Inr ?hs" by (rule rtraverse_Inr_map) (use assms(1) in force)
  obtain e es where ms: "ms = e # es" using assms(2) by (cases ms) auto
  have "foldl min c (map (\<lambda>e. projr (marker_height e) - 1) ms) = min c (foldl min (hd ?hs) ?hs - 1)"
    by (simp add: ms foldl_min_min foldl_min_shift)
  then show ?thesis using r assms(3) unfolding kept_height_def by blast
qed

lemma markers_step:
  assumes "streams cfg lo base F0 p" "pl_last p = Some c" "markers_readable cfg S p" "last_agreeing cfg S p (kept_height cfg S p c) k" "lo \<le> k"
  shows "\<exists>b q. handleReorgMarkers cfg (resting S) c p = (Inr b, q) \<and> settled cfg S q \<and>
    (if b then (\<exists>c' < c. on_source cfg lo base S F0 (held F0 p) k k c' q) \<and> \<not> settled cfg S p else alike p q \<and> kept_height cfg S p c = c)"
proof -
  define ms where "ms = unread_markers cfg S p"
  obtain n q where q: "readNewReorgMarkers cfg (resting S) p = (Inr (ms, n), q)" "alike p q" "pl_markers q = pl_markers p" "settled cfg S (q\<lparr>pl_event := n\<rparr>)"
    using markers_read[OF assms(3)] unfolding ms_def by blast
  have quiet: ?thesis if "handleReorgMarkers cfg (resting S) c p = (Inr False, q\<lparr>pl_event := n\<rparr>)" "kept_height cfg S p c = c"
    using that q(2,4) by (intro exI[of _ False] exI[of _ "q\<lparr>pl_event := n\<rparr>"]) (simp add: alike_def)
  show ?thesis
  proof (cases "ms = []")
    case True
    then show ?thesis using q(1) by (intro quiet) (simp_all add: handleReorgMarkers_def kept_height_def ms_def)
  next
    case ms: False
    then have ns: "\<not> settled cfg S p" using settled_unread unfolding ms_def by blast
    then have "\<forall>e \<in> set ms. \<exists>m. marker_height e = Inr m" using assms(3) unfolding markers_readable_def ms_def by blast
    then obtain hs where hs: "rtraverse marker_height ms = Inr hs" "kept_height cfg S p c = min c (foldl min (hd hs) hs - 1)"
      using kept_by_markers[OF _ ms ms_def[symmetric]] by blast
    define f where "f = foldl min (hd hs) hs"
    show ?thesis
    proof (cases "f > c")
      case True
      then show ?thesis using q(1) ms hs by (intro quiet) (simp_all add: handleReorgMarkers_def Let_def f_def[symmetric])
    next
      case le: False
      then have ag: "last_agreeing cfg S p (f - 1) k" using assms(4) hs(2) by (simp add: f_def[symmetric] min_def split: if_splits)
      let ?seed = "\<lambda>q. recorded_or_source cfg (resting S) (f - 1) (q\<lparr>pl_event := n\<rparr>)"
      obtain p1 where p1: "reorg_to cfg (resting S) f None ?seed q = (Inr (), ?seed ((send (ReorgSent f None) p1)\<lparr>pl_last := Some (f - 1)\<rparr>))" "alike q p1" "undisturbed_events q p1"
        using reorg_done by blast
      let ?q = "?seed ((send (ReorgSent f None) p1)\<lparr>pl_last := Some (f - 1)\<rparr>)"
      have rq: "pl_last ?q = Some (f - 1)" "pl_recent ?q = pl_recent p" "pl_sent ?q = pl_sent p @ [ReorgSent f None]" "\<forall>x. pl_recent p (f - 1) = Some x \<longrightarrow> pl_hash ?q = x"
        using recorded_or_source_reseeds(2)[of "f - 1" cfg "resting S" n] q(2) p1(2) by (auto simp: reseeds_def alike_def)
      have kf: "k < f" using ag by (simp add: last_agreeing_def)
      then have "streams cfg lo base F0 ?q" using rewound_streams[OF assms(1,2) _ _ rq] assms(5) le by simp
      moreover have "last_agreeing cfg S ?q (f - 1) k" using ag rq(2) by (simp add: last_agreeing_def)
      moreover have "\<forall>h < k. held F0 ?q h = held F0 p h" using held_snoc[OF rq(3), of F0] kf by simp
      ultimately have "on_source cfg lo base S F0 (held F0 p) k k (f - 1) ?q" using agreeing_on_source[OF _ rq(1)] by blast
      moreover have "settled cfg S ?q"
        using recorded_or_source_undisturbed q(3,4) p1(3) by (auto simp: undisturbed_events_def settled_def)
      moreover have "handleReorgMarkers cfg (resting S) c p = (Inr True, ?q)"
        using q(1) ms hs(1) le p1(1) by (simp add: handleReorgMarkers_def Let_def f_def[symmetric])
      moreover have "f - 1 < c" using le by simp
      ultimately show ?thesis using ns by (intro exI[of _ True] exI[of _ ?q]) auto
    qed
  qed
qed

section \<open>Streaming to the tip\<close>

lemma record_done: "\<exists>p1. record_log cfg (resting S) m p = (Inr (), p1) \<and> alike p p1 \<and> undisturbed_events p p1"
  by (cases "pc_log cfg") (auto simp: record_log_def alike_def undisturbed_events_def)

lemma published_on_source:
  assumes "on_source cfg lo base S F0 G a c c p" "row_identity (pc_decoder cfg) r = Some x" "source_identity (pc_decoder cfg) S (c + 1) = Some x" "1 \<le> lo" "0 \<le> pc_cap cfg"
  shows "on_source cfg lo base S F0 G a (c + 1) (c + 1) ((publishBlockPayload cfg r v (c + 1) p)\<lparr>pl_last := Some (c + 1)\<rparr>)" (is "on_source _ _ _ _ _ _ _ _ _ ?q")
proof -
  have o: "streams cfg lo base F0 p" "pl_last p = Some c" using assms(1) by (auto simp: on_source_def)
  have q: "pl_sent ?q = pl_sent p @ [BlockSent (c + 1) (Some x) (block_message_of r v)]" "pl_last ?q = Some (c + 1)" "pl_recent ?q (c + 1) \<noteq> None"
    using assms(5) by (auto simp: publishBlockPayload_def Let_def assms(2))
  have h: "held F0 ?q = (held F0 p)(c + 1 \<mapsto> Some x)" using held_snoc[OF q(1)] by simp
  show ?thesis
    using assms(1,3) published_streams[OF o assms(2,4,5), of v] q(2,3) unfolding on_source_def h by auto
qed

lemma stream_reaches:
  assumes "on_source cfg lo base S F0 G a c c p" "sound_view (pc_decoder cfg) lo S" "source_tip S = Some t" "1 \<le> lo" "0 \<le> pc_cap cfg" "c \<le> t"
  shows "\<exists>q. stream_loop cfg (resting S) S v t n c p = (Inr (), q) \<and> on_source cfg lo base S F0 G a (min t (c + int n)) (min t (c + int n)) q \<and> undisturbed_events p q"
  using assms(1,6)
proof (induction n arbitrary: c p)
  case 0
  then show ?case by simp
next
  case (Suc n)
  show ?case
  proof (cases "c < t")
    case False
    then show ?thesis using Suc.prems by auto
  next
    case True
    have "lo \<le> c + 1" using on_source_facts(3)[OF Suc.prems(1)] by simp
    then obtain r x where r: "getBlockHashRow S (c + 1) = Some r" "row_identity (pc_decoder cfg) r = Some x" "source_identity (pc_decoder cfg) S (c + 1) = Some x"
      using sound_row[OF assms(2,3)] True by (metis zless_imp_add1_zle)
    obtain p1 where p1: "record_log cfg (resting S) (hr_meta r) (tick p) = (Inr (), p1)" "alike (tick p) p1" "undisturbed_events (tick p) p1" using record_done by blast
    have "on_source cfg lo base S F0 G a c c p1" using on_source_cong[OF _ Suc.prems(1)] p1(2) by (auto simp: alike_def)
    note o = published_on_source[OF this r(2,3) assms(4,5), of v]
    have u: "undisturbed_events p ((publishBlockPayload cfg r v (c + 1) p1)\<lparr>pl_last := Some (c + 1)\<rparr>)"
      using p1(3) by (simp add: undisturbed_events_def publishBlockPayload_def Let_def)
    obtain q where "stream_loop cfg (resting S) S v t n (c + 1) ((publishBlockPayload cfg r v (c + 1) p1)\<lparr>pl_last := Some (c + 1)\<rparr>) = (Inr (), q)"
      "on_source cfg lo base S F0 G a (min t (c + 1 + int n)) (min t (c + 1 + int n)) q"
      "undisturbed_events ((publishBlockPayload cfg r v (c + 1) p1)\<lparr>pl_last := Some (c + 1)\<rparr>) q"
      using Suc.IH[OF o] True by auto
    then show ?thesis using True r(1) p1(1) u by (auto simp: undisturbed_events_def algebra_simps)
  qed
qed

lemma forward_step:
  assumes "on_source cfg lo base S F0 G a c c p" "sound_view (pc_decoder cfg) lo S" "source_tip S = Some t" "1 \<le> lo" "0 \<le> pc_cap cfg"
  shows "\<exists>q. poll_forward cfg (resting S) t c p = (Inr (), q) \<and> on_source cfg lo base S F0 G a (min t (c + 100)) (min t (c + 100)) q \<and> undisturbed_events p q"
proof -
  have ct: "c \<le> t" using top_of_source[OF assms(2,3)] on_source_facts(2)[OF assms(1)] by blast
  show ?thesis
  proof (cases "c = t")
    case True
    then show ?thesis using assms(1) by (auto simp: poll_forward_def)
  next
    case False
    have o: "on_source cfg lo base S F0 G a c c (tick (tick p))" using on_source_cong[OF _ assms(1)] by (auto simp: alike_def)
    obtain q where q: "stream_loop cfg (resting S) S (Some t) t BATCH c (tick (tick p)) = (Inr (), q)"
      "on_source cfg lo base S F0 G a (min t (c + 100)) (min t (c + 100)) q" "undisturbed_events (tick (tick p)) q"
      using stream_reaches[OF o assms(2-5) ct, of "Some t" BATCH] by (auto simp: BATCH_def)
    have "on_source cfg lo base S F0 G a (min t (c + 100)) (min t (c + 100)) (tick q)" using on_source_cong[OF alike_refl(2) q(2)] .
    then show ?thesis
      using q ct False assms(3) by (auto simp: poll_forward_def streamNewBlocks_def undisturbed_events_def)
  qed
qed

section \<open>A poll of a source at rest\<close>

lemma unmarked_step:
  assumes "on_source cfg lo base S F0 G a k c p" "sound_view (pc_decoder cfg) lo S" "source_tip S = Some t" "1 \<le> lo" "0 \<le> pc_cap cfg" "getSourceReplayMarker S = Inr m" "retroactiveFromRules m = None"
  shows "\<exists>q k'. (case pl_hash p of
       None \<Rightarrow> poll_forward cfg (resting S) t c p
     | Some g \<Rightarrow> (case handleNetForwardReorg cfg (resting S) c g p of
           (Inl e, p3) \<Rightarrow> (Inl e, p3) | (Inr True, p3) \<Rightarrow> (Inr (), p3) | (Inr False, p3) \<Rightarrow> poll_forward cfg (resting S) t c p3)) = (Inr (), q) \<and>
     on_source cfg lo base S F0 G a k' k' q \<and> k' = (if k < c then k else min t (c + 100)) \<and> undisturbed_events p q"
proof -
  note f = on_source_facts[OF assms(1)]
  have "window (pc_cap cfg) lo (held F0 p) c (pl_recent p)" using assms(1) by (auto simp: on_source_def streams_def)
  then have "pl_recent p c \<noteq> Some None" unfolding window_def by blast
  then obtain g where g: "pl_hash p = Some g" using f(5) by (cases "pl_hash p") simp_all
  have o: "on_source cfg lo base S F0 G a k c (tick p)" using on_source_cong[OF alike_refl(2) assms(1)] .
  show ?thesis
  proof (cases "k < c")
    case False
    then have kc: "k = c" using assms(1) by (simp add: on_source_def)
    then have "handleNetForwardReorg cfg (resting S) c g p = (Inr False, tick p)" using f(1,5) g by (simp add: handleNetForwardReorg_def)
    moreover obtain q where "poll_forward cfg (resting S) t c (tick p) = (Inr (), q)" "on_source cfg lo base S F0 G a (min t (c + 100)) (min t (c + 100)) q" "undisturbed_events (tick p) q"
      using forward_step[OF o[unfolded kc] assms(2-5)] by blast
    ultimately show ?thesis using g False by (auto simp: undisturbed_events_def)
  next
    case True
    show ?thesis
    proof (cases "c \<le> t")
      case ct: True
      from net_forward_step[OF assms(1) True assms(2,3,4) ct g] show ?thesis using g True by auto
    next
      case ct: False
      then have "source_identity (pc_decoder cfg) S c = None" using top_of_source[OF assms(2,3), of c] by auto
      then have "handleNetForwardReorg cfg (resting S) c g p = (Inr False, tick p)" by (simp add: handleNetForwardReorg_def)
      moreover obtain q where "handleHeightDropReorg cfg (resting S) t (tick p) = (Inr (), q)" "on_source cfg lo base S F0 G a k k q" "undisturbed_events (tick p) q"
        using height_drop_step[OF o True assms(2,3,4) _ assms(6,7)] ct by auto
      ultimately show ?thesis using g True ct by (auto simp: poll_forward_def undisturbed_events_def)
    qed
  qed
qed

lemma quiet_poll:
  assumes "on_source cfg lo base S F0 G a k c p" "handleReorgMarkers cfg (resting S) c (tick p) = (Inr False, q)" "alike (tick p) q" "settled cfg S q"
    and "sound_view (pc_decoder cfg) lo S" "source_tip S = Some t" "1 \<le> lo" "0 \<le> pc_cap cfg" "getSourceReplayMarker S = Inr m" "retroactiveFromRules m = None"
  shows "\<exists>q' k'. poll cfg (resting S) p = (Inr (), q') \<and> on_source cfg lo base S F0 G a k' k' q' \<and> k' = (if k < c then k else min t (c + 100)) \<and> settled cfg S q'"
proof -
  have l: "pl_last p = Some c" using assms(1) by (simp add: on_source_def)
  have oq: "on_source cfg lo base S F0 G a k c q" using on_source_cong[OF alike_trans[OF alike_refl(2) assms(3)] assms(1)] .
  obtain q' k' where q': "(case pl_hash q of
       None \<Rightarrow> poll_forward cfg (resting S) t c q
     | Some g \<Rightarrow> (case handleNetForwardReorg cfg (resting S) c g q of
           (Inl e, p3) \<Rightarrow> (Inl e, p3) | (Inr True, p3) \<Rightarrow> (Inr (), p3) | (Inr False, p3) \<Rightarrow> poll_forward cfg (resting S) t c p3)) = (Inr (), q')"
    "on_source cfg lo base S F0 G a k' k' q'" "k' = (if k < c then k else min t (c + 100))" "undisturbed_events q q'"
    using unmarked_step[OF oq assms(5-10)] by blast
  have "settled cfg S q'" using settled_cong[OF q'(4)] assms(4) by simp
  moreover have "poll cfg (resting S) p = (Inr (), q')" using q'(1) assms(2,6) l by (simp add: poll_def)
  ultimately show ?thesis using q'(2,3) by blast
qed

lemma settled_poll:
  assumes "on_source cfg lo base S F0 G a k c p" "settled cfg S p"
    and "sound_view (pc_decoder cfg) lo S" "source_tip S = Some t" "1 \<le> lo" "0 \<le> pc_cap cfg" "getSourceReplayMarker S = Inr m" "retroactiveFromRules m = None"
  shows "\<exists>q k'. poll cfg (resting S) p = (Inr (), q) \<and> on_source cfg lo base S F0 G a k' k' q \<and> k' = (if k < c then k else min t (c + 100)) \<and> settled cfg S q"
proof -
  have o: "on_source cfg lo base S F0 G a k c (tick p)" using on_source_cong[OF alike_refl(2) assms(1)] .
  have st: "settled cfg S (tick p)" using settled_cong[OF undisturbed_events_simps(2)] assms(2) by blast
  have "streams cfg lo base F0 (tick p)" "pl_last (tick p) = Some c" using o by (simp_all add: on_source_def)
  from markers_step[OF this _ _ on_source_facts(3)[OF o]] obtain b q where
    "handleReorgMarkers cfg (resting S) c (tick p) = (Inr b, q)" "settled cfg S q" "\<not> b" "alike (tick p) q"
    using on_source_agreeing[OF o] settled_kept[OF st] st by (force simp: markers_readable_def)
  then show ?thesis using quiet_poll[OF assms(1) _ _ _ assms(3-8)] by auto
qed

text \<open>The first poll of the source at rest, which reads the markers.\<close>

lemma first_rest_poll:
  assumes "streams cfg lo base F0 p" "pl_last p = Some c" "markers_readable cfg S p" "last_agreeing cfg S p (kept_height cfg S p c) k" "lo \<le> k"
    and "sound_view (pc_decoder cfg) lo S" "source_tip S = Some t" "1 \<le> lo" "0 \<le> pc_cap cfg" "getSourceReplayMarker S = Inr m" "retroactiveFromRules m = None"
  shows "\<exists>q k' c'. poll cfg (resting S) p = (Inr (), q) \<and> on_source cfg lo base S F0 (held F0 p) k k' c' q \<and> settled cfg S q \<and>
    (k' = k \<or> k \<le> k' \<and> c' = k' \<and> k' = min t (k + 100))"
proof -
  have tk: "kept_height cfg S (tick p) c = kept_height cfg S p c" "last_agreeing cfg S (tick p) d k = last_agreeing cfg S p d k" "markers_readable cfg S (tick p) = markers_readable cfg S p" for d
    by (simp_all add: kept_height_def unread_markers_def last_agreeing_def markers_readable_def settled_def)
  have st: "streams cfg lo base F0 (tick p)" "pl_last (tick p) = Some c" using alike_streams[OF alike_refl(2) assms(1)] assms(2) by simp_all
  obtain b q where b: "handleReorgMarkers cfg (resting S) c (tick p) = (Inr b, q)" "settled cfg S q"
    "if b then (\<exists>c' < c. on_source cfg lo base S F0 (held F0 (tick p)) k k c' q) \<and> \<not> settled cfg S (tick p) else alike (tick p) q \<and> kept_height cfg S (tick p) c = c"
    using markers_step[OF st _ _ assms(5), of S] assms(3,4) unfolding tk by blast
  have h: "held F0 (tick p) = held F0 p" by (simp add: held_def)
  show ?thesis
  proof (cases b)
    case True
    then show ?thesis using b assms(2,7) unfolding h by (auto simp: poll_def)
  next
    case False
    then have ag: "last_agreeing cfg S p c k" using b(3) assms(4) by (simp add: tk)
    have o: "on_source cfg lo base S F0 (held F0 p) k k c p" by (rule agreeing_on_source[OF assms(1,2) ag]) simp
    have "k \<le> c" "k \<le> t" using ag top_of_source[OF assms(6,7)] on_source_facts(2)[OF o] by (auto simp: last_agreeing_def)
    moreover have "handleReorgMarkers cfg (resting S) c (tick p) = (Inr False, q)" "alike (tick p) q" using b(1,3) False by simp_all
    ultimately show ?thesis using quiet_poll[OF o _ _ b(2) assms(6-11)] by (fastforce simp: min_def split: if_splits)
  qed
qed

definition polls_needed :: "int \<Rightarrow> int \<Rightarrow> int \<Rightarrow> nat" where
  "polls_needed t k c = (if k < c then 1 else 0) + nat ((t - k + 99) div 100)"

lemma batch_progress: "k \<le> t \<Longrightarrow> nat ((t - min t (k + 100) + 99) div 100) \<le> nat ((t - k + 99) div 100) - 1"
  by (cases "t \<le> k + 100") (auto simp: min_def nat_le_eq_zle)

lemma converges:
  assumes "on_source cfg lo base S F0 G a k c p" "settled cfg S p" "polls_needed t k c \<le> n"
    and "sound_view (pc_decoder cfg) lo S" "source_tip S = Some t" "1 \<le> lo" "0 \<le> pc_cap cfg" "getSourceReplayMarker S = Inr m" "retroactiveFromRules m = None"
  shows "on_source cfg lo base S F0 G a t t (polls cfg (resting S) n p)"
  using assms(1-3)
proof (induction n arbitrary: k c p)
  case 0
  have kt: "k \<le> t" using top_of_source[OF assms(4,5)] on_source_facts(2)[OF "0.prems"(1)] by blast
  have "\<not> k < c" "nat ((t - k + 99) div 100) = 0" using "0.prems"(3) by (auto simp: polls_needed_def split: if_splits)
  then have "k = t" using kt by linarith
  moreover have "k = c" using \<open>\<not> k < c\<close> "0.prems"(1) by (simp add: on_source_def)
  ultimately show ?case using "0.prems"(1) by simp
next
  case (Suc n)
  have kt: "k \<le> t" "k \<le> c" using top_of_source[OF assms(4,5)] on_source_facts(2)[OF Suc.prems(1)] Suc.prems(1) by (auto simp: on_source_def)
  obtain q k' where q: "poll cfg (resting S) p = (Inr (), q)" "on_source cfg lo base S F0 G a k' k' q" "settled cfg S q" "k' = (if k < c then k else min t (c + 100))"
    using settled_poll[OF Suc.prems(1,2) assms(4-9)] by blast
  have "polls_needed t k' k' \<le> n"
  proof (cases "k < c")
    case True
    then show ?thesis using q(4) Suc.prems(3) by (simp add: polls_needed_def)
  next
    case False
    then have "k = c" using kt by simp
    then have "polls_needed t k' k' = nat ((t - min t (k + 100) + 99) div 100)" using q(4) False by (simp add: polls_needed_def)
    also have "\<dots> \<le> nat ((t - k + 99) div 100) - 1" by (rule batch_progress[OF kt(1)])
    also have "\<dots> \<le> n" using Suc.prems(3) unfolding polls_needed_def by simp
    finally show ?thesis .
  qed
  then show ?case using Suc.IH[OF q(2,3)] q(1) by simp
qed

section \<open>Properties\<close>

text \<open>(C9) Let every view of the source have a block with an identity at each height from \<open>lo\<close> to its tip and reorg markers only for
  such heights, and let the log have no row below \<open>lo\<close>.  Then, over every sequence of such views and of faults after a start, either
  the broadcast blocks are consecutive from the cursor of the start and every reorg starts at or below the last one sent, each recorded
  identity at or below the cursor is the one the subscribers hold, nothing is held above the cursor, and the recorded window below the
  cursor is an unbroken run of at most its size plus one; or a reorg was sent, after such a stream, for the active replay marker of a view,
  whose target lies above the last height sent or below \<open>lo\<close>.\<close>

theorem poller_stream_sound:
  assumes "sound_world (pc_decoder cfg) lo w" "1 \<le> lo" "0 \<le> pc_cap cfg" "\<forall>r \<in> set (sync_meta db). lo \<le> mt_block r"
    and "p0 = snd (start cfg w (fresh_poller db n))" "p = polls cfg w m p0" "pl_last p = Some c"
  shows "strayed lo w (pl_last p0) (pl_sent p) \<or>
    starts_from (pl_last p0) (pl_sent p) c \<and>
    (\<forall>h x. h \<le> c \<longrightarrow> pl_recent p h = Some x \<longrightarrow> held (pl_recent p0) p h = Some x) \<and>
    (\<forall>h > c. held (pl_recent p0) p h = None) \<and>
    card (dom (pl_recent p) \<inter> {..c}) \<le> nat (pc_cap cfg) + 1 \<and>
    (\<forall>h h'. pl_recent p h \<noteq> None \<longrightarrow> h \<le> h' \<longrightarrow> h' \<le> c \<longrightarrow> pl_recent p h' \<noteq> None)"
proof (cases "strayed lo w (pl_last p0) (pl_sent p)")
  case False
  then have "streams cfg lo (pl_last p0) (pl_recent p0) p"
    unfolding assms(6) using polls_streams[OF start_streams[OF assms(1,4,3), of n, folded assms(5)] assms(1-3)] by blast
  then have s: "starts_from (pl_last p0) (pl_sent p) c" "window (pc_cap cfg) lo (held (pl_recent p0) p) c (pl_recent p)" "\<forall>h > c. held (pl_recent p0) p h = None"
    using assms(7) by (auto simp: streams_def)
  have "held (pl_recent p0) p h = Some x" if "h \<le> c" "pl_recent p h = Some x" for h x
    using s(2) that unfolding window_def by (metis option.distinct(1))
  moreover have "pl_recent p h' \<noteq> None" if "pl_recent p h \<noteq> None" "h \<le> h'" "h' \<le> c" for h h'
    using s(2) that unfolding window_def by (meson order_trans)
  ultimately show ?thesis using s window_size[OF s(2) assms(3)] by blast
qed simp

text \<open>(C8) Let the source come to rest at a view without gaps that no replay is under way on, and let its unread reorg markers be
  readable.  Take any state a poller gets into over views and faults as above, unless a replay marker sent it outside its chain before,
  and let \<open>k\<close> be the last recorded height that those markers leave and at which the recorded identity is the source's.  Two polls and
  one for each hundred blocks then bring the cursor to the tip, the subscribers hold the source's block at every height from \<open>k\<close> to the
  tip and nothing above it, and below \<open>k\<close> what they held before; later polls keep it so.  Nothing is claimed where no recorded height
  agrees with the source, and blocks below \<open>k\<close> may be of another chain (see \<^verbatim>\<open>reorg_between_guard_and_snapshot\<close> below).\<close>

theorem poller_converges:
  assumes "sound_world (pc_decoder cfg) lo w" "1 \<le> lo" "0 \<le> pc_cap cfg" "\<forall>r \<in> set (sync_meta db). lo \<le> mt_block r"
    and "p0 = snd (start cfg w (fresh_poller db n))" "p = polls cfg w m p0" "pl_last p = Some c" "\<not> strayed lo w (pl_last p0) (pl_sent p)"
    and "sound_view (pc_decoder cfg) lo S" "source_tip S = Some t" "getSourceReplayMarker S = Inr mk" "retroactiveFromRules mk = None"
    and "markers_readable cfg S p" "last_agreeing cfg S p (kept_height cfg S p c) k"
    and "2 + nat ((t - k + 99) div 100) \<le> j" "q = polls cfg (resting S) j p"
  shows "pl_last q = Some t \<and> (\<forall>h. k \<le> h \<longrightarrow> h \<le> t \<longrightarrow> held (pl_recent p0) q h = Some (source_identity (pc_decoder cfg) S h)) \<and>
    (\<forall>h > t. held (pl_recent p0) q h = None) \<and> (\<forall>h < k. held (pl_recent p0) q h = held (pl_recent p0) p h)"
proof -
  let ?b = "pl_last p0" and ?F = "pl_recent p0"
  have st: "streams cfg lo ?b ?F p"
    using assms(8) polls_streams[OF start_streams[OF assms(1,4,3), of n, folded assms(5)] assms(1-3)] unfolding assms(6) by blast
  then have "lo \<le> k" using assms(7,14) unfolding streams_def window_def last_agreeing_def by (auto split: option.splits)
  from first_rest_poll[OF st assms(7,13,14) this assms(9,10,2,3,11,12)] obtain p1 k' c' where
    p1: "poll cfg (resting S) p = (Inr (), p1)" "on_source cfg lo ?b S ?F (held ?F p) k k' c' p1" "settled cfg S p1"
    "k' = k \<or> k \<le> k' \<and> c' = k' \<and> k' = min t (k + 100)" by blast
  obtain i where i: "j = Suc i" using assms(15) by (cases j) auto
  have "nat ((t - k' + 99) div 100) \<le> nat ((t - k + 99) div 100)" using p1(4) by (intro nat_mono zdiv_mono1) auto
  then have "polls_needed t k' c' \<le> i" using assms(15) i unfolding polls_needed_def by simp
  from converges[OF p1(2,3) this assms(9,10,2,3,11,12)]
  have f: "on_source cfg lo ?b S ?F (held ?F p) k t t q" unfolding assms(16) i using p1(1) by simp
  then have "pl_last q = Some t" "streams cfg lo ?b ?F q" by (simp_all add: on_source_def)
  then show ?thesis using f unfolding on_source_def by (simp add: streams_def)
qed

section \<open>A source that forks\<close>

definition poll_demo_rows :: "string list \<Rightarrow> hash_row list" where
  "poll_demo_rows hs = map (\<lambda>(i, x). \<lparr>hr_meta = \<lparr>mt_block = int i + 1, mt_time = 0, mt_ledger = None, mt_actions = None, mt_contract = None\<rparr>, hr_block_hash = Some x, hr_state = None\<rparr>)
     (enumerate 0 hs)"

definition poll_demo_source :: "string list \<Rightarrow> source_view" where
  "poll_demo_source hs = \<lparr>sv_rows = poll_demo_rows hs, sv_events = []\<rparr>"

definition demo_poller_cfg :: poller_cfg where
  "demo_poller_cfg = \<lparr>pc_decoder = True, pc_cap = 256, pc_log = None, pc_hash = (\<lambda>x. x)\<rparr>"

definition poll_demo_log :: log_db where
  "poll_demo_log = \<lparr>sync_meta = [], merkle_epochs = [], merkle_reorgs = [], src_rows = []\<rparr>"

definition old_branch :: source_view where "old_branch = poll_demo_source [''a1'', ''a2'', ''a3'']"
definition new_branch :: source_view where "new_branch = poll_demo_source [''a1'', ''b2'', ''b3'', ''b4'']"

definition demo_started :: poller where
  "demo_started = snd (start demo_poller_cfg (resting old_branch) (fresh_poller poll_demo_log 0))"

lemmas demo_defs = old_branch_def new_branch_def poll_demo_source_def poll_demo_rows_def eval_nat_numeral

lemma demo_recent: "pl_recent demo_started = [1 \<mapsto> Some ''a1'', 2 \<mapsto> Some ''a2'', 3 \<mapsto> Some ''a3'']"
  by (simp add: demo_started_def start_def repair_gaps_def initializeReorgMarkerCursor_def demo_poller_cfg_def resumeCursor_def seedReorgWindow_def readReorgWindow_def
      source_tip_def sql_max_def fresh_poller_def strict_read_def tick_def demo_defs)

lemma demo_sound: "sound_view True 1 old_branch" "sound_view True 1 new_branch"
proof -
  have t: "source_tip old_branch = Some 3" "source_tip new_branch = Some 4" by code_simp+
  have "source_identity True old_branch h \<noteq> None" if "1 \<le> h" "h \<le> 3" for h
  proof -
    have "h = 1 \<or> h = 2 \<or> h = 3" using that by linarith
    then show ?thesis by (elim disjE) (simp_all add: source_identity_def getBlockHashRow_def row_identity_def demo_defs)
  qed
  moreover have "source_identity True new_branch h \<noteq> None" if "1 \<le> h" "h \<le> 4" for h
  proof -
    have "h = 1 \<or> h = 2 \<or> h = 3 \<or> h = 4" using that by linarith
    then show ?thesis by (elim disjE) (simp_all add: source_identity_def getBlockHashRow_def row_identity_def demo_defs)
  qed
  moreover have "\<forall>r \<in> set (sv_rows old_branch). 1 \<le> mt_block (hr_meta r)" "\<forall>r \<in> set (sv_rows new_branch). 1 \<le> mt_block (hr_meta r)"
    by (simp_all add: demo_defs)
  ultimately show "sound_view True 1 old_branch" "sound_view True 1 new_branch"
    using t by (auto simp: sound_view_def old_branch_def new_branch_def poll_demo_source_def)
qed

theorem poller_stream_sound_witness:
  "starts_from (Some 3) (pl_sent (polls demo_poller_cfg (resting old_branch) 2 demo_started)) 3 \<and>
   pl_last (polls demo_poller_cfg (resting old_branch) 2 demo_started) = Some 3"
proof -
  have l: "pl_last (polls demo_poller_cfg (resting old_branch) 2 demo_started) = Some 3" "pl_last demo_started = Some 3" by code_simp+
  have s: "sound_world (pc_decoder demo_poller_cfg) 1 (resting old_branch)" using demo_sound(1) by (simp add: sound_world_def demo_poller_cfg_def)
  have c: "0 \<le> pc_cap demo_poller_cfg" "\<forall>r \<in> set (sync_meta poll_demo_log). 1 \<le> mt_block r" by (simp_all add: demo_poller_cfg_def poll_demo_log_def)
  have "getSourceReplayMarker old_branch = Inr None" by code_simp
  then have "\<not> strayed 1 (resting old_branch) (pl_last demo_started) es" for es by (auto simp: strayed_def announced_def retroactiveFromRules_def)
  then show ?thesis using poller_stream_sound[OF s _ c demo_started_def refl l(1)] l by simp
qed

text \<open>The source replaces its second and third block and goes on: the reorg is found at height 2.\<close>

theorem poller_converges_witness:
  "pl_last (polls demo_poller_cfg (resting new_branch) 3 demo_started) = Some 4 \<and>
   held (pl_recent demo_started) (polls demo_poller_cfg (resting new_branch) 3 demo_started) 3 = Some (Some ''b3'')"
proof -
  have l: "pl_last demo_started = Some 3" "source_tip new_branch = Some 4" "getSourceReplayMarker new_branch = Inr None" "getSourceReplayMarker old_branch = Inr None" by code_simp+
  have s: "sound_world (pc_decoder demo_poller_cfg) 1 (resting old_branch)" "sound_view (pc_decoder demo_poller_cfg) 1 new_branch"
    using demo_sound by (simp_all add: sound_world_def demo_poller_cfg_def)
  have c: "0 \<le> pc_cap demo_poller_cfg" "\<forall>r \<in> set (sync_meta poll_demo_log). 1 \<le> mt_block r" by (simp_all add: demo_poller_cfg_def poll_demo_log_def)
  have p: "demo_started = polls demo_poller_cfg (resting old_branch) 0 demo_started" by simp
  have ns: "\<not> strayed 1 (resting old_branch) (pl_last demo_started) (pl_sent demo_started)" using l(4) by (auto simp: strayed_def announced_def retroactiveFromRules_def)
  have i: "source_identity True new_branch 1 = Some ''a1''" "source_identity True new_branch 2 = Some ''b2''" "source_identity True new_branch 3 = Some ''b3''" by code_simp+
  have m: "settled demo_poller_cfg new_branch demo_started" by (simp add: settled_def demo_poller_cfg_def)
  have a: "last_agreeing demo_poller_cfg new_branch demo_started (kept_height demo_poller_cfg new_branch demo_started 3) 1"
    unfolding settled_kept[OF m] last_agreeing_def
  proof (intro conjI allI impI)
    fix h :: int
    assume "1 < h" "h \<le> 3"
    then have "h = 2 \<or> h = 3" by linarith
    then show "pl_recent demo_started h \<noteq> Some (source_identity (pc_decoder demo_poller_cfg) new_branch h)" using i by (auto simp: demo_recent demo_poller_cfg_def)
  qed (use i in \<open>simp_all add: demo_recent demo_poller_cfg_def\<close>)
  have r: "markers_readable demo_poller_cfg new_branch demo_started" "retroactiveFromRules None = None" "2 + nat ((4 - 1 + 99) div 100) \<le> 3"
    using m by (simp_all add: markers_readable_def retroactiveFromRules_def)
  from poller_converges[OF s(1) _ c demo_started_def p l(1) ns s(2) l(2,3) r(2,1) a r(3) refl]
  show ?thesis using i by (simp add: demo_poller_cfg_def)
qed

section \<open>Two ways past the fork\<close>

text \<open>The guard and the snapshot are separate reads.  A source that replaces its chain between them has its new blocks streamed on top of
  the old ones: no reorg is sent, the next guard is of the new chain, and the subscribers keep the old blocks for good.  The indexer's
  markers show such a reorg at the next poll; a decoder has none.\<close>

lemma reorg_between_guard_and_snapshot:
  "let w = (\<lambda>n. View (if n \<le> pl_clock demo_started + 1 then poll_demo_source [''a1'', ''a2'', ''a3'', ''a4''] else new_branch));
       q = snd (poll demo_poller_cfg w demo_started) in
   map (\<lambda>e. case e of BlockSent h x m \<Rightarrow> (h, x) | ReorgSent f r \<Rightarrow> (f, None)) (pl_sent q) = [(4, Some ''b4'')] \<and>
   map (held (pl_recent demo_started) q) [1, 2, 3, 4] = [Some (Some ''a1''), Some (Some ''a2''), Some (Some ''a3''), Some (Some ''b4'')] \<and>
   pl_sent (polls demo_poller_cfg (resting new_branch) 5 q) = pl_sent q"
  by code_simp

text \<open>While a replay marker is active a drop in height rewinds to the marker's target whatever the fork is; with the target above the
  cursor the cursor moves up over blocks that were never sent.\<close>

definition replaying_source :: source_view where
  "replaying_source = \<lparr>sv_rows = poll_demo_rows [''a1'', ''c2''],
     sv_events = [\<lparr>se_id = 1, se_code = ''CONSENSUS_RETRO_REPLAY'', se_data = JObj [(''target'', JNum (Fin 9)), (''replay_to'', JNum (Fin 20)),
       (''rules_from'', JStr (replicate 64 (CHR ''0''))), (''rules_to'', JStr (replicate 64 (CHR ''1''))), (''state'', JStr ''replaying'')]\<rparr>]\<rparr>"

lemma replay_target_above_cursor:
  "let q = snd (poll demo_poller_cfg (resting replaying_source) demo_started) in
   pl_last demo_started = Some 3 \<and> pl_last q = Some 8 \<and>
   map (\<lambda>e. case e of BlockSent h x m \<Rightarrow> (h, None) | ReorgSent f r \<Rightarrow> (f, map_option ra_target r)) (pl_sent q) = [(9, Some 9)]"
  by code_simp

end
