(* ===== verification/Spec2Isabelle.thy ===== *)
theory Spec2Isabelle
  imports Block_Roots Orphan_Stats Gate_Load Checkpoint Log_Proofs Verified_Tip Halt_Durability Source_Quorum Anchor_Proofs Live_Proofs Hash_Binding Ledger_Runs Poller_Convergence
begin

text \<open>
  A verification development for xchain-sync, the replication service of the XChain platform.
  A source server follows an indexer database, records the hashes of every block in a
  transparency log and serves blocks; a replica client applies them, recomputes their hashes,
  commits to its own state with Merkle trees and stops when anything disagrees.  The paths
  below are relative to \<^verbatim>\<open>src/src\<close>.

  \<^bold>\<open>Layers and theories.\<close>

  \<^item> \<open>Sync_Prelude\<close>, \<open>JS_Values\<close>: octets, JavaScript strings and values, results that may throw,
    statement sequences that may be cut short by a fault (locale \<open>resumable\<close>).
  \<^item> \<open>Merkle_Primitives\<close> (\<^verbatim>\<open>merkle/primitives.js\<close>), \<open>Sparse_Merkle\<close> and \<open>Fixed_Merkle\<close>
    (\<^verbatim>\<open>merkle.js\<close>): the byte layer, the reference sparse tree with its proofs and their
    compressed form, the padded tree, the state root and the leaves of a block.  Proofs verify, proofs
    bind, roots depend on the leaf map only, amounts have one normal form.
  \<^item> \<open>Persistent_SMT\<close> (\<^verbatim>\<open>state_commitment/index.js\<close>, \<^verbatim>\<open>db/subtree/node_store_rows.js\<close>): the
    content-addressed engine.  It calls its store through the locale \<open>node_store\<close>, interpreted for the
    memory and the database store, and refines the reference tree.
  \<^item> \<open>Journaled_Leaves\<close>, \<open>State_Commitment\<close>, \<open>Contract_State_Root\<close>, \<open>Balances_Root\<close>, \<open>Block_Roots\<close>,
    \<open>Orphan_Stats\<close> (\<^verbatim>\<open>state_commitment/index.js\<close>, \<^verbatim>\<open>contract_state_subtree.js\<close>,
    \<^verbatim>\<open>escrow_leaf_subtree.js\<close>, \<^verbatim>\<open>db/subtree/orphan_stats_reads.js\<close>): the roots of a block, threaded from the
    previous block or rebuilt.  The journals meet the trees in a locale of leaf sources,
    interpreted for contract state, spendable and locked balances; every branch commits the
    reference tree, the stored row reassembles, and the reachability report is exact.
  \<^item> \<open>Gate_Registry\<close>, \<open>Gate_Load\<close>, \<open>Activation_Gates\<close> (\<^verbatim>\<open>consensus/gate_registry\<close>,
    \<^verbatim>\<open>consensus/gates\<close>, \<^verbatim>\<open>consensus/equivocation_header.js\<close>, \<^verbatim>\<open>consensus/snapshot_reorg_buffer.js\<close>): the registry of
    activation heights with its committed rows, its overlay of the environment, and the gates that read
    it.  Registration never fails on the committed rows, reads follow the environment, gates fail closed.
  \<^item> \<open>Stake_Quorum\<close>, \<open>Checkpoint\<close> (\<^verbatim>\<open>consensus/stake_weighted_quorum.js\<close>, \<^verbatim>\<open>checkpoint.js\<close>,
    \<^verbatim>\<open>client/supersede_suffix.js\<close>): the two-thirds test and the local verification of a signed checkpoint.
    The tests are exact, quorums intersect, malformed input is refused, the signed text binds.
  \<^item> \<open>Log_Tree\<close>, \<open>Transparency_Log\<close>, \<open>Log_Proofs\<close> (\<^verbatim>\<open>server/merkle_tree.js\<close>,
    \<^verbatim>\<open>server/transparency_log.js\<close>, \<^verbatim>\<open>db/merkle_epochs.js\<close>, the gap repair of \<^verbatim>\<open>server/poller.js\<close>): the log as
    three tables, its operations, and the runs of them as an inductive relation.  In every
    reachable log a proof that is handed out verifies; prunes resume after faults; retention
    takes whole epochs; pages partition the log.
  \<^item> \<open>Server_Poller\<close>, \<open>Poller_Proofs\<close>, \<open>Poller_Convergence\<close> (\<^verbatim>\<open>server/poller.js\<close>, \<^verbatim>\<open>server/poller\<close>, \<^verbatim>\<open>db/events.js\<close>,
    \<^verbatim>\<open>db/blocks.js\<close>): the cursor of the source server, its reorg guard and the window of recorded
    identities, the walk back to a fork, and the stream over one pinned snapshot.  Each read sees
    the source of its moment or a fault.  The stream is consecutive and the window is what the subscribers hold, until a replay
    marker sends the cursor outside the broadcast chain; once the source rests the subscribers reach its tip in a bounded
    number of polls, from the last recorded height that agrees.
  \<^item> \<open>Client_State\<close>, \<open>Rollback_Bound\<close>, \<open>Verified_Tip\<close>, \<open>Halt_Durability\<close>
    (\<^verbatim>\<open>client/rollback_guard.js\<close>, \<^verbatim>\<open>client/retroactive_admission.js\<close>, \<^verbatim>\<open>client/verified_tip.js\<close>,
    \<^verbatim>\<open>client/halt_persistence.js\<close>, \<^verbatim>\<open>db/sync_halt.js\<close>, \<^verbatim>\<open>db/sync_meta.js\<close> and the parts of \<^verbatim>\<open>client/sync.js\<close> that
    call them): one record of the client, its durable tables included.  Split rewinds stay within the
    limit as long as restarts can read the saved streak, the marker vouches only for blocks that recompute to their
    stored hashes or to those a live event carried, halts outlive the process.
  \<^item> \<open>Source_Votes\<close>, \<open>Live_Events\<close>, \<open>Source_Quorum\<close> (\<^verbatim>\<open>client/sync.js\<close>, \<^verbatim>\<open>client/hash_verifier.js\<close>): the tally
    of the sources' reports, strikes, evictions, timeouts, votes on reorgs and the dispatch of
    live blocks.  Blocks and reorgs are applied on the backing of a quorum of distinct active sources or, without strict
    confirmation (the default), by the timers below it; while the sources outside a faulty minority tell one story none of
    them is evicted and, up to two named exceptions, their story is what is applied.
  \<^item> \<open>Anchor_Cycle\<close>, \<open>Anchor_Proofs\<close> (\<^verbatim>\<open>client/sync.js\<close>, \<^verbatim>\<open>client/supersede_suffix.js\<close>): one checkpoint
    anchor cycle with the rotation walk from the pinned seed and its durable marks.  A verified
    anchor rests on the pinned quorum or an attested chain of rotations; a mark never falls while every startup can read it.
  \<^item> \<open>Live_Apply\<close>, \<open>Live_Proofs\<close> (\<^verbatim>\<open>client/sync.js\<close>): a live block from its gates to the new tip, with the tasks that
    interleave.  It becomes the tip exactly when its rows and roots recompute to what it carries.
  \<^item> \<open>Json_Text\<close>, \<open>Block_Hasher\<close>, \<open>Hash_Binding\<close> (\<^verbatim>\<open>client/block_hasher.js\<close>, \<^verbatim>\<open>util/index.js\<close>,
    \<^verbatim>\<open>util/protocol_address_roles.js\<close>): the queries, the preimages and the JSON text of the three chained hashes.
    They do not depend on the order of the stored rows, and a tip's hashes bind the history behind it.
  \<^item> \<open>Row_Store\<close>, \<open>Row_Writes\<close>, \<open>Table_Lifecycle\<close>, \<open>Wire_Codec\<close>, \<open>Input_Validation\<close> (\<^verbatim>\<open>db\<close>, \<^verbatim>\<open>schema\<close>,
    \<^verbatim>\<open>util/validation.js\<close>, \<^verbatim>\<open>sql/migrations/runner.js\<close>): typed rows and the statements over them with schema gaps,
    faults and transactions, the registry of tables, the values on the wire, and the statements built from served
    table definitions.  Columns survive the way over the wire.
  \<^item> \<open>Ledger_Aggregates\<close>, \<open>Token_Refold\<close>, \<open>Client_Rollback\<close>, \<open>Block_Applier\<close> (\<^verbatim>\<open>db/balance_helpers.js\<close>,
    \<^verbatim>\<open>db/token_refold.js\<close>, \<^verbatim>\<open>client/rollback.js\<close>, \<^verbatim>\<open>client/applier.js\<close>): every statement of a live block, a snapshot, a
    dispenser replacement and a rollback, in order.  Over them \<open>Ledger_Proofs\<close>, \<open>Rollback_Proofs\<close>, \<open>Rollback_Scope\<close>,
    \<open>Applier_Proofs\<close>, \<open>Ledger_Steps\<close> and \<open>Ledger_Runs\<close>: an operation takes effect whole or not at all, no orphaned row
    stays in a table that is unwound by row, and balances are those of the ledger rows over every run with faults.

  \<^bold>\<open>How code is rendered.\<close>  Objects are records, tagged values datatypes, throwing code the
  sum type of the prelude, tables the lists of their rows in insertion order, and awaited
  operations return the updated state.  A statement that may fail takes a flag that says
  whether it does.  Where the client awaits a recompute while other tasks run, the model takes the
  effect of those tasks as a function of the state, restricted to the steps the code allows.

  \<^bold>\<open>Parameters.\<close>  SHA-256 is \<open>H\<close>, Ed25519 verification \<open>ed\<close>, the decimal arithmetic of
  \<^verbatim>\<open>mathjs\<close> the record \<open>bignum\<close>, the server's cast of text to decimals \<open>cast\<close>.  Binding results name
  the finite set of messages on which \<open>H\<close> would have to collide.

  \<^bold>\<open>Bounds and loops.\<close>  No definition uses fuel: every loop is a terminating function, by
  structure or by a measure (the height left in a walk, the rows left in a page scan, the nodes not
  yet visited by the report).  JavaScript numbers are exact rationals or integers, so the
  results are those of the machine while integers stay below \<open>2 ^ 53\<close>; the base-256
  and depth arithmetic of the trees stays far below that.

  \<^bold>\<open>Not modelled.\<close>  The state-hash sections (preimages over rows mutated in place; the client
  carries the recomputed state hash with each block), the table rows of a payload and of a snapshot on the
  source (queries over every replicated table), derived rewards, bootstrap and catch-up downloads of
  \<^verbatim>\<open>client/sync.js\<close>, the DDL of start-up, the advisory checksums and the status page (they only feed
  logs), the transport (\<^verbatim>\<open>api.js\<close>, \<^verbatim>\<open>http\<close>, the broadcaster), configuration, logs, metrics and
  connection handling.
\<close>

end
